(* ===== verification/Prelude.thy ===== *)
theory Prelude
  imports Main "HOL-Library.Word"
begin

text \<open>
  Shared vocabulary of the development.

  A Soroban contract call either returns a value, returns one of the contract's own error
  codes, or traps in the host (a failed \<open>require_auth\<close>, a failed cross-contract call, an
  \<open>expect\<close> on \<open>None\<close>, an overflowing host integer). The last two roll the whole invocation
  back, so a handler is a function from the storage before the call to
  \<open>fault + (result \<times> storage)\<close>: a fault carries no storage.

  Hash values, field elements and token amounts keep their width as machine words
  (\<open>U256\<close> is \<^typ>\<open>256 word\<close>, \<open>u128\<close> is \<^typ>\<open>128 word\<close>). Counters and indexes
  (\<open>u32\<close>, \<open>u64\<close>) are natural numbers whose checked arithmetic writes the width out.
\<close>

named_theorems result_simps \<open>rewriting successful and failing runs of result chains\<close>
named_theorems width_simps \<open>unfolding checked machine arithmetic on naturals\<close>

section \<open>Results\<close>

datatype 'e fault = Err 'e | Trap

type_synonym ('e, 'a) result = "'e fault + 'a"

definition and_then :: "('e, 'a) result \<Rightarrow> ('a \<Rightarrow> ('e, 'b) result) \<Rightarrow> ('e, 'b) result" where
  "and_then r f = (case r of Inl e \<Rightarrow> Inl e | Inr x \<Rightarrow> f x)"

definition ok_or :: "'a option \<Rightarrow> 'e \<Rightarrow> ('e, 'a) result" where
  "ok_or v e = (case v of None \<Rightarrow> Inl (Err e) | Some x \<Rightarrow> Inr x)"

definition unwrap :: "'a option \<Rightarrow> ('e, 'a) result" where
  "unwrap v = (case v of None \<Rightarrow> Inl Trap | Some x \<Rightarrow> Inr x)"

definition unwrap_or :: "'a option \<Rightarrow> 'a \<Rightarrow> 'a" where
  "unwrap_or v d = (case v of None \<Rightarrow> d | Some x \<Rightarrow> x)"

definition ensure :: "bool \<Rightarrow> 'e \<Rightarrow> ('e, unit) result" where
  "ensure b e = (if b then Inr () else Inl (Err e))"

definition ensure_host :: "bool \<Rightarrow> ('e, unit) result" where
  "ensure_host b = (if b then Inr () else Inl Trap)"

definition is_ok :: "('e, 'a) result \<Rightarrow> bool" where
  "is_ok r = (case r of Inl _ \<Rightarrow> False | Inr _ \<Rightarrow> True)"

lemma and_then_simps [simp]:
  "and_then (Inl e) f = Inl e"
  "and_then (Inr x) f = f x"
  by (simp_all add: and_then_def)

lemma ok_or_simps [simp]:
  "ok_or None e = Inl (Err e)"
  "ok_or (Some x) e = Inr x"
  by (simp_all add: ok_or_def)

lemma unwrap_simps [simp]:
  "unwrap None = Inl Trap"
  "unwrap (Some x) = Inr x"
  by (simp_all add: unwrap_def)

lemma unwrap_or_simps [simp]:
  "unwrap_or None d = d"
  "unwrap_or (Some x) d = x"
  by (simp_all add: unwrap_or_def)

lemma ensure_simps [simp]:
  "ensure True e = Inr ()"
  "ensure False e = Inl (Err e)"
  "ensure_host True = Inr ()"
  "ensure_host False = Inl Trap"
  by (simp_all add: ensure_def ensure_host_def)

lemma is_ok_simps [simp]:
  "is_ok (Inr x)"
  "\<not> is_ok (Inl e)"
  by (simp_all add: is_ok_def)

lemma is_ok_iff: "is_ok r \<longleftrightarrow> (\<exists>x. r = Inr x)"
  by (cases r) simp_all

lemma and_then_Inr [result_simps]:
  "and_then r f = Inr y \<longleftrightarrow> (\<exists>x. r = Inr x \<and> f x = Inr y)"
  by (cases r) simp_all

lemma and_then_Inl [result_simps]:
  "and_then r f = Inl e \<longleftrightarrow> r = Inl e \<or> (\<exists>x. r = Inr x \<and> f x = Inl e)"
  by (cases r) simp_all

lemma ok_or_Inr [result_simps]: "ok_or v e = Inr x \<longleftrightarrow> v = Some x"
  by (cases v) simp_all

lemma ok_or_Inl [result_simps]: "ok_or v e = Inl d \<longleftrightarrow> v = None \<and> d = Err e"
  by (cases v) auto

lemma unwrap_Inr [result_simps]: "unwrap v = Inr x \<longleftrightarrow> v = Some x"
  by (cases v) simp_all

lemma unwrap_Inl [result_simps]: "unwrap v = Inl d \<longleftrightarrow> v = None \<and> d = Trap"
  by (cases v) auto

lemma ensure_Inr [result_simps]: "ensure b e = Inr u \<longleftrightarrow> b"
  by (simp add: ensure_def)

lemma ensure_Inl [result_simps]: "ensure b e = Inl d \<longleftrightarrow> \<not> b \<and> d = Err e"
  by (auto simp: ensure_def)

lemma ensure_host_Inr [result_simps]: "ensure_host b = Inr u \<longleftrightarrow> b"
  by (simp add: ensure_host_def)

lemma ensure_host_Inl [result_simps]: "ensure_host b = Inl d \<longleftrightarrow> \<not> b \<and> d = Trap"
  by (auto simp: ensure_host_def)

text \<open>\<open>From\<close> conversions of a callee's error; a trap stays a trap.\<close>

fun map_err :: "('e \<Rightarrow> 'f) \<Rightarrow> ('e, 'a) result \<Rightarrow> ('f, 'a) result" where
  "map_err f (Inl (Err e)) = Inl (Err (f e))"
| "map_err f (Inl Trap) = Inl Trap"
| "map_err f (Inr x) = Inr x"

lemma map_err_Inr [result_simps]: "map_err f r = Inr x \<longleftrightarrow> r = Inr x"
  by (cases "(f, r)" rule: map_err.cases) simp_all

lemma and_then_assoc: "and_then (and_then r f) g = and_then r (\<lambda>x. and_then (f x) g)"
  by (cases r) simp_all

text \<open>A loop whose body can fail: the first fault ends it.\<close>

fun fold_result :: "('a \<Rightarrow> 's \<Rightarrow> ('e, 's) result) \<Rightarrow> 'a list \<Rightarrow> 's \<Rightarrow> ('e, 's) result" where
  "fold_result f [] s = Inr s"
| "fold_result f (x # xs) s = and_then (f x s) (fold_result f xs)"

lemma fold_result_append:
  "fold_result f (xs @ ys) s = and_then (fold_result f xs s) (fold_result f ys)"
  by (induction xs arbitrary: s) (auto simp: and_then_def split: sum.splits)

text \<open>An invariant of a successful loop.\<close>

lemma fold_result_invariant:
  assumes "fold_result f xs s = Inr t" and "P s"
    and "\<And>x u v. x \<in> set xs \<Longrightarrow> P u \<Longrightarrow> f x u = Inr v \<Longrightarrow> P v"
  shows "P t"
  using assms
proof (induction xs arbitrary: s)
  case Nil
  then show ?case by simp
next
  case (Cons x xs)
  from Cons.prems(1) obtain u where u: "f x s = Inr u" and rest: "fold_result f xs u = Inr t"
    by (auto simp: result_simps)
  from Cons.prems(2,3) u have "P u" by (meson list.set_intros(1))
  from Cons.IH [OF rest this] Cons.prems(3) show ?case
    by (meson list.set_intros(2))
qed

section \<open>Machine integers\<close>

type_synonym u256 = "256 word"
type_synonym u128 = "128 word"
type_synonym byte = "8 word"
type_synonym bytes = "byte list"

text \<open>An account or contract address, in its textual form.\<close>

type_synonym address = string

definition fits :: "nat \<Rightarrow> nat \<Rightarrow> bool" where
  "fits w n \<longleftrightarrow> n < 2 ^ w"

definition checked_add :: "nat \<Rightarrow> nat \<Rightarrow> nat \<Rightarrow> nat option" where
  "checked_add w a b = (if fits w (a + b) then Some (a + b) else None)"

definition checked_sub :: "nat \<Rightarrow> nat \<Rightarrow> nat option" where
  "checked_sub a b = (if b \<le> a then Some (a - b) else None)"

text \<open>\<open>1u64.checked_shl(n)\<close>: \<open>None\<close> once the shift reaches the width.\<close>

definition checked_shl_one :: "nat \<Rightarrow> nat \<Rightarrow> nat option" where
  "checked_shl_one w n = (if n < w then Some (2 ^ n) else None)"

lemma checked_add_Some [width_simps]:
  "checked_add w a b = Some c \<longleftrightarrow> c = a + b \<and> a + b < 2 ^ w"
  by (auto simp: checked_add_def fits_def)

lemma checked_add_None [width_simps]: "checked_add w a b = None \<longleftrightarrow> 2 ^ w \<le> a + b"
  by (auto simp: checked_add_def fits_def)

lemma checked_sub_Some [width_simps]: "checked_sub a b = Some c \<longleftrightarrow> b \<le> a \<and> c = a - b"
  by (auto simp: checked_sub_def)

lemma checked_sub_None [width_simps]: "checked_sub a b = None \<longleftrightarrow> a < b"
  by (auto simp: checked_sub_def)

lemma checked_shl_one_Some [width_simps]:
  "checked_shl_one w n = Some m \<longleftrightarrow> n < w \<and> m = 2 ^ n"
  by (auto simp: checked_shl_one_def)

lemma checked_shl_one_None [width_simps]: "checked_shl_one w n = None \<longleftrightarrow> w \<le> n"
  by (auto simp: checked_shl_one_def)

text \<open>\<open>U256::to_u128\<close> and the guarded cast to \<open>i128\<close> that the token interface needs.\<close>

definition to_u128 :: "u256 \<Rightarrow> u128 option" where
  "to_u128 v = (if unat v < 2 ^ 128 then Some (ucast v) else None)"

lemma unat_to_u128: "to_u128 v = Some x \<Longrightarrow> unat x = unat v"
  by (auto simp: to_u128_def unsigned_ucast_eq take_bit_nat_eq_self split: if_splits)

lemma to_u128_None: "to_u128 v = None \<longleftrightarrow> 2 ^ 128 \<le> unat v"
  by (auto simp: to_u128_def not_less)

lemma unat_u256_less: "unat (v :: u256) < 2 ^ 256"
proof -
  have "unat v < 2 ^ LENGTH(256)" by (rule unsigned_less)
  then show ?thesis by simp
qed

lemma unat_u128_less: "unat (v :: u128) < 2 ^ 128"
proof -
  have "unat v < 2 ^ LENGTH(128)" by (rule unsigned_less)
  then show ?thesis by simp
qed

lemma word_eq_of_unat: "unat w = n \<Longrightarrow> w = word_of_nat n" for w :: "'a::len word"
  by auto

section \<open>Lists\<close>

text \<open>\<open>Vec::get\<close> and \<open>slice::get\<close>.\<close>

definition nth_opt :: "'a list \<Rightarrow> nat \<Rightarrow> 'a option" where
  "nth_opt xs i = (if i < length xs then Some (xs ! i) else None)"

lemma nth_opt_Some [result_simps]: "nth_opt xs i = Some x \<longleftrightarrow> i < length xs \<and> xs ! i = x"
  by (simp add: nth_opt_def)

lemma nth_opt_None [result_simps]: "nth_opt xs i = None \<longleftrightarrow> length xs \<le> i"
  by (simp add: nth_opt_def not_less)

lemma nth_opt_less [simp]: "i < length xs \<Longrightarrow> nth_opt xs i = Some (xs ! i)"
  by (simp add: nth_opt_def)

lemma nth_opt_within: "n \<le> length xs \<Longrightarrow> i < n \<Longrightarrow> nth_opt xs i = Some (xs ! i)"
  by (rule nth_opt_less) (rule less_le_trans)

lemma drop_append_length_le: "n \<le> length xs \<Longrightarrow> drop n (xs @ ys) = drop n xs @ ys"
  by simp

lemma take_append_length_le: "n \<le> length xs \<Longrightarrow> take n (xs @ ys) = take n xs"
  by simp

end
