(* ===== verification/Bn254.thy ===== *)
theory Bn254
  imports Prelude
begin

text \<open>
  The BN254 scalar field as both sides of the system see it: the modulus as big-endian bytes
  (\<open>contracts/soroban-utils/src/constants.rs\<close>), reading and writing of 32-byte integers, and
  the lower-case hexadecimal text of the off-chain crates.
\<close>

section \<open>Bytes\<close>

text \<open>\<open>U256::from_be_bytes\<close> and \<open>from_big_endian\<close>; byte arrays are lists of naturals below 256.\<close>

fun be_value :: "nat list \<Rightarrow> nat" where
  "be_value [] = 0"
| "be_value (b # bs) = b * 256 ^ length bs + be_value bs"

fun le_value :: "nat list \<Rightarrow> nat" where
  "le_value [] = 0"
| "le_value (b # bs) = b + 256 * le_value bs"

fun le_digits :: "nat \<Rightarrow> nat \<Rightarrow> nat list" where
  "le_digits 0 n = []"
| "le_digits (Suc k) n = n mod 256 # le_digits k (n div 256)"

definition be_digits :: "nat \<Rightarrow> nat \<Rightarrow> nat list" where
  "be_digits k n = rev (le_digits k n)"

definition is_bytes :: "nat list \<Rightarrow> bool" where
  "is_bytes bs \<longleftrightarrow> (\<forall>b \<in> set bs. b < 256)"

lemma is_bytes_simps [simp]:
  "is_bytes []"
  "is_bytes (b # bs) \<longleftrightarrow> b < 256 \<and> is_bytes bs"
  "is_bytes (xs @ ys) \<longleftrightarrow> is_bytes xs \<and> is_bytes ys"
  "is_bytes (rev xs) \<longleftrightarrow> is_bytes xs"
  by (auto simp: is_bytes_def)

lemma length_le_digits [simp]: "length (le_digits k n) = k"
  by (induction k arbitrary: n) simp_all

lemma length_be_digits [simp]: "length (be_digits k n) = k"
  by (simp add: be_digits_def)

lemma is_bytes_le_digits [simp]: "is_bytes (le_digits k n)"
  by (induction k arbitrary: n) simp_all

lemma is_bytes_be_digits [simp]: "is_bytes (be_digits k n)"
  by (simp add: be_digits_def)

lemma le_value_append: "le_value (xs @ ys) = le_value xs + 256 ^ length xs * le_value ys"
  by (induction xs) (simp_all add: algebra_simps)

lemma be_value_rev: "be_value (rev bs) = le_value bs"
proof -
  have app: "be_value (xs @ ys) = be_value xs * 256 ^ length ys + be_value ys" for xs ys
    by (induction xs) (simp_all add: algebra_simps power_add)
  show ?thesis by (induction bs) (simp_all add: app)
qed

lemma le_value_rev: "le_value (rev bs) = be_value bs"
  using be_value_rev [of "rev bs"] by simp

lemma le_value_less: "is_bytes bs \<Longrightarrow> le_value bs < 256 ^ length bs"
proof (induction bs)
  case (Cons b bs)
  then have "le_value bs + 1 \<le> 256 ^ length bs" and "b < 256" by simp_all
  then have "256 * (le_value bs + 1) \<le> 256 * 256 ^ length bs" and "b < 256"
    by (metis mult_le_mono2, simp)
  then show ?case by simp
qed simp

lemma be_value_less: "is_bytes bs \<Longrightarrow> be_value bs < 256 ^ length bs"
  using le_value_less [of "rev bs"] by (simp add: le_value_rev)

lemma le_value_le_digits: "n < 256 ^ k \<Longrightarrow> le_value (le_digits k n) = n"
proof (induction k arbitrary: n)
  case (Suc k)
  then have "n div 256 < 256 ^ k" by (simp add: less_mult_imp_div_less mult.commute)
  with Suc.IH show ?case by simp
qed simp

lemma le_digits_le_value: "is_bytes bs \<Longrightarrow> le_digits (length bs) (le_value bs) = bs"
  by (induction bs) simp_all

lemma be_value_be_digits: "n < 256 ^ k \<Longrightarrow> be_value (be_digits k n) = n"
  by (simp add: be_digits_def be_value_rev le_value_le_digits)

lemma be_digits_be_value: "is_bytes bs \<Longrightarrow> be_digits (length bs) (be_value bs) = bs"
  using le_digits_le_value [of "rev bs"] by (simp add: be_digits_def le_value_rev)

definition from_be_bytes :: "nat list \<Rightarrow> u256" where
  "from_be_bytes bs = word_of_nat (be_value bs)"

definition from_le_bytes :: "nat list \<Rightarrow> u256" where
  "from_le_bytes bs = word_of_nat (le_value bs)"

definition to_be_bytes :: "u256 \<Rightarrow> nat list" where
  "to_be_bytes v = be_digits 32 (unat v)"

definition to_le_bytes :: "u256 \<Rightarrow> nat list" where
  "to_le_bytes v = le_digits 32 (unat v)"

lemma pow_256_32: "(256::nat) ^ 32 = 2 ^ 256"
  by simp

lemma unat_less_256_32: "unat (v :: u256) < 256 ^ 32"
  unfolding pow_256_32 by (rule unat_u256_less)

lemma unat_from_be_bytes: "is_bytes bs \<Longrightarrow> length bs = 32 \<Longrightarrow> unat (from_be_bytes bs) = be_value bs"
  using be_value_less [of bs] unfolding from_be_bytes_def pow_256_32 [symmetric]
  by (simp add: unat_of_nat)

lemma unat_from_le_bytes: "is_bytes bs \<Longrightarrow> length bs = 32 \<Longrightarrow> unat (from_le_bytes bs) = le_value bs"
  using le_value_less [of bs] unfolding from_le_bytes_def pow_256_32 [symmetric]
  by (simp add: unat_of_nat)

lemma from_to_be_bytes [simp]: "from_be_bytes (to_be_bytes v) = v"
  unfolding from_be_bytes_def to_be_bytes_def
  by (subst be_value_be_digits [OF unat_less_256_32]) simp

lemma from_to_le_bytes [simp]: "from_le_bytes (to_le_bytes v) = v"
  unfolding from_le_bytes_def to_le_bytes_def
  by (subst le_value_le_digits [OF unat_less_256_32]) simp

lemma to_from_be_bytes: "is_bytes bs \<Longrightarrow> length bs = 32 \<Longrightarrow> to_be_bytes (from_be_bytes bs) = bs"
  using be_digits_be_value [of bs] by (simp add: to_be_bytes_def unat_from_be_bytes)

lemma to_from_le_bytes: "is_bytes bs \<Longrightarrow> length bs = 32 \<Longrightarrow> to_le_bytes (from_le_bytes bs) = bs"
  using le_digits_le_value [of bs] by (simp add: to_le_bytes_def unat_from_le_bytes)

lemma to_bytes_shape [simp]:
  "length (to_be_bytes v) = 32" "is_bytes (to_be_bytes v)"
  "length (to_le_bytes v) = 32" "is_bytes (to_le_bytes v)"
  by (simp_all add: to_be_bytes_def to_le_bytes_def)

section \<open>The modulus\<close>

definition BN256_MOD_BYTES :: "nat list" where
  "BN256_MOD_BYTES =
    [48, 100, 78, 114, 225, 49, 160, 41, 184, 80, 69, 182, 129, 129, 88, 93, 40, 51, 232, 72, 121,
     185, 112, 145, 67, 225, 245, 147, 240, 0, 0, 1]"

definition bn256_modulus :: u256 where
  "bn256_modulus = from_be_bytes BN256_MOD_BYTES"

text \<open>The same number, for arithmetic.\<close>

definition prime :: nat where
  "prime = 21888242871839275222246405745257275088548364400416034343698204186575808495617"

lemma be_value_modulus: "be_value BN256_MOD_BYTES = prime"
  by (simp add: BN256_MOD_BYTES_def prime_def)

lemma bn256_modulus_eq: "bn256_modulus = word_of_nat prime"
  by (simp add: bn256_modulus_def from_be_bytes_def be_value_modulus)

lemma prime_less: "prime < 2 ^ 256"
  by (simp add: prime_def)

lemma unat_bn256_modulus [simp]: "unat bn256_modulus = prime"
  using prime_less by (simp add: bn256_modulus_eq unat_of_nat)

lemma prime_pos: "0 < prime" and two_prime_less: "2 * prime < 2 ^ 256"
  and pow_248_less: "2 ^ 248 < prime" and pow_128_less: "2 ^ 128 < prime"
  by (simp_all add: prime_def)

definition canonical :: "u256 \<Rightarrow> bool" where
  "canonical v \<longleftrightarrow> v < bn256_modulus"

lemma canonical_unat: "canonical v \<longleftrightarrow> unat v < prime"
  by (simp add: canonical_def word_less_nat_alt)

lemma canonical_samples [simp]:
  "canonical 0" "canonical 1" "canonical 2" "canonical 3" "canonical 4" "canonical 5"
  "canonical 6" "canonical 7" "canonical 8" "canonical 9" "canonical 100" "\<not> canonical bn256_modulus"
  by (simp_all add: canonical_unat prime_def)

text \<open>Comparing byte arrays from the left, which decides canonicity of a literal quickly.\<close>

fun bytes_less :: "nat list \<Rightarrow> nat list \<Rightarrow> bool" where
  "bytes_less (a # as) (b # bs) \<longleftrightarrow> a < b \<or> a = b \<and> bytes_less as bs"
| "bytes_less _ _ \<longleftrightarrow> False"

lemma bytes_less_be_value:
  "bytes_less as bs \<Longrightarrow> is_bytes as \<Longrightarrow> length as = length bs \<Longrightarrow> be_value as < be_value bs"
proof (induction as bs rule: bytes_less.induct)
  case (1 a as b bs)
  show ?case
  proof (cases "a < b")
    case True
    have "be_value as < 256 ^ length bs" using 1 be_value_less [of as] by simp
    moreover have "(a + 1) * 256 ^ length bs \<le> b * 256 ^ length bs"
      using True by (intro mult_le_mono1) simp
    ultimately show ?thesis using 1 by (simp add: algebra_simps)
  next
    case False
    with 1 show ?thesis by simp
  qed
qed simp_all

lemma is_bytes_code [code]: "is_bytes bs \<longleftrightarrow> list_all (\<lambda>b. b < 256) bs"
  by (simp add: is_bytes_def list_all_iff)

lemma is_bytes_inj:
  assumes "is_bytes xs" "is_bytes ys" "length xs = 32" "length ys = 32"
    and "from_be_bytes xs = from_be_bytes ys"
  shows "xs = ys"
  using assms to_from_be_bytes by metis

lemma bytes_less_canonical:
  assumes "bytes_less bs BN256_MOD_BYTES" "is_bytes bs" "length bs = 32"
  shows "canonical (from_be_bytes bs)"
proof -
  have "be_value bs < prime"
    using bytes_less_be_value [OF assms(1,2)] assms(3)
    by (simp add: be_value_modulus) (simp add: BN256_MOD_BYTES_def)
  with assms show ?thesis by (simp add: canonical_unat unat_from_be_bytes)
qed

section \<open>Host integers\<close>

text \<open>\<open>U256::add\<close> of the host traps on overflow; \<open>rem_euclid\<close> by a non-zero modulus cannot.\<close>

definition u256_add :: "u256 \<Rightarrow> u256 \<Rightarrow> u256 option" where
  "u256_add a b = (if unat a + unat b < 2 ^ 256 then Some (a + b) else None)"

lemma u256_add_Some: "u256_add a b = Some c \<Longrightarrow> unat c = unat a + unat b"
  by (auto simp: u256_add_def unat_word_ariths split: if_splits)

lemma u256_add_canonical:
  "canonical a \<Longrightarrow> canonical b \<Longrightarrow> u256_add a b = Some (a + b) \<and> unat (a + b) = unat a + unat b"
  using two_prime_less by (auto simp: u256_add_def unat_word_ariths canonical_unat)

section \<open>Hexadecimal text\<close>

definition hex_digit :: "nat \<Rightarrow> char" where
  "hex_digit n = ''0123456789abcdef'' ! n"

fun hex_encode :: "nat list \<Rightarrow> string" where
  "hex_encode [] = []"
| "hex_encode (b # bs) = hex_digit (b div 16) # hex_digit (b mod 16) # hex_encode bs"

text \<open>
  The \<open>hex\<close> crate is not part of the repository. What the code relies on is that decoding
  reads back the lower-case text of any bytes.
\<close>

definition hex_decodes :: "(string \<Rightarrow> nat list option) \<Rightarrow> bool" where
  "hex_decodes decode \<longleftrightarrow> (\<forall>bs. is_bytes bs \<longrightarrow> decode (hex_encode bs) = Some bs)"

lemma length_hex_encode [simp]: "length (hex_encode bs) = 2 * length bs"
  by (induction bs) simp_all

text \<open>A decoder for the lower-case alphabet, to instantiate that hypothesis.\<close>

definition hex_val :: "char \<Rightarrow> nat option" where
  "hex_val c = map_of (zip ''0123456789abcdef'' [0..<16]) c"

fun hex_read :: "string \<Rightarrow> nat list option" where
  "hex_read [] = Some []"
| "hex_read (c # d # s) =
     Option.bind (hex_val c) (\<lambda>a. Option.bind (hex_val d) (\<lambda>b.
       map_option (\<lambda>bs. (16 * a + b) # bs) (hex_read s)))"
| "hex_read _ = None"

lemma hex_val_digits: "list_all (\<lambda>n. hex_val (hex_digit n) = Some n) [0..<16]"
  by code_simp

lemma hex_val_digit: "n < 16 \<Longrightarrow> hex_val (hex_digit n) = Some n"
  using hex_val_digits by (simp only: list_all_iff set_upt atLeastLessThan_iff) simp

lemma hex_read_decodes: "hex_decodes hex_read"
  unfolding hex_decodes_def
proof (intro allI impI)
  fix bs
  have "a div 16 < 16" if "a < 256" for a :: nat using that by simp
  then have high: "hex_val (hex_digit (a div 16)) = Some (a div 16)" if "a < 256" for a
    using that hex_val_digit by blast
  show "is_bytes bs \<Longrightarrow> hex_read (hex_encode bs) = Some bs"
    by (induction bs) (simp_all add: hex_val_digit high)
qed

end
