(* ===== verification/HostInt.thy ===== *)
theory HostInt
  imports Bn254
begin

text \<open>
  The host's 256-bit integers as the contracts use them: \<open>I256\<close> is a word read with
  \<^const>\<open>sint\<close>, subtraction traps when the result does not fit, and the big-endian bytes of a
  signed value read back as an unsigned one are the same word.
\<close>

type_synonym i256 = "256 word"

definition i256_sub :: "i256 \<Rightarrow> i256 \<Rightarrow> i256 option" where
  "i256_sub a b =
     (if - (2 ^ 255) \<le> sint a - sint b \<and> sint a - sint b < 2 ^ 255 then Some (a - b) else None)"

definition i256_to_i128 :: "i256 \<Rightarrow> int option" where
  "i256_to_i128 v = (if - (2 ^ 127) \<le> sint v \<and> sint v < 2 ^ 127 then Some (sint v) else None)"

definition u256_sub :: "u256 \<Rightarrow> u256 \<Rightarrow> u256 option" where
  "u256_sub a b = (if b \<le> a then Some (a - b) else None)"

lemma sint_256_bounds: "- (2 ^ 255) \<le> sint (v :: i256) \<and> sint v < 2 ^ 255"
  using sint_range_size [of v] by (simp add: word_size)

lemma uint_nonneg_256: "0 \<le> sint v \<Longrightarrow> uint v = sint v" for v :: i256
proof -
  assume "0 \<le> sint v"
  moreover have "sint v < 2 ^ LENGTH(256)" using sint_256_bounds [of v] by simp
  ultimately show ?thesis unfolding uint_sint by (rule take_bit_int_eq_self)
qed

lemma neg_word: "- v = word_of_int (- sint v)" for v :: i256
  by simp

lemma sint_of_small:
  assumes "0 \<le> k" "k < 2 ^ 255"
  shows "uint (word_of_int k :: i256) = k" "sint (word_of_int k :: i256) = k"
proof -
  have "k < 2 ^ LENGTH(256)" using assms by simp
  with assms(1) show "uint (word_of_int k :: i256) = k"
    unfolding uint_word_of_int_eq by (rule take_bit_int_eq_self)
  have "- (2 ^ (LENGTH(256) - Suc 0)) \<le> k" "k < 2 ^ (LENGTH(256) - Suc 0)" using assms by simp_all
  then show "sint (word_of_int k :: i256) = k"
    unfolding signed_of_int by (simp only: signed_take_bit_int_eq_self of_int_eq_id id_apply)
qed
lemma i256_neg:
  assumes "sint v < 0" and "- (2 ^ 255) < sint v"
  shows "i256_sub 0 v = Some (- v)" "uint (- v) = - sint v" "sint (- v) = - sint v"
proof -
  have range: "0 \<le> - sint v" "- sint v < 2 ^ 255" using assms by simp_all
  show "uint (- v) = - sint v" "sint (- v) = - sint v"
    unfolding neg_word by (rule sint_of_small [OF range])+
  have "- (2 ^ 255) \<le> sint (0 :: i256) - sint v \<and> sint (0 :: i256) - sint v < 2 ^ 255"
    unfolding signed_0 using range by linarith
  then show "i256_sub 0 v = Some (- v)"
    unfolding i256_sub_def by (simp only: if_True diff_0 simp_thms)
qed

lemma neg_residue:
  assumes "sint v < 0" "\<bar>sint v\<bar> < int prime"
  shows "bn256_modulus - (- v) = word_of_int (sint v mod int prime)"
proof -
  have "sint v mod int prime = sint v + int prime"
    using assms by (subst mod_add_self2 [symmetric], intro mod_pos_pos_trivial) linarith+
  moreover have "bn256_modulus = word_of_int (int prime)"
    unfolding bn256_modulus_eq by simp
  moreover have "v = word_of_int (sint v)" by simp
  ultimately show ?thesis by (metis diff_minus_eq_add of_int_add add.commute)
qed

lemma uint_bn256_modulus: "uint bn256_modulus = int prime"
  by (simp only: uint_nat unat_bn256_modulus)

lemma two_248_less_prime: "(2::int) ^ 248 < int prime"
  by (simp add: prime_def)

end
