(* ===== verification/Poseidon2.thy ===== *)
theory Poseidon2
  imports Bn254
begin

text \<open>
  The Poseidon2 permutation of the off-chain hasher
  (\<open>poseidon2/src/poseidon2/poseidon2.rs\<close>), over the BN254 scalar field: an element is a
  natural number below the modulus, and the operations of the field crate are the ring
  operations modulo it. A panic (\<open>assert\<close>, an unsupported width or degree, an index out of
  range) is \<open>None\<close>.
\<close>

section \<open>Field arithmetic\<close>

definition fadd :: "nat \<Rightarrow> nat \<Rightarrow> nat" where
  "fadd a b = (a + b) mod prime"

definition fmul :: "nat \<Rightarrow> nat \<Rightarrow> nat" where
  "fmul a b = (a * b) mod prime"

definition fdouble :: "nat \<Rightarrow> nat" where
  "fdouble a = fadd a a"

lemma field_ops_less [simp]: "fadd a b < prime" "fmul a b < prime" "fdouble a < prime"
  using prime_pos by (simp_all add: fadd_def fmul_def fdouble_def)

section \<open>Parameters\<close>

record poseidon2_params =
  width :: nat
  degree :: nat
  rounds_f_div_2 :: nat
  rounds_p :: nat
  rounds :: nat
  mat_internal_diag_m_1 :: "nat list"
  mat_internal :: "nat list list"
  round_constants :: "nat list list"

definition new_params ::
  "nat \<Rightarrow> nat \<Rightarrow> nat \<Rightarrow> nat \<Rightarrow> nat list \<Rightarrow> nat list list \<Rightarrow> nat list list \<Rightarrow> poseidon2_params option" where
  "new_params t d rounds_f rp diag mat rc =
     (if d \<in> {3, 5, 7, 11} \<and> rounds_f mod 2 = 0
      then Some \<lparr>width = t, degree = d, rounds_f_div_2 = rounds_f div 2, rounds_p = rp,
                 rounds = rounds_f + rp, mat_internal_diag_m_1 = diag, mat_internal = mat,
                 round_constants = rc\<rparr>
      else None)"

section \<open>The layers\<close>

definition sbox_p :: "nat \<Rightarrow> nat \<Rightarrow> nat option" where
  "sbox_p d x =
     (let x2 = fmul x x in
      if d = 3 then Some (fmul x2 x)
      else if d = 5 then Some (fmul (fmul x2 x2) x)
      else if d = 7 then Some (fmul (fmul (fmul x2 x2) x2) x)
      else None)"

definition sbox :: "nat \<Rightarrow> nat list \<Rightarrow> nat list option" where
  "sbox d xs = those (map (sbox_p d) xs)"

fun matmul_m4 :: "nat list \<Rightarrow> nat list" where
  "matmul_m4 (a # b # c # e # rest) =
     (let t0 = fadd a b; t1 = fadd c e;
          t2 = fadd (fdouble b) t1; t3 = fadd (fdouble e) t0;
          t4 = fadd (fdouble (fdouble t1)) t3; t5 = fadd (fdouble (fdouble t0)) t2;
          t6 = fadd t3 t5; t7 = fadd t2 t4
      in t6 # t5 # t7 # t4 # matmul_m4 rest)"
| "matmul_m4 xs = xs"

fun column_sums :: "nat list \<Rightarrow> nat list" where
  "column_sums (a # b # c # e # []) = [a, b, c, e]"
| "column_sums (a # b # c # e # rest) =
     map2 fadd [a, b, c, e] (column_sums rest)"
| "column_sums xs = xs"

definition matmul_external :: "nat \<Rightarrow> nat list \<Rightarrow> nat list option" where
  "matmul_external t xs =
     (if length xs < t then None
      else if t = 2 then (let s = fadd (xs ! 0) (xs ! 1) in Some [fadd (xs ! 0) s, fadd (xs ! 1) s])
      else if t = 3 then
        (let s = fadd (fadd (xs ! 0) (xs ! 1)) (xs ! 2)
         in Some [fadd (xs ! 0) s, fadd (xs ! 1) s, fadd (xs ! 2) s])
      else if t = 4 then Some (matmul_m4 xs)
      else if t \<in> {8, 12, 16, 20, 24} then
        (let ys = matmul_m4 xs; stored = column_sums ys
         in Some (map2 (\<lambda>i y. fadd y (stored ! (i mod 4))) [0..<length ys] ys))
      else None)"

definition matmul_internal :: "nat \<Rightarrow> nat list \<Rightarrow> nat list \<Rightarrow> nat list option" where
  "matmul_internal t diag xs =
     (if length xs < t then None
      else if t = 2 then
        (let s = fadd (xs ! 0) (xs ! 1) in Some [fadd (xs ! 0) s, fadd (fdouble (xs ! 1)) s])
      else if t = 3 then
        (let s = fadd (fadd (xs ! 0) (xs ! 1)) (xs ! 2)
         in Some [fadd (xs ! 0) s, fadd (xs ! 1) s, fadd (fdouble (xs ! 2)) s])
      else if t \<in> {4, 8, 12, 16, 20, 24} then
        (let s = fold (\<lambda>x acc. fadd acc x) (tl xs) (hd xs)
         in if length xs \<le> length diag
            then Some (map2 (\<lambda>x m. fadd (fmul x m) s) xs diag) else None)
      else None)"

definition add_rc :: "nat list \<Rightarrow> nat list \<Rightarrow> nat list" where
  "add_rc xs rc = map2 fadd xs rc"

section \<open>The permutation\<close>

definition full_round :: "poseidon2_params \<Rightarrow> nat \<Rightarrow> nat list \<Rightarrow> nat list option" where
  "full_round p r xs =
     (if r < length (round_constants p)
      then Option.bind (sbox (degree p) (add_rc xs (round_constants p ! r))) (matmul_external (width p))
      else None)"

definition partial_round :: "poseidon2_params \<Rightarrow> nat \<Rightarrow> nat list \<Rightarrow> nat list option" where
  "partial_round p r xs =
     (if r < length (round_constants p) \<and> round_constants p ! r \<noteq> []
      then Option.bind (sbox_p (degree p) (fadd (xs ! 0) (round_constants p ! r ! 0)))
             (\<lambda>x0. matmul_internal (width p) (mat_internal_diag_m_1 p) (xs[0 := x0]))
      else None)"

fun run_rounds :: "(nat \<Rightarrow> nat list \<Rightarrow> nat list option) \<Rightarrow> nat list \<Rightarrow> nat list \<Rightarrow> nat list option" where
  "run_rounds f [] xs = Some xs"
| "run_rounds f (r # rs) xs = Option.bind (f r xs) (run_rounds f rs)"

definition permutation :: "poseidon2_params \<Rightarrow> nat list \<Rightarrow> nat list option" where
  "permutation p input =
     (if length input = width p then
        (let p_end = rounds_f_div_2 p + rounds_p p in
         Option.bind (matmul_external (width p) input) (\<lambda>s0.
         Option.bind (run_rounds (full_round p) [0..<rounds_f_div_2 p] s0) (\<lambda>s1.
         Option.bind (run_rounds (partial_round p) [rounds_f_div_2 p..<p_end] s1) (\<lambda>s2.
           run_rounds (full_round p) [p_end..<rounds p] s2))))
      else None)"

section \<open>Widths two, three and four\<close>

text \<open>
  What the rest of the system needs of the permutation: at the widths it uses it never
  panics, keeps the width and ends in reduced elements.
\<close>

definition is_partial :: "poseidon2_params \<Rightarrow> nat \<Rightarrow> bool" where
  "is_partial p r \<longleftrightarrow> rounds_f_div_2 p \<le> r \<and> r < rounds_f_div_2 p + rounds_p p"

definition well_shaped :: "nat \<Rightarrow> poseidon2_params \<Rightarrow> bool" where
  "well_shaped t p \<longleftrightarrow> width p = t \<and> degree p = 5
     \<and> rounds p = 2 * rounds_f_div_2 p + rounds_p p
     \<and> rounds p \<le> length (round_constants p)
     \<and> (\<forall>r<rounds p. if is_partial p r then round_constants p ! r \<noteq> []
                       else length (round_constants p ! r) = t)
     \<and> (t = 4 \<longrightarrow> length (mat_internal_diag_m_1 p) = 4)"

lemma sbox_5: "\<exists>ys. sbox 5 xs = Some ys \<and> length ys = length xs"
proof (induction xs)
  case (Cons x xs)
  then obtain ys where "sbox 5 xs = Some ys" "length ys = length xs" by blast
  then show ?case by (auto simp: sbox_def sbox_p_def Let_def)
qed (simp add: sbox_def)

definition reduced :: "nat \<Rightarrow> nat list \<Rightarrow> bool" where
  "reduced t xs \<longleftrightarrow> length xs = t \<and> (\<forall>x \<in> set xs. x < prime)"

lemma list_of_4: "length xs = 4 \<Longrightarrow> \<exists>a b c d. xs = [a, b, c, d]"
  by (simp add: numeral_eq_Suc length_Suc_conv) blast

lemma matmul_external_small:
  assumes "t = 2 \<or> t = 3 \<or> t = 4" and len: "length xs = t"
  shows "\<exists>ys. matmul_external t xs = Some ys \<and> reduced t ys"
  using assms(1)
proof (elim disjE)
  assume "t = 4"
  with len list_of_4 show ?thesis by (fastforce simp: matmul_external_def Let_def reduced_def)
qed (use len in \<open>auto simp: matmul_external_def Let_def reduced_def\<close>)

lemma matmul_internal_small:
  assumes "t = 2 \<or> t = 3 \<or> t = 4" and len: "length xs = t" and diag: "t = 4 \<longrightarrow> length diag = 4"
  shows "\<exists>ys. matmul_internal t diag xs = Some ys \<and> reduced t ys"
  using assms(1)
proof (elim disjE)
  assume t: "t = 4"
  with diag have "length diag = 4" by simp
  with t len show ?thesis
    using list_of_4 [of xs] list_of_4 [of diag] by (auto simp: matmul_internal_def Let_def reduced_def)
qed (use len in \<open>auto simp: matmul_internal_def Let_def reduced_def\<close>)

lemma full_round_small:
  assumes "well_shaped t p" and t: "t = 2 \<or> t = 3 \<or> t = 4" and "r < rounds p" "\<not> is_partial p r" and "length xs = t"
  shows "\<exists>ys. full_round p r xs = Some ys \<and> reduced t ys"
proof -
  have r: "r < length (round_constants p)" "length (round_constants p ! r) = t"
    using assms by (auto simp: well_shaped_def)
  from sbox_5 obtain zs where zs: "sbox 5 (add_rc xs (round_constants p ! r)) = Some zs"
    and "length zs = length (add_rc xs (round_constants p ! r))" by blast
  then have "length zs = t" using r assms(5) by (simp add: add_rc_def)
  with matmul_external_small [OF t] obtain ys where "matmul_external t zs = Some ys" "reduced t ys" by blast
  with r zs show ?thesis using assms(1) by (auto simp: full_round_def well_shaped_def)
qed

lemma partial_round_small:
  assumes "well_shaped t p" and t: "t = 2 \<or> t = 3 \<or> t = 4" and "r < rounds p" "is_partial p r" and "length xs = t"
  shows "\<exists>ys. partial_round p r xs = Some ys \<and> reduced t ys"
proof -
  have r: "r < length (round_constants p)" "round_constants p ! r \<noteq> []"
    using assms by (auto simp: well_shaped_def)
  obtain x0 where "sbox_p 5 (fadd (xs ! 0) (round_constants p ! r ! 0)) = Some x0"
    by (simp add: sbox_p_def Let_def)
  moreover obtain ys where "matmul_internal t (mat_internal_diag_m_1 p) (xs[0 := x0]) = Some ys"
    and "reduced t ys"
    using matmul_internal_small [OF t, of "xs[0 := x0]"] assms(1,5) by (auto simp: well_shaped_def)
  ultimately show ?thesis using r assms(1) by (auto simp: partial_round_def well_shaped_def)
qed

lemma run_rounds_total:
  assumes "\<And>r ys. r \<in> set rs \<Longrightarrow> reduced t ys \<Longrightarrow> \<exists>zs. f r ys = Some zs \<and> reduced t zs"
    and "reduced t xs"
  shows "\<exists>ys. run_rounds f rs xs = Some ys \<and> reduced t ys"
  using assms
proof (induction rs arbitrary: xs)
  case (Cons r rs)
  then obtain ys where "f r xs = Some ys" "reduced t ys" by (meson list.set_intros(1))
  with Cons.IH [of ys] Cons.prems(1) show ?case by simp
qed simp

lemma permutation_total:
  assumes p: "well_shaped t p" and t: "t = 2 \<or> t = 3 \<or> t = 4" and xs: "length xs = t"
  shows "\<exists>ys. permutation p xs = Some ys \<and> reduced t ys"
proof -
  let ?f = "rounds_f_div_2 p" and ?e = "rounds_f_div_2 p + rounds_p p"
  have w: "width p = t" and len: "rounds p = ?f + ?e"
    using p by (auto simp: well_shaped_def)
  have full: "\<exists>zs. full_round p r ys = Some zs \<and> reduced t zs"
    if "r < rounds p" "\<not> is_partial p r" "reduced t ys" for r ys
    using full_round_small [OF p t] that by (simp add: reduced_def)
  have part: "\<exists>zs. partial_round p r ys = Some zs \<and> reduced t zs"
    if "r < rounds p" "is_partial p r" "reduced t ys" for r ys
    using partial_round_small [OF p t] that by (simp add: reduced_def)
  obtain s0 where s0: "matmul_external t xs = Some s0" "reduced t s0"
    using matmul_external_small [OF t xs] by blast
  obtain s1 where s1: "run_rounds (full_round p) [0..<?f] s0 = Some s1" "reduced t s1"
    using run_rounds_total [of "[0..<?f]" t "full_round p", OF full s0(2)] len
    by (auto simp: is_partial_def)
  obtain s2 where s2: "run_rounds (partial_round p) [?f..<?e] s1 = Some s2" "reduced t s2"
    using run_rounds_total [of "[?f..<?e]" t "partial_round p", OF part s1(2)] len
    by (auto simp: is_partial_def)
  obtain s3 where "run_rounds (full_round p) [?e..<rounds p] s2 = Some s3" "reduced t s3"
    using run_rounds_total [of "[?e..<rounds p]" t "full_round p", OF full s2(2)] len
    by (auto simp: is_partial_def)
  with s0 s1 s2 xs w show ?thesis by (simp add: permutation_def Let_def)
qed

text \<open>
  A partial round reads only the first constant of its row, and widths two and three do not
  read the diagonal, so parameter sets that differ nowhere else compute the same permutation.
\<close>

definition same_rounds :: "poseidon2_params \<Rightarrow> poseidon2_params \<Rightarrow> bool" where
  "same_rounds p q \<longleftrightarrow> width p = width q \<and> degree p = degree q
     \<and> rounds_f_div_2 p = rounds_f_div_2 q \<and> rounds_p p = rounds_p q \<and> rounds p = rounds q
     \<and> length (round_constants p) = length (round_constants q)
     \<and> (\<forall>r<length (round_constants p). if is_partial p r
          then round_constants p ! r \<noteq> [] \<and> round_constants q ! r \<noteq> []
               \<and> round_constants p ! r ! 0 = round_constants q ! r ! 0
          else round_constants p ! r = round_constants q ! r)"

lemma run_rounds_cong:
  "(\<And>r ys. r \<in> set rs \<Longrightarrow> f r ys = g r ys) \<Longrightarrow> run_rounds f rs xs = run_rounds g rs xs"
proof (induction rs arbitrary: xs)
  case (Cons r rs)
  then have "f r xs = g r xs" by simp
  with Cons show ?case by (cases "g r xs") simp_all
qed simp

lemma permutation_same:
  assumes same: "same_rounds p q" and w: "width p = 2 \<or> width p = 3"
    and len: "rounds p = 2 * rounds_f_div_2 p + rounds_p p"
  shows "permutation p xs = permutation q xs"
proof -
  have full: "full_round p r ys = full_round q r ys" if "\<not> is_partial p r" for r ys
    using same that by (auto simp: full_round_def same_rounds_def)
  have internal: "matmul_internal (width p) (mat_internal_diag_m_1 p) ys
      = matmul_internal (width p) (mat_internal_diag_m_1 q) ys" for ys
    using w by (auto simp: matmul_internal_def)
  have part: "partial_round p r ys = partial_round q r ys" if "is_partial p r" for r ys
    using same that internal by (auto simp: partial_round_def same_rounds_def)
  let ?f = "rounds_f_div_2 p" and ?e = "rounds_f_div_2 p + rounds_p p"
  have 1: "run_rounds (full_round p) [0..<?f] = run_rounds (full_round q) [0..<?f]"
    by (rule ext, rule run_rounds_cong) (simp add: full is_partial_def)
  have 2: "run_rounds (partial_round p) [?f..<?e] = run_rounds (partial_round q) [?f..<?e]"
    by (rule ext, rule run_rounds_cong) (simp add: part is_partial_def)
  have 3: "run_rounds (full_round p) [?e..<rounds p] = run_rounds (full_round q) [?e..<rounds p]"
    by (rule ext, rule run_rounds_cong) (simp add: full is_partial_def)
  from same 1 2 3 show ?thesis by (simp add: permutation_def same_rounds_def)
qed

section \<open>The hash functions built on it\<close>

text \<open>
  \<open>poseidon2_compression\<close> (\<open>circuits/src/core/merkle.rs\<close>) and \<open>poseidon2_hash2_internal\<close>
  (\<open>app/crates/core/prover/src/crypto.rs\<close>), given the parameters their statics hold.
\<close>

definition poseidon2_compression :: "poseidon2_params \<Rightarrow> nat \<Rightarrow> nat \<Rightarrow> nat option" where
  "poseidon2_compression p left right =
     map_option (\<lambda>perm. fadd (perm ! 0) left) (permutation p [left, right])"

definition poseidon2_hash2_internal :: "poseidon2_params \<Rightarrow> nat \<Rightarrow> nat \<Rightarrow> nat option \<Rightarrow> nat option" where
  "poseidon2_hash2_internal p a b sep =
     map_option (\<lambda>perm. perm ! 0) (permutation p [a, b, unwrap_or sep 0])"

end
