(* ===== verification/MerkleFrontier.thy ===== *)
theory MerkleFrontier
  imports Prelude
begin

text \<open>
  Append-only Merkle trees of fixed depth, as a specification and as an interface.

  The specification is the value \<open>node h z xs l i\<close> of the \<open>i\<close>-th node at level \<open>l\<close> of the full
  binary tree whose leaves are \<open>xs\<close> followed by the padding leaf \<open>z\<close>. Both contracts with a
  tree of this kind (\<open>contracts/pool/src/merkle_with_history.rs\<close> and
  \<open>contracts/asp-membership/src/lib.rs\<close>) keep one \<open>filled subtree\<close> per level and update the
  root in one climb; the locale \<open>frontier_store\<close> is what the climb asks of their storage,
  and its lemma \<open>climb\<close> says that the climb computes \<open>node\<close>.
\<close>

section \<open>The padded tree\<close>

fun node :: "('a \<Rightarrow> 'a \<Rightarrow> 'a) \<Rightarrow> 'a \<Rightarrow> 'a list \<Rightarrow> nat \<Rightarrow> nat \<Rightarrow> 'a" where
  "node h z xs 0 i = (if i < length xs then xs ! i else z)"
| "node h z xs (Suc l) i = h (node h z xs l (2 * i)) (node h z xs l (2 * i + 1))"

fun zero_chain :: "('a \<Rightarrow> 'a \<Rightarrow> 'a) \<Rightarrow> 'a \<Rightarrow> nat \<Rightarrow> 'a" where
  "zero_chain h z 0 = z"
| "zero_chain h z (Suc l) = h (zero_chain h z l) (zero_chain h z l)"

abbreviation tree_root :: "('a \<Rightarrow> 'a \<Rightarrow> 'a) \<Rightarrow> 'a \<Rightarrow> nat \<Rightarrow> 'a list \<Rightarrow> 'a" where
  "tree_root h z d xs \<equiv> node h z xs d 0"

text \<open>A node whose leaves are all present does not change when leaves are appended.\<close>

lemma node_append:
  "(i + 1) * 2 ^ l \<le> length xs \<Longrightarrow> node h z (xs @ ys) l i = node h z xs l i"
proof (induction l arbitrary: i)
  case 0
  then show ?case by (simp add: nth_append)
next
  case (Suc l)
  from Suc.prems have le: "(2 * i + 2) * 2 ^ l \<le> length xs"
    by (simp add: algebra_simps)
  have "(2 * i + 1) * 2 ^ l \<le> (2 * i + 2) * (2 ^ l :: nat)" by simp
  with le have "node h z (xs @ ys) l (2 * i) = node h z xs l (2 * i)"
    by (intro Suc.IH) linarith
  moreover from le have "node h z (xs @ ys) l (2 * i + 1) = node h z xs l (2 * i + 1)"
    by (intro Suc.IH) (simp add: algebra_simps)
  ultimately show ?case by simp
qed

text \<open>A node without any leaf is the zero of its level.\<close>

lemma node_empty: "length xs \<le> i * 2 ^ l \<Longrightarrow> node h z xs l i = zero_chain h z l"
proof (induction l arbitrary: i)
  case 0
  then show ?case by simp
next
  case (Suc l)
  from Suc.prems have "length xs \<le> 2 * i * 2 ^ l" by (simp add: algebra_simps)
  moreover have "2 * i * 2 ^ l \<le> (2 * i + 1) * (2 ^ l :: nat)" by simp
  ultimately show ?case using Suc.IH by (metis le_trans node.simps(2) zero_chain.simps(2))
qed

lemma zero_chain_add: "zero_chain h (zero_chain h z k) l = zero_chain h z (k + l)"
  by (induction l) simp_all

lemma zero_chain_closed:
  assumes "P z" and "\<And>x y. P x \<Longrightarrow> P y \<Longrightarrow> P (h x y)"
  shows "P (zero_chain h z l)"
  using assms by (induction l) auto

lemma node_closed:
  assumes "P z" and "\<And>x. x \<in> set xs \<Longrightarrow> P x" and "\<And>x y. P x \<Longrightarrow> P y \<Longrightarrow> P (h x y)"
  shows "P (node h z xs l i)"
  using assms by (induction l arbitrary: i) auto

text \<open>The tree over the leaves is the tree over their pairs, one level up.\<close>

fun pairs :: "('a \<Rightarrow> 'a \<Rightarrow> 'a) \<Rightarrow> 'a list \<Rightarrow> 'a list" where
  "pairs h (x # y # xs) = h x y # pairs h xs"
| "pairs h _ = []"

lemma length_pairs [simp]: "length (pairs h xs) = length xs div 2"
  by (induction h xs rule: pairs.induct) simp_all

lemma pairs_append: "even (length xs) \<Longrightarrow> pairs h (xs @ [x, y]) = pairs h xs @ [h x y]"
  by (induction h xs rule: pairs.induct) simp_all

lemma pairs_nth: "i < length xs div 2 \<Longrightarrow> pairs h xs ! i = h (xs ! (2 * i)) (xs ! (2 * i + 1))"
proof (induction h xs arbitrary: i rule: pairs.induct)
  case (1 h x y xs)
  then show ?case by (cases i) simp_all
qed simp_all

lemma node_pairs:
  assumes "even (length xs)"
  shows "node h z xs (Suc l) i = node h (h z z) (pairs h xs) l i"
proof (induction l arbitrary: i)
  case 0
  show ?case
  proof (cases "2 * i + 1 < length xs")
    case True
    with assms have "i < length xs div 2" by (auto elim!: evenE)
    with True show ?thesis by (simp add: pairs_nth)
  next
    case False
    with assms have "\<not> 2 * i < length xs" by (auto elim!: evenE)
    then show ?thesis using assms by (auto elim!: evenE)
  qed
next
  case (Suc l)
  have "node h z xs (Suc (Suc l)) i
      = h (node h z xs (Suc l) (2 * i)) (node h z xs (Suc l) (2 * i + 1))"
    by (rule node.simps)
  also have "\<dots> = h (node h (h z z) (pairs h xs) l (2 * i)) (node h (h z z) (pairs h xs) l (2 * i + 1))"
    by (simp only: Suc.IH)
  finally show ?case by simp
qed

section \<open>The frontier\<close>

text \<open>
  The left siblings a later insertion needs: wherever the path of the next index turns right,
  the stored subtree is the complete node just left of it. \<open>b\<close> is the level the climb starts
  at, \<open>d\<close> the number of levels it climbs.
\<close>

definition frontier :: "('a \<Rightarrow> 'a \<Rightarrow> 'a) \<Rightarrow> 'a \<Rightarrow> nat \<Rightarrow> nat \<Rightarrow> (nat \<Rightarrow> 'a option) \<Rightarrow> 'a list \<Rightarrow> bool" where
  "frontier h z b d filled xs \<longleftrightarrow>
     (\<forall>k<d. odd (length xs div 2 ^ k) \<longrightarrow>
        filled (b + k) = Some (node h z xs k (length xs div 2 ^ k - 1)))"

definition zeros_ok :: "('a \<Rightarrow> 'a \<Rightarrow> 'a) \<Rightarrow> 'a \<Rightarrow> nat \<Rightarrow> nat \<Rightarrow> (nat \<Rightarrow> 'a option) \<Rightarrow> bool" where
  "zeros_ok h z b d zero_at \<longleftrightarrow> (\<forall>k<d. zero_at (b + k) = Some (zero_chain h z k))"

definition good_hash :: "('a \<Rightarrow> 'a \<Rightarrow> ('e, 'a) result) \<Rightarrow> ('a \<Rightarrow> 'a \<Rightarrow> 'a) \<Rightarrow> ('a \<Rightarrow> bool) \<Rightarrow> bool" where
  "good_hash hash h ok \<longleftrightarrow>
     (\<forall>x y. ok x \<longrightarrow> ok y \<longrightarrow> hash x y = Inr (h x y) \<and> ok (h x y))"

lemma frontier_Nil: "frontier h z b d filled []"
  by (simp add: frontier_def)

lemma good_hashD:
  assumes "good_hash hash h ok" and "ok x" and "ok y"
  shows "hash x y = Inr (h x y)" and "ok (h x y)"
  using assms by (auto simp: good_hash_def)

lemma good_hash_node:
  "good_hash hash h ok \<Longrightarrow> ok z \<Longrightarrow> (\<And>x. x \<in> set xs \<Longrightarrow> ok x) \<Longrightarrow> ok (node h z xs l i)"
  by (rule node_closed [of ok]) (auto simp: good_hash_def)

lemma good_hash_zero: "good_hash hash h ok \<Longrightarrow> ok z \<Longrightarrow> ok (zero_chain h z l)"
  by (rule zero_chain_closed [of ok]) (auto simp: good_hash_def)

text \<open>Which left siblings change when one leaf is appended.\<close>

lemma div_pow_Suc: "(n::nat) div 2 ^ k div 2 = n div 2 ^ Suc k"
  unfolding power_Suc2 by (rule div_mult2_eq [symmetric])

lemma odd_Suc_div_pow:
  assumes "odd (Suc n div 2 ^ k)"
  shows "(odd (n div 2 ^ k) \<and> Suc n div 2 ^ k = n div 2 ^ k)
       \<or> (even (n div 2 ^ k) \<and> Suc n div 2 ^ k = Suc (n div 2 ^ k))"
proof (cases "Suc n mod 2 ^ k = 0")
  case True
  then have "Suc n div 2 ^ k = Suc (n div 2 ^ k)" by (simp add: div_Suc)
  with assms show ?thesis by simp
next
  case False
  then have "Suc n div 2 ^ k = n div 2 ^ k" by (simp add: div_Suc)
  with assms show ?thesis by simp
qed

lemma frontier_append:
  assumes old: "frontier h z b d filled xs"
    and new: "\<And>k. k < d \<Longrightarrow> filled' (b + k) =
      (if even (length xs div 2 ^ k) then Some (node h z (xs @ [x]) k (length xs div 2 ^ k))
       else filled (b + k))"
  shows "frontier h z b d filled' (xs @ [x])"
  unfolding frontier_def
proof (intro allI impI)
  fix k
  assume k: "k < d" and odd: "odd (length (xs @ [x]) div 2 ^ k)"
  let ?n = "length xs"
  from odd have "odd (Suc ?n div 2 ^ k)" by simp
  from odd_Suc_div_pow [OF this]
  show "filled' (b + k) = Some (node h z (xs @ [x]) k (length (xs @ [x]) div 2 ^ k - 1))"
  proof (elim disjE conjE)
    assume o: "odd (?n div 2 ^ k)" and same: "Suc ?n div 2 ^ k = ?n div 2 ^ k"
    have pos: "?n div 2 ^ k - 1 + 1 = ?n div 2 ^ k"
      using o by (cases "?n div 2 ^ k") auto
    have "?n div 2 ^ k * 2 ^ k \<le> ?n" by simp
    then have "(?n div 2 ^ k - 1 + 1) * 2 ^ k \<le> length xs" by (simp only: pos)
    from node_append [OF this] old k o new [OF k] same show ?thesis
      by (simp add: frontier_def)
  next
    assume "even (?n div 2 ^ k)" and "Suc ?n div 2 ^ k = Suc (?n div 2 ^ k)"
    with new [OF k] show ?thesis by simp
  qed
qed

section \<open>The interface of the storage, and the climb\<close>

text \<open>
  \<open>step l (i, c, s)\<close> is the body of the contract's loop at level \<open>l\<close>, with the running index
  \<open>i\<close>, the running hash \<open>c\<close> and the storage \<open>s\<close>; \<open>put l c s\<close> is its store of a filled subtree.
\<close>

locale frontier_store =
  fixes hash :: "'a \<Rightarrow> 'a \<Rightarrow> ('e, 'a) result"
    and filled :: "'s \<Rightarrow> nat \<Rightarrow> 'a option"
    and zero_at :: "'s \<Rightarrow> nat \<Rightarrow> 'a option"
    and put :: "nat \<Rightarrow> 'a \<Rightarrow> 's \<Rightarrow> 's"
    and step :: "nat \<Rightarrow> nat \<times> 'a \<times> 's \<Rightarrow> ('e, nat \<times> 'a \<times> 's) result"
  assumes filled_put: "filled (put l c s) = (filled s)(l := Some c)"
    and zero_put: "zero_at (put l c s) = zero_at s"
    and step_right: "odd i \<Longrightarrow> filled s l = Some left \<Longrightarrow>
      step l (i, c, s) = and_then (hash left c) (\<lambda>c'. Inr (i div 2, c', s))"
    and step_left: "even i \<Longrightarrow> zero_at s l = Some zv \<Longrightarrow>
      step l (i, c, s) = and_then (hash c zv) (\<lambda>c'. Inr (i div 2, c', put l c s))"
begin

lemma climb_prefix:
  assumes hash: "good_hash hash h ok" and okz: "ok z" and okx: "ok x"
    and oks: "\<And>y. y \<in> set xs \<Longrightarrow> ok y"
    and fr: "frontier h z b d (filled s) xs" and zs: "zeros_ok h z b d (zero_at s)"
  shows "k \<le> d \<Longrightarrow> \<exists>s'. fold_result step [b..<b + k] (length xs, x, s)
      = Inr (length xs div 2 ^ k, node h z (xs @ [x]) k (length xs div 2 ^ k), s')
    \<and> zero_at s' = zero_at s
    \<and> (\<forall>j. filled s' (b + j) =
          (if j < k \<and> even (length xs div 2 ^ j)
           then Some (node h z (xs @ [x]) j (length xs div 2 ^ j)) else filled s (b + j)))"
proof (induction k)
  case 0
  show ?case by (intro exI [of _ s]) simp
next
  case (Suc k)
  let ?n = "length xs" and ?ys = "xs @ [x]"
  let ?i = "?n div 2 ^ k" and ?c = "node h z ?ys k (?n div 2 ^ k)"
  from Suc.IH Suc.prems obtain s1 where run: "fold_result step [b..<b + k] (?n, x, s) = Inr (?i, ?c, s1)"
    and z1: "zero_at s1 = zero_at s"
    and f1: "\<And>j. filled s1 (b + j) = (if j < k \<and> even (?n div 2 ^ j)
           then Some (node h z ?ys j (?n div 2 ^ j)) else filled s (b + j))"
    by auto
  have unfold: "fold_result step [b..<b + Suc k] (?n, x, s)
      = and_then (step (b + k) (?i, ?c, s1)) Inr"
    using run by (simp add: fold_result_append) (simp add: and_then_def split: sum.splits)
  have okys: "ok (node h z ?ys j i)" for j i
    by (rule good_hash_node [OF hash okz]) (use oks okx in auto)
  show ?case
  proof (cases "even ?i")
    case True
    have zk: "zero_at s1 (b + k) = Some (zero_chain h z k)"
      using zs Suc.prems z1 by (simp add: zeros_ok_def)
    have "?n < Suc ?i * 2 ^ k" by (simp add: dividend_less_times_div mult.commute)
    then have "node h z ?ys k (?i + 1) = zero_chain h z k"
      by (intro node_empty) simp
    moreover have "2 * (?n div 2 ^ Suc k) = ?i"
      using even_two_times_div_two [OF True] by (simp only: div_pow_Suc)
    ultimately have up: "node h z ?ys (Suc k) (?n div 2 ^ Suc k) = h ?c (zero_chain h z k)"
      by (simp only: node.simps)
    have "step (b + k) (?i, ?c, s1)
        = Inr (?n div 2 ^ Suc k, h ?c (zero_chain h z k), put (b + k) ?c s1)"
      using step_left [OF True zk, of ?c]
      by (simp only: good_hashD [OF hash okys good_hash_zero [OF hash okz]] and_then_simps div_pow_Suc)
    with unfold up True show ?thesis
      by (intro exI [of _ "put (b + k) ?c s1"])
        (auto simp: filled_put zero_put z1 f1 less_Suc_eq)
  next
    case False
    from fr False Suc.prems have "filled s (b + k) = Some (node h z xs k (?i - 1))"
      by (simp add: frontier_def)
    moreover have pos: "?i - 1 + 1 = ?i" using False by (cases ?i) auto
    have "?i * 2 ^ k \<le> ?n" by simp
    then have "(?i - 1 + 1) * 2 ^ k \<le> length xs" by (simp only: pos)
    note node_append [OF this, of h z "[x]"]
    ultimately have fk: "filled s1 (b + k) = Some (node h z ?ys k (?i - 1))"
      by (simp add: f1)
    have "2 * (?n div 2 ^ Suc k) = ?i - 1"
      using odd_two_times_div_two_nat [OF False] by (simp only: div_pow_Suc)
    with pos have up: "node h z ?ys (Suc k) (?n div 2 ^ Suc k) = h (node h z ?ys k (?i - 1)) ?c"
      by (simp only: node.simps)
    have "step (b + k) (?i, ?c, s1)
        = Inr (?n div 2 ^ Suc k, h (node h z ?ys k (?i - 1)) ?c, s1)"
      using step_right [OF False fk, of ?c]
      by (simp only: good_hashD [OF hash okys okys] and_then_simps div_pow_Suc)
    with unfold up False show ?thesis
      by (intro exI [of _ s1]) (auto simp: z1 f1 less_Suc_eq)
  qed
qed

text \<open>The whole climb: it ends with the root of the extended tree and keeps the frontier.\<close>

lemma climb:
  assumes "good_hash hash h ok" and "ok z" and "ok x" and "\<And>y. y \<in> set xs \<Longrightarrow> ok y"
    and fr: "frontier h z b d (filled s) xs" and zs: "zeros_ok h z b d (zero_at s)"
    and room: "length xs < 2 ^ d"
  shows "\<exists>s'. fold_result step [b..<b + d] (length xs, x, s) = Inr (0, tree_root h z d (xs @ [x]), s')
    \<and> frontier h z b d (filled s') (xs @ [x]) \<and> zero_at s' = zero_at s"
proof -
  from climb_prefix [OF assms(1-4) fr zs order_refl] room
  obtain s' where "fold_result step [b..<b + d] (length xs, x, s) = Inr (0, tree_root h z d (xs @ [x]), s')"
    and "zero_at s' = zero_at s"
    and f: "\<And>j. filled s' (b + j) = (if j < d \<and> even (length xs div 2 ^ j)
        then Some (node h z (xs @ [x]) j (length xs div 2 ^ j)) else filled s (b + j))"
    by auto
  moreover have "frontier h z b d (filled s') (xs @ [x])"
    by (rule frontier_append [OF fr]) (simp add: f)
  ultimately show ?thesis by blast
qed

end

end
