(* ===== verification/SorobanHash.thy ===== *)
theory SorobanHash
  imports RoundConstants MerkleFrontier
begin

text \<open>
  The hash functions of the contracts (\<open>contracts/soroban-utils/src/poseidon2.rs\<close>) and their
  table of empty-subtree hashes.

  The permutation itself is a host function of Soroban, so it is a parameter: it takes the
  input vector, the field's symbol, the width, the degree of the S-box, the numbers of full
  and partial rounds, the diagonal and the round constants, exactly as the calls pass them.
  \<open>good_host\<close> is what the source relies on: for the two parameter sets the contracts pass and
  inputs that are field elements, as many elements out as in, all of them field elements.
\<close>

section \<open>Compression and hashing\<close>

type_synonym poseidon2_host =
  "u256 list \<Rightarrow> string \<Rightarrow> nat \<Rightarrow> nat \<Rightarrow> nat \<Rightarrow> nat \<Rightarrow> u256 list \<Rightarrow> u256 list list \<Rightarrow> u256 list"

definition first_element :: "'a list \<Rightarrow> 'a option" where
  "first_element xs = (case xs of [] \<Rightarrow> None | x # _ \<Rightarrow> Some x)"

definition poseidon2_compress :: "poseidon2_host \<Rightarrow> u256 \<Rightarrow> u256 \<Rightarrow> ('e, u256) result" where
  "poseidon2_compress host left right =
     (if bn256_modulus \<le> left \<or> bn256_modulus \<le> right then Inl Trap
      else and_then
        (unwrap (first_element
          (host [left, right] ''BN254'' 2 5 8 56 [1, 2] get_round_constants_t2)))
        (\<lambda>out0. and_then (unwrap (u256_add out0 left))
        (\<lambda>c. Inr (if bn256_modulus \<le> c then c mod bn256_modulus else c))))"

definition poseidon2_hash2 ::
  "poseidon2_host \<Rightarrow> u256 \<Rightarrow> u256 \<Rightarrow> u256 option \<Rightarrow> ('e, u256) result" where
  "poseidon2_hash2 host a b sep =
     (let s = unwrap_or sep 0 in
      if bn256_modulus \<le> a \<or> bn256_modulus \<le> b \<or> bn256_modulus \<le> s then Inl Trap
      else unwrap (first_element
        (host [a, b, s] ''BN254'' 3 5 8 56 [1, 1, 2] get_round_constants_t3)))"

section \<open>Empty subtrees\<close>

definition zeroes_1 :: "nat list list" where
  "zeroes_1 =
    [
     [37, 48, 34, 136, 219, 153, 53, 3, 68, 151, 65, 131, 206, 49, 13, 99, 181, 58, 187, 158,
      240, 248, 87, 87, 83, 238, 211, 110, 1, 24, 249, 206],
     [33, 244, 234, 36, 146, 173, 224, 6, 168, 238, 127, 183, 100, 6, 10, 149, 164, 238, 245,
      202, 147, 30, 3, 123, 205, 240, 95, 194, 128, 103, 208, 8],
     [14, 191, 180, 210, 240, 91, 182, 164, 115, 201, 191, 247, 37, 134, 254, 200, 6, 241, 172,
      35, 112, 21, 197, 112, 215, 199, 130, 73, 207, 125, 119, 64],
     [6, 104, 130, 165, 218, 177, 134, 212, 214, 63, 166, 96, 15, 158, 163, 213, 205, 254, 242,
      162, 129, 28, 137, 115, 17, 40, 167, 41, 215, 232, 184, 151],
     [6, 93, 179, 20, 141, 141, 165, 50, 155, 234, 236, 80, 66, 120, 92, 105, 242, 206, 7, 9,
      226, 109, 70, 139, 218, 30, 37, 92, 89, 155, 86, 134],
     [25, 146, 111, 170, 35, 176, 115, 125, 70, 127, 148, 118, 240, 248, 75, 41, 104, 255, 102,
      102, 225, 106, 35, 228, 212, 72, 152, 248, 132, 80, 71, 100],
     [40, 124, 72, 90, 114, 204, 200, 212, 216, 6, 146, 217, 126, 182, 44, 22, 73, 83, 160, 66,
      39, 145, 246, 175, 98, 20, 169, 167, 173, 34, 121, 192],
     [31, 114, 158, 16, 62, 125, 65, 95, 114, 141, 201, 69, 227, 182, 226, 196, 10, 192, 203,
      54, 158, 83, 43, 165, 10, 86, 151, 144, 205, 222, 42, 204],
     [24, 135, 231, 31, 146, 33, 127, 254, 134, 98, 14, 110, 165, 167, 26, 211, 82, 31, 173,
      228, 200, 50, 3, 255, 163, 232, 56, 254, 61, 110, 114, 3],
     [41, 90, 167, 142, 86, 199, 160, 154, 134, 79, 47, 65, 117, 16, 0, 149, 243, 231, 185, 239,
      42, 145, 26, 248, 124, 176, 243, 247, 238, 242, 119, 0],
     [5, 23, 3, 42, 121, 107, 3, 64, 220, 95, 157, 242, 139, 31, 211, 32, 218, 186, 36, 213,
      164, 83, 53, 161, 55, 22, 115, 0, 238, 54, 136, 40],
     [21, 250, 223, 73, 71, 210, 164, 12, 123, 67, 158, 131, 234, 60, 151, 159, 247, 37, 170,
      209, 28, 71, 170, 175, 137, 42, 171, 65, 61, 178, 220, 221],
     [0, 172, 183, 35, 107, 109, 135, 244, 135, 91, 59, 157, 23, 32, 169, 224, 104, 44, 112,
      228, 188, 109, 84, 237, 246, 31, 170, 43, 201, 56, 65, 214],
     [9, 131, 109, 217, 5, 77, 86, 10, 230, 14, 166, 168, 3, 52, 4, 179, 228, 3, 9, 246, 238,
      77, 23, 10, 203, 146, 230, 102, 126, 134, 199, 117],
     [33, 152, 148, 107, 23, 249, 186, 3, 93, 126, 231, 40, 116, 28, 165, 244, 229, 135, 92,
      182, 175, 178, 150, 132, 166, 245, 249, 168, 47, 238, 196, 130]]"

definition zeroes_2 :: "nat list list" where
  "zeroes_2 =
    [
     [21, 212, 177, 104, 48, 96, 77, 190, 11, 50, 18, 227, 31, 149, 116, 120, 124, 21, 176, 245,
      78, 94, 36, 176, 128, 104, 126, 122, 110, 246, 212, 85],
     [45, 7, 247, 62, 4, 207, 10, 83, 128, 55, 186, 7, 86, 22, 81, 172, 151, 155, 176, 14, 23,
      5, 199, 93, 220, 149, 22, 236, 75, 138, 106, 118],
     [2, 248, 115, 26, 234, 40, 154, 107, 64, 16, 0, 72, 126, 140, 105, 37, 201, 34, 64, 126,
      236, 165, 143, 46, 24, 204, 138, 217, 182, 197, 209, 63],
     [10, 48, 5, 60, 23, 135, 199, 151, 130, 230, 11, 200, 216, 37, 233, 227, 35, 200, 169, 2,
      249, 58, 165, 146, 60, 36, 209, 125, 22, 219, 146, 92],
     [14, 163, 5, 141, 153, 88, 186, 95, 228, 65, 251, 215, 157, 201, 104, 244, 73, 33, 93, 222,
      230, 97, 70, 22, 26, 252, 243, 76, 52, 191, 164, 144],
     [39, 185, 147, 126, 71, 166, 89, 131, 173, 80, 165, 183, 246, 185, 207, 5, 66, 201, 26,
      141, 250, 23, 20, 206, 248, 144, 19, 67, 138, 6, 249, 183],
     [45, 52, 123, 228, 229, 71, 197, 131, 124, 27, 33, 114, 50, 38, 40, 160, 196, 141, 102,
      129, 147, 25, 103, 145, 179, 16, 103, 75, 4, 83, 192, 57],
     [3, 242, 70, 27, 53, 184, 146, 252, 140, 88, 151, 6, 40, 61, 16, 131, 244, 210, 214, 107,
      228, 249, 126, 70, 26, 186, 242, 240, 111, 137, 207, 253],
     [37, 155, 143, 160, 8, 44, 246, 6, 111, 0, 90, 10, 73, 0, 103, 18, 254, 29, 207, 239, 106,
      152, 214, 143, 122, 180, 69, 248, 138, 219, 97, 167],
     [25, 128, 165, 247, 234, 192, 157, 170, 199, 178, 210, 23, 155, 161, 217, 112, 251, 63, 2,
      19, 221, 144, 97, 49, 40, 245, 213, 88, 99, 216, 68, 20],
     [28, 252, 217, 74, 171, 194, 60, 172, 212, 204, 171, 34, 232, 125, 35, 3, 32, 13, 9, 176,
      48, 66, 178, 4, 127, 3, 210, 224, 222, 245, 126, 133],
     [16, 43, 220, 129, 172, 191, 140, 82, 211, 88, 113, 162, 31, 242, 117, 22, 221, 190, 110,
      49, 239, 81, 116, 12, 73, 189, 46, 226, 177, 152, 12, 33],
     [47, 173, 132, 243, 136, 162, 99, 231, 20, 199, 179, 159, 176, 221, 36, 190, 97, 88, 185,
      226, 20, 128, 170, 58, 96, 119, 135, 7, 136, 159, 118, 173],
     [42, 206, 148, 45, 48, 190, 203, 54, 159, 28, 253, 2, 91, 83, 148, 214, 238, 76, 151, 245,
      89, 48, 4, 138, 24, 251, 80, 17, 40, 200, 119, 119],
     [9, 48, 254, 204, 191, 118, 42, 107, 35, 154, 206, 226, 195, 105, 222, 154, 49, 189, 62,
      35, 44, 144, 198, 74, 241, 65, 148, 92, 28, 65, 84, 99]]"

definition zeroes_3 :: "nat list list" where
  "zeroes_3 =
    [
     [26, 89, 226, 186, 85, 241, 232, 41, 188, 162, 198, 49, 106, 156, 205, 8, 1, 125, 46, 155,
      245, 50, 148, 44, 38, 216, 35, 101, 202, 96, 75, 88],
     [26, 142, 132, 12, 132, 226, 251, 82, 18, 214, 31, 9, 173, 95, 145, 214, 167, 10, 131, 7,
      78, 148, 39, 114, 239, 116, 180, 45, 18, 161, 31, 80],
     [19, 75, 80, 223, 2, 226, 204, 185, 139, 89, 175, 44, 44, 85, 215, 164, 31, 241, 2, 104,
      23, 48, 196, 43, 163, 100, 219, 255, 18, 113, 207, 98]]"

definition get_zeroes :: "u256 list" where
  "get_zeroes = map from_be_bytes (zeroes_1 @ zeroes_2 @ zeroes_3)"

lemma length_get_zeroes [simp]: "length get_zeroes = 33"
  by (simp add: get_zeroes_def zeroes_1_def zeroes_2_def zeroes_3_def)

lemma zeroes_bytes:
  "list_all (\<lambda>bs. is_bytes bs \<and> length bs = 32 \<and> bytes_less bs BN256_MOD_BYTES)
     (zeroes_1 @ zeroes_2 @ zeroes_3)"
  by code_simp

lemma distinct_zeroes_bytes: "distinct (zeroes_1 @ zeroes_2 @ zeroes_3)"
proof -
  have "distinct (map (\<lambda>bs. 256 * bs ! 0 + bs ! 1) (zeroes_1 @ zeroes_2 @ zeroes_3))"
    by (simp add: zeroes_1_def zeroes_2_def zeroes_3_def)
  then show ?thesis by (simp only: distinct_map)
qed

lemma canonical_get_zeroes: "z \<in> set get_zeroes \<Longrightarrow> canonical z"
proof -
  assume "z \<in> set get_zeroes"
  then obtain bs where "bs \<in> set (zeroes_1 @ zeroes_2 @ zeroes_3)" and "z = from_be_bytes bs"
    unfolding get_zeroes_def by (simp only: set_map) blast
  moreover from this(1) zeroes_bytes
  have "is_bytes bs \<and> length bs = 32 \<and> bytes_less bs BN256_MOD_BYTES"
    unfolding list_all_iff by blast
  ultimately show "canonical z" by (simp add: bytes_less_canonical)
qed

lemma distinct_get_zeroes: "distinct get_zeroes"
proof -
  have "inj_on from_be_bytes (set (zeroes_1 @ zeroes_2 @ zeroes_3))"
    using zeroes_bytes by (intro inj_onI is_bytes_inj) (simp_all add: list_all_iff)
  then show ?thesis using distinct_zeroes_bytes by (simp only: get_zeroes_def distinct_map)
qed

lemma get_zeroes_2_nonzero: "get_zeroes ! 2 \<noteq> 0"
proof -
  have "unat (get_zeroes ! 2) = be_value (zeroes_1 ! 2)"
    using zeroes_bytes by (simp add: get_zeroes_def zeroes_1_def unat_from_be_bytes)
  moreover have "be_value (zeroes_1 ! 2) \<noteq> 0" by (simp add: zeroes_1_def)
  ultimately show ?thesis by auto
qed

text \<open>
  The comment on \<open>get_zeroes\<close> says how the table was made: every entry is the compression of
  the entry before it with itself. That is a statement about the host's permutation.
\<close>

definition zeroes_consistent :: "(u256 \<Rightarrow> u256 \<Rightarrow> u256) \<Rightarrow> bool" where
  "zeroes_consistent h \<longleftrightarrow>
     list_all (\<lambda>i. h (get_zeroes ! i) (get_zeroes ! i) = get_zeroes ! Suc i) [0..<32]"

lemma zeroes_chain:
  assumes "zeroes_consistent h"
  shows "i \<le> 32 \<Longrightarrow> zero_chain h (get_zeroes ! 0) i = get_zeroes ! i"
proof (induction i)
  case (Suc i)
  with assms show ?case by (simp add: zeroes_consistent_def list_all_iff)
qed simp

section \<open>What callers rely on\<close>

definition field_elements :: "nat \<Rightarrow> u256 list \<Rightarrow> bool" where
  "field_elements t xs \<longleftrightarrow> length xs = t \<and> (\<forall>x \<in> set xs. canonical x)"

definition good_host :: "poseidon2_host \<Rightarrow> bool" where
  "good_host host \<longleftrightarrow>
     (\<forall>ins. field_elements 2 ins \<longrightarrow>
        field_elements 2 (host ins ''BN254'' 2 5 8 56 [1, 2] get_round_constants_t2))
   \<and> (\<forall>ins. field_elements 3 ins \<longrightarrow>
        field_elements 3 (host ins ''BN254'' 3 5 8 56 [1, 1, 2] get_round_constants_t3))"

text \<open>The value both functions return on field elements.\<close>

definition compress_value :: "poseidon2_host \<Rightarrow> u256 \<Rightarrow> u256 \<Rightarrow> u256" where
  "compress_value host l r =
     word_of_nat ((unat (hd (host [l, r] ''BN254'' 2 5 8 56 [1, 2] get_round_constants_t2)) + unat l)
       mod prime)"

definition hash2_value :: "poseidon2_host \<Rightarrow> u256 \<Rightarrow> u256 \<Rightarrow> u256 \<Rightarrow> u256" where
  "hash2_value host a b s = hd (host [a, b, s] ''BN254'' 3 5 8 56 [1, 1, 2] get_round_constants_t3)"

lemma field_elements_Cons:
  "field_elements t xs \<Longrightarrow> 0 < t \<Longrightarrow> \<exists>y ys. xs = y # ys \<and> canonical y"
  by (cases xs) (auto simp: field_elements_def)

lemma good_host_2:
  assumes "good_host host" "canonical l" "canonical r"
  shows "\<exists>y ys. host [l, r] ''BN254'' 2 5 8 56 [1, 2] get_round_constants_t2 = y # ys \<and> canonical y"
proof -
  have "field_elements 2 [l, r]" using assms by (simp add: field_elements_def)
  with assms(1) show ?thesis unfolding good_host_def by (meson field_elements_Cons zero_less_numeral)
qed

lemma good_host_3:
  assumes "good_host host" "canonical a" "canonical b" "canonical s"
  shows "\<exists>y ys. host [a, b, s] ''BN254'' 3 5 8 56 [1, 1, 2] get_round_constants_t3 = y # ys \<and> canonical y"
proof -
  have "field_elements 3 [a, b, s]" using assms by (simp add: field_elements_def)
  with assms(1) show ?thesis unfolding good_host_def by (meson field_elements_Cons zero_less_numeral)
qed

lemma unat_word_mod [simp]: "unat (word_of_nat (n mod prime) :: u256) = n mod prime"
proof -
  have "n mod prime < 2 ^ 256"
    using mod_less_divisor [OF prime_pos] prime_less by (rule less_trans)
  then show ?thesis by (simp add: unat_of_nat)
qed

lemma canonical_word_of_nat_mod: "canonical (word_of_nat (n mod prime))"
  using prime_pos by (simp add: canonical_unat)

lemma canonical_compress_value: "canonical (compress_value host l r)"
  by (simp add: compress_value_def canonical_word_of_nat_mod)

lemma poseidon2_compress_ok:
  assumes host: "good_host host" and l: "canonical l" and r: "canonical r"
  shows "poseidon2_compress host l r = Inr (compress_value host l r)"
proof -
  let ?out = "host [l, r] ''BN254'' 2 5 8 56 [1, 2] get_round_constants_t2"
  obtain y ys where out: "?out = y # ys" and y: "canonical y"
    using good_host_2 [OF host l r] by blast
  from u256_add_canonical [OF y l] have add: "u256_add y l = Some (y + l)"
    and un: "unat (y + l) = unat y + unat l" by simp_all
  have "(if bn256_modulus \<le> y + l then (y + l) mod bn256_modulus else y + l)
      = word_of_nat ((unat y + unat l) mod prime)"
  proof (cases "bn256_modulus \<le> y + l")
    case True
    have "unat ((y + l) mod bn256_modulus) = (unat y + unat l) mod prime"
      by (simp add: unat_mod un)
    then have "(y + l) mod bn256_modulus = word_of_nat ((unat y + unat l) mod prime)"
      by (rule word_eq_of_unat)
    with True show ?thesis by simp
  next
    case False
    then have "unat y + unat l < prime"
      using un by (simp add: word_le_nat_alt not_le)
    then have "y + l = word_of_nat ((unat y + unat l) mod prime)"
      using un by (intro word_eq_of_unat) simp
    with False show ?thesis by simp
  qed
  with l r show ?thesis
    by (simp add: poseidon2_compress_def out first_element_def add compress_value_def canonical_def not_le)
qed

lemma poseidon2_compress_trap:
  assumes "\<not> canonical l \<or> \<not> canonical r"
  shows "poseidon2_compress host l r = Inl Trap"
  using assms by (auto simp: poseidon2_compress_def canonical_def not_less)

lemma good_hash_compress:
  "good_host host \<Longrightarrow> good_hash (poseidon2_compress host) (compress_value host) canonical"
  by (simp add: good_hash_def poseidon2_compress_ok canonical_compress_value)

lemma poseidon2_hash2_ok:
  assumes host: "good_host host" and "canonical a" "canonical b" "canonical (unwrap_or s 0)"
  shows "poseidon2_hash2 host a b s = Inr (hash2_value host a b (unwrap_or s 0))
    \<and> canonical (hash2_value host a b (unwrap_or s 0))"
proof -
  let ?s = "unwrap_or s 0"
  obtain y ys where "host [a, b, ?s] ''BN254'' 3 5 8 56 [1, 1, 2] get_round_constants_t3 = y # ys"
    and "canonical y"
    using good_host_3 [OF host, of a b ?s] assms by blast
  with assms show ?thesis
    by (simp add: poseidon2_hash2_def hash2_value_def Let_def first_element_def canonical_def not_le)
qed

section \<open>A concrete host\<close>

text \<open>
  The hypotheses on the host can hold together: this permutation completes the table of
  empty subtrees and sends every other pair to the element that compresses to
  \<open>left + 2 * right + 1\<close>. Witnesses use it.
\<close>

definition sample_target :: "u256 \<Rightarrow> u256 \<Rightarrow> nat" where
  "sample_target l r =
     (case map_of (zip get_zeroes (tl get_zeroes)) l of
        Some z \<Rightarrow> if l = r then unat z else (unat l + 2 * unat r + 1) mod prime
      | None \<Rightarrow> (unat l + 2 * unat r + 1) mod prime)"

definition sample_host :: poseidon2_host where
  "sample_host ins fld t d rf rp diag rc =
     (case ins of
        [l, r] \<Rightarrow> [word_of_nat ((sample_target l r + prime - unat l) mod prime), 0]
      | _ \<Rightarrow> replicate (length ins) (word_of_nat ((sum_list (map unat ins)) mod prime)))"

lemma sample_target_less: "sample_target l r < prime"
proof (cases "map_of (zip get_zeroes (tl get_zeroes)) l")
  case None
  then show ?thesis using prime_pos by (simp add: sample_target_def)
next
  case (Some z)
  then have "z \<in> set (tl get_zeroes)"
    by (meson map_of_SomeD set_zip_rightD)
  then have "canonical z" by (intro canonical_get_zeroes) (rule list.set_sel(2) [of get_zeroes], auto)
  with Some show ?thesis using prime_pos by (simp add: sample_target_def canonical_unat)
qed

lemma good_sample_host: "good_host sample_host"
proof -
  have "field_elements t (sample_host ins fld t d rf rp diag rc)" if "field_elements t ins"
    for ins fld t d rf rp diag rc
    using that prime_pos
    by (auto simp: field_elements_def sample_host_def canonical_unat split: list.splits)
  then show ?thesis by (simp add: good_host_def)
qed

lemma compress_value_sample:
  assumes "canonical l"
  shows "compress_value sample_host l r = word_of_nat (sample_target l r)"
proof -
  have l: "unat l < prime" using assms by (simp add: canonical_unat)
  have "((sample_target l r + prime - unat l) mod prime + unat l) mod prime = sample_target l r"
    using l sample_target_less by (simp add: mod_simps)
  then show ?thesis by (simp add: compress_value_def sample_host_def)
qed

lemma zeroes_consistent_sample: "zeroes_consistent (compress_value sample_host)"
  unfolding zeroes_consistent_def list_all_iff
proof
  fix i
  assume "i \<in> set [0..<32::nat]"
  then have i: "i < 32" by simp
  let ?zs = "get_zeroes"
  have "canonical (?zs ! i)" using i by (intro canonical_get_zeroes) simp
  moreover have "map_of (zip ?zs (tl ?zs)) (?zs ! i) = Some (?zs ! Suc i)"
  proof (rule map_of_is_SomeI)
    have "map fst (zip ?zs (tl ?zs)) = take 32 ?zs" by (simp add: map_fst_zip_take)
    then show "distinct (map fst (zip ?zs (tl ?zs)))" using distinct_get_zeroes by simp
    show "(?zs ! i, ?zs ! Suc i) \<in> set (zip ?zs (tl ?zs))"
      using i by (auto simp: in_set_zip nth_tl intro!: exI [of _ i])
  qed
  ultimately show "compress_value sample_host (?zs ! i) (?zs ! i) = ?zs ! Suc i"
    by (simp add: compress_value_sample sample_target_def)
qed

end
