(* ===== verification/ConstantCheck.thy ===== *)
theory ConstantCheck
  imports RoundConstants Poseidon2 SorobanHash
begin

text \<open>
  The two transcriptions of the Poseidon2 parameters compared: the byte tables of the contracts
  (\<open>contracts/soroban-utils/src/constants.rs\<close>) against the hexadecimal tables of the off-chain
  hasher (\<open>poseidon2/src/poseidon2/poseidon2_instance_bn256.rs\<close>), and, with that, the hash
  functions of the contracts against those of the prover.
\<close>

section \<open>Reading the hexadecimal table\<close>

text \<open>
  \<open>from_hex\<close> drops the \<open>0x\<close>, decodes, and reduces the big-endian value modulo the field;
  \<open>None\<close> is the \<open>expect\<close> on a decoding error. \<open>decode\<close> is the \<open>hex\<close> crate.
\<close>

definition from_hex :: "(string \<Rightarrow> nat list option) \<Rightarrow> string \<Rightarrow> nat option" where
  "from_hex decode s = map_option (\<lambda>a. be_value a mod prime) (decode (drop 2 s))"

definition RC2 :: "(string \<Rightarrow> nat list option) \<Rightarrow> nat list list option" where
  "RC2 decode = those (map (\<lambda>rc. those (map (from_hex decode) rc))
     rc_hex_2)"

definition RC3 :: "(string \<Rightarrow> nat list option) \<Rightarrow> nat list list option" where
  "RC3 decode = those (map (\<lambda>rc. those (map (from_hex decode) rc))
     rc_hex_3)"

section \<open>Comparing the transcriptions\<close>

definition same_constant :: "string \<Rightarrow> nat list \<Rightarrow> bool" where
  "same_constant h bs \<longleftrightarrow> drop 2 h = hex_encode bs \<and> is_bytes bs \<and> length bs = 32
     \<and> bytes_less bs BN256_MOD_BYTES"

lemma same_constant_from_hex:
  assumes "hex_decodes decode" and "same_constant h bs"
  shows "from_hex decode h = Some (unat (from_be_bytes bs))"
proof -
  have len: "length bs = length BN256_MOD_BYTES" and b: "is_bytes bs" and l32: "length bs = 32"
    using assms(2) by (simp_all add: same_constant_def BN256_MOD_BYTES_def)
  have "be_value bs < prime"
    using assms(2) bytes_less_be_value [OF _ b len] by (simp add: same_constant_def be_value_modulus)
  with assms b l32 show ?thesis
    by (simp add: from_hex_def same_constant_def hex_decodes_def unat_from_be_bytes)
qed

lemma those_same_constants:
  assumes "hex_decodes decode"
  shows "list_all2 same_constant hs bss
    \<Longrightarrow> those (map (from_hex decode) hs) = Some (map (\<lambda>bs. unat (from_be_bytes bs)) bss)"
  by (induction hs bss rule: list_all2_induct)
    (simp_all add: same_constant_from_hex [OF assms])

lemma those_same_rounds:
  assumes "hex_decodes decode"
  shows "list_all2 (list_all2 same_constant) hss bsss
    \<Longrightarrow> those (map (\<lambda>rc. those (map (from_hex decode) rc)) hss)
        = Some (map (map unat) (map (map from_be_bytes) bsss))"
  by (induction hss bsss rule: list_all2_induct)
    (simp_all add: those_same_constants [OF assms])

lemma tables_t2_1: "list_all2 (list_all2 same_constant) rc_hex_2_1 rc_t2_1"
  by code_simp

lemma tables_t2_2: "list_all2 (list_all2 same_constant) rc_hex_2_2 rc_t2_2"
  by code_simp

lemma tables_t2_3: "list_all2 (list_all2 same_constant) rc_hex_2_3 rc_t2_3"
  by code_simp

lemma tables_t2_4: "list_all2 (list_all2 same_constant) rc_hex_2_4 (rc_t2_4[1 := rc_t2_4 ! 1 @ [replicate 32 0]])"
  by code_simp

lemma tables_t2_5: "list_all2 (list_all2 same_constant) rc_hex_2_5 rc_t2_5"
  by code_simp

lemma tables_t2_6: "list_all2 (list_all2 same_constant) rc_hex_2_6 rc_t2_6"
  by code_simp

lemma tables_t2_7: "list_all2 (list_all2 same_constant) rc_hex_2_7 rc_t2_7"
  by code_simp

lemma tables_t3_1: "list_all2 (list_all2 same_constant) rc_hex_3_1 rc_t3_1"
  by code_simp

lemma tables_t3_2: "list_all2 (list_all2 same_constant) rc_hex_3_2 rc_t3_2"
  by code_simp

lemma tables_t3_3: "list_all2 (list_all2 same_constant) rc_hex_3_3 rc_t3_3"
  by code_simp

lemma tables_t3_4: "list_all2 (list_all2 same_constant) rc_hex_3_4 rc_t3_4"
  by code_simp

lemma tables_t3_5: "list_all2 (list_all2 same_constant) rc_hex_3_5 rc_t3_5"
  by code_simp

lemma tables_t3_6: "list_all2 (list_all2 same_constant) rc_hex_3_6 rc_t3_6"
  by code_simp

lemma tables_t3_7: "list_all2 (list_all2 same_constant) rc_hex_3_7 rc_t3_7"
  by code_simp

lemma tables_t3_8: "list_all2 (list_all2 same_constant) rc_hex_3_8 rc_t3_8"
  by code_simp

lemma tables_t3_9: "list_all2 (list_all2 same_constant) rc_hex_3_9 rc_t3_9"
  by code_simp

lemma tables_t3_10: "list_all2 (list_all2 same_constant) rc_hex_3_10 rc_t3_10"
  by code_simp

lemma tables_t3_11: "list_all2 (list_all2 same_constant) rc_hex_3_11 rc_t3_11"
  by code_simp

lemma tables_t3_12: "list_all2 (list_all2 same_constant) rc_hex_3_12 rc_t3_12"
  by code_simp

lemma tables_t3_13: "list_all2 (list_all2 same_constant) rc_hex_3_13 rc_t3_13"
  by code_simp

lemma tables_t3_14: "list_all2 (list_all2 same_constant) rc_hex_3_14 rc_t3_14"
  by code_simp

lemma tables_t3_15: "list_all2 (list_all2 same_constant) rc_hex_3_15 rc_t3_15"
  by code_simp

lemma tables_t3_16: "list_all2 (list_all2 same_constant) rc_hex_3_16 rc_t3_16"
  by code_simp

lemma shape_t2_1: "map length rc_t2_1 = replicate 8 2"
  by code_simp

lemma shape_t2_2: "map length rc_t2_2 = replicate 10 2"
  by code_simp

lemma shape_t2_3: "map length rc_t2_3 = replicate 10 2"
  by code_simp

lemma shape_t2_4: "map length rc_t2_4 = replicate 1 2 @ [1] @ replicate 8 2"
  by code_simp

lemma shape_t2_5: "map length rc_t2_5 = replicate 10 2"
  by code_simp

lemma shape_t2_6: "map length rc_t2_6 = replicate 10 2"
  by code_simp

lemma shape_t2_7: "map length rc_t2_7 = replicate 6 2"
  by code_simp

lemma shape_t3_1: "map length rc_t3_1 = replicate 4 3"
  by code_simp

lemma shape_t3_2: "map length rc_t3_2 = replicate 4 3"
  by code_simp

lemma shape_t3_3: "map length rc_t3_3 = replicate 4 3"
  by code_simp

lemma shape_t3_4: "map length rc_t3_4 = replicate 4 3"
  by code_simp

lemma shape_t3_5: "map length rc_t3_5 = replicate 4 3"
  by code_simp

lemma shape_t3_6: "map length rc_t3_6 = replicate 4 3"
  by code_simp

lemma shape_t3_7: "map length rc_t3_7 = replicate 4 3"
  by code_simp

lemma shape_t3_8: "map length rc_t3_8 = replicate 4 3"
  by code_simp

lemma shape_t3_9: "map length rc_t3_9 = replicate 4 3"
  by code_simp

lemma shape_t3_10: "map length rc_t3_10 = replicate 4 3"
  by code_simp

lemma shape_t3_11: "map length rc_t3_11 = replicate 4 3"
  by code_simp

lemma shape_t3_12: "map length rc_t3_12 = replicate 4 3"
  by code_simp

lemma shape_t3_13: "map length rc_t3_13 = replicate 4 3"
  by code_simp

lemma shape_t3_14: "map length rc_t3_14 = replicate 4 3"
  by code_simp

lemma shape_t3_15: "map length rc_t3_15 = replicate 4 3"
  by code_simp

lemma shape_t3_16: "map length rc_t3_16 = replicate 4 3"
  by code_simp

lemmas lengths_t2 = shape_t2_1 [THEN arg_cong [where f = length], unfolded length_map]
  shape_t2_2 [THEN arg_cong [where f = length], unfolded length_map]
  shape_t2_3 [THEN arg_cong [where f = length], unfolded length_map]
  shape_t2_4 [THEN arg_cong [where f = length], unfolded length_map]
  shape_t2_5 [THEN arg_cong [where f = length], unfolded length_map]
  shape_t2_6 [THEN arg_cong [where f = length], unfolded length_map]
  shape_t2_7 [THEN arg_cong [where f = length], unfolded length_map]

lemma shape_rc_t2: "map length rc_t2 = replicate 29 2 @ [1] @ replicate 34 2"
proof -
  have "map length rc_t2 = (replicate 8 2) @ (replicate 10 2) @ (replicate 10 2) @ (replicate 1 2 @ [1] @ replicate 8 2) @ (replicate 10 2) @ (replicate 10 2) @ (replicate 6 2)"
    by (simp only: rc_t2_def map_append shape_t2_1 shape_t2_2 shape_t2_3 shape_t2_4 shape_t2_5 shape_t2_6 shape_t2_7)
  also have "\<dots> = replicate 29 2 @ [1] @ replicate 34 2"
    by code_simp
  finally show ?thesis .
qed

lemma shape_rc_t3: "map length rc_t3 = replicate 64 3"
proof -
  have "map length rc_t3 = replicate 4 3 @ replicate 4 3 @ replicate 4 3 @ replicate 4 3 @ replicate 4 3 @ replicate 4 3 @ replicate 4 3 @ replicate 4 3 @ replicate 4 3 @ replicate 4 3 @ replicate 4 3 @ replicate 4 3 @ replicate 4 3 @ replicate 4 3 @ replicate 4 3 @ replicate 4 3"
    by (simp only: rc_t3_def map_append shape_t3_1 shape_t3_2 shape_t3_3 shape_t3_4 shape_t3_5 shape_t3_6 shape_t3_7 shape_t3_8 shape_t3_9 shape_t3_10 shape_t3_11 shape_t3_12 shape_t3_13 shape_t3_14 shape_t3_15 shape_t3_16)
  also have "\<dots> = replicate 64 3"
    by code_simp
  finally show ?thesis .
qed

lemma length_rc_t2: "length rc_t2 = 64"
  using arg_cong [OF shape_rc_t2, of length] by simp

lemma length_rc_t3: "length rc_t3 = 64"
  using arg_cong [OF shape_rc_t3, of length] by simp

text \<open>
  Row 29 of the width-two table of the contracts holds one constant where every other row
  holds two (\<open>constants.rs\<close> lines 465 to 477). The table agrees with \<open>RC2\<close> once that row is
  completed with a zero.
\<close>

definition completed_t2 :: "nat list list list" where
  "completed_t2 = rc_t2[29 := rc_t2 ! 29 @ [replicate 32 0]]"

lemma completed_t2_blocks:
  "completed_t2 = rc_t2_1 @ rc_t2_2 @ rc_t2_3 @ rc_t2_4[1 := rc_t2_4 ! 1 @ [replicate 32 0]] @ rc_t2_5 @ rc_t2_6 @ rc_t2_7"
  by (simp add: completed_t2_def rc_t2_def list_update_append nth_append lengths_t2)

lemma tables_t2: "list_all2 (list_all2 same_constant) rc_hex_2 completed_t2"
  unfolding completed_t2_blocks rc_hex_2_def
  by (intro list_all2_appendI tables_t2_1 tables_t2_2 tables_t2_3 tables_t2_4 tables_t2_5 tables_t2_6 tables_t2_7)

lemma tables_t3: "list_all2 (list_all2 same_constant) rc_hex_3 rc_t3"
  unfolding rc_t3_def rc_hex_3_def
  by (intro list_all2_appendI tables_t3_1 tables_t3_2 tables_t3_3 tables_t3_4 tables_t3_5 tables_t3_6 tables_t3_7 tables_t3_8 tables_t3_9 tables_t3_10 tables_t3_11 tables_t3_12 tables_t3_13 tables_t3_14 tables_t3_15 tables_t3_16)

lemma from_be_bytes_zeros: "from_be_bytes (replicate n 0) = 0"
proof -
  have "be_value (replicate n 0) = 0" by (induction n) simp_all
  then show ?thesis by (simp add: from_be_bytes_def)
qed

lemma completed_t2_words:
  "map (map from_be_bytes) completed_t2
     = get_round_constants_t2[29 := get_round_constants_t2 ! 29 @ [0]]"
  by (simp add: completed_t2_def get_round_constants_t2_def map_update length_rc_t2 from_be_bytes_zeros)

lemma canonical_table:
  assumes "list_all2 (list_all2 same_constant) hss bsss" and "rc \<in> set (map (map from_be_bytes) bsss)"
    and "c \<in> set rc"
  shows "canonical c"
proof -
  from assms obtain bss bs where "bss \<in> set bsss" "bs \<in> set bss" and c: "c = from_be_bytes bs" by auto
  with assms(1) obtain h where h: "same_constant h bs"
    by (metis (no_types, lifting) in_set_conv_nth list_all2_conv_all_nth)
  then have "be_value bs < prime"
    using bytes_less_be_value [of bs BN256_MOD_BYTES]
    by (simp add: same_constant_def be_value_modulus) (simp add: BN256_MOD_BYTES_def)
  with h c show ?thesis by (simp add: canonical_unat same_constant_def unat_from_be_bytes)
qed

section \<open>The off-chain parameter sets\<close>

definition hex_word :: "string \<Rightarrow> string" where
  "hex_word s = ''0x'' @ replicate (64 - length s) CHR ''0'' @ s"

definition MAT_DIAG2_M_1 :: "(string \<Rightarrow> nat list option) \<Rightarrow> nat list option" where
  "MAT_DIAG2_M_1 decode = those (map (from_hex decode) [hex_word ''1'', hex_word ''2''])"

definition MAT_INTERNAL2 :: "(string \<Rightarrow> nat list option) \<Rightarrow> nat list list option" where
  "MAT_INTERNAL2 decode = those (map (\<lambda>r. those (map (from_hex decode) r))
     [[hex_word ''2'', hex_word ''1''], [hex_word ''1'', hex_word ''3'']])"

definition MAT_DIAG3_M_1 :: "(string \<Rightarrow> nat list option) \<Rightarrow> nat list option" where
  "MAT_DIAG3_M_1 decode = those (map (from_hex decode) [hex_word ''1'', hex_word ''1'', hex_word ''2''])"

definition MAT_INTERNAL3 :: "(string \<Rightarrow> nat list option) \<Rightarrow> nat list list option" where
  "MAT_INTERNAL3 decode = those (map (\<lambda>r. those (map (from_hex decode) r))
     [[hex_word ''2'', hex_word ''1'', hex_word ''1''], [hex_word ''1'', hex_word ''2'', hex_word ''1''],
      [hex_word ''1'', hex_word ''1'', hex_word ''3'']])"

definition POSEIDON2_BN256_PARAMS_2 :: "(string \<Rightarrow> nat list option) \<Rightarrow> poseidon2_params option" where
  "POSEIDON2_BN256_PARAMS_2 decode =
     Option.bind (MAT_DIAG2_M_1 decode) (\<lambda>diag.
     Option.bind (MAT_INTERNAL2 decode) (\<lambda>mat.
     Option.bind (RC2 decode) (\<lambda>rc. new_params 2 5 8 56 diag mat rc)))"

definition POSEIDON2_BN256_PARAMS_3 :: "(string \<Rightarrow> nat list option) \<Rightarrow> poseidon2_params option" where
  "POSEIDON2_BN256_PARAMS_3 decode =
     Option.bind (MAT_DIAG3_M_1 decode) (\<lambda>diag.
     Option.bind (MAT_INTERNAL3 decode) (\<lambda>mat.
     Option.bind (RC3 decode) (\<lambda>rc. new_params 3 5 8 56 diag mat rc)))"

lemma hex_word_bytes:
  "hex_word ''1'' = ''0x'' @ hex_encode (replicate 31 0 @ [1])"
  "hex_word ''2'' = ''0x'' @ hex_encode (replicate 31 0 @ [2])"
  "hex_word ''3'' = ''0x'' @ hex_encode (replicate 31 0 @ [3])"
  by code_simp+

lemma from_hex_small:
  assumes "hex_decodes decode" and "k < 256"
  shows "from_hex decode (''0x'' @ hex_encode (replicate 31 0 @ [k])) = Some k"
proof -
  have "is_bytes (replicate 31 0 @ [k])" using assms(2) by (simp add: is_bytes_def)
  moreover have "be_value (replicate n 0 @ [k]) = k" for n by (induction n) simp_all
  moreover have "k mod prime = k" using assms(2) by (simp add: prime_def)
  ultimately show ?thesis using assms(1) by (simp add: from_hex_def hex_decodes_def)
qed

lemma matrices:
  assumes "hex_decodes decode"
  shows "MAT_DIAG2_M_1 decode = Some [1, 2]" "MAT_INTERNAL2 decode = Some [[2, 1], [1, 3]]"
    "MAT_DIAG3_M_1 decode = Some [1, 1, 2]"
    "MAT_INTERNAL3 decode = Some [[2, 1, 1], [1, 2, 1], [1, 1, 3]]"
  using from_hex_small [OF assms]
  by (simp_all add: MAT_DIAG2_M_1_def MAT_INTERNAL2_def MAT_DIAG3_M_1_def MAT_INTERNAL3_def
      hex_word_bytes)

lemma RC2_value:
  "hex_decodes decode \<Longrightarrow> RC2 decode = Some (map (map unat)
     (get_round_constants_t2[29 := get_round_constants_t2 ! 29 @ [0]]))"
  using those_same_rounds [OF _ tables_t2] by (simp only: RC2_def completed_t2_words)

lemma RC3_value:
  "hex_decodes decode \<Longrightarrow> RC3 decode = Some (map (map unat) get_round_constants_t3)"
  using those_same_rounds [OF _ tables_t3] by (simp only: RC3_def get_round_constants_t3_def)

section \<open>The host function\<close>

text \<open>
  The parameters a contract passes to the host, read as the off-chain hasher's parameters.
  \<open>host_computes\<close> is the documented behaviour of the host function for the two calls the
  contracts make: it is the Poseidon2 permutation with exactly these parameters.
\<close>

definition contract_params :: "nat \<Rightarrow> nat list \<Rightarrow> u256 list list \<Rightarrow> poseidon2_params" where
  "contract_params t diag rc = the (new_params t 5 8 56 diag [] (map (map unat) rc))"

definition host_computes :: "poseidon2_host \<Rightarrow> bool" where
  "host_computes host \<longleftrightarrow>
     (\<forall>ins. field_elements 2 ins \<longrightarrow>
        permutation (contract_params 2 [1, 2] get_round_constants_t2) (map unat ins)
          = Some (map unat (host ins ''BN254'' 2 5 8 56 [1, 2] get_round_constants_t2)))
   \<and> (\<forall>ins. field_elements 3 ins \<longrightarrow>
        permutation (contract_params 3 [1, 1, 2] get_round_constants_t3) (map unat ins)
          = Some (map unat (host ins ''BN254'' 3 5 8 56 [1, 1, 2] get_round_constants_t3)))"

lemma contract_params_fields:
  "width (contract_params t diag rc) = t" "degree (contract_params t diag rc) = 5"
  "rounds_f_div_2 (contract_params t diag rc) = 4" "rounds_p (contract_params t diag rc) = 56"
  "rounds (contract_params t diag rc) = 64" "round_constants (contract_params t diag rc) = map (map unat) rc"
  by (simp_all add: contract_params_def new_params_def)

lemma row_length_t2:
  assumes "r < 64"
  shows "length (get_round_constants_t2 ! r) = (if r = 29 then 1 else 2)"
proof -
  have "length (get_round_constants_t2 ! r) = map length rc_t2 ! r"
    using assms by (simp add: get_round_constants_t2_def length_rc_t2)
  also have "\<dots> = (if r = 29 then 1 else 2)"
    unfolding shape_rc_t2 using assms by (auto simp: nth_append nth_Cons')
  finally show ?thesis .
qed

lemma row_length_t3:
  assumes "r < 64"
  shows "length (get_round_constants_t3 ! r) = 3"
proof -
  have "length (get_round_constants_t3 ! r) = map length rc_t3 ! r"
    using assms by (simp add: get_round_constants_t3_def length_rc_t3)
  then show ?thesis unfolding shape_rc_t3 using assms by simp
qed

lemma length_tables [simp]: "length get_round_constants_t2 = 64" "length get_round_constants_t3 = 64"
  by (simp_all add: get_round_constants_t2_def get_round_constants_t3_def length_rc_t2 length_rc_t3)

lemma contract_params_shaped:
  "well_shaped 2 (contract_params 2 diag get_round_constants_t2)"
  "well_shaped 3 (contract_params 3 diag get_round_constants_t3)"
proof -
  have "get_round_constants_t2 ! r \<noteq> []" if "r < 64" for r
    using row_length_t2 [OF that] by (auto split: if_splits)
  then show "well_shaped 2 (contract_params 2 diag get_round_constants_t2)"
    by (auto simp: well_shaped_def contract_params_fields is_partial_def row_length_t2)
  have "get_round_constants_t3 ! r \<noteq> []" if "r < 64" for r
    using row_length_t3 [OF that] by auto
  then show "well_shaped 3 (contract_params 3 diag get_round_constants_t3)"
    by (auto simp: well_shaped_def contract_params_fields is_partial_def row_length_t3)
qed

lemma field_elements_reduced: "reduced t (map unat ys) \<Longrightarrow> field_elements t ys"
  by (auto simp: reduced_def field_elements_def canonical_unat)

lemma host_computes_good:
  assumes "host_computes host"
  shows "good_host host"
  unfolding good_host_def
proof (intro conjI allI impI)
  fix ins assume ins: "field_elements 2 ins"
  then have "length (map unat ins) = 2" by (simp add: field_elements_def)
  from permutation_total [OF contract_params_shaped(1) _ this, of "[1, 2]"] assms ins
  show "field_elements 2 (host ins ''BN254'' 2 5 8 56 [1, 2] get_round_constants_t2)"
    by (auto simp: host_computes_def intro: field_elements_reduced)
next
  fix ins assume ins: "field_elements 3 ins"
  then have "length (map unat ins) = 3" by (simp add: field_elements_def)
  from permutation_total [OF contract_params_shaped(2) _ this, of "[1, 1, 2]"] assms ins
  show "field_elements 3 (host ins ''BN254'' 3 5 8 56 [1, 1, 2] get_round_constants_t3)"
    by (auto simp: host_computes_def intro: field_elements_reduced)
qed

lemma params_2_same:
  assumes "hex_decodes decode"
  shows "\<exists>p. POSEIDON2_BN256_PARAMS_2 decode = Some p
    \<and> permutation p = permutation (contract_params 2 [1, 2] get_round_constants_t2)"
proof -
  let ?rc = "map (map unat) (get_round_constants_t2[29 := get_round_constants_t2 ! 29 @ [0]])"
  let ?q = "contract_params 2 [1, 2] get_round_constants_t2"
  obtain p where p: "new_params 2 5 8 56 [1, 2] [[2, 1], [1, 3]] ?rc = Some p"
    by (simp add: new_params_def)
  then have "POSEIDON2_BN256_PARAMS_2 decode = Some p"
    by (simp add: POSEIDON2_BN256_PARAMS_2_def matrices [OF assms] RC2_value [OF assms])
  have ne: "get_round_constants_t2 ! r \<noteq> []" if "r < 64" for r
    using row_length_t2 [OF that] by (auto split: if_splits)
  have fields: "width p = 2" "rounds p = 64" "rounds_f_div_2 p = 4" "rounds_p p = 56"
    using p by (auto simp: new_params_def)
  have "same_rounds p ?q"
    using p ne
    by (auto simp: same_rounds_def contract_params_fields new_params_def is_partial_def
        nth_list_update nth_append split: if_split_asm)
  then have "permutation p xs = permutation ?q xs" for xs
    by (rule permutation_same) (simp_all add: fields)
  with \<open>POSEIDON2_BN256_PARAMS_2 decode = Some p\<close> show ?thesis by blast
qed

lemma params_3_same:
  assumes "hex_decodes decode"
  shows "\<exists>p. POSEIDON2_BN256_PARAMS_3 decode = Some p
    \<and> permutation p = permutation (contract_params 3 [1, 1, 2] get_round_constants_t3)"
proof -
  let ?q = "contract_params 3 [1, 1, 2] get_round_constants_t3"
  obtain p where p: "new_params 3 5 8 56 [1, 1, 2] [[2, 1, 1], [1, 2, 1], [1, 1, 3]]
      (map (map unat) get_round_constants_t3) = Some p"
    by (simp add: new_params_def)
  then have "POSEIDON2_BN256_PARAMS_3 decode = Some p"
    by (simp add: POSEIDON2_BN256_PARAMS_3_def matrices [OF assms] RC3_value [OF assms])
  have ne: "get_round_constants_t3 ! r \<noteq> []" if "r < 64" for r
    using row_length_t3 [OF that] by auto
  have fields: "width p = 3" "rounds p = 64" "rounds_f_div_2 p = 4" "rounds_p p = 56"
    using p by (auto simp: new_params_def)
  have "same_rounds p ?q"
    using p ne by (auto simp: same_rounds_def contract_params_fields new_params_def is_partial_def)
  then have "permutation p xs = permutation ?q xs" for xs
    by (rule permutation_same) (simp_all add: fields)
  with \<open>POSEIDON2_BN256_PARAMS_3 decode = Some p\<close> show ?thesis by blast
qed

section \<open>A concrete host\<close>

text \<open>The off-chain permutation itself, called the way the host is.\<close>

definition reference_host :: poseidon2_host where
  "reference_host ins fld t d rf rp diag rc =
     (case new_params t d rf rp (map unat diag) [] (map (map unat) rc) of
        None \<Rightarrow> []
      | Some p \<Rightarrow> (case permutation p (map unat ins) of None \<Rightarrow> [] | Some ys \<Rightarrow> map word_of_nat ys))"

lemma reduced_words: "reduced t ys \<Longrightarrow> map (\<lambda>y. unat (word_of_nat y :: u256)) ys = ys"
  using prime_less
  by (intro map_idI) (auto simp: reduced_def unat_of_nat)

lemma reference_host_call:
  assumes "well_shaped t (contract_params t (map unat diag) rc)" and "t = 2 \<or> t = 3 \<or> t = 4" and "field_elements t ins"
  shows "permutation (contract_params t (map unat diag) rc) (map unat ins)
    = Some (map unat (reference_host ins fld t 5 8 56 diag rc))"
proof -
  have "length (map unat ins) = t" using assms(3) by (simp add: field_elements_def)
  from permutation_total [OF assms(1,2) this] obtain ys
    where ys: "permutation (contract_params t (map unat diag) rc) (map unat ins) = Some ys" "reduced t ys"
    by blast
  moreover have "new_params t 5 8 56 (map unat diag) [] (map (map unat) rc)
      = Some (contract_params t (map unat diag) rc)"
    by (simp add: contract_params_def new_params_def)
  ultimately have "reference_host ins fld t 5 8 56 diag rc = map word_of_nat ys"
    by (simp add: reference_host_def)
  with ys(1) reduced_words [OF ys(2)] show ?thesis by (simp add: comp_def)
qed

lemma reference_host_computes: "host_computes reference_host"
  unfolding host_computes_def
proof (intro conjI allI impI)
  fix ins assume "field_elements 2 ins"
  from reference_host_call [of 2 "[1, 2]" get_round_constants_t2, OF _ _ this] contract_params_shaped(1)
  show "permutation (contract_params 2 [1, 2] get_round_constants_t2) (map unat ins)
      = Some (map unat (reference_host ins ''BN254'' 2 5 8 56 [1, 2] get_round_constants_t2))" by simp
next
  fix ins assume "field_elements 3 ins"
  from reference_host_call [of 3 "[1, 1, 2]" get_round_constants_t3, OF _ _ this] contract_params_shaped(2)
  show "permutation (contract_params 3 [1, 1, 2] get_round_constants_t3) (map unat ins)
      = Some (map unat (reference_host ins ''BN254'' 3 5 8 56 [1, 1, 2] get_round_constants_t3))" by simp
qed

section \<open>Properties\<close>

text \<open>
  The byte tables of round constants in the contracts are the hexadecimal tables of the
  off-chain hasher, constant by constant, 192 of 192 for width three and 127 of 128 for width
  two: there row 29 holds one constant where all others hold two, and the off-chain table has a
  zero in that place.
\<close>

theorem round_constants_agree:
  assumes "hex_decodes decode"
  shows "RC3 decode = Some (map (map unat) get_round_constants_t3)
    \<and> RC2 decode = Some (map (map unat) (get_round_constants_t2[29 := get_round_constants_t2 ! 29 @ [0]]))
    \<and> map length get_round_constants_t2 = replicate 29 2 @ [1] @ replicate 34 2
    \<and> map length get_round_constants_t3 = replicate 64 3"
  using RC2_value [OF assms] RC3_value [OF assms] shape_rc_t2 shape_rc_t3
  by (simp only: get_round_constants_t2_def get_round_constants_t3_def map_map comp_def length_map simp_thms)

theorem round_constants_agree_witness:
  "RC3 hex_read = Some (map (map unat) get_round_constants_t3)
   \<and> length (get_round_constants_t2 ! 29) = 1"
  using round_constants_agree [OF hex_read_decodes] row_length_t2 [of 29] by simp

text \<open>With parameters read from the statics, both hash functions return what the contract computes.\<close>

lemma contract_hash_values:
  assumes "hex_decodes decode" and "host_computes host" and "canonical a" "canonical b" "canonical (unwrap_or s 0)"
    and p2: "POSEIDON2_BN256_PARAMS_2 decode = Some p2" and p3: "POSEIDON2_BN256_PARAMS_3 decode = Some p3"
  shows "poseidon2_compression p2 (unat a) (unat b) = Some (unat (compress_value host a b))
    \<and> poseidon2_hash2_internal p3 (unat a) (unat b) (map_option unat s)
      = Some (unat (hash2_value host a b (unwrap_or s 0)))"
proof -
  have good: "good_host host" by (rule host_computes_good [OF assms(2)])
  let ?o2 = "host [a, b] ''BN254'' 2 5 8 56 [1, 2] get_round_constants_t2"
  let ?o3 = "host [a, b, unwrap_or s 0] ''BN254'' 3 5 8 56 [1, 1, 2] get_round_constants_t3"
  have perm2: "permutation p2 = permutation (contract_params 2 [1, 2] get_round_constants_t2)"
    using params_2_same [OF assms(1)] p2 by auto
  have perm3: "permutation p3 = permutation (contract_params 3 [1, 1, 2] get_round_constants_t3)"
    using params_3_same [OF assms(1)] p3 by auto
  have "field_elements 2 [a, b]" "field_elements 3 [a, b, unwrap_or s 0]"
    using assms by (simp_all add: field_elements_def)
  with assms(2) have out: "permutation p2 [unat a, unat b] = Some (map unat ?o2)"
    "permutation p3 [unat a, unat b, unat (unwrap_or s 0)] = Some (map unat ?o3)"
    unfolding perm2 perm3 by (auto simp: host_computes_def)
  obtain y ys where y: "?o2 = y # ys" using good_host_2 [OF good assms(3,4)] by blast
  obtain z zs where z: "?o3 = z # zs" using good_host_3 [OF good assms(3-5)] by blast
  have "unat (compress_value host a b) = fadd (unat y) (unat a)"
    by (simp add: compress_value_def y fadd_def)
  moreover have "unwrap_or (map_option unat s) 0 = unat (unwrap_or s 0)" by (cases s) simp_all
  ultimately show ?thesis
    using out y z by (simp add: poseidon2_compression_def poseidon2_hash2_internal_def hash2_value_def)
qed

text \<open>
  C38: Contracts and prover hash alike. If the host function computes the Poseidon2 permutation
  with the parameters it is given, then on field elements the contracts' \<open>poseidon2_compress\<close>
  and \<open>poseidon2_hash2\<close> never trap and return what \<open>poseidon2_compression\<close> and
  \<open>poseidon2_hash2_internal\<close> of the off-chain crates return, whose panics never occur.
\<close>

theorem contract_hash_is_prover_hash:
  assumes "hex_decodes decode" and "host_computes host" and "canonical a" "canonical b" "canonical (unwrap_or s 0)"
  shows "\<exists>p2 p3 c d. POSEIDON2_BN256_PARAMS_2 decode = Some p2 \<and> POSEIDON2_BN256_PARAMS_3 decode = Some p3
    \<and> poseidon2_compress host a b = Inr c \<and> poseidon2_compression p2 (unat a) (unat b) = Some (unat c)
    \<and> poseidon2_hash2 host a b s = Inr d
    \<and> poseidon2_hash2_internal p3 (unat a) (unat b) (map_option unat s) = Some (unat d)"
proof -
  have good: "good_host host" by (rule host_computes_good [OF assms(2)])
  obtain p2 p3 where "POSEIDON2_BN256_PARAMS_2 decode = Some p2" "POSEIDON2_BN256_PARAMS_3 decode = Some p3"
    using params_2_same [OF assms(1)] params_3_same [OF assms(1)] by blast
  then show ?thesis
    using contract_hash_values [OF assms] poseidon2_compress_ok [OF good assms(3,4)]
      poseidon2_hash2_ok [OF good assms(3-5), THEN conjunct1]
    by blast
qed

theorem contract_hash_is_prover_hash_witness:
  "\<exists>p c. POSEIDON2_BN256_PARAMS_2 hex_read = Some p
    \<and> poseidon2_compress reference_host 1 2 = Inr c \<and> poseidon2_compression p 1 2 = Some (unat c)"
  using contract_hash_is_prover_hash [OF hex_read_decodes reference_host_computes, of 1 2 "Some 3"] by auto

end
