(* ===== verification/PoolMerkle.thy ===== *)
theory PoolMerkle
  imports SorobanHash
begin

text \<open>
  The pool's commitment tree with its root history
  (\<open>contracts/pool/src/merkle_with_history.rs\<close>).

  The persistent entries under \<open>MerkleDataKey\<close> are the fields of \<open>merkle_store\<close>; an entry
  that was never written is \<open>None\<close>. \<open>merkle_inv\<close> relates a store to the list of all leaves
  inserted so far: the filled subtrees are the frontier of those leaves, and the ring buffer
  holds the roots of the last ninety trees. Each operation is shown to act on that list.
\<close>

section \<open>State and operations\<close>

definition ROOT_HISTORY_SIZE :: nat where
  "ROOT_HISTORY_SIZE = 90"

datatype merkle_error =
    MerkleAlreadyInitialized
  | MerkleWrongLevels
  | MerkleTreeFull
  | MerkleNextIndexNotEven
  | MerkleNotInitialized
  | MerkleOverflow

record merkle_store =
  ms_levels :: "nat option"
  current_root_index :: "nat option"
  next_index :: "nat option"
  filled_subtree :: "nat \<rightharpoonup> u256"
  zero_hashes :: "nat \<rightharpoonup> u256"
  root_at :: "nat \<rightharpoonup> u256"

definition empty_merkle_store :: merkle_store where
  "empty_merkle_store = \<lparr>ms_levels = None, current_root_index = None, next_index = None,
     filled_subtree = Map.empty, zero_hashes = Map.empty, root_at = Map.empty\<rparr>"

definition init_level :: "nat \<Rightarrow> merkle_store \<Rightarrow> (merkle_error, merkle_store) result" where
  "init_level i s =
     and_then (ok_or (nth_opt get_zeroes i) MerkleNotInitialized)
       (\<lambda>z. Inr (s\<lparr>filled_subtree := (filled_subtree s)(i \<mapsto> z),
                    zero_hashes := (zero_hashes s)(i \<mapsto> z)\<rparr>))"

definition init :: "nat \<Rightarrow> merkle_store \<Rightarrow> (merkle_error, merkle_store) result" where
  "init levels s =
     (if levels = 0 \<or> 32 < levels then Inl (Err MerkleWrongLevels)
      else if current_root_index s \<noteq> None then Inl (Err MerkleAlreadyInitialized)
      else and_then (fold_result init_level [0..<Suc levels] (s\<lparr>ms_levels := Some levels\<rparr>))
        (\<lambda>s1. and_then (ok_or (nth_opt get_zeroes levels) MerkleNotInitialized)
        (\<lambda>root_0. Inr (s1\<lparr>root_at := (root_at s1)(0 \<mapsto> root_0),
                           current_root_index := Some 0, next_index := Some 0\<rparr>))))"

text \<open>The body of the loop \<open>for lvl in 1..levels\<close>.\<close>

definition insert_level ::
  "poseidon2_host \<Rightarrow> nat \<Rightarrow> nat \<times> u256 \<times> merkle_store
     \<Rightarrow> (merkle_error, nat \<times> u256 \<times> merkle_store) result" where
  "insert_level host lvl ics =
     (case ics of (current_index, current_hash, s) \<Rightarrow>
      if odd current_index then
        and_then (ok_or (filled_subtree s lvl) MerkleNotInitialized)
          (\<lambda>left. and_then (poseidon2_compress host left current_hash)
          (\<lambda>h. Inr (current_index div 2, h, s)))
      else
        (let s' = s\<lparr>filled_subtree := (filled_subtree s)(lvl \<mapsto> current_hash)\<rparr> in
         and_then (ok_or (zero_hashes s' lvl) MerkleNotInitialized)
           (\<lambda>zero_val. and_then (poseidon2_compress host current_hash zero_val)
           (\<lambda>h. Inr (current_index div 2, h, s')))))"

definition to_u32 :: "nat \<Rightarrow> nat option" where
  "to_u32 n = (if fits 32 n then Some n else None)"

definition insert_two_leaves ::
  "poseidon2_host \<Rightarrow> u256 \<Rightarrow> u256 \<Rightarrow> merkle_store
     \<Rightarrow> (merkle_error, (nat \<times> nat) \<times> merkle_store) result" where
  "insert_two_leaves host leaf_1 leaf_2 s =
     and_then (ok_or (ms_levels s) MerkleNotInitialized) (\<lambda>levels.
     and_then (ok_or (next_index s) MerkleNotInitialized) (\<lambda>next.
     and_then (ok_or (current_root_index s) MerkleNotInitialized) (\<lambda>root_index.
     and_then (ok_or (checked_shl_one 64 levels) MerkleWrongLevels) (\<lambda>max_leaves.
     and_then (ensure (even next) MerkleNextIndexNotEven) (\<lambda>_.
     and_then (ok_or (checked_add 64 next 2) MerkleOverflow) (\<lambda>next2.
     and_then (ensure (next2 \<le> max_leaves) MerkleTreeFull) (\<lambda>_.
     and_then (poseidon2_compress host leaf_1 leaf_2) (\<lambda>h0.
     and_then (fold_result (insert_level host) [1..<levels] (next div 2, h0, s)) (\<lambda>(_, current_hash, s1).
     and_then (ok_or (checked_add 32 root_index 1) MerkleOverflow) (\<lambda>ri.
     let root_index' = ri mod ROOT_HISTORY_SIZE;
         s2 = s1\<lparr>root_at := (root_at s1)(root_index' \<mapsto> current_hash),
                  current_root_index := Some root_index'\<rparr> in
     and_then (ok_or (checked_add 64 next 2) MerkleOverflow) (\<lambda>n2.
     let s3 = s2\<lparr>next_index := Some n2\<rparr> in
     and_then (ok_or (to_u32 next) MerkleTreeFull) (\<lambda>i0.
     and_then (ok_or (checked_add 64 next 1) MerkleOverflow) (\<lambda>n1.
     and_then (ok_or (to_u32 n1) MerkleTreeFull) (\<lambda>i1.
       Inr ((i0, i1), s3)))))))))))))))"

text \<open>
  The \<open>loop\<close> of \<open>is_known_root\<close> walks the ring from the current index until it comes back to
  it. It returns only if it does come back, so the walk is a partial function: \<open>None\<close> is a
  run that never ends.
\<close>

partial_function (option) scan_roots ::
  "merkle_store \<Rightarrow> u256 \<Rightarrow> nat \<Rightarrow> nat \<Rightarrow> (merkle_error, bool) result option" where
  "scan_roots s root current i =
     (if root_at s i = Some root then Some (Inr True)
      else (case checked_add 32 i 1 of
              None \<Rightarrow> Some (Inl (Err MerkleOverflow))
            | Some i1 \<Rightarrow>
                (if i1 mod ROOT_HISTORY_SIZE = current then Some (Inr False)
                 else scan_roots s root current (i1 mod ROOT_HISTORY_SIZE))))"

definition is_known_root :: "u256 \<Rightarrow> merkle_store \<Rightarrow> (merkle_error, bool) result option" where
  "is_known_root root s =
     (if root = 0 then Some (Inr False)
      else (case current_root_index s of
              None \<Rightarrow> Some (Inl (Err MerkleNotInitialized))
            | Some current \<Rightarrow> scan_roots s root current current))"

definition get_last_root :: "merkle_store \<Rightarrow> (merkle_error, u256) result" where
  "get_last_root s =
     and_then (ok_or (current_root_index s) MerkleNotInitialized)
       (\<lambda>i. ok_or (root_at s i) MerkleNotInitialized)"

definition hash_pair :: "poseidon2_host \<Rightarrow> u256 \<Rightarrow> u256 \<Rightarrow> (merkle_error, u256) result" where
  "hash_pair host left right = poseidon2_compress host left right"

section \<open>The storage as a frontier store\<close>

definition put_filled :: "nat \<Rightarrow> u256 \<Rightarrow> merkle_store \<Rightarrow> merkle_store" where
  "put_filled l c s = s\<lparr>filled_subtree := (filled_subtree s)(l \<mapsto> c)\<rparr>"

interpretation pool_tree: frontier_store "poseidon2_compress host" filled_subtree zero_hashes
    put_filled "insert_level host" for host
  by unfold_locales (simp_all add: put_filled_def insert_level_def)

lemma insert_level_frame:
  assumes "fold_result (insert_level host) ls (i, c, s) = Inr (i', c', s')"
  shows "ms_levels s' = ms_levels s \<and> current_root_index s' = current_root_index s
    \<and> next_index s' = next_index s \<and> root_at s' = root_at s"
proof -
  let ?P = "\<lambda>ics. ms_levels (snd (snd ics)) = ms_levels s
    \<and> current_root_index (snd (snd ics)) = current_root_index s
    \<and> next_index (snd (snd ics)) = next_index s \<and> root_at (snd (snd ics)) = root_at s"
  have "?P (i', c', s')"
    by (rule fold_result_invariant [OF assms, where P = ?P])
      (auto simp: insert_level_def result_simps Let_def split: if_splits prod.splits)
  then show ?thesis by simp
qed

section \<open>What a store represents\<close>

text \<open>
  \<open>pool_root h d leaves k\<close> is the root after the first \<open>k\<close> insertions. The invariant is stated
  over any pure hash \<open>h\<close>; the theorems use the host's.
\<close>

definition pool_root :: "(u256 \<Rightarrow> u256 \<Rightarrow> u256) \<Rightarrow> nat \<Rightarrow> u256 list \<Rightarrow> nat \<Rightarrow> u256" where
  "pool_root h d leaves k = tree_root h (get_zeroes ! 0) d (take (2 * k) leaves)"

definition ring_holds :: "(nat \<Rightarrow> u256) \<Rightarrow> nat \<Rightarrow> (nat \<rightharpoonup> u256) \<Rightarrow> bool" where
  "ring_holds r n ring \<longleftrightarrow>
     (\<forall>k\<le>n. n < k + ROOT_HISTORY_SIZE \<longrightarrow> ring (k mod ROOT_HISTORY_SIZE) = Some (r k))
     \<and> (\<forall>j<ROOT_HISTORY_SIZE. n < j \<longrightarrow> ring j = None)"

definition merkle_inv :: "(u256 \<Rightarrow> u256 \<Rightarrow> u256) \<Rightarrow> nat \<Rightarrow> u256 list \<Rightarrow> merkle_store \<Rightarrow> bool" where
  "merkle_inv h d leaves s \<longleftrightarrow>
     ms_levels s = Some d \<and> 1 \<le> d \<and> d \<le> 32
     \<and> next_index s = Some (length leaves) \<and> even (length leaves) \<and> length leaves \<le> 2 ^ d
     \<and> list_all canonical leaves
     \<and> current_root_index s = Some (length leaves div 2 mod ROOT_HISTORY_SIZE)
     \<and> ring_holds (pool_root h d leaves) (length leaves div 2) (root_at s)
     \<and> zeros_ok h (get_zeroes ! 1) 1 (d - 1) (zero_hashes s)
     \<and> frontier h (get_zeroes ! 1) 1 (d - 1) (filled_subtree s) (pairs h leaves)"

lemma ring_holds_step:
  assumes "ring_holds r n ring" and "\<And>k. k \<le> n \<Longrightarrow> r' k = r k"
  shows "ring_holds r' (Suc n) (ring(Suc n mod ROOT_HISTORY_SIZE \<mapsto> r' (Suc n)))"
  unfolding ring_holds_def
proof (intro conjI allI impI)
  fix k
  assume k: "k \<le> Suc n" "Suc n < k + ROOT_HISTORY_SIZE"
  show "(ring(Suc n mod ROOT_HISTORY_SIZE \<mapsto> r' (Suc n))) (k mod ROOT_HISTORY_SIZE) = Some (r' k)"
  proof (cases "k = Suc n")
    case False
    with k have "k \<le> n" by simp
    have "k mod ROOT_HISTORY_SIZE \<noteq> Suc n mod ROOT_HISTORY_SIZE"
    proof
      assume "k mod ROOT_HISTORY_SIZE = Suc n mod ROOT_HISTORY_SIZE"
      then have "ROOT_HISTORY_SIZE dvd Suc n - k"
        using \<open>k \<le> n\<close> by (metis le_SucI mod_eq_dvd_iff_nat)
      then show False using k \<open>k \<le> n\<close> by (auto dest: dvd_imp_le)
    qed
    with assms k \<open>k \<le> n\<close> show ?thesis by (simp add: ring_holds_def)
  qed simp
next
  fix j
  assume "j < ROOT_HISTORY_SIZE" and "Suc n < j"
  with assms(1) show "(ring(Suc n mod ROOT_HISTORY_SIZE \<mapsto> r' (Suc n))) j = None"
    by (simp add: ring_holds_def)
qed

lemma ring_holds_root:
  assumes "ring_holds r n ring"
  shows "(\<exists>j<ROOT_HISTORY_SIZE. ring j = Some v) \<longleftrightarrow> (\<exists>k\<le>n. n < k + ROOT_HISTORY_SIZE \<and> r k = v)"
    (is "?ring \<longleftrightarrow> ?recent")
proof
  assume ?ring
  then obtain j where j: "j < ROOT_HISTORY_SIZE" "ring j = Some v" by blast
  with assms have "j \<le> n" by (auto simp: ring_holds_def not_le[symmetric])
  define k where "k = n - (n - j) mod ROOT_HISTORY_SIZE"
  have lt: "(n - j) mod ROOT_HISTORY_SIZE < ROOT_HISTORY_SIZE" by (simp add: ROOT_HISTORY_SIZE_def)
  have le: "(n - j) mod ROOT_HISTORY_SIZE \<le> n - j" by simp
  have "k \<le> n" "n < k + ROOT_HISTORY_SIZE" using lt le \<open>j \<le> n\<close> unfolding k_def by linarith+
  moreover have "k mod ROOT_HISTORY_SIZE = j"
  proof -
    have "k = j + ROOT_HISTORY_SIZE * ((n - j) div ROOT_HISTORY_SIZE)"
      using \<open>j \<le> n\<close> le mult_div_mod_eq [of ROOT_HISTORY_SIZE "n - j"] unfolding k_def by linarith
    with j show ?thesis by simp
  qed
  ultimately show ?recent using assms j by (auto simp: ring_holds_def intro!: exI [of _ k])
next
  assume ?recent
  then obtain k where "k \<le> n" "n < k + ROOT_HISTORY_SIZE" "r k = v" by blast
  with assms have "ring (k mod ROOT_HISTORY_SIZE) = Some v" by (simp add: ring_holds_def)
  moreover have "k mod ROOT_HISTORY_SIZE < ROOT_HISTORY_SIZE" by (simp add: ROOT_HISTORY_SIZE_def)
  ultimately show ?ring by blast
qed

section \<open>The ring walk\<close>

lemma scan_roots_steps:
  assumes "current < ROOT_HISTORY_SIZE"
  shows "i < ROOT_HISTORY_SIZE \<Longrightarrow> (i + Suc n) mod ROOT_HISTORY_SIZE = current \<Longrightarrow>
    (\<And>m. 0 < m \<Longrightarrow> m \<le> n \<Longrightarrow> (i + m) mod ROOT_HISTORY_SIZE \<noteq> current) \<Longrightarrow>
    scan_roots s root current i
      = Some (Inr (\<exists>m\<le>n. root_at s ((i + m) mod ROOT_HISTORY_SIZE) = Some root))"
proof (induction n arbitrary: i)
  case 0
  then have "checked_add 32 i 1 = Some (i + 1)"
    by (simp add: checked_add_Some ROOT_HISTORY_SIZE_def)
  with 0 show ?case by (subst scan_roots.simps) simp
next
  case (Suc n)
  let ?i = "(i + 1) mod ROOT_HISTORY_SIZE"
  have add: "checked_add 32 i 1 = Some (i + 1)"
    using Suc.prems(1) by (simp add: checked_add_Some ROOT_HISTORY_SIZE_def)
  have ne: "?i \<noteq> current" using Suc.prems(3) [of 1] by simp
  have shift: "(?i + m) mod ROOT_HISTORY_SIZE = (i + Suc m) mod ROOT_HISTORY_SIZE" for m
    by (simp add: mod_simps)
  have "scan_roots s root current ?i
      = Some (Inr (\<exists>m\<le>n. root_at s ((?i + m) mod ROOT_HISTORY_SIZE) = Some root))"
  proof (rule Suc.IH)
    show "?i < ROOT_HISTORY_SIZE" by (simp add: ROOT_HISTORY_SIZE_def)
    show "(?i + Suc n) mod ROOT_HISTORY_SIZE = current" using Suc.prems(2) by (simp only: shift)
    show "(?i + m) mod ROOT_HISTORY_SIZE \<noteq> current" if "0 < m" "m \<le> n" for m
      unfolding shift by (rule Suc.prems(3)) (use that in simp_all)
  qed
  then have rest: "scan_roots s root current ?i
      = Some (Inr (\<exists>m\<le>n. root_at s ((i + Suc m) mod ROOT_HISTORY_SIZE) = Some root))"
    by (simp only: shift)
  have split: "(\<exists>m\<le>Suc n. P m) \<longleftrightarrow> P 0 \<or> (\<exists>m\<le>n. P (Suc m))" for P
    by (metis Suc_le_mono bot_nat_0.extremum not0_implies_Suc)
  show ?case
    using rest add ne Suc.prems(1) by (subst scan_roots.simps) (auto simp: split)
qed

lemma scan_roots_ring:
  assumes "current < ROOT_HISTORY_SIZE"
  shows "scan_roots s root current current = Some (Inr (\<exists>j<ROOT_HISTORY_SIZE. root_at s j = Some root))"
proof -
  have bound: "(current + m) mod ROOT_HISTORY_SIZE \<noteq> current" if "0 < m" "m \<le> 89" for m
  proof (cases "current + m < ROOT_HISTORY_SIZE")
    case False
    with assms that have "(current + m) mod ROOT_HISTORY_SIZE = current + m - ROOT_HISTORY_SIZE"
      by (simp add: ROOT_HISTORY_SIZE_def le_mod_geq)
    moreover have "current + m - ROOT_HISTORY_SIZE < current"
      using False that assms unfolding ROOT_HISTORY_SIZE_def by linarith
    ultimately show ?thesis by linarith
  qed (use that in simp)
  have "scan_roots s root current current
      = Some (Inr (\<exists>m\<le>89. root_at s ((current + m) mod ROOT_HISTORY_SIZE) = Some root))"
    by (rule scan_roots_steps [OF assms assms _ bound])
      (use assms in \<open>simp add: ROOT_HISTORY_SIZE_def\<close>)
  moreover have "(\<exists>m\<le>89. P ((current + m) mod ROOT_HISTORY_SIZE)) \<longleftrightarrow> (\<exists>j<ROOT_HISTORY_SIZE. P j)" for P
  proof
    assume "\<exists>m\<le>89. P ((current + m) mod ROOT_HISTORY_SIZE)"
    moreover have "(current + m) mod ROOT_HISTORY_SIZE < ROOT_HISTORY_SIZE" for m
      by (simp add: ROOT_HISTORY_SIZE_def)
    ultimately show "\<exists>j<ROOT_HISTORY_SIZE. P j" by blast
  next
    assume "\<exists>j<ROOT_HISTORY_SIZE. P j"
    then obtain j where j: "j < ROOT_HISTORY_SIZE" "P j" by blast
    let ?m = "(j + ROOT_HISTORY_SIZE - current) mod ROOT_HISTORY_SIZE"
    have "(current + ?m) mod ROOT_HISTORY_SIZE = j"
      using assms j(1) by (simp add: mod_simps)
    moreover have "?m \<le> 89"
      using mod_less_divisor [of ROOT_HISTORY_SIZE "j + ROOT_HISTORY_SIZE - current"]
      by (simp add: ROOT_HISTORY_SIZE_def)
    ultimately show "\<exists>m\<le>89. P ((current + m) mod ROOT_HISTORY_SIZE)" using j(2) by metis
  qed
  ultimately show ?thesis by simp
qed

section \<open>Refinement\<close>

lemma init_levels_run:
  "k \<le> 33 \<Longrightarrow> \<exists>s1. fold_result init_level [0..<k] s = Inr s1
    \<and> ms_levels s1 = ms_levels s \<and> root_at s1 = root_at s
    \<and> (\<forall>i<k. zero_hashes s1 i = Some (get_zeroes ! i) \<and> filled_subtree s1 i = Some (get_zeroes ! i))"
proof (induction k)
  case (Suc k)
  then obtain s1 where "fold_result init_level [0..<k] s = Inr s1"
    and "ms_levels s1 = ms_levels s \<and> root_at s1 = root_at s"
    and "\<forall>i<k. zero_hashes s1 i = Some (get_zeroes ! i) \<and> filled_subtree s1 i = Some (get_zeroes ! i)"
    by auto
  moreover have "init_level k s1 = Inr (s1\<lparr>filled_subtree := (filled_subtree s1)(k \<mapsto> get_zeroes ! k),
      zero_hashes := (zero_hashes s1)(k \<mapsto> get_zeroes ! k)\<rparr>)"
    using Suc.prems by (simp add: init_level_def)
  ultimately show ?case
    by (auto simp: fold_result_append less_Suc_eq)
qed simp

lemma pool_zero_one:
  "zeroes_consistent h \<Longrightarrow> h (get_zeroes ! 0) (get_zeroes ! 0) = get_zeroes ! 1"
  using zeroes_chain [of h 1] by simp

lemma pool_zeros_ok:
  assumes h: "zeroes_consistent h" and "1 \<le> d" "d \<le> 32"
    and z: "\<And>i. i \<le> d \<Longrightarrow> zero_at i = Some (get_zeroes ! i)"
  shows "zeros_ok h (get_zeroes ! 1) 1 (d - 1) zero_at"
  unfolding zeros_ok_def
proof (intro allI impI)
  fix k
  assume "k < d - 1"
  have "zero_chain h (get_zeroes ! 1) k = zero_chain h (get_zeroes ! 0) (1 + k)"
    using zero_chain_add [of h "get_zeroes ! 0" 1 k] by (simp add: pool_zero_one [OF h])
  also have "\<dots> = get_zeroes ! (1 + k)"
    using \<open>k < d - 1\<close> assms by (intro zeroes_chain) simp_all
  finally show "zero_at (1 + k) = Some (zero_chain h (get_zeroes ! 1) k)"
    using \<open>k < d - 1\<close> by (simp add: z)
qed

lemma init_establishes:
  assumes h: "zeroes_consistent h" and "1 \<le> d" "d \<le> 32"
  shows "\<exists>s. init d empty_merkle_store = Inr s \<and> merkle_inv h d [] s"
proof -
  let ?s0 = "empty_merkle_store\<lparr>ms_levels := Some d\<rparr>"
  obtain s1 where run: "fold_result init_level [0..<Suc d] ?s0 = Inr s1"
    and fr: "ms_levels s1 = Some d" "root_at s1 = Map.empty"
    and z: "\<forall>i<Suc d. zero_hashes s1 i = Some (get_zeroes ! i) \<and> filled_subtree s1 i = Some (get_zeroes ! i)"
    using init_levels_run [of "Suc d" ?s0] assms by (auto simp: empty_merkle_store_def)
  have zs: "zeros_ok h (get_zeroes ! 1) 1 (d - 1) (zero_hashes s1)"
    by (rule pool_zeros_ok [OF assms]) (use z in auto)
  have "pool_root h d [] 0 = get_zeroes ! d"
    using assms by (simp add: pool_root_def node_empty zeroes_chain)
  with run fr zs assms show ?thesis
    by (simp add: init_def empty_merkle_store_def merkle_inv_def ring_holds_def frontier_Nil)
qed

lemma init_levels_bound: "init d s = Inr s' \<Longrightarrow> 1 \<le> d \<and> d \<le> 32"
  unfolding init_def by (simp split: if_splits)

lemma length_pairs_bound: "even n \<Longrightarrow> n + 2 \<le> 2 ^ d \<Longrightarrow> 1 \<le> d \<Longrightarrow> n div 2 < 2 ^ (d - 1)"
  for n :: nat
  by (cases d) auto

lemma pool_root_append:
  "k \<le> length leaves div 2 \<Longrightarrow> pool_root h d (leaves @ [x, y]) k = pool_root h d leaves k"
  by (simp add: pool_root_def)

lemma pool_root_new:
  assumes h: "zeroes_consistent h" and "even (length leaves)" and "1 \<le> d"
  shows "pool_root h d (leaves @ [x, y]) (Suc (length leaves div 2))
    = tree_root h (get_zeroes ! 1) (d - 1) (pairs h leaves @ [h x y])"
proof -
  have "take (2 * Suc (length leaves div 2)) (leaves @ [x, y]) = leaves @ [x, y]"
    using assms(2) by simp
  moreover have "tree_root h (get_zeroes ! 0) (Suc (d - 1)) (leaves @ [x, y])
    = tree_root h (h (get_zeroes ! 0) (get_zeroes ! 0)) (d - 1) (pairs h (leaves @ [x, y]))"
    using assms(2) by (intro node_pairs) simp
  ultimately show ?thesis
    using assms by (simp add: pool_root_def pairs_append pool_zero_one)
qed

lemma insert_two_leaves_run:
  assumes host: "good_host host" and h: "zeroes_consistent (compress_value host)"
    and inv: "merkle_inv (compress_value host) d leaves s"
    and room: "length leaves + 2 \<le> 2 ^ d"
    and can: "canonical leaf_1" "canonical leaf_2"
  shows "\<exists>s'. insert_two_leaves host leaf_1 leaf_2 s
      = Inr ((length leaves, length leaves + 1), s')
    \<and> merkle_inv (compress_value host) d (leaves @ [leaf_1, leaf_2]) s'"
proof -
  let ?h = "compress_value host" and ?n = "length leaves" and ?z = "get_zeroes ! 1"
  let ?ps = "pairs ?h leaves" and ?x = "compress_value host leaf_1 leaf_2"
  let ?ri = "Suc (?n div 2) mod ROOT_HISTORY_SIZE"
  from inv have d: "1 \<le> d" "d \<le> 32" and ev: "even ?n"
    and ls: "list_all canonical leaves"
    and fr: "frontier ?h ?z 1 (d - 1) (filled_subtree s) ?ps"
    and zs: "zeros_ok ?h ?z 1 (d - 1) (zero_hashes s)"
    and ring: "ring_holds (pool_root ?h d leaves) (?n div 2) (root_at s)"
    and st: "ms_levels s = Some d" "next_index s = Some ?n"
      "current_root_index s = Some (?n div 2 mod ROOT_HISTORY_SIZE)"
    by (simp_all add: merkle_inv_def)
  have "(2::nat) ^ d \<le> 2 ^ 32" using d by (intro power_increasing) simp_all
  with room have fit: "?n + 1 < 2 ^ 32" by linarith
  have okz: "canonical ?z" by (rule canonical_get_zeroes) simp
  have okp: "canonical y" if "y \<in> set ?ps" for y
    using that by (induction ?h leaves rule: pairs.induct) (auto simp: canonical_compress_value)
  have "length ?ps < 2 ^ (d - 1)"
    using length_pairs_bound [OF ev room d(1)] by simp
  moreover have levels: "[1..<1 + (d - 1)] = [1..<d]" using d by simp
  ultimately obtain s1 where run: "fold_result (insert_level host) [1..<d] (?n div 2, ?x, s)
      = Inr (0, tree_root ?h ?z (d - 1) (?ps @ [?x]), s1)"
    and fr1: "frontier ?h ?z 1 (d - 1) (filled_subtree s1) (?ps @ [?x])"
    and z1: "zero_hashes s1 = zero_hashes s"
    using pool_tree.climb [OF good_hash_compress [OF host] okz
        canonical_compress_value [of host leaf_1 leaf_2] okp fr zs]
    unfolding length_pairs levels by blast
  have same: "ms_levels s1 = ms_levels s \<and> root_at s1 = root_at s"
    using insert_level_frame [OF run] by simp
  have add32: "checked_add 32 (?n div 2 mod ROOT_HISTORY_SIZE) 1
      = Some (Suc (?n div 2 mod ROOT_HISTORY_SIZE))"
  proof -
    have "?n div 2 mod ROOT_HISTORY_SIZE < 90" by (simp add: ROOT_HISTORY_SIZE_def)
    then have "?n div 2 mod ROOT_HISTORY_SIZE + 1 < 2 ^ 32" by simp
    then show ?thesis by (simp only: checked_add_Some Suc_eq_plus1)
  qed
  let ?s' = "s1\<lparr>root_at := (root_at s1)(?ri \<mapsto> tree_root ?h ?z (d - 1) (?ps @ [?x])),
       current_root_index := Some ?ri, next_index := Some (?n + 2)\<rparr>"
  have exec: "insert_two_leaves host leaf_1 leaf_2 s = Inr ((?n, ?n + 1), ?s')"
    unfolding insert_two_leaves_def
    using d ev room fit
    by (simp add: st run [unfolded One_nat_def] add32 [unfolded One_nat_def]
        poseidon2_compress_ok [OF host can] checked_shl_one_def checked_add_def [of 64]
        fits_def to_u32_def mod_Suc_eq Let_def)
  have ring': "ring_holds (pool_root ?h d (leaves @ [leaf_1, leaf_2])) (Suc (?n div 2))
      ((root_at s)(?ri \<mapsto> pool_root ?h d (leaves @ [leaf_1, leaf_2]) (Suc (?n div 2))))"
    by (rule ring_holds_step [OF ring]) (simp add: pool_root_append)
  have "merkle_inv ?h d (leaves @ [leaf_1, leaf_2]) ?s'"
    using d ev ls can room fr1 zs z1 same ring' pool_root_new [OF h ev d(1), of leaf_1 leaf_2]
    by (simp add: merkle_inv_def st pairs_append)
  with exec show ?thesis by blast
qed

lemma insert_two_leaves_full:
  assumes "merkle_inv h d leaves s" and "2 ^ d < length leaves + 2"
  shows "insert_two_leaves host leaf_1 leaf_2 s = Inl (Err MerkleTreeFull)"
proof -
  from assms have d: "1 \<le> d" "d \<le> 32" and st: "ms_levels s = Some d"
      "next_index s = Some (length leaves)" "even (length leaves)" "length leaves \<le> 2 ^ d"
      "\<exists>r. current_root_index s = Some r"
    by (simp_all add: merkle_inv_def)
  have "(2::nat) ^ d \<le> 2 ^ 32" using d by (intro power_increasing) simp_all
  then have "checked_add 64 (length leaves) 2 = Some (length leaves + 2)"
    using st(4) by (simp add: checked_add_Some)
  with st(1-3,5) d assms(2) show ?thesis
    by (auto simp: insert_two_leaves_def checked_shl_one_def)
qed

lemma insert_two_leaves_foreign:
  assumes "merkle_inv h d leaves s" and "length leaves + 2 \<le> 2 ^ d"
    and "\<not> canonical leaf_1 \<or> \<not> canonical leaf_2"
  shows "insert_two_leaves host leaf_1 leaf_2 s = Inl Trap"
proof -
  from assms have d: "1 \<le> d" "d \<le> 32" and st: "ms_levels s = Some d"
      "next_index s = Some (length leaves)" "even (length leaves)"
      "\<exists>r. current_root_index s = Some r"
    by (simp_all add: merkle_inv_def)
  have "(2::nat) ^ d \<le> 2 ^ 32" using d by (intro power_increasing) simp_all
  then have "checked_add 64 (length leaves) 2 = Some (length leaves + 2)"
    using assms(2) by (simp add: checked_add_Some)
  with st d assms(2) show ?thesis
    by (auto simp: insert_two_leaves_def checked_shl_one_def poseidon2_compress_trap [OF assms(3)])
qed

lemma is_known_root_spec:
  assumes "merkle_inv h d leaves s"
  shows "is_known_root root s = Some (Inr (root \<noteq> 0 \<and>
    (\<exists>k \<le> length leaves div 2. length leaves div 2 < k + ROOT_HISTORY_SIZE
      \<and> pool_root h d leaves k = root)))"
proof -
  let ?n = "length leaves div 2"
  from assms have cur: "current_root_index s = Some (?n mod ROOT_HISTORY_SIZE)"
    and ring: "ring_holds (pool_root h d leaves) ?n (root_at s)"
    by (simp_all add: merkle_inv_def)
  have "?n mod ROOT_HISTORY_SIZE < ROOT_HISTORY_SIZE" by (simp add: ROOT_HISTORY_SIZE_def)
  from scan_roots_ring [OF this, of s root] ring_holds_root [OF ring, of root] cur show ?thesis
    by (simp add: is_known_root_def)
qed

lemma get_last_root_spec:
  assumes "merkle_inv h d leaves s"
  shows "get_last_root s = Inr (tree_root h (get_zeroes ! 0) d leaves)"
proof -
  have "2 * (length leaves div 2) = length leaves" using assms by (simp add: merkle_inv_def)
  then have "pool_root h d leaves (length leaves div 2) = tree_root h (get_zeroes ! 0) d leaves"
    by (simp add: pool_root_def)
  with assms show ?thesis
    by (simp add: merkle_inv_def get_last_root_def ring_holds_def ROOT_HISTORY_SIZE_def)
qed

text \<open>Reading the root of an initialised but empty pool: the zero of the top level.\<close>

lemma pool_root_canonical:
  assumes "good_host host" and "list_all canonical leaves"
  shows "canonical (pool_root (compress_value host) d leaves k)"
  unfolding pool_root_def
  by (rule good_hash_node [OF good_hash_compress [OF assms(1)]])
    (use assms(2) in \<open>auto simp: list_all_iff canonical_get_zeroes dest: in_set_takeD\<close>)

section \<open>Whole histories\<close>

text \<open>A pool's life as the contract's caller sees it: one \<open>init\<close>, then pairs of leaves.\<close>

fun insert_all ::
  "poseidon2_host \<Rightarrow> (u256 \<times> u256) list \<Rightarrow> merkle_store
     \<Rightarrow> (merkle_error, (nat \<times> nat) list \<times> merkle_store) result" where
  "insert_all host [] s = Inr ([], s)"
| "insert_all host ((l1, l2) # ps) s =
     and_then (insert_two_leaves host l1 l2 s) (\<lambda>(ix, s1).
     and_then (insert_all host ps s1) (\<lambda>(ixs, s2). Inr (ix # ixs, s2)))"

definition leaves_of :: "('a \<times> 'a) list \<Rightarrow> 'a list" where
  "leaves_of ps = concat (map (\<lambda>(x, y). [x, y]) ps)"

lemma leaves_of_simps [simp]:
  "leaves_of [] = []"
  "leaves_of ((x, y) # ps) = x # y # leaves_of ps"
  "leaves_of (ps @ qs) = leaves_of ps @ leaves_of qs"
  by (simp_all add: leaves_of_def)

lemma length_leaves_of [simp]: "length (leaves_of ps) = 2 * length ps"
  by (induction ps) (auto simp: leaves_of_def)

lemma insert_all_run:
  assumes host: "good_host host" and h: "zeroes_consistent (compress_value host)"
  shows "merkle_inv (compress_value host) d leaves s \<Longrightarrow> length leaves + 2 * length ps \<le> 2 ^ d \<Longrightarrow>
    list_all canonical (leaves_of ps) \<Longrightarrow>
    \<exists>s'. insert_all host ps s
        = Inr (map (\<lambda>i. (length leaves + 2 * i, length leaves + 2 * i + 1)) [0..<length ps], s')
      \<and> merkle_inv (compress_value host) d (leaves @ leaves_of ps) s'"
proof (induction ps arbitrary: leaves s)
  case Nil
  then show ?case by simp
next
  case (Cons p ps)
  obtain x y where p: "p = (x, y)" by (cases p)
  from Cons.prems p insert_two_leaves_run [OF host h Cons.prems(1), of x y]
  obtain s1 where run: "insert_two_leaves host x y s = Inr ((length leaves, length leaves + 1), s1)"
    and inv: "merkle_inv (compress_value host) d (leaves @ [x, y]) s1" by auto
  from Cons.IH [OF inv] Cons.prems p
  obtain s2 where rest: "insert_all host ps s1
      = Inr (map (\<lambda>i. (length leaves + 2 + 2 * i, length leaves + 2 + 2 * i + 1)) [0..<length ps], s2)"
    and inv2: "merkle_inv (compress_value host) d (leaves @ [x, y] @ leaves_of ps) s2" by auto
  have "map (\<lambda>i. (length leaves + 2 * i, length leaves + 2 * i + 1)) [0..<length (p # ps)]
    = (length leaves, length leaves + 1)
      # map (\<lambda>i. (length leaves + 2 + 2 * i, length leaves + 2 + 2 * i + 1)) [0..<length ps]"
    by (simp add: upt_conv_Cons map_Suc_upt [symmetric] del: upt_Suc)
  with p run rest inv2 show ?case by simp
qed

section \<open>Properties\<close>

text \<open>
  C3: Every history of the pool's commitment tree. After \<open>init\<close> with a legal number of levels,
  inserting any pairs of field elements that fit the tree succeeds, hands out the leaf indexes
  in order, leaves as last root the root of the padded tree over all leaves so far, and
  \<open>is_known_root\<close> terminates and accepts exactly the non-zero roots of the last ninety states.
\<close>

theorem pool_tree_history:
  assumes "good_host host" and "zeroes_consistent (compress_value host)"
    and "1 \<le> d" "d \<le> 32" and "2 * length ps \<le> 2 ^ d" and "list_all canonical (leaves_of ps)"
  shows "\<exists>s s'. init d empty_merkle_store = Inr s
    \<and> insert_all host ps s = Inr (map (\<lambda>i. (2 * i, 2 * i + 1)) [0..<length ps], s')
    \<and> get_last_root s' = Inr (tree_root (compress_value host) (get_zeroes ! 0) d (leaves_of ps))
    \<and> (\<forall>root. is_known_root root s' = Some (Inr (root \<noteq> 0 \<and>
          (\<exists>k \<le> length ps. length ps < k + ROOT_HISTORY_SIZE
            \<and> tree_root (compress_value host) (get_zeroes ! 0) d (take (2 * k) (leaves_of ps)) = root))))"
proof -
  obtain s where s: "init d empty_merkle_store = Inr s" "merkle_inv (compress_value host) d [] s"
    using init_establishes assms by blast
  from insert_all_run [OF assms(1,2) s(2)] assms
  obtain s' where "insert_all host ps s = Inr (map (\<lambda>i. (2 * i, 2 * i + 1)) [0..<length ps], s')"
    and inv: "merkle_inv (compress_value host) d (leaves_of ps) s'" by auto
  moreover note get_last_root_spec [OF inv] is_known_root_spec [OF inv, unfolded pool_root_def]
  ultimately show ?thesis using s(1) by (intro exI [of _ s] exI [of _ s']) simp
qed

theorem pool_tree_history_witness:
  "\<exists>s s'. init 3 empty_merkle_store = Inr s
    \<and> insert_all sample_host [(1, 2), (3, 4)] s = Inr ([(0, 1), (2, 3)], s')
    \<and> get_last_root s' = Inr (tree_root (compress_value sample_host) (get_zeroes ! 0) 3 [1, 2, 3, 4])"
  using pool_tree_history [OF good_sample_host zeroes_consistent_sample, of 3 "[(1, 2), (3, 4)]"]
  by (simp add: upt_rec) blast

text \<open>
  \<open>insert_two_leaves\<close> on a store that represents some leaves has exactly three outcomes: with
  no room left it reports \<open>MerkleTreeFull\<close>, with a leaf outside the field it traps in the
  compression, and otherwise it returns the two next indexes and represents the leaves with the
  new pair at the end.
\<close>

theorem insert_two_leaves_outcomes:
  assumes "good_host host" and "zeroes_consistent (compress_value host)"
    and "merkle_inv (compress_value host) d leaves s"
  shows "if 2 ^ d < length leaves + 2
    then insert_two_leaves host leaf_1 leaf_2 s = Inl (Err MerkleTreeFull)
    else if \<not> (canonical leaf_1 \<and> canonical leaf_2)
    then insert_two_leaves host leaf_1 leaf_2 s = Inl Trap
    else \<exists>s'. insert_two_leaves host leaf_1 leaf_2 s = Inr ((length leaves, length leaves + 1), s')
      \<and> merkle_inv (compress_value host) d (leaves @ [leaf_1, leaf_2]) s'"
proof -
  note insert_two_leaves_full [OF assms(3)] insert_two_leaves_foreign [OF assms(3)]
    insert_two_leaves_run [OF assms]
  then show ?thesis by (auto simp: not_less)
qed

theorem insert_two_leaves_outcomes_witness:
  "\<exists>s. init 2 empty_merkle_store = Inr s
    \<and> insert_two_leaves sample_host 5 bn256_modulus s = Inl Trap
    \<and> (\<exists>s'. insert_two_leaves sample_host 5 6 s = Inr ((0, 1), s'))"
proof -
  obtain s where s: "init 2 empty_merkle_store = Inr s" "merkle_inv (compress_value sample_host) 2 [] s"
    using init_establishes [OF zeroes_consistent_sample, of 2] by auto
  note out = insert_two_leaves_outcomes [OF good_sample_host zeroes_consistent_sample s(2)]
  from out [of 5 bn256_modulus] out [of 5 6] s(1) show ?thesis
    by auto
qed

end
