(* ===== verification/Host.thy ===== *)
theory Host
  imports Prelude
begin

text \<open>
  What the contracts share of the Soroban host: the authorisations an invocation carries, and
  the administrator entry that the pool and the two provider contracts guard their settings
  with (\<open>contracts/soroban-utils/src/utils.rs\<close>).

  \<open>auths\<close> says for which addresses the current invocation carries an authorisation;
  \<open>require_auth\<close> traps for any other.
\<close>

type_synonym auths = "address \<Rightarrow> bool"

definition require_auth :: "auths \<Rightarrow> address \<Rightarrow> ('e, unit) result" where
  "require_auth auth a = ensure_host (auth a)"

lemma require_auth_Inr [result_simps]: "require_auth auth a = Inr u \<longleftrightarrow> auth a"
  by (simp add: require_auth_def result_simps)

lemma require_auth_Inl [result_simps]: "require_auth auth a = Inl e \<longleftrightarrow> \<not> auth a \<and> e = Trap"
  by (auto simp: require_auth_def result_simps)

lemma require_auth_simps [simp]:
  "auth a \<Longrightarrow> require_auth auth a = Inr ()"
  "\<not> auth a \<Longrightarrow> require_auth auth a = Inl Trap"
  by (simp_all add: require_auth_def)

text \<open>
  \<open>update_admin\<close> is generic in the storage key; here it is generic in how a contract's state
  reads and writes that entry. The \<open>expect\<close> on a missing administrator is a trap.
\<close>

definition update_admin ::
  "('s \<Rightarrow> address option) \<Rightarrow> (address \<Rightarrow> 's \<Rightarrow> 's) \<Rightarrow> auths \<Rightarrow> address \<Rightarrow> 's \<Rightarrow> ('e, 's) result" where
  "update_admin admin_of put_admin auth new_admin s =
     and_then (unwrap (admin_of s)) (\<lambda>admin.
     and_then (require_auth auth admin) (\<lambda>_.
     Inr (put_admin new_admin s)))"

section \<open>The interface of an administrator entry\<close>

locale admin_entry =
  fixes admin_of :: "'s \<Rightarrow> address option"
    and put_admin :: "address \<Rightarrow> 's \<Rightarrow> 's"
  assumes admin_put: "admin_of (put_admin a s) = Some a"
    and put_put: "put_admin a (put_admin b s) = put_admin a s"
begin

lemma update_ok:
  "update_admin admin_of put_admin auth new_admin s = Inr s' \<longleftrightarrow>
     (\<exists>admin. admin_of s = Some admin \<and> auth admin) \<and> s' = put_admin new_admin s"
  by (auto simp: update_admin_def result_simps)

text \<open>Handing the role on and back again leaves the storage as it was.\<close>

lemma hand_over:
  assumes "update_admin admin_of put_admin auth b s = Inr s1"
  shows "update_admin admin_of put_admin auth' c s1 =
    (if auth' b then Inr (put_admin c s) else Inl Trap)"
proof -
  from assms have "s1 = put_admin b s" by (simp add: update_ok)
  then show ?thesis by (simp add: update_admin_def admin_put put_put)
qed

text \<open>After the role moved, the former administrator alone cannot move it again.\<close>

lemma former_admin_locked_out:
  assumes "update_admin admin_of put_admin auth b s = Inr s1" and "\<not> auth' b"
  shows "update_admin admin_of put_admin auth' c s1 = Inl Trap"
  by (simp add: hand_over [OF assms(1)] assms(2))

end

end
