(* ===== verification/AspMembership.thy ===== *)
theory AspMembership
  imports SorobanHash Host
begin

text \<open>
  The membership contract of an association set provider
  (\<open>contracts/asp-membership/src/lib.rs\<close>): an append-only Merkle tree of members, whose
  administrator can open or close insertion. \<open>asp_inv\<close> relates the storage to the list of
  members; the emitted events are part of the state, because the off-chain side rebuilds the
  tree from them.
\<close>

section \<open>State and operations\<close>

datatype asp_error =
    NotAuthorized
  | TreeFull
  | WrongLevels
  | NotInitialized
  | Overflow

record leaf_added_event =
  lae_leaf :: u256
  lae_index :: nat
  lae_root :: u256

record asp_store =
  asp_admin :: "address option"
  filled_subtrees :: "nat \<rightharpoonup> u256"
  zeroes :: "nat \<rightharpoonup> u256"
  asp_levels :: "nat option"
  asp_next_index :: "nat option"
  asp_root :: "u256 option"
  admin_insert_only :: "bool option"
  asp_events :: "leaf_added_event list"

definition empty_asp_store :: asp_store where
  "empty_asp_store = \<lparr>asp_admin = None, filled_subtrees = Map.empty, zeroes = Map.empty,
     asp_levels = None, asp_next_index = None, asp_root = None, admin_insert_only = None,
     asp_events = []\<rparr>"

definition asp_init_level :: "nat \<Rightarrow> asp_store \<Rightarrow> (asp_error, asp_store) result" where
  "asp_init_level lvl s =
     and_then (ok_or (nth_opt get_zeroes lvl) NotInitialized)
       (\<lambda>zero_val. Inr (s\<lparr>filled_subtrees := (filled_subtrees s)(lvl \<mapsto> zero_val),
                           zeroes := (zeroes s)(lvl \<mapsto> zero_val)\<rparr>))"

definition asp_constructor :: "address \<Rightarrow> nat \<Rightarrow> asp_store \<Rightarrow> (asp_error, asp_store) result" where
  "asp_constructor admin levels s =
     (if levels = 0 \<or> 32 < levels then Inl (Err WrongLevels)
      else and_then
        (fold_result asp_init_level [0..<Suc levels]
          (s\<lparr>asp_admin := Some admin, asp_levels := Some levels, asp_next_index := Some 0,
             admin_insert_only := Some True\<rparr>))
        (\<lambda>s1. and_then (ok_or (nth_opt get_zeroes levels) NotInitialized)
        (\<lambda>root_val. Inr (s1\<lparr>asp_root := Some root_val\<rparr>))))"

definition put_asp_admin :: "address \<Rightarrow> asp_store \<Rightarrow> asp_store" where
  "put_asp_admin a s = s\<lparr>asp_admin := Some a\<rparr>"

definition asp_update_admin :: "auths \<Rightarrow> address \<Rightarrow> asp_store \<Rightarrow> (asp_error, asp_store) result" where
  "asp_update_admin auth new_admin s =
     (if asp_admin s = None then Inl (Err NotInitialized)
      else update_admin asp_admin put_asp_admin auth new_admin s)"

definition set_admin_insert_only :: "auths \<Rightarrow> bool \<Rightarrow> asp_store \<Rightarrow> (asp_error, asp_store) result" where
  "set_admin_insert_only auth admin_only s =
     and_then (ok_or (asp_admin s) NotInitialized) (\<lambda>admin.
     and_then (require_auth auth admin) (\<lambda>_.
       Inr (s\<lparr>admin_insert_only := Some admin_only\<rparr>)))"

definition get_root :: "asp_store \<Rightarrow> (asp_error, u256) result" where
  "get_root s = ok_or (asp_root s) NotInitialized"

definition asp_insert_level ::
  "poseidon2_host \<Rightarrow> nat \<Rightarrow> nat \<times> u256 \<times> asp_store \<Rightarrow> (asp_error, nat \<times> u256 \<times> asp_store) result" where
  "asp_insert_level host lvl ics =
     (case ics of (current_index, current_hash, s) \<Rightarrow>
      if odd current_index then
        and_then (ok_or (filled_subtrees s lvl) NotInitialized) (\<lambda>left.
        and_then (poseidon2_compress host left current_hash) (\<lambda>h.
          Inr (current_index div 2, h, s)))
      else
        (let s' = s\<lparr>filled_subtrees := (filled_subtrees s)(lvl \<mapsto> current_hash)\<rparr> in
         and_then (ok_or (zeroes s' lvl) NotInitialized) (\<lambda>zero_val.
         and_then (poseidon2_compress host current_hash zero_val) (\<lambda>h.
           Inr (current_index div 2, h, s')))))"

definition insert_leaf ::
  "poseidon2_host \<Rightarrow> auths \<Rightarrow> u256 \<Rightarrow> asp_store \<Rightarrow> (asp_error, asp_store) result" where
  "insert_leaf host auth leaf s =
     and_then
       (if unwrap_or (admin_insert_only s) True
        then and_then (ok_or (asp_admin s) NotInitialized) (require_auth auth)
        else Inr ()) (\<lambda>_.
     and_then (ok_or (asp_levels s) NotInitialized) (\<lambda>levels.
     and_then (ok_or (asp_next_index s) NotInitialized) (\<lambda>actual_index.
     and_then (ok_or (checked_shl_one 64 levels) TreeFull) (\<lambda>capacity.
     and_then (ensure (\<not> capacity \<le> actual_index) TreeFull) (\<lambda>_.
     and_then (fold_result (asp_insert_level host) [0..<levels] (actual_index, leaf, s))
       (\<lambda>(_, current_hash, s1).
     let s2 = s1\<lparr>asp_root := Some current_hash,
                  asp_events := asp_events s1
                    @ [\<lparr>lae_leaf = leaf, lae_index = actual_index, lae_root = current_hash\<rparr>]\<rparr> in
     and_then (ok_or (checked_add 64 actual_index 1) Overflow) (\<lambda>n.
       Inr (s2\<lparr>asp_next_index := Some n\<rparr>))))))))"

section \<open>The storage's interfaces\<close>

definition put_filled_subtree :: "nat \<Rightarrow> u256 \<Rightarrow> asp_store \<Rightarrow> asp_store" where
  "put_filled_subtree l c s = s\<lparr>filled_subtrees := (filled_subtrees s)(l \<mapsto> c)\<rparr>"

interpretation asp_tree: frontier_store "poseidon2_compress host" filled_subtrees zeroes
    put_filled_subtree "asp_insert_level host" for host
  by unfold_locales (simp_all add: put_filled_subtree_def asp_insert_level_def)

interpretation asp_gate: admin_entry asp_admin put_asp_admin
  by unfold_locales (simp_all add: put_asp_admin_def)

lemma asp_insert_level_frame:
  assumes "fold_result (asp_insert_level host) ls (i, c, s) = Inr (i', c', s')"
  shows "asp_levels s' = asp_levels s \<and> asp_next_index s' = asp_next_index s
    \<and> asp_admin s' = asp_admin s \<and> admin_insert_only s' = admin_insert_only s
    \<and> asp_events s' = asp_events s"
proof -
  let ?P = "\<lambda>ics. asp_levels (snd (snd ics)) = asp_levels s
    \<and> asp_next_index (snd (snd ics)) = asp_next_index s \<and> asp_admin (snd (snd ics)) = asp_admin s
    \<and> admin_insert_only (snd (snd ics)) = admin_insert_only s
    \<and> asp_events (snd (snd ics)) = asp_events s"
  have "?P (i', c', s')"
    by (rule fold_result_invariant [OF assms, where P = ?P])
      (auto simp: asp_insert_level_def result_simps Let_def split: if_splits prod.splits)
  then show ?thesis by simp
qed

section \<open>What a store represents\<close>

definition asp_log :: "(u256 \<Rightarrow> u256 \<Rightarrow> u256) \<Rightarrow> nat \<Rightarrow> u256 list \<Rightarrow> leaf_added_event list" where
  "asp_log h d leaves =
     map (\<lambda>i. \<lparr>lae_leaf = leaves ! i, lae_index = i,
               lae_root = tree_root h (get_zeroes ! 0) d (take (Suc i) leaves)\<rparr>) [0..<length leaves]"

definition asp_inv :: "(u256 \<Rightarrow> u256 \<Rightarrow> u256) \<Rightarrow> nat \<Rightarrow> u256 list \<Rightarrow> asp_store \<Rightarrow> bool" where
  "asp_inv h d leaves s \<longleftrightarrow>
     asp_levels s = Some d \<and> 1 \<le> d \<and> d \<le> 32
     \<and> asp_next_index s = Some (length leaves) \<and> length leaves \<le> 2 ^ d
     \<and> list_all canonical leaves
     \<and> asp_root s = Some (tree_root h (get_zeroes ! 0) d leaves)
     \<and> zeros_ok h (get_zeroes ! 0) 0 d (zeroes s)
     \<and> frontier h (get_zeroes ! 0) 0 d (filled_subtrees s) leaves
     \<and> asp_admin s \<noteq> None \<and> admin_insert_only s \<noteq> None
     \<and> asp_events s = asp_log h d leaves"

definition may_insert :: "auths \<Rightarrow> asp_store \<Rightarrow> bool" where
  "may_insert auth s \<longleftrightarrow>
     (unwrap_or (admin_insert_only s) True \<longrightarrow> (\<exists>admin. asp_admin s = Some admin \<and> auth admin))"

lemma asp_log_append:
  "asp_log h d (leaves @ [x]) = asp_log h d leaves
     @ [\<lparr>lae_leaf = x, lae_index = length leaves,
         lae_root = tree_root h (get_zeroes ! 0) d (leaves @ [x])\<rparr>]"
  by (simp add: asp_log_def nth_append)

lemma asp_init_levels_run:
  "k \<le> 33 \<Longrightarrow> \<exists>s1. fold_result asp_init_level [0..<k] s = Inr s1
    \<and> asp_levels s1 = asp_levels s \<and> asp_next_index s1 = asp_next_index s
    \<and> asp_admin s1 = asp_admin s \<and> admin_insert_only s1 = admin_insert_only s
    \<and> asp_events s1 = asp_events s
    \<and> (\<forall>i<k. zeroes s1 i = Some (get_zeroes ! i))"
proof (induction k)
  case (Suc k)
  then obtain s1 where "fold_result asp_init_level [0..<k] s = Inr s1"
    and "asp_levels s1 = asp_levels s \<and> asp_next_index s1 = asp_next_index s
      \<and> asp_admin s1 = asp_admin s \<and> admin_insert_only s1 = admin_insert_only s
      \<and> asp_events s1 = asp_events s"
    and "\<forall>i<k. zeroes s1 i = Some (get_zeroes ! i)"
    by auto
  moreover have "asp_init_level k s1 = Inr (s1\<lparr>filled_subtrees := (filled_subtrees s1)(k \<mapsto> get_zeroes ! k),
      zeroes := (zeroes s1)(k \<mapsto> get_zeroes ! k)\<rparr>)"
    using Suc.prems by (simp add: asp_init_level_def)
  ultimately show ?case
    by (auto simp: fold_result_append less_Suc_eq)
qed simp

lemma asp_constructor_establishes:
  assumes h: "zeroes_consistent h" and "1 \<le> d" "d \<le> 32"
  shows "\<exists>s. asp_constructor admin d empty_asp_store = Inr s \<and> asp_inv h d [] s
    \<and> asp_admin s = Some admin \<and> admin_insert_only s = Some True"
proof -
  let ?s0 = "empty_asp_store\<lparr>asp_admin := Some admin, asp_levels := Some d,
      asp_next_index := Some 0, admin_insert_only := Some True\<rparr>"
  obtain s1 where run: "fold_result asp_init_level [0..<Suc d] ?s0 = Inr s1"
    and fr: "asp_levels s1 = Some d" "asp_next_index s1 = Some 0" "asp_admin s1 = Some admin"
      "admin_insert_only s1 = Some True" "asp_events s1 = []"
    and z: "\<forall>i<Suc d. zeroes s1 i = Some (get_zeroes ! i)"
    using asp_init_levels_run [of "Suc d" ?s0] assms by (auto simp: empty_asp_store_def)
  have "zeros_ok h (get_zeroes ! 0) 0 d (zeroes s1)"
    using z assms by (simp add: zeros_ok_def zeroes_chain)
  moreover have "tree_root h (get_zeroes ! 0) d [] = get_zeroes ! d"
    using assms by (simp add: node_empty zeroes_chain)
  ultimately have "asp_inv h d [] (s1\<lparr>asp_root := Some (get_zeroes ! d)\<rparr>)"
    using fr assms by (simp add: asp_inv_def asp_log_def frontier_Nil)
  moreover have "asp_constructor admin d empty_asp_store = Inr (s1\<lparr>asp_root := Some (get_zeroes ! d)\<rparr>)"
    using run assms by (simp add: asp_constructor_def del: upt_Suc)
  ultimately show ?thesis using fr by auto
qed

lemma insert_leaf_gate:
  assumes "asp_inv h d leaves s" and "\<not> may_insert auth s"
  shows "insert_leaf host auth leaf s = Inl Trap"
  using assms by (auto simp: insert_leaf_def may_insert_def asp_inv_def)

lemma insert_leaf_gated:
  assumes "may_insert auth s"
  shows "(if unwrap_or (admin_insert_only s) True
      then and_then (ok_or (asp_admin s) NotInitialized) (require_auth auth) else Inr ()) = Inr ()"
  using assms by (auto simp: may_insert_def)

lemma insert_leaf_full:
  assumes "asp_inv h d leaves s" and "may_insert auth s" and "length leaves = 2 ^ d"
  shows "insert_leaf host auth leaf s = Inl (Err TreeFull)"
  using assms(1,3)
  by (simp add: insert_leaf_def insert_leaf_gated [OF assms(2)] asp_inv_def checked_shl_one_def)

lemma insert_leaf_run:
  assumes host: "good_host host" and h: "zeroes_consistent (compress_value host)"
    and inv: "asp_inv (compress_value host) d leaves s" and gate: "may_insert auth s"
    and room: "length leaves < 2 ^ d" and can: "canonical leaf"
  shows "\<exists>s'. insert_leaf host auth leaf s = Inr s'
    \<and> asp_inv (compress_value host) d (leaves @ [leaf]) s'
    \<and> asp_admin s' = asp_admin s \<and> admin_insert_only s' = admin_insert_only s"
proof -
  let ?h = "compress_value host" and ?n = "length leaves" and ?z = "get_zeroes ! 0"
  from inv have d: "1 \<le> d" "d \<le> 32" and ls: "list_all canonical leaves"
    and fr: "frontier ?h ?z 0 d (filled_subtrees s) leaves"
    and zs: "zeros_ok ?h ?z 0 d (zeroes s)"
    and st: "asp_levels s = Some d" "asp_next_index s = Some ?n" "asp_events s = asp_log ?h d leaves"
      "asp_admin s \<noteq> None" "admin_insert_only s \<noteq> None"
    by (simp_all add: asp_inv_def)
  have okz: "canonical ?z" by (rule canonical_get_zeroes) simp
  have okl: "canonical y" if "y \<in> set leaves" for y using that ls by (simp add: list_all_iff)
  obtain s1 where run: "fold_result (asp_insert_level host) [0..<d] (?n, leaf, s)
      = Inr (0, tree_root ?h ?z d (leaves @ [leaf]), s1)"
    and fr1: "frontier ?h ?z 0 d (filled_subtrees s1) (leaves @ [leaf])"
    and z1: "zeroes s1 = zeroes s"
    using asp_tree.climb [OF good_hash_compress [OF host] okz can okl fr zs room]
    unfolding add_0 by blast
  note same = asp_insert_level_frame [OF run]
  have "(2::nat) ^ d \<le> 2 ^ 32" using d by (intro power_increasing) simp_all
  with room have add: "checked_add 64 ?n 1 = Some (Suc ?n)" by (simp add: checked_add_Some)
  let ?s' = "s1\<lparr>asp_root := Some (tree_root ?h ?z d (leaves @ [leaf])),
      asp_events := asp_events s1 @ [\<lparr>lae_leaf = leaf, lae_index = ?n,
        lae_root = tree_root ?h ?z d (leaves @ [leaf])\<rparr>], asp_next_index := Some (Suc ?n)\<rparr>"
  have "insert_leaf host auth leaf s = Inr ?s'"
    using d room
    by (simp add: insert_leaf_def insert_leaf_gated [OF gate] st run add [unfolded One_nat_def]
        checked_shl_one_def Let_def)
  moreover have "asp_inv ?h d (leaves @ [leaf]) ?s'"
    using d ls can room fr1 zs z1 same st by (simp add: asp_inv_def asp_log_append)
  ultimately show ?thesis using same by (intro exI [of _ ?s']) simp
qed

section \<open>Every history of the contract\<close>

datatype asp_call =
    InsertLeaf u256
  | SetAdminInsertOnly bool
  | UpdateAdmin address

fun asp_exec ::
  "poseidon2_host \<Rightarrow> auths \<Rightarrow> asp_call \<Rightarrow> asp_store \<Rightarrow> (asp_error, asp_store) result" where
  "asp_exec host auth (InsertLeaf leaf) s = insert_leaf host auth leaf s"
| "asp_exec host auth (SetAdminInsertOnly b) s = set_admin_insert_only auth b s"
| "asp_exec host auth (UpdateAdmin a) s = asp_update_admin auth a s"

text \<open>
  A failing call leaves no trace, so a contract's states are those reached by successful calls,
  each with whatever authorisations its invocation carries.
\<close>

inductive asp_reachable :: "poseidon2_host \<Rightarrow> nat \<Rightarrow> asp_store \<Rightarrow> bool" for host d where
  deployed: "asp_constructor admin d empty_asp_store = Inr s \<Longrightarrow> asp_reachable host d s"
| called: "asp_reachable host d s \<Longrightarrow> asp_exec host auth call s = Inr s' \<Longrightarrow> asp_reachable host d s'"

inductive_cases asp_reachableE: "asp_reachable host d s"

lemma asp_constructor_levels:
  "asp_constructor admin d s = Inr s' \<Longrightarrow> 1 \<le> d \<and> d \<le> 32"
  by (auto simp: asp_constructor_def split: if_splits)

lemma insert_leaf_canonical:
  assumes "asp_inv h d leaves s" and "insert_leaf host auth leaf s = Inr s'"
  shows "canonical leaf"
proof (rule ccontr)
  assume nc: "\<not> canonical leaf"
  from assms(1) obtain d' where d: "asp_levels s = Some (Suc d')" "zeroes s 0 \<noteq> None"
    by (cases d) (auto simp: asp_inv_def zeros_ok_def)
  have "fold_result (asp_insert_level host) [0..<Suc d'] (n, leaf, s) \<noteq> Inr r" for n r
    using nc
    by (simp add: upt_rec [of 0] asp_insert_level_def result_simps poseidon2_compress_trap
        Let_def del: upt_Suc)
  with assms(2) d(1) show False
    by (auto simp: insert_leaf_def result_simps simp del: upt_Suc)
qed

lemma asp_exec_inv:
  assumes host: "good_host host" and h: "zeroes_consistent (compress_value host)"
    and inv: "asp_inv (compress_value host) d leaves s" and ok: "asp_exec host auth call s = Inr s'"
  shows "\<exists>leaves'. asp_inv (compress_value host) d leaves' s' \<and> length leaves \<le> length leaves'
    \<and> take (length leaves) leaves' = leaves"
proof (cases call)
  case (InsertLeaf leaf)
  with ok have run: "insert_leaf host auth leaf s = Inr s'" by simp
  then have gate: "may_insert auth s" using insert_leaf_gate [OF inv] by fastforce
  have "length leaves \<noteq> 2 ^ d" using insert_leaf_full [OF inv gate] run by fastforce
  with inv have "length leaves < 2 ^ d" by (simp add: asp_inv_def)
  from insert_leaf_run [OF host h inv gate this insert_leaf_canonical [OF inv run]] run
  show ?thesis by auto
next
  case (SetAdminInsertOnly b)
  with ok inv show ?thesis
    by (intro exI [of _ leaves]) (auto simp: set_admin_insert_only_def result_simps asp_inv_def)
next
  case (UpdateAdmin a)
  with ok inv show ?thesis
    by (intro exI [of _ leaves])
      (auto simp: asp_update_admin_def asp_gate.update_ok put_asp_admin_def asp_inv_def)
qed

lemma asp_reachable_inv:
  assumes "good_host host" and "zeroes_consistent (compress_value host)"
  shows "asp_reachable host d s \<Longrightarrow> \<exists>leaves. asp_inv (compress_value host) d leaves s"
proof (induction rule: asp_reachable.induct)
  case (deployed admin s)
  with asp_constructor_levels [OF deployed] asp_constructor_establishes [OF assms(2)] show ?case
    by (metis Inr_inject)
next
  case (called s auth call s')
  then show ?case using asp_exec_inv [OF assms] by blast
qed

section \<open>Properties\<close>

text \<open>
  C4: In every reachable state of the membership contract the event log alone determines the
  tree: event \<open>i\<close> carries index \<open>i\<close>, its root is the root of the padded tree over the leaves of
  the first \<open>i + 1\<close> events, and the stored root is that of the last one.
\<close>

theorem asp_events_determine_root:
  assumes "good_host host" and "zeroes_consistent (compress_value host)" and "asp_reachable host d s"
  shows "asp_events s = asp_log (compress_value host) d (map lae_leaf (asp_events s))
    \<and> get_root s = Inr (tree_root (compress_value host) (get_zeroes ! 0) d (map lae_leaf (asp_events s)))"
proof -
  from asp_reachable_inv [OF assms] obtain leaves where inv: "asp_inv (compress_value host) d leaves s"
    by blast
  have "map lae_leaf (asp_log (compress_value host) d leaves) = leaves"
    by (simp add: asp_log_def comp_def map_nth)
  with inv show ?thesis by (simp add: asp_inv_def get_root_def)
qed

text \<open>
  \<open>insert_leaf\<close> in a state that represents a member list: without the administrator's
  authorisation while insertion is closed it traps; on a full tree it reports
  \<open>MerkleTreeFull\<close>; a leaf outside the field makes the call fail; otherwise the list grows by that leaf.
\<close>

theorem insert_leaf_outcomes:
  assumes "good_host host" and "zeroes_consistent (compress_value host)"
    and "asp_inv (compress_value host) d leaves s"
  shows "if \<not> may_insert auth s then insert_leaf host auth leaf s = Inl Trap
    else if length leaves = 2 ^ d then insert_leaf host auth leaf s = Inl (Err TreeFull)
    else if \<not> canonical leaf then \<not> is_ok (insert_leaf host auth leaf s)
    else \<exists>s'. insert_leaf host auth leaf s = Inr s'
      \<and> asp_inv (compress_value host) d (leaves @ [leaf]) s'
      \<and> asp_admin s' = asp_admin s \<and> admin_insert_only s' = admin_insert_only s"
proof -
  have "length leaves < 2 ^ d \<or> length leaves = 2 ^ d"
    using assms(3) by (auto simp: asp_inv_def)
  moreover note insert_leaf_gate [OF assms(3)] insert_leaf_full [OF assms(3)]
    insert_leaf_run [OF assms] insert_leaf_canonical [OF assms(3), of host auth leaf]
  ultimately show ?thesis by (auto simp: is_ok_iff)
qed

text \<open>A deployed contract with one member, for the witnesses.\<close>

lemma sample_asp:
  "\<exists>s s'. asp_constructor ''admin'' 2 empty_asp_store = Inr s
    \<and> asp_admin s = Some ''admin'' \<and> admin_insert_only s = Some True
    \<and> asp_inv (compress_value sample_host) 2 [] s
    \<and> asp_exec sample_host (\<lambda>a. a = ''admin'') (InsertLeaf 7) s = Inr s'
    \<and> asp_inv (compress_value sample_host) 2 [7] s'"
proof -
  obtain s where s: "asp_constructor ''admin'' 2 empty_asp_store = Inr s"
      "asp_inv (compress_value sample_host) 2 [] s" "asp_admin s = Some ''admin''"
      "admin_insert_only s = Some True"
    using asp_constructor_establishes [OF zeroes_consistent_sample, of 2] by auto
  moreover have "may_insert (\<lambda>a. a = ''admin'') s" using s by (simp add: may_insert_def)
  moreover obtain s' where "insert_leaf sample_host (\<lambda>a. a = ''admin'') 7 s = Inr s'"
      "asp_inv (compress_value sample_host) 2 [7] s'"
    using insert_leaf_run [OF good_sample_host zeroes_consistent_sample s(2) calculation(5), of 7]
    by auto
  ultimately show ?thesis by (intro exI [of _ s] exI [of _ s']) simp
qed

theorem asp_events_determine_root_witness:
  "\<exists>s. asp_reachable sample_host 2 s \<and> map lae_leaf (asp_events s) = [7]
    \<and> get_root s = Inr (tree_root (compress_value sample_host) (get_zeroes ! 0) 2 [7])"
proof -
  obtain s s' where s: "asp_constructor ''admin'' 2 empty_asp_store = Inr s"
      "asp_exec sample_host (\<lambda>a. a = ''admin'') (InsertLeaf 7) s = Inr s'"
      "asp_inv (compress_value sample_host) 2 [7] s'"
    using sample_asp by blast
  then have r: "asp_reachable sample_host 2 s'" by (blast intro: asp_reachable.intros)
  moreover have "map lae_leaf (asp_events s') = [7]"
    using s(3) by (simp add: asp_inv_def asp_log_def)
  ultimately show ?thesis
    using asp_events_determine_root [OF good_sample_host zeroes_consistent_sample r] by auto
qed

theorem insert_leaf_outcomes_witness:
  "\<exists>s. asp_constructor ''admin'' 2 empty_asp_store = Inr s
    \<and> insert_leaf sample_host (\<lambda>a. a = ''mallory'') 5 s = Inl Trap
    \<and> is_ok (insert_leaf sample_host (\<lambda>a. a = ''admin'') 5 s)"
proof -
  obtain s where s: "asp_constructor ''admin'' 2 empty_asp_store = Inr s"
      "asp_inv (compress_value sample_host) 2 [] s" "asp_admin s = Some ''admin''"
      "admin_insert_only s = Some True"
    using sample_asp by blast
  note out = insert_leaf_outcomes [OF good_sample_host zeroes_consistent_sample s(2), where leaf = 5]
  from out [of "\<lambda>a. a = ''mallory''"] out [of "\<lambda>a. a = ''admin''"] s show ?thesis
    by (auto simp: may_insert_def is_ok_iff)
qed

end
