(* ===== verification/ContractTypes.thy ===== *)
theory ContractTypes
  imports Host
begin

text \<open>
  The data the contracts exchange with the Groth16 verifier (\<open>contracts/types/src/lib.rs\<close>) and
  the calls a contract makes to other contracts. Points are the SDK's wrappers around byte
  arrays of a fixed length; the curve itself is the host's.
\<close>

section \<open>Proofs and keys\<close>

datatype groth16_error = InvalidProof | MalformedPublicInputs | MalformedProof

type_synonym g1_point = bytes
type_synonym g2_point = bytes

record groth16_proof =
  proof_a :: g1_point
  proof_b :: g2_point
  proof_c :: g1_point

definition proof_is_empty :: "groth16_proof \<Rightarrow> bool" where
  "proof_is_empty p \<longleftrightarrow> proof_a p = [] \<or> proof_b p = [] \<or> proof_c p = []"

definition FIELD_ELEMENT_SIZE :: nat where
  "FIELD_ELEMENT_SIZE = 32"

definition G1_SIZE :: nat where
  "G1_SIZE = FIELD_ELEMENT_SIZE * 2"

definition G2_SIZE :: nat where
  "G2_SIZE = FIELD_ELEMENT_SIZE * 4"

definition PROOF_SIZE :: nat where
  "PROOF_SIZE = G1_SIZE + G2_SIZE + G1_SIZE"

lemmas proof_sizes = FIELD_ELEMENT_SIZE_def G1_SIZE_def G2_SIZE_def PROOF_SIZE_def

text \<open>\<open>Bytes::slice\<close> on a range inside the buffer, and the conversion to \<open>BytesN\<close>.\<close>

definition slice :: "nat \<Rightarrow> nat \<Rightarrow> bytes \<Rightarrow> bytes" where
  "slice a b bs = drop a (take b bs)"

definition bytes_n :: "nat \<Rightarrow> bytes \<Rightarrow> bytes option" where
  "bytes_n n bs = (if length bs = n then Some bs else None)"

definition proof_try_from :: "bytes \<Rightarrow> (groth16_error, groth16_proof) result" where
  "proof_try_from value =
     (if length value \<noteq> PROOF_SIZE then Inl (Err MalformedProof)
      else and_then (ok_or (bytes_n G1_SIZE (slice 0 G1_SIZE value)) MalformedProof) (\<lambda>a.
           and_then (ok_or (bytes_n G2_SIZE (slice G1_SIZE (G1_SIZE + G2_SIZE) value)) MalformedProof) (\<lambda>b.
           and_then (ok_or (bytes_n G1_SIZE (slice (G1_SIZE + G2_SIZE) (length value) value)) MalformedProof) (\<lambda>c.
             Inr \<lparr>proof_a = a, proof_b = b, proof_c = c\<rparr>))))"

lemma proof_try_from_run:
  assumes "length value = 256"
  shows "proof_try_from value = Inr \<lparr>proof_a = take 64 value,
    proof_b = take 128 (drop 64 value), proof_c = drop 192 value\<rparr>"
  using assms
  by (simp add: proof_try_from_def proof_sizes slice_def bytes_n_def take_drop)

section \<open>Calls to other contracts\<close>

text \<open>
  \<open>client.verify\<close> returns the verifier's boolean and fails the invocation when the verifier
  returns an error, which is \<open>None\<close> here; \<open>transfer\<close> is the token's, with an \<open>i128\<close> amount, over
  an abstract state of all token contracts, and \<open>None\<close> when the token refuses.
\<close>

record 't host_env =
  auth :: auths
  self_address :: address
  verify_call :: "address \<Rightarrow> groth16_proof \<Rightarrow> u256 list \<Rightarrow> bool option"
  transfer_call :: "address \<Rightarrow> address \<Rightarrow> address \<Rightarrow> int \<Rightarrow> 't \<Rightarrow> 't option"

text \<open>
  What the token standard says of a transfer: it moves exactly the amount between the two
  accounts of that token, touches no other balance, and leaves no balance negative.
\<close>

definition token_laws ::
  "('t \<Rightarrow> address \<Rightarrow> address \<Rightarrow> int) \<Rightarrow> (address \<Rightarrow> address \<Rightarrow> address \<Rightarrow> int \<Rightarrow> 't \<Rightarrow> 't option) \<Rightarrow> bool" where
  "token_laws balance transfer \<longleftrightarrow>
     (\<forall>tok src dst amount t t'. transfer tok src dst amount t = Some t' \<longrightarrow>
        0 \<le> balance t' tok src \<and>
        balance t' = (\<lambda>k a. balance t k a
          + (if k = tok \<and> a = dst then amount else 0) - (if k = tok \<and> a = src then amount else 0)))"

text \<open>A concrete token for the witnesses: a table of balances.\<close>

definition table_transfer ::
  "address \<Rightarrow> address \<Rightarrow> address \<Rightarrow> int \<Rightarrow> (address \<Rightarrow> address \<Rightarrow> int) \<Rightarrow> (address \<Rightarrow> address \<Rightarrow> int) option" where
  "table_transfer tok src dst amount t =
     (if 0 \<le> amount \<and> amount \<le> t tok src
      then Some (\<lambda>k a. t k a + (if k = tok \<and> a = dst then amount else 0)
                              - (if k = tok \<and> a = src then amount else 0))
      else None)"

lemma table_token_laws: "token_laws (\<lambda>t. t) table_transfer"
  by (auto simp: token_laws_def table_transfer_def split: if_splits)

section \<open>Sets of spent nullifiers\<close>

text \<open>
  Both the pool and the payroll contract remember spent nullifiers, the pool as one map, the
  payroll as one storage entry per nullifier.
\<close>

locale spent_set =
  fixes is_spent :: "'s \<Rightarrow> u256 \<Rightarrow> bool"
    and mark :: "u256 \<Rightarrow> 's \<Rightarrow> 's"
  assumes spent_mark: "is_spent (mark x s) y \<longleftrightarrow> y = x \<or> is_spent s y"
begin

lemma spent_fold: "is_spent (fold mark xs s) y \<longleftrightarrow> y \<in> set xs \<or> is_spent s y"
  by (induction xs arbitrary: s) (auto simp: spent_mark)

text \<open>A record of what was spent, in order.\<close>

definition spent_log :: "u256 list \<Rightarrow> 's \<Rightarrow> bool" where
  "spent_log log s \<longleftrightarrow> distinct log \<and> (\<forall>x. is_spent s x \<longleftrightarrow> x \<in> set log)"

lemma spent_log_mark:
  "spent_log log s \<Longrightarrow> \<not> is_spent s x \<Longrightarrow> spent_log (log @ [x]) (mark x s)"
  by (auto simp: spent_log_def spent_mark)

lemma spent_log_fold:
  "spent_log log s \<Longrightarrow> distinct xs \<Longrightarrow> (\<And>x. x \<in> set xs \<Longrightarrow> \<not> is_spent s x)
    \<Longrightarrow> spent_log (log @ xs) (fold mark xs s)"
  by (auto simp: spent_log_def spent_fold)

lemma spent_log_cong:
  "spent_log log s \<Longrightarrow> (\<And>x. is_spent s' x \<longleftrightarrow> is_spent s x) \<Longrightarrow> spent_log log s'"
  by (simp add: spent_log_def)

end

section \<open>Properties\<close>

text \<open>
  Parsing a proof accepts exactly the byte strings of 256 bytes, and the three points it
  returns have the sizes of the curve's encodings and are, in order, the bytes that came in.
\<close>

theorem proof_bytes_roundtrip:
  "is_ok (proof_try_from bs) = (length bs = PROOF_SIZE)
   \<and> (\<forall>p. proof_try_from bs = Inr p \<longrightarrow>
        proof_a p @ proof_b p @ proof_c p = bs
        \<and> length (proof_a p) = G1_SIZE \<and> length (proof_b p) = G2_SIZE \<and> length (proof_c p) = G1_SIZE
        \<and> \<not> proof_is_empty p)"
proof (cases "length bs = 256")
  case True
  have "take 128 (drop 64 bs) @ drop 192 bs = drop 64 bs"
    using append_take_drop_id [of 128 "drop 64 bs"] by simp
  then have "take 64 bs @ take 128 (drop 64 bs) @ drop 192 bs = bs"
    by simp
  moreover from True have "bs \<noteq> []" by auto
  ultimately show ?thesis
    using True by (simp add: proof_try_from_run proof_sizes proof_is_empty_def)
next
  case False
  then show ?thesis by (simp add: proof_try_from_def proof_sizes)
qed

theorem proof_bytes_roundtrip_witness:
  "\<exists>p. proof_try_from (replicate 256 1) = Inr p \<and> length (proof_b p) = 128"
  using proof_bytes_roundtrip [of "replicate 256 1"] by (auto simp: is_ok_iff proof_sizes)

end
