(* ===== verification/Groth16Verifier.thy ===== *)
theory Groth16Verifier
  imports ContractTypes
begin

text \<open>
  The Groth16 verifier contract (\<open>contracts/circom-groth16-verifier/src/lib.rs\<close>). The curve
  operations are host functions, the fields of \<open>bn254_host\<close>; the verification key is generated
  at build time, so it is an argument.
\<close>

record verification_key =
  vk_alpha :: g1_point
  vk_beta :: g2_point
  vk_gamma :: g2_point
  vk_delta :: g2_point
  vk_ic :: "g1_point list"

record bn254_host =
  g1_mul :: "g1_point \<Rightarrow> u256 \<Rightarrow> g1_point"
  g1_add :: "g1_point \<Rightarrow> g1_point \<Rightarrow> g1_point"
  g1_neg :: "g1_point \<Rightarrow> g1_point"
  pairing_check :: "g1_point list \<Rightarrow> g2_point list \<Rightarrow> bool"

definition embedded_vk ::
  "g1_point list \<Rightarrow> g1_point \<Rightarrow> g2_point \<Rightarrow> g2_point \<Rightarrow> g2_point \<Rightarrow> verification_key" where
  "embedded_vk VK_IC VK_ALPHA_G1 VK_BETA_G2 VK_GAMMA_G2 VK_DELTA_G2 =
     \<lparr>vk_alpha = VK_ALPHA_G1, vk_beta = VK_BETA_G2, vk_gamma = VK_GAMMA_G2,
      vk_delta = VK_DELTA_G2, vk_ic = VK_IC\<rparr>"

text \<open>The body of the loop that accumulates the public inputs.\<close>

definition add_input ::
  "bn254_host \<Rightarrow> verification_key \<Rightarrow> u256 list \<Rightarrow> nat \<Rightarrow> g1_point \<Rightarrow> (groth16_error, g1_point) result" where
  "add_input bn vk pub_inputs i vk_x =
     and_then (ok_or (nth_opt pub_inputs i) MalformedPublicInputs) (\<lambda>s.
     and_then (ok_or (checked_add 32 i 1) MalformedPublicInputs) (\<lambda>ic_idx.
     and_then (ok_or (nth_opt (vk_ic vk) ic_idx) MalformedPublicInputs) (\<lambda>v.
       Inr (g1_add bn vk_x (g1_mul bn v s)))))"

definition verify_with_vk ::
  "bn254_host \<Rightarrow> verification_key \<Rightarrow> groth16_proof \<Rightarrow> u256 list \<Rightarrow> (groth16_error, bool) result" where
  "verify_with_vk bn vk proof pub_inputs =
     (if checked_add 32 (length pub_inputs) 1 \<noteq> Some (length (vk_ic vk))
      then Inl (Err MalformedPublicInputs)
      else and_then (ok_or (nth_opt (vk_ic vk) 0) MalformedPublicInputs) (\<lambda>ic0.
           and_then (fold_result (add_input bn vk pub_inputs) [0..<length pub_inputs] ic0) (\<lambda>vk_x.
             if pairing_check bn [g1_neg bn (proof_a proof), vk_alpha vk, vk_x, proof_c proof]
                  [proof_b proof, vk_beta vk, vk_gamma vk, vk_delta vk]
             then Inr True else Inl (Err InvalidProof))))"

text \<open>How a calling contract sees it: an error of the verifier fails the caller's invocation.\<close>

definition verifier_client ::
  "bn254_host \<Rightarrow> verification_key \<Rightarrow> groth16_proof \<Rightarrow> u256 list \<Rightarrow> bool option" where
  "verifier_client bn vk proof pub_inputs =
     (case verify_with_vk bn vk proof pub_inputs of Inl _ \<Rightarrow> None | Inr b \<Rightarrow> Some b)"

section \<open>The public-input combination\<close>

text \<open>\<open>IC\<^sub>0 + s\<^sub>0 IC\<^sub>1 + s\<^sub>1 IC\<^sub>2 + \<dots>\<close>, summed from the left.\<close>

definition input_combination :: "bn254_host \<Rightarrow> g1_point list \<Rightarrow> u256 list \<Rightarrow> g1_point" where
  "input_combination bn ic inputs =
     fold (\<lambda>(v, s) acc. g1_add bn acc (g1_mul bn v s)) (zip (tl ic) inputs) (hd ic)"

lemma add_input_run:
  assumes "length (vk_ic vk) = Suc (length inputs)" and "Suc (length inputs) < 2 ^ 32"
    and "i < length inputs"
  shows "add_input bn vk inputs i acc = Inr (g1_add bn acc (g1_mul bn (vk_ic vk ! Suc i) (inputs ! i)))"
proof -
  have "checked_add 32 i 1 = Some (Suc i)" using assms by (simp add: checked_add_Some)
  with assms show ?thesis by (simp add: add_input_def)
qed

lemma add_inputs_run:
  assumes "length (vk_ic vk) = Suc (length inputs)" and "Suc (length inputs) < 2 ^ 32"
  shows "k \<le> length inputs \<Longrightarrow> fold_result (add_input bn vk inputs) [0..<k] acc
    = Inr (fold (\<lambda>(v, s) acc. g1_add bn acc (g1_mul bn v s)) (zip (take k (tl (vk_ic vk))) (take k inputs)) acc)"
proof (induction k)
  case (Suc k)
  have "take (Suc k) (tl (vk_ic vk)) = take k (tl (vk_ic vk)) @ [vk_ic vk ! Suc k]"
    using Suc.prems assms(1) by (simp add: take_Suc_conv_app_nth nth_tl)
  moreover have "take (Suc k) inputs = take k inputs @ [inputs ! k]"
    using Suc.prems by (simp add: take_Suc_conv_app_nth)
  ultimately show ?case
    using Suc assms add_input_run [OF assms, of k] by (simp add: fold_result_append)
qed simp

lemma verify_with_vk_run:
  assumes "length (vk_ic vk) = Suc (length inputs)" and "Suc (length inputs) < 2 ^ 32"
  shows "verify_with_vk bn vk proof inputs =
    (if pairing_check bn [g1_neg bn (proof_a proof), vk_alpha vk,
          input_combination bn (vk_ic vk) inputs, proof_c proof]
        [proof_b proof, vk_beta vk, vk_gamma vk, vk_delta vk]
     then Inr True else Inl (Err InvalidProof))"
proof -
  have "checked_add 32 (length inputs) 1 = Some (length (vk_ic vk))"
    using assms by (simp add: checked_add_Some)
  moreover have "nth_opt (vk_ic vk) 0 = Some (hd (vk_ic vk))"
    using assms by (cases "vk_ic vk") (simp_all add: nth_opt_def)
  ultimately show ?thesis
    using assms add_inputs_run [OF assms order_refl, of bn "hd (vk_ic vk)"]
    by (simp add: verify_with_vk_def input_combination_def)
qed

section \<open>Properties\<close>

text \<open>
  The verifier returns \<open>true\<close> exactly when the number of public inputs matches the key and
  the pairing equation holds for the linear combination of all of them; it never returns
  \<open>false\<close>, so a calling contract either sees \<open>true\<close> or has its own invocation fail.
\<close>

theorem verifier_accepts_iff_pairing:
  assumes "length inputs + 1 < 2 ^ 32"
  shows "verifier_client bn vk proof inputs =
    (if length (vk_ic vk) = length inputs + 1
        \<and> pairing_check bn [g1_neg bn (proof_a proof), vk_alpha vk,
             input_combination bn (vk_ic vk) inputs, proof_c proof]
            [proof_b proof, vk_beta vk, vk_gamma vk, vk_delta vk]
     then Some True else None)"
proof (cases "length (vk_ic vk) = Suc (length inputs)")
  case True
  with verify_with_vk_run [OF True] assms show ?thesis by (simp add: verifier_client_def)
next
  case False
  then show ?thesis
    by (auto simp: verifier_client_def verify_with_vk_def checked_add_def)
qed

definition sample_curve :: bn254_host where
  "sample_curve = \<lparr>g1_mul = (\<lambda>p s. map (\<lambda>b. b * ucast s) p), g1_add = map2 (+), g1_neg = map uminus,
     pairing_check = (\<lambda>ps qs. sum_list (map2 (\<lambda>p q. sum_list p * sum_list q) ps qs) = 0)\<rparr>"

theorem verifier_accepts_iff_pairing_witness:
  "verifier_client sample_curve (embedded_vk [[1], [2]] [1] [1] [1] [1])
     \<lparr>proof_a = [3], proof_b = [4], proof_c = [4]\<rparr> [3] = Some True
   \<and> verifier_client sample_curve (embedded_vk [[1], [2]] [1] [1] [1] [1])
     \<lparr>proof_a = [3], proof_b = [4], proof_c = [4]\<rparr> [3, 0] = None"
  using verifier_accepts_iff_pairing [of "[3]" sample_curve "embedded_vk [[1], [2]] [1] [1] [1] [1]"
      "\<lparr>proof_a = [3], proof_b = [4], proof_c = [4]\<rparr>"]
    verifier_accepts_iff_pairing [of "[3, 0]" sample_curve "embedded_vk [[1], [2]] [1] [1] [1] [1]"
      "\<lparr>proof_a = [3], proof_b = [4], proof_c = [4]\<rparr>"]
  by (simp add: embedded_vk_def sample_curve_def input_combination_def)

end
