(* ===== verification/Payroll.thy ===== *)
theory Payroll
  imports ContractTypes
begin

text \<open>
  The payroll contract (\<open>contracts/payroll/src/payroll.rs\<close>).

  The persistent entries under \<open>DataKey\<close> are the fields of \<open>payroll_store\<close>; extending the
  lifetime of an entry is logged, and traps when the entry does not exist; the contract's instance, which has a
  lifetime of its own (\<open>KInstance\<close>), always exists. The state of a
  handler is that storage together with the state of all token contracts. Groth16
  verification and token transfers are calls to other contracts, so they come from the
  environment of the invocation.
\<close>

section \<open>State\<close>

datatype payroll_error =
    PNotAuthorized
  | BudgetExceeded
  | ProofVerificationFailed
  | PeriodNotInitialized
  | EmptyCommitments
  | EmployeeRootNotSet
  | DuplicateCommitment
  | AuditorNotFound
  | AuditorRevoked
  | NonCanonicalInput
  | TokenNotSet
  | NullifierAlreadySpent
  | WithdrawVerifierNotSet
  | CommitmentNotFound

record payroll_period =
  pp_commitment_root :: u256
  pp_total_amount :: u256
  pp_employee_count :: nat
  pp_proof_verified :: bool

record auditor_record =
  encrypted_view_key :: bytes
  revoked :: bool

record commitment_record =
  cr_commitment_id :: u256
  cr_ipfs_cid :: bytes

datatype payroll_event =
    PayrollVerifiedEvent nat u256 u256 nat
  | AuditorGrantedEvent address
  | AuditorRevokedEvent address
  | EmployeeRootUpdatedEvent u256
  | BudgetCapUpdatedEvent u256
  | WithdrawalEvent u256 nat u256 address

datatype payroll_key =
    KAdmin
  | KToken
  | KVerifier
  | KEmployeeRoot
  | KBudgetCap
  | KCurrentPeriod
  | KPeriod nat
  | KPeriodCommitments nat
  | KCommitmentRecord u256
  | KAuditor address
  | KWithdrawVerifier
  | KWithdrawnNullifier u256
  | KRootToPeriod u256
  | KInstance

record payroll_store =
  pr_admin :: "address option"
  pr_token :: "address option"
  pr_verifier :: "address option"
  employee_root :: "u256 option"
  budget_cap :: "u256 option"
  current_period :: "nat option"
  pr_period :: "nat \<rightharpoonup> payroll_period"
  period_commitments :: "nat \<rightharpoonup> u256 list"
  commitment_record :: "u256 \<rightharpoonup> commitment_record"
  pr_auditor :: "address \<rightharpoonup> auditor_record"
  withdraw_verifier :: "address option"
  withdrawn_nullifier :: "u256 \<rightharpoonup> bool"
  root_to_period :: "u256 \<rightharpoonup> nat"
  ttl_log :: "payroll_key list"
  pr_events :: "payroll_event list"

definition empty_payroll :: payroll_store where
  "empty_payroll = \<lparr>pr_admin = None, pr_token = None, pr_verifier = None, employee_root = None,
     budget_cap = None, current_period = None, pr_period = Map.empty,
     period_commitments = Map.empty, commitment_record = Map.empty, pr_auditor = Map.empty,
     withdraw_verifier = None, withdrawn_nullifier = Map.empty, root_to_period = Map.empty,
     ttl_log = [], pr_events = []\<rparr>"

fun has_key :: "payroll_key \<Rightarrow> payroll_store \<Rightarrow> bool" where
  "has_key KAdmin s = (pr_admin s \<noteq> None)"
| "has_key KToken s = (pr_token s \<noteq> None)"
| "has_key KVerifier s = (pr_verifier s \<noteq> None)"
| "has_key KEmployeeRoot s = (employee_root s \<noteq> None)"
| "has_key KBudgetCap s = (budget_cap s \<noteq> None)"
| "has_key KCurrentPeriod s = (current_period s \<noteq> None)"
| "has_key (KPeriod p) s = (pr_period s p \<noteq> None)"
| "has_key (KPeriodCommitments p) s = (period_commitments s p \<noteq> None)"
| "has_key (KCommitmentRecord c) s = (commitment_record s c \<noteq> None)"
| "has_key (KAuditor a) s = (pr_auditor s a \<noteq> None)"
| "has_key KWithdrawVerifier s = (withdraw_verifier s \<noteq> None)"
| "has_key (KWithdrawnNullifier n) s = (withdrawn_nullifier s n \<noteq> None)"
| "has_key (KRootToPeriod r) s = (root_to_period s r \<noteq> None)"
| "has_key KInstance s = True"

definition extend_ttl :: "payroll_key \<Rightarrow> payroll_store \<Rightarrow> (payroll_error, payroll_store) result" where
  "extend_ttl k s = (if has_key k s then Inr (s\<lparr>ttl_log := ttl_log s @ [k]\<rparr>) else Inl Trap)"

definition publish :: "payroll_event \<Rightarrow> payroll_store \<Rightarrow> payroll_store" where
  "publish e s = s\<lparr>pr_events := pr_events s @ [e]\<rparr>"

section \<open>Constructor and administration\<close>

definition payroll_constructor ::
  "address \<Rightarrow> address \<Rightarrow> address \<Rightarrow> u256 \<Rightarrow> u256 \<Rightarrow> payroll_store \<Rightarrow> payroll_store" where
  "payroll_constructor admin token verifier root cap s =
     s\<lparr>pr_admin := Some admin, pr_token := Some token, pr_verifier := Some verifier,
        employee_root := Some root, budget_cap := Some cap, current_period := Some 0,
        ttl_log := ttl_log s @ [KInstance]\<rparr>"

definition require_admin :: "auths \<Rightarrow> payroll_store \<Rightarrow> (payroll_error, unit) result" where
  "require_admin auths s =
     and_then (ok_or (pr_admin s) PNotAuthorized) (\<lambda>admin. require_auth auths admin)"

definition set_employee_root :: "auths \<Rightarrow> u256 \<Rightarrow> payroll_store \<Rightarrow> (payroll_error, payroll_store) result" where
  "set_employee_root auths root s =
     and_then (require_admin auths s) (\<lambda>_.
     and_then (extend_ttl KEmployeeRoot (s\<lparr>employee_root := Some root\<rparr>)) (\<lambda>s1.
       Inr (publish (EmployeeRootUpdatedEvent root) s1)))"

definition set_budget_cap :: "auths \<Rightarrow> u256 \<Rightarrow> payroll_store \<Rightarrow> (payroll_error, payroll_store) result" where
  "set_budget_cap auths cap s =
     and_then (require_admin auths s) (\<lambda>_.
     and_then (extend_ttl KBudgetCap (s\<lparr>budget_cap := Some cap\<rparr>)) (\<lambda>s1.
       Inr (publish (BudgetCapUpdatedEvent cap) s1)))"

definition set_token :: "auths \<Rightarrow> address \<Rightarrow> payroll_store \<Rightarrow> (payroll_error, payroll_store) result" where
  "set_token auths token s =
     and_then (require_admin auths s) (\<lambda>_. extend_ttl KToken (s\<lparr>pr_token := Some token\<rparr>))"

definition set_verifier :: "auths \<Rightarrow> address \<Rightarrow> payroll_store \<Rightarrow> (payroll_error, payroll_store) result" where
  "set_verifier auths verifier s =
     and_then (require_admin auths s) (\<lambda>_. extend_ttl KVerifier (s\<lparr>pr_verifier := Some verifier\<rparr>))"

definition set_withdraw_verifier ::
  "auths \<Rightarrow> address \<Rightarrow> payroll_store \<Rightarrow> (payroll_error, payroll_store) result" where
  "set_withdraw_verifier auths verifier s =
     and_then (require_admin auths s) (\<lambda>_.
       extend_ttl KWithdrawVerifier (s\<lparr>withdraw_verifier := Some verifier\<rparr>))"

section \<open>Auditors\<close>

definition set_view_key_for_auditor ::
  "auths \<Rightarrow> address \<Rightarrow> bytes \<Rightarrow> payroll_store \<Rightarrow> (payroll_error, payroll_store) result" where
  "set_view_key_for_auditor auths auditor key s =
     and_then (require_admin auths s) (\<lambda>_.
     let record = \<lparr>encrypted_view_key = key, revoked = False\<rparr> in
     and_then (extend_ttl (KAuditor auditor) (s\<lparr>pr_auditor := (pr_auditor s)(auditor \<mapsto> record)\<rparr>)) (\<lambda>s1.
       Inr (publish (AuditorGrantedEvent auditor) s1)))"

definition get_view_key :: "address \<Rightarrow> payroll_store \<Rightarrow> (payroll_error, bytes) result" where
  "get_view_key auditor s =
     and_then (ok_or (pr_auditor s auditor) AuditorNotFound) (\<lambda>record.
       if revoked record then Inl (Err AuditorRevoked) else Inr (encrypted_view_key record))"

definition revoke_auditor :: "auths \<Rightarrow> address \<Rightarrow> payroll_store \<Rightarrow> (payroll_error, payroll_store) result" where
  "revoke_auditor auths auditor s =
     and_then (require_admin auths s) (\<lambda>_.
     and_then (ok_or (pr_auditor s auditor) AuditorNotFound) (\<lambda>record.
     let record' = record\<lparr>revoked := True\<rparr> in
     and_then (extend_ttl (KAuditor auditor) (s\<lparr>pr_auditor := (pr_auditor s)(auditor \<mapsto> record')\<rparr>)) (\<lambda>s1.
       Inr (publish (AuditorRevokedEvent auditor) s1))))"

definition is_auditor :: "address \<Rightarrow> payroll_store \<Rightarrow> bool" where
  "is_auditor auditor s = (case pr_auditor s auditor of None \<Rightarrow> False | Some r \<Rightarrow> \<not> revoked r)"

section \<open>Running a payroll\<close>

definition fr_to_u64 :: "u256 \<Rightarrow> (payroll_error, nat) result" where
  "fr_to_u64 fr =
     and_then (ok_or (to_u128 fr) NonCanonicalInput) (\<lambda>v.
       if 2 ^ 64 - 1 < unat v then Inl (Err NonCanonicalInput) else Inr (unat v))"

text \<open>The amount of a transfer: a \<open>u128\<close> that also fits \<open>i128\<close>.\<close>

definition token_amount :: "u256 \<Rightarrow> (payroll_error, int) result" where
  "token_amount v =
     and_then (ok_or (to_u128 v) NonCanonicalInput) (\<lambda>a.
       if 2 ^ 127 - 1 < unat a then Inl (Err NonCanonicalInput) else Inr (uint a))"

text \<open>The body of the loop over \<open>ipfs_cids\<close>.\<close>

definition store_commitment ::
  "u256 \<times> bytes \<Rightarrow> payroll_store \<times> u256 list \<Rightarrow> (payroll_error, payroll_store \<times> u256 list) result" where
  "store_commitment item sc =
     (case (item, sc) of ((commitment_id, ipfs_cid), (s, acc)) \<Rightarrow>
      if commitment_record s commitment_id \<noteq> None then Inl (Err DuplicateCommitment)
      else
        let record = \<lparr>cr_commitment_id = commitment_id, cr_ipfs_cid = ipfs_cid\<rparr> in
        Inr (s\<lparr>commitment_record := (commitment_record s)(commitment_id \<mapsto> record)\<rparr>,
             acc @ [commitment_id]))"

definition run_payroll ::
  "'t host_env \<Rightarrow> groth16_proof \<Rightarrow> u256 list \<Rightarrow> (u256 \<times> bytes) list \<Rightarrow> payroll_store \<times> 't
     \<Rightarrow> (payroll_error, payroll_store \<times> 't) result" where
  "run_payroll env proof public_inputs ipfs_cids st =
    (case st of (s, tokens) \<Rightarrow>
     and_then (require_admin (auth env) s) (\<lambda>_.
     let employee_count = length ipfs_cids in
     and_then (ok_or (nth_opt public_inputs 0) NonCanonicalInput) (\<lambda>root.
     and_then (ok_or (nth_opt public_inputs 1) NonCanonicalInput) (\<lambda>total.
     and_then (ok_or (nth_opt public_inputs 2) NonCanonicalInput) (\<lambda>period_fe.
     and_then (ok_or (employee_root s) EmployeeRootNotSet) (\<lambda>stored_root.
     and_then (ensure (\<not> root \<noteq> stored_root) ProofVerificationFailed) (\<lambda>_.
     let cap = unwrap_or (budget_cap s) 0 in
     and_then (ensure (\<not> cap < total) BudgetExceeded) (\<lambda>_.
     and_then (ok_or (pr_verifier s) ProofVerificationFailed) (\<lambda>verifier.
     and_then (unwrap (verify_call env verifier proof public_inputs)) (\<lambda>is_valid.
     and_then (ensure is_valid ProofVerificationFailed) (\<lambda>_.
     let current = unwrap_or (current_period s) 0 in
     and_then (ok_or (checked_add 64 current 1) NonCanonicalInput) (\<lambda>new_period.
     and_then (fr_to_u64 period_fe) (\<lambda>proof_period_id.
     and_then (ensure (\<not> proof_period_id \<noteq> new_period) ProofVerificationFailed) (\<lambda>_.
     let period_record = \<lparr>pp_commitment_root = root, pp_total_amount = total,
           pp_employee_count = employee_count, pp_proof_verified = True\<rparr>;
         s1 = s\<lparr>pr_period := (pr_period s)(new_period \<mapsto> period_record)\<rparr>;
         s2 = s1\<lparr>root_to_period := (root_to_period s1)(root \<mapsto> new_period)\<rparr> in
     and_then (fold_result store_commitment ipfs_cids (s2, [])) (\<lambda>(s3, ids).
     let s4 = s3\<lparr>period_commitments := (period_commitments s3)(new_period \<mapsto> ids)\<rparr>;
         s5 = s4\<lparr>current_period := Some new_period\<rparr> in
     and_then (fold_result extend_ttl [KPeriod new_period, KRootToPeriod root,
         KPeriodCommitments new_period, KCurrentPeriod, KEmployeeRoot, KBudgetCap] s5) (\<lambda>s6.
     and_then (ok_or (pr_token s6) TokenNotSet) (\<lambda>token.
     and_then (ok_or (pr_admin s6) PNotAuthorized) (\<lambda>admin.
     and_then (token_amount total) (\<lambda>amount.
     and_then (unwrap (transfer_call env token admin (self_address env) amount tokens)) (\<lambda>tokens'.
       Inr (publish (PayrollVerifiedEvent new_period root total employee_count) s6, tokens')))))))))))))))))))))"

section \<open>Withdrawing\<close>

definition mark_nullifier :: "u256 \<Rightarrow> payroll_store \<Rightarrow> payroll_store" where
  "mark_nullifier n s = s\<lparr>withdrawn_nullifier := (withdrawn_nullifier s)(n \<mapsto> True)\<rparr>"

definition is_nullifier_spent :: "payroll_store \<Rightarrow> u256 \<Rightarrow> bool" where
  "is_nullifier_spent s n = unwrap_or (withdrawn_nullifier s n) False"

definition withdraw ::
  "'t host_env \<Rightarrow> groth16_proof \<Rightarrow> u256 list \<Rightarrow> address \<Rightarrow> payroll_store \<times> 't
     \<Rightarrow> (payroll_error, payroll_store \<times> 't) result" where
  "withdraw env proof public_inputs recipient st =
    (case st of (s, tokens) \<Rightarrow>
     and_then (require_auth (auth env) recipient) (\<lambda>_.
     and_then (ok_or (withdraw_verifier s) WithdrawVerifierNotSet) (\<lambda>verifier.
     and_then (unwrap (verify_call env verifier proof public_inputs)) (\<lambda>is_valid.
     and_then (ensure is_valid ProofVerificationFailed) (\<lambda>_.
     and_then (ok_or (nth_opt public_inputs 0) NonCanonicalInput) (\<lambda>commitment_root.
     and_then (ok_or (nth_opt public_inputs 1) NonCanonicalInput) (\<lambda>commitment_id.
     and_then (ok_or (nth_opt public_inputs 2) NonCanonicalInput) (\<lambda>nullifier.
     and_then (ok_or (nth_opt public_inputs 3) NonCanonicalInput) (\<lambda>salary_amount.
     and_then (ok_or (root_to_period s commitment_root) PeriodNotInitialized) (\<lambda>period_id.
     and_then (ensure (commitment_record s commitment_id \<noteq> None) CommitmentNotFound) (\<lambda>_.
     and_then (ensure (\<not> is_nullifier_spent s nullifier) NullifierAlreadySpent) (\<lambda>_.
     and_then (extend_ttl (KWithdrawnNullifier nullifier) (mark_nullifier nullifier s)) (\<lambda>s1.
     and_then (ok_or (pr_token s1) TokenNotSet) (\<lambda>token.
     and_then (token_amount salary_amount) (\<lambda>amount.
     and_then (unwrap (transfer_call env token (self_address env) recipient amount tokens)) (\<lambda>tokens'.
       Inr (publish (WithdrawalEvent nullifier period_id salary_amount recipient) s1, tokens')))))))))))))))))"

section \<open>Queries\<close>

definition get_employee_root :: "payroll_store \<Rightarrow> u256" where
  "get_employee_root s = unwrap_or (employee_root s) 0"

definition get_budget_cap :: "payroll_store \<Rightarrow> u256" where
  "get_budget_cap s = unwrap_or (budget_cap s) 0"

definition get_payroll_period :: "nat \<Rightarrow> payroll_store \<Rightarrow> (u256 \<times> u256 \<times> nat) option" where
  "get_payroll_period p s =
     map_option (\<lambda>r. (pp_commitment_root r, pp_total_amount r, pp_employee_count r)) (pr_period s p)"

definition get_commitment_record :: "u256 \<Rightarrow> payroll_store \<Rightarrow> (u256 \<times> bytes) option" where
  "get_commitment_record c s =
     map_option (\<lambda>r. (cr_commitment_id r, cr_ipfs_cid r)) (commitment_record s c)"

definition get_current_period :: "payroll_store \<Rightarrow> nat" where
  "get_current_period s = unwrap_or (current_period s) 0"

section \<open>The contract as a state machine\<close>

datatype payroll_call =
    SetEmployeeRoot u256
  | SetBudgetCap u256
  | SetToken address
  | SetVerifier address
  | SetWithdrawVerifier address
  | SetViewKeyForAuditor address bytes
  | RevokeAuditor address
  | RunPayroll groth16_proof "u256 list" "(u256 \<times> bytes) list"
  | Withdraw groth16_proof "u256 list" address

definition on_store ::
  "(payroll_store \<Rightarrow> (payroll_error, payroll_store) result) \<Rightarrow> payroll_store \<times> 't
     \<Rightarrow> (payroll_error, payroll_store \<times> 't) result" where
  "on_store f st = and_then (f (fst st)) (\<lambda>s. Inr (s, snd st))"

fun payroll_exec ::
  "'t host_env \<Rightarrow> payroll_call \<Rightarrow> payroll_store \<times> 't \<Rightarrow> (payroll_error, payroll_store \<times> 't) result" where
  "payroll_exec env (SetEmployeeRoot r) st = on_store (set_employee_root (auth env) r) st"
| "payroll_exec env (SetBudgetCap c) st = on_store (set_budget_cap (auth env) c) st"
| "payroll_exec env (SetToken a) st = on_store (set_token (auth env) a) st"
| "payroll_exec env (SetVerifier a) st = on_store (set_verifier (auth env) a) st"
| "payroll_exec env (SetWithdrawVerifier a) st = on_store (set_withdraw_verifier (auth env) a) st"
| "payroll_exec env (SetViewKeyForAuditor a k) st = on_store (set_view_key_for_auditor (auth env) a k) st"
| "payroll_exec env (RevokeAuditor a) st = on_store (revoke_auditor (auth env) a) st"
| "payroll_exec env (RunPayroll p i c) st = run_payroll env p i c st"
| "payroll_exec env (Withdraw p i r) st = withdraw env p i r st"

text \<open>
  A history: successful calls in any order. Each call has its own environment; only the
  contract's address and the token contracts are the same throughout. What the verifiers
  answer and who authorises is up to each call.
\<close>

inductive payroll_history ::
  "address \<Rightarrow> (address \<Rightarrow> address \<Rightarrow> address \<Rightarrow> int \<Rightarrow> 't \<Rightarrow> 't option) \<Rightarrow> payroll_store \<times> 't
     \<Rightarrow> payroll_call list \<Rightarrow> payroll_store \<times> 't \<Rightarrow> bool"
  for self transfer st0 where
  no_calls: "payroll_history self transfer st0 [] st0"
| one_more: "payroll_history self transfer st0 calls st \<Longrightarrow> self_address env = self \<Longrightarrow>
    transfer_call env = transfer \<Longrightarrow> payroll_exec env call st = Inr st' \<Longrightarrow>
    payroll_history self transfer st0 (calls @ [call]) st'"

definition deployed_payroll ::
  "address \<Rightarrow> address \<Rightarrow> address \<Rightarrow> u256 \<Rightarrow> u256 \<Rightarrow> payroll_store" where
  "deployed_payroll admin token verifier root cap =
     payroll_constructor admin token verifier root cap empty_payroll"

section \<open>What the calls do, in one step\<close>

lemma has_key_ttl [simp]: "has_key k (s\<lparr>ttl_log := l\<rparr>) = has_key k s"
  by (cases k) simp_all

lemma extend_ttl_Inr [result_simps]:
  "extend_ttl k s = Inr s' \<longleftrightarrow> has_key k s \<and> s' = s\<lparr>ttl_log := ttl_log s @ [k]\<rparr>"
  by (auto simp: extend_ttl_def)

lemma extend_ttls_Inr:
  "fold_result extend_ttl ks s = Inr s' \<longleftrightarrow>
     list_all (\<lambda>k. has_key k s) ks \<and> s' = s\<lparr>ttl_log := ttl_log s @ ks\<rparr>"
  by (induction ks arbitrary: s) (auto simp: result_simps)

text \<open>The commitments a run adds to the map of commitment records.\<close>

definition add_commitments ::
  "(u256 \<times> bytes) list \<Rightarrow> (u256 \<rightharpoonup> commitment_record) \<Rightarrow> (u256 \<rightharpoonup> commitment_record)" where
  "add_commitments items m =
     fold (\<lambda>(c, cid) m. m(c \<mapsto> \<lparr>cr_commitment_id = c, cr_ipfs_cid = cid\<rparr>)) items m"

lemma add_commitments_simps [simp]:
  "add_commitments [] m = m"
  "add_commitments ((c, cid) # items) m
     = add_commitments items (m(c \<mapsto> \<lparr>cr_commitment_id = c, cr_ipfs_cid = cid\<rparr>))"
  by (simp_all add: add_commitments_def)

lemma dom_add_commitments [simp]: "dom (add_commitments items m) = fst ` set items \<union> dom m"
proof (induction items arbitrary: m)
  case (Cons item items)
  obtain c cid where "item = (c, cid)" by (cases item)
  then show ?case
    by (simp only: add_commitments_simps Cons.IH) (auto simp: domIff)
qed simp

lemma store_commitment_step:
  "store_commitment (c, cid) (s, acc) =
     (if commitment_record s c \<noteq> None then Inl (Err DuplicateCommitment)
      else Inr (s\<lparr>commitment_record := (commitment_record s)
             (c \<mapsto> \<lparr>cr_commitment_id = c, cr_ipfs_cid = cid\<rparr>)\<rparr>, acc @ [c]))"
  by (simp add: store_commitment_def)

lemma store_commitments:
  "fold_result store_commitment items (s, acc) =
     (if distinct (map fst items) \<and> fst ` set items \<inter> dom (commitment_record s) = {}
      then Inr (s\<lparr>commitment_record := add_commitments items (commitment_record s)\<rparr>, acc @ map fst items)
      else Inl (Err DuplicateCommitment))"
proof (induction items arbitrary: s acc)
  case (Cons item items)
  obtain c cid where item: "item = (c, cid)" by (cases item)
  show ?case
  proof (cases "commitment_record s c = None")
    case True
    let ?s = "s\<lparr>commitment_record := (commitment_record s)
        (c \<mapsto> \<lparr>cr_commitment_id = c, cr_ipfs_cid = cid\<rparr>)\<rparr>"
    have dom: "dom (commitment_record ?s) = insert c (dom (commitment_record s))"
      by (rule set_eqI) (simp add: domIff)
    have fresh: "distinct (map fst (item # items)) \<and> fst ` set (item # items) \<inter> dom (commitment_record s) = {}
      \<longleftrightarrow> distinct (map fst items) \<and> fst ` set items \<inter> dom (commitment_record ?s) = {}"
      unfolding dom using True by (auto simp: item domIff)
    have step: "fold_result store_commitment (item # items) (s, acc)
        = fold_result store_commitment items (?s, acc @ [c])"
      using True by (simp add: item store_commitment_step)
    have res: "(?s\<lparr>commitment_record := add_commitments items (commitment_record ?s)\<rparr>, (acc @ [c]) @ map fst items)
        = (s\<lparr>commitment_record := add_commitments (item # items) (commitment_record s)\<rparr>, acc @ map fst (item # items))"
      by (simp add: item)
    show ?thesis unfolding step Cons.IH fresh res by (rule refl)
  next
    case False
    then have "c \<in> dom (commitment_record s)" by (simp add: domIff)
    then have "fst ` set (item # items) \<inter> dom (commitment_record s) \<noteq> {}" by (auto simp: item)
    with False show ?thesis by (simp add: item store_commitment_step)
  qed
qed simp

text \<open>The storage after a successful run, and after a successful withdrawal.\<close>

definition after_run :: "u256 \<Rightarrow> u256 \<Rightarrow> nat \<Rightarrow> (u256 \<times> bytes) list \<Rightarrow> payroll_store \<Rightarrow> payroll_store" where
  "after_run root amount n cids s = publish (PayrollVerifiedEvent n root amount (length cids))
     (s\<lparr>pr_period := (pr_period s)(n \<mapsto> \<lparr>pp_commitment_root = root, pp_total_amount = amount,
            pp_employee_count = length cids, pp_proof_verified = True\<rparr>),
         root_to_period := (root_to_period s)(root \<mapsto> n),
         commitment_record := add_commitments cids (commitment_record s),
         period_commitments := (period_commitments s)(n \<mapsto> map fst cids),
         current_period := Some n,
         ttl_log := ttl_log s @ [KPeriod n, KRootToPeriod root, KPeriodCommitments n,
            KCurrentPeriod, KEmployeeRoot, KBudgetCap]\<rparr>)"

definition after_withdraw :: "u256 \<Rightarrow> nat \<Rightarrow> u256 \<Rightarrow> address \<Rightarrow> payroll_store \<Rightarrow> payroll_store" where
  "after_withdraw nullifier p salary recipient s =
     publish (WithdrawalEvent nullifier p salary recipient)
       ((mark_nullifier nullifier s)\<lparr>ttl_log := ttl_log s @ [KWithdrawnNullifier nullifier]\<rparr>)"

lemma token_amount_Inr [result_simps]:
  "token_amount v = Inr a \<longleftrightarrow> unat v < 2 ^ 127 \<and> a = uint v"
proof (cases "to_u128 v")
  case None
  then have "\<not> unat v < 2 ^ 127" by (simp add: to_u128_None)
  with None show ?thesis by (simp add: token_amount_def)
next
  case (Some x)
  then have "unat x = unat v" by (rule unat_to_u128)
  moreover from this have "uint x = uint v" by (simp only: uint_nat)
  ultimately show ?thesis
    using Some by (auto simp: token_amount_def)
qed

lemma fr_to_u64_Inr [result_simps]: "fr_to_u64 v = Inr n \<longleftrightarrow> n = unat v \<and> unat v < 2 ^ 64"
proof (cases "to_u128 v")
  case None
  then have "\<not> unat v < 2 ^ 64" by (simp add: to_u128_None)
  with None show ?thesis by (simp add: fr_to_u64_def)
next
  case (Some x)
  then have "unat x = unat v" by (rule unat_to_u128)
  with Some show ?thesis by (auto simp: fr_to_u64_def)
qed

lemma require_admin_Inr [result_simps]:
  "require_admin auths s = Inr u \<longleftrightarrow> (\<exists>admin. pr_admin s = Some admin \<and> auths admin)"
  by (auto simp: require_admin_def result_simps)

lemma store_commitments_Inr:
  "fold_result store_commitment items (s, acc) = Inr r \<longleftrightarrow>
     (distinct (map fst items) \<and> fst ` set items \<inter> dom (commitment_record s) = {})
     \<and> r = (s\<lparr>commitment_record := add_commitments items (commitment_record s)\<rparr>, acc @ map fst items)"
  unfolding store_commitments by (simp only: sum.inject sum.distinct split: if_split) blast

lemmas run_simps = and_then_Inr ok_or_Inr ensure_Inr require_admin_Inr require_auth_Inr unwrap_Inr
  nth_opt_Some store_commitments_Inr extend_ttl_Inr extend_ttls_Inr checked_add_Some
  token_amount_Inr fr_to_u64_Inr

definition run_admissible ::
  "'t host_env \<Rightarrow> groth16_proof \<Rightarrow> u256 list \<Rightarrow> (u256 \<times> bytes) list \<Rightarrow> payroll_store \<Rightarrow> bool" where
  "run_admissible env proof inputs cids s \<longleftrightarrow>
     (\<exists>admin cap verifier. pr_admin s = Some admin \<and> auth env admin
      \<and> 3 \<le> length inputs \<and> employee_root s = Some (inputs ! 0)
      \<and> budget_cap s = Some cap \<and> inputs ! 1 \<le> cap \<and> unat (inputs ! 1) < 2 ^ 127
      \<and> pr_verifier s = Some verifier \<and> verify_call env verifier proof inputs = Some True
      \<and> unat (inputs ! 2) = get_current_period s + 1 \<and> get_current_period s + 1 < 2 ^ 64
      \<and> distinct (map fst cids) \<and> fst ` set cids \<inter> dom (commitment_record s) = {})"

lemma run_payroll_inversion:
  assumes "run_payroll env proof inputs cids (s, t) = Inr (s', t')"
  shows "run_admissible env proof inputs cids s
    \<and> s' = after_run (inputs ! 0) (inputs ! 1) (get_current_period s + 1) cids s
    \<and> (\<exists>admin token. pr_admin s = Some admin \<and> pr_token s = Some token
        \<and> transfer_call env token admin (self_address env) (uint (inputs ! 1)) t = Some t')"
  using assms unfolding run_payroll_def Let_def prod.case run_simps
  apply (elim exE conjE)
  apply (simp only: prod.case prod.inject sum.inject run_simps)
  apply (elim exE conjE)
  apply (simp add: get_current_period_def after_run_def publish_def run_admissible_def
      del: fold_result.simps)
  apply (elim exE conjE)
  apply (simp add: not_less)
  done

lemma run_payroll_ok:
  assumes "pr_admin s = Some admin" "auth env admin"
    and "3 \<le> length inputs" and "employee_root s = Some (inputs ! 0)"
    and "budget_cap s = Some cap" "inputs ! 1 \<le> cap"
    and "pr_verifier s = Some verifier" "verify_call env verifier proof inputs = Some True"
    and "unat (inputs ! 2) = get_current_period s + 1" "get_current_period s + 1 < 2 ^ 64"
    and "distinct (map fst cids)" "fst ` set cids \<inter> dom (commitment_record s) = {}"
    and "pr_token s = Some token" "unat (inputs ! 1) < 2 ^ 127"
    and "transfer_call env token admin (self_address env) (uint (inputs ! 1)) t = Some t'"
  shows "run_payroll env proof inputs cids (s, t)
    = Inr (after_run (inputs ! 0) (inputs ! 1) (get_current_period s + 1) cids s, t')"
proof -
  have "nth_opt inputs 0 = Some (inputs ! 0)" "nth_opt inputs 1 = Some (inputs ! 1)"
    "nth_opt inputs 2 = Some (inputs ! 2)"
    by (rule nth_opt_within [OF assms(3)], simp)+
  moreover have "fr_to_u64 (inputs ! 2) = Inr (get_current_period s + 1)"
    using assms(9,10) by (simp only: fr_to_u64_Inr)
  moreover have "token_amount (inputs ! 1) = Inr (uint (inputs ! 1))"
    using assms(14) by (simp only: token_amount_Inr)
  moreover have "checked_add 64 (unwrap_or (current_period s) 0) 1 = Some (get_current_period s + 1)"
    using assms(10) by (simp only: checked_add_Some get_current_period_def)
  moreover have "unwrap_or (current_period s) 0 = get_current_period s" by (simp add: get_current_period_def)
  moreover have "require_admin (auth env) s = Inr ()" using assms by (simp add: require_admin_def)
  ultimately show ?thesis
    using assms
    by (simp add: run_payroll_def Let_def store_commitments extend_ttls_Inr extend_ttl_def
       after_run_def publish_def not_less)
qed

lemma run_payroll_Inr:
  "run_payroll env proof inputs cids (s, t) = Inr (s', t') \<longleftrightarrow>
     run_admissible env proof inputs cids s
   \<and> s' = after_run (inputs ! 0) (inputs ! 1) (get_current_period s + 1) cids s
   \<and> (\<exists>admin token. pr_admin s = Some admin \<and> pr_token s = Some token
        \<and> transfer_call env token admin (self_address env) (uint (inputs ! 1)) t = Some t')"
  (is "?l \<longleftrightarrow> ?r")
proof
  assume ?l
  then show ?r by (rule run_payroll_inversion)
next
  assume ?r
  then show ?l by (auto simp: run_admissible_def run_payroll_ok)
qed

definition withdraw_admissible ::
  "'t host_env \<Rightarrow> groth16_proof \<Rightarrow> u256 list \<Rightarrow> payroll_store \<Rightarrow> bool" where
  "withdraw_admissible env proof inputs s \<longleftrightarrow>
     (\<exists>verifier. withdraw_verifier s = Some verifier
      \<and> verify_call env verifier proof inputs = Some True \<and> 4 \<le> length inputs
      \<and> root_to_period s (inputs ! 0) \<noteq> None \<and> commitment_record s (inputs ! 1) \<noteq> None
      \<and> \<not> is_nullifier_spent s (inputs ! 2) \<and> unat (inputs ! 3) < 2 ^ 127)"

lemma withdraw_inversion:
  assumes "withdraw env proof inputs recipient (s, t) = Inr (s', t')"
  shows "withdraw_admissible env proof inputs s \<and> auth env recipient
    \<and> s' = after_withdraw (inputs ! 2) (the (root_to_period s (inputs ! 0))) (inputs ! 3) recipient s
    \<and> (\<exists>token. pr_token s = Some token
        \<and> transfer_call env token (self_address env) recipient (uint (inputs ! 3)) t = Some t')"
  using assms unfolding withdraw_def Let_def prod.case run_simps
  apply (elim exE conjE)
  apply (simp add: withdraw_admissible_def after_withdraw_def mark_nullifier_def)
  done

lemma withdraw_ok:
  assumes "withdraw_admissible env proof inputs s" "auth env recipient" "pr_token s = Some token"
    and "transfer_call env token (self_address env) recipient (uint (inputs ! 3)) t = Some t'"
  shows "withdraw env proof inputs recipient (s, t)
    = Inr (after_withdraw (inputs ! 2) (the (root_to_period s (inputs ! 0))) (inputs ! 3) recipient s, t')"
proof -
  from assms(1) have len: "4 \<le> length inputs" and small: "unat (inputs ! 3) < 2 ^ 127"
    by (auto simp: withdraw_admissible_def)
  have "nth_opt inputs 0 = Some (inputs ! 0)" "nth_opt inputs 1 = Some (inputs ! 1)"
    "nth_opt inputs 2 = Some (inputs ! 2)" "nth_opt inputs 3 = Some (inputs ! 3)"
    by (rule nth_opt_within [OF len], simp)+
  moreover have "token_amount (inputs ! 3) = Inr (uint (inputs ! 3))"
    using small by (simp only: token_amount_Inr)
  ultimately show ?thesis
    using assms
    by (auto simp: withdraw_def withdraw_admissible_def extend_ttl_def mark_nullifier_def
        after_withdraw_def)
qed

lemma withdraw_Inr:
  "withdraw env proof inputs recipient (s, t) = Inr (s', t') \<longleftrightarrow>
     withdraw_admissible env proof inputs s \<and> auth env recipient
   \<and> s' = after_withdraw (inputs ! 2) (the (root_to_period s (inputs ! 0))) (inputs ! 3) recipient s
   \<and> (\<exists>token. pr_token s = Some token
        \<and> transfer_call env token (self_address env) recipient (uint (inputs ! 3)) t = Some t')"
  (is "?l \<longleftrightarrow> ?r")
proof
  assume ?l
  then show ?r by (rule withdraw_inversion)
next
  assume ?r
  then show ?l by (auto simp: withdraw_ok)
qed

section \<open>The event log and the bookkeeping it mirrors\<close>

fun runs_of :: "payroll_event list \<Rightarrow> (nat \<times> u256 \<times> u256 \<times> nat) list" where
  "runs_of [] = []"
| "runs_of (PayrollVerifiedEvent p root amount n # es) = (p, root, amount, n) # runs_of es"
| "runs_of (_ # es) = runs_of es"

fun withdrawals_of :: "payroll_event list \<Rightarrow> (u256 \<times> nat \<times> u256 \<times> address) list" where
  "withdrawals_of [] = []"
| "withdrawals_of (WithdrawalEvent n p amount r # es) = (n, p, amount, r) # withdrawals_of es"
| "withdrawals_of (_ # es) = withdrawals_of es"

lemma log_append [simp]:
  "runs_of (es @ fs) = runs_of es @ runs_of fs"
  "withdrawals_of (es @ fs) = withdrawals_of es @ withdrawals_of fs"
  by (induction es rule: runs_of.induct) simp_all

text \<open>Everything a payroll run or a withdrawal writes.\<close>

definition ledger where
  "ledger s = (current_period s, pr_period s, period_commitments s, commitment_record s,
     withdrawn_nullifier s, root_to_period s, runs_of (pr_events s), withdrawals_of (pr_events s))"

fun is_setting :: "payroll_call \<Rightarrow> bool" where
  "is_setting (RunPayroll _ _ _) = False"
| "is_setting (Withdraw _ _ _) = False"
| "is_setting _ = True"

lemma setting_keeps_ledger:
  assumes "is_setting call" and "payroll_exec env call (s, t) = Inr (s', t')"
  shows "ledger s' = ledger s \<and> t' = t"
  using assms
  by (cases call)
    (auto simp: on_store_def result_simps set_employee_root_def set_budget_cap_def set_token_def
      set_verifier_def set_withdraw_verifier_def set_view_key_for_auditor_def revoke_auditor_def
      Let_def publish_def ledger_def)

lemma payroll_exec_cases:
  assumes "payroll_exec env call (s, t) = Inr (s', t')"
  obtains
    (setting) "is_setting call" "ledger s' = ledger s" "t' = t"
  | (run) pf inputs cids where "call = RunPayroll pf inputs cids"
      "run_payroll env pf inputs cids (s, t) = Inr (s', t')"
  | (withdrawal) pf inputs recipient where "call = Withdraw pf inputs recipient"
      "withdraw env pf inputs recipient (s, t) = Inr (s', t')"
  using assms setting_keeps_ledger [OF _ assms] by (cases call) auto

interpretation payroll_spent: spent_set is_nullifier_spent mark_nullifier
  by unfold_locales (auto simp: is_nullifier_spent_def mark_nullifier_def)

definition period_of :: "nat \<times> u256 \<times> u256 \<times> nat \<Rightarrow> payroll_period" where
  "period_of r = (case r of (p, root, amount, n) \<Rightarrow>
     \<lparr>pp_commitment_root = root, pp_total_amount = amount, pp_employee_count = n,
      pp_proof_verified = True\<rparr>)"

text \<open>The period of the last run with a given root.\<close>

definition latest_period :: "(nat \<times> u256 \<times> u256 \<times> nat) list \<Rightarrow> u256 \<Rightarrow> nat option" where
  "latest_period runs = map_of (rev (map (\<lambda>(p, root, _, _). (root, p)) runs))"

definition periods_inv :: "payroll_store \<Rightarrow> bool" where
  "periods_inv s \<longleftrightarrow>
     (let runs = runs_of (pr_events s); n = length runs in
      current_period s = Some n
      \<and> map fst runs = [1..<Suc n]
      \<and> pr_period s = (\<lambda>p. if 1 \<le> p \<and> p \<le> n then Some (period_of (runs ! (p - 1))) else None)
      \<and> root_to_period s = latest_period runs)"

definition all_commitments :: "payroll_store \<Rightarrow> u256 list" where
  "all_commitments s =
     concat (map (\<lambda>p. unwrap_or (period_commitments s p) []) [1..<Suc (get_current_period s)])"

definition commitments_inv :: "payroll_store \<Rightarrow> bool" where
  "commitments_inv s \<longleftrightarrow> distinct (all_commitments s)
     \<and> set (all_commitments s) = dom (commitment_record s)
     \<and> dom (period_commitments s) = {1..get_current_period s}"

definition nullifiers_inv :: "payroll_store \<Rightarrow> bool" where
  "nullifiers_inv s \<longleftrightarrow> payroll_spent.spent_log (map fst (withdrawals_of (pr_events s))) s"

lemma after_run_fields:
  "current_period (after_run root amount n cids s) = Some n"
  "pr_period (after_run root amount n cids s) = (pr_period s)(n \<mapsto> period_of (n, root, amount, length cids))"
  "root_to_period (after_run root amount n cids s) = (root_to_period s)(root \<mapsto> n)"
  "commitment_record (after_run root amount n cids s) = add_commitments cids (commitment_record s)"
  "period_commitments (after_run root amount n cids s) = (period_commitments s)(n \<mapsto> map fst cids)"
  "withdrawn_nullifier (after_run root amount n cids s) = withdrawn_nullifier s"
  "pr_events (after_run root amount n cids s) = pr_events s @ [PayrollVerifiedEvent n root amount (length cids)]"
  "pr_token (after_run root amount n cids s) = pr_token s"
  by (simp_all add: after_run_def publish_def period_of_def)

lemma after_withdraw_fields:
  "current_period (after_withdraw n p amount r s) = current_period s"
  "pr_period (after_withdraw n p amount r s) = pr_period s"
  "root_to_period (after_withdraw n p amount r s) = root_to_period s"
  "commitment_record (after_withdraw n p amount r s) = commitment_record s"
  "period_commitments (after_withdraw n p amount r s) = period_commitments s"
  "withdrawn_nullifier (after_withdraw n p amount r s) = (withdrawn_nullifier s)(n \<mapsto> True)"
  "pr_events (after_withdraw n p amount r s) = pr_events s @ [WithdrawalEvent n p amount r]"
  "pr_token (after_withdraw n p amount r s) = pr_token s"
  by (simp_all add: after_withdraw_def publish_def mark_nullifier_def)

lemma periods_inv_cong:
  "ledger s' = ledger s \<Longrightarrow> periods_inv s \<Longrightarrow> periods_inv s'"
  by (simp add: ledger_def periods_inv_def)

lemma commitments_inv_cong:
  "ledger s' = ledger s \<Longrightarrow> commitments_inv s \<Longrightarrow> commitments_inv s'"
  by (simp add: ledger_def commitments_inv_def all_commitments_def get_current_period_def)

lemma nullifiers_inv_cong:
  "ledger s' = ledger s \<Longrightarrow> nullifiers_inv s \<Longrightarrow> nullifiers_inv s'"
  by (simp add: ledger_def nullifiers_inv_def payroll_spent.spent_log_def is_nullifier_spent_def)

lemma periods_inv_period: "periods_inv s \<Longrightarrow> get_current_period s = length (runs_of (pr_events s))"
  by (simp add: periods_inv_def Let_def get_current_period_def)

lemma periods_inv_run:
  assumes "periods_inv s"
  shows "periods_inv (after_run root amount (get_current_period s + 1) cids s)"
proof -
  let ?runs = "runs_of (pr_events s)" and ?n = "length (runs_of (pr_events s))"
  let ?new = "(Suc ?n, root, amount, length cids)"
  from assms have per: "pr_period s = (\<lambda>p. if 1 \<le> p \<and> p \<le> ?n then Some (period_of (?runs ! (p - 1))) else None)"
    and ids: "map fst ?runs = [1..<Suc ?n]" and root: "root_to_period s = latest_period ?runs"
    by (simp_all add: periods_inv_def Let_def del: upt_Suc)
  have "(pr_period s)(Suc ?n \<mapsto> period_of ?new)
      = (\<lambda>p. if 1 \<le> p \<and> p \<le> Suc ?n then Some (period_of ((?runs @ [?new]) ! (p - 1))) else None)"
    unfolding per by (rule ext) (auto simp: nth_append le_Suc_eq Suc_le_eq)
  moreover have "map fst (?runs @ [?new]) = [1..<Suc (Suc ?n)]"
    using ids by simp
  moreover have "(root_to_period s)(root \<mapsto> Suc ?n) = latest_period (?runs @ [?new])"
    unfolding root by (simp add: latest_period_def)
  ultimately show ?thesis
    using periods_inv_period [OF assms]
    by (simp add: periods_inv_def Let_def after_run_fields del: upt_Suc)
qed

lemma periods_inv_withdraw:
  "periods_inv s \<Longrightarrow> periods_inv (after_withdraw n p amount r s)"
  by (simp add: periods_inv_def Let_def after_withdraw_fields)

lemma commitments_inv_run:
  assumes "commitments_inv s" and fresh: "distinct (map fst cids)" "fst ` set cids \<inter> dom (commitment_record s) = {}"
  shows "commitments_inv (after_run root amount (get_current_period s + 1) cids s)"
proof -
  let ?n = "get_current_period s" and ?s' = "after_run root amount (get_current_period s + 1) cids s"
  have same: "map (\<lambda>p. unwrap_or (period_commitments ?s' p) []) [1..<Suc ?n]
      = map (\<lambda>p. unwrap_or (period_commitments s p) []) [1..<Suc ?n]"
    by (simp add: after_run_fields)
  have "get_current_period ?s' = Suc ?n" by (simp add: get_current_period_def after_run_fields)
  moreover have split: "[1..<Suc (Suc ?n)] = [1..<Suc ?n] @ [Suc ?n]" by simp
  moreover have "unwrap_or (period_commitments ?s' (Suc ?n)) [] = map fst cids"
    by (simp add: after_run_fields)
  ultimately have "all_commitments ?s' = all_commitments s @ map fst cids"
    unfolding all_commitments_def
    by (simp only: split map_append same concat_append) simp
  moreover have "dom (period_commitments ?s') = {1..Suc ?n}"
    using assms(1) by (auto simp: commitments_inv_def after_run_fields)
  ultimately show ?thesis
    using assms \<open>get_current_period ?s' = Suc ?n\<close>
    by (auto simp: commitments_inv_def after_run_fields)
qed

lemma commitments_inv_withdraw:
  "commitments_inv s \<Longrightarrow> commitments_inv (after_withdraw n p amount r s)"
  by (simp add: commitments_inv_def all_commitments_def get_current_period_def after_withdraw_fields)

lemma nullifiers_inv_run:
  "nullifiers_inv s \<Longrightarrow> nullifiers_inv (after_run root amount n cids s)"
  by (simp add: nullifiers_inv_def payroll_spent.spent_log_def is_nullifier_spent_def after_run_fields)

lemma nullifiers_inv_withdraw:
  assumes "nullifiers_inv s" and "\<not> is_nullifier_spent s n"
  shows "nullifiers_inv (after_withdraw n p amount r s)"
proof -
  have "payroll_spent.spent_log (map fst (withdrawals_of (pr_events s)) @ [n]) (mark_nullifier n s)"
    using assms by (intro payroll_spent.spent_log_mark) (simp_all add: nullifiers_inv_def)
  moreover have "is_nullifier_spent (after_withdraw n p amount r s) x
      \<longleftrightarrow> is_nullifier_spent (mark_nullifier n s) x" for x
    by (simp add: is_nullifier_spent_def after_withdraw_fields mark_nullifier_def)
  ultimately show ?thesis
    by (simp add: nullifiers_inv_def after_withdraw_fields payroll_spent.spent_log_cong)
qed

definition payroll_inv :: "payroll_store \<Rightarrow> bool" where
  "payroll_inv s \<longleftrightarrow> periods_inv s \<and> commitments_inv s \<and> nullifiers_inv s"

lemma deployed_inv: "payroll_inv (deployed_payroll admin token verifier root cap)"
  by (simp add: payroll_inv_def deployed_payroll_def payroll_constructor_def empty_payroll_def
      periods_inv_def Let_def latest_period_def commitments_inv_def all_commitments_def
      get_current_period_def nullifiers_inv_def payroll_spent.spent_log_def is_nullifier_spent_def)
    auto

lemma payroll_exec_inv:
  assumes "payroll_inv s" and "payroll_exec env call (s, t) = Inr (s', t')"
  shows "payroll_inv s'"
  using assms(2)
proof (cases rule: payroll_exec_cases)
  case setting
  with assms(1) show ?thesis
    by (auto simp: payroll_inv_def intro: periods_inv_cong commitments_inv_cong nullifiers_inv_cong)
next
  case (run pf inputs cids)
  then have adm: "run_admissible env pf inputs cids s"
    and s': "s' = after_run (inputs ! 0) (inputs ! 1) (get_current_period s + 1) cids s"
    by (simp_all add: run_payroll_Inr)
  then have "distinct (map fst cids)" "fst ` set cids \<inter> dom (commitment_record s) = {}"
    by (auto simp: run_admissible_def)
  with assms(1) show ?thesis
    unfolding payroll_inv_def s' by (intro conjI periods_inv_run commitments_inv_run nullifiers_inv_run) simp_all
next
  case (withdrawal pf inputs recipient)
  then have adm: "withdraw_admissible env pf inputs s"
    and s': "s' = after_withdraw (inputs ! 2) (the (root_to_period s (inputs ! 0))) (inputs ! 3) recipient s"
    by (simp_all add: withdraw_Inr)
  then have "\<not> is_nullifier_spent s (inputs ! 2)" by (auto simp: withdraw_admissible_def)
  with assms(1) show ?thesis
    unfolding payroll_inv_def s'
    by (intro conjI periods_inv_withdraw commitments_inv_withdraw nullifiers_inv_withdraw) simp_all
qed

lemma payroll_history_inv:
  "payroll_history self transfer st0 calls st \<Longrightarrow> payroll_inv (fst st0) \<Longrightarrow> payroll_inv (fst st)"
proof (induction rule: payroll_history.induct)
  case (one_more calls st env call st')
  then show ?case using payroll_exec_inv [of "fst st" env call "snd st" "fst st'" "snd st'"] by simp
qed

section \<open>More facts about single calls\<close>

lemma exec_keeps_admin:
  "payroll_exec env call (s, t) = Inr (s', t') \<Longrightarrow> pr_admin s' = pr_admin s"
  by (cases call)
    (auto simp: on_store_def result_simps set_employee_root_def set_budget_cap_def set_token_def
      set_verifier_def set_withdraw_verifier_def set_view_key_for_auditor_def revoke_auditor_def
      Let_def publish_def run_payroll_Inr withdraw_Inr after_run_def after_withdraw_def
      mark_nullifier_def)

lemma exec_keeps_token:
  "payroll_exec env call (s, t) = Inr (s', t') \<Longrightarrow> (\<And>a. call \<noteq> SetToken a) \<Longrightarrow> pr_token s' = pr_token s"
  by (cases call)
    (auto simp: on_store_def result_simps set_employee_root_def set_budget_cap_def
      set_verifier_def set_withdraw_verifier_def set_view_key_for_auditor_def revoke_auditor_def
      Let_def publish_def run_payroll_Inr withdraw_Inr after_run_def after_withdraw_def
      mark_nullifier_def)

lemma setting_needs_admin:
  "is_setting call \<Longrightarrow> payroll_exec env call (s, t) = Inr (s', t') \<Longrightarrow>
   \<exists>admin. pr_admin s = Some admin \<and> auth env admin"
  by (cases call)
    (auto simp: on_store_def result_simps set_employee_root_def set_budget_cap_def set_token_def
      set_verifier_def set_withdraw_verifier_def set_view_key_for_auditor_def revoke_auditor_def)

lemma exec_period_mono:
  assumes "payroll_exec env call (s, t) = Inr (s', t')"
  shows "get_current_period s \<le> get_current_period s'"
  using assms
proof (cases rule: payroll_exec_cases)
  case setting
  then show ?thesis by (simp add: ledger_def get_current_period_def)
next
  case (run pf inputs cids)
  then show ?thesis by (auto simp: run_payroll_Inr get_current_period_def after_run_fields)
next
  case (withdrawal pf inputs recipient)
  then show ?thesis by (auto simp: withdraw_Inr get_current_period_def after_withdraw_fields)
qed

lemma history_period_mono:
  "payroll_history self transfer st0 calls st \<Longrightarrow>
   get_current_period (fst st0) \<le> get_current_period (fst st)"
proof (induction rule: payroll_history.induct)
  case (one_more calls st env call st')
  then show ?case
    using exec_period_mono [of env call "fst st" "snd st" "fst st'" "snd st'"] by simp
qed simp

section \<open>The escrow\<close>

definition paid_in :: "(nat \<times> u256 \<times> u256 \<times> nat) list \<Rightarrow> int" where
  "paid_in runs = sum_list (map (\<lambda>(_, _, amount, _). uint amount) runs)"

definition paid_out :: "address \<Rightarrow> (u256 \<times> nat \<times> u256 \<times> address) list \<Rightarrow> int" where
  "paid_out self ws = sum_list (map (\<lambda>(_, _, amount, r). if r = self then 0 else uint amount) ws)"

lemma paid_append [simp]:
  "paid_in (xs @ ys) = paid_in xs + paid_in ys"
  "paid_out self (us @ vs) = paid_out self us + paid_out self vs"
  by (simp_all add: paid_in_def paid_out_def)

text \<open>What the escrow account of a token holds, less what the event log accounts for.\<close>

definition escrow_gap where
  "escrow_gap balance tok self st =
     balance (snd st) tok self - paid_in (runs_of (pr_events (fst st)))
       + paid_out self (withdrawals_of (pr_events (fst st)))"

lemma exec_escrow:
  assumes laws: "token_laws balance transfer" and tr: "transfer_call env = transfer" "self_address env = self"
    and tok: "pr_token s = Some tok" and admin: "pr_admin s \<noteq> Some self"
    and ok: "payroll_exec env call (s, t) = Inr (s', t')"
  shows "escrow_gap balance tok self (s', t') = escrow_gap balance tok self (s, t)
    \<and> (0 \<le> balance t tok self \<longrightarrow> 0 \<le> balance t' tok self)"
  using ok
proof (cases rule: payroll_exec_cases)
  case setting
  then show ?thesis by (simp add: ledger_def escrow_gap_def)
next
  case (run pf inputs cids)
  then obtain a where a: "pr_admin s = Some a"
    and s': "s' = after_run (inputs ! 0) (inputs ! 1) (get_current_period s + 1) cids s"
    and tran: "transfer tok a self (uint (inputs ! 1)) t = Some t'"
    using tok tr by (auto simp: run_payroll_Inr)
  from laws tran have bal: "balance t' = (\<lambda>k x. balance t k x
      + (if k = tok \<and> x = self then uint (inputs ! 1) else 0) - (if k = tok \<and> x = a then uint (inputs ! 1) else 0))"
    unfolding token_laws_def by blast
  have "a \<noteq> self" using a admin by auto
  then have "balance t' tok self = balance t tok self + uint (inputs ! 1)" by (simp add: bal)
  then show ?thesis by (simp add: escrow_gap_def s' after_run_fields paid_in_def)
next
  case (withdrawal pf inputs recipient)
  then have s': "s' = after_withdraw (inputs ! 2) (the (root_to_period s (inputs ! 0))) (inputs ! 3) recipient s"
    and tran: "transfer tok self recipient (uint (inputs ! 3)) t = Some t'"
    using tok tr by (auto simp: withdraw_Inr)
  from laws tran have bal: "balance t' = (\<lambda>k x. balance t k x
      + (if k = tok \<and> x = recipient then uint (inputs ! 3) else 0) - (if k = tok \<and> x = self then uint (inputs ! 3) else 0))"
    and "0 \<le> balance t' tok self"
    unfolding token_laws_def by blast+
  moreover have "balance t' tok self = balance t tok self
      - (if recipient = self then 0 else uint (inputs ! 3))" by (simp add: bal)
  ultimately show ?thesis by (simp add: escrow_gap_def s' after_withdraw_fields paid_out_def)
qed

lemma history_escrow:
  assumes laws: "token_laws balance transfer"
  shows "payroll_history self transfer st0 calls st \<Longrightarrow>
    pr_token (fst st0) = Some tok \<Longrightarrow> pr_admin (fst st0) \<noteq> Some self \<Longrightarrow>
    list_all (\<lambda>c. \<forall>a. c \<noteq> SetToken a) calls \<Longrightarrow>
    pr_token (fst st) = Some tok \<and> pr_admin (fst st) \<noteq> Some self
    \<and> escrow_gap balance tok self st = escrow_gap balance tok self st0
    \<and> (0 \<le> balance (snd st0) tok self \<longrightarrow> 0 \<le> balance (snd st) tok self)"
proof (induction rule: payroll_history.induct)
  case no_calls
  then show ?case by simp
next
  case (one_more calls st env call st')
  obtain s t s' t' where st: "st = (s, t)" "st' = (s', t')" by (cases st, cases st') auto
  have IH: "pr_token s = Some tok" "pr_admin s \<noteq> Some self"
    "escrow_gap balance tok self (s, t) = escrow_gap balance tok self st0"
    "0 \<le> balance (snd st0) tok self \<longrightarrow> 0 \<le> balance t tok self"
    using one_more.IH one_more.prems st by simp_all
  have exec: "payroll_exec env call (s, t) = Inr (s', t')" and ntok: "\<And>a. call \<noteq> SetToken a"
    using one_more.hyps one_more.prems st by simp_all
  from exec_escrow [OF laws one_more.hyps(3,2) IH(1,2) exec] exec_keeps_admin [OF exec]
    exec_keeps_token [OF exec ntok] IH st show ?case by simp
qed

section \<open>Auditors over a history\<close>

text \<open>
  What the calls on one auditor amount to: the key last granted, and whether it was revoked
  after that. A revocation before any grant fails, so it is not part of a history.
\<close>

fun auditor_step :: "address \<Rightarrow> payroll_call \<Rightarrow> auditor_record option \<Rightarrow> auditor_record option" where
  "auditor_step a (SetViewKeyForAuditor b k) r =
     (if a = b then Some \<lparr>encrypted_view_key = k, revoked = False\<rparr> else r)"
| "auditor_step a (RevokeAuditor b) r = (if a = b then map_option (\<lambda>x. x\<lparr>revoked := True\<rparr>) r else r)"
| "auditor_step a _ r = r"

lemma exec_auditor:
  "payroll_exec env call (s, t) = Inr (s', t') \<Longrightarrow> pr_auditor s' a = auditor_step a call (pr_auditor s a)"
  by (cases call)
    (auto simp: on_store_def result_simps set_employee_root_def set_budget_cap_def set_token_def
      set_verifier_def set_withdraw_verifier_def set_view_key_for_auditor_def revoke_auditor_def
      Let_def publish_def run_payroll_Inr withdraw_Inr after_run_def after_withdraw_def
      mark_nullifier_def)

lemma history_auditor:
  "payroll_history self transfer st0 calls st \<Longrightarrow>
   pr_auditor (fst st) a = fold (auditor_step a) calls (pr_auditor (fst st0) a)"
proof (induction rule: payroll_history.induct)
  case (one_more calls st env call st')
  then show ?case
    using exec_auditor [of env call "fst st" "snd st" "fst st'" "snd st'" a] by simp
qed simp

section \<open>A concrete history\<close>

definition sample_env :: "(address \<Rightarrow> address \<Rightarrow> int) host_env" where
  "sample_env = \<lparr>auth = (\<lambda>a. a \<noteq> ''mallory''), self_address = ''escrow'',
     verify_call = (\<lambda>_ _ _. Some True), transfer_call = table_transfer\<rparr>"

definition sample_proof :: groth16_proof where
  "sample_proof = \<lparr>proof_a = [1], proof_b = [2], proof_c = [3]\<rparr>"

definition sample_store :: payroll_store where
  "sample_store = deployed_payroll ''boss'' ''usdc'' ''verifier'' 9 1000"

definition sample_balances :: "address \<Rightarrow> address \<Rightarrow> int" where
  "sample_balances = (\<lambda>tok a. if tok = ''usdc'' \<and> a = ''boss'' then 500 else 0)"

lemmas sample_defs = sample_env_def sample_proof_def sample_store_def sample_balances_def
  deployed_payroll_def payroll_constructor_def empty_payroll_def

lemma sample_run:
  "\<exists>t. run_payroll sample_env sample_proof [9, 300, 1] [(5, []), (6, [])] (sample_store, sample_balances)
    = Inr (after_run 9 300 1 [(5, []), (6, [])] sample_store, t)
    \<and> t ''usdc'' ''escrow'' = 300 \<and> run_admissible sample_env sample_proof [9, 300, 1] [(5, []), (6, [])] sample_store"
proof -
  have adm: "run_admissible sample_env sample_proof [9, 300, 1] [(5, []), (6, [])] sample_store"
    by (simp add: run_admissible_def sample_defs get_current_period_def)
  have "table_transfer ''usdc'' ''boss'' ''escrow'' 300 sample_balances \<noteq> None"
    by (simp add: table_transfer_def sample_balances_def)
  then obtain t where t: "table_transfer ''usdc'' ''boss'' ''escrow'' 300 sample_balances = Some t"
    by blast
  then have "t ''usdc'' ''escrow'' = 300"
    by (auto simp: table_transfer_def sample_balances_def split: if_splits)
  moreover have "run_payroll sample_env sample_proof [9, 300, 1] [(5, []), (6, [])] (sample_store, sample_balances)
    = Inr (after_run 9 300 1 [(5, []), (6, [])] sample_store, t)"
    using adm t by (simp add: run_payroll_Inr) (simp add: sample_defs get_current_period_def)
  ultimately show ?thesis using adm by blast
qed

lemma sample_history:
  obtains s t where "payroll_history ''escrow'' table_transfer (sample_store, sample_balances)
      [RunPayroll sample_proof [9, 300, 1] [(5, []), (6, [])], SetWithdrawVerifier ''w'',
       Withdraw sample_proof [9, 5, 77, 100] ''alice''] (s, t)"
    and "runs_of (pr_events s) = [(1, 9, 300, 2)]"
    and "withdrawals_of (pr_events s) = [(77, 1, 100, ''alice'')]"
proof -
  obtain t1 where run: "payroll_exec sample_env (RunPayroll sample_proof [9, 300, 1] [(5, []), (6, [])])
      (sample_store, sample_balances) = Inr (after_run 9 300 1 [(5, []), (6, [])] sample_store, t1)"
    and bal: "t1 ''usdc'' ''escrow'' = 300"
    using sample_run by auto
  let ?s1 = "after_run 9 300 1 [(5, []), (6, [])] sample_store"
  let ?s2 = "?s1\<lparr>withdraw_verifier := Some ''w'', ttl_log := ttl_log ?s1 @ [KWithdrawVerifier]\<rparr>"
  have set: "payroll_exec sample_env (SetWithdrawVerifier ''w'') (?s1, t1) = Inr (?s2, t1)"
    by (simp add: on_store_def set_withdraw_verifier_def require_admin_def extend_ttl_def
        after_run_def publish_def sample_defs)
  have adm: "withdraw_admissible sample_env sample_proof [9, 5, 77, 100] ?s2"
    by (simp add: withdraw_admissible_def after_run_def publish_def sample_defs is_nullifier_spent_def)
  have "table_transfer ''usdc'' ''escrow'' ''alice'' 100 t1 \<noteq> None"
    by (simp add: table_transfer_def bal)
  then obtain t2 where "table_transfer ''usdc'' ''escrow'' ''alice'' 100 t1 = Some t2" by blast
  then have wd: "payroll_exec sample_env (Withdraw sample_proof [9, 5, 77, 100] ''alice'') (?s2, t1)
      = Inr (after_withdraw 77 1 100 ''alice'' ?s2, t2)"
    using adm by (simp add: withdraw_Inr) (simp add: after_run_def publish_def sample_defs)
  have "payroll_history ''escrow'' table_transfer (sample_store, sample_balances)
      ((([] @ [RunPayroll sample_proof [9, 300, 1] [(5, []), (6, [])]]) @ [SetWithdrawVerifier ''w''])
        @ [Withdraw sample_proof [9, 5, 77, 100] ''alice'']) (after_withdraw 77 1 100 ''alice'' ?s2, t2)"
    by (rule payroll_history.one_more [OF payroll_history.one_more [OF payroll_history.one_more
          [OF payroll_history.no_calls _ _ run] _ _ set] _ _ wd])
      (simp_all add: sample_env_def)
  then have "payroll_history ''escrow'' table_transfer (sample_store, sample_balances)
      [RunPayroll sample_proof [9, 300, 1] [(5, []), (6, [])], SetWithdrawVerifier ''w'',
       Withdraw sample_proof [9, 5, 77, 100] ''alice''] (after_withdraw 77 1 100 ''alice'' ?s2, t2)"
    by simp
  then show thesis
    by (rule that) (simp_all add: after_withdraw_fields after_run_fields sample_defs)
qed

section \<open>Properties\<close>

text \<open>
  C2: No salary is paid twice. However the calls are interleaved, whoever sends them and
  whatever the verifiers accept, the nullifiers of the withdrawals the contract has paid are
  pairwise different, and \<open>is_nullifier_spent\<close> answers \<open>true\<close> for exactly these.
\<close>

theorem payroll_nullifier_once:
  assumes "payroll_history self transfer (deployed_payroll admin token verifier root cap, t0) calls (s, t)"
  shows "distinct (map fst (withdrawals_of (pr_events s)))
    \<and> (is_nullifier_spent s n \<longleftrightarrow> n \<in> set (map fst (withdrawals_of (pr_events s))))"
proof -
  have "payroll_inv s" using payroll_history_inv [OF assms] deployed_inv by simp
  then show ?thesis by (simp add: payroll_inv_def nullifiers_inv_def payroll_spent.spent_log_def)
qed

theorem payroll_nullifier_once_witness:
  "\<exists>s t calls. payroll_history ''escrow'' table_transfer (sample_store, sample_balances) calls (s, t)
    \<and> length calls = 3 \<and> is_nullifier_spent s 77 \<and> \<not> is_nullifier_spent s 78"
proof -
  obtain s t where h: "payroll_history ''escrow'' table_transfer (sample_store, sample_balances)
      [RunPayroll sample_proof [9, 300, 1] [(5, []), (6, [])], SetWithdrawVerifier ''w'',
       Withdraw sample_proof [9, 5, 77, 100] ''alice''] (s, t)"
    and w: "withdrawals_of (pr_events s) = [(77, 1, 100, ''alice'')]"
    by (rule sample_history)
  from payroll_nullifier_once [OF h [unfolded sample_store_def], of 77]
    payroll_nullifier_once [OF h [unfolded sample_store_def], of 78] h w show ?thesis
    by (intro exI [of _ s] exI [of _ t]
        exI [of _ "[RunPayroll sample_proof [9, 300, 1] [(5, []), (6, [])], SetWithdrawVerifier ''w'',
       Withdraw sample_proof [9, 5, 77, 100] ''alice'']"]) simp
qed

text \<open>
  C10: The escrow is conserved. Over any history in which the administrator does not exchange
  the token, what the contract holds of that token is what it held before plus the totals of
  the payroll runs minus the salaries paid out to others, and it never becomes negative: the
  salaries paid can never exceed what the runs and the initial balance brought in.
\<close>

theorem payroll_escrow_conserved:
  assumes "token_laws balance transfer"
    and "payroll_history self transfer (deployed_payroll admin token verifier root cap, t0) calls (s, t)"
    and "admin \<noteq> self" and "list_all (\<lambda>c. \<forall>a. c \<noteq> SetToken a) calls" and "0 \<le> balance t0 token self"
  shows "balance t token self = balance t0 token self + paid_in (runs_of (pr_events s))
      - paid_out self (withdrawals_of (pr_events s))
    \<and> paid_out self (withdrawals_of (pr_events s)) \<le> balance t0 token self + paid_in (runs_of (pr_events s))"
proof -
  have "pr_token (deployed_payroll admin token verifier root cap) = Some token"
    and "pr_admin (deployed_payroll admin token verifier root cap) = Some admin"
    and "pr_events (deployed_payroll admin token verifier root cap) = []"
    by (simp_all add: deployed_payroll_def payroll_constructor_def empty_payroll_def)
  with history_escrow [OF assms(1,2), of token] assms(3-5) show ?thesis
    by (simp add: escrow_gap_def paid_in_def paid_out_def)
qed

theorem payroll_escrow_conserved_witness:
  "\<exists>s t calls. payroll_history ''escrow'' table_transfer (sample_store, sample_balances) calls (s, t)
    \<and> t ''usdc'' ''escrow'' = 200"
proof -
  obtain s t where h: "payroll_history ''escrow'' table_transfer (sample_store, sample_balances)
      [RunPayroll sample_proof [9, 300, 1] [(5, []), (6, [])], SetWithdrawVerifier ''w'',
       Withdraw sample_proof [9, 5, 77, 100] ''alice''] (s, t)"
    and "runs_of (pr_events s) = [(1, 9, 300, 2)]"
    and "withdrawals_of (pr_events s) = [(77, 1, 100, ''alice'')]"
    by (rule sample_history)
  with payroll_escrow_conserved [OF table_token_laws h [unfolded sample_store_def]] show ?thesis
    by (auto simp: sample_balances_def paid_in_def paid_out_def)
qed

text \<open>
  C12: \<open>run_payroll\<close>, on every branch: it succeeds exactly when the administrator authorised it,
  the three public inputs are the stored employee root, an amount within the budget cap that
  fits the token's integer, and the next period number, the verifier accepted the proof, the
  commitment ids are new and pairwise different, and the token transfer from the administrator
  to the contract goes through. Its effect is then one period record, one root entry, the
  commitment records, the counter and the event.
\<close>

theorem run_payroll_success_iff:
  "run_payroll env pf inputs cids (s, t) = Inr (s', t') \<longleftrightarrow>
     run_admissible env pf inputs cids s
   \<and> s' = after_run (inputs ! 0) (inputs ! 1) (get_current_period s + 1) cids s
   \<and> (\<exists>admin token. pr_admin s = Some admin \<and> pr_token s = Some token
        \<and> transfer_call env token admin (self_address env) (uint (inputs ! 1)) t = Some t')"
  by (rule run_payroll_Inr)

text \<open>
  A payroll proof is good for one run. Once a run with some public inputs has succeeded, no
  later call with the same public inputs succeeds, after any further history, with any proof,
  any commitments and any verifier answer.
\<close>

theorem payroll_run_not_replayable:
  assumes "run_payroll env pf inputs cids (s, t) = Inr (s', t')"
    and "payroll_history self transfer (s', t') calls (s'', t'')"
  shows "\<not> is_ok (run_payroll env' pf' inputs cids' (s'', t''))"
proof
  assume "is_ok (run_payroll env' pf' inputs cids' (s'', t''))"
  then obtain s3 t3 where "run_payroll env' pf' inputs cids' (s'', t'') = Inr (s3, t3)"
    by (auto simp: is_ok_iff)
  then have "unat (inputs ! 2) = get_current_period s'' + 1"
    by (auto simp: run_payroll_Inr run_admissible_def)
  moreover from assms(1) have "unat (inputs ! 2) = get_current_period s + 1"
    and "get_current_period s' = get_current_period s + 1"
    by (auto simp: run_payroll_Inr run_admissible_def get_current_period_def after_run_fields)
  moreover have "get_current_period s' \<le> get_current_period s''"
    using history_period_mono [OF assms(2)] by simp
  ultimately show False by simp
qed

theorem payroll_run_not_replayable_witness:
  "\<exists>s t. run_payroll sample_env sample_proof [9, 300, 1] [(5, []), (6, [])] (sample_store, sample_balances)
      = Inr (s, t)
    \<and> \<not> is_ok (run_payroll sample_env sample_proof [9, 300, 1] [(7, [])] (s, t))"
proof -
  obtain t where r: "run_payroll sample_env sample_proof [9, 300, 1] [(5, []), (6, [])]
      (sample_store, sample_balances) = Inr (after_run 9 300 1 [(5, []), (6, [])] sample_store, t)"
    using sample_run by blast
  from payroll_run_not_replayable [OF r payroll_history.no_calls] r show ?thesis by blast
qed

text \<open>
  The period records are the log of the runs. In every reachable state the periods recorded
  are exactly \<open>1\<close> up to the current period, period \<open>p\<close> holds what the \<open>p\<close>-th successful run
  proved, and a root is mapped to the last period that used it.
\<close>

theorem payroll_periods_follow_runs:
  assumes "payroll_history self transfer (deployed_payroll admin token verifier root cap, t0) calls (s, t)"
  shows "get_current_period s = length (runs_of (pr_events s))
    \<and> map fst (runs_of (pr_events s)) = [1..<Suc (get_current_period s)]
    \<and> get_payroll_period p s = (if 1 \<le> p \<and> p \<le> get_current_period s
        then Some (snd (runs_of (pr_events s) ! (p - 1))) else None)
    \<and> root_to_period s r = latest_period (runs_of (pr_events s)) r"
proof -
  have inv: "periods_inv s" using payroll_history_inv [OF assms] deployed_inv by (simp add: payroll_inv_def)
  then show ?thesis
    using periods_inv_period [OF inv]
    by (simp add: periods_inv_def Let_def get_payroll_period_def period_of_def split_beta del: upt_Suc)
qed

theorem payroll_periods_follow_runs_witness:
  "\<exists>s t calls. payroll_history ''escrow'' table_transfer (sample_store, sample_balances) calls (s, t)
    \<and> get_payroll_period 1 s = Some (9, 300, 2) \<and> get_payroll_period 2 s = None"
proof -
  obtain s t where h: "payroll_history ''escrow'' table_transfer (sample_store, sample_balances)
      [RunPayroll sample_proof [9, 300, 1] [(5, []), (6, [])], SetWithdrawVerifier ''w'',
       Withdraw sample_proof [9, 5, 77, 100] ''alice''] (s, t)"
    and r: "runs_of (pr_events s) = [(1, 9, 300, 2)]"
    by (rule sample_history)
  from payroll_periods_follow_runs [OF h [unfolded sample_store_def], of 1 0]
    payroll_periods_follow_runs [OF h [unfolded sample_store_def], of 2 0] r
  have "get_payroll_period 1 s = Some (9, 300, 2)" "get_payroll_period 2 s = None"
    by simp_all
  with h show ?thesis by blast
qed

text \<open>
  Commitments belong to exactly one period. In every reachable state the commitment lists of
  the periods are duplicate-free and disjoint from each other, together they are exactly the
  ids that have a commitment record, and only past periods have a list.
\<close>

theorem payroll_commitments_partition:
  assumes "payroll_history self transfer (deployed_payroll admin token verifier root cap, t0) calls (s, t)"
  shows "distinct (all_commitments s)
    \<and> (get_commitment_record c s \<noteq> None \<longleftrightarrow> c \<in> set (all_commitments s))
    \<and> (period_commitments s p \<noteq> None \<longleftrightarrow> 1 \<le> p \<and> p \<le> get_current_period s)"
proof -
  have "commitments_inv s" using payroll_history_inv [OF assms] deployed_inv by (simp add: payroll_inv_def)
  then have "distinct (all_commitments s)" and recs: "set (all_commitments s) = dom (commitment_record s)"
    and pers: "dom (period_commitments s) = {1..get_current_period s}"
    by (simp_all add: commitments_inv_def)
  moreover have "get_commitment_record c s \<noteq> None \<longleftrightarrow> c \<in> dom (commitment_record s)"
    by (simp add: get_commitment_record_def domIff)
  moreover have "period_commitments s p \<noteq> None \<longleftrightarrow> p \<in> dom (period_commitments s)"
    by (simp add: domIff)
  ultimately show ?thesis by simp
qed

theorem payroll_commitments_partition_witness:
  "\<exists>s t calls. payroll_history ''escrow'' table_transfer (sample_store, sample_balances) calls (s, t)
    \<and> length calls = 3 \<and> distinct (all_commitments s) \<and> period_commitments s 2 = None"
proof -
  obtain s t where h: "payroll_history ''escrow'' table_transfer (sample_store, sample_balances)
      [RunPayroll sample_proof [9, 300, 1] [(5, []), (6, [])], SetWithdrawVerifier ''w'',
       Withdraw sample_proof [9, 5, 77, 100] ''alice''] (s, t)"
    and r: "runs_of (pr_events s) = [(1, 9, 300, 2)]"
    by (rule sample_history)
  have "get_current_period s = 1"
    using payroll_history_inv [OF h] deployed_inv r
    by (simp add: sample_store_def payroll_inv_def periods_inv_period)
  with payroll_commitments_partition [OF h [unfolded sample_store_def], where p = 2] h show ?thesis
    by (intro exI [of _ s] exI [of _ t]
        exI [of _ "[RunPayroll sample_proof [9, 300, 1] [(5, []), (6, [])], SetWithdrawVerifier ''w'',
       Withdraw sample_proof [9, 5, 77, 100] ''alice'']"]) simp
qed

text \<open>
  A withdrawal proof does not say who is paid. If a withdrawal to one recipient succeeds,
  then so does the same proof with the same public inputs for any other recipient that
  authorises the call, provided the token accepts the transfer, and that recipient gets the
  salary.
\<close>

theorem withdraw_recipient_unbound:
  assumes "is_ok (withdraw env pf inputs alice (s, t))" and "auth env mallory"
    and "pr_token s = Some token"
    and "transfer_call env token (self_address env) mallory (uint (inputs ! 3)) t = Some t'"
  shows "\<exists>s'. withdraw env pf inputs mallory (s, t) = Inr (s', t')
    \<and> withdrawals_of (pr_events s') = withdrawals_of (pr_events s)
        @ [(inputs ! 2, the (root_to_period s (inputs ! 0)), inputs ! 3, mallory)]"
proof -
  from assms(1) have adm: "withdraw_admissible env pf inputs s"
    by (auto simp: is_ok_iff withdraw_Inr)
  from withdraw_ok [OF adm assms(2-4)] show ?thesis by (simp add: after_withdraw_fields)
qed

theorem withdraw_recipient_unbound_witness:
  "\<exists>s t. is_ok (withdraw sample_env sample_proof [9, 5, 77, 100] ''alice'' (s, t))
    \<and> is_ok (withdraw sample_env sample_proof [9, 5, 77, 100] ''eve'' (s, t))"
proof -
  let ?s = "(after_run 9 300 1 [(5, [])] sample_store)\<lparr>withdraw_verifier := Some ''w''\<rparr>"
  let ?t = "\<lambda>tok a. if tok = ''usdc'' \<and> a = ''escrow'' then 300 else (0::int)"
  have adm: "withdraw_admissible sample_env sample_proof [9, 5, 77, 100] ?s"
    by (simp add: withdraw_admissible_def after_run_def publish_def sample_defs is_nullifier_spent_def)
  have tok: "pr_token ?s = Some ''usdc''" by (simp add: after_run_def publish_def sample_defs)
  have pay: "\<exists>t'. transfer_call sample_env ''usdc'' (self_address sample_env) r
      (uint ([9, 5, 77, 100 :: u256] ! 3)) ?t = Some t'" for r
    by (simp add: sample_env_def table_transfer_def)
  have alice: "is_ok (withdraw sample_env sample_proof [9, 5, 77, 100] ''alice'' (?s, ?t))"
    using withdraw_ok [OF adm _ tok] pay [of "''alice''"] by (auto simp: is_ok_iff sample_env_def)
  obtain t' where "transfer_call sample_env ''usdc'' (self_address sample_env) ''eve''
      (uint ([9, 5, 77, 100 :: u256] ! 3)) ?t = Some t'" using pay by blast
  from withdraw_recipient_unbound [OF alice _ tok this] alice show ?thesis
    by (auto simp: is_ok_iff sample_env_def)
qed

text \<open>
  C34: Who may change what. Every successful call other than a withdrawal carries the stored
  administrator's authorisation, a successful withdrawal carries its recipient's, and no call
  changes the administrator.
\<close>

theorem payroll_calls_authorised:
  assumes "payroll_exec env call (s, t) = Inr (s', t')"
  shows "(case call of Withdraw pf inputs recipient \<Rightarrow> auth env recipient
          | _ \<Rightarrow> (\<exists>admin. pr_admin s = Some admin \<and> auth env admin))
    \<and> pr_admin s' = pr_admin s"
proof -
  note setting_needs_admin [OF _ assms] exec_keeps_admin [OF assms]
  moreover have "call = RunPayroll pf i c \<Longrightarrow> \<exists>admin. pr_admin s = Some admin \<and> auth env admin" for pf i c
    using assms by (auto simp: run_payroll_Inr run_admissible_def)
  moreover have "call = Withdraw pf i r \<Longrightarrow> auth env r" for pf i r
    using assms by (simp add: withdraw_Inr)
  ultimately show ?thesis by (cases call) simp_all
qed

theorem payroll_calls_authorised_witness:
  "\<exists>s' t'. payroll_exec sample_env (SetBudgetCap 5) (sample_store, sample_balances) = Inr (s', t')
    \<and> auth sample_env ''boss'' \<and> pr_admin s' = Some ''boss''"
proof -
  have "is_ok (payroll_exec sample_env (SetBudgetCap 5) (sample_store, sample_balances))"
    by (simp add: on_store_def set_budget_cap_def require_admin_def extend_ttl_def sample_defs)
  then obtain s' t' where ok: "payroll_exec sample_env (SetBudgetCap 5) (sample_store, sample_balances) = Inr (s', t')"
    by (auto simp: is_ok_iff)
  from payroll_calls_authorised [OF ok] ok show ?thesis
    by (auto simp: sample_store_def deployed_payroll_def payroll_constructor_def)
qed

text \<open>
  What an auditor sees. After any history the answers of \<open>get_view_key\<close> and \<open>is_auditor\<close>
  are decided by the calls on that auditor alone: the last key granted while no revocation
  followed it, \<open>AuditorRevoked\<close> after a revocation until the next grant, and
  \<open>AuditorNotFound\<close> when none was ever granted.
\<close>

theorem auditor_access_follows_calls:
  assumes "payroll_history self transfer (deployed_payroll admin token verifier root cap, t0) calls (s, t)"
  shows "get_view_key a s =
      (case fold (auditor_step a) calls None of
         None \<Rightarrow> Inl (Err AuditorNotFound)
       | Some r \<Rightarrow> if revoked r then Inl (Err AuditorRevoked) else Inr (encrypted_view_key r))
    \<and> is_auditor a s = is_ok (get_view_key a s)"
proof -
  have "pr_auditor s a = fold (auditor_step a) calls None"
    using history_auditor [OF assms, of a]
    by (simp add: deployed_payroll_def payroll_constructor_def empty_payroll_def)
  then show ?thesis
    by (simp add: get_view_key_def is_auditor_def split: option.splits)
qed

theorem auditor_access_follows_calls_witness:
  "\<exists>s t. payroll_history ''escrow'' table_transfer (sample_store, sample_balances)
      [SetViewKeyForAuditor ''kpmg'' [1, 2]] (s, t) \<and> get_view_key ''kpmg'' s = Inr [1, 2]
      \<and> get_view_key ''other'' s = Inl (Err AuditorNotFound)"
proof -
  have "is_ok (payroll_exec sample_env (SetViewKeyForAuditor ''kpmg'' [1, 2]) (sample_store, sample_balances))"
    by (simp add: on_store_def set_view_key_for_auditor_def require_admin_def extend_ttl_def sample_defs)
  then obtain s t where "payroll_exec sample_env (SetViewKeyForAuditor ''kpmg'' [1, 2])
      (sample_store, sample_balances) = Inr (s, t)"
    by (auto simp: is_ok_iff)
  from payroll_history.one_more [OF payroll_history.no_calls _ _ this, of "''escrow''" table_transfer]
  have h: "payroll_history ''escrow'' table_transfer (sample_store, sample_balances)
      [SetViewKeyForAuditor ''kpmg'' [1, 2]] (s, t)" by (simp add: sample_env_def)
  from auditor_access_follows_calls [OF h [unfolded sample_store_def], of "''kpmg''"]
    auditor_access_follows_calls [OF h [unfolded sample_store_def], of "''other''"] h show ?thesis
    by auto
qed

end
