(* ===== verification/Pool.thy ===== *)
theory Pool
  imports PoolMerkle ContractTypes HostInt
begin

text \<open>
  The privacy pool contract (\<open>contracts/pool/src/pool.rs\<close>).

  \<open>pool_store\<close> holds the contract's persistent entries, with the commitment tree of
  \<open>PoolMerkle\<close>; the token contracts are the abstract second component of a handler's state.
  A signed 256-bit host integer (\<open>I256\<close>) is a 256-bit word read with \<^const>\<open>sint\<close>. Since the
  root lookup is a loop, a transaction returns an option: \<open>None\<close> would be a run that never
  ends.
\<close>

section \<open>State\<close>

datatype pool_error =
    PoolNotAuthorized
  | PoolMerkleTreeFull
  | PoolAlreadyInitialized
  | PoolWrongLevels
  | PoolNextIndexNotEven
  | WrongExtAmount
  | PoolInvalidProof
  | UnknownRoot
  | AlreadySpentNullifier
  | WrongExtHash
  | PoolNotInitialized
  | PoolOverflow
  | NonCanonicalPublicInput

fun from_merkle_error :: "merkle_error \<Rightarrow> pool_error" where
  "from_merkle_error MerkleAlreadyInitialized = PoolAlreadyInitialized"
| "from_merkle_error MerkleTreeFull = PoolMerkleTreeFull"
| "from_merkle_error MerkleWrongLevels = PoolWrongLevels"
| "from_merkle_error MerkleNextIndexNotEven = PoolNextIndexNotEven"
| "from_merkle_error MerkleNotInitialized = PoolNotInitialized"
| "from_merkle_error MerkleOverflow = PoolOverflow"

record pool_proof =
  groth16 :: groth16_proof
  pf_root :: u256
  input_nullifiers :: "u256 list"
  output_commitment0 :: u256
  output_commitment1 :: u256
  public_amount :: u256
  ext_data_hash :: "nat list"
  asp_membership_root :: u256
  asp_non_membership_root :: u256

record ext_data =
  recipient :: address
  ext_amount :: i256
  encrypted_output0 :: bytes
  encrypted_output1 :: bytes

datatype pool_event =
    NewCommitmentEvent u256 nat bytes
  | NewNullifierEvent u256

record pool_store =
  p_admin :: "address option"
  p_token :: "address option"
  p_verifier :: "address option"
  maximum_deposit_amount :: "u256 option"
  nullifiers :: "(u256 \<rightharpoonup> bool) option"
  asp_membership :: "address option"
  asp_non_membership :: "address option"
  p_tree :: merkle_store
  p_events :: "pool_event list"

definition empty_pool :: pool_store where
  "empty_pool = \<lparr>p_admin = None, p_token = None, p_verifier = None, maximum_deposit_amount = None,
     nullifiers = None, asp_membership = None, asp_non_membership = None,
     p_tree = empty_merkle_store, p_events = []\<rparr>"

text \<open>
  The environment of an invocation: besides the calls every contract makes, the roots the two
  provider contracts answer, the XDR serialisation and Keccak-256 of the host, and its
  Poseidon2 permutation.
\<close>

record 't pool_env = "'t host_env" +
  membership_root_call :: "address \<Rightarrow> u256 option"
  non_membership_root_call :: "address \<Rightarrow> u256 option"
  to_xdr :: "ext_data \<Rightarrow> nat list"
  keccak256 :: "nat list \<Rightarrow> nat list"
  poseidon2 :: poseidon2_host

section \<open>Constructor\<close>

definition pool_constructor ::
  "address \<Rightarrow> address \<Rightarrow> address \<Rightarrow> address \<Rightarrow> address \<Rightarrow> u256 \<Rightarrow> nat \<Rightarrow> pool_store
     \<Rightarrow> (pool_error, pool_store) result" where
  "pool_constructor admin token verifier asp_m asp_nm max_deposit levels s =
     (let s1 = s\<lparr>p_admin := Some admin, p_token := Some token, p_verifier := Some verifier,
           asp_membership := Some asp_m, asp_non_membership := Some asp_nm,
           maximum_deposit_amount := Some max_deposit, nullifiers := Some Map.empty\<rparr> in
      and_then (map_err from_merkle_error (init levels (p_tree s1))) (\<lambda>tree.
        Inr (s1\<lparr>p_tree := tree\<rparr>)))"

section \<open>Amounts\<close>

definition max_ext_amount :: u256 where
  "max_ext_amount = word_of_nat (0x0100000000000000 * 2 ^ 192)"

definition i256_to_i128_nonneg :: "i256 \<Rightarrow> (pool_error, int) result" where
  "i256_to_i128_nonneg v =
     (if sint v < 0 then Inl (Err WrongExtAmount) else ok_or (i256_to_i128 v) WrongExtAmount)"

text \<open>\<open>U256::from_be_bytes(v.to_be_bytes())\<close> reads the same 256 bits without a sign.\<close>

definition i256_abs_to_u256 :: "i256 \<Rightarrow> (pool_error, u256) result" where
  "i256_abs_to_u256 v = (if 0 \<le> sint v then Inr v else unwrap (i256_sub 0 v))"

definition calculate_public_amount :: "i256 \<Rightarrow> (pool_error, u256) result" where
  "calculate_public_amount v =
     and_then (i256_abs_to_u256 v) (\<lambda>abs_ext.
       if max_ext_amount \<le> abs_ext then Inl (Err WrongExtAmount)
       else if 0 \<le> sint v then Inr v
       else and_then (unwrap (i256_sub 0 v)) (\<lambda>neg. unwrap (u256_sub bn256_modulus neg)))"

section \<open>Nullifiers\<close>

definition get_nullifiers :: "pool_store \<Rightarrow> (pool_error, u256 \<rightharpoonup> bool) result" where
  "get_nullifiers s = ok_or (nullifiers s) PoolNotInitialized"

definition is_spent :: "pool_store \<Rightarrow> u256 \<Rightarrow> (pool_error, bool) result" where
  "is_spent s n = and_then (get_nullifiers s) (\<lambda>nulls. Inr (unwrap_or (nulls n) False))"

definition mark_spent :: "u256 \<Rightarrow> pool_store \<Rightarrow> (pool_error, pool_store) result" where
  "mark_spent n s =
     and_then (get_nullifiers s) (\<lambda>nulls. Inr (s\<lparr>nullifiers := Some (nulls(n \<mapsto> True))\<rparr>))"

section \<open>Proof verification\<close>

definition validate_bn256_public_input :: "u256 \<Rightarrow> u256 \<Rightarrow> (pool_error, unit) result" where
  "validate_bn256_public_input v modulus = ensure (\<not> modulus \<le> v) NonCanonicalPublicInput"

definition validate_bn256_public_inputs :: "pool_proof \<Rightarrow> u256 \<Rightarrow> (pool_error, unit) result" where
  "validate_bn256_public_inputs p modulus =
     and_then (validate_bn256_public_input (pf_root p) modulus) (\<lambda>_.
     and_then (validate_bn256_public_input (public_amount p) modulus) (\<lambda>_.
     and_then (fold_result (\<lambda>n _. validate_bn256_public_input n modulus) (input_nullifiers p) ()) (\<lambda>_.
     and_then (validate_bn256_public_input (output_commitment0 p) modulus) (\<lambda>_.
     and_then (validate_bn256_public_input (output_commitment1 p) modulus) (\<lambda>_.
     and_then (validate_bn256_public_input (asp_membership_root p) modulus) (\<lambda>_.
       validate_bn256_public_input (asp_non_membership_root p) modulus))))))"

definition u256_to_bytes :: "u256 \<Rightarrow> nat list" where
  "u256_to_bytes v = to_be_bytes v"

text \<open>\<open>Bn254Fr::from_bytes\<close>, which expects the big-endian bytes of a field element.\<close>

definition fr_from_bytes :: "nat list \<Rightarrow> u256" where
  "fr_from_bytes bs = from_be_bytes bs"

definition public_inputs_of :: "pool_proof \<Rightarrow> u256 list" where
  "public_inputs_of p =
     [fr_from_bytes (u256_to_bytes (pf_root p)), fr_from_bytes (u256_to_bytes (public_amount p)),
      fr_from_bytes (ext_data_hash p)]
     @ map (\<lambda>n. fr_from_bytes (u256_to_bytes n)) (input_nullifiers p)
     @ [fr_from_bytes (u256_to_bytes (output_commitment0 p)),
        fr_from_bytes (u256_to_bytes (output_commitment1 p))]
     @ map (\<lambda>_. fr_from_bytes (u256_to_bytes (asp_membership_root p))) (input_nullifiers p)
     @ map (\<lambda>_. fr_from_bytes (u256_to_bytes (asp_non_membership_root p))) (input_nullifiers p)"

definition verify_proof :: "'t pool_env \<Rightarrow> pool_proof \<Rightarrow> pool_store \<Rightarrow> (pool_error, bool) result" where
  "verify_proof env p s =
     (if proof_is_empty (groth16 p) then Inl (Err PoolInvalidProof)
      else and_then (ok_or (p_verifier s) PoolNotInitialized) (\<lambda>verifier.
           and_then (validate_bn256_public_inputs p bn256_modulus) (\<lambda>_.
             unwrap (verify_call env verifier (groth16 p) (public_inputs_of p)))))"

definition hash_ext_data :: "'t pool_env \<Rightarrow> ext_data \<Rightarrow> nat list" where
  "hash_ext_data env ext =
     (let payload = to_xdr env ext;
          digest = keccak256 env payload;
          digest_u256 = from_be_bytes digest;
          reduced = digest_u256 mod bn256_modulus
      in to_be_bytes reduced)"

definition get_asp_membership_root :: "'t pool_env \<Rightarrow> pool_store \<Rightarrow> (pool_error, u256) result" where
  "get_asp_membership_root env s =
     and_then (ok_or (asp_membership s) PoolNotInitialized) (\<lambda>a. unwrap (membership_root_call env a))"

definition get_asp_non_membership_root :: "'t pool_env \<Rightarrow> pool_store \<Rightarrow> (pool_error, u256) result" where
  "get_asp_non_membership_root env s =
     and_then (ok_or (asp_non_membership s) PoolNotInitialized) (\<lambda>a. unwrap (non_membership_root_call env a))"

section \<open>Transactions\<close>

definition pool_publish :: "pool_event \<Rightarrow> pool_store \<Rightarrow> pool_store" where
  "pool_publish e s = s\<lparr>p_events := p_events s @ [e]\<rparr>"

definition check_unspent :: "pool_store \<Rightarrow> u256 \<Rightarrow> unit \<Rightarrow> (pool_error, unit) result" where
  "check_unspent s n _ =
     and_then (is_spent s n) (\<lambda>spent. ensure (\<not> spent) AlreadySpentNullifier)"

text \<open>Step 6: the result of \<open>mark_spent\<close> is dropped, so a failure would leave the map as it is.\<close>

definition spend_one :: "u256 \<Rightarrow> pool_store \<Rightarrow> pool_store" where
  "spend_one n s =
     pool_publish (NewNullifierEvent n) (case mark_spent n s of Inl _ \<Rightarrow> s | Inr s' \<Rightarrow> s')"

text \<open>Step 7: the token client, and the transfer of a withdrawal.\<close>

definition pay_withdrawal ::
  "'t pool_env \<Rightarrow> ext_data \<Rightarrow> pool_store \<Rightarrow> 't \<Rightarrow> (pool_error, 't) result" where
  "pay_withdrawal env ext s tokens =
     and_then (ok_or (p_token s) PoolNotInitialized) (\<lambda>token.
       if sint (ext_amount ext) < 0 then
         and_then (unwrap (i256_sub 0 (ext_amount ext))) (\<lambda>absolute.
         and_then (i256_to_i128_nonneg absolute) (\<lambda>amount.
           unwrap (transfer_call env token (self_address env) (recipient ext) amount tokens)))
       else Inr tokens)"

definition internal_transact ::
  "'t pool_env \<Rightarrow> pool_proof \<Rightarrow> ext_data \<Rightarrow> pool_store \<times> 't
     \<Rightarrow> (pool_error, pool_store \<times> 't) result option" where
  "internal_transact env p ext st =
    (case st of (s, tokens) \<Rightarrow>
     map_option (\<lambda>known_root.
       and_then (map_err from_merkle_error known_root) (\<lambda>known.
       and_then (ensure known UnknownRoot) (\<lambda>_.
       and_then (fold_result (check_unspent s) (input_nullifiers p) ()) (\<lambda>_.
       and_then (ensure (\<not> hash_ext_data env ext \<noteq> ext_data_hash p) WrongExtHash) (\<lambda>_.
       and_then (calculate_public_amount (ext_amount ext)) (\<lambda>expected_public_amount.
       and_then (ensure (\<not> public_amount p \<noteq> expected_public_amount) WrongExtAmount) (\<lambda>_.
       and_then (get_asp_membership_root env s) (\<lambda>member_root.
       and_then (get_asp_non_membership_root env s) (\<lambda>non_member_root.
       and_then (ensure (\<not> (member_root \<noteq> asp_membership_root p
           \<or> non_member_root \<noteq> asp_non_membership_root p)) PoolInvalidProof) (\<lambda>_.
       and_then (verify_proof env p s) (\<lambda>is_valid.
       and_then (ensure is_valid PoolInvalidProof) (\<lambda>_.
       let s1 = fold spend_one (input_nullifiers p) s in
       and_then (pay_withdrawal env ext s1 tokens) (\<lambda>tokens1.
       and_then (map_err from_merkle_error
         (insert_two_leaves (poseidon2 env) (output_commitment0 p) (output_commitment1 p) (p_tree s1)))
         (\<lambda>((idx_0, idx_1), tree).
       let s2 = s1\<lparr>p_tree := tree\<rparr>;
           s3 = pool_publish (NewCommitmentEvent (output_commitment0 p) idx_0 (encrypted_output0 ext)) s2;
           s4 = pool_publish (NewCommitmentEvent (output_commitment1 p) idx_1 (encrypted_output1 ext)) s3 in
         Inr (s4, tokens1)))))))))))))))
     (is_known_root (pf_root p) (p_tree s)))"

text \<open>The part of \<open>transact\<close> before \<open>internal_transact\<close>: authorisation and deposit.\<close>

definition take_deposit ::
  "'t pool_env \<Rightarrow> ext_data \<Rightarrow> address \<Rightarrow> pool_store \<Rightarrow> 't \<Rightarrow> (pool_error, 't) result" where
  "take_deposit env ext sender s tokens =
     and_then (require_auth (auth env) sender) (\<lambda>_.
     and_then (ok_or (p_token s) PoolNotInitialized) (\<lambda>token.
       if 0 < sint (ext_amount ext) then
         (let deposit_u = ext_amount ext in
          and_then (ok_or (maximum_deposit_amount s) PoolNotInitialized) (\<lambda>max.
          and_then (ensure (\<not> max < deposit_u) WrongExtAmount) (\<lambda>_.
          and_then (i256_to_i128_nonneg (ext_amount ext)) (\<lambda>amount.
            unwrap (transfer_call env token sender (self_address env) amount tokens)))))
       else Inr tokens))"

definition transact ::
  "'t pool_env \<Rightarrow> pool_proof \<Rightarrow> ext_data \<Rightarrow> address \<Rightarrow> pool_store \<times> 't
     \<Rightarrow> (pool_error, pool_store \<times> 't) result option" where
  "transact env p ext sender st =
    (case st of (s, tokens) \<Rightarrow>
     (case take_deposit env ext sender s tokens of
        Inl e \<Rightarrow> Some (Inl e)
      | Inr tokens1 \<Rightarrow> internal_transact env p ext (s, tokens1)))"

section \<open>Administration\<close>

definition put_pool_admin :: "address \<Rightarrow> pool_store \<Rightarrow> pool_store" where
  "put_pool_admin a s = s\<lparr>p_admin := Some a\<rparr>"

definition pool_update_admin :: "auths \<Rightarrow> address \<Rightarrow> pool_store \<Rightarrow> (pool_error, pool_store) result" where
  "pool_update_admin auths new_admin s =
     (if p_admin s = None then Inl (Err PoolNotInitialized)
      else update_admin p_admin put_pool_admin auths new_admin s)"

definition update_asp_membership :: "auths \<Rightarrow> address \<Rightarrow> pool_store \<Rightarrow> (pool_error, pool_store) result" where
  "update_asp_membership auths a s =
     and_then (ok_or (p_admin s) PoolNotInitialized) (\<lambda>admin.
     and_then (require_auth auths admin) (\<lambda>_. Inr (s\<lparr>asp_membership := Some a\<rparr>)))"

definition update_asp_non_membership :: "auths \<Rightarrow> address \<Rightarrow> pool_store \<Rightarrow> (pool_error, pool_store) result" where
  "update_asp_non_membership auths a s =
     and_then (ok_or (p_admin s) PoolNotInitialized) (\<lambda>admin.
     and_then (require_auth auths admin) (\<lambda>_. Inr (s\<lparr>asp_non_membership := Some a\<rparr>)))"

definition pool_get_root :: "pool_store \<Rightarrow> (pool_error, u256) result" where
  "pool_get_root s = map_err from_merkle_error (get_last_root (p_tree s))"

definition pool_is_known_root :: "u256 \<Rightarrow> pool_store \<Rightarrow> (pool_error, bool) result option" where
  "pool_is_known_root root s = map_option (map_err from_merkle_error) (is_known_root root (p_tree s))"

section \<open>The contract as a state machine\<close>

datatype pool_call =
    Transact pool_proof ext_data address
  | PoolUpdateAdmin address
  | UpdateAspMembership address
  | UpdateAspNonMembership address

definition on_pool ::
  "(pool_store \<Rightarrow> (pool_error, pool_store) result) \<Rightarrow> pool_store \<times> 't
     \<Rightarrow> (pool_error, pool_store \<times> 't) result option" where
  "on_pool f st = Some (and_then (f (fst st)) (\<lambda>s. Inr (s, snd st)))"

fun pool_exec ::
  "'t pool_env \<Rightarrow> pool_call \<Rightarrow> pool_store \<times> 't \<Rightarrow> (pool_error, pool_store \<times> 't) result option" where
  "pool_exec env (Transact p ext sender) st = transact env p ext sender st"
| "pool_exec env (PoolUpdateAdmin a) st = on_pool (pool_update_admin (auth env) a) st"
| "pool_exec env (UpdateAspMembership a) st = on_pool (update_asp_membership (auth env) a) st"
| "pool_exec env (UpdateAspNonMembership a) st = on_pool (update_asp_non_membership (auth env) a) st"

inductive pool_history ::
  "poseidon2_host \<Rightarrow> address \<Rightarrow> (address \<Rightarrow> address \<Rightarrow> address \<Rightarrow> int \<Rightarrow> 't \<Rightarrow> 't option)
     \<Rightarrow> pool_store \<times> 't \<Rightarrow> pool_call list \<Rightarrow> pool_store \<times> 't \<Rightarrow> bool"
  for host self transfer st0 where
  no_calls: "pool_history host self transfer st0 [] st0"
| one_more: "pool_history host self transfer st0 calls st \<Longrightarrow> poseidon2 env = host \<Longrightarrow>
    self_address env = self \<Longrightarrow> transfer_call env = transfer \<Longrightarrow>
    pool_exec env call st = Some (Inr st') \<Longrightarrow> pool_history host self transfer st0 (calls @ [call]) st'"

section \<open>Public amounts\<close>

lemma unat_max_ext_amount: "unat max_ext_amount = 2 ^ 248"
proof -
  have "(0x0100000000000000 * 2 ^ 192 :: nat) = 2 ^ 248" by simp
  then show ?thesis unfolding max_ext_amount_def by (simp add: unat_of_nat)
qed

lemma uint_max_ext_amount: "uint max_ext_amount = 2 ^ 248"
  unfolding uint_nat unat_max_ext_amount by simp

lemma max_ext_amount_le: "max_ext_amount \<le> w \<longleftrightarrow> 2 ^ 248 \<le> uint w"
  by (simp only: word_le_def uint_max_ext_amount)

lemma public_amount_deposit:
  assumes "0 \<le> sint v"
  shows "calculate_public_amount v =
    (if 2 ^ 248 \<le> sint v then Inl (Err WrongExtAmount) else Inr (word_of_int (sint v mod int prime)))"
proof (cases "2 ^ 248 \<le> sint v")
  case True
  with assms show ?thesis
    by (simp only: calculate_public_amount_def i256_abs_to_u256_def if_True and_then_simps
        max_ext_amount_le uint_nonneg_256)
next
  case False
  have "sint v mod int prime = sint v"
    using assms False two_248_less_prime by (intro mod_pos_pos_trivial) linarith+
  then have "v = word_of_int (sint v mod int prime)" by simp
  with assms False show ?thesis
    by (simp only: calculate_public_amount_def i256_abs_to_u256_def if_True if_False and_then_simps
        max_ext_amount_le uint_nonneg_256)
qed

lemma public_amount_withdrawal:
  assumes neg: "sint v < 0" and min: "- (2 ^ 255) < sint v"
  shows "calculate_public_amount v =
    (if 2 ^ 248 \<le> - sint v then Inl (Err WrongExtAmount) else Inr (word_of_int (sint v mod int prime)))"
proof -
  note n = i256_neg [OF neg min]
  have nn: "\<not> 0 \<le> sint v" using neg by simp
  have step: "calculate_public_amount v =
    (if 2 ^ 248 \<le> - sint v then Inl (Err WrongExtAmount) else unwrap (u256_sub bn256_modulus (- v)))"
    using nn by (simp only: calculate_public_amount_def i256_abs_to_u256_def if_False n
        unwrap_simps and_then_simps max_ext_amount_le)
  have "u256_sub bn256_modulus (- v) = Some (word_of_int (sint v mod int prime))" if "- sint v < 2 ^ 248"
  proof -
    have "- v \<le> bn256_modulus"
      using that two_248_less_prime by (simp only: word_le_def n uint_bn256_modulus)
    moreover have "\<bar>sint v\<bar> < int prime" using that neg two_248_less_prime by linarith
    ultimately show ?thesis
      by (simp only: u256_sub_def if_True neg_residue [OF neg])
  qed
  then show ?thesis
    by (cases "2 ^ 248 \<le> - sint v") (simp_all only: step if_True if_False not_le unwrap_simps)
qed

lemma public_amount_min:
  "sint v = - (2 ^ 255) \<Longrightarrow> calculate_public_amount v = Inl Trap"
  by (simp add: calculate_public_amount_def i256_abs_to_u256_def i256_sub_def)

lemma calculate_public_amount_cases:
  "calculate_public_amount v =
     (if sint v = - (2 ^ 255) then Inl Trap
      else if 2 ^ 248 \<le> \<bar>sint v\<bar> then Inl (Err WrongExtAmount)
      else Inr (word_of_int (sint v mod int prime)))"
proof (cases "0 \<le> sint v")
  case True
  then show ?thesis using public_amount_deposit [OF True] by simp
next
  case False
  then have neg: "sint v < 0" by simp
  show ?thesis
  proof (cases "sint v = - (2 ^ 255)")
    case True
    then show ?thesis by (simp add: public_amount_min)
  next
    case False
    with sint_256_bounds [of v] have "- (2 ^ 255) < sint v" by linarith
    with public_amount_withdrawal [OF neg this] neg False show ?thesis by simp
  qed
qed

section \<open>Spending\<close>

definition spent_in :: "(u256 \<rightharpoonup> bool) \<Rightarrow> u256 \<Rightarrow> bool" where
  "spent_in m n = unwrap_or (m n) False"

definition spend_in :: "u256 \<Rightarrow> (u256 \<rightharpoonup> bool) \<Rightarrow> (u256 \<rightharpoonup> bool)" where
  "spend_in n m = m(n \<mapsto> True)"

interpretation pool_spent: spent_set spent_in spend_in
  by unfold_locales (auto simp: spent_in_def spend_in_def)

lemma is_spent_Some:
  "nullifiers s = Some m \<Longrightarrow> is_spent s n = Inr (spent_in m n)"
  by (simp add: is_spent_def get_nullifiers_def spent_in_def)

lemma spend_one_Some:
  "nullifiers s = Some m \<Longrightarrow> spend_one n s =
     s\<lparr>nullifiers := Some (spend_in n m), p_events := p_events s @ [NewNullifierEvent n]\<rparr>"
  by (simp add: spend_one_def mark_spent_def get_nullifiers_def pool_publish_def spend_in_def)

lemma spend_all_Some:
  "nullifiers s = Some m \<Longrightarrow> fold spend_one ns s =
     s\<lparr>nullifiers := Some (fold spend_in ns m), p_events := p_events s @ map NewNullifierEvent ns\<rparr>"
  by (induction ns arbitrary: s m) (simp_all add: spend_one_Some)

lemma check_unspent_all:
  "nullifiers s = Some m \<Longrightarrow> fold_result (check_unspent s) ns () =
     (if list_all (\<lambda>n. \<not> spent_in m n) ns then Inr () else Inl (Err AlreadySpentNullifier))"
proof (induction ns)
  case (Cons n ns)
  then show ?case
    by (cases "spent_in m n") (simp_all add: check_unspent_def is_spent_Some)
qed simp

section \<open>What a transaction does, in one step\<close>

text \<open>
  \<open>transact_admissible\<close> collects the checks on the pool's own state and on the answers of the
  other contracts; \<open>deposit\<close> and \<open>payout\<close> are the two token movements.
\<close>

definition transact_admissible :: "'t pool_env \<Rightarrow> pool_proof \<Rightarrow> ext_data \<Rightarrow> address \<Rightarrow> pool_store \<Rightarrow> bool" where
  "transact_admissible env p ext sender s \<longleftrightarrow>
     auth env sender \<and> p_token s \<noteq> None
   \<and> (0 < sint (ext_amount ext) \<longrightarrow>
        (\<exists>max. maximum_deposit_amount s = Some max \<and> ext_amount ext \<le> max)
        \<and> sint (ext_amount ext) < 2 ^ 127)
   \<and> (sint (ext_amount ext) < 0 \<longrightarrow> - sint (ext_amount ext) < 2 ^ 127)
   \<and> is_known_root (pf_root p) (p_tree s) = Some (Inr True)
   \<and> (\<exists>m. nullifiers s = Some m \<and> list_all (\<lambda>n. \<not> spent_in m n) (input_nullifiers p))
   \<and> hash_ext_data env ext = ext_data_hash p
   \<and> calculate_public_amount (ext_amount ext) = Inr (public_amount p)
   \<and> get_asp_membership_root env s = Inr (asp_membership_root p)
   \<and> get_asp_non_membership_root env s = Inr (asp_non_membership_root p)
   \<and> verify_proof env p s = Inr True"

definition deposit :: "'t pool_env \<Rightarrow> ext_data \<Rightarrow> address \<Rightarrow> pool_store \<Rightarrow> 't \<Rightarrow> 't option" where
  "deposit env ext sender s t =
     (if 0 < sint (ext_amount ext)
      then transfer_call env (the (p_token s)) sender (self_address env) (sint (ext_amount ext)) t
      else Some t)"

definition payout :: "'t pool_env \<Rightarrow> ext_data \<Rightarrow> pool_store \<Rightarrow> 't \<Rightarrow> 't option" where
  "payout env ext s t =
     (if sint (ext_amount ext) < 0
      then transfer_call env (the (p_token s)) (self_address env) (recipient ext) (- sint (ext_amount ext)) t
      else Some t)"

definition after_transact ::
  "pool_proof \<Rightarrow> ext_data \<Rightarrow> nat \<times> nat \<Rightarrow> merkle_store \<Rightarrow> pool_store \<Rightarrow> pool_store" where
  "after_transact p ext ix tree s =
     s\<lparr>nullifiers := map_option (fold spend_in (input_nullifiers p)) (nullifiers s), p_tree := tree,
       p_events := p_events s @ map NewNullifierEvent (input_nullifiers p)
         @ [NewCommitmentEvent (output_commitment0 p) (fst ix) (encrypted_output0 ext),
            NewCommitmentEvent (output_commitment1 p) (snd ix) (encrypted_output1 ext)]\<rparr>"

lemma nonneg_i128_Inr:
  "i256_to_i128_nonneg v = Inr a \<longleftrightarrow> 0 \<le> sint v \<and> sint v < 2 ^ 127 \<and> a = sint v"
  by (auto simp: i256_to_i128_nonneg_def i256_to_i128_def result_simps)

lemma payout_amount:
  assumes "sint v < 0" and "calculate_public_amount v = Inr pa"
  shows "\<exists>w. i256_sub 0 v = Some w \<and> sint w = - sint v"
proof -
  from assms(2) have "sint v \<noteq> - (2 ^ 255)"
    by (auto simp: calculate_public_amount_cases split: if_splits)
  with sint_256_bounds [of v] have "- (2 ^ 255) < sint v" by linarith
  from i256_neg [OF assms(1) this] show ?thesis by blast
qed

lemma take_deposit_Inr:
  "take_deposit env ext sender s t = Inr t1 \<longleftrightarrow>
     auth env sender \<and> p_token s \<noteq> None
   \<and> (0 < sint (ext_amount ext) \<longrightarrow>
        (\<exists>max. maximum_deposit_amount s = Some max \<and> ext_amount ext \<le> max)
        \<and> sint (ext_amount ext) < 2 ^ 127)
   \<and> deposit env ext sender s t = Some t1"
  by (cases "0 < sint (ext_amount ext)")
    (auto simp: take_deposit_def deposit_def result_simps nonneg_i128_Inr not_less Let_def)

lemma pay_withdrawal_Inr:
  assumes "calculate_public_amount (ext_amount ext) = Inr pa"
  shows "pay_withdrawal env ext s t = Inr t1 \<longleftrightarrow>
     p_token s \<noteq> None
   \<and> (sint (ext_amount ext) < 0 \<longrightarrow> - sint (ext_amount ext) < 2 ^ 127)
   \<and> payout env ext s t = Some t1"
proof (cases "sint (ext_amount ext) < 0")
  case True
  from payout_amount [OF True assms] obtain w
    where "i256_sub 0 (ext_amount ext) = Some w" "sint w = - sint (ext_amount ext)" by blast
  with True show ?thesis
    by (auto simp: pay_withdrawal_def payout_def result_simps nonneg_i128_Inr)
next
  case False
  then show ?thesis by (auto simp: pay_withdrawal_def payout_def result_simps)
qed

lemma payout_frame [simp]:
  "payout env ext (s\<lparr>nullifiers := x, p_events := es\<rparr>) = payout env ext s"
  by (simp add: payout_def fun_eq_iff)

lemma internal_transact_Inr:
  assumes "nullifiers s = Some m"
  shows "internal_transact env p ext (s, t) = Some (Inr (s', t')) \<longleftrightarrow>
     is_known_root (pf_root p) (p_tree s) = Some (Inr True)
   \<and> list_all (\<lambda>n. \<not> spent_in m n) (input_nullifiers p)
   \<and> hash_ext_data env ext = ext_data_hash p
   \<and> calculate_public_amount (ext_amount ext) = Inr (public_amount p)
   \<and> get_asp_membership_root env s = Inr (asp_membership_root p)
   \<and> get_asp_non_membership_root env s = Inr (asp_non_membership_root p)
   \<and> verify_proof env p s = Inr True
   \<and> p_token s \<noteq> None
   \<and> (sint (ext_amount ext) < 0 \<longrightarrow> - sint (ext_amount ext) < 2 ^ 127)
   \<and> payout env ext s t = Some t'
   \<and> (\<exists>ix tree. insert_two_leaves (poseidon2 env) (output_commitment0 p) (output_commitment1 p) (p_tree s)
          = Inr (ix, tree) \<and> s' = after_transact p ext ix tree s)"
  (is "?l \<longleftrightarrow> ?r")
proof -
  have spent: "fold_result (check_unspent s) (input_nullifiers p) () = Inr u
      \<longleftrightarrow> list_all (\<lambda>n. \<not> spent_in m n) (input_nullifiers p)" for u
    using assms by (simp add: check_unspent_all)
  have pay: "payout env ext (fold spend_one (input_nullifiers p) s) t = payout env ext s t"
    "p_token (fold spend_one (input_nullifiers p) s) = p_token s"
    "p_tree (fold spend_one (input_nullifiers p) s) = p_tree s"
    by (simp_all add: payout_def spend_all_Some [OF assms])
  show ?thesis
  proof
    assume ?l
    then show ?r
      unfolding internal_transact_def prod.case
      apply (simp only: map_option_eq_Some Let_def and_then_Inr map_err_Inr ensure_Inr spent)
      apply (elim exE conjE)
      apply (simp add: pay_withdrawal_Inr pay)
      apply (auto simp: pool_publish_def after_transact_def spend_all_Some [OF assms] assms
          pay split: prod.splits)
      done
  next
    assume ?r
    then show ?l
      unfolding internal_transact_def prod.case
      by (auto simp: Let_def spent pay pay_withdrawal_Inr pool_publish_def after_transact_def
          spend_all_Some [OF assms] assms check_unspent_all result_simps)
  qed
qed

lemma transact_Inr:
  assumes "nullifiers s = Some m"
  shows "transact env p ext sender (s, t) = Some (Inr (s', t')) \<longleftrightarrow>
     transact_admissible env p ext sender s
   \<and> (\<exists>t1. deposit env ext sender s t = Some t1 \<and> payout env ext s t1 = Some t')
   \<and> (\<exists>ix tree. insert_two_leaves (poseidon2 env) (output_commitment0 p) (output_commitment1 p) (p_tree s)
          = Inr (ix, tree) \<and> s' = after_transact p ext ix tree s)"
proof -
  have "transact env p ext sender (s, t) = Some (Inr (s', t')) \<longleftrightarrow>
      (\<exists>t1. take_deposit env ext sender s t = Inr t1
        \<and> internal_transact env p ext (s, t1) = Some (Inr (s', t')))"
    by (auto simp: transact_def split: sum.splits)
  then show ?thesis
    unfolding take_deposit_Inr internal_transact_Inr [OF assms]
    by (auto simp: transact_admissible_def assms)
qed

lemma validate_field_element:
  "validate_bn256_public_input v bn256_modulus = ensure (canonical v) NonCanonicalPublicInput"
  by (simp add: validate_bn256_public_input_def canonical_def not_le)

lemma validate_canonical:
  assumes "verify_proof env p s = Inr b"
  shows "canonical (output_commitment0 p)" "canonical (output_commitment1 p)"
  using assms
  by (auto simp: verify_proof_def validate_bn256_public_inputs_def validate_bn256_public_input_def
      result_simps canonical_def not_le split: if_splits)

section \<open>The event log and the state it mirrors\<close>

fun commitments_of :: "pool_event list \<Rightarrow> (u256 \<times> nat) list" where
  "commitments_of [] = []"
| "commitments_of (NewCommitmentEvent c i e # es) = (c, i) # commitments_of es"
| "commitments_of (NewNullifierEvent n # es) = commitments_of es"

fun nullifiers_of :: "pool_event list \<Rightarrow> u256 list" where
  "nullifiers_of [] = []"
| "nullifiers_of (NewNullifierEvent n # es) = n # nullifiers_of es"
| "nullifiers_of (NewCommitmentEvent c i e # es) = nullifiers_of es"

lemma nullifiers_of_iff: "n \<in> set (nullifiers_of es) \<longleftrightarrow> NewNullifierEvent n \<in> set es"
  by (induction es rule: nullifiers_of.induct) auto

lemma commitments_of_append [simp]: "commitments_of (es @ fs) = commitments_of es @ commitments_of fs"
  by (induction es rule: commitments_of.induct) simp_all

lemma nullifiers_of_append [simp]: "nullifiers_of (es @ fs) = nullifiers_of es @ nullifiers_of fs"
  by (induction es rule: nullifiers_of.induct) simp_all

lemma spend_events [simp]:
  "commitments_of (map NewNullifierEvent ns) = []" "nullifiers_of (map NewNullifierEvent ns) = ns"
  by (induction ns) simp_all

definition indexed :: "'a list \<Rightarrow> ('a \<times> nat) list" where
  "indexed xs = zip xs [0..<length xs]"

lemma indexed_append [simp]: "indexed (xs @ [x, y]) = indexed xs @ [(x, length xs), (y, Suc (length xs))]"
  by (simp add: indexed_def)

lemma map_fst_indexed [simp]: "map fst (indexed xs) = xs"
  by (simp add: indexed_def)

definition pool_inv :: "(u256 \<Rightarrow> u256 \<Rightarrow> u256) \<Rightarrow> nat \<Rightarrow> pool_store \<Rightarrow> bool" where
  "pool_inv h d s \<longleftrightarrow>
     (let leaves = map fst (commitments_of (p_events s)) in
      merkle_inv h d leaves (p_tree s) \<and> commitments_of (p_events s) = indexed leaves
      \<and> (\<exists>m. nullifiers s = Some m \<and> (\<forall>n. spent_in m n \<longleftrightarrow> n \<in> set (nullifiers_of (p_events s)))))"

lemma constructor_inv:
  assumes "zeroes_consistent h" and "pool_constructor admin token verifier asp_m asp_nm cap d empty_pool = Inr s"
  shows "pool_inv h d s \<and> p_token s = Some token \<and> p_admin s = Some admin \<and> p_events s = []"
proof -
  have d: "1 \<le> d" "d \<le> 32"
    using assms(2) by (auto simp: pool_constructor_def result_simps Let_def dest: init_levels_bound)
  from init_establishes [OF assms(1) d] obtain tree
    where "init d empty_merkle_store = Inr tree" "merkle_inv h d [] tree" by blast
  with assms(2) show ?thesis
    by (auto simp: pool_constructor_def empty_pool_def pool_inv_def indexed_def spent_in_def Let_def)
qed

text \<open>Administration touches neither the tree nor the nullifiers nor the log.\<close>

lemma setting_frame:
  assumes "pool_exec env call (s, t) = Some (Inr (s', t'))" and "\<And>p e a. call \<noteq> Transact p e a"
  shows "p_tree s' = p_tree s \<and> nullifiers s' = nullifiers s \<and> p_events s' = p_events s
    \<and> p_token s' = p_token s \<and> t' = t"
  using assms
  by (cases call)
    (auto simp: on_pool_def result_simps pool_update_admin_def update_admin_def put_pool_admin_def
      update_asp_membership_def update_asp_non_membership_def split: if_splits)

interpretation pool_gate: admin_entry p_admin put_pool_admin
  by unfold_locales (simp_all add: put_pool_admin_def)

lemma transact_inv:
  assumes host: "good_host (poseidon2 env)" and h: "zeroes_consistent (compress_value (poseidon2 env))"
    and inv: "pool_inv (compress_value (poseidon2 env)) d s"
    and ok: "transact env p ext sender (s, t) = Some (Inr (s', t'))"
  shows "pool_inv (compress_value (poseidon2 env)) d s'
    \<and> commitments_of (p_events s') = commitments_of (p_events s)
        @ [(output_commitment0 p, length (commitments_of (p_events s))),
           (output_commitment1 p, Suc (length (commitments_of (p_events s))))]
    \<and> nullifiers_of (p_events s') = nullifiers_of (p_events s) @ input_nullifiers p
    \<and> p_token s' = p_token s"
proof -
  let ?h = "compress_value (poseidon2 env)" and ?leaves = "map fst (commitments_of (p_events s))"
  from inv obtain m where m: "nullifiers s = Some m"
    and spent: "\<forall>n. spent_in m n \<longleftrightarrow> n \<in> set (nullifiers_of (p_events s))"
    and tree: "merkle_inv ?h d ?leaves (p_tree s)" and ix: "commitments_of (p_events s) = indexed ?leaves"
    by (auto simp: pool_inv_def Let_def)
  from ok obtain ix' tree' where adm: "transact_admissible env p ext sender s"
    and ins: "insert_two_leaves (poseidon2 env) (output_commitment0 p) (output_commitment1 p) (p_tree s) = Inr (ix', tree')"
    and s': "s' = after_transact p ext ix' tree' s"
    by (auto simp: transact_Inr [OF m])
  from adm have "verify_proof env p s = Inr True" by (simp add: transact_admissible_def)
  note can = validate_canonical [OF this]
  have "\<not> 2 ^ d < length ?leaves + 2"
    using insert_two_leaves_full [OF tree] ins by fastforce
  with insert_two_leaves_run [OF host h tree _ can] ins
  have ix': "ix' = (length ?leaves, length ?leaves + 1)"
    and tree': "merkle_inv ?h d (?leaves @ [output_commitment0 p, output_commitment1 p]) tree'"
    by (auto simp: not_less)
  have evs: "p_events s' = p_events s @ map NewNullifierEvent (input_nullifiers p)
      @ [NewCommitmentEvent (output_commitment0 p) (length ?leaves) (encrypted_output0 ext),
         NewCommitmentEvent (output_commitment1 p) (Suc (length ?leaves)) (encrypted_output1 ext)]"
    and null: "nullifiers s' = Some (fold spend_in (input_nullifiers p) m)"
    and tr: "p_tree s' = tree'" "p_token s' = p_token s"
    by (simp_all add: s' after_transact_def ix' m)
  have "indexed (?leaves @ [output_commitment0 p, output_commitment1 p])
      = indexed ?leaves @ [(output_commitment0 p, length ?leaves), (output_commitment1 p, Suc (length ?leaves))]"
    by (rule indexed_append)
  with ix have "pool_inv ?h d s'"
    using tree' spent
    by (auto simp: pool_inv_def Let_def evs null tr pool_spent.spent_fold)
  then show ?thesis by (simp add: evs tr)
qed

lemma pool_exec_inv:
  assumes "good_host (poseidon2 env)" and "zeroes_consistent (compress_value (poseidon2 env))"
    and inv: "pool_inv (compress_value (poseidon2 env)) d s"
    and ok: "pool_exec env call (s, t) = Some (Inr (s', t'))"
  shows "pool_inv (compress_value (poseidon2 env)) d s'
    \<and> (\<exists>ns. nullifiers_of (p_events s') = nullifiers_of (p_events s) @ ns)"
proof (cases call)
  case (Transact p ext sender)
  with transact_inv [OF assms(1,2) inv] ok show ?thesis by auto
next
  case (PoolUpdateAdmin a)
  with setting_frame [OF ok] inv show ?thesis by (auto simp: pool_inv_def)
next
  case (UpdateAspMembership a)
  with setting_frame [OF ok] inv show ?thesis by (auto simp: pool_inv_def)
next
  case (UpdateAspNonMembership a)
  with setting_frame [OF ok] inv show ?thesis by (auto simp: pool_inv_def)
qed

lemma pool_history_inv:
  assumes "good_host host" and "zeroes_consistent (compress_value host)"
  shows "pool_history host self transfer st0 calls st \<Longrightarrow>
    pool_inv (compress_value host) d (fst st0) \<Longrightarrow>
    pool_inv (compress_value host) d (fst st)
    \<and> (\<exists>ns. nullifiers_of (p_events (fst st)) = nullifiers_of (p_events (fst st0)) @ ns)"
proof (induction rule: pool_history.induct)
  case no_calls
  then show ?case by simp
next
  case (one_more calls st env call st')
  obtain s t s' t' where st: "st = (s, t)" "st' = (s', t')" by (cases st, cases st') auto
  from one_more.IH [OF one_more.prems] st one_more.hyps(2)
  have "pool_inv (compress_value (poseidon2 env)) d s" by simp
  with pool_exec_inv [of env d s call t s' t'] one_more.hyps assms st one_more.IH [OF one_more.prems]
  show ?case by auto
qed

section \<open>Funds\<close>

text \<open>What a call moves into the pool's token account; a transfer to itself moves nothing.\<close>

fun net_flow :: "address \<Rightarrow> pool_call \<Rightarrow> int" where
  "net_flow self (Transact p ext sender) =
     (if 0 < sint (ext_amount ext) \<and> sender \<noteq> self \<or> sint (ext_amount ext) < 0 \<and> recipient ext \<noteq> self
      then sint (ext_amount ext) else 0)"
| "net_flow self _ = 0"

lemma token_lawsD:
  assumes "token_laws balance transfer" and "transfer tok src dst amount t = Some t'"
  shows "balance t' tok a = balance t tok a + (if a = dst then amount else 0) - (if a = src then amount else 0)"
    and "0 \<le> balance t' tok src"
proof -
  from assms have *: "0 \<le> balance t' tok src \<and>
      balance t' = (\<lambda>k a. balance t k a
          + (if k = tok \<and> a = dst then amount else 0) - (if k = tok \<and> a = src then amount else 0))"
    unfolding token_laws_def by blast
  then show "balance t' tok a = balance t tok a + (if a = dst then amount else 0) - (if a = src then amount else 0)"
    by simp
  from * show "0 \<le> balance t' tok src" by blast
qed

lemma transact_flow:
  assumes laws: "token_laws balance (transfer_call env)" and tok: "p_token s = Some tok"
    and "deposit env ext sender s t = Some t1" and "payout env ext s t1 = Some t'"
  shows "balance t' tok (self_address env)
      = balance t tok (self_address env) + net_flow (self_address env) (Transact p ext sender)
    \<and> (0 \<le> balance t tok (self_address env) \<longrightarrow> 0 \<le> balance t' tok (self_address env))"
proof -
  let ?a = "sint (ext_amount ext)" and ?self = "self_address env"
  consider "0 < ?a" | "?a < 0" | "?a = 0" by linarith
  then show ?thesis
  proof cases
    case 1
    then have "transfer_call env tok sender ?self ?a t = Some t'"
      using assms by (auto simp: deposit_def payout_def)
    from token_lawsD(1) [OF laws this, of ?self] 1 show ?thesis by simp
  next
    case 2
    then have "transfer_call env tok ?self (recipient ext) (- ?a) t = Some t'"
      using assms by (auto simp: deposit_def payout_def)
    from token_lawsD(1) [OF laws this, of ?self] token_lawsD(2) [OF laws this] 2 show ?thesis by simp
  next
    case 3
    with assms show ?thesis by (auto simp: deposit_def payout_def)
  qed
qed

lemma pool_exec_flow:
  assumes laws: "token_laws balance (transfer_call env)" and inv: "pool_inv h d s" and tok: "p_token s = Some tok"
    and ok: "pool_exec env call (s, t) = Some (Inr (s', t'))"
  shows "p_token s' = Some tok
    \<and> balance t' tok (self_address env) = balance t tok (self_address env) + net_flow (self_address env) call
    \<and> (0 \<le> balance t tok (self_address env) \<longrightarrow> 0 \<le> balance t' tok (self_address env))"
proof (cases "\<exists>p e a. call = Transact p e a")
  case True
  then obtain p ext sender where call: "call = Transact p ext sender" by blast
  obtain m where m: "nullifiers s = Some m" using inv by (auto simp: pool_inv_def Let_def)
  from ok call obtain t1 where "deposit env ext sender s t = Some t1" "payout env ext s t1 = Some t'"
    and "p_token s' = Some tok"
    using tok by (auto simp: transact_Inr [OF m] after_transact_def)
  with transact_flow [OF laws tok this(1,2)] show ?thesis unfolding call by blast
next
  case False
  then have "net_flow (self_address env) call = 0" by (cases call) auto
  with setting_frame [OF ok] False tok show ?thesis by auto
qed

lemma pool_history_flow:
  assumes "good_host host" and "zeroes_consistent (compress_value host)" and laws: "token_laws balance transfer"
  shows "pool_history host self transfer st0 calls st \<Longrightarrow>
    pool_inv (compress_value host) d (fst st0) \<Longrightarrow> p_token (fst st0) = Some tok \<Longrightarrow>
    p_token (fst st) = Some tok
    \<and> balance (snd st) tok self = balance (snd st0) tok self + sum_list (map (net_flow self) calls)
    \<and> (0 \<le> balance (snd st0) tok self \<longrightarrow> 0 \<le> balance (snd st) tok self)"
proof (induction rule: pool_history.induct)
  case no_calls
  then show ?case by simp
next
  case (one_more calls st env call st')
  obtain s t s' t' where st: "st = (s, t)" "st' = (s', t')" by (cases st, cases st') auto
  from pool_history_inv [OF assms(1,2) one_more.hyps(1) one_more.prems(1)] st
  have "pool_inv (compress_value host) d s" by simp
  note IH = one_more.IH [OF one_more.prems, unfolded st fst_conv snd_conv]
  have l: "token_laws balance (transfer_call env)" using laws one_more.hyps by simp
  have tk: "p_token s = Some tok" using IH by blast
  have ok: "pool_exec env call (s, t) = Some (Inr (s', t'))" using one_more.hyps st by simp
  note flow = pool_exec_flow [OF l \<open>pool_inv (compress_value host) d s\<close> tk ok, unfolded one_more.hyps(3)]
  have sum: "sum_list (map (net_flow self) (calls @ [call])) = sum_list (map (net_flow self) calls) + net_flow self call"
    by simp
  show ?case unfolding st fst_conv snd_conv sum
    using flow IH by (intro conjI) (blast, linarith, blast)
qed

section \<open>A concrete pool\<close>

definition sample_pool_env :: "(address \<Rightarrow> address \<Rightarrow> int) pool_env" where
  "sample_pool_env = \<lparr>auth = (\<lambda>_. True), self_address = ''pool'',
     verify_call = (\<lambda>_ _ _. Some True), transfer_call = table_transfer,
     membership_root_call = (\<lambda>_. Some 4), non_membership_root_call = (\<lambda>_. Some 5),
     to_xdr = (\<lambda>_. []), keccak256 = (\<lambda>_. replicate 32 0), poseidon2 = sample_host\<rparr>"

definition sample_ext :: ext_data where
  "sample_ext = \<lparr>recipient = ''bob'', ext_amount = 100, encrypted_output0 = [1], encrypted_output1 = [2]\<rparr>"

definition sample_pool_proof :: pool_proof where
  "sample_pool_proof = \<lparr>groth16 = \<lparr>proof_a = [1], proof_b = [2], proof_c = [3]\<rparr>, pf_root = get_zeroes ! 2,
     input_nullifiers = [6, 7], output_commitment0 = 8, output_commitment1 = 9, public_amount = 100,
     ext_data_hash = to_be_bytes (from_be_bytes (replicate 32 0) mod bn256_modulus), asp_membership_root = 4, asp_non_membership_root = 5\<rparr>"

definition sample_tokens :: "address \<Rightarrow> address \<Rightarrow> int" where
  "sample_tokens = (\<lambda>tok a. if tok = ''xlm'' \<and> a = ''alice'' then 250 else 0)"

lemma sample_pool:
  obtains s s' t' where "pool_constructor ''admin'' ''xlm'' ''verifier'' ''m'' ''nm'' 1000 2 empty_pool = Inr s"
    and "pool_inv (compress_value sample_host) 2 s"
    and "transact sample_pool_env sample_pool_proof sample_ext ''alice'' (s, sample_tokens) = Some (Inr (s', t'))"
    and "t' ''xlm'' ''pool'' = 100" and "nullifiers s = Some Map.empty"
proof -
  obtain tree where tree: "init 2 empty_merkle_store = Inr tree"
      "merkle_inv (compress_value sample_host) 2 [] tree"
    using init_establishes [OF zeroes_consistent_sample, of 2] by auto
  let ?s = "empty_pool\<lparr>p_admin := Some ''admin'', p_token := Some ''xlm'', p_verifier := Some ''verifier'',
      asp_membership := Some ''m'', asp_non_membership := Some ''nm'',
      maximum_deposit_amount := Some 1000, nullifiers := Some Map.empty, p_tree := tree\<rparr>"
  have cons: "pool_constructor ''admin'' ''xlm'' ''verifier'' ''m'' ''nm'' 1000 2 empty_pool = Inr ?s"
    using tree(1) by (simp add: pool_constructor_def empty_pool_def)
  have inv: "pool_inv (compress_value sample_host) 2 ?s"
    using constructor_inv [OF zeroes_consistent_sample cons] by blast
  have "pool_root (compress_value sample_host) 2 [] 0 = get_zeroes ! 2"
    by (simp add: pool_root_def node_empty zeroes_chain [OF zeroes_consistent_sample])
  with is_known_root_spec [OF tree(2), of "get_zeroes ! 2"]
  have known: "is_known_root (get_zeroes ! 2) tree = Some (Inr True)"
    by (simp add: get_zeroes_2_nonzero ROOT_HISTORY_SIZE_def)
  have can: "canonical (get_zeroes ! 2)" by (rule canonical_get_zeroes) simp
  have "calculate_public_amount 100 = Inr 100"
    by (simp add: calculate_public_amount_def i256_abs_to_u256_def max_ext_amount_le)
  moreover have "verify_proof sample_pool_env sample_pool_proof ?s = Inr True"
    using can by (simp add: verify_proof_def proof_is_empty_def sample_pool_proof_def sample_pool_env_def
        validate_bn256_public_inputs_def validate_field_element)
  ultimately have adm: "transact_admissible sample_pool_env sample_pool_proof sample_ext ''alice'' ?s"
    using known
    by (simp add: transact_admissible_def sample_pool_env_def sample_pool_proof_def sample_ext_def
        spent_in_def hash_ext_data_def get_asp_membership_root_def get_asp_non_membership_root_def)
  obtain i0 i1 tree' where ins: "insert_two_leaves sample_host 8 9 tree = Inr ((i0, i1), tree')"
    using insert_two_leaves_run [OF good_sample_host zeroes_consistent_sample tree(2), of 8 9] by auto
  have "table_transfer ''xlm'' ''alice'' ''pool'' 100 sample_tokens \<noteq> None"
    by (simp add: table_transfer_def sample_tokens_def)
  then obtain t' where tr: "table_transfer ''xlm'' ''alice'' ''pool'' 100 sample_tokens = Some t'" by blast
  then have "t' ''xlm'' ''pool'' = 100"
    by (auto simp: table_transfer_def sample_tokens_def split: if_splits)
  moreover have "transact sample_pool_env sample_pool_proof sample_ext ''alice'' (?s, sample_tokens)
      = Some (Inr (after_transact sample_pool_proof sample_ext (i0, i1) tree' ?s, t'))"
    using adm ins tr
    by (simp add: transact_Inr [of ?s Map.empty])
      (auto simp: deposit_def payout_def sample_pool_env_def sample_pool_proof_def sample_ext_def)
  ultimately show thesis using cons inv that [of ?s] by simp
qed

section \<open>Properties\<close>

text \<open>
  C1: No note is spent twice. Once a transaction has succeeded, no later call of \<open>transact\<close>,
  after any further history of the pool, succeeds with a proof that repeats one of its
  nullifiers, whatever that proof says otherwise and whatever the verifier answers.
\<close>

theorem pool_no_double_spend:
  assumes "good_host host" and "zeroes_consistent (compress_value host)"
    and "pool_inv (compress_value host) d s" and "poseidon2 env = host"
    and "transact env p ext sender (s, t) = Some (Inr (s', t'))"
    and "pool_history host self transfer (s', t') calls (s'', t'')"
    and "n \<in> set (input_nullifiers p)" and "n \<in> set (input_nullifiers q)"
  shows "\<not> (\<exists>r. transact env' q ext' sender' (s'', t'') = Some (Inr r))"
proof
  assume "\<exists>r. transact env' q ext' sender' (s'', t'') = Some (Inr r)"
  then obtain s3 t3 where again: "transact env' q ext' sender' (s'', t'') = Some (Inr (s3, t3))" by auto
  note first = transact_inv [of env d s p ext sender t s' t', unfolded assms(4), OF assms(1,2,3,5)]
  then have inv: "pool_inv (compress_value host) d s'"
    and logged: "n \<in> set (nullifiers_of (p_events s'))" using assms(7) by auto
  note later = pool_history_inv [OF assms(1,2) assms(6), unfolded fst_conv, OF inv]
  then have "n \<in> set (nullifiers_of (p_events s''))" using logged by auto
  with later obtain m where "nullifiers s'' = Some m" and "spent_in m n"
    by (auto simp: pool_inv_def Let_def)
  with again assms(8) show False
    by (auto simp: transact_Inr transact_admissible_def list_all_iff)
qed

theorem pool_no_double_spend_witness:
  "\<exists>s t. pool_inv (compress_value sample_host) 2 s \<and> set (nullifiers_of (p_events s)) = {6, 7}
    \<and> \<not> (\<exists>r. transact sample_pool_env sample_pool_proof sample_ext ''carol'' (s, t) = Some (Inr r))"
proof -
  obtain s s' t' where "pool_constructor ''admin'' ''xlm'' ''verifier'' ''m'' ''nm'' 1000 2 empty_pool = Inr s"
    and inv: "pool_inv (compress_value sample_host) 2 s"
    and ok: "transact sample_pool_env sample_pool_proof sample_ext ''alice'' (s, sample_tokens) = Some (Inr (s', t'))"
    by (rule sample_pool)
  have env: "poseidon2 sample_pool_env = sample_host" by (simp add: sample_pool_env_def)
  have "p_events s = []"
    using constructor_inv [OF zeroes_consistent_sample \<open>pool_constructor _ _ _ _ _ _ _ _ = _\<close>] by blast
  with transact_inv [of sample_pool_env 2, unfolded env, OF good_sample_host zeroes_consistent_sample inv ok]
  have "pool_inv (compress_value sample_host) 2 s'" "set (nullifiers_of (p_events s')) = {6, 7}"
    by (auto simp: sample_pool_proof_def)
  moreover have "6 \<in> set (input_nullifiers sample_pool_proof)" by (simp add: sample_pool_proof_def)
  note pool_no_double_spend [OF good_sample_host zeroes_consistent_sample inv env ok
      pool_history.no_calls [of sample_host "''pool''" table_transfer] this this]
  ultimately show ?thesis by blast
qed

text \<open>
  C33: The event log mirrors the pool. In every state reached from a deployment, the commitment
  events carry the leaf indexes \<open>0, 1, 2, \<dots>\<close> in order, the contract's root is the root of the
  padded tree over exactly these commitments, and a nullifier is marked spent exactly when an
  event announced it.
\<close>

theorem pool_log_mirrors_state:
  assumes "good_host host" and "zeroes_consistent (compress_value host)"
    and "pool_constructor admin token verifier asp_m asp_nm cap d empty_pool = Inr s0"
    and "pool_history host self transfer (s0, t0) calls (s, t)"
  shows "map snd (commitments_of (p_events s)) = [0..<length (commitments_of (p_events s))]
    \<and> pool_get_root s = Inr (tree_root (compress_value host) (get_zeroes ! 0) d
          (map fst (commitments_of (p_events s))))
    \<and> is_spent s n = Inr (n \<in> set (nullifiers_of (p_events s)))"
proof -
  from constructor_inv [OF assms(2,3)] have "pool_inv (compress_value host) d s0" by blast
  with pool_history_inv [OF assms(1,2,4)] have inv: "pool_inv (compress_value host) d s" by simp
  then have tree: "merkle_inv (compress_value host) d (map fst (commitments_of (p_events s))) (p_tree s)"
    and ix: "commitments_of (p_events s) = indexed (map fst (commitments_of (p_events s)))"
    by (simp_all add: pool_inv_def Let_def)
  from inv have "is_spent s n = Inr (n \<in> set (nullifiers_of (p_events s)))"
    by (auto simp: pool_inv_def Let_def is_spent_Some)
  moreover have "map snd (indexed xs) = [0..<length xs]" for xs :: "u256 list"
    by (simp add: indexed_def)
  then have "map snd (commitments_of (p_events s)) = [0..<length (commitments_of (p_events s))]"
    using ix by (metis length_map)
  ultimately show ?thesis
    using get_last_root_spec [OF tree] by (simp add: pool_get_root_def)
qed

theorem pool_log_mirrors_state_witness:
  "\<exists>s t calls. pool_history sample_host ''pool'' table_transfer (s, sample_tokens) calls (s, t)
    \<and> pool_get_root s = Inr (tree_root (compress_value sample_host) (get_zeroes ! 0) 2 [])"
proof -
  obtain s s' t' where cons: "pool_constructor ''admin'' ''xlm'' ''verifier'' ''m'' ''nm'' 1000 2 empty_pool = Inr s"
    and inv: "pool_inv (compress_value sample_host) 2 s"
    and ok: "transact sample_pool_env sample_pool_proof sample_ext ''alice'' (s, sample_tokens) = Some (Inr (s', t'))"
    by (rule sample_pool)
  have "p_events s = []" using constructor_inv [OF zeroes_consistent_sample cons] by blast
  with pool_log_mirrors_state [OF good_sample_host zeroes_consistent_sample cons
      pool_history.no_calls [of sample_host "''pool''" table_transfer "(s, sample_tokens)"]] show ?thesis
    by (auto intro: pool_history.no_calls)
qed

section \<open>Success of a transaction\<close>

text \<open>The public amount is the residue of the external amount, as long as its absolute value stays below \<open>2\<^sup>2\<^sup>4\<^sup>8\<close>.\<close>

lemma public_amount_Inr:
  "calculate_public_amount v = Inr pa \<longleftrightarrow> \<bar>sint v\<bar> < 2 ^ 248 \<and> uint pa = sint v mod int prime"
proof -
  have "0 \<le> k mod int prime \<and> k mod int prime < int prime" for k
    using prime_pos by (simp add: pos_mod_bound pos_mod_sign)
  moreover have "int prime < 2 ^ 255" by (simp add: prime_def)
  ultimately have un: "uint (word_of_int (k mod int prime) :: u256) = k mod int prime" for k
    by (intro sint_of_small(1)) (meson order.strict_trans)+
  have "word_of_int (sint v mod int prime) = pa \<longleftrightarrow> uint pa = sint v mod int prime"
    using un by (metis word_of_int_uint)
  then show ?thesis by (auto simp: calculate_public_amount_cases)
qed

lemma public_amount_small: "uint pa = k mod int prime \<Longrightarrow> unat pa < prime"
  using prime_pos pos_mod_bound [of "int prime" k] by (metis of_nat_0_less_iff of_nat_less_iff uint_nat)

lemma fold_validate:
  "fold_result (\<lambda>n _. ensure (canonical n) NonCanonicalPublicInput) ns () = Inr u
     \<longleftrightarrow> (\<forall>n\<in>set ns. canonical n)"
proof (induction ns)
  case (Cons n ns)
  then show ?case by (cases "canonical n") simp_all
qed simp

text \<open>What the verifier is asked, and when it is asked at all.\<close>

lemma verify_proof_Inr:
  "verify_proof env p s = Inr True \<longleftrightarrow>
     \<not> proof_is_empty (groth16 p)
   \<and> (\<forall>v\<in>{pf_root p, public_amount p, output_commitment0 p, output_commitment1 p, asp_membership_root p,
          asp_non_membership_root p} \<union> set (input_nullifiers p). unat v < prime)
   \<and> (\<exists>verifier. p_verifier s = Some verifier \<and> verify_call env verifier (groth16 p)
        ([pf_root p, public_amount p, from_be_bytes (ext_data_hash p)] @ input_nullifiers p
         @ [output_commitment0 p, output_commitment1 p]
         @ replicate (length (input_nullifiers p)) (asp_membership_root p)
         @ replicate (length (input_nullifiers p)) (asp_non_membership_root p)) = Some True)"
proof -
  have valid: "validate_bn256_public_inputs p bn256_modulus = Inr () \<longleftrightarrow>
      (\<forall>v\<in>{pf_root p, public_amount p, output_commitment0 p, output_commitment1 p, asp_membership_root p,
          asp_non_membership_root p} \<union> set (input_nullifiers p). unat v < prime)"
    unfolding validate_bn256_public_inputs_def validate_field_element and_then_Inr ensure_Inr fold_validate
    by (auto simp: canonical_unat)
  have inputs: "public_inputs_of p =
      [pf_root p, public_amount p, from_be_bytes (ext_data_hash p)] @ input_nullifiers p
         @ [output_commitment0 p, output_commitment1 p]
         @ replicate (length (input_nullifiers p)) (asp_membership_root p)
         @ replicate (length (input_nullifiers p)) (asp_non_membership_root p)"
    by (simp add: public_inputs_of_def fr_from_bytes_def u256_to_bytes_def map_replicate_const)
  have "verify_proof env p s = Inr True \<longleftrightarrow> \<not> proof_is_empty (groth16 p)
      \<and> validate_bn256_public_inputs p bn256_modulus = Inr ()
      \<and> (\<exists>verifier. p_verifier s = Some verifier \<and> verify_call env verifier (groth16 p) (public_inputs_of p) = Some True)"
    by (auto simp: verify_proof_def result_simps)
  then show ?thesis by (simp only: valid inputs)
qed

text \<open>The deployment's token, verifier and deposit limit never change.\<close>

lemma pool_exec_settings:
  assumes "pool_inv h d s" and "pool_exec env call (s, t) = Some (Inr (s', t'))"
  shows "p_token s' = p_token s \<and> p_verifier s' = p_verifier s \<and> maximum_deposit_amount s' = maximum_deposit_amount s"
proof (cases "\<exists>p e a. call = Transact p e a")
  case True
  obtain m where "nullifiers s = Some m" using assms(1) by (auto simp: pool_inv_def Let_def)
  with True assms(2) show ?thesis by (auto simp: transact_Inr after_transact_def)
next
  case False
  with assms(2) show ?thesis
    by (cases call)
      (auto simp: on_pool_def result_simps pool_update_admin_def update_admin_def put_pool_admin_def
        update_asp_membership_def update_asp_non_membership_def split: if_splits)
qed

lemma pool_history_settings:
  assumes "good_host host" and "zeroes_consistent (compress_value host)"
  shows "pool_history host self transfer st0 calls st \<Longrightarrow> pool_inv (compress_value host) d (fst st0) \<Longrightarrow>
    p_token (fst st) = p_token (fst st0) \<and> p_verifier (fst st) = p_verifier (fst st0)
    \<and> maximum_deposit_amount (fst st) = maximum_deposit_amount (fst st0)"
proof (induction rule: pool_history.induct)
  case (one_more calls st env call st')
  obtain s t s' t' where st: "st = (s, t)" "st' = (s', t')" by (cases st, cases st') auto
  from pool_history_inv [OF assms one_more.hyps(1) one_more.prems] st
  have "pool_inv (compress_value host) d s" by simp
  from pool_exec_settings [OF this, of env call t s' t'] one_more.hyps one_more.IH [OF one_more.prems] st
  show ?case by simp
qed simp

text \<open>Only one of the two token movements takes place.\<close>

lemma movements:
  assumes "p_token s = Some token"
  shows "(\<exists>t1. deposit env ext sender s t = Some t1 \<and> payout env ext s t1 = Some t') \<longleftrightarrow>
    (if 0 < sint (ext_amount ext)
     then transfer_call env token sender (self_address env) (sint (ext_amount ext)) t = Some t'
     else if sint (ext_amount ext) < 0
     then transfer_call env token (self_address env) (recipient ext) (- sint (ext_amount ext)) t = Some t'
     else t' = t)"
  using assms by (auto simp: deposit_def payout_def)

text \<open>The checks of a transaction in a state that mirrors its log.\<close>

lemma pool_inv_tables:
  assumes "pool_inv h d s"
  obtains m where "nullifiers s = Some m" and "\<And>v. spent_in m v \<longleftrightarrow> NewNullifierEvent v \<in> set (p_events s)"
    and "merkle_inv h d (map fst (commitments_of (p_events s))) (p_tree s)"
  using assms by (auto simp: pool_inv_def Let_def nullifiers_of_iff)

lemma verify_proof_digest:
  assumes "p_verifier s = Some verifier" and "uint (public_amount p) = x mod int prime"
    and "ext_data_hash p = to_be_bytes digest"
  shows "verify_proof env p s = Inr True \<longleftrightarrow> \<not> proof_is_empty (groth16 p)
     \<and> (\<forall>v\<in>{pf_root p, output_commitment0 p, output_commitment1 p, asp_membership_root p,
          asp_non_membership_root p} \<union> set (input_nullifiers p). unat v < prime)
     \<and> verify_call env verifier (groth16 p)
         ([pf_root p, public_amount p, digest] @ input_nullifiers p @ [output_commitment0 p, output_commitment1 p]
          @ replicate (length (input_nullifiers p)) (asp_membership_root p)
          @ replicate (length (input_nullifiers p)) (asp_non_membership_root p)) = Some True"
  unfolding verify_proof_Inr assms(1,3) from_to_be_bytes using public_amount_small [OF assms(2)] by simp

lemma admissible_spelled_out:
  assumes "pool_inv h d s" and "p_token s = Some token" "p_verifier s = Some verifier" "maximum_deposit_amount s = Some cap"
    and "digest = from_be_bytes (keccak256 env (to_xdr env ext)) mod bn256_modulus"
    and "leaves = map fst (commitments_of (p_events s))"
  shows "transact_admissible env p ext sender s \<longleftrightarrow> auth env sender
     \<and> (0 < sint (ext_amount ext) \<longrightarrow> ext_amount ext \<le> cap)
     \<and> \<bar>sint (ext_amount ext)\<bar> < 2 ^ 127 \<and> uint (public_amount p) = sint (ext_amount ext) mod int prime
     \<and> pf_root p \<noteq> 0 \<and> (\<exists>k \<le> length leaves div 2. length leaves div 2 < k + 90
          \<and> tree_root h (get_zeroes ! 0) d (take (2 * k) leaves) = pf_root p)
     \<and> (\<forall>v\<in>set (input_nullifiers p). NewNullifierEvent v \<notin> set (p_events s))
     \<and> ext_data_hash p = to_be_bytes digest
     \<and> (\<exists>a. asp_membership s = Some a \<and> membership_root_call env a = Some (asp_membership_root p))
     \<and> (\<exists>a. asp_non_membership s = Some a \<and> non_membership_root_call env a = Some (asp_non_membership_root p))
     \<and> \<not> proof_is_empty (groth16 p)
     \<and> (\<forall>v\<in>{pf_root p, output_commitment0 p, output_commitment1 p, asp_membership_root p,
          asp_non_membership_root p} \<union> set (input_nullifiers p). unat v < prime)
     \<and> verify_call env verifier (groth16 p)
         ([pf_root p, public_amount p, digest] @ input_nullifiers p @ [output_commitment0 p, output_commitment1 p]
          @ replicate (length (input_nullifiers p)) (asp_membership_root p)
          @ replicate (length (input_nullifiers p)) (asp_non_membership_root p)) = Some True"
proof -
  obtain m where m: "nullifiers s = Some m"
    and spent: "\<And>v. spent_in m v \<longleftrightarrow> NewNullifierEvent v \<in> set (p_events s)"
    and tree: "merkle_inv h d leaves (p_tree s)"
    using pool_inv_tables [OF assms(1)] assms(6) by metis
  have known: "is_known_root (pf_root p) (p_tree s) = Some (Inr True) \<longleftrightarrow> pf_root p \<noteq> 0 \<and>
      (\<exists>k \<le> length leaves div 2. length leaves div 2 < k + 90
        \<and> tree_root h (get_zeroes ! 0) d (take (2 * k) leaves) = pf_root p)"
    unfolding is_known_root_spec [OF tree] pool_root_def ROOT_HISTORY_SIZE_def by simp
  have unspent: "(\<exists>m. nullifiers s = Some m \<and> list_all (\<lambda>n. \<not> spent_in m n) (input_nullifiers p)) \<longleftrightarrow>
      (\<forall>v\<in>set (input_nullifiers p). NewNullifierEvent v \<notin> set (p_events s))"
    by (simp add: m spent list_all_iff)
  have asp: "get_asp_membership_root env s = Inr r \<longleftrightarrow>
      (\<exists>a. asp_membership s = Some a \<and> membership_root_call env a = Some r)"
    "get_asp_non_membership_root env s = Inr r \<longleftrightarrow>
      (\<exists>a. asp_non_membership s = Some a \<and> non_membership_root_call env a = Some r)" for r
    by (auto simp: get_asp_membership_root_def get_asp_non_membership_root_def result_simps)
  have hash: "hash_ext_data env ext = ext_data_hash p \<longleftrightarrow> ext_data_hash p = to_be_bytes digest"
    by (auto simp: hash_ext_data_def assms(5) Let_def)
  have "transact_admissible env p ext sender s \<longleftrightarrow> auth env sender
     \<and> (0 < sint (ext_amount ext) \<longrightarrow> ext_amount ext \<le> cap)
     \<and> \<bar>sint (ext_amount ext)\<bar> < 2 ^ 127 \<and> uint (public_amount p) = sint (ext_amount ext) mod int prime
     \<and> is_known_root (pf_root p) (p_tree s) = Some (Inr True)
     \<and> (\<forall>v\<in>set (input_nullifiers p). NewNullifierEvent v \<notin> set (p_events s))
     \<and> ext_data_hash p = to_be_bytes digest
     \<and> get_asp_membership_root env s = Inr (asp_membership_root p)
     \<and> get_asp_non_membership_root env s = Inr (asp_non_membership_root p)
     \<and> verify_proof env p s = Inr True"
    unfolding transact_admissible_def unspent hash public_amount_Inr assms(2-4) by auto
  then show ?thesis
    unfolding known asp using verify_proof_digest [OF assms(3), of p "sint (ext_amount ext)" digest env] by blast
qed

lemma transact_succeeds:
  assumes "good_host (poseidon2 env)" and "zeroes_consistent (compress_value (poseidon2 env))"
    and "pool_inv (compress_value (poseidon2 env)) d s"
  shows "(\<exists>s'. transact env p ext sender (s, t) = Some (Inr (s', t'))) \<longleftrightarrow>
      transact_admissible env p ext sender s \<and> length (commitments_of (p_events s)) + 2 \<le> 2 ^ d
      \<and> (\<exists>t1. deposit env ext sender s t = Some t1 \<and> payout env ext s t1 = Some t')"
proof -
  let ?leaves = "map fst (commitments_of (p_events s))"
  obtain m where m: "nullifiers s = Some m" and tree: "merkle_inv (compress_value (poseidon2 env)) d ?leaves (p_tree s)"
    using pool_inv_tables [OF assms(3)] by metis
  have room: "(\<exists>ix tree'. insert_two_leaves (poseidon2 env) c0 c1 (p_tree s) = Inr (ix, tree')) \<longleftrightarrow> length ?leaves + 2 \<le> 2 ^ d"
    if "canonical c0" "canonical c1" for c0 c1
    using insert_two_leaves_full [OF tree, of "poseidon2 env" c0 c1] insert_two_leaves_run [OF assms(1,2) tree _ that]
    by (cases "2 ^ d < length ?leaves + 2") auto
  have "(\<exists>s'. transact env p ext sender (s, t) = Some (Inr (s', t'))) \<longleftrightarrow>
      transact_admissible env p ext sender s
      \<and> (\<exists>t1. deposit env ext sender s t = Some t1 \<and> payout env ext s t1 = Some t')
      \<and> (\<exists>ix tree'. insert_two_leaves (poseidon2 env) (output_commitment0 p) (output_commitment1 p) (p_tree s) = Inr (ix, tree'))"
    unfolding transact_Inr [OF m] by blast
  also have "\<dots> \<longleftrightarrow> transact_admissible env p ext sender s \<and> length ?leaves + 2 \<le> 2 ^ d
      \<and> (\<exists>t1. deposit env ext sender s t = Some t1 \<and> payout env ext s t1 = Some t')"
    using room validate_canonical [of env p s True] by (auto simp only: transact_admissible_def)
  finally show ?thesis by simp
qed

lemma transact_effect:
  assumes "good_host (poseidon2 env)" and "zeroes_consistent (compress_value (poseidon2 env))"
    and inv: "pool_inv (compress_value (poseidon2 env)) d s"
    and ok: "transact env p ext sender (s, t) = Some (Inr (s', t'))"
    and leaves: "leaves = map fst (commitments_of (p_events s))"
  shows "p_events s' = p_events s @ map NewNullifierEvent (input_nullifiers p)
        @ [NewCommitmentEvent (output_commitment0 p) (length leaves) (encrypted_output0 ext),
           NewCommitmentEvent (output_commitment1 p) (length leaves + 1) (encrypted_output1 ext)]
      \<and> (\<forall>v. is_spent s' v = Inr (v \<in> set (input_nullifiers p) \<or> NewNullifierEvent v \<in> set (p_events s)))
      \<and> pool_get_root s' = Inr (tree_root (compress_value (poseidon2 env)) (get_zeroes ! 0) d
            (leaves @ [output_commitment0 p, output_commitment1 p]))
      \<and> (\<exists>nulls tree. s' = s\<lparr>nullifiers := nulls, p_tree := tree, p_events := p_events s'\<rparr>)"
proof -
  let ?h = "compress_value (poseidon2 env)"
  obtain m where m: "nullifiers s = Some m"
    and spent: "\<And>v. spent_in m v \<longleftrightarrow> NewNullifierEvent v \<in> set (p_events s)"
    and tree: "merkle_inv ?h d leaves (p_tree s)"
    using pool_inv_tables [OF inv] leaves by metis
  from ok obtain ix tr where adm: "transact_admissible env p ext sender s"
    and ins: "insert_two_leaves (poseidon2 env) (output_commitment0 p) (output_commitment1 p) (p_tree s) = Inr (ix, tr)"
    and s': "s' = after_transact p ext ix tr s"
    unfolding transact_Inr [OF m] by blast
  note inv' = transact_inv [OF assms(1-4)]
  from inv' have "pool_inv ?h d s'" by blast
  then have "merkle_inv ?h d (map fst (commitments_of (p_events s'))) (p_tree s')"
    unfolding pool_inv_def Let_def by blast
  moreover from inv' have "commitments_of (p_events s') = commitments_of (p_events s)
        @ [(output_commitment0 p, length (commitments_of (p_events s))),
           (output_commitment1 p, Suc (length (commitments_of (p_events s))))]" by blast
  then have "map fst (commitments_of (p_events s')) = leaves @ [output_commitment0 p, output_commitment1 p]"
    by (simp add: leaves)
  ultimately have tree': "merkle_inv ?h d (leaves @ [output_commitment0 p, output_commitment1 p]) (p_tree s')" by simp
  from adm have can: "canonical (output_commitment0 p)" "canonical (output_commitment1 p)"
    using validate_canonical [of env p s True] by (simp_all add: transact_admissible_def)
  have "\<not> 2 ^ d < length leaves + 2"
    using insert_two_leaves_full [OF tree] ins by fastforce
  with insert_two_leaves_run [OF assms(1,2) tree _ can] ins
  have ix: "ix = (length leaves, length leaves + 1)" by (auto simp: not_less)
  have "is_spent s' v = Inr (v \<in> set (input_nullifiers p) \<or> NewNullifierEvent v \<in> set (p_events s))" for v
    using is_spent_Some [of s' "fold spend_in (input_nullifiers p) m"]
    by (simp add: s' after_transact_def m pool_spent.spent_fold spent disj_commute)
  then show ?thesis
    using get_last_root_spec [OF tree'] by (auto simp: s' after_transact_def ix pool_get_root_def)
qed

text \<open>
  C13: A transaction of a deployed pool succeeds, in any later state, exactly when the sender authorised it, a
  deposit is within the limit, the external amount fits an \<open>i128\<close> and the public amount is its residue modulo the
  field order, the root is non-zero and one of the last ninety roots of the padded tree over the published commitments,
  none of the nullifiers was published before, the external data hash to the committed value, both
  provider contracts answer the proof's roots, the proof is not empty and its signals are field
  elements, the verifier accepts the signals in the circuit's order, the tree has room for two leaves and the
  token moves the external amount, inwards or outwards by its sign. Then exactly the nullifiers are added to the spent
  ones and to the log, followed by the two commitments with the next leaf indexes, and the root is that of the padded tree with
  the two commitments at its end.
\<close>

theorem transact_success_iff:
  assumes "good_host host" and "zeroes_consistent (compress_value host)"
    and "pool_constructor admin token verifier asp_m asp_nm cap d empty_pool = Inr s0"
    and "pool_history host self transfer (s0, t0) calls (s, t)" and "poseidon2 env = host"
  shows "let x = sint (ext_amount ext); ns = input_nullifiers p; c0 = output_commitment0 p; c1 = output_commitment1 p;
      leaves = map fst (commitments_of (p_events s)); n = length leaves;
      root = tree_root (compress_value host) (get_zeroes ! 0) d;
      digest = from_be_bytes (keccak256 env (to_xdr env ext)) mod bn256_modulus in
    ((\<exists>s'. transact env p ext sender (s, t) = Some (Inr (s', t'))) \<longleftrightarrow>
       auth env sender
     \<and> (0 < x \<longrightarrow> ext_amount ext \<le> cap)
     \<and> \<bar>x\<bar> < 2 ^ 127 \<and> uint (public_amount p) = x mod int prime
     \<and> pf_root p \<noteq> 0 \<and> (\<exists>k \<le> n div 2. n div 2 < k + 90 \<and> root (take (2 * k) leaves) = pf_root p)
     \<and> (\<forall>v\<in>set ns. NewNullifierEvent v \<notin> set (p_events s))
     \<and> ext_data_hash p = to_be_bytes digest
     \<and> (\<exists>a. asp_membership s = Some a \<and> membership_root_call env a = Some (asp_membership_root p))
     \<and> (\<exists>a. asp_non_membership s = Some a \<and> non_membership_root_call env a = Some (asp_non_membership_root p))
     \<and> \<not> proof_is_empty (groth16 p)
     \<and> (\<forall>v\<in>{pf_root p, c0, c1, asp_membership_root p, asp_non_membership_root p} \<union> set ns. unat v < prime)
     \<and> verify_call env verifier (groth16 p)
         ([pf_root p, public_amount p, digest] @ ns @ [c0, c1] @ replicate (length ns) (asp_membership_root p)
          @ replicate (length ns) (asp_non_membership_root p)) = Some True
     \<and> n + 2 \<le> 2 ^ d
     \<and> (if 0 < x then transfer_call env token sender (self_address env) x t = Some t'
        else if x < 0 then transfer_call env token (self_address env) (recipient ext) (- x) t = Some t'
        else t' = t))
   \<and> (\<forall>s'. transact env p ext sender (s, t) = Some (Inr (s', t')) \<longrightarrow>
         p_events s' = p_events s @ map NewNullifierEvent ns
           @ [NewCommitmentEvent c0 n (encrypted_output0 ext), NewCommitmentEvent c1 (n + 1) (encrypted_output1 ext)]
       \<and> (\<forall>v. is_spent s' v = Inr (v \<in> set ns \<or> NewNullifierEvent v \<in> set (p_events s)))
       \<and> pool_get_root s' = Inr (root (leaves @ [c0, c1]))
       \<and> (\<exists>nulls tree. s' = s\<lparr>nullifiers := nulls, p_tree := tree, p_events := p_events s'\<rparr>))"
proof -
  have start: "pool_inv (compress_value (poseidon2 env)) d s0" "p_token s0 = Some token"
    using constructor_inv [OF assms(2,3)] assms(5) by blast+
  have "p_verifier s0 = Some verifier" "maximum_deposit_amount s0 = Some cap"
    using assms(3) by (auto simp: pool_constructor_def result_simps Let_def)
  with pool_history_settings [OF assms(1,2,4)] start assms(5)
  have set: "p_token s = Some token" "p_verifier s = Some verifier" "maximum_deposit_amount s = Some cap" by simp_all
  have inv: "pool_inv (compress_value (poseidon2 env)) d s"
    using pool_history_inv [OF assms(1,2,4)] start(1) assms(5) by simp
  note host = assms(1,2) [folded assms(5)]
  show ?thesis
    unfolding Let_def assms(5) [symmetric] transact_succeeds [OF host inv]
      admissible_spelled_out [OF inv set refl refl] movements [OF set(1)] length_map
    by (intro conjI allI impI transact_effect [OF host inv _ refl, unfolded length_map];
        (rule iffI; (elim conjE, intro conjI; assumption))?)
qed

theorem transact_success_iff_witness:
  "\<exists>s s' t'. transact sample_pool_env sample_pool_proof sample_ext ''alice'' (s, sample_tokens) = Some (Inr (s', t'))
    \<and> p_events s' = [NewNullifierEvent 6, NewNullifierEvent 7, NewCommitmentEvent 8 0 [1], NewCommitmentEvent 9 1 [2]]"
proof -
  obtain s s' t' where cons: "pool_constructor ''admin'' ''xlm'' ''verifier'' ''m'' ''nm'' 1000 2 empty_pool = Inr s"
    and ok: "transact sample_pool_env sample_pool_proof sample_ext ''alice'' (s, sample_tokens) = Some (Inr (s', t'))"
    by (rule sample_pool)
  have "p_events s = []" using constructor_inv [OF zeroes_consistent_sample cons] by blast
  have env: "poseidon2 sample_pool_env = sample_host" by (simp add: sample_pool_env_def)
  note transact_success_iff [where p = sample_pool_proof and ext = sample_ext and sender = "''alice''" and t' = t',
      OF good_sample_host zeroes_consistent_sample cons
      pool_history.no_calls [of sample_host "''pool''" table_transfer "(s, sample_tokens)"] env,
      unfolded Let_def, THEN conjunct2, rule_format, OF ok]
  with \<open>p_events s = []\<close> ok show ?thesis
    by (intro exI [of _ s] exI [of _ s'] exI [of _ t']) (simp add: sample_pool_proof_def sample_ext_def)
qed

text \<open>
  C11: The pool's funds. Over any history of an initialised pool, the balance it holds of its
  token changes by exactly the sum of the external amounts of its transactions (transfers to
  itself aside), and it never becomes negative.
\<close>

theorem pool_funds_follow_amounts:
  assumes "good_host host" and "zeroes_consistent (compress_value host)" and "token_laws balance transfer"
    and "pool_inv (compress_value host) d s0" and "p_token s0 = Some tok"
    and "pool_history host self transfer (s0, t0) calls (s, t)"
  shows "balance t tok self = balance t0 tok self + sum_list (map (net_flow self) calls)
    \<and> (0 \<le> balance t0 tok self \<longrightarrow> 0 \<le> balance t tok self)"
  using pool_history_flow [OF assms(1,2,3,6), of d tok] assms(4,5) unfolding fst_conv snd_conv by blast

theorem pool_funds_follow_amounts_witness:
  "\<exists>s t. pool_history sample_host ''pool'' table_transfer (s, sample_tokens)
      [Transact sample_pool_proof sample_ext ''alice''] t \<and> snd t ''xlm'' ''pool'' = 100"
proof -
  obtain s s' t' where cons: "pool_constructor ''admin'' ''xlm'' ''verifier'' ''m'' ''nm'' 1000 2 empty_pool = Inr s"
    and inv: "pool_inv (compress_value sample_host) 2 s"
    and ok: "transact sample_pool_env sample_pool_proof sample_ext ''alice'' (s, sample_tokens) = Some (Inr (s', t'))"
    by (rule sample_pool)
  have "pool_exec sample_pool_env (Transact sample_pool_proof sample_ext ''alice'') (s, sample_tokens)
      = Some (Inr (s', t'))" using ok by simp
  from pool_history.one_more [OF pool_history.no_calls _ _ _ this, of sample_host "''pool''" table_transfer]
  have h: "pool_history sample_host ''pool'' table_transfer (s, sample_tokens)
      [Transact sample_pool_proof sample_ext ''alice''] (s', t')"
    by (simp add: sample_pool_env_def)
  have "p_token s = Some ''xlm''" using constructor_inv [OF zeroes_consistent_sample cons] by blast
  from pool_funds_follow_amounts [OF good_sample_host zeroes_consistent_sample table_token_laws inv this h] h
  show ?thesis by (intro exI [of _ s] exI [of _ "(s', t')"]) (simp add: sample_tokens_def sample_ext_def)
qed

text \<open>
  Every call of the pool returns. In every state reached from a deployment \<open>transact\<close> and
  \<open>is_known_root\<close> come back with a value or an error, so the walk round the root history never
  runs for ever.
\<close>

theorem pool_calls_return:
  assumes "good_host host" and "zeroes_consistent (compress_value host)"
    and "pool_constructor admin token verifier asp_m asp_nm cap d empty_pool = Inr s0"
    and "pool_history host self transfer (s0, t0) calls (s, t)"
  shows "transact env p ext sender (s, t) \<noteq> None \<and> pool_is_known_root root s \<noteq> None"
proof -
  from constructor_inv [OF assms(2,3)] have "pool_inv (compress_value host) d s0" by blast
  with pool_history_inv [OF assms(1,2,4)] have inv: "pool_inv (compress_value host) d s" by simp
  then have "merkle_inv (compress_value host) d (map fst (commitments_of (p_events s))) (p_tree s)"
    by (simp add: pool_inv_def Let_def)
  from is_known_root_spec [OF this] have "is_known_root r (p_tree s) \<noteq> None" for r by simp
  then show ?thesis
    by (auto simp: transact_def internal_transact_def pool_is_known_root_def split: sum.splits)
qed

theorem pool_calls_return_witness:
  "\<exists>s t calls. pool_history sample_host ''pool'' table_transfer (s, sample_tokens) calls (s, t)
    \<and> pool_is_known_root 5 s \<noteq> None"
proof -
  obtain s s' t' where cons: "pool_constructor ''admin'' ''xlm'' ''verifier'' ''m'' ''nm'' 1000 2 empty_pool = Inr s"
    and inv: "pool_inv (compress_value sample_host) 2 s"
    and ok: "transact sample_pool_env sample_pool_proof sample_ext ''alice'' (s, sample_tokens) = Some (Inr (s', t'))"
    by (rule sample_pool)
  from pool_calls_return [OF good_sample_host zeroes_consistent_sample cons
      pool_history.no_calls [of sample_host "''pool''" table_transfer "(s, sample_tokens)"]] show ?thesis
    by (blast intro: pool_history.no_calls)
qed

end
