(* ===== verification/Amounts.thy ===== *)
theory Amounts
  imports Bn254 "HOL-Library.Option_ord"
begin

text \<open>
  The amounts and field elements of the off-chain application
  (\<open>app/crates/core/types/src/amounts.rs\<close>, with the hexadecimal helpers of \<open>lib.rs\<close>).

  \<open>NoteAmount\<close> wraps a \<open>u128\<close>, \<open>ExtAmount\<close> an \<open>i128\<close>, \<open>Field\<close> a 256-bit integer. The
  operators panic on overflow; a panic, like a failed conversion, is \<open>None\<close>. The derived
  orderings are instances of the library's order classes.
\<close>

section \<open>Note amounts\<close>

datatype note_amount = NoteAmount (note_value: u128)

definition NOTE_MAX :: note_amount where
  "NOTE_MAX = NoteAmount (- 1)"

definition NOTE_ONE :: note_amount where
  "NOTE_ONE = NoteAmount 1"

definition NOTE_ZERO :: note_amount where
  "NOTE_ZERO = NoteAmount 0"

definition note_is_zero :: "note_amount \<Rightarrow> bool" where
  "note_is_zero a \<longleftrightarrow> note_value a = 0"

definition note_to_le_bytes :: "note_amount \<Rightarrow> nat list" where
  "note_to_le_bytes a = le_digits 16 (unat (note_value a))"

definition u128_checked_add :: "u128 \<Rightarrow> u128 \<Rightarrow> u128 option" where
  "u128_checked_add a b = (if unat a + unat b < 2 ^ 128 then Some (a + b) else None)"

definition u128_checked_sub :: "u128 \<Rightarrow> u128 \<Rightarrow> u128 option" where
  "u128_checked_sub a b = (if b \<le> a then Some (a - b) else None)"

definition note_checked_add :: "note_amount \<Rightarrow> note_amount \<Rightarrow> note_amount option" where
  "note_checked_add a b = map_option NoteAmount (u128_checked_add (note_value a) (note_value b))"

definition note_checked_sub :: "note_amount \<Rightarrow> note_amount \<Rightarrow> note_amount option" where
  "note_checked_sub a b = map_option NoteAmount (u128_checked_sub (note_value a) (note_value b))"

instantiation note_amount :: linorder
begin

definition less_eq_note_amount :: "note_amount \<Rightarrow> note_amount \<Rightarrow> bool" where
  "less_eq_note_amount a b \<longleftrightarrow> note_value a \<le> note_value b"

definition less_note_amount :: "note_amount \<Rightarrow> note_amount \<Rightarrow> bool" where
  "less_note_amount a b \<longleftrightarrow> note_value a < note_value b"

instance
  by standard (auto simp: less_eq_note_amount_def less_note_amount_def note_amount.expand)

end

text \<open>The amount as a natural number, which all proofs about sums use.\<close>

definition value_of :: "note_amount \<Rightarrow> nat" where
  "value_of a = unat (note_value a)"

lemma value_of_less: "value_of a < 2 ^ 128"
  unfolding value_of_def by (rule unat_u128_less)

lemma value_of_inject: "value_of a = value_of b \<longleftrightarrow> a = b"
  by (cases a, cases b) (auto simp: value_of_def word_unat_eq_iff)

lemma note_le: "a \<le> b \<longleftrightarrow> value_of a \<le> value_of b"
  by (simp add: less_eq_note_amount_def value_of_def word_le_nat_alt)

lemma note_less: "a < b \<longleftrightarrow> value_of a < value_of b"
  by (simp add: less_note_amount_def value_of_def word_less_nat_alt)

lemma note_is_zero_value: "note_is_zero a \<longleftrightarrow> value_of a = 0"
  by (simp add: note_is_zero_def value_of_def unat_eq_0)

lemma value_of_zero [simp]: "value_of NOTE_ZERO = 0"
  by (simp add: value_of_def NOTE_ZERO_def)

lemma word_of_nat_unat_id: "word_of_nat (unat w) = w" for w :: "'a::len word"
  by simp

lemma u128_checked_add_Some:
  "u128_checked_add a b = Some c \<longleftrightarrow> unat c = unat a + unat b"
proof
  assume "u128_checked_add a b = Some c"
  then have "unat a + unat b < 2 ^ LENGTH(128)" and "c = a + b"
    by (simp_all add: u128_checked_add_def split: if_splits)
  then show "unat c = unat a + unat b"
    by (simp only: unat_word_ariths mod_less)
next
  assume c: "unat c = unat a + unat b"
  then have "unat a + unat b < 2 ^ 128" using unat_u128_less [of c] by simp
  moreover have "c = a + b"
    using c by (metis of_nat_add word_of_nat_unat_id)
  ultimately show "u128_checked_add a b = Some c" by (simp only: u128_checked_add_def if_True)
qed

lemma u128_checked_sub_Some:
  "u128_checked_sub a b = Some c \<longleftrightarrow> unat a = unat b + unat c"
proof
  assume "u128_checked_sub a b = Some c"
  then have "b \<le> a" and "c = a - b" by (simp_all add: u128_checked_sub_def split: if_splits)
  then show "unat a = unat b + unat c"
    by (simp add: unat_sub word_le_nat_alt)
next
  assume a: "unat a = unat b + unat c"
  then have "b \<le> a" by (simp add: word_le_nat_alt)
  moreover have "c = a - b"
    using a by (metis add_diff_cancel_left' of_nat_add word_of_nat_unat_id)
  ultimately show "u128_checked_sub a b = Some c" by (simp add: u128_checked_sub_def)
qed

lemma note_checked_add_Some:
  "note_checked_add a b = Some c \<longleftrightarrow> value_of c = value_of a + value_of b"
  by (cases c) (auto simp: note_checked_add_def value_of_def u128_checked_add_Some [symmetric])

lemma note_checked_add_None:
  "note_checked_add a b = None \<longleftrightarrow> 2 ^ 128 \<le> value_of a + value_of b"
  by (auto simp: note_checked_add_def value_of_def u128_checked_add_def not_less)

lemma note_checked_sub_Some:
  "note_checked_sub a b = Some c \<longleftrightarrow> value_of a = value_of b + value_of c"
  by (cases c) (auto simp: note_checked_sub_def value_of_def u128_checked_sub_Some [symmetric])

lemma note_checked_sub_None:
  "note_checked_sub a b = None \<longleftrightarrow> value_of a < value_of b"
  by (auto simp: note_checked_sub_def value_of_def u128_checked_sub_def word_le_nat_alt not_le
      word_less_nat_alt)

text \<open>\<open>+\<close>, \<open>+=\<close>, \<open>-\<close> and \<open>-=\<close>, which panic where the checked operations give \<open>None\<close>.\<close>

definition note_add :: "note_amount \<Rightarrow> note_amount \<Rightarrow> note_amount option" where
  "note_add a b = (case note_checked_add a b of Some v \<Rightarrow> Some v | None \<Rightarrow> None)"

definition note_sub :: "note_amount \<Rightarrow> note_amount \<Rightarrow> note_amount option" where
  "note_sub a b = (case note_checked_sub a b of Some v \<Rightarrow> Some v | None \<Rightarrow> None)"

lemma note_operators:
  "note_add a b = note_checked_add a b" "note_sub a b = note_checked_sub a b"
  by (simp_all add: note_add_def note_sub_def split: option.splits)

section \<open>External amounts\<close>

type_synonym i128 = "128 word"

datatype ext_amount = ExtAmount (ext_value: i128)

definition EXT_MAX :: ext_amount where
  "EXT_MAX = ExtAmount (word_of_int (2 ^ 127 - 1))"

definition EXT_ZERO :: ext_amount where
  "EXT_ZERO = ExtAmount 0"

definition ext_is_zero :: "ext_amount \<Rightarrow> bool" where
  "ext_is_zero a \<longleftrightarrow> ext_value a = 0"

definition in_i128 :: "int \<Rightarrow> bool" where
  "in_i128 k \<longleftrightarrow> - (2 ^ 127) \<le> k \<and> k < 2 ^ 127"

definition ext_checked_add :: "ext_amount \<Rightarrow> ext_amount \<Rightarrow> ext_amount option" where
  "ext_checked_add a b =
     (if in_i128 (sint (ext_value a) + sint (ext_value b))
      then Some (ExtAmount (ext_value a + ext_value b)) else None)"

definition ext_checked_sub :: "ext_amount \<Rightarrow> ext_amount \<Rightarrow> ext_amount option" where
  "ext_checked_sub a b =
     (if in_i128 (sint (ext_value a) - sint (ext_value b))
      then Some (ExtAmount (ext_value a - ext_value b)) else None)"

definition ext_checked_neg :: "ext_amount \<Rightarrow> ext_amount option" where
  "ext_checked_neg a =
     (if in_i128 (- sint (ext_value a)) then Some (ExtAmount (- ext_value a)) else None)"

lemma sint_inject: "sint a = sint b \<longleftrightarrow> a = b" for a b :: "'a::len word"
  by (auto dest: signed_word_eqI)

instantiation ext_amount :: linorder
begin

definition less_eq_ext_amount :: "ext_amount \<Rightarrow> ext_amount \<Rightarrow> bool" where
  "less_eq_ext_amount a b \<longleftrightarrow> sint (ext_value a) \<le> sint (ext_value b)"

definition less_ext_amount :: "ext_amount \<Rightarrow> ext_amount \<Rightarrow> bool" where
  "less_ext_amount a b \<longleftrightarrow> sint (ext_value a) < sint (ext_value b)"

instance
  by standard
    (auto simp: less_eq_ext_amount_def less_ext_amount_def sint_inject ext_amount.expand)

end

text \<open>The signed value, and the conversions between the two kinds of amount.\<close>

definition signed_value :: "ext_amount \<Rightarrow> int" where
  "signed_value a = sint (ext_value a)"

definition note_try_from_ext :: "ext_amount \<Rightarrow> note_amount option" where
  "note_try_from_ext a = (if 0 \<le> sint (ext_value a) then Some (NoteAmount (ext_value a)) else None)"

definition ext_try_from_note :: "note_amount \<Rightarrow> ext_amount option" where
  "ext_try_from_note a =
     (if unat (note_value a) < 2 ^ 127 then Some (ExtAmount (note_value a)) else None)"

section \<open>Field elements\<close>

datatype field_element = Field (field_value: u256)

text \<open>\<open>BN254_PRIME\<close> in little-endian 64-bit limbs.\<close>

definition BN254_PRIME :: u256 where
  "BN254_PRIME = word_of_nat (0x43e1f593f0000001 + 2 ^ 64 * 0x2833e84879b97091
     + 2 ^ 128 * 0xb85045b68181585d + 2 ^ 192 * 0x30644e72e131a029)"

definition BN254_MODULUS_BE :: "nat list" where
  "BN254_MODULUS_BE =
    [48, 100, 78, 114, 225, 49, 160, 41, 184, 80, 69, 182, 129, 129, 88, 93, 40, 51, 232, 72, 121,
     185, 112, 145, 67, 225, 245, 147, 240, 0, 0, 1]"

definition field_modulus :: u256 where
  "field_modulus = from_be_bytes BN254_MODULUS_BE"

definition field_is_zero :: "field_element \<Rightarrow> bool" where
  "field_is_zero f \<longleftrightarrow> f = Field 0"

definition field_to_be_bytes :: "field_element \<Rightarrow> nat list" where
  "field_to_be_bytes f = to_be_bytes (field_value f)"

definition field_to_le_bytes :: "field_element \<Rightarrow> nat list" where
  "field_to_le_bytes f = to_le_bytes (field_value f)"

definition try_from_u256 :: "u256 \<Rightarrow> field_element option" where
  "try_from_u256 v = (if field_modulus \<le> v then None else Some (Field v))"

definition try_from_be_bytes :: "nat list \<Rightarrow> field_element option" where
  "try_from_be_bytes bs = try_from_u256 (from_be_bytes bs)"

definition try_from_le_bytes :: "nat list \<Rightarrow> field_element option" where
  "try_from_le_bytes bs = try_from_u256 (from_le_bytes bs)"

definition from_le_bytes_mod_order :: "nat list \<Rightarrow> field_element" where
  "from_le_bytes_mod_order bs = Field (from_le_bytes bs mod BN254_PRIME)"

definition encode_0x_hex :: "nat list \<Rightarrow> string" where
  "encode_0x_hex bs = ''0x'' @ hex_encode bs"

text \<open>\<open>decode\<close> is \<open>hex::decode_to_slice\<close> of the \<open>hex\<close> crate.\<close>

definition parse_0x_hex_32 :: "(string \<Rightarrow> nat list option) \<Rightarrow> string \<Rightarrow> nat list option" where
  "parse_0x_hex_32 decode s0 =
     (let s = (if take 2 s0 = ''0x'' then drop 2 s0 else s0) in
      if length s \<noteq> 64 then None else decode s)"

definition from_0x_hex_le_bytes :: "(string \<Rightarrow> nat list option) \<Rightarrow> string \<Rightarrow> field_element option" where
  "from_0x_hex_le_bytes decode s = Option.bind (parse_0x_hex_32 decode s) try_from_le_bytes"

definition from_0x_hex_be :: "(string \<Rightarrow> nat list option) \<Rightarrow> string \<Rightarrow> field_element option" where
  "from_0x_hex_be decode s = Option.bind (parse_0x_hex_32 decode s) try_from_be_bytes"

definition to_0x_hex_be :: "field_element \<Rightarrow> string" where
  "to_0x_hex_be f = encode_0x_hex (field_to_be_bytes f)"

definition field_from_note :: "note_amount \<Rightarrow> field_element" where
  "field_from_note a = Field (ucast (note_value a))"

definition u256_checked_sub :: "u256 \<Rightarrow> u256 \<Rightarrow> u256 option" where
  "u256_checked_sub a b = (if b \<le> a then Some (a - b) else None)"

definition u256_checked_add :: "u256 \<Rightarrow> u256 \<Rightarrow> u256 option" where
  "u256_checked_add a b = (if unat a + unat b < 2 ^ 256 then Some (a + b) else None)"

text \<open>\<open>i128::unsigned_abs\<close>, which has a value for the smallest \<open>i128\<close> too.\<close>

definition unsigned_abs :: "i128 \<Rightarrow> u128" where
  "unsigned_abs v = word_of_int \<bar>sint v\<bar>"

definition field_try_from_ext :: "ext_amount \<Rightarrow> field_element option" where
  "field_try_from_ext a =
     (let m = field_modulus in
      if 0 \<le> sint (ext_value a) then
        (let v = ucast (ext_value a) in
         if m \<le> v then None else Some (Field v))
      else
        (let abs_u256 = ucast (unsigned_abs (ext_value a)) in
         if m \<le> abs_u256 then None else map_option Field (u256_checked_sub m abs_u256)))"

definition field_add :: "field_element \<Rightarrow> field_element \<Rightarrow> field_element option" where
  "field_add a b =
     (let m = field_modulus in
      Option.bind (u256_checked_add (field_value a) (field_value b)) (\<lambda>v.
        if m \<le> v then map_option Field (u256_checked_sub v m) else Some (Field v)))"

definition field_sub :: "field_element \<Rightarrow> field_element \<Rightarrow> field_element option" where
  "field_sub a b =
     (let m = field_modulus in
      if field_value b \<le> field_value a
      then map_option Field (u256_checked_sub (field_value a) (field_value b))
      else Option.bind (u256_checked_sub (field_value b) (field_value a)) (\<lambda>diff.
             map_option Field (u256_checked_sub m diff)))"

section \<open>Facts\<close>

lemma field_modulus_eq [simp]: "field_modulus = bn256_modulus"
  by (simp add: field_modulus_def bn256_modulus_def BN254_MODULUS_BE_def BN256_MOD_BYTES_def)

lemma BN254_PRIME_eq: "BN254_PRIME = bn256_modulus"
proof -
  have "(0x43e1f593f0000001 + 2 ^ 64 * 0x2833e84879b97091
     + 2 ^ 128 * 0xb85045b68181585d + 2 ^ 192 * 0x30644e72e131a029 :: nat) = prime"
    by (simp add: prime_def)
  then show ?thesis by (simp only: BN254_PRIME_def bn256_modulus_eq)
qed

lemma try_from_u256_Some: "try_from_u256 v = Some f \<longleftrightarrow> canonical v \<and> f = Field v"
  by (auto simp: try_from_u256_def canonical_def not_le)

lemma unat_checked_sub: "b \<le> a \<Longrightarrow> unat (a - b) = unat a - unat b" for a b :: u256
  by (simp add: unat_sub word_le_nat_alt)

lemma field_add_value:
  assumes "canonical (field_value a)" "canonical (field_value b)"
  shows "\<exists>c. field_add a b = Some (Field c)
    \<and> unat c = (unat (field_value a) + unat (field_value b)) mod prime"
proof -
  let ?x = "field_value a" and ?y = "field_value b"
  from u256_add_canonical [OF assms] have add: "u256_checked_add ?x ?y = Some (?x + ?y)"
    and un: "unat (?x + ?y) = unat ?x + unat ?y"
    by (simp_all add: u256_add_def u256_checked_add_def split: if_splits)
  have less: "unat ?x < prime" "unat ?y < prime" using assms by (simp_all add: canonical_unat)
  show ?thesis
  proof (cases "bn256_modulus \<le> ?x + ?y")
    case True
    then have ge: "prime \<le> unat ?x + unat ?y" using un by (simp add: word_le_nat_alt)
    have "unat (?x + ?y - bn256_modulus) = unat ?x + unat ?y - prime"
      using unat_checked_sub [OF True] un by simp
    also have "\<dots> = (unat ?x + unat ?y) mod prime"
      using ge less by (simp add: le_mod_geq)
    finally show ?thesis using add True by (simp add: field_add_def u256_checked_sub_def)
  next
    case False
    then have "unat ?x + unat ?y < prime" using un by (simp add: word_le_nat_alt not_le)
    then show ?thesis using add False un by (simp add: field_add_def)
  qed
qed

lemma field_sub_value:
  assumes "canonical (field_value a)" "canonical (field_value b)"
  shows "\<exists>c. field_sub a b = Some (Field c)
    \<and> int (unat c) = (int (unat (field_value a)) - int (unat (field_value b))) mod int prime"
proof -
  let ?x = "field_value a" and ?y = "field_value b"
  have less: "unat ?x < prime" "unat ?y < prime" using assms by (simp_all add: canonical_unat)
  show ?thesis
  proof (cases "?y \<le> ?x")
    case True
    then have "unat ?y \<le> unat ?x" by (simp add: word_le_nat_alt)
    then have "(unat ?x - unat ?y) mod prime = unat ?x - unat ?y" using less by simp
    with \<open>unat ?y \<le> unat ?x\<close> unat_checked_sub [OF True]
    have "int (unat (?x - ?y)) = (int (unat ?x) - int (unat ?y)) mod int prime"
      by (simp only: of_nat_diff [symmetric] zmod_int [symmetric])
    with True show ?thesis by (simp add: field_sub_def u256_checked_sub_def)
  next
    case False
    then have le: "?x \<le> ?y" and lt: "unat ?x < unat ?y" by (simp_all add: word_le_nat_alt)
    have diff: "unat (?y - ?x) = unat ?y - unat ?x" by (rule unat_checked_sub [OF le])
    then have m: "?y - ?x \<le> bn256_modulus" using less by (simp add: word_le_nat_alt)
    have "int (unat (bn256_modulus - (?y - ?x))) = int (unat ?x) - int (unat ?y) + int prime"
      using unat_checked_sub [OF m] diff less lt by simp
    also have "\<dots> = (int (unat ?x) - int (unat ?y)) mod int prime"
      using less lt by (subst mod_add_self2 [symmetric], intro mod_pos_pos_trivial [symmetric]) linarith+
    finally show ?thesis using False le m by (simp add: field_sub_def u256_checked_sub_def)
  qed
qed

text \<open>What the two number types denote, for the properties.\<close>

lemma sint_128_bounds: "- (2 ^ 127) \<le> sint v \<and> sint v < 2 ^ 127" for v :: i128
  using sint_range_size [of v] by (simp add: word_size)

lemma uint_nonneg_128: "0 \<le> sint v \<Longrightarrow> uint v = sint v" for v :: i128
proof -
  assume "0 \<le> sint v"
  moreover have "sint v < 2 ^ LENGTH(128)" using sint_128_bounds [of v] by simp
  ultimately show ?thesis unfolding uint_sint by (rule take_bit_int_eq_self)
qed

lemma sint_small_128: "unat v < 2 ^ 127 \<Longrightarrow> sint v = int (unat v)" for v :: i128
proof -
  assume "unat v < 2 ^ 127"
  then have "int (unat v) < int (2 ^ 127)" by (simp only: of_nat_less_iff)
  then have "int (unat v) < 2 ^ (LENGTH(128) - Suc 0)" by simp
  moreover have "- (2 ^ (LENGTH(128) - Suc 0)) \<le> int (unat v)"
    by (rule order_trans [of _ 0]) simp_all
  ultimately have "signed_take_bit (LENGTH(128) - Suc 0) (int (unat v)) = int (unat v)"
    by (rule signed_take_bit_int_eq_self [rotated])
  then show ?thesis by (simp only: sint_uint uint_nat)
qed

lemma note_try_from_ext_Some:
  "note_try_from_ext a = Some n \<longleftrightarrow> signed_value a = int (value_of n)"
proof
  assume "note_try_from_ext a = Some n"
  then have "0 \<le> sint (ext_value a)" and "n = NoteAmount (ext_value a)"
    by (simp_all add: note_try_from_ext_def split: if_splits)
  then show "signed_value a = int (value_of n)"
    using uint_nonneg_128 [of "ext_value a"] by (simp add: signed_value_def value_of_def)
next
  assume eq: "signed_value a = int (value_of n)"
  then have nonneg: "0 \<le> sint (ext_value a)" by (simp add: signed_value_def)
  have "uint (ext_value a) = uint (note_value n)"
    using eq uint_nonneg_128 [OF nonneg] by (simp add: signed_value_def value_of_def)
  then have "ext_value a = note_value n" by (simp only: word_uint_eq_iff)
  with nonneg show "note_try_from_ext a = Some n" by (simp add: note_try_from_ext_def)
qed

lemma sint_128_of_int: "in_i128 k \<Longrightarrow> sint (word_of_int k :: i128) = k"
proof -
  assume "in_i128 k"
  then have "- (2 ^ (LENGTH(128) - Suc 0)) \<le> k" "k < 2 ^ (LENGTH(128) - Suc 0)"
    by (simp_all add: in_i128_def)
  then have "signed_take_bit (LENGTH(128) - Suc 0) k = k" by (rule signed_take_bit_int_eq_self)
  then show ?thesis unfolding signed_of_int by (simp only: of_int_eq_id id_apply)
qed

lemma ext_checked_neg_Some: "ext_checked_neg a = Some b \<Longrightarrow> signed_value b = - signed_value a"
proof -
  assume "ext_checked_neg a = Some b"
  then have range: "in_i128 (- sint (ext_value a))" and b: "b = ExtAmount (- ext_value a)"
    by (simp_all add: ext_checked_neg_def split: if_splits)
  have neg: "- ext_value a = word_of_int (- sint (ext_value a))" by simp
  have "sint (- ext_value a) = - sint (ext_value a)"
    by (subst neg) (rule sint_128_of_int [OF range])
  then show ?thesis by (simp only: signed_value_def b ext_amount.sel)
qed

lemma signed_zero [simp]: "signed_value EXT_ZERO = 0"
  by (simp add: signed_value_def EXT_ZERO_def)

lemma ext_checked_neg_None: "ext_checked_neg a = None \<longleftrightarrow> signed_value a = - (2 ^ 127)"
  using sint_128_bounds [of "ext_value a"]
  by (auto simp: ext_checked_neg_def in_i128_def signed_value_def)

lemma note_of_nat: "n < 2 ^ 128 \<Longrightarrow> \<exists>a. value_of a = n"
  by (intro exI [of _ "NoteAmount (word_of_nat n)"]) (simp add: value_of_def unat_of_nat)

lemma ext_try_from_note_Some:
  "ext_try_from_note n = Some a \<longleftrightarrow> signed_value a = int (value_of n)"
proof
  assume "ext_try_from_note n = Some a"
  then show "signed_value a = int (value_of n)"
    by (auto simp: ext_try_from_note_def signed_value_def value_of_def sint_small_128
        split: if_splits)
next
  assume eq: "signed_value a = int (value_of n)"
  then have "value_of n < 2 ^ 127"
    using sint_128_bounds [of "ext_value a"] by (simp add: signed_value_def)
  then have small: "unat (note_value n) < 2 ^ 127" by (simp add: value_of_def)
  then have "sint (ext_value a) = sint (note_value n)"
    using eq sint_small_128 [OF small] by (simp add: signed_value_def value_of_def)
  then have "ext_value a = note_value n" by (simp only: sint_inject)
  with small show "ext_try_from_note n = Some a" by (cases a) (simp add: ext_try_from_note_def)
qed

lemma field_from_note_value:
  "unat (field_value (field_from_note n)) = value_of n" "canonical (field_value (field_from_note n))"
proof -
  have "value_of n < 2 ^ LENGTH(256)" using value_of_less [of n] by simp
  then show *: "unat (field_value (field_from_note n)) = value_of n"
    by (simp add: field_from_note_def value_of_def unsigned_ucast_eq take_bit_nat_eq_self)
  show "canonical (field_value (field_from_note n))"
    using value_of_less [of n] pow_128_less by (simp add: canonical_unat *)
qed

lemma parse_encode: "hex_decodes decode \<Longrightarrow> is_bytes bs \<Longrightarrow> length bs = 32 \<Longrightarrow>
    parse_0x_hex_32 decode (encode_0x_hex bs) = Some bs"
  by (simp add: parse_0x_hex_32_def encode_0x_hex_def hex_decodes_def Let_def)

text \<open>Sign extension to the host's 256-bit integer.\<close>

lemma sint_scast_256: "sint (scast v :: 256 word) = sint v" for v :: i128
proof -
  have "signed_take_bit (LENGTH(256) - Suc 0) (sint v) = sint v"
    using sint_128_bounds [of v] by (intro signed_take_bit_int_eq_self) auto
  then show ?thesis by (simp only: signed_scast_eq)
qed

section \<open>Reading and writing\<close>

lemma field_codec_facts:
  assumes "hex_decodes decode" and "canonical (field_value f)"
    and "is_bytes bs" and "length bs = 32"
  shows "from_0x_hex_be decode (to_0x_hex_be f) = Some f"
    and "try_from_be_bytes (field_to_be_bytes f) = Some f"
    and "try_from_le_bytes (field_to_le_bytes f) = Some f"
    and "from_0x_hex_le_bytes decode (encode_0x_hex (field_to_le_bytes f)) = Some f"
    and "try_from_be_bytes bs = Some g \<longleftrightarrow> be_value bs < prime \<and> field_to_be_bytes g = bs"
    and "try_from_le_bytes bs = Some g \<longleftrightarrow> le_value bs < prime \<and> field_to_le_bytes g = bs"
    and "unat (field_value (from_le_bytes_mod_order bs)) = le_value bs mod prime"
    and "le_value bs < prime \<Longrightarrow> try_from_le_bytes bs = Some (from_le_bytes_mod_order bs)"
proof -
  have f: "try_from_u256 (field_value f) = Some f"
    using assms(2) by (cases f) (simp add: try_from_u256_Some)
  show be: "try_from_be_bytes (field_to_be_bytes f) = Some f"
    and le: "try_from_le_bytes (field_to_le_bytes f) = Some f"
    by (simp_all add: try_from_be_bytes_def try_from_le_bytes_def field_to_be_bytes_def
        field_to_le_bytes_def f)
  show "from_0x_hex_be decode (to_0x_hex_be f) = Some f"
    using be by (simp add: from_0x_hex_be_def to_0x_hex_be_def parse_encode [OF assms(1)]
        field_to_be_bytes_def)
  show "from_0x_hex_le_bytes decode (encode_0x_hex (field_to_le_bytes f)) = Some f"
    using le by (simp add: from_0x_hex_le_bytes_def parse_encode [OF assms(1)]
        field_to_le_bytes_def)
  note vb = unat_from_be_bytes [OF assms(3,4)] and vl = unat_from_le_bytes [OF assms(3,4)]
  show "try_from_be_bytes bs = Some g \<longleftrightarrow> be_value bs < prime \<and> field_to_be_bytes g = bs"
    by (cases g) (auto simp: try_from_be_bytes_def try_from_u256_Some canonical_unat vb
        field_to_be_bytes_def to_from_be_bytes [OF assms(3,4)])
  show "try_from_le_bytes bs = Some g \<longleftrightarrow> le_value bs < prime \<and> field_to_le_bytes g = bs"
    by (cases g) (auto simp: try_from_le_bytes_def try_from_u256_Some canonical_unat vl
        field_to_le_bytes_def to_from_le_bytes [OF assms(3,4)])
  show r: "unat (field_value (from_le_bytes_mod_order bs)) = le_value bs mod prime"
    by (simp add: from_le_bytes_mod_order_def BN254_PRIME_eq unat_mod vl)
  show "le_value bs < prime \<Longrightarrow> try_from_le_bytes bs = Some (from_le_bytes_mod_order bs)"
    using r vl by (cases "from_le_bytes_mod_order bs")
      (simp add: try_from_le_bytes_def try_from_u256_Some canonical_unat word_unat_eq_iff)
qed

section \<open>External amounts in the field\<close>

lemma unat_unsigned_abs: "int (unat (unsigned_abs v)) = \<bar>sint v\<bar>"
proof -
  have "\<bar>sint v\<bar> < 2 ^ LENGTH(128)"
    using sint_128_bounds [of v] unfolding abs_less_iff by simp
  then have "uint (unsigned_abs v) = \<bar>sint v\<bar>"
    unfolding unsigned_abs_def uint_word_of_int_eq by (intro take_bit_int_eq_self) simp_all
  then show ?thesis by (simp only: uint_nat)
qed

lemma unat_ucast_u256: "unat (ucast v :: u256) = unat v" for v :: "128 word"
proof -
  have "unat v < 2 ^ LENGTH(256)" using unat_u128_less [of v] by simp
  then show ?thesis by (simp add: unsigned_ucast_eq take_bit_nat_eq_self)
qed

lemma ucast_canonical: "canonical (ucast v)" for v :: "128 word"
  using unat_u128_less [of v] pow_128_less by (simp only: canonical_unat unat_ucast_u256)

lemma field_try_from_ext_value:
  "\<exists>f. field_try_from_ext a = Some (Field f) \<and> canonical f
    \<and> int (unat f) = signed_value a mod int prime"
proof -
  have less: "\<bar>sint (ext_value a)\<bar> < int prime"
    using sint_128_bounds [of "ext_value a"] unfolding abs_less_iff by (simp add: prime_def)
  show ?thesis
  proof (cases "0 \<le> sint (ext_value a)")
    case True
    have c: "canonical (ucast (ext_value a))" by (rule ucast_canonical)
    have "int (unat (ext_value a)) = sint (ext_value a)"
      using uint_nonneg_128 [OF True] by (simp only: uint_nat)
    then have "int (unat (ucast (ext_value a) :: u256)) = signed_value a mod int prime"
      using True less unfolding unat_ucast_u256 signed_value_def by (simp only: mod_pos_pos_trivial)
    with True c show ?thesis by (auto simp: field_try_from_ext_def Let_def canonical_def)
  next
    case False
    let ?w = "ucast (unsigned_abs (ext_value a)) :: u256"
    have w: "int (unat ?w) = - sint (ext_value a)"
      using False by (simp only: unat_ucast_u256 unat_unsigned_abs)
    have c: "canonical ?w" by (rule ucast_canonical)
    then have le: "?w \<le> bn256_modulus" by (simp add: canonical_def)
    have "unat ?w \<le> prime" using c by (simp add: canonical_unat)
    then have d: "int (unat (bn256_modulus - ?w)) = sint (ext_value a) + int prime"
      using w unfolding unat_checked_sub [OF le] unat_bn256_modulus by (simp only: of_nat_diff)
    also have "\<dots> = sint (ext_value a) mod int prime"
      using False less
      by (subst mod_add_self2 [symmetric], intro mod_pos_pos_trivial [symmetric]) linarith+
    finally have v: "int (unat (bn256_modulus - ?w)) = signed_value a mod int prime"
      by (simp only: signed_value_def)
    have "int (unat (bn256_modulus - ?w)) < int prime" using d False by simp
    then have "canonical (bn256_modulus - ?w)" by (simp only: canonical_unat of_nat_less_iff)
    with v False c le show ?thesis
      by (auto simp: field_try_from_ext_def Let_def canonical_def u256_checked_sub_def)
  qed
qed

section \<open>Properties\<close>

text \<open>
  \<open>Field\<close> addition and subtraction. On canonical elements neither operator panics, the
  results are canonical again and are the sum and the difference modulo the BN254 prime, and
  subtraction undoes addition.
\<close>

theorem field_operators_modular:
  assumes "canonical (field_value a)" and "canonical (field_value b)"
  shows "\<exists>s d. field_add a b = Some s \<and> canonical (field_value s)
    \<and> unat (field_value s) = (unat (field_value a) + unat (field_value b)) mod prime
    \<and> field_sub a b = Some d \<and> canonical (field_value d)
    \<and> int (unat (field_value d))
        = (int (unat (field_value a)) - int (unat (field_value b))) mod int prime
    \<and> field_sub s b = Some a"
proof -
  obtain s where s: "field_add a b = Some (Field s)"
    "unat s = (unat (field_value a) + unat (field_value b)) mod prime"
    using field_add_value [OF assms] by blast
  obtain d where d: "field_sub a b = Some (Field d)"
    "int (unat d) = (int (unat (field_value a)) - int (unat (field_value b))) mod int prime"
    using field_sub_value [OF assms] by blast
  have cs: "canonical s" using s(2) prime_pos by (simp add: canonical_unat)
  have cd: "canonical d"
    using d(2) prime_pos by (metis canonical_unat of_nat_0_less_iff of_nat_less_iff pos_mod_bound)
  obtain c where c: "field_sub (Field s) b = Some (Field c)"
    "int (unat c) = (int (unat s) - int (unat (field_value b))) mod int prime"
    using field_sub_value [of "Field s" b] cs assms by auto
  have "int (unat c) = int (unat (field_value a)) mod int prime"
    unfolding c(2) s(2) by (simp add: zmod_int mod_diff_left_eq)
  also have "\<dots> = int (unat (field_value a))"
    using assms(1) unfolding canonical_unat zmod_int [symmetric] by (simp only: mod_less)
  finally have "unat c = unat (field_value a)" by (simp only: of_nat_eq_iff)
  then have "field_sub (Field s) b = Some a"
    using c(1) by (cases a) (simp add: word_unat_eq_iff)
  with s d cs cd show ?thesis by auto
qed

theorem field_operators_modular_witness:
  "(\<exists>s d. field_add (Field 7) (Field 9) = Some s \<and> canonical (field_value s)
    \<and> unat (field_value s) = (unat (7 :: u256) + unat (9 :: u256)) mod prime
    \<and> field_sub (Field 7) (Field 9) = Some d \<and> canonical (field_value d)
    \<and> int (unat (field_value d)) = (int (unat (7 :: u256)) - int (unat (9 :: u256))) mod int prime
    \<and> field_sub s (Field 9) = Some (Field 7))"
  using field_operators_modular [of "Field 7" "Field 9"] by (simp only: field_element.sel canonical_samples simp_thms True_implies_equals)

text \<open>
  Reading and writing field elements. For a decoder that reads back what the \<open>hex\<close> crate
  writes: every canonical element survives the hexadecimal text and both byte orders; 32 bytes
  are accepted exactly when their value is below the modulus, and then they are the bytes the
  element is written with; the reducing reader gives the value modulo the prime, and the same
  element as the rejecting one where that accepts.
\<close>

theorem field_codec:
  assumes "hex_decodes decode" and "canonical (field_value f)"
    and "is_bytes bs" and "length bs = 32"
  shows "from_0x_hex_be decode (to_0x_hex_be f) = Some f
    \<and> try_from_be_bytes (field_to_be_bytes f) = Some f
    \<and> try_from_le_bytes (field_to_le_bytes f) = Some f
    \<and> from_0x_hex_le_bytes decode (encode_0x_hex (field_to_le_bytes f)) = Some f
    \<and> (try_from_be_bytes bs = Some g \<longleftrightarrow> be_value bs < prime \<and> field_to_be_bytes g = bs)
    \<and> (try_from_le_bytes bs = Some g \<longleftrightarrow> le_value bs < prime \<and> field_to_le_bytes g = bs)
    \<and> unat (field_value (from_le_bytes_mod_order bs)) = le_value bs mod prime
    \<and> (le_value bs < prime \<longrightarrow> try_from_le_bytes bs = Some (from_le_bytes_mod_order bs))"
  using field_codec_facts [OF assms] by simp

theorem field_codec_witness:
  "from_0x_hex_be hex_read (to_0x_hex_be (Field 7)) = Some (Field 7)
   \<and> from_0x_hex_le_bytes hex_read (encode_0x_hex (field_to_le_bytes (Field 7))) = Some (Field 7)
   \<and> try_from_le_bytes (le_digits 32 7) = Some (from_le_bytes_mod_order (le_digits 32 7))
   \<and> try_from_le_bytes (le_digits 32 (prime + 7)) \<noteq> Some (Field 7)
   \<and> unat (field_value (from_le_bytes_mod_order (le_digits 32 (prime + 7)))) = 7"
proof -
  have c: "canonical (field_value (Field 7))" by simp
  have v: "le_value (le_digits 32 7) = 7" "le_value (le_digits 32 (prime + 7)) = prime + 7"
    by (rule le_value_le_digits, simp add: prime_def)+
  have "(prime + 7) mod prime = 7" by (simp add: prime_def)
  with field_codec [OF hex_read_decodes c is_bytes_le_digits length_le_digits, of 7]
    field_codec [OF hex_read_decodes c is_bytes_le_digits length_le_digits, of "prime + 7"]
  show ?thesis unfolding v using prime_less by (auto simp: prime_def)
qed

text \<open>
  The conversions between the two amounts are exact. A conversion succeeds exactly when the
  value exists on the other side (\<open>NoteAmount\<close> to \<open>ExtAmount\<close> up to \<open>i128::MAX\<close>, \<open>ExtAmount\<close> to
  \<open>NoteAmount\<close> when it is not negative), it then keeps the value, and the operators on notes
  give the exact sum and difference or panic.
\<close>

theorem amount_conversions_exact:
  "(note_try_from_ext a = Some n \<longleftrightarrow> signed_value a = int (value_of n))
   \<and> (ext_try_from_note n = Some a \<longleftrightarrow> signed_value a = int (value_of n))
   \<and> (note_add n m = Some s \<longleftrightarrow> value_of s = value_of n + value_of m)
   \<and> (note_add n m = None \<longleftrightarrow> 2 ^ 128 \<le> value_of n + value_of m)
   \<and> (note_sub n m = Some s \<longleftrightarrow> value_of n = value_of m + value_of s)
   \<and> (note_sub n m = None \<longleftrightarrow> n < m)"
  by (simp_all add: note_try_from_ext_Some ext_try_from_note_Some note_operators
      note_checked_add_Some note_checked_add_None note_checked_sub_Some note_checked_sub_None
      note_less)

end
