(* ===== verification/CoinSelection.thy ===== *)
theory CoinSelection
  imports Amounts "HOL-Library.Sublist" "HOL-Library.Multiset"
begin

text \<open>
  Coin selection (\<open>app/crates/core/tx-planner/src/plan/combination.rs\<close>): which notes of a wallet
  reach a target amount.

  The notes are sorted by amount with an unstable sort, so the order of equal amounts is left
  open: the sort is an argument, and the facts hold for every function that returns a sorted
  permutation. \<open>usize\<close> has 32 bits on the wasm target; a shorter one only makes overflow easier.
  The two-pointer loop is a partial function, so that returning is something to prove; the
  depth-first search consumes candidates and is total.
\<close>

section \<open>Errors and results\<close>

datatype plan_error =
    NoSpendableNotes
  | NoCombination
  | TooManyNotes nat nat
  | NoteIndexOutOfRange nat
  | InputAmountOverflow
  | InternalError string
  | InvalidPlan
  | NoteCommitmentNotFound field_element
  | NoteAmountMismatch field_element note_amount note_amount
  | NoNoteForAmount note_amount
  | AmbiguousNoteForAmount note_amount

definition TRANSACTION_LIMIT :: nat where
  "TRANSACTION_LIMIT = 10"

datatype combination_result =
    TwoExact nat nat
  | OneExact nat
  | TwoOvershoot nat nat note_amount
  | OneOvershoot nat note_amount
  | ExactK "nat list"
  | Overshoot "nat list" note_amount
  | Impossible

datatype two_scan = TwoScanExact nat nat | TwoScanOvershoot nat nat note_amount | TwoScanMiss

datatype one_scan = OneScanExact nat | OneScanOvershoot nat note_amount | OneScanMiss

datatype k_scan = KScanExact "nat list" | KScanOvershoot "nat list" note_amount | KScanMiss

type_synonym indexed_note = "nat \<times> note_amount"

definition USIZE_BITS :: nat where
  "USIZE_BITS = 32"

section \<open>Two notes\<close>

partial_function (option) two_scan_loop ::
  "indexed_note list \<Rightarrow> note_amount \<Rightarrow> (nat \<times> nat \<times> note_amount) option \<Rightarrow> nat \<Rightarrow> nat
     \<Rightarrow> (plan_error, two_scan) result option" where
  "two_scan_loop sorted_vals goal best left right =
     (if left < right then
        (case nth_opt sorted_vals left of None \<Rightarrow> Some (Inl Trap) | Some l \<Rightarrow>
        (case nth_opt sorted_vals right of None \<Rightarrow> Some (Inl Trap) | Some r \<Rightarrow>
        (case note_checked_add (snd l) (snd r) of
           None \<Rightarrow> Some (Inl (Err InputAmountOverflow))
         | Some pair_sum \<Rightarrow>
           (case note_checked_sub pair_sum goal of
              None \<Rightarrow>
                (case checked_add USIZE_BITS left 1 of
                   None \<Rightarrow> Some (Inl (Err (InternalError ''two-scan: left index overflow'')))
                 | Some left1 \<Rightarrow> two_scan_loop sorted_vals goal best left1 right)
            | Some diff \<Rightarrow>
                (if note_is_zero diff then Some (Inr (TwoScanExact (fst l) (fst r)))
                 else if NOTE_ZERO < diff then
                   (case checked_sub right 1 of
                      None \<Rightarrow> Some (Inl (Err (InternalError ''two-scan: right index underflow'')))
                    | Some right1 \<Rightarrow>
                        two_scan_loop sorted_vals goal
                          (case best of
                             None \<Rightarrow> Some (fst l, fst r, diff)
                           | Some (_, _, excess) \<Rightarrow>
                               if diff < excess then Some (fst l, fst r, diff) else best)
                          left right1)
                 else two_scan_loop sorted_vals goal best left right)))))
      else Some (Inr (case best of
             Some (i, j, excess) \<Rightarrow> TwoScanOvershoot i j excess
           | None \<Rightarrow> TwoScanMiss)))"

definition two_scan_run ::
  "indexed_note list \<Rightarrow> note_amount \<Rightarrow> (plan_error, two_scan) result option" where
  "two_scan_run sorted_vals goal =
     (if length sorted_vals < 2 then Some (Inr TwoScanMiss)
      else (case checked_sub (length sorted_vals) 1 of
              None \<Rightarrow> Some (Inl (Err (InternalError ''two-scan: right bound underflow'')))
            | Some right \<Rightarrow> two_scan_loop sorted_vals goal None 0 right))"

section \<open>One note\<close>

fun one_scan_run :: "indexed_note list \<Rightarrow> note_amount \<Rightarrow> one_scan" where
  "one_scan_run [] goal = OneScanMiss"
| "one_scan_run ((idx, x) # rest) goal =
     (case note_checked_sub x goal of
        None \<Rightarrow> one_scan_run rest goal
      | Some diff \<Rightarrow>
          if note_is_zero diff then OneScanExact idx
          else if NOTE_ZERO < diff then OneScanOvershoot idx diff
          else one_scan_run rest goal)"

section \<open>Three notes and more\<close>

text \<open>What the search changes; candidates, goal and \<open>target_k\<close> of \<open>DfsContext\<close> are arguments.\<close>

record dfs_context =
  iteration_limit :: int
  dfs_path :: "nat list"
  best_overshoot :: "(note_amount \<times> nat list) option"

definition i32_checked_sub :: "int \<Rightarrow> int \<Rightarrow> int option" where
  "i32_checked_sub a b = (if - (2 ^ 31) \<le> a - b \<and> a - b < 2 ^ 31 then Some (a - b) else None)"

text \<open>The branch \<open>path.len() == target_k\<close>.\<close>

definition dfs_full ::
  "note_amount \<Rightarrow> note_amount \<Rightarrow> dfs_context \<Rightarrow> bool \<times> dfs_context" where
  "dfs_full goal acc ctx =
     (case note_checked_sub acc goal of
        None \<Rightarrow> (False, ctx)
      | Some diff \<Rightarrow>
          if note_is_zero diff then (True, ctx)
          else if NOTE_ZERO < diff
              \<and> (case best_overshoot ctx of None \<Rightarrow> True | Some (min_ov, _) \<Rightarrow> diff < min_ov)
          then (False, ctx\<lparr>best_overshoot := Some (diff, dfs_path ctx)\<rparr>)
          else (False, ctx))"

function dfs ::
  "indexed_note list \<Rightarrow> note_amount \<Rightarrow> nat \<Rightarrow> note_amount \<Rightarrow> nat \<Rightarrow> dfs_context
     \<Rightarrow> (plan_error, bool \<times> dfs_context) result" where
  "dfs candidates goal target_k acc index ctx =
     (if length (dfs_path ctx) = target_k then Inr (dfs_full goal acc ctx)
      else if goal \<le> acc \<or> length candidates \<le> index \<or> iteration_limit ctx \<le> 0 then Inr (False, ctx)
      else (case i32_checked_sub (iteration_limit ctx) 1 of
         None \<Rightarrow> Inl (Err (InternalError ''dfs: iteration limit underflow''))
       | Some limit \<Rightarrow> (case checked_add USIZE_BITS index 1 of
         None \<Rightarrow> Inl (Err (InternalError ''dfs: index overflow''))
       | Some next_index \<Rightarrow> (case nth_opt candidates index of
         None \<Rightarrow> Inl Trap
       | Some note \<Rightarrow> (case note_checked_add acc (snd note) of
         None \<Rightarrow> Inl (Err InputAmountOverflow)
       | Some with_note \<Rightarrow>
           (case dfs candidates goal target_k with_note next_index
                   (ctx\<lparr>iteration_limit := limit, dfs_path := dfs_path ctx @ [fst note]\<rparr>) of
              Inl e \<Rightarrow> Inl e
            | Inr (found, ctx1) \<Rightarrow>
                if found then Inr (True, ctx1)
                else dfs candidates goal target_k acc next_index
                       (ctx1\<lparr>dfs_path := butlast (dfs_path ctx1)\<rparr>)))))))"
  by pat_completeness auto

termination
  by (relation "measure (\<lambda>(candidates, _, _, _, index, _). length candidates - index)")
    (auto simp: checked_add_Some)

declare dfs.simps [simp del]

definition fresh_context :: dfs_context where
  "fresh_context = \<lparr>iteration_limit = 5000, dfs_path = [], best_overshoot = None\<rparr>"

fun search_sizes ::
  "indexed_note list \<Rightarrow> note_amount \<Rightarrow> nat list \<Rightarrow> (plan_error, k_scan option) result" where
  "search_sizes candidates_desc goal [] = Inr None"
| "search_sizes candidates_desc goal (k # ks) =
     (case dfs candidates_desc goal k NOTE_ZERO 0 fresh_context of
        Inl e \<Rightarrow> Inl e
      | Inr (found, ctx) \<Rightarrow>
          if found then Inr (Some (KScanExact (dfs_path ctx)))
          else (case best_overshoot ctx of
                  Some (excess, path) \<Rightarrow> Inr (Some (KScanOvershoot path excess))
                | None \<Rightarrow> search_sizes candidates_desc goal ks))"

fun greedy_loop ::
  "note_amount \<Rightarrow> note_amount \<Rightarrow> nat list \<Rightarrow> indexed_note list \<Rightarrow> (plan_error, k_scan) result" where
  "greedy_loop goal running picks [] = Inr KScanMiss"
| "greedy_loop goal running picks ((idx, x) # rest) =
     (case note_checked_add running x of
        None \<Rightarrow> Inl (Err InputAmountOverflow)
      | Some next_total \<Rightarrow>
          if goal \<le> next_total then
            and_then (ok_or (note_checked_sub next_total goal) (InternalError ''greedy: excess invariant''))
              (\<lambda>excess. Inr (KScanOvershoot (picks @ [idx]) excess))
          else greedy_loop goal next_total (picks @ [idx]) rest)"

definition greedy_impl :: "indexed_note list \<Rightarrow> note_amount \<Rightarrow> (plan_error, k_scan) result" where
  "greedy_impl sorted_vals goal = greedy_loop goal NOTE_ZERO [] (rev sorted_vals)"

definition k_scan_run :: "indexed_note list \<Rightarrow> note_amount \<Rightarrow> (plan_error, k_scan) result" where
  "k_scan_run sorted_vals goal =
     (let candidates_desc = rev (filter (\<lambda>(_, x). x < goal) sorted_vals) in
      and_then
        (if 3 \<le> length candidates_desc
         then search_sizes candidates_desc goal
                [3..<Suc (min (length candidates_desc) TRANSACTION_LIMIT)]
         else Inr None)
        (\<lambda>found. case found of Some r \<Rightarrow> Inr r | None \<Rightarrow> greedy_impl sorted_vals goal))"

section \<open>The tiers\<close>

definition k_result :: "k_scan \<Rightarrow> combination_result" where
  "k_result k = (case k of
     KScanExact is \<Rightarrow> ExactK is
   | KScanOvershoot is excess \<Rightarrow> Overshoot is excess
   | KScanMiss \<Rightarrow> Impossible)"

definition pick_tier ::
  "one_scan \<Rightarrow> (plan_error, k_scan) result \<Rightarrow> two_scan \<Rightarrow> (plan_error, combination_result) result" where
  "pick_tier one k_res two =
     (case two of
        TwoScanExact i j \<Rightarrow> Inr (TwoExact i j)
      | _ \<Rightarrow>
        (case one of
           OneScanExact i \<Rightarrow> Inr (OneExact i)
         | _ \<Rightarrow>
           (case two of
              TwoScanOvershoot i j excess \<Rightarrow> Inr (TwoOvershoot i j excess)
            | _ \<Rightarrow>
              (case one of
                 OneScanOvershoot i excess \<Rightarrow> Inr (OneOvershoot i excess)
               | _ \<Rightarrow> and_then k_res (\<lambda>k. Inr (k_result k))))))"

definition find_combination ::
  "(indexed_note list \<Rightarrow> indexed_note list) \<Rightarrow> note_amount list \<Rightarrow> note_amount
     \<Rightarrow> (plan_error, combination_result) result option" where
  "find_combination sort_by_amount values goal =
     (if values = [] then Some (Inr Impossible)
      else
        let sorted_vals = sort_by_amount (List.enumerate 0 values) in
        map_option
          (\<lambda>two_res. and_then two_res
             (pick_tier (one_scan_run sorted_vals goal) (k_scan_run sorted_vals goal)))
          (two_scan_run sorted_vals goal))"

section \<open>Two notes: the scan is exhaustive\<close>

text \<open>The amounts of a list of notes, added up.\<close>

definition amount_sum :: "indexed_note list \<Rightarrow> nat" where
  "amount_sum ns = sum_list (map (\<lambda>n. value_of (snd n)) ns)"

lemma amount_sum_simps [simp]:
  "amount_sum [] = 0"
  "amount_sum (n # ns) = value_of (snd n) + amount_sum ns"
  "amount_sum (ms @ ns) = amount_sum ms + amount_sum ns"
  "amount_sum (rev ns) = amount_sum ns"
  by (simp_all add: amount_sum_def rev_map [symmetric] sum_list_rev)

lemma amount_sum_perm: "mset ms = mset ns \<Longrightarrow> amount_sum ms = amount_sum ns"
proof -
  assume "mset ms = mset ns"
  then have "mset (map (\<lambda>n. value_of (snd n)) ms) = mset (map (\<lambda>n. value_of (snd n)) ns)"
    by (simp only: mset_map)
  then show ?thesis unfolding amount_sum_def by (simp only: sum_mset_sum_list [symmetric])
qed

lemma amount_sum_subseq: "subseq ms ns \<Longrightarrow> amount_sum ms \<le> amount_sum ns"
  by (induction rule: list_emb.induct) auto

definition pair_at :: "indexed_note list \<Rightarrow> nat \<Rightarrow> nat \<Rightarrow> nat" where
  "pair_at ns a b = value_of (snd (ns ! a)) + value_of (snd (ns ! b))"

definition by_amount :: "indexed_note list \<Rightarrow> bool" where
  "by_amount ns \<longleftrightarrow> (\<forall>a b. a \<le> b \<longrightarrow> b < length ns \<longrightarrow> value_of (snd (ns ! a)) \<le> value_of (snd (ns ! b)))"

lemma by_amount_mono:
  "by_amount ns \<Longrightarrow> a \<le> b \<Longrightarrow> b < length ns \<Longrightarrow> value_of (snd (ns ! a)) \<le> value_of (snd (ns ! b))"
  by (simp add: by_amount_def)

lemma pair_at_mono:
  assumes "by_amount ns" "a \<le> a'" "b \<le> b'" "a' < length ns" "b' < length ns"
  shows "pair_at ns a b \<le> pair_at ns a' b'"
  unfolding pair_at_def
  by (rule add_mono [OF by_amount_mono [OF assms(1,2,4)] by_amount_mono [OF assms(1,3,5)]])

text \<open>A pair with its overshoot, and what the pairs outside the window have shown.\<close>

definition found_pair ::
  "indexed_note list \<Rightarrow> note_amount \<Rightarrow> nat \<times> nat \<times> note_amount \<Rightarrow> bool" where
  "found_pair ns goal found \<longleftrightarrow> (case found of (i, j, e) \<Rightarrow>
     0 < value_of e \<and> (\<exists>a b. a < b \<and> b < length ns \<and> i = fst (ns ! a) \<and> j = fst (ns ! b)
       \<and> pair_at ns a b = value_of goal + value_of e))"

definition beaten ::
  "indexed_note list \<Rightarrow> note_amount \<Rightarrow> (nat \<times> nat \<times> note_amount) option \<Rightarrow> nat \<Rightarrow> nat \<Rightarrow> bool" where
  "beaten ns goal best a b \<longleftrightarrow> pair_at ns a b < value_of goal
     \<or> (\<exists>i j e. best = Some (i, j, e) \<and> value_of goal + value_of e \<le> pair_at ns a b)"

definition window_inv ::
  "indexed_note list \<Rightarrow> note_amount \<Rightarrow> (nat \<times> nat \<times> note_amount) option \<Rightarrow> nat \<Rightarrow> nat \<Rightarrow> bool" where
  "window_inv ns goal best left right \<longleftrightarrow>
     (\<forall>found. best = Some found \<longrightarrow> found_pair ns goal found)
     \<and> (\<forall>a b. a < b \<longrightarrow> b < length ns \<longrightarrow> a < left \<or> right < b \<longrightarrow> beaten ns goal best a b)"

fun two_scan_post :: "indexed_note list \<Rightarrow> note_amount \<Rightarrow> (plan_error, two_scan) result \<Rightarrow> bool" where
  "two_scan_post ns goal (Inr (TwoScanExact i j)) \<longleftrightarrow>
     (\<exists>a b. a < b \<and> b < length ns \<and> i = fst (ns ! a) \<and> j = fst (ns ! b)
        \<and> pair_at ns a b = value_of goal)"
| "two_scan_post ns goal (Inr (TwoScanOvershoot i j e)) \<longleftrightarrow>
     found_pair ns goal (i, j, e)
     \<and> (\<forall>a b. a < b \<longrightarrow> b < length ns \<longrightarrow> beaten ns goal (Some (i, j, e)) a b)"
| "two_scan_post ns goal (Inr TwoScanMiss) \<longleftrightarrow>
     (\<forall>a b. a < b \<longrightarrow> b < length ns \<longrightarrow> pair_at ns a b < value_of goal)"
| "two_scan_post ns goal (Inl f) \<longleftrightarrow>
     f = Err InputAmountOverflow \<and> (\<exists>a b. a < b \<and> b < length ns \<and> 2 ^ 128 \<le> pair_at ns a b)"

lemma window_inv_left:
  assumes "window_inv ns goal best left right" "by_amount ns" "right < length ns" "left < right"
    and "pair_at ns left right < value_of goal"
  shows "window_inv ns goal best (Suc left) right"
  unfolding window_inv_def
proof (intro conjI allI impI)
  fix found assume "best = Some found"
  then show "found_pair ns goal found" using assms(1) by (simp add: window_inv_def)
next
  fix a b assume ab: "a < b" "b < length ns" "a < Suc left \<or> right < b"
  show "beaten ns goal best a b"
  proof (cases "a < left \<or> right < b")
    case True
    then show ?thesis using assms(1) ab by (auto simp: window_inv_def)
  next
    case False
    then have "a = left" "b \<le> right" using ab by auto
    then have "pair_at ns a b \<le> pair_at ns left right"
      using pair_at_mono [OF assms(2), of left left b right] assms(3,4) ab by simp
    with assms(5) show ?thesis by (simp add: beaten_def)
  qed
qed

lemma window_inv_right:
  assumes "window_inv ns goal best left right" "by_amount ns" "right < length ns" "left < right"
    and "pair_at ns left right = value_of goal + value_of diff" "0 < value_of diff"
    and best': "best' = (case best of None \<Rightarrow> Some (fst (ns ! left), fst (ns ! right), diff)
                 | Some (_, _, excess) \<Rightarrow>
                     if diff < excess then Some (fst (ns ! left), fst (ns ! right), diff) else best)"
  shows "window_inv ns goal best' left (right - 1)"
proof -
  have new: "found_pair ns goal (fst (ns ! left), fst (ns ! right), diff)"
    using assms(3-6) by (auto simp: found_pair_def)
  obtain i j e where e: "best' = Some (i, j, e)" "value_of e \<le> value_of diff"
    and old: "\<And>x y z. best = Some (x, y, z) \<Longrightarrow> value_of e \<le> value_of z"
    using best' by (cases best) (auto simp: note_less split: if_splits)
  have keep: "beaten ns goal best' a b" if "beaten ns goal best a b" for a b
    using that e(1) old by (auto simp: beaten_def)
  show ?thesis
    unfolding window_inv_def
  proof (intro conjI allI impI)
    fix found assume "best' = Some found"
    then show "found_pair ns goal found"
      using assms(1) new best' by (auto simp: window_inv_def split: option.splits if_splits)
  next
    fix a b assume ab: "a < b" "b < length ns" "a < left \<or> right - 1 < b"
    show "beaten ns goal best' a b"
    proof (cases "a < left \<or> right < b")
      case True
      then have "beaten ns goal best a b" using assms(1) ab by (auto simp: window_inv_def)
      then show ?thesis by (rule keep)
    next
      case False
      then have "b = right" "left \<le> a" using ab by auto
      then have "pair_at ns left right \<le> pair_at ns a b"
        using pair_at_mono [OF assms(2), of left a right right] assms(3) ab by simp
      with e assms(5) show ?thesis by (auto simp: beaten_def)
    qed
  qed
qed

lemma two_scan_loop_spec:
  assumes "by_amount ns" and "length ns < 2 ^ USIZE_BITS"
  shows "right < length ns \<Longrightarrow> left \<le> right \<Longrightarrow> window_inv ns goal best left right \<Longrightarrow>
    \<exists>r. two_scan_loop ns goal best left right = Some r \<and> two_scan_post ns goal r"
proof (induction "right - left" arbitrary: best left right rule: less_induct)
  case less
  let ?l = "ns ! left" and ?r = "ns ! right"
  note unfold = two_scan_loop.simps [of ns goal best left right]
  show ?case
  proof (cases "left < right")
    case False
    have "a < left \<or> right < b" if "a < b" for a b using that False less.prems(2) by linarith
    then have all: "beaten ns goal best a b" if "a < b" "b < length ns" for a b
      using that less.prems(3) by (simp add: window_inv_def)
    show ?thesis
    proof (cases best)
      case None
      then show ?thesis
        using all False two_scan_loop.simps [of ns goal None left right] by (simp add: beaten_def)
    next
      case (Some found)
      then show ?thesis using all False less.prems(3)
        two_scan_loop.simps [of ns goal "Some found" left right]
        by (cases found) (simp add: window_inv_def)
    qed
  next
    case True
    then have in_range: "left < length ns" using less.prems(1) by simp
    then have nth: "nth_opt ns left = Some ?l" "nth_opt ns right = Some ?r"
      using less.prems(1) by simp_all
    show ?thesis
    proof (cases "note_checked_add (snd ?l) (snd ?r)")
      case None
      then have "2 ^ 128 \<le> pair_at ns left right"
        by (simp add: note_checked_add_None pair_at_def)
      then show ?thesis using True less.prems(1) nth None by (auto simp: unfold)
    next
      case (Some s)
      then have s: "value_of s = pair_at ns left right"
        by (simp add: note_checked_add_Some pair_at_def)
      show ?thesis
      proof (cases "note_checked_sub s goal")
        case None
        then have low: "pair_at ns left right < value_of goal"
          by (simp add: note_checked_sub_None s)
        have step: "checked_add USIZE_BITS left 1 = Some (Suc left)"
          using in_range assms(2) by (simp add: checked_add_Some)
        have "\<exists>r. two_scan_loop ns goal best (Suc left) right = Some r \<and> two_scan_post ns goal r"
          using True less.prems
          by (intro less.hyps window_inv_left [OF _ assms(1) _ _ low]) auto
        then show ?thesis using True nth Some None step by (simp add: unfold)
      next
        case (Some diff)
        then have d: "pair_at ns left right = value_of goal + value_of diff"
          by (simp add: note_checked_sub_Some s)
        show ?thesis
        proof (cases "value_of diff = 0")
          case z: True
          then show ?thesis
            using True nth \<open>note_checked_add (snd ?l) (snd ?r) = Some s\<close> Some d less.prems(1)
            by (auto simp: unfold note_is_zero_value)
        next
          case nz: False
          let ?best = "case best of None \<Rightarrow> Some (fst ?l, fst ?r, diff)
             | Some (_, _, excess) \<Rightarrow> if diff < excess then Some (fst ?l, fst ?r, diff) else best"
          have "\<exists>r. two_scan_loop ns goal ?best left (right - 1) = Some r \<and> two_scan_post ns goal r"
            using True less.prems nz
            by (intro less.hyps window_inv_right [OF less.prems(3) assms(1) _ _ d]) auto
          moreover have "two_scan_loop ns goal best left right
              = two_scan_loop ns goal ?best left (right - 1)"
            using True nth \<open>note_checked_add (snd ?l) (snd ?r) = Some s\<close> Some nz
            by (simp add: unfold note_is_zero_value note_less checked_sub_def)
          ultimately show ?thesis by simp
        qed
      qed
    qed
  qed
qed

lemma two_scan_run_spec:
  assumes "by_amount ns" and "length ns < 2 ^ USIZE_BITS"
  shows "\<exists>r. two_scan_run ns goal = Some r \<and> two_scan_post ns goal r"
proof (cases "length ns < 2")
  case True
  then show ?thesis by (simp add: two_scan_run_def)
next
  case False
  have "window_inv ns goal None 0 (length ns - 1)" by (auto simp: window_inv_def)
  then show ?thesis
    using False two_scan_loop_spec [OF assms, of "length ns - 1" 0 goal None]
    by (simp add: two_scan_run_def checked_sub_def)
qed

section \<open>One note: the smallest that covers\<close>

fun one_scan_post :: "indexed_note list \<Rightarrow> note_amount \<Rightarrow> one_scan \<Rightarrow> bool" where
  "one_scan_post ns goal (OneScanExact i) \<longleftrightarrow>
     (\<exists>n \<in> set ns. fst n = i \<and> value_of (snd n) = value_of goal)"
| "one_scan_post ns goal (OneScanOvershoot i e) \<longleftrightarrow> 0 < value_of e
     \<and> (\<exists>n \<in> set ns. fst n = i \<and> value_of (snd n) = value_of goal + value_of e)
     \<and> (\<forall>n \<in> set ns. value_of goal \<le> value_of (snd n) \<longrightarrow>
          value_of goal + value_of e \<le> value_of (snd n))"
| "one_scan_post ns goal OneScanMiss \<longleftrightarrow> (\<forall>n \<in> set ns. value_of (snd n) < value_of goal)"

lemma by_amount_Cons: "by_amount (n # ns) \<Longrightarrow> by_amount ns"
  unfolding by_amount_def by (metis Suc_le_mono Suc_less_eq length_Cons nth_Cons_Suc)

lemma by_amount_hd: "by_amount (n # ns) \<Longrightarrow> m \<in> set ns \<Longrightarrow> value_of (snd n) \<le> value_of (snd m)"
  unfolding by_amount_def in_set_conv_nth
  by (metis Suc_less_eq le0 length_Cons nth_Cons_0 nth_Cons_Suc)

lemma one_scan_run_spec: "by_amount ns \<Longrightarrow> one_scan_post ns goal (one_scan_run ns goal)"
proof (induction ns goal rule: one_scan_run.induct)
  case (1 goal)
  then show ?case by simp
next
  case (2 idx x rest goal)
  have rest: "by_amount rest" by (rule by_amount_Cons [OF 2(3)])
  have le: "value_of x \<le> value_of (snd m)" if "m \<in> set rest" for m
    using by_amount_hd [OF 2(3) that] by simp
  show ?case
  proof (cases "note_checked_sub x goal")
    case None
    then have "value_of x < value_of goal" by (simp add: note_checked_sub_None)
    moreover have "one_scan_post rest goal (one_scan_run rest goal)"
      by (rule 2(1) [OF None rest])
    ultimately show ?thesis using None by (cases "one_scan_run rest goal") auto
  next
    case (Some diff)
    then have "value_of x = value_of goal + value_of diff" by (simp add: note_checked_sub_Some)
    with Some le show ?thesis by (auto simp: note_is_zero_value note_less)
  qed
qed

section \<open>Three notes and more: the search\<close>

text \<open>
  A search path is the list of wallet indices of a sublist of the candidates; \<open>from_prefix\<close>
  restricts it to the candidates before the current position.
\<close>

definition path_of :: "indexed_note list \<Rightarrow> nat list \<Rightarrow> nat \<Rightarrow> nat \<Rightarrow> bool" where
  "path_of cands path n amount \<longleftrightarrow>
     (\<exists>ps. subseq ps cands \<and> path = map fst ps \<and> length ps = n \<and> amount_sum ps = amount)"

definition context_ok :: "indexed_note list \<Rightarrow> note_amount \<Rightarrow> nat \<Rightarrow> dfs_context \<Rightarrow> bool" where
  "context_ok cands goal k ctx \<longleftrightarrow>
     iteration_limit ctx < 2 ^ 31 \<and>
     (\<forall>e path. best_overshoot ctx = Some (e, path) \<longrightarrow>
        0 < value_of e \<and> path_of cands path k (value_of goal + value_of e))"

fun dfs_post ::
  "indexed_note list \<Rightarrow> note_amount \<Rightarrow> nat \<Rightarrow> nat list \<Rightarrow> (plan_error, bool \<times> dfs_context) result \<Rightarrow> bool" where
  "dfs_post cands goal k path (Inr (found, ctx)) \<longleftrightarrow> context_ok cands goal k ctx
     \<and> (if found then path_of cands (dfs_path ctx) k (value_of goal) else dfs_path ctx = path)"
| "dfs_post cands goal k path (Inl f) \<longleftrightarrow>
     f = Err InputAmountOverflow \<and> 2 ^ 128 \<le> amount_sum cands"

lemma dfs_full_post:
  assumes "path_of cands (dfs_path ctx) (length (dfs_path ctx)) (value_of acc)"
    and "context_ok cands goal (length (dfs_path ctx)) ctx"
  shows "dfs_post cands goal (length (dfs_path ctx)) (dfs_path ctx) (Inr (dfs_full goal acc ctx))"
proof (cases "note_checked_sub acc goal")
  case None
  then show ?thesis using assms by (simp add: dfs_full_def)
next
  case (Some diff)
  then have "value_of acc = value_of goal + value_of diff" by (simp add: note_checked_sub_Some)
  with Some assms show ?thesis
    by (auto simp: dfs_full_def note_is_zero_value note_less context_ok_def split: option.splits)
qed

lemma dfs_spec:
  assumes len: "length cands < 2 ^ USIZE_BITS"
  shows "subseq ps (take index cands) \<Longrightarrow> dfs_path ctx = map fst ps \<Longrightarrow>
    value_of acc = amount_sum ps \<Longrightarrow> context_ok cands goal k ctx \<Longrightarrow>
    dfs_post cands goal k (dfs_path ctx) (dfs cands goal k acc index ctx)"
proof (induction "length cands - index" arbitrary: ps acc index ctx rule: less_induct)
  case less
  have sub: "subseq ps cands"
    using less.prems(1) by (meson subseq_order.order_trans prefix_imp_subseq take_is_prefix)
  have path: "path_of cands (dfs_path ctx) (length (dfs_path ctx)) (value_of acc)"
    using sub less.prems(2,3) by (auto simp: path_of_def)
  note step = dfs.simps [of cands goal k acc index ctx]
  consider (full) "length (dfs_path ctx) = k"
    | (cut) "length (dfs_path ctx) \<noteq> k" "goal \<le> acc \<or> length cands \<le> index \<or> iteration_limit ctx \<le> 0"
    | (go) "length (dfs_path ctx) \<noteq> k" "\<not> (goal \<le> acc \<or> length cands \<le> index \<or> iteration_limit ctx \<le> 0)"
    by blast
  then show ?case
  proof cases
    case full
    then show ?thesis using dfs_full_post [OF path] less.prems(4) by (simp add: step)
  next
    case cut
    then show ?thesis using less.prems(4) by (simp add: step)
  next
    case go
    let ?note = "cands ! index"
    have index: "index < length cands" and pos: "0 < iteration_limit ctx" using go by auto
    have lim: "i32_checked_sub (iteration_limit ctx) 1 = Some (iteration_limit ctx - 1)"
      using pos less.prems(4) by (simp add: i32_checked_sub_def context_ok_def)
    have nxt: "checked_add USIZE_BITS index 1 = Some (Suc index)"
      using index len by (simp add: checked_add_Some)
    have upto: "take (Suc index) cands = take index cands @ [?note]"
      by (rule take_Suc_conv_app_nth [OF index])
    have longer: "subseq (ps @ [?note]) (take (Suc index) cands)"
      unfolding upto by (rule list_emb_append_mono [OF less.prems(1)]) simp
    have same: "subseq ps (take (Suc index) cands)"
      unfolding upto using list_emb_append_mono [OF less.prems(1), of "[]"] by simp
    show ?thesis
    proof (cases "note_checked_add acc (snd ?note)")
      case None
      then have "2 ^ 128 \<le> amount_sum (ps @ [?note])"
        using less.prems(3) by (simp add: note_checked_add_None)
      also have "\<dots> \<le> amount_sum cands"
        using longer by (meson amount_sum_subseq subseq_order.order_trans prefix_imp_subseq take_is_prefix)
      finally show ?thesis using go lim nxt index None by (simp add: step)
    next
      case (Some with_note)
      let ?ctx = "ctx\<lparr>iteration_limit := iteration_limit ctx - 1,
        dfs_path := dfs_path ctx @ [fst ?note]\<rparr>"
      have ok: "context_ok cands goal k ?ctx" using less.prems(4) by (simp add: context_ok_def)
      have sum: "value_of with_note = amount_sum (ps @ [?note])"
        using Some less.prems(3) by (simp add: note_checked_add_Some)
      have measure: "length cands - Suc index < length cands - index" using index by simp
      have "dfs_path ?ctx = map fst (ps @ [?note])" using less.prems(2) by simp
      from less.hyps [OF measure longer this sum ok]
      have first: "dfs_post cands goal k (dfs_path ctx @ [fst ?note])
          (dfs cands goal k with_note (Suc index) ?ctx)" by simp
      have unfold: "dfs cands goal k acc index ctx =
          (case dfs cands goal k with_note (Suc index) ?ctx of
             Inl e \<Rightarrow> Inl e
           | Inr (found, ctx1) \<Rightarrow>
               if found then Inr (True, ctx1)
               else dfs cands goal k acc (Suc index) (ctx1\<lparr>dfs_path := butlast (dfs_path ctx1)\<rparr>))"
        using go lim nxt index Some by (simp add: step)
      show ?thesis
      proof (cases "dfs cands goal k with_note (Suc index) ?ctx")
        case (Inl e)
        with first show ?thesis by (simp add: unfold)
      next
        case (Inr res)
        obtain found ctx1 where res: "res = (found, ctx1)" by (cases res)
        show ?thesis
        proof (cases found)
          case True
          then show ?thesis using first Inr res by (simp add: unfold)
        next
          case False
          let ?ctx1 = "ctx1\<lparr>dfs_path := butlast (dfs_path ctx1)\<rparr>"
          have restored: "dfs_path ?ctx1 = dfs_path ctx" "context_ok cands goal k ?ctx1"
            using first Inr res False by (simp_all add: context_ok_def)
          have "dfs_post cands goal k (dfs_path ?ctx1) (dfs cands goal k acc (Suc index) ?ctx1)"
            using restored less.prems(2,3) by (intro less.hyps [OF measure same]) simp_all
          then show ?thesis using Inr res False restored by (simp add: unfold)
        qed
      qed
    qed
  qed
qed

fun search_post :: "indexed_note list \<Rightarrow> note_amount \<Rightarrow> nat \<Rightarrow> (plan_error, k_scan option) result \<Rightarrow> bool" where
  "search_post cands goal m (Inr (Some (KScanExact is))) \<longleftrightarrow>
     (\<exists>k. 3 \<le> k \<and> k \<le> m \<and> path_of cands is k (value_of goal))"
| "search_post cands goal m (Inr (Some (KScanOvershoot is e))) \<longleftrightarrow> 0 < value_of e
     \<and> (\<exists>k. 3 \<le> k \<and> k \<le> m \<and> path_of cands is k (value_of goal + value_of e))"
| "search_post cands goal m (Inr (Some KScanMiss)) \<longleftrightarrow> False"
| "search_post cands goal m (Inr None) \<longleftrightarrow> True"
| "search_post cands goal m (Inl f) \<longleftrightarrow> f = Err InputAmountOverflow \<and> 2 ^ 128 \<le> amount_sum cands"

lemma search_sizes_spec:
  assumes "length cands < 2 ^ USIZE_BITS"
  shows "list_all (\<lambda>k. 3 \<le> k \<and> k \<le> m) ks \<Longrightarrow> search_post cands goal m (search_sizes cands goal ks)"
proof (induction ks)
  case Nil
  then show ?case by simp
next
  case (Cons k ks)
  have "dfs_post cands goal k (dfs_path fresh_context) (dfs cands goal k NOTE_ZERO 0 fresh_context)"
    by (rule dfs_spec [OF assms, of "[]"]) (simp_all add: fresh_context_def context_ok_def)
  with Cons show ?case
    by (auto simp: fresh_context_def context_ok_def split: sum.splits prod.splits option.splits)
qed

lemma path_of_subseq:
  assumes "path_of ms is k t" and "subseq ms ns"
  shows "path_of ns is k t"
proof -
  obtain ps where "subseq ps ms" "is = map fst ps" "length ps = k" "amount_sum ps = t"
    using assms(1) by (auto simp: path_of_def)
  moreover from this(1) assms(2) have "subseq ps ns" by (rule subseq_order.order_trans)
  ultimately show ?thesis unfolding path_of_def by blast
qed

lemma path_of_length: "path_of ms is k t \<Longrightarrow> length is = k"
  by (auto simp: path_of_def)

section \<open>Three notes and more: no set is larger than necessary\<close>

text \<open>Candidates come with the largest amounts first.\<close>

definition largest_first :: "indexed_note list \<Rightarrow> bool" where
  "largest_first ns \<longleftrightarrow> sorted_wrt (\<lambda>m n. value_of (snd n) \<le> value_of (snd m)) ns"

lemma largest_first_simps [simp]:
  "largest_first []"
  "largest_first (n # ns) \<longleftrightarrow> (\<forall>m \<in> set ns. value_of (snd m) \<le> value_of (snd n)) \<and> largest_first ns"
  by (simp_all add: largest_first_def)

lemma largest_first_subseq: "subseq ms ns \<Longrightarrow> largest_first ns \<Longrightarrow> largest_first ms"
  by (induction rule: list_emb.induct) (auto dest: list_emb_set)

lemma largest_first_rev: "by_amount ns \<Longrightarrow> largest_first (rev ns)"
  by (auto simp: by_amount_def largest_first_def sorted_wrt_rev sorted_wrt_iff_nth_less rev_nth)

lemma amount_sum_take_mono: "j \<le> k \<Longrightarrow> amount_sum (take j ns) \<le> amount_sum (take k ns)"
  by (rule amount_sum_subseq) (metis min.absorb1 prefix_imp_subseq take_is_prefix take_take)

lemma largest_prefix:
  "largest_first ns \<Longrightarrow> subseq ps ns \<Longrightarrow> amount_sum ps \<le> amount_sum (take (length ps) ns)"
proof (induction ns arbitrary: ps)
  case Nil
  then show ?case by (cases ps) auto
next
  case (Cons n ns)
  show ?case
  proof (cases ps)
    case Nil
    then show ?thesis by simp
  next
    case (Cons p qs)
    have qs: "subseq qs ns"
      using Cons.prems(2) Cons by (metis list.sel(3) list_emb_Nil2 subseq_Cons2_iff subseq_Cons')
    have "p \<in> set (n # ns)" using Cons.prems(2) Cons list_emb_set by fastforce
    then have "value_of (snd p) \<le> value_of (snd n)" using Cons.prems(1) by auto
    moreover have "amount_sum qs \<le> amount_sum (take (length qs) ns)"
      using Cons.IH [OF _ qs] Cons.prems(1) by simp
    ultimately show ?thesis using Cons by simp
  qed
qed

text \<open>
  The first path of the search takes the largest notes. When they reach the goal it ends in an
  exact sum or records an overshoot, and what is recorded stays recorded.
\<close>

fun hit :: "(plan_error, bool \<times> dfs_context) result \<Rightarrow> bool" where
  "hit (Inr (found, ctx)) \<longleftrightarrow> found \<or> best_overshoot ctx \<noteq> None"
| "hit (Inl _) \<longleftrightarrow> True"

lemma hit_dfs_full: "goal \<le> acc \<Longrightarrow> hit (Inr (dfs_full goal acc ctx))"
proof -
  assume "goal \<le> acc"
  then obtain d where "note_checked_sub acc goal = Some d"
    by (cases "note_checked_sub acc goal") (auto simp: note_checked_sub_None note_le)
  then show ?thesis
    by (auto simp: dfs_full_def note_is_zero_value note_less split: option.splits)
qed

lemma dfs_keeps_best: "best_overshoot ctx \<noteq> None \<Longrightarrow> hit (dfs cands goal k acc index ctx)"
proof (induction "length cands - index" arbitrary: acc index ctx rule: less_induct)
  case less
  have full: "hit (Inr (dfs_full goal acc ctx))"
    using less.prems by (auto simp: dfs_full_def split: option.splits)
  show ?case
  proof (cases "length cands \<le> index")
    case True
    then show ?thesis using full less.prems by (subst dfs.simps) simp
  next
    case False
    then have measure: "length cands - Suc index < length cands - index" by simp
    have rec: "hit (dfs cands goal k acc' (Suc index) ctx')" if "best_overshoot ctx' \<noteq> None" for acc' ctx'
      using less.hyps [OF measure that] .
    have two: "hit (case dfs cands goal k acc1 (Suc index) ctx1 of Inl e \<Rightarrow> Inl e
        | Inr (found, c) \<Rightarrow> if found then Inr (True, c)
            else dfs cands goal k acc (Suc index) (c\<lparr>dfs_path := butlast (dfs_path c)\<rparr>))"
      if "best_overshoot ctx1 \<noteq> None" for acc1 ctx1
      using rec [OF that, of acc1]
      by (auto intro!: rec split: sum.splits prod.splits)
    show ?thesis
      using full less.prems False
      by (subst dfs.simps)
        (auto simp: nth_opt_def checked_add_def intro!: two split: option.splits)
  qed
qed

lemma first_path_hits:
  assumes top: "amount_sum (take (k - 1) cands) < value_of goal" "value_of goal \<le> amount_sum (take k cands)"
    and k: "k \<le> length cands" and len: "length cands < 2 ^ USIZE_BITS"
  shows "index \<le> k \<Longrightarrow> dfs_path ctx = map fst (take index cands) \<Longrightarrow>
    value_of acc = amount_sum (take index cands) \<Longrightarrow>
    int (k - index) \<le> iteration_limit ctx \<Longrightarrow> iteration_limit ctx < 2 ^ 31 \<Longrightarrow>
    hit (dfs cands goal k acc index ctx)"
proof (induction "k - index" arbitrary: acc index ctx)
  case 0
  then have "index = k" by simp
  then show ?case
    using 0 k top(2) hit_dfs_full [of goal acc ctx]
    by (subst dfs.simps) (simp add: note_le)
next
  case (Suc d)
  then have index: "index < k" "index < length cands" using k by linarith+
  let ?note = "cands ! index"
  have not_full: "length (dfs_path ctx) \<noteq> k" using Suc.prems(2) index by simp
  have "amount_sum (take index cands) \<le> amount_sum (take (k - 1) cands)"
    using index by (intro amount_sum_take_mono) simp
  then have below: "\<not> goal \<le> acc" using top(1) Suc.prems(3) by (simp add: note_le)
  have lim: "0 < iteration_limit ctx" using Suc.prems(4) index by simp
  have sub: "i32_checked_sub (iteration_limit ctx) 1 = Some (iteration_limit ctx - 1)"
    using lim Suc.prems(5) by (simp add: i32_checked_sub_def)
  have nxt: "checked_add USIZE_BITS index 1 = Some (Suc index)"
    using index len by (simp add: checked_add_Some)
  have upto: "take (Suc index) cands = take index cands @ [?note]"
    by (rule take_Suc_conv_app_nth [OF index(2)])
  note step = dfs.simps [of cands goal k acc index ctx]
  show ?case
  proof (cases "note_checked_add acc (snd ?note)")
    case None
    then show ?thesis using not_full below lim sub nxt index by (simp add: step)
  next
    case (Some with_note)
    let ?ctx = "ctx\<lparr>iteration_limit := iteration_limit ctx - 1, dfs_path := dfs_path ctx @ [fst ?note]\<rparr>"
    have v: "value_of with_note = amount_sum (take (Suc index) cands)"
      using Some Suc.prems(3) by (simp add: note_checked_add_Some upto)
    have path: "dfs_path ?ctx = map fst (take (Suc index) cands)" using Suc.prems(2) by (simp add: upto)
    have hit: "hit (dfs cands goal k with_note (Suc index) ?ctx)"
      using Suc.hyps(2) Suc.prems(4,5) index by (intro Suc.hyps(1) [OF _ _ path v]) auto
    have unfold: "dfs cands goal k acc index ctx =
        (case dfs cands goal k with_note (Suc index) ?ctx of
           Inl e \<Rightarrow> Inl e
         | Inr (found, ctx1) \<Rightarrow>
             if found then Inr (True, ctx1)
             else dfs cands goal k acc (Suc index) (ctx1\<lparr>dfs_path := butlast (dfs_path ctx1)\<rparr>))"
      using not_full below lim sub nxt index Some by (simp add: step)
    show ?thesis
      using hit unfolding unfold by (auto intro!: dfs_keeps_best split: sum.splits prod.splits)
  qed
qed

lemma search_sizes_fewest:
  assumes len: "length cands < 2 ^ USIZE_BITS" and m: "m \<le> length cands" "m < 5000"
  shows "1 \<le> k \<Longrightarrow> amount_sum (take (k - 1) cands) < value_of goal \<Longrightarrow>
    search_sizes cands goal [k..<Suc m] = Inr res \<Longrightarrow>
    (case res of
       Some (KScanExact is) \<Rightarrow> amount_sum (take (length is - 1) cands) < value_of goal
     | Some (KScanOvershoot is _) \<Rightarrow> amount_sum (take (length is - 1) cands) < value_of goal
     | _ \<Rightarrow> True)"
proof (induction "Suc m - k" arbitrary: k)
  case 0
  then show ?case by auto
next
  case (Suc d)
  then have k: "k \<le> m" and split: "[k..<Suc m] = k # [Suc k..<Suc m]"
    by (linarith, metis upt_conv_Cons zero_less_Suc zero_less_diff)
  have post: "dfs_post cands goal k (dfs_path fresh_context) (dfs cands goal k NOTE_ZERO 0 fresh_context)"
    by (rule dfs_spec [OF len, of "[]"]) (simp_all add: fresh_context_def context_ok_def)
  have sizes: "search_sizes cands goal (k # [Suc k..<Suc m]) = Inr res"
    using Suc.prems(3) by (simp only: split)
  obtain found ctx where run: "dfs cands goal k NOTE_ZERO 0 fresh_context = Inr (found, ctx)"
    using sizes by (auto simp del: upt_Suc split: sum.splits)
  have ok: "context_ok cands goal k ctx" "found \<Longrightarrow> path_of cands (dfs_path ctx) k (value_of goal)"
    using post by (simp_all add: run)
  consider (exact) found | (over) e path where "\<not> found" "best_overshoot ctx = Some (e, path)"
    | (miss) "\<not> found" "best_overshoot ctx = None"
    by (cases "best_overshoot ctx") auto
  then show ?case
  proof cases
    case exact
    then have "res = Some (KScanExact (dfs_path ctx))" using sizes by (simp add: run del: upt_Suc)
    with exact Suc.prems(2) path_of_length [OF ok(2)] show ?thesis by simp
  next
    case over
    then have "res = Some (KScanOvershoot path e)" using sizes by (simp add: run del: upt_Suc)
    moreover have "length path = k" using ok(1) over path_of_length by (auto simp: context_ok_def)
    ultimately show ?thesis using Suc.prems(2) by simp
  next
    case miss
    then have "\<not> hit (dfs cands goal k NOTE_ZERO 0 fresh_context)" using run by simp
    then have "amount_sum (take k cands) < value_of goal"
      using first_path_hits [OF Suc.prems(2) _ _ len, of 0 fresh_context NOTE_ZERO] k m
      by (fastforce simp: fresh_context_def not_less [symmetric])
    then have "amount_sum (take (Suc k - 1) cands) < value_of goal" by simp
    moreover have "search_sizes cands goal [Suc k..<Suc m] = Inr res"
      using sizes miss by (simp add: run del: upt_Suc)
    ultimately show ?thesis
      using Suc.hyps(2) by (intro Suc.hyps(1)) auto
  qed
qed

fun greedy_post :: "indexed_note list \<Rightarrow> note_amount \<Rightarrow> (plan_error, k_scan) result \<Rightarrow> bool" where
  "greedy_post ns goal (Inr (KScanOvershoot is e)) \<longleftrightarrow>
     is \<noteq> [] \<and> (\<exists>m. path_of ns is m (value_of goal + value_of e))
     \<and> (0 < value_of goal \<longrightarrow> amount_sum (take (length is - 1) ns) < value_of goal)"
| "greedy_post ns goal (Inr KScanMiss) \<longleftrightarrow> ns = [] \<or> amount_sum ns < value_of goal"
| "greedy_post ns goal (Inr (KScanExact is)) \<longleftrightarrow> False"
| "greedy_post ns goal (Inl f) \<longleftrightarrow> f = Err InputAmountOverflow \<and> 2 ^ 128 \<le> amount_sum ns"

lemma greedy_loop_spec:
  "picks = map fst seen \<Longrightarrow> value_of running = amount_sum seen \<Longrightarrow>
   seen \<noteq> [] \<longrightarrow> amount_sum seen < value_of goal \<Longrightarrow>
   greedy_post (seen @ ns) goal (greedy_loop goal running picks ns)"
proof (induction goal running picks ns arbitrary: seen rule: greedy_loop.induct)
  case (1 goal running picks)
  then show ?case by auto
next
  case (2 goal running picks idx x rest)
  show ?case
  proof (cases "note_checked_add running x")
    case None
    then have "2 ^ 128 \<le> amount_sum (seen @ [(idx, x)])"
      using 2(3) by (simp add: note_checked_add_None)
    then show ?thesis using None by simp
  next
    case (Some nxt)
    then have nxt: "value_of nxt = amount_sum (seen @ [(idx, x)])"
      using 2(3) by (simp add: note_checked_add_Some)
    show ?thesis
    proof (cases "goal \<le> nxt")
      case True
      then obtain e where e: "note_checked_sub nxt goal = Some e"
        by (cases "note_checked_sub nxt goal") (auto simp: note_checked_sub_None note_le)
      then have "path_of (seen @ (idx, x) # rest) (picks @ [idx]) (Suc (length seen))
          (value_of goal + value_of e)"
        using nxt 2(2) unfolding path_of_def
        by (intro exI [of _ "seen @ [(idx, x)]"]) (simp add: note_checked_sub_Some prefix_imp_subseq)
      moreover have "0 < value_of goal \<longrightarrow> amount_sum seen < value_of goal"
        using 2(4) by (cases seen) auto
      ultimately show ?thesis using Some True e 2(2) by auto
    next
      case False
      then have "greedy_post ((seen @ [(idx, x)]) @ rest) goal
          (greedy_loop goal nxt (picks @ [idx]) rest)"
        using 2(2) nxt by (intro 2(1) [OF Some False]) (simp_all add: note_le)
      with Some False show ?thesis by simp
    qed
  qed
qed

lemma greedy_impl_spec: "greedy_post (rev ns) goal (greedy_impl ns goal)"
  using greedy_loop_spec [of "[]" "[]" NOTE_ZERO goal "rev ns"] by (simp add: greedy_impl_def)

fun k_scan_post :: "indexed_note list \<Rightarrow> note_amount \<Rightarrow> (plan_error, k_scan) result \<Rightarrow> bool" where
  "k_scan_post ns goal (Inr (KScanExact is)) \<longleftrightarrow>
     (\<exists>k. 3 \<le> k \<and> k \<le> TRANSACTION_LIMIT \<and> path_of (rev ns) is k (value_of goal))"
| "k_scan_post ns goal (Inr (KScanOvershoot is e)) \<longleftrightarrow>
     is \<noteq> [] \<and> (\<exists>k. path_of (rev ns) is k (value_of goal + value_of e))"
| "k_scan_post ns goal (Inr KScanMiss) \<longleftrightarrow> ns = [] \<or> amount_sum ns < value_of goal"
| "k_scan_post ns goal (Inl f) \<longleftrightarrow> f = Err InputAmountOverflow \<and> 2 ^ 128 \<le> amount_sum ns"

lemma greedy_k_scan_post: "k_scan_post ns goal (greedy_impl ns goal)"
  using greedy_impl_spec [of ns goal]
  by (cases "(ns, goal, greedy_impl ns goal)" rule: k_scan_post.cases) auto

lemma k_scan_run_spec:
  assumes "length ns < 2 ^ USIZE_BITS"
  shows "k_scan_post ns goal (k_scan_run ns goal)"
proof -
  let ?cands = "rev (filter (\<lambda>(_, x). x < goal) ns)"
  let ?ks = "[3..<Suc (min (length ?cands) TRANSACTION_LIMIT)]"
  have sub: "subseq ?cands (rev ns)" by (simp add: rev_filter subseq_filter_left)
  have "length ?cands < 2 ^ USIZE_BITS"
    using assms by (metis length_filter_le length_rev order_le_less_trans)
  then have search: "search_post ?cands goal TRANSACTION_LIMIT (search_sizes ?cands goal ?ks)"
    by (rule search_sizes_spec) (auto simp: list_all_iff)
  show ?thesis
  proof (cases "3 \<le> length ?cands")
    case False
    then show ?thesis using greedy_k_scan_post by (simp add: k_scan_run_def Let_def)
  next
    case True
    then have run: "k_scan_run ns goal = and_then (search_sizes ?cands goal ?ks)
        (\<lambda>found. case found of Some r \<Rightarrow> Inr r | None \<Rightarrow> greedy_impl ns goal)"
      by (simp only: k_scan_run_def Let_def if_True)
    show ?thesis
    proof (cases "search_sizes ?cands goal ?ks")
      case (Inl e)
      then show ?thesis using search amount_sum_subseq [OF sub] unfolding run by simp
    next
      case (Inr res)
      show ?thesis
      proof (cases res)
        case None
        then show ?thesis using Inr greedy_k_scan_post unfolding run by simp
      next
        case (Some r)
        with Inr search have "search_post ?cands goal TRANSACTION_LIMIT (Inr (Some r))" by simp
        then have "k_scan_post ns goal (Inr r)"
          using path_of_subseq [OF _ sub] path_of_length by (cases r) (auto, fastforce)
        then show ?thesis using Inr Some unfolding run by simp
      qed
    qed
  qed
qed

lemma k_scan_run_fewest:
  assumes ord: "by_amount ns" and len: "length ns < 2 ^ USIZE_BITS"
    and below: "\<forall>n \<in> set ns. snd n < goal" "amount_sum (take 2 (rev ns)) < value_of goal"
    and run: "k_scan_run ns goal = Inr r"
  shows "case r of
      KScanExact is \<Rightarrow> amount_sum (take (length is - 1) (rev ns)) < value_of goal
    | KScanOvershoot is _ \<Rightarrow> amount_sum (take (length is - 1) (rev ns)) < value_of goal
    | KScanMiss \<Rightarrow> True"
proof -
  have cands: "rev (filter (\<lambda>(_, x). x < goal) ns) = rev ns"
    using below(1) by (auto simp: filter_id_conv)
  let ?m = "min (length ns) TRANSACTION_LIMIT"
  have greedy: ?thesis if "greedy_impl ns goal = Inr r"
    using greedy_impl_spec [of ns goal] below(2) that by (cases r) auto
  show ?thesis
  proof (cases "3 \<le> length ns")
    case False
    then have "greedy_impl ns goal = Inr r" using run by (simp add: k_scan_run_def cands Let_def)
    then show ?thesis by (rule greedy)
  next
    case True
    then have run': "and_then (search_sizes (rev ns) goal [3..<Suc ?m])
        (\<lambda>found. case found of Some r \<Rightarrow> Inr r | None \<Rightarrow> greedy_impl ns goal) = Inr r"
      using run by (simp only: k_scan_run_def cands Let_def length_rev if_True)
    then obtain res where res: "search_sizes (rev ns) goal [3..<Suc ?m] = Inr res"
      by (auto simp: result_simps simp del: upt_Suc)
    have few: "case res of
        Some (KScanExact is) \<Rightarrow> amount_sum (take (length is - 1) (rev ns)) < value_of goal
      | Some (KScanOvershoot is _) \<Rightarrow> amount_sum (take (length is - 1) (rev ns)) < value_of goal
      | _ \<Rightarrow> True"
      using len below(2) by (intro search_sizes_fewest [OF _ _ _ _ _ res]) (simp_all add: TRANSACTION_LIMIT_def)
    show ?thesis
    proof (cases res)
      case None
      then show ?thesis using run' res greedy by (simp del: upt_Suc)
    next
      case (Some q)
      then have "r = q" using run' res by (simp del: upt_Suc)
      then show ?thesis using few Some by (cases q) simp_all
    qed
  qed
qed

section \<open>From positions to wallet indices\<close>

definition amount_at :: "note_amount list \<Rightarrow> nat \<Rightarrow> nat" where
  "amount_at values i = value_of (values ! i)"

definition picked :: "note_amount list \<Rightarrow> nat list \<Rightarrow> bool" where
  "picked values is \<longleftrightarrow> distinct is \<and> (\<forall>i \<in> set is. i < length values)"

definition picked_sum :: "note_amount list \<Rightarrow> nat list \<Rightarrow> nat" where
  "picked_sum values is = sum_list (map (amount_at values) is)"

definition wallet_total :: "note_amount list \<Rightarrow> nat" where
  "wallet_total values = sum_list (map value_of values)"

definition indexed :: "note_amount list \<Rightarrow> indexed_note list \<Rightarrow> bool" where
  "indexed values ns \<longleftrightarrow> mset ns = mset (List.enumerate 0 values)"

lemma indexed_facts:
  assumes "indexed values ns"
  shows "length ns = length values" "distinct (map fst ns)"
    "n \<in> set ns \<Longrightarrow> fst n < length values \<and> snd n = values ! fst n"
    "i < length values \<Longrightarrow> \<exists>a < length ns. ns ! a = (i, values ! i)"
    "amount_sum ns = wallet_total values"
proof -
  note ms = assms [unfolded indexed_def]
  show "length ns = length values" using mset_eq_length [OF ms] by simp
  have perm: "mset (map fst ns) = mset (map fst (List.enumerate 0 values))"
    by (simp only: mset_map ms)
  show "distinct (map fst ns)" using mset_eq_imp_distinct_iff [OF perm] by simp
  have set: "set ns = set (List.enumerate 0 values)" by (rule mset_eq_setD [OF ms])
  then show "n \<in> set ns \<Longrightarrow> fst n < length values \<and> snd n = values ! fst n"
    by (auto simp: in_set_enumerate_eq)
  assume "i < length values"
  then have "(i, values ! i) \<in> set ns" unfolding set by (simp add: in_set_enumerate_eq)
  then show "\<exists>a < length ns. ns ! a = (i, values ! i)" by (auto simp: in_set_conv_nth)
next
  have "amount_sum ns = amount_sum (List.enumerate 0 values)"
    using assms by (intro amount_sum_perm) (simp add: indexed_def)
  also have "\<dots> = sum_list (map value_of (map snd (List.enumerate 0 values)))"
    by (simp only: amount_sum_def map_map comp_def)
  finally show "amount_sum ns = wallet_total values" by (simp add: wallet_total_def)
qed

lemma picked_le_total: "picked values is \<Longrightarrow> picked_sum values is \<le> wallet_total values"
proof -
  assume "picked values is"
  then have d: "distinct is" and s: "set is \<subseteq> {..<length values}" by (auto simp: picked_def)
  have "picked_sum values is = (\<Sum>i\<in>set is. amount_at values i)"
    unfolding picked_sum_def by (rule sum_list_distinct_conv_sum_set [OF d])
  also have "\<dots> \<le> (\<Sum>i<length values. amount_at values i)"
    using s by (intro sum_mono2) auto
  also have "\<dots> = wallet_total values"
    by (simp add: wallet_total_def sum_list_sum_nth atLeast0LessThan amount_at_def)
  finally show ?thesis .
qed

lemma distinct_subseq: "subseq xs ys \<Longrightarrow> distinct ys \<Longrightarrow> distinct xs"
  by (induction rule: list_emb.induct) (auto dest: list_emb_set)

lemma path_picked:
  assumes "path_of (rev ns) is k t" and ind: "indexed values ns"
  shows "picked values is" "length is = k" "picked_sum values is = t"
proof -
  obtain ps where ps: "subseq ps (rev ns)" "is = map fst ps" "length ps = k" "amount_sum ps = t"
    using assms(1) by (auto simp: path_of_def)
  have elem: "fst p < length values \<and> snd p = values ! fst p" if "p \<in> set ps" for p
  proof -
    have "p \<in> set ns" using list_emb_set [OF ps(1) that] by auto
    then show ?thesis by (rule indexed_facts(3) [OF ind])
  qed
  have "distinct (map fst ps)"
  proof (rule distinct_subseq)
    show "subseq (map fst ps) (map fst (rev ns))" using ps(1) by (rule subseq_map)
    show "distinct (map fst (rev ns))"
      using indexed_facts(2) [OF ind] by (simp only: rev_map [symmetric] distinct_rev)
  qed
  then show "picked values is" using elem by (auto simp: picked_def ps(2))
  show "length is = k" using ps by simp
  have "map (amount_at values) is = map (\<lambda>n. value_of (snd n)) ps"
    using elem by (simp add: ps(2) amount_at_def)
  then show "picked_sum values is = t" using ps(4) by (simp add: picked_sum_def amount_sum_def)
qed

definition fewest :: "note_amount list \<Rightarrow> note_amount \<Rightarrow> nat list \<Rightarrow> bool" where
  "fewest values goal is \<longleftrightarrow>
     (\<forall>js. picked values js \<longrightarrow> value_of goal \<le> picked_sum values js \<longrightarrow> length is \<le> length js)"

definition falling :: "note_amount list \<Rightarrow> nat list \<Rightarrow> bool" where
  "falling values is \<longleftrightarrow> sorted_wrt (\<lambda>i j. amount_at values j \<le> amount_at values i) is"

lemma path_falling:
  assumes "path_of (rev ns) is k t" and ind: "indexed values ns" and ord: "by_amount ns"
  shows "falling values is"
proof -
  obtain ps where ps: "subseq ps (rev ns)" "is = map fst ps"
    using assms(1) by (auto simp: path_of_def)
  have elem: "amount_at values (fst p) = value_of (snd p)" if "p \<in> set ps" for p
  proof -
    have "p \<in> set ns" using list_emb_set [OF ps(1) that] by auto
    then show ?thesis using indexed_facts(3) [OF ind] by (simp add: amount_at_def)
  qed
  have "largest_first ps" using largest_first_subseq [OF ps(1) largest_first_rev [OF ord]] .
  then show ?thesis
    unfolding falling_def largest_first_def ps(2) sorted_wrt_map
    by (rule sorted_wrt_mono_rel [rotated]) (simp add: elem)
qed

lemma picked_as_path:
  assumes ind: "indexed values ns" and "picked values js"
  shows "\<exists>ps. subseq ps (rev ns) \<and> length ps = length js \<and> amount_sum ps = picked_sum values js"
proof -
  let ?ps = "filter (\<lambda>n. fst n \<in> set js) (rev ns)"
  have d: "distinct js" "\<And>j. j \<in> set js \<Longrightarrow> j < length values" using assms(2) by (auto simp: picked_def)
  have keys: "set (map fst ?ps) = set js"
  proof
    show "set js \<subseteq> set (map fst ?ps)"
    proof
      fix j assume j: "j \<in> set js"
      obtain a where "a < length ns" "ns ! a = (j, values ! j)"
        using indexed_facts(4) [OF ind d(2) [OF j]] by blast
      then have "(j, values ! j) \<in> set ?ps" using j nth_mem by fastforce
      then show "j \<in> set (map fst ?ps)" by (simp only: set_map) (rule image_eqI [rotated], assumption, simp)
    qed
  qed auto
  have "distinct (map fst (rev ns))"
    using indexed_facts(2) [OF ind] by (simp only: rev_map [symmetric] distinct_rev)
  then have dk: "distinct (map fst ?ps)" by (rule distinct_map_filter)
  have "length ?ps = length js"
    using keys distinct_card [OF dk] distinct_card [OF d(1)] by simp
  moreover have "value_of (snd n) = amount_at values (fst n)" if "n \<in> set ?ps" for n
    using that indexed_facts(3) [OF ind] by (simp add: amount_at_def)
  then have "amount_sum ?ps = sum_list (map (amount_at values) (map fst ?ps))"
    unfolding amount_sum_def map_map comp_def by (intro arg_cong [of _ _ sum_list] map_cong refl)
  then have "amount_sum ?ps = picked_sum values js"
    by (simp only: picked_sum_def keys sum_list_distinct_conv_sum_set [OF dk]
        sum_list_distinct_conv_sum_set [OF d(1)])
  ultimately show ?thesis using subseq_filter_left by blast
qed

lemma prefix_fewest:
  assumes ind: "indexed values ns" and ord: "by_amount ns"
    and short: "amount_sum (take (length is - 1) (rev ns)) < value_of goal"
  shows "fewest values goal is"
  unfolding fewest_def
proof (intro allI impI)
  fix js assume js: "picked values js" "value_of goal \<le> picked_sum values js"
  obtain ps where ps: "subseq ps (rev ns)" "length ps = length js" "amount_sum ps = picked_sum values js"
    using picked_as_path [OF ind js(1)] by blast
  show "length is \<le> length js"
  proof (rule ccontr)
    assume "\<not> length is \<le> length js"
    then have "length ps \<le> length is - 1" using ps(2) by simp
    then have "amount_sum ps \<le> amount_sum (take (length is - 1) (rev ns))"
      using largest_prefix [OF largest_first_rev [OF ord] ps(1)] amount_sum_take_mono le_trans by blast
    with js(2) short ps(3) show False by simp
  qed
qed

lemma pair_picked:
  assumes "indexed values ns" "a < b" "b < length ns"
  shows "picked values [fst (ns ! a), fst (ns ! b)]"
    "picked_sum values [fst (ns ! a), fst (ns ! b)] = pair_at ns a b"
proof -
  have elem: "fst (ns ! c) < length values \<and> snd (ns ! c) = values ! fst (ns ! c)" if "c \<le> b" for c
    using that assms by (intro indexed_facts(3)) auto
  have "fst (ns ! a) \<noteq> fst (ns ! b)"
    using nth_eq_iff_index_eq [OF indexed_facts(2) [OF assms(1)], of a b] assms(2,3) by simp
  then show "picked values [fst (ns ! a), fst (ns ! b)]"
    using elem assms(2) by (simp add: picked_def)
  show "picked_sum values [fst (ns ! a), fst (ns ! b)] = pair_at ns a b"
    using elem assms(2) by (simp add: picked_sum_def pair_at_def amount_at_def)
qed

lemma all_pairs:
  assumes ind: "indexed values ns" and all: "\<And>a b. a < b \<Longrightarrow> b < length ns \<Longrightarrow> P (pair_at ns a b)"
    and ij: "i \<noteq> j" "i < length values" "j < length values"
  shows "P (amount_at values i + amount_at values j)"
proof -
  obtain a b where ab: "a < length ns" "ns ! a = (i, values ! i)" "b < length ns" "ns ! b = (j, values ! j)"
    using indexed_facts(4) [OF ind] ij by meson
  have "a \<noteq> b" using ab ij by auto
  have sum: "pair_at ns a b = amount_at values i + amount_at values j" "pair_at ns b a = pair_at ns a b"
    using ab by (simp_all add: pair_at_def amount_at_def)
  show ?thesis
  proof (cases "a < b")
    case True
    then show ?thesis using all [OF True ab(3)] sum by simp
  next
    case False
    with \<open>a \<noteq> b\<close> have ba: "b < a" by simp
    show ?thesis using all [OF ba ab(1)] sum by simp
  qed
qed

section \<open>What a result promises\<close>

text \<open>A sort the standard library may use: any sorted permutation.\<close>

definition sorts_by_amount :: "(indexed_note list \<Rightarrow> indexed_note list) \<Rightarrow> bool" where
  "sorts_by_amount f \<longleftrightarrow> (\<forall>ns. mset (f ns) = mset ns \<and> by_amount (f ns))"

text \<open>Every pair and every single note stays below the goal.\<close>

definition two_below :: "note_amount list \<Rightarrow> note_amount \<Rightarrow> bool" where
  "two_below values goal \<longleftrightarrow>
     (\<forall>i < length values. amount_at values i < value_of goal)
     \<and> (\<forall>i < length values. \<forall>j < length values. i \<noteq> j \<longrightarrow>
          amount_at values i + amount_at values j < value_of goal)"

fun combination_ok :: "note_amount list \<Rightarrow> note_amount \<Rightarrow> combination_result \<Rightarrow> bool" where
  "combination_ok values goal (TwoExact i j) \<longleftrightarrow>
     picked values [i, j] \<and> picked_sum values [i, j] = value_of goal"
| "combination_ok values goal (OneExact i) \<longleftrightarrow>
     picked values [i] \<and> picked_sum values [i] = value_of goal
     \<and> (\<forall>a < length values. \<forall>b < length values. a \<noteq> b \<longrightarrow>
          amount_at values a + amount_at values b \<noteq> value_of goal)"
| "combination_ok values goal (TwoOvershoot i j e) \<longleftrightarrow>
     picked values [i, j] \<and> picked_sum values [i, j] = value_of goal + value_of e \<and> 0 < value_of e
     \<and> (\<forall>a < length values. amount_at values a \<noteq> value_of goal)
     \<and> (\<forall>a < length values. \<forall>b < length values. a \<noteq> b \<longrightarrow>
          amount_at values a + amount_at values b < value_of goal
          \<or> value_of goal + value_of e \<le> amount_at values a + amount_at values b)"
| "combination_ok values goal (OneOvershoot i e) \<longleftrightarrow>
     length values = 1 \<and> i = 0 \<and> amount_at values 0 = value_of goal + value_of e \<and> 0 < value_of e"
| "combination_ok values goal (ExactK is) \<longleftrightarrow>
     picked values is \<and> picked_sum values is = value_of goal
     \<and> 3 \<le> length is \<and> length is \<le> TRANSACTION_LIMIT
     \<and> fewest values goal is \<and> falling values is"
| "combination_ok values goal (Overshoot is e) \<longleftrightarrow>
     picked values is \<and> picked_sum values is = value_of goal + value_of e
     \<and> 3 \<le> length is \<and> fewest values goal is \<and> falling values is"
| "combination_ok values goal Impossible \<longleftrightarrow> values = [] \<or> wallet_total values < value_of goal"

text \<open>The three scans, read at wallet indices.\<close>

lemma two_scan_at:
  assumes ind: "indexed values ns" and post: "two_scan_post ns goal r"
  shows "r = Inr (TwoScanExact i j) \<Longrightarrow> picked values [i, j] \<and> picked_sum values [i, j] = value_of goal"
    "r = Inr (TwoScanOvershoot i j e) \<Longrightarrow> picked values [i, j]
       \<and> picked_sum values [i, j] = value_of goal + value_of e \<and> 0 < value_of e
       \<and> (\<forall>a < length values. \<forall>b < length values. a \<noteq> b \<longrightarrow>
            amount_at values a + amount_at values b < value_of goal
            \<or> value_of goal + value_of e \<le> amount_at values a + amount_at values b)"
    "r = Inr TwoScanMiss \<Longrightarrow> \<forall>a < length values. \<forall>b < length values. a \<noteq> b \<longrightarrow>
       amount_at values a + amount_at values b < value_of goal"
    "r = Inl f \<Longrightarrow> f = Err InputAmountOverflow \<and> 2 ^ 128 \<le> wallet_total values"
proof -
  assume "r = Inr (TwoScanExact i j)"
  with post obtain a b where "a < b" "b < length ns" "i = fst (ns ! a)" "j = fst (ns ! b)"
    "pair_at ns a b = value_of goal" by auto
  then show "picked values [i, j] \<and> picked_sum values [i, j] = value_of goal"
    using pair_picked [OF ind] by simp
next
  assume r: "r = Inr (TwoScanOvershoot i j e)"
  with post obtain a b where "a < b" "b < length ns" "i = fst (ns ! a)" "j = fst (ns ! b)"
    "pair_at ns a b = value_of goal + value_of e" "0 < value_of e" by (auto simp: found_pair_def)
  moreover have "pair_at ns c d < value_of goal \<or> value_of goal + value_of e \<le> pair_at ns c d"
    if "c < d" "d < length ns" for c d
    using that post r by (auto simp: beaten_def)
  then have "amount_at values x + amount_at values y < value_of goal
      \<or> value_of goal + value_of e \<le> amount_at values x + amount_at values y"
    if "x \<noteq> y" "x < length values" "y < length values" for x y
    by (rule all_pairs [OF ind _ that, of "\<lambda>s. s < value_of goal \<or> value_of goal + value_of e \<le> s"])
  ultimately show "picked values [i, j] \<and> picked_sum values [i, j] = value_of goal + value_of e
      \<and> 0 < value_of e \<and> (\<forall>a < length values. \<forall>b < length values. a \<noteq> b \<longrightarrow>
           amount_at values a + amount_at values b < value_of goal
           \<or> value_of goal + value_of e \<le> amount_at values a + amount_at values b)"
    using pair_picked [OF ind] by simp
next
  assume "r = Inr TwoScanMiss"
  then have "pair_at ns c d < value_of goal" if "c < d" "d < length ns" for c d
    using that post by simp
  then show "\<forall>a < length values. \<forall>b < length values. a \<noteq> b \<longrightarrow>
      amount_at values a + amount_at values b < value_of goal"
    using all_pairs [OF ind, of "\<lambda>s. s < value_of goal"] by blast
next
  assume "r = Inl f"
  with post obtain a b where ab: "a < b" "b < length ns" "2 ^ 128 \<le> pair_at ns a b"
    and f: "f = Err InputAmountOverflow" by auto
  then have "2 ^ 128 \<le> wallet_total values"
    using picked_le_total [OF pair_picked(1) [OF ind ab(1,2)]]
    by (simp only: pair_picked(2) [OF ind ab(1,2)])
  with f show "f = Err InputAmountOverflow \<and> 2 ^ 128 \<le> wallet_total values" by simp
qed

lemma one_scan_at:
  assumes ind: "indexed values ns" and post: "one_scan_post ns goal r"
  shows "r = OneScanExact i \<Longrightarrow> i < length values \<and> amount_at values i = value_of goal"
    "r = OneScanOvershoot i e \<Longrightarrow> i < length values
       \<and> amount_at values i = value_of goal + value_of e \<and> 0 < value_of e
       \<and> (\<forall>a < length values. amount_at values a < value_of goal
            \<or> value_of goal + value_of e \<le> amount_at values a)"
    "r = OneScanMiss \<Longrightarrow> \<forall>a < length values. amount_at values a < value_of goal"
proof -
  have elem: "(k, values ! k) \<in> set ns" if "k < length values" for k
    using indexed_facts(4) [OF ind that] nth_mem by metis
  have back_at: "fst n < length values \<and> value_of (snd n) = amount_at values (fst n)" if "n \<in> set ns" for n
    using indexed_facts(3) [OF ind that] by (simp add: amount_at_def)
  show "r = OneScanExact i \<Longrightarrow> i < length values \<and> amount_at values i = value_of goal"
    using post back_at by fastforce
  show "r = OneScanMiss \<Longrightarrow> \<forall>a < length values. amount_at values a < value_of goal"
    using post elem by (force simp: amount_at_def)
  assume r: "r = OneScanOvershoot i e"
  with post obtain n where n: "n \<in> set ns" "fst n = i" "value_of (snd n) = value_of goal + value_of e"
    "0 < value_of e" by auto
  have "amount_at values a < value_of goal \<or> value_of goal + value_of e \<le> amount_at values a"
    if "a < length values" for a
    using post r elem [OF that] by (simp add: amount_at_def not_less [symmetric]) fastforce
  with n back_at [OF n(1)] show "i < length values
      \<and> amount_at values i = value_of goal + value_of e \<and> 0 < value_of e
      \<and> (\<forall>a < length values. amount_at values a < value_of goal
           \<or> value_of goal + value_of e \<le> amount_at values a)"
    by simp
qed

lemma k_scan_at:
  assumes ind: "indexed values ns" and post: "k_scan_post ns goal r"
  shows "r = Inr (KScanExact is) \<Longrightarrow> picked values is \<and> picked_sum values is = value_of goal
      \<and> 3 \<le> length is \<and> length is \<le> TRANSACTION_LIMIT"
    "r = Inr (KScanOvershoot is e) \<Longrightarrow> picked values is
       \<and> picked_sum values is = value_of goal + value_of e \<and> is \<noteq> []"
    "r = Inr KScanMiss \<Longrightarrow> values = [] \<or> wallet_total values < value_of goal"
    "r = Inl f \<Longrightarrow> f = Err InputAmountOverflow \<and> 2 ^ 128 \<le> wallet_total values"
  using post path_picked [OF _ ind] indexed_facts(1,5) [OF ind] by fastforce+

text \<open>A set of notes that covers the goal is large when no pair does.\<close>

lemma at_least_three:
  assumes "two_below values goal" "picked values is" "is \<noteq> []" "value_of goal \<le> picked_sum values is"
  shows "3 \<le> length is"
proof -
  consider i where "is = [i]" | i j where "is = [i, j]" | "3 \<le> length is"
    using assms(3) by (cases "is" rule: list.exhaust; cases "tl is"; cases "tl (tl is)") auto
  then show ?thesis
    using assms by cases (auto simp: two_below_def picked_def picked_sum_def not_less[symmetric])
qed

lemma one_overshoot_alone:
  assumes "i < length values" "value_of goal \<le> amount_at values i"
    and "\<forall>a < length values. \<forall>b < length values. a \<noteq> b \<longrightarrow>
      amount_at values a + amount_at values b < value_of goal"
  shows "length values = 1 \<and> i = 0"
proof -
  have only: "j = i" if "j < length values" for j
  proof (rule ccontr)
    assume "j \<noteq> i"
    then have "amount_at values j + amount_at values i < value_of goal"
      using assms(1,3) that by blast
    with assms(2) show False by simp
  qed
  have "0 = i" using only [of 0] assms(1) by linarith
  moreover have "length values - 1 = i" using only [of "length values - 1"] assms(1) by linarith
  ultimately show ?thesis using assms(1) by linarith
qed

fun selection_ok ::
  "note_amount list \<Rightarrow> note_amount \<Rightarrow> (plan_error, combination_result) result \<Rightarrow> bool" where
  "selection_ok values goal (Inr c) \<longleftrightarrow> combination_ok values goal c"
| "selection_ok values goal (Inl f) \<longleftrightarrow> f = Err InputAmountOverflow \<and> 2 ^ 128 \<le> wallet_total values"

lemma two_below_prefix:
  assumes ind: "indexed values ns" and below: "two_below values goal" and ne: "values \<noteq> []"
  shows "\<forall>n \<in> set ns. snd n < goal" "amount_sum (take 2 (rev ns)) < value_of goal"
proof -
  show "\<forall>n \<in> set ns. snd n < goal"
    using below indexed_facts(3) [OF ind] by (auto simp: two_below_def amount_at_def note_less)
  let ?ps = "take 2 (rev ns)"
  have path: "path_of (rev ns) (map fst ?ps) (length ?ps) (amount_sum ?ps)"
    unfolding path_of_def using prefix_imp_subseq [OF take_is_prefix] by blast
  have "map fst ?ps \<noteq> []" using ne indexed_facts(1) [OF ind] by auto
  moreover have "\<not> 3 \<le> length (map fst ?ps)" by simp
  ultimately show "amount_sum ?ps < value_of goal"
    using at_least_three [OF below path_picked(1) [OF path ind]] path_picked(3) [OF path ind]
    by linarith
qed

lemma k_result_ok:
  assumes ind: "indexed values ns" and ord: "by_amount ns" and len: "length ns < 2 ^ USIZE_BITS"
    and below: "two_below values goal" and ne: "values \<noteq> []"
  shows "selection_ok values goal (and_then (k_scan_run ns goal) (\<lambda>k. Inr (k_result k)))"
proof (cases "k_scan_run ns goal")
  case (Inl f)
  then show ?thesis using k_scan_at(4) [OF ind k_scan_run_spec [OF len]] by simp
next
  case (Inr k)
  note post = k_scan_run_spec [OF len, of goal, unfolded Inr]
  note at = k_scan_at [OF ind post]
  have few: "fewest values goal is \<and> falling values is" if "k = KScanExact is \<or> k = KScanOvershoot is e"
    for "is" e
  proof
    show "fewest values goal is"
      using k_scan_run_fewest [OF ord len two_below_prefix [OF ind below ne] Inr] that
      by (intro prefix_fewest [OF ind ord]) auto
    show "falling values is"
      using post that path_falling [OF _ ind ord] by auto
  qed
  show ?thesis
  proof (cases k)
    case (KScanOvershoot "is" e)
    then have "picked values is \<and> picked_sum values is = value_of goal + value_of e \<and> is \<noteq> []"
      using at(2) by simp
    with at_least_three [OF below, of "is"] show ?thesis
      using Inr KScanOvershoot few by (simp add: k_result_def)
  qed (use Inr at(1,3) few in \<open>simp_all add: k_result_def\<close>)
qed

lemma pick_tier_ok:
  assumes ind: "indexed values ns" and two: "two_scan_post ns goal (Inr two)"
    and one: "one_scan_post ns goal one"
    and ord: "by_amount ns" "length ns < 2 ^ USIZE_BITS" and ne: "values \<noteq> []"
  shows "selection_ok values goal (pick_tier one (k_scan_run ns goal) two)"
proof (cases two)
  case (TwoScanExact i j)
  then show ?thesis using two_scan_at(1) [OF ind two] by (simp add: pick_tier_def)
next
  case (TwoScanOvershoot i j e)
  note at2 = two_scan_at(2) [OF ind two, unfolded TwoScanOvershoot, OF refl]
  then have ne: "amount_at values a + amount_at values b \<noteq> value_of goal"
    if "a < length values" "b < length values" "a \<noteq> b" for a b using that by fastforce
  show ?thesis
  proof (cases "\<exists>x. one = OneScanExact x")
    case True
    then show ?thesis
      using ne one_scan_at(1) [OF ind one] TwoScanOvershoot
      by (auto simp: pick_tier_def picked_def picked_sum_def)
  next
    case False
    have "amount_at values a \<noteq> value_of goal" if "a < length values" for a
      using False one_scan_at(2,3) [OF ind one] that by (cases one) fastforce+
    with at2 False TwoScanOvershoot show ?thesis
      by (cases one) (auto simp: pick_tier_def)
  qed
next
  case TwoScanMiss
  note low = two_scan_at(3) [OF ind two, unfolded TwoScanMiss, OF refl]
  show ?thesis
  proof (cases one)
    case (OneScanExact x)
    have "amount_at values a + amount_at values b \<noteq> value_of goal"
      if "a < length values" "b < length values" "a \<noteq> b" for a b
      using low that less_irrefl by metis
    then show ?thesis
      using one_scan_at(1) [OF ind one OneScanExact] OneScanExact TwoScanMiss
      by (simp add: pick_tier_def picked_def picked_sum_def)
  next
    case (OneScanOvershoot x e)
    note at1 = one_scan_at(2) [OF ind one OneScanOvershoot]
    with one_overshoot_alone [OF _ _ low, of x] show ?thesis
      using OneScanOvershoot TwoScanMiss by (auto simp: pick_tier_def)
  next
    case OneScanMiss
    have "two_below values goal"
      using low one_scan_at(3) [OF ind one OneScanMiss] by (simp add: two_below_def)
    with k_result_ok [OF ind ord _ ne] show ?thesis
      using OneScanMiss TwoScanMiss by (simp add: pick_tier_def)
  qed
qed

lemma find_combination_ok:
  assumes "sorts_by_amount srt" and "length values < 2 ^ USIZE_BITS"
  shows "\<exists>r. find_combination srt values goal = Some r \<and> selection_ok values goal r"
proof (cases "values = []")
  case True
  then show ?thesis by (simp add: find_combination_def)
next
  case False
  define ns where "ns = srt (List.enumerate 0 values)"
  have ind: "indexed values ns" and ord: "by_amount ns"
    using assms(1) by (simp_all add: sorts_by_amount_def indexed_def ns_def)
  have len: "length ns < 2 ^ USIZE_BITS" using assms(2) indexed_facts(1) [OF ind] by simp
  obtain r where two: "two_scan_run ns goal = Some r" "two_scan_post ns goal r"
    using two_scan_run_spec [OF ord len] by blast
  have run: "find_combination srt values goal
      = Some (and_then r (pick_tier (one_scan_run ns goal) (k_scan_run ns goal)))"
    using False two(1) by (simp add: find_combination_def ns_def Let_def)
  show ?thesis
  proof (cases r)
    case (Inl f)
    then show ?thesis using run two_scan_at(4) [OF ind two(2)] by simp
  next
    case (Inr v)
    then show ?thesis
      using run two(2) pick_tier_ok [OF ind _ one_scan_run_spec [OF ord] ord len False]
      by simp
  qed
qed

section \<open>Properties\<close>

text \<open>
  Coin selection, for every sort of the notes by amount and every wallet that fits the index
  type. It always returns. A result names distinct notes of the wallet whose amounts add up to
  the goal plus the excess it reports; a pair with an excess has the smallest excess of all pairs;
  a single overshooting note is the only note; three notes or more are returned only when no
  smaller set reaches the goal, largest first, and an exact set then has at most ten; and \<open>Impossible\<close> means that the
  whole wallet is below the goal (or empty). The only error is an overflow of the amounts, which
  needs a wallet of \<open>2\<^sup>1\<^sup>2\<^sup>8\<close> units.
\<close>

theorem find_combination_sound:
  assumes "sorts_by_amount srt" and "length values < 2 ^ USIZE_BITS"
  shows "\<exists>r. find_combination srt values goal = Some r \<and> selection_ok values goal r"
  by (rule find_combination_ok [OF assms])

text \<open>The stable sort of the library is one such sort.\<close>

definition stable_sort :: "indexed_note list \<Rightarrow> indexed_note list" where
  "stable_sort = sort_key (\<lambda>n. value_of (snd n))"

lemma stable_sort_ok: "sorts_by_amount stable_sort"
  unfolding sorts_by_amount_def stable_sort_def by_amount_def
proof (intro allI conjI impI)
  fix ns :: "indexed_note list" and a b
  let ?ms = "sort_key (\<lambda>n. value_of (snd n)) ns"
  assume ab: "a \<le> b" "b < length ?ms"
  have "sorted (map (\<lambda>n. value_of (snd n)) ?ms)" by (rule sorted_sort_key)
  then show "value_of (snd (?ms ! a)) \<le> value_of (snd (?ms ! b))"
    using ab sorted_nth_mono [of "map (\<lambda>n. value_of (snd n)) ?ms" a b] by simp
qed simp

theorem find_combination_sound_witness:
  "\<exists>r. find_combination stable_sort [NoteAmount 2, NoteAmount 3, NoteAmount 6] (NoteAmount 10) = Some r
     \<and> selection_ok [NoteAmount 2, NoteAmount 3, NoteAmount 6] (NoteAmount 10) r"
  by (rule find_combination_sound [OF stable_sort_ok]) (simp add: USIZE_BITS_def)

text \<open>
  An overshoot of three notes is taken before an exact sum of four. In the wallet 9, 8, 7, 2, 1
  the goal 20 is met exactly by 9 + 8 + 2 + 1, but the search for three notes records the
  overshoot 9 + 8 + 7 and returns it with an excess of 4, before four notes are tried.
\<close>

theorem overshoot_before_exact:
  "find_combination stable_sort (map NoteAmount [9, 8, 7, 2, 1]) (NoteAmount 20)
     = Some (Inr (Overshoot [0, 1, 2] (NoteAmount 4)))
   \<and> picked (map NoteAmount [9, 8, 7, 2, 1]) [0, 1, 3, 4]
   \<and> picked_sum (map NoteAmount [9, 8, 7, 2, 1]) [0, 1, 3, 4] = value_of (NoteAmount 20)"
proof -
  let ?vs = "map NoteAmount [9, 8, 7, 2, 1]"
  let ?ns = "[(4, NoteAmount 1), (3, NoteAmount 2), (2, NoteAmount 7), (1, NoteAmount 8), (0, NoteAmount 9)]"
  note arith = note_checked_add_def note_checked_sub_def u128_checked_add_def u128_checked_sub_def
    note_is_zero_def NOTE_ZERO_def note_less note_le value_of_def
  have sorted: "stable_sort (List.enumerate 0 ?vs) = ?ns"
    by (simp add: stable_sort_def value_of_def)
  have two: "two_scan_run ?ns (NoteAmount 20) = Some (Inr TwoScanMiss)"
    by (simp add: two_scan_run_def checked_sub_def two_scan_loop.simps arith checked_add_def
        fits_def USIZE_BITS_def nth_opt_def)
  have one: "one_scan_run ?ns (NoteAmount 20) = OneScanMiss"
    by (simp add: arith word_le_nat_alt)
  have k: "k_scan_run ?ns (NoteAmount 20) = Inr (KScanOvershoot [0, 1, 2] (NoteAmount 4))"
    by (simp add: k_scan_run_def TRANSACTION_LIMIT_def arith fresh_context_def dfs.simps dfs_full_def
        i32_checked_sub_def checked_add_def fits_def USIZE_BITS_def nth_opt_def)
  have "find_combination stable_sort ?vs (NoteAmount 20)
      = Some (Inr (Overshoot [0, 1, 2] (NoteAmount 4)))"
    by (simp only: find_combination_def sorted [unfolded list.map] Let_def two one k option.map and_then_simps
        pick_tier_def two_scan.case one_scan.case k_result_def k_scan.case list.map list.distinct if_False)
  moreover have "picked ?vs [0, 1, 3, 4]" by (simp add: picked_def)
  moreover have "picked_sum ?vs [0, 1, 3, 4] = value_of (NoteAmount 20)"
    by (simp add: picked_sum_def amount_at_def value_of_def)
  ultimately show ?thesis by blast
qed

end
