(* ===== verification/TxPlan.thy ===== *)
theory TxPlan
  imports CoinSelection
begin

text \<open>
  Transaction plans (\<open>app/crates/core/tx-planner/src/plan/mod.rs\<close>): the notes that coin selection
  picked become a chain of two-input steps, each but the last merging its inputs into one note,
  and the resolution of a step's inputs against the wallet of the moment.
\<close>

section \<open>Notes, steps and plans\<close>

record spendable_note =
  sn_commitment :: field_element
  sn_amount :: note_amount

record step_note =
  stn_commitment :: "field_element option"
  stn_amount :: note_amount

datatype step_action =
    Consolidate note_amount
  | Final note_amount "note_amount option"

record planned_step =
  ps_inputs :: "step_note \<times> step_note option"
  ps_action :: step_action

datatype transaction_plan = TransactionPlan (plan_steps: "planned_step list")

definition from_spendable :: "spendable_note \<Rightarrow> step_note" where
  "from_spendable n = \<lparr>stn_commitment = Some (sn_commitment n), stn_amount = sn_amount n\<rparr>"

definition from_amount :: "note_amount \<Rightarrow> step_note" where
  "from_amount a = \<lparr>stn_commitment = None, stn_amount = a\<rparr>"

definition assemble :: "planned_step list \<Rightarrow> transaction_plan option" where
  "assemble steps =
     (if steps = [] then None
      else (case ps_action (last steps) of
              Final _ _ \<Rightarrow> Some (TransactionPlan steps)
            | Consolidate _ \<Rightarrow> None))"

section \<open>Planning\<close>

definition chosen :: "combination_result \<Rightarrow> (plan_error, nat list \<times> note_amount option) result" where
  "chosen combo = (case combo of
     Impossible \<Rightarrow> Inl (Err NoCombination)
   | OneExact i \<Rightarrow> Inr ([i], None)
   | TwoExact i j \<Rightarrow> Inr ([i, j], None)
   | OneOvershoot i excess \<Rightarrow> Inr ([i], Some excess)
   | TwoOvershoot i j excess \<Rightarrow> Inr ([i, j], Some excess)
   | ExactK indices \<Rightarrow> Inr (indices, None)
   | Overshoot indices excess \<Rightarrow> Inr (indices, Some excess))"

definition check_index :: "spendable_note list \<Rightarrow> nat \<Rightarrow> unit \<Rightarrow> (plan_error, unit) result" where
  "check_index notes index _ =
     (if length notes \<le> index then Inl (Err (NoteIndexOutOfRange index)) else Inr ())"

text \<open>The body of the loop over the picked notes after the first.\<close>

definition merge_note ::
  "spendable_note list \<Rightarrow> nat \<Rightarrow> note_amount \<times> step_note \<times> planned_step list
     \<Rightarrow> (plan_error, note_amount \<times> step_note \<times> planned_step list) result" where
  "merge_note notes index st =
     (case st of (running, prev_note, steps) \<Rightarrow>
      and_then (unwrap (nth_opt notes index)) (\<lambda>note.
      let current_note = from_spendable note in
      and_then (ok_or (note_checked_add running (stn_amount current_note)) InputAmountOverflow) (\<lambda>next_sum.
        Inr (next_sum, from_amount next_sum,
             steps @ [\<lparr>ps_inputs = (prev_note, Some current_note),
                       ps_action = Consolidate next_sum\<rparr>]))))"

definition finish_last :: "note_amount \<Rightarrow> note_amount option \<Rightarrow> planned_step list \<Rightarrow> planned_step list" where
  "finish_last amount change steps =
     (if steps = [] then []
      else butlast steps @ [(last steps)\<lparr>ps_action := Final amount change\<rparr>])"

definition build_steps ::
  "note_amount \<Rightarrow> note_amount option \<Rightarrow> spendable_note list \<Rightarrow> nat list
     \<Rightarrow> (plan_error, planned_step list) result" where
  "build_steps amount change notes indices =
     and_then (unwrap (nth_opt indices 0)) (\<lambda>i0.
     and_then (unwrap (nth_opt notes i0)) (\<lambda>n0.
     let note0 = from_spendable n0 in
     if length indices = 1 then
       Inr [\<lparr>ps_inputs = (note0, None), ps_action = Final amount change\<rparr>]
     else
       and_then (fold_result (merge_note notes) (drop 1 indices) (stn_amount note0, note0, []))
         (\<lambda>(_, _, steps). Inr (finish_last amount change steps))))"

definition plan ::
  "(indexed_note list \<Rightarrow> indexed_note list) \<Rightarrow> note_amount \<Rightarrow> spendable_note list
     \<Rightarrow> (plan_error, transaction_plan) result option" where
  "plan sort_by_amount amount notes =
     (if notes = [] then Some (Inl (Err NoSpendableNotes))
      else map_option (\<lambda>combo_res.
        and_then combo_res (\<lambda>combo.
        and_then (chosen combo) (\<lambda>(indices, change).
        if TRANSACTION_LIMIT < length indices
        then Inl (Err (TooManyNotes (length indices) TRANSACTION_LIMIT))
        else
          and_then (fold_result (check_index notes) indices ()) (\<lambda>_.
          and_then (build_steps amount change notes indices) (\<lambda>steps.
            ok_or (assemble steps) InvalidPlan)))))
        (find_combination sort_by_amount (map sn_amount notes) amount))"

section \<open>Resolving a step against the wallet\<close>

definition resolve_input_note ::
  "step_note \<Rightarrow> spendable_note list \<Rightarrow> step_note option \<Rightarrow> (plan_error, spendable_note) result" where
  "resolve_input_note input notes sibling =
     (case stn_commitment input of
        Some commitment \<Rightarrow>
          and_then (ok_or (List.find (\<lambda>note. sn_commitment note = commitment) notes)
                      (NoteCommitmentNotFound commitment)) (\<lambda>note.
            if sn_amount note \<noteq> stn_amount input
            then Inl (Err (NoteAmountMismatch commitment (sn_amount note) (stn_amount input)))
            else Inr note)
      | None \<Rightarrow>
          (let excluded = Option.bind sibling stn_commitment;
               matches = filter (\<lambda>note. excluded \<noteq> Some (sn_commitment note))
                           (filter (\<lambda>note. sn_amount note = stn_amount input) notes) in
           if length matches = 0 then Inl (Err (NoNoteForAmount (stn_amount input)))
           else if length matches = 1 then unwrap (nth_opt matches 0)
           else Inl (Err (AmbiguousNoteForAmount (stn_amount input)))))"

definition resolve :: "planned_step \<Rightarrow> spendable_note list \<Rightarrow> (plan_error, spendable_note list) result" where
  "resolve step notes =
     and_then (resolve_input_note (fst (ps_inputs step)) notes (snd (ps_inputs step))) (\<lambda>first.
       case snd (ps_inputs step) of
         None \<Rightarrow> Inr [first]
       | Some second \<Rightarrow>
           and_then (resolve_input_note second notes (Some (fst (ps_inputs step)))) (\<lambda>note.
             Inr [first, note]))"

section \<open>The shape of a plan\<close>

definition amount_of :: "nat \<Rightarrow> note_amount" where
  "amount_of n = NoteAmount (word_of_nat n)"

lemma value_of_amount_of: "n < 2 ^ 128 \<Longrightarrow> value_of (amount_of n) = n"
proof -
  assume "n < 2 ^ 128"
  then have "n < 2 ^ LENGTH(128)" by simp
  then show ?thesis by (simp add: amount_of_def value_of_def unat_of_nat)
qed

lemma amount_of_value: "amount_of (value_of a) = a"
  by (cases a) (simp add: amount_of_def value_of_def)

text \<open>The sum of the first \<open>m\<close> picked notes, and the step that merges note \<open>j + 1\<close>.\<close>

definition sum_of :: "spendable_note list \<Rightarrow> nat list \<Rightarrow> nat \<Rightarrow> nat" where
  "sum_of notes is m = picked_sum (map sn_amount notes) (take m is)"

definition chain_input :: "spendable_note list \<Rightarrow> nat list \<Rightarrow> nat \<Rightarrow> step_note" where
  "chain_input notes is j =
     (if j = 0 then from_spendable (notes ! (is ! 0)) else from_amount (amount_of (sum_of notes is (Suc j))))"

definition chain_step :: "spendable_note list \<Rightarrow> nat list \<Rightarrow> step_action \<Rightarrow> nat \<Rightarrow> planned_step" where
  "chain_step notes is action j =
     \<lparr>ps_inputs = (chain_input notes is j, Some (from_spendable (notes ! (is ! Suc j)))),
      ps_action = action\<rparr>"

definition merge_step :: "spendable_note list \<Rightarrow> nat list \<Rightarrow> nat \<Rightarrow> planned_step" where
  "merge_step notes is j = chain_step notes is (Consolidate (amount_of (sum_of notes is (j + 2)))) j"

definition planned_chain ::
  "spendable_note list \<Rightarrow> nat list \<Rightarrow> note_amount \<Rightarrow> note_amount option \<Rightarrow> planned_step list" where
  "planned_chain notes is amount change =
     (if length is = 1
      then [\<lparr>ps_inputs = (from_spendable (notes ! (is ! 0)), None), ps_action = Final amount change\<rparr>]
      else map (merge_step notes is) [0..<length is - 2]
           @ [chain_step notes is (Final amount change) (length is - 2)])"

lemma picked_sum_simps [simp]:
  "picked_sum values [] = 0"
  "picked_sum values (i # is) = amount_at values i + picked_sum values is"
  "picked_sum values (is @ js) = picked_sum values is + picked_sum values js"
  by (simp_all add: picked_sum_def)

lemma sum_of_Suc:
  "m < length is \<Longrightarrow> is ! m < length notes \<Longrightarrow>
     sum_of notes is (Suc m) = sum_of notes is m + value_of (sn_amount (notes ! (is ! m)))"
  by (simp add: sum_of_def take_Suc_conv_app_nth amount_at_def)

lemma sum_of_mono: "m \<le> n \<Longrightarrow> sum_of notes is m \<le> sum_of notes is n"
  using picked_sum_simps(3) [of "map sn_amount notes" "take m is" "take (n - m) (drop m is)"]
  by (simp add: sum_of_def take_add [symmetric])

lemma sum_of_all: "length is \<le> m \<Longrightarrow> sum_of notes is m = picked_sum (map sn_amount notes) is"
  by (simp add: sum_of_def)

lemma merge_note_sum:
  assumes "i < length notes" and "acc < 2 ^ 128"
    and nxt: "nxt = acc + value_of (sn_amount (notes ! i))"
  shows "merge_note notes i (amount_of acc, prev, steps) =
    (if nxt < 2 ^ 128
     then Inr (amount_of nxt, from_amount (amount_of nxt),
               steps @ [\<lparr>ps_inputs = (prev, Some (from_spendable (notes ! i))),
                         ps_action = Consolidate (amount_of nxt)\<rparr>])
     else Inl (Err InputAmountOverflow))"
proof -
  have "note_checked_add (amount_of acc) (sn_amount (notes ! i))
      = (if nxt < 2 ^ 128 then Some (amount_of nxt) else None)"
    using value_of_amount_of [OF assms(2)] value_of_amount_of [of nxt] nxt
    by (simp add: note_checked_add_Some note_checked_add_None)
  with assms(1) show ?thesis by (simp add: merge_note_def from_spendable_def Let_def)
qed

lemma merge_loop:
  assumes bounds: "\<forall>i \<in> set is. i < length notes"
  shows "m < length is \<Longrightarrow>
    fold_result (merge_note notes) (take m (drop 1 is))
      (sn_amount (notes ! (is ! 0)), from_spendable (notes ! (is ! 0)), [])
    = (if sum_of notes is (Suc m) < 2 ^ 128
       then Inr (amount_of (sum_of notes is (Suc m)), chain_input notes is m,
                 map (merge_step notes is) [0..<m])
       else Inl (Err InputAmountOverflow))"
proof (induction m)
  case 0
  then have "is ! 0 < length notes" using bounds nth_mem by blast
  then have "sum_of notes is (Suc 0) = value_of (sn_amount (notes ! (is ! 0)))"
    using 0 sum_of_Suc [of 0 "is" "notes"] by (simp add: sum_of_def)
  then show ?case using value_of_less by (simp add: chain_input_def amount_of_value)
next
  case (Suc m)
  have in_range: "is ! Suc m < length notes" using Suc.prems bounds nth_mem by blast
  have upto: "take (Suc m) (drop 1 is) = take m (drop 1 is) @ [is ! Suc m]"
    using Suc.prems by (simp add: take_Suc_conv_app_nth)
  have next_sum: "sum_of notes is (Suc (Suc m))
      = sum_of notes is (Suc m) + value_of (sn_amount (notes ! (is ! Suc m)))"
    by (rule sum_of_Suc [OF Suc.prems in_range])
  show ?case
  proof (cases "sum_of notes is (Suc m) < 2 ^ 128")
    case False
    moreover have "sum_of notes is (Suc m) \<le> sum_of notes is (Suc (Suc m))" by (simp add: next_sum)
    ultimately show ?thesis
      using Suc unfolding upto fold_result_append by simp
  next
    case True
    have "chain_input notes is (Suc m) = from_amount (amount_of (sum_of notes is (Suc (Suc m))))"
      by (simp add: chain_input_def)
    moreover have "fold_result (merge_note notes) (take m (drop 1 is))
        (sn_amount (notes ! (is ! 0)), from_spendable (notes ! (is ! 0)), [])
      = Inr (amount_of (sum_of notes is (Suc m)), chain_input notes is m, map (merge_step notes is) [0..<m])"
      using Suc.IH [OF Suc_lessD [OF Suc.prems]] True by simp
    ultimately show ?thesis
      using merge_note_sum [OF in_range True next_sum]
      unfolding upto fold_result_append by (simp add: merge_step_def chain_step_def)
  qed
qed

lemma finish_chain:
  assumes "2 \<le> length is"
  shows "finish_last amount change (map (merge_step notes is) [0..<length is - 1])
    = planned_chain notes is amount change"
proof -
  have upt: "[0..<length is - 1] = [0..<length is - 2] @ [length is - 2]"
    using assms by (metis Suc_1 Suc_diff_Suc Suc_le_lessD diff_Suc_1 upt_Suc_append zero_le)
  show ?thesis
    using assms unfolding upt
    by (simp add: finish_last_def planned_chain_def merge_step_def chain_step_def)
qed

lemma build_steps_chain:
  assumes "picked (map sn_amount notes) is" and "is \<noteq> []"
  shows "build_steps amount change notes is =
    (if length is = 1 \<or> picked_sum (map sn_amount notes) is < 2 ^ 128
     then Inr (planned_chain notes is amount change) else Inl (Err InputAmountOverflow))"
proof -
  have bounds: "\<forall>i \<in> set is. i < length notes" using assms(1) by (simp add: picked_def)
  then have first: "nth_opt notes (is ! 0) = Some (notes ! (is ! 0))" "nth_opt is 0 = Some (is ! 0)"
    using assms(2) by simp_all
  show ?thesis
  proof (cases "length is = 1")
    case True
    then show ?thesis using first by (simp add: build_steps_def planned_chain_def Let_def)
  next
    case False
    then have two: "2 \<le> length is" using assms(2) by (cases "is") (auto simp: Suc_le_eq)
    then have "fold_result (merge_note notes) (drop 1 is)
        (sn_amount (notes ! (is ! 0)), from_spendable (notes ! (is ! 0)), [])
      = (if picked_sum (map sn_amount notes) is < 2 ^ 128
         then Inr (amount_of (sum_of notes is (length is)), chain_input notes is (length is - 1),
                   map (merge_step notes is) [0..<length is - 1])
         else Inl (Err InputAmountOverflow))"
      using merge_loop [OF bounds, of "length is - 1"] by (simp add: sum_of_all)
    then show ?thesis
      using False first finish_chain [OF two]
      by (simp add: build_steps_def Let_def from_spendable_def)
  qed
qed

lemma assemble_chain:
  "is \<noteq> [] \<Longrightarrow> assemble (planned_chain notes is amount change)
     = Some (TransactionPlan (planned_chain notes is amount change))"
  by (simp add: assemble_def planned_chain_def chain_step_def)

lemma length_planned_chain:
  "is \<noteq> [] \<Longrightarrow> length (planned_chain notes is amount change) = max 1 (length is - 1)"
  by (cases "is"; cases "tl is") (auto simp: planned_chain_def)

lemma check_indices:
  "fold_result (check_index notes) is () =
     (case List.find (\<lambda>i. length notes \<le> i) is of
        None \<Rightarrow> Inr () | Some i \<Rightarrow> Inl (Err (NoteIndexOutOfRange i)))"
  by (induction "is") (simp_all add: check_index_def)

lemma check_indices_picked: "picked (map sn_amount notes) is \<Longrightarrow> fold_result (check_index notes) is () = Inr ()"
  by (auto simp: check_indices picked_def find_Some_iff not_le split: option.splits)

section \<open>What a plan promises\<close>

definition change_value :: "note_amount option \<Rightarrow> nat" where
  "change_value change = (case change of None \<Rightarrow> 0 | Some c \<Rightarrow> value_of c)"

abbreviation amounts :: "spendable_note list \<Rightarrow> note_amount list" where
  "amounts notes \<equiv> map sn_amount notes"

definition good_picks ::
  "spendable_note list \<Rightarrow> note_amount \<Rightarrow> nat list \<Rightarrow> note_amount option \<Rightarrow> bool" where
  "good_picks notes amount is change \<longleftrightarrow>
     picked (amounts notes) is \<and> is \<noteq> [] \<and> length is \<le> TRANSACTION_LIMIT
     \<and> picked_sum (amounts notes) is = value_of amount + change_value change
     \<and> picked_sum (amounts notes) is < 2 ^ 128
     \<and> (3 \<le> length is \<longrightarrow> fewest (amounts notes) amount is \<and> falling (amounts notes) is)"

fun plan_ok :: "note_amount \<Rightarrow> spendable_note list \<Rightarrow> (plan_error, transaction_plan) result \<Rightarrow> bool" where
  "plan_ok amount notes (Inr p) \<longleftrightarrow>
     (\<exists>is change. good_picks notes amount is change \<and> plan_steps p = planned_chain notes is amount change)"
| "plan_ok amount notes (Inl (Err NoSpendableNotes)) \<longleftrightarrow> notes = []"
| "plan_ok amount notes (Inl (Err NoCombination)) \<longleftrightarrow> wallet_total (amounts notes) < value_of amount"
| "plan_ok amount notes (Inl (Err (TooManyNotes selected limit))) \<longleftrightarrow>
     limit = TRANSACTION_LIMIT \<and> limit < selected
     \<and> (\<forall>js. picked (amounts notes) js \<longrightarrow> value_of amount \<le> picked_sum (amounts notes) js
          \<longrightarrow> selected \<le> length js)"
| "plan_ok amount notes (Inl (Err InputAmountOverflow)) \<longleftrightarrow> 2 ^ 128 \<le> wallet_total (amounts notes)"
| "plan_ok amount notes (Inl _) \<longleftrightarrow> False"

lemma picked_single: "picked values is \<Longrightarrow> length is = 1 \<Longrightarrow> picked_sum values is < 2 ^ 128"
  using value_of_less by (cases "is") (auto simp: amount_at_def)

text \<open>The part of \<open>plan\<close> after coin selection, for picks that coin selection may return.\<close>

lemma plan_of_picks:
  assumes "picked (amounts notes) is" and "is \<noteq> []"
    and sum: "picked_sum (amounts notes) is = value_of amount + change_value change"
    and many: "3 \<le> length is \<Longrightarrow> fewest (amounts notes) amount is \<and> falling (amounts notes) is"
  shows "plan_ok amount notes
    (if TRANSACTION_LIMIT < length is then Inl (Err (TooManyNotes (length is) TRANSACTION_LIMIT))
     else and_then (fold_result (check_index notes) is ()) (\<lambda>_.
          and_then (build_steps amount change notes is) (\<lambda>steps. ok_or (assemble steps) InvalidPlan)))"
proof (cases "TRANSACTION_LIMIT < length is")
  case True
  then have "3 \<le> length is" by (simp add: TRANSACTION_LIMIT_def)
  with many True show ?thesis by (simp add: fewest_def)
next
  case False
  show ?thesis
  proof (cases "picked_sum (amounts notes) is < 2 ^ 128")
    case True
    then have "good_picks notes amount is change"
      using assms False by (simp add: good_picks_def)
    with False True show ?thesis
      by (auto simp: check_indices_picked [OF assms(1)] build_steps_chain [OF assms(1,2)]
          assemble_chain [OF assms(2)])
  next
    case overflow: False
    then have "length is \<noteq> 1" using picked_single [OF assms(1)] by blast
    moreover have "2 ^ 128 \<le> wallet_total (amounts notes)"
      using overflow picked_le_total [OF assms(1)] by simp
    ultimately show ?thesis
      using False overflow
      by (simp add: check_indices_picked [OF assms(1)] build_steps_chain [OF assms(1,2)])
  qed
qed

lemma chosen_picks:
  "combination_ok values goal combo \<Longrightarrow> chosen combo = Inr (is, change) \<Longrightarrow>
     picked values is \<and> is \<noteq> [] \<and> picked_sum values is = value_of goal + change_value change
     \<and> (3 \<le> length is \<longrightarrow> fewest values goal is \<and> falling values is)"
  by (cases combo) (auto simp: chosen_def change_value_def picked_def)

lemma chosen_none:
  "combination_ok values goal combo \<Longrightarrow> chosen combo = Inl f \<Longrightarrow>
     f = Err NoCombination \<and> (values = [] \<or> wallet_total values < value_of goal)"
  by (cases combo) (auto simp: chosen_def)

lemma plan_always_ok:
  assumes "sorts_by_amount srt" and "length notes < 2 ^ USIZE_BITS"
  shows "\<exists>r. plan srt amount notes = Some r \<and> plan_ok amount notes r"
proof (cases "notes = []")
  case True
  then show ?thesis by (simp add: plan_def)
next
  case False
  have "length (amounts notes) < 2 ^ USIZE_BITS" using assms(2) by simp
  then obtain r where r: "find_combination srt (amounts notes) amount = Some r"
    "selection_ok (amounts notes) amount r"
    using find_combination_ok [OF assms(1)] by blast
  show ?thesis
  proof (cases r)
    case (Inl f)
    with r False show ?thesis by (simp add: plan_def)
  next
    case (Inr combo)
    have ok: "combination_ok (amounts notes) amount combo" using r(2) Inr by simp
    show ?thesis
    proof (cases "chosen combo")
      case (Inl f)
      then show ?thesis using chosen_none [OF ok Inl] r(1) Inr False
        by (simp add: plan_def \<open>r = Inr combo\<close>)
    next
      case (Inr c)
      obtain "is" change where c: "c = (is, change)" by (cases c)
      note at = chosen_picks [OF ok Inr [unfolded c]]
      have "plan_ok amount notes
        (if TRANSACTION_LIMIT < length is then Inl (Err (TooManyNotes (length is) TRANSACTION_LIMIT))
         else and_then (fold_result (check_index notes) is ()) (\<lambda>_.
              and_then (build_steps amount change notes is) (\<lambda>steps. ok_or (assemble steps) InvalidPlan)))"
        using at by (intro plan_of_picks) auto
      then show ?thesis
        using r(1) \<open>r = Inr combo\<close> Inr False by (simp only: plan_def if_False option.map
            and_then_simps c prod.case) blast
    qed
  qed
qed

section \<open>Conservation and freedom from ambiguity\<close>

definition step_in :: "planned_step \<Rightarrow> nat" where
  "step_in step = value_of (stn_amount (fst (ps_inputs step)))
     + (case snd (ps_inputs step) of None \<Rightarrow> 0 | Some n \<Rightarrow> value_of (stn_amount n))"

fun action_out :: "step_action \<Rightarrow> nat" where
  "action_out (Consolidate out) = value_of out"
| "action_out (Final amount change) = value_of amount + change_value change"

definition conserves :: "planned_step \<Rightarrow> bool" where
  "conserves step \<longleftrightarrow> step_in step = action_out (ps_action step)"

lemma picked_nth: "picked values is \<Longrightarrow> m < length is \<Longrightarrow> is ! m < length values"
  by (simp add: picked_def)

lemma chain_input_value:
  assumes "picked (amounts notes) is" "j < length is" "sum_of notes is (Suc j) < 2 ^ 128"
  shows "value_of (stn_amount (chain_input notes is j)) = sum_of notes is (Suc j)"
proof (cases "j = 0")
  case True
  have "is ! 0 < length notes" using assms(1,2) nth_mem by (fastforce simp: picked_def True)
  then show ?thesis using assms(2) sum_of_Suc [of 0 "is" "notes"]
    by (simp add: True chain_input_def from_spendable_def sum_of_def)
next
  case False
  then show ?thesis using value_of_amount_of [OF assms(3)]
    by (simp add: chain_input_def from_amount_def)
qed

lemma chain_step_in:
  assumes "picked (amounts notes) is" "Suc j < length is" "picked_sum (amounts notes) is < 2 ^ 128"
  shows "step_in (chain_step notes is action j) = sum_of notes is (j + 2)"
proof -
  have le: "sum_of notes is m \<le> picked_sum (amounts notes) is" for m
    using sum_of_mono [of m "max m (length is)" "notes" "is"] sum_of_all [of "is" "max m (length is)" "notes"] by simp
  have small: "sum_of notes is (Suc j) < 2 ^ 128" using le assms(3) by (rule le_less_trans)
  have "is ! Suc j < length notes" using assms(1,2) nth_mem by (fastforce simp: picked_def)
  then show ?thesis
    using chain_input_value [OF assms(1) _ small] assms(2) sum_of_Suc [OF assms(2)]
    by (simp add: step_in_def chain_step_def from_spendable_def)
qed

lemma planned_chain_conserves:
  assumes good: "good_picks notes amount is change" and st: "step \<in> set (planned_chain notes is amount change)"
  shows "conserves step"
proof -
  note p = good [unfolded good_picks_def]
  have le: "sum_of notes is m \<le> picked_sum (amounts notes) is" for m
    using sum_of_mono [of m "max m (length is)" "notes" "is"] sum_of_all [of "is" "max m (length is)" "notes"] by simp
  show ?thesis
  proof (cases "length is = 1")
    case True
    then obtain i where i: "is = [i]" by (cases "is") auto
    with p st show ?thesis
      by (clarsimp simp: planned_chain_def conserves_def step_in_def from_spendable_def picked_def amount_at_def)
  next
    case False
    then have two: "2 \<le> length is" using p by (cases "is") (auto simp: Suc_le_eq)
    from st consider (merge) j where "j < length is - 2" "step = merge_step notes is j"
      | (last) "step = chain_step notes is (Final amount change) (length is - 2)"
      using False by (auto simp: planned_chain_def)
    then show ?thesis
    proof cases
      case merge
      have small: "sum_of notes is (j + 2) < 2 ^ 128" using le p by (meson le_less_trans)
      have "step_in step = sum_of notes is (j + 2)"
        using merge p by (simp add: merge_step_def chain_step_in)
      then show ?thesis
        using merge(2) value_of_amount_of [OF small]
        by (simp add: conserves_def merge_step_def chain_step_def)
    next
      case last
      have "sum_of notes is (length is - 2 + 2) = picked_sum (amounts notes) is"
        using two by (simp add: sum_of_all)
      with last show ?thesis
        using chain_step_in [of "notes" "is" "length is - 2"] p two
        by (simp add: conserves_def chain_step_def)
    qed
  qed
qed

text \<open>
  A merged note is found by its amount alone. No other note that is still in the wallet can have
  that amount: a picked one would be larger than the first pick, and with an unpicked one in
  place of the merged notes fewer notes would do.
\<close>

lemma fewest_positive:
  assumes "fewest values goal is" "picked values is" "value_of goal \<le> picked_sum values is" "i \<in> set is"
  shows "0 < amount_at values i"
proof (rule ccontr)
  assume "\<not> 0 < amount_at values i"
  moreover have "picked_sum values is = amount_at values i + picked_sum values (remove1 i is)"
    using assms(4) unfolding picked_sum_def by (rule sum_list_map_remove1)
  ultimately have "value_of goal \<le> picked_sum values (remove1 i is)" using assms(3) by simp
  moreover have "picked values (remove1 i is)" using assms(2) set_remove1_subset by (fastforce simp: picked_def)
  ultimately have le: "length is \<le> length (remove1 i is)" using assms(1) by (simp add: fewest_def)
  have "0 < length is" using assms(4) by (cases "is") auto
  with le show False unfolding length_remove1 using assms(4) by (simp only: if_True)
qed

lemma merged_amount_unique:
  assumes few: "fewest (amounts notes) goal is" and fall: "falling (amounts notes) is"
    and pick: "picked (amounts notes) is" and enough: "value_of goal \<le> picked_sum (amounts notes) is"
    and j: "1 \<le> j" "j + 1 < length is"
    and d: "d < length notes" "d \<notin> set (take (Suc j) is)"
  shows "value_of (sn_amount (notes ! d)) \<noteq> sum_of notes is (Suc j)"
proof
  assume eq: "value_of (sn_amount (notes ! d)) = sum_of notes is (Suc j)"
  have at: "amount_at (amounts notes) d = sum_of notes is (Suc j)" using eq d(1) by (simp add: amount_at_def)
  have split: "is = take (Suc j) is @ drop (Suc j) is" by simp
  have total_sum: "picked_sum (amounts notes) is
      = sum_of notes is (Suc j) + picked_sum (amounts notes) (drop (Suc j) is)"
    unfolding sum_of_def using picked_sum_simps(3) split by metis
  show False
  proof (cases "d \<in> set is")
    case False
    let ?js = "d # drop (Suc j) is"
    have "d \<notin> set (drop (Suc j) is)" using False in_set_dropD by metis
    then have "picked (amounts notes) ?js"
      using pick d(1) set_drop_subset [of "Suc j" "is"] by (auto simp: picked_def)
    moreover have "value_of goal \<le> picked_sum (amounts notes) ?js"
      using enough total_sum at by simp
    ultimately have "length is \<le> length ?js" using few by (simp only: fewest_def)
    then show False using j by simp
  next
    case True
    then obtain m where m: "m < length is" "is ! m = d" by (auto simp: in_set_conv_nth)
    then have "Suc j \<le> m" using d(2) by (metis in_set_conv_nth length_take min_less_iff_conj not_less nth_take)
    then have "amount_at (amounts notes) (is ! m) \<le> amount_at (amounts notes) (is ! 0)"
      using fall [unfolded falling_def] m(1) by (intro sorted_wrt_nth_less [where P = "\<lambda>i j. amount_at (amounts notes) j \<le> amount_at (amounts notes) i"]) simp_all
    moreover have "sum_of notes is (Suc 1) \<le> sum_of notes is (Suc j)" using j by (intro sum_of_mono) simp
    moreover have len: "0 < length is" "1 < length is" using j by linarith+
    have "is ! 0 < length notes" "is ! 1 < length notes"
      using picked_nth [OF pick len(1)] picked_nth [OF pick len(2)] by simp_all
    then have "sum_of notes is (Suc 1) = amount_at (amounts notes) (is ! 0) + amount_at (amounts notes) (is ! 1)"
      using sum_of_Suc [OF len(1), of "notes"] sum_of_Suc [OF len(2), of "notes"] by (simp add: sum_of_def amount_at_def)
    ultimately have "amount_at (amounts notes) (is ! 1) = 0" using at unfolding m(2) by linarith
    moreover have "is ! 1 \<in> set is" using j by (intro nth_mem) simp
    ultimately show False using fewest_positive [OF few pick enough] by fastforce
  qed
qed

section \<open>Properties\<close>

text \<open>
  C39: Planning always returns, and tells the truth. Whatever the order of equal amounts, a plan
  spends at most ten distinct wallet notes whose sum is the amount plus the change, in the chain
  of two-input steps that merges them one after the other; three or more notes are spent only when
  fewer do not suffice. \<open>NoSpendableNotes\<close> means an empty wallet, \<open>NoCombination\<close> a wallet below
  the amount, \<open>TooManyNotes\<close> that every sufficient set is that large, \<open>InputAmountOverflow\<close> a
  wallet of \<open>2\<^sup>1\<^sup>2\<^sup>8\<close> units. No internal error, index error, invalid plan or panic can occur.
\<close>

theorem plan_outcomes:
  assumes "sorts_by_amount srt" and "length notes < 2 ^ USIZE_BITS"
  shows "\<exists>r. plan srt amount notes = Some r \<and> plan_ok amount notes r"
  by (rule plan_always_ok [OF assms])

definition sample_note :: "nat \<Rightarrow> nat \<Rightarrow> spendable_note" where
  "sample_note c a = \<lparr>sn_commitment = Field (word_of_nat c), sn_amount = amount_of a\<rparr>"

definition sample_wallet :: "spendable_note list" where
  "sample_wallet = [sample_note 11 2, sample_note 12 3, sample_note 13 5, sample_note 14 4]"

theorem plan_outcomes_witness:
  "\<exists>r. plan stable_sort (amount_of 12) sample_wallet = Some r \<and> plan_ok (amount_of 12) sample_wallet r"
  by (rule plan_outcomes [OF stable_sort_ok]) (simp add: sample_wallet_def USIZE_BITS_def)

lemma sample_values: "value_of (amount_of 2) = 2" "value_of (amount_of 3) = 3"
  "value_of (amount_of 4) = 4" "value_of (amount_of 5) = 5" "value_of (amount_of 12) = 12"
  by (simp_all add: value_of_amount_of)

lemma sample_plan: "\<exists>p. plan stable_sort (amount_of 12) sample_wallet = Some (Inr p)"
proof -
  have total: "wallet_total (amounts sample_wallet) = 14"
    by (simp add: wallet_total_def sample_wallet_def sample_note_def sample_values)
  have js: "picked (amounts sample_wallet) [1, 2, 3]"
    "picked_sum (amounts sample_wallet) [1, 2, 3] = 12"
    by (simp_all add: picked_def amount_at_def sample_wallet_def sample_note_def sample_values)
  have len: "length sample_wallet < 2 ^ USIZE_BITS" by (simp add: sample_wallet_def USIZE_BITS_def)
  obtain r where r: "plan stable_sort (amount_of 12) sample_wallet = Some r"
    "plan_ok (amount_of 12) sample_wallet r"
    using plan_always_ok [OF stable_sort_ok len] by blast
  have "\<not> (\<exists>f. r = Inl f)"
    using r(2) total js
    by (cases "(amount_of 12, sample_wallet, r)" rule: plan_ok.cases)
      (auto simp: sample_values sample_wallet_def TRANSACTION_LIMIT_def)
  with r(1) show ?thesis by (cases r) auto
qed

text \<open>
  Plans conserve value. Every step of a plan sends out exactly what its two inputs hold, the
  last step is the only final one and pays the requested amount, and a plan for \<open>k\<close> notes has
  \<open>k - 1\<close> steps (one for a single note), at most nine.
\<close>

theorem plan_conserves_value:
  assumes "sorts_by_amount srt" and "length notes < 2 ^ USIZE_BITS"
    and "plan srt amount notes = Some (Inr p)"
  shows "(\<forall>step \<in> set (plan_steps p). conserves step)
    \<and> plan_steps p \<noteq> [] \<and> length (plan_steps p) \<le> 9
    \<and> (\<exists>change. ps_action (last (plan_steps p)) = Final amount change)
    \<and> (\<forall>step \<in> set (butlast (plan_steps p)). \<exists>out. ps_action step = Consolidate out)"
proof -
  obtain "is" change where good: "good_picks notes amount is change"
    and steps: "plan_steps p = planned_chain notes is amount change"
    using plan_always_ok [OF assms(1,2), of amount] assms(3) by auto
  have ne: "is \<noteq> []" and short: "length is \<le> 10" using good by (simp_all add: good_picks_def TRANSACTION_LIMIT_def)
  have "plan_steps p \<noteq> [] \<and> length (plan_steps p) \<le> 9"
    using length_planned_chain [OF ne, of "notes" amount change] short
    by (auto simp: steps simp del: length_0_conv simp: length_0_conv [symmetric])
  moreover have "\<exists>change. ps_action (last (plan_steps p)) = Final amount change"
    by (simp add: steps planned_chain_def chain_step_def)
  moreover have "\<forall>step \<in> set (butlast (plan_steps p)). \<exists>out. ps_action step = Consolidate out"
    by (auto simp: steps planned_chain_def butlast_append merge_step_def chain_step_def)
  ultimately show ?thesis using planned_chain_conserves [OF good] steps by simp
qed

theorem plan_conserves_value_witness:
  "\<exists>p. plan stable_sort (amount_of 12) sample_wallet = Some (Inr p) \<and> list_all conserves (plan_steps p)"
proof -
  obtain p where "plan stable_sort (amount_of 12) sample_wallet = Some (Inr p)"
    using sample_plan by blast
  moreover have "length sample_wallet < 2 ^ USIZE_BITS" by (simp add: sample_wallet_def USIZE_BITS_def)
  ultimately show ?thesis
    using plan_conserves_value [OF stable_sort_ok] by (simp add: list_all_iff)
qed

end
