(* ===== verification/SpendSession.thy ===== *)
theory SpendSession
  imports TxPlan
begin

text \<open>
  Spending step by step (\<open>app/crates/core/tx-planner/src/execute/mod.rs\<close>): a session freezes a
  plan and the wallet, turns each step into one \<open>transact\<close> call, and on completion of a step
  removes the spent notes and adds the merged one. Keys are 32-byte arrays, as lists of bytes.
\<close>

section \<open>The session\<close>

datatype session_error =
    SessionPlan plan_error
  | SessionComplete
  | ExtAmountOverflow
  | MissingWithdrawRecipient

datatype spend_target =
    TransferTo (recipient_note: "nat list") (recipient_enc: "nat list")
  | WithdrawTo string

record transact_call =
  tc_input_commitments :: "field_element list"
  tc_output_amounts :: "note_amount \<times> note_amount"
  tc_ext_amount :: ext_amount
  tc_ext_recipient :: string
  tc_out_note_pubkeys :: "nat list option \<times> nat list option"
  tc_out_encryption_pubkeys :: "nat list option \<times> nat list option"

record spend_session =
  ss_steps :: "planned_step list"
  ss_wallet :: "spendable_note list"
  ss_pool_address :: string
  ss_target :: spend_target
  ss_step_index :: nat

definition validate_target :: "spend_target \<Rightarrow> (session_error, unit) result" where
  "validate_target target =
     (case target of
        WithdrawTo recipient \<Rightarrow> ensure (\<not> recipient = []) MissingWithdrawRecipient
      | TransferTo _ _ \<Rightarrow> Inr ())"

definition setup_session ::
  "(indexed_note list \<Rightarrow> indexed_note list) \<Rightarrow> spendable_note list \<Rightarrow> note_amount \<Rightarrow> string
     \<Rightarrow> spend_target \<Rightarrow> (session_error, spend_session) result option" where
  "setup_session sort_by_amount wallet amount pool_address target =
     (case validate_target target of
        Inl e \<Rightarrow> Some (Inl e)
      | Inr _ \<Rightarrow> map_option (\<lambda>planned.
          and_then (map_err SessionPlan planned) (\<lambda>tx_plan.
            Inr \<lparr>ss_steps = plan_steps tx_plan, ss_wallet = wallet, ss_pool_address = pool_address,
                 ss_target = target, ss_step_index = 0\<rparr>))
          (plan sort_by_amount amount wallet))"

definition is_done :: "spend_session \<Rightarrow> bool" where
  "is_done s \<longleftrightarrow> length (ss_steps s) \<le> ss_step_index s"

definition is_consolidate_step :: "spend_session \<Rightarrow> bool" where
  "is_consolidate_step s \<longleftrightarrow>
     (case nth_opt (ss_steps s) (ss_step_index s) of
        None \<Rightarrow> False
      | Some step \<Rightarrow> (case ps_action step of Consolidate _ \<Rightarrow> True | Final _ _ \<Rightarrow> False))"

definition materialize_step ::
  "planned_step \<Rightarrow> string \<Rightarrow> spend_target \<Rightarrow> spendable_note list
     \<Rightarrow> (session_error, transact_call) result" where
  "materialize_step step pool_address target resolved_inputs =
     (let commitments = map sn_commitment resolved_inputs in
      case ps_action step of
        Consolidate output \<Rightarrow>
          Inr \<lparr>tc_input_commitments = commitments, tc_output_amounts = (output, NOTE_ZERO),
               tc_ext_amount = EXT_ZERO, tc_ext_recipient = pool_address,
               tc_out_note_pubkeys = (None, None), tc_out_encryption_pubkeys = (None, None)\<rparr>
      | Final send change \<Rightarrow>
          (case target of
             TransferTo note_key enc_key \<Rightarrow>
               Inr \<lparr>tc_input_commitments = commitments,
                    tc_output_amounts = (send, unwrap_or change NOTE_ZERO),
                    tc_ext_amount = EXT_ZERO, tc_ext_recipient = pool_address,
                    tc_out_note_pubkeys =
                      (Some note_key, if change \<noteq> None then None else Some note_key),
                    tc_out_encryption_pubkeys =
                      (Some enc_key, if change \<noteq> None then None else Some enc_key)\<rparr>
           | WithdrawTo recipient \<Rightarrow>
               and_then (ok_or (ext_try_from_note send) ExtAmountOverflow) (\<lambda>positive.
               and_then (ok_or (ext_checked_neg positive) ExtAmountOverflow) (\<lambda>ext.
                 Inr \<lparr>tc_input_commitments = commitments,
                      tc_output_amounts = (unwrap_or change NOTE_ZERO, NOTE_ZERO),
                      tc_ext_amount = ext, tc_ext_recipient = recipient,
                      tc_out_note_pubkeys = (None, None),
                      tc_out_encryption_pubkeys = (None, None)\<rparr>))))"

definition session_step :: "spend_session \<Rightarrow> (session_error, transact_call option) result" where
  "session_step s =
     (if is_done s then Inr None
      else
        and_then (unwrap (nth_opt (ss_steps s) (ss_step_index s))) (\<lambda>step.
        and_then (map_err SessionPlan (resolve step (ss_wallet s))) (\<lambda>resolved.
        and_then (materialize_step step (ss_pool_address s) (ss_target s) resolved) (\<lambda>call.
          Inr (Some call)))))"

definition remove_spent :: "spendable_note list \<Rightarrow> spendable_note list \<Rightarrow> spendable_note list" where
  "remove_spent wallet spent =
     fold (\<lambda>note w. filter (\<lambda>n. sn_commitment n \<noteq> sn_commitment note) w) spent wallet"

definition complete_step ::
  "field_element \<times> field_element \<Rightarrow> spend_session \<Rightarrow> (session_error, spend_session) result" where
  "complete_step output_commitments s =
     (if is_done s then Inl (Err SessionComplete)
      else
        and_then (unwrap (nth_opt (ss_steps s) (ss_step_index s))) (\<lambda>step.
        and_then (map_err SessionPlan (resolve step (ss_wallet s))) (\<lambda>spent.
        let wallet = remove_spent (ss_wallet s) spent;
            wallet1 = (case ps_action step of
              Consolidate output \<Rightarrow>
                wallet @ [\<lparr>sn_commitment = fst output_commitments, sn_amount = output\<rparr>]
            | Final _ _ \<Rightarrow> wallet) in
        and_then (unwrap (checked_add USIZE_BITS (ss_step_index s) 1)) (\<lambda>index.
          Inr (s\<lparr>ss_wallet := wallet1, ss_step_index := index\<rparr>)))))"

text \<open>The caller's loop: materialise a step, submit it, complete it with its output commitments.\<close>

fun run_session ::
  "(field_element \<times> field_element) list \<Rightarrow> spend_session
     \<Rightarrow> (session_error, transact_call list \<times> spend_session) result" where
  "run_session [] s = Inr ([], s)"
| "run_session (oc # ocs) s =
     and_then (session_step s) (\<lambda>call.
     and_then (complete_step oc s) (\<lambda>s1.
     and_then (run_session ocs s1) (\<lambda>(calls, s2).
       Inr ((case call of None \<Rightarrow> calls | Some c \<Rightarrow> c # calls), s2))))"

text \<open>The sessions that arise from a setup by completing steps, in any wallet.\<close>

inductive session_reachable ::
  "(indexed_note list \<Rightarrow> indexed_note list) \<Rightarrow> spendable_note list \<Rightarrow> note_amount \<Rightarrow> spend_session \<Rightarrow> bool"
  for srt wallet amount where
  opened: "setup_session srt wallet amount pool_address target = Some (Inr s)
    \<Longrightarrow> session_reachable srt wallet amount s"
| completed: "session_reachable srt wallet amount s \<Longrightarrow> complete_step oc s = Inr s'
    \<Longrightarrow> session_reachable srt wallet amount s'"

section \<open>Resolution keeps amounts\<close>

lemma resolve_input_amount:
  assumes "resolve_input_note input notes sibling = Inr n"
  shows "n \<in> set notes \<and> sn_amount n = stn_amount input"
proof (cases "stn_commitment input")
  case (Some c)
  with assms have "List.find (\<lambda>note. sn_commitment note = c) notes = Some n \<and> sn_amount n = stn_amount input"
    by (auto simp: resolve_input_note_def result_simps split: if_splits)
  then show ?thesis by (auto simp: find_Some_iff)
next
  case None
  let ?ms = "filter (\<lambda>note. Option.bind sibling stn_commitment \<noteq> Some (sn_commitment note))
    (filter (\<lambda>note. sn_amount note = stn_amount input) notes)"
  have "nth_opt ?ms 0 = Some n"
    using assms None unfolding resolve_input_note_def Let_def
    by (simp only: option.case result_simps split: if_splits) simp_all
  then have "0 < length ?ms" "?ms ! 0 = n" by (simp_all only: result_simps)
  then have "n \<in> set ?ms" using nth_mem by blast
  then show ?thesis by simp
qed

definition notes_value :: "spendable_note list \<Rightarrow> nat" where
  "notes_value ns = sum_list (map (\<lambda>n. value_of (sn_amount n)) ns)"

lemma resolve_value: "resolve step notes = Inr ns \<Longrightarrow> notes_value ns = step_in step"
  by (auto simp: resolve_def result_simps step_in_def notes_value_def dest!: resolve_input_amount
      split: option.splits)

section \<open>Every call balances\<close>

lemma reachable_plan:
  "session_reachable srt wallet amount s \<Longrightarrow>
     \<exists>p. plan srt amount wallet = Some (Inr p) \<and> ss_steps s = plan_steps p"
proof (induction rule: session_reachable.induct)
  case (opened pool_address target s)
  then show ?case
    by (auto simp: setup_session_def result_simps split: sum.splits)
next
  case (completed s oc s')
  then show ?case
    by (auto simp: complete_step_def result_simps Let_def split: if_splits)
qed

definition balanced :: "spendable_note list \<Rightarrow> transact_call \<Rightarrow> bool" where
  "balanced wallet call \<longleftrightarrow>
     (\<exists>ins. set ins \<subseteq> set wallet \<and> tc_input_commitments call = map sn_commitment ins
        \<and> int (notes_value ins) + signed_value (tc_ext_amount call)
          = int (value_of (fst (tc_output_amounts call)) + value_of (snd (tc_output_amounts call))))"

lemma materialize_balance:
  assumes "materialize_step step pool_address target ins = Inr call"
  shows "tc_input_commitments call = map sn_commitment ins
    \<and> int (action_out (ps_action step)) + signed_value (tc_ext_amount call)
      = int (value_of (fst (tc_output_amounts call)) + value_of (snd (tc_output_amounts call)))"
proof (cases "ps_action step")
  case (Consolidate out)
  with assms show ?thesis by (auto simp: materialize_step_def Let_def)
next
  case (Final send change)
  have ch: "value_of (unwrap_or change NOTE_ZERO) = change_value change"
    by (cases change) (simp_all add: change_value_def)
  show ?thesis
  proof (cases target)
    case (TransferTo note_key enc_key)
    with assms Final ch show ?thesis by (auto simp: materialize_step_def Let_def)
  next
    case (WithdrawTo recipient)
    with assms Final obtain pos ext where "ext_try_from_note send = Some pos" "ext_checked_neg pos = Some ext"
      "call = \<lparr>tc_input_commitments = map sn_commitment ins,
         tc_output_amounts = (unwrap_or change NOTE_ZERO, NOTE_ZERO),
         tc_ext_amount = ext, tc_ext_recipient = recipient,
         tc_out_note_pubkeys = (None, None), tc_out_encryption_pubkeys = (None, None)\<rparr>"
      by (auto simp: materialize_step_def Let_def result_simps)
    then show ?thesis
      using ch Final by (simp add: ext_checked_neg_Some ext_try_from_note_Some)
  qed
qed

lemma step_balanced:
  assumes "sorts_by_amount srt" "length wallet < 2 ^ USIZE_BITS"
    and "session_reachable srt wallet amount s" and "session_step s = Inr (Some call)"
  shows "balanced (ss_wallet s) call"
proof -
  obtain step ins where step: "nth_opt (ss_steps s) (ss_step_index s) = Some step"
    and ins: "resolve step (ss_wallet s) = Inr ins"
    and call: "materialize_step step (ss_pool_address s) (ss_target s) ins = Inr call"
    using assms(4) by (auto simp: session_step_def result_simps split: if_splits)
  obtain p where p: "plan srt amount wallet = Some (Inr p)" "ss_steps s = plan_steps p"
    using reachable_plan [OF assms(3)] by blast
  have "step \<in> set (plan_steps p)" using step p(2) by (auto simp: result_simps)
  then have "conserves step"
    using plan_always_ok [OF assms(1,2), of amount] p(1) planned_chain_conserves by auto
  then have "int (notes_value ins) = int (action_out (ps_action step))"
    using resolve_value [OF ins] by (simp add: conserves_def)
  moreover have "set ins \<subseteq> set (ss_wallet s)"
    using ins by (auto simp: resolve_def result_simps dest!: resolve_input_amount split: option.splits)
  ultimately show ?thesis
    using materialize_balance [OF call] unfolding balanced_def by auto
qed

section \<open>Every session can be finished\<close>

abbreviation commitments :: "spendable_note list \<Rightarrow> field_element list" where
  "commitments ns \<equiv> map sn_commitment ns"

text \<open>The wallet before step \<open>j\<close>: without the first \<open>j + 1\<close> picks, with the note that merged them.\<close>

definition without :: "spendable_note list \<Rightarrow> nat list \<Rightarrow> nat \<Rightarrow> spendable_note list" where
  "without wallet is m =
     filter (\<lambda>n. sn_commitment n \<notin> (\<lambda>i. sn_commitment (wallet ! i)) ` set (take m is)) wallet"

definition merged_note ::
  "spendable_note list \<Rightarrow> nat list \<Rightarrow> (field_element \<times> field_element) list \<Rightarrow> nat \<Rightarrow> spendable_note" where
  "merged_note wallet is ocs j =
     \<lparr>sn_commitment = fst (ocs ! (j - 1)), sn_amount = amount_of (sum_of wallet is (Suc j))\<rparr>"

definition wallet_at ::
  "spendable_note list \<Rightarrow> nat list \<Rightarrow> (field_element \<times> field_element) list \<Rightarrow> nat \<Rightarrow> spendable_note list" where
  "wallet_at wallet is ocs j =
     (if j = 0 then wallet else without wallet is (Suc j) @ [merged_note wallet is ocs j])"

definition fresh_outputs :: "spendable_note list \<Rightarrow> (field_element \<times> field_element) list \<Rightarrow> bool" where
  "fresh_outputs wallet ocs \<longleftrightarrow> (\<forall>oc \<in> set ocs. fst oc \<notin> set (commitments wallet))"

lemma fresh_output:
  assumes "fresh_outputs wallet ocs" "0 < j" "j \<le> length ocs" "n \<in> set wallet"
  shows "sn_commitment n \<noteq> fst (ocs ! (j - 1))"
proof -
  have "ocs ! (j - 1) \<in> set ocs" using assms(2,3) by (intro nth_mem) linarith
  then have "fst (ocs ! (j - 1)) \<notin> sn_commitment ` set wallet"
    using assms(1) unfolding fresh_outputs_def set_map by blast
  then show ?thesis using imageI [OF assms(4), of sn_commitment] by metis
qed

lemma find_commitment:
  "distinct (commitments ns) \<Longrightarrow> n \<in> set ns \<Longrightarrow>
     List.find (\<lambda>m. sn_commitment m = sn_commitment n) ns = Some n"
  by (induction ns) (auto simp: rev_image_eqI)

lemma resolve_known:
  "distinct (commitments ns) \<Longrightarrow> n \<in> set ns \<Longrightarrow> resolve_input_note (from_spendable n) ns sibling = Inr n"
  by (simp add: resolve_input_note_def from_spendable_def find_commitment)

lemma resolve_merged:
  assumes others: "\<And>n. n \<in> set ns \<Longrightarrow> sn_amount n = sn_amount m \<Longrightarrow> sn_commitment n = sn_commitment second"
    and "sn_commitment m \<noteq> sn_commitment second"
  shows "resolve_input_note (from_amount (sn_amount m)) (ns @ [m]) (Some (from_spendable second)) = Inr m"
proof -
  have none: "filter (\<lambda>note. sn_commitment second \<noteq> sn_commitment note)
      (filter (\<lambda>note. sn_amount note = sn_amount m) ns) = []"
    using others by (auto simp: filter_empty_conv)
  have "filter (\<lambda>note. Some (sn_commitment second) \<noteq> Some (sn_commitment note))
      (filter (\<lambda>note. sn_amount note = sn_amount m) (ns @ [m])) = [m]"
    using assms(2) [symmetric] by (simp add: none del: filter_filter)
  then show ?thesis
    by (simp only: resolve_input_note_def from_amount_def from_spendable_def Let_def
        step_note.simps option.case bind.simps) (simp add: result_simps)
qed

lemma remove_spent_simps [simp]:
  "remove_spent w [] = w"
  "remove_spent w (n # ns) = remove_spent (filter (\<lambda>m. sn_commitment m \<noteq> sn_commitment n) w) ns"
  by (simp_all add: remove_spent_def)

lemma same_commitment:
  "distinct (commitments ns) \<Longrightarrow> a < length ns \<Longrightarrow> b < length ns \<Longrightarrow>
     sn_commitment (ns ! a) = sn_commitment (ns ! b) \<longleftrightarrow> a = b"
  using nth_eq_iff_index_eq [of "commitments ns" a b] by simp

text \<open>What a picked note and the commitments before it have to do with each other.\<close>

lemma without_mem:
  assumes "distinct (commitments wallet)" "picked (amounts wallet) is" "i < length wallet"
  shows "wallet ! i \<in> set (without wallet is m) \<longleftrightarrow> i \<notin> set (take m is)"
proof -
  have "k < length wallet" if "k \<in> set (take m is)" for k
    using that assms(2) in_set_takeD by (fastforce simp: picked_def)
  then have "sn_commitment (wallet ! i) \<in> (\<lambda>i. sn_commitment (wallet ! i)) ` set (take m is)
      \<longleftrightarrow> i \<in> set (take m is)"
    using same_commitment [OF assms(1,3)] by (auto simp: image_iff)
  then show ?thesis using assms(3) by (simp add: without_def)
qed

lemma without_Suc:
  assumes "m < length is"
  shows "filter (\<lambda>n. sn_commitment n \<noteq> sn_commitment (wallet ! (is ! m))) (without wallet is m)
    = without wallet is (Suc m)"
  using assms by (auto simp: without_def take_Suc_conv_app_nth intro: filter_cong)

lemma pick_position:
  assumes "picked values is" "m < length is"
  shows "is ! m \<notin> set (take m is)"
  using assms by (auto simp: picked_def in_set_conv_nth nth_eq_iff_index_eq)

lemma without_subset: "set (without wallet is m) \<subseteq> set wallet"
  by (auto simp: without_def)

lemma distinct_without: "distinct (commitments wallet) \<Longrightarrow> distinct (commitments (without wallet is m))"
  unfolding without_def by (rule distinct_map_filter)

lemma distinct_wallet_at:
  assumes "distinct (commitments wallet)" "fresh_outputs wallet ocs" "j \<le> length ocs"
  shows "distinct (commitments (wallet_at wallet is ocs j))"
proof (cases "j = 0")
  case True
  then show ?thesis using assms(1) by (simp add: wallet_at_def)
next
  case False
  then have "fst (ocs ! (j - 1)) \<notin> set (commitments (without wallet is (Suc j)))"
    using fresh_output [OF assms(2) _ assms(3)] without_subset by fastforce
  then show ?thesis
    using False distinct_without [OF assms(1)] by (simp add: wallet_at_def merged_note_def)
qed

definition chain_first ::
  "spendable_note list \<Rightarrow> nat list \<Rightarrow> (field_element \<times> field_element) list \<Rightarrow> nat \<Rightarrow> spendable_note" where
  "chain_first wallet is ocs j = (if j = 0 then wallet ! (is ! 0) else merged_note wallet is ocs j)"

lemma chain_resolves:
  assumes dist: "distinct (commitments wallet)" and good: "good_picks wallet amount is change"
    and fresh: "fresh_outputs wallet ocs" and j: "Suc j < length is" "j \<le> length ocs"
  shows "resolve (chain_step wallet is action j) (wallet_at wallet is ocs j)
    = Inr [chain_first wallet is ocs j, wallet ! (is ! Suc j)]"
proof -
  have pick: "picked (amounts wallet) is" using good by (simp add: good_picks_def)
  have second: "is ! Suc j < length wallet" "is ! 0 < length wallet"
    using picked_nth [OF pick j(1)] picked_nth [OF pick, of 0] less_trans [OF zero_less_Suc j(1)]
    by simp_all
  let ?second = "wallet ! (is ! Suc j)" and ?ws = "wallet_at wallet is ocs j"
  have "?second \<in> set (without wallet is (Suc j))"
    using without_mem [OF dist pick second(1)] pick_position [OF pick j(1)] by simp
  then have mem: "?second \<in> set ?ws" using nth_mem [OF second(1)] by (auto simp: wallet_at_def)
  note dws = distinct_wallet_at [OF dist fresh j(2), of "is"]
  have "resolve_input_note (chain_input wallet is j) ?ws (Some (from_spendable ?second))
      = Inr (chain_first wallet is ocs j)"
  proof (cases "j = 0")
    case True
    then show ?thesis
      using resolve_known [OF dist nth_mem [OF second(2)]]
      by (simp add: chain_input_def chain_first_def wallet_at_def)
  next
    case False
    let ?m = "merged_note wallet is ocs j"
    have many: "3 \<le> length is" using False j by simp
    have le: "sum_of wallet is (Suc j) < 2 ^ 128"
      using good sum_of_mono [of "Suc j" "length is" wallet "is"] j sum_of_all [of "is" "length is" wallet]
      by (simp add: good_picks_def)
    have ne: "sn_commitment ?m \<noteq> sn_commitment ?second"
      using fresh_output [OF fresh _ j(2) nth_mem [OF second(1)]] False by (simp add: merged_note_def)
    have other: "sn_commitment n = sn_commitment ?second"
      if n: "n \<in> set (without wallet is (Suc j))" "sn_amount n = sn_amount ?m" for n
    proof -
      obtain d where d: "d < length wallet" "n = wallet ! d"
        using n(1) without_subset by (metis in_set_conv_nth subsetD)
      then have "d \<notin> set (take (Suc j) is)" using without_mem [OF dist pick d(1)] n(1) by simp
      moreover have "value_of (sn_amount (wallet ! d)) = sum_of wallet is (Suc j)"
        using n(2) d(2) value_of_amount_of [OF le] by (simp add: merged_note_def)
      ultimately show ?thesis
        using merged_amount_unique [of wallet amount "is" j d] good many False j(1) d(1)
        by (simp add: good_picks_def)
    qed
    show ?thesis
      using resolve_merged [OF other ne] False
      by (simp add: chain_input_def chain_first_def wallet_at_def merged_note_def)
  qed
  then show ?thesis
    using resolve_known [OF dws mem] by (simp add: resolve_def chain_step_def)
qed

lemma chain_removes:
  assumes dist: "distinct (commitments wallet)" and pick: "picked (amounts wallet) is"
    and fresh: "fresh_outputs wallet ocs" and j: "Suc j < length is" "j \<le> length ocs"
  shows "remove_spent (wallet_at wallet is ocs j) [chain_first wallet is ocs j, wallet ! (is ! Suc j)]
    = without wallet is (j + 2)"
proof -
  have "filter (\<lambda>n. sn_commitment n \<noteq> sn_commitment (chain_first wallet is ocs j)) (wallet_at wallet is ocs j)
      = without wallet is (Suc j)"
  proof (cases "j = 0")
    case True
    have "without wallet is 0 = wallet" by (simp add: without_def)
    then show ?thesis
      using without_Suc [OF less_trans [OF zero_less_Suc j(1)], of wallet] True
      by (simp add: chain_first_def wallet_at_def)
  next
    case False
    then have "\<forall>n \<in> set (without wallet is (Suc j)). sn_commitment n \<noteq> fst (ocs ! (j - 1))"
      using fresh_output [OF fresh _ j(2)] without_subset by blast
    then show ?thesis using False
      by (simp add: chain_first_def wallet_at_def merged_note_def filter_id_conv)
  qed
  then show ?thesis using without_Suc [OF j(1), of wallet] by simp
qed

section \<open>Running a session to its end\<close>

definition payable :: "spend_target \<Rightarrow> note_amount \<Rightarrow> bool" where
  "payable target amount \<longleftrightarrow>
     (case target of TransferTo _ _ \<Rightarrow> True | WithdrawTo _ \<Rightarrow> value_of amount < 2 ^ 127)"

lemma materialize_payable:
  assumes "payable target amount" and "case ps_action step of Consolidate _ \<Rightarrow> True | Final send _ \<Rightarrow> send = amount"
  shows "\<exists>call. materialize_step step pool_address target ins = Inr call"
proof (cases "ps_action step")
  case (Consolidate out)
  then show ?thesis by (simp add: materialize_step_def Let_def)
next
  case (Final send change)
  show ?thesis
  proof (cases target)
    case (TransferTo note_key enc_key)
    then show ?thesis using Final by (simp add: materialize_step_def Let_def)
  next
    case (WithdrawTo recipient)
    then have "value_of send < 2 ^ 127" using assms Final by (simp add: payable_def)
    then obtain pos where pos: "ext_try_from_note send = Some pos"
      by (simp add: ext_try_from_note_def value_of_def)
    have "in_i128 (- sint (ext_value pos))"
      using pos \<open>value_of send < 2 ^ 127\<close> unfolding ext_try_from_note_Some
      by (simp add: signed_value_def in_i128_def)
    then obtain ext where "ext_checked_neg pos = Some ext" by (simp add: ext_checked_neg_def)
    with pos WithdrawTo Final show ?thesis
      by (simp add: materialize_step_def Let_def ok_or_def)
  qed
qed

text \<open>The wallet before step \<open>j\<close> of a plan, and after its last step.\<close>

definition wallet_before ::
  "spendable_note list \<Rightarrow> nat list \<Rightarrow> (field_element \<times> field_element) list \<Rightarrow> nat \<Rightarrow> spendable_note list" where
  "wallet_before wallet is ocs j =
     (if j = 0 then wallet else if length is \<le> Suc j then without wallet is (length is)
      else wallet_at wallet is ocs j)"

lemma chain_nth:
  assumes "2 \<le> length is" "Suc j < length is"
  shows "planned_chain notes is amount change ! j =
    (if j + 2 < length is then merge_step notes is j
     else chain_step notes is (Final amount change) j)"
proof (cases "j + 2 < length is")
  case True
  then have "j < length is - 2" by simp
  then show ?thesis using True by (simp add: planned_chain_def nth_append)
next
  case False
  then have "j = length is - 2" using assms by linarith
  then show ?thesis using assms by (simp add: planned_chain_def nth_append)
qed

lemma step_of_chain:
  assumes dist: "distinct (commitments wallet)" and good: "good_picks wallet amount is change"
    and fresh: "fresh_outputs wallet ocs" and len: "length ocs = length (planned_chain wallet is amount change)"
    and j: "j < length ocs"
  shows "\<exists>ins. resolve (planned_chain wallet is amount change ! j) (wallet_before wallet is ocs j) = Inr ins
    \<and> (case ps_action (planned_chain wallet is amount change ! j) of
         Consolidate out \<Rightarrow>
           remove_spent (wallet_before wallet is ocs j) ins
             @ [\<lparr>sn_commitment = fst (ocs ! j), sn_amount = out\<rparr>] = wallet_before wallet is ocs (Suc j)
       | Final send _ \<Rightarrow>
           send = amount \<and> remove_spent (wallet_before wallet is ocs j) ins = wallet_before wallet is ocs (Suc j))"
proof -
  have pick: "picked (amounts wallet) is" and ne: "is \<noteq> []" using good by (simp_all add: good_picks_def)
  have steps: "length ocs = max 1 (length is - 1)" using len length_planned_chain [OF ne] by simp
  show ?thesis
  proof (cases "length is = 1")
    case True
    then have j0: "j = 0" using steps j by simp
    have in_range: "is ! 0 < length wallet" using picked_nth [OF pick, of 0] True by simp
    have "remove_spent wallet [wallet ! (is ! 0)] = without wallet is (Suc 0)"
      using without_Suc [of 0 "is" wallet] True by (simp add: without_def)
    then show ?thesis
      using resolve_known [OF dist nth_mem [OF in_range]] True j0
      by (simp add: planned_chain_def resolve_def wallet_before_def)
  next
    case False
    then have two: "2 \<le> length is" using ne by (cases "is") (auto simp: Suc_le_eq)
    have sj: "Suc j < length is" using j steps two by simp
    have before: "wallet_before wallet is ocs j = wallet_at wallet is ocs j"
      using sj by (simp add: wallet_before_def wallet_at_def)
    note res = chain_resolves [OF dist good fresh sj less_imp_le [OF j]]
    note rem = chain_removes [OF dist pick fresh sj less_imp_le [OF j]]
    show ?thesis
    proof (cases "j + 2 < length is")
      case True
      have "wallet_before wallet is ocs (Suc j) = without wallet is (j + 2) @ [merged_note wallet is ocs (Suc j)]"
        using True by (simp add: wallet_before_def wallet_at_def)
      then show ?thesis
        using True res [of "Consolidate (amount_of (sum_of wallet is (j + 2)))"] rem
          chain_nth [OF two sj, of wallet amount change]
        by (simp add: before merge_step_def chain_step_def merged_note_def)
    next
      case last: False
      then have "j + 2 = length is" using sj by linarith
      then have "wallet_before wallet is ocs (Suc j) = without wallet is (j + 2)"
        by (simp add: wallet_before_def)
      then show ?thesis
        using last res [of "Final amount change"] rem chain_nth [OF two sj, of wallet amount change]
        by (simp add: before chain_step_def)
    qed
  qed
qed

definition session_at ::
  "spend_session \<Rightarrow> nat list \<Rightarrow> (field_element \<times> field_element) list \<Rightarrow> nat \<Rightarrow> spend_session" where
  "session_at s is ocs j = s\<lparr>ss_wallet := wallet_before (ss_wallet s) is ocs j, ss_step_index := j\<rparr>"

lemma session_progress:
  assumes dist: "distinct (commitments (ss_wallet s))" and good: "good_picks (ss_wallet s) amount is change"
    and steps: "ss_steps s = planned_chain (ss_wallet s) is amount change"
    and fresh: "fresh_outputs (ss_wallet s) ocs" and len: "length ocs = length (ss_steps s)"
    and pay: "payable (ss_target s) amount" and j: "j < length ocs"
  shows "\<exists>call. session_step (session_at s is ocs j) = Inr (Some call)
    \<and> complete_step (ocs ! j) (session_at s is ocs j) = Inr (session_at s is ocs (Suc j))"
proof -
  let ?step = "ss_steps s ! j"
  obtain ins where ins: "resolve ?step (wallet_before (ss_wallet s) is ocs j) = Inr ins"
    and act: "case ps_action ?step of
         Consolidate out \<Rightarrow>
           remove_spent (wallet_before (ss_wallet s) is ocs j) ins
             @ [\<lparr>sn_commitment = fst (ocs ! j), sn_amount = out\<rparr>] = wallet_before (ss_wallet s) is ocs (Suc j)
       | Final send _ \<Rightarrow>
           send = amount \<and> remove_spent (wallet_before (ss_wallet s) is ocs j) ins
             = wallet_before (ss_wallet s) is ocs (Suc j)"
    using step_of_chain [OF dist good fresh _ j] len unfolding steps by blast
  have nth: "nth_opt (ss_steps s) j = Some ?step" using j len by simp
  have going: "\<not> is_done (session_at s is ocs j)" using j len by (simp add: is_done_def session_at_def)
  have "case ps_action ?step of Consolidate _ \<Rightarrow> True | Final send _ \<Rightarrow> send = amount"
    using act by (auto split: step_action.splits)
  then obtain call where "materialize_step ?step (ss_pool_address s) (ss_target s) ins = Inr call"
    using materialize_payable [OF pay] by blast
  then have "session_step (session_at s is ocs j) = Inr (Some call)"
    using going nth ins by (simp add: session_step_def session_at_def)
  moreover have "length ocs \<le> 9"
    using good length_planned_chain [of "is" "ss_wallet s" amount change] len steps
    by (auto simp: good_picks_def TRANSACTION_LIMIT_def)
  then have "checked_add USIZE_BITS j 1 = Some (Suc j)" using j
    by (simp add: checked_add_def fits_def USIZE_BITS_def)
  then have "complete_step (ocs ! j) (session_at s is ocs j) = Inr (session_at s is ocs (Suc j))"
    using going nth ins act
    by (cases "ps_action ?step") (simp_all add: complete_step_def session_at_def Let_def)
  ultimately show ?thesis by blast
qed

lemma run_from:
  assumes "distinct (commitments (ss_wallet s))" and "good_picks (ss_wallet s) amount is change"
    and "ss_steps s = planned_chain (ss_wallet s) is amount change"
    and "fresh_outputs (ss_wallet s) ocs" and "length ocs = length (ss_steps s)"
    and "payable (ss_target s) amount"
  shows "j \<le> length ocs \<Longrightarrow> \<exists>calls. length calls = length ocs - j
    \<and> run_session (drop j ocs) (session_at s is ocs j) = Inr (calls, session_at s is ocs (length ocs))"
proof (induction "length ocs - j" arbitrary: j)
  case 0
  then show ?case by simp
next
  case (Suc d)
  then have j: "j < length ocs" by linarith
  obtain call where here: "session_step (session_at s is ocs j) = Inr (Some call)"
    "complete_step (ocs ! j) (session_at s is ocs j) = Inr (session_at s is ocs (Suc j))"
    using session_progress [OF assms j] by blast
  have "d = length ocs - Suc j" "Suc j \<le> length ocs" using Suc.hyps(2) j by simp_all
  then obtain calls where "length calls = length ocs - Suc j"
    "run_session (drop (Suc j) ocs) (session_at s is ocs (Suc j)) = Inr (calls, session_at s is ocs (length ocs))"
    using Suc.hyps(1) by blast
  then show ?case
    using here j by (simp add: Cons_nth_drop_Suc [symmetric] Suc_diff_Suc)
qed

text \<open>What the run leaves in the wallet.\<close>

lemma remove_value:
  "distinct (commitments ns) \<Longrightarrow> n \<in> set ns \<Longrightarrow>
     notes_value (filter (\<lambda>m. sn_commitment m \<noteq> sn_commitment n) ns) + value_of (sn_amount n) = notes_value ns"
proof (induction ns)
  case Nil
  then show ?case by simp
next
  case (Cons m ns)
  have "filter (\<lambda>k. sn_commitment k \<noteq> sn_commitment m) ns = ns"
    using Cons.prems(1) by (simp add: filter_id_conv) (metis imageI)
  with Cons show ?case by (auto simp: notes_value_def)
qed

lemma without_value:
  assumes dist: "distinct (commitments wallet)" and pick: "picked (amounts wallet) is"
  shows "m \<le> length is \<Longrightarrow> notes_value (without wallet is m) + sum_of wallet is m = notes_value wallet"
proof (induction m)
  case 0
  then show ?case by (simp add: without_def sum_of_def)
next
  case (Suc m)
  then have m: "m < length is" by simp
  have in_range: "is ! m < length wallet" using picked_nth [OF pick m] by simp
  then have mem: "wallet ! (is ! m) \<in> set (without wallet is m)"
    using without_mem [OF dist pick] pick_position [OF pick m] by simp
  have "notes_value (without wallet is (Suc m)) + value_of (sn_amount (wallet ! (is ! m)))
      = notes_value (without wallet is m)"
    using remove_value [OF distinct_without [OF dist] mem] without_Suc [OF m, of wallet] by simp
  then show ?case using Suc sum_of_Suc [OF m in_range] by simp
qed

section \<open>Properties\<close>

lemma setup_facts:
  "setup_session srt wallet amount pool_address target = Some (Inr s) \<Longrightarrow>
     \<exists>p. plan srt amount wallet = Some (Inr p)
       \<and> s = \<lparr>ss_steps = plan_steps p, ss_wallet = wallet, ss_pool_address = pool_address,
              ss_target = target, ss_step_index = 0\<rparr>"
  by (auto simp: setup_session_def result_simps split: sum.splits)

text \<open>
  Every call of a session balances. In whatever state a session is after completing steps with
  arbitrary outputs, the inputs of the call it proposes are notes of its current wallet, and their
  value plus the signed public amount is the value of the two output notes: nothing is created
  or lost.
\<close>

theorem session_calls_balance:
  assumes "sorts_by_amount srt" and "length wallet < 2 ^ USIZE_BITS"
    and "session_reachable srt wallet amount s" and "session_step s = Inr (Some call)"
  shows "balanced (ss_wallet s) call"
  by (rule step_balanced [OF assms])

text \<open>
  C40: Every session runs to its end. When the wallet's commitments are distinct, the outputs
  submitted do not repeat a commitment of the wallet, and a withdrawal is below \<open>2\<^sup>1\<^sup>2\<^sup>7\<close>, alternating
  \<open>step\<close> and \<open>complete_step\<close> once per planned step always succeeds: every input is found without
  ambiguity, each step yields a call, the session is done afterwards, and the wallet has lost
  exactly the requested amount and the change that left with the last step.
\<close>

theorem session_completes:
  assumes "sorts_by_amount srt" and "length wallet < 2 ^ USIZE_BITS"
    and "setup_session srt wallet amount pool_address target = Some (Inr s)"
    and "distinct (commitments wallet)" and "fresh_outputs wallet ocs"
    and "length ocs = length (ss_steps s)" and "payable target amount"
  shows "\<exists>calls s' change. run_session ocs s = Inr (calls, s') \<and> is_done s' \<and> length calls = length ocs
    \<and> ps_action (last (ss_steps s)) = Final amount change
    \<and> set (ss_wallet s') \<subseteq> set wallet
    \<and> notes_value (ss_wallet s') + value_of amount + change_value change = notes_value wallet"
proof -
  obtain p where p: "plan srt amount wallet = Some (Inr p)"
    and s: "s = \<lparr>ss_steps = plan_steps p, ss_wallet = wallet, ss_pool_address = pool_address,
              ss_target = target, ss_step_index = 0\<rparr>"
    using setup_facts [OF assms(3)] by blast
  obtain "is" change where good: "good_picks wallet amount is change"
    and steps: "plan_steps p = planned_chain wallet is amount change"
    using plan_always_ok [OF assms(1,2), of amount] p by auto
  have ne: "is \<noteq> []" and pick: "picked (amounts wallet) is" using good by (simp_all add: good_picks_def)
  have start: "session_at s is ocs 0 = s" by (simp add: session_at_def wallet_before_def s)
  have len: "length ocs = max 1 (length is - 1)"
    using assms(6) length_planned_chain [OF ne] by (simp add: s steps)
  obtain calls where calls: "length calls = length ocs"
    "run_session ocs s = Inr (calls, session_at s is ocs (length ocs))"
    using run_from [of s amount "is" change ocs 0] assms(4-7) good start by (auto simp: s steps)
  have left: "ss_wallet (session_at s is ocs (length ocs)) = without wallet is (length is)"
    using len ne by (auto simp: session_at_def wallet_before_def s)
  have "is_done (session_at s is ocs (length ocs))"
    using assms(6) by (simp add: is_done_def session_at_def s)
  moreover have "ps_action (last (ss_steps s)) = Final amount change"
    by (simp add: s steps planned_chain_def chain_step_def)
  moreover have "notes_value (without wallet is (length is)) + (value_of amount + change_value change)
      = notes_value wallet"
    using without_value [OF assms(4) pick, of "length is"] good by (simp add: sum_of_all good_picks_def)
  ultimately show ?thesis
    using calls left without_subset [of wallet "is" "length is"] by (metis add.assoc)
qed

text \<open>A session over the sample wallet, withdrawing and transferring.\<close>

definition sample_outputs :: "nat \<Rightarrow> (field_element \<times> field_element) list" where
  "sample_outputs n = replicate n (Field 99, Field 0)"

lemma sample_wallet_facts:
  "distinct (commitments sample_wallet)" "fresh_outputs sample_wallet (sample_outputs n)"
  "length sample_wallet < 2 ^ USIZE_BITS" "payable (WithdrawTo recipient) (amount_of 12)"
  by (simp_all add: sample_wallet_def sample_note_def fresh_outputs_def sample_outputs_def USIZE_BITS_def
      payable_def sample_values)

lemma sample_setup:
  "\<exists>s. setup_session stable_sort sample_wallet (amount_of 12) ''POOL'' (WithdrawTo ''GA'') = Some (Inr s)
     \<and> ss_target s = WithdrawTo ''GA'' \<and> ss_wallet s = sample_wallet \<and> ss_step_index s = 0"
  using sample_plan by (auto simp: setup_session_def validate_target_def ensure_def)

lemma sample_call:
  "\<exists>s call. session_reachable stable_sort sample_wallet (amount_of 12) s \<and> session_step s = Inr (Some call)
     \<and> ss_target s = WithdrawTo ''GA'' \<and> ss_wallet s = sample_wallet"
proof -
  obtain s where s: "setup_session stable_sort sample_wallet (amount_of 12) ''POOL'' (WithdrawTo ''GA'') = Some (Inr s)"
    "ss_target s = WithdrawTo ''GA''" "ss_wallet s = sample_wallet" "ss_step_index s = 0"
    using sample_setup by blast
  have reach: "session_reachable stable_sort sample_wallet (amount_of 12) s"
    by (rule session_reachable.opened [OF s(1)])
  obtain p where p: "plan stable_sort (amount_of 12) sample_wallet = Some (Inr p)" "ss_steps s = plan_steps p"
    using reachable_plan [OF reach] by blast
  obtain "is" change where good: "good_picks sample_wallet (amount_of 12) is change"
    and steps: "ss_steps s = planned_chain sample_wallet is (amount_of 12) change"
    using plan_always_ok [OF stable_sort_ok sample_wallet_facts(3), of "amount_of 12"] p by auto
  let ?ocs = "sample_outputs (length (ss_steps s))"
  have "0 < length ?ocs"
    using good length_planned_chain [of "is" sample_wallet "amount_of 12" change]
    by (simp add: steps sample_outputs_def good_picks_def)
  then obtain call where "session_step (session_at s is ?ocs 0) = Inr (Some call)"
    using session_progress [of s "amount_of 12" "is" change ?ocs 0] s good steps sample_wallet_facts
    by (auto simp: sample_outputs_def)
  moreover have "session_at s is ?ocs 0 = s"
    using s by (simp add: session_at_def wallet_before_def)
  ultimately have "session_step s = Inr (Some call)" by simp
  with reach s(2,3) show ?thesis by blast
qed

theorem session_calls_balance_witness:
  "\<exists>s call. session_reachable stable_sort sample_wallet (amount_of 12) s
     \<and> session_step s = Inr (Some call) \<and> balanced (ss_wallet s) call"
  using sample_call session_calls_balance [OF stable_sort_ok sample_wallet_facts(3)] by blast

theorem session_completes_witness:
  "\<exists>s calls s'. setup_session stable_sort sample_wallet (amount_of 12) ''POOL'' (WithdrawTo ''GA'') = Some (Inr s)
     \<and> run_session (sample_outputs (length (ss_steps s))) s = Inr (calls, s') \<and> is_done s'"
proof -
  obtain s where s: "setup_session stable_sort sample_wallet (amount_of 12) ''POOL'' (WithdrawTo ''GA'') = Some (Inr s)"
    using sample_setup by blast
  have "length (sample_outputs (length (ss_steps s))) = length (ss_steps s)" by (simp add: sample_outputs_def)
  then show ?thesis
    using session_completes [OF stable_sort_ok sample_wallet_facts(3) s sample_wallet_facts(1,2) _ sample_wallet_facts(4)] s
    by blast
qed

end
