(* ===== verification/SparseTree.thy ===== *)
theory SparseTree
  imports Bn254
begin

text \<open>
  Sparse Merkle trees over key bits, as a specification: the tree that
  \<open>contracts/asp-non-membership/src/lib.rs\<close> keeps in contract storage and
  \<open>app/crates/core/prover/src/sparse_merkle.rs\<close> in a map, both by node hash. A tree is walked
  along the bits of a key from the lowest; a node is the way down to it (the siblings) plugged
  back in. The predicates \<open>placed\<close> and \<open>compact\<close> describe the trees that arise, and
  \<open>same_entries_same_tree\<close> says that such a tree is determined by its entries. The locale
  \<open>node_store\<close> is what both programs ask of the storage of their nodes.
\<close>

section \<open>Trees, paths and hashes\<close>

datatype tree = Empty | Leaf u256 u256 | Inner tree tree

text \<open>\<open>key_bit k j\<close> is bit \<open>j\<close> of the key, from the least significant one.\<close>

definition key_bit :: "u256 \<Rightarrow> nat \<Rightarrow> bool" where
  "key_bit k j = odd (unat k div 2 ^ j)"

fun entries :: "tree \<Rightarrow> (u256 \<times> u256) set" where
  "entries Empty = {}"
| "entries (Leaf k v) = {(k, v)}"
| "entries (Inner l r) = entries l \<union> entries r"

abbreviation keys :: "tree \<Rightarrow> u256 set" where
  "keys t \<equiv> fst ` entries t"

fun leaves :: "tree \<Rightarrow> nat" where
  "leaves Empty = 0"
| "leaves (Leaf k v) = 1"
| "leaves (Inner l r) = leaves l + leaves r"

fun tree_hash :: "(u256 \<Rightarrow> u256 \<Rightarrow> u256) \<Rightarrow> (u256 \<Rightarrow> u256 \<Rightarrow> u256) \<Rightarrow> tree \<Rightarrow> u256" where
  "tree_hash hl hc Empty = 0"
| "tree_hash hl hc (Leaf k v) = hl k v"
| "tree_hash hl hc (Inner l r) = hc (tree_hash hl hc l) (tree_hash hl hc r)"

fun subtrees :: "tree \<Rightarrow> tree set" where
  "subtrees Empty = {}"
| "subtrees (Leaf k v) = {Leaf k v}"
| "subtrees (Inner l r) = {Inner l r} \<union> subtrees l \<union> subtrees r"

text \<open>The way down to where \<open>k\<close> is or would be: the siblings from the top, and what is there.\<close>

fun descend :: "u256 \<Rightarrow> nat \<Rightarrow> tree \<Rightarrow> tree list \<times> tree" where
  "descend k lvl (Inner l r) =
     (let (ss, e) = descend k (Suc lvl) (if key_bit k lvl then r else l)
      in ((if key_bit k lvl then l else r) # ss, e))"
| "descend k lvl t = ([], t)"

fun plug :: "u256 \<Rightarrow> nat \<Rightarrow> tree list \<Rightarrow> tree \<Rightarrow> tree" where
  "plug k lvl [] t = t"
| "plug k lvl (s # ss) t =
     (if key_bit k lvl then Inner s (plug k (Suc lvl) ss t) else Inner (plug k (Suc lvl) ss t) s)"

lemma plug_descend: "descend k lvl t = (ss, e) \<Longrightarrow> plug k lvl ss e = t"
  by (induction k lvl t arbitrary: ss e rule: descend.induct) (auto simp: Let_def split: prod.splits if_splits)

lemma descend_end: "descend k lvl t = (ss, e) \<Longrightarrow> e = Empty \<or> (\<exists>k' v. e = Leaf k' v)"
  by (induction k lvl t arbitrary: ss e rule: descend.induct) (auto simp: Let_def split: prod.splits)

lemma descend_plug:
  "e = Empty \<or> e = Leaf k' v \<Longrightarrow> descend k lvl (plug k lvl ss e) = (ss, e)"
  by (induction ss arbitrary: lvl) auto

lemma plug_append: "plug k lvl (ss @ ts) t = plug k lvl ss (plug k (lvl + length ss) ts t)"
  by (induction ss arbitrary: lvl) simp_all

lemma entries_plug: "entries (plug k lvl ss t) = (\<Union>s\<in>set ss. entries s) \<union> entries t"
  by (induction ss arbitrary: lvl) auto

lemma leaves_plug: "leaves (plug k lvl ss t) = sum_list (map leaves ss) + leaves t"
  by (induction ss arbitrary: lvl) auto

lemma subtrees_self: "t \<noteq> Empty \<Longrightarrow> t \<in> subtrees t"
  by (cases t) auto

lemma Empty_subtrees [simp]: "Empty \<notin> subtrees t"
  by (induction t) auto

lemma subtrees_size: "s \<in> subtrees t \<Longrightarrow> size s \<le> size t"
  by (induction t) auto

lemma subtrees_entries: "s \<in> subtrees t \<Longrightarrow> entries s \<subseteq> entries t"
  by (induction t) auto

lemma finite_subtrees [simp]: "finite (subtrees t)"
  by (induction t) auto

lemma subtrees_trans: "s \<in> subtrees t \<Longrightarrow> subtrees s \<subseteq> subtrees t"
  by (induction t) auto

text \<open>The inner nodes on the path that \<open>plug\<close> makes, from the top.\<close>

fun path_nodes :: "u256 \<Rightarrow> nat \<Rightarrow> tree list \<Rightarrow> tree \<Rightarrow> tree list" where
  "path_nodes k lvl [] t = []"
| "path_nodes k lvl (s # ss) t = plug k lvl (s # ss) t # path_nodes k (Suc lvl) ss t"

lemma subtrees_plug:
  "subtrees (plug k lvl ss t) = set (path_nodes k lvl ss t) \<union> (\<Union>s\<in>set ss. subtrees s) \<union> subtrees t"
  by (induction ss arbitrary: lvl) auto

lemma path_nodes_entries: "p \<in> set (path_nodes k lvl ss t) \<Longrightarrow> entries t \<subseteq> entries p"
  by (induction ss arbitrary: lvl) (auto simp: entries_plug)

lemma path_nodes_append:
  "path_nodes k lvl (ss @ ts) t = path_nodes k lvl ss (plug k (lvl + length ss) ts t)
     @ path_nodes k (lvl + length ss) ts t"
  by (induction ss arbitrary: lvl) (simp_all add: plug_append)

lemma path_nodes_Inner: "p \<in> set (path_nodes k lvl ss t) \<Longrightarrow> \<exists>l r. p = Inner l r"
  by (induction ss arbitrary: lvl) auto

section \<open>The trees that arise\<close>

text \<open>Every leaf sits where its key leads, and every inner node has at least two leaves.\<close>

fun placed :: "nat \<Rightarrow> tree \<Rightarrow> bool" where
  "placed lvl (Inner l r) \<longleftrightarrow>
     (\<forall>k \<in> keys l. \<not> key_bit k lvl) \<and> (\<forall>k \<in> keys r. key_bit k lvl)
     \<and> placed (Suc lvl) l \<and> placed (Suc lvl) r"
| "placed lvl _ \<longleftrightarrow> True"

fun compact :: "tree \<Rightarrow> bool" where
  "compact (Inner l r) \<longleftrightarrow> compact l \<and> compact r \<and> 2 \<le> leaves l + leaves r"
| "compact _ \<longleftrightarrow> True"

lemma leaves_0: "leaves t = 0 \<Longrightarrow> compact t \<Longrightarrow> t = Empty"
  by (cases t) auto

lemma leaves_0_entries: "leaves t = 0 \<longleftrightarrow> entries t = {}"
  by (induction t) auto

lemma leaves_1: "leaves t = 1 \<Longrightarrow> compact t \<Longrightarrow> \<exists>k v. t = Leaf k v"
  by (cases t) auto

lemma placed_one_value:
  "placed lvl t \<Longrightarrow> (k, v) \<in> entries t \<Longrightarrow> (k, w) \<in> entries t \<Longrightarrow> v = w"
  by (induction lvl t rule: placed.induct) force+

lemma descend_mem:
  "placed lvl t \<Longrightarrow> (k, v) \<in> entries t \<longleftrightarrow> snd (descend k lvl t) = Leaf k v"
proof (induction k lvl t rule: descend.induct)
  case (1 k lvl l r)
  have "(k, v) \<in> entries (Inner l r) \<longleftrightarrow> (k, v) \<in> entries (if key_bit k lvl then r else l)"
    using "1.prems" by force
  then show ?case using 1 by (auto simp: Let_def split: prod.splits)
qed auto

text \<open>No inner node lies below the last bit in which keys differ.\<close>

lemma no_inner_below:
  assumes "\<forall>k \<in> keys t. \<forall>j \<ge> b. \<not> key_bit k j" and "b \<le> lvl" and "placed lvl t" and "compact t"
  shows "leaves t \<le> 1"
  using assms
proof (induction t arbitrary: lvl)
  case (Inner l r)
  have "entries r = {}" using Inner.prems by force
  then have r0: "leaves r = 0" by (simp add: leaves_0_entries)
  moreover have "leaves l \<le> 1" using Inner.prems by (intro Inner.IH(1) [of "Suc lvl"]) auto
  ultimately show ?case using Inner.prems(4) by simp
qed auto

lemma descend_depth:
  assumes "\<forall>k' \<in> keys t. \<forall>j \<ge> b. \<not> key_bit k' j" and "lvl \<le> b" and "placed lvl t" and "compact t"
    and "descend k lvl t = (ss, e)"
  shows "lvl + length ss \<le> b"
  using assms
proof (induction k lvl t arbitrary: ss rule: descend.induct)
  case (1 k lvl l r)
  have "lvl \<noteq> b"
    using no_inner_below [OF "1.prems"(1) _ "1.prems"(3,4)] "1.prems"(4) by auto
  obtain ss' where ss: "ss = (if key_bit k lvl then l else r) # ss'"
    and d: "descend k (Suc lvl) (if key_bit k lvl then r else l) = (ss', e)"
    using "1.prems"(5) by (auto simp: Let_def split: prod.splits)
  have "Suc lvl + length ss' \<le> b"
    using "1.prems" \<open>lvl \<noteq> b\<close> d by (intro "1.IH") auto
  then show ?case by (simp add: ss)
qed auto

text \<open>A tree is determined by its entries.\<close>

lemma keys_apart: "placed lvl (Inner l r) \<Longrightarrow> k \<in> keys l \<Longrightarrow> k \<notin> keys r"
  unfolding placed.simps by blast

lemma at_most_one_leaf:
  "compact t \<Longrightarrow> placed lvl t \<Longrightarrow> entries t \<subseteq> {(k, v)} \<Longrightarrow> leaves t \<le> 1"
proof (induction t arbitrary: lvl)
  case (Inner a b)
  have "leaves a = 0 \<or> leaves b = 0"
    using keys_apart [OF Inner.prems(2), of k] Inner.prems(3) unfolding leaves_0_entries by force
  moreover have "leaves a \<le> 1" "leaves b \<le> 1" using Inner by auto
  ultimately show ?case by auto
qed auto

lemma same_entries_same_tree:
  "placed lvl t \<Longrightarrow> placed lvl t' \<Longrightarrow> compact t \<Longrightarrow> compact t' \<Longrightarrow> entries t = entries t' \<Longrightarrow> t = t'"
proof (induction t arbitrary: lvl t')
  case Empty
  then show ?case using leaves_0 leaves_0_entries by (metis entries.simps(1))
next
  case (Leaf k v)
  then have "leaves t' \<le> 1" using at_most_one_leaf [of t' lvl k v] by auto
  then show ?case using Leaf.prems by (cases t') auto
next
  case (Inner l r)
  show ?case
  proof (cases t')
    case Empty
    then show ?thesis using Inner.prems leaves_0_entries [of "Inner l r"] by auto
  next
    case (Leaf k v)
    then have "leaves (Inner l r) \<le> 1"
      using at_most_one_leaf [of "Inner l r" lvl k v] Inner.prems by auto
    then show ?thesis using Inner.prems(3) by simp
  next
    case t': (Inner l' r')
    have "entries l = entries l'"
      using Inner.prems(1,2,5) unfolding t' by (auto simp: image_iff)
    moreover have "entries r = entries r'"
      using Inner.prems(1,2,5) unfolding t' by (auto simp: image_iff)
    ultimately show ?thesis using Inner.IH [of "Suc lvl"] Inner.prems t' by auto
  qed
qed

section \<open>Inserting and deleting\<close>

lemma key_bit_iff: "key_bit k j \<longleftrightarrow> bit k j"
proof -
  have "key_bit k j \<longleftrightarrow> bit (unat k) j" by (simp only: key_bit_def bit_iff_odd)
  then show ?thesis by (simp add: bit_unsigned_iff)
qed

lemma key_bit_beyond: "unat k < 2 ^ b \<Longrightarrow> b \<le> j \<Longrightarrow> \<not> key_bit k j"
proof -
  assume "unat k < 2 ^ b" "b \<le> j"
  then have "unat k < 2 ^ j" by (meson le_less_trans less_le_trans one_le_numeral power_increasing)
  then show ?thesis by (simp add: key_bit_def)
qed

lemma same_bits_same_key: "(\<And>j. j < 256 \<Longrightarrow> key_bit k j = key_bit k' j) \<Longrightarrow> k = k'"
  by (rule bit_word_eqI) (simp add: key_bit_iff)

text \<open>The first level from \<open>lvl\<close> on at which two keys part.\<close>

function diverge :: "u256 \<Rightarrow> u256 \<Rightarrow> nat \<Rightarrow> nat" where
  "diverge k k' lvl =
     (if lvl < 256 \<and> key_bit k' lvl = key_bit k lvl then diverge k k' (Suc lvl) else lvl)"
  by pat_completeness auto

termination by (relation "measure (\<lambda>(_, _, lvl). 256 - lvl)") auto

declare diverge.simps [simp del]

lemma diverge_ge: "lvl \<le> diverge k k' lvl"
proof (induction k k' lvl rule: diverge.induct)
  case (1 k k' lvl)
  then show ?case by (subst diverge.simps) (auto intro: Suc_leD)
qed

lemma diverge_same: "lvl \<le> j \<Longrightarrow> j < diverge k k' lvl \<Longrightarrow> key_bit k' j = key_bit k j"
proof (induction k k' lvl rule: diverge.induct)
  case (1 k k' lvl)
  show ?case
  proof (cases "lvl < 256 \<and> key_bit k' lvl = key_bit k lvl")
    case True
    then have "j < diverge k k' (Suc lvl)" using "1.prems"(2) diverge.simps [of k k' lvl] by simp
    then show ?thesis using "1.IH" [OF True] "1.prems"(1) True by (cases "j = lvl") auto
  next
    case False
    have "diverge k k' lvl = lvl" by (subst diverge.simps) (rule if_not_P [OF False])
    then show ?thesis using "1.prems" by simp
  qed
qed

lemma diverge_differs:
  "diverge k k' lvl < 256 \<Longrightarrow> key_bit k' (diverge k k' lvl) \<noteq> key_bit k (diverge k k' lvl)"
proof (induction k k' lvl rule: diverge.induct)
  case (1 k k' lvl)
  then show ?case
    by (cases "lvl < 256 \<and> key_bit k' lvl = key_bit k lvl") (simp_all add: diverge.simps [of k k' lvl])
qed

lemma diverge_bounded: "lvl \<le> 256 \<Longrightarrow> diverge k k' lvl \<le> 256"
proof (induction k k' lvl rule: diverge.induct)
  case (1 k k' lvl)
  then show ?case by (subst diverge.simps) auto
qed

lemma diverge_less:
  assumes "k' \<noteq> k" and "\<And>j. j < lvl \<Longrightarrow> key_bit k' j = key_bit k j" and "lvl \<le> 256"
  shows "diverge k k' lvl < 256"
proof (rule ccontr)
  assume "\<not> ?thesis"
  then have "diverge k k' lvl = 256" using diverge_bounded [OF assms(3), of k k'] by simp
  then have "key_bit k' j = key_bit k j" if "j < 256" for j
    using assms(2) diverge_same [of lvl j k k'] that by (cases "j < lvl") auto
  then show False using same_bits_same_key assms(1) by blast
qed

text \<open>The siblings that a new key's way needs below the end of the way down.\<close>

fun extension :: "u256 \<Rightarrow> nat \<Rightarrow> tree \<Rightarrow> tree list" where
  "extension k lvl (Leaf k' v') = replicate (diverge k k' lvl - lvl) Empty @ [Leaf k' v']"
| "extension k lvl _ = []"

definition insert_tree :: "u256 \<Rightarrow> u256 \<Rightarrow> tree \<Rightarrow> tree" where
  "insert_tree k v t =
     (case descend k 0 t of (ss, e) \<Rightarrow> plug k 0 (ss @ extension k (length ss) e) (Leaf k v))"

text \<open>Deleting promotes a sibling that is a leaf, up to the next sibling that is not empty.\<close>

fun strip :: "tree list \<Rightarrow> tree list" where
  "strip [] = []"
| "strip (s # ss) = (if s = Empty \<and> strip ss = [] then [] else s # strip ss)"

definition promoted :: "tree list \<Rightarrow> tree list \<times> tree" where
  "promoted ss =
     (if ss = [] then ([], Empty)
      else (case last ss of Leaf k v \<Rightarrow> (butlast ss, Leaf k v) | _ \<Rightarrow> (ss, Empty)))"

definition delete_tree :: "u256 \<Rightarrow> tree \<Rightarrow> tree" where
  "delete_tree k t =
     (case promoted (fst (descend k 0 t)) of (ss, base) \<Rightarrow> plug k 0 (strip ss) base)"

fun siblings_ok :: "u256 \<Rightarrow> nat \<Rightarrow> tree list \<Rightarrow> bool" where
  "siblings_ok k lvl [] \<longleftrightarrow> True"
| "siblings_ok k lvl (s # ss) \<longleftrightarrow>
     (\<forall>k' \<in> keys s. key_bit k' lvl \<noteq> key_bit k lvl) \<and> placed (Suc lvl) s
     \<and> (\<forall>s' \<in> set ss. \<forall>k' \<in> keys s'. key_bit k' lvl = key_bit k lvl) \<and> siblings_ok k (Suc lvl) ss"

definition same_way :: "u256 \<Rightarrow> nat \<Rightarrow> nat \<Rightarrow> tree \<Rightarrow> bool" where
  "same_way k lvl n t \<longleftrightarrow> (\<forall>k' \<in> keys t. \<forall>j<n. key_bit k' (lvl + j) = key_bit k (lvl + j))"

lemma same_way_simps [simp]:
  "same_way k lvl n Empty" "same_way k lvl n (Leaf k v)" "same_way k lvl 0 t"
  by (simp_all add: same_way_def)

lemma same_way_Suc:
  "same_way k lvl (Suc n) t \<longleftrightarrow>
     (\<forall>k' \<in> keys t. key_bit k' lvl = key_bit k lvl) \<and> same_way k (Suc lvl) n t"
  by (auto simp: same_way_def All_less_Suc2)

lemma placed_plug:
  "placed lvl (plug k lvl ss t) \<longleftrightarrow>
     siblings_ok k lvl ss \<and> placed (lvl + length ss) t \<and> same_way k lvl (length ss) t"
proof (induction ss arbitrary: lvl)
  case (Cons s ss)
  have split: "(\<forall>k' \<in> keys (plug k (Suc lvl) ss t). P k')
      \<longleftrightarrow> (\<forall>s \<in> set ss. \<forall>k' \<in> keys s. P k') \<and> (\<forall>k' \<in> keys t. P k')" for P
    by (auto simp: entries_plug)
  have len: "lvl + length (s # ss) = Suc lvl + length ss" "length (s # ss) = Suc (length ss)" by simp_all
  show ?case
  proof (cases "key_bit k lvl")
    case True
    show ?thesis
      unfolding plug.simps if_P [OF True] placed.simps siblings_ok.simps len same_way_Suc split Cons.IH
      by (simp only: True simp_thms add_Suc add_Suc_right conj_ac)
  next
    case False
    show ?thesis
      unfolding plug.simps if_not_P [OF False] placed.simps siblings_ok.simps len same_way_Suc split Cons.IH
      by (simp only: False simp_thms add_Suc add_Suc_right conj_ac)
  qed
qed simp

lemma siblings_ok_append:
  "siblings_ok k lvl (ss @ ts) \<longleftrightarrow>
     siblings_ok k lvl ss \<and> siblings_ok k (lvl + length ss) ts \<and> (\<forall>t \<in> set ts. same_way k lvl (length ss) t)"
  by (induction ss arbitrary: lvl) (auto simp: same_way_Suc)

lemma compact_plug:
  "ss \<noteq> [] \<Longrightarrow> compact (plug k lvl ss t) \<longleftrightarrow>
     (\<forall>s \<in> set ss. compact s) \<and> compact t \<and> 2 \<le> leaves (last ss) + leaves t"
proof (induction ss arbitrary: lvl)
  case (Cons s ss)
  show ?case
  proof (cases "ss = []")
    case False
    then have "leaves (last ss) \<le> sum_list (map leaves ss)"
      by (intro member_le_sum_list) auto
    with Cons.IH [OF False, of "Suc lvl"] False show ?thesis
      by (auto simp: leaves_plug)
  qed auto
qed simp

lemma siblings_ok_empties: "siblings_ok k lvl (replicate n Empty)"
  by (induction n arbitrary: lvl) auto

lemma insert_tree_ok:
  assumes wf: "placed 0 t" "compact t" and new: "k \<notin> keys t"
  shows "placed 0 (insert_tree k v t) \<and> compact (insert_tree k v t)
    \<and> entries (insert_tree k v t) = insert (k, v) (entries t)"
proof -
  obtain ss e where d: "descend k 0 t = (ss, e)" by (cases "descend k 0 t")
  have t: "plug k 0 ss e = t" by (rule plug_descend [OF d])
  have len: "length ss \<le> 256"
    using descend_depth [OF _ _ wf d, of 256] key_bit_beyond [of _ 256] unat_u256_less by auto
  show ?thesis
  proof (cases e)
    case Empty
    have ins: "insert_tree k v t = plug k 0 ss (Leaf k v)" by (simp add: insert_tree_def d Empty)
    have t': "t = plug k 0 ss Empty" using t Empty by simp
    have "compact (plug k 0 ss (Leaf k v))"
      using wf(2) compact_plug [of ss k 0] unfolding t' by (cases "ss = []") auto
    moreover have "placed 0 (plug k 0 ss (Leaf k v))"
      using wf(1) unfolding t' by (simp add: placed_plug)
    moreover have "entries (plug k 0 ss (Leaf k v)) = insert (k, v) (entries t)"
      unfolding t' by (auto simp: entries_plug)
    ultimately show ?thesis unfolding ins by blast
  next
    case (Leaf k' v')
    have "k' \<noteq> k" using new by (auto simp: t [symmetric] entries_plug Leaf)
    have way: "\<And>j. j < length ss \<Longrightarrow> key_bit k' j = key_bit k j"
      using wf(1) by (simp add: t [symmetric] placed_plug Leaf same_way_def)
    let ?d = "diverge k k' (length ss)"
    have le: "length ss \<le> ?d" by (rule diverge_ge)
    have lt: "?d < 256" by (rule diverge_less [OF \<open>k' \<noteq> k\<close> way len])
    have same: "key_bit k' j = key_bit k j" if "j < ?d" for j
      using that way diverge_same [of "length ss" j k k'] by (cases "j < length ss") auto
    have "siblings_ok k 0 (ss @ extension k (length ss) e)"
      using wf(1) le diverge_differs [OF lt] same
      by (auto simp: t [symmetric] placed_plug siblings_ok_append Leaf siblings_ok_empties same_way_def)
    then have "placed 0 (insert_tree k v t)"
      by (simp add: insert_tree_def d placed_plug)
    moreover have "\<forall>s \<in> set ss. compact s"
      using wf(2) compact_plug [of ss k 0 e] by (cases "ss = []") (auto simp: t [symmetric])
    then have "compact (insert_tree k v t)"
      by (auto simp: insert_tree_def d compact_plug Leaf)
    moreover have "entries t = (\<Union>s\<in>set ss. entries s) \<union> {(k', v')}"
      using entries_plug [of k 0 ss e, unfolded t] by (simp add: Leaf)
    then have "entries (insert_tree k v t) = insert (k, v) (entries t)"
      by (auto simp: insert_tree_def d entries_plug Leaf)
    ultimately show ?thesis by simp
  qed (use descend_end [OF d] in auto)
qed

lemma siblings_ok_apart: "siblings_ok k lvl ss \<Longrightarrow> s \<in> set ss \<Longrightarrow> k \<notin> keys s"
proof (induction ss arbitrary: lvl)
  case (Cons a ss)
  have top: "\<forall>k' \<in> keys a. key_bit k' lvl \<noteq> key_bit k lvl" and rest: "siblings_ok k (Suc lvl) ss"
    using Cons.prems(1) unfolding siblings_ok.simps by blast+
  show ?case
  proof (cases "s = a")
    case True
    then show ?thesis using top by blast
  next
    case False
    then show ?thesis using Cons.IH [OF rest] Cons.prems(2) by simp
  qed
qed simp

lemma strip_split: "\<exists>n. ss = strip ss @ replicate n Empty"
proof (induction ss)
  case (Cons s ss)
  then obtain n where n: "ss = strip ss @ replicate n Empty" by blast
  show ?case
  proof (cases "s = Empty \<and> strip ss = []")
    case True
    then have "s # ss = strip (s # ss) @ replicate (Suc n) Empty" using n by simp
    then show ?thesis by blast
  next
    case False
    then have "s # ss = strip (s # ss) @ replicate n Empty" using n by auto
    then show ?thesis by blast
  qed
qed simp

lemma strip_last: "strip ss \<noteq> [] \<Longrightarrow> last (strip ss) \<noteq> Empty"
  by (induction ss) auto

lemma strip_id: "ss \<noteq> [] \<Longrightarrow> last ss \<noteq> Empty \<Longrightarrow> strip ss = ss"
proof (induction ss)
  case (Cons s ss)
  then show ?case by (cases "ss = []") auto
qed simp

lemma strip_facts:
  assumes "siblings_ok k lvl ss"
  shows "siblings_ok k lvl (strip ss)" "length (strip ss) \<le> length ss"
    "(\<Union>s\<in>set (strip ss). entries s) = (\<Union>s\<in>set ss. entries s)" "set (strip ss) \<subseteq> set ss"
proof -
  obtain n where ss: "ss = strip ss @ replicate n Empty" using strip_split by blast
  then show "siblings_ok k lvl (strip ss)" using assms siblings_ok_append by metis
  show "length (strip ss) \<le> length ss" by (metis ss le_add1 length_append)
  show "set (strip ss) \<subseteq> set ss" by (metis ss Un_upper1 set_append)
  have "(\<Union>s\<in>set (strip ss @ replicate n Empty). entries s) = (\<Union>s\<in>set (strip ss). entries s)"
    by auto
  then show "(\<Union>s\<in>set (strip ss). entries s) = (\<Union>s\<in>set ss. entries s)" using ss by metis
qed

lemma promoted_cases:
  assumes "compact (plug k lvl ss (Leaf k v))"
  obtains (alone) "ss = []" "promoted ss = ([], Empty)"
    | (leaf) k' v' where "ss \<noteq> []" "last ss = Leaf k' v'" "promoted ss = (butlast ss, Leaf k' v')"
    | (inner) l r where "ss \<noteq> []" "last ss = Inner l r" "promoted ss = (ss, Empty)" "2 \<le> leaves (Inner l r)"
proof (cases "ss = []")
  case False
  have "compact (last ss)" "1 \<le> leaves (last ss)"
    using assms compact_plug [OF False, of k lvl "Leaf k v"] False by auto
  then show ?thesis using that(2,3) False by (cases "last ss") (auto simp: promoted_def)
qed (use that(1) in \<open>simp add: promoted_def\<close>)

lemma delete_tree_ok:
  assumes wf: "placed 0 t" "compact t" and mem: "(k, v) \<in> entries t"
  shows "placed 0 (delete_tree k t) \<and> compact (delete_tree k t)
    \<and> entries (delete_tree k t) = {e \<in> entries t. fst e \<noteq> k}"
proof -
  obtain ss where d: "descend k 0 t = (ss, Leaf k v)"
    using descend_mem [OF wf(1), of k v] mem by (cases "descend k 0 t") auto
  have t: "plug k 0 ss (Leaf k v) = t" by (rule plug_descend [OF d])
  have ok: "siblings_ok k 0 ss" using wf(1) placed_plug [of 0 k ss "Leaf k v"] unfolding t by simp
  have sibs: "\<forall>s \<in> set ss. compact s"
    using wf(2) compact_plug [of ss k 0 "Leaf k v"] unfolding t by (cases "ss = []") auto
  have ent: "{e \<in> entries t. fst e \<noteq> k} = (\<Union>s\<in>set ss. entries s)"
    using entries_plug [of k 0 ss "Leaf k v"] siblings_ok_apart [OF ok] unfolding t by fastforce
  obtain S b where p: "promoted ss = (S, b)" by (cases "promoted ss")
  have del: "delete_tree k t = plug k 0 (strip S) b" by (simp add: delete_tree_def d p)
  have base: "siblings_ok k 0 S \<and> same_way k 0 (length S) b \<and> placed (length (strip S)) b \<and> set S \<subseteq> set ss
      \<and> (\<Union>s\<in>set S. entries s) \<union> entries b = (\<Union>s\<in>set ss. entries s)
      \<and> compact b \<and> (strip S \<noteq> [] \<longrightarrow> 2 \<le> leaves (last (strip S)) + leaves b)"
    using wf(2) [folded t]
  proof (cases rule: promoted_cases)
    case alone
    then show ?thesis using p by simp
  next
    case (leaf k' v')
    then have ss: "ss = S @ [b]" "b = Leaf k' v'" using p append_butlast_last_id [OF leaf(1)] by simp_all
    have "siblings_ok k 0 S" "same_way k 0 (length S) b" using ok by (simp_all add: ss(1) siblings_ok_append)
    moreover have "1 \<le> leaves (last (strip S))" if "strip S \<noteq> []"
      using strip_last [OF that] last_in_set [OF that] strip_facts(4) [OF calculation(1)] sibs ss(1)
        leaves_0 by (metis Un_iff less_one linorder_not_less set_append subsetD)
    ultimately show ?thesis using ss by auto
  next
    case (inner l r)
    then have "S = ss" "b = Empty" "strip S = S"
      using p strip_id by simp_all
    then show ?thesis using inner ok by simp
  qed
  have "placed 0 (plug k 0 (strip S) b)"
    using base strip_facts [of k 0 S] by (auto simp: placed_plug same_way_def)
  moreover have "compact (plug k 0 (strip S) b)"
    using base strip_facts(4) [of k 0 S] sibs by (cases "strip S = []") (auto simp: compact_plug)
  moreover have "entries (plug k 0 (strip S) b) = {e \<in> entries t. fst e \<noteq> k}"
    using base strip_facts(3) [of k 0 S] by (simp add: entries_plug ent)
  ultimately show ?thesis by (simp add: del)
qed

section \<open>Trees in a store of nodes\<close>

text \<open>What a program stores for a node, and a store that holds every node of a tree.\<close>

fun node_of ::
  "(u256 \<Rightarrow> u256 \<Rightarrow> 'n) \<Rightarrow> (u256 \<Rightarrow> u256 \<Rightarrow> 'n) \<Rightarrow> (u256 \<Rightarrow> u256 \<Rightarrow> u256) \<Rightarrow> (u256 \<Rightarrow> u256 \<Rightarrow> u256)
     \<Rightarrow> tree \<Rightarrow> 'n option" where
  "node_of ln inn hl hc Empty = None"
| "node_of ln inn hl hc (Leaf k v) = Some (ln k v)"
| "node_of ln inn hl hc (Inner l r) = Some (inn (tree_hash hl hc l) (tree_hash hl hc r))"

definition holds ::
  "(tree \<Rightarrow> 'n option) \<Rightarrow> (tree \<Rightarrow> u256) \<Rightarrow> (u256 \<Rightarrow> 'n option) \<Rightarrow> tree \<Rightarrow> bool" where
  "holds nd h g t \<longleftrightarrow> (\<forall>u \<in> subtrees t. g (h u) = nd u)"

definition nothing_else ::
  "(tree \<Rightarrow> u256) \<Rightarrow> (u256 \<Rightarrow> 'n option) \<Rightarrow> tree \<Rightarrow> bool" where
  "nothing_else h g t \<longleftrightarrow> (\<forall>x. g x \<noteq> None \<longrightarrow> x \<in> h ` subtrees t)"

definition collision_free :: "(tree \<Rightarrow> u256) \<Rightarrow> tree set \<Rightarrow> bool" where
  "collision_free h T \<longleftrightarrow> inj_on h T \<and> 0 \<notin> h ` T"

lemma collision_free_eq: "collision_free h T \<Longrightarrow> s \<in> T \<Longrightarrow> t \<in> T \<Longrightarrow> h s = h t \<longleftrightarrow> s = t"
  unfolding collision_free_def by (meson inj_on_eq_iff)

lemma collision_free_nonzero: "collision_free h T \<Longrightarrow> t \<in> T \<Longrightarrow> h t \<noteq> 0"
  by (auto simp: collision_free_def)

lemma collision_free_subset: "collision_free h T \<Longrightarrow> S \<subseteq> T \<Longrightarrow> collision_free h S"
  unfolding collision_free_def by (meson image_mono inj_on_subset subsetD)

text \<open>\<open>g'\<close> is \<open>g\<close> without the nodes \<open>R\<close> and with the nodes \<open>A\<close>.\<close>

definition swapped ::
  "(tree \<Rightarrow> 'n option) \<Rightarrow> (tree \<Rightarrow> u256) \<Rightarrow> (u256 \<Rightarrow> 'n option) \<Rightarrow> (u256 \<Rightarrow> 'n option) \<Rightarrow> tree set \<Rightarrow> tree set \<Rightarrow> bool" where
  "swapped nd h g g' R A \<longleftrightarrow>
     (\<forall>p \<in> A. g' (h p) = nd p) \<and> (\<forall>r \<in> R - A. g' (h r) = None)
     \<and> (\<forall>x. x \<notin> h ` A \<longrightarrow> x \<notin> h ` R \<longrightarrow> g' x = g x)"

lemma swapped_refl: "swapped nd h g g {} {}"
  by (simp add: swapped_def)

lemma holds_swapped:
  assumes "holds nd h g t" and "swapped nd h g g' R A"
    and "subtrees t' \<subseteq> A \<union> subtrees t" and "subtrees t' \<inter> R \<subseteq> A"
    and cf: "collision_free h T" and "subtrees t' \<subseteq> T" and "A \<subseteq> T" and "R \<subseteq> T"
  shows "holds nd h g' t'"
  unfolding holds_def
proof
  fix u
  assume u: "u \<in> subtrees t'"
  show "g' (h u) = nd u"
  proof (cases "u \<in> A")
    case True
    then show ?thesis using assms(2) by (simp add: swapped_def)
  next
    case False
    then have "u \<notin> R" "u \<in> subtrees t" using assms(3,4) u by blast+
    moreover have "h u \<notin> h ` A" "h u \<notin> h ` R"
      using collision_free_eq [OF cf] assms(6-8) u False \<open>u \<notin> R\<close> by blast+
    ultimately show ?thesis using assms(1,2) by (simp add: swapped_def holds_def)
  qed
qed

lemma nothing_else_swapped:
  assumes "nothing_else h g t" and "swapped nd h g g' R A"
    and "A \<subseteq> subtrees t'" and "subtrees t - R \<subseteq> subtrees t'"
  shows "nothing_else h g' t'"
  unfolding nothing_else_def
proof (intro allI impI)
  fix x
  assume x: "g' x \<noteq> None"
  show "x \<in> h ` subtrees t'"
  proof (cases "x \<in> h ` A")
    case True
    then show ?thesis using assms(3) by blast
  next
    case False
    have "x \<notin> h ` R"
    proof
      assume "x \<in> h ` R"
      then obtain r where r: "r \<in> R" "x = h r" by blast
      then have "r \<notin> A" using False by blast
      then show False using assms(2) r x by (simp add: swapped_def)
    qed
    then have "g x \<noteq> None" using assms(2) x False by (simp add: swapped_def)
    then have "x \<in> h ` subtrees t" using assms(1) by (simp add: nothing_else_def)
    then show ?thesis using assms(4) \<open>x \<notin> h ` R\<close> by blast
  qed
qed

locale node_store =
  fixes get_node :: "'s \<Rightarrow> u256 \<Rightarrow> 'n option"
    and put_node :: "u256 \<Rightarrow> 'n \<Rightarrow> 's \<Rightarrow> 's"
  assumes get_put: "h \<noteq> 0 \<Longrightarrow> get_node (put_node h n s) x = (if x = h then Some n else get_node s x)"
begin

lemma swapped_put:
  assumes "swapped nd h g (get_node s) R A" and "nd p = Some n"
    and cf: "collision_free h T" "p \<in> T" "A \<subseteq> T" "R \<subseteq> T"
  shows "swapped nd h g (get_node (put_node (h p) n s)) R (insert p A)"
proof -
  have eq: "h q = h p \<longleftrightarrow> q = p" if "q \<in> A \<union> R" for q
    using collision_free_eq [OF cf(1) _ cf(2), of q] cf(3,4) that by blast
  have get: "get_node (put_node (h p) n s) x = (if x = h p then nd p else get_node s x)" for x
    using get_put [OF collision_free_nonzero [OF cf(1,2)]] assms(2) by simp
  have "get_node (put_node (h p) n s) (h q) = nd q" if "q \<in> insert p A" for q
    using that eq [of q] assms(1) by (auto simp: get swapped_def)
  moreover have "get_node (put_node (h p) n s) (h r) = None" if "r \<in> R - insert p A" for r
    using that eq [of r] assms(1) by (auto simp: get swapped_def)
  moreover have "get_node (put_node (h p) n s) x = g x" if "x \<notin> h ` insert p A" "x \<notin> h ` R" for x
    using that assms(1) by (simp add: get swapped_def)
  ultimately show ?thesis unfolding swapped_def by blast
qed

end

locale erasing_store = node_store +
  fixes del_node :: "u256 \<Rightarrow> 's \<Rightarrow> 's"
  assumes get_del: "get_node (del_node h s) x = (if x = h then None else get_node s x)"
begin

lemma swapped_del:
  assumes "swapped nd h g (get_node s) R A" and "r \<notin> A"
    and cf: "collision_free h T" "r \<in> T" "A \<subseteq> T"
  shows "swapped nd h g (get_node (del_node (h r) s)) (insert r R) A"
proof -
  have "h q \<noteq> h r" if "q \<in> A" for q
    using collision_free_eq [OF cf(1) _ cf(2), of q] cf(3) that assms(2) by blast
  then show ?thesis
    using assms(1) by (auto simp: swapped_def get_del)
qed

end

section \<open>Nodes replaced by an operation\<close>

lemma size_plug: "s \<in> set ss \<Longrightarrow> size s < size (plug k lvl ss t)"
  by (induction ss arbitrary: lvl) (auto simp: less_SucI trans_less_add1 trans_less_add2)

lemma path_nodes_off_siblings:
  assumes "placed lvl (plug k lvl ss t)" and "compact (plug k lvl ss t)"
    and "p \<in> set (path_nodes k lvl ss t)" and "s \<in> set ss"
  shows "p \<notin> subtrees s"
  using assms
proof (induction ss arbitrary: lvl)
  case (Cons a ss)
  have rest: "placed (Suc lvl) (plug k (Suc lvl) ss t)" "compact (plug k (Suc lvl) ss t)"
    using Cons.prems(1,2) by (auto split: if_splits)
  have wf: "siblings_ok k lvl (a # ss)" using Cons.prems(1) unfolding placed_plug by blast
  from Cons.prems(3) consider (top) "p = plug k lvl (a # ss) t" | (down) "p \<in> set (path_nodes k (Suc lvl) ss t)"
    by auto
  then show ?case
  proof cases
    case top
    then show ?thesis using size_plug [OF Cons.prems(4), of k lvl t] subtrees_size [of p s] by auto
  next
    case down
    show ?thesis
    proof (cases "s = a")
      case False
      then show ?thesis using Cons.IH [OF rest down] Cons.prems(4) by simp
    next
      case True
      have p: "p \<in> subtrees (plug k (Suc lvl) ss t)" using down by (simp add: subtrees_plug)
      have "\<forall>k' \<in> keys (plug k (Suc lvl) ss t). key_bit k' lvl = key_bit k lvl"
        using Cons.prems(1) by (simp split: if_splits)
      then have way: "\<forall>k' \<in> keys p. key_bit k' lvl = key_bit k lvl"
        using subtrees_entries [OF p] by blast
      obtain l r where "p = Inner l r" using path_nodes_Inner [OF down] by blast
      moreover have "compact u \<Longrightarrow> q \<in> subtrees u \<Longrightarrow> compact q" for u q
        by (induction u) auto
      then have "compact p" using rest(2) p by blast
      ultimately have "keys p \<noteq> {}" using leaves_0_entries [of p] by auto
      then obtain k' where k': "k' \<in> keys p" by blast
      then have "key_bit k' lvl = key_bit k lvl" using way by blast
      moreover have "\<forall>k' \<in> keys a. key_bit k' lvl \<noteq> key_bit k lvl" using wf unfolding siblings_ok.simps by blast
      ultimately have "k' \<notin> keys a" by blast
      then show ?thesis using k' subtrees_entries [of p a] True by blast
    qed
  qed
qed simp

text \<open>Inserting adds the nodes on the new path and takes those on the old path away.\<close>

definition added_by_insert :: "u256 \<Rightarrow> u256 \<Rightarrow> tree \<Rightarrow> tree set" where
  "added_by_insert k v t =
     (case descend k 0 t of (ss, e) \<Rightarrow>
        insert (Leaf k v) (set (path_nodes k 0 (ss @ extension k (length ss) e) (Leaf k v))))"

definition old_path :: "u256 \<Rightarrow> tree \<Rightarrow> tree set" where
  "old_path k t = (case descend k 0 t of (ss, e) \<Rightarrow> set (path_nodes k 0 ss e))"

lemma subtrees_extension: "e = Empty \<or> e = Leaf k' v' \<Longrightarrow> (\<Union>s\<in>set (extension k n e). subtrees s) = subtrees e"
  by auto

lemma insert_tree_nodes:
  assumes wf: "placed 0 t" "compact t" and new: "k \<notin> keys t"
  shows "subtrees (insert_tree k v t) = added_by_insert k v t \<union> (subtrees t - old_path k t)"
    "old_path k t \<subseteq> subtrees t" "added_by_insert k v t \<inter> subtrees t = {}"
proof -
  obtain ss e where d: "descend k 0 t = (ss, e)" by (cases "descend k 0 t")
  have t: "plug k 0 ss e = t" by (rule plug_descend [OF d])
  have e: "e = Empty \<or> (\<exists>k' v'. e = Leaf k' v')" by (rule descend_end [OF d])
  have sub: "subtrees t = old_path k t \<union> (\<Union>s\<in>set ss. subtrees s) \<union> subtrees e"
    using subtrees_plug [of k 0 ss e] unfolding t by (simp add: old_path_def d)
  then show "old_path k t \<subseteq> subtrees t" by blast
  have "old_path k t \<inter> subtrees s = {}" if "s \<in> set ss" for s
    using path_nodes_off_siblings [of 0 k ss e _ s] wf that by (auto simp: t old_path_def d)
  moreover have "old_path k t \<inter> subtrees e = {}"
    using e path_nodes_Inner [of _ k 0 ss e] by (fastforce simp: old_path_def d)
  ultimately have off: "subtrees t - old_path k t = (\<Union>s\<in>set ss. subtrees s) \<union> subtrees e"
    using sub by blast
  have ext: "(\<Union>s\<in>set (extension k (length ss) e). subtrees s) = subtrees e"
    using e subtrees_extension by metis
  show "subtrees (insert_tree k v t) = added_by_insert k v t \<union> (subtrees t - old_path k t)"
    using ext by (auto simp: off insert_tree_def added_by_insert_def d subtrees_plug)
  have "(k, v) \<in> entries u" if "u \<in> added_by_insert k v t" for u
    using that path_nodes_entries [of u] by (fastforce simp: added_by_insert_def d)
  then show "added_by_insert k v t \<inter> subtrees t = {}"
    using new subtrees_entries [of _ t] by force
qed

text \<open>
  Deleting a key removes the nodes that lead to its leaf as the program recomputes them. After a
  promotion these are not the nodes that are stored; they contain the key, so they are not nodes
  of the new tree either.
\<close>

definition removed_by_delete :: "u256 \<Rightarrow> u256 \<Rightarrow> tree \<Rightarrow> tree set" where
  "removed_by_delete k v t =
     (case promoted (fst (descend k 0 t)) of (ss, base) \<Rightarrow>
        insert (Leaf k v) (set (path_nodes k 0 ss (Leaf k v))))"

definition added_by_delete :: "u256 \<Rightarrow> tree \<Rightarrow> tree set" where
  "added_by_delete k t =
     (case promoted (fst (descend k 0 t)) of (ss, base) \<Rightarrow> set (path_nodes k 0 (strip ss) base))"

lemma delete_tree_nodes:
  assumes wf: "placed 0 t" "compact t" and mem: "(k, v) \<in> entries t"
  shows "subtrees (delete_tree k t) \<subseteq> added_by_delete k t \<union> subtrees t"
    "added_by_delete k t \<subseteq> subtrees (delete_tree k t)"
    "subtrees (delete_tree k t) \<inter> removed_by_delete k v t = {}"
proof -
  obtain ss where d: "descend k 0 t = (ss, Leaf k v)"
    using descend_mem [OF wf(1), of k v] mem by (cases "descend k 0 t") auto
  have t: "plug k 0 ss (Leaf k v) = t" by (rule plug_descend [OF d])
  have sub: "(\<Union>s\<in>set ss. subtrees s) \<subseteq> subtrees t"
    using subtrees_plug [of k 0 ss "Leaf k v"] unfolding t by blast
  obtain S b where p: "promoted ss = (S, b)" by (cases "promoted ss")
  have base: "set S \<subseteq> set ss \<and> (b = Empty \<or> b \<in> set ss)"
    using p by (auto simp: promoted_def dest: in_set_butlastD split: if_splits tree.splits)
  have "set (strip S) \<subseteq> set S" using strip_split [of S] by (metis Un_upper1 set_append)
  then have "(\<Union>s\<in>set (strip S). subtrees s) \<union> subtrees b \<subseteq> subtrees t"
    using base sub by auto
  then show "subtrees (delete_tree k t) \<subseteq> added_by_delete k t \<union> subtrees t"
    by (auto simp: delete_tree_def added_by_delete_def d p subtrees_plug)
  show "added_by_delete k t \<subseteq> subtrees (delete_tree k t)"
    by (auto simp: delete_tree_def added_by_delete_def d p subtrees_plug)
  have "(k, v) \<in> entries u" if "u \<in> removed_by_delete k v t" for u
    using that path_nodes_entries [of u] by (fastforce simp: removed_by_delete_def d p)
  moreover have "(k, v) \<notin> entries (delete_tree k t)" using delete_tree_ok [OF assms] by auto
  ultimately show "subtrees (delete_tree k t) \<inter> removed_by_delete k v t = {}"
    using subtrees_entries by blast
qed

end
