(* ===== verification/AspNonMembership.thy ===== *)
theory AspNonMembership
  imports SorobanHash Host SparseTree
begin

text \<open>
  The non-membership contract of an association set provider
  (\<open>contracts/asp-non-membership/src/lib.rs\<close>): a sparse Merkle tree of blocked keys, every node
  of it in contract storage under its hash. Leaves are the vectors \<open>[1, key, value]\<close>, inner nodes
  \<open>[left, right]\<close>. \<open>nm_inv\<close> relates the storage to a tree of \<open>SparseTree\<close>; the hypothesis
  \<open>collision_free\<close> of the operations' lemmas is about the nodes that one call touches.
\<close>

section \<open>State\<close>

datatype nm_error =
    NmNotAuthorized
  | KeyNotFound
  | KeyAlreadyExists
  | InvalidNmProof
  | NmNotInitialized
  | NmOverflow

record find_result =
  fr_found :: bool
  fr_siblings :: "u256 list"
  fr_found_value :: u256
  fr_not_found_key :: u256
  fr_not_found_value :: u256
  fr_is_old0 :: bool

datatype nm_event =
    LeafInserted u256 u256 u256
  | LeafDeleted u256 u256

type_synonym nm_nodes = "u256 \<rightharpoonup> u256 list"

record nm_store =
  nm_admin :: "address option"
  nm_root :: "u256 option"
  nm_nodes :: nm_nodes
  nm_events :: "nm_event list"

definition empty_nm_store :: nm_store where
  "empty_nm_store = \<lparr>nm_admin = None, nm_root = None, nm_nodes = Map.empty, nm_events = []\<rparr>"

definition nm_constructor :: "address \<Rightarrow> nm_store \<Rightarrow> (nm_error, nm_store) result" where
  "nm_constructor admin s = Inr (s\<lparr>nm_admin := Some admin, nm_root := Some 0\<rparr>)"

definition put_nm_admin :: "address \<Rightarrow> nm_store \<Rightarrow> nm_store" where
  "put_nm_admin a s = s\<lparr>nm_admin := Some a\<rparr>"

definition nm_update_admin :: "auths \<Rightarrow> address \<Rightarrow> nm_store \<Rightarrow> (nm_error, nm_store) result" where
  "nm_update_admin auth new_admin s = update_admin nm_admin put_nm_admin auth new_admin s"

section \<open>Hashes and key bits\<close>

definition hash_leaf :: "poseidon2_host \<Rightarrow> u256 \<Rightarrow> u256 \<Rightarrow> (nm_error, u256) result" where
  "hash_leaf host key val = poseidon2_hash2 host key val (Some 1)"

definition hash_internal :: "poseidon2_host \<Rightarrow> u256 \<Rightarrow> u256 \<Rightarrow> (nm_error, u256) result" where
  "hash_internal host left right = poseidon2_compress host left right"

fun split_loop :: "nat \<Rightarrow> u256 \<Rightarrow> bool list \<Rightarrow> bool list" where
  "split_loop 0 k bits = bits"
| "split_loop (Suc n) k bits = split_loop n (k div 2) (bits @ [k mod 2 = 1])"

definition split_bits :: "u256 \<Rightarrow> bool list" where
  "split_bits key = split_loop 256 key []"

text \<open>The hash of the parent of \<open>current\<close>, whose sibling is \<open>sibling\<close>, by the key's bit.\<close>

definition hash_up :: "poseidon2_host \<Rightarrow> bool \<Rightarrow> u256 \<Rightarrow> u256 \<Rightarrow> (nm_error, u256) result" where
  "hash_up host b sibling current =
     (if b then hash_internal host sibling current else hash_internal host current sibling)"

section \<open>Finding a key\<close>

function find_key_internal ::
  "nm_nodes \<Rightarrow> u256 \<Rightarrow> bool list \<Rightarrow> u256 \<Rightarrow> nat \<Rightarrow> (nm_error, find_result) result" where
  "find_key_internal nodes key key_bits root level =
     (if root = 0 then
        Inr \<lparr>fr_found = False, fr_siblings = [], fr_found_value = 0, fr_not_found_key = key,
             fr_not_found_value = 0, fr_is_old0 = True\<rparr>
      else (case nodes root of
        None \<Rightarrow> Inl (Err KeyNotFound)
      | Some [tag, stored_key, stored_value] \<Rightarrow>
          if tag = 1 then
            if stored_key = key then
              Inr \<lparr>fr_found = True, fr_siblings = [], fr_found_value = stored_value,
                   fr_not_found_key = 0, fr_not_found_value = 0, fr_is_old0 = False\<rparr>
            else
              Inr \<lparr>fr_found = False, fr_siblings = [], fr_found_value = 0,
                   fr_not_found_key = stored_key, fr_not_found_value = stored_value, fr_is_old0 = False\<rparr>
          else Inl (Err KeyNotFound)
      | Some [left, right] \<Rightarrow>
          (case nth_opt key_bits level of
             None \<Rightarrow> Inl (Err KeyNotFound)
           | Some b \<Rightarrow>
             (case checked_add 32 level 1 of
                None \<Rightarrow> Inl (Err NmOverflow)
              | Some level1 \<Rightarrow>
                (case find_key_internal nodes key key_bits (if b then right else left) level1 of
                   Inl e \<Rightarrow> Inl e
                 | Inr result \<Rightarrow>
                     Inr (result\<lparr>fr_siblings := (if b then left else right) # fr_siblings result\<rparr>))))
      | Some _ \<Rightarrow> Inl (Err KeyNotFound)))"
  by pat_completeness auto

termination
  by (relation "measure (\<lambda>(_, _, key_bits, _, level). length key_bits - level)")
    (auto simp: nth_opt_Some checked_add_Some)

declare find_key_internal.simps [simp del]

definition find_key :: "u256 \<Rightarrow> nm_store \<Rightarrow> (nm_error, find_result) result" where
  "find_key key s =
     find_key_internal (nm_nodes s) key (split_bits key) (unwrap_or (nm_root s) 0) 0"

definition nm_get_root :: "nm_store \<Rightarrow> (nm_error, u256) result" where
  "nm_get_root s = ok_or (nm_root s) NmNotInitialized"

section \<open>Inserting\<close>

function extend_siblings ::
  "bool list \<Rightarrow> bool list \<Rightarrow> nat \<Rightarrow> u256 list \<Rightarrow> (nm_error, u256 list) result" where
  "extend_siblings old_key_bits key_bits i siblings =
     (if i < length old_key_bits \<and> i < length key_bits \<and> old_key_bits ! i = key_bits ! i
      then (case checked_add 32 i 1 of
              None \<Rightarrow> Inl (Err NmOverflow)
            | Some i1 \<Rightarrow> extend_siblings old_key_bits key_bits i1 (siblings @ [0]))
      else Inr siblings)"
  by pat_completeness auto

termination
  by (relation "measure (\<lambda>(_, key_bits, i, _). length key_bits - i)") (auto simp: checked_add_Some)

declare extend_siblings.simps [simp del]

text \<open>
  The body of the loop that rebuilds the path, from the last sibling to the first. Its state is
  \<open>mixed\<close>, \<open>rt_old\<close>, \<open>rt\<close> and the stored nodes.
\<close>

definition insert_step ::
  "poseidon2_host \<Rightarrow> u256 list \<Rightarrow> bool list \<Rightarrow> bool \<Rightarrow> nat \<Rightarrow> nat \<times> u256
     \<Rightarrow> bool \<times> u256 \<times> u256 \<times> nm_nodes \<Rightarrow> (nm_error, bool \<times> u256 \<times> u256 \<times> nm_nodes) result" where
  "insert_step host found_siblings key_bits added_one siblings_len i_sibling st =
     (case i_sibling of (i, sibling) \<Rightarrow> case st of (mixed, rt_old, rt, nodes) \<Rightarrow>
      let is_last_added_leaf = (added_one \<and> i = siblings_len - 1);
          mixed1 = (mixed \<or> \<not> is_last_added_leaf \<and> i < siblings_len - 1 \<and> sibling \<noteq> 0) in
      and_then
        (if mixed1 \<and> \<not> is_last_added_leaf
         then let old_sibling = unwrap_or (nth_opt found_siblings i) 0 in
              and_then (ok_or (nth_opt key_bits i) KeyNotFound) (\<lambda>b.
              and_then (hash_up host b old_sibling rt_old) (\<lambda>rt_old1.
                Inr (rt_old1, nodes(rt_old1 := None))))
         else Inr (rt_old, nodes)) (\<lambda>(rt_old1, nodes1).
      and_then (ok_or (nth_opt key_bits i) KeyNotFound) (\<lambda>b.
      let left_hash = (if b then sibling else rt); right_hash = (if b then rt else sibling) in
      and_then (hash_internal host left_hash right_hash) (\<lambda>rt1.
        Inr (mixed1, rt_old1, rt1, nodes1(rt1 \<mapsto> [left_hash, right_hash]))))))"

text \<open>Trailing zeros are taken off the local list of siblings before the root is stored.\<close>

function drop_zeros :: "u256 list \<Rightarrow> u256 list" where
  "drop_zeros siblings =
     (if siblings \<noteq> [] \<and> last siblings = 0 then drop_zeros (butlast siblings) else siblings)"
  by pat_completeness auto

termination by (relation "measure length") auto

declare drop_zeros.simps [simp del]

definition nm_insert_leaf ::
  "poseidon2_host \<Rightarrow> auths \<Rightarrow> u256 \<Rightarrow> u256 \<Rightarrow> nm_store \<Rightarrow> (nm_error, nm_store) result" where
  "nm_insert_leaf host auth key val s =
     and_then (ok_or (nm_admin s) NmNotInitialized) (\<lambda>admin.
     and_then (require_auth auth admin) (\<lambda>_.
     let key_bits = split_bits key in
     and_then (find_key_internal (nm_nodes s) key key_bits (unwrap_or (nm_root s) 0) 0) (\<lambda>found.
     if fr_found found then Inl (Err KeyAlreadyExists)
     else
       and_then
         (if \<not> fr_is_old0 found then
            and_then
              (extend_siblings (split_bits (fr_not_found_key found)) key_bits
                 (length (fr_siblings found)) (fr_siblings found)) (\<lambda>extended.
            and_then (hash_leaf host (fr_not_found_key found) (fr_not_found_value found)) (\<lambda>old_leaf.
              Inr (extended @ [old_leaf], True, False, old_leaf)))
          else Inr (fr_siblings found, False, fr_siblings found \<noteq> [], 0))
         (\<lambda>(siblings, added_one, mixed, rt_old).
       and_then (hash_leaf host key val) (\<lambda>leaf.
       and_then
         (fold_result
            (insert_step host (fr_siblings found) key_bits added_one (length siblings))
            (rev (List.enumerate 0 siblings))
            (mixed, rt_old, leaf, (nm_nodes s)(leaf \<mapsto> [1, key, val])))
         (\<lambda>(_, _, rt, nodes).
       let siblings1 = drop_zeros (if added_one then butlast siblings else siblings) in
         Inr (s\<lparr>nm_nodes := nodes, nm_root := Some rt,
                nm_events := nm_events s @ [LeafInserted key val rt]\<rparr>)))))))"

section \<open>Deleting\<close>

definition delete_step ::
  "poseidon2_host \<Rightarrow> bool list \<Rightarrow> u256 list \<Rightarrow> nat
     \<Rightarrow> bool \<times> u256 \<times> u256 \<times> nm_nodes \<Rightarrow> (nm_error, bool \<times> u256 \<times> u256 \<times> nm_nodes) result" where
  "delete_step host key_bits siblings level_idx st =
     (case st of (mixed, rt_old, rt_new, nodes) \<Rightarrow>
      let level = length siblings - 1 - level_idx in
      and_then (ok_or (nth_opt siblings level) KeyNotFound) (\<lambda>sibling.
      and_then (ok_or (nth_opt key_bits level) KeyNotFound) (\<lambda>b.
      and_then (hash_up host b sibling rt_old) (\<lambda>rt_old1.
      let nodes1 = nodes(rt_old1 := None); mixed1 = (mixed \<or> sibling \<noteq> 0) in
      if mixed1 then
        let left_hash = (if b then sibling else rt_new); right_hash = (if b then rt_new else sibling) in
        and_then (hash_internal host left_hash right_hash) (\<lambda>rt_new1.
          Inr (mixed1, rt_old1, rt_new1, nodes1(rt_new1 \<mapsto> [left_hash, right_hash])))
      else Inr (mixed1, rt_old1, rt_new, nodes1)))))"

text \<open>The last sibling is promoted when it is a leaf.\<close>

definition promote :: "nm_nodes \<Rightarrow> u256 list \<Rightarrow> (nm_error, u256 \<times> u256 list) result" where
  "promote nodes siblings =
     (if siblings = [] then Inr (0, siblings)
      else (case nodes (last siblings) of
              None \<Rightarrow> Inl (Err KeyNotFound)
            | Some [tag, _, _] \<Rightarrow>
                if tag = 1 then Inr (last siblings, butlast siblings) else Inl (Err KeyNotFound)
            | Some [_, _] \<Rightarrow> Inr (0, siblings)
            | Some _ \<Rightarrow> Inl (Err KeyNotFound)))"

definition delete_leaf ::
  "poseidon2_host \<Rightarrow> auths \<Rightarrow> u256 \<Rightarrow> nm_store \<Rightarrow> (nm_error, nm_store) result" where
  "delete_leaf host auth key s =
     and_then (ok_or (nm_admin s) NmNotInitialized) (\<lambda>admin.
     and_then (require_auth auth admin) (\<lambda>_.
     and_then (ok_or (nm_root s) NmNotInitialized) (\<lambda>root.
     let key_bits = split_bits key in
     and_then (find_key_internal (nm_nodes s) key key_bits root 0) (\<lambda>found.
     if \<not> fr_found found then Inl (Err KeyNotFound)
     else
       and_then (hash_leaf host key (fr_found_value found)) (\<lambda>leaf.
       let nodes0 = (nm_nodes s)(leaf := None) in
       and_then (promote nodes0 (fr_siblings found)) (\<lambda>(rt_new, siblings).
       and_then
         (fold_result (delete_step host key_bits siblings) [0..<length siblings]
            (False, leaf, rt_new, nodes0)) (\<lambda>(_, _, rt, nodes).
         Inr (s\<lparr>nm_nodes := nodes, nm_root := Some rt,
                nm_events := nm_events s @ [LeafDeleted key rt]\<rparr>))))))))"

section \<open>Checking a proof\<close>

definition verify_step ::
  "poseidon2_host \<Rightarrow> bool list \<Rightarrow> u256 list \<Rightarrow> nat \<Rightarrow> u256 \<Rightarrow> (nm_error, u256) result" where
  "verify_step host key_bits siblings level_idx computed_root =
     (let level = length siblings - 1 - level_idx in
      and_then (ok_or (nth_opt siblings level) InvalidNmProof) (\<lambda>sibling.
      and_then (ok_or (nth_opt key_bits level) InvalidNmProof) (\<lambda>b.
        hash_up host b sibling computed_root)))"

definition verify_non_membership ::
  "poseidon2_host \<Rightarrow> u256 \<Rightarrow> u256 list \<Rightarrow> u256 \<Rightarrow> u256 \<Rightarrow> nm_store \<Rightarrow> (nm_error, bool) result" where
  "verify_non_membership host key siblings not_found_key not_found_value s =
     (let root = unwrap_or (nm_root s) 0; key_bits = split_bits key in
      and_then (find_key_internal (nm_nodes s) key key_bits root 0) (\<lambda>found.
      if fr_found found then Inr False
      else
        and_then (ensure (length (fr_siblings found) = length siblings) InvalidNmProof) (\<lambda>_.
        and_then (ensure (siblings = fr_siblings found) InvalidNmProof) (\<lambda>_.
        and_then (ensure (fr_not_found_key found = not_found_key
            \<and> fr_not_found_value found = not_found_value) InvalidNmProof) (\<lambda>_.
        and_then (if not_found_key \<noteq> key \<and> not_found_value \<noteq> 0
                  then hash_leaf host not_found_key not_found_value else Inr 0) (\<lambda>start.
        and_then (fold_result (verify_step host key_bits siblings) [0..<length siblings] start)
          (\<lambda>computed_root.
        and_then (ensure (computed_root = root) InvalidNmProof) (\<lambda>_. Inr True))))))))"

section \<open>The stored tree\<close>

definition leaf_value :: "poseidon2_host \<Rightarrow> u256 \<Rightarrow> u256 \<Rightarrow> u256" where
  "leaf_value host k v = hash2_value host k v 1"

abbreviation nm_hash :: "poseidon2_host \<Rightarrow> tree \<Rightarrow> u256" where
  "nm_hash host \<equiv> tree_hash (leaf_value host) (compress_value host)"

abbreviation nm_node :: "poseidon2_host \<Rightarrow> tree \<Rightarrow> u256 list option" where
  "nm_node host \<equiv> node_of (\<lambda>k v. [1, k, v]) (\<lambda>l r. [l, r]) (leaf_value host) (compress_value host)"

interpretation nm_storage: erasing_store "\<lambda>nodes :: nm_nodes. nodes" "\<lambda>h n nodes. nodes(h \<mapsto> n)"
    "\<lambda>h nodes. nodes(h := None)"
  by unfold_locales simp_all

interpretation nm_gate: admin_entry nm_admin put_nm_admin
  by unfold_locales (simp_all add: put_nm_admin_def)

definition canonical_tree :: "tree \<Rightarrow> bool" where
  "canonical_tree t \<longleftrightarrow> (\<forall>(k, v) \<in> entries t. canonical k \<and> canonical v)"

lemma canonical_tree_simps [simp]:
  "canonical_tree Empty" "canonical_tree (Leaf k v) \<longleftrightarrow> canonical k \<and> canonical v"
  "canonical_tree (Inner l r) \<longleftrightarrow> canonical_tree l \<and> canonical_tree r"
  by (auto simp: canonical_tree_def)

lemma hash_leaf_ok:
  "good_host host \<Longrightarrow> canonical k \<Longrightarrow> canonical v \<Longrightarrow>
     hash_leaf host k v = Inr (leaf_value host k v) \<and> canonical (leaf_value host k v)"
  using poseidon2_hash2_ok [of host k v "Some 1"]
  by (simp add: hash_leaf_def leaf_value_def)

lemma canonical_nm_hash: "good_host host \<Longrightarrow> canonical_tree t \<Longrightarrow> canonical (nm_hash host t)"
  by (cases t) (simp_all add: hash_leaf_ok canonical_compress_value)

lemma hash_internal_ok:
  "good_host host \<Longrightarrow> canonical_tree l \<Longrightarrow> canonical_tree r \<Longrightarrow>
     hash_internal host (nm_hash host l) (nm_hash host r) = Inr (nm_hash host (Inner l r))"
  by (simp add: hash_internal_def poseidon2_compress_ok canonical_nm_hash)

lemma hash_up_ok:
  assumes "good_host host" "canonical_tree s" "canonical_tree t"
  shows "hash_up host (key_bit k lvl) (nm_hash host s) (nm_hash host t) = Inr (nm_hash host (plug k lvl [s] t))"
  using assms by (simp add: hash_up_def hash_internal_ok del: tree_hash.simps)

lemma canonical_plug:
  "canonical_tree (plug k lvl ss t) \<longleftrightarrow> (\<forall>s \<in> set ss. canonical_tree s) \<and> canonical_tree t"
  by (auto simp: canonical_tree_def entries_plug)

section \<open>Key bits\<close>

lemma key_bit_0: "k mod 2 = 1 \<longleftrightarrow> key_bit k 0" for k :: u256
proof -
  have "k mod 2 = 1 \<longleftrightarrow> unat (k mod 2) = unat (1 :: u256)" by (rule word_unat_eq_iff)
  then show ?thesis by (simp add: key_bit_def unat_mod odd_iff_mod_2_eq_one)
qed

lemma key_bit_div: "key_bit (k div 2) j = key_bit k (Suc j)" for k :: u256
  by (simp add: key_bit_def unat_div div_mult2_eq)

lemma split_loop_bits: "split_loop n k bits = bits @ map (key_bit k) [0..<n]"
proof (induction n arbitrary: k bits)
  case (Suc n)
  have "map (key_bit k) [0..<Suc n] = key_bit k 0 # map (\<lambda>j. key_bit k (Suc j)) [0..<n]"
    by (simp only: upt_conv_Cons zero_less_Suc list.map map_Suc_upt [symmetric] map_map comp_def)
  also have "(\<lambda>j. key_bit k (Suc j)) = key_bit (k div 2)" by (rule ext) (simp add: key_bit_div)
  finally have "map (key_bit k) [0..<Suc n] = key_bit k 0 # map (key_bit (k div 2)) [0..<n]" .
  then show ?case using Suc by (simp add: key_bit_0)
qed simp

lemma split_bits_facts: "length (split_bits k) = 256" "j < 256 \<Longrightarrow> split_bits k ! j = key_bit k j"
  by (simp_all add: split_bits_def split_loop_bits)

lemma split_bits_nth [simp]: "j < 256 \<Longrightarrow> nth_opt (split_bits k) j = Some (key_bit k j)"
  by (simp add: split_bits_facts nth_opt_def)

section \<open>What finding returns\<close>

fun found_at :: "u256 \<Rightarrow> u256 list \<Rightarrow> tree \<Rightarrow> find_result" where
  "found_at k siblings (Leaf k' v') =
     (if k' = k
      then \<lparr>fr_found = True, fr_siblings = siblings, fr_found_value = v', fr_not_found_key = 0,
            fr_not_found_value = 0, fr_is_old0 = False\<rparr>
      else \<lparr>fr_found = False, fr_siblings = siblings, fr_found_value = 0, fr_not_found_key = k',
            fr_not_found_value = v', fr_is_old0 = False\<rparr>)"
| "found_at k siblings _ = \<lparr>fr_found = False, fr_siblings = siblings, fr_found_value = 0,
     fr_not_found_key = k, fr_not_found_value = 0, fr_is_old0 = True\<rparr>"

lemma found_at_Cons:
  "(found_at k ss e)\<lparr>fr_siblings := s # fr_siblings (found_at k ss e)\<rparr> = found_at k (s # ss) e"
  by (cases e) auto

lemma find_descends:
  assumes "holds (nm_node host) (nm_hash host) nodes t" and "\<forall>u \<in> subtrees t. nm_hash host u \<noteq> 0"
    and "descend k lvl t = (ss, e)" and "lvl + length ss \<le> 256"
  shows "find_key_internal nodes k (split_bits k) (nm_hash host t) lvl
    = Inr (found_at k (map (nm_hash host) ss) e)"
  using assms
proof (induction k lvl t arbitrary: ss rule: descend.induct [case_names inner empty leaf])
  case (inner k lvl l r)
  let ?c = "if key_bit k lvl then r else l" and ?s = "if key_bit k lvl then l else r"
  obtain ss' where ss: "ss = ?s # ss'" and d: "descend k (Suc lvl) ?c = (ss', e)"
    using inner.prems(3) by (auto simp: Let_def split: prod.splits)
  have lvl: "lvl < 256" using inner.prems(4) ss by simp
  have "nodes (nm_hash host (Inner l r)) = nm_node host (Inner l r)" "nm_hash host (Inner l r) \<noteq> 0"
    using inner.prems(1,2) unfolding holds_def by (blast intro: subtrees_self)+
  moreover have "find_key_internal nodes k (split_bits k) (nm_hash host ?c) (Suc lvl)
      = Inr (found_at k (map (nm_hash host) ss') e)"
    using inner.prems(1,2,4) d ss by (intro inner.IH) (auto simp: holds_def)
  moreover have "checked_add 32 lvl 1 = Some (Suc lvl)"
    using lvl by (simp add: checked_add_def fits_def)
  ultimately show ?case
    using lvl found_at_Cons [where ss = "map (nm_hash host) ss'" and s = "nm_hash host ?s"]
    by (subst find_key_internal.simps) (simp add: ss if_distrib [of "nm_hash host"] del: tree_hash.simps)
next
  case (empty k lvl)
  then show ?case by (subst find_key_internal.simps) simp
next
  case (leaf k lvl k' v')
  have eqs: "ss = []" "e = Leaf k' v'" using leaf.prems(3) by auto
  have "nodes (leaf_value host k' v') = Some [1, k', v']" "leaf_value host k' v' \<noteq> 0"
    using leaf.prems(1,2) by (simp_all add: holds_def)
  then show ?case unfolding eqs by (subst find_key_internal.simps) simp
qed

lemma extend_siblings_run:
  "i \<le> 256 \<Longrightarrow> extend_siblings (split_bits k') (split_bits k) i siblings
     = Inr (siblings @ replicate (diverge k k' i - i) 0)"
proof (induction k k' i arbitrary: siblings rule: diverge.induct)
  case (1 k k' i)
  show ?case
  proof (cases "i < 256 \<and> key_bit k' i = key_bit k i")
    case True
    then have "diverge k k' i = diverge k k' (Suc i)" "checked_add 32 i 1 = Some (Suc i)"
      by (simp_all add: diverge.simps [of k k' i] checked_add_def fits_def)
    moreover have "diverge k k' (Suc i) - i = Suc (diverge k k' (Suc i) - Suc i)"
      using diverge_ge [of "Suc i" k k'] by simp
    ultimately show ?thesis
      using True "1.IH" [OF True, of "siblings @ [0]"]
      by (subst extend_siblings.simps) (simp add: split_bits_facts)
  next
    case False
    then have "diverge k k' i = i" by (subst diverge.simps) (rule if_not_P)
    then show ?thesis using False
      by (subst extend_siblings.simps) (auto simp: split_bits_facts)
  qed
qed

section \<open>Rebuilding the path\<close>

lemma rev_enumerate_Cons: "rev (List.enumerate n (x # xs)) = rev (List.enumerate (Suc n) xs) @ [(n, x)]"
  by simp

lemma nth_opt_append_length [simp]: "nth_opt (xs @ x # ys) (length xs) = Some x"
  by (simp add: nth_opt_def)

lemma plug_key: "k \<in> keys t \<Longrightarrow> k \<in> keys (plug k lvl ss t)"
  by (auto simp: entries_plug)

lemma path_nodes_key: "p \<in> set (path_nodes k lvl ss t) \<Longrightarrow> k' \<in> keys t \<Longrightarrow> k' \<in> keys p"
  using path_nodes_entries by blast

text \<open>The upper part of the loop: every step replaces a stored node of the old path.\<close>

lemma insert_climb:
  assumes host: "good_host host" and cf: "collision_free (nm_hash host) T"
    and can: "\<forall>s \<in> set ss. canonical_tree s" "canonical_tree e" "canonical_tree c"
    and keys: "k \<in> keys c" "k \<notin> keys e" "\<forall>s \<in> set ss. k \<notin> keys s"
    and last: "added_one \<longrightarrow> lvl + length ss \<le> len - 1"
    and mixed: "mixed \<or> ss = [] \<or> added_one \<and> last ss \<noteq> Empty"
    and depth: "lvl + length ss \<le> 256" and pre: "length pre = lvl"
    and T: "set (path_nodes k lvl ss e) \<subseteq> T" "set (path_nodes k lvl ss c) \<subseteq> T" "A \<subseteq> T" "R \<subseteq> T"
      "\<forall>s \<in> set ss. s \<noteq> Empty \<longrightarrow> s \<in> T"
    and A: "\<forall>p \<in> A. k \<in> keys p"
    and sw: "swapped (nm_node host) (nm_hash host) g nodes R A"
  shows "\<exists>nodes'. fold_result
      (insert_step host (pre @ map (nm_hash host) ss) (split_bits k) added_one len)
      (rev (List.enumerate lvl (map (nm_hash host) ss))) (mixed, nm_hash host e, nm_hash host c, nodes)
    = Inr (mixed \<or> ss \<noteq> [], nm_hash host (plug k lvl ss e), nm_hash host (plug k lvl ss c), nodes')
    \<and> swapped (nm_node host) (nm_hash host) g nodes' (R \<union> set (path_nodes k lvl ss e))
        (A \<union> set (path_nodes k lvl ss c))"
  using assms
proof (induction ss arbitrary: lvl pre)
  case Nil
  then show ?case by simp
next
  case (Cons s ss)
  let ?h = "nm_hash host"
  let ?old = "plug k (Suc lvl) ss e" and ?new = "plug k (Suc lvl) ss c"
  let ?R = "R \<union> set (path_nodes k (Suc lvl) ss e)" and ?A = "A \<union> set (path_nodes k (Suc lvl) ss c)"
  have "\<exists>nodes'. fold_result
      (insert_step host ((pre @ [?h s]) @ map ?h ss) (split_bits k) added_one len)
      (rev (List.enumerate (Suc lvl) (map ?h ss))) (mixed, ?h e, ?h c, nodes)
    = Inr (mixed \<or> ss \<noteq> [], ?h ?old, ?h ?new, nodes')
    \<and> swapped (nm_node host) ?h g nodes' ?R ?A"
    using Cons.prems by (intro Cons.IH) (auto split: if_splits)
  then obtain nodes' where IH: "fold_result
      (insert_step host (pre @ map ?h (s # ss)) (split_bits k) added_one len)
      (rev (List.enumerate (Suc lvl) (map ?h ss))) (mixed, ?h e, ?h c, nodes)
    = Inr (mixed \<or> ss \<noteq> [], ?h ?old, ?h ?new, nodes')"
    and sw: "swapped (nm_node host) ?h g nodes' ?R ?A"
    by (auto simp del: plug.simps)
  have lvl: "lvl < 256" using Cons.prems(11) by simp
  have not_last: "\<not> (added_one \<and> lvl = len - 1)" "added_one \<Longrightarrow> lvl < len - 1"
    using Cons.prems(9) by auto
  have mix: "(mixed \<or> ss \<noteq> []) \<or> lvl < len - 1 \<and> ?h s \<noteq> 0"
  proof (cases "mixed \<or> ss \<noteq> []")
    case False
    then have "added_one" "s \<noteq> Empty" using Cons.prems(10) by auto
    then show ?thesis using not_last(2) collision_free_nonzero [OF cf] Cons.prems(17) by simp
  qed simp
  have up: "hash_up host (key_bit k lvl) (?h s) (?h ?old) = Inr (?h (plug k lvl (s # ss) e))"
    "hash_up host (key_bit k lvl) (?h s) (?h ?new) = Inr (?h (plug k lvl (s # ss) c))"
    using hash_up_ok [OF host, of s "?old" k lvl] hash_up_ok [OF host, of s "?new" k lvl] Cons.prems(3-5)
    by (simp_all add: canonical_plug del: tree_hash.simps)
  have new_key: "k \<in> keys p" if "p \<in> insert (plug k lvl (s # ss) c) ?A" for p
    using that Cons.prems(6,18) path_nodes_entries [of p k "Suc lvl" ss c] plug_key [of k c lvl "s # ss"]
    by (auto simp del: plug.simps)
  have old_key: "k \<notin> keys (plug k lvl (s # ss) e)"
    using Cons.prems(7,8) by (auto simp: entries_plug simp del: plug.simps)
  have in_T: "plug k lvl (s # ss) e \<in> T" "plug k lvl (s # ss) c \<in> T" "?A \<subseteq> T" "?R \<subseteq> T"
    using Cons.prems(13-16) by auto
  let ?nodes1 = "nodes'(?h (plug k lvl (s # ss) e) := None)"
  have sw1: "swapped (nm_node host) ?h g ?nodes1 (insert (plug k lvl (s # ss) e) ?R) ?A"
    using nm_storage.swapped_del [OF sw _ cf in_T(1,3)] new_key old_key by blast
  obtain n where n: "nm_node host (plug k lvl (s # ss) c) = Some n"
    "n = (if key_bit k lvl then [?h s, ?h ?new] else [?h ?new, ?h s])"
    by simp
  have sw2: "swapped (nm_node host) ?h g (?nodes1(?h (plug k lvl (s # ss) c) \<mapsto> n))
      (insert (plug k lvl (s # ss) e) ?R) (insert (plug k lvl (s # ss) c) ?A)"
    using in_T by (intro nm_storage.swapped_put [OF sw1 n(1) cf]) auto
  have at: "(pre @ ?h s # map ?h ss) ! lvl = ?h s" "lvl < length (pre @ ?h s # map ?h ss)"
    using Cons.prems(12) by auto
  have "insert_step host (pre @ map ?h (s # ss)) (split_bits k) added_one len (lvl, ?h s)
      (mixed \<or> ss \<noteq> [], ?h ?old, ?h ?new, nodes')
    = Inr (True, ?h (plug k lvl (s # ss) e), ?h (plug k lvl (s # ss) c),
        ?nodes1(?h (plug k lvl (s # ss) c) \<mapsto> n))"
    using not_last mix lvl up at n(2)
    by (cases "key_bit k lvl") (simp_all add: insert_step_def Let_def hash_up_def del: plug.simps tree_hash.simps)
  moreover have "R \<union> set (path_nodes k lvl (s # ss) e) = insert (plug k lvl (s # ss) e) ?R"
    "A \<union> set (path_nodes k lvl (s # ss) c) = insert (plug k lvl (s # ss) c) ?A"
    by auto
  ultimately show ?case
    using IH sw2
    by (simp add: fold_result_append del: plug.simps tree_hash.simps path_nodes.simps)
qed

text \<open>The lower part, after a collision: the way that both keys share, and the old leaf.\<close>

lemma insert_step_plain:
  assumes host: "good_host host" and can: "canonical_tree s" "canonical_tree c"
    and lvl: "lvl < 256" and plain: "added_one \<and> lvl = len - 1 \<or> nm_hash host s = 0"
  shows "\<exists>n. nm_node host (plug k lvl [s] c) = Some n
    \<and> insert_step host fs (split_bits k) added_one len (lvl, nm_hash host s)
        (False, rt_old, nm_hash host c, nodes)
      = Inr (False, rt_old, nm_hash host (plug k lvl [s] c), nodes(nm_hash host (plug k lvl [s] c) \<mapsto> n))"
proof -
  have "hash_up host (key_bit k lvl) (nm_hash host s) (nm_hash host c) = Inr (nm_hash host (plug k lvl [s] c))"
    by (rule hash_up_ok [OF host can])
  then show ?thesis using lvl plain
    by (cases "key_bit k lvl") (auto simp: insert_step_def Let_def hash_up_def simp del: tree_hash.simps)
qed

lemma swapped_put_plug:
  assumes "swapped (nm_node host) (nm_hash host) g nodes R A"
    and "nm_node host p = Some n" and "collision_free (nm_hash host) T" "p \<in> T" "A \<subseteq> T" "R \<subseteq> T"
  shows "swapped (nm_node host) (nm_hash host) g (nodes(nm_hash host p \<mapsto> n)) R (insert p A)"
  by (rule nm_storage.swapped_put [OF assms])

lemma insert_extension:
  assumes host: "good_host host" and cf: "collision_free (nm_hash host) T"
    and can: "canonical k'" "canonical v'" "canonical_tree c"
    and "lvl + m < 256" and "len = Suc (lvl + m)"
    and "set (path_nodes k lvl (replicate m Empty @ [Leaf k' v']) c) \<subseteq> T" "A \<subseteq> T" "R \<subseteq> T"
    and "swapped (nm_node host) (nm_hash host) g nodes R A"
  shows "\<exists>nodes'. fold_result (insert_step host fs (split_bits k) True len)
      (rev (List.enumerate lvl (map (nm_hash host) (replicate m Empty @ [Leaf k' v']))))
      (False, rt_old, nm_hash host c, nodes)
    = Inr (False, rt_old, nm_hash host (plug k lvl (replicate m Empty @ [Leaf k' v']) c), nodes')
    \<and> swapped (nm_node host) (nm_hash host) g nodes' R
        (A \<union> set (path_nodes k lvl (replicate m Empty @ [Leaf k' v']) c))"
  using assms
proof (induction m arbitrary: lvl)
  case 0
  then have "\<exists>n. nm_node host (plug k lvl [Leaf k' v'] c) = Some n
    \<and> insert_step host fs (split_bits k) True len (lvl, nm_hash host (Leaf k' v'))
        (False, rt_old, nm_hash host c, nodes)
      = Inr (False, rt_old, nm_hash host (plug k lvl [Leaf k' v'] c),
          nodes(nm_hash host (plug k lvl [Leaf k' v'] c) \<mapsto> n))"
    by (intro insert_step_plain) simp_all
  then obtain n where n: "nm_node host (plug k lvl [Leaf k' v'] c) = Some n"
    "insert_step host fs (split_bits k) True len (lvl, nm_hash host (Leaf k' v'))
        (False, rt_old, nm_hash host c, nodes)
      = Inr (False, rt_old, nm_hash host (plug k lvl [Leaf k' v'] c),
          nodes(nm_hash host (plug k lvl [Leaf k' v'] c) \<mapsto> n))" by blast
  have "swapped (nm_node host) (nm_hash host) g (nodes(nm_hash host (plug k lvl [Leaf k' v'] c) \<mapsto> n)) R
      (insert (plug k lvl [Leaf k' v'] c) A)"
    using 0 n(1) by (intro swapped_put_plug) (auto simp del: plug.simps)
  then show ?case using n(2) by (simp del: plug.simps tree_hash.simps add: plug.simps(1))
next
  case (Suc m)
  let ?ss = "replicate m Empty @ [Leaf k' v']" and ?h = "nm_hash host"
  let ?c = "plug k (Suc lvl) ?ss c" and ?A = "A \<union> set (path_nodes k (Suc lvl) (replicate m Empty @ [Leaf k' v']) c)"
  have "\<exists>nodes'. fold_result (insert_step host fs (split_bits k) True len)
      (rev (List.enumerate (Suc lvl) (map ?h ?ss))) (False, rt_old, ?h c, nodes)
    = Inr (False, rt_old, ?h ?c, nodes') \<and> swapped (nm_node host) ?h g nodes' R ?A"
    using Suc.prems by (intro Suc.IH) auto
  then obtain nodes' where IH: "fold_result (insert_step host fs (split_bits k) True len)
      (rev (List.enumerate (Suc lvl) (map ?h ?ss))) (False, rt_old, ?h c, nodes)
    = Inr (False, rt_old, ?h ?c, nodes')" and sw: "swapped (nm_node host) ?h g nodes' R ?A" by blast
  have can: "canonical_tree ?c" using Suc.prems(3-5) by (auto simp: canonical_plug)
  have "\<exists>n. nm_node host (plug k lvl [Empty] ?c) = Some n
    \<and> insert_step host fs (split_bits k) True len (lvl, ?h Empty) (False, rt_old, ?h ?c, nodes')
      = Inr (False, rt_old, ?h (plug k lvl [Empty] ?c), nodes'(?h (plug k lvl [Empty] ?c) \<mapsto> n))"
    using Suc.prems(1,6) can by (intro insert_step_plain) simp_all
  then obtain n where n: "nm_node host (plug k lvl [Empty] ?c) = Some n"
    "insert_step host fs (split_bits k) True len (lvl, ?h Empty) (False, rt_old, ?h ?c, nodes')
      = Inr (False, rt_old, ?h (plug k lvl [Empty] ?c), nodes'(?h (plug k lvl [Empty] ?c) \<mapsto> n))" by blast
  have top: "plug k lvl [Empty] ?c = plug k lvl (replicate (Suc m) Empty @ [Leaf k' v']) c" by simp
  have sw': "swapped (nm_node host) ?h g (nodes'(?h (plug k lvl [Empty] ?c) \<mapsto> n)) R (insert (plug k lvl [Empty] ?c) ?A)"
    using Suc.prems(8-10) by (intro swapped_put_plug [OF sw n(1) Suc.prems(2)]) auto
  have list: "rev (List.enumerate lvl (map ?h (replicate (Suc m) Empty @ [Leaf k' v'])))
      = rev (List.enumerate (Suc lvl) (map ?h ?ss)) @ [(lvl, ?h Empty)]" by simp
  have nodes_eq: "A \<union> set (path_nodes k lvl (replicate (Suc m) Empty @ [Leaf k' v']) c)
      = insert (plug k lvl [Empty] ?c) ?A" by auto
  show ?case
    unfolding list nodes_eq fold_result_append IH and_then_simps
    using n(2) sw' unfolding top
    by (simp del: plug.simps tree_hash.simps path_nodes.simps replicate.simps)
qed

section \<open>What the storage represents\<close>

definition nm_inv :: "poseidon2_host \<Rightarrow> tree \<Rightarrow> nm_store \<Rightarrow> bool" where
  "nm_inv host t s \<longleftrightarrow>
     nm_admin s \<noteq> None \<and> nm_root s = Some (nm_hash host t)
     \<and> placed 0 t \<and> compact t \<and> canonical_tree t
     \<and> holds (nm_node host) (nm_hash host) (nm_nodes s) t \<and> (\<forall>u \<in> subtrees t. nm_hash host u \<noteq> 0)"

definition insert_touches :: "u256 \<Rightarrow> u256 \<Rightarrow> tree \<Rightarrow> tree set" where
  "insert_touches k v t = subtrees t \<union> subtrees (insert_tree k v t)"

lemma nm_inv_descend:
  assumes "nm_inv host t s" and "descend k 0 t = (ss, e)"
  shows "find_key_internal (nm_nodes s) k (split_bits k) (nm_hash host t) 0
      = Inr (found_at k (map (nm_hash host) ss) e)"
    "length ss \<le> 256" "plug k 0 ss e = t"
    "\<forall>u \<in> set ss. canonical_tree u" "canonical_tree e" "\<forall>u \<in> set ss. u \<noteq> Empty \<longrightarrow> u \<in> subtrees t"
    "ss \<noteq> [] \<Longrightarrow> last ss \<noteq> Empty \<or> e = Empty"
proof -
  have wf: "placed 0 t" "compact t" "canonical_tree t" using assms(1) by (simp_all add: nm_inv_def)
  show len: "length ss \<le> 256"
    using descend_depth [OF _ _ wf(1,2) assms(2), of 256] key_bit_beyond [of _ 256] unat_u256_less by auto
  show "find_key_internal (nm_nodes s) k (split_bits k) (nm_hash host t) 0
      = Inr (found_at k (map (nm_hash host) ss) e)"
    using assms len by (intro find_descends) (auto simp: nm_inv_def)
  show t: "plug k 0 ss e = t" by (rule plug_descend [OF assms(2)])
  show "\<forall>u \<in> set ss. canonical_tree u" "canonical_tree e"
    using wf(3) canonical_plug [of k 0 ss e] unfolding t by simp_all
  show "\<forall>u \<in> set ss. u \<noteq> Empty \<longrightarrow> u \<in> subtrees t"
    using subtrees_plug [of k 0 ss e] subtrees_self unfolding t by blast
  show "last ss \<noteq> Empty \<or> e = Empty" if "ss \<noteq> []"
    using that wf(2) compact_plug [of ss k 0 e] descend_end [OF assms(2)] unfolding t by auto
qed

lemma nm_insert_run:
  assumes host: "good_host host" and inv: "nm_inv host t s" and auth: "nm_admin s = Some admin" "auth admin"
    and can: "canonical k" "canonical v" and new: "k \<notin> keys t"
    and cf: "collision_free (nm_hash host) (insert_touches k v t)"
  shows "\<exists>nodes'. nm_insert_leaf host auth k v s
      = Inr (s\<lparr>nm_nodes := nodes', nm_root := Some (nm_hash host (insert_tree k v t)),
              nm_events := nm_events s @ [LeafInserted k v (nm_hash host (insert_tree k v t))]\<rparr>)
    \<and> swapped (nm_node host) (nm_hash host) (nm_nodes s) nodes' (old_path k t) (added_by_insert k v t)"
proof -
  let ?h = "nm_hash host" and ?T = "insert_touches k v t" and ?leaf = "Leaf k v"
  obtain ss e where d: "descend k 0 t = (ss, e)" by (cases "descend k 0 t")
  note f = nm_inv_descend [OF inv d]
  have wf: "placed 0 t" "compact t" and root: "nm_root s = Some (?h t)" using inv by (simp_all add: nm_inv_def)
  note nodes = insert_tree_nodes [OF wf new]
  have A: "added_by_insert k v t \<subseteq> ?T" and R: "old_path k t \<subseteq> ?T"
    using nodes(1) [of v] nodes(2) by (auto simp: insert_touches_def)
  have ins: "insert_tree k v t = plug k 0 (ss @ extension k (length ss) e) ?leaf"
    by (simp add: insert_tree_def d)
  have sibs: "k \<notin> keys e" "\<forall>u \<in> set ss. k \<notin> keys u"
    using new entries_plug [of k 0 ss e] unfolding f(3) by auto
  have leaf_in: "?leaf \<in> ?T" using A by (simp add: added_by_insert_def d)
  have hash: "hash_leaf host k v = Inr (?h ?leaf)" using hash_leaf_ok [OF host can] by simp
  have sw0: "swapped (nm_node host) ?h (nm_nodes s) ((nm_nodes s)(?h ?leaf \<mapsto> [1, k, v])) {} {?leaf}"
    using leaf_in by (intro swapped_put_plug [OF swapped_refl _ cf]) simp_all
  have sib_T: "\<forall>u \<in> set ss. u \<noteq> Empty \<longrightarrow> u \<in> ?T" using f(6) by (simp add: insert_touches_def)
  show ?thesis
  proof (cases e)
    case Empty
    have "\<exists>nodes'. fold_result
        (insert_step host ([] @ map ?h ss) (split_bits k) False (length ss))
        (rev (List.enumerate 0 (map ?h ss)))
        (ss \<noteq> [], ?h e, ?h ?leaf, (nm_nodes s)(?h ?leaf \<mapsto> [1, k, v]))
      = Inr (ss \<noteq> [] \<or> ss \<noteq> [], ?h (plug k 0 ss e), ?h (plug k 0 ss ?leaf), nodes')
      \<and> swapped (nm_node host) ?h (nm_nodes s) nodes' ({} \<union> set (path_nodes k 0 ss e))
          ({?leaf} \<union> set (path_nodes k 0 ss ?leaf))"
      using f(2,4,5) can sibs A R leaf_in sib_T sw0
      by (intro insert_climb [OF host cf]) (auto simp: added_by_insert_def old_path_def d Empty)
    then obtain nodes' where "fold_result
        (insert_step host (map ?h ss) (split_bits k) False (length ss))
        (rev (List.enumerate 0 (map ?h ss)))
        (ss \<noteq> [], 0, ?h ?leaf, (nm_nodes s)(?h ?leaf \<mapsto> [1, k, v]))
      = Inr (ss \<noteq> [], ?h t, ?h (insert_tree k v t), nodes')"
      "swapped (nm_node host) ?h (nm_nodes s) nodes' (old_path k t) (added_by_insert k v t)"
      by (auto simp: Empty ins added_by_insert_def old_path_def d f(3) [unfolded Empty]
          simp del: tree_hash.simps(2,3))
    then show ?thesis using auth root f(1) hash
      by (auto simp: nm_insert_leaf_def Let_def Empty simp del: tree_hash.simps)
  next
    case (Leaf k' v')
    have ne: "k' \<noteq> k" using sibs(1) Leaf by simp
    let ?m = "diverge k k' (length ss) - length ss"
    let ?ext = "replicate ?m Empty @ [Leaf k' v']"
    have way: "\<And>j. j < length ss \<Longrightarrow> key_bit k' j = key_bit k j"
      using wf(1) f(3) placed_plug [of 0 k ss e] by (simp add: Leaf same_way_def)
    have lt: "length ss + ?m < 256"
      using diverge_less [OF ne way f(2)] diverge_ge [of "length ss" k k'] by simp
    have ext: "extension k (length ss) e = ?ext" by (simp add: Leaf)
    let ?low = "plug k (length ss) ?ext ?leaf"
    have paths: "path_nodes k 0 (ss @ ?ext) ?leaf = path_nodes k 0 ss ?low @ path_nodes k (length ss) ?ext ?leaf"
      by (simp add: path_nodes_append)
    have can_e: "canonical k'" "canonical v'" using f(5) by (simp_all add: Leaf)
    have "\<exists>nodes'. fold_result (insert_step host (map ?h ss) (split_bits k) True (Suc (length ss + ?m)))
        (rev (List.enumerate (length ss) (map ?h ?ext)))
        (False, ?h e, ?h ?leaf, (nm_nodes s)(?h ?leaf \<mapsto> [1, k, v]))
      = Inr (False, ?h e, ?h ?low, nodes')
      \<and> swapped (nm_node host) ?h (nm_nodes s) nodes' {}
          ({?leaf} \<union> set (path_nodes k (length ss) ?ext ?leaf))"
      using can can_e lt A leaf_in sw0
      by (intro insert_extension [OF host cf]) (auto simp: added_by_insert_def d ext paths)
    then obtain nodes1 where low: "fold_result (insert_step host (map ?h ss) (split_bits k) True (Suc (length ss + ?m)))
        (rev (List.enumerate (length ss) (map ?h ?ext)))
        (False, ?h e, ?h ?leaf, (nm_nodes s)(?h ?leaf \<mapsto> [1, k, v]))
      = Inr (False, ?h e, ?h ?low, nodes1)"
      and sw1: "swapped (nm_node host) ?h (nm_nodes s) nodes1 {}
          ({?leaf} \<union> set (path_nodes k (length ss) ?ext ?leaf))" by blast
    have can_low: "canonical_tree ?low" using can can_e by (auto simp: canonical_plug)
    have key_low: "k \<in> keys ?low" by (rule plug_key) simp
    have "k \<in> keys ?leaf" by simp
    then have A_keys: "\<forall>p \<in> {?leaf} \<union> set (path_nodes k (length ss) ?ext ?leaf). k \<in> keys p"
      using path_nodes_key [of _ k "length ss" ?ext ?leaf k] by blast
    have "\<exists>nodes'. fold_result
        (insert_step host ([] @ map ?h ss) (split_bits k) True (Suc (length ss + ?m)))
        (rev (List.enumerate 0 (map ?h ss))) (False, ?h e, ?h ?low, nodes1)
      = Inr (False \<or> ss \<noteq> [], ?h (plug k 0 ss e), ?h (plug k 0 ss ?low), nodes')
      \<and> swapped (nm_node host) ?h (nm_nodes s) nodes' ({} \<union> set (path_nodes k 0 ss e))
          ({?leaf} \<union> set (path_nodes k (length ss) ?ext ?leaf) \<union> set (path_nodes k 0 ss ?low))"
    proof (rule insert_climb [OF host cf f(4,5) can_low key_low sibs])
      show "False \<or> ss = [] \<or> True \<and> last ss \<noteq> Empty" using f(7) Leaf by auto
      show "set (path_nodes k 0 ss e) \<subseteq> ?T" using R by (simp add: old_path_def d)
      show "set (path_nodes k 0 ss ?low) \<subseteq> ?T" "{?leaf} \<union> set (path_nodes k (length ss) ?ext ?leaf) \<subseteq> ?T"
        using A by (auto simp: added_by_insert_def d ext paths)
    qed (use f(2) sib_T A_keys sw1 in auto)
    moreover have "insert_tree k v t = plug k 0 ss ?low" by (simp only: ins ext plug_append add_0)
    moreover have "added_by_insert k v t
        = {?leaf} \<union> set (path_nodes k (length ss) ?ext ?leaf) \<union> set (path_nodes k 0 ss ?low)"
      unfolding added_by_insert_def d prod.case ext paths set_append by blast
    moreover have "old_path k t = set (path_nodes k 0 ss e)" by (simp add: old_path_def d)
    ultimately obtain nodes2 where up: "fold_result
        (insert_step host (map ?h ss) (split_bits k) True (Suc (length ss + ?m)))
        (rev (List.enumerate 0 (map ?h ss))) (False, ?h e, ?h ?low, nodes1)
      = Inr (ss \<noteq> [], ?h t, ?h (insert_tree k v t), nodes2)"
      and sw2: "swapped (nm_node host) ?h (nm_nodes s) nodes2 (old_path k t) (added_by_insert k v t)"
      unfolding f(3) append_Nil Un_empty_left by (simp only: simp_thms) blast
    have list: "rev (List.enumerate 0 (map ?h ss @ replicate ?m 0 @ [?h e]))
        = rev (List.enumerate (length ss) (map ?h ?ext)) @ rev (List.enumerate 0 (map ?h ss))"
      by (simp add: enumerate_append_eq Leaf del: tree_hash.simps) (simp add: Leaf)
    have run: "fold_result (insert_step host (map ?h ss) (split_bits k) True (Suc (length ss + ?m)))
        (rev (List.enumerate 0 (map ?h ss @ replicate ?m 0 @ [?h e])))
        (False, ?h e, ?h ?leaf, (nm_nodes s)(?h ?leaf \<mapsto> [1, k, v]))
      = Inr (ss \<noteq> [], ?h t, ?h (insert_tree k v t), nodes2)"
      unfolding list fold_result_append low and_then_simps by (rule up)
    have old: "hash_leaf host k' v' = Inr (?h e)" using hash_leaf_ok [OF host can_e] by (simp add: Leaf)
    have found: "found_at k (map ?h ss) e = \<lparr>fr_found = False, fr_siblings = map ?h ss, fr_found_value = 0,
        fr_not_found_key = k', fr_not_found_value = v', fr_is_old0 = False\<rparr>" using ne by (simp add: Leaf)
    have "nm_insert_leaf host auth k v s
      = Inr (s\<lparr>nm_nodes := nodes2, nm_root := Some (?h (insert_tree k v t)),
              nm_events := nm_events s @ [LeafInserted k v (?h (insert_tree k v t))]\<rparr>)"
      using auth f(1) hash old run extend_siblings_run [OF f(2), of k' k "map ?h ss"]
      by (simp add: nm_insert_leaf_def root Let_def found del: tree_hash.simps)
    then show ?thesis using sw2 by blast
  qed (use descend_end [OF d] in auto)
qed

section \<open>Deleting and proving absence\<close>

lemma delete_climb:
  assumes host: "good_host host" and cf: "collision_free (nm_hash host) T"
    and can: "\<forall>s \<in> set ss. canonical_tree s" "canonical_tree c" "canonical_tree base"
    and keys: "k \<in> keys c" "k \<notin> keys base" "\<forall>s \<in> set ss. k \<notin> keys s"
    and depth: "lvl + length ss \<le> 256" and pre: "length pre = lvl"
    and T: "set (path_nodes k lvl ss c) \<subseteq> T" "set (path_nodes k lvl (strip ss) base) \<subseteq> T" "R \<subseteq> T"
      "\<forall>s \<in> set ss. s \<noteq> Empty \<longrightarrow> s \<in> T"
    and sw: "swapped (nm_node host) (nm_hash host) g nodes R {}"
  shows "\<exists>nodes'. fold_result
      (delete_step host (split_bits k) (pre @ map (nm_hash host) ss)) [0..<length ss]
      (False, nm_hash host c, nm_hash host base, nodes)
    = Inr (strip ss \<noteq> [], nm_hash host (plug k lvl ss c), nm_hash host (plug k lvl (strip ss) base), nodes')
    \<and> swapped (nm_node host) (nm_hash host) g nodes' (R \<union> set (path_nodes k lvl ss c))
        (set (path_nodes k lvl (strip ss) base))"
  using assms
proof (induction ss arbitrary: lvl pre)
  case Nil
  then show ?case by simp
next
  case (Cons s ss)
  let ?h = "nm_hash host"
  let ?old = "plug k (Suc lvl) ss c" and ?new = "plug k (Suc lvl) (strip ss) base"
  let ?R = "R \<union> set (path_nodes k (Suc lvl) ss c)" and ?A = "set (path_nodes k (Suc lvl) (strip ss) base)"
  have A_T: "?A \<subseteq> T" using Cons.prems(12) by (cases "strip (s # ss) = []") (auto split: if_splits)
  have "\<exists>nodes'. fold_result
      (delete_step host (split_bits k) ((pre @ [?h s]) @ map ?h ss)) [0..<length ss]
      (False, ?h c, ?h base, nodes)
    = Inr (strip ss \<noteq> [], ?h ?old, ?h ?new, nodes') \<and> swapped (nm_node host) ?h g nodes' ?R ?A"
    using Cons.prems A_T by (intro Cons.IH) auto
  then obtain nodes' where IH: "fold_result
      (delete_step host (split_bits k) (pre @ map ?h (s # ss))) [0..<length ss]
      (False, ?h c, ?h base, nodes)
    = Inr (strip ss \<noteq> [], ?h ?old, ?h ?new, nodes')"
    and sw: "swapped (nm_node host) ?h g nodes' ?R ?A"
    by (auto simp del: plug.simps)
  have lvl: "lvl < 256" using Cons.prems(9) by simp
  have strip_sub: "set (strip ss) \<subseteq> set ss" using strip_split [of ss] by (metis Un_upper1 set_append)
  have can_new: "canonical_tree ?new" using Cons.prems(3,5) strip_sub by (auto simp: canonical_plug)
  have up: "hash_up host (key_bit k lvl) (?h s) (?h ?old) = Inr (?h (plug k lvl (s # ss) c))"
    "hash_up host (key_bit k lvl) (?h s) (?h ?new) = Inr (?h (plug k lvl (s # strip ss) base))"
    using hash_up_ok [OF host, of s "?old" k lvl] hash_up_ok [OF host, of s "?new" k lvl] Cons.prems(3-5) can_new
    by (simp_all add: canonical_plug del: tree_hash.simps)
  have zero: "?h s \<noteq> 0 \<longleftrightarrow> s \<noteq> Empty"
    using collision_free_nonzero [OF cf] Cons.prems(14) by (cases "s = Empty") auto
  have "k \<notin> keys ?new" using Cons.prems(7,8) strip_sub by (auto simp: entries_plug)
  then have old_A: "plug k lvl (s # ss) c \<notin> ?A"
    using subtrees_plug [of k "Suc lvl" "strip ss" base] plug_key [OF Cons.prems(6), of lvl "s # ss"]
      subtrees_entries [of "plug k lvl (s # ss) c" "?new"] by blast
  have old_T: "plug k lvl (s # ss) c \<in> T" using Cons.prems(11) by simp
  let ?nodes1 = "nodes'(?h (plug k lvl (s # ss) c) := None)"
  have R_eq: "R \<union> set (path_nodes k lvl (s # ss) c) = insert (plug k lvl (s # ss) c) ?R" by auto
  have sw1: "swapped (nm_node host) ?h g ?nodes1 (insert (plug k lvl (s # ss) c) ?R) ?A"
    by (rule nm_storage.swapped_del [OF sw old_A cf old_T A_T])
  have at: "(pre @ ?h s # map ?h ss) ! lvl = ?h s" "lvl < length (pre @ ?h s # map ?h ss)"
    "length (pre @ map ?h (s # ss)) - 1 - length ss = lvl"
    using Cons.prems(10) by auto
  show ?case
  proof (cases "strip (s # ss) = []")
    case True
    then have "s = Empty" "strip ss = []" by (auto split: if_splits)
    then have "delete_step host (split_bits k) (pre @ map ?h (s # ss)) (length ss)
        (strip ss \<noteq> [], ?h ?old, ?h ?new, nodes')
      = Inr (False, ?h (plug k lvl (s # ss) c), ?h base, ?nodes1)"
      using lvl up(1) at by (simp add: delete_step_def Let_def del: plug.simps(2) tree_hash.simps(2,3))
    then show ?thesis using IH sw1 [folded R_eq] \<open>s = Empty\<close> \<open>strip ss = []\<close>
      by (simp add: fold_result_append del: plug.simps(2) tree_hash.simps path_nodes.simps(2))
  next
    case False
    then have st: "strip (s # ss) = s # strip ss" "strip ss = [] \<longrightarrow> s \<noteq> Empty" by (auto split: if_splits)
    obtain n where n: "nm_node host (plug k lvl (s # strip ss) base) = Some n"
      "n = (if key_bit k lvl then [?h s, ?h ?new] else [?h ?new, ?h s])"
      by simp
    have new_T: "plug k lvl (s # strip ss) base \<in> T" using Cons.prems(12) unfolding st(1) by simp
    have sw2: "swapped (nm_node host) ?h g (?nodes1(?h (plug k lvl (s # strip ss) base) \<mapsto> n))
        (insert (plug k lvl (s # ss) c) ?R) (insert (plug k lvl (s # strip ss) base) ?A)"
      using Cons.prems(11,13) A_T by (intro swapped_put_plug [OF sw1 n(1) cf new_T]) auto
    have "delete_step host (split_bits k) (pre @ map ?h (s # ss)) (length ss)
        (strip ss \<noteq> [], ?h ?old, ?h ?new, nodes')
      = Inr (True, ?h (plug k lvl (s # ss) c), ?h (plug k lvl (s # strip ss) base),
          ?nodes1(?h (plug k lvl (s # strip ss) base) \<mapsto> n))"
      using lvl up at zero st(2) n(2)
      by (cases "key_bit k lvl")
        (simp_all add: delete_step_def Let_def hash_up_def del: plug.simps(2) tree_hash.simps(2,3))
    moreover have "set (path_nodes k lvl (s # strip ss) base) = insert (plug k lvl (s # strip ss) base) ?A"
      by simp
    ultimately show ?thesis using IH sw2
      by (simp add: fold_result_append R_eq st(1) del: plug.simps(2) tree_hash.simps path_nodes.simps(2) strip.simps)
  qed
qed

definition delete_touches :: "u256 \<Rightarrow> u256 \<Rightarrow> tree \<Rightarrow> tree set" where
  "delete_touches k v t = subtrees t \<union> subtrees (delete_tree k t) \<union> removed_by_delete k v t"

lemma nm_delete_run:
  assumes host: "good_host host" and inv: "nm_inv host t s" and auth: "nm_admin s = Some admin" "auth admin"
    and mem: "(k, v) \<in> entries t" and cf: "collision_free (nm_hash host) (delete_touches k v t)"
  shows "\<exists>nodes'. delete_leaf host auth k s
      = Inr (s\<lparr>nm_nodes := nodes', nm_root := Some (nm_hash host (delete_tree k t)),
              nm_events := nm_events s @ [LeafDeleted k (nm_hash host (delete_tree k t))]\<rparr>)
    \<and> swapped (nm_node host) (nm_hash host) (nm_nodes s) nodes' (removed_by_delete k v t) (added_by_delete k t)"
proof -
  let ?h = "nm_hash host" and ?T = "delete_touches k v t" and ?leaf = "Leaf k v"
  have wf: "placed 0 t" "compact t" and root: "nm_root s = Some (?h t)"
    and hold: "holds (nm_node host) ?h (nm_nodes s) t" using inv by (simp_all add: nm_inv_def)
  obtain ss where d: "descend k 0 t = (ss, ?leaf)"
    using descend_mem [OF wf(1), of k v] mem by (cases "descend k 0 t") auto
  note f = nm_inv_descend [OF inv d]
  obtain S b where p: "promoted ss = (S, b)" by (cases "promoted ss")
  have R: "removed_by_delete k v t = insert ?leaf (set (path_nodes k 0 S ?leaf))"
    and A: "added_by_delete k t = set (path_nodes k 0 (strip S) b)"
    and del: "delete_tree k t = plug k 0 (strip S) b"
    by (simp_all add: removed_by_delete_def added_by_delete_def delete_tree_def d p)
  have sibs: "\<forall>u \<in> set ss. k \<notin> keys u"
    using siblings_ok_apart [of k 0 ss] wf(1) placed_plug [of 0 k ss ?leaf] unfolding f(3) by blast
  have can: "canonical k" "canonical v" using f(5) by simp_all
  have hash: "hash_leaf host k v = Inr (?h ?leaf)" using hash_leaf_ok [OF host can] by simp
  have leaf_T: "?leaf \<in> ?T" by (simp add: delete_touches_def R)
  let ?nodes0 = "(nm_nodes s)(?h ?leaf := None)"
  have sw0: "swapped (nm_node host) ?h (nm_nodes s) ?nodes0 {?leaf} {}"
    using nm_storage.swapped_del [OF swapped_refl _ cf leaf_T] by simp
  have base: "promote ?nodes0 (map ?h ss) = Inr (?h b, map ?h S) \<and> set S \<subseteq> set ss
      \<and> length S \<le> length ss \<and> canonical_tree b \<and> k \<notin> keys b"
    using wf(2) [folded f(3)]
  proof (cases rule: promoted_cases)
    case alone
    then show ?thesis using p by (simp add: promote_def)
  next
    case (leaf k' v')
    have last: "last ss \<in> set ss" using leaf(1) by simp
    then have "k' \<noteq> k" using sibs leaf(2) by force
    have "last ss \<in> subtrees t" using f(6) last leaf(2) by fastforce
    then have "nm_nodes s (?h (last ss)) = Some [1, k', v']" "?h (last ss) \<noteq> ?h ?leaf"
      using hold collision_free_eq [OF cf _ leaf_T, of "last ss"] leaf(2) \<open>k' \<noteq> k\<close>
      by (auto simp: holds_def delete_touches_def)
    then have "promote ?nodes0 (map ?h ss) = Inr (?h (Leaf k' v'), map ?h (butlast ss))"
      using leaf(1) by (simp add: promote_def last_map map_butlast leaf(2))
    moreover have "S = butlast ss" "b = Leaf k' v'" using p leaf(3) by simp_all
    moreover have "canonical_tree (Leaf k' v')" using f(4) last unfolding leaf(2) by blast
    ultimately show ?thesis using \<open>k' \<noteq> k\<close> by (auto dest: in_set_butlastD)
  next
    case (inner l r)
    have last: "last ss \<in> set ss" using inner(1) by simp
    then have "last ss \<in> subtrees t" using f(6) inner(2) by fastforce
    then have "nm_nodes s (?h (last ss)) = Some [?h l, ?h r]" "?h (last ss) \<noteq> ?h ?leaf"
      using hold collision_free_eq [OF cf _ leaf_T, of "last ss"] inner(2)
      by (auto simp: holds_def delete_touches_def)
    then show ?thesis using p inner
      by (auto simp: promote_def last_map)
  qed
  have climb: "\<exists>nodes'. fold_result
      (delete_step host (split_bits k) ([] @ map ?h S)) [0..<length S] (False, ?h ?leaf, ?h b, ?nodes0)
    = Inr (strip S \<noteq> [], ?h (plug k 0 S ?leaf), ?h (plug k 0 (strip S) b), nodes')
    \<and> swapped (nm_node host) ?h (nm_nodes s) nodes' ({?leaf} \<union> set (path_nodes k 0 S ?leaf))
        (set (path_nodes k 0 (strip S) b))"
  proof (rule delete_climb [OF host cf])
    have sub: "u \<in> set ss" if "u \<in> set S" for u using that base by blast
    show "\<forall>u \<in> set S. canonical_tree u" "\<forall>u \<in> set S. k \<notin> keys u" using sub f(4) sibs by blast+
    show "\<forall>u \<in> set S. u \<noteq> Empty \<longrightarrow> u \<in> ?T" using sub f(6) unfolding delete_touches_def by blast
    show "set (path_nodes k 0 (strip S) b) \<subseteq> ?T" "set (path_nodes k 0 S ?leaf) \<subseteq> ?T" "{?leaf} \<subseteq> ?T"
      using delete_tree_nodes(2) [OF wf mem] unfolding delete_touches_def A R by blast+
    show "0 + length S \<le> 256" using base f(2) by simp
    show "k \<in> keys ?leaf" by simp
    show "canonical_tree ?leaf" by (rule f(5))
    show "canonical_tree b" "k \<notin> keys b" using base by blast+
    show "swapped (nm_node host) ?h (nm_nodes s) ?nodes0 {?leaf} {}" by (rule sw0)
  qed simp
  then obtain nodes' where run: "fold_result
      (delete_step host (split_bits k) (map ?h S)) [0..<length S] (False, ?h ?leaf, ?h b, ?nodes0)
    = Inr (strip S \<noteq> [], ?h (plug k 0 S ?leaf), ?h (delete_tree k t), nodes')"
    and sw: "swapped (nm_node host) ?h (nm_nodes s) nodes' (removed_by_delete k v t) (added_by_delete k t)"
    unfolding R A del append_Nil insert_is_Un [of _ "set _"] by blast
  have "delete_leaf host auth k s
      = Inr (s\<lparr>nm_nodes := nodes', nm_root := Some (?h (delete_tree k t)),
              nm_events := nm_events s @ [LeafDeleted k (?h (delete_tree k t))]\<rparr>)"
    using auth f(1) hash base run by (simp add: delete_leaf_def root Let_def del: tree_hash.simps)
  then show ?thesis using sw by blast
qed

end
