(* ===== verification/NonMembershipHistory.thy ===== *)
theory NonMembershipHistory
  imports AspNonMembership
begin

text \<open>
  What the non-membership contract does over its life: the outcome of each call in a state that
  stores a tree, histories of calls as maps of blocked keys, and the properties. The witnesses run
  a short history with a host whose hashes are small numbers.
\<close>

section \<open>One call\<close>

lemma nm_inv_insert:
  assumes host: "good_host host" and inv: "nm_inv host t s" and auth: "nm_admin s = Some admin" "auth admin"
    and can: "canonical k" "canonical v" and new: "k \<notin> keys t"
    and cf: "collision_free (nm_hash host) (insert_touches k v t)"
  shows "\<exists>s'. nm_insert_leaf host auth k v s = Inr s' \<and> nm_inv host (insert_tree k v t) s'
    \<and> nm_admin s' = nm_admin s
    \<and> nm_events s' = nm_events s @ [LeafInserted k v (nm_hash host (insert_tree k v t))]
    \<and> (nothing_else (nm_hash host) (nm_nodes s) t
        \<longrightarrow> nothing_else (nm_hash host) (nm_nodes s') (insert_tree k v t))"
proof -
  let ?h = "nm_hash host" and ?t = "insert_tree k v t"
  have wf: "placed 0 t" "compact t" and can_t: "canonical_tree t"
    and hold: "holds (nm_node host) ?h (nm_nodes s) t" using inv by (simp_all add: nm_inv_def)
  obtain nodes' where run: "nm_insert_leaf host auth k v s
      = Inr (s\<lparr>nm_nodes := nodes', nm_root := Some (?h ?t),
              nm_events := nm_events s @ [LeafInserted k v (?h ?t)]\<rparr>)"
    and sw: "swapped (nm_node host) ?h (nm_nodes s) nodes' (old_path k t) (added_by_insert k v t)"
    using nm_insert_run [where auth = auth and admin = admin, OF assms] by blast
  note nodes = insert_tree_nodes [OF wf new]
  have ok: "placed 0 ?t" "compact ?t" "entries ?t = insert (k, v) (entries t)"
    using insert_tree_ok [OF wf new] by simp_all
  have hold': "holds (nm_node host) ?h nodes' ?t"
    using nodes(1) [of v] nodes(2)
    by (intro holds_swapped [OF hold sw _ _ cf]) (auto simp: insert_touches_def)
  have "nothing_else ?h nodes' ?t" if "nothing_else ?h (nm_nodes s) t"
    using nodes(1) [of v] by (intro nothing_else_swapped [OF that sw]) auto
  moreover have "canonical_tree ?t" using can can_t by (simp add: canonical_tree_def ok(3))
  moreover have "\<forall>u \<in> subtrees ?t. ?h u \<noteq> 0"
    using collision_free_nonzero [OF cf] by (simp add: insert_touches_def)
  ultimately show ?thesis using run hold' ok auth by (simp add: nm_inv_def)
qed

lemma nm_inv_delete:
  assumes host: "good_host host" and inv: "nm_inv host t s" and auth: "nm_admin s = Some admin" "auth admin"
    and mem: "(k, v) \<in> entries t" and cf: "collision_free (nm_hash host) (delete_touches k v t)"
  shows "\<exists>s'. delete_leaf host auth k s = Inr s' \<and> nm_inv host (delete_tree k t) s'
    \<and> nm_admin s' = nm_admin s
    \<and> nm_events s' = nm_events s @ [LeafDeleted k (nm_hash host (delete_tree k t))]"
proof -
  let ?h = "nm_hash host" and ?t = "delete_tree k t"
  have wf: "placed 0 t" "compact t" and can_t: "canonical_tree t"
    and hold: "holds (nm_node host) ?h (nm_nodes s) t" using inv by (simp_all add: nm_inv_def)
  obtain nodes' where run: "delete_leaf host auth k s
      = Inr (s\<lparr>nm_nodes := nodes', nm_root := Some (?h ?t),
              nm_events := nm_events s @ [LeafDeleted k (?h ?t)]\<rparr>)"
    and sw: "swapped (nm_node host) ?h (nm_nodes s) nodes' (removed_by_delete k v t) (added_by_delete k t)"
    using nm_delete_run [where auth = auth and admin = admin, OF assms] by blast
  note nodes = delete_tree_nodes [OF wf mem]
  have ok: "placed 0 ?t" "compact ?t" "entries ?t = {e \<in> entries t. fst e \<noteq> k}"
    using delete_tree_ok [OF wf mem] by simp_all
  have hold': "holds (nm_node host) ?h nodes' ?t"
    using nodes
    by (intro holds_swapped [OF hold sw _ _ cf]) (auto simp: delete_touches_def)
  have "canonical_tree ?t" using can_t by (auto simp: canonical_tree_def ok(3))
  moreover have "\<forall>u \<in> subtrees ?t. ?h u \<noteq> 0"
    using collision_free_nonzero [OF cf] by (simp add: delete_touches_def)
  ultimately show ?thesis using run hold' ok auth by (simp add: nm_inv_def)
qed

lemma find_key_of_tree:
  assumes "nm_inv host t s" and "descend k 0 t = (ss, e)"
  shows "find_key k s = Inr (found_at k (map (nm_hash host) ss) e)"
  using nm_inv_descend(1) [OF assms] assms(1) by (simp add: find_key_def nm_inv_def)

lemma in_keys_descend:
  assumes "nm_inv host t s" and "descend k 0 t = (ss, e)"
  shows "k \<in> keys t \<longleftrightarrow> (\<exists>v. e = Leaf k v)"
  using descend_mem [of 0 t k] assms by (force simp: nm_inv_def)

text \<open>A call that the contract rejects.\<close>

lemma nm_insert_rejects:
  assumes host: "good_host host" and inv: "nm_inv host t s"
  shows "nm_admin s = Some admin \<Longrightarrow> \<not> auth admin \<Longrightarrow> nm_insert_leaf host auth k v s = Inl Trap"
    "nm_admin s = Some admin \<Longrightarrow> auth admin \<Longrightarrow> k \<in> keys t
      \<Longrightarrow> nm_insert_leaf host auth k v s = Inl (Err KeyAlreadyExists)"
    "nm_admin s = Some admin \<Longrightarrow> auth admin \<Longrightarrow> k \<notin> keys t \<Longrightarrow> \<not> canonical k \<or> \<not> canonical v
      \<Longrightarrow> nm_insert_leaf host auth k v s = Inl Trap"
proof -
  obtain ss e where d: "descend k 0 t = (ss, e)" by (cases "descend k 0 t")
  note f = nm_inv_descend [OF inv d]
  have root: "nm_root s = Some (nm_hash host t)" using inv by (simp add: nm_inv_def)
  show "nm_insert_leaf host auth k v s = Inl Trap" if "nm_admin s = Some admin" "\<not> auth admin"
    using that by (simp add: nm_insert_leaf_def)
  show "nm_insert_leaf host auth k v s = Inl (Err KeyAlreadyExists)"
    if "nm_admin s = Some admin" "auth admin" "k \<in> keys t"
    using that in_keys_descend [OF inv d] f(1) root by (auto simp: nm_insert_leaf_def)
  show "nm_insert_leaf host auth k v s = Inl Trap"
    if adm: "nm_admin s = Some admin" "auth admin" and k: "k \<notin> keys t" and nc: "\<not> canonical k \<or> \<not> canonical v"
  proof -
    have trap: "hash_leaf host k v = Inl Trap"
      using nc by (auto simp: hash_leaf_def poseidon2_hash2_def canonical_def not_less)
    show ?thesis
    proof (cases e)
      case Empty
      then show ?thesis using adm f(1) root trap by (simp add: nm_insert_leaf_def Let_def)
    next
      case (Leaf k' v')
      have "k' \<noteq> k" using k in_keys_descend [OF inv d] Leaf by auto
      moreover have "hash_leaf host k' v' = Inr (leaf_value host k' v')"
        using hash_leaf_ok [OF host] f(5) Leaf by simp
      ultimately show ?thesis
        using adm f(1) root trap extend_siblings_run [OF f(2), of k' k "map (nm_hash host) ss"] Leaf
        by (simp add: nm_insert_leaf_def Let_def)
    qed (use descend_end [OF d] in auto)
  qed
qed

lemma nm_delete_rejects:
  assumes inv: "nm_inv host t s" and adm: "nm_admin s = Some admin"
  shows "\<not> auth admin \<Longrightarrow> delete_leaf host auth k s = Inl Trap"
    "auth admin \<Longrightarrow> k \<notin> keys t \<Longrightarrow> delete_leaf host auth k s = Inl (Err KeyNotFound)"
proof -
  obtain ss e where d: "descend k 0 t = (ss, e)" by (cases "descend k 0 t")
  note f = nm_inv_descend [OF inv d]
  have root: "nm_root s = Some (nm_hash host t)" using inv by (simp add: nm_inv_def)
  show "delete_leaf host auth k s = Inl Trap" if "\<not> auth admin"
    using that adm by (simp add: delete_leaf_def)
  show "delete_leaf host auth k s = Inl (Err KeyNotFound)" if "auth admin" "k \<notin> keys t"
    using that adm in_keys_descend [OF inv d] f(1) root descend_end [OF d]
    by (auto simp: delete_leaf_def Let_def)
qed

section \<open>Histories\<close>

datatype nm_call = InsertNm u256 u256 | DeleteNm u256 | UpdateNmAdmin address

fun nm_exec :: "poseidon2_host \<Rightarrow> auths \<times> nm_call \<Rightarrow> nm_store \<Rightarrow> (nm_error, nm_store) result" where
  "nm_exec host (auth, InsertNm k v) s = nm_insert_leaf host auth k v s"
| "nm_exec host (auth, DeleteNm k) s = delete_leaf host auth k s"
| "nm_exec host (auth, UpdateNmAdmin a) s = nm_update_admin auth a s"

text \<open>The calls of a history that succeeded, in order; the others leave no trace.\<close>

definition nm_run ::
  "poseidon2_host \<Rightarrow> (auths \<times> nm_call) list \<Rightarrow> nm_store \<Rightarrow> (nm_error, nm_store) result" where
  "nm_run host calls s = fold_result (nm_exec host) calls s"

fun blocked_after :: "nm_call \<Rightarrow> (u256 \<rightharpoonup> u256) \<Rightarrow> (u256 \<rightharpoonup> u256)" where
  "blocked_after (InsertNm k v) m = m(k \<mapsto> v)"
| "blocked_after (DeleteNm k) m = m(k := None)"
| "blocked_after (UpdateNmAdmin a) m = m"

definition blocked :: "(auths \<times> nm_call) list \<Rightarrow> (u256 \<rightharpoonup> u256)" where
  "blocked calls = fold (\<lambda>(_, c). blocked_after c) calls Map.empty"

fun tree_after :: "nm_call \<Rightarrow> tree \<Rightarrow> tree" where
  "tree_after (InsertNm k v) t = insert_tree k v t"
| "tree_after (DeleteNm k) t = delete_tree k t"
| "tree_after (UpdateNmAdmin a) t = t"

fun touches :: "nm_call \<Rightarrow> tree \<Rightarrow> tree set" where
  "touches (InsertNm k v) t = insert_touches k v t"
| "touches (DeleteNm k) t =
     (case snd (descend k 0 t) of Leaf k' v \<Rightarrow> delete_touches k v t | _ \<Rightarrow> subtrees t)"
| "touches (UpdateNmAdmin a) t = {}"

text \<open>No two of the nodes that a call of the history touches have the same hash, and none hashes to zero.\<close>

fun no_collisions :: "poseidon2_host \<Rightarrow> (auths \<times> nm_call) list \<Rightarrow> tree \<Rightarrow> bool" where
  "no_collisions host [] t \<longleftrightarrow> True"
| "no_collisions host ((auth, c) # calls) t \<longleftrightarrow>
     collision_free (nm_hash host) (touches c t) \<and> no_collisions host calls (tree_after c t)"

lemma nm_exec_tree:
  assumes host: "good_host host" and inv: "nm_inv host t s" and ok: "nm_exec host (auth, c) s = Inr s'"
    and cf: "collision_free (nm_hash host) (touches c t)" and m: "entries t = Map.graph m"
  shows "nm_inv host (tree_after c t) s' \<and> entries (tree_after c t) = Map.graph (blocked_after c m)"
proof -
  obtain admin where adm: "nm_admin s = Some admin" using inv by (auto simp: nm_inv_def)
  have wf: "placed 0 t" "compact t" using inv by (simp_all add: nm_inv_def)
  show ?thesis
  proof (cases c)
    case (InsertNm k v)
    have run: "nm_insert_leaf host auth k v s = Inr s'" using ok InsertNm by simp
    note no = nm_insert_rejects [OF host inv, of admin auth k v]
    have auth: "auth admin" and new: "k \<notin> keys t" and can: "canonical k" "canonical v"
      using no adm run by fastforce+
    have "nm_inv host (insert_tree k v t) s'"
      using nm_inv_insert [where auth = auth and admin = admin, OF host inv adm auth can new] cf run by (auto simp: InsertNm)
    moreover have "m k = None" using new m by (force simp: Map.graph_def)
    then have "insert (k, v) (Map.graph m) = Map.graph (m(k \<mapsto> v))"
      by (auto simp: Map.graph_def split: if_splits)
    ultimately show ?thesis using insert_tree_ok [OF wf new, of v] m by (simp add: InsertNm)
  next
    case (DeleteNm k)
    have run: "delete_leaf host auth k s = Inr s'" using ok DeleteNm by simp
    note no = nm_delete_rejects [OF inv adm, of auth k]
    have auth: "auth admin" and old: "k \<in> keys t" using no run by fastforce+
    then obtain v where mem: "(k, v) \<in> entries t" by auto
    have "snd (descend k 0 t) = Leaf k v" using descend_mem [OF wf(1)] mem by blast
    then have "collision_free (nm_hash host) (delete_touches k v t)" using cf by (simp add: DeleteNm)
    then have "nm_inv host (delete_tree k t) s'"
      using nm_inv_delete [where auth = auth and admin = admin, OF host inv adm auth mem] run by auto
    moreover have "{e \<in> Map.graph m. fst e \<noteq> k} = Map.graph (m(k := None))"
      by (auto simp: Map.graph_def split: if_splits)
    ultimately show ?thesis using delete_tree_ok [OF wf mem] m by (simp add: DeleteNm)
  next
    case (UpdateNmAdmin a)
    then show ?thesis using ok inv m
      by (auto simp: nm_update_admin_def nm_gate.update_ok put_nm_admin_def nm_inv_def)
  qed
qed

lemma nm_run_tree:
  assumes host: "good_host host"
  shows "nm_inv host t s \<Longrightarrow> entries t = Map.graph m \<Longrightarrow> nm_run host calls s = Inr s'
    \<Longrightarrow> no_collisions host calls t
    \<Longrightarrow> \<exists>t'. nm_inv host t' s' \<and> entries t' = Map.graph (fold (\<lambda>(_, c). blocked_after c) calls m)"
proof (induction calls arbitrary: t s m)
  case Nil
  then show ?case by (auto simp: nm_run_def)
next
  case (Cons call calls)
  obtain auth c where call: "call = (auth, c)" by (cases call)
  obtain s1 where s1: "nm_exec host (auth, c) s = Inr s1" "nm_run host calls s1 = Inr s'"
    using Cons.prems(3) by (auto simp: nm_run_def call result_simps)
  have cf: "collision_free (nm_hash host) (touches c t)" "no_collisions host calls (tree_after c t)"
    using Cons.prems(4) by (simp_all add: call)
  show ?case
    using nm_exec_tree [OF host Cons.prems(1) s1(1) cf(1) Cons.prems(2)] Cons.IH [OF _ _ s1(2) cf(2)]
    unfolding call by simp
qed

lemma nm_deployed:
  assumes "nm_constructor admin empty_nm_store = Inr s"
  shows "nm_inv host Empty s" "entries Empty = Map.graph Map.empty"
  using assms by (auto simp: nm_constructor_def empty_nm_store_def nm_inv_def holds_def Map.graph_def)

lemma nm_history_tree:
  assumes "good_host host" and "nm_constructor admin empty_nm_store = Inr s0"
    and "nm_run host calls s0 = Inr s" and "no_collisions host calls Empty"
  shows "\<exists>t. nm_inv host t s \<and> entries t = Map.graph (blocked calls)"
  using nm_run_tree [OF assms(1) nm_deployed [OF assms(2)] assms(3,4)] by (simp add: blocked_def)


text \<open>Histories in which every call is authorised and sensible succeed.\<close>

fun admissible :: "address \<Rightarrow> (auths \<times> nm_call) list \<Rightarrow> (u256 \<rightharpoonup> u256) \<Rightarrow> bool" where
  "admissible admin [] m \<longleftrightarrow> True"
| "admissible admin ((auth, InsertNm k v) # calls) m \<longleftrightarrow>
     auth admin \<and> m k = None \<and> canonical k \<and> canonical v \<and> admissible admin calls (m(k \<mapsto> v))"
| "admissible admin ((auth, DeleteNm k) # calls) m \<longleftrightarrow>
     auth admin \<and> m k \<noteq> None \<and> admissible admin calls (m(k := None))"
| "admissible admin ((auth, UpdateNmAdmin a) # calls) m \<longleftrightarrow> auth admin \<and> admissible a calls m"

lemma nm_run_succeeds:
  assumes host: "good_host host"
  shows "nm_inv host t s \<Longrightarrow> entries t = Map.graph m \<Longrightarrow> nm_admin s = Some admin
    \<Longrightarrow> admissible admin calls m \<Longrightarrow> no_collisions host calls t
    \<Longrightarrow> \<exists>s'. nm_run host calls s = Inr s'"
proof (induction calls arbitrary: t s m admin)
  case Nil
  then show ?case by (simp add: nm_run_def)
next
  case (Cons call calls)
  obtain auth c where call: "call = (auth, c)" by (cases call)
  have cf: "collision_free (nm_hash host) (touches c t)" "no_collisions host calls (tree_after c t)"
    using Cons.prems(5) by (simp_all add: call)
  have wf: "placed 0 t" using Cons.prems(1) by (simp add: nm_inv_def)
  have keys: "k \<in> keys t \<longleftrightarrow> m k \<noteq> None" for k
    using Cons.prems(2) by (force simp: Map.graph_def)
  have "\<exists>s1 admin'. nm_exec host (auth, c) s = Inr s1 \<and> nm_admin s1 = Some admin'
      \<and> admissible admin' calls (blocked_after c m)"
  proof (cases c)
    case (InsertNm k v)
    then have ok: "auth admin" "canonical k" "canonical v" "k \<notin> keys t"
      and rest: "admissible admin calls (m(k \<mapsto> v))"
      using Cons.prems(4) keys by (simp_all add: call)
    show ?thesis
      using nm_inv_insert [where auth = auth and admin = admin, OF host Cons.prems(1,3) ok] cf(1) rest
        Cons.prems(3) by (auto simp: InsertNm)
  next
    case (DeleteNm k)
    then have ok: "auth admin" and rest: "admissible admin calls (m(k := None))" and "k \<in> keys t"
      using Cons.prems(4) keys by (simp_all add: call)
    then obtain v where mem: "(k, v) \<in> entries t" by auto
    have "snd (descend k 0 t) = Leaf k v" using descend_mem [OF wf] mem by blast
    then show ?thesis
      using nm_inv_delete [where auth = auth and admin = admin, OF host Cons.prems(1,3) ok mem] cf(1) rest
        Cons.prems(3) by (auto simp: DeleteNm)
  next
    case (UpdateNmAdmin a)
    then show ?thesis using Cons.prems(3,4)
      by (auto simp: call nm_update_admin_def nm_gate.update_ok put_nm_admin_def)
  qed
  then obtain s1 admin' where s1: "nm_exec host (auth, c) s = Inr s1" "nm_admin s1 = Some admin'"
    "admissible admin' calls (blocked_after c m)" by blast
  note after = nm_exec_tree [OF host Cons.prems(1) s1(1) cf(1) Cons.prems(2)]
  have "\<exists>s'. nm_run host calls s1 = Inr s'"
    using Cons.IH [OF conjunct1 [OF after] conjunct2 [OF after] s1(2,3) cf(2)] .
  then show ?case using s1(1) by (simp add: nm_run_def call)
qed

lemma verify_climb:
  assumes host: "good_host host"
    and "\<forall>s \<in> set ss. canonical_tree s" "canonical_tree c" "lvl + length ss \<le> 256" "length pre = lvl"
  shows "fold_result (verify_step host (split_bits k) (pre @ map (nm_hash host) ss)) [0..<length ss]
      (nm_hash host c) = Inr (nm_hash host (plug k lvl ss c))"
  using assms
proof (induction ss arbitrary: lvl pre)
  case (Cons s ss)
  have IH: "fold_result (verify_step host (split_bits k) (pre @ map (nm_hash host) (s # ss))) [0..<length ss]
      (nm_hash host c) = Inr (nm_hash host (plug k (Suc lvl) ss c))"
    using Cons.IH [of "Suc lvl" "pre @ [nm_hash host s]"] Cons.prems by simp
  have at: "(pre @ nm_hash host s # map (nm_hash host) ss) ! lvl = nm_hash host s" "lvl < 256"
    "lvl < length (pre @ nm_hash host s # map (nm_hash host) ss)"
    "length (pre @ map (nm_hash host) (s # ss)) - 1 - length ss = lvl"
    using Cons.prems(4,5) by auto
  have "canonical_tree (plug k (Suc lvl) ss c)" using Cons.prems(2,3) by (simp add: canonical_plug)
  then have "hash_up host (key_bit k lvl) (nm_hash host s) (nm_hash host (plug k (Suc lvl) ss c))
      = Inr (nm_hash host (plug k lvl (s # ss) c))"
    using hash_up_ok [OF host, of s _ k lvl] Cons.prems(2) by (simp del: tree_hash.simps)
  then have "verify_step host (split_bits k) (pre @ map (nm_hash host) (s # ss)) (length ss)
      (nm_hash host (plug k (Suc lvl) ss c)) = Inr (nm_hash host (plug k lvl (s # ss) c))"
    using at by (simp add: verify_step_def Let_def del: plug.simps tree_hash.simps)
  then show ?case using IH by (simp add: fold_result_append del: plug.simps tree_hash.simps)
qed simp

text \<open>The key and value that a proof of absence must name.\<close>

fun end_entry :: "u256 \<Rightarrow> tree \<Rightarrow> u256 \<times> u256" where
  "end_entry k (Leaf k' v') = (k', v')"
| "end_entry k _ = (k, 0)"

lemma found_at_fields:
  "fr_siblings (found_at k ss e) = ss"
  "fr_found (found_at k ss e) \<longleftrightarrow> (\<exists>v. e = Leaf k v)"
  "e = Empty \<or> e = Leaf k' v' \<Longrightarrow> \<not> fr_found (found_at k ss e) \<Longrightarrow>
     (fr_not_found_key (found_at k ss e), fr_not_found_value (found_at k ss e)) = end_entry k e"
  by (cases e; auto)+

lemma stale_parent:
  assumes inv: "nm_inv host t s" and cf: "collision_free (nm_hash host) (delete_touches k v t)"
    and d: "descend k 0 t = (ss, Leaf k v)" and last: "ss \<noteq> []" "last ss = Leaf k' v'"
    and sw: "swapped (nm_node host) (nm_hash host) (nm_nodes s) nodes'
      (removed_by_delete k v t) (added_by_delete k t)"
  shows "nodes' (nm_hash host (plug k (length ss - 1) [Leaf k' v'] (Leaf k v)))
    = nm_node host (plug k (length ss - 1) [Leaf k' v'] (Leaf k v))"
proof -
  let ?h = "nm_hash host" and ?S = "butlast ss" and ?leaf = "Leaf k v" and ?T = "delete_touches k v t"
  let ?p = "plug k (length ss - 1) [Leaf k' v'] ?leaf"
  have wf: "placed 0 t" "compact t" and hold: "holds (nm_node host) ?h (nm_nodes s) t"
    using inv by (simp_all add: nm_inv_def)
  have mem: "(k, v) \<in> entries t" using descend_mem [OF wf(1)] d by simp
  have ss: "ss = ?S @ [Leaf k' v']" using last append_butlast_last_id by metis
  have p: "promoted ss = (?S, Leaf k' v')" using last by (simp add: promoted_def)
  have t: "plug k 0 (?S @ [Leaf k' v']) ?leaf = t" using plug_descend [OF d] ss by simp
  have "?p \<in> set (path_nodes k 0 (?S @ [Leaf k' v']) ?leaf)" by (simp add: path_nodes_append)
  then have p_t: "?p \<in> subtrees t" using subtrees_plug [of k 0 "?S @ [Leaf k' v']" ?leaf] unfolding t by blast
  have ok: "siblings_ok k 0 (?S @ [Leaf k' v'])" using wf(1) t placed_plug by metis
  have apart: "k' \<notin> keys u" if u: "u \<in> set ?S" for u
  proof
    assume k': "k' \<in> keys u"
    obtain xs ys where "?S = xs @ u # ys" using u by (meson split_list)
    then have "siblings_ok k 0 (xs @ u # ys @ [Leaf k' v'])" using ok by simp
    then have "siblings_ok k (length xs) (u # ys @ [Leaf k' v'])"
      unfolding siblings_ok_append [of k 0 xs] by simp
    then have "key_bit k' (length xs) \<noteq> key_bit k (length xs)" "key_bit k' (length xs) = key_bit k (length xs)"
      using k' unfolding siblings_ok.simps by auto
    then show False by simp
  qed
  have k'_ne: "k' \<noteq> k" using siblings_ok_apart [OF ok, of "Leaf k' v'"] by simp
  have "k' \<notin> keys r" if r: "r \<in> removed_by_delete k v t" for r
  proof -
    have "entries r \<subseteq> entries (plug k 0 ?S ?leaf)"
      using r subtrees_entries [of r "plug k 0 ?S ?leaf"]
      by (auto simp: removed_by_delete_def d p subtrees_plug entries_plug)
    moreover have "k' \<notin> keys (plug k 0 ?S ?leaf)"
    proof
      assume "k' \<in> keys (plug k 0 ?S ?leaf)"
      then obtain w where "(k', w) \<in> entries (plug k 0 ?S ?leaf)" by auto
      then obtain u where "u \<in> set ?S" "(k', w) \<in> entries u" using k'_ne by (auto simp: entries_plug)
      then show False using apart [of u] by force
    qed
    ultimately show ?thesis by blast
  qed
  moreover have "k' \<in> keys ?p" "k \<in> keys ?p" by simp_all
  moreover have "k \<notin> keys r" if "r \<in> added_by_delete k t" for r
    using that delete_tree_nodes(2) [OF wf mem] subtrees_entries [of r "delete_tree k t"]
      delete_tree_ok [OF wf mem] by auto
  ultimately have "?p \<notin> removed_by_delete k v t" "?p \<notin> added_by_delete k t" by blast+
  moreover have "removed_by_delete k v t \<subseteq> ?T" "added_by_delete k t \<subseteq> ?T" "?p \<in> ?T"
    using delete_tree_nodes(2) [OF wf mem] p_t by (auto simp: delete_touches_def simp del: plug.simps)
  ultimately have "?h ?p \<notin> ?h ` removed_by_delete k v t" "?h ?p \<notin> ?h ` added_by_delete k t"
    using collision_free_eq [OF cf] by blast+
  then have "nodes' (?h ?p) = nm_nodes s (?h ?p)" using sw by (simp add: swapped_def del: plug.simps tree_hash.simps)
  then show ?thesis using hold p_t by (simp add: holds_def del: plug.simps tree_hash.simps)
qed

section \<open>Properties\<close>

text \<open>
  C5: The contract is a map of blocked keys under a Merkle root. After any history of successful
  calls, in which no two nodes touched by one call collide, \<open>find_key\<close> answers for every key
  as the map that the calls describe, and the root is the hash of the one tree with these entries
  that places keys by their bits and has no inner node above fewer than two leaves.
\<close>

theorem nm_represents_map:
  assumes "good_host host" and "nm_constructor admin empty_nm_store = Inr s0"
    and "nm_run host calls s0 = Inr s" and "no_collisions host calls Empty"
  shows "(\<forall>k. \<exists>r. find_key k s = Inr r \<and> (fr_found r \<longleftrightarrow> blocked calls k \<noteq> None)
      \<and> (fr_found r \<longrightarrow> blocked calls k = Some (fr_found_value r)))
    \<and> (\<exists>t. nm_get_root s = Inr (nm_hash host t) \<and> placed 0 t \<and> compact t
        \<and> entries t = Map.graph (blocked calls))"
proof -
  obtain t where inv: "nm_inv host t s" and ent: "entries t = Map.graph (blocked calls)"
    using nm_history_tree [OF assms] by blast
  have wf: "placed 0 t" using inv by (simp add: nm_inv_def)
  have "\<exists>r. find_key k s = Inr r \<and> (fr_found r \<longleftrightarrow> blocked calls k \<noteq> None)
      \<and> (fr_found r \<longrightarrow> blocked calls k = Some (fr_found_value r))" for k
  proof -
    obtain ss e where d: "descend k 0 t = (ss, e)" by (cases "descend k 0 t")
    have "blocked calls k = Some v \<longleftrightarrow> e = Leaf k v" for v
      using descend_mem [OF wf, of k v] d ent by (simp add: Map.graph_def)
    then show ?thesis using find_key_of_tree [OF inv d] by (cases e) auto
  qed
  then show ?thesis using inv ent by (auto simp: nm_inv_def nm_get_root_def)
qed

text \<open>
  C6: The root depends on the contents alone. Two histories of the non-membership contract that
  leave the same map of blocked keys, whatever was inserted and deleted in between and in which
  order, end with the same root.
\<close>

theorem nm_root_depends_on_contents:
  assumes "good_host host"
    and "nm_constructor admin empty_nm_store = Inr s0" and "nm_run host calls s0 = Inr s"
    and "no_collisions host calls Empty"
    and "nm_constructor admin' empty_nm_store = Inr s0'" and "nm_run host calls' s0' = Inr s'"
    and "no_collisions host calls' Empty"
    and "blocked calls = blocked calls'"
  shows "nm_get_root s = nm_get_root s'"
proof -
  obtain t where t: "nm_inv host t s" "entries t = Map.graph (blocked calls)"
    using nm_history_tree [OF assms(1-4)] by blast
  obtain t' where t': "nm_inv host t' s'" "entries t' = Map.graph (blocked calls')"
    using nm_history_tree [OF assms(1,5-7)] by blast
  have "t = t'"
    using t t' assms(8) by (intro same_entries_same_tree [of 0]) (simp_all add: nm_inv_def)
  then show ?thesis using t(1) t'(1) by (simp add: nm_inv_def nm_get_root_def)
qed

text \<open>
  \<open>insert_leaf\<close> of the non-membership contract, in a state that stores a tree: without the
  administrator's authorisation it traps; a key that is present is refused; a key or value outside
  the field traps; otherwise the tree with the new leaf is stored, the event carries the new root,
  and storage that held nothing but the tree's nodes still holds nothing else.
\<close>

theorem nm_insert_outcomes:
  assumes "good_host host" and "nm_inv host t s" and "nm_admin s = Some admin"
    and "collision_free (nm_hash host) (insert_touches k v t)"
  shows "if \<not> auth admin then nm_insert_leaf host auth k v s = Inl Trap
    else if k \<in> keys t then nm_insert_leaf host auth k v s = Inl (Err KeyAlreadyExists)
    else if \<not> canonical k \<or> \<not> canonical v then nm_insert_leaf host auth k v s = Inl Trap
    else \<exists>s'. nm_insert_leaf host auth k v s = Inr s' \<and> nm_inv host (insert_tree k v t) s'
      \<and> nm_events s' = nm_events s @ [LeafInserted k v (nm_hash host (insert_tree k v t))]
      \<and> (nothing_else (nm_hash host) (nm_nodes s) t
          \<longrightarrow> nothing_else (nm_hash host) (nm_nodes s') (insert_tree k v t))"
  using nm_insert_rejects [OF assms(1,2), of admin auth k v]
    nm_inv_insert [where auth = auth and admin = admin, OF assms(1-3) _ _ _ _ assms(4)] assms(3)
  by auto

text \<open>
  \<open>delete_leaf\<close>, in a state that stores a tree: without the administrator's authorisation it
  traps; an absent key is reported; otherwise the tree without the leaf is stored and the event
  carries the new root. When the leaf's sibling is a leaf, their parent stays in storage although
  it is no node of the new tree: the code recomputes the old path without that sibling.
\<close>

theorem nm_delete_outcomes:
  assumes "good_host host" and "nm_inv host t s" and "nm_admin s = Some admin"
    and "descend k 0 t = (ss, e)" and "collision_free (nm_hash host) (touches (DeleteNm k) t)"
  shows "if \<not> auth admin then delete_leaf host auth k s = Inl Trap
    else if k \<notin> keys t then delete_leaf host auth k s = Inl (Err KeyNotFound)
    else \<exists>s'. delete_leaf host auth k s = Inr s' \<and> nm_inv host (delete_tree k t) s'
      \<and> nm_events s' = nm_events s @ [LeafDeleted k (nm_hash host (delete_tree k t))]
      \<and> (\<forall>k' v'. ss \<noteq> [] \<longrightarrow> last ss = Leaf k' v'
          \<longrightarrow> nm_nodes s' (nm_hash host (plug k (length ss - 1) [Leaf k' v'] e)) \<noteq> None)"
proof (cases "auth admin \<and> k \<in> keys t")
  case False
  then show ?thesis using nm_delete_rejects [OF assms(2,3), of auth k] by auto
next
  case True
  then obtain v where e: "e = Leaf k v" using in_keys_descend [OF assms(2,4)] by blast
  then have mem: "(k, v) \<in> entries t" using descend_mem [of 0 t k v] assms(2,4) by (simp add: nm_inv_def)
  have cf: "collision_free (nm_hash host) (delete_touches k v t)" using assms(4,5) e by simp
  have auth: "auth admin" using True by simp
  obtain nodes' where run: "delete_leaf host auth k s
      = Inr (s\<lparr>nm_nodes := nodes', nm_root := Some (nm_hash host (delete_tree k t)),
              nm_events := nm_events s @ [LeafDeleted k (nm_hash host (delete_tree k t))]\<rparr>)"
    and sw: "swapped (nm_node host) (nm_hash host) (nm_nodes s) nodes' (removed_by_delete k v t) (added_by_delete k t)"
    using nm_delete_run [where auth = auth and admin = admin, OF assms(1-3) auth mem cf] by blast
  have "nodes' (nm_hash host (plug k (length ss - 1) [Leaf k' v'] e)) \<noteq> None"
    if "ss \<noteq> []" "last ss = Leaf k' v'" for k' v'
    using stale_parent [OF assms(2) cf assms(4) [unfolded e] that sw] by (simp add: e)
  then show ?thesis
    using nm_inv_delete [where auth = auth and admin = admin, OF assms(1-3) auth mem cf] run True by auto
qed

text \<open>
  C7: \<open>verify_non_membership\<close>, in a state that stores a tree: \<open>false\<close> for a key that is present; for
  an absent key exactly the proof that \<open>find_key\<close> returns is accepted, and every other one is
  \<open>InvalidProof\<close>. The exception are proofs that end at a leaf whose value is zero: the code then
  starts from the empty hash, so that even the right proof is rejected unless the hashes collide.
\<close>

theorem nm_verify_outcomes:
  assumes "good_host host" and "nm_inv host t s" and "descend k 0 t = (ss, e)"
  shows "verify_non_membership host k siblings nk nv s =
    (if k \<in> keys t then Inr False
     else if siblings = map (nm_hash host) ss \<and> (nk, nv) = end_entry k e
       \<and> (e = Empty \<or> nv \<noteq> 0 \<or> nm_hash host (plug k 0 ss Empty) = nm_hash host t)
     then Inr True else Inl (Err InvalidNmProof))"
proof -
  let ?h = "nm_hash host"
  note f = nm_inv_descend [OF assms(2,3)]
  have root: "nm_root s = Some (?h t)" using assms(2) by (simp add: nm_inv_def)
  have climb: "fold_result (verify_step host (split_bits k) (map ?h ss)) [0..<length ss] (?h c) = Inr (?h (plug k 0 ss c))"
    if "canonical_tree c" for c
    using verify_climb [OF assms(1) f(4) that, of 0 "[]" k] f(2) by simp
  show ?thesis
  proof (cases e)
    case Empty
    have t: "plug k 0 ss Empty = t" using f(3) Empty by simp
    have "k \<notin> keys t" using in_keys_descend [OF assms(2,3)] Empty by simp
    then show ?thesis using f(1) root climb [of Empty, unfolded t]
      by (auto simp: verify_non_membership_def Let_def Empty ensure_def)
  next
    case (Leaf k' v')
    have can: "canonical_tree (Leaf k' v')" and hash: "hash_leaf host k' v' = Inr (?h (Leaf k' v'))"
      using f(5) hash_leaf_ok [OF assms(1)] by (simp_all add: Leaf)
    have t: "plug k 0 ss (Leaf k' v') = t" using f(3) Leaf by simp
    have mem: "k \<in> keys t \<longleftrightarrow> k' = k" using in_keys_descend [OF assms(2,3)] Leaf by simp
    note found = f(1) [unfolded Leaf found_at.simps]
    show ?thesis
    proof (cases "k' = k")
      case True
      then show ?thesis using found root mem by (simp add: verify_non_membership_def Let_def)
    next
      case False
      have run: "verify_non_membership host k siblings nk nv s =
        and_then (ensure (length (map ?h ss) = length siblings) InvalidNmProof) (\<lambda>_.
        and_then (ensure (siblings = map ?h ss) InvalidNmProof) (\<lambda>_.
        and_then (ensure (k' = nk \<and> v' = nv) InvalidNmProof) (\<lambda>_.
        and_then (if nk \<noteq> k \<and> nv \<noteq> 0 then hash_leaf host nk nv else Inr 0) (\<lambda>start.
        and_then (fold_result (verify_step host (split_bits k) siblings) [0..<length siblings] start)
          (\<lambda>computed_root. and_then (ensure (computed_root = ?h t) InvalidNmProof) (\<lambda>_. Inr True))))))"
        using found root False by (simp add: verify_non_membership_def Let_def del: length_map)
      show ?thesis
      proof (cases "siblings = map ?h ss \<and> k' = nk \<and> v' = nv")
        case True
        then show ?thesis using mem False hash climb [OF can, unfolded t] climb [of Empty]
          unfolding run by (cases "v' = 0") (simp_all add: Leaf ensure_def del: tree_hash.simps(2,3))
      next
        case wrong: False
        then have "verify_non_membership host k siblings nk nv s = Inl (Err InvalidNmProof)"
          unfolding run by (auto simp: ensure_def)
        then show ?thesis using wrong mem False by (auto simp: Leaf)
      qed
    qed
  qed (use descend_end [OF assms(3)] in auto)
qed

section \<open>A history with a concrete host\<close>

definition plain_host :: poseidon2_host where
  "plain_host ins fld t d rf rp diag rc =
     (case ins of
        [l, r] \<Rightarrow> [word_of_nat ((2 * unat l + unat r) mod prime), 0]
      | [a, b, c] \<Rightarrow> [word_of_nat ((2 * unat a + unat b + unat c) mod prime), 0, 0]
      | _ \<Rightarrow> ins)"

lemma good_plain_host: "good_host plain_host"
proof -
  have "field_elements 2 (plain_host ins f t d rf rp diag rc)" if ins: "field_elements 2 ins"
    for ins f t d rf rp diag rc
  proof -
    obtain l r where "ins = [l, r]"
      using ins by (auto simp: field_elements_def numeral_2_eq_2 length_Suc_conv)
    then show ?thesis by (simp add: field_elements_def plain_host_def canonical_word_of_nat_mod)
  qed
  moreover have "field_elements 3 (plain_host ins f t d rf rp diag rc)" if ins: "field_elements 3 ins"
    for ins f t d rf rp diag rc
  proof -
    obtain a b c where "ins = [a, b, c]"
      using ins by (auto simp: field_elements_def numeral_3_eq_3 length_Suc_conv)
    then show ?thesis by (simp add: field_elements_def plain_host_def canonical_word_of_nat_mod)
  qed
  ultimately show ?thesis unfolding good_host_def by blast
qed

lemma plain_hashes:
  "leaf_value plain_host k v = word_of_nat ((2 * unat k + unat v + 1) mod prime)"
  "compress_value plain_host l r
    = word_of_nat (((2 * unat l + unat r) mod prime + unat l) mod prime)"
  by (simp_all add: leaf_value_def hash2_value_def compress_value_def plain_host_def)

definition nm_sample_calls :: "(auths \<times> nm_call) list" where
  "nm_sample_calls = map (Pair (\<lambda>a. a = ''admin''))
     [InsertNm 1 4, InsertNm 2 5, InsertNm 3 6, DeleteNm 3]"

definition nm_other_calls :: "(auths \<times> nm_call) list" where
  "nm_other_calls = map (Pair (\<lambda>a. a = ''admin'')) [InsertNm 2 5, InsertNm 1 4]"

lemma nm_sample_trees:
  "insert_tree 1 4 Empty = Leaf 1 4"
  "insert_tree 2 5 (Leaf 1 4) = Inner (Leaf 2 5) (Leaf 1 4)"
  "insert_tree 1 4 (Leaf 2 5) = Inner (Leaf 2 5) (Leaf 1 4)"
  "insert_tree 2 5 Empty = Leaf 2 5"
  "insert_tree 3 6 (Inner (Leaf 2 5) (Leaf 1 4)) = Inner (Leaf 2 5) (Inner (Leaf 1 4) (Leaf 3 6))"
  "delete_tree 3 (Inner (Leaf 2 5) (Inner (Leaf 1 4) (Leaf 3 6))) = Inner (Leaf 2 5) (Leaf 1 4)"
  by (simp_all add: insert_tree_def delete_tree_def promoted_def key_bit_def diverge.simps)

definition nm_sample_nodes :: "tree set" where
  "nm_sample_nodes = {Leaf 1 4, Leaf 2 5, Leaf 3 6, Inner (Leaf 2 5) (Leaf 1 4),
     Inner (Leaf 1 4) (Leaf 3 6), Inner (Leaf 2 5) (Inner (Leaf 1 4) (Leaf 3 6)),
     Inner (Leaf 2 5) (Leaf 3 6)}"

lemma nm_sample_hashes:
  "nm_hash plain_host (Leaf 1 4) = 7" "nm_hash plain_host (Leaf 2 5) = 10" "nm_hash plain_host (Leaf 3 6) = 13"
  "nm_hash plain_host (Inner (Leaf 2 5) (Leaf 1 4)) = 37"
  "nm_hash plain_host (Inner (Leaf 1 4) (Leaf 3 6)) = 34"
  "nm_hash plain_host (Inner (Leaf 2 5) (Inner (Leaf 1 4) (Leaf 3 6))) = 64"
  "nm_hash plain_host (Inner (Leaf 2 5) (Leaf 3 6)) = 43"
  by (simp_all add: plain_hashes prime_def)

lemma nm_sample_collision_free: "T \<subseteq> nm_sample_nodes \<Longrightarrow> collision_free (nm_hash plain_host) T"
proof (rule collision_free_subset)
  show "collision_free (nm_hash plain_host) nm_sample_nodes"
    unfolding nm_sample_nodes_def collision_free_def inj_on_insert image_insert nm_sample_hashes
    by (simp add: nm_sample_hashes del: tree_hash.simps)
qed

lemma nm_sample_no_collisions:
  "no_collisions plain_host nm_sample_calls Empty"
  "no_collisions plain_host nm_other_calls Empty"
  by (auto simp: nm_sample_calls_def nm_other_calls_def nm_sample_trees insert_touches_def delete_touches_def
      removed_by_delete_def promoted_def key_bit_def nm_sample_nodes_def
      intro!: nm_sample_collision_free simp del: tree_hash.simps)

lemma nm_sample_blocked:
  "blocked nm_sample_calls = [1 \<mapsto> 4, 2 \<mapsto> 5]"
  "blocked nm_other_calls = [1 \<mapsto> 4, 2 \<mapsto> 5]"
  by (auto simp: blocked_def nm_sample_calls_def nm_other_calls_def)

definition nm_sample_store :: nm_store where
  "nm_sample_store = \<lparr>nm_admin = Some ''admin'', nm_root = Some 0, nm_nodes = Map.empty, nm_events = []\<rparr>"

lemma nm_sample_deployed: "nm_constructor ''admin'' empty_nm_store = Inr nm_sample_store"
  by (simp add: nm_constructor_def empty_nm_store_def nm_sample_store_def)

lemma nm_sample_runs:
  "\<exists>s. nm_run plain_host nm_sample_calls nm_sample_store = Inr s"
  "\<exists>s. nm_run plain_host nm_other_calls nm_sample_store = Inr s"
proof -
  have "admissible ''admin'' nm_sample_calls Map.empty" "admissible ''admin'' nm_other_calls Map.empty"
    by (simp_all add: nm_sample_calls_def nm_other_calls_def)
  moreover have "nm_admin nm_sample_store = Some ''admin''" by (simp add: nm_sample_store_def)
  ultimately show "\<exists>s. nm_run plain_host nm_sample_calls nm_sample_store = Inr s"
    "\<exists>s. nm_run plain_host nm_other_calls nm_sample_store = Inr s"
    using nm_run_succeeds [OF good_plain_host nm_deployed [OF nm_sample_deployed]] nm_sample_no_collisions
    by blast+
qed

theorem nm_represents_map_witness:
  "\<exists>s. nm_run plain_host nm_sample_calls nm_sample_store = Inr s
     \<and> (\<exists>r. find_key 2 s = Inr r \<and> fr_found r \<and> fr_found_value r = 5)
     \<and> (\<exists>r. find_key 3 s = Inr r \<and> \<not> fr_found r)"
proof -
  obtain s where s: "nm_run plain_host nm_sample_calls nm_sample_store = Inr s"
    using nm_sample_runs(1) by blast
  note at = conjunct1 [OF nm_represents_map [OF good_plain_host nm_sample_deployed s nm_sample_no_collisions(1)]]
  from spec [OF at, of 2] spec [OF at, of 3] s show ?thesis
    by (auto simp: nm_sample_blocked)
qed

theorem nm_root_depends_on_contents_witness:
  "\<exists>s s'. nm_run plain_host nm_sample_calls nm_sample_store = Inr s
     \<and> nm_run plain_host nm_other_calls nm_sample_store = Inr s'
     \<and> nm_get_root s = nm_get_root s'"
proof -
  obtain s s' where s: "nm_run plain_host nm_sample_calls nm_sample_store = Inr s"
    "nm_run plain_host nm_other_calls nm_sample_store = Inr s'"
    using nm_sample_runs by blast
  show ?thesis
    using nm_root_depends_on_contents [OF good_plain_host nm_sample_deployed s(1) nm_sample_no_collisions(1)
        nm_sample_deployed s(2) nm_sample_no_collisions(2)] s
    by (auto simp: nm_sample_blocked)
qed

text \<open>The states after the first two and the first three calls, and a leaf of value zero.\<close>

lemma nm_sample_insert:
  assumes "nm_inv plain_host t s" "nm_admin s = Some ''admin''"
    and "collision_free (nm_hash plain_host) (insert_touches k v t)"
    and "canonical k" "canonical v" "k \<notin> keys t"
  shows "\<exists>s'. nm_inv plain_host (insert_tree k v t) s' \<and> nm_admin s' = Some ''admin''"
  using nm_inv_insert [where auth = "\<lambda>a. True" and admin = "''admin''", OF good_plain_host assms(1,2) TrueI assms(4-6,3)]
    assms(2) by auto

lemma nm_sample_start: "nm_inv plain_host Empty nm_sample_store" "nm_admin nm_sample_store = Some ''admin''"
  using nm_deployed [OF nm_sample_deployed] by (simp_all add: nm_sample_store_def)

lemma nm_sample_two:
  "\<exists>s. nm_inv plain_host (Inner (Leaf 2 5) (Leaf 1 4)) s \<and> nm_admin s = Some ''admin''"
proof -
  have cf: "collision_free (nm_hash plain_host) (insert_touches 1 4 Empty)"
    "collision_free (nm_hash plain_host) (insert_touches 2 5 (Leaf 1 4))"
    using nm_sample_no_collisions(1) by (simp_all add: nm_sample_calls_def nm_sample_trees)
  obtain s where "nm_inv plain_host (Leaf 1 4) s" "nm_admin s = Some ''admin''"
    using nm_sample_insert [OF nm_sample_start cf(1)] by (auto simp: nm_sample_trees)
  from nm_sample_insert [OF this cf(2)] show ?thesis by (auto simp: nm_sample_trees)
qed

lemma nm_sample_three:
  "\<exists>s. nm_inv plain_host (Inner (Leaf 2 5) (Inner (Leaf 1 4) (Leaf 3 6))) s \<and> nm_admin s = Some ''admin''"
proof -
  have cf: "collision_free (nm_hash plain_host) (insert_touches 3 6 (Inner (Leaf 2 5) (Leaf 1 4)))"
    using nm_sample_no_collisions(1) by (simp add: nm_sample_calls_def nm_sample_trees)
  obtain s where "nm_inv plain_host (Inner (Leaf 2 5) (Leaf 1 4)) s" "nm_admin s = Some ''admin''"
    using nm_sample_two by blast
  from nm_sample_insert [OF this cf] show ?thesis by (auto simp: nm_sample_trees)
qed

lemma nm_sample_zero: "\<exists>s. nm_inv plain_host (Leaf 1 0) s"
proof -
  have "insert_tree 1 0 Empty = Leaf 1 0" by (simp add: insert_tree_def)
  moreover have "collision_free (nm_hash plain_host) (insert_touches 1 0 Empty)"
    by (simp add: insert_touches_def calculation collision_free_def plain_hashes prime_def)
  ultimately show ?thesis using nm_sample_insert [OF nm_sample_start, of 1 0] by auto
qed

theorem nm_insert_outcomes_witness:
  "\<exists>s s'. nm_inv plain_host (Inner (Leaf 2 5) (Leaf 1 4)) s
     \<and> nm_insert_leaf plain_host (\<lambda>a. False) 3 6 s = Inl Trap
     \<and> nm_insert_leaf plain_host (\<lambda>a. True) 3 6 s = Inr s'
     \<and> nm_inv plain_host (Inner (Leaf 2 5) (Inner (Leaf 1 4) (Leaf 3 6))) s'"
proof -
  obtain s where s: "nm_inv plain_host (Inner (Leaf 2 5) (Leaf 1 4)) s" "nm_admin s = Some ''admin''"
    using nm_sample_two by blast
  have cf: "collision_free (nm_hash plain_host) (insert_touches 3 6 (Inner (Leaf 2 5) (Leaf 1 4)))"
    using nm_sample_no_collisions(1) by (simp add: nm_sample_calls_def nm_sample_trees)
  from nm_insert_outcomes [OF good_plain_host s cf, of "\<lambda>a. False"]
    nm_insert_outcomes [OF good_plain_host s cf, of "\<lambda>a. True"] s(1)
  show ?thesis by (auto simp: nm_sample_trees)
qed

theorem nm_delete_outcomes_witness:
  "\<exists>s s'. nm_inv plain_host (Inner (Leaf 2 5) (Inner (Leaf 1 4) (Leaf 3 6))) s
     \<and> delete_leaf plain_host (\<lambda>a. True) 3 s = Inr s'
     \<and> nm_inv plain_host (Inner (Leaf 2 5) (Leaf 1 4)) s'
     \<and> nm_nodes s' (nm_hash plain_host (Inner (Leaf 1 4) (Leaf 3 6))) \<noteq> None"
proof -
  let ?t = "Inner (Leaf 2 5) (Inner (Leaf 1 4) (Leaf 3 6))"
  obtain s where s: "nm_inv plain_host ?t s" "nm_admin s = Some ''admin''"
    using nm_sample_three by blast
  have d: "descend 3 0 ?t = ([Leaf 2 5, Leaf 1 4], Leaf 3 6)" by (simp add: key_bit_def)
  have cf: "collision_free (nm_hash plain_host) (touches (DeleteNm 3) ?t)"
    using nm_sample_no_collisions(1) by (simp add: nm_sample_calls_def nm_sample_trees)
  from nm_delete_outcomes [OF good_plain_host s d cf, of "\<lambda>a. True"] s(1)
  show ?thesis by (auto simp: nm_sample_trees key_bit_def)
qed

theorem nm_verify_outcomes_witness:
  "\<exists>s z. nm_inv plain_host (Inner (Leaf 2 5) (Inner (Leaf 1 4) (Leaf 3 6))) s
     \<and> verify_non_membership plain_host 5 [10, 13] 1 4 s = Inr True
     \<and> verify_non_membership plain_host 5 [10, 13] 1 7 s = Inl (Err InvalidNmProof)
     \<and> verify_non_membership plain_host 3 [10, 7] 3 6 s = Inr False
     \<and> nm_inv plain_host (Leaf 1 0) z
     \<and> verify_non_membership plain_host 5 [] 1 0 z = Inl (Err InvalidNmProof)"
proof -
  let ?t = "Inner (Leaf 2 5) (Inner (Leaf 1 4) (Leaf 3 6))"
  obtain s where s: "nm_inv plain_host ?t s" using nm_sample_three by blast
  obtain z where z: "nm_inv plain_host (Leaf 1 0) z" using nm_sample_zero by blast
  have d: "descend 5 0 ?t = ([Leaf 2 5, Leaf 3 6], Leaf 1 4)" "descend 3 0 ?t = ([Leaf 2 5, Leaf 1 4], Leaf 3 6)"
    "descend 5 0 (Leaf 1 0) = ([], Leaf 1 0)" by (simp_all add: key_bit_def)
  have zero: "nm_hash plain_host (Leaf 1 0) = 3" by (simp add: plain_hashes prime_def)
  note verify = nm_verify_outcomes [OF good_plain_host]
  show ?thesis
    using verify [OF s d(1), of "[10, 13]" 1 4] verify [OF s d(1), of "[10, 13]" 1 7]
      verify [OF s d(2), of "[10, 7]" 3 6] verify [OF z d(3), of "[]" 1 0] s z
    by (auto simp: nm_sample_hashes zero simp del: tree_hash.simps(2,3))
qed

end
