(* ===== verification/ProverCodec.thy ===== *)
theory ProverCodec
  imports Amounts Poseidon2
begin

text \<open>
  Serialization and hashing helpers of the prover
  (\<open>app/crates/core/prover/src/serialization.rs\<close> and \<open>crypto.rs\<close>).

  A \<open>Scalar\<close> of the field crate is a natural number below \<^const>\<open>prime\<close>; its four 64-bit limbs
  are the 32 little-endian bytes of that number. A text is the list of its UTF-8 bytes. An
  \<open>anyhow\<close> error is a constructor of \<open>codec_error\<close>, a panic is \<^const>\<open>Trap\<close>. The parameter sets
  that the hash functions take from statics are arguments.
\<close>

datatype codec_error =
    ExpectedBytes nat
  | HexTooLong
  | InvalidHexCharacter
  | IndexOverflow
  | WitnessNotMultiple nat
  | InvalidWitnessLength
  | WitnessCountExceeds
  | InvalidDecimal
  | NotInField
  | LeafLength

type_synonym scalar = nat

definition FIELD_SIZE :: nat where
  "FIELD_SIZE = 32"

section \<open>Bytes\<close>

definition bytes_to_prime_field :: "nat list \<Rightarrow> (codec_error, scalar) result" where
  "bytes_to_prime_field bs =
     (if length bs \<noteq> FIELD_SIZE then Inl (Err (ExpectedBytes (length bs)))
      else Inr (le_value bs mod prime))"

definition prime_field_to_bytes :: "scalar \<Rightarrow> ('e, nat list) result" where
  "prime_field_to_bytes f =
     (let src = le_digits 32 f in
      if FIELD_SIZE < length src then Inl Trap
      else Inr (src @ replicate (FIELD_SIZE - length src) 0))"

definition bytes_to_scalar :: "nat list \<Rightarrow> (codec_error, scalar) result" where
  "bytes_to_scalar bs = bytes_to_prime_field bs"

definition scalar_to_bytes :: "scalar \<Rightarrow> ('e, nat list) result" where
  "scalar_to_bytes s = prime_field_to_bytes s"

definition field_to_scalar :: "field_element \<Rightarrow> scalar" where
  "field_to_scalar f = le_value (field_to_le_bytes f) mod prime"

definition scalar_to_field :: "scalar \<Rightarrow> ('e, field_element) result" where
  "scalar_to_field s =
     and_then (scalar_to_bytes s) (\<lambda>le.
     and_then (ensure_host (length le = 32)) (\<lambda>_.
       unwrap (try_from_le_bytes le)))"

section \<open>Hexadecimal text\<close>

definition scalar_to_hex :: "scalar \<Rightarrow> ('e, string) result" where
  "scalar_to_hex s = and_then (scalar_to_bytes s) (\<lambda>bs. Inr (''0x'' @ hex_encode (rev bs)))"

text \<open>\<open>char::to_digit\<close>, and \<open>u8::from_str_radix\<close> in base 16, which accepts a plus sign.\<close>

definition to_digit :: "nat \<Rightarrow> char \<Rightarrow> nat option" where
  "to_digit radix c =
     (let n = (of_char c :: nat);
          d = (if 48 \<le> n \<and> n \<le> 57 then Some (n - 48)
               else if 97 \<le> n \<and> n \<le> 102 then Some (n - 87)
               else if 65 \<le> n \<and> n \<le> 70 then Some (n - 55) else None) in
      case d of None \<Rightarrow> None | Some v \<Rightarrow> if v < radix then Some v else None)"

fun digits_value :: "nat \<Rightarrow> string \<Rightarrow> nat \<Rightarrow> nat option" where
  "digits_value radix [] acc = Some acc"
| "digits_value radix (c # cs) acc =
     (case to_digit radix c of None \<Rightarrow> None | Some v \<Rightarrow> digits_value radix cs (acc * radix + v))"

definition from_str_radix :: "nat \<Rightarrow> nat \<Rightarrow> string \<Rightarrow> nat option" where
  "from_str_radix w radix s =
     (if s = [] then None
      else (let digits = (if 1 < length s \<and> hd s = CHR ''+'' then tl s else s) in
            case digits_value radix digits 0 of
              None \<Rightarrow> None | Some v \<Rightarrow> if v < 2 ^ w then Some v else None))"

fun chunks2 :: "'a list \<Rightarrow> 'a list list" where
  "chunks2 [] = []"
| "chunks2 [a] = [[a]]"
| "chunks2 (a # b # xs) = [a, b] # chunks2 xs"

text \<open>\<open>from_utf8\<close> on at most two bytes.\<close>

definition utf8_ok :: "string \<Rightarrow> bool" where
  "utf8_ok s \<longleftrightarrow> list_all (\<lambda>c. (of_char c :: nat) < 128) s
     \<or> (case map of_char s of
          [a, b] \<Rightarrow> 194 \<le> (a :: nat) \<and> a \<le> 223 \<and> 128 \<le> b \<and> b \<le> 191
        | _ \<Rightarrow> False)"

text \<open>\<open>format!("{:0>64}")\<close> pads by the number of characters: the bytes that start one.\<close>

definition char_count :: "string \<Rightarrow> nat" where
  "char_count s = length (filter (\<lambda>c. \<not> (128 \<le> (of_char c :: nat) \<and> of_char c \<le> (191 :: nat))) s)"

definition hex_step :: "nat \<times> string \<Rightarrow> nat list \<Rightarrow> (codec_error, nat list) result" where
  "hex_step i_chunk bytes =
     (case i_chunk of (i, chunk) \<Rightarrow>
      and_then (ensure (utf8_ok chunk) InvalidHexCharacter) (\<lambda>_.
      and_then (ok_or (Option.bind (checked_sub FIELD_SIZE 1) (\<lambda>v. checked_sub v i)) IndexOverflow) (\<lambda>idx.
      and_then (ok_or (from_str_radix 8 16 chunk) InvalidHexCharacter) (\<lambda>b.
        Inr (bytes[idx := b])))))"

definition hex_to_scalar :: "string \<Rightarrow> (codec_error, scalar) result" where
  "hex_to_scalar s0 =
     (let s = (if take 2 s0 = ''0x'' then drop 2 s0 else s0) in
      if 64 < length s then Inl (Err HexTooLong)
      else
        let padded = replicate (64 - char_count s) CHR ''0'' @ s in
        and_then (fold_result hex_step (List.enumerate 0 (chunks2 padded)) (replicate FIELD_SIZE 0)) (\<lambda>bytes.
          Inr (le_value bytes mod prime)))"

section \<open>Witness bytes and numbers\<close>

definition parse_witness :: "nat list \<Rightarrow> (codec_error, nat list) result" where
  "parse_witness witness_bytes =
     (if length witness_bytes mod FIELD_SIZE \<noteq> 0 then Inl (Err (WitnessNotMultiple (length witness_bytes)))
      else Inr witness_bytes)"

definition witness_element_count :: "nat list \<Rightarrow> (codec_error, nat) result" where
  "witness_element_count witness_bytes =
     (if length witness_bytes mod FIELD_SIZE \<noteq> 0 then Inl (Err InvalidWitnessLength)
      else let count = length witness_bytes div FIELD_SIZE in
           if fits 32 count then Inr count else Inl (Err WitnessCountExceeds))"

definition u64_to_field_bytes :: "64 word \<Rightarrow> (codec_error, nat list) result" where
  "u64_to_field_bytes v = scalar_to_bytes (unat v mod prime)"

definition decimal_to_field_bytes :: "string \<Rightarrow> (codec_error, nat list) result" where
  "decimal_to_field_bytes decimal =
     and_then (ok_or (map_option word_of_nat (from_str_radix 128 10 decimal)) InvalidDecimal) (\<lambda>value :: u128.
     let low = (ucast (and value 0xFFFFFFFFFFFFFFFF) :: 64 word);
         high = (ucast (drop_bit 64 value) :: 64 word);
         shift = fmul (unat (push_bit 32 1 :: 64 word)) (unat (push_bit 32 1 :: 64 word)) in
       scalar_to_bytes (fadd (unat low) (fmul (unat high) shift)))"

definition field_bytes_to_hex :: "nat list \<Rightarrow> (codec_error, string) result" where
  "field_bytes_to_hex bs = and_then (bytes_to_scalar bs) scalar_to_hex"

definition hex_to_field_bytes :: "string \<Rightarrow> (codec_error, nat list) result" where
  "hex_to_field_bytes s = and_then (hex_to_scalar s) scalar_to_bytes"

section \<open>Hashes of the application\<close>

definition poseidon2_hash3_internal ::
  "poseidon2_params \<Rightarrow> scalar \<Rightarrow> scalar \<Rightarrow> scalar \<Rightarrow> scalar option \<Rightarrow> scalar option" where
  "poseidon2_hash3_internal p4 a b c sep =
     map_option (\<lambda>perm. perm ! 0) (permutation p4 [a, b, c, unwrap_or sep 0])"

definition app_poseidon2_hash3 ::
  "poseidon2_params \<Rightarrow> nat list \<Rightarrow> nat list \<Rightarrow> nat list \<Rightarrow> byte \<Rightarrow> (codec_error, nat list) result" where
  "app_poseidon2_hash3 p4 input0 input1 input2 domain_separation =
     and_then (bytes_to_scalar input0) (\<lambda>a.
     and_then (bytes_to_scalar input1) (\<lambda>b.
     and_then (bytes_to_scalar input2) (\<lambda>c.
     and_then (unwrap (poseidon2_hash3_internal p4 a b c (Some (unat domain_separation)))) scalar_to_bytes)))"

definition app_poseidon2_hash2 ::
  "poseidon2_params \<Rightarrow> nat list \<Rightarrow> nat list \<Rightarrow> byte \<Rightarrow> (codec_error, nat list) result" where
  "app_poseidon2_hash2 p3 input0 input1 domain_separation =
     and_then (bytes_to_scalar input0) (\<lambda>a.
     and_then (bytes_to_scalar input1) (\<lambda>b.
     and_then (unwrap (poseidon2_hash2_internal p3 a b (Some (unat domain_separation)))) scalar_to_bytes))"

definition derive_public_key_internal :: "poseidon2_params \<Rightarrow> scalar \<Rightarrow> scalar option" where
  "derive_public_key_internal p3 private_key = poseidon2_hash2_internal p3 private_key 0 (Some 3)"

definition derive_public_key :: "poseidon2_params \<Rightarrow> nat list \<Rightarrow> (codec_error, nat list) result" where
  "derive_public_key p3 private_key =
     and_then (bytes_to_scalar private_key) (\<lambda>sk.
     and_then (unwrap (derive_public_key_internal p3 sk)) scalar_to_bytes)"

definition compute_commitment ::
  "poseidon2_params \<Rightarrow> nat list \<Rightarrow> nat list \<Rightarrow> nat list \<Rightarrow> (codec_error, nat list) result" where
  "compute_commitment p4 amount public_key blinding =
     and_then (bytes_to_scalar amount) (\<lambda>amt.
     and_then (bytes_to_scalar public_key) (\<lambda>pk.
     and_then (bytes_to_scalar blinding) (\<lambda>blind.
     and_then (unwrap (poseidon2_hash3_internal p4 amt pk blind (Some 1))) scalar_to_bytes)))"

definition compute_signature ::
  "poseidon2_params \<Rightarrow> nat list \<Rightarrow> nat list \<Rightarrow> nat list \<Rightarrow> (codec_error, nat list) result" where
  "compute_signature p4 private_key commitment merkle_path =
     and_then (bytes_to_scalar private_key) (\<lambda>sk.
     and_then (bytes_to_scalar commitment) (\<lambda>comm.
     and_then (bytes_to_scalar merkle_path) (\<lambda>path.
     and_then (unwrap (poseidon2_hash3_internal p4 sk comm path (Some 4))) scalar_to_bytes)))"

definition compute_nullifier ::
  "poseidon2_params \<Rightarrow> nat list \<Rightarrow> nat list \<Rightarrow> nat list \<Rightarrow> (codec_error, nat list) result" where
  "compute_nullifier p4 commitment path_indices signature =
     and_then (bytes_to_scalar commitment) (\<lambda>comm.
     and_then (bytes_to_scalar path_indices) (\<lambda>indices.
     and_then (bytes_to_scalar signature) (\<lambda>sig.
     and_then (unwrap (poseidon2_hash3_internal p4 comm indices sig (Some 2))) scalar_to_bytes)))"

definition ZERO_LEAF_BYTES :: "nat list" where
  "ZERO_LEAF_BYTES =
    [37, 48, 34, 136, 219, 153, 53, 3, 68, 151, 65, 131, 206, 49, 13, 99, 181, 58, 187, 158, 240,
     248, 87, 87, 83, 238, 211, 110, 1, 24, 249, 206]"

definition zero_leaf :: "nat list" where
  "zero_leaf = ZERO_LEAF_BYTES"

text \<open>A note public key is 32 bytes.\<close>

definition asp_membership_leaf ::
  "poseidon2_params \<Rightarrow> nat list \<Rightarrow> field_element \<Rightarrow> (codec_error, field_element) result" where
  "asp_membership_leaf p3 note_pubkey membership_blinding =
     and_then (app_poseidon2_hash2 p3 note_pubkey (field_to_le_bytes membership_blinding) 1) (\<lambda>leaf_le.
     and_then (ensure (length leaf_le = 32) LeafLength) (\<lambda>_.
       ok_or (try_from_le_bytes leaf_le) NotInField))"

section \<open>Reading back what was written\<close>

lemma scalar_to_bytes_eq [simp]: "scalar_to_bytes s = Inr (le_digits 32 s)"
  by (simp add: scalar_to_bytes_def prime_field_to_bytes_def FIELD_SIZE_def)

lemma prime_less_pow: "s < prime \<Longrightarrow> s < 256 ^ 32"
  unfolding pow_256_32 by (rule less_trans [OF _ prime_less])

lemma scalar_bytes_value: "s < prime \<Longrightarrow> le_value (le_digits 32 s) = s"
  by (rule le_value_le_digits) (rule prime_less_pow)

lemma bytes_to_scalar_Inr:
  "bytes_to_scalar bs = Inr s \<longleftrightarrow> length bs = 32 \<and> s = le_value bs mod prime"
  by (auto simp: bytes_to_scalar_def bytes_to_prime_field_def FIELD_SIZE_def)

lemma bytes_to_scalar_bytes: "s < prime \<Longrightarrow> bytes_to_scalar (le_digits 32 s) = Inr s"
  by (simp add: bytes_to_scalar_Inr scalar_bytes_value)

lemma field_to_scalar_eq: "canonical (field_value f) \<Longrightarrow> field_to_scalar f = unat (field_value f)"
  by (simp add: field_to_scalar_def field_to_le_bytes_def to_le_bytes_def canonical_unat
      scalar_bytes_value)

lemma scalar_to_field_eq:
  assumes "s < prime"
  shows "scalar_to_field s = Inr (Field (word_of_nat s))" "canonical (word_of_nat s)"
    "unat (word_of_nat s :: u256) = s"
proof -
  have "s < 2 ^ 256" using assms prime_less by (rule less_trans)
  then show un: "unat (word_of_nat s :: u256) = s" by (simp add: unat_of_nat)
  then show can: "canonical (word_of_nat s)" using assms by (simp add: canonical_unat)
  have "from_le_bytes (le_digits 32 s) = word_of_nat s"
    by (simp add: from_le_bytes_def scalar_bytes_value [OF assms])
  then show "scalar_to_field s = Inr (Field (word_of_nat s))"
    using can by (simp add: scalar_to_field_def try_from_le_bytes_def try_from_u256_def
        canonical_def not_le)
qed

lemma field_to_scalar_less: "field_to_scalar f < prime"
  using prime_pos by (simp add: field_to_scalar_def)

text \<open>Hexadecimal text.\<close>

lemma hex_digit_facts:
  "n < 16 \<Longrightarrow> to_digit 16 (hex_digit n) = Some n \<and> hex_digit n \<noteq> CHR ''+''
     \<and> (of_char (hex_digit n) :: nat) < 128"
proof -
  have "list_all (\<lambda>n. to_digit 16 (hex_digit n) = Some n \<and> hex_digit n \<noteq> CHR ''+''
     \<and> (of_char (hex_digit n) :: nat) < 128) [0..<16]" by code_simp
  then show "n < 16 \<Longrightarrow> ?thesis" by (simp only: list_all_iff set_upt atLeastLessThan_iff) simp
qed

lemma hex_pair:
  assumes "b < 256"
  shows "from_str_radix 8 16 [hex_digit (b div 16), hex_digit (b mod 16)] = Some b"
    "utf8_ok [hex_digit (b div 16), hex_digit (b mod 16)]"
proof -
  have "b div 16 < 16" "b mod 16 < 16" using assms by simp_all
  note d = this [THEN hex_digit_facts]
  have "b div 16 * 16 + b mod 16 = b" by simp
  then show "from_str_radix 8 16 [hex_digit (b div 16), hex_digit (b mod 16)] = Some b"
    using d assms by (simp add: from_str_radix_def)
  show "utf8_ok [hex_digit (b div 16), hex_digit (b mod 16)]" using d by (simp add: utf8_ok_def)
qed

lemma chunks_of_hex:
  "chunks2 (hex_encode bs) = map (\<lambda>b. [hex_digit (b div 16), hex_digit (b mod 16)]) bs"
  by (induction bs) simp_all

lemma char_count_hex: "is_bytes bs \<Longrightarrow> char_count (hex_encode bs) = 2 * length bs"
proof (induction bs)
  case (Cons b bs)
  then have "b < 16 * 16" by simp
  then have "b div 16 < 16" "b mod 16 < 16" by (simp_all add: less_mult_imp_div_less)
  note d = this [THEN hex_digit_facts]
  then show ?case using Cons by (simp add: char_count_def)
qed (simp add: char_count_def)

lemma hex_steps:
  assumes "is_bytes bs" and "length acc = 32" and "i + length bs \<le> 32"
  shows "fold_result hex_step
      (List.enumerate i (map (\<lambda>b. [hex_digit (b div 16), hex_digit (b mod 16)]) bs)) acc
    = Inr (take (32 - i - length bs) acc @ rev bs @ drop (32 - i) acc)"
  using assms
proof (induction bs arbitrary: i acc)
  case (Cons b bs)
  have b: "b < 256" and i: "i < 32" using Cons.prems by simp_all
  have "hex_step (i, [hex_digit (b div 16), hex_digit (b mod 16)]) acc = Inr (acc[31 - i := b])"
    using hex_pair [OF b] i by (simp add: hex_step_def checked_sub_def FIELD_SIZE_def)
  moreover have "drop (31 - i) (acc[31 - i := b]) = b # drop (32 - i) acc"
    using i Cons.prems(2) by (simp add: upd_conv_take_nth_drop Suc_diff_le [symmetric])
  moreover have "take (31 - i - length bs) (acc[31 - i := b]) = take (31 - i - length bs) acc"
    by (simp add: take_update_cancel)
  ultimately show ?case
    using Cons.IH [where i = "Suc i" and acc = "acc[31 - i := b]"] Cons.prems by simp
qed simp

lemma hex_to_scalar_encode:
  assumes "is_bytes bs" "length bs = 32"
  shows "hex_to_scalar (''0x'' @ hex_encode (rev bs)) = Inr (le_value bs mod prime)"
  using assms hex_steps [of "rev bs" "replicate 32 0" 0] char_count_hex [of "rev bs"]
  by (simp add: hex_to_scalar_def chunks_of_hex FIELD_SIZE_def)

text \<open>Decimal text: the two halves are put together again in the field.\<close>

lemma decimal_to_field_bytes_eq:
  "decimal_to_field_bytes t =
     (case from_str_radix 128 10 t of None \<Rightarrow> Inl (Err InvalidDecimal) | Some v \<Rightarrow> Inr (le_digits 32 v))"
proof (cases "from_str_radix 128 10 t")
  case None
  then show ?thesis by (simp add: decimal_to_field_bytes_def)
next
  case (Some v)
  have v: "v < 2 ^ 128"
    using Some by (auto simp: from_str_radix_def split: if_splits option.splits)
  let ?v = "word_of_nat v :: u128"
  have un: "unat ?v = v" using v by (simp add: unat_of_nat)
  have "and ?v 0xFFFFFFFFFFFFFFFF = take_bit 64 ?v"
    by (simp add: take_bit_eq_mask mask_eq_exp_minus_1)
  then have low: "unat (ucast (and ?v 0xFFFFFFFFFFFFFFFF) :: 64 word) = v mod 2 ^ 64"
    by (simp add: unsigned_ucast_eq un take_bit_eq_mod unat_mod)
  have "v div 2 ^ 64 < 2 ^ 64" using v by (simp add: less_mult_imp_div_less)
  then have high: "unat (ucast (drop_bit 64 ?v) :: 64 word) = v div 2 ^ 64"
    by (simp add: unsigned_ucast_eq un take_bit_eq_mod drop_bit_eq_div unat_div)
  have "fmul (unat (push_bit 32 1 :: 64 word)) (unat (push_bit 32 1 :: 64 word)) = 2 ^ 64"
    by (simp add: fmul_def prime_def)
  moreover have "fadd (v mod 2 ^ 64) (fmul (v div 2 ^ 64) (2 ^ 64)) = v"
  proof -
    have "v < prime" using v pow_128_less by (rule less_trans)
    then show ?thesis by (simp add: fadd_def fmul_def mod_add_right_eq)
  qed
  ultimately show ?thesis
    using Some low high by (simp add: decimal_to_field_bytes_def Let_def)
qed

section \<open>A permutation without rounds\<close>

definition bare_params :: "nat \<Rightarrow> poseidon2_params" where
  "bare_params t = \<lparr>width = t, degree = 5, rounds_f_div_2 = 0, rounds_p = 0, rounds = 0,
     mat_internal_diag_m_1 = [], mat_internal = [], round_constants = []\<rparr>"

lemma bare_permutation:
  "permutation (bare_params 2) [a, b] = Some [(2 * a + b) mod prime, (a + 2 * b) mod prime]"
  "\<exists>y z. permutation (bare_params 3) [a, b, c] = Some [(2 * a + b + c) mod prime, y, z]"
  by (simp_all add: permutation_def bare_params_def matmul_external_def fadd_def Let_def mod_add_right_eq
      mod_add_left_eq ac_simps mult_2_right)

lemma residue_word:
  "unat (word_of_nat (n mod prime) :: u256) = n mod prime" "canonical (word_of_nat (n mod prime))"
  using scalar_to_field_eq [of "n mod prime"] prime_pos by simp_all

text \<open>
  the encodings of the prover's scalars read back. Every scalar survives its hexadecimal
  text, its bytes and its application field element, each of which it always has (no panic); an
  application field element survives its scalar; bytes are read exactly when there are 32 of
  them, and then reduced; a decimal text is read exactly when it is a \<open>u128\<close>, and gives the bytes
  of that number.
\<close>

theorem prover_encodings_read_back:
  assumes "s < prime" and "canonical (field_value f)"
  shows "(\<exists>h. scalar_to_hex s = Inr h \<and> hex_to_scalar h = Inr s)
    \<and> (\<exists>bs. scalar_to_bytes s = Inr bs \<and> length bs = 32 \<and> is_bytes bs \<and> bytes_to_scalar bs = Inr s)
    \<and> (\<exists>g. scalar_to_field s = Inr g \<and> canonical (field_value g) \<and> field_to_scalar g = s)
    \<and> scalar_to_field (field_to_scalar f) = Inr f
    \<and> (bytes_to_scalar bs = Inr x \<longleftrightarrow> length bs = 32 \<and> x = le_value bs mod prime)
    \<and> (decimal_to_field_bytes t = Inr ds \<longleftrightarrow>
         (\<exists>v. from_str_radix 128 10 t = Some v \<and> le_value ds = v \<and> length ds = 32 \<and> is_bytes ds))"
proof (intro conjI)
  show "\<exists>h. scalar_to_hex s = Inr h \<and> hex_to_scalar h = Inr s"
    using hex_to_scalar_encode [of "le_digits 32 s"] assms(1)
    by (simp add: scalar_to_hex_def scalar_bytes_value)
  show "\<exists>bs. scalar_to_bytes s = Inr bs \<and> length bs = 32 \<and> is_bytes bs \<and> bytes_to_scalar bs = Inr s"
    using bytes_to_scalar_bytes [OF assms(1)] by simp
  show "\<exists>g. scalar_to_field s = Inr g \<and> canonical (field_value g) \<and> field_to_scalar g = s"
    using scalar_to_field_eq [OF assms(1)] by (auto simp: field_to_scalar_eq)
  show "scalar_to_field (field_to_scalar f) = Inr f"
    using assms(2) scalar_to_field_eq(1) [of "unat (field_value f)"]
    by (cases f) (simp add: field_to_scalar_eq canonical_unat)
  show "bytes_to_scalar bs = Inr x \<longleftrightarrow> length bs = 32 \<and> x = le_value bs mod prime"
    by (rule bytes_to_scalar_Inr)
  have v: "v < 256 ^ 32" if "from_str_radix 128 10 t = Some v" for v
  proof -
    have "v < 2 ^ 128" using that by (auto simp: from_str_radix_def split: if_splits option.splits)
    then show ?thesis using prime_less_pow pow_128_less by (meson less_trans)
  qed
  show "decimal_to_field_bytes t = Inr ds \<longleftrightarrow>
      (\<exists>v. from_str_radix 128 10 t = Some v \<and> le_value ds = v \<and> length ds = 32 \<and> is_bytes ds)"
    using v by (auto simp: decimal_to_field_bytes_eq le_value_le_digits split: option.splits)
      (metis le_digits_le_value)
qed

theorem prover_encodings_read_back_witness:
  "(\<exists>h. scalar_to_hex 300 = Inr h \<and> hex_to_scalar h = Inr 300)
   \<and> scalar_to_field (field_to_scalar (Field 7)) = Inr (Field 7)
   \<and> decimal_to_field_bytes ''18446744073709551617'' = Inr ([1, 0, 0, 0, 0, 0, 0, 0, 1] @ replicate 23 0)"
proof -
  have s: "300 < prime" and f: "canonical (field_value (Field 7))" by (simp_all add: prime_def)
  let ?bs = "[1, 0, 0, 0, 0, 0, 0, 0, 1] @ replicate 23 0 :: nat list"
  have "from_str_radix 128 10 ''18446744073709551617'' = Some 18446744073709551617"
    by (simp add: from_str_radix_def to_digit_def)
  moreover have "le_value (replicate n 0) = 0" for n by (induction n) simp_all
  then have "le_value ?bs = 18446744073709551617" "length ?bs = 32" "is_bytes ?bs"
    unfolding le_value_append by (simp_all add: is_bytes_def)
  ultimately have "decimal_to_field_bytes ''18446744073709551617'' = Inr ?bs"
    using prover_encodings_read_back [OF s f, of "[]" 0 "''18446744073709551617''" ?bs] by blast
  then show ?thesis using prover_encodings_read_back [OF s f] by blast
qed

end
