(* ===== verification/ProverSparse.thy ===== *)
theory ProverSparse
  imports ProverCodec NonMembershipHistory
begin

text \<open>
  The sparse Merkle tree of the prover (\<open>app/crates/core/prover/src/sparse_merkle.rs\<close>): nodes
  in a map keyed by the little-endian bytes of their hash, \<open>find\<close>, \<open>insert\<close>, \<open>update\<close> and the
  byte wrappers of the WASM interface. The errors are the constructors of \<open>smt_error\<close>, a panic is
  \<^const>\<open>Trap\<close>, \<open>usize\<close> has 32 bits.
\<close>

datatype smt_error =
  MaxDepth | LevelOverflow | NodeNotFound | SmtKeyExists | SmtKeyMissing | Expected32Bytes | FieldOutOfRange

datatype smt_node =
    EmptyNode
  | LeafNode field_element field_element
  | InternalNode field_element field_element

record smt_find_result =
  sf_found :: bool
  sf_siblings :: "field_element list"
  sf_found_value :: field_element
  sf_not_found_key :: field_element
  sf_not_found_value :: field_element
  sf_is_old0 :: bool

record smt_result =
  sr_old_root :: field_element
  sr_new_root :: field_element
  sr_siblings :: "field_element list"
  sr_old_key :: field_element
  sr_old_value :: field_element
  sr_new_key :: field_element
  sr_new_value :: field_element
  sr_is_old0 :: bool

record sparse_merkle_tree =
  st_db :: "nat list \<rightharpoonup> smt_node"
  st_root :: field_element

section \<open>Hashes and key bits\<close>

definition poseidon2_hash_leaf ::
  "poseidon2_params \<Rightarrow> field_element \<Rightarrow> field_element \<Rightarrow> (smt_error, field_element) result" where
  "poseidon2_hash_leaf p3 key value =
     and_then (unwrap (poseidon2_hash2_internal p3 (field_to_scalar key) (field_to_scalar value) (Some 1)))
       scalar_to_field"

definition smt_hash_pair_field ::
  "poseidon2_params \<Rightarrow> field_element \<Rightarrow> field_element \<Rightarrow> (smt_error, field_element) result" where
  "smt_hash_pair_field p2 left right =
     and_then (unwrap (poseidon2_compression p2 (field_to_scalar left) (field_to_scalar right)))
       scalar_to_field"

text \<open>The 64-bit limbs of a scalar, and their bits from the lowest.\<close>

definition limbs :: "scalar \<Rightarrow> 64 word list" where
  "limbs s = map (\<lambda>i. word_of_nat (s div 2 ^ (64 * i))) [0..<4]"

definition limb_bits :: "64 word \<Rightarrow> bool list" where
  "limb_bits limb = map (\<lambda>i. and (drop_bit i limb) 1 = 1) [0..<64]"

definition field_to_bits :: "field_element \<Rightarrow> bool list" where
  "field_to_bits f = take 256 (concat (map limb_bits (limbs (field_to_scalar f))))"

section \<open>The node store\<close>

definition smt_new :: sparse_merkle_tree where
  "smt_new = \<lparr>st_db = Map.empty, st_root = Field 0\<rparr>"

definition get_node :: "sparse_merkle_tree \<Rightarrow> field_element \<Rightarrow> smt_node option" where
  "get_node t hash = (if hash = Field 0 then Some EmptyNode else st_db t (field_to_le_bytes hash))"

definition put_node :: "field_element \<Rightarrow> smt_node \<Rightarrow> sparse_merkle_tree \<Rightarrow> sparse_merkle_tree" where
  "put_node hash n t =
     (if hash \<noteq> Field 0 then t\<lparr>st_db := (st_db t)(field_to_le_bytes hash \<mapsto> n)\<rparr> else t)"

section \<open>Finding\<close>

definition absent_at_empty :: "field_element \<Rightarrow> smt_find_result" where
  "absent_at_empty key =
     \<lparr>sf_found = False, sf_siblings = [], sf_found_value = Field 0, sf_not_found_key = key,
      sf_not_found_value = Field 0, sf_is_old0 = True\<rparr>"

definition at_leaf :: "field_element \<Rightarrow> field_element \<Rightarrow> field_element \<Rightarrow> smt_find_result" where
  "at_leaf key leaf_key leaf_val =
     (if leaf_key = key
      then \<lparr>sf_found = True, sf_siblings = [], sf_found_value = leaf_val, sf_not_found_key = Field 0,
            sf_not_found_value = Field 0, sf_is_old0 = False\<rparr>
      else \<lparr>sf_found = False, sf_siblings = [], sf_found_value = Field 0, sf_not_found_key = leaf_key,
            sf_not_found_value = leaf_val, sf_is_old0 = False\<rparr>)"

function find_internal ::
  "sparse_merkle_tree \<Rightarrow> field_element \<Rightarrow> bool list \<Rightarrow> field_element \<Rightarrow> nat \<Rightarrow> (smt_error, smt_find_result) result"
where
  "find_internal t key key_bits current_hash level =
     (if 256 \<le> level then Inl (Err MaxDepth)
      else if current_hash = Field 0 then Inr (absent_at_empty key)
      else
        (case get_node t current_hash of
           Some (LeafNode leaf_key leaf_val) \<Rightarrow> Inr (at_leaf key leaf_key leaf_val)
         | Some (InternalNode left right) \<Rightarrow>
             (case nth_opt key_bits level of
                None \<Rightarrow> Inl Trap
              | Some b \<Rightarrow>
                  (case checked_add 32 level 1 of
                     None \<Rightarrow> Inl (Err LevelOverflow)
                   | Some next_level \<Rightarrow>
                       and_then (find_internal t key key_bits (if b then right else left) next_level) (\<lambda>r.
                         Inr (r\<lparr>sf_siblings := sf_siblings r @ [if b then left else right]\<rparr>))))
         | Some EmptyNode \<Rightarrow> Inr (absent_at_empty key)
         | None \<Rightarrow> Inl (Err NodeNotFound)))"
  by pat_completeness auto

termination
  by (relation "measure (\<lambda>(_, _, _, _, level). 256 - level)") (auto simp: checked_add_Some)

declare find_internal.simps [simp del]

definition smt_find :: "sparse_merkle_tree \<Rightarrow> field_element \<Rightarrow> (smt_error, smt_find_result) result" where
  "smt_find t key =
     and_then (find_internal t key (field_to_bits key) (st_root t) 0) (\<lambda>r.
       Inr (r\<lparr>sf_siblings := rev (sf_siblings r)\<rparr>))"

section \<open>Inserting and updating\<close>

function pad_to_divergence ::
  "bool list \<Rightarrow> bool list \<Rightarrow> nat \<Rightarrow> field_element list \<Rightarrow> (smt_error, field_element list) result" where
  "pad_to_divergence old_key_bits key_bits diverge_level siblings =
     (if diverge_level < 256
      then and_then (unwrap (nth_opt old_key_bits diverge_level)) (\<lambda>a.
           and_then (unwrap (nth_opt key_bits diverge_level)) (\<lambda>b.
             if a = b
             then pad_to_divergence old_key_bits key_bits (min (diverge_level + 1) (2 ^ 32 - 1))
                    (siblings @ [Field 0])
             else Inr siblings))
      else Inr siblings)"
  by pat_completeness auto

termination by (relation "measure (\<lambda>(_, _, diverge_level, _). 256 - diverge_level)") auto

declare pad_to_divergence.simps [simp del]

definition smt_climb ::
  "poseidon2_params \<Rightarrow> bool list \<Rightarrow> nat \<times> field_element \<Rightarrow> field_element \<times> sparse_merkle_tree
     \<Rightarrow> (smt_error, field_element \<times> sparse_merkle_tree) result" where
  "smt_climb p2 key_bits level_sibling st =
     (case level_sibling of (level, sibling) \<Rightarrow> case st of (current_hash, t) \<Rightarrow>
      and_then (unwrap (nth_opt key_bits level)) (\<lambda>b.
      let left = (if b then sibling else current_hash); right = (if b then current_hash else sibling) in
      and_then (smt_hash_pair_field p2 left right) (\<lambda>h.
        Inr (h, put_node h (InternalNode left right) t))))"

function trim_zero_fields :: "field_element list \<Rightarrow> field_element list" where
  "trim_zero_fields siblings =
     (if siblings \<noteq> [] \<and> last siblings = Field 0 then trim_zero_fields (butlast siblings) else siblings)"
  by pat_completeness auto

termination by (relation "measure length") auto

declare trim_zero_fields.simps [simp del]

definition smt_insert ::
  "poseidon2_params \<Rightarrow> poseidon2_params \<Rightarrow> field_element \<Rightarrow> field_element \<Rightarrow> sparse_merkle_tree
     \<Rightarrow> (smt_error, smt_result \<times> sparse_merkle_tree) result" where
  "smt_insert p2 p3 key value t =
     and_then (smt_find t key) (\<lambda>found.
     if sf_found found then Inl (Err SmtKeyExists)
     else
       let old_root = st_root t; key_bits = field_to_bits key in
       and_then (poseidon2_hash_leaf p3 key value) (\<lambda>new_leaf_hash.
       let t1 = put_node new_leaf_hash (LeafNode key value) t in
       and_then
         (if \<not> sf_is_old0 found then
            and_then
              (pad_to_divergence (field_to_bits (sf_not_found_key found)) key_bits
                 (length (sf_siblings found)) (sf_siblings found)) (\<lambda>padded.
            and_then (poseidon2_hash_leaf p3 (sf_not_found_key found) (sf_not_found_value found)) (\<lambda>old_leaf_hash.
              Inr (padded @ [old_leaf_hash])))
          else Inr (sf_siblings found)) (\<lambda>siblings.
       and_then (fold_result (smt_climb p2 key_bits) (rev (List.enumerate 0 siblings)) (new_leaf_hash, t1))
         (\<lambda>(current_hash, t2).
       let trimmed = trim_zero_fields siblings;
           result_siblings = (if \<not> sf_is_old0 found \<and> trimmed \<noteq> [] then butlast trimmed else trimmed) in
         Inr (\<lparr>sr_old_root = old_root, sr_new_root = current_hash, sr_siblings = result_siblings,
               sr_old_key = sf_not_found_key found, sr_old_value = sf_not_found_value found,
               sr_new_key = key, sr_new_value = value, sr_is_old0 = sf_is_old0 found\<rparr>,
              t2\<lparr>st_root := current_hash\<rparr>)))))"

definition smt_update ::
  "poseidon2_params \<Rightarrow> poseidon2_params \<Rightarrow> field_element \<Rightarrow> field_element \<Rightarrow> sparse_merkle_tree
     \<Rightarrow> (smt_error, smt_result \<times> sparse_merkle_tree) result" where
  "smt_update p2 p3 key new_value t =
     and_then (smt_find t key) (\<lambda>found.
     if \<not> sf_found found then Inl (Err SmtKeyMissing)
     else
       let old_root = st_root t; key_bits = field_to_bits key in
       and_then (poseidon2_hash_leaf p3 key new_value) (\<lambda>new_leaf_hash.
       let t1 = put_node new_leaf_hash (LeafNode key new_value) t in
       and_then
         (fold_result (smt_climb p2 key_bits) (rev (List.enumerate 0 (sf_siblings found))) (new_leaf_hash, t1))
         (\<lambda>(current_hash, t2).
         Inr (\<lparr>sr_old_root = old_root, sr_new_root = current_hash, sr_siblings = sf_siblings found,
               sr_old_key = key, sr_old_value = sf_found_value found, sr_new_key = key,
               sr_new_value = new_value, sr_is_old0 = False\<rparr>,
              t2\<lparr>st_root := current_hash\<rparr>))))"

section \<open>The byte interface\<close>

record wasm_smt_result =
  wr_old_root :: "nat list"
  wr_new_root :: "nat list"
  wr_siblings :: "nat list"
  wr_old_key :: "nat list"
  wr_old_value :: "nat list"
  wr_new_key :: "nat list"
  wr_new_value :: "nat list"
  wr_is_old0 :: bool
  wr_num_siblings :: nat

record wasm_find_result =
  wf_found :: bool
  wf_siblings :: "nat list"
  wf_found_value :: "nat list"
  wf_not_found_key :: "nat list"
  wf_not_found_value :: "nat list"
  wf_is_old0 :: bool
  wf_root :: "nat list"
  wf_num_siblings :: nat

definition bytes_to_field :: "nat list \<Rightarrow> (smt_error, field_element) result" where
  "bytes_to_field bs =
     and_then (ensure (length bs = 32) Expected32Bytes) (\<lambda>_. ok_or (try_from_le_bytes bs) FieldOutOfRange)"

definition wasm_result_from :: "smt_result \<Rightarrow> wasm_smt_result" where
  "wasm_result_from r =
     \<lparr>wr_old_root = field_to_le_bytes (sr_old_root r), wr_new_root = field_to_le_bytes (sr_new_root r),
      wr_siblings = concat (map field_to_le_bytes (sr_siblings r)),
      wr_old_key = field_to_le_bytes (sr_old_key r), wr_old_value = field_to_le_bytes (sr_old_value r),
      wr_new_key = field_to_le_bytes (sr_new_key r), wr_new_value = field_to_le_bytes (sr_new_value r),
      wr_is_old0 = sr_is_old0 r, wr_num_siblings = length (sr_siblings r)\<rparr>"

definition wasm_find_from :: "smt_find_result \<Rightarrow> field_element \<Rightarrow> wasm_find_result" where
  "wasm_find_from r root =
     \<lparr>wf_found = sf_found r, wf_siblings = concat (map field_to_le_bytes (sf_siblings r)),
      wf_found_value = field_to_le_bytes (sf_found_value r),
      wf_not_found_key = field_to_le_bytes (sf_not_found_key r),
      wf_not_found_value = field_to_le_bytes (sf_not_found_value r),
      wf_is_old0 = sf_is_old0 r, wf_root = field_to_le_bytes root,
      wf_num_siblings = length (sf_siblings r)\<rparr>"

definition wasm_root :: "sparse_merkle_tree \<Rightarrow> nat list" where
  "wasm_root t = field_to_le_bytes (st_root t)"

definition wasm_insert ::
  "poseidon2_params \<Rightarrow> poseidon2_params \<Rightarrow> nat list \<Rightarrow> nat list \<Rightarrow> sparse_merkle_tree
     \<Rightarrow> (smt_error, wasm_smt_result \<times> sparse_merkle_tree) result" where
  "wasm_insert p2 p3 key_bytes value_bytes t =
     and_then (bytes_to_field key_bytes) (\<lambda>key.
     and_then (bytes_to_field value_bytes) (\<lambda>val.
     and_then (smt_insert p2 p3 key val t) (\<lambda>(r, t1). Inr (wasm_result_from r, t1))))"

definition wasm_update ::
  "poseidon2_params \<Rightarrow> poseidon2_params \<Rightarrow> nat list \<Rightarrow> nat list \<Rightarrow> sparse_merkle_tree
     \<Rightarrow> (smt_error, wasm_smt_result \<times> sparse_merkle_tree) result" where
  "wasm_update p2 p3 key_bytes new_value_bytes t =
     and_then (bytes_to_field key_bytes) (\<lambda>key.
     and_then (bytes_to_field new_value_bytes) (\<lambda>new_value.
     and_then (smt_update p2 p3 key new_value t) (\<lambda>(r, t1). Inr (wasm_result_from r, t1))))"

definition wasm_find :: "nat list \<Rightarrow> sparse_merkle_tree \<Rightarrow> (smt_error, wasm_find_result) result" where
  "wasm_find key_bytes t =
     and_then (bytes_to_field key_bytes) (\<lambda>key.
     and_then (smt_find t key) (\<lambda>r. Inr (wasm_find_from r (st_root t))))"

text \<open>\<open>SMTProof\<close> has the fields of a find result; its siblings are padded with zeros.\<close>

definition get_proof :: "nat list \<Rightarrow> nat \<Rightarrow> sparse_merkle_tree \<Rightarrow> (smt_error, wasm_find_result) result" where
  "get_proof key_bytes max_levels t =
     and_then (bytes_to_field key_bytes) (\<lambda>key.
     and_then (smt_find t key) (\<lambda>r.
     let siblings = sf_siblings r @ replicate (max_levels - length (sf_siblings r)) (Field 0) in
       Inr (wasm_find_from (r\<lparr>sf_siblings := siblings\<rparr>) (st_root t))))"

definition smt_hash_pair :: "poseidon2_params \<Rightarrow> nat list \<Rightarrow> nat list \<Rightarrow> (smt_error, nat list) result" where
  "smt_hash_pair p2 left right =
     and_then (bytes_to_field left) (\<lambda>l.
     and_then (bytes_to_field right) (\<lambda>r.
     and_then (smt_hash_pair_field p2 l r) (\<lambda>h. Inr (field_to_le_bytes h))))"

definition smt_hash_leaf :: "poseidon2_params \<Rightarrow> nat list \<Rightarrow> nat list \<Rightarrow> (smt_error, nat list) result" where
  "smt_hash_leaf p3 key_bytes value_bytes =
     and_then (bytes_to_field key_bytes) (\<lambda>k.
     and_then (bytes_to_field value_bytes) (\<lambda>v.
     and_then (poseidon2_hash_leaf p3 k v) (\<lambda>h. Inr (field_to_le_bytes h))))"

section \<open>The hashes on field elements\<close>

text \<open>
  \<open>prover_hashes p2 p3 hl hc\<close>: on canonical inputs the two hash functions return, with the values
  \<open>hl\<close> and \<open>hc\<close>.
\<close>

definition prover_hashes ::
  "poseidon2_params \<Rightarrow> poseidon2_params \<Rightarrow> (u256 \<Rightarrow> u256 \<Rightarrow> u256) \<Rightarrow> (u256 \<Rightarrow> u256 \<Rightarrow> u256) \<Rightarrow> bool" where
  "prover_hashes p2 p3 hl hc \<longleftrightarrow>
     (\<forall>a b. canonical a \<longrightarrow> canonical b \<longrightarrow>
        poseidon2_compression p2 (unat a) (unat b) = Some (unat (hc a b)) \<and> canonical (hc a b)
      \<and> poseidon2_hash2_internal p3 (unat a) (unat b) (Some 1) = Some (unat (hl a b)) \<and> canonical (hl a b))"

lemma scalar_to_field_unat: "canonical a \<Longrightarrow> scalar_to_field (unat a) = Inr (Field a)"
  using scalar_to_field_eq(1) [of "unat a"] by (simp add: canonical_unat)

lemma prover_hash_values:
  assumes "prover_hashes p2 p3 hl hc" and "canonical a" "canonical b"
  shows "smt_hash_pair_field p2 (Field a) (Field b) = Inr (Field (hc a b))" "canonical (hc a b)"
    "poseidon2_hash_leaf p3 (Field a) (Field b) = Inr (Field (hl a b))" "canonical (hl a b)"
  using assms
  by (auto simp: prover_hashes_def smt_hash_pair_field_def poseidon2_hash_leaf_def field_to_scalar_eq
      scalar_to_field_unat)

lemma canonical_hash:
  assumes "prover_hashes p2 p3 hl hc" and "canonical_tree t"
  shows "canonical (tree_hash hl hc t)"
  using assms(2) by (induction t) (simp_all add: prover_hash_values [OF assms(1)])

section \<open>Key bits\<close>

lemma limb_bits_eq: "limb_bits limb = map (bit limb) [0..<64]"
proof -
  have "and (drop_bit i limb) 1 = 1 \<longleftrightarrow> bit limb i" for i
    by (simp add: and_one_eq odd_iff_mod_2_eq_one [symmetric] bit_iff_odd_drop_bit)
  then show ?thesis by (simp add: limb_bits_def)
qed

lemma concat_blocks:
  "concat (map (\<lambda>i. map (\<lambda>j. f (m * i + j)) [0..<m]) [0..<n]) = map f [0..<m * n]"
proof (induction n)
  case (Suc n)
  have "[0..<m * Suc n] = [0..<m * n] @ map (\<lambda>j. m * n + j) [0..<m]"
    using upt_add_eq_append [of 0 "m * n" m] by (simp add: map_add_upt add.commute)
  then show ?case using Suc by simp
qed simp

lemma limb_bits_of: "limb_bits (word_of_nat (s div 2 ^ (64 * i))) = map (\<lambda>j. odd (s div 2 ^ (64 * i + j))) [0..<64]"
proof -
  have "bit (word_of_nat n :: 64 word) j = odd (n div 2 ^ j)" if "j < 64" for n j
    using that by (simp add: bit_of_nat_iff bit_iff_odd [of n])
  then show ?thesis by (simp add: limb_bits_eq div_mult2_eq [symmetric] power_add)
qed

lemma field_to_bits_eq: "canonical k \<Longrightarrow> field_to_bits (Field k) = map (key_bit k) [0..<256]"
  using concat_blocks [of "\<lambda>j. odd (unat k div 2 ^ j)" 64 4]
  by (simp add: field_to_bits_def limbs_def comp_def limb_bits_of field_to_scalar_eq key_bit_def [abs_def])

lemma field_to_bits_nth [simp]:
  "canonical k \<Longrightarrow> j < 256 \<Longrightarrow> nth_opt (field_to_bits (Field k)) j = Some (key_bit k j)"
  by (simp add: field_to_bits_eq nth_opt_def)

section \<open>The stored tree\<close>

definition smt_get :: "sparse_merkle_tree \<Rightarrow> u256 \<Rightarrow> smt_node option" where
  "smt_get t x = st_db t (to_le_bytes x)"

lemma to_le_bytes_inject: "to_le_bytes x = to_le_bytes y \<longleftrightarrow> x = y"
  by (metis from_to_le_bytes)

interpretation smt_nodes: node_store smt_get "\<lambda>x n. put_node (Field x) n"
  by unfold_locales (simp add: smt_get_def put_node_def field_to_le_bytes_def to_le_bytes_inject)

abbreviation prover_node ::
  "(u256 \<Rightarrow> u256 \<Rightarrow> u256) \<Rightarrow> (u256 \<Rightarrow> u256 \<Rightarrow> u256) \<Rightarrow> tree \<Rightarrow> smt_node option" where
  "prover_node \<equiv> node_of (\<lambda>k v. LeafNode (Field k) (Field v)) (\<lambda>l r. InternalNode (Field l) (Field r))"

definition smt_inv ::
  "(u256 \<Rightarrow> u256 \<Rightarrow> u256) \<Rightarrow> (u256 \<Rightarrow> u256 \<Rightarrow> u256) \<Rightarrow> tree \<Rightarrow> sparse_merkle_tree \<Rightarrow> bool" where
  "smt_inv hl hc u t \<longleftrightarrow>
     st_root t = Field (tree_hash hl hc u) \<and> placed 0 u \<and> compact u \<and> canonical_tree u
     \<and> holds (prover_node hl hc) (tree_hash hl hc) (smt_get t) u \<and> (\<forall>w \<in> subtrees u. tree_hash hl hc w \<noteq> 0)"

text \<open>A result of the contract's search in the types of the prover.\<close>

definition as_prover :: "find_result \<Rightarrow> smt_find_result" where
  "as_prover r =
     \<lparr>sf_found = fr_found r, sf_siblings = map Field (fr_siblings r),
      sf_found_value = Field (fr_found_value r), sf_not_found_key = Field (fr_not_found_key r),
      sf_not_found_value = Field (fr_not_found_value r), sf_is_old0 = fr_is_old0 r\<rparr>"

lemma as_prover_Cons:
  "rev (map Field ss) = ts \<Longrightarrow>
   (as_prover (found_at k [] e))\<lparr>sf_siblings := ts\<rparr>\<lparr>sf_siblings := ts @ [Field s]\<rparr>
     = (as_prover (found_at k [] e))\<lparr>sf_siblings := rev (map Field (s # ss))\<rparr>"
  by simp

lemma find_internal_descends:
  assumes "holds (prover_node hl hc) (tree_hash hl hc) (smt_get t) u"
    and "\<forall>w \<in> subtrees u. tree_hash hl hc w \<noteq> 0" and "canonical k"
    and "descend k lvl u = (ss, e)" and "lvl + length ss < 256"
  shows "find_internal t (Field k) (field_to_bits (Field k)) (Field (tree_hash hl hc u)) lvl
    = Inr ((as_prover (found_at k [] e))\<lparr>sf_siblings := rev (map (Field \<circ> tree_hash hl hc) ss)\<rparr>)"
  using assms
proof (induction k lvl u arbitrary: ss rule: descend.induct [case_names inner empty leaf])
  case (inner k lvl l r)
  let ?c = "if key_bit k lvl then r else l" and ?s = "if key_bit k lvl then l else r"
  obtain ss' where ss: "ss = ?s # ss'" and d: "descend k (Suc lvl) ?c = (ss', e)"
    using inner.prems(4) by (auto simp: Let_def split: prod.splits)
  have lvl: "lvl < 256" using inner.prems(5) ss by simp
  have "smt_get t (tree_hash hl hc (Inner l r)) = prover_node hl hc (Inner l r)"
    "tree_hash hl hc (Inner l r) \<noteq> 0"
    using inner.prems(1,2) unfolding holds_def by (blast intro: subtrees_self)+
  moreover have "find_internal t (Field k) (field_to_bits (Field k)) (Field (tree_hash hl hc ?c)) (Suc lvl)
      = Inr ((as_prover (found_at k [] e))\<lparr>sf_siblings := rev (map (Field \<circ> tree_hash hl hc) ss')\<rparr>)"
    using inner.prems(1,2,3,5) d ss by (intro inner.IH) (auto simp: holds_def)
  moreover have "checked_add 32 lvl 1 = Some (Suc lvl)"
    using lvl by (simp add: checked_add_def fits_def)
  ultimately show ?case
    using lvl inner.prems(3)
    by (subst find_internal.simps) (auto simp: ss get_node_def smt_get_def field_to_le_bytes_def simp del: tree_hash.simps)
next
  case (empty k lvl)
  then show ?case
    by (subst find_internal.simps) (simp add: absent_at_empty_def as_prover_def)
next
  case (leaf k lvl k' v')
  have eqs: "ss = []" "e = Leaf k' v'" using leaf.prems(4) by auto
  have "smt_get t (hl k' v') = Some (LeafNode (Field k') (Field v'))" "hl k' v' \<noteq> 0"
    using leaf.prems(1,2) by (simp_all add: holds_def)
  then show ?case unfolding eqs using leaf.prems(5)
    by (subst find_internal.simps)
      (auto simp: get_node_def smt_get_def field_to_le_bytes_def at_leaf_def as_prover_def)
qed

lemma canonical_key_bit: "canonical k \<Longrightarrow> 254 \<le> j \<Longrightarrow> \<not> key_bit k j"
proof -
  assume "canonical k" "254 \<le> j"
  moreover have "prime < 2 ^ 254" by (simp add: prime_def)
  ultimately show ?thesis by (intro key_bit_beyond [of k 254]) (simp_all add: canonical_unat)
qed

lemma smt_find_run:
  assumes inv: "smt_inv hl hc u t" and k: "canonical k" and d: "descend k 0 u = (ss, e)"
  shows "smt_find t (Field k) = Inr (as_prover (found_at k (map (tree_hash hl hc) ss) e))"
    "length ss \<le> 254"
proof -
  have wf: "placed 0 u" "compact u" "canonical_tree u" using inv by (simp_all add: smt_inv_def)
  have "\<forall>k' \<in> keys u. \<forall>j \<ge> 254. \<not> key_bit k' j"
    using wf(3) canonical_key_bit by (auto simp: canonical_tree_def)
  from descend_depth [OF this _ wf(1,2) d] show len: "length ss \<le> 254" by simp
  have "as_prover (found_at k (map (tree_hash hl hc) ss) e)
      = (as_prover (found_at k [] e))\<lparr>sf_siblings := map (Field \<circ> tree_hash hl hc) ss\<rparr>"
    by (cases e) (simp_all add: as_prover_def)
  then show "smt_find t (Field k) = Inr (as_prover (found_at k (map (tree_hash hl hc) ss) e))"
    using find_internal_descends [OF _ _ k d] inv len
    by (simp add: smt_find_def smt_inv_def rev_map [symmetric])
qed

section \<open>Rebuilding a path\<close>

lemma smt_climb_run:
  assumes hash: "prover_hashes p2 p3 hl hc" and cf: "collision_free (tree_hash hl hc) T"
    and "\<forall>s \<in> set ss. canonical_tree s" and "canonical_tree c" and "canonical k" and "lvl + length ss \<le> 256"
    and "set (path_nodes k lvl ss c) \<subseteq> T" and "A \<subseteq> T"
    and "swapped (prover_node hl hc) (tree_hash hl hc) g (smt_get t) {} A"
  shows "\<exists>t'. fold_result (smt_climb p2 (field_to_bits (Field k)))
        (rev (List.enumerate lvl (map (\<lambda>s. Field (tree_hash hl hc s)) ss))) (Field (tree_hash hl hc c), t)
      = Inr (Field (tree_hash hl hc (plug k lvl ss c)), t')
    \<and> swapped (prover_node hl hc) (tree_hash hl hc) g (smt_get t') {} (A \<union> set (path_nodes k lvl ss c))"
  using assms(3-)
proof (induction ss arbitrary: lvl)
  case Nil
  then show ?case by simp
next
  case (Cons s ss)
  let ?h = "tree_hash hl hc" and ?d = "plug k (Suc lvl) ss c"
  obtain t1 where t1: "fold_result (smt_climb p2 (field_to_bits (Field k)))
        (rev (List.enumerate (Suc lvl) (map (\<lambda>s. Field (?h s)) ss))) (Field (?h c), t) = Inr (Field (?h ?d), t1)"
    "swapped (prover_node hl hc) ?h g (smt_get t1) {} (A \<union> set (path_nodes k (Suc lvl) ss c))"
    using Cons.IH [of "Suc lvl"] Cons.prems by auto
  let ?l = "if key_bit k lvl then s else ?d" and ?r = "if key_bit k lvl then ?d else s"
  have can: "canonical (?h ?l)" "canonical (?h ?r)"
    using Cons.prems(1,2) by (auto intro!: canonical_hash [OF hash] simp: canonical_plug)
  have top: "plug k lvl (s # ss) c = Inner ?l ?r" by simp
  let ?t' = "put_node (Field (?h (Inner ?l ?r))) (InternalNode (Field (?h ?l)) (Field (?h ?r))) t1"
  have "smt_climb p2 (field_to_bits (Field k)) (lvl, Field (?h s)) (Field (?h ?d), t1)
      = Inr (Field (?h (Inner ?l ?r)), ?t')"
    using Cons.prems(3,4) prover_hash_values(1) [OF hash can] by (auto simp: smt_climb_def)
  moreover have "swapped (prover_node hl hc) ?h g (smt_get ?t') {}
      (insert (Inner ?l ?r) (A \<union> set (path_nodes k (Suc lvl) ss c)))"
    using Cons.prems(5,6) by (intro smt_nodes.swapped_put [OF t1(2) _ cf]) auto
  ultimately show ?case using t1(1)
    by (auto simp: fold_result_append simp del: tree_hash.simps)
qed

lemma pad_run:
  assumes "canonical k" "canonical k'"
  shows "i \<le> 256 \<Longrightarrow> pad_to_divergence (field_to_bits (Field k')) (field_to_bits (Field k)) i siblings
    = Inr (siblings @ replicate (diverge k k' i - i) (Field 0))"
  using assms
proof (induction k k' i arbitrary: siblings rule: diverge.induct)
  case (1 k k' i)
  show ?case
  proof (cases "i < 256 \<and> key_bit k' i = key_bit k i")
    case True
    then have "diverge k k' i = diverge k k' (Suc i)" by (simp add: diverge.simps [of k k' i])
    moreover have "diverge k k' (Suc i) - i = Suc (diverge k k' (Suc i) - Suc i)"
      using diverge_ge [of "Suc i" k k'] by simp
    ultimately show ?thesis
      using True "1.IH" [OF True _ "1.prems"(2,3), of "siblings @ [Field 0]"] "1.prems"(2,3)
      by (subst pad_to_divergence.simps) simp
  next
    case False
    then have "diverge k k' i = i" by (subst diverge.simps) (simp only: if_False)
    then show ?thesis using False "1.prems" by (subst pad_to_divergence.simps) auto
  qed
qed

lemma trim_id: "ss = [] \<or> last ss \<noteq> Field 0 \<Longrightarrow> trim_zero_fields ss = ss"
  by (subst trim_zero_fields.simps) auto

lemma smt_inv_after:
  assumes inv: "smt_inv hl hc u t" and wf: "placed 0 u'" "compact u'" "canonical_tree u'"
    and sw: "swapped (prover_node hl hc) (tree_hash hl hc) (smt_get t) (smt_get t') {} A"
    and sub: "subtrees u' \<subseteq> A \<union> subtrees u" and cf: "collision_free (tree_hash hl hc) T"
    and T: "subtrees u' \<subseteq> T" "A \<subseteq> T" and root: "st_root t' = Field (tree_hash hl hc u')"
  shows "smt_inv hl hc u' t'"
  using holds_swapped [OF _ sw sub _ cf T] inv wf root collision_free_nonzero [OF cf] T
  by (auto simp: smt_inv_def)

lemma smt_get_root [simp]: "smt_get (t\<lparr>st_root := r\<rparr>) = smt_get t"
  by (simp add: smt_get_def fun_eq_iff)

section \<open>What inserting and updating do\<close>

text \<open>The siblings reported are those of the new leaf, without the leaf it collided with.\<close>

definition reported :: "u256 \<Rightarrow> tree list \<Rightarrow> tree \<Rightarrow> tree list" where
  "reported k ss e = ss @ butlast (extension k (length ss) e)"

lemma smt_insert_run:
  assumes hash: "prover_hashes p2 p3 hl hc" and inv: "smt_inv hl hc u t"
    and can: "canonical k" "canonical v" and d: "descend k 0 u = (ss, e)" and new: "k \<notin> keys u"
    and cf: "collision_free (tree_hash hl hc) (insert_touches k v u)"
  shows "\<exists>t'. smt_insert p2 p3 (Field k) (Field v) t = Inr
      (\<lparr>sr_old_root = st_root t, sr_new_root = Field (tree_hash hl hc (insert_tree k v u)),
        sr_siblings = map (\<lambda>s. Field (tree_hash hl hc s)) (reported k ss e),
        sr_old_key = Field (fst (end_entry k e)), sr_old_value = Field (snd (end_entry k e)),
        sr_new_key = Field k, sr_new_value = Field v, sr_is_old0 = (e = Empty)\<rparr>, t')
    \<and> smt_inv hl hc (insert_tree k v u) t'"
proof -
  let ?h = "tree_hash hl hc" and ?T = "insert_touches k v u" and ?all = "ss @ extension k (length ss) e"
  have wf: "placed 0 u" "compact u" "canonical_tree u" using inv by (simp_all add: smt_inv_def)
  note found = smt_find_run [OF inv can(1) d]
  have u: "plug k 0 ss e = u" by (rule plug_descend [OF d])
  have e: "e = Empty \<or> (\<exists>k' v'. e = Leaf k' v')" by (rule descend_end [OF d])
  have canon: "\<forall>s \<in> set ss. canonical_tree s" "canonical_tree e"
    using wf(3) canonical_plug [of k 0 ss e] unfolding u by simp_all
  have ke: "k \<notin> keys e" using new entries_plug [of k 0 ss e] unfolding u by auto
  have nodes: "subtrees (insert_tree k v u) = added_by_insert k v u \<union> (subtrees u - old_path k u)"
    by (rule insert_tree_nodes(1) [OF wf(1,2) new])
  have A: "added_by_insert k v u = insert (Leaf k v) (set (path_nodes k 0 ?all (Leaf k v)))"
    by (simp add: added_by_insert_def d)
  have AT: "added_by_insert k v u \<subseteq> ?T" using nodes by (auto simp: insert_touches_def)
  have ins: "insert_tree k v u = plug k 0 ?all (Leaf k v)" by (simp add: insert_tree_def d)
  let ?t1 = "put_node (Field (hl k v)) (LeafNode (Field k) (Field v)) t"
  have "swapped (prover_node hl hc) ?h (smt_get t) (smt_get ?t1) {} {Leaf k v}"
    using smt_nodes.swapped_put [OF swapped_refl _ cf, where p = "Leaf k v"] AT A by simp
  moreover have len: "length ?all \<le> 256" "diverge k k' (length ss) < 256" if "e = Leaf k' v'" for k' v'
  proof -
    have "\<And>j. j < length ss \<Longrightarrow> key_bit k' j = key_bit k j"
      using wf(1) u placed_plug [of 0 k ss e] that by (simp add: same_way_def)
    then show "diverge k k' (length ss) < 256"
      using diverge_less [of k' k "length ss"] ke that found(2) by simp
    then show "length ?all \<le> 256" using that found(2) by simp
  qed
  moreover have ext: "\<forall>s \<in> set ?all. canonical_tree s" using canon e by auto
  moreover have "length ?all \<le> 256" using len e found(2) by auto
  ultimately obtain t2 where t2: "fold_result (smt_climb p2 (field_to_bits (Field k)))
        (rev (List.enumerate 0 (map (\<lambda>s. Field (?h s)) ?all))) (Field (?h (Leaf k v)), ?t1)
      = Inr (Field (?h (insert_tree k v u)), t2)"
    and sw: "swapped (prover_node hl hc) ?h (smt_get t) (smt_get t2) {} (added_by_insert k v u)"
    using smt_climb_run [OF hash cf ext _ can(1), of "Leaf k v" 0 "{Leaf k v}" "smt_get t" ?t1] AT can
    unfolding A ins by auto
  have after: "smt_inv hl hc (insert_tree k v u) (t2\<lparr>st_root := Field (?h (insert_tree k v u))\<rparr>)"
    using insert_tree_ok [OF wf(1,2) new, of v] sw nodes AT wf(3) can
    by (intro smt_inv_after [OF inv _ _ _ _ _ cf]) (auto simp: insert_touches_def canonical_tree_def)
  have leaf: "poseidon2_hash_leaf p3 (Field k) (Field v) = Inr (Field (hl k v))"
    by (rule prover_hash_values(3) [OF hash can])
  show ?thesis
  proof (cases e)
    case Empty
    have "ss = [] \<or> last ss \<noteq> Empty"
      using wf(2) compact_plug [of ss k 0 e] Empty unfolding u by auto
    moreover have "?h s = 0 \<longleftrightarrow> s = Empty" if "s \<in> set ss" for s
      using that inv subtrees_plug [of k 0 ss e] subtrees_self [of s] unfolding u smt_inv_def by fastforce
    ultimately have "ss = [] \<or> last (map (\<lambda>s. Field (?h s)) ss) \<noteq> Field 0"
      by (auto simp: last_map)
    then have trim: "trim_zero_fields (map (\<lambda>s. Field (?h s)) ss) = map (\<lambda>s. Field (?h s)) ss"
      by (intro trim_id) auto
    show ?thesis using after t2 found(1) leaf trim
      by (simp add: smt_insert_def Empty as_prover_def reported_def comp_def)
  next
    case (Leaf k' v')
    have can': "canonical k'" "canonical v'" using canon(2) by (simp_all add: Leaf)
    have ne: "k' \<noteq> k" using ke by (simp add: Leaf)
    have "hl k' v' \<noteq> 0"
      using inv subtrees_plug [of k 0 ss e] unfolding u smt_inv_def by (fastforce simp: Leaf)
    then have trim: "trim_zero_fields (map (\<lambda>s. Field (?h s)) ss @ replicate n (Field 0) @ [Field (hl k' v')])
        = map (\<lambda>s. Field (?h s)) ss @ replicate n (Field 0) @ [Field (hl k' v')]" for n
      by (intro trim_id) simp
    show ?thesis using after t2 found leaf trim ne pad_run [OF can(1) can'(1)]
        prover_hash_values(3) [OF hash can']
      by (simp add: smt_insert_def Leaf as_prover_def reported_def comp_def butlast_append)
  next
    case (Inner l r)
    then show ?thesis using e by simp
  qed
qed

lemma placed_leaf_value: "placed 0 (plug k 0 ss (Leaf k w)) = placed 0 (plug k 0 ss (Leaf k v))"
  by (simp add: placed_plug)

lemma smt_update_run:
  assumes hash: "prover_hashes p2 p3 hl hc" and inv: "smt_inv hl hc u t"
    and can: "canonical k" "canonical v" and d: "descend k 0 u = (ss, Leaf k w)"
    and cf: "collision_free (tree_hash hl hc) (subtrees u \<union> subtrees (plug k 0 ss (Leaf k v)))"
  shows "\<exists>t'. smt_update p2 p3 (Field k) (Field v) t = Inr
      (\<lparr>sr_old_root = st_root t, sr_new_root = Field (tree_hash hl hc (plug k 0 ss (Leaf k v))),
        sr_siblings = map (\<lambda>s. Field (tree_hash hl hc s)) ss,
        sr_old_key = Field k, sr_old_value = Field w,
        sr_new_key = Field k, sr_new_value = Field v, sr_is_old0 = False\<rparr>, t')
    \<and> smt_inv hl hc (plug k 0 ss (Leaf k v)) t'"
proof -
  let ?h = "tree_hash hl hc" and ?u' = "plug k 0 ss (Leaf k v)" and ?A = "insert (Leaf k v) (set (path_nodes k 0 ss (Leaf k v)))"
  have wf: "placed 0 u" "compact u" "canonical_tree u" using inv by (simp_all add: smt_inv_def)
  note found = smt_find_run [OF inv can(1) d]
  have u: "plug k 0 ss (Leaf k w) = u" by (rule plug_descend [OF d])
  have canon: "\<forall>s \<in> set ss. canonical_tree s" using wf(3) canonical_plug [of k 0 ss "Leaf k w"] unfolding u by simp
  have sub: "subtrees ?u' \<subseteq> ?A \<union> subtrees u" "?A \<subseteq> subtrees ?u'"
    using subtrees_plug [of k 0 ss "Leaf k w"] unfolding u by (auto simp: subtrees_plug)
  let ?t1 = "put_node (Field (hl k v)) (LeafNode (Field k) (Field v)) t"
  have "swapped (prover_node hl hc) ?h (smt_get t) (smt_get ?t1) {} {Leaf k v}"
    using smt_nodes.swapped_put [OF swapped_refl _ cf, where p = "Leaf k v"] sub(2) by auto
  then obtain t2 where t2: "fold_result (smt_climb p2 (field_to_bits (Field k)))
        (rev (List.enumerate 0 (map (\<lambda>s. Field (?h s)) ss))) (Field (?h (Leaf k v)), ?t1) = Inr (Field (?h ?u'), t2)"
    and sw: "swapped (prover_node hl hc) ?h (smt_get t) (smt_get t2) {} ?A"
    using smt_climb_run [OF hash cf canon _ can(1), of "Leaf k v" 0 "{Leaf k v}" "smt_get t" ?t1] can found(2) sub(2)
    by auto
  have "placed 0 ?u'" using wf(1) placed_leaf_value unfolding u [symmetric] by blast
  moreover have "compact ?u'"
    using wf(2) compact_plug [of ss k 0 "Leaf k w"] compact_plug [of ss k 0 "Leaf k v"] unfolding u
    by (cases "ss = []") auto
  ultimately have after: "smt_inv hl hc ?u' (t2\<lparr>st_root := Field (?h ?u')\<rparr>)"
    using sw sub can canon by (intro smt_inv_after [OF inv _ _ _ _ sub(1) cf]) (auto simp: canonical_plug)
  show ?thesis
    using after t2 found(1) prover_hash_values(3) [OF hash can]
    by (simp add: smt_update_def as_prover_def comp_def)
qed

lemma smt_absent:
  assumes inv: "smt_inv hl hc u t" and can: "canonical k"
  shows "k \<in> keys u \<Longrightarrow> smt_insert p2 p3 (Field k) v t = Inl (Err SmtKeyExists)"
    "k \<notin> keys u \<Longrightarrow> smt_update p2 p3 (Field k) v t = Inl (Err SmtKeyMissing)"
proof -
  obtain ss e where d: "descend k 0 u = (ss, e)" by (cases "descend k 0 u")
  have wf: "placed 0 u" using inv by (simp add: smt_inv_def)
  have "k \<in> keys u \<longleftrightarrow> (\<exists>w. e = Leaf k w)" using descend_mem [OF wf, of k] d by force
  moreover have "sf_found (as_prover (found_at k hs e)) \<longleftrightarrow> (\<exists>w. e = Leaf k w)" for hs
    by (simp add: as_prover_def found_at_fields)
  ultimately show "k \<in> keys u \<Longrightarrow> smt_insert p2 p3 (Field k) v t = Inl (Err SmtKeyExists)"
    "k \<notin> keys u \<Longrightarrow> smt_update p2 p3 (Field k) v t = Inl (Err SmtKeyMissing)"
    using smt_find_run(1) [OF inv can d] by (simp_all add: smt_insert_def smt_update_def)
qed

lemma smt_inv_new: "smt_inv hl hc Empty smt_new"
  by (simp add: smt_inv_def smt_new_def holds_def)

section \<open>The same tree as the contract\<close>

fun smt_insert_all ::
  "poseidon2_params \<Rightarrow> poseidon2_params \<Rightarrow> (u256 \<times> u256) list \<Rightarrow> sparse_merkle_tree
     \<Rightarrow> (smt_error, sparse_merkle_tree) result" where
  "smt_insert_all p2 p3 [] t = Inr t"
| "smt_insert_all p2 p3 ((k, v) # kvs) t =
     and_then (smt_insert p2 p3 (Field k) (Field v) t) (\<lambda>(_, t1). smt_insert_all p2 p3 kvs t1)"

fun prover_no_collisions ::
  "(u256 \<Rightarrow> u256 \<Rightarrow> u256) \<Rightarrow> (u256 \<Rightarrow> u256 \<Rightarrow> u256) \<Rightarrow> (u256 \<times> u256) list \<Rightarrow> tree \<Rightarrow> bool" where
  "prover_no_collisions hl hc [] u \<longleftrightarrow> True"
| "prover_no_collisions hl hc ((k, v) # kvs) u \<longleftrightarrow>
     collision_free (tree_hash hl hc) (insert_touches k v u) \<and> prover_no_collisions hl hc kvs (insert_tree k v u)"

lemma smt_insert_all_run:
  assumes hash: "prover_hashes p2 p3 hl hc"
  shows "smt_inv hl hc u t \<Longrightarrow> \<forall>(k, v) \<in> set kvs. canonical k \<and> canonical v \<Longrightarrow> distinct (map fst kvs)
    \<Longrightarrow> keys u \<inter> fst ` set kvs = {} \<Longrightarrow> prover_no_collisions hl hc kvs u
    \<Longrightarrow> \<exists>t' u'. smt_insert_all p2 p3 kvs t = Inr t' \<and> smt_inv hl hc u' t' \<and> entries u' = entries u \<union> set kvs"
proof (induction kvs arbitrary: u t)
  case (Cons kv kvs)
  obtain k v where kv: "kv = (k, v)" by (cases kv)
  have can: "canonical k" "canonical v" and new: "k \<notin> keys u" using Cons.prems(2,4) by (auto simp: kv)
  have cf: "collision_free (tree_hash hl hc) (insert_touches k v u)" using Cons.prems(5) by (simp add: kv)
  obtain ss e where d: "descend k 0 u = (ss, e)" by (cases "descend k 0 u")
  obtain r t1 where t1: "smt_insert p2 p3 (Field k) (Field v) t = Inr (r, t1)" "smt_inv hl hc (insert_tree k v u) t1"
    using smt_insert_run [OF hash Cons.prems(1) can d new cf] by blast
  have ent: "entries (insert_tree k v u) = insert (k, v) (entries u)"
    using Cons.prems(1) insert_tree_ok [of u k v] new by (simp add: smt_inv_def)
  have "keys (insert_tree k v u) \<inter> fst ` set kvs = {}"
    using Cons.prems(3,4) by (auto simp: ent kv)
  then show ?case
    using Cons.IH [OF t1(2)] Cons.prems(2,3,5) t1(1) ent by (auto simp: kv)
qed auto

text \<open>
  C8: the prover's tree mirrors the contract's. Take any history of the ASP non-membership
  contract and the keys and values it leaves blocked, in any order. Inserting them one by one into
  the prover's empty tree succeeds, the root is the root the contract publishes, and for every
  key the prover's search returns what the contract's \<open>find_key\<close> returns: the same verdict,
  siblings, and entry found at the end of the path. The prover hashes with its own permutation,
  which agrees with the host on field elements; no two nodes that either side handles collide.
\<close>

theorem prover_tree_mirrors_contract:
  assumes "good_host host" and "prover_hashes p2 p3 (leaf_value host) (compress_value host)"
    and "nm_constructor admin empty_nm_store = Inr s0" and "nm_run host calls s0 = Inr s"
    and "no_collisions host calls Empty" and "distinct (map fst kvs)" and "map_of kvs = blocked calls"
    and "prover_no_collisions (leaf_value host) (compress_value host) kvs Empty"
  shows "\<exists>t. smt_insert_all p2 p3 kvs smt_new = Inr t
    \<and> nm_get_root s = Inr (field_value (st_root t))
    \<and> (\<forall>k. canonical k \<longrightarrow> (\<exists>r. find_key k s = Inr r \<and> smt_find t (Field k) = Inr (as_prover r)))"
proof -
  let ?hl = "leaf_value host" and ?hc = "compress_value host"
  obtain u where u: "nm_inv host u s" "entries u = Map.graph (blocked calls)"
    using nm_history_tree [OF assms(1,3-5)] by blast
  have kvs: "set kvs = entries u"
    using u(2) map_of_eq_Some_iff [OF assms(6)] assms(7) by (auto simp: Map.graph_def)
  have wf: "placed 0 u" "compact u" "canonical_tree u" and root: "nm_root s = Some (nm_hash host u)"
    using u(1) by (simp_all add: nm_inv_def)
  have "\<forall>(k, v) \<in> set kvs. canonical k \<and> canonical v" using wf(3) unfolding kvs canonical_tree_def .
  then obtain t u' where t: "smt_insert_all p2 p3 kvs smt_new = Inr t" "smt_inv ?hl ?hc u' t" "entries u' = set kvs"
    using smt_insert_all_run [OF assms(2) smt_inv_new _ assms(6) _ assms(8)] by auto
  have "u' = u"
    using same_entries_same_tree [OF _ wf(1) _ wf(2), of u'] t(2,3) kvs by (simp add: smt_inv_def)
  then have inv: "smt_inv ?hl ?hc u t" using t(2) by simp
  have "\<exists>r. find_key k s = Inr r \<and> smt_find t (Field k) = Inr (as_prover r)" if "canonical k" for k
  proof -
    obtain ss e where d: "descend k 0 u = (ss, e)" by (cases "descend k 0 u")
    show ?thesis
      using nm_inv_descend(1) [OF u(1) d] smt_find_run(1) [OF inv that d] root
      by (simp add: find_key_def)
  qed
  moreover have "nm_get_root s = Inr (field_value (st_root t))"
    using inv root by (simp add: nm_get_root_def smt_inv_def)
  ultimately show ?thesis using t(1) by blast
qed

definition updated_tree :: "u256 \<Rightarrow> u256 \<Rightarrow> tree \<Rightarrow> tree" where
  "updated_tree k v u = plug k 0 (fst (descend k 0 u)) (Leaf k v)"

text \<open>
  the operations of the prover's tree. On a tree that holds \<open>u\<close> and canonical arguments,
  \<open>insert\<close> fails exactly on a key that is there and \<open>update\<close> exactly on one that is not; otherwise
  each stores the new tree, returns its root and the old one, the entry found at the end of the
  path, and the siblings of the leaf. After a collision \<open>insert\<close> reports the empty siblings it
  padded the path with and leaves out the leaf it collided with.
\<close>

theorem prover_tree_operations:
  assumes "prover_hashes p2 p3 hl hc" and "smt_inv hl hc u t" and "canonical k" "canonical v"
    and "descend k 0 u = (ss, e)"
    and "collision_free (tree_hash hl hc)
      (if k \<in> keys u then subtrees u \<union> subtrees (updated_tree k v u) else insert_touches k v u)"
  shows "if k \<in> keys u
    then smt_insert p2 p3 (Field k) (Field v) t = Inl (Err SmtKeyExists)
      \<and> (\<exists>w t'. (k, w) \<in> entries u \<and> smt_update p2 p3 (Field k) (Field v) t = Inr
          (\<lparr>sr_old_root = st_root t, sr_new_root = st_root t',
            sr_siblings = map (\<lambda>s. Field (tree_hash hl hc s)) ss,
            sr_old_key = Field k, sr_old_value = Field w,
            sr_new_key = Field k, sr_new_value = Field v, sr_is_old0 = False\<rparr>, t')
        \<and> smt_inv hl hc (updated_tree k v u) t'
        \<and> entries (updated_tree k v u) = insert (k, v) (entries u - {(k, w)}))
    else smt_update p2 p3 (Field k) (Field v) t = Inl (Err SmtKeyMissing)
      \<and> (\<exists>t'. smt_insert p2 p3 (Field k) (Field v) t = Inr
          (\<lparr>sr_old_root = st_root t, sr_new_root = st_root t',
            sr_siblings = map (\<lambda>s. Field (tree_hash hl hc s)) (ss @ butlast (extension k (length ss) e)),
            sr_old_key = Field (fst (end_entry k e)), sr_old_value = Field (snd (end_entry k e)),
            sr_new_key = Field k, sr_new_value = Field v, sr_is_old0 = (e = Empty)\<rparr>, t')
        \<and> smt_inv hl hc (insert_tree k v u) t'
        \<and> entries (insert_tree k v u) = insert (k, v) (entries u))"
proof (cases "k \<in> keys u")
  case True
  then obtain w where mem: "(k, w) \<in> entries u" by auto
  have wf: "placed 0 u" using assms(2) by (simp add: smt_inv_def)
  have e: "e = Leaf k w" using descend_mem [OF wf, of k w] mem assms(5) by simp
  have u: "plug k 0 ss (Leaf k w) = u" using plug_descend [OF assms(5)] e by simp
  have up: "updated_tree k v u = plug k 0 ss (Leaf k v)" by (simp add: updated_tree_def assms(5))
  have "siblings_ok k 0 ss" using wf placed_plug [of 0 k ss "Leaf k w"] unfolding u by simp
  then have "(k, w) \<notin> (\<Union>s\<in>set ss. entries s)" using siblings_ok_apart by force
  then have "entries (updated_tree k v u) = insert (k, v) (entries u - {(k, w)})"
    using entries_plug [of k 0 ss "Leaf k w"] unfolding u up by (auto simp: entries_plug)
  then show ?thesis
    using True smt_update_run [OF assms(1-4) assms(5) [unfolded e]] assms(6) mem
      smt_absent(1) [OF assms(2,3) True]
    by (auto simp: up smt_inv_def)
next
  case False
  then have "entries (insert_tree k v u) = insert (k, v) (entries u)"
    using insert_tree_ok [of u k v] assms(2) by (simp add: smt_inv_def)
  then show ?thesis
    using False smt_insert_run [OF assms(1-5) False] assms(6) smt_absent(2) [OF assms(2,3) False]
    by (auto simp: reported_def smt_inv_def)
qed

section \<open>A small history on both sides\<close>

lemma bare_hashes:
  "prover_hashes (bare_params 2) (bare_params 3) (leaf_value plain_host) (compress_value plain_host)"
proof -
  have "poseidon2_hash2_internal (bare_params 3) a b (Some 1) = Some ((2 * a + b + 1) mod prime)" for a b
    using bare_permutation(2) [of a b 1] by (auto simp: poseidon2_hash2_internal_def)
  moreover have "poseidon2_compression (bare_params 2) a b = Some (((2 * a + b) mod prime + a) mod prime)" for a b
    by (simp add: bare_permutation(1) poseidon2_compression_def fadd_def)
  ultimately show ?thesis
    by (simp add: prover_hashes_def plain_hashes residue_word)
qed

lemma bare_sample:
  "tree_hash (leaf_value plain_host) (compress_value plain_host) = nm_hash plain_host"
  "prover_no_collisions (leaf_value plain_host) (compress_value plain_host) [(2, 5), (1, 4)] Empty"
  using nm_sample_no_collisions(2) by (simp_all add: nm_other_calls_def)

theorem prover_tree_mirrors_contract_witness:
  "\<exists>s t. nm_run plain_host nm_sample_calls nm_sample_store = Inr s
     \<and> smt_insert_all (bare_params 2) (bare_params 3) [(2, 5), (1, 4)] smt_new = Inr t
     \<and> nm_get_root s = Inr (field_value (st_root t))
     \<and> (\<exists>r. find_key 3 s = Inr r \<and> smt_find t (Field 3) = Inr (as_prover r))"
proof -
  obtain s where s: "nm_run plain_host nm_sample_calls nm_sample_store = Inr s"
    using nm_sample_runs(1) by blast
  have m: "map_of [(2, 5), (1, 4)] = blocked nm_sample_calls"
    by (auto simp: nm_sample_blocked)
  have "distinct (map fst [(2, 5), (1 :: u256, 4 :: u256)])" by simp
  from prover_tree_mirrors_contract [OF good_plain_host bare_hashes nm_sample_deployed s
      nm_sample_no_collisions(1) this m bare_sample(2)] s
  show ?thesis by (metis canonical_samples(4))
qed

lemma smt_sample:
  "\<exists>t. smt_inv (leaf_value plain_host) (compress_value plain_host) (Inner (Leaf 2 5) (Leaf 1 4)) t"
proof -
  have "placed 0 (Inner (Leaf 2 5) (Leaf 1 4))" by (simp add: key_bit_def)
  obtain t u where t: "smt_inv (leaf_value plain_host) (compress_value plain_host) u t"
      "entries u = set [(2, 5), (1, 4)]"
    using smt_insert_all_run [OF bare_hashes smt_inv_new _ _ _ bare_sample(2)] by auto
  then have "u = Inner (Leaf 2 5) (Leaf 1 4)"
    by (intro same_entries_same_tree [of 0]) (auto simp: smt_inv_def key_bit_def)
  with t(1) show ?thesis by blast
qed

theorem prover_tree_operations_witness:
  "\<exists>t r t' w. smt_inv (leaf_value plain_host) (compress_value plain_host) (Inner (Leaf 2 5) (Leaf 1 4)) t
     \<and> smt_insert (bare_params 2) (bare_params 3) (Field 3) (Field 6) t = Inr (r, t')
     \<and> sr_siblings r = [Field 10] \<and> sr_old_key r = Field 1 \<and> sr_new_root r = Field 64
     \<and> smt_update (bare_params 2) (bare_params 3) (Field 3) (Field 6) t = Inl (Err SmtKeyMissing)
     \<and> smt_insert (bare_params 2) (bare_params 3) (Field 1) (Field 4) t = Inl (Err SmtKeyExists)
     \<and> smt_update (bare_params 2) (bare_params 3) (Field 1) (Field 4) t = Inr w"
proof -
  let ?u = "Inner (Leaf 2 5) (Leaf 1 4)"
  obtain t where t: "smt_inv (leaf_value plain_host) (compress_value plain_host) ?u t"
    using smt_sample by blast
  have d: "descend 3 0 ?u = ([Leaf 2 5], Leaf 1 4)" "descend 1 0 ?u = ([Leaf 2 5], Leaf 1 4)"
    by (simp_all add: key_bit_def)
  have "collision_free (nm_hash plain_host) (insert_touches 3 6 ?u)"
    using nm_sample_no_collisions(1) by (simp add: nm_sample_calls_def nm_sample_trees)
  then have cf3: "collision_free (nm_hash plain_host)
      (if 3 \<in> keys ?u then subtrees ?u \<union> subtrees (updated_tree 3 6 ?u) else insert_touches 3 6 ?u)"
    by simp
  have "updated_tree 1 4 ?u = ?u" by (simp add: updated_tree_def key_bit_def)
  then have cf1: "collision_free (nm_hash plain_host)
      (if 1 \<in> keys ?u then subtrees ?u \<union> subtrees (updated_tree 1 4 ?u) else insert_touches 1 4 ?u)"
    by (simp add: nm_sample_collision_free nm_sample_nodes_def del: tree_hash.simps)
  have in1: "1 \<in> keys ?u" and not3: "3 \<notin> keys ?u" by auto
  have "extension 3 1 (Leaf 1 4) = [Leaf 1 4]" by (simp add: diverge.simps key_bit_def)
  moreover have "insert_tree 3 6 ?u = Inner (Leaf 2 5) (Inner (Leaf 1 4) (Leaf 3 6))"
    by (rule nm_sample_trees)
  ultimately show ?thesis
    using prover_tree_operations [OF bare_hashes t _ _ d(1) cf3] not3
      prover_tree_operations [OF bare_hashes t _ _ d(2) cf1] in1 t
    by (auto simp: smt_inv_def nm_sample_hashes simp del: tree_hash.simps)
qed

end
