(* ===== verification/ProverMerkle.thy ===== *)
theory ProverMerkle
  imports ProverCodec MerkleFrontier SorobanHash
begin

text \<open>
  The prover's Merkle trees: the prefix tree of \<open>app/crates/core/prover/src/merkle.rs\<close>, which
  hashes only the leaves it is given and fills the rest with empty subtrees, and the full tree of
  \<open>circuits/src/core/merkle.rs\<close>. A panic is \<^const>\<open>Trap\<close>, \<open>usize\<close> has 32 bits, the parameters of the
  permutation are an argument.
\<close>

unbundle bit_operations_syntax

datatype merkle_error =
    DepthRange
  | DepthOverflow
  | ZeroLeafLength
  | MerkleNotInField
  | LeafOutOfRange nat nat

record merkle_prefix_tree =
  mp_depth :: nat
  mp_leaves :: "field_element list"
  mp_empty :: "field_element list"

record merkle_prefix_built =
  mb_depth :: nat
  mb_empty :: "field_element list"
  mb_levels :: "field_element list list"

record merkle_path =
  pa_elements :: "field_element list"
  pa_indices :: field_element
  pa_root :: field_element
  pa_levels :: nat

section \<open>The prefix tree\<close>

definition hash_fields ::
  "poseidon2_params \<Rightarrow> field_element \<Rightarrow> field_element \<Rightarrow> (merkle_error, field_element) result" where
  "hash_fields p2 left right =
     and_then (unwrap (poseidon2_compression p2 (field_to_scalar left) (field_to_scalar right))) scalar_to_field"

definition empty_step ::
  "poseidon2_params \<Rightarrow> nat \<Rightarrow> field_element list \<Rightarrow> (merkle_error, field_element list) result" where
  "empty_step p2 i empties =
     and_then (unwrap (nth_opt empties i)) (\<lambda>e.
     and_then (hash_fields p2 e e) (\<lambda>h. Inr (empties @ [h])))"

definition prefix_new ::
  "poseidon2_params \<Rightarrow> nat \<Rightarrow> field_element list \<Rightarrow> (merkle_error, merkle_prefix_tree) result" where
  "prefix_new p2 depth leaves =
     (if depth = 0 \<or> 32 < depth then Inl (Err DepthRange)
      else
        let zero_leaf_le = rev zero_leaf in
        and_then (ensure (length zero_leaf_le = 32) ZeroLeafLength) (\<lambda>_.
        and_then (ok_or (try_from_le_bytes zero_leaf_le) MerkleNotInField) (\<lambda>zero.
        and_then (ok_or (checked_add 32 depth 1) DepthOverflow) (\<lambda>empty_cap.
        and_then (fold_result (empty_step p2) [0..<depth] [zero]) (\<lambda>empties.
          Inr \<lparr>mp_depth = depth, mp_leaves = leaves, mp_empty = empties\<rparr>)))))"

definition leaf_count :: "merkle_prefix_tree \<Rightarrow> nat" where
  "leaf_count t = length (mp_leaves t)"

definition checked_double :: "nat \<Rightarrow> nat option" where
  "checked_double i = (if fits 32 (i * 2) then Some (i * 2) else None)"

text \<open>The body of the inner loop: node \<open>i\<close> of the next level, and the whole next level.\<close>

definition next_node ::
  "poseidon2_params \<Rightarrow> field_element list \<Rightarrow> nat \<Rightarrow> field_element list \<Rightarrow> nat \<Rightarrow> field_element list
     \<Rightarrow> (merkle_error, field_element list) result" where
  "next_node p2 empties level nodes i nxt =
     and_then (unwrap (checked_double i)) (\<lambda>left_idx.
     and_then (unwrap (checked_add 32 left_idx 1)) (\<lambda>right_idx.
     and_then (unwrap (nth_opt empties level)) (\<lambda>empt.
     and_then (hash_fields p2 (unwrap_or (nth_opt nodes left_idx) empt) (unwrap_or (nth_opt nodes right_idx) empt))
       (\<lambda>h. Inr (nxt @ [h])))))"

definition next_level ::
  "poseidon2_params \<Rightarrow> field_element list \<Rightarrow> nat \<Rightarrow> field_element list \<Rightarrow> (merkle_error, field_element list) result" where
  "next_level p2 empties level nodes =
     fold_result (next_node p2 empties level nodes) [0..<(length nodes + 1) div 2] []"

definition pad_level ::
  "field_element list \<Rightarrow> nat \<Rightarrow> field_element list \<Rightarrow> (merkle_error, field_element list) result" where
  "pad_level empties level nodes =
     (if nodes = [] then and_then (unwrap (nth_opt empties level)) (\<lambda>e. Inr [e]) else Inr nodes)"

definition prefix_root :: "poseidon2_params \<Rightarrow> merkle_prefix_tree \<Rightarrow> (merkle_error, field_element) result" where
  "prefix_root p2 t =
     and_then
       (fold_result
          (\<lambda>level nodes. and_then (pad_level (mp_empty t) level nodes) (next_level p2 (mp_empty t) level))
          [0..<mp_depth t] (mp_leaves t)) (\<lambda>nodes.
     and_then (unwrap (nth_opt (mp_empty t) (mp_depth t))) (\<lambda>e.
       Inr (unwrap_or (nth_opt nodes 0) e)))"

definition build_step ::
  "poseidon2_params \<Rightarrow> field_element list \<Rightarrow> nat \<Rightarrow> field_element list list
     \<Rightarrow> (merkle_error, field_element list list) result" where
  "build_step p2 empties level levels =
     and_then (unwrap (nth_opt levels level)) (\<lambda>nodes.
     and_then (pad_level empties level nodes) (\<lambda>padded.
     and_then (next_level p2 empties level padded) (\<lambda>nxt.
       Inr (levels[level := padded] @ [nxt]))))"

definition prefix_build :: "poseidon2_params \<Rightarrow> merkle_prefix_tree \<Rightarrow> (merkle_error, merkle_prefix_built) result" where
  "prefix_build p2 t =
     and_then (unwrap (checked_add 32 (mp_depth t) 1)) (\<lambda>levels_cap.
     and_then (fold_result (build_step p2 (mp_empty t)) [0..<mp_depth t] [mp_leaves t]) (\<lambda>levels.
       Inr \<lparr>mb_depth = mp_depth t, mb_empty = mp_empty t, mb_levels = levels\<rparr>))"

section \<open>The built tree and its proofs\<close>

definition built_leaf_count :: "merkle_prefix_built \<Rightarrow> nat" where
  "built_leaf_count b = unwrap_or (map_option length (nth_opt (mb_levels b) 0)) 0"

definition built_root :: "merkle_prefix_built \<Rightarrow> (merkle_error, field_element) result" where
  "built_root b =
     and_then (unwrap (nth_opt (mb_empty b) (mb_depth b))) (\<lambda>e.
       Inr (unwrap_or (Option.bind (nth_opt (mb_levels b) (mb_depth b)) (\<lambda>v. nth_opt v 0)) e))"

definition proof_step ::
  "merkle_prefix_built \<Rightarrow> nat \<Rightarrow> field_element list \<times> 64 word \<times> nat
     \<Rightarrow> (merkle_error, field_element list \<times> 64 word \<times> nat) result" where
  "proof_step b level st =
     (case st of (path_elements, path_indices_bits, current_index) \<Rightarrow>
      let sib_index = current_index XOR 1 in
      and_then (unwrap (nth_opt (mb_levels b) level)) (\<lambda>nodes.
      and_then (unwrap (nth_opt (mb_empty b) level)) (\<lambda>e.
        Inr (path_elements @ [unwrap_or (nth_opt nodes sib_index) e],
             if current_index mod 2 \<noteq> 0 then path_indices_bits OR push_bit level 1 else path_indices_bits,
             current_index div 2))))"

definition built_proof :: "merkle_prefix_built \<Rightarrow> nat \<Rightarrow> (merkle_error, merkle_path) result" where
  "built_proof b index =
     (if built_leaf_count b \<le> index then Inl (Err (LeafOutOfRange index (built_leaf_count b)))
      else
        and_then (fold_result (proof_step b) [0..<mb_depth b] ([], 0, index))
          (\<lambda>(path_elements, path_indices_bits, _).
        let path_indices_le = le_digits 8 (unat path_indices_bits) @ replicate 24 0 in
        and_then (ok_or (try_from_le_bytes path_indices_le) MerkleNotInField) (\<lambda>path_indices.
        and_then (built_root b) (\<lambda>root.
          Inr \<lparr>pa_elements = path_elements, pa_indices = path_indices, pa_root = root, pa_levels = mb_depth b\<rparr>))))"

section \<open>The full tree of the circuits\<close>

definition is_power_of_two :: "nat \<Rightarrow> bool" where
  "is_power_of_two n \<longleftrightarrow> list_ex (\<lambda>k. n = 2 ^ k) [0..<32]"

fun hash_chunks :: "poseidon2_params \<Rightarrow> scalar list \<Rightarrow> (merkle_error, scalar list) result" where
  "hash_chunks p2 (a # b # xs) =
     and_then (unwrap (poseidon2_compression p2 a b)) (\<lambda>h.
     and_then (hash_chunks p2 xs) (\<lambda>hs. Inr (h # hs)))"
| "hash_chunks p2 _ = Inr []"

lemma length_hash_chunks: "hash_chunks p2 xs = Inr ys \<Longrightarrow> length ys = length xs div 2"
  by (induction p2 xs arbitrary: ys rule: hash_chunks.induct) (auto simp: result_simps)

text \<open>Every round of the loop of \<open>merkle_root\<close> halves the list.\<close>

function merkle_loop :: "poseidon2_params \<Rightarrow> scalar list \<Rightarrow> (merkle_error, scalar list) result" where
  "merkle_loop p2 leaves =
     (if 1 < length leaves
      then (case hash_chunks p2 leaves of Inl e \<Rightarrow> Inl e | Inr nxt \<Rightarrow> merkle_loop p2 nxt)
      else Inr leaves)"
  by pat_completeness auto

termination
  by (relation "measure (\<lambda>(_, leaves). length leaves)") (auto dest!: length_hash_chunks)

declare merkle_loop.simps [simp del]

definition merkle_root :: "poseidon2_params \<Rightarrow> scalar list \<Rightarrow> (merkle_error, scalar) result" where
  "merkle_root p2 leaves =
     (if leaves = [] \<or> \<not> is_power_of_two (length leaves) then Inl Trap
      else and_then (merkle_loop p2 leaves) (\<lambda>top. unwrap (nth_opt top 0)))"

fun ilog2 :: "nat \<Rightarrow> nat" where
  "ilog2 n = (if n < 2 then 0 else Suc (ilog2 (n div 2)))"

declare ilog2.simps [simp del]

definition merkle_step ::
  "poseidon2_params \<Rightarrow> nat \<Rightarrow> scalar list \<times> scalar list \<times> 64 word list \<times> nat
     \<Rightarrow> (merkle_error, scalar list \<times> scalar list \<times> 64 word list \<times> nat) result" where
  "merkle_step p2 lvl st =
     (case st of (level_nodes, path_elems, bits, index) \<Rightarrow>
      and_then (unwrap (if index mod 2 = 0 then checked_add 32 index 1 else checked_sub index 1)) (\<lambda>sib_index.
      and_then (unwrap (nth_opt level_nodes sib_index)) (\<lambda>sib.
      and_then (hash_chunks p2 level_nodes) (\<lambda>nxt.
        Inr (nxt, path_elems @ [sib], bits @ [word_of_nat (index AND 1)], index div 2)))))"

definition merkle_proof ::
  "poseidon2_params \<Rightarrow> scalar list \<Rightarrow> nat \<Rightarrow> (merkle_error, scalar list \<times> 64 word \<times> nat) result" where
  "merkle_proof p2 leaves index =
     (if leaves = [] \<or> \<not> is_power_of_two (length leaves) then Inl Trap
      else
        let levels = ilog2 (length leaves) in
        and_then (fold_result (merkle_step p2) [0..<levels] (leaves, [], [], index))
          (\<lambda>(_, path_elems, bits, _).
        let path_indices = fold (\<lambda>(i, b) acc. acc OR push_bit i b) (List.enumerate 0 bits) 0 in
          Inr (path_elems, path_indices, levels)))"

section \<open>The nodes of the padded tree\<close>

text \<open>What the hash function returns on field elements.\<close>

definition compresses :: "poseidon2_params \<Rightarrow> (u256 \<Rightarrow> u256 \<Rightarrow> u256) \<Rightarrow> bool" where
  "compresses p2 hc \<longleftrightarrow>
     (\<forall>a b. canonical a \<longrightarrow> canonical b \<longrightarrow>
        poseidon2_compression p2 (unat a) (unat b) = Some (unat (hc a b)) \<and> canonical (hc a b))"

lemma hash_fields_ok:
  assumes "compresses p2 hc" and "canonical a" "canonical b"
  shows "hash_fields p2 (Field a) (Field b) = Inr (Field (hc a b))"
proof -
  have "poseidon2_compression p2 (unat a) (unat b) = Some (unat (hc a b))" "canonical (hc a b)"
    using assms by (simp_all add: compresses_def)
  then show ?thesis
    using assms(2,3) scalar_to_field_eq(1) [of "unat (hc a b)"]
    by (simp add: hash_fields_def field_to_scalar_eq canonical_unat)
qed

text \<open>The zero leaf is that of the contracts' table.\<close>

abbreviation zero_word :: u256 where
  "zero_word \<equiv> get_zeroes ! 0"

lemma zero_leaf_bytes: "zero_leaf = zeroes_1 ! 0"
  by (simp add: zero_leaf_def ZERO_LEAF_BYTES_def zeroes_1_def)

lemma canonical_zero_word: "canonical zero_word"
  by (rule canonical_get_zeroes) simp

lemma zero_leaf_word: "try_from_le_bytes (rev zero_leaf) = Some (Field zero_word)" "length zero_leaf = 32"
proof -
  have "zero_word = from_be_bytes (zeroes_1 ! 0)"
    by (simp add: get_zeroes_def nth_append zeroes_1_def)
  then have "from_le_bytes (rev zero_leaf) = zero_word"
    by (simp add: zero_leaf_bytes from_le_bytes_def from_be_bytes_def le_value_rev)
  then show "try_from_le_bytes (rev zero_leaf) = Some (Field zero_word)"
    using canonical_zero_word by (simp add: try_from_le_bytes_def try_from_u256_Some)
  show "length zero_leaf = 32" by (simp add: zero_leaf_def ZERO_LEAF_BYTES_def)
qed

lemma canonical_node:
  assumes "compresses p2 hc" and "\<And>x. x \<in> set xs \<Longrightarrow> canonical x"
  shows "canonical (node hc zero_word xs l i)"
  using assms(1) canonical_zero_word assms(2)
  by (intro node_closed [of canonical]) (auto simp: compresses_def)

text \<open>How many nodes of level \<open>l\<close> the loops compute for \<open>n\<close> leaves.\<close>

fun width_at :: "nat \<Rightarrow> nat \<Rightarrow> nat" where
  "width_at n 0 = max 1 n"
| "width_at n (Suc l) = (width_at n l + 1) div 2"

lemma width_at_pos: "1 \<le> width_at n l"
  by (induction l) auto

lemma width_at_le: "width_at n l \<le> max 1 n"
proof (induction l)
  case (Suc l)
  have "(width_at n l + 1) div 2 \<le> width_at n l" using width_at_pos [of n l] by linarith
  then show ?case using Suc by simp
qed simp

lemma width_at_covers: "n \<le> width_at n l * 2 ^ l"
proof (induction l)
  case (Suc l)
  note Suc
  also have "width_at n l * 2 ^ l \<le> 2 * ((width_at n l + 1) div 2) * 2 ^ l"
    by (rule mult_le_mono1) linarith
  finally show ?case by (simp add: ac_simps)
qed simp

lemma width_at_top:
  assumes "n \<le> 2 ^ d"
  shows "width_at n d = 1"
proof -
  have "width_at n l \<le> 2 ^ (d - l)" if "l \<le> d" for l
    using that
  proof (induction l)
    case (Suc l)
    then have "width_at n l \<le> 2 * 2 ^ (d - Suc l)" by (simp add: power_Suc [symmetric] Suc_diff_Suc del: power_Suc)
    then show ?case by simp
  qed (use assms in simp)
  from this [of d] show ?thesis using width_at_pos [of n d] by simp
qed

definition level_nodes :: "(u256 \<Rightarrow> u256 \<Rightarrow> u256) \<Rightarrow> u256 list \<Rightarrow> nat \<Rightarrow> field_element list" where
  "level_nodes hc xs l = map (\<lambda>i. Field (node hc zero_word xs l i)) [0..<width_at (length xs) l]"

definition empty_chain :: "(u256 \<Rightarrow> u256 \<Rightarrow> u256) \<Rightarrow> nat \<Rightarrow> field_element list" where
  "empty_chain hc d = map (\<lambda>l. Field (zero_chain hc zero_word l)) [0..<Suc d]"

lemma empty_chain_nth [simp]: "l \<le> d \<Longrightarrow> nth_opt (empty_chain hc d) l = Some (Field (zero_chain hc zero_word l))"
  by (simp add: nth_opt_def empty_chain_def del: upt_Suc)

lemma node_or_empty:
  "unwrap_or (nth_opt (level_nodes hc xs l) i) (Field (zero_chain hc zero_word l)) = Field (node hc zero_word xs l i)"
proof (cases "i < width_at (length xs) l")
  case False
  then have "width_at (length xs) l * 2 ^ l \<le> i * 2 ^ l" by (intro mult_le_mono1) simp
  then have "length xs \<le> i * 2 ^ l" using width_at_covers [of "length xs" l] by linarith
  then show ?thesis using False by (simp add: level_nodes_def nth_opt_def node_empty)
qed (simp add: level_nodes_def nth_opt_def)

section \<open>Building the levels\<close>

lemma empties_run:
  assumes "compresses p2 hc"
  shows "fold_result (empty_step p2) [0..<d] [Field zero_word] = Inr (empty_chain hc d)"
proof (induction d)
  case 0
  then show ?case by (simp add: empty_chain_def)
next
  case (Suc d)
  have can: "canonical (zero_chain hc zero_word d)"
    using assms canonical_zero_word by (intro zero_chain_closed [of canonical]) (auto simp: compresses_def)
  show ?case
    using Suc hash_fields_ok [OF assms can can]
    by (simp add: fold_result_append empty_step_def) (simp add: empty_chain_def)
qed

lemma next_level_run:
  assumes hash: "compresses p2 hc" and can: "\<And>x. x \<in> set xs \<Longrightarrow> canonical x"
    and "length xs < 2 ^ 32" and "l \<le> d"
  shows "next_level p2 (empty_chain hc d) l (level_nodes hc xs l) = Inr (level_nodes hc xs (Suc l))"
proof -
  let ?w = "width_at (length xs) l"
  have w: "?w < 2 ^ 32" using width_at_le [of "length xs" l] assms(3) by auto
  have "fold_result (next_node p2 (empty_chain hc d) l (level_nodes hc xs l)) [0..<m] []
      = Inr (map (\<lambda>i. Field (node hc zero_word xs (Suc l) i)) [0..<m])" if "2 * m \<le> ?w + 1" for m
    using that
  proof (induction m)
    case (Suc m)
    have "m * 2 + 1 < 2 ^ 32" using Suc.prems w by simp
    then have "checked_double m = Some (2 * m)" "checked_add 32 (2 * m) 1 = Some (2 * m + 1)"
      by (simp_all add: checked_double_def checked_add_def fits_def)
    then show ?case
      using Suc assms(4) hash_fields_ok [OF hash canonical_node [OF hash can] canonical_node [OF hash can]]
      by (simp add: fold_result_append next_node_def node_or_empty)
  qed simp
  from this [of "(?w + 1) div 2"] show ?thesis
    by (simp add: next_level_def level_nodes_def)
qed

definition raw_level :: "(u256 \<Rightarrow> u256 \<Rightarrow> u256) \<Rightarrow> u256 list \<Rightarrow> nat \<Rightarrow> field_element list" where
  "raw_level hc xs l = (if l = 0 then map Field xs else level_nodes hc xs l)"

lemma pad_level_run: "l \<le> d \<Longrightarrow> pad_level (empty_chain hc d) l (raw_level hc xs l) = Inr (level_nodes hc xs l)"
proof (cases "l = 0")
  case True
  show ?thesis
  proof (cases "xs = []")
    case False
    then have "max 1 (length xs) = length xs" by (cases xs) simp_all
    moreover have "map Field xs = map (\<lambda>i. Field (xs ! i)) [0..<length xs]"
      by (rule nth_equalityI) simp_all
    ultimately show ?thesis
      using True False by (simp add: pad_level_def raw_level_def level_nodes_def cong: map_cong)
  qed (use True in \<open>simp add: pad_level_def raw_level_def level_nodes_def\<close>)
next
  case False
  moreover have "level_nodes hc xs l \<noteq> []" using width_at_pos [of "length xs" l] by (simp add: level_nodes_def)
  ultimately show ?thesis by (simp add: pad_level_def raw_level_def)
qed

lemma prefix_root_run:
  assumes hash: "compresses p2 hc" and can: "\<And>x. x \<in> set xs \<Longrightarrow> canonical x"
    and "length xs < 2 ^ 32" and "1 \<le> d" "length xs \<le> 2 ^ d"
  shows "prefix_root p2 \<lparr>mp_depth = d, mp_leaves = map Field xs, mp_empty = empty_chain hc d\<rparr>
    = Inr (Field (tree_root hc zero_word d xs))"
proof -
  have "fold_result
      (\<lambda>level nodes. and_then (pad_level (empty_chain hc d) level nodes) (next_level p2 (empty_chain hc d) level))
      [0..<m] (map Field xs) = Inr (raw_level hc xs m)" if "m \<le> d" for m
    using that
  proof (induction m)
    case (Suc m)
    then show ?case
      using pad_level_run [of m d hc xs] next_level_run [OF hash can assms(3), of m d]
      by (simp add: fold_result_append raw_level_def)
  qed (simp add: raw_level_def)
  from this [of d] show ?thesis
    using assms(4) node_or_empty [of hc xs d 0] by (simp add: prefix_root_def raw_level_def)
qed

definition built_levels :: "(u256 \<Rightarrow> u256 \<Rightarrow> u256) \<Rightarrow> u256 list \<Rightarrow> nat \<Rightarrow> field_element list list" where
  "built_levels hc xs m = map (level_nodes hc xs) [0..<m] @ [raw_level hc xs m]"

lemma prefix_build_run:
  assumes hash: "compresses p2 hc" and can: "\<And>x. x \<in> set xs \<Longrightarrow> canonical x"
    and "length xs < 2 ^ 32" and "d \<le> 32"
  shows "prefix_build p2 \<lparr>mp_depth = d, mp_leaves = map Field xs, mp_empty = empty_chain hc d\<rparr>
    = Inr \<lparr>mb_depth = d, mb_empty = empty_chain hc d, mb_levels = built_levels hc xs d\<rparr>"
proof -
  have "fold_result (build_step p2 (empty_chain hc d)) [0..<m] [map Field xs] = Inr (built_levels hc xs m)"
    if "m \<le> d" for m
    using that
  proof (induction m)
    case 0
    then show ?case by (simp add: built_levels_def raw_level_def)
  next
    case (Suc m)
    have "nth_opt (built_levels hc xs m) m = Some (raw_level hc xs m)"
      by (simp add: built_levels_def nth_opt_def nth_append)
    then have "build_step p2 (empty_chain hc d) m (built_levels hc xs m) = Inr (built_levels hc xs (Suc m))"
      using Suc.prems pad_level_run [of m d hc xs] next_level_run [OF hash can assms(3), of m d]
      by (simp add: build_step_def) (simp add: built_levels_def list_update_append raw_level_def)
    then show ?case using Suc by (simp add: fold_result_append)
  qed
  from this [of d] show ?thesis
    using assms(4) by (simp add: prefix_build_def checked_add_def fits_def)
qed

section \<open>Paths\<close>

text \<open>The siblings on the way up from leaf \<open>i\<close>, and what a verifier computes from them.\<close>

definition path_siblings :: "(u256 \<Rightarrow> u256 \<Rightarrow> u256) \<Rightarrow> u256 list \<Rightarrow> nat \<Rightarrow> nat \<Rightarrow> u256 list" where
  "path_siblings hc xs i d = map (\<lambda>l. node hc zero_word xs l (i div 2 ^ l XOR 1)) [0..<d]"

fun path_value :: "('a \<Rightarrow> 'a \<Rightarrow> 'a) \<Rightarrow> nat \<Rightarrow> 'a \<Rightarrow> 'a list \<Rightarrow> 'a" where
  "path_value h i c [] = c"
| "path_value h i c (s # ss) = path_value h (i div 2) (if odd i then h s c else h c s) ss"

lemma xor_1: "i XOR 1 = (if even i then i + 1 else i - 1)" for i :: nat
  by (rule xor_one_eq [THEN trans]) (auto simp: even_two_times_div_two)

lemma path_value_node:
  "path_value h i (node h z xs l i) (map (\<lambda>k. node h z xs (l + k) (i div 2 ^ k XOR 1)) [0..<m])
     = node h z xs (l + m) (i div 2 ^ m)"
proof (induction m arbitrary: l i)
  case (Suc m)
  have "map (\<lambda>k. node h z xs (l + k) (i div 2 ^ k XOR 1)) [0..<Suc m]
      = node h z xs l (i XOR 1) # map (\<lambda>k. node h z xs (Suc l + k) (i div 2 div 2 ^ k XOR 1)) [0..<m]"
    by (simp add: upt_conv_Cons map_Suc_upt [symmetric] comp_def div_mult2_eq del: upt_Suc)
  moreover have "(if odd i then h (node h z xs l (i XOR 1)) (node h z xs l i)
      else h (node h z xs l i) (node h z xs l (i XOR 1))) = node h z xs (Suc l) (i div 2)"
    using xor_1 [of "2 * (i div 2)"] xor_1 [of "Suc (2 * (i div 2))"]
    by (cases "even i") (auto elim!: evenE oddE)
  ultimately show ?case using Suc.IH [of "i div 2" "Suc l"]
    by (simp add: div_mult2_eq del: node.simps One_nat_def)
qed simp

lemma path_siblings_verify:
  assumes "i < length xs" and "length xs \<le> 2 ^ d"
  shows "path_value h i (xs ! i) (path_siblings h xs i d) = tree_root h zero_word d xs"
proof -
  have "i div 2 ^ d = 0" using assms by simp
  then show ?thesis
    using path_value_node [of h i zero_word xs 0 d] assms(1) by (simp add: path_siblings_def)
qed

text \<open>The index bits collected on the way up are the index.\<close>

lemma collect_bit:
  "word_of_nat (take_bit (Suc l) i) =
     (if odd (i div 2 ^ l) then word_of_nat (take_bit l i) OR push_bit l 1 else word_of_nat (take_bit l i))"
  for i :: nat
proof -
  have "odd (i div 2 ^ l) \<longleftrightarrow> bit i l" by (simp add: bit_iff_odd)
  then show ?thesis
    by (auto intro!: bit_word_eqI simp: bit_simps less_Suc_eq)
qed

lemma proof_steps:
  assumes "length xs \<le> 2 ^ d" and "l \<le> d"
  shows "fold_result (proof_step \<lparr>mb_depth = d, mb_empty = empty_chain hc d, mb_levels = built_levels hc xs d\<rparr>)
      [0..<l] ([], 0, i) = Inr (map Field (path_siblings hc xs i l), word_of_nat (take_bit l i), i div 2 ^ l)"
  using assms(2)
proof (induction l)
  case (Suc l)
  have "nth_opt (built_levels hc xs d) l = Some (level_nodes hc xs l)"
    using Suc.prems by (simp add: built_levels_def nth_opt_def nth_append)
  then show ?case
    using Suc by (simp add: fold_result_append proof_step_def node_or_empty path_siblings_def collect_bit div_mult2_eq
        odd_iff_mod_2_eq_one mult.commute [of 2])
qed (simp add: path_siblings_def)

lemma small_index:
  assumes "i < 2 ^ 32"
  shows "unat (word_of_nat i :: 64 word) = i" "i < prime"
    "try_from_le_bytes (le_digits 8 i @ replicate 24 0) = Some (Field (word_of_nat i))"
proof -
  have i: "i < 2 ^ 64" "i < 256 ^ 8" using assms by simp_all
  then show "unat (word_of_nat i :: 64 word) = i" by (simp add: unat_of_nat)
  show p: "i < prime" using assms by (simp add: prime_def)
  have "le_value (replicate n 0) = 0" for n by (induction n) simp_all
  then have "from_le_bytes (le_digits 8 i @ replicate 24 0) = word_of_nat i"
    by (simp only: from_le_bytes_def le_value_append le_value_le_digits [OF i(2)] mult_0_right add_0_right)
  then show "try_from_le_bytes (le_digits 8 i @ replicate 24 0) = Some (Field (word_of_nat i))"
    using scalar_to_field_eq(2) [OF p] by (simp add: try_from_le_bytes_def try_from_u256_Some)
qed

lemma built_facts:
  fixes hc :: "u256 \<Rightarrow> u256 \<Rightarrow> u256"
  assumes "1 \<le> d" "length xs \<le> 2 ^ d"
  defines "b \<equiv> \<lparr>mb_depth = d, mb_empty = empty_chain hc d, mb_levels = built_levels hc xs d\<rparr>"
  shows "built_leaf_count b = max 1 (length xs)" "built_root b = Inr (Field (tree_root hc zero_word d xs))"
proof -
  have "nth_opt (built_levels hc xs d) 0 = Some (level_nodes hc xs 0)"
    "nth_opt (built_levels hc xs d) d = Some (level_nodes hc xs d)"
    using assms(1) by (simp_all add: built_levels_def nth_opt_def nth_append raw_level_def)
  then show "built_leaf_count b = max 1 (length xs)" "built_root b = Inr (Field (tree_root hc zero_word d xs))"
    using node_or_empty [of hc xs d 0] by (simp_all add: b_def built_leaf_count_def level_nodes_def built_root_def)
qed

lemma built_proof_run:
  assumes "1 \<le> d" "d \<le> 32" "length xs \<le> 2 ^ d" and i: "i < max 1 (length xs)" "i < 2 ^ 32"
  shows "built_proof \<lparr>mb_depth = d, mb_empty = empty_chain hc d, mb_levels = built_levels hc xs d\<rparr> i
    = Inr \<lparr>pa_elements = map Field (path_siblings hc xs i d), pa_indices = Field (word_of_nat i),
           pa_root = Field (tree_root hc zero_word d xs), pa_levels = d\<rparr>"
proof -
  have "i < 2 ^ d" using i(1) assms(3) by (cases "length xs = 0") auto
  then have "take_bit d i = i" by (simp add: take_bit_nat_eq_self)
  then show ?thesis
    using proof_steps [OF assms(3) order_refl, of hc i] built_facts [OF assms(1,3), of hc] i(1) small_index [OF i(2)]
    by (auto simp: built_proof_def Let_def)
qed

lemma prefix_new_run:
  assumes "compresses p2 hc" and "1 \<le> d" "d \<le> 32"
  shows "prefix_new p2 d leaves = Inr \<lparr>mp_depth = d, mp_leaves = leaves, mp_empty = empty_chain hc d\<rparr>"
  using assms empties_run [OF assms(1), of d] zero_leaf_word
  by (simp add: prefix_new_def checked_add_def fits_def)

section \<open>The full tree\<close>

lemma is_power_of_two_pow: "d < 32 \<Longrightarrow> is_power_of_two (2 ^ d)"
  by (auto simp: is_power_of_two_def list_ex_iff)

lemma ilog2_pow: "ilog2 (2 ^ d) = d"
  by (induction d) (simp_all add: ilog2.simps)

lemma hash_chunks_run:
  assumes "compresses p2 hc"
  shows "(\<And>x. x \<in> set xs \<Longrightarrow> canonical x) \<Longrightarrow> hash_chunks p2 (map unat xs) = Inr (map unat (pairs hc xs))"
  using assms by (induction hc xs rule: pairs.induct) (auto simp: compresses_def)

lemma canonical_pairs:
  "compresses p2 hc \<Longrightarrow> (\<And>x. x \<in> set xs \<Longrightarrow> canonical x) \<Longrightarrow> x \<in> set (pairs hc xs) \<Longrightarrow> canonical x"
  by (induction hc xs rule: pairs.induct) (auto simp: compresses_def)

lemma merkle_loop_run:
  assumes hash: "compresses p2 hc"
  shows "length xs = 2 ^ d \<Longrightarrow> (\<And>x. x \<in> set xs \<Longrightarrow> canonical x)
    \<Longrightarrow> merkle_loop p2 (map unat xs) = Inr [unat (tree_root hc z d xs)]"
proof (induction d arbitrary: xs z)
  case 0
  then obtain x where "xs = [x]" by (auto simp: length_Suc_conv)
  then show ?case by (subst merkle_loop.simps) simp
next
  case (Suc d)
  have even: "even (length xs)" using Suc.prems(1) by simp
  have "merkle_loop p2 (map unat (pairs hc xs)) = Inr [unat (tree_root hc (hc z z) d (pairs hc xs))]"
    using Suc.prems canonical_pairs [OF hash Suc.prems(2)] by (intro Suc.IH) simp_all
  moreover have "1 < length xs" using Suc.prems(1) one_less_power [of "2::nat" "Suc d"] by simp
  ultimately show ?case
    using hash_chunks_run [OF hash Suc.prems(2)] node_pairs [OF even, of hc z d 0]
    by (subst merkle_loop.simps) simp
qed

lemma node_padded: "node h z (xs @ replicate m z) l i = node h z xs l i"
  by (induction l arbitrary: i) (auto simp: nth_append)

definition level_scalars :: "(u256 \<Rightarrow> u256 \<Rightarrow> u256) \<Rightarrow> u256 list \<Rightarrow> nat \<Rightarrow> nat \<Rightarrow> scalar list" where
  "level_scalars hc xs d l = map (\<lambda>i. unat (node hc zero_word xs l i)) [0..<2 ^ (d - l)]"

lemma length_level_scalars: "length (level_scalars hc xs d l) = 2 ^ (d - l)"
  by (simp add: level_scalars_def)

lemma level_scalars_nonempty: "level_scalars hc xs d l \<noteq> []"
  using length_level_scalars [of hc xs d l] by auto

lemma hash_chunks_level:
  assumes hash: "compresses p2 hc" and can: "\<And>x. x \<in> set xs \<Longrightarrow> canonical x" and "l < d"
  shows "hash_chunks p2 (level_scalars hc xs d l) = Inr (level_scalars hc xs d (Suc l))"
proof -
  let ?ys = "map (node hc zero_word xs l) [0..<2 ^ (d - l)]"
  have len: "2 ^ (d - l) = 2 * (2 ^ (d - Suc l) :: nat)"
    using assms(3) by (simp add: power_Suc [symmetric] Suc_diff_Suc del: power_Suc)
  have "pairs hc ?ys = map (node hc zero_word xs (Suc l)) [0..<2 ^ (d - Suc l)]"
    by (rule nth_equalityI) (simp_all add: len pairs_nth)
  moreover have "hash_chunks p2 (map unat ?ys) = Inr (map unat (pairs hc ?ys))"
    using canonical_node [OF hash can] by (intro hash_chunks_run [OF hash]) auto
  ultimately show ?thesis by (simp add: level_scalars_def comp_def)
qed

lemma merkle_steps:
  assumes hash: "compresses p2 hc" and can: "\<And>x. x \<in> set xs \<Longrightarrow> canonical x"
    and "i < 2 ^ d" "d < 32" and "l \<le> d"
  shows "fold_result (merkle_step p2) [0..<l] (level_scalars hc xs d 0, [], [], i)
    = Inr (level_scalars hc xs d l, map unat (path_siblings hc xs i l),
           map (\<lambda>k. word_of_nat (i div 2 ^ k AND 1)) [0..<l], i div 2 ^ l)"
  using assms(5)
proof (induction l)
  case (Suc l)
  let ?i = "i div 2 ^ l"
  have "?i < 2 ^ (d - l)"
    using assms(3) Suc.prems by (simp add: less_mult_imp_div_less power_add [symmetric])
  moreover have "2 ^ (d - l) = 2 * (2 ^ (d - Suc l) :: nat)"
    using Suc.prems by (simp add: power_Suc [symmetric] Suc_diff_Suc del: power_Suc)
  ultimately have sib: "?i XOR 1 < 2 ^ (d - l)" by (cases "even ?i") (auto simp: xor_1 elim!: evenE simp del: One_nat_def)
  have "(2::nat) ^ (d - l) \<le> 2 ^ 31" using assms(4) by (intro power_increasing) simp_all
  then have idx: "unwrap (if ?i mod 2 = 0 then checked_add 32 ?i 1 else checked_sub ?i 1) = Inr (?i XOR 1)"
    using \<open>?i < 2 ^ (d - l)\<close> xor_1 [of ?i]
    by (auto simp: checked_add_def checked_sub_def fits_def even_iff_mod_2_eq_zero)
  have at: "nth_opt (level_scalars hc xs d l) (?i XOR 1) = Some (unat (node hc zero_word xs l (?i XOR 1)))"
    using sib by (simp add: level_scalars_def nth_opt_def)
  have chunks: "hash_chunks p2 (level_scalars hc xs d l) = Inr (level_scalars hc xs d (Suc l))"
    using Suc.prems by (intro hash_chunks_level [OF hash can]) simp_all
  have IH: "fold_result (merkle_step p2) [0..<l] (level_scalars hc xs d 0, [], [], i)
    = Inr (level_scalars hc xs d l, map unat (path_siblings hc xs i l),
           map (\<lambda>k. word_of_nat (i div 2 ^ k AND 1)) [0..<l], ?i)"
    using Suc by simp
  have half: "?i div 2 = i div 2 ^ Suc l" by (simp add: div_mult2_eq mult.commute [of 2])
  have "merkle_step p2 l (level_scalars hc xs d l, es, bs, ?i)
      = Inr (level_scalars hc xs d (Suc l), es @ [unat (node hc zero_word xs l (?i XOR 1))],
          bs @ [word_of_nat (?i AND 1)], i div 2 ^ Suc l)" for es bs
    by (simp only: merkle_step_def prod.case idx at chunks unwrap_simps and_then_simps half)
  then show ?case
    by (simp only: upt_Suc_append zero_le fold_result_append IH and_then_simps fold_result.simps
        path_siblings_def map_append list.map)
qed (simp add: path_siblings_def)

lemma collect_all_bits:
  "fold (\<lambda>(k, b) acc. acc OR push_bit k b) (List.enumerate 0 (map (\<lambda>k. word_of_nat (i div 2 ^ k AND 1)) [0..<l])) (0 :: 64 word)
    = word_of_nat (take_bit l i)"
proof (induction l)
  case (Suc l)
  have "word_of_nat (i div 2 ^ l AND 1) = (if odd (i div 2 ^ l) then 1 else 0 :: 64 word)"
    by (simp add: and_one_eq odd_iff_mod_2_eq_one)
  then show ?case using Suc by (simp add: enumerate_append_eq collect_bit)
qed simp

lemma merkle_proof_run:
  assumes hash: "compresses p2 hc" and can: "\<And>x. x \<in> set xs \<Longrightarrow> canonical x"
    and "i < 2 ^ d" "d < 32"
  shows "merkle_proof p2 (level_scalars hc xs d 0) i = Inr (map unat (path_siblings hc xs i d), word_of_nat i, d)"
proof -
  have "take_bit d i = i" using assms(3) by (simp add: take_bit_nat_eq_self)
  then show ?thesis
    using merkle_steps [OF hash can assms(3,4) order_refl] is_power_of_two_pow [OF assms(4)] ilog2_pow [of d]
      collect_all_bits [of i d]
    by (simp add: merkle_proof_def length_level_scalars Let_def level_scalars_nonempty)
qed

lemma merkle_root_run:
  assumes "compresses p2 hc" and "\<And>x. x \<in> set ys \<Longrightarrow> canonical x" and "length ys = 2 ^ d" "d < 32"
  shows "merkle_root p2 (map unat ys) = Inr (unat (tree_root hc z d ys))"
proof -
  have "ys \<noteq> []" using assms(3) by auto
  then show ?thesis
    using merkle_loop_run [OF assms(1,3,2), of z] is_power_of_two_pow [OF assms(4)] assms(3)
    by (simp add: merkle_root_def)
qed

definition padded :: "nat \<Rightarrow> u256 list \<Rightarrow> u256 list" where
  "padded d xs = xs @ replicate (2 ^ d - length xs) zero_word"

lemma level_scalars_0: "length xs \<le> 2 ^ d \<Longrightarrow> level_scalars hc xs d 0 = map unat (padded d xs)"
  by (rule nth_equalityI) (simp_all add: level_scalars_def padded_def nth_append)

text \<open>
  C9: the prover's prefix tree is the contract's tree. For a depth from one to 32 and leaves that
  fit it, the tree is built, and the root computed directly and the root of the built tree are
  both the root of the leaves padded with the contracts' zero leaf: the expression
  that the properties of the pool's tree and of the membership contract give for the same leaves. Other depths are refused. The
  built tree counts one leaf when it was given none.
\<close>

theorem prefix_tree_root:
  assumes "compresses p2 hc" and "length xs < 2 ^ 32" "length xs \<le> 2 ^ d" and "\<forall>x \<in> set xs. canonical x"
  shows "if d = 0 \<or> 32 < d then prefix_new p2 d (map Field xs) = Inl (Err DepthRange)
    else \<exists>t b. prefix_new p2 d (map Field xs) = Inr t
      \<and> prefix_root p2 t = Inr (Field (tree_root hc (get_zeroes ! 0) d xs))
      \<and> prefix_build p2 t = Inr b
      \<and> built_root b = Inr (Field (tree_root hc (get_zeroes ! 0) d xs))
      \<and> leaf_count t = length xs \<and> built_leaf_count b = max 1 (length xs)"
proof (cases "d = 0 \<or> 32 < d")
  case True
  then show ?thesis by (simp add: prefix_new_def)
next
  case False
  then have d: "1 \<le> d" "d \<le> 32" by simp_all
  have can: "\<And>x. x \<in> set xs \<Longrightarrow> canonical x" using assms(4) by blast
  show ?thesis
    using False prefix_new_run [OF assms(1) d] prefix_root_run [OF assms(1) can assms(2) d(1) assms(3)]
      prefix_build_run [OF assms(1) can assms(2) d(2)] built_facts [OF d(1) assms(3), of hc]
    by (simp add: leaf_count_def)
qed

text \<open>
  C36: proofs. For every leaf it was given, a prefix tree built at a depth \<open>d\<close> from 1 to 32 returns a
  path of length \<open>d\<close>, the leaf's index as its bits and the tree's root, and the path leads from the leaf to that root.
  Below depth 32 these are the path, index bits and root that the full tree of the circuits returns
  for the leaves padded to \<open>2 ^ d\<close> (at depth 32 the circuits' list would not fit a 32-bit address space). Every index past the
  leaves is refused; a tree of no leaf counts as one with a single zero leaf.
\<close>

theorem prefix_proof_is_circuit_proof:
  assumes "compresses p2 hc" and "1 \<le> d" "d \<le> 32" "length xs \<le> 2 ^ d" "length xs < 2 ^ 32"
    and "\<forall>x \<in> set xs. canonical x"
  shows "\<exists>t b. prefix_new p2 d (map Field xs) = Inr t \<and> prefix_build p2 t = Inr b
    \<and> (\<forall>i < length xs. \<exists>pr. built_proof b i = Inr pr
         \<and> pa_indices pr = Field (word_of_nat i) \<and> pa_levels pr = d \<and> length (pa_elements pr) = d
         \<and> built_root b = Inr (pa_root pr)
         \<and> path_value hc i (xs ! i) (map field_value (pa_elements pr)) = field_value (pa_root pr)
         \<and> (d < 32 \<longrightarrow>
              merkle_proof p2 (map unat (padded d xs)) i
                = Inr (map field_to_scalar (pa_elements pr), word_of_nat i, d)
            \<and> merkle_root p2 (map unat (padded d xs)) = Inr (field_to_scalar (pa_root pr))))
    \<and> (\<forall>j \<ge> max 1 (length xs). built_proof b j = Inl (Err (LeafOutOfRange j (max 1 (length xs)))))"
proof -
  have can: "\<And>x. x \<in> set xs \<Longrightarrow> canonical x" using assms(6) by blast
  note node = canonical_node [OF assms(1) can]
  let ?b = "\<lparr>mb_depth = d, mb_empty = empty_chain hc d, mb_levels = built_levels hc xs d\<rparr>"
  let ?pr = "\<lambda>i. \<lparr>pa_elements = map Field (path_siblings hc xs i d), pa_indices = Field (word_of_nat i),
      pa_root = Field (tree_root hc zero_word d xs), pa_levels = d\<rparr>"
  have sib: "map field_to_scalar (map Field (path_siblings hc xs i d)) = map unat (path_siblings hc xs i d)" for i
    by (simp add: path_siblings_def field_to_scalar_eq node)
  have full: "merkle_proof p2 (map unat (padded d xs)) i = Inr (map field_to_scalar (pa_elements (?pr i)), word_of_nat i, d)
      \<and> merkle_root p2 (map unat (padded d xs)) = Inr (field_to_scalar (pa_root (?pr i)))"
    if "i < length xs" and "d < 32" for i
  proof
    show "merkle_proof p2 (map unat (padded d xs)) i = Inr (map field_to_scalar (pa_elements (?pr i)), word_of_nat i, d)"
      using merkle_proof_run [OF assms(1) can _ that(2), where i = i and xs = xs] assms(4) that(1) sib
      by (simp add: level_scalars_0)
    have "\<And>x. x \<in> set (padded d xs) \<Longrightarrow> canonical x"
      using can canonical_zero_word by (auto simp: padded_def)
    moreover have "length (padded d xs) = 2 ^ d" using assms(4) by (simp add: padded_def)
    moreover have "tree_root hc zero_word d (padded d xs) = tree_root hc zero_word d xs"
      by (simp add: padded_def node_padded)
    ultimately show "merkle_root p2 (map unat (padded d xs)) = Inr (field_to_scalar (pa_root (?pr i)))"
      using merkle_root_run [OF assms(1) _ _ that(2), where z = zero_word] by (simp add: field_to_scalar_eq node)
  qed
  have "built_proof ?b i = Inr (?pr i)" if "i < length xs" for i
    using built_proof_run [OF assms(2-4), of i hc] that assms(5) by simp
  moreover have "path_value hc i (xs ! i) (map field_value (pa_elements (?pr i))) = field_value (pa_root (?pr i))"
    if "i < length xs" for i
    using path_siblings_verify [OF that assms(4), of hc] by (simp add: comp_def)
  moreover have "built_proof ?b j = Inl (Err (LeafOutOfRange j (max 1 (length xs))))" if "max 1 (length xs) \<le> j" for j
    using built_facts(1) [OF assms(2,4), of hc] that by (simp add: built_proof_def)
  moreover have "built_root ?b = Inr (pa_root (?pr i))" for i
    using built_facts(2) [OF assms(2,4), of hc] by simp
  moreover have "prefix_build p2 \<lparr>mp_depth = d, mp_leaves = map Field xs, mp_empty = empty_chain hc d\<rparr> = Inr ?b"
    by (rule prefix_build_run [OF assms(1) can assms(5,3)])
  ultimately show ?thesis
    using prefix_new_run [OF assms(1-3), of "map Field xs"] full
    by (intro exI [of _ "\<lparr>mp_depth = d, mp_leaves = map Field xs, mp_empty = empty_chain hc d\<rparr>"] exI [of _ ?b])
      (force simp: path_siblings_def)
qed

section \<open>A small tree\<close>

definition bare_compress :: "u256 \<Rightarrow> u256 \<Rightarrow> u256" where
  "bare_compress a b = word_of_nat ((2 * unat a + unat b + unat a) mod prime)"

lemma bare_compresses: "compresses (bare_params 2) bare_compress"
  by (simp add: compresses_def bare_compress_def residue_word poseidon2_compression_def bare_permutation fadd_def
      mod_add_left_eq)

theorem prefix_tree_root_witness:
  "\<exists>t b. prefix_new (bare_params 2) 5 (map Field [1, 2, 3]) = Inr t \<and> prefix_build (bare_params 2) t = Inr b
     \<and> built_root b = Inr (Field (tree_root bare_compress (get_zeroes ! 0) 5 [1, 2, 3]))"
proof -
  have "length [1, 2, 3 :: u256] < 2 ^ 32" "length [1, 2, 3 :: u256] \<le> 2 ^ 5" "\<forall>x \<in> set [1, 2, 3]. canonical x"
    by simp_all
  from prefix_tree_root [OF bare_compresses this] show ?thesis by auto
qed

theorem prefix_proof_is_circuit_proof_witness:
  "\<exists>t b pr. prefix_new (bare_params 2) 2 (map Field [1, 2, 3]) = Inr t \<and> prefix_build (bare_params 2) t = Inr b
     \<and> built_proof b 2 = Inr pr
     \<and> merkle_proof (bare_params 2) (map unat (padded 2 [1, 2, 3])) 2
         = Inr (map field_to_scalar (pa_elements pr), 2, 2)
     \<and> built_proof b 9 = Inl (Err (LeafOutOfRange 9 3))"
proof -
  let ?xs = "[1, 2, 3] :: u256 list"
  have len: "(1 :: nat) \<le> 2" "(2 :: nat) \<le> 32" "length ?xs \<le> 2 ^ 2" "length ?xs < 2 ^ 32" "\<forall>x \<in> set ?xs. canonical x"
    by simp_all
  from prefix_proof_is_circuit_proof [OF bare_compresses len]
  obtain t b where tb: "prefix_new (bare_params 2) 2 (map Field ?xs) = Inr t" "prefix_build (bare_params 2) t = Inr b"
    and all: "\<And>i. i < length ?xs \<Longrightarrow> \<exists>pr. built_proof b i = Inr pr \<and> merkle_proof (bare_params 2) (map unat (padded 2 ?xs)) i
        = Inr (map field_to_scalar (pa_elements pr), word_of_nat i, 2)"
    and past: "\<And>j. max 1 (length ?xs) \<le> j \<Longrightarrow> built_proof b j = Inl (Err (LeafOutOfRange j (max 1 (length ?xs))))"
    by (elim exE conjE) (rule that, assumption+, fastforce, blast)
  from all [of 2] past [of 9] tb show ?thesis by auto
qed

end
