(* ===== verification/WideHash.thy ===== *)
theory WideHash
  imports ConstantCheck
begin

text \<open>
  The Poseidon2 parameters of width four
  (\<open>poseidon2/src/poseidon2/poseidon2_instance_bn256.rs\<close>), which only the application and the
  circuits use: commitments, signatures and nullifiers are hashes of three elements and a domain
  tag. The table is well formed, so the permutation never panics on it.
\<close>

section \<open>The table\<close>

definition rc_hex_4_1 :: "string list list" where
  "rc_hex_4_1 =
    [
     [
      ''0x19b849f69450b06848da1d39bd5e4a4302bb86744edc26238b0878e269ed23e5'',
      ''0x265ddfe127dd51bd7239347b758f0a1320eb2cc7450acc1dad47f80c8dcf34d6'',
      ''0x199750ec472f1809e0f66a545e1e51624108ac845015c2aa3dfc36bab497d8aa'',
      ''0x157ff3fe65ac7208110f06a5f74302b14d743ea25067f0ffd032f787c7f1cdf8''],
     [
      ''0x2e49c43c4569dd9c5fd35ac45fca33f10b15c590692f8beefe18f4896ac94902'',
      ''0x0e35fb89981890520d4aef2b6d6506c3cb2f0b6973c24fa82731345ffa2d1f1e'',
      ''0x251ad47cb15c4f1105f109ae5e944f1ba9d9e7806d667ffec6fe723002e0b996'',
      ''0x13da07dc64d428369873e97160234641f8beb56fdd05e5f3563fa39d9c22df4e''],
     [
      ''0x0c009b84e650e6d23dc00c7dccef7483a553939689d350cd46e7b89055fd4738'',
      ''0x011f16b1c63a854f01992e3956f42d8b04eb650c6d535eb0203dec74befdca06'',
      ''0x0ed69e5e383a688f209d9a561daa79612f3f78d0467ad45485df07093f367549'',
      ''0x04dba94a7b0ce9e221acad41472b6bbe3aec507f5eb3d33f463672264c9f789b''],
     [
      ''0x0a3f2637d840f3a16eb094271c9d237b6036757d4bb50bf7ce732ff1d4fa28e8'',
      ''0x259a666f129eea198f8a1c502fdb38fa39b1f075569564b6e54a485d1182323f'',
      ''0x28bf7459c9b2f4c6d8e7d06a4ee3a47f7745d4271038e5157a32fdf7ede0d6a1'',
      ''0x0a1ca941f057037526ea200f489be8d4c37c85bbcce6a2aeec91bd6941432447''],
     [
      ''0x0c6f8f958be0e93053d7fd4fc54512855535ed1539f051dcb43a26fd926361cf'',
      ''0x0000000000000000000000000000000000000000000000000000000000000000'',
      ''0x0000000000000000000000000000000000000000000000000000000000000000'',
      ''0x0000000000000000000000000000000000000000000000000000000000000000''],
     [
      ''0x123106a93cd17578d426e8128ac9d90aa9e8a00708e296e084dd57e69caaf811'',
      ''0x0000000000000000000000000000000000000000000000000000000000000000'',
      ''0x0000000000000000000000000000000000000000000000000000000000000000'',
      ''0x0000000000000000000000000000000000000000000000000000000000000000''],
     [
      ''0x26e1ba52ad9285d97dd3ab52f8e840085e8fa83ff1e8f1877b074867cd2dee75'',
      ''0x0000000000000000000000000000000000000000000000000000000000000000'',
      ''0x0000000000000000000000000000000000000000000000000000000000000000'',
      ''0x0000000000000000000000000000000000000000000000000000000000000000''],
     [
      ''0x1cb55cad7bd133de18a64c5c47b9c97cbe4d8b7bf9e095864471537e6a4ae2c5'',
      ''0x0000000000000000000000000000000000000000000000000000000000000000'',
      ''0x0000000000000000000000000000000000000000000000000000000000000000'',
      ''0x0000000000000000000000000000000000000000000000000000000000000000'']]"

definition rc_hex_4_2 :: "string list list" where
  "rc_hex_4_2 =
    [
     [
      ''0x1dcd73e46acd8f8e0e2c7ce04bde7f6d2a53043d5060a41c7143f08e6e9055d0'',
      ''0x0000000000000000000000000000000000000000000000000000000000000000'',
      ''0x0000000000000000000000000000000000000000000000000000000000000000'',
      ''0x0000000000000000000000000000000000000000000000000000000000000000''],
     [
      ''0x011003e32f6d9c66f5852f05474a4def0cda294a0eb4e9b9b12b9bb4512e5574'',
      ''0x0000000000000000000000000000000000000000000000000000000000000000'',
      ''0x0000000000000000000000000000000000000000000000000000000000000000'',
      ''0x0000000000000000000000000000000000000000000000000000000000000000''],
     [
      ''0x2b1e809ac1d10ab29ad5f20d03a57dfebadfe5903f58bafed7c508dd2287ae8c'',
      ''0x0000000000000000000000000000000000000000000000000000000000000000'',
      ''0x0000000000000000000000000000000000000000000000000000000000000000'',
      ''0x0000000000000000000000000000000000000000000000000000000000000000''],
     [
      ''0x2539de1785b735999fb4dac35ee17ed0ef995d05ab2fc5faeaa69ae87bcec0a5'',
      ''0x0000000000000000000000000000000000000000000000000000000000000000'',
      ''0x0000000000000000000000000000000000000000000000000000000000000000'',
      ''0x0000000000000000000000000000000000000000000000000000000000000000''],
     [
      ''0x0c246c5a2ef8ee0126497f222b3e0a0ef4e1c3d41c86d46e43982cb11d77951d'',
      ''0x0000000000000000000000000000000000000000000000000000000000000000'',
      ''0x0000000000000000000000000000000000000000000000000000000000000000'',
      ''0x0000000000000000000000000000000000000000000000000000000000000000''],
     [
      ''0x192089c4974f68e95408148f7c0632edbb09e6a6ad1a1c2f3f0305f5d03b527b'',
      ''0x0000000000000000000000000000000000000000000000000000000000000000'',
      ''0x0000000000000000000000000000000000000000000000000000000000000000'',
      ''0x0000000000000000000000000000000000000000000000000000000000000000''],
     [
      ''0x1eae0ad8ab68b2f06a0ee36eeb0d0c058529097d91096b756d8fdc2fb5a60d85'',
      ''0x0000000000000000000000000000000000000000000000000000000000000000'',
      ''0x0000000000000000000000000000000000000000000000000000000000000000'',
      ''0x0000000000000000000000000000000000000000000000000000000000000000''],
     [
      ''0x179190e5d0e22179e46f8282872abc88db6e2fdc0dee99e69768bd98c5d06bfb'',
      ''0x0000000000000000000000000000000000000000000000000000000000000000'',
      ''0x0000000000000000000000000000000000000000000000000000000000000000'',
      ''0x0000000000000000000000000000000000000000000000000000000000000000'']]"

definition rc_hex_4_3 :: "string list list" where
  "rc_hex_4_3 =
    [
     [
      ''0x29bb9e2c9076732576e9a81c7ac4b83214528f7db00f31bf6cafe794a9b3cd1c'',
      ''0x0000000000000000000000000000000000000000000000000000000000000000'',
      ''0x0000000000000000000000000000000000000000000000000000000000000000'',
      ''0x0000000000000000000000000000000000000000000000000000000000000000''],
     [
      ''0x225d394e42207599403efd0c2464a90d52652645882aac35b10e590e6e691e08'',
      ''0x0000000000000000000000000000000000000000000000000000000000000000'',
      ''0x0000000000000000000000000000000000000000000000000000000000000000'',
      ''0x0000000000000000000000000000000000000000000000000000000000000000''],
     [
      ''0x064760623c25c8cf753d238055b444532be13557451c087de09efd454b23fd59'',
      ''0x0000000000000000000000000000000000000000000000000000000000000000'',
      ''0x0000000000000000000000000000000000000000000000000000000000000000'',
      ''0x0000000000000000000000000000000000000000000000000000000000000000''],
     [
      ''0x10ba3a0e01df92e87f301c4b716d8a394d67f4bf42a75c10922910a78f6b5b87'',
      ''0x0000000000000000000000000000000000000000000000000000000000000000'',
      ''0x0000000000000000000000000000000000000000000000000000000000000000'',
      ''0x0000000000000000000000000000000000000000000000000000000000000000''],
     [
      ''0x0e070bf53f8451b24f9c6e96b0c2a801cb511bc0c242eb9d361b77693f21471c'',
      ''0x0000000000000000000000000000000000000000000000000000000000000000'',
      ''0x0000000000000000000000000000000000000000000000000000000000000000'',
      ''0x0000000000000000000000000000000000000000000000000000000000000000''],
     [
      ''0x1b94cd61b051b04dd39755ff93821a73ccd6cb11d2491d8aa7f921014de252fb'',
      ''0x0000000000000000000000000000000000000000000000000000000000000000'',
      ''0x0000000000000000000000000000000000000000000000000000000000000000'',
      ''0x0000000000000000000000000000000000000000000000000000000000000000''],
     [
      ''0x1d7cb39bafb8c744e148787a2e70230f9d4e917d5713bb050487b5aa7d74070b'',
      ''0x0000000000000000000000000000000000000000000000000000000000000000'',
      ''0x0000000000000000000000000000000000000000000000000000000000000000'',
      ''0x0000000000000000000000000000000000000000000000000000000000000000''],
     [
      ''0x2ec93189bd1ab4f69117d0fe980c80ff8785c2961829f701bb74ac1f303b17db'',
      ''0x0000000000000000000000000000000000000000000000000000000000000000'',
      ''0x0000000000000000000000000000000000000000000000000000000000000000'',
      ''0x0000000000000000000000000000000000000000000000000000000000000000'']]"

definition rc_hex_4_4 :: "string list list" where
  "rc_hex_4_4 =
    [
     [
      ''0x2db366bfdd36d277a692bb825b86275beac404a19ae07a9082ea46bd83517926'',
      ''0x0000000000000000000000000000000000000000000000000000000000000000'',
      ''0x0000000000000000000000000000000000000000000000000000000000000000'',
      ''0x0000000000000000000000000000000000000000000000000000000000000000''],
     [
      ''0x062100eb485db06269655cf186a68532985275428450359adc99cec6960711b8'',
      ''0x0000000000000000000000000000000000000000000000000000000000000000'',
      ''0x0000000000000000000000000000000000000000000000000000000000000000'',
      ''0x0000000000000000000000000000000000000000000000000000000000000000''],
     [
      ''0x0761d33c66614aaa570e7f1e8244ca1120243f92fa59e4f900c567bf41f5a59b'',
      ''0x0000000000000000000000000000000000000000000000000000000000000000'',
      ''0x0000000000000000000000000000000000000000000000000000000000000000'',
      ''0x0000000000000000000000000000000000000000000000000000000000000000''],
     [
      ''0x20fc411a114d13992c2705aa034e3f315d78608a0f7de4ccf7a72e494855ad0d'',
      ''0x0000000000000000000000000000000000000000000000000000000000000000'',
      ''0x0000000000000000000000000000000000000000000000000000000000000000'',
      ''0x0000000000000000000000000000000000000000000000000000000000000000''],
     [
      ''0x25b5c004a4bdfcb5add9ec4e9ab219ba102c67e8b3effb5fc3a30f317250bc5a'',
      ''0x0000000000000000000000000000000000000000000000000000000000000000'',
      ''0x0000000000000000000000000000000000000000000000000000000000000000'',
      ''0x0000000000000000000000000000000000000000000000000000000000000000''],
     [
      ''0x23b1822d278ed632a494e58f6df6f5ed038b186d8474155ad87e7dff62b37f4b'',
      ''0x0000000000000000000000000000000000000000000000000000000000000000'',
      ''0x0000000000000000000000000000000000000000000000000000000000000000'',
      ''0x0000000000000000000000000000000000000000000000000000000000000000''],
     [
      ''0x22734b4c5c3f9493606c4ba9012499bf0f14d13bfcfcccaa16102a29cc2f69e0'',
      ''0x0000000000000000000000000000000000000000000000000000000000000000'',
      ''0x0000000000000000000000000000000000000000000000000000000000000000'',
      ''0x0000000000000000000000000000000000000000000000000000000000000000''],
     [
      ''0x26c0c8fe09eb30b7e27a74dc33492347e5bdff409aa3610254413d3fad795ce5'',
      ''0x0000000000000000000000000000000000000000000000000000000000000000'',
      ''0x0000000000000000000000000000000000000000000000000000000000000000'',
      ''0x0000000000000000000000000000000000000000000000000000000000000000'']]"

definition rc_hex_4_5 :: "string list list" where
  "rc_hex_4_5 =
    [
     [
      ''0x070dd0ccb6bd7bbae88eac03fa1fbb26196be3083a809829bbd626df348ccad9'',
      ''0x0000000000000000000000000000000000000000000000000000000000000000'',
      ''0x0000000000000000000000000000000000000000000000000000000000000000'',
      ''0x0000000000000000000000000000000000000000000000000000000000000000''],
     [
      ''0x12b6595bdb329b6fb043ba78bb28c3bec2c0a6de46d8c5ad6067c4ebfd4250da'',
      ''0x0000000000000000000000000000000000000000000000000000000000000000'',
      ''0x0000000000000000000000000000000000000000000000000000000000000000'',
      ''0x0000000000000000000000000000000000000000000000000000000000000000''],
     [
      ''0x248d97d7f76283d63bec30e7a5876c11c06fca9b275c671c5e33d95bb7e8d729'',
      ''0x0000000000000000000000000000000000000000000000000000000000000000'',
      ''0x0000000000000000000000000000000000000000000000000000000000000000'',
      ''0x0000000000000000000000000000000000000000000000000000000000000000''],
     [
      ''0x1a306d439d463b0816fc6fd64cc939318b45eb759ddde4aa106d15d9bd9baaaa'',
      ''0x0000000000000000000000000000000000000000000000000000000000000000'',
      ''0x0000000000000000000000000000000000000000000000000000000000000000'',
      ''0x0000000000000000000000000000000000000000000000000000000000000000''],
     [
      ''0x28a8f8372e3c38daced7c00421cb4621f4f1b54ddc27821b0d62d3d6ec7c56cf'',
      ''0x0000000000000000000000000000000000000000000000000000000000000000'',
      ''0x0000000000000000000000000000000000000000000000000000000000000000'',
      ''0x0000000000000000000000000000000000000000000000000000000000000000''],
     [
      ''0x0094975717f9a8a8bb35152f24d43294071ce320c829f388bc852183e1e2ce7e'',
      ''0x0000000000000000000000000000000000000000000000000000000000000000'',
      ''0x0000000000000000000000000000000000000000000000000000000000000000'',
      ''0x0000000000000000000000000000000000000000000000000000000000000000''],
     [
      ''0x04d5ee4c3aa78f7d80fde60d716480d3593f74d4f653ae83f4103246db2e8d65'',
      ''0x0000000000000000000000000000000000000000000000000000000000000000'',
      ''0x0000000000000000000000000000000000000000000000000000000000000000'',
      ''0x0000000000000000000000000000000000000000000000000000000000000000''],
     [
      ''0x2a6cf5e9aa03d4336349ad6fb8ed2269c7bef54b8822cc76d08495c12efde187'',
      ''0x0000000000000000000000000000000000000000000000000000000000000000'',
      ''0x0000000000000000000000000000000000000000000000000000000000000000'',
      ''0x0000000000000000000000000000000000000000000000000000000000000000'']]"

definition rc_hex_4_6 :: "string list list" where
  "rc_hex_4_6 =
    [
     [
      ''0x2304d31eaab960ba9274da43e19ddeb7f792180808fd6e43baae48d7efcba3f3'',
      ''0x0000000000000000000000000000000000000000000000000000000000000000'',
      ''0x0000000000000000000000000000000000000000000000000000000000000000'',
      ''0x0000000000000000000000000000000000000000000000000000000000000000''],
     [
      ''0x03fd9ac865a4b2a6d5e7009785817249bff08a7e0726fcb4e1c11d39d199f0b0'',
      ''0x0000000000000000000000000000000000000000000000000000000000000000'',
      ''0x0000000000000000000000000000000000000000000000000000000000000000'',
      ''0x0000000000000000000000000000000000000000000000000000000000000000''],
     [
      ''0x00b7258ded52bbda2248404d55ee5044798afc3a209193073f7954d4d63b0b64'',
      ''0x0000000000000000000000000000000000000000000000000000000000000000'',
      ''0x0000000000000000000000000000000000000000000000000000000000000000'',
      ''0x0000000000000000000000000000000000000000000000000000000000000000''],
     [
      ''0x159f81ada0771799ec38fca2d4bf65ebb13d3a74f3298db36272c5ca65e92d9a'',
      ''0x0000000000000000000000000000000000000000000000000000000000000000'',
      ''0x0000000000000000000000000000000000000000000000000000000000000000'',
      ''0x0000000000000000000000000000000000000000000000000000000000000000''],
     [
      ''0x1ef90e67437fbc8550237a75bc28e3bb9000130ea25f0c5471e144cf4264431f'',
      ''0x0000000000000000000000000000000000000000000000000000000000000000'',
      ''0x0000000000000000000000000000000000000000000000000000000000000000'',
      ''0x0000000000000000000000000000000000000000000000000000000000000000''],
     [
      ''0x1e65f838515e5ff0196b49aa41a2d2568df739bc176b08ec95a79ed82932e30d'',
      ''0x0000000000000000000000000000000000000000000000000000000000000000'',
      ''0x0000000000000000000000000000000000000000000000000000000000000000'',
      ''0x0000000000000000000000000000000000000000000000000000000000000000''],
     [
      ''0x2b1b045def3a166cec6ce768d079ba74b18c844e570e1f826575c1068c94c33f'',
      ''0x0000000000000000000000000000000000000000000000000000000000000000'',
      ''0x0000000000000000000000000000000000000000000000000000000000000000'',
      ''0x0000000000000000000000000000000000000000000000000000000000000000''],
     [
      ''0x0832e5753ceb0ff6402543b1109229c165dc2d73bef715e3f1c6e07c168bb173'',
      ''0x0000000000000000000000000000000000000000000000000000000000000000'',
      ''0x0000000000000000000000000000000000000000000000000000000000000000'',
      ''0x0000000000000000000000000000000000000000000000000000000000000000'']]"

definition rc_hex_4_7 :: "string list list" where
  "rc_hex_4_7 =
    [
     [
      ''0x02f614e9cedfb3dc6b762ae0a37d41bab1b841c2e8b6451bc5a8e3c390b6ad16'',
      ''0x0000000000000000000000000000000000000000000000000000000000000000'',
      ''0x0000000000000000000000000000000000000000000000000000000000000000'',
      ''0x0000000000000000000000000000000000000000000000000000000000000000''],
     [
      ''0x0e2427d38bd46a60dd640b8e362cad967370ebb777bedff40f6a0be27e7ed705'',
      ''0x0000000000000000000000000000000000000000000000000000000000000000'',
      ''0x0000000000000000000000000000000000000000000000000000000000000000'',
      ''0x0000000000000000000000000000000000000000000000000000000000000000''],
     [
      ''0x0493630b7c670b6deb7c84d414e7ce79049f0ec098c3c7c50768bbe29214a53a'',
      ''0x0000000000000000000000000000000000000000000000000000000000000000'',
      ''0x0000000000000000000000000000000000000000000000000000000000000000'',
      ''0x0000000000000000000000000000000000000000000000000000000000000000''],
     [
      ''0x22ead100e8e482674decdab17066c5a26bb1515355d5461a3dc06cc85327cea9'',
      ''0x0000000000000000000000000000000000000000000000000000000000000000'',
      ''0x0000000000000000000000000000000000000000000000000000000000000000'',
      ''0x0000000000000000000000000000000000000000000000000000000000000000''],
     [
      ''0x25b3e56e655b42cdaae2626ed2554d48583f1ae35626d04de5084e0b6d2a6f16'',
      ''0x0000000000000000000000000000000000000000000000000000000000000000'',
      ''0x0000000000000000000000000000000000000000000000000000000000000000'',
      ''0x0000000000000000000000000000000000000000000000000000000000000000''],
     [
      ''0x1e32752ada8836ef5837a6cde8ff13dbb599c336349e4c584b4fdc0a0cf6f9d0'',
      ''0x0000000000000000000000000000000000000000000000000000000000000000'',
      ''0x0000000000000000000000000000000000000000000000000000000000000000'',
      ''0x0000000000000000000000000000000000000000000000000000000000000000''],
     [
      ''0x2fa2a871c15a387cc50f68f6f3c3455b23c00995f05078f672a9864074d412e5'',
      ''0x0000000000000000000000000000000000000000000000000000000000000000'',
      ''0x0000000000000000000000000000000000000000000000000000000000000000'',
      ''0x0000000000000000000000000000000000000000000000000000000000000000''],
     [
      ''0x2f569b8a9a4424c9278e1db7311e889f54ccbf10661bab7fcd18e7c7a7d83505'',
      ''0x0000000000000000000000000000000000000000000000000000000000000000'',
      ''0x0000000000000000000000000000000000000000000000000000000000000000'',
      ''0x0000000000000000000000000000000000000000000000000000000000000000'']]"

definition rc_hex_4_8 :: "string list list" where
  "rc_hex_4_8 =
    [
     [
      ''0x044cb455110a8fdd531ade530234c518a7df93f7332ffd2144165374b246b43d'',
      ''0x0000000000000000000000000000000000000000000000000000000000000000'',
      ''0x0000000000000000000000000000000000000000000000000000000000000000'',
      ''0x0000000000000000000000000000000000000000000000000000000000000000''],
     [
      ''0x227808de93906d5d420246157f2e42b191fe8c90adfe118178ddc723a5319025'',
      ''0x0000000000000000000000000000000000000000000000000000000000000000'',
      ''0x0000000000000000000000000000000000000000000000000000000000000000'',
      ''0x0000000000000000000000000000000000000000000000000000000000000000''],
     [
      ''0x02fcca2934e046bc623adead873579865d03781ae090ad4a8579d2e7a6800355'',
      ''0x0000000000000000000000000000000000000000000000000000000000000000'',
      ''0x0000000000000000000000000000000000000000000000000000000000000000'',
      ''0x0000000000000000000000000000000000000000000000000000000000000000''],
     [
      ''0x0ef915f0ac120b876abccceb344a1d36bad3f3c5ab91a8ddcbec2e060d8befac'',
      ''0x0000000000000000000000000000000000000000000000000000000000000000'',
      ''0x0000000000000000000000000000000000000000000000000000000000000000'',
      ''0x0000000000000000000000000000000000000000000000000000000000000000''],
     [
      ''0x1797130f4b7a3e1777eb757bc6f287f6ab0fb85f6be63b09f3b16ef2b1405d38'',
      ''0x0a76225dc04170ae3306c85abab59e608c7f497c20156d4d36c668555decc6e5'',
      ''0x1fffb9ec1992d66ba1e77a7b93209af6f8fa76d48acb664796174b5326a31a5c'',
      ''0x25721c4fc15a3f2853b57c338fa538d85f8fbba6c6b9c6090611889b797b9c5f''],
     [
      ''0x0c817fd42d5f7a41215e3d07ba197216adb4c3790705da95eb63b982bfcaf75a'',
      ''0x13abe3f5239915d39f7e13c2c24970b6df8cf86ce00a22002bc15866e52b5a96'',
      ''0x2106feea546224ea12ef7f39987a46c85c1bc3dc29bdbd7a92cd60acb4d391ce'',
      ''0x21ca859468a746b6aaa79474a37dab49f1ca5a28c748bc7157e1b3345bb0f959''],
     [
      ''0x05ccd6255c1e6f0c5cf1f0df934194c62911d14d0321662a8f1a48999e34185b'',
      ''0x0f0e34a64b70a626e464d846674c4c8816c4fb267fe44fe6ea28678cb09490a4'',
      ''0x0558531a4e25470c6157794ca36d0e9647dbfcfe350d64838f5b1a8a2de0d4bf'',
      ''0x09d3dca9173ed2faceea125157683d18924cadad3f655a60b72f5864961f1455''],
     [
      ''0x0328cbd54e8c0913493f866ed03d218bf23f92d68aaec48617d4c722e5bd4335'',
      ''0x2bf07216e2aff0a223a487b1a7094e07e79e7bcc9798c648ee3347dd5329d34b'',
      ''0x1daf345a58006b736499c583cb76c316d6f78ed6a6dffc82111e11a63fe412df'',
      ''0x176563472456aaa746b694c60e1823611ef39039b2edc7ff391e6f2293d2c404'']]"

definition rc_hex_4 :: "string list list" where
  "rc_hex_4 = rc_hex_4_1 @ rc_hex_4_2 @ rc_hex_4_3 @ rc_hex_4_4
     @ rc_hex_4_5 @ rc_hex_4_6 @ rc_hex_4_7 @ rc_hex_4_8"

definition RC4 :: "(string \<Rightarrow> nat list option) \<Rightarrow> nat list list option" where
  "RC4 decode = those (map (\<lambda>rc. those (map (from_hex decode) rc)) rc_hex_4)"

definition diag_hex_4 :: "string list" where
  "diag_hex_4 =
    [''0x10dc6e9c006ea38b04b1e03b4bd9490c0d03f98929ca1d7fb56821fd19d3b6e7'',
     ''0x0c28145b6a44df3e0149b3d0a30b3bb599df9756d4dd9b84a86b38cfb45a740b'',
     ''0x00544b8338791518b2c7645a50392798b21f75bb60e3596170067d00141cac15'',
     ''0x222c01175718386f2e2e82eb122789e352e105a3b8fa852613bc534433ee428b'']"

definition MAT_DIAG4_M_1 :: "(string \<Rightarrow> nat list option) \<Rightarrow> nat list option" where
  "MAT_DIAG4_M_1 decode = those (map (from_hex decode) diag_hex_4)"

definition internal_hex_4 :: "string list list" where
  "internal_hex_4 =
    [[''0x10dc6e9c006ea38b04b1e03b4bd9490c0d03f98929ca1d7fb56821fd19d3b6e8'',
      hex_word ''1'', hex_word ''1'', hex_word ''1''],
     [hex_word ''1'',
      ''0x0c28145b6a44df3e0149b3d0a30b3bb599df9756d4dd9b84a86b38cfb45a740c'',
      hex_word ''1'', hex_word ''1''],
     [hex_word ''1'', hex_word ''1'',
      ''0x00544b8338791518b2c7645a50392798b21f75bb60e3596170067d00141cac16'',
      hex_word ''1''],
     [hex_word ''1'', hex_word ''1'', hex_word ''1'',
      ''0x222c01175718386f2e2e82eb122789e352e105a3b8fa852613bc534433ee428c'']]"

definition MAT_INTERNAL4 :: "(string \<Rightarrow> nat list option) \<Rightarrow> nat list list option" where
  "MAT_INTERNAL4 decode = those (map (\<lambda>r. those (map (from_hex decode) r)) internal_hex_4)"

definition POSEIDON2_BN256_PARAMS_4 :: "(string \<Rightarrow> nat list option) \<Rightarrow> poseidon2_params option" where
  "POSEIDON2_BN256_PARAMS_4 decode =
     Option.bind (MAT_DIAG4_M_1 decode) (\<lambda>diag.
     Option.bind (MAT_INTERNAL4 decode) (\<lambda>mat.
     Option.bind (RC4 decode) (\<lambda>rc. new_params 4 5 8 56 diag mat rc)))"

section \<open>Decoding the table\<close>

text \<open>A literal that the executable decoder reads back: its value is the same for every decoder.\<close>

definition plain_literal :: "string \<Rightarrow> bool" where
  "plain_literal h \<longleftrightarrow> (case hex_read (drop 2 h) of
     None \<Rightarrow> False | Some bs \<Rightarrow> hex_encode bs = drop 2 h \<and> list_all (\<lambda>b. b < 256) bs)"

lemma plain_literal_value:
  assumes "hex_decodes decode" and "plain_literal h"
  shows "from_hex decode h = from_hex hex_read h" "from_hex hex_read h \<noteq> None"
proof -
  from assms(2) obtain bs where "hex_read (drop 2 h) = Some bs" "hex_encode bs = drop 2 h" "is_bytes bs"
    by (auto simp: plain_literal_def is_bytes_code split: option.splits)
  moreover from this assms(1) have "decode (drop 2 h) = Some bs" by (metis hex_decodes_def)
  ultimately show "from_hex decode h = from_hex hex_read h" "from_hex hex_read h \<noteq> None"
    by (simp_all add: from_hex_def)
qed

lemma those_map_Some: "(\<forall>x \<in> set xs. f x \<noteq> None) \<Longrightarrow> those (map f xs) = Some (map (the \<circ> f) xs)"
  by (induction xs) auto

definition literal_value :: "string \<Rightarrow> nat" where
  "literal_value h = the (from_hex hex_read h)"

lemma plain_row:
  assumes "hex_decodes decode" and "list_all plain_literal hs"
  shows "those (map (from_hex decode) hs) = Some (map literal_value hs)"
proof -
  have "from_hex decode h = Some (literal_value h)" if "h \<in> set hs" for h
    using that assms plain_literal_value [OF assms(1), of h] by (auto simp: list_all_iff literal_value_def)
  then show ?thesis by (simp add: those_map_Some)
qed

lemma plain_table:
  assumes "hex_decodes decode"
  shows "list_all (list_all plain_literal) hss
    \<Longrightarrow> those (map (\<lambda>r. those (map (from_hex decode) r)) hss) = Some (map (map literal_value) hss)"
  by (induction hss) (simp_all add: plain_row [OF assms])

lemma plain_4_1: "list_all (list_all plain_literal) rc_hex_4_1"
  by code_simp

lemma shape_4_1: "map length rc_hex_4_1 = replicate 8 4"
  by (simp add: rc_hex_4_1_def numeral_eq_Suc)

lemma plain_4_2: "list_all (list_all plain_literal) rc_hex_4_2"
  by code_simp

lemma shape_4_2: "map length rc_hex_4_2 = replicate 8 4"
  by (simp add: rc_hex_4_2_def numeral_eq_Suc)

lemma plain_4_3: "list_all (list_all plain_literal) rc_hex_4_3"
  by code_simp

lemma shape_4_3: "map length rc_hex_4_3 = replicate 8 4"
  by (simp add: rc_hex_4_3_def numeral_eq_Suc)

lemma plain_4_4: "list_all (list_all plain_literal) rc_hex_4_4"
  by code_simp

lemma shape_4_4: "map length rc_hex_4_4 = replicate 8 4"
  by (simp add: rc_hex_4_4_def numeral_eq_Suc)

lemma plain_4_5: "list_all (list_all plain_literal) rc_hex_4_5"
  by code_simp

lemma shape_4_5: "map length rc_hex_4_5 = replicate 8 4"
  by (simp add: rc_hex_4_5_def numeral_eq_Suc)

lemma plain_4_6: "list_all (list_all plain_literal) rc_hex_4_6"
  by code_simp

lemma shape_4_6: "map length rc_hex_4_6 = replicate 8 4"
  by (simp add: rc_hex_4_6_def numeral_eq_Suc)

lemma plain_4_7: "list_all (list_all plain_literal) rc_hex_4_7"
  by code_simp

lemma shape_4_7: "map length rc_hex_4_7 = replicate 8 4"
  by (simp add: rc_hex_4_7_def numeral_eq_Suc)

lemma plain_4_8: "list_all (list_all plain_literal) rc_hex_4_8"
  by code_simp

lemma shape_4_8: "map length rc_hex_4_8 = replicate 8 4"
  by (simp add: rc_hex_4_8_def numeral_eq_Suc)

lemma plain_4: "list_all (list_all plain_literal) rc_hex_4"
  by (simp add: rc_hex_4_def plain_4_1 plain_4_2 plain_4_3 plain_4_4 plain_4_5 plain_4_6 plain_4_7 plain_4_8)

lemma plain_matrices: "list_all plain_literal diag_hex_4" "list_all (list_all plain_literal) internal_hex_4"
  by code_simp+

lemma shape_4: "map length rc_hex_4 = replicate 64 4"
  by (simp add: rc_hex_4_def shape_4_1 shape_4_2 shape_4_3 shape_4_4 shape_4_5 shape_4_6 shape_4_7 shape_4_8
      replicate_add [symmetric])

definition diag_bytes_4 :: "nat list list" where
  "diag_bytes_4 =
    [
      [16, 220, 110, 156, 0, 110, 163, 139, 4, 177, 224, 59, 75, 217, 73, 12, 13, 3, 249,
       137, 41, 202, 29, 127, 181, 104, 33, 253, 25, 211, 182, 231],
      [12, 40, 20, 91, 106, 68, 223, 62, 1, 73, 179, 208, 163, 11, 59, 181, 153, 223, 151,
       86, 212, 221, 155, 132, 168, 107, 56, 207, 180, 90, 116, 11],
      [0, 84, 75, 131, 56, 121, 21, 24, 178, 199, 100, 90, 80, 57, 39, 152, 178, 31, 117,
       187, 96, 227, 89, 97, 112, 6, 125, 0, 20, 28, 172, 21],
      [34, 44, 1, 23, 87, 24, 56, 111, 46, 46, 130, 235, 18, 39, 137, 227, 82, 225, 5, 163,
       184, 250, 133, 38, 19, 188, 83, 68, 51, 238, 66, 139]]"

lemma diag_read:
  "map (\<lambda>h. hex_read (drop 2 h)) diag_hex_4 = map Some diag_bytes_4"
  "map (\<lambda>i. hex_read (drop 2 (internal_hex_4 ! i ! i))) [0, 1, 2, 3]
     = map (\<lambda>bs. Some (butlast bs @ [last bs + 1])) diag_bytes_4"
  by code_simp+

lemma diag_values: "map literal_value diag_hex_4 = map be_value diag_bytes_4"
  using diag_read(1) by (simp add: literal_value_def diag_hex_4_def from_hex_def diag_bytes_4_def prime_def)

lemma literal_value_read: "hex_read (drop 2 h) = Some bs \<Longrightarrow> literal_value h = be_value bs mod prime"
  by (simp add: literal_value_def from_hex_def)

lemma internal_rows:
  "internal_hex_4 = map (\<lambda>i. (replicate 4 (hex_word ''1''))[i := internal_hex_4 ! i ! i]) [0, 1, 2, 3]"
  by (simp add: internal_hex_4_def numeral_eq_Suc)

lemma successors:
  "map (\<lambda>bs. be_value (butlast bs @ [last bs + 1]) mod prime) diag_bytes_4
     = map (\<lambda>bs. be_value bs + 1) diag_bytes_4"
  by (simp add: diag_bytes_4_def prime_def)

lemma internal_values:
  "map (map literal_value) internal_hex_4 =
     map (\<lambda>i. (replicate 4 1)[i := be_value (diag_bytes_4 ! i) + 1]) [0, 1, 2, 3]"
proof -
  have one: "literal_value (hex_word ''1'') = 1"
    using from_hex_small [OF hex_read_decodes, of 1] by (simp add: literal_value_def hex_word_bytes)
  have "length diag_bytes_4 = 4" by (simp add: diag_bytes_4_def)
  then obtain a b c d where bs: "diag_bytes_4 = [a, b, c, d]" using list_of_4 by blast
  have "literal_value (internal_hex_4 ! i ! i) = be_value (diag_bytes_4 ! i) + 1"
    if "i \<in> set [0, 1, 2, 3]" for i
    using that diag_read(2) successors literal_value_read unfolding bs by auto
  then show ?thesis by (subst internal_rows) (simp add: map_update one del: upt_rec_numeral)
qed

text \<open>\<open>Poseidon2Params::mat_vec_mul\<close>, the plain product that the optimised layers replace.\<close>

definition mat_vec_mul :: "nat list list \<Rightarrow> nat list \<Rightarrow> nat list" where
  "mat_vec_mul mat input = map (\<lambda>row. fold (\<lambda>(m, x) acc. fadd acc (fmul m x)) (zip row input) 0) mat"

lemma fold_product:
  "fold (\<lambda>(m, x) acc. fadd acc (fmul m x)) ps a mod prime = (a + (\<Sum>(m, x) \<leftarrow> ps. m * x)) mod prime"
proof (induction ps arbitrary: a)
  case (Cons p ps)
  obtain m x where p: "p = (m, x)" by (cases p)
  have "(fadd a (fmul m x) + s) mod prime = (a + (m * x + s)) mod prime" for s
    by (simp add: fadd_def fmul_def mod_add_left_eq mod_add_right_eq add.assoc)
  with Cons p show ?case by simp
qed simp

lemma mat_vec_mul_eq:
  "mat_vec_mul mat input = map (\<lambda>row. (\<Sum>(m, x) \<leftarrow> zip row input. m * x) mod prime) mat"
proof -
  have less: "fold (\<lambda>(m, x) acc. fadd acc (fmul m x)) ps a < prime" if "a < prime" for ps a
    using that by (induction ps arbitrary: a) (auto simp: split_beta)
  show ?thesis
    using fold_product [of _ 0] less [OF prime_pos] by (simp add: mat_vec_mul_def)
qed

lemma params_4:
  assumes "hex_decodes decode"
  shows "\<exists>p. POSEIDON2_BN256_PARAMS_4 decode = Some p \<and> well_shaped 4 p
    \<and> mat_internal_diag_m_1 p = map be_value diag_bytes_4
    \<and> mat_internal p = map (\<lambda>i. (replicate 4 1)[i := be_value (diag_bytes_4 ! i) + 1]) [0, 1, 2, 3]"
proof -
  have "RC4 decode = Some (map (map literal_value) rc_hex_4)"
    "MAT_DIAG4_M_1 decode = Some (map be_value diag_bytes_4)"
    "MAT_INTERNAL4 decode
       = Some (map (\<lambda>i. (replicate 4 1)[i := be_value (diag_bytes_4 ! i) + 1]) [0, 1, 2, 3])"
    using plain_table [OF assms plain_4] plain_row [OF assms plain_matrices(1)]
      plain_table [OF assms plain_matrices(2)]
    by (simp_all only: RC4_def MAT_DIAG4_M_1_def MAT_INTERNAL4_def diag_values internal_values)
  moreover have rows: "length (map literal_value (rc_hex_4 ! r)) = 4" if "r < 64" for r
  proof -
    have "map length rc_hex_4 ! r = 4" using that unfolding shape_4 by simp
    moreover have "length rc_hex_4 = 64" using arg_cong [OF shape_4, of length] by simp
    ultimately show ?thesis using that by simp
  qed
  have "length rc_hex_4 = 64" using arg_cong [OF shape_4, of length] by simp
  moreover have "rc_hex_4 ! r \<noteq> []" if "r < 64" for r
    using rows [OF that] by auto
  ultimately show ?thesis using rows
    by (simp add: POSEIDON2_BN256_PARAMS_4_def new_params_def well_shaped_def diag_bytes_4_def)
qed

section \<open>The linear layers\<close>

definition external_matrix :: "nat \<Rightarrow> nat list list" where
  "external_matrix t =
     (if t = 2 then [[2, 1], [1, 2]]
      else if t = 3 then [[2, 1, 1], [1, 2, 1], [1, 1, 2]]
      else [[5, 7, 1, 3], [4, 6, 1, 1], [1, 3, 5, 7], [1, 1, 4, 6]])"

lemmas mod_products = fadd_def fmul_def fdouble_def mod_add_left_eq mod_add_right_eq

lemma external_layers:
  assumes "t = 2 \<or> t = 3 \<or> t = 4" and "length xs = t"
  shows "matmul_external t xs = Some (mat_vec_mul (external_matrix t) xs)"
  using assms(1)
proof (elim disjE)
  assume t: "t = 2"
  with assms(2) obtain a b where "xs = [a, b]" by (auto simp: numeral_eq_Suc length_Suc_conv)
  with t show ?thesis
    by (simp add: matmul_external_def external_matrix_def mat_vec_mul_eq Let_def)
      ((simp only: mod_products)?, intro conjI arg_cong [where f = "\<lambda>x. x mod prime"]; simp)
next
  assume t: "t = 3"
  with assms(2) obtain a b c where "xs = [a, b, c]" by (auto simp: numeral_eq_Suc length_Suc_conv)
  with t show ?thesis
    by (simp add: matmul_external_def external_matrix_def mat_vec_mul_eq Let_def)
      ((simp only: mod_products)?, intro conjI arg_cong [where f = "\<lambda>x. x mod prime"]; simp)
next
  assume t: "t = 4"
  with assms(2) obtain a b c d where "xs = [a, b, c, d]" using list_of_4 by blast
  with t show ?thesis
    by (simp add: matmul_external_def external_matrix_def mat_vec_mul_eq Let_def)
      ((simp only: mod_products)?, intro conjI arg_cong [where f = "\<lambda>x. x mod prime"]; simp)
qed

lemma internal_layers:
  "length xs = 2 \<Longrightarrow> matmul_internal 2 diag xs = Some (mat_vec_mul [[2, 1], [1, 3]] xs)"
  "length xs = 3 \<Longrightarrow> matmul_internal 3 diag xs = Some (mat_vec_mul [[2, 1, 1], [1, 2, 1], [1, 1, 3]] xs)"
  "length xs = 4 \<Longrightarrow> length diag = 4 \<Longrightarrow> matmul_internal 4 diag xs
     = Some (mat_vec_mul (map (\<lambda>i. (replicate 4 1)[i := diag ! i + 1]) [0, 1, 2, 3]) xs)"
proof -
  show "matmul_internal 2 diag xs = Some (mat_vec_mul [[2, 1], [1, 3]] xs)" if "length xs = 2"
  proof -
    from that obtain a b where "xs = [a, b]" by (auto simp: numeral_eq_Suc length_Suc_conv)
    then show ?thesis
    by (simp add: matmul_internal_def mat_vec_mul_eq Let_def)
      ((simp only: mod_products)?, intro conjI arg_cong [where f = "\<lambda>x. x mod prime"]; simp)
  qed
  show "matmul_internal 3 diag xs = Some (mat_vec_mul [[2, 1, 1], [1, 2, 1], [1, 1, 3]] xs)" if "length xs = 3"
  proof -
    from that obtain a b c where "xs = [a, b, c]" by (auto simp: numeral_eq_Suc length_Suc_conv)
    then show ?thesis
    by (simp add: matmul_internal_def mat_vec_mul_eq Let_def)
      ((simp only: mod_products)?, intro conjI arg_cong [where f = "\<lambda>x. x mod prime"]; simp)
  qed
  show "matmul_internal 4 diag xs
      = Some (mat_vec_mul (map (\<lambda>i. (replicate 4 1)[i := diag ! i + 1]) [0, 1, 2, 3]) xs)"
    if len: "length xs = 4" "length diag = 4"
  proof -
    from len obtain a b c d m0 m1 m2 m3 where "xs = [a, b, c, d]" "diag = [m0, m1, m2, m3]"
      using list_of_4 by metis
    moreover have "replicate 4 1 = [1, 1, 1, 1 :: nat]" by (simp add: numeral_eq_Suc)
    ultimately show ?thesis
    by (simp add: matmul_internal_def mat_vec_mul_eq Let_def)
      ((simp only: mod_products)?, intro conjI arg_cong [where f = "\<lambda>x. x mod prime"]; simp)
  qed
qed

lemma params_matrices:
  assumes "hex_decodes decode"
  shows "POSEIDON2_BN256_PARAMS_2 decode = Some p \<Longrightarrow> mat_internal p = [[2, 1], [1, 3]]"
    "POSEIDON2_BN256_PARAMS_3 decode = Some p \<Longrightarrow> mat_internal p = [[2, 1, 1], [1, 2, 1], [1, 1, 3]]"
  by (auto simp: POSEIDON2_BN256_PARAMS_2_def POSEIDON2_BN256_PARAMS_3_def matrices [OF assms]
      RC2_value [OF assms] RC3_value [OF assms] new_params_def)

lemma params_total:
  assumes "hex_decodes decode" and "length xs = t"
    and "t = 2 \<and> POSEIDON2_BN256_PARAMS_2 decode = Some p \<or> t = 3 \<and> POSEIDON2_BN256_PARAMS_3 decode = Some p
      \<or> t = 4 \<and> POSEIDON2_BN256_PARAMS_4 decode = Some p"
  shows "\<exists>ys. permutation p xs = Some ys \<and> reduced t ys"
  using assms(3)
proof (elim disjE conjE)
  assume "t = 2" "POSEIDON2_BN256_PARAMS_2 decode = Some p"
  then show ?thesis
    using params_2_same [OF assms(1)] permutation_total [OF contract_params_shaped(1) _ assms(2) [unfolded \<open>t = 2\<close>]]
    by auto
next
  assume "t = 3" "POSEIDON2_BN256_PARAMS_3 decode = Some p"
  then show ?thesis
    using params_3_same [OF assms(1)] permutation_total [OF contract_params_shaped(2) _ assms(2) [unfolded \<open>t = 3\<close>]]
    by auto
next
  assume t: "t = 4" "POSEIDON2_BN256_PARAMS_4 decode = Some p"
  then have "well_shaped 4 p" using params_4 [OF assms(1)] by auto
  from permutation_total [OF this _ assms(2) [unfolded t(1)]] t(1) show ?thesis by simp
qed

text \<open>
  The optimised layers are the declared matrices. With the parameter sets of widths two, three and
  four, read from the literals of the tables, every input of the right width has a permutation: no
  panic, and reduced elements of the same width. The shortcut by which the internal layer is computed,
  a sum and one multiplication by the diagonal, is the product with the matrix that the parameter
  set stores and never uses, and the external layer is the product with the circulant matrix (for
  width four, the matrix of the scheme), all modulo the field order.
\<close>

theorem linear_layers_are_matrices:
  assumes "hex_decodes decode"
  shows "\<exists>p2 p3 p4. POSEIDON2_BN256_PARAMS_2 decode = Some p2 \<and> POSEIDON2_BN256_PARAMS_3 decode = Some p3
    \<and> POSEIDON2_BN256_PARAMS_4 decode = Some p4
    \<and> (\<forall>(t, p) \<in> {(2, p2), (3, p3), (4, p4)}. \<forall>xs. length xs = t \<longrightarrow>
         (\<exists>ys. permutation p xs = Some ys \<and> length ys = t \<and> (\<forall>y \<in> set ys. y < prime))
         \<and> matmul_internal t (mat_internal_diag_m_1 p) xs = Some (mat_vec_mul (mat_internal p) xs)
         \<and> matmul_external t xs = Some (mat_vec_mul (external_matrix t) xs))"
proof -
  obtain p2 p3 p4 where p: "POSEIDON2_BN256_PARAMS_2 decode = Some p2" "POSEIDON2_BN256_PARAMS_3 decode = Some p3"
    "POSEIDON2_BN256_PARAMS_4 decode = Some p4"
    and four: "mat_internal_diag_m_1 p4 = map be_value diag_bytes_4"
      "mat_internal p4 = map (\<lambda>i. (replicate 4 1)[i := be_value (diag_bytes_4 ! i) + 1]) [0, 1, 2, 3]"
    using params_2_same [OF assms] params_3_same [OF assms] params_4 [OF assms] by auto
  have "length diag_bytes_4 = 4" by (simp add: diag_bytes_4_def)
  then have "mat_internal p4
      = map (\<lambda>i. (replicate 4 1)[i := mat_internal_diag_m_1 p4 ! i + 1]) [0, 1, 2, 3]"
    "length (mat_internal_diag_m_1 p4) = 4"
    using four by simp_all
  note internal = internal_layers(1) internal_layers(2)
    internal_layers(3) [OF _ this(2), folded this(1)]
  have total: "\<exists>ys. permutation q xs = Some ys \<and> length ys = t \<and> (\<forall>y \<in> set ys. y < prime)"
    if "(t, q) \<in> {(2, p2), (3, p3), (4, p4)}" "length xs = t" for t q xs
    using params_total [OF assms that(2), of q] that(1) p by (auto simp: reduced_def)
  show ?thesis
    using p total internal external_layers params_matrices(1) [OF assms p(1)] params_matrices(2) [OF assms p(2)]
    by (intro exI [of _ p2] exI [of _ p3] exI [of _ p4]) auto
qed

theorem linear_layers_are_matrices_witness:
  "\<exists>p4. POSEIDON2_BN256_PARAMS_4 hex_read = Some p4
     \<and> matmul_internal 4 (mat_internal_diag_m_1 p4) [1, 2, 3, 4] = Some (mat_vec_mul (mat_internal p4) [1, 2, 3, 4])
     \<and> matmul_external 4 [1, 2, 3, 4] = Some [34, 23, 50, 39]"
proof -
  obtain p2 p3 p4 where p4: "POSEIDON2_BN256_PARAMS_4 hex_read = Some p4"
    and all: "\<forall>(t, p) \<in> {(2, p2), (3, p3), (4, p4)}. \<forall>xs. length xs = t \<longrightarrow>
         (\<exists>ys. permutation p xs = Some ys \<and> length ys = t \<and> (\<forall>y \<in> set ys. y < prime))
         \<and> matmul_internal t (mat_internal_diag_m_1 p) xs = Some (mat_vec_mul (mat_internal p) xs)
         \<and> matmul_external t xs = Some (mat_vec_mul (external_matrix t) xs)"
    using linear_layers_are_matrices [OF hex_read_decodes] by blast
  have "length [1, 2, 3, 4 :: nat] = 4" by simp
  with all have m: "matmul_internal 4 (mat_internal_diag_m_1 p4) [1, 2, 3, 4] = Some (mat_vec_mul (mat_internal p4) [1, 2, 3, 4])"
    "matmul_external 4 [1, 2, 3, 4] = Some (mat_vec_mul (external_matrix 4) [1, 2, 3, 4])"
    by fast+
  moreover have "mat_vec_mul (external_matrix 4) [1, 2, 3, 4] = [34, 23, 50, 39]"
    by (simp add: mat_vec_mul_eq external_matrix_def prime_def)
  ultimately show ?thesis using p4 by metis
qed

end
