(* ===== verification/NoteEncryption.thy ===== *)
theory NoteEncryption
  imports ProverCodec
begin

text \<open>
  Key derivation and note encryption (\<open>app/crates/core/prover/src/encryption.rs\<close>) and the
  discovery of notes (\<open>notes.rs\<close>).

  SHA-256, X25519, XSalsa20-Poly1305 and the system's random source are third-party crates; they
  are the fields of \<open>crypto_env\<close>. The random source is asked request by request: the counter that
  the operations pass on numbers the requests. Keys are lists of 32 bytes.
\<close>

datatype prover_error =
    SignatureLength
  | RandomFailed
  | EncodedLength nat
  | FieldRange
  | RecipientKeyLength
  | PlaintextLength
  | EncryptionFailed
  | PrivateKeyLength
  | CiphertextTooShort
  | DecryptedLength nat
  | CodecFailed codec_error

record crypto_env =
  getrandom :: "nat \<Rightarrow> nat \<Rightarrow> nat list option"
  x25519_public :: "nat list \<Rightarrow> nat list"
  diffie_hellman :: "nat list \<Rightarrow> nat list \<Rightarrow> nat list"
  secret_to_bytes :: "nat list \<Rightarrow> nat list"
  seal_box :: "nat list \<Rightarrow> nat list \<Rightarrow> nat list \<Rightarrow> nat list option"
  open_box :: "nat list \<Rightarrow> nat list \<Rightarrow> nat list \<Rightarrow> nat list option"
  sha256 :: "nat list \<Rightarrow> nat list"

record note_key_pair =
  nk_private :: "nat list"
  nk_public :: "nat list"

record encryption_key_pair =
  ek_private :: "nat list"
  ek_public :: "nat list"

section \<open>Keys from a signature\<close>

definition text_bytes :: "string \<Rightarrow> nat list" where
  "text_bytes s = map of_char s"

definition KEY_DERIVATION_MESSAGE :: string where
  "KEY_DERIVATION_MESSAGE = ''Privacy Pool Key Derivation [v1]''"

definition NOTE_KEY_DOMAIN :: "nat list" where
  "NOTE_KEY_DOMAIN = text_bytes ''privacy-pool/note-key/v1''"

definition ENCRYPTION_KEY_DOMAIN :: "nat list" where
  "ENCRYPTION_KEY_DOMAIN = text_bytes ''privacy-pool/encryption-key/v1''"

definition MEMBERSHIP_BLINDING_DOMAIN :: "nat list" where
  "MEMBERSHIP_BLINDING_DOMAIN = text_bytes ''privacy-pool/asp-secret/v1''"

definition hash_signature_with_domain :: "crypto_env \<Rightarrow> nat list \<Rightarrow> nat list \<Rightarrow> nat list" where
  "hash_signature_with_domain env signature tag = sha256 env (tag @ signature)"

definition hash_signature_with_domain_and_context ::
  "crypto_env \<Rightarrow> nat list \<Rightarrow> nat list \<Rightarrow> nat list \<Rightarrow> nat list" where
  "hash_signature_with_domain_and_context env signature tag ctx =
     sha256 env (tag @ [0] @ ctx @ [0] @ signature)"

text \<open>\<open>Fr::from_le_bytes_mod_order\<close>, then \<open>serialize_compressed\<close>: 32 little-endian bytes.\<close>

definition reduced_bytes :: "nat list \<Rightarrow> nat list" where
  "reduced_bytes bs = le_digits 32 (le_value bs mod prime)"

definition derive_membership_blinding ::
  "crypto_env \<Rightarrow> nat list \<Rightarrow> string \<Rightarrow> (prover_error, field_element) result" where
  "derive_membership_blinding env signature network_context =
     (if length signature \<noteq> 64 then Inl (Err SignatureLength)
      else
        let key = hash_signature_with_domain_and_context env signature MEMBERSHIP_BLINDING_DOMAIN
                    (text_bytes network_context)
        in ok_or (try_from_le_bytes (reduced_bytes key)) FieldRange)"

definition derive_keypair_from_signature ::
  "crypto_env \<Rightarrow> nat list \<Rightarrow> (prover_error, encryption_key_pair) result" where
  "derive_keypair_from_signature env signature =
     (if length signature \<noteq> 64 then Inl (Err SignatureLength)
      else
        let secret_bytes = hash_signature_with_domain env signature ENCRYPTION_KEY_DOMAIN
        in Inr \<lparr>ek_private = secret_to_bytes env secret_bytes, ek_public = x25519_public env secret_bytes\<rparr>)"

definition derive_note_private_key :: "crypto_env \<Rightarrow> nat list \<Rightarrow> (prover_error, nat list) result" where
  "derive_note_private_key env signature =
     (if length signature \<noteq> 64 then Inl (Err SignatureLength)
      else Inr (reduced_bytes (hash_signature_with_domain env signature NOTE_KEY_DOMAIN)))"

definition derive_encryption_and_note_keypairs ::
  "crypto_env \<Rightarrow> poseidon2_params \<Rightarrow> nat list \<Rightarrow> (prover_error, note_key_pair \<times> encryption_key_pair) result" where
  "derive_encryption_and_note_keypairs env p3 signature =
     and_then (derive_note_private_key env signature) (\<lambda>note_private_key.
     and_then (map_err CodecFailed (derive_public_key p3 note_private_key)) (\<lambda>pubkey.
     and_then (ensure (length pubkey = 32) (EncodedLength (length pubkey))) (\<lambda>_.
     and_then (derive_keypair_from_signature env signature) (\<lambda>encryption_keypair.
       Inr (\<lparr>nk_private = note_private_key, nk_public = pubkey\<rparr>, encryption_keypair)))))"

section \<open>Random blindings\<close>

definition generate_random_blinding ::
  "crypto_env \<Rightarrow> nat \<Rightarrow> (prover_error, field_element \<times> nat) result" where
  "generate_random_blinding env rng =
     and_then (ok_or (getrandom env rng 32) RandomFailed) (\<lambda>random_bytes.
     let le = reduced_bytes random_bytes in
     and_then (ensure (length le = 32) (EncodedLength (length le))) (\<lambda>_.
     and_then (ok_or (try_from_le_bytes le) FieldRange) (\<lambda>f. Inr (f, rng + 1))))"

section \<open>Encrypting and decrypting a note\<close>

definition encrypt_note_data ::
  "crypto_env \<Rightarrow> nat \<Rightarrow> nat list \<Rightarrow> nat list \<Rightarrow> (prover_error, nat list \<times> nat) result" where
  "encrypt_note_data env rng recipient_pubkey plaintext =
     (if length recipient_pubkey \<noteq> 32 then Inl (Err RecipientKeyLength)
      else if length plaintext \<noteq> 48 then Inl (Err PlaintextLength)
      else
        and_then (ok_or (getrandom env rng 32) RandomFailed) (\<lambda>ephemeral_bytes.
        let ephemeral_public = x25519_public env ephemeral_bytes;
            shared_secret = diffie_hellman env ephemeral_bytes recipient_pubkey in
        and_then (ok_or (getrandom env (rng + 1) 24) RandomFailed) (\<lambda>nonce.
        and_then (ok_or (seal_box env shared_secret nonce plaintext) EncryptionFailed) (\<lambda>ciphertext.
        and_then (unwrap (checked_add 32 (length ciphertext) 56)) (\<lambda>_.
          Inr (ephemeral_public @ nonce @ ciphertext, rng + 2))))))"

definition decrypt_note_data :: "crypto_env \<Rightarrow> nat list \<Rightarrow> nat list \<Rightarrow> (prover_error, nat list) result" where
  "decrypt_note_data env private_key encrypted_data =
     (if length private_key \<noteq> 32 then Inl (Err PrivateKeyLength)
      else if length encrypted_data < 120 then Inl (Err CiphertextTooShort)
      else
        let ephemeral_pubkey = take 32 encrypted_data;
            nonce = take 24 (drop 32 encrypted_data);
            ciphertext_with_tag = drop 56 encrypted_data;
            shared_secret = diffie_hellman env private_key ephemeral_pubkey
        in (case open_box env shared_secret nonce ciphertext_with_tag of
              Some plaintext \<Rightarrow> Inr plaintext
            | None \<Rightarrow> Inr []))"

definition encrypt_output_note ::
  "crypto_env \<Rightarrow> nat \<Rightarrow> nat list \<Rightarrow> note_amount \<Rightarrow> field_element \<Rightarrow> (prover_error, nat list \<times> nat) result" where
  "encrypt_output_note env rng recipient_pubkey amount blinding =
     encrypt_note_data env rng recipient_pubkey (note_to_le_bytes amount @ field_to_le_bytes blinding)"

definition decrypt_output_note ::
  "crypto_env \<Rightarrow> nat list \<Rightarrow> nat list \<Rightarrow> (prover_error, (note_amount \<times> field_element) option) result" where
  "decrypt_output_note env recipient_privkey encrypted_output =
     and_then (decrypt_note_data env recipient_privkey encrypted_output) (\<lambda>plaintext.
     if plaintext = [] then Inr None
     else if length plaintext \<noteq> 48 then Inl (Err (DecryptedLength (length plaintext)))
     else
       let amount = NoteAmount (word_of_nat (le_value (take 16 plaintext))) in
       and_then (ok_or (try_from_le_bytes (drop 16 plaintext)) FieldRange) (\<lambda>blinding.
         Inr (Some (amount, blinding))))"

section \<open>Discovering a note\<close>

record derived_user_note =
  dn_amount :: note_amount
  dn_blinding :: field_element
  dn_expected_nullifier :: field_element

definition try_decrypt_and_derive_user_note ::
  "crypto_env \<Rightarrow> poseidon2_params \<Rightarrow> note_key_pair \<Rightarrow> nat list \<Rightarrow> field_element \<Rightarrow> nat \<Rightarrow> nat list
     \<Rightarrow> (prover_error, derived_user_note option) result" where
  "try_decrypt_and_derive_user_note env p4 note_keypair encryption_private_key commitment leaf_index encrypted_output =
     and_then (decrypt_output_note env encryption_private_key encrypted_output) (\<lambda>note.
     case note of
       None \<Rightarrow> Inr None
     | Some (amount, blinding) \<Rightarrow>
         if note_is_zero amount then Inr None
         else
           let amount_field_le = field_to_le_bytes (field_from_note amount) in
           and_then (map_err CodecFailed
               (compute_commitment p4 amount_field_le (nk_public note_keypair) (field_to_le_bytes blinding))) (\<lambda>computed.
           and_then (ensure (length computed = 32) (EncodedLength (length computed))) (\<lambda>_.
           if computed \<noteq> field_to_le_bytes commitment then Inr None
           else
             let commitment_le = field_to_le_bytes commitment;
                 path_indices_le = le_digits 8 leaf_index @ replicate 24 0 in
             and_then (map_err CodecFailed
                 (compute_signature p4 (nk_private note_keypair) commitment_le path_indices_le)) (\<lambda>signature.
             and_then (map_err CodecFailed
                 (compute_nullifier p4 commitment_le path_indices_le signature)) (\<lambda>expected.
             and_then (ensure (length expected = 32) (EncodedLength (length expected))) (\<lambda>_.
             and_then (ok_or (try_from_le_bytes expected) FieldRange) (\<lambda>expected_nullifier.
               Inr (Some \<lparr>dn_amount = amount, dn_blinding = blinding,
                          dn_expected_nullifier = expected_nullifier\<rparr>))))))))"

end
