(* ===== verification/TransactFlow.thy ===== *)
theory TransactFlow
  imports NoteEncryption CoinSelection
begin

text \<open>
  The transaction flows of the prover (\<open>app/crates/core/prover/src/flows.rs\<close>, with the input
  builder of \<open>types.rs\<close>): \<open>transact\<close> checks the parameters, pads inputs and outputs to two slots,
  derives commitments and nullifiers, encrypts the outputs and fills in the signals of the
  circuit; \<open>deposit\<close>, \<open>withdraw\<close> and \<open>transfer\<close> call it. The hash of the external data is an
  argument of the code as well. \<open>rng\<close> numbers the requests to the random source.
\<close>

datatype flow_error =
    TreeDepthZero
  | SmtDepthZero
  | MembershipPathLength nat nat
  | NonMembershipPathLength nat nat
  | TooManyOutputs nat
  | TooManyInputs nat
  | InputSumOverflow
  | OutputSumOverflow
  | PublicAmountRange
  | PublicNegationOverflow
  | BalanceOverflow
  | NotBalanced note_amount ext_amount note_amount
  | KeyLength nat
  | InputPathLength nat nat nat
  | RecipientKeysUnpaired nat
  | CapacityOverflow
  | InsufficientInputs note_amount ext_amount
  | WithdrawOverflow
  | PayrollLengths
  | PayrollPathLength nat nat nat
  | ProverFailed prover_error
  | HashFailed

definition N_INPUTS :: nat where
  "N_INPUTS = 2"

definition N_OUTPUTS :: nat where
  "N_OUTPUTS = 2"

record transact_input_note =
  ti_amount :: note_amount
  ti_blinding :: field_element
  ti_path_elements :: "field_element list"
  ti_path_indices :: field_element

record transact_output =
  to_amount :: note_amount
  to_blinding :: field_element
  to_note_pubkey :: "nat list option"
  to_enc_pubkey :: "nat list option"

record asp_membership_proof =
  mp_leaf :: field_element
  mp_blinding :: field_element
  mp_path_elements :: "field_element list"
  mp_path_indices :: field_element
  mp_root :: field_element

record asp_non_membership_proof =
  np_key :: field_element
  np_old_key :: field_element
  np_old_value :: field_element
  np_is_old0 :: bool
  np_siblings :: "field_element list"
  np_root :: field_element

record app_ext_data =
  ed_recipient :: string
  ed_ext_amount :: ext_amount
  ed_encrypted_output0 :: "nat list"
  ed_encrypted_output1 :: "nat list"

section \<open>Circuit inputs\<close>

datatype input_value = Single string | Array "string list"

type_synonym circuit_inputs = "string \<rightharpoonup> input_value"

definition new_inputs :: circuit_inputs where
  "new_inputs = Map.empty"

definition set_single :: "string \<Rightarrow> string \<Rightarrow> circuit_inputs \<Rightarrow> circuit_inputs" where
  "set_single name v c = c(name \<mapsto> Single v)"

definition set_array :: "string \<Rightarrow> string list \<Rightarrow> circuit_inputs \<Rightarrow> circuit_inputs" where
  "set_array name vs c = c(name \<mapsto> Array vs)"

section \<open>Parameters and results\<close>

record prepared_tx =
  pt_pool_root :: field_element
  pt_input_nullifiers :: "field_element list"
  pt_output_commitments :: "field_element list"
  pt_public_amount :: field_element
  pt_ext_data_hash_be :: "nat list"
  pt_asp_membership_root :: field_element
  pt_asp_non_membership_root :: field_element

record transact_artifacts =
  ta_circuit_inputs :: circuit_inputs
  ta_ext_data :: app_ext_data
  ta_prepared :: prepared_tx

record transact_params =
  tp_priv_key :: "nat list"
  tp_encryption_pubkey :: "nat list"
  tp_pool_root :: field_element
  tp_ext_recipient :: string
  tp_ext_amount :: ext_amount
  tp_inputs :: "transact_input_note list"
  tp_outputs :: "transact_output list"
  tp_membership_proof :: asp_membership_proof
  tp_non_membership_proof :: asp_non_membership_proof
  tp_tree_depth :: nat
  tp_smt_depth :: nat

abbreviation prover_err :: "(prover_error, 'a) result \<Rightarrow> (flow_error, 'a) result" where
  "prover_err \<equiv> map_err ProverFailed"

abbreviation codec_err :: "(codec_error, 'a) result \<Rightarrow> (flow_error, 'a) result" where
  "codec_err \<equiv> map_err (\<lambda>e. ProverFailed (CodecFailed e))"

section \<open>Helpers\<close>

definition note_amount_to_field :: "note_amount \<Rightarrow> field_element" where
  "note_amount_to_field amount = field_from_note amount"

definition field_to_circuit_hex :: "field_element \<Rightarrow> (flow_error, string) result" where
  "field_to_circuit_hex f = codec_err (field_bytes_to_hex (field_to_le_bytes f))"

definition ext_amount_to_circuit_hex :: "ext_amount \<Rightarrow> (flow_error, string) result" where
  "ext_amount_to_circuit_hex amount =
     and_then (ok_or (field_try_from_ext amount) PublicAmountRange) field_to_circuit_hex"

definition be32_to_0x_hex :: "nat list \<Rightarrow> string" where
  "be32_to_0x_hex be = ''0x'' @ hex_encode be"

fun map_result :: "('a \<Rightarrow> ('e, 'b) result) \<Rightarrow> 'a list \<Rightarrow> ('e, 'b list) result" where
  "map_result f [] = Inr []"
| "map_result f (x # xs) = and_then (f x) (\<lambda>y. and_then (map_result f xs) (\<lambda>ys. Inr (y # ys)))"

definition sum_note_amounts_inputs :: "transact_input_note list \<Rightarrow> (flow_error, note_amount) result" where
  "sum_note_amounts_inputs inputs =
     fold_result (\<lambda>n sum. ok_or (note_checked_add sum (ti_amount n)) InputSumOverflow) inputs NOTE_ZERO"

definition sum_note_amounts_outputs :: "transact_output list \<Rightarrow> (flow_error, note_amount) result" where
  "sum_note_amounts_outputs outputs =
     fold_result (\<lambda>n sum. ok_or (note_checked_add sum (to_amount n)) OutputSumOverflow) outputs NOTE_ZERO"

definition dummy_input :: "crypto_env \<Rightarrow> nat \<Rightarrow> nat \<Rightarrow> (flow_error, transact_input_note \<times> nat) result" where
  "dummy_input env rng tree_depth =
     and_then (prover_err (generate_random_blinding env rng)) (\<lambda>(blinding, rng1).
       Inr (\<lparr>ti_amount = NOTE_ZERO, ti_blinding = blinding,
             ti_path_elements = replicate tree_depth (Field 0), ti_path_indices = Field 0\<rparr>, rng1))"

section \<open>Checks\<close>

definition check_shapes :: "transact_params \<Rightarrow> (flow_error, unit) result" where
  "check_shapes p =
     and_then (ensure (tp_tree_depth p \<noteq> 0) TreeDepthZero) (\<lambda>_.
     and_then (ensure (tp_smt_depth p \<noteq> 0) SmtDepthZero) (\<lambda>_.
     and_then (ensure (length (mp_path_elements (tp_membership_proof p)) = tp_tree_depth p)
       (MembershipPathLength (tp_tree_depth p) (length (mp_path_elements (tp_membership_proof p))))) (\<lambda>_.
     and_then (ensure (length (np_siblings (tp_non_membership_proof p)) = tp_smt_depth p)
       (NonMembershipPathLength (tp_smt_depth p) (length (np_siblings (tp_non_membership_proof p))))) (\<lambda>_.
       ensure (\<not> N_OUTPUTS < length (tp_outputs p)) (TooManyOutputs (length (tp_outputs p)))))))"

definition amounts_balance :: "note_amount \<Rightarrow> note_amount \<Rightarrow> ext_amount \<Rightarrow> (flow_error, bool) result" where
  "amounts_balance inputs_sum outputs_sum ext =
     (if EXT_ZERO \<le> ext then
        and_then (ok_or (note_try_from_ext ext) PublicAmountRange) (\<lambda>public_note.
        and_then (ok_or (note_checked_add inputs_sum public_note) BalanceOverflow) (\<lambda>lhs.
          Inr (lhs = outputs_sum)))
      else
        and_then (ok_or (ext_checked_neg ext) PublicNegationOverflow) (\<lambda>neg.
        and_then (ok_or (note_try_from_ext neg) PublicAmountRange) (\<lambda>public_note.
        and_then (ok_or (note_checked_add outputs_sum public_note) BalanceOverflow) (\<lambda>rhs.
          Inr (inputs_sum = rhs)))))"

definition check_balance :: "transact_params \<Rightarrow> (flow_error, unit) result" where
  "check_balance p =
     and_then (sum_note_amounts_inputs (tp_inputs p)) (\<lambda>inputs_sum.
     and_then (sum_note_amounts_outputs (tp_outputs p)) (\<lambda>outputs_sum.
     and_then (amounts_balance inputs_sum outputs_sum (tp_ext_amount p)) (\<lambda>balanced.
       ensure balanced (NotBalanced inputs_sum (tp_ext_amount p) outputs_sum))))"

section \<open>Slots\<close>

fun push_dummy_inputs ::
  "crypto_env \<Rightarrow> nat \<Rightarrow> nat \<Rightarrow> transact_input_note list \<times> nat \<Rightarrow> (flow_error, transact_input_note list \<times> nat) result" where
  "push_dummy_inputs env depth 0 st = Inr st"
| "push_dummy_inputs env depth (Suc n) (slots, rng) =
     and_then (dummy_input env rng depth) (\<lambda>(d, rng1). push_dummy_inputs env depth n (slots @ [d], rng1))"

definition input_slots ::
  "crypto_env \<Rightarrow> nat \<Rightarrow> nat \<Rightarrow> transact_input_note list \<Rightarrow> (flow_error, transact_input_note list \<times> nat) result" where
  "input_slots env rng depth inputs =
     (if inputs = [] then push_dummy_inputs env depth 2 ([], rng)
      else
        and_then (ensure (\<not> N_INPUTS < length inputs) (TooManyInputs (length inputs))) (\<lambda>_.
          push_dummy_inputs env depth (N_INPUTS - length inputs) (inputs, rng)))"

definition check_input_paths :: "nat \<Rightarrow> transact_input_note list \<Rightarrow> (flow_error, unit) result" where
  "check_input_paths depth slots =
     fold_result (\<lambda>(i, inp) _. ensure (length (ti_path_elements inp) = depth)
         (InputPathLength i depth (length (ti_path_elements inp)))) (List.enumerate 0 slots) ()"

fun push_dummy_outputs ::
  "crypto_env \<Rightarrow> nat \<Rightarrow> transact_output list \<times> nat \<Rightarrow> (flow_error, transact_output list \<times> nat) result" where
  "push_dummy_outputs env 0 st = Inr st"
| "push_dummy_outputs env (Suc n) (slots, rng) =
     and_then (prover_err (generate_random_blinding env rng)) (\<lambda>(blinding, rng1).
       push_dummy_outputs env n
         (slots @ [\<lparr>to_amount = NOTE_ZERO, to_blinding = blinding, to_note_pubkey = None, to_enc_pubkey = None\<rparr>],
          rng1))"

definition output_slots ::
  "crypto_env \<Rightarrow> nat \<Rightarrow> transact_output list \<Rightarrow> (flow_error, transact_output list \<times> nat) result" where
  "output_slots env rng outputs = push_dummy_outputs env (N_OUTPUTS - length outputs) (outputs, rng)"

definition check_recipient_keys :: "transact_output list \<Rightarrow> (flow_error, unit) result" where
  "check_recipient_keys slots =
     fold_result (\<lambda>(i, out) _. ensure ((to_note_pubkey out \<noteq> None) = (to_enc_pubkey out \<noteq> None))
         (RecipientKeysUnpaired i)) (List.enumerate 0 slots) ()"

section \<open>Inputs and outputs of the circuit\<close>

record input_signals =
  is_nullifier_hex :: "string list"
  is_amount_hex :: "string list"
  is_priv_hex :: "string list"
  is_blinding_hex :: "string list"
  is_path_indices_hex :: "string list"
  is_path_elements_hex :: "string list"
  is_nullifiers :: "field_element list"

definition input_step ::
  "poseidon2_params \<Rightarrow> nat list \<Rightarrow> nat list \<Rightarrow> string \<Rightarrow> nat \<times> transact_input_note \<Rightarrow> input_signals
     \<Rightarrow> (flow_error, input_signals) result" where
  "input_step p4 priv_key sender_note_pubkey priv_key_hex idx_inp acc =
     (case idx_inp of (idx, inp) \<Rightarrow>
      let amount_field = note_amount_to_field (ti_amount inp);
          blinding_le = field_to_le_bytes (ti_blinding inp);
          indices_le = field_to_le_bytes (ti_path_indices inp) in
      and_then (codec_err (compute_commitment p4 (field_to_le_bytes amount_field) sender_note_pubkey blinding_le)) (\<lambda>commitment.
      and_then (codec_err (compute_signature p4 priv_key commitment indices_le)) (\<lambda>signature.
      and_then (codec_err (compute_nullifier p4 commitment indices_le signature)) (\<lambda>nullifier.
      and_then (ensure (length nullifier = 32) (KeyLength (length nullifier))) (\<lambda>_.
      and_then (ok_or (try_from_le_bytes nullifier) (ProverFailed FieldRange)) (\<lambda>nullifier_field.
      and_then (field_to_circuit_hex nullifier_field) (\<lambda>nullifier_hex.
      and_then (field_to_circuit_hex amount_field) (\<lambda>amount_hex.
      and_then (codec_err (field_bytes_to_hex blinding_le)) (\<lambda>blinding_hex.
      and_then (field_to_circuit_hex (ti_path_indices inp)) (\<lambda>indices_hex.
      and_then (map_result field_to_circuit_hex (ti_path_elements inp)) (\<lambda>elements_hex.
        Inr \<lparr>is_nullifier_hex = is_nullifier_hex acc @ [nullifier_hex],
             is_amount_hex = is_amount_hex acc @ [amount_hex],
             is_priv_hex = is_priv_hex acc @ [priv_key_hex],
             is_blinding_hex = is_blinding_hex acc @ [blinding_hex],
             is_path_indices_hex = is_path_indices_hex acc @ [indices_hex],
             is_path_elements_hex = is_path_elements_hex acc @ elements_hex,
             is_nullifiers = (is_nullifiers acc)[idx := nullifier_field]\<rparr>)))))))))))"

record output_signals =
  os_amount_hex :: "string list"
  os_pubkey_hex :: "string list"
  os_blinding_hex :: "string list"
  os_commitment_hex :: "string list"
  os_commitments :: "field_element list"
  os_encrypted :: "nat list list"

definition output_step ::
  "crypto_env \<Rightarrow> poseidon2_params \<Rightarrow> nat list \<Rightarrow> nat list \<Rightarrow> nat \<times> transact_output \<Rightarrow> output_signals \<times> nat
     \<Rightarrow> (flow_error, output_signals \<times> nat) result" where
  "output_step env p4 sender_note_pubkey encryption_pubkey idx_out st =
     (case idx_out of (idx, out) \<Rightarrow> case st of (acc, rng) \<Rightarrow>
      let recipient_note_pubkey = unwrap_or (to_note_pubkey out) sender_note_pubkey;
          recipient_enc_pubkey = unwrap_or (to_enc_pubkey out) encryption_pubkey;
          amount_field = note_amount_to_field (to_amount out);
          blinding_le = field_to_le_bytes (to_blinding out) in
      and_then (codec_err (compute_commitment p4 (field_to_le_bytes amount_field) recipient_note_pubkey blinding_le)) (\<lambda>commitment.
      and_then (ensure (length commitment = 32) (KeyLength (length commitment))) (\<lambda>_.
      and_then (ok_or (try_from_le_bytes commitment) (ProverFailed FieldRange)) (\<lambda>commitment_field.
      and_then (prover_err (encrypt_output_note env rng recipient_enc_pubkey (to_amount out) (to_blinding out))) (\<lambda>(enc, rng1).
      and_then (field_to_circuit_hex amount_field) (\<lambda>amount_hex.
      and_then (codec_err (field_bytes_to_hex recipient_note_pubkey)) (\<lambda>pubkey_hex.
      and_then (codec_err (field_bytes_to_hex blinding_le)) (\<lambda>blinding_hex.
      and_then (field_to_circuit_hex commitment_field) (\<lambda>commitment_hex.
        Inr (\<lparr>os_amount_hex = os_amount_hex acc @ [amount_hex],
              os_pubkey_hex = os_pubkey_hex acc @ [pubkey_hex],
              os_blinding_hex = os_blinding_hex acc @ [blinding_hex],
              os_commitment_hex = os_commitment_hex acc @ [commitment_hex],
              os_commitments = (os_commitments acc)[idx := commitment_field],
              os_encrypted = (os_encrypted acc)[idx := enc]\<rparr>, rng1))))))))))"

section \<open>Wiring the circuit\<close>

definition no_input_signals :: input_signals where
  "no_input_signals = \<lparr>is_nullifier_hex = [], is_amount_hex = [], is_priv_hex = [], is_blinding_hex = [],
     is_path_indices_hex = [], is_path_elements_hex = [], is_nullifiers = replicate N_INPUTS (Field 0)\<rparr>"

definition no_output_signals :: output_signals where
  "no_output_signals = \<lparr>os_amount_hex = [], os_pubkey_hex = [], os_blinding_hex = [], os_commitment_hex = [],
     os_commitments = replicate N_OUTPUTS (Field 0), os_encrypted = [[], []]\<rparr>"

definition wire_notes :: "input_signals \<Rightarrow> output_signals \<Rightarrow> circuit_inputs \<Rightarrow> circuit_inputs" where
  "wire_notes ins outs c0 =
     (let c1 = set_array ''inputNullifier'' (is_nullifier_hex ins) c0;
          c2 = set_array ''outputCommitment'' (os_commitment_hex outs) c1;
          c3 = set_array ''inAmount'' (is_amount_hex ins) c2;
          c4 = set_array ''inPrivateKey'' (is_priv_hex ins) c3;
          c5 = set_array ''inBlinding'' (is_blinding_hex ins) c4;
          c6 = set_array ''inPathIndices'' (is_path_indices_hex ins) c5;
          c7 = set_array ''inPathElements'' (is_path_elements_hex ins) c6;
          c8 = set_array ''outAmount'' (os_amount_hex outs) c7;
          c9 = set_array ''outPubkey'' (os_pubkey_hex outs) c8
      in set_array ''outBlinding'' (os_blinding_hex outs) c9)"

definition wire_roots ::
  "asp_membership_proof \<Rightarrow> asp_non_membership_proof \<Rightarrow> circuit_inputs \<Rightarrow> (flow_error, circuit_inputs) result" where
  "wire_roots mp np c =
     and_then (field_to_circuit_hex (mp_root mp)) (\<lambda>membership_root_hex.
     and_then (field_to_circuit_hex (np_root np)) (\<lambda>non_membership_root_hex.
       Inr (set_array ''nonMembershipRoots'' [non_membership_root_hex, non_membership_root_hex]
             (set_array ''membershipRoots'' [membership_root_hex, membership_root_hex] c))))"

text \<open>\<open>format!("{}")\<close> of a slot number.\<close>

fun show_decimal :: "nat \<Rightarrow> string" where
  "show_decimal n =
     (if n < 10 then [char_of (48 + n)] else show_decimal (n div 10) @ [char_of (48 + n mod 10)])"

declare show_decimal.simps [simp del]

definition set_single_field ::
  "string \<Rightarrow> field_element \<Rightarrow> circuit_inputs \<Rightarrow> (flow_error, circuit_inputs) result" where
  "set_single_field name f c = and_then (field_to_circuit_hex f) (\<lambda>v. Inr (set_single name v c))"

definition set_array_fields ::
  "string \<Rightarrow> field_element list \<Rightarrow> circuit_inputs \<Rightarrow> (flow_error, circuit_inputs) result" where
  "set_array_fields name fs c = and_then (map_result field_to_circuit_hex fs) (\<lambda>vs. Inr (set_array name vs c))"

definition wire_membership ::
  "asp_membership_proof \<Rightarrow> nat \<Rightarrow> circuit_inputs \<Rightarrow> (flow_error, circuit_inputs) result" where
  "wire_membership mp slot c =
     (let prefix_m = ''membershipProofs['' @ show_decimal slot @ ''][0].'' in
      and_then (set_single_field (prefix_m @ ''leaf'') (mp_leaf mp) c) (\<lambda>c1.
      and_then (set_single_field (prefix_m @ ''blinding'') (mp_blinding mp) c1) (\<lambda>c2.
      and_then (set_single_field (prefix_m @ ''pathIndices'') (mp_path_indices mp) c2) (\<lambda>c3.
      and_then (set_array_fields (prefix_m @ ''pathElements'') (mp_path_elements mp) c3) (\<lambda>c4.
        set_single_field (prefix_m @ ''root'') (mp_root mp) c4)))))"

definition wire_non_membership ::
  "asp_non_membership_proof \<Rightarrow> nat \<Rightarrow> circuit_inputs \<Rightarrow> (flow_error, circuit_inputs) result" where
  "wire_non_membership np slot c =
     (let prefix_n = ''nonMembershipProofs['' @ show_decimal slot @ ''][0].'' in
      and_then (set_single_field (prefix_n @ ''key'') (np_key np) c) (\<lambda>c1.
      and_then (set_single_field (prefix_n @ ''oldKey'') (np_old_key np) c1) (\<lambda>c2.
      and_then (set_single_field (prefix_n @ ''oldValue'') (np_old_value np) c2) (\<lambda>c3.
      and_then (set_single_field (prefix_n @ ''isOld0'')
         (if np_is_old0 np then field_from_note NOTE_ONE else Field 0) c3) (\<lambda>c4.
      and_then (set_array_fields (prefix_n @ ''siblings'') (np_siblings np) c4) (\<lambda>c5.
        set_single_field (prefix_n @ ''root'') (np_root np) c5))))))"

definition wire_asp_slot ::
  "asp_membership_proof \<Rightarrow> asp_non_membership_proof \<Rightarrow> nat \<Rightarrow> circuit_inputs \<Rightarrow> (flow_error, circuit_inputs) result" where
  "wire_asp_slot mp np slot c = and_then (wire_membership mp slot c) (wire_non_membership np slot)"

section \<open>The transaction builder\<close>

definition transact ::
  "crypto_env \<Rightarrow> poseidon2_params \<Rightarrow> poseidon2_params \<Rightarrow> (app_ext_data \<Rightarrow> nat list option) \<Rightarrow> transact_params \<Rightarrow> nat
     \<Rightarrow> (flow_error, transact_artifacts \<times> nat) result" where
  "transact env p3 p4 hash_ext_data p rng =
     and_then (check_shapes p) (\<lambda>_.
     and_then (check_balance p) (\<lambda>_.
     and_then (codec_err (derive_public_key p3 (tp_priv_key p))) (\<lambda>sender_note_pubkey.
     and_then (ensure (length sender_note_pubkey = 32) (KeyLength (length sender_note_pubkey))) (\<lambda>_.
     and_then (input_slots env rng (tp_tree_depth p) (tp_inputs p)) (\<lambda>(in_slots, rng1).
     and_then (check_input_paths (tp_tree_depth p) in_slots) (\<lambda>_.
     and_then (output_slots env rng1 (tp_outputs p)) (\<lambda>(out_slots, rng2).
     and_then (check_recipient_keys out_slots) (\<lambda>_.
     and_then (field_to_circuit_hex (tp_pool_root p)) (\<lambda>root_hex.
     and_then (ok_or (field_try_from_ext (tp_ext_amount p)) PublicAmountRange) (\<lambda>public_amount_field.
     and_then (ext_amount_to_circuit_hex (tp_ext_amount p)) (\<lambda>public_amount_hex.
     let c1 = set_single ''publicAmount'' public_amount_hex (set_single ''root'' root_hex new_inputs) in
     and_then (codec_err (field_bytes_to_hex (tp_priv_key p))) (\<lambda>priv_key_hex.
     and_then (ensure (fits USIZE_BITS (N_INPUTS * tp_tree_depth p)) CapacityOverflow) (\<lambda>_.
     and_then (fold_result (input_step p4 (tp_priv_key p) sender_note_pubkey priv_key_hex)
         (List.enumerate 0 in_slots) no_input_signals) (\<lambda>ins.
     and_then (fold_result (output_step env p4 sender_note_pubkey (tp_encryption_pubkey p))
         (List.enumerate 0 out_slots) (no_output_signals, rng2)) (\<lambda>(outs, rng3).
     and_then (wire_roots (tp_membership_proof p) (tp_non_membership_proof p) (wire_notes ins outs c1)) (\<lambda>c2.
     and_then (fold_result (wire_asp_slot (tp_membership_proof p) (tp_non_membership_proof p)) [0..<N_INPUTS] c2) (\<lambda>c3.
     let ext_data = \<lparr>ed_recipient = tp_ext_recipient p, ed_ext_amount = tp_ext_amount p,
           ed_encrypted_output0 = os_encrypted outs ! 0, ed_encrypted_output1 = os_encrypted outs ! 1\<rparr> in
     and_then (ok_or (hash_ext_data ext_data) HashFailed) (\<lambda>ext_data_hash_be.
       Inr (\<lparr>ta_circuit_inputs = set_single ''extDataHash'' (be32_to_0x_hex ext_data_hash_be) c3,
             ta_ext_data = ext_data,
             ta_prepared =
               \<lparr>pt_pool_root = tp_pool_root p, pt_input_nullifiers = is_nullifiers ins,
                pt_output_commitments = os_commitments outs, pt_public_amount = public_amount_field,
                pt_ext_data_hash_be = ext_data_hash_be,
                pt_asp_membership_root = mp_root (tp_membership_proof p),
                pt_asp_non_membership_root = np_root (tp_non_membership_proof p)\<rparr>\<rparr>, rng3)))))))))))))))))))"

section \<open>Deposit, withdrawal and transfer\<close>

record deposit_params =
  dp_priv_key :: "nat list"
  dp_encryption_pubkey :: "nat list"
  dp_pool_root :: field_element
  dp_pool_address :: string
  dp_amount :: ext_amount
  dp_outputs :: "transact_output list"
  dp_membership_proof :: asp_membership_proof
  dp_non_membership_proof :: asp_non_membership_proof
  dp_tree_depth :: nat
  dp_smt_depth :: nat

record withdraw_params =
  wp_priv_key :: "nat list"
  wp_encryption_pubkey :: "nat list"
  wp_pool_root :: field_element
  wp_withdraw_recipient :: string
  wp_withdraw_amount :: ext_amount
  wp_inputs :: "transact_input_note list"
  wp_outputs :: "transact_output list option"
  wp_membership_proof :: asp_membership_proof
  wp_non_membership_proof :: asp_non_membership_proof
  wp_tree_depth :: nat
  wp_smt_depth :: nat

record transfer_params =
  xp_priv_key :: "nat list"
  xp_encryption_pubkey :: "nat list"
  xp_pool_root :: field_element
  xp_pool_address :: string
  xp_inputs :: "transact_input_note list"
  xp_outputs :: "transact_output list"
  xp_membership_proof :: asp_membership_proof
  xp_non_membership_proof :: asp_non_membership_proof
  xp_tree_depth :: nat
  xp_smt_depth :: nat

definition deposit ::
  "crypto_env \<Rightarrow> poseidon2_params \<Rightarrow> poseidon2_params \<Rightarrow> (app_ext_data \<Rightarrow> nat list option) \<Rightarrow> deposit_params \<Rightarrow> nat
     \<Rightarrow> (flow_error, transact_artifacts \<times> nat) result" where
  "deposit env p3 p4 hash_ext_data d rng =
     transact env p3 p4 hash_ext_data
       \<lparr>tp_priv_key = dp_priv_key d, tp_encryption_pubkey = dp_encryption_pubkey d,
        tp_pool_root = dp_pool_root d, tp_ext_recipient = dp_pool_address d,
        tp_ext_amount = dp_amount d, tp_inputs = [], tp_outputs = dp_outputs d,
        tp_membership_proof = dp_membership_proof d,
        tp_non_membership_proof = dp_non_membership_proof d,
        tp_tree_depth = dp_tree_depth d, tp_smt_depth = dp_smt_depth d\<rparr> rng"

definition change_outputs ::
  "crypto_env \<Rightarrow> nat \<Rightarrow> note_amount \<Rightarrow> (flow_error, transact_output list \<times> nat) result" where
  "change_outputs env rng change =
     and_then (prover_err (generate_random_blinding env rng)) (\<lambda>(change_blinding, rng1).
     and_then (prover_err (generate_random_blinding env rng1)) (\<lambda>(dummy_blinding, rng2).
       Inr ([\<lparr>to_amount = change, to_blinding = change_blinding, to_note_pubkey = None, to_enc_pubkey = None\<rparr>,
             \<lparr>to_amount = NOTE_ZERO, to_blinding = dummy_blinding, to_note_pubkey = None, to_enc_pubkey = None\<rparr>],
            rng2)))"

definition withdraw ::
  "crypto_env \<Rightarrow> poseidon2_params \<Rightarrow> poseidon2_params \<Rightarrow> (app_ext_data \<Rightarrow> nat list option) \<Rightarrow> withdraw_params \<Rightarrow> nat
     \<Rightarrow> (flow_error, transact_artifacts \<times> nat) result" where
  "withdraw env p3 p4 hash_ext_data w rng =
     and_then (sum_note_amounts_inputs (wp_inputs w)) (\<lambda>input_total.
     and_then (ok_or (note_try_from_ext (wp_withdraw_amount w)) PublicAmountRange) (\<lambda>withdraw_note_amount.
     and_then (ensure (\<not> input_total < withdraw_note_amount) (InsufficientInputs input_total (wp_withdraw_amount w))) (\<lambda>_.
     and_then (ok_or (note_checked_sub input_total withdraw_note_amount)
         (InsufficientInputs input_total (wp_withdraw_amount w))) (\<lambda>change.
     and_then (case wp_outputs w of Some v \<Rightarrow> Inr (v, rng) | None \<Rightarrow> change_outputs env rng change) (\<lambda>(outputs, rng1).
     and_then (ok_or (ext_checked_neg (wp_withdraw_amount w)) WithdrawOverflow) (\<lambda>ext.
       transact env p3 p4 hash_ext_data
         \<lparr>tp_priv_key = wp_priv_key w, tp_encryption_pubkey = wp_encryption_pubkey w,
          tp_pool_root = wp_pool_root w, tp_ext_recipient = wp_withdraw_recipient w,
          tp_ext_amount = ext, tp_inputs = wp_inputs w, tp_outputs = outputs,
          tp_membership_proof = wp_membership_proof w,
          tp_non_membership_proof = wp_non_membership_proof w,
          tp_tree_depth = wp_tree_depth w, tp_smt_depth = wp_smt_depth w\<rparr> rng1))))))"

definition transfer ::
  "crypto_env \<Rightarrow> poseidon2_params \<Rightarrow> poseidon2_params \<Rightarrow> (app_ext_data \<Rightarrow> nat list option) \<Rightarrow> transfer_params \<Rightarrow> nat
     \<Rightarrow> (flow_error, transact_artifacts \<times> nat) result" where
  "transfer env p3 p4 hash_ext_data x rng =
     transact env p3 p4 hash_ext_data
       \<lparr>tp_priv_key = xp_priv_key x, tp_encryption_pubkey = xp_encryption_pubkey x,
        tp_pool_root = xp_pool_root x, tp_ext_recipient = xp_pool_address x,
        tp_ext_amount = EXT_ZERO, tp_inputs = xp_inputs x, tp_outputs = xp_outputs x,
        tp_membership_proof = xp_membership_proof x,
        tp_non_membership_proof = xp_non_membership_proof x,
        tp_tree_depth = xp_tree_depth x, tp_smt_depth = xp_smt_depth x\<rparr> rng"

section \<open>Selective disclosure and payroll\<close>

record selective_disclosure_params =
  sd_root :: field_element
  sd_note_commitment :: field_element
  sd_note_amount :: note_amount
  sd_note_private_key :: "nat list"
  sd_note_blinding :: field_element
  sd_path_indices :: field_element
  sd_path_elements :: "field_element list"
  sd_ext_context_hash :: field_element

record disclosure_artifacts =
  da_circuit_inputs :: circuit_inputs
  da_ext_context_hash :: field_element

definition selective_disclosure_1 ::
  "selective_disclosure_params \<Rightarrow> (flow_error, disclosure_artifacts) result" where
  "selective_disclosure_1 p =
     and_then (set_array_fields ''roots'' [sd_root p] new_inputs) (\<lambda>c1.
     and_then (set_array_fields ''noteCommitments'' [sd_note_commitment p] c1) (\<lambda>c2.
     and_then (set_single_field ''extContextHash'' (sd_ext_context_hash p) c2) (\<lambda>c3.
     and_then (set_array_fields ''inAmount'' [note_amount_to_field (sd_note_amount p)] c3) (\<lambda>c4.
     and_then (codec_err (field_bytes_to_hex (sd_note_private_key p))) (\<lambda>priv_key_hex.
     let c5 = set_array ''inPrivateKey'' [priv_key_hex] c4 in
     and_then (codec_err (field_bytes_to_hex (field_to_le_bytes (sd_note_blinding p)))) (\<lambda>blinding_hex.
     let c6 = set_array ''inBlinding'' [blinding_hex] c5 in
     and_then (set_array_fields ''inPathIndices'' [sd_path_indices p] c6) (\<lambda>c7.
     and_then (set_array_fields ''inPathElements'' (sd_path_elements p) c7) (\<lambda>c8.
       Inr \<lparr>da_circuit_inputs = c8, da_ext_context_hash = sd_ext_context_hash p\<rparr>))))))))"

record payroll_params =
  pp_employee_root :: field_element
  pp_total_payroll_amount :: field_element
  pp_payroll_period_id :: field_element
  pp_actual_employee_count :: nat
  pp_employee_ids :: "field_element list"
  pp_salary_amounts :: "field_element list"
  pp_salts :: "field_element list"
  pp_path_elements :: "field_element list list"
  pp_path_indices :: "nat list"

record payroll_artifacts =
  pa_circuit_inputs :: circuit_inputs
  pa_public_inputs :: "field_element list"

record payroll_signals =
  ps_employee_ids_hex :: "string list"
  ps_salary_amounts_hex :: "string list"
  ps_salts_hex :: "string list"
  ps_path_indices_hex :: "string list"
  ps_path_elements_hex :: "string list"

definition payroll_step ::
  "payroll_params \<Rightarrow> nat \<Rightarrow> payroll_signals \<Rightarrow> (flow_error, payroll_signals) result" where
  "payroll_step p i acc =
     and_then (unwrap (nth_opt (pp_employee_ids p) i)) (\<lambda>employee_id.
     and_then (field_to_circuit_hex employee_id) (\<lambda>id_hex.
     and_then (unwrap (nth_opt (pp_salary_amounts p) i)) (\<lambda>salary.
     and_then (field_to_circuit_hex salary) (\<lambda>salary_hex.
     and_then (unwrap (nth_opt (pp_salts p) i)) (\<lambda>salt.
     and_then (field_to_circuit_hex salt) (\<lambda>salt_hex.
     and_then (unwrap (nth_opt (pp_path_indices p) i)) (\<lambda>pi_bits.
     and_then (field_to_circuit_hex (Field (word_of_nat pi_bits))) (\<lambda>pi_hex.
     and_then (unwrap (nth_opt (pp_path_elements p) i)) (\<lambda>pes.
     and_then (map_result field_to_circuit_hex pes) (\<lambda>pes_hex.
       Inr \<lparr>ps_employee_ids_hex = ps_employee_ids_hex acc @ [id_hex],
            ps_salary_amounts_hex = ps_salary_amounts_hex acc @ [salary_hex],
            ps_salts_hex = ps_salts_hex acc @ [salt_hex],
            ps_path_indices_hex = ps_path_indices_hex acc @ [pi_hex],
            ps_path_elements_hex = ps_path_elements_hex acc @ pes_hex\<rparr>))))))))))"

definition check_payroll_shape :: "payroll_params \<Rightarrow> (flow_error, unit) result" where
  "check_payroll_shape p =
     (let n = length (pp_employee_ids p) in
      and_then (ensure (\<not> (n \<noteq> length (pp_salary_amounts p) \<or> n \<noteq> length (pp_salts p)
         \<or> n \<noteq> length (pp_path_elements p) \<or> n \<noteq> length (pp_path_indices p))) PayrollLengths) (\<lambda>_.
      let levels = (case pp_path_elements p of [] \<Rightarrow> 0 | pe # _ \<Rightarrow> length pe) in
        fold_result (\<lambda>(i, pe) _. ensure (length pe = levels) (PayrollPathLength i (length pe) levels))
          (List.enumerate 0 (pp_path_elements p)) ()))"

definition payroll_proof :: "payroll_params \<Rightarrow> (flow_error, payroll_artifacts) result" where
  "payroll_proof p =
     and_then (check_payroll_shape p) (\<lambda>_.
     and_then (set_single_field ''employeeRoot'' (pp_employee_root p) new_inputs) (\<lambda>c1.
     and_then (set_single_field ''totalPayrollAmount'' (pp_total_payroll_amount p) c1) (\<lambda>c2.
     and_then (set_single_field ''payrollPeriodId'' (pp_payroll_period_id p) c2) (\<lambda>c3.
     and_then (fold_result (payroll_step p) [0..<length (pp_employee_ids p)]
         \<lparr>ps_employee_ids_hex = [], ps_salary_amounts_hex = [], ps_salts_hex = [],
          ps_path_indices_hex = [], ps_path_elements_hex = []\<rparr>) (\<lambda>s.
       Inr \<lparr>pa_circuit_inputs =
              set_array ''pathElements'' (ps_path_elements_hex s)
                (set_array ''pathIndices'' (ps_path_indices_hex s)
                  (set_array ''salt'' (ps_salts_hex s)
                    (set_array ''salaryAmount'' (ps_salary_amounts_hex s)
                      (set_array ''employeeId'' (ps_employee_ids_hex s) c3)))),
            pa_public_inputs = [pp_employee_root p, pp_total_payroll_amount p, pp_payroll_period_id p]\<rparr>)))))"

end
