(* ===== verification/FlowFacts.thy ===== *)
theory FlowFacts
  imports TransactFlow
begin

text \<open>
  Facts about the transaction flows: the values that the application's hashes return, how signals
  are read back from the circuit inputs, and what each phase of \<open>transact\<close> leaves. The
  predicate \<open>transaction_circuit\<close> states the equations of the circuit
  (\<open>circuits/src/transaction.circom\<close>, \<open>keypair.circom\<close>) on the decoded signals.
\<close>

section \<open>Hash values\<close>

definition panic_free :: "nat \<Rightarrow> poseidon2_params \<Rightarrow> bool" where
  "panic_free t p \<longleftrightarrow> (\<forall>xs. length xs = t \<longrightarrow> (\<exists>ys. permutation p xs = Some ys \<and> reduced t ys))"

definition note_key :: "poseidon2_params \<Rightarrow> scalar \<Rightarrow> scalar" where
  "note_key p3 sk = the (derive_public_key_internal p3 sk)"

definition note_hash :: "poseidon2_params \<Rightarrow> nat \<Rightarrow> scalar \<Rightarrow> scalar \<Rightarrow> scalar \<Rightarrow> scalar" where
  "note_hash p4 sep a b c = the (poseidon2_hash3_internal p4 a b c (Some sep))"

abbreviation bytes_scalar :: "nat list \<Rightarrow> scalar" where
  "bytes_scalar bs \<equiv> le_value bs mod prime"

lemma panic_free_well_shaped:
  "well_shaped t p \<Longrightarrow> t = 2 \<or> t = 3 \<or> t = 4 \<Longrightarrow> panic_free t p"
  by (simp add: panic_free_def permutation_total)

lemma note_key_value:
  assumes "panic_free 3 p3"
  shows "derive_public_key_internal p3 sk = Some (note_key p3 sk)" "note_key p3 sk < prime"
proof -
  obtain ys where "permutation p3 [sk, 0, 3] = Some ys" "reduced 3 ys"
    using assms unfolding panic_free_def by (metis length_Cons list.size(3) numeral_3_eq_3)
  moreover then have "ys ! 0 < prime" by (auto simp: reduced_def)
  ultimately show "derive_public_key_internal p3 sk = Some (note_key p3 sk)" "note_key p3 sk < prime"
    by (simp_all add: note_key_def derive_public_key_internal_def poseidon2_hash2_internal_def)
qed

lemma note_hash_value:
  assumes "panic_free 4 p4"
  shows "poseidon2_hash3_internal p4 a b c (Some sep) = Some (note_hash p4 sep a b c)"
    "note_hash p4 sep a b c < prime"
proof -
  have "length [a, b, c, sep] = 4" by simp
  then obtain ys where "permutation p4 [a, b, c, sep] = Some ys" "reduced 4 ys"
    using assms unfolding panic_free_def by blast
  moreover then have "ys ! 0 < prime" by (auto simp: reduced_def)
  ultimately show "poseidon2_hash3_internal p4 a b c (Some sep) = Some (note_hash p4 sep a b c)"
    "note_hash p4 sep a b c < prime"
    by (simp_all add: note_hash_def poseidon2_hash3_internal_def)
qed

lemma bytes_to_scalar_32 [simp]: "length bs = 32 \<Longrightarrow> bytes_to_scalar bs = Inr (bytes_scalar bs)"
  by (simp add: bytes_to_scalar_Inr)

lemma field_bytes [simp]: "length (field_to_le_bytes f) = 32" "is_bytes (field_to_le_bytes f)"
  by (simp_all add: field_to_le_bytes_def to_le_bytes_def)

lemma field_bytes_scalar [simp]: "bytes_scalar (field_to_le_bytes f) = field_to_scalar f"
  by (simp add: field_to_scalar_def)

lemma digits_scalar [simp]: "s < prime \<Longrightarrow> bytes_scalar (le_digits 32 s) = s"
  by (simp add: scalar_bytes_value)

lemma derive_public_key_eq:
  "panic_free 3 p3 \<Longrightarrow> length k = 32 \<Longrightarrow>
     derive_public_key p3 k = Inr (le_digits 32 (note_key p3 (bytes_scalar k)))"
  by (simp add: derive_public_key_def note_key_value)

lemma app_hash_eqs:
  assumes "panic_free 4 p4" and "length a = 32" "length b = 32" "length c = 32"
  shows "compute_commitment p4 a b c
      = Inr (le_digits 32 (note_hash p4 1 (bytes_scalar a) (bytes_scalar b) (bytes_scalar c)))"
    "compute_signature p4 a b c
      = Inr (le_digits 32 (note_hash p4 4 (bytes_scalar a) (bytes_scalar b) (bytes_scalar c)))"
    "compute_nullifier p4 a b c
      = Inr (le_digits 32 (note_hash p4 2 (bytes_scalar a) (bytes_scalar b) (bytes_scalar c)))"
  using assms
  by (simp_all add: compute_commitment_def compute_signature_def compute_nullifier_def note_hash_value)

definition scalar_field :: "scalar \<Rightarrow> field_element" where
  "scalar_field s = Field (word_of_nat s)"

lemma scalar_field:
  assumes "s < prime"
  shows "try_from_le_bytes (le_digits 32 s) = Some (scalar_field s)" "field_to_scalar (scalar_field s) = s"
    "canonical (field_value (scalar_field s))" "field_to_le_bytes (scalar_field s) = le_digits 32 s"
proof -
  note f = scalar_to_field_eq [OF assms]
  have "from_le_bytes (le_digits 32 s) = word_of_nat s"
    by (simp add: from_le_bytes_def scalar_bytes_value [OF assms])
  then show "try_from_le_bytes (le_digits 32 s) = Some (scalar_field s)"
    using f(2) by (simp add: try_from_le_bytes_def try_from_u256_Some scalar_field_def)
  show "canonical (field_value (scalar_field s))" using f(2) by (simp add: scalar_field_def)
  then show "field_to_scalar (scalar_field s) = s"
    using f(3) by (simp add: field_to_scalar_eq) (simp add: scalar_field_def)
  show "field_to_le_bytes (scalar_field s) = le_digits 32 s"
    using f(3) by (simp add: scalar_field_def field_to_le_bytes_def to_le_bytes_def)
qed

lemma note_field_scalar: "field_to_scalar (field_from_note a) = value_of a"
proof -
  have "canonical (ucast (note_value a) :: u256)" by (rule ucast_canonical)
  then show ?thesis
    by (simp add: field_to_scalar_eq field_from_note_def unat_ucast_u256 value_of_def)
qed

section \<open>Signals\<close>

definition circuit_hex :: "scalar \<Rightarrow> string" where
  "circuit_hex s = ''0x'' @ hex_encode (rev (le_digits 32 s))"

lemma hex_to_scalar_circuit_hex: "s < prime \<Longrightarrow> hex_to_scalar (circuit_hex s) = Inr s"
  using hex_to_scalar_encode [of "le_digits 32 s"] by (simp add: circuit_hex_def)

lemma field_bytes_to_hex_eq: "length bs = 32 \<Longrightarrow> field_bytes_to_hex bs = Inr (circuit_hex (bytes_scalar bs))"
  by (simp add: field_bytes_to_hex_def scalar_to_hex_def circuit_hex_def)

lemma field_to_circuit_hex_eq [simp]: "field_to_circuit_hex f = Inr (circuit_hex (field_to_scalar f))"
  by (simp add: field_to_circuit_hex_def field_bytes_to_hex_eq)

lemma map_result_hex [simp]:
  "map_result field_to_circuit_hex fs = Inr (map (\<lambda>f. circuit_hex (field_to_scalar f)) fs)"
  by (induction fs) simp_all

definition read_hex :: "string \<Rightarrow> scalar option" where
  "read_hex v = (case hex_to_scalar v of Inr s \<Rightarrow> Some s | Inl _ \<Rightarrow> None)"

definition single_signal :: "circuit_inputs \<Rightarrow> string \<Rightarrow> scalar option" where
  "single_signal c name = (case c name of Some (Single v) \<Rightarrow> read_hex v | _ \<Rightarrow> None)"

definition array_signal :: "circuit_inputs \<Rightarrow> string \<Rightarrow> scalar list option" where
  "array_signal c name = (case c name of Some (Array vs) \<Rightarrow> those (map read_hex vs) | _ \<Rightarrow> None)"

lemma read_circuit_hex [simp]: "s < prime \<Longrightarrow> read_hex (circuit_hex s) = Some s"
  by (simp add: read_hex_def hex_to_scalar_circuit_hex)

lemma read_circuit_hexes:
  "\<forall>s \<in> set ss. s < prime \<Longrightarrow> those (map read_hex (map circuit_hex ss)) = Some ss"
  by (induction ss) simp_all

section \<open>Checks\<close>

abbreviation inputs_value :: "transact_input_note list \<Rightarrow> nat" where
  "inputs_value ins \<equiv> sum_list (map (\<lambda>n. value_of (ti_amount n)) ins)"

abbreviation outputs_value :: "transact_output list \<Rightarrow> nat" where
  "outputs_value outs \<equiv> sum_list (map (\<lambda>n. value_of (to_amount n)) outs)"

lemma fold_note_sum:
  "fold_result (\<lambda>n sum. ok_or (note_checked_add sum (f n)) e) xs a = Inr s
     \<longleftrightarrow> value_of s = value_of a + sum_list (map (\<lambda>n. value_of (f n)) xs)"
proof (induction xs arbitrary: a)
  case Nil
  then show ?case by (auto simp: value_of_inject)
next
  case (Cons x xs)
  show ?case
  proof (cases "note_checked_add a (f x)")
    case None
    then have "2 ^ 128 \<le> value_of a + value_of (f x)" by (simp only: note_checked_add_None)
    with None show ?thesis using value_of_less [of s] by simp
  next
    case (Some b)
    then have "value_of b = value_of a + value_of (f x)" by (simp only: note_checked_add_Some)
    with Some show ?thesis using Cons.IH [of b] by (simp add: add.assoc)
  qed
qed

lemma fold_note_sum_Inl:
  "fold_result (\<lambda>n sum. ok_or (note_checked_add sum (f n)) e) xs a = Inl d
     \<longleftrightarrow> d = Err e \<and> 2 ^ 128 \<le> value_of a + sum_list (map (\<lambda>n. value_of (f n)) xs)"
proof (induction xs arbitrary: a)
  case Nil
  then show ?case using value_of_less [of a] by simp
next
  case (Cons x xs)
  show ?case
  proof (cases "note_checked_add a (f x)")
    case None
    then have "2 ^ 128 \<le> value_of a + value_of (f x)" by (simp only: note_checked_add_None)
    with None show ?thesis by auto
  next
    case (Some b)
    then have "value_of b = value_of a + value_of (f x)" by (simp only: note_checked_add_Some)
    with Some show ?thesis using Cons.IH [of b] by (simp add: add.assoc)
  qed
qed

lemma sum_inputs: "sum_note_amounts_inputs ins = Inr s \<longleftrightarrow> value_of s = inputs_value ins"
  by (simp add: sum_note_amounts_inputs_def fold_note_sum)

lemma sum_outputs: "sum_note_amounts_outputs outs = Inr s \<longleftrightarrow> value_of s = outputs_value outs"
  by (simp add: sum_note_amounts_outputs_def fold_note_sum)

lemma ext_nonneg: "EXT_ZERO \<le> e \<longleftrightarrow> 0 \<le> signed_value e"
  by (simp add: less_eq_ext_amount_def EXT_ZERO_def signed_value_def)

lemma nat_signed_less: "nat (signed_value e) < 2 ^ 128"
  using sint_128_bounds [of "ext_value e"]
  by (cases "0 \<le> signed_value e") (simp_all add: signed_value_def nat_less_iff)

lemma amounts_balance_True:
  "amounts_balance i out e = Inr True
     \<longleftrightarrow> int (value_of i) + signed_value e = int (value_of out) \<and> signed_value e \<noteq> - (2 ^ 127)"
proof (cases "0 \<le> signed_value e")
  case True
  then have "nat (signed_value e) < 2 ^ 128"
    by (intro nat_signed_less)
  then obtain n where n: "value_of n = nat (signed_value e)" using note_of_nat by blast
  with True have "note_try_from_ext e = Some n" by (simp add: note_try_from_ext_Some)
  moreover have "note_checked_add i n = Some l \<and> l = out \<longleftrightarrow> note_checked_add i n = Some out \<and> l = out" for l
    by auto
  ultimately show ?thesis
    using True n
    by (auto simp: amounts_balance_def ext_nonneg result_simps note_checked_add_Some value_of_inject)
next
  case False
  show ?thesis
  proof (cases "ext_checked_neg e")
    case None
    then show ?thesis using False by (simp add: amounts_balance_def ext_nonneg) (simp add: ext_checked_neg_None)
  next
    case (Some m)
    then have m: "signed_value m = - signed_value e" and ne: "signed_value e \<noteq> - (2 ^ 127)"
      using ext_checked_neg_None [of e] by (auto simp: ext_checked_neg_Some)
    have "nat (signed_value m) < 2 ^ 128"
      by (rule nat_signed_less)
    then obtain n where n: "value_of n = nat (signed_value m)" using note_of_nat by blast
    with False m have "note_try_from_ext m = Some n" by (simp add: note_try_from_ext_Some)
    then show ?thesis
      using False Some n m ne
      by (auto simp: amounts_balance_def ext_nonneg result_simps note_checked_add_Some value_of_inject)
  qed
qed

definition balanced_params :: "transact_params \<Rightarrow> bool" where
  "balanced_params p \<longleftrightarrow>
     inputs_value (tp_inputs p) < 2 ^ 128 \<and> outputs_value (tp_outputs p) < 2 ^ 128
     \<and> int (inputs_value (tp_inputs p)) + signed_value (tp_ext_amount p) = int (outputs_value (tp_outputs p))
     \<and> signed_value (tp_ext_amount p) \<noteq> - (2 ^ 127)"

lemma check_balance_Inr: "check_balance p = Inr u \<longleftrightarrow> balanced_params p"
proof
  assume "check_balance p = Inr u"
  then obtain i out where sums: "sum_note_amounts_inputs (tp_inputs p) = Inr i" "sum_note_amounts_outputs (tp_outputs p) = Inr out"
    and "amounts_balance i out (tp_ext_amount p) = Inr True"
    by (auto simp: check_balance_def result_simps)
  then show "balanced_params p"
    using value_of_less [of i] value_of_less [of out]
    by (simp add: balanced_params_def sum_inputs sum_outputs amounts_balance_True)
next
  assume b: "balanced_params p"
  then obtain i out where "value_of i = inputs_value (tp_inputs p)" "value_of out = outputs_value (tp_outputs p)"
    using note_of_nat unfolding balanced_params_def by metis
  then have "sum_note_amounts_inputs (tp_inputs p) = Inr i" "sum_note_amounts_outputs (tp_outputs p) = Inr out"
    "amounts_balance i out (tp_ext_amount p) = Inr True"
    using b by (simp_all add: balanced_params_def sum_inputs sum_outputs amounts_balance_True)
  then show "check_balance p = Inr u" by (simp add: check_balance_def)
qed

definition shaped_params :: "transact_params \<Rightarrow> bool" where
  "shaped_params p \<longleftrightarrow> tp_tree_depth p \<noteq> 0 \<and> tp_smt_depth p \<noteq> 0
     \<and> length (mp_path_elements (tp_membership_proof p)) = tp_tree_depth p
     \<and> length (np_siblings (tp_non_membership_proof p)) = tp_smt_depth p
     \<and> length (tp_outputs p) \<le> 2"

lemma check_shapes_Inr: "check_shapes p = Inr u \<longleftrightarrow> shaped_params p"
  by (auto simp: check_shapes_def shaped_params_def result_simps N_OUTPUTS_def)

section \<open>Slots\<close>

lemma push_dummy_inputs_Inr:
  "push_dummy_inputs env depth n (slots, rng) = Inr (slots', rng')
     \<Longrightarrow> \<exists>ds. slots' = slots @ ds \<and> length ds = n
           \<and> (\<forall>d \<in> set ds. ti_amount d = NOTE_ZERO \<and> length (ti_path_elements d) = depth)"
proof (induction n arbitrary: slots rng)
  case (Suc n)
  obtain d r where "dummy_input env rng depth = Inr (d, r)"
    and rest: "push_dummy_inputs env depth n (slots @ [d], r) = Inr (slots', rng')"
    using Suc.prems by (auto simp: result_simps)
  then have d: "ti_amount d = NOTE_ZERO" "length (ti_path_elements d) = depth"
    by (auto simp: result_simps dummy_input_def)
  from Suc.IH [OF rest] obtain ds where "slots' = (slots @ [d]) @ ds" "length ds = n"
    "\<forall>d \<in> set ds. ti_amount d = NOTE_ZERO \<and> length (ti_path_elements d) = depth" by blast
  with d show ?case by (intro exI [of _ "d # ds"]) simp
qed simp

lemma input_slots_Inr:
  assumes "input_slots env rng depth ins = Inr (slots, rng')"
  shows "\<exists>ds. slots = ins @ ds \<and> length slots = 2
    \<and> (\<forall>d \<in> set ds. ti_amount d = NOTE_ZERO \<and> length (ti_path_elements d) = depth)"
proof (cases "ins = []")
  case True
  with assms have "push_dummy_inputs env depth 2 ([], rng) = Inr (slots, rng')" by (simp add: input_slots_def)
  from push_dummy_inputs_Inr [OF this] True show ?thesis by auto
next
  case False
  with assms have "length ins \<le> 2"
    and "push_dummy_inputs env depth (2 - length ins) (ins, rng) = Inr (slots, rng')"
    by (auto simp: input_slots_def N_INPUTS_def result_simps)
  with push_dummy_inputs_Inr [OF this(2)] show ?thesis by auto
qed

lemma push_dummy_outputs_Inr:
  "push_dummy_outputs env n (slots, rng) = Inr (slots', rng')
     \<Longrightarrow> \<exists>ds. slots' = slots @ ds \<and> length ds = n
           \<and> (\<forall>d \<in> set ds. to_amount d = NOTE_ZERO \<and> to_note_pubkey d = None \<and> to_enc_pubkey d = None)"
proof (induction n arbitrary: slots rng)
  case (Suc n)
  obtain b r where
    rest: "push_dummy_outputs env n
      (slots @ [\<lparr>to_amount = NOTE_ZERO, to_blinding = b, to_note_pubkey = None, to_enc_pubkey = None\<rparr>], r)
        = Inr (slots', rng')"
    using Suc.prems by (auto simp: result_simps)
  from Suc.IH [OF rest] show ?case by force
qed simp

lemma output_slots_Inr:
  assumes "output_slots env rng outs = Inr (slots, rng')" and "length outs \<le> 2"
  shows "\<exists>ds. slots = outs @ ds \<and> length slots = 2
    \<and> (\<forall>d \<in> set ds. to_amount d = NOTE_ZERO \<and> to_note_pubkey d = None \<and> to_enc_pubkey d = None)"
  using push_dummy_outputs_Inr [OF assms(1) [unfolded output_slots_def]] assms(2)
  by (auto simp: N_OUTPUTS_def)

section \<open>Signals of the slots\<close>

definition input_commitment :: "poseidon2_params \<Rightarrow> scalar \<Rightarrow> transact_input_note \<Rightarrow> scalar" where
  "input_commitment p4 pk inp = note_hash p4 1 (value_of (ti_amount inp)) pk (field_to_scalar (ti_blinding inp))"

definition input_nullifier :: "poseidon2_params \<Rightarrow> scalar \<Rightarrow> scalar \<Rightarrow> transact_input_note \<Rightarrow> scalar" where
  "input_nullifier p4 sk pk inp =
     (let cm = input_commitment p4 pk inp; idx = field_to_scalar (ti_path_indices inp)
      in note_hash p4 2 cm idx (note_hash p4 4 sk cm idx))"

definition output_commitment :: "poseidon2_params \<Rightarrow> scalar \<Rightarrow> transact_output \<Rightarrow> scalar" where
  "output_commitment p4 pk out = note_hash p4 1 (value_of (to_amount out)) pk (field_to_scalar (to_blinding out))"

lemma input_step_eq:
  assumes "panic_free 4 p4" and "length sk = 32" and "length pk = 32"
  shows "input_step p4 sk pk sk_hex (i, inp) acc =
    Inr \<lparr>is_nullifier_hex = is_nullifier_hex acc @ [circuit_hex (input_nullifier p4 (bytes_scalar sk) (bytes_scalar pk) inp)],
         is_amount_hex = is_amount_hex acc @ [circuit_hex (value_of (ti_amount inp))],
         is_priv_hex = is_priv_hex acc @ [sk_hex],
         is_blinding_hex = is_blinding_hex acc @ [circuit_hex (field_to_scalar (ti_blinding inp))],
         is_path_indices_hex = is_path_indices_hex acc @ [circuit_hex (field_to_scalar (ti_path_indices inp))],
         is_path_elements_hex = is_path_elements_hex acc @ map (\<lambda>f. circuit_hex (field_to_scalar f)) (ti_path_elements inp),
         is_nullifiers = (is_nullifiers acc)
           [i := scalar_field (input_nullifier p4 (bytes_scalar sk) (bytes_scalar pk) inp)]\<rparr>"
  using assms note_hash_value(2) [OF assms(1)]
  by (simp add: input_step_def app_hash_eqs note_amount_to_field_def note_field_scalar scalar_field
      field_bytes_to_hex_eq input_nullifier_def input_commitment_def Let_def)

lemma input_signals_eq:
  assumes "panic_free 4 p4" and "length sk = 32" and "length pk = 32" and "length slots = 2"
  shows "fold_result (input_step p4 sk pk sk_hex) (List.enumerate 0 slots) no_input_signals =
    Inr \<lparr>is_nullifier_hex = map (\<lambda>x. circuit_hex (input_nullifier p4 (bytes_scalar sk) (bytes_scalar pk) x)) slots,
         is_amount_hex = map (\<lambda>x. circuit_hex (value_of (ti_amount x))) slots,
         is_priv_hex = map (\<lambda>_. sk_hex) slots,
         is_blinding_hex = map (\<lambda>x. circuit_hex (field_to_scalar (ti_blinding x))) slots,
         is_path_indices_hex = map (\<lambda>x. circuit_hex (field_to_scalar (ti_path_indices x))) slots,
         is_path_elements_hex = map (\<lambda>f. circuit_hex (field_to_scalar f)) (concat (map ti_path_elements slots)),
         is_nullifiers = map (\<lambda>x. scalar_field (input_nullifier p4 (bytes_scalar sk) (bytes_scalar pk) x)) slots\<rparr>"
proof -
  obtain a b where "slots = [a, b]" using assms(4) by (auto simp: numeral_2_eq_2 length_Suc_conv)
  then show ?thesis
    by (simp add: input_step_eq [OF assms(1-3)] no_input_signals_def N_INPUTS_def numeral_2_eq_2)
qed

definition recipient_key :: "nat list \<Rightarrow> transact_output \<Rightarrow> nat list" where
  "recipient_key pk out = unwrap_or (to_note_pubkey out) pk"

definition encryption_key :: "nat list \<Rightarrow> transact_output \<Rightarrow> nat list" where
  "encryption_key ek out = unwrap_or (to_enc_pubkey out) ek"

lemma output_step_eq:
  assumes "panic_free 4 p4" and "length (recipient_key pk out) = 32"
  shows "output_step env p4 pk ek (i, out) (acc, rng) =
    and_then (prover_err (encrypt_output_note env rng (encryption_key ek out) (to_amount out) (to_blinding out))) (\<lambda>(enc, rng1).
    Inr (\<lparr>os_amount_hex = os_amount_hex acc @ [circuit_hex (value_of (to_amount out))],
          os_pubkey_hex = os_pubkey_hex acc @ [circuit_hex (bytes_scalar (recipient_key pk out))],
          os_blinding_hex = os_blinding_hex acc @ [circuit_hex (field_to_scalar (to_blinding out))],
          os_commitment_hex = os_commitment_hex acc @ [circuit_hex (output_commitment p4 (bytes_scalar (recipient_key pk out)) out)],
          os_commitments = (os_commitments acc)
            [i := scalar_field (output_commitment p4 (bytes_scalar (recipient_key pk out)) out)],
          os_encrypted = (os_encrypted acc)[i := enc]\<rparr>, rng1))"
  using assms note_hash_value(2) [OF assms(1)]
  by (simp add: output_step_def app_hash_eqs note_amount_to_field_def note_field_scalar scalar_field
      field_bytes_to_hex_eq output_commitment_def recipient_key_def encryption_key_def Let_def)

lemma output_signals_eq:
  assumes "panic_free 4 p4" and "\<forall>out \<in> set slots. length (recipient_key pk out) = 32" and "length slots = 2"
  shows "fold_result (output_step env p4 pk ek) (List.enumerate 0 slots) (no_output_signals, rng) =
    and_then (prover_err (encrypt_output_note env rng (encryption_key ek (slots ! 0))
      (to_amount (slots ! 0)) (to_blinding (slots ! 0)))) (\<lambda>(enc0, rng1).
    and_then (prover_err (encrypt_output_note env rng1 (encryption_key ek (slots ! 1))
      (to_amount (slots ! 1)) (to_blinding (slots ! 1)))) (\<lambda>(enc1, rng2).
    Inr (\<lparr>os_amount_hex = map (\<lambda>x. circuit_hex (value_of (to_amount x))) slots,
          os_pubkey_hex = map (\<lambda>x. circuit_hex (bytes_scalar (recipient_key pk x))) slots,
          os_blinding_hex = map (\<lambda>x. circuit_hex (field_to_scalar (to_blinding x))) slots,
          os_commitment_hex = map (\<lambda>x. circuit_hex (output_commitment p4 (bytes_scalar (recipient_key pk x)) x)) slots,
          os_commitments = map (\<lambda>x. scalar_field (output_commitment p4 (bytes_scalar (recipient_key pk x)) x)) slots,
          os_encrypted = [enc0, enc1]\<rparr>, rng2)))"
proof -
  obtain a b where ab: "slots = [a, b]" using assms(3) by (auto simp: numeral_2_eq_2 length_Suc_conv)
  then have "length (recipient_key pk a) = 32" "length (recipient_key pk b) = 32" using assms(2) by simp_all
  note steps = this [THEN output_step_eq [OF assms(1)]]
  let ?e = "\<lambda>r x. prover_err (encrypt_output_note env r (encryption_key ek x) (to_amount x) (to_blinding x))
    :: (flow_error, nat list \<times> nat) result"
  show ?thesis
  proof (cases "?e rng a")
    case (Inl e)
    then show ?thesis by (simp add: ab steps)
  next
    case (Inr r)
    obtain enc0 rng1 where r: "r = (enc0, rng1)" by (cases r)
    show ?thesis
    proof (cases "?e rng1 b")
      case (Inl e)
      then show ?thesis using Inr r by (simp add: ab steps)
    next
      case (Inr r2)
      obtain enc1 rng2 where "r2 = (enc1, rng2)" by (cases r2)
      with Inr \<open>?e rng a = Inr r\<close> r show ?thesis
        by (simp add: ab steps no_output_signals_def N_OUTPUTS_def numeral_2_eq_2)
    qed
  qed
qed

section \<open>Wiring\<close>

text \<open>The proofs of the association sets fill in signals of their own.\<close>

definition asp_signal :: "string \<Rightarrow> bool" where
  "asp_signal n \<longleftrightarrow> take 17 n = ''membershipProofs['' \<or> take 20 n = ''nonMembershipProofs[''"

lemma set_field_eqs:
  "set_single_field n f c = Inr (set_single n (circuit_hex (field_to_scalar f)) c)"
  "set_array_fields n fs c = Inr (set_array n (map (\<lambda>f. circuit_hex (field_to_scalar f)) fs) c)"
  by (simp_all add: set_single_field_def set_array_fields_def)

lemma asp_slot_total: "\<exists>c'. wire_asp_slot mp np slot c = Inr c' \<and> (\<forall>n. \<not> asp_signal n \<longrightarrow> c' n = c n)"
  by (simp add: wire_asp_slot_def wire_membership_def wire_non_membership_def set_field_eqs Let_def
      set_single_def set_array_def) (auto simp: asp_signal_def)

lemma asp_slots_total:
  "\<exists>c'. fold_result (wire_asp_slot mp np) slots c = Inr c' \<and> (\<forall>n. \<not> asp_signal n \<longrightarrow> c' n = c n)"
proof (induction slots arbitrary: c)
  case (Cons slot slots)
  then show ?case using asp_slot_total [of mp np slot c] by force
qed simp

section \<open>A successful call\<close>

lemma check_input_paths_Inr:
  "check_input_paths depth slots = Inr u \<longleftrightarrow> (\<forall>x \<in> set slots. length (ti_path_elements x) = depth)"
proof -
  have "fold_result (\<lambda>(i, inp) _. ensure (length (ti_path_elements inp) = depth)
         (InputPathLength i depth (length (ti_path_elements inp)))) (List.enumerate n slots) ()
     = Inr u \<longleftrightarrow> (\<forall>x \<in> set slots. length (ti_path_elements x) = depth)" for n
    by (induction slots arbitrary: n) (auto simp: result_simps)
  then show ?thesis by (simp add: check_input_paths_def)
qed

lemma check_recipient_keys_Inr:
  "check_recipient_keys slots = Inr u
     \<longleftrightarrow> (\<forall>x \<in> set slots. to_note_pubkey x \<noteq> None \<longleftrightarrow> to_enc_pubkey x \<noteq> None)"
proof -
  have "fold_result (\<lambda>(i, out) _. ensure ((to_note_pubkey out \<noteq> None) = (to_enc_pubkey out \<noteq> None))
         (RecipientKeysUnpaired i)) (List.enumerate n slots) () = Inr u
     \<longleftrightarrow> (\<forall>x \<in> set slots. to_note_pubkey x \<noteq> None \<longleftrightarrow> to_enc_pubkey x \<noteq> None)" for n
    by (induction slots arbitrary: n) (auto simp: result_simps)
  then show ?thesis by (simp add: check_recipient_keys_def)
qed

text \<open>The types of the code make every key 32 bytes.\<close>

definition typed_keys :: "nat list \<Rightarrow> nat list \<Rightarrow> transact_output list \<Rightarrow> bool" where
  "typed_keys priv_key encryption_pubkey outs \<longleftrightarrow> length priv_key = 32 \<and> length encryption_pubkey = 32
     \<and> (\<forall>out \<in> set outs. (\<forall>k. to_note_pubkey out = Some k \<longrightarrow> length k = 32)
          \<and> (\<forall>k. to_enc_pubkey out = Some k \<longrightarrow> length k = 32))"

definition typed_params :: "transact_params \<Rightarrow> bool" where
  "typed_params p \<longleftrightarrow> typed_keys (tp_priv_key p) (tp_encryption_pubkey p) (tp_outputs p)"

definition sender_key :: "poseidon2_params \<Rightarrow> transact_params \<Rightarrow> nat list" where
  "sender_key p3 p = le_digits 32 (note_key p3 (bytes_scalar (tp_priv_key p)))"

lemma ext_field:
  "\<exists>f. field_try_from_ext e = Some f \<and> canonical (field_value f)
     \<and> int (field_to_scalar f) = signed_value e mod int prime"
  using field_try_from_ext_value [of e] by (auto simp: field_to_scalar_eq)

lemma slot_keys:
  assumes "typed_params p" and "output_slots env rng (tp_outputs p) = Inr (outs, rng')" and "length (tp_outputs p) \<le> 2"
    and "length pk = 32" and "out \<in> set outs"
  shows "length (recipient_key pk out) = 32" "length (encryption_key (tp_encryption_pubkey p) out) = 32"
proof -
  obtain ds where outs: "outs = tp_outputs p @ ds"
    and ds: "\<forall>d \<in> set ds. to_note_pubkey d = None \<and> to_enc_pubkey d = None"
    using output_slots_Inr [OF assms(2,3)] by blast
  have "to_note_pubkey out = Some k \<Longrightarrow> length k = 32" "to_enc_pubkey out = Some k \<Longrightarrow> length k = 32" for k
    using assms(1,5) ds unfolding outs typed_params_def typed_keys_def by auto
  then show "length (recipient_key pk out) = 32" "length (encryption_key (tp_encryption_pubkey p) out) = 32"
    using assms(1,4)
    by (cases "to_note_pubkey out"; cases "to_enc_pubkey out"; simp add: recipient_key_def encryption_key_def typed_params_def typed_keys_def)+
qed

definition input_wires :: "poseidon2_params \<Rightarrow> poseidon2_params \<Rightarrow> transact_params \<Rightarrow> transact_input_note list \<Rightarrow> input_signals" where
  "input_wires p3 p4 p slots =
     (let nul = input_nullifier p4 (bytes_scalar (tp_priv_key p)) (bytes_scalar (sender_key p3 p)) in
      \<lparr>is_nullifier_hex = map (\<lambda>x. circuit_hex (nul x)) slots,
       is_amount_hex = map (\<lambda>x. circuit_hex (value_of (ti_amount x))) slots,
       is_priv_hex = map (\<lambda>_. circuit_hex (bytes_scalar (tp_priv_key p))) slots,
       is_blinding_hex = map (\<lambda>x. circuit_hex (field_to_scalar (ti_blinding x))) slots,
       is_path_indices_hex = map (\<lambda>x. circuit_hex (field_to_scalar (ti_path_indices x))) slots,
       is_path_elements_hex = map (\<lambda>f. circuit_hex (field_to_scalar f)) (concat (map ti_path_elements slots)),
       is_nullifiers = map (\<lambda>x. scalar_field (nul x)) slots\<rparr>)"

definition slot_commitment :: "poseidon2_params \<Rightarrow> poseidon2_params \<Rightarrow> transact_params \<Rightarrow> transact_output \<Rightarrow> scalar" where
  "slot_commitment p3 p4 p x = output_commitment p4 (bytes_scalar (recipient_key (sender_key p3 p) x)) x"

definition output_wires ::
  "poseidon2_params \<Rightarrow> poseidon2_params \<Rightarrow> transact_params \<Rightarrow> transact_output list \<Rightarrow> nat list list \<Rightarrow> output_signals" where
  "output_wires p3 p4 p slots encs =
      \<lparr>os_amount_hex = map (\<lambda>x. circuit_hex (value_of (to_amount x))) slots,
       os_pubkey_hex = map (\<lambda>x. circuit_hex (bytes_scalar (recipient_key (sender_key p3 p) x))) slots,
       os_blinding_hex = map (\<lambda>x. circuit_hex (field_to_scalar (to_blinding x))) slots,
       os_commitment_hex = map (\<lambda>x. circuit_hex (slot_commitment p3 p4 p x)) slots,
       os_commitments = map (\<lambda>x. scalar_field (slot_commitment p3 p4 p x)) slots,
       os_encrypted = encs\<rparr>"

text \<open>The signals that \<open>transact\<close> sets before those of the association proofs.\<close>

definition base_wires :: "transact_params \<Rightarrow> field_element \<Rightarrow> input_signals \<Rightarrow> output_signals \<Rightarrow> circuit_inputs" where
  "base_wires p public ins outs =
     set_array ''nonMembershipRoots'' (replicate 2 (circuit_hex (field_to_scalar (np_root (tp_non_membership_proof p)))))
       (set_array ''membershipRoots'' (replicate 2 (circuit_hex (field_to_scalar (mp_root (tp_membership_proof p)))))
         (wire_notes ins outs
           (set_single ''publicAmount'' (circuit_hex (field_to_scalar public))
             (set_single ''root'' (circuit_hex (field_to_scalar (tp_pool_root p))) new_inputs))))"

text \<open>What a successful call went through, with the values its phases produced.\<close>

definition transact_run ::
  "crypto_env \<Rightarrow> poseidon2_params \<Rightarrow> poseidon2_params \<Rightarrow> (app_ext_data \<Rightarrow> nat list option) \<Rightarrow> transact_params
     \<Rightarrow> nat \<Rightarrow> transact_input_note list \<Rightarrow> transact_output list \<Rightarrow> nat list \<Rightarrow> nat list \<Rightarrow> nat list
     \<Rightarrow> transact_artifacts \<Rightarrow> nat \<Rightarrow> bool" where
  "transact_run env p3 p4 h p rng slots outs enc0 enc1 digest art rng' \<longleftrightarrow>
     shaped_params p \<and> balanced_params p \<and> fits USIZE_BITS (2 * tp_tree_depth p)
     \<and> (\<exists>rng1. input_slots env rng (tp_tree_depth p) (tp_inputs p) = Inr (slots, rng1)
     \<and> (\<exists>rng2. output_slots env rng1 (tp_outputs p) = Inr (outs, rng2)
     \<and> (\<exists>rng3. encrypt_output_note env rng2 (encryption_key (tp_encryption_pubkey p) (outs ! 0))
            (to_amount (outs ! 0)) (to_blinding (outs ! 0)) = Inr (enc0, rng3)
     \<and> encrypt_output_note env rng3 (encryption_key (tp_encryption_pubkey p) (outs ! 1))
            (to_amount (outs ! 1)) (to_blinding (outs ! 1)) = Inr (enc1, rng'))))
     \<and> (\<forall>x \<in> set slots. length (ti_path_elements x) = tp_tree_depth p)
     \<and> (\<forall>x \<in> set outs. to_note_pubkey x \<noteq> None \<longleftrightarrow> to_enc_pubkey x \<noteq> None)
     \<and> ta_ext_data art = \<lparr>ed_recipient = tp_ext_recipient p, ed_ext_amount = tp_ext_amount p,
          ed_encrypted_output0 = enc0, ed_encrypted_output1 = enc1\<rparr>
     \<and> h (ta_ext_data art) = Some digest
     \<and> (\<exists>public c. field_try_from_ext (tp_ext_amount p) = Some public
     \<and> fold_result (wire_asp_slot (tp_membership_proof p) (tp_non_membership_proof p)) [0..<N_INPUTS]
          (base_wires p public (input_wires p3 p4 p slots) (output_wires p3 p4 p outs [enc0, enc1])) = Inr c
     \<and> ta_circuit_inputs art = set_single ''extDataHash'' (be32_to_0x_hex digest) c
     \<and> ta_prepared art =
          \<lparr>pt_pool_root = tp_pool_root p, pt_input_nullifiers = is_nullifiers (input_wires p3 p4 p slots),
           pt_output_commitments = os_commitments (output_wires p3 p4 p outs [enc0, enc1]),
           pt_public_amount = public, pt_ext_data_hash_be = digest,
           pt_asp_membership_root = mp_root (tp_membership_proof p),
           pt_asp_non_membership_root = np_root (tp_non_membership_proof p)\<rparr>)"

lemma wire_roots_eq:
  "wire_roots mp np c = Inr (set_array ''nonMembershipRoots'' (replicate 2 (circuit_hex (field_to_scalar (np_root np))))
     (set_array ''membershipRoots'' (replicate 2 (circuit_hex (field_to_scalar (mp_root mp)))) c))"
  by (simp add: wire_roots_def numeral_2_eq_2)

lemma transact_iff:
  assumes pf: "panic_free 3 p3" "panic_free 4 p4" and typed: "typed_params p"
  shows "transact env p3 p4 h p rng = Inr (art, rng')
    \<longleftrightarrow> (\<exists>slots outs enc0 enc1 digest. transact_run env p3 p4 h p rng slots outs enc0 enc1 digest art rng')"
proof -
  have sk: "length (tp_priv_key p) = 32" using typed by (simp add: typed_params_def typed_keys_def)
  have pk: "derive_public_key p3 (tp_priv_key p) = Inr (sender_key p3 p)" "length (sender_key p3 p) = 32"
    by (simp_all add: derive_public_key_eq [OF pf(1) sk] sender_key_def)
  obtain public where public: "field_try_from_ext (tp_ext_amount p) = Some public" using ext_field by blast
  have ins: "fold_result (input_step p4 (tp_priv_key p) (sender_key p3 p) (circuit_hex (bytes_scalar (tp_priv_key p))))
      (List.enumerate 0 slots) no_input_signals = Inr (input_wires p3 p4 p slots)" if "length slots = 2" for slots
    using input_signals_eq [OF pf(2) sk pk(2) that] by (simp add: input_wires_def Let_def)
  have outs: "fold_result (output_step env p4 (sender_key p3 p) (tp_encryption_pubkey p)) (List.enumerate 0 outs)
        (no_output_signals, rng2) = Inr (os, rng')
    \<longleftrightarrow> (\<exists>enc0 enc1. os = output_wires p3 p4 p outs [enc0, enc1] \<and> (\<exists>rng3.
         encrypt_output_note env rng2 (encryption_key (tp_encryption_pubkey p) (outs ! 0))
            (to_amount (outs ! 0)) (to_blinding (outs ! 0)) = Inr (enc0, rng3)
       \<and> encrypt_output_note env rng3 (encryption_key (tp_encryption_pubkey p) (outs ! 1))
            (to_amount (outs ! 1)) (to_blinding (outs ! 1)) = Inr (enc1, rng')))"
    if "output_slots env rng1 (tp_outputs p) = Inr (outs, rng2)" "length (tp_outputs p) \<le> 2" for rng1 outs rng2 os
  proof -
    have "\<forall>out \<in> set outs. length (recipient_key (sender_key p3 p) out) = 32"
      using slot_keys(1) [OF typed that pk(2)] by blast
    moreover have "length outs = 2" using output_slots_Inr [OF that] by blast
    ultimately show ?thesis
      by (auto simp: output_signals_eq [OF pf(2)] output_wires_def slot_commitment_def result_simps)
  qed
  note simps = pk public wire_roots_eq base_wires_def [symmetric] ext_amount_to_circuit_hex_def field_bytes_to_hex_eq [OF sk]
  show ?thesis
  proof
    assume "transact env p3 p4 h p rng = Inr (art, rng')"
    then obtain slots rng1 out_slots rng2 ins_sig os c digest where run: "shaped_params p" "balanced_params p"
      "input_slots env rng (tp_tree_depth p) (tp_inputs p) = Inr (slots, rng1)"
      "\<forall>x \<in> set slots. length (ti_path_elements x) = tp_tree_depth p"
      "output_slots env rng1 (tp_outputs p) = Inr (out_slots, rng2)"
      "\<forall>x \<in> set out_slots. to_note_pubkey x \<noteq> None \<longleftrightarrow> to_enc_pubkey x \<noteq> None"
      "fits USIZE_BITS (2 * tp_tree_depth p)"
      and i: "fold_result (input_step p4 (tp_priv_key p) (sender_key p3 p) (circuit_hex (bytes_scalar (tp_priv_key p))))
        (List.enumerate 0 slots) no_input_signals = Inr ins_sig"
      and out: "fold_result (output_step env p4 (sender_key p3 p) (tp_encryption_pubkey p)) (List.enumerate 0 out_slots)
        (no_output_signals, rng2) = Inr (os, rng')"
      and rest: "fold_result (wire_asp_slot (tp_membership_proof p) (tp_non_membership_proof p)) [0..<N_INPUTS]
          (base_wires p public ins_sig os) = Inr c"
      and h: "h \<lparr>ed_recipient = tp_ext_recipient p, ed_ext_amount = tp_ext_amount p,
           ed_encrypted_output0 = os_encrypted os ! 0, ed_encrypted_output1 = os_encrypted os ! 1\<rparr> = Some digest"
      and art: "art = \<lparr>ta_circuit_inputs = set_single ''extDataHash'' (be32_to_0x_hex digest) c,
             ta_ext_data = \<lparr>ed_recipient = tp_ext_recipient p, ed_ext_amount = tp_ext_amount p,
                ed_encrypted_output0 = os_encrypted os ! 0, ed_encrypted_output1 = os_encrypted os ! 1\<rparr>,
             ta_prepared =
               \<lparr>pt_pool_root = tp_pool_root p, pt_input_nullifiers = is_nullifiers ins_sig,
                pt_output_commitments = os_commitments os, pt_public_amount = public,
                pt_ext_data_hash_be = digest,
                pt_asp_membership_root = mp_root (tp_membership_proof p),
                pt_asp_non_membership_root = np_root (tp_non_membership_proof p)\<rparr>\<rparr>"
      by (clarsimp simp: transact_def simps Let_def result_simps check_shapes_Inr check_balance_Inr
          check_input_paths_Inr check_recipient_keys_Inr N_INPUTS_def)
    have "length slots = 2" using input_slots_Inr [OF run(3)] by blast
    with i have i: "ins_sig = input_wires p3 p4 p slots" by (simp add: ins)
    have "length (tp_outputs p) \<le> 2" using run(1) by (simp add: shaped_params_def)
    from out [unfolded outs [OF run(5) this]] run h art rest i
    show "\<exists>slots outs enc0 enc1 digest. transact_run env p3 p4 h p rng slots outs enc0 enc1 digest art rng'"
      unfolding transact_run_def using public by (fastforce simp: output_wires_def)
  next
    assume "\<exists>slots outs enc0 enc1 digest. transact_run env p3 p4 h p rng slots outs enc0 enc1 digest art rng'"
    then obtain slots out_slots enc0 enc1 digest
      where "transact_run env p3 p4 h p rng slots out_slots enc0 enc1 digest art rng'" by blast
    note run = this [unfolded transact_run_def]
    then obtain rng1 rng2 rng3 c where slots: "input_slots env rng (tp_tree_depth p) (tp_inputs p) = Inr (slots, rng1)"
      and os: "output_slots env rng1 (tp_outputs p) = Inr (out_slots, rng2)"
      and enc: "encrypt_output_note env rng2 (encryption_key (tp_encryption_pubkey p) (out_slots ! 0))
            (to_amount (out_slots ! 0)) (to_blinding (out_slots ! 0)) = Inr (enc0, rng3)"
        "encrypt_output_note env rng3 (encryption_key (tp_encryption_pubkey p) (out_slots ! 1))
            (to_amount (out_slots ! 1)) (to_blinding (out_slots ! 1)) = Inr (enc1, rng')"
      and c: "fold_result (wire_asp_slot (tp_membership_proof p) (tp_non_membership_proof p)) [0..<N_INPUTS]
          (base_wires p public (input_wires p3 p4 p slots) (output_wires p3 p4 p out_slots [enc0, enc1])) = Inr c"
      and art: "ta_circuit_inputs art = set_single ''extDataHash'' (be32_to_0x_hex digest) c"
        "ta_prepared art =
          \<lparr>pt_pool_root = tp_pool_root p, pt_input_nullifiers = is_nullifiers (input_wires p3 p4 p slots),
           pt_output_commitments = os_commitments (output_wires p3 p4 p out_slots [enc0, enc1]),
           pt_public_amount = public, pt_ext_data_hash_be = digest,
           pt_asp_membership_root = mp_root (tp_membership_proof p),
           pt_asp_non_membership_root = np_root (tp_non_membership_proof p)\<rparr>"
      using public by auto
    have len: "length slots = 2" using input_slots_Inr [OF slots] by blast
    have "length (tp_outputs p) \<le> 2" using run by (simp add: shaped_params_def)
    note out = outs [OF os this, of "output_wires p3 p4 p out_slots [enc0, enc1]"]
    have out: "fold_result (output_step env p4 (sender_key p3 p) (tp_encryption_pubkey p)) (List.enumerate 0 out_slots)
        (no_output_signals, rng2) = Inr (output_wires p3 p4 p out_slots [enc0, enc1], rng')"
      unfolding out using enc by blast
    have checks: "check_shapes p = Inr ()" "check_balance p = Inr ()" "check_input_paths (tp_tree_depth p) slots = Inr ()"
      "check_recipient_keys out_slots = Inr ()" "fits USIZE_BITS (N_INPUTS * tp_tree_depth p)"
      using run by (simp_all add: check_shapes_Inr check_balance_Inr check_input_paths_Inr check_recipient_keys_Inr N_INPUTS_def)
    have encs: "os_encrypted (output_wires p3 p4 p out_slots [enc0, enc1]) = [enc0, enc1]"
      by (simp add: output_wires_def)
    show "transact env p3 p4 h p rng = Inr (art, rng')"
      using run art
      by (cases art) (simp add: transact_def simps checks slots os ins [OF len] out c encs)
  qed
qed

end
