(* ===== verification/NoteFlow.thy ===== *)
theory NoteFlow
  imports FlowFacts
begin

text \<open>
  Properties of the transaction flows: the signals that \<open>transact\<close> hands to the witness calculator
  satisfy the equations of the circuit, the calls succeed exactly on well-formed balanced
  parameters, and a note that is encrypted for a recipient is found by the recipient.
\<close>

section \<open>The equations of the circuit\<close>

text \<open>
  \<open>Transaction(levels, 2, 2)\<close> of \<open>circuits/src/transaction.circom\<close>, on the decoded signals: keys,
  commitments, signatures and nullifiers are the hashes of their inputs, output amounts fit 248 bits,
  and amounts balance in the field. The Merkle proofs and the distinctness of the nullifiers depend
  on the notes the caller supplies and are not part of it.
\<close>

definition input_equation :: "poseidon2_params \<Rightarrow> poseidon2_params \<Rightarrow> scalar \<Rightarrow> scalar \<Rightarrow> scalar \<Rightarrow> scalar \<Rightarrow> scalar \<Rightarrow> bool" where
  "input_equation p3 p4 amount sk blinding idx nullifier \<longleftrightarrow>
     (let commitment = note_hash p4 1 amount (note_key p3 sk) blinding;
          signature = note_hash p4 4 sk commitment idx
      in note_hash p4 2 commitment idx signature = nullifier)"

definition output_equation :: "poseidon2_params \<Rightarrow> scalar \<Rightarrow> scalar \<Rightarrow> scalar \<Rightarrow> scalar \<Rightarrow> bool" where
  "output_equation p4 amount pk blinding commitment \<longleftrightarrow>
     note_hash p4 1 amount pk blinding = commitment \<and> amount < 2 ^ 248"

definition transaction_circuit :: "poseidon2_params \<Rightarrow> poseidon2_params \<Rightarrow> nat \<Rightarrow> circuit_inputs \<Rightarrow> bool" where
  "transaction_circuit p3 p4 depth c \<longleftrightarrow>
     (case (single_signal c ''root'', single_signal c ''publicAmount'', array_signal c ''inputNullifier'',
            array_signal c ''inAmount'', array_signal c ''inPrivateKey'', array_signal c ''inBlinding'',
            array_signal c ''inPathIndices'', array_signal c ''inPathElements'', array_signal c ''outputCommitment'',
            array_signal c ''outAmount'', array_signal c ''outPubkey'', array_signal c ''outBlinding'') of
        (Some root, Some public, Some [n0, n1], Some [a0, a1], Some [k0, k1], Some [b0, b1], Some [i0, i1], Some path,
         Some [c0, c1], Some [v0, v1], Some [q0, q1], Some [d0, d1]) \<Rightarrow>
          input_equation p3 p4 a0 k0 b0 i0 n0 \<and> input_equation p3 p4 a1 k1 b1 i1 n1
          \<and> length path = 2 * depth
          \<and> output_equation p4 v0 q0 d0 c0 \<and> output_equation p4 v1 q1 d1 c1
          \<and> (a0 + a1 + public) mod prime = (v0 + v1) mod prime
      | _ \<Rightarrow> False)"

section \<open>The signals of a call\<close>

lemma run_at:
  assumes "transact_run env p3 p4 h p rng slots outs enc0 enc1 digest art rng'"
    and "\<not> asp_signal n" and "n \<noteq> ''extDataHash''"
  shows "ta_circuit_inputs art n =
     base_wires p (pt_public_amount (ta_prepared art)) (input_wires p3 p4 p slots)
       (output_wires p3 p4 p outs [enc0, enc1]) n"
proof -
  from assms(1) obtain c
    where c: "fold_result (wire_asp_slot (tp_membership_proof p) (tp_non_membership_proof p)) [0..<N_INPUTS]
          (base_wires p (pt_public_amount (ta_prepared art)) (input_wires p3 p4 p slots) (output_wires p3 p4 p outs [enc0, enc1])) = Inr c"
    and art: "ta_circuit_inputs art = set_single ''extDataHash'' (be32_to_0x_hex digest) c"
    unfolding transact_run_def by auto
  have "ta_circuit_inputs art n = c n" using art assms(3) by (simp add: set_single_def)
  with asp_slots_total c assms(2) show ?thesis by (metis Inr_inject)
qed

lemma read_signals:
  assumes pf: "panic_free 4 p4"
  shows "those (map (read_hex \<circ> (\<lambda>x. circuit_hex (input_nullifier p4 sk pk x))) ins)
      = Some (map (input_nullifier p4 sk pk) ins)"
    "those (map (read_hex \<circ> (\<lambda>x. circuit_hex (slot_commitment p3 p4 p x))) outs) = Some (map (slot_commitment p3 p4 p) outs)"
    "those (map (read_hex \<circ> (\<lambda>x. circuit_hex (value_of (f x)))) xs) = Some (map (\<lambda>x. value_of (f x)) xs)"
    "those (map (read_hex \<circ> (\<lambda>x. circuit_hex (field_to_scalar (g x)))) ys) = Some (map (\<lambda>x. field_to_scalar (g x)) ys)"
    "those (map (read_hex \<circ> (\<lambda>x. circuit_hex (bytes_scalar (k x)))) zs) = Some (map (\<lambda>x. bytes_scalar (k x)) zs)"
proof -
  have amounts: "value_of a < prime" for a
    using value_of_less [of a] pow_128_less by (rule less_trans)
  have hashes: "input_nullifier p4 sk pk x < prime" "slot_commitment p3 p4 p y < prime" for x y
    using note_hash_value(2) [OF pf]
    by (simp_all add: input_nullifier_def slot_commitment_def output_commitment_def Let_def)
  have bytes: "bytes_scalar bs < prime" for bs using prime_pos by simp
  have read: "those (map (read_hex \<circ> (\<lambda>x. circuit_hex (f x))) xs) = Some (map f xs)" if "\<And>x. f x < prime" for f xs
    using that by (induction xs) simp_all
  show "those (map (read_hex \<circ> (\<lambda>x. circuit_hex (input_nullifier p4 sk pk x))) ins)
      = Some (map (input_nullifier p4 sk pk) ins)"
    "those (map (read_hex \<circ> (\<lambda>x. circuit_hex (slot_commitment p3 p4 p x))) outs) = Some (map (slot_commitment p3 p4 p) outs)"
    "those (map (read_hex \<circ> (\<lambda>x. circuit_hex (value_of (f x)))) xs) = Some (map (\<lambda>x. value_of (f x)) xs)"
    "those (map (read_hex \<circ> (\<lambda>x. circuit_hex (field_to_scalar (g x)))) ys) = Some (map (\<lambda>x. field_to_scalar (g x)) ys)"
    "those (map (read_hex \<circ> (\<lambda>x. circuit_hex (bytes_scalar (k x)))) zs) = Some (map (\<lambda>x. bytes_scalar (k x)) zs)"
    by (rule read; simp add: amounts hashes bytes field_to_scalar_less)+
qed

lemma run_signals:
  assumes run: "transact_run env p3 p4 h p rng slots outs enc0 enc1 digest art rng'" and pf: "panic_free 4 p4"
  shows "single_signal (ta_circuit_inputs art) ''root'' = Some (field_to_scalar (tp_pool_root p))"
    "single_signal (ta_circuit_inputs art) ''publicAmount'' = Some (field_to_scalar (pt_public_amount (ta_prepared art)))"
    "array_signal (ta_circuit_inputs art) ''inputNullifier''
       = Some (map (input_nullifier p4 (bytes_scalar (tp_priv_key p)) (bytes_scalar (sender_key p3 p))) slots)"
    "array_signal (ta_circuit_inputs art) ''inAmount'' = Some (map (\<lambda>x. value_of (ti_amount x)) slots)"
    "array_signal (ta_circuit_inputs art) ''inPrivateKey'' = Some (map (\<lambda>_. bytes_scalar (tp_priv_key p)) slots)"
    "array_signal (ta_circuit_inputs art) ''inBlinding'' = Some (map (\<lambda>x. field_to_scalar (ti_blinding x)) slots)"
    "array_signal (ta_circuit_inputs art) ''inPathIndices'' = Some (map (\<lambda>x. field_to_scalar (ti_path_indices x)) slots)"
    "array_signal (ta_circuit_inputs art) ''inPathElements''
       = Some (map field_to_scalar (concat (map ti_path_elements slots)))"
    "array_signal (ta_circuit_inputs art) ''outputCommitment'' = Some (map (slot_commitment p3 p4 p) outs)"
    "array_signal (ta_circuit_inputs art) ''outAmount'' = Some (map (\<lambda>x. value_of (to_amount x)) outs)"
    "array_signal (ta_circuit_inputs art) ''outPubkey''
       = Some (map (\<lambda>x. bytes_scalar (recipient_key (sender_key p3 p) x)) outs)"
    "array_signal (ta_circuit_inputs art) ''outBlinding'' = Some (map (\<lambda>x. field_to_scalar (to_blinding x)) outs)"
    "array_signal (ta_circuit_inputs art) ''membershipRoots'' = Some (replicate 2 (field_to_scalar (mp_root (tp_membership_proof p))))"
    "array_signal (ta_circuit_inputs art) ''nonMembershipRoots''
       = Some (replicate 2 (field_to_scalar (np_root (tp_non_membership_proof p))))"
  by (simp_all add: run_at [OF run] base_wires_def read_signals [OF pf] single_signal_def array_signal_def asp_signal_def
      set_array_def set_single_def wire_notes_def Let_def input_wires_def output_wires_def
      field_to_scalar_less numeral_2_eq_2)

lemma list_of_2: "length xs = 2 \<Longrightarrow> \<exists>a b. xs = [a, b]"
  by (auto simp: numeral_2_eq_2 length_Suc_conv)

lemma run_lengths:
  assumes "transact_run env p3 p4 h p rng slots outs enc0 enc1 digest art rng'"
  obtains a b c d ds es where "slots = [a, b]" "outs = [c, d]" "slots = tp_inputs p @ ds" "outs = tp_outputs p @ es"
    "\<forall>x \<in> set ds. ti_amount x = NOTE_ZERO" "\<forall>x \<in> set es. to_amount x = NOTE_ZERO"
proof -
  from assms obtain rng1 rng2 where slots: "input_slots env rng (tp_tree_depth p) (tp_inputs p) = Inr (slots, rng1)"
    and outs: "output_slots env rng1 (tp_outputs p) = Inr (outs, rng2)" and len: "length (tp_outputs p) \<le> 2"
    unfolding transact_run_def shaped_params_def by blast
  obtain ds where "slots = tp_inputs p @ ds" "length slots = 2" "\<forall>x \<in> set ds. ti_amount x = NOTE_ZERO"
    using input_slots_Inr [OF slots] by blast
  moreover obtain es where "outs = tp_outputs p @ es" "length outs = 2" "\<forall>x \<in> set es. to_amount x = NOTE_ZERO"
    using output_slots_Inr [OF outs len] by blast
  moreover have "\<exists>a b. slots = [a, b]" "\<exists>c d. outs = [c, d]"
    using calculation by (simp_all only: list_of_2)
  ultimately show thesis using that by blast
qed

lemma zero_amounts:
  "\<forall>x \<in> set ds. ti_amount x = NOTE_ZERO \<Longrightarrow> inputs_value ds = 0"
  "\<forall>x \<in> set es. to_amount x = NOTE_ZERO \<Longrightarrow> outputs_value es = 0"
  by (simp_all add: sum_list_0 cong: map_cong)

lemma run_balance:
  assumes run: "transact_run env p3 p4 h p rng slots outs enc0 enc1 digest art rng'"
  shows "int (inputs_value slots) + signed_value (tp_ext_amount p) = int (outputs_value outs)"
proof -
  obtain ds es where "slots = tp_inputs p @ ds" "outs = tp_outputs p @ es"
    "\<forall>x \<in> set ds. ti_amount x = NOTE_ZERO" "\<forall>x \<in> set es. to_amount x = NOTE_ZERO"
    using run_lengths [OF run] by metis
  moreover have "balanced_params p" using run by (simp add: transact_run_def)
  ultimately show ?thesis by (simp add: balanced_params_def zero_amounts)
qed

lemma balance_in_field:
  assumes "int a + e = int v" and "int f = e mod int prime"
  shows "(a + f) mod prime = v mod prime"
proof -
  have "int ((a + f) mod prime) = (int a + e mod int prime) mod int prime"
    by (simp add: zmod_int assms(2))
  also have "\<dots> = int (v mod prime)" by (simp add: mod_add_right_eq assms(1) zmod_int)
  finally show ?thesis by simp
qed

lemma run_public:
  assumes "transact_run env p3 p4 h p rng slots outs enc0 enc1 digest art rng'"
  shows "canonical (field_value (pt_public_amount (ta_prepared art)))"
    "int (field_to_scalar (pt_public_amount (ta_prepared art))) = signed_value (tp_ext_amount p) mod int prime"
  using assms ext_field [of "tp_ext_amount p"] by (auto simp: transact_run_def)

lemma run_satisfies_circuit:
  assumes run: "transact_run env p3 p4 h p rng slots outs enc0 enc1 digest art rng'"
    and pf: "panic_free 3 p3" "panic_free 4 p4"
  shows "transaction_circuit p3 p4 (tp_tree_depth p) (ta_circuit_inputs art)"
proof -
  obtain a b c d where slots: "slots = [a, b]" and outs: "outs = [c, d]" using run_lengths [OF run] by metis
  have key: "bytes_scalar (sender_key p3 p) = note_key p3 (bytes_scalar (tp_priv_key p))"
    using note_key_value(2) [OF pf(1)] by (simp add: sender_key_def)
  have paths: "length (ti_path_elements x) = tp_tree_depth p" if "x \<in> set slots" for x
    using run that unfolding transact_run_def by blast
  have small: "value_of v < 2 ^ 248" for v
    using value_of_less [of v] by (rule less_trans) simp
  have "((value_of (ti_amount a) + value_of (ti_amount b)) + field_to_scalar (pt_public_amount (ta_prepared art))) mod prime
      = (value_of (to_amount c) + value_of (to_amount d)) mod prime"
    using run_balance [OF run] by (intro balance_in_field [OF _ run_public(2) [OF run]]) (simp add: slots outs)
  then show ?thesis
    using paths [of a] paths [of b] small [of "to_amount c"] small [of "to_amount d"]
    by (simp add: transaction_circuit_def run_signals [OF run pf(2)] slots outs input_equation_def
        output_equation_def input_nullifier_def input_commitment_def slot_commitment_def output_commitment_def
        key Let_def)
qed

lemma digest_signal:
  assumes "length d = 32" "is_bytes d"
  shows "read_hex (be32_to_0x_hex d) = Some (be_value d mod prime)"
  using hex_to_scalar_encode [of "rev d"] assms
  by (simp add: read_hex_def be32_to_0x_hex_def le_value_rev is_bytes_def)

lemma run_prepared:
  assumes run: "transact_run env p3 p4 h p rng slots outs enc0 enc1 digest art rng'" and pf: "panic_free 4 p4"
  shows "pt_pool_root (ta_prepared art) = tp_pool_root p"
    "map field_to_scalar (pt_input_nullifiers (ta_prepared art))
       = map (input_nullifier p4 (bytes_scalar (tp_priv_key p)) (bytes_scalar (sender_key p3 p))) slots"
    "map field_to_scalar (pt_output_commitments (ta_prepared art)) = map (slot_commitment p3 p4 p) outs"
    "pt_input_nullifiers (ta_prepared art)
       = map (\<lambda>x. scalar_field (input_nullifier p4 (bytes_scalar (tp_priv_key p)) (bytes_scalar (sender_key p3 p)) x)) slots"
    "pt_output_commitments (ta_prepared art) = map (\<lambda>x. scalar_field (slot_commitment p3 p4 p x)) outs"
    "h (ta_ext_data art) = Some digest" "pt_ext_data_hash_be (ta_prepared art) = digest"
    "ta_ext_data art = \<lparr>ed_recipient = tp_ext_recipient p, ed_ext_amount = tp_ext_amount p,
          ed_encrypted_output0 = enc0, ed_encrypted_output1 = enc1\<rparr>"
    "ta_circuit_inputs art ''extDataHash'' = Some (Single (be32_to_0x_hex digest))"
proof -
  have hashes: "input_nullifier p4 sk pk x < prime" "slot_commitment p3 p4 p y < prime" for sk pk x y
    using note_hash_value(2) [OF pf]
    by (simp_all add: input_nullifier_def slot_commitment_def output_commitment_def Let_def)
  show nul: "pt_input_nullifiers (ta_prepared art)
       = map (\<lambda>x. scalar_field (input_nullifier p4 (bytes_scalar (tp_priv_key p)) (bytes_scalar (sender_key p3 p)) x)) slots"
    and com: "pt_output_commitments (ta_prepared art) = map (\<lambda>x. scalar_field (slot_commitment p3 p4 p x)) outs"
    using run by (auto simp: transact_run_def input_wires_def output_wires_def Let_def)
  show "map field_to_scalar (pt_input_nullifiers (ta_prepared art))
       = map (input_nullifier p4 (bytes_scalar (tp_priv_key p)) (bytes_scalar (sender_key p3 p))) slots"
    "map field_to_scalar (pt_output_commitments (ta_prepared art)) = map (slot_commitment p3 p4 p) outs"
    using scalar_field(2) [OF hashes(1)] scalar_field(2) [OF hashes(2)] by (simp_all add: nul com)
  show "pt_pool_root (ta_prepared art) = tp_pool_root p" "h (ta_ext_data art) = Some digest"
    "pt_ext_data_hash_be (ta_prepared art) = digest"
    "ta_ext_data art = \<lparr>ed_recipient = tp_ext_recipient p, ed_ext_amount = tp_ext_amount p,
          ed_encrypted_output0 = enc0, ed_encrypted_output1 = enc1\<rparr>"
    "ta_circuit_inputs art ''extDataHash'' = Some (Single (be32_to_0x_hex digest))"
    using run by (auto simp: transact_run_def set_single_def)
qed

section \<open>When a call succeeds\<close>

text \<open>
  The random source answers, and encryption adds the 16-byte tag. The hash of the external data may fail, as the
  one of the application does on a recipient it cannot parse; when it answers, it is with 32 bytes.
\<close>

definition responsive :: "crypto_env \<Rightarrow> bool" where
  "responsive env \<longleftrightarrow> (\<forall>n len. \<exists>bs. getrandom env n len = Some bs \<and> length bs = len)
     \<and> (\<forall>k n m. \<exists>c. seal_box env k n m = Some c \<and> length c = length m + 16)"

definition digests :: "(app_ext_data \<Rightarrow> nat list option) \<Rightarrow> bool" where
  "digests h \<longleftrightarrow> (\<forall>e d. h e = Some d \<longrightarrow> length d = 32 \<and> is_bytes d)"

definition accepted_params :: "transact_params \<Rightarrow> bool" where
  "accepted_params p \<longleftrightarrow> shaped_params p \<and> balanced_params p \<and> length (tp_inputs p) \<le> 2
     \<and> (\<forall>x \<in> set (tp_inputs p). length (ti_path_elements x) = tp_tree_depth p)
     \<and> (\<forall>x \<in> set (tp_outputs p). to_note_pubkey x \<noteq> None \<longleftrightarrow> to_enc_pubkey x \<noteq> None)
     \<and> fits USIZE_BITS (2 * tp_tree_depth p)"

lemma random_blinding_total: "responsive env \<Longrightarrow> \<exists>b. generate_random_blinding env rng = Inr (b, rng + 1)"
proof -
  assume "responsive env"
  then obtain bs where "getrandom env rng 32 = Some bs" unfolding responsive_def by blast
  moreover have "le_value bs mod prime < prime" using prime_pos by simp
  note scalar_field(1) [OF this]
  ultimately show ?thesis by (simp add: generate_random_blinding_def reduced_bytes_def Let_def)
qed

lemma push_dummy_inputs_total:
  assumes "responsive env"
  shows "\<exists>ds rng'. push_dummy_inputs env depth n (slots, rng) = Inr (slots @ ds, rng')"
proof (induction n arbitrary: slots rng)
  case (Suc n)
  obtain b where "generate_random_blinding env rng = Inr (b, rng + 1)"
    using random_blinding_total [OF assms] by blast
  then show ?case
    using Suc.IH [of "slots @ [\<lparr>ti_amount = NOTE_ZERO, ti_blinding = b,
      ti_path_elements = replicate depth (Field 0), ti_path_indices = Field 0\<rparr>]" "rng + 1"]
    by (auto simp: dummy_input_def)
qed simp

lemma push_dummy_outputs_total:
  assumes "responsive env"
  shows "\<exists>ds rng'. push_dummy_outputs env n (slots, rng) = Inr (slots @ ds, rng')"
proof (induction n arbitrary: slots rng)
  case (Suc n)
  obtain b where "generate_random_blinding env rng = Inr (b, rng + 1)"
    using random_blinding_total [OF assms] by blast
  then show ?case
    using Suc.IH [of "slots @ [\<lparr>to_amount = NOTE_ZERO, to_blinding = b, to_note_pubkey = None, to_enc_pubkey = None\<rparr>]" "rng + 1"]
    by auto
qed simp

lemma encrypt_total:
  assumes "responsive env" and "length key = 32"
  shows "\<exists>enc rng'. encrypt_output_note env rng key amount blinding = Inr (enc, rng')"
proof -
  let ?m = "note_to_le_bytes amount @ field_to_le_bytes blinding"
  have len: "length ?m = 48" by (simp add: note_to_le_bytes_def)
  obtain e n where "getrandom env rng 32 = Some e" "getrandom env (rng + 1) 24 = Some n"
    using assms(1) unfolding responsive_def by blast
  moreover from assms(1) obtain c where "seal_box env (diffie_hellman env e key) n ?m = Some c" "length c = 48 + 16"
    unfolding responsive_def len [symmetric] by blast
  ultimately show ?thesis
    using assms(2) len
    by (simp add: encrypt_output_note_def encrypt_note_data_def checked_add_def fits_def Let_def)
qed

lemma run_exists:
  assumes env: "responsive env" and h: "\<And>e. h e \<noteq> None" and typed: "typed_params p" and ok: "accepted_params p"
  shows "\<exists>slots outs enc0 enc1 digest art rng'. transact_run env p3 p4 h p rng slots outs enc0 enc1 digest art rng'"
proof -
  obtain slots rng1 where slots: "input_slots env rng (tp_tree_depth p) (tp_inputs p) = Inr (slots, rng1)"
    using push_dummy_inputs_total [OF env] ok
    by (cases "tp_inputs p = []")
      (auto simp: input_slots_def N_INPUTS_def accepted_params_def not_less, metis+)
  obtain outs rng2 where outs: "output_slots env rng1 (tp_outputs p) = Inr (outs, rng2)"
    using push_dummy_outputs_total [OF env] unfolding output_slots_def by metis
  have len: "length (tp_outputs p) \<le> 2" using ok by (simp add: accepted_params_def shaped_params_def)
  have "length outs = 2" using output_slots_Inr [OF outs len] by blast
  then have mem: "outs ! 0 \<in> set outs" "outs ! 1 \<in> set outs" by (auto intro: nth_mem)
  have keys: "length (encryption_key (tp_encryption_pubkey p) x) = 32" if "x \<in> set outs" for x
    using slot_keys(2) [OF typed outs len _ that, of "sender_key p3 p"] by (simp add: sender_key_def)
  obtain enc0 rng3 where enc0: "encrypt_output_note env rng2 (encryption_key (tp_encryption_pubkey p) (outs ! 0))
            (to_amount (outs ! 0)) (to_blinding (outs ! 0)) = Inr (enc0, rng3)"
    using encrypt_total [OF env keys [OF mem(1)]] by blast
  obtain enc1 rng' where enc1: "encrypt_output_note env rng3 (encryption_key (tp_encryption_pubkey p) (outs ! 1))
            (to_amount (outs ! 1)) (to_blinding (outs ! 1)) = Inr (enc1, rng')"
    using encrypt_total [OF env keys [OF mem(2)]] by blast
  let ?e = "\<lparr>ed_recipient = tp_ext_recipient p, ed_ext_amount = tp_ext_amount p,
          ed_encrypted_output0 = enc0, ed_encrypted_output1 = enc1\<rparr>"
  obtain digest where digest: "h ?e = Some digest" using h by blast
  obtain public where public: "field_try_from_ext (tp_ext_amount p) = Some public" using ext_field by blast
  obtain c where c: "fold_result (wire_asp_slot (tp_membership_proof p) (tp_non_membership_proof p)) [0..<N_INPUTS]
      (base_wires p public (input_wires p3 p4 p slots) (output_wires p3 p4 p outs [enc0, enc1])) = Inr c"
    using asp_slots_total by blast
  have paths: "\<forall>x \<in> set slots. length (ti_path_elements x) = tp_tree_depth p"
    using input_slots_Inr [OF slots] ok by (auto simp: accepted_params_def)
  have paired: "\<forall>x \<in> set outs. to_note_pubkey x \<noteq> None \<longleftrightarrow> to_enc_pubkey x \<noteq> None"
    using output_slots_Inr [OF outs len] ok unfolding accepted_params_def by auto
  have "\<exists>art. transact_run env p3 p4 h p rng slots outs enc0 enc1 digest art rng'"
    unfolding transact_run_def
    using ok slots outs enc0 enc1 digest public c paths paired
    by (intro exI [of _ "\<lparr>ta_circuit_inputs = set_single ''extDataHash'' (be32_to_0x_hex digest) c, ta_ext_data = ?e,
      ta_prepared = \<lparr>pt_pool_root = tp_pool_root p, pt_input_nullifiers = is_nullifiers (input_wires p3 p4 p slots),
           pt_output_commitments = os_commitments (output_wires p3 p4 p outs [enc0, enc1]),
           pt_public_amount = public, pt_ext_data_hash_be = digest,
           pt_asp_membership_root = mp_root (tp_membership_proof p),
           pt_asp_non_membership_root = np_root (tp_non_membership_proof p)\<rparr>\<rparr>"])
      (simp add: accepted_params_def)
  then show ?thesis by blast
qed

lemma run_accepted:
  assumes "transact_run env p3 p4 h p rng slots outs enc0 enc1 digest art rng'"
  shows "accepted_params p"
proof -
  obtain ds es where "slots = tp_inputs p @ ds" "outs = tp_outputs p @ es" "length slots = 2" "length outs = 2"
    using run_lengths [OF assms] by (metis length_Cons list.size(3) numeral_2_eq_2)
  with assms show ?thesis by (auto simp: transact_run_def accepted_params_def)
qed

text \<open>No phase panics.\<close>

definition no_trap :: "('e, 'a) result \<Rightarrow> bool" where
  "no_trap r \<longleftrightarrow> r \<noteq> Inl Trap"

lemma no_trap_base:
  "no_trap (Inr x)" "no_trap (ok_or v e)" "no_trap (ensure b e)" "no_trap (Inl (Err e))"
  "no_trap (map_err g r) \<longleftrightarrow> no_trap r" "unwrap_ok \<noteq> None \<Longrightarrow> no_trap (unwrap unwrap_ok)"
  by (auto simp: no_trap_def ok_or_def ensure_def split: option.splits elim: map_err.elims)

lemma no_trap_and_then: "no_trap r \<Longrightarrow> (\<And>x. r = Inr x \<Longrightarrow> no_trap (f x)) \<Longrightarrow> no_trap (and_then r f)"
  by (cases r) (auto simp: no_trap_def)

lemma no_trap_fold: "(\<And>x s. no_trap (f x s)) \<Longrightarrow> no_trap (fold_result f xs s)"
  by (induction xs arbitrary: s) (auto intro: no_trap_and_then simp: no_trap_base)

lemmas no_trap_intros = no_trap_and_then no_trap_fold

lemma no_trap_hashes:
  assumes "panic_free 3 p3" "panic_free 4 p4"
  shows "no_trap (derive_public_key p3 k)" "no_trap (compute_commitment p4 a b c)"
    "no_trap (compute_signature p4 a b c)" "no_trap (compute_nullifier p4 a b c)"
    "no_trap (bytes_to_scalar k)" "no_trap (field_bytes_to_hex k)"
  using note_key_value [OF assms(1)] note_hash_value [OF assms(2)]
  by (auto simp: derive_public_key_def compute_commitment_def compute_signature_def compute_nullifier_def
      field_bytes_to_hex_def scalar_to_hex_def bytes_to_scalar_def bytes_to_prime_field_def no_trap_base
      intro!: no_trap_and_then)

lemma no_trap_blinding: "no_trap (generate_random_blinding env rng)"
  by (auto simp: generate_random_blinding_def Let_def no_trap_base intro!: no_trap_and_then)

lemma no_trap_encrypt: "responsive env \<Longrightarrow> no_trap (encrypt_output_note env rng k a b)"
proof -
  assume env: "responsive env"
  have "length c = length m + 16" if "seal_box env k n m = Some c" for k n m c
    using env that unfolding responsive_def by (metis option.inject)
  then show ?thesis
    by (auto simp: encrypt_output_note_def encrypt_note_data_def Let_def no_trap_base checked_add_def fits_def
        result_simps intro!: no_trap_and_then)
qed

lemma no_trap_dummies:
  "no_trap (push_dummy_inputs env depth n st)" "no_trap (push_dummy_outputs env n st1)"
proof -
  show "no_trap (push_dummy_inputs env depth n st)"
    by (induction env depth n st rule: push_dummy_inputs.induct)
      (auto simp: dummy_input_def no_trap_base no_trap_blinding intro!: no_trap_and_then)
  show "no_trap (push_dummy_outputs env n st1)"
    by (induction env n st1 rule: push_dummy_outputs.induct)
      (auto simp: no_trap_base no_trap_blinding intro!: no_trap_and_then)
qed

lemma no_trap_steps:
  assumes "panic_free 3 p3" "panic_free 4 p4" "responsive env"
  shows "no_trap (input_step p4 sk pk hex x acc)" "no_trap (output_step env p4 pk ek y st)"
  by (auto simp: input_step_def output_step_def Let_def no_trap_base no_trap_hashes [OF assms(1,2)]
      no_trap_encrypt [OF assms(3)] split: prod.splits intro!: no_trap_and_then)

lemma no_trap_transact:
  assumes "panic_free 3 p3" "panic_free 4 p4" "responsive env"
  shows "no_trap (transact env p3 p4 h p rng)"
proof -
  have "no_trap (wire_asp_slot mp np slot c)" for mp np slot c
    using asp_slot_total [of mp np slot c] by (auto simp: no_trap_base)
  moreover have "no_trap (amounts_balance i out e)" for i out e
    by (auto simp: amounts_balance_def no_trap_base intro!: no_trap_and_then)
  moreover have "no_trap (ext_amount_to_circuit_hex e)" for e
    by (auto simp: ext_amount_to_circuit_hex_def no_trap_base intro!: no_trap_and_then)
  ultimately show ?thesis
    by (auto simp: transact_def Let_def no_trap_base no_trap_hashes [OF assms(1,2)] no_trap_steps [OF assms]
        check_shapes_def check_balance_def input_slots_def output_slots_def no_trap_dummies
        check_input_paths_def check_recipient_keys_def wire_roots_eq sum_note_amounts_inputs_def
        sum_note_amounts_outputs_def
        split: prod.splits intro!: no_trap_intros)
qed

section \<open>The hash comes last\<close>

text \<open>
  No step before the hash of the external data reports its failure, and what is hashed are the external data
  of the result: \<open>hashes_last m\<close>.
\<close>

definition no_hash_failure :: "(flow_error, 'a) result \<Rightarrow> bool" where
  "no_hash_failure r \<longleftrightarrow> r \<noteq> Inl (Err HashFailed)"

lemma no_hash_failure_base:
  "no_hash_failure (Inr x)" "e \<noteq> HashFailed \<Longrightarrow> no_hash_failure (ok_or v e)" "e \<noteq> HashFailed \<Longrightarrow> no_hash_failure (ensure b e)"
  "no_hash_failure (map_err ProverFailed r)" "no_hash_failure (codec_err s)"
  by (auto simp: no_hash_failure_def ok_or_def ensure_def split: option.splits elim: map_err.elims)

lemma no_hash_failure_and_then:
  "no_hash_failure r \<Longrightarrow> (\<And>x. r = Inr x \<Longrightarrow> no_hash_failure (f x)) \<Longrightarrow> no_hash_failure (and_then r f)"
  by (cases r) (auto simp: no_hash_failure_def)

lemma no_hash_failure_fold: "(\<And>x s. no_hash_failure (f x s)) \<Longrightarrow> no_hash_failure (fold_result f xs s)"
  by (induction xs arbitrary: s) (auto intro: no_hash_failure_and_then simp: no_hash_failure_base)

lemmas no_hash_failure_intros = no_hash_failure_and_then no_hash_failure_fold

lemma no_hash_failure_dummies:
  "no_hash_failure (push_dummy_inputs env depth n st)" "no_hash_failure (push_dummy_outputs env n st1)"
proof -
  show "no_hash_failure (push_dummy_inputs env depth n st)"
    by (induction env depth n st rule: push_dummy_inputs.induct)
      (auto simp: dummy_input_def no_hash_failure_base intro!: no_hash_failure_and_then)
  show "no_hash_failure (push_dummy_outputs env n st1)"
    by (induction env n st1 rule: push_dummy_outputs.induct)
      (auto simp: no_hash_failure_base intro!: no_hash_failure_and_then)
qed

lemma no_hash_failure_hex: "no_hash_failure (field_to_circuit_hex f)" "no_hash_failure (ext_amount_to_circuit_hex e)"
  by (auto simp: field_to_circuit_hex_def ext_amount_to_circuit_hex_def no_hash_failure_base
      intro!: no_hash_failure_and_then)

lemma no_hash_failure_map: "(\<And>x. no_hash_failure (f x)) \<Longrightarrow> no_hash_failure (map_result f xs)"
  by (induction xs) (auto simp: no_hash_failure_base intro!: no_hash_failure_and_then)

lemma no_hash_failure_steps:
  "no_hash_failure (input_step p4 sk pk hex x acc)" "no_hash_failure (output_step env p4 pk ek y st)"
  by (auto simp: input_step_def output_step_def Let_def no_hash_failure_base no_hash_failure_hex
      split: prod.splits intro!: no_hash_failure_and_then no_hash_failure_map)

lemma no_hash_failure_checks:
  "no_hash_failure (check_shapes p)" "no_hash_failure (check_balance p)" "no_hash_failure (input_slots env rng d ins)"
  "no_hash_failure (check_input_paths d slots)" "no_hash_failure (output_slots env rng outs)"
  "no_hash_failure (check_recipient_keys out_slots)" "no_hash_failure (wire_roots mp np c)"
  "no_hash_failure (wire_asp_slot mp np slot c)"
  using asp_slot_total [of mp np slot c]
  by (auto simp: check_shapes_def check_balance_def amounts_balance_def input_slots_def output_slots_def
      check_input_paths_def check_recipient_keys_def wire_roots_eq sum_note_amounts_inputs_def
      sum_note_amounts_outputs_def no_hash_failure_base no_hash_failure_dummies
      split: prod.splits intro!: no_hash_failure_intros)

definition hashes_last ::
  "((app_ext_data \<Rightarrow> nat list option) \<Rightarrow> (flow_error, transact_artifacts \<times> nat) result) \<Rightarrow> bool" where
  "hashes_last m \<longleftrightarrow>
     (\<exists>d. d \<noteq> Err HashFailed \<and> m = (\<lambda>h. Inl d))
   \<or> (\<exists>e mk. (\<forall>d. ta_ext_data (fst (mk d)) = e)
        \<and> m = (\<lambda>h. case h e of None \<Rightarrow> Inl (Err HashFailed) | Some d \<Rightarrow> Inr (mk d)))"

lemma hashes_last_step:
  assumes "no_hash_failure a" and "\<And>y. hashes_last (\<lambda>h. f y h)"
  shows "hashes_last (\<lambda>h. and_then a (\<lambda>y. f y h))"
  using assms by (cases a) (auto simp: hashes_last_def no_hash_failure_def)

lemma hashes_last_pair:
  "(\<And>a b. hashes_last (\<lambda>h. f a b h)) \<Longrightarrow> hashes_last (\<lambda>h. case y of (a, b) \<Rightarrow> f a b h)"
  by (cases y) simp

lemma hashes_last_end:
  assumes "\<And>d. ta_ext_data (fst (mk d)) = e"
  shows "hashes_last (\<lambda>h. and_then (ok_or (h e) HashFailed) (\<lambda>d. Inr (mk d)))"
proof -
  have "(\<lambda>h. and_then (ok_or (h e) HashFailed) (\<lambda>d. Inr (mk d)))
      = (\<lambda>h. case h e of None \<Rightarrow> Inl (Err HashFailed) | Some d \<Rightarrow> Inr (mk d))"
    by (auto simp: ok_or_def fun_eq_iff split: option.splits)
  with assms show ?thesis unfolding hashes_last_def by blast
qed

lemma transact_hashes_last: "hashes_last (\<lambda>h. transact env p3 p4 h p rng)"
  unfolding transact_def Let_def
  by (intro hashes_last_step hashes_last_pair hashes_last_end no_hash_failure_checks no_hash_failure_steps
      no_hash_failure_hex no_hash_failure_base no_hash_failure_fold) simp_all

text \<open>So a run with a hash that always answers tells what a run with any other hash does.\<close>

lemma transact_other_hash:
  assumes "\<And>e. g e \<noteq> None"
  shows "case transact env p3 p4 g p rng of
      Inl d \<Rightarrow> d \<noteq> Err HashFailed \<and> transact env p3 p4 h p rng = Inl d
    | Inr (art, _) \<Rightarrow> (case h (ta_ext_data art) of
          None \<Rightarrow> transact env p3 p4 h p rng = Inl (Err HashFailed)
        | Some d \<Rightarrow> \<exists>r. transact env p3 p4 h p rng = Inr r)"
proof -
  consider d where "d \<noteq> Err HashFailed" "(\<lambda>h. transact env p3 p4 h p rng) = (\<lambda>h. Inl d)"
    | e mk where "\<And>d. ta_ext_data (fst (mk d)) = e"
      "(\<lambda>h. transact env p3 p4 h p rng) = (\<lambda>h. case h e of None \<Rightarrow> Inl (Err HashFailed) | Some d \<Rightarrow> Inr (mk d))"
    using transact_hashes_last [of env p3 p4 p rng] unfolding hashes_last_def by blast
  then show ?thesis
  proof cases
    case (1 d)
    from 1(1) fun_cong [OF 1(2), of g] fun_cong [OF 1(2), of h] show ?thesis by simp
  next
    case (2 e mk)
    obtain d where d: "g e = Some d" using assms by blast
    from 2(1) [of d] fun_cong [OF 2(2), of g] fun_cong [OF 2(2), of h] d show ?thesis
      by (cases "mk d") (simp split: option.splits)
  qed
qed

section \<open>Discovery\<close>

text \<open>
  The documented laws of the third-party cryptography: both sides of a Diffie-Hellman exchange get
  the same secret, the box opens what it sealed and adds a tag of 16 bytes, and the random
  source returns as many bytes as it is asked for.
\<close>

definition sound_crypto :: "crypto_env \<Rightarrow> bool" where
  "sound_crypto env \<longleftrightarrow>
     (\<forall>s. length s = 32 \<longrightarrow> length (x25519_public env s) = 32)
     \<and> (\<forall>a b. length a = 32 \<longrightarrow> length b = 32 \<longrightarrow>
          diffie_hellman env a (x25519_public env b) = diffie_hellman env b (x25519_public env a))
     \<and> (\<forall>k n m c. seal_box env k n m = Some c \<longrightarrow> length c = length m + 16 \<and> open_box env k n c = Some m)
     \<and> (\<forall>n len bs. getrandom env n len = Some bs \<longrightarrow> length bs = len)"

lemma note_bytes:
  "length (note_to_le_bytes a) = 16" "NoteAmount (word_of_nat (le_value (note_to_le_bytes a))) = a"
proof -
  have "unat (note_value a) < 256 ^ 16" using unat_u128_less [of "note_value a"] by simp
  then have "le_value (le_digits 16 (unat (note_value a))) = unat (note_value a)" by (rule le_value_le_digits)
  then show "NoteAmount (word_of_nat (le_value (note_to_le_bytes a))) = a"
    by (cases a) (simp add: note_to_le_bytes_def)
qed (simp add: note_to_le_bytes_def)

lemma canonical_field_bytes: "canonical (field_value f) \<Longrightarrow> try_from_le_bytes (field_to_le_bytes f) = Some f"
  by (cases f) (simp add: field_to_le_bytes_def try_from_le_bytes_def try_from_u256_Some)

lemma encrypted_note:
  assumes crypto: "sound_crypto env" and enc: "encrypt_output_note env rng key amount blinding = Inr (enc, rng')"
  shows "length enc = 120"
    "canonical (field_value blinding) \<Longrightarrow> length priv = 32 \<Longrightarrow> key = x25519_public env priv
       \<Longrightarrow> decrypt_output_note env priv enc = Inr (Some (amount, blinding))"
proof -
  let ?m = "note_to_le_bytes amount @ field_to_le_bytes blinding"
  obtain e n c where e: "getrandom env rng 32 = Some e" and n: "getrandom env (rng + 1) 24 = Some n"
    and c: "seal_box env (diffie_hellman env e key) n ?m = Some c" and enc_eq: "enc = x25519_public env e @ n @ c"
    using enc by (auto simp: encrypt_output_note_def encrypt_note_data_def result_simps Let_def split: if_splits)
  have lens: "length e = 32" "length n = 24" "length c = 64" "length (x25519_public env e) = 32"
    using crypto e n c unfolding sound_crypto_def by (auto simp: note_bytes)
  then show "length enc = 120" by (simp add: enc_eq)
  assume can: "canonical (field_value blinding)" and priv: "length priv = 32" and key: "key = x25519_public env priv"
  have "diffie_hellman env priv (x25519_public env e) = diffie_hellman env e key"
    using crypto priv lens(1) unfolding key sound_crypto_def by metis
  then have "open_box env (diffie_hellman env priv (x25519_public env e)) n c = Some ?m"
    using crypto c unfolding sound_crypto_def by metis
  then have "decrypt_note_data env priv enc = Inr ?m"
    using lens priv by (simp add: decrypt_note_data_def enc_eq)
  moreover have "note_to_le_bytes amount \<noteq> []" by (simp add: note_bytes flip: length_greater_0_conv)
  ultimately show "decrypt_output_note env priv enc = Inr (Some (amount, blinding))"
    by (simp add: decrypt_output_note_def note_bytes canonical_field_bytes [OF can])
qed

definition note_nullifier :: "poseidon2_params \<Rightarrow> scalar \<Rightarrow> scalar \<Rightarrow> nat \<Rightarrow> scalar" where
  "note_nullifier p4 sk commitment leaf_index =
     note_hash p4 2 commitment leaf_index (note_hash p4 4 sk commitment leaf_index)"

lemma leaf_bytes:
  assumes "leaf_index < 2 ^ 32"
  shows "bytes_scalar (le_digits 8 leaf_index @ replicate 24 0) = leaf_index"
    "length (le_digits 8 leaf_index @ replicate 24 0) = 32" "field_to_scalar (Field (word_of_nat leaf_index)) = leaf_index"
proof -
  have zeros: "le_value (replicate k 0) = 0" for k by (induction k) simp_all
  have "leaf_index < 256 ^ 8" using assms by simp
  moreover have less: "leaf_index < prime" using assms by (simp add: prime_def)
  ultimately show "bytes_scalar (le_digits 8 leaf_index @ replicate 24 0) = leaf_index"
    unfolding le_value_append by (simp add: le_value_le_digits zeros)
  show "field_to_scalar (Field (word_of_nat leaf_index)) = leaf_index"
    using scalar_field(2) [OF less] by (simp add: scalar_field_def)
qed simp

lemma derive_note:
  assumes pf: "panic_free 4 p4" and keys: "length (nk_public kp) = 32" "length (nk_private kp) = 32"
    and leaf: "leaf_index < 2 ^ 32" and dec: "decrypt_output_note env priv enc = Inr (Some (amount, blinding))"
  shows "try_decrypt_and_derive_user_note env p4 kp priv commitment leaf_index enc =
    (let cm = note_hash p4 1 (value_of amount) (bytes_scalar (nk_public kp)) (field_to_scalar blinding) in
     if value_of amount = 0 \<or> field_to_le_bytes commitment \<noteq> le_digits 32 cm then Inr None
     else Inr (Some \<lparr>dn_amount = amount, dn_blinding = blinding,
        dn_expected_nullifier = scalar_field (note_nullifier p4 (bytes_scalar (nk_private kp)) cm leaf_index)\<rparr>))"
proof -
  have "note_nullifier p4 sk cm leaf_index < prime" for sk cm
    by (simp add: note_nullifier_def note_hash_value(2) [OF pf])
  note nul = scalar_field(1) [OF this, unfolded note_nullifier_def]
  show ?thesis
    using note_hash_value(2) [OF pf] leaf_bytes [OF leaf] nul
    by (simp add: try_decrypt_and_derive_user_note_def dec app_hash_eqs [OF pf] keys note_field_scalar
        note_is_zero_value Let_def note_nullifier_def)
qed

section \<open>Properties\<close>

text \<open>
  C14: A built transaction satisfies the circuit's equations. Whenever \<open>transact\<close> returns, the strings
  it hands to the witness calculator decode to signals for which, in both slots, the nullifier is the
  hash of commitment, path and signature under the sender's key, the output commitment is the hash of
  amount, recipient and blinding, output amounts fit 248 bits, and inputs plus public amount equal
  outputs in the field. The decoded public signals are the values the caller gets to submit: root, public
  amount, nullifiers, commitments, both association roots and the digest of the returned
  external data, whose amount has the public amount as its residue.
\<close>

theorem transact_satisfies_circuit:
  assumes "panic_free 3 p3" "panic_free 4 p4" and "typed_params p" and "digests h"
    and "transact env p3 p4 h p rng = Inr (art, rng')"
  shows "transaction_circuit p3 p4 (tp_tree_depth p) (ta_circuit_inputs art)
    \<and> single_signal (ta_circuit_inputs art) ''root'' = Some (field_to_scalar (pt_pool_root (ta_prepared art)))
    \<and> single_signal (ta_circuit_inputs art) ''publicAmount'' = Some (field_to_scalar (pt_public_amount (ta_prepared art)))
    \<and> array_signal (ta_circuit_inputs art) ''inputNullifier''
        = Some (map field_to_scalar (pt_input_nullifiers (ta_prepared art)))
    \<and> array_signal (ta_circuit_inputs art) ''outputCommitment''
        = Some (map field_to_scalar (pt_output_commitments (ta_prepared art)))
    \<and> array_signal (ta_circuit_inputs art) ''membershipRoots''
        = Some (replicate 2 (field_to_scalar (mp_root (tp_membership_proof p))))
    \<and> array_signal (ta_circuit_inputs art) ''nonMembershipRoots''
        = Some (replicate 2 (field_to_scalar (np_root (tp_non_membership_proof p))))
    \<and> single_signal (ta_circuit_inputs art) ''extDataHash''
        = Some (be_value (pt_ext_data_hash_be (ta_prepared art)) mod prime)
    \<and> h (ta_ext_data art) = Some (pt_ext_data_hash_be (ta_prepared art))
    \<and> ed_recipient (ta_ext_data art) = tp_ext_recipient p
    \<and> int (field_to_scalar (pt_public_amount (ta_prepared art)))
        = signed_value (ed_ext_amount (ta_ext_data art)) mod int prime"
proof -
  obtain slots outs enc0 enc1 digest where run: "transact_run env p3 p4 h p rng slots outs enc0 enc1 digest art rng'"
    using assms(5) unfolding transact_iff [OF assms(1-3)] by blast
  note prepared = run_prepared [OF run assms(2)]
  have "length digest = 32" "is_bytes digest"
    using assms(4) prepared(6) unfolding digests_def by blast+
  then have "single_signal (ta_circuit_inputs art) ''extDataHash'' = Some (be_value digest mod prime)"
    by (simp add: single_signal_def prepared(9) digest_signal)
  then show ?thesis
    using prepared(6)
    by (simp add: run_satisfies_circuit [OF run assms(1,2)] run_signals [OF run assms(2)] run_public(2) [OF run]
        prepared(1-3,7,8) del: list.map_comp map_map)
qed

text \<open>Every outcome of the builder.\<close>

lemma transact_cases:
  assumes "panic_free 3 p3" "panic_free 4 p4" and "typed_params p" and "responsive env"
  shows "case transact env p3 p4 h p rng of
      Inr (art, _) \<Rightarrow> accepted_params p \<and> h (ta_ext_data art) = Some (pt_ext_data_hash_be (ta_prepared art))
    | Inl Trap \<Rightarrow> False
    | Inl (Err e) \<Rightarrow>
        if e = HashFailed
        then accepted_params p \<and> (\<exists>enc0 enc1. h \<lparr>ed_recipient = tp_ext_recipient p, ed_ext_amount = tp_ext_amount p,
               ed_encrypted_output0 = enc0, ed_encrypted_output1 = enc1\<rparr> = None)
        else \<not> accepted_params p"
proof (cases "transact env p3 p4 h p rng")
  case (Inr r)
  obtain art rng' where r: "r = (art, rng')" by (cases r)
  with Inr obtain slots outs enc0 enc1 digest where run: "transact_run env p3 p4 h p rng slots outs enc0 enc1 digest art rng'"
    using transact_iff [OF assms(1-3)] by blast
  from run_accepted [OF this] run_prepared(6,7) [OF run assms(2)] Inr r show ?thesis by simp
next
  case (Inl x)
  then have trap: "x \<noteq> Trap" using no_trap_transact [OF assms(1,2,4), of h p rng] by (auto simp: no_trap_def)
  let ?g = "\<lambda>_. Some [] :: nat list option"
  have other: "case transact env p3 p4 ?g p rng of
      Inl d \<Rightarrow> d \<noteq> Err HashFailed \<and> transact env p3 p4 h p rng = Inl d
    | Inr (art, _) \<Rightarrow> (case h (ta_ext_data art) of
          None \<Rightarrow> transact env p3 p4 h p rng = Inl (Err HashFailed)
        | Some d \<Rightarrow> \<exists>r. transact env p3 p4 h p rng = Inr r)"
    by (rule transact_other_hash) simp
  show ?thesis
  proof (cases "transact env p3 p4 ?g p rng")
    case left: (Inl d)
    have "\<not> accepted_params p"
    proof
      assume "accepted_params p"
      from run_exists [where h = ?g and ?p3.0 = p3 and ?p4.0 = p4 and rng = rng, OF assms(4) _ assms(3) this]
      obtain art rng' where "transact env p3 p4 ?g p rng = Inr (art, rng')"
        unfolding transact_iff [OF assms(1-3)] by blast
      with left show False by simp
    qed
    with other left Inl trap show ?thesis by (cases x) auto
  next
    case right: (Inr r)
    obtain art rng' where r: "r = (art, rng')" by (cases r)
    with right obtain slots outs enc0 enc1 digest
      where run: "transact_run env p3 p4 ?g p rng slots outs enc0 enc1 digest art rng'"
      using transact_iff [OF assms(1-3)] by blast
    from other right r Inl have "x = Err HashFailed" "h (ta_ext_data art) = None"
      by (auto split: option.splits)
    with Inl run_accepted [OF run] run_prepared(8) [OF run assms(2)] show ?thesis by auto
  qed
qed

text \<open>
  C16: \<open>transact\<close> succeeds exactly on well-formed balanced parameters whose external data can be hashed. With 32-byte
  keys, a random source that answers and an encryption that does not fail, it returns a transaction, with the hash's
  digest of its external data, only if the depths are positive, all proofs have the length of their tree, there are at
  most two inputs and two outputs, recipient keys come in pairs, the path buffer's capacity is a machine integer, and
  both sums and the equation inputs + public amount = outputs hold in the integers without overflow (the smallest
  \<open>i128\<close> is refused). On such parameters it fails only with \<open>HashFailed\<close>, when the hash refuses external data with
  their recipient and amount; on all others it returns another error. It never panics.
\<close>

theorem transact_outcomes:
  assumes "panic_free 3 p3" "panic_free 4 p4" and "typed_params p" and "responsive env"
  shows "case transact env p3 p4 h p rng of
      Inr (art, _) \<Rightarrow> accepted_params p \<and> h (ta_ext_data art) = Some (pt_ext_data_hash_be (ta_prepared art))
    | Inl Trap \<Rightarrow> False
    | Inl (Err e) \<Rightarrow>
        if e = HashFailed
        then accepted_params p \<and> (\<exists>enc0 enc1. h \<lparr>ed_recipient = tp_ext_recipient p, ed_ext_amount = tp_ext_amount p,
               ed_encrypted_output0 = enc0, ed_encrypted_output1 = enc1\<rparr> = None)
        else \<not> accepted_params p"
  by (rule transact_cases [OF assms])

text \<open>
  C15: A created note is found and can be spent. An output of positive amount that \<open>transact\<close> encrypts to
  the holder of a note key and an encryption key is recovered by \<open>try_decrypt_and_derive_user_note\<close> from
  the published commitment and ciphertext: it returns the amount and the blinding, and the
  nullifier it predicts for the leaf is the one that any later transaction of the holder derives when it
  spends a note of that amount and blinding at that leaf.
\<close>

theorem created_note_is_found:
  assumes "panic_free 3 p3" "panic_free 4 p4" and "sound_crypto env" and "typed_params p"
    and "transact env p3 p4 h p rng = Inr (art, rng')"
    and "i < length (tp_outputs p)" and "out = tp_outputs p ! i"
    and "value_of (to_amount out) \<noteq> 0" and "canonical (field_value (to_blinding out))"
    and "recipient_key (sender_key p3 p) out = nk_public kp"
    and "encryption_key (tp_encryption_pubkey p) out = x25519_public env priv"
    and "derive_public_key p3 (nk_private kp) = Inr (nk_public kp)" and "length priv = 32" and "leaf_index < 2 ^ 32"
  shows "\<exists>nul. try_decrypt_and_derive_user_note env p4 kp priv (pt_output_commitments (ta_prepared art) ! i) leaf_index
       (if i = 0 then ed_encrypted_output0 (ta_ext_data art) else ed_encrypted_output1 (ta_ext_data art))
     = Inr (Some \<lparr>dn_amount = to_amount out, dn_blinding = to_blinding out, dn_expected_nullifier = nul\<rparr>)
    \<and> (\<forall>env' h' p' rng1 art' rng2 j. typed_params p' \<longrightarrow> tp_priv_key p' = nk_private kp \<longrightarrow> j < length (tp_inputs p')
        \<longrightarrow> ti_amount (tp_inputs p' ! j) = to_amount out \<longrightarrow> ti_blinding (tp_inputs p' ! j) = to_blinding out
        \<longrightarrow> ti_path_indices (tp_inputs p' ! j) = Field (word_of_nat leaf_index)
        \<longrightarrow> transact env' p3 p4 h' p' rng1 = Inr (art', rng2)
        \<longrightarrow> pt_input_nullifiers (ta_prepared art') ! j = nul)"
proof -
  let ?cm = "note_hash p4 1 (value_of (to_amount out)) (bytes_scalar (nk_public kp)) (field_to_scalar (to_blinding out))"
  let ?nul = "scalar_field (note_nullifier p4 (bytes_scalar (nk_private kp)) ?cm leaf_index)"
  have sk: "length (nk_private kp) = 32"
    using assms(12) by (auto simp: derive_public_key_def result_simps bytes_to_scalar_Inr)
  then have pk: "nk_public kp = le_digits 32 (note_key p3 (bytes_scalar (nk_private kp)))"
    using assms(12) by (simp add: derive_public_key_eq [OF assms(1)])
  obtain slots outs enc0 enc1 digest where run: "transact_run env p3 p4 h p rng slots outs enc0 enc1 digest art rng'"
    using assms(5) unfolding transact_iff [OF assms(1,2,4)] by blast
  obtain a b es where outs: "outs = [a, b]" "outs = tp_outputs p @ es" using run_lengths [OF run] by metis
  have i: "i < 2" "outs ! i = out"
    using assms(6,7) arg_cong [OF outs(1) [unfolded outs(2)], of length] by (simp_all add: outs(2) nth_append)
  let ?enc = "if i = 0 then enc0 else enc1"
  have "\<exists>r r'. encrypt_output_note env r (x25519_public env priv) (to_amount out) (to_blinding out) = Inr (?enc, r')"
    using run i unfolding transact_run_def assms(11) [symmetric] by (cases "i = 0") (auto simp: less_2_cases_iff)
  then have dec: "decrypt_output_note env priv ?enc = Inr (Some (to_amount out, to_blinding out))"
    using encrypted_note(2) [OF assms(3) _ assms(9,13) refl] by blast
  have "i < length outs" using i outs(1) by simp
  then have "pt_output_commitments (ta_prepared art) ! i = scalar_field ?cm"
    using i(2) by (simp add: run_prepared [OF run assms(2)] slot_commitment_def output_commitment_def assms(10))
  moreover have "field_to_le_bytes (scalar_field ?cm) = le_digits 32 ?cm"
    by (rule scalar_field(4)) (rule note_hash_value(2) [OF assms(2)])
  ultimately have found: "try_decrypt_and_derive_user_note env p4 kp priv (pt_output_commitments (ta_prepared art) ! i)
      leaf_index ?enc
     = Inr (Some \<lparr>dn_amount = to_amount out, dn_blinding = to_blinding out, dn_expected_nullifier = ?nul\<rparr>)"
    using derive_note [OF assms(2) _ sk assms(14) dec] pk assms(8) by (simp add: Let_def)
  have spent: "pt_input_nullifiers (ta_prepared art') ! j = ?nul"
    if p': "typed_params p'" "tp_priv_key p' = nk_private kp" "j < length (tp_inputs p')"
      "ti_amount (tp_inputs p' ! j) = to_amount out" "ti_blinding (tp_inputs p' ! j) = to_blinding out"
      "ti_path_indices (tp_inputs p' ! j) = Field (word_of_nat leaf_index)"
      "transact env' p3 p4 h' p' rng1 = Inr (art', rng2)" for env' h' p' rng1 art' rng2 j
  proof -
    obtain slots outs enc0 enc1 digest where run: "transact_run env' p3 p4 h' p' rng1 slots outs enc0 enc1 digest art' rng2"
      using p'(7) unfolding transact_iff [OF assms(1,2) p'(1)] by blast
    obtain ds where slots: "slots = tp_inputs p' @ ds" using run_lengths [OF run] by metis
    have "sender_key p3 p' = nk_public kp" using p'(2) by (simp add: sender_key_def pk)
    then show ?thesis
      using p' leaf_bytes(3) [OF assms(14)] unfolding run_prepared(4) [OF run assms(2)] slots
      by (simp add: nth_append input_nullifier_def input_commitment_def note_nullifier_def Let_def)
  qed
  have "(if i = 0 then ed_encrypted_output0 (ta_ext_data art) else ed_encrypted_output1 (ta_ext_data art)) = ?enc"
    by (simp add: run_prepared(8) [OF run assms(2)])
  with found spent show ?thesis by (intro exI [of _ ?nul]) auto
qed

text \<open>
  C37: Found notes belong to the finder. When discovery returns a note, the published commitment is the hash of
  that amount, the finder's note key and that blinding, the amount is positive, and the predicted nullifier
  is the hash of commitment, leaf and the signature under the finder's private key: a
  ciphertext that decrypts to anything else is skipped.
\<close>

theorem found_notes_are_owned:
  assumes "panic_free 4 p4" and "length (nk_public kp) = 32" "length (nk_private kp) = 32" and "leaf_index < 2 ^ 32"
    and "try_decrypt_and_derive_user_note env p4 kp priv commitment leaf_index enc = Inr (Some note)"
  shows "field_to_scalar commitment
      = note_hash p4 1 (value_of (dn_amount note)) (bytes_scalar (nk_public kp)) (field_to_scalar (dn_blinding note))
    \<and> canonical (field_value commitment) \<and> 0 < value_of (dn_amount note)
    \<and> dn_expected_nullifier note
      = scalar_field (note_nullifier p4 (bytes_scalar (nk_private kp)) (field_to_scalar commitment) leaf_index)"
proof -
  obtain amount blinding where dec: "decrypt_output_note env priv enc = Inr (Some (amount, blinding))"
    using assms(5) by (auto simp: try_decrypt_and_derive_user_note_def result_simps split: option.splits)
  let ?cm = "note_hash p4 1 (value_of amount) (bytes_scalar (nk_public kp)) (field_to_scalar blinding)"
  have found: "value_of amount \<noteq> 0" "field_to_le_bytes commitment = le_digits 32 ?cm"
    "note = \<lparr>dn_amount = amount, dn_blinding = blinding,
        dn_expected_nullifier = scalar_field (note_nullifier p4 (bytes_scalar (nk_private kp)) ?cm leaf_index)\<rparr>"
    using assms(5) unfolding derive_note [OF assms(1-4) dec] Let_def by (simp_all split: if_splits)
  note cm = scalar_field [OF note_hash_value(2) [OF assms(1)]]
  have "field_to_le_bytes commitment = field_to_le_bytes (scalar_field ?cm)" using found(2) by (simp only: cm(4))
  then have "commitment = scalar_field ?cm"
    by (cases commitment, cases "scalar_field ?cm") (metis field_to_le_bytes_def field_element.sel from_to_le_bytes)
  then show ?thesis using found(1,3) cm(2,3) by simp
qed

lemma run_amounts:
  assumes run: "transact_run env p3 p4 h p rng slots outs enc0 enc1 digest art rng'" and pf: "panic_free 4 p4"
  shows "\<exists>a0 a1 v0 v1. array_signal (ta_circuit_inputs art) ''inAmount'' = Some [a0, a1]
    \<and> array_signal (ta_circuit_inputs art) ''outAmount'' = Some [v0, v1]
    \<and> a0 + a1 = inputs_value (tp_inputs p) \<and> v0 + v1 = outputs_value (tp_outputs p)
    \<and> (\<forall>x y. tp_outputs p = [x, y] \<longrightarrow> v0 = value_of (to_amount x) \<and> v1 = value_of (to_amount y))
    \<and> int (a0 + a1) + signed_value (tp_ext_amount p) = int (v0 + v1)"
proof -
  obtain a b c d ds es where slots: "slots = [a, b]" "slots = tp_inputs p @ ds" and outs: "outs = [c, d]" "outs = tp_outputs p @ es"
    and zero: "inputs_value ds = 0" "outputs_value es = 0"
    using run_lengths [OF run] zero_amounts by metis
  have "inputs_value slots = inputs_value (tp_inputs p)" "outputs_value outs = outputs_value (tp_outputs p)"
    unfolding slots(2) outs(2) using zero by simp_all
  moreover have "\<forall>x y. tp_outputs p = [x, y] \<longrightarrow> x = c \<and> y = d" using outs by auto
  ultimately show ?thesis
    using run_balance [OF run] run_signals(4,10) [OF run pf]
    by (intro exI [of _ "value_of (ti_amount a)"] exI [of _ "value_of (ti_amount b)"]
        exI [of _ "value_of (to_amount c)"] exI [of _ "value_of (to_amount d)"]) (simp add: slots(1) outs(1))
qed

text \<open>
  C18: The three flows move exactly the stated amount. In the signals of a deposit both input amounts are
  zero and the outputs sum to the deposited amount, which is the public amount; in those of a withdrawal
  the inputs are the given notes and exceed the outputs by the withdrawn amount, which is not
  negative and leaves as its negation to the stated recipient, and the change of the default outputs is in
  the first of them; in those of a transfer inputs and outputs have the same sum and nothing is public.
\<close>

theorem flows_conserve_value:
  assumes "panic_free 3 p3" "panic_free 4 p4"
  shows "(typed_keys (dp_priv_key d) (dp_encryption_pubkey d) (dp_outputs d)
      \<longrightarrow> deposit env p3 p4 h d rng = Inr (art, rng')
      \<longrightarrow> (\<exists>v0 v1. array_signal (ta_circuit_inputs art) ''inAmount'' = Some [0, 0]
            \<and> array_signal (ta_circuit_inputs art) ''outAmount'' = Some [v0, v1]
            \<and> int (v0 + v1) = signed_value (dp_amount d) \<and> v0 + v1 = outputs_value (dp_outputs d)
            \<and> ed_ext_amount (ta_ext_data art) = dp_amount d))
    \<and> (typed_keys (wp_priv_key w) (wp_encryption_pubkey w) (unwrap_or (wp_outputs w) [])
      \<longrightarrow> withdraw env p3 p4 h w rng = Inr (art, rng')
      \<longrightarrow> (\<exists>a0 a1 v0 v1. array_signal (ta_circuit_inputs art) ''inAmount'' = Some [a0, a1]
            \<and> array_signal (ta_circuit_inputs art) ''outAmount'' = Some [v0, v1]
            \<and> a0 + a1 = inputs_value (wp_inputs w) \<and> 0 \<le> signed_value (wp_withdraw_amount w)
            \<and> int (a0 + a1) = int (v0 + v1) + signed_value (wp_withdraw_amount w)
            \<and> (wp_outputs w = None \<longrightarrow> v1 = 0)
            \<and> signed_value (ed_ext_amount (ta_ext_data art)) = - signed_value (wp_withdraw_amount w)
            \<and> ed_recipient (ta_ext_data art) = wp_withdraw_recipient w))
    \<and> (typed_keys (xp_priv_key x) (xp_encryption_pubkey x) (xp_outputs x)
      \<longrightarrow> transfer env p3 p4 h x rng = Inr (art, rng')
      \<longrightarrow> (\<exists>a0 a1 v0 v1. array_signal (ta_circuit_inputs art) ''inAmount'' = Some [a0, a1]
            \<and> array_signal (ta_circuit_inputs art) ''outAmount'' = Some [v0, v1]
            \<and> a0 + a1 = inputs_value (xp_inputs x) \<and> a0 + a1 = v0 + v1
            \<and> ed_ext_amount (ta_ext_data art) = EXT_ZERO))"
    (is "?dep \<and> ?wit \<and> ?tra")
proof (intro conjI impI)
  note runs = transact_iff [OF assms]
  {
    assume typed: "typed_keys (dp_priv_key d) (dp_encryption_pubkey d) (dp_outputs d)"
      and call: "deposit env p3 p4 h d rng = Inr (art, rng')"
    let ?p = "\<lparr>tp_priv_key = dp_priv_key d, tp_encryption_pubkey = dp_encryption_pubkey d,
        tp_pool_root = dp_pool_root d, tp_ext_recipient = dp_pool_address d,
        tp_ext_amount = dp_amount d, tp_inputs = [], tp_outputs = dp_outputs d,
        tp_membership_proof = dp_membership_proof d, tp_non_membership_proof = dp_non_membership_proof d,
        tp_tree_depth = dp_tree_depth d, tp_smt_depth = dp_smt_depth d\<rparr>"
    have "typed_params ?p" using typed by (simp add: typed_params_def)
    then obtain slots outs enc0 enc1 digest where run: "transact_run env p3 p4 h ?p rng slots outs enc0 enc1 digest art rng'"
      using call runs unfolding deposit_def by blast
    show "\<exists>v0 v1. array_signal (ta_circuit_inputs art) ''inAmount'' = Some [0, 0]
            \<and> array_signal (ta_circuit_inputs art) ''outAmount'' = Some [v0, v1]
            \<and> int (v0 + v1) = signed_value (dp_amount d) \<and> v0 + v1 = outputs_value (dp_outputs d)
            \<and> ed_ext_amount (ta_ext_data art) = dp_amount d"
      using run_amounts [OF run assms(2)] run_prepared(8) [OF run assms(2)] by auto
  next
    assume typed: "typed_keys (wp_priv_key w) (wp_encryption_pubkey w) (unwrap_or (wp_outputs w) [])"
      and call: "withdraw env p3 p4 h w rng = Inr (art, rng')"
    let ?p = "\<lambda>outputs ext. \<lparr>tp_priv_key = wp_priv_key w, tp_encryption_pubkey = wp_encryption_pubkey w,
          tp_pool_root = wp_pool_root w, tp_ext_recipient = wp_withdraw_recipient w,
          tp_ext_amount = ext, tp_inputs = wp_inputs w, tp_outputs = outputs,
          tp_membership_proof = wp_membership_proof w, tp_non_membership_proof = wp_non_membership_proof w,
          tp_tree_depth = wp_tree_depth w, tp_smt_depth = wp_smt_depth w\<rparr>"
    obtain amount change outputs rng1 ext where amount: "note_try_from_ext (wp_withdraw_amount w) = Some amount"
      and outputs: "(case wp_outputs w of Some v \<Rightarrow> Inr (v, rng) | None \<Rightarrow> change_outputs env rng change) = Inr (outputs, rng1)"
      and ext: "ext_checked_neg (wp_withdraw_amount w) = Some ext"
      and go: "transact env p3 p4 h (?p outputs ext) rng1 = Inr (art, rng')"
      using call by (auto simp: withdraw_def result_simps)
    have default: "\<exists>x y. outputs = [x, y] \<and> to_amount y = NOTE_ZERO \<and> to_note_pubkey x = None \<and> to_enc_pubkey x = None
        \<and> to_note_pubkey y = None \<and> to_enc_pubkey y = None" if "wp_outputs w = None"
      using outputs that by (auto simp: change_outputs_def result_simps)
    have "typed_params (?p outputs ext)"
      using typed outputs default by (cases "wp_outputs w") (auto simp: typed_params_def typed_keys_def)
    then obtain slots outs enc0 enc1 digest
      where run: "transact_run env p3 p4 h (?p outputs ext) rng1 slots outs enc0 enc1 digest art rng'"
      using go runs by blast
    have "signed_value ext = - signed_value (wp_withdraw_amount w)" using ext by (rule ext_checked_neg_Some)
    moreover have "0 \<le> signed_value (wp_withdraw_amount w)" using amount by (simp add: note_try_from_ext_Some)
    moreover note run_amounts [OF run assms(2)] run_prepared(8) [OF run assms(2)]
    ultimately show "\<exists>a0 a1 v0 v1. array_signal (ta_circuit_inputs art) ''inAmount'' = Some [a0, a1]
            \<and> array_signal (ta_circuit_inputs art) ''outAmount'' = Some [v0, v1]
            \<and> a0 + a1 = inputs_value (wp_inputs w) \<and> 0 \<le> signed_value (wp_withdraw_amount w)
            \<and> int (a0 + a1) = int (v0 + v1) + signed_value (wp_withdraw_amount w)
            \<and> (wp_outputs w = None \<longrightarrow> v1 = 0)
            \<and> signed_value (ed_ext_amount (ta_ext_data art)) = - signed_value (wp_withdraw_amount w)
            \<and> ed_recipient (ta_ext_data art) = wp_withdraw_recipient w"
      using default by fastforce
  next
    assume typed: "typed_keys (xp_priv_key x) (xp_encryption_pubkey x) (xp_outputs x)"
      and call: "transfer env p3 p4 h x rng = Inr (art, rng')"
    let ?p = "\<lparr>tp_priv_key = xp_priv_key x, tp_encryption_pubkey = xp_encryption_pubkey x,
        tp_pool_root = xp_pool_root x, tp_ext_recipient = xp_pool_address x,
        tp_ext_amount = EXT_ZERO, tp_inputs = xp_inputs x, tp_outputs = xp_outputs x,
        tp_membership_proof = xp_membership_proof x, tp_non_membership_proof = xp_non_membership_proof x,
        tp_tree_depth = xp_tree_depth x, tp_smt_depth = xp_smt_depth x\<rparr>"
    have "typed_params ?p" using typed by (simp add: typed_params_def)
    then obtain slots outs enc0 enc1 digest where run: "transact_run env p3 p4 h ?p rng slots outs enc0 enc1 digest art rng'"
      using call runs unfolding transfer_def by blast
    show "\<exists>a0 a1 v0 v1. array_signal (ta_circuit_inputs art) ''inAmount'' = Some [a0, a1]
            \<and> array_signal (ta_circuit_inputs art) ''outAmount'' = Some [v0, v1]
            \<and> a0 + a1 = inputs_value (xp_inputs x) \<and> a0 + a1 = v0 + v1
            \<and> ed_ext_amount (ta_ext_data art) = EXT_ZERO"
      using run_amounts [OF run assms(2)] run_prepared(8) [OF run assms(2)] by auto
  }
qed

text \<open>Well-formed circuit inputs: apart from the digest, every string is the text of a reduced element.\<close>

definition circuit_text :: "string \<Rightarrow> bool" where
  "circuit_text v \<longleftrightarrow> (case read_hex v of Some s \<Rightarrow> s < prime \<and> v = circuit_hex s | None \<Rightarrow> False)"

definition well_formed_value :: "input_value \<Rightarrow> bool" where
  "well_formed_value v = (case v of Single x \<Rightarrow> circuit_text x | Array xs \<Rightarrow> list_all circuit_text xs)"

definition well_formed_inputs :: "circuit_inputs \<Rightarrow> bool" where
  "well_formed_inputs c \<longleftrightarrow> (\<forall>n v. c n = Some v \<longrightarrow> well_formed_value v)"

lemma circuit_text_hex: "s < prime \<Longrightarrow> circuit_text (circuit_hex s)"
  by (simp add: circuit_text_def)

lemma well_formed_set:
  "well_formed_inputs new_inputs"
  "well_formed_inputs c \<Longrightarrow> s < prime \<Longrightarrow> well_formed_inputs (set_single n (circuit_hex s) c)"
  "well_formed_inputs c \<Longrightarrow> list_all circuit_text vs \<Longrightarrow> well_formed_inputs (set_array n vs c)"
  by (auto simp: well_formed_inputs_def new_inputs_def set_single_def set_array_def well_formed_value_def circuit_text_hex)

lemma field_texts: "list_all circuit_text (map (\<lambda>f. circuit_hex (field_to_scalar f)) fs)"
  by (induction fs) (simp_all add: circuit_text_hex field_to_scalar_less)

lemma well_formed_asp_slot:
  "wire_asp_slot mp np slot c = Inr c' \<Longrightarrow> well_formed_inputs c \<Longrightarrow> well_formed_inputs c'"
  by (auto simp: wire_asp_slot_def wire_membership_def wire_non_membership_def set_field_eqs Let_def
      field_texts field_to_scalar_less intro!: well_formed_set)

lemma well_formed_base:
  assumes pf: "panic_free 4 p4"
  shows "well_formed_inputs (base_wires p public (input_wires p3 p4 p slots) (output_wires p3 p4 p outs encs))"
proof -
  have amounts: "value_of a < prime" for a
    using value_of_less [of a] pow_128_less by (rule less_trans)
  have hashes: "input_nullifier p4 sk pk x < prime" "slot_commitment p3 p4 p y < prime" for sk pk x y
    using note_hash_value(2) [OF pf]
    by (simp_all add: input_nullifier_def slot_commitment_def output_commitment_def Let_def)
  have bytes: "bytes_scalar bs < prime" for bs using prime_pos by simp
  show ?thesis
    by (auto simp: base_wires_def wire_notes_def input_wires_def output_wires_def Let_def list_all_iff
        field_to_scalar_less amounts hashes bytes intro!: well_formed_set circuit_text_hex)
qed

lemma run_input_texts:
  assumes "transact_run env p3 p4 h p rng slots outs enc0 enc1 digest art rng'" and "panic_free 4 p4"
  shows "\<exists>c. well_formed_inputs c \<and> ta_circuit_inputs art = set_single ''extDataHash'' (be32_to_0x_hex digest) c"
proof -
  obtain c where c: "fold_result (wire_asp_slot (tp_membership_proof p) (tp_non_membership_proof p)) [0..<N_INPUTS]
      (base_wires p (pt_public_amount (ta_prepared art)) (input_wires p3 p4 p slots) (output_wires p3 p4 p outs [enc0, enc1]))
        = Inr c" and art: "ta_circuit_inputs art = set_single ''extDataHash'' (be32_to_0x_hex digest) c"
    using assms(1) unfolding transact_run_def by auto
  have "well_formed_inputs c"
    by (rule fold_result_invariant [where P = well_formed_inputs, OF c well_formed_base [OF assms(2)]])
      (blast intro: well_formed_asp_slot)
  with art show ?thesis by blast
qed

text \<open>
  The results of \<open>transact\<close> are well formed. Two nullifiers and two commitments, all canonical field
  elements, as is the public amount; two ciphertexts of 120 bytes; a digest of 32 bytes; and circuit inputs in
  which every string except the digest is the 66-character text of a reduced element, so that the witness
  calculator reads each of them back exactly.
\<close>

theorem transact_results_well_formed:
  assumes "panic_free 3 p3" "panic_free 4 p4" and "typed_params p" and "digests h" and "sound_crypto env"
    and "transact env p3 p4 h p rng = Inr (art, rng')"
  shows "length (pt_input_nullifiers (ta_prepared art)) = 2 \<and> length (pt_output_commitments (ta_prepared art)) = 2
    \<and> list_all (\<lambda>f. canonical (field_value f)) (pt_input_nullifiers (ta_prepared art))
    \<and> list_all (\<lambda>f. canonical (field_value f)) (pt_output_commitments (ta_prepared art))
    \<and> canonical (field_value (pt_public_amount (ta_prepared art)))
    \<and> length (ed_encrypted_output0 (ta_ext_data art)) = 120 \<and> length (ed_encrypted_output1 (ta_ext_data art)) = 120
    \<and> length (pt_ext_data_hash_be (ta_prepared art)) = 32
    \<and> well_formed_inputs ((ta_circuit_inputs art)(''extDataHash'' := None))"
proof -
  obtain slots outs enc0 enc1 digest where run: "transact_run env p3 p4 h p rng slots outs enc0 enc1 digest art rng'"
    using assms(6) unfolding transact_iff [OF assms(1-3)] by blast
  have hashes: "input_nullifier p4 sk pk x < prime" "slot_commitment p3 p4 p y < prime" for sk pk x y
    using note_hash_value(2) [OF assms(2)]
    by (simp_all add: input_nullifier_def slot_commitment_def output_commitment_def Let_def)
  have lens: "length slots = 2" "length outs = 2"
    using run_lengths [OF run] by (metis length_Cons list.size(3) numeral_2_eq_2)+
  have "well_formed_inputs ((ta_circuit_inputs art)(''extDataHash'' := None))"
    using run_input_texts [OF run assms(2)] by (auto simp: set_single_def well_formed_inputs_def)
  moreover have "length enc0 = 120" "length enc1 = 120"
    using run encrypted_note(1) [OF assms(5)] unfolding transact_run_def by blast+
  moreover have "length digest = 32"
    using assms(4) run_prepared(6) [OF run assms(2)] unfolding digests_def by blast
  ultimately show ?thesis
    using lens run_public(1) [OF run]
    by (simp add: run_prepared(4,5,7,8) [OF run assms(2)] list_all_iff scalar_field(3) hashes)
qed

section \<open>Samples\<close>

text \<open>A cryptography that satisfies the laws, and a permutation of external layers only.\<close>

definition sample_crypto :: crypto_env where
  "sample_crypto = \<lparr>getrandom = (\<lambda>n len. Some (replicate len (n mod 256))), x25519_public = (\<lambda>s. s),
     diffie_hellman = (\<lambda>a b. map2 (+) a b), secret_to_bytes = (\<lambda>s. s),
     seal_box = (\<lambda>k n m. Some (m @ replicate 16 0)), open_box = (\<lambda>k n c. Some (take (length c - 16) c)),
     sha256 = (\<lambda>m. replicate 32 0)\<rparr>"

lemma sample_crypto: "sound_crypto sample_crypto" "responsive sample_crypto"
proof -
  have "map2 (+) a b = map2 (+) b a" for a b :: "nat list"
    by (rule nth_equalityI) simp_all
  then show "sound_crypto sample_crypto" by (simp add: sound_crypto_def sample_crypto_def)
qed (simp add: responsive_def sample_crypto_def)

lemma panic_free_bare: "t = 2 \<or> t = 3 \<or> t = 4 \<Longrightarrow> panic_free t (bare_params t)"
  using matmul_external_small [of t]
  by (fastforce simp: panic_free_def permutation_def bare_params_def)

definition sample_digest :: "app_ext_data \<Rightarrow> nat list option" where
  "sample_digest e = Some (replicate 32 (length (ed_recipient e) mod 256))"

lemma sample_digest: "digests sample_digest"
  by (simp add: digests_def sample_digest_def is_bytes_def)

lemma sample_digest_total: "sample_digest e \<noteq> None" for e
  by (simp add: sample_digest_def)

definition sample_output :: "nat \<Rightarrow> transact_output" where
  "sample_output n = \<lparr>to_amount = NoteAmount (word_of_nat n), to_blinding = Field 9, to_note_pubkey = None, to_enc_pubkey = None\<rparr>"

definition sample_params :: transact_params where
  "sample_params = \<lparr>tp_priv_key = replicate 32 1, tp_encryption_pubkey = replicate 32 2, tp_pool_root = Field 3,
     tp_ext_recipient = ''POOL'', tp_ext_amount = ExtAmount 12, tp_inputs = [],
     tp_outputs = [sample_output 5, sample_output 7],
     tp_membership_proof = \<lparr>mp_leaf = Field 0, mp_blinding = Field 0, mp_path_elements = [Field 0],
       mp_path_indices = Field 0, mp_root = Field 4\<rparr>,
     tp_non_membership_proof = \<lparr>np_key = Field 0, np_old_key = Field 0, np_old_value = Field 0, np_is_old0 = True,
       np_siblings = [Field 0], np_root = Field 5\<rparr>,
     tp_tree_depth = 1, tp_smt_depth = 1\<rparr>"

lemma sample_params_ok: "typed_params sample_params" "accepted_params sample_params"
  by (simp_all add: sample_params_def sample_output_def typed_params_def typed_keys_def accepted_params_def shaped_params_def
      balanced_params_def value_of_def signed_value_def is_bytes_def fits_def USIZE_BITS_def)

text \<open>A hash that cannot read the recipient, and one that can.\<close>

theorem transact_outcomes_witness:
  "transact sample_crypto (bare_params 3) (bare_params 4) (\<lambda>_. None) sample_params 0 = Inl (Err HashFailed)
   \<and> (\<exists>art rng'. transact sample_crypto (bare_params 3) (bare_params 4) sample_digest sample_params 0 = Inr (art, rng'))"
proof -
  let ?t = "\<lambda>h. transact sample_crypto (bare_params 3) (bare_params 4) h sample_params 0"
  have "panic_free 3 (bare_params 3)" "panic_free 4 (bare_params 4)" by (simp_all add: panic_free_bare)
  note out = transact_outcomes [OF this sample_params_ok(1) sample_crypto(2), where rng = 0]
  have "?t (\<lambda>_. None) = Inl (Err HashFailed)"
    using out [of "\<lambda>_. None"] sample_params_ok(2)
    by (cases "?t (\<lambda>_. None)") (auto split: fault.splits prod.splits if_splits)
  moreover have "\<exists>r. ?t sample_digest = Inr r"
    using out [of sample_digest] sample_params_ok(2)
    by (cases "?t sample_digest") (auto simp: sample_digest_def split: fault.splits prod.splits if_splits)
  ultimately show ?thesis by auto
qed

lemma sample_transaction:
  "\<exists>art rng'. transact sample_crypto (bare_params 3) (bare_params 4) sample_digest sample_params 0 = Inr (art, rng')"
  using run_exists [where h = sample_digest and ?p3.0 = "bare_params 3" and ?p4.0 = "bare_params 4" and rng = 0,
      OF sample_crypto(2) sample_digest_total sample_params_ok]
  by (simp add: transact_iff panic_free_bare sample_params_ok) blast

theorem transact_satisfies_circuit_witness:
  "\<exists>art rng'. transact sample_crypto (bare_params 3) (bare_params 4) sample_digest sample_params 0 = Inr (art, rng')
     \<and> transaction_circuit (bare_params 3) (bare_params 4) 1 (ta_circuit_inputs art)
     \<and> single_signal (ta_circuit_inputs art) ''root'' = Some (field_to_scalar (pt_pool_root (ta_prepared art)))"
proof -
  obtain art rng' where art: "transact sample_crypto (bare_params 3) (bare_params 4) sample_digest sample_params 0 = Inr (art, rng')"
    using sample_transaction by blast
  have "panic_free 3 (bare_params 3)" "panic_free 4 (bare_params 4)" by (simp_all add: panic_free_bare)
  from transact_satisfies_circuit [OF this sample_params_ok(1) sample_digest art] art show ?thesis
    by (auto simp: sample_params_def)
qed

theorem created_note_is_found_witness:
  "\<exists>art rng' kp note. transact sample_crypto (bare_params 3) (bare_params 4) sample_digest sample_params 0 = Inr (art, rng')
     \<and> try_decrypt_and_derive_user_note sample_crypto (bare_params 4) kp (replicate 32 2)
         (pt_output_commitments (ta_prepared art) ! 1) 6 (ed_encrypted_output1 (ta_ext_data art)) = Inr (Some note)
     \<and> dn_amount note = NoteAmount 7"
proof -
  obtain art rng' where art: "transact sample_crypto (bare_params 3) (bare_params 4) sample_digest sample_params 0 = Inr (art, rng')"
    using sample_transaction by blast
  let ?kp = "\<lparr>nk_private = replicate 32 1, nk_public = sender_key (bare_params 3) sample_params\<rparr>"
  have pf: "panic_free 3 (bare_params 3)" "panic_free 4 (bare_params 4)" by (simp_all add: panic_free_bare)
  have "derive_public_key (bare_params 3) (nk_private ?kp) = Inr (nk_public ?kp)"
    by (simp add: derive_public_key_eq [OF pf(1)] sender_key_def sample_params_def)
  then have "\<exists>nul. try_decrypt_and_derive_user_note sample_crypto (bare_params 4) ?kp (replicate 32 2)
      (pt_output_commitments (ta_prepared art) ! 1) 6
      (if 1 = (0 :: nat) then ed_encrypted_output0 (ta_ext_data art) else ed_encrypted_output1 (ta_ext_data art))
     = Inr (Some \<lparr>dn_amount = to_amount (sample_output 7), dn_blinding = to_blinding (sample_output 7), dn_expected_nullifier = nul\<rparr>)"
    using created_note_is_found [OF pf sample_crypto(1) sample_params_ok(1) art, of 1 "sample_output 7" ?kp "replicate 32 2" 6]
    by (simp add: sample_params_def sample_output_def value_of_def recipient_key_def encryption_key_def sample_crypto_def) blast
  then show ?thesis using art by (force simp: sample_output_def)
qed

theorem transact_results_well_formed_witness:
  "\<exists>art rng'. transact sample_crypto (bare_params 3) (bare_params 4) sample_digest sample_params 0 = Inr (art, rng')
     \<and> length (ed_encrypted_output1 (ta_ext_data art)) = 120
     \<and> well_formed_inputs ((ta_circuit_inputs art)(''extDataHash'' := None))"
proof -
  obtain art rng' where art: "transact sample_crypto (bare_params 3) (bare_params 4) sample_digest sample_params 0 = Inr (art, rng')"
    using sample_transaction by blast
  have "panic_free 3 (bare_params 3)" "panic_free 4 (bare_params 4)" by (simp_all add: panic_free_bare)
  from transact_results_well_formed [OF this sample_params_ok(1) sample_digest sample_crypto(1) art] art
  show ?thesis by blast
qed

theorem found_notes_are_owned_witness:
  "\<exists>kp commitment enc note.
     try_decrypt_and_derive_user_note sample_crypto (bare_params 4) kp (replicate 32 2) commitment 6 enc = Inr (Some note)
     \<and> field_to_scalar commitment = note_hash (bare_params 4) 1 (value_of (dn_amount note)) (bytes_scalar (nk_public kp))
         (field_to_scalar (dn_blinding note))
     \<and> dn_amount note = NoteAmount 7"
proof -
  let ?kp = "\<lparr>nk_private = replicate 32 1, nk_public = replicate 32 3\<rparr>"
  have pf: "panic_free 4 (bare_params 4)" by (simp add: panic_free_bare)
  obtain enc r where enc: "encrypt_output_note sample_crypto 0 (replicate 32 2) (NoteAmount 7) (Field 9) = Inr (enc, r)"
    using encrypt_total [OF sample_crypto(2)] by (metis length_replicate)
  have dec: "decrypt_output_note sample_crypto (replicate 32 2) enc = Inr (Some (NoteAmount 7, Field 9))"
    by (rule encrypted_note(2) [OF sample_crypto(1) enc]) (simp_all add: sample_crypto_def)
  let ?cm = "note_hash (bare_params 4) 1 (value_of (NoteAmount 7)) (bytes_scalar (nk_public ?kp)) (field_to_scalar (Field 9))"
  obtain un where un: "try_decrypt_and_derive_user_note sample_crypto (bare_params 4) ?kp (replicate 32 2)
      (scalar_field ?cm) 6 enc = Inr (Some un)" "dn_amount un = NoteAmount 7"
    using derive_note [OF pf _ _ _ dec, of ?kp 6 "scalar_field ?cm"] scalar_field(4) [OF note_hash_value(2) [OF pf]]
    by (simp add: Let_def value_of_def)
  have "length (nk_public ?kp) = 32" "length (nk_private ?kp) = 32" "(6 :: nat) < 2 ^ 32" by simp_all
  from found_notes_are_owned [OF pf this un(1)] un show ?thesis by blast
qed

definition sample_deposit :: deposit_params where
  "sample_deposit = \<lparr>dp_priv_key = tp_priv_key sample_params, dp_encryption_pubkey = tp_encryption_pubkey sample_params,
     dp_pool_root = tp_pool_root sample_params, dp_pool_address = tp_ext_recipient sample_params,
     dp_amount = tp_ext_amount sample_params, dp_outputs = tp_outputs sample_params,
     dp_membership_proof = tp_membership_proof sample_params,
     dp_non_membership_proof = tp_non_membership_proof sample_params,
     dp_tree_depth = tp_tree_depth sample_params, dp_smt_depth = tp_smt_depth sample_params\<rparr>"

theorem flows_conserve_value_witness:
  "\<exists>art rng' v0 v1. deposit sample_crypto (bare_params 3) (bare_params 4) sample_digest sample_deposit 0 = Inr (art, rng')
     \<and> array_signal (ta_circuit_inputs art) ''inAmount'' = Some [0, 0]
     \<and> array_signal (ta_circuit_inputs art) ''outAmount'' = Some [v0, v1] \<and> v0 + v1 = 12"
proof -
  have "deposit sample_crypto (bare_params 3) (bare_params 4) sample_digest sample_deposit 0
      = transact sample_crypto (bare_params 3) (bare_params 4) sample_digest sample_params 0"
    by (simp add: deposit_def sample_deposit_def sample_params_def)
  then obtain art rng' where art: "deposit sample_crypto (bare_params 3) (bare_params 4) sample_digest sample_deposit 0 = Inr (art, rng')"
    using sample_transaction by metis
  have pf: "panic_free 3 (bare_params 3)" "panic_free 4 (bare_params 4)" by (simp_all add: panic_free_bare)
  have "typed_keys (dp_priv_key sample_deposit) (dp_encryption_pubkey sample_deposit) (dp_outputs sample_deposit)"
    using sample_params_ok(1) by (simp add: typed_params_def sample_deposit_def)
  moreover have "outputs_value (dp_outputs sample_deposit) = 12"
    by (simp add: sample_deposit_def sample_params_def sample_output_def value_of_def)
  ultimately show ?thesis
    using flows_conserve_value [OF pf, THEN conjunct1, rule_format, OF _ art] art by metis
qed

end
