(* ===== verification/ProofInputs.thy ===== *)
theory ProofInputs
  imports FlowFacts
begin

text \<open>
  The inputs of the other two circuits: selective disclosure of one note and the payroll batch
  (\<open>selective_disclosure_1\<close> and \<open>payroll_proof\<close> of
  \<open>app/crates/core/prover/src/flows.rs\<close>).
\<close>

section \<open>Selective disclosure\<close>

lemma array_of_fields:
  "array_signal (set_array n (map (\<lambda>f. circuit_hex (field_to_scalar f)) fs) c) n = Some (map field_to_scalar fs)"
proof -
  have "those (map (read_hex \<circ> (\<lambda>f. circuit_hex (field_to_scalar f))) fs) = Some (map field_to_scalar fs)"
    by (induction fs) (simp_all add: field_to_scalar_less)
  then show ?thesis by (simp add: array_signal_def set_array_def)
qed

lemma signal_frame:
  "m \<noteq> n \<Longrightarrow> array_signal (set_array n vs c) m = array_signal c m"
  "m \<noteq> n \<Longrightarrow> array_signal (set_single n v c) m = array_signal c m"
  "m \<noteq> n \<Longrightarrow> single_signal (set_array n vs c) m = single_signal c m"
  "m \<noteq> n \<Longrightarrow> single_signal (set_single n v c) m = single_signal c m"
  by (simp_all add: array_signal_def single_signal_def set_array_def set_single_def)

lemma signal_set:
  "s < prime \<Longrightarrow> single_signal (set_single n (circuit_hex s) c) n = Some s"
  "s < prime \<Longrightarrow> array_signal (set_array n [circuit_hex s] c) n = Some [s]"
  by (simp_all add: array_signal_def single_signal_def set_array_def set_single_def)

lemma selective_disclosure_signals:
  assumes "length (sd_note_private_key p) = 32"
  shows "\<exists>a. selective_disclosure_1 p = Inr a \<and> da_ext_context_hash a = sd_ext_context_hash p
    \<and> array_signal (da_circuit_inputs a) ''roots'' = Some [field_to_scalar (sd_root p)]
    \<and> array_signal (da_circuit_inputs a) ''noteCommitments'' = Some [field_to_scalar (sd_note_commitment p)]
    \<and> single_signal (da_circuit_inputs a) ''extContextHash'' = Some (field_to_scalar (sd_ext_context_hash p))
    \<and> array_signal (da_circuit_inputs a) ''inAmount'' = Some [value_of (sd_note_amount p)]
    \<and> array_signal (da_circuit_inputs a) ''inPrivateKey'' = Some [bytes_scalar (sd_note_private_key p)]
    \<and> array_signal (da_circuit_inputs a) ''inBlinding'' = Some [field_to_scalar (sd_note_blinding p)]
    \<and> array_signal (da_circuit_inputs a) ''inPathIndices'' = Some [field_to_scalar (sd_path_indices p)]
    \<and> array_signal (da_circuit_inputs a) ''inPathElements'' = Some (map field_to_scalar (sd_path_elements p))"
proof -
  have less: "value_of (sd_note_amount p) < prime" "bytes_scalar bs < prime" for bs
    using value_of_less [of "sd_note_amount p"] pow_128_less prime_pos by (auto intro: less_trans)
  have set: "set_array_fields n fs c = Inr (set_array n (map (\<lambda>f. circuit_hex (field_to_scalar f)) fs) c)" for n fs c
    by (simp add: set_array_fields_def)
  show ?thesis
    using assms less
    by (simp add: selective_disclosure_1_def set set_single_field_def field_bytes_to_hex_eq Let_def
        array_of_fields signal_frame signal_set note_amount_to_field_def note_field_scalar field_to_scalar_less)
qed

section \<open>Payroll batch\<close>

definition payroll_shaped :: "payroll_params \<Rightarrow> bool" where
  "payroll_shaped p \<longleftrightarrow> length (pp_salary_amounts p) = length (pp_employee_ids p)
     \<and> length (pp_salts p) = length (pp_employee_ids p)
     \<and> length (pp_path_elements p) = length (pp_employee_ids p)
     \<and> length (pp_path_indices p) = length (pp_employee_ids p)
     \<and> (\<forall>pe \<in> set (pp_path_elements p). length pe = length (hd (pp_path_elements p)))"

lemma check_payroll_shape_Inr: "check_payroll_shape p = Inr u \<longleftrightarrow> payroll_shaped p"
proof -
  have "fold_result (\<lambda>(i, pe) _. ensure (length pe = levels) (PayrollPathLength i (length pe) levels))
      (List.enumerate n pes) () = Inr u \<longleftrightarrow> (\<forall>pe \<in> set pes. length pe = levels)" for n pes levels
    by (induction pes arbitrary: n) (auto simp: result_simps)
  then show ?thesis
    by (auto simp: check_payroll_shape_def payroll_shaped_def result_simps Let_def split: list.splits)
qed

lemma check_payroll_shape_errors: "check_payroll_shape p \<noteq> Inl Trap"
proof -
  have "fold_result (\<lambda>(i, pe) _. ensure (length pe = levels) (PayrollPathLength i (length pe) levels))
      (List.enumerate n pes) () \<noteq> Inl Trap" for n pes levels
    by (induction pes arbitrary: n) (auto simp: result_simps)
  then show ?thesis by (auto simp: check_payroll_shape_def result_simps Let_def)
qed

abbreviation hexes :: "field_element list \<Rightarrow> string list" where
  "hexes fs \<equiv> map (\<lambda>f. circuit_hex (field_to_scalar f)) fs"

abbreviation index_fields :: "payroll_params \<Rightarrow> field_element list" where
  "index_fields p \<equiv> map (\<lambda>i. Field (word_of_nat i)) (pp_path_indices p)"

lemma payroll_steps:
  assumes "payroll_shaped p" and "k \<le> length (pp_employee_ids p)"
  shows "fold_result (payroll_step p) [0..<k]
      \<lparr>ps_employee_ids_hex = [], ps_salary_amounts_hex = [], ps_salts_hex = [],
       ps_path_indices_hex = [], ps_path_elements_hex = []\<rparr>
    = Inr \<lparr>ps_employee_ids_hex = hexes (take k (pp_employee_ids p)),
           ps_salary_amounts_hex = hexes (take k (pp_salary_amounts p)), ps_salts_hex = hexes (take k (pp_salts p)),
           ps_path_indices_hex = hexes (take k (index_fields p)),
           ps_path_elements_hex = hexes (concat (take k (pp_path_elements p)))\<rparr>"
  using assms(2)
proof (induction k)
  case (Suc k)
  have "k < length (pp_employee_ids p)" "k < length (pp_salary_amounts p)" "k < length (pp_salts p)"
    "k < length (pp_path_elements p)" "k < length (pp_path_indices p)"
    using Suc.prems assms(1) by (simp_all add: payroll_shaped_def)
  then show ?case
    using Suc by (simp add: fold_result_append payroll_step_def take_Suc_conv_app_nth)
qed simp

text \<open>
  The payroll circuit gets the batch as given. \<open>payroll_proof\<close> succeeds exactly when the lists have one
  entry per employee and all paths have the length of the first (an empty batch included); the signals
  then decode to the identifiers, salaries, salts, path bits and the paths one after the other, next to
  root, total and period, which are also the returned public inputs; otherwise it is an error. It never
  panics, and \<open>actual_employee_count\<close> has no influence.
\<close>

theorem payroll_inputs_as_given:
  assumes "\<forall>i \<in> set (pp_path_indices p). i < 2 ^ 32"
  shows "(case payroll_proof p of
      Inr a \<Rightarrow> payroll_shaped p
        \<and> pa_public_inputs a = [pp_employee_root p, pp_total_payroll_amount p, pp_payroll_period_id p]
        \<and> single_signal (pa_circuit_inputs a) ''employeeRoot'' = Some (field_to_scalar (pp_employee_root p))
        \<and> single_signal (pa_circuit_inputs a) ''totalPayrollAmount'' = Some (field_to_scalar (pp_total_payroll_amount p))
        \<and> single_signal (pa_circuit_inputs a) ''payrollPeriodId'' = Some (field_to_scalar (pp_payroll_period_id p))
        \<and> array_signal (pa_circuit_inputs a) ''employeeId'' = Some (map field_to_scalar (pp_employee_ids p))
        \<and> array_signal (pa_circuit_inputs a) ''salaryAmount'' = Some (map field_to_scalar (pp_salary_amounts p))
        \<and> array_signal (pa_circuit_inputs a) ''salt'' = Some (map field_to_scalar (pp_salts p))
        \<and> array_signal (pa_circuit_inputs a) ''pathIndices'' = Some (pp_path_indices p)
        \<and> array_signal (pa_circuit_inputs a) ''pathElements'' = Some (map field_to_scalar (concat (pp_path_elements p)))
    | Inl (Err _) \<Rightarrow> \<not> payroll_shaped p
    | Inl Trap \<Rightarrow> False)
    \<and> payroll_proof (p\<lparr>pp_actual_employee_count := n\<rparr>) = payroll_proof p"
proof (intro conjI)
  have idx: "map field_to_scalar (index_fields p) = pp_path_indices p"
  proof (rule nth_equalityI)
    fix i assume "i < length (map field_to_scalar (index_fields p))"
    moreover from this have "pp_path_indices p ! i < 2 ^ 32" using assms by simp
    then have "pp_path_indices p ! i < prime" by (rule less_trans) (simp add: prime_def)
    ultimately show "map field_to_scalar (index_fields p) ! i = pp_path_indices p ! i"
      using scalar_field(2) by (simp add: scalar_field_def)
  qed simp
  show "case payroll_proof p of
      Inr a \<Rightarrow> payroll_shaped p
        \<and> pa_public_inputs a = [pp_employee_root p, pp_total_payroll_amount p, pp_payroll_period_id p]
        \<and> single_signal (pa_circuit_inputs a) ''employeeRoot'' = Some (field_to_scalar (pp_employee_root p))
        \<and> single_signal (pa_circuit_inputs a) ''totalPayrollAmount'' = Some (field_to_scalar (pp_total_payroll_amount p))
        \<and> single_signal (pa_circuit_inputs a) ''payrollPeriodId'' = Some (field_to_scalar (pp_payroll_period_id p))
        \<and> array_signal (pa_circuit_inputs a) ''employeeId'' = Some (map field_to_scalar (pp_employee_ids p))
        \<and> array_signal (pa_circuit_inputs a) ''salaryAmount'' = Some (map field_to_scalar (pp_salary_amounts p))
        \<and> array_signal (pa_circuit_inputs a) ''salt'' = Some (map field_to_scalar (pp_salts p))
        \<and> array_signal (pa_circuit_inputs a) ''pathIndices'' = Some (pp_path_indices p)
        \<and> array_signal (pa_circuit_inputs a) ''pathElements'' = Some (map field_to_scalar (concat (pp_path_elements p)))
    | Inl (Err _) \<Rightarrow> \<not> payroll_shaped p
    | Inl Trap \<Rightarrow> False"
  proof (cases "payroll_shaped p")
    case True
    then have ok: "check_payroll_shape p = Inr ()" by (simp add: check_payroll_shape_Inr)
    have lens: "length (pp_salary_amounts p) = length (pp_employee_ids p)" "length (pp_salts p) = length (pp_employee_ids p)"
      "length (pp_path_elements p) = length (pp_employee_ids p)" "length (pp_path_indices p) = length (pp_employee_ids p)"
      using True by (simp_all add: payroll_shaped_def)
    show ?thesis
      using payroll_steps [OF True order_refl] lens True idx
      by (simp add: payroll_proof_def ok set_single_field_def signal_frame signal_set array_of_fields
          field_to_scalar_less del: map_map)
  next
    case False
    then have "\<nexists>u. check_payroll_shape p = Inr u" by (simp add: check_payroll_shape_Inr)
    then obtain e where e: "check_payroll_shape p = Inl e" by (cases "check_payroll_shape p") auto
    then have "e \<noteq> Trap" using check_payroll_shape_errors by auto
    with e False show ?thesis by (cases e) (simp_all add: payroll_proof_def)
  qed
  have "payroll_step (p\<lparr>pp_actual_employee_count := n\<rparr>) = payroll_step p"
    by (intro ext) (simp add: payroll_step_def)
  then show "payroll_proof (p\<lparr>pp_actual_employee_count := n\<rparr>) = payroll_proof p"
    by (simp add: payroll_proof_def check_payroll_shape_def)
qed

definition sample_batch :: payroll_params where
  "sample_batch = \<lparr>pp_employee_root = Field 1, pp_total_payroll_amount = Field 30, pp_payroll_period_id = Field 2,
     pp_actual_employee_count = 5, pp_employee_ids = [Field 7, Field 8], pp_salary_amounts = [Field 10, Field 20],
     pp_salts = [Field 3, Field 4], pp_path_elements = [[Field 5], [Field 6]], pp_path_indices = [0, 1]\<rparr>"

theorem payroll_inputs_as_given_witness:
  "\<exists>a. payroll_proof sample_batch = Inr a \<and> array_signal (pa_circuit_inputs a) ''pathIndices'' = Some [0, 1]
     \<and> payroll_proof (sample_batch\<lparr>pp_actual_employee_count := 2\<rparr>) = Inr a"
proof -
  have "\<forall>i \<in> set (pp_path_indices sample_batch). i < 2 ^ 32" by (simp add: sample_batch_def)
  note outcome = payroll_inputs_as_given [OF this, of 2]
  have "payroll_shaped sample_batch" by (simp add: payroll_shaped_def sample_batch_def)
  with outcome obtain a where "payroll_proof sample_batch = Inr a"
    "array_signal (pa_circuit_inputs a) ''pathIndices'' = Some (pp_path_indices sample_batch)"
    by (cases "payroll_proof sample_batch") (auto split: fault.splits)
  with outcome show ?thesis by (simp add: sample_batch_def)
qed

end
