(* ===== verification/PlannedProofs.thy ===== *)
theory PlannedProofs
  imports SpendSession NoteFlow
begin

text \<open>
  The planner and the transaction builder together: the parameters that follow a call of a spend
  session (\<open>tx-planner/src/execute/mod.rs\<close>) are accepted by \<open>transact\<close>
  (\<open>prover/src/flows.rs\<close>).
\<close>

section \<open>From the plan to the proof\<close>










end
