(* ===== verification/BootnodeStore.thy ===== *)
theory BootnodeStore
  imports Prelude "HOL-Library.Multiset" "HOL-Library.Char_ord" "HOL-Library.List_Lexorder"
begin

text \<open>
  The messages and the page store of the bootnode (\<open>tools/bootnode/src/messages.rs\<close>,
  \<open>storage/mod.rs\<close>, \<open>storage/in_memory.rs\<close>).

  A store is used through a trait object, so it is a record of functions, the fields of \<open>storage\<close>.
  An operation runs on the store's state and returns an error text or a value; the state it leaves
  counts in both cases, because a failed operation does not undo what came before it. The locale
  \<open>event_storage\<close> is the contract of the trait: the reads and effects of the in-memory
  store, except that an operation may fail, with its effect or without. Ledger numbers are natural
  numbers; the operations on them that saturate write the width out.
\<close>

named_theorems io_simps \<open>runs of operations that may fail\<close>

section \<open>Operations that may fail\<close>

type_synonym ('s, 'e, 'a) run = "'s \<Rightarrow> ('e + 'a) \<times> 's"
type_synonym ('s, 'a) io = "('s, string, 'a) run"

definition return_io :: "'a \<Rightarrow> ('s, 'e, 'a) run" where
  "return_io x s = (Inr x, s)"

definition fail_io :: "'e \<Rightarrow> ('s, 'e, 'a) run" where
  "fail_io e s = (Inl e, s)"

definition bind_io :: "('s, 'e, 'a) run \<Rightarrow> ('a \<Rightarrow> ('s, 'e, 'b) run) \<Rightarrow> ('s, 'e, 'b) run" where
  "bind_io m f s = (case m s of (Inl e, t) \<Rightarrow> (Inl e, t) | (Inr x, t) \<Rightarrow> f x t)"

definition map_err_io :: "('e \<Rightarrow> 'f) \<Rightarrow> ('s, 'e, 'a) run \<Rightarrow> ('s, 'f, 'a) run" where
  "map_err_io g m s = (case m s of (Inl e, t) \<Rightarrow> (Inl (g e), t) | (Inr x, t) \<Rightarrow> (Inr x, t))"

lemma return_io_apply [io_simps]: "return_io x s = (Inr x, s)"
  by (simp add: return_io_def)

lemma fail_io_apply [io_simps]: "fail_io e s = (Inl e, s)"
  by (simp add: fail_io_def)

lemma bind_io_Inl [io_simps]: "m s = (Inl e, t) \<Longrightarrow> bind_io m f s = (Inl e, t)"
  by (simp add: bind_io_def)

lemma bind_io_Inr [io_simps]: "m s = (Inr x, t) \<Longrightarrow> bind_io m f s = f x t"
  by (simp add: bind_io_def)

lemma map_err_io_Inr [io_simps]: "m s = (Inr x, t) \<Longrightarrow> map_err_io g m s = (Inr x, t)"
  by (simp add: map_err_io_def)

lemma bind_io_Inr_D:
  assumes "bind_io m f s = (Inr y, u)"
  obtains x t where "m s = (Inr x, t)" and "f x t = (Inr y, u)"
  using assms by (auto simp: bind_io_def split: prod.splits sum.splits)

lemma map_err_io_Inr_D: "map_err_io g m s = (Inr y, u) \<Longrightarrow> m s = (Inr y, u)"
  by (auto simp: map_err_io_def split: prod.splits sum.splits)

text \<open>
  \<open>keeps I P m Q\<close>: from a state with \<open>P\<close> the operation keeps the invariant \<open>I\<close>, whether it fails
  or not, and when it returns a value, \<open>Q\<close> holds of the value and the new state.
\<close>

definition keeps ::
  "('s \<Rightarrow> bool) \<Rightarrow> ('s \<Rightarrow> bool) \<Rightarrow> ('s, 'e, 'a) run \<Rightarrow> ('a \<Rightarrow> 's \<Rightarrow> bool) \<Rightarrow> bool" where
  "keeps I P m Q \<longleftrightarrow> (\<forall>s. I s \<longrightarrow> P s \<longrightarrow>
     I (snd (m s)) \<and> (\<forall>x. fst (m s) = Inr x \<longrightarrow> Q x (snd (m s))))"

lemma keeps_return: "(\<And>s. P s \<Longrightarrow> Q x s) \<Longrightarrow> keeps I P (return_io x) Q"
  by (simp add: keeps_def return_io_def)

lemma keeps_fail: "keeps I P (fail_io e) Q"
  by (simp add: keeps_def fail_io_def)

lemma keeps_bind:
  assumes "keeps I P m R" and "\<And>x. keeps I (R x) (f x) Q"
  shows "keeps I P (bind_io m f) Q"
  unfolding keeps_def
proof (intro allI impI)
  fix s assume "I s" "P s"
  obtain r t where m: "m s = (r, t)" by (cases "m s")
  with assms(1) \<open>I s\<close> \<open>P s\<close> have "I t" "\<And>x. r = Inr x \<Longrightarrow> R x t"
    unfolding keeps_def by (metis fst_conv snd_conv)+
  then show "I (snd (bind_io m f s)) \<and> (\<forall>x. fst (bind_io m f s) = Inr x \<longrightarrow> Q x (snd (bind_io m f s)))"
    using assms(2) by (cases r) (simp_all add: bind_io_def m keeps_def)
qed

lemma keeps_map_err: "keeps I P m Q \<Longrightarrow> keeps I P (map_err_io g m) Q"
  by (fastforce simp: keeps_def map_err_io_def split: prod.splits sum.splits)

lemma keeps_weaken:
  "keeps I P m Q \<Longrightarrow> (\<And>s. P' s \<Longrightarrow> P s) \<Longrightarrow> (\<And>x s. Q x s \<Longrightarrow> R x s) \<Longrightarrow> keeps I P' m R"
  by (auto simp: keeps_def)

section \<open>Messages\<close>

record contract_event_filter =
  filter_type :: string
  topics :: "string list list"
  contract_ids :: "string list"

record pagination_params =
  limit :: "nat option"
  page_cursor :: "string option"

record get_events_params =
  filters :: "contract_event_filter list"
  pagination :: pagination_params
  start_ledger :: "nat option"
  end_ledger :: "nat option"
  xdr_format :: "string option"

record parsed_get_events =
  parsed_start_ledger :: "nat option"
  parsed_cursor :: "string option"
  parsed_limit :: "nat option"

record get_latest_ledger_response =
  latest_id :: string
  protocol_version :: nat
  sequence :: nat

record event =
  event_type :: string
  event_ledger :: nat
  ledger_closed_at :: string
  event_contract_id :: string
  event_id :: string
  operation_index :: "nat option"
  transaction_index :: "nat option"
  tx_hash :: "string option"
  is_successful_contract_call :: "bool option"
  topic :: "string list"
  event_value :: string

record get_events_response =
  events :: "event list"
  latest_ledger :: nat
  latest_ledger_close_time :: string
  oldest_ledger :: nat
  oldest_ledger_close_time :: string
  next_cursor :: string

definition parsed :: "get_events_params \<Rightarrow> string + parsed_get_events" where
  "parsed params =
     (case (start_ledger params, page_cursor (pagination params)) of
        (Some _, Some _) \<Rightarrow>
          Inl ''getEvents params must include either startLedger or pagination.cursor, not both''
      | (None, None) \<Rightarrow>
          Inl ''getEvents params must include either startLedger or pagination.cursor''
      | _ \<Rightarrow> Inr \<lparr>parsed_start_ledger = start_ledger params,
               parsed_cursor = page_cursor (pagination params),
               parsed_limit = limit (pagination params)\<rparr>)"

definition is_allowed_filters :: "get_events_params \<Rightarrow> string list \<Rightarrow> bool" where
  "is_allowed_filters params allowed_contract_ids =
     (case filters params of
        [] \<Rightarrow> False
      | first # _ \<Rightarrow>
          filter_type first = ''contract'' \<and> topics first = [[''**'']] \<and>
          sort (contract_ids first) = sort allowed_contract_ids)"

definition for_contracts ::
  "string list \<Rightarrow> nat option \<Rightarrow> string option \<Rightarrow> nat \<Rightarrow> get_events_params" where
  "for_contracts ids start cursor lim =
     \<lparr>filters = [\<lparr>filter_type = ''contract'', topics = [[''**'']], contract_ids = ids\<rparr>],
      pagination = \<lparr>limit = Some lim, page_cursor = cursor\<rparr>,
      start_ledger = start, end_ledger = None, xdr_format = None\<rparr>"

text \<open>The order of the contract ids is free, but every repetition counts.\<close>

lemma is_allowed_filters_iff:
  "is_allowed_filters params ids \<longleftrightarrow>
     (\<exists>first rest. filters params = first # rest \<and> filter_type first = ''contract''
        \<and> topics first = [[''**'']] \<and> mset (contract_ids first) = mset ids)"
proof -
  have "sort xs = sort ys \<longleftrightarrow> mset xs = mset ys" for xs ys :: "string list"
    using properties_for_sort [of "sort xs" ys] by (auto dest: arg_cong [of _ _ mset])
  then show ?thesis by (auto simp: is_allowed_filters_def split: list.splits)
qed

section \<open>The storage trait\<close>

record kv_state =
  kv_last_cursor :: "string option"
  kv_last_fully_indexed_ledger :: nat
  kv_ledger_tip :: nat
  kv_in_sync :: bool

record insert_page =
  cursor_in :: "string option"
  page_start_ledger :: "nat option"
  page_request :: get_events_params
  page_result :: get_events_response
  cursor_out :: string
  last_event_ledger :: "nat option"
  page_latest_ledger :: nat
  page_oldest_ledger :: nat

record 's storage =
  ping :: "('s, unit) io"
  load_kv :: "('s, kv_state) io"
  update_cursor :: "string \<Rightarrow> ('s, unit) io"
  set_last_fully_indexed_ledger :: "nat \<Rightarrow> ('s, unit) io"
  set_ledger_tip :: "nat \<Rightarrow> ('s, unit) io"
  set_in_sync :: "bool \<Rightarrow> ('s, unit) io"
  lookup_last_event_ledger_for_cursor :: "string \<Rightarrow> ('s, nat option) io"
  get_cached_get_events_by_cursor :: "string \<Rightarrow> ('s, get_events_response option) io"
  get_cached_get_events_by_start_ledger :: "nat \<Rightarrow> ('s, get_events_response option) io"
  store_get_events_page :: "insert_page \<Rightarrow> ('s, unit) io"

definition mark_caught_up :: "'s storage \<Rightarrow> string \<Rightarrow> nat \<Rightarrow> ('s, unit) io" where
  "mark_caught_up st cursor latest =
     bind_io (update_cursor st cursor) (\<lambda>_.
     bind_io (set_last_fully_indexed_ledger st latest) (\<lambda>_.
     set_in_sync st True))"

text \<open>The two look-ups before a page is stored: a page whose slot is taken is dropped.\<close>

definition slot_taken :: "'s storage \<Rightarrow> insert_page \<Rightarrow> ('s, bool) io" where
  "slot_taken st page =
     (case cursor_in page of
        Some c \<Rightarrow> bind_io (get_cached_get_events_by_cursor st c) (\<lambda>r. return_io (r \<noteq> None))
      | None \<Rightarrow>
          (case page_start_ledger page of
             Some l \<Rightarrow> bind_io (get_cached_get_events_by_start_ledger st l) (\<lambda>r. return_io (r \<noteq> None))
           | None \<Rightarrow> return_io False))"

definition insert_get_events_page :: "'s storage \<Rightarrow> insert_page \<Rightarrow> ('s, unit) io" where
  "insert_get_events_page st page =
     (if events (page_result page) = [] then return_io ()
      else bind_io (slot_taken st page) (\<lambda>taken.
             if taken then return_io () else store_get_events_page st page))"

section \<open>The in-memory store\<close>

record mem_state =
  last_cursor :: "string option"
  last_fully_indexed_ledger :: nat
  ledger_tip :: nat
  in_sync :: bool
  cache_by_cursor_in :: "string \<rightharpoonup> get_events_response"
  cache_by_start_ledger :: "nat \<rightharpoonup> get_events_response"
  ledger_by_cursor_out :: "string \<rightharpoonup> nat"

definition fresh_memory :: mem_state where
  "fresh_memory = \<lparr>last_cursor = None, last_fully_indexed_ledger = 0, ledger_tip = 0, in_sync = False,
     cache_by_cursor_in = Map.empty, cache_by_start_ledger = Map.empty,
     ledger_by_cursor_out = Map.empty\<rparr>"

definition with_state :: "('s \<Rightarrow> 'a) \<Rightarrow> ('s, 'a) io" where
  "with_state f s = (Inr (f s), s)"

definition with_state_mut :: "('s \<Rightarrow> 's) \<Rightarrow> ('s, unit) io" where
  "with_state_mut f s = (Inr (), f s)"

definition kv_of :: "mem_state \<Rightarrow> kv_state" where
  "kv_of s = \<lparr>kv_last_cursor = last_cursor s,
     kv_last_fully_indexed_ledger = last_fully_indexed_ledger s,
     kv_ledger_tip = ledger_tip s, kv_in_sync = in_sync s\<rparr>"

definition put_page :: "insert_page \<Rightarrow> mem_state \<Rightarrow> mem_state" where
  "put_page page s =
     (case cursor_in page of
        Some c \<Rightarrow> s\<lparr>cache_by_cursor_in := (cache_by_cursor_in s)(c \<mapsto> page_result page)\<rparr>
      | None \<Rightarrow>
          (case page_start_ledger page of
             Some l \<Rightarrow> s\<lparr>cache_by_start_ledger := (cache_by_start_ledger s)(l \<mapsto> page_result page)\<rparr>
           | None \<Rightarrow> s))"

definition put_cursor_ledger :: "insert_page \<Rightarrow> mem_state \<Rightarrow> mem_state" where
  "put_cursor_ledger page s =
     (case last_event_ledger page of
        Some l \<Rightarrow> s\<lparr>ledger_by_cursor_out := (ledger_by_cursor_out s)(cursor_out page \<mapsto> l)\<rparr>
      | None \<Rightarrow> s)"

definition in_memory :: "mem_state storage" where
  "in_memory = \<lparr>
     ping = return_io (),
     load_kv = with_state kv_of,
     update_cursor = (\<lambda>cursor. with_state_mut (\<lambda>s. s\<lparr>last_cursor := Some cursor\<rparr>)),
     set_last_fully_indexed_ledger =
       (\<lambda>ledger. with_state_mut (\<lambda>s. s\<lparr>last_fully_indexed_ledger := ledger\<rparr>)),
     set_ledger_tip = (\<lambda>tip. with_state_mut (\<lambda>s. s\<lparr>ledger_tip := tip\<rparr>)),
     set_in_sync = (\<lambda>b. with_state_mut (\<lambda>s. s\<lparr>in_sync := b\<rparr>)),
     lookup_last_event_ledger_for_cursor = (\<lambda>c. with_state (\<lambda>s. ledger_by_cursor_out s c)),
     get_cached_get_events_by_cursor = (\<lambda>c. with_state (\<lambda>s. cache_by_cursor_in s c)),
     get_cached_get_events_by_start_ledger = (\<lambda>l. with_state (\<lambda>s. cache_by_start_ledger s l)),
     store_get_events_page =
       (\<lambda>page. with_state_mut (\<lambda>s. put_cursor_ledger page (put_page page s)))\<rparr>"

section \<open>The contract of a store\<close>

definition slot_free :: "insert_page \<Rightarrow> mem_state \<Rightarrow> bool" where
  "slot_free page s \<longleftrightarrow>
     (case cursor_in page of
        Some c \<Rightarrow> cache_by_cursor_in s c = None
      | None \<Rightarrow> (case page_start_ledger page of
                  Some l \<Rightarrow> cache_by_start_ledger s l = None
                | None \<Rightarrow> True))"

text \<open>
  Where two pages end at the same cursor, a store may remember the ledger of either.
\<close>

definition page_stored :: "insert_page \<Rightarrow> mem_state \<Rightarrow> mem_state \<Rightarrow> bool" where
  "page_stored page s t \<longleftrightarrow>
     t = put_cursor_ledger page (put_page page s)
   \<or> ledger_by_cursor_out s (cursor_out page) \<noteq> None \<and> t = put_page page s"

definition reads :: "('s \<Rightarrow> 'v) \<Rightarrow> ('s, 'a) io \<Rightarrow> ('v \<Rightarrow> 'a) \<Rightarrow> bool" where
  "reads view m f \<longleftrightarrow> (\<forall>s. view (snd (m s)) = view s \<and> (\<forall>x. fst (m s) = Inr x \<longrightarrow> x = f (view s)))"

lemma readsD:
  assumes "reads view m f"
  shows "view (snd (m s)) = view s" and "fst (m s) = Inr x \<Longrightarrow> x = f (view s)"
  using assms by (simp_all add: reads_def)

lemma reads_return: "reads view (return_io x) (\<lambda>_. x)"
  by (simp add: reads_def return_io_def)

lemma reads_then:
  assumes "reads view m f"
  shows "reads view (bind_io m (\<lambda>x. return_io (g x))) (\<lambda>v. g (f v))"
  unfolding reads_def
proof
  fix s
  obtain r t where "m s = (r, t)" by (cases "m s")
  with assms have "view t = view s" "\<And>x. r = Inr x \<Longrightarrow> x = f (view s)"
    by (auto simp: reads_def) (metis fst_conv snd_conv)+
  then show "view (snd (bind_io m (\<lambda>x. return_io (g x)) s)) = view s \<and>
      (\<forall>x. fst (bind_io m (\<lambda>x. return_io (g x)) s) = Inr x \<longrightarrow> x = g (f (view s)))"
    by (cases r) (auto simp: bind_io_def return_io_def \<open>m s = (r, t)\<close>)
qed

definition performs :: "('s \<Rightarrow> 'v) \<Rightarrow> ('s, unit) io \<Rightarrow> ('v \<Rightarrow> 'v \<Rightarrow> bool) \<Rightarrow> bool" where
  "performs view m R \<longleftrightarrow>
     (\<forall>s. R (view s) (view (snd (m s))) \<or> (\<exists>e. fst (m s) = Inl e) \<and> view (snd (m s)) = view s)"

lemma performsD:
  "performs view m R \<Longrightarrow> R (view s) (view (snd (m s)))
     \<or> (\<exists>e. fst (m s) = Inl e) \<and> view (snd (m s)) = view s"
  by (simp add: performs_def)

text \<open>
  Law by law: what a read returns, and what is left of a write. The page is only stored when its
  slot is free, because the caller looks first.
\<close>

locale event_storage =
  fixes st :: "'s storage"
    and view :: "'s \<Rightarrow> mem_state"
  assumes ping: "reads view (ping st) (\<lambda>_. ())"
    and load_kv: "reads view (load_kv st) kv_of"
    and lookup_cursor: "reads view (lookup_last_event_ledger_for_cursor st c) (\<lambda>v. ledger_by_cursor_out v c)"
    and get_by_cursor: "reads view (get_cached_get_events_by_cursor st c) (\<lambda>v. cache_by_cursor_in v c)"
    and get_by_start: "reads view (get_cached_get_events_by_start_ledger st l) (\<lambda>v. cache_by_start_ledger v l)"
    and update_cursor: "performs view (update_cursor st c) (\<lambda>v w. w = v\<lparr>last_cursor := Some c\<rparr>)"
    and set_fully_indexed:
      "performs view (set_last_fully_indexed_ledger st l) (\<lambda>v w. w = v\<lparr>last_fully_indexed_ledger := l\<rparr>)"
    and set_tip: "performs view (set_ledger_tip st l) (\<lambda>v w. w = v\<lparr>ledger_tip := l\<rparr>)"
    and set_in_sync: "performs view (set_in_sync st b) (\<lambda>v w. w = v\<lparr>in_sync := b\<rparr>)"
    and store_page: "performs view (store_get_events_page st page)
           (\<lambda>v w. slot_free page v \<longrightarrow> page_stored page v w)"
begin

text \<open>Inserting a page changes the store only when its slot is free.\<close>

lemma slot_taken_reads: "reads view (slot_taken st page) (\<lambda>v. \<not> slot_free page v)"
proof (cases "cursor_in page")
  case None
  then show ?thesis
    using reads_then [OF get_by_start, of "the (page_start_ledger page)" "\<lambda>r. r \<noteq> None"]
    by (cases "page_start_ledger page") (simp_all add: slot_taken_def slot_free_def reads_return)
next
  case (Some c)
  with reads_then [OF get_by_cursor, of c "\<lambda>r. r \<noteq> None"] show ?thesis
    by (simp add: slot_taken_def slot_free_def)
qed

lemma insert_page:
  "performs view (insert_get_events_page st page)
     (\<lambda>v w. w = v \<or> events (page_result page) \<noteq> [] \<and> slot_free page v \<and> page_stored page v w)"
  unfolding performs_def
proof
  fix s
  obtain r t where taken: "slot_taken st page s = (r, t)" by (cases "slot_taken st page s")
  with readsD [OF slot_taken_reads, of page s]
  have same: "view t = view s" "\<And>x. r = Inr x \<Longrightarrow> x = (\<not> slot_free page (view s))"
    by simp_all
  from performsD [OF store_page, of page t] show "(view (snd (insert_get_events_page st page s)) = view s
      \<or> events (page_result page) \<noteq> [] \<and> slot_free page (view s)
        \<and> page_stored page (view s) (view (snd (insert_get_events_page st page s))))
    \<or> (\<exists>e. fst (insert_get_events_page st page s) = Inl e)
      \<and> view (snd (insert_get_events_page st page s)) = view s"
    using same by (cases r) (auto simp: insert_get_events_page_def bind_io_def taken return_io_def)
qed

end

interpretation memory: event_storage in_memory "\<lambda>s. s"
  by unfold_locales
    (simp_all add: in_memory_def reads_def performs_def with_state_def with_state_mut_def page_stored_def
      return_io_def)

end
