(* ===== verification/Bootnode.thy ===== *)
theory Bootnode
  imports BootnodeStore
begin

text \<open>
  The bootnode (\<open>tools/bootnode/src/\<close>): \<open>Bootnode::setup\<close> and the shared state (\<open>lib.rs\<close>), the
  indexer that copies pages of events from the upstream RPC into the store (\<open>indexer.rs\<close>), the
  requests it answers from there (\<open>rpc.rs\<close>) and its health check (\<open>http_server.rs\<close>).

  The upstream is an oracle: its answer to the \<open>k\<close>-th question may be anything, an error included.
  \<open>asked\<close> counts the questions, over restarts too. Each request and each round of the indexer is
  one step; a crash inside a round is a store operation that fails, followed by a restart.
\<close>

section \<open>Configuration and shared state\<close>

definition U32_MAX :: nat where
  "U32_MAX = 2 ^ 32 - 1"

definition saturating_mul_u32 :: "nat \<Rightarrow> nat \<Rightarrow> nat" where
  "saturating_mul_u32 a b = min (a * b) U32_MAX"

definition saturating_add_u32 :: "nat \<Rightarrow> nat \<Rightarrow> nat" where
  "saturating_add_u32 a b = min (a + b) U32_MAX"

record config =
  redirect_days :: nat
  ledger_seconds :: nat
  max_pages_per_round :: nat
  page_size :: nat
  initial_ledger_tip :: nat

definition cutoff_ledgers :: "nat \<Rightarrow> nat \<Rightarrow> nat" where
  "cutoff_ledgers days secs =
     (let seconds = saturating_mul_u32 (saturating_mul_u32 (saturating_mul_u32 days 24) 60) 60
      in seconds div max secs 1)"

record pool_config_entry =
  pool_contract_id :: string
  deployment_ledger :: nat
  enabled :: bool

record contract_config =
  asp_membership_id :: string
  public_key_registry_id :: string
  pools :: "pool_config_entry list"

definition enabled_pools :: "contract_config \<Rightarrow> pool_config_entry list" where
  "enabled_pools d = filter enabled (pools d)"

definition all_contract_ids :: "contract_config \<Rightarrow> string list" where
  "all_contract_ids d =
     map pool_contract_id (enabled_pools d) @ [asp_membership_id d] @ [public_key_registry_id d]"

definition min_deployment_ledger :: "contract_config \<Rightarrow> string + nat" where
  "min_deployment_ledger d =
     (case map deployment_ledger (enabled_pools d) of
        [] \<Rightarrow> Inl ''at least one pool should be enabled''
      | l # ls \<Rightarrow> Inr (fold min ls l))"

record upstream =
  upstream_latest :: "nat \<Rightarrow> string + get_latest_ledger_response"
  upstream_events :: "nat \<Rightarrow> get_events_params \<Rightarrow> string + get_events_response"

record 's app =
  cfg :: config
  app_storage :: "'s storage"
  app_upstream :: upstream
  app_contract_ids :: "string list"
  first_ledger :: nat

record 's node =
  store :: 's
  tip :: nat
  asked :: nat

definition bootnode_setup ::
  "config \<Rightarrow> contract_config \<Rightarrow> 's storage \<Rightarrow> upstream \<Rightarrow> ('s, 's app \<times> nat) io" where
  "bootnode_setup c deployment st up =
     (case min_deployment_ledger deployment of
        Inl e \<Rightarrow> fail_io e
      | Inr l \<Rightarrow>
          bind_io (load_kv st) (\<lambda>kv.
          return_io (\<lparr>cfg = c, app_storage = st, app_upstream = up,
                      app_contract_ids = all_contract_ids deployment, first_ledger = l\<rparr>,
                     max (initial_ledger_tip c) (kv_ledger_tip kv))))"

text \<open>Operations of the store, the shared ledger tip and the upstream client, on the node.\<close>

definition on_store :: "('s, 'e, 'a) run \<Rightarrow> ('s node, 'e, 'a) run" where
  "on_store m n = (case m (store n) of (r, s) \<Rightarrow> (r, n\<lparr>store := s\<rparr>))"

definition put_tip :: "nat \<Rightarrow> ('s node, 'e, unit) run" where
  "put_tip l n = (Inr (), n\<lparr>tip := l\<rparr>)"

definition load_tip :: "('s node, 'e, nat) run" where
  "load_tip n = (Inr (tip n), n)"

definition ask_latest_ledger :: "'s app \<Rightarrow> ('s node, get_latest_ledger_response) io" where
  "ask_latest_ledger app n = (upstream_latest (app_upstream app) (asked n), n\<lparr>asked := Suc (asked n)\<rparr>)"

definition ask_events :: "'s app \<Rightarrow> get_events_params \<Rightarrow> ('s node, get_events_response) io" where
  "ask_events app params n =
     (upstream_events (app_upstream app) (asked n) params, n\<lparr>asked := Suc (asked n)\<rparr>)"

section \<open>The indexer\<close>

definition page_of ::
  "string option \<Rightarrow> nat option \<Rightarrow> get_events_params \<Rightarrow> get_events_response \<Rightarrow> insert_page" where
  "page_of cursor start params result =
     \<lparr>cursor_in = cursor, page_start_ledger = start, page_request = params, page_result = result,
      cursor_out = next_cursor result,
      last_event_ledger =
        (if events result = [] then None else Some (event_ledger (last (events result)))),
      page_latest_ledger = latest_ledger result, page_oldest_ledger = oldest_ledger result\<rparr>"

fun index_pages :: "'s app \<Rightarrow> nat \<Rightarrow> string option \<Rightarrow> nat option \<Rightarrow> ('s node, unit) io" where
  "index_pages app 0 cursor start = return_io ()"
| "index_pages app (Suc rest) cursor start =
     (let st = app_storage app;
          params = for_contracts (app_contract_ids app) start cursor (page_size (cfg app)) in
      bind_io (ask_events app params) (\<lambda>result.
      bind_io (if events result \<noteq> []
               then bind_io (on_store (set_in_sync st False)) (\<lambda>_.
                    on_store (insert_get_events_page st (page_of cursor start params result)))
               else return_io ()) (\<lambda>_.
      if events result = []
      then on_store (mark_caught_up st (next_cursor result) (latest_ledger result))
      else bind_io (on_store (update_cursor st (next_cursor result))) (\<lambda>_.
           index_pages app rest (Some (next_cursor result)) None))))"

definition run_round :: "'s app \<Rightarrow> ('s node, unit) io" where
  "run_round app =
     bind_io (ask_latest_ledger app) (\<lambda>latest.
     bind_io (put_tip (sequence latest)) (\<lambda>_.
     bind_io (on_store (set_ledger_tip (app_storage app) (sequence latest))) (\<lambda>_.
     bind_io (on_store (load_kv (app_storage app))) (\<lambda>kv.
     index_pages app (max_pages_per_round (cfg app)) (kv_last_cursor kv)
       (if kv_last_cursor kv = None then Some (first_ledger app) else None)))))"

section \<open>Requests\<close>

datatype rpc_error =
    InvalidParams string
  | InternalError string
  | CacheMiss string
  | RetentionHandoff nat

definition CACHE_MISS_CODE :: int where
  "CACHE_MISS_CODE = -32004"

definition RETENTION_HANDOFF_CODE :: int where
  "RETENTION_HANDOFF_CODE = -32002"

fun error_code :: "rpc_error \<Rightarrow> int" where
  "error_code (InvalidParams _) = -32602"
| "error_code (InternalError _) = -32603"
| "error_code (CacheMiss _) = CACHE_MISS_CODE"
| "error_code (RetentionHandoff _) = RETENTION_HANDOFF_CODE"

definition cache_miss_for_tip :: "nat \<Rightarrow> rpc_error" where
  "cache_miss_for_tip t =
     (if t = 0 then CacheMiss ''bootnode warming up; retry later''
      else CacheMiss ''cache miss; indexer may still be catching up'')"

definition cache_miss_or_handoff ::
  "'s app \<Rightarrow> nat \<Rightarrow> bool \<Rightarrow> nat \<Rightarrow> ('s node, rpc_error, get_events_response) run" where
  "cache_miss_or_handoff app t tip_known cutoff =
     (if \<not> tip_known then fail_io (cache_miss_for_tip t)
      else bind_io (map_err_io InternalError (on_store (load_kv (app_storage app)))) (\<lambda>kv.
           if kv_in_sync kv then fail_io (RetentionHandoff cutoff)
           else fail_io (cache_miss_for_tip t)))"

definition at_or_past :: "nat option \<Rightarrow> nat \<Rightarrow> bool" where
  "at_or_past l cutoff = (case l of None \<Rightarrow> False | Some ledger \<Rightarrow> cutoff \<le> ledger)"

definition get_events_handler ::
  "'s app \<Rightarrow> get_events_params \<Rightarrow> ('s node, rpc_error, get_events_response) run" where
  "get_events_handler app params =
     (case parsed params of
        Inl e \<Rightarrow> fail_io (InvalidParams e)
      | Inr p \<Rightarrow>
          if \<not> is_allowed_filters params (app_contract_ids app)
          then fail_io (InvalidParams ''unsupported filters'')
          else bind_io load_tip (\<lambda>t.
            let st = app_storage app; tip_known = 0 < t;
                cutoff = t - cutoff_ledgers (redirect_days (cfg app)) (ledger_seconds (cfg app)) in
            case (parsed_start_ledger p, parsed_cursor p) of
              (None, Some cursor) \<Rightarrow>
                bind_io (map_err_io InternalError
                           (on_store (lookup_last_event_ledger_for_cursor st cursor))) (\<lambda>last_ledger.
                if tip_known \<and> at_or_past last_ledger cutoff then fail_io (RetentionHandoff cutoff)
                else bind_io (map_err_io InternalError
                                (on_store (get_cached_get_events_by_cursor st cursor))) (\<lambda>cached.
                     case cached of
                       None \<Rightarrow> cache_miss_or_handoff app t tip_known cutoff
                     | Some result \<Rightarrow> return_io result))
            | (start, cursor) \<Rightarrow>
                if tip_known \<and> at_or_past (if cursor = None then start else None) cutoff
                then fail_io (RetentionHandoff cutoff)
                else bind_io (map_err_io InternalError
                       (case start of
                          None \<Rightarrow> return_io None
                        | Some l \<Rightarrow> on_store (get_cached_get_events_by_start_ledger st l))) (\<lambda>cached.
                     case cached of
                       None \<Rightarrow> cache_miss_or_handoff app t tip_known cutoff
                     | Some result \<Rightarrow> return_io result)))"

definition get_events ::
  "'s app \<Rightarrow> get_events_params \<Rightarrow> ('s node, rpc_error, get_events_response) run" where
  "get_events app params =
     (if end_ledger params \<noteq> None
      then fail_io (InvalidParams ''endLedger is not supported by bootnode'')
      else if xdr_format params \<noteq> None
      then fail_io (InvalidParams ''xdrFormat is not supported by bootnode'')
      else get_events_handler app params)"

definition get_latest_ledger :: "'s app \<Rightarrow> ('s node, rpc_error, get_latest_ledger_response) run" where
  "get_latest_ledger app = map_err_io InternalError (ask_latest_ledger app)"

text \<open>The health check: an error is the text of the unavailable answer.\<close>

definition healthz :: "'s app \<Rightarrow> ('s node, unit) io" where
  "healthz app =
     bind_io (map_err_io (\<lambda>_. ''db unavailable'') (on_store (ping (app_storage app)))) (\<lambda>_.
     bind_io load_tip (\<lambda>t.
     if t = 0 then fail_io ''warming up''
     else bind_io (map_err_io (\<lambda>_. ''kv unavailable'') (on_store (load_kv (app_storage app)))) (\<lambda>kv.
       if 0 < t \<and> saturating_add_u32 (kv_last_fully_indexed_ledger kv)
                    (cutoff_ledgers (redirect_days (cfg app)) (ledger_seconds (cfg app))) < t
       then fail_io ''indexer behind''
       else return_io ())))"

section \<open>Histories\<close>

inductive bootnode_step :: "config \<Rightarrow> contract_config \<Rightarrow> 's app \<Rightarrow> 's node \<Rightarrow> 's node \<Rightarrow> bool"
  for c :: config and deployment :: contract_config and app :: "'s app" where
  step_round: "bootnode_step c deployment app n (snd (run_round app n))"
| step_events: "bootnode_step c deployment app n (snd (get_events app params n))"
| step_latest: "bootnode_step c deployment app n (snd (get_latest_ledger app n))"
| step_health: "bootnode_step c deployment app n (snd (healthz app n))"
| step_restart:
    "bootnode_setup c deployment (app_storage app) (app_upstream app) (store n) = (Inr (app, t), s)
     \<Longrightarrow> bootnode_step c deployment app n (n\<lparr>store := s, tip := t\<rparr>)"

inductive bootnode_reach ::
  "config \<Rightarrow> contract_config \<Rightarrow> ('s \<Rightarrow> mem_state) \<Rightarrow> 's app \<Rightarrow> 's node \<Rightarrow> bool"
  for c :: config and deployment :: contract_config and view :: "'s \<Rightarrow> mem_state" and app :: "'s app" where
  reach_setup:
    "view s = fresh_memory
     \<Longrightarrow> bootnode_setup c deployment (app_storage app) (app_upstream app) s = (Inr (app, t), s')
     \<Longrightarrow> bootnode_reach c deployment view app \<lparr>store = s', tip = t, asked = 0\<rparr>"
| reach_step:
    "bootnode_reach c deployment view app n \<Longrightarrow> bootnode_step c deployment app n n'
     \<Longrightarrow> bootnode_reach c deployment view app n'"

end
