(* ===== verification/BootnodeFacts.thy ===== *)
theory BootnodeFacts
  imports Bootnode
begin

text \<open>
  Facts about the bootnode: what its requests are answered from, and the invariant that
  every step keeps, over any store that meets the contract of the trait. \<open>bootnode_inv v\<close> says that
  each cached page is an answer of the upstream to the indexer's request for its slot, that each
  ledger kept for a cursor is that of the last event of an answer with this cursor, and that no
  page of the earlier view \<open>v\<close> has changed.
\<close>

section \<open>Steps on the store\<close>

lemma bind_return_io [simp]: "bind_io (return_io x) f = f x"
  by (rule ext) (simp add: bind_io_def return_io_def)

lemma on_store_simps [io_simps]: "m (store n) = (r, s) \<Longrightarrow> on_store m n = (r, n\<lparr>store := s\<rparr>)"
  by (simp add: on_store_def)

lemma on_store_fst [simp]: "fst (on_store m n) = fst (m (store n))"
  by (simp add: on_store_def split: prod.split)

lemma on_store_snd [simp]: "snd (on_store m n) = n\<lparr>store := snd (m (store n))\<rparr>"
  by (simp add: on_store_def split: prod.split)

text \<open>A page the upstream gave for a request of the indexer, before question \<open>k\<close>.\<close>

definition upstream_gave ::
  "'s app \<Rightarrow> nat \<Rightarrow> nat option \<Rightarrow> string option \<Rightarrow> get_events_response \<Rightarrow> bool" where
  "upstream_gave app k start cursor page \<longleftrightarrow>
     events page \<noteq> [] \<and>
     (\<exists>j<k. upstream_events (app_upstream app) j
        (for_contracts (app_contract_ids app) start cursor (page_size (cfg app))) = Inr page)"

text \<open>Such a page ends with the cursor, and its last event is of the ledger.\<close>

definition ended_before :: "'s app \<Rightarrow> nat \<Rightarrow> string \<Rightarrow> nat \<Rightarrow> bool" where
  "ended_before app k cursor l \<longleftrightarrow>
     (\<exists>start c page. upstream_gave app k start c page \<and> next_cursor page = cursor
        \<and> event_ledger (last (events page)) = l)"

definition bootnode_inv :: "mem_state \<Rightarrow> ('s \<Rightarrow> mem_state) \<Rightarrow> 's app \<Rightarrow> 's node \<Rightarrow> bool" where
  "bootnode_inv v view app n \<longleftrightarrow>
     cache_by_cursor_in v \<subseteq>\<^sub>m cache_by_cursor_in (view (store n))
   \<and> cache_by_start_ledger v \<subseteq>\<^sub>m cache_by_start_ledger (view (store n))
   \<and> (\<forall>c page. cache_by_cursor_in (view (store n)) c = Some page
        \<longrightarrow> upstream_gave app (asked n) None (Some c) page)
   \<and> (\<forall>l page. cache_by_start_ledger (view (store n)) l = Some page
        \<longrightarrow> l = first_ledger app \<and> upstream_gave app (asked n) (Some l) None page)
   \<and> (\<forall>c l. ledger_by_cursor_out (view (store n)) c = Some l \<longrightarrow> ended_before app (asked n) c l)"

lemma upstream_gave_mono:
  assumes "upstream_gave app j start cursor page" and "j \<le> k"
  shows "upstream_gave app k start cursor page"
  using assms less_le_trans unfolding upstream_gave_def by blast

lemma ended_before_mono: "ended_before app j c l \<Longrightarrow> j \<le> k \<Longrightarrow> ended_before app k c l"
  unfolding ended_before_def using upstream_gave_mono by blast

lemma bootnode_inv_cong:
  assumes "bootnode_inv v view app n"
    and "cache_by_cursor_in (view (store m)) = cache_by_cursor_in (view (store n))"
    and "cache_by_start_ledger (view (store m)) = cache_by_start_ledger (view (store n))"
    and "ledger_by_cursor_out (view (store m)) = ledger_by_cursor_out (view (store n))"
    and "asked n \<le> asked m"
  shows "bootnode_inv v view app m"
  using assms(1) upstream_gave_mono [OF _ assms(5)] ended_before_mono [OF _ assms(5)]
  unfolding bootnode_inv_def assms(2-4) by blast

text \<open>A page that goes into a free slot.\<close>

definition slot_of :: "'s app \<Rightarrow> string option \<Rightarrow> nat option \<Rightarrow> bool" where
  "slot_of app cursor start \<longleftrightarrow>
     (case cursor of None \<Rightarrow> start = Some (first_ledger app) | Some _ \<Rightarrow> start = None)"

lemma put_cursor_ledger_caches [simp]:
  "cache_by_cursor_in (put_cursor_ledger page v) = cache_by_cursor_in v"
  "cache_by_start_ledger (put_cursor_ledger page v) = cache_by_start_ledger v"
  by (simp_all add: put_cursor_ledger_def split: option.split)

lemma put_page_ledgers [simp]: "ledger_by_cursor_out (put_page page v) = ledger_by_cursor_out v"
  by (simp add: put_page_def split: option.split)

lemma stored_ledgers:
  assumes "page_stored (page_of cursor start params page) v w"
    and "ledger_by_cursor_out w c = Some l" and "upstream_gave app k start cursor page"
  shows "ledger_by_cursor_out v c = Some l \<or> ended_before app k c l"
proof -
  have "ledger_by_cursor_out v c = Some l \<or> next_cursor page = c \<and> event_ledger (last (events page)) = l"
    using assms(1,2)
    by (auto simp: page_stored_def put_cursor_ledger_def page_of_def split: option.splits if_splits)
  with assms(3) show ?thesis unfolding ended_before_def by blast
qed

lemma bootnode_inv_stored:
  assumes inv: "bootnode_inv v view app n" and slot: "slot_of app cursor start"
    and free: "slot_free (page_of cursor start params page) (view (store n))"
    and stored: "page_stored (page_of cursor start params page) (view (store n)) (view s)"
    and gave: "upstream_gave app (asked n) start cursor page"
  shows "bootnode_inv v view app (n\<lparr>store := s\<rparr>)"
proof -
  have ledgers: "ended_before app (asked n) c l" if "ledger_by_cursor_out (view s) c = Some l" for c l
    using stored_ledgers [OF stored that gave] inv by (auto simp: bootnode_inv_def)
  show ?thesis
  proof (cases cursor)
    case None
    with slot free stored have "start = Some (first_ledger app)"
      "cache_by_start_ledger (view (store n)) (first_ledger app) = None"
      "cache_by_cursor_in (view s) = cache_by_cursor_in (view (store n))"
      "cache_by_start_ledger (view s) = (cache_by_start_ledger (view (store n)))(first_ledger app \<mapsto> page)"
      by (auto simp: slot_of_def slot_free_def page_stored_def page_of_def put_page_def)
    with inv gave None ledgers show ?thesis
      by (auto simp: bootnode_inv_def map_le_def split: if_splits) (metis domI option.distinct(1))
  next
    case (Some c)
    with slot free stored have "start = None"
      "cache_by_cursor_in (view (store n)) c = None"
      "cache_by_cursor_in (view s) = (cache_by_cursor_in (view (store n)))(c \<mapsto> page)"
      "cache_by_start_ledger (view s) = cache_by_start_ledger (view (store n))"
      by (auto simp: slot_of_def slot_free_def page_stored_def page_of_def put_page_def)
    with inv gave Some ledgers show ?thesis
      by (auto simp: bootnode_inv_def map_le_def split: if_splits) (metis domI option.distinct(1))
  qed
qed

section \<open>The invariant\<close>

text \<open>\<open>Q\<close> ranges over what does not depend on the store.\<close>

lemma keeps_write:
  assumes "performs view m R"
    and "\<And>v w. R v w \<Longrightarrow> cache_by_cursor_in w = cache_by_cursor_in v
                      \<and> cache_by_start_ledger w = cache_by_start_ledger v
                      \<and> ledger_by_cursor_out w = ledger_by_cursor_out v"
  shows "keeps (bootnode_inv v0 view app) (\<lambda>n. Q (asked n)) (on_store m) (\<lambda>_ n. Q (asked n))"
  unfolding keeps_def
proof (intro allI impI conjI)
  fix n assume "bootnode_inv v0 view app n" "Q (asked n)"
  from performsD [OF assms(1), of "store n"]
  have "R (view (store n)) (view (snd (m (store n)))) \<or> view (snd (m (store n))) = view (store n)"
    by blast
  then have "cache_by_cursor_in (view (snd (m (store n)))) = cache_by_cursor_in (view (store n))
    \<and> cache_by_start_ledger (view (snd (m (store n)))) = cache_by_start_ledger (view (store n))
    \<and> ledger_by_cursor_out (view (snd (m (store n)))) = ledger_by_cursor_out (view (store n))"
    by (elim disjE) (drule assms(2), simp, simp)
  with \<open>bootnode_inv v0 view app n\<close> show "bootnode_inv v0 view app (snd (on_store m n))"
    by - (rule bootnode_inv_cong, assumption, simp_all)
qed simp

lemma keeps_read:
  assumes "reads view m f"
  shows "keeps (bootnode_inv v0 view app) (\<lambda>n. Q (asked n)) (on_store m) (\<lambda>_ n. Q (asked n))"
  using readsD(1) [OF assms] by (auto simp: keeps_def intro: bootnode_inv_cong)

lemma keeps_ask_events:
  "keeps (bootnode_inv v0 view app) P
     (ask_events app (for_contracts (app_contract_ids app) start cursor (page_size (cfg app))))
     (\<lambda>page n. events page \<noteq> [] \<longrightarrow> upstream_gave app (asked n) start cursor page)"
  by (auto simp: keeps_def ask_events_def upstream_gave_def intro: bootnode_inv_cong)

lemma keeps_ask_latest: "keeps (bootnode_inv v0 view app) P (ask_latest_ledger app) (\<lambda>_ _. True)"
  by (auto simp: keeps_def ask_latest_ledger_def intro: bootnode_inv_cong)

lemma keeps_put_tip: "keeps (bootnode_inv v0 view app) P (put_tip l) (\<lambda>_ _. True)"
  by (auto simp: keeps_def put_tip_def intro: bootnode_inv_cong)

section \<open>What a request is answered from\<close>

text \<open>
  \<open>answers view fails m f\<close>: the run \<open>m\<close> leaves the node as it was and returns \<open>f\<close> of the view and the
  ledger tip, unless the store fails in one of the ways \<open>fails\<close> allows; its error is then the answer's.
\<close>

definition answers ::
  "('s \<Rightarrow> mem_state) \<Rightarrow> ('s \<Rightarrow> string \<Rightarrow> bool) \<Rightarrow> ('s node, rpc_error, 'a) run
     \<Rightarrow> (mem_state \<Rightarrow> nat \<Rightarrow> rpc_error + 'a) \<Rightarrow> bool" where
  "answers view fails m f \<longleftrightarrow>
     (\<forall>n. view (store (snd (m n))) = view (store n) \<and> tip (snd (m n)) = tip n \<and> asked (snd (m n)) = asked n
        \<and> ((\<exists>s e. view s = view (store n) \<and> fails s e \<and> fst (m n) = Inl (InternalError e))
           \<or> fst (m n) = f (view (store n)) (tip n)))"

lemma answers_fail: "answers view fails (fail_io e) (\<lambda>_ _. Inl e)"
  by (simp add: answers_def fail_io_def)

lemma answers_return: "answers view fails (return_io x) (\<lambda>_ _. Inr x)"
  by (simp add: answers_def return_io_def)

lemma answers_if:
  assumes "answers view fails m f" and "answers view fails k g"
  shows "answers view fails (if b then m else k) (\<lambda>v t. if b then f v t else g v t)"
  using assms by simp

lemma answers_load_tip:
  assumes "\<And>t. answers view fails (g t) (f t)"
  shows "answers view fails (bind_io load_tip g) (\<lambda>v t. f t v t)"
  using assms by (simp add: answers_def bind_io_def load_tip_def)

lemma answers_read:
  assumes "reads view m h" and "\<And>s e. fst (m s) = Inl e \<Longrightarrow> fails s e" and "\<And>x. answers view fails (g x) (f x)"
  shows "answers view fails (bind_io (map_err_io InternalError (on_store m)) g) (\<lambda>v t. f (h v) v t)"
  unfolding answers_def
proof
  fix n :: "'a node"
  obtain r s where m: "m (store n) = (r, s)" by (cases "m (store n)")
  with readsD [OF assms(1), of "store n"] have v: "view s = view (store n)"
    "\<And>x. r = Inr x \<Longrightarrow> x = h (view (store n))"
    by simp_all
  let ?b = "bind_io (map_err_io InternalError (on_store m)) g n"
  show "view (store (snd ?b)) = view (store n) \<and> tip (snd ?b) = tip n \<and> asked (snd ?b) = asked n
      \<and> ((\<exists>s e. view s = view (store n) \<and> fails s e \<and> fst ?b = Inl (InternalError e))
         \<or> fst ?b = f (h (view (store n))) (view (store n)) (tip n))"
  proof (cases r)
    case (Inl e)
    with assms(2) [of "store n" e] have "fails (store n) e" by (simp add: m)
    with Inl show ?thesis by (auto simp: bind_io_def map_err_io_def on_store_def m v)
  next
    case (Inr x)
    then have "?b = g x (n\<lparr>store := s\<rparr>)" by (simp add: bind_io_def map_err_io_def on_store_def m)
    with assms(3) [of x, unfolded answers_def, rule_format, of "n\<lparr>store := s\<rparr>"] v Inr show ?thesis by simp
  qed
qed

text \<open>The ways the store may fail a request: by an error of one of the four reads its answer may take.\<close>

definition request_fails :: "'s app \<Rightarrow> get_events_params \<Rightarrow> 's \<Rightarrow> string \<Rightarrow> bool" where
  "request_fails app params s e \<longleftrightarrow>
     fst (load_kv (app_storage app) s) = Inl e
   \<or> (\<exists>l. start_ledger params = Some l \<and> fst (get_cached_get_events_by_start_ledger (app_storage app) l s) = Inl e)
   \<or> (\<exists>c. page_cursor (pagination params) = Some c
        \<and> (fst (lookup_last_event_ledger_for_cursor (app_storage app) c s) = Inl e
           \<or> fst (get_cached_get_events_by_cursor (app_storage app) c s) = Inl e))"

text \<open>The slot a request names, and the ledger it is judged by.\<close>

definition page_at :: "mem_state \<Rightarrow> get_events_params \<Rightarrow> get_events_response option" where
  "page_at v params =
     (case start_ledger params of
        Some l \<Rightarrow> cache_by_start_ledger v l
      | None \<Rightarrow> Option.bind (page_cursor (pagination params)) (cache_by_cursor_in v))"

definition ledger_at :: "mem_state \<Rightarrow> get_events_params \<Rightarrow> nat option" where
  "ledger_at v params =
     (case start_ledger params of
        Some l \<Rightarrow> Some l
      | None \<Rightarrow> Option.bind (page_cursor (pagination params)) (ledger_by_cursor_out v))"

definition handoff_from :: "'s app \<Rightarrow> nat \<Rightarrow> nat" where
  "handoff_from app t = t - cutoff_ledgers (redirect_days (cfg app)) (ledger_seconds (cfg app))"

definition supported :: "'s app \<Rightarrow> get_events_params \<Rightarrow> bool" where
  "supported app params \<longleftrightarrow>
     end_ledger params = None \<and> xdr_format params = None
   \<and> (start_ledger params = None) \<noteq> (page_cursor (pagination params) = None)
   \<and> is_allowed_filters params (app_contract_ids app)"

definition answer_of ::
  "'s app \<Rightarrow> get_events_params \<Rightarrow> mem_state \<Rightarrow> nat \<Rightarrow> rpc_error + get_events_response" where
  "answer_of app params v t =
     (if 0 < t \<and> at_or_past (ledger_at v params) (handoff_from app t)
      then Inl (RetentionHandoff (handoff_from app t))
      else case page_at v params of
          Some page \<Rightarrow> Inr page
        | None \<Rightarrow> if 0 < t \<and> in_sync v then Inl (RetentionHandoff (handoff_from app t))
                 else Inl (cache_miss_for_tip t))"

lemma get_events_unsupported:
  assumes "\<not> supported app params"
  shows "\<exists>msg. get_events app params n = (Inl (InvalidParams msg), n)"
  using assms
  by (auto simp: get_events_def get_events_handler_def supported_def parsed_def fail_io_def
      split: option.split)

context event_storage
begin

lemma keeps_store_writes:
  "keeps (bootnode_inv v view app) P (on_store (update_cursor st c)) (\<lambda>_ _. True)"
  "keeps (bootnode_inv v view app) P (on_store (set_last_fully_indexed_ledger st l)) (\<lambda>_ _. True)"
  "keeps (bootnode_inv v view app) P (on_store (set_ledger_tip st l)) (\<lambda>_ _. True)"
  "keeps (bootnode_inv v view app) P (on_store (set_in_sync st b)) (\<lambda>_ _. True)"
  by (rule keeps_weaken [OF keeps_write [where Q = "\<lambda>_. True"]], rule update_cursor set_fully_indexed set_tip set_in_sync, simp_all)+

lemma keeps_set_in_sync:
  "keeps (bootnode_inv v view app) (\<lambda>n. Q (asked n)) (on_store (set_in_sync st b)) (\<lambda>_ n. Q (asked n))"
  by (rule keeps_write, rule set_in_sync, simp)

lemma keeps_insert:
  assumes "slot_of app cursor start"
  shows "keeps (bootnode_inv v view app) (\<lambda>n. upstream_gave app (asked n) start cursor page)
           (on_store (insert_get_events_page st (page_of cursor start params page))) (\<lambda>_ _. True)"
  unfolding keeps_def
proof (intro allI impI conjI)
  fix n assume inv: "bootnode_inv v view app n"
    and gave: "upstream_gave app (asked n) start cursor page"
  let ?s = "snd (insert_get_events_page st (page_of cursor start params page) (store n))"
  from performsD [OF insert_page, of "page_of cursor start params page" "store n"]
  consider "view ?s = view (store n)"
    | "slot_free (page_of cursor start params page) (view (store n))"
      "page_stored (page_of cursor start params page) (view (store n)) (view ?s)"
    by blast
  then show "bootnode_inv v view app
      (snd (on_store (insert_get_events_page st (page_of cursor start params page)) n))"
  proof cases
    case 1
    with inv show ?thesis by (auto intro: bootnode_inv_cong)
  next
    case 2
    with inv assms gave show ?thesis by (simp add: bootnode_inv_stored)
  qed
qed simp

lemma keeps_caught_up:
  "keeps (bootnode_inv v view app) P (on_store (mark_caught_up st c l)) (\<lambda>_ _. True)"
proof -
  have split: "on_store (mark_caught_up st c l) =
      bind_io (on_store (update_cursor st c)) (\<lambda>_.
      bind_io (on_store (set_last_fully_indexed_ledger st l)) (\<lambda>_. on_store (set_in_sync st True)))"
    by (rule ext) (simp add: mark_caught_up_def on_store_def bind_io_def split: prod.split sum.split)
  show ?thesis
    unfolding split
    by (rule keeps_bind, rule keeps_store_writes, rule keeps_bind) (rule keeps_store_writes)+
qed

lemma keeps_index_pages:
  assumes "slot_of app cursor start" and "app_storage app = st"
  shows "keeps (bootnode_inv v view app) P (index_pages app k cursor start) (\<lambda>_ _. True)"
  using assms(1)
proof (induction k arbitrary: cursor start P)
  case 0
  show ?case by (simp add: keeps_return)
next
  case (Suc k)
  have next_slot: "slot_of app (Some c) None" for c by (simp add: slot_of_def)
  show ?case
    unfolding index_pages.simps Let_def assms(2)
  proof (rule keeps_bind [OF keeps_ask_events], goal_cases)
    case (1 page)
    show ?case
    proof (cases "events page = []")
      case True
      then show ?thesis by (simp add: keeps_caught_up)
    next
      case False
      have store: "keeps (bootnode_inv v view app)
          (\<lambda>n. events page \<noteq> [] \<longrightarrow> upstream_gave app (asked n) start cursor page)
          (bind_io (on_store (set_in_sync st False)) (\<lambda>_.
             on_store (insert_get_events_page st (page_of cursor start
               (for_contracts (app_contract_ids app) start cursor (page_size (cfg app))) page))))
          (\<lambda>_ _. True)"
        using False Suc.prems
        by (intro keeps_bind [OF keeps_set_in_sync [where Q = "\<lambda>k. events page \<noteq> [] \<longrightarrow> upstream_gave app k start cursor page"]])
          (simp add: keeps_insert)
      have "keeps (bootnode_inv v view app) (\<lambda>_. True)
          (bind_io (on_store (update_cursor st (next_cursor page))) (\<lambda>_.
             index_pages app k (Some (next_cursor page)) None)) (\<lambda>_ _. True)"
        by (rule keeps_bind [OF keeps_store_writes(1)]) (rule Suc.IH [OF next_slot])
      from keeps_bind [OF store this] False show ?thesis by simp
    qed
  qed
qed

lemma keeps_round:
  assumes "app_storage app = st"
  shows "keeps (bootnode_inv v view app) P (run_round app) (\<lambda>_ _. True)"
  unfolding run_round_def assms
  by (intro keeps_bind [OF keeps_ask_latest] keeps_bind [OF keeps_put_tip]
      keeps_bind [OF keeps_store_writes(3)]
      keeps_bind [OF keeps_read [OF load_kv, where Q = "\<lambda>_. True"]]
      keeps_index_pages assms) (auto simp: slot_of_def split: option.split)

lemma answers_miss:
  assumes "app_storage app = st"
  shows "answers view (request_fails app params) (cache_miss_or_handoff app t (0 < t) (handoff_from app t))
    (\<lambda>v _. if 0 < t \<and> in_sync v then Inl (RetentionHandoff (handoff_from app t))
           else Inl (cache_miss_for_tip t))"
proof -
  have kv: "answers view (request_fails app params) (if kv_in_sync kv then fail_io (RetentionHandoff (handoff_from app t))
        else fail_io (cache_miss_for_tip t) :: ('s node, rpc_error, get_events_response) run)
      (\<lambda>_ _. if kv_in_sync kv then Inl (RetentionHandoff (handoff_from app t))
             else Inl (cache_miss_for_tip t))" for kv
    by (simp add: answers_fail)
  have "answers view (request_fails app params) (bind_io (map_err_io InternalError (on_store (load_kv st))) (\<lambda>kv.
        if kv_in_sync kv then fail_io (RetentionHandoff (handoff_from app t))
        else fail_io (cache_miss_for_tip t)) :: ('s node, rpc_error, get_events_response) run)
      (\<lambda>v _. if in_sync v then Inl (RetentionHandoff (handoff_from app t))
             else Inl (cache_miss_for_tip t))"
    using answers_read [OF load_kv, where fails = "request_fails app params" and f = "\<lambda>kv _ _. if kv_in_sync kv
        then Inl (RetentionHandoff (handoff_from app t)) else Inl (cache_miss_for_tip t)", OF _ kv]
    by (simp add: kv_of_def request_fails_def assms)
  from answers_if [OF answers_fail this, of "t = 0" "cache_miss_for_tip t"] show ?thesis
    by (cases "t = 0") (simp_all add: cache_miss_or_handoff_def assms)
qed

lemma answers_cached:
  assumes "app_storage app = st" and "reads view m h"
    and "\<And>s e. fst (m s) = Inl e \<Longrightarrow> request_fails app params s e"
  shows "answers view (request_fails app params)
     (bind_io (map_err_io InternalError (on_store m)) (\<lambda>cached.
        case cached of
          None \<Rightarrow> cache_miss_or_handoff app t (0 < t) (handoff_from app t)
        | Some result \<Rightarrow> return_io result))
     (\<lambda>v _. case h v of Some page \<Rightarrow> Inr page
        | None \<Rightarrow> if 0 < t \<and> in_sync v then Inl (RetentionHandoff (handoff_from app t))
                 else Inl (cache_miss_for_tip t))"
proof -
  have "answers view (request_fails app params)
      (case cached of
          None \<Rightarrow> cache_miss_or_handoff app t (0 < t) (handoff_from app t)
        | Some result \<Rightarrow> return_io result)
      (\<lambda>v _. case cached of Some page \<Rightarrow> Inr page
        | None \<Rightarrow> if 0 < t \<and> in_sync v then Inl (RetentionHandoff (handoff_from app t))
                 else Inl (cache_miss_for_tip t))" for cached
    using answers_miss [OF assms(1)] by (cases cached) (simp_all add: answers_return)
  from answers_read [OF assms(2) assms(3) this] show ?thesis .
qed

lemma answers_get_events:
  assumes "app_storage app = st" and "supported app params"
  shows "answers view (request_fails app params) (get_events app params) (answer_of app params)"
proof (cases "start_ledger params")
  case (Some l)
  with assms(2) have c: "page_cursor (pagination params) = None" by (simp add: supported_def)
  have step: "answers view (request_fails app params)
      (if 0 < t \<and> at_or_past (Some l) (handoff_from app t) then fail_io (RetentionHandoff (handoff_from app t))
       else bind_io (map_err_io InternalError (on_store (get_cached_get_events_by_start_ledger st l))) (\<lambda>cached.
         case cached of
           None \<Rightarrow> cache_miss_or_handoff app t (0 < t) (handoff_from app t)
         | Some result \<Rightarrow> return_io result))
      (\<lambda>v _. answer_of app params v t)" for t
    unfolding answer_of_def ledger_at_def page_at_def Some option.case
    by (rule answers_if [OF answers_fail answers_cached [OF assms(1) get_by_start]])
      (simp add: request_fails_def assms(1) Some)
  have "get_events app params = bind_io load_tip (\<lambda>t.
      if 0 < t \<and> at_or_past (Some l) (handoff_from app t) then fail_io (RetentionHandoff (handoff_from app t))
       else bind_io (map_err_io InternalError (on_store (get_cached_get_events_by_start_ledger st l))) (\<lambda>cached.
         case cached of
           None \<Rightarrow> cache_miss_or_handoff app t (0 < t) (handoff_from app t)
         | Some result \<Rightarrow> return_io result))"
    using assms
    by (simp add: get_events_def get_events_handler_def supported_def parsed_def Some c Let_def
        handoff_from_def [symmetric] cong: if_cong)
  with answers_load_tip [OF step] show ?thesis by simp
next
  case None
  with assms(2) obtain c where c: "page_cursor (pagination params) = Some c"
    by (auto simp: supported_def)
  have step: "answers view (request_fails app params)
      (if 0 < t \<and> at_or_past last_ledger (handoff_from app t)
       then fail_io (RetentionHandoff (handoff_from app t))
       else bind_io (map_err_io InternalError (on_store (get_cached_get_events_by_cursor st c))) (\<lambda>cached.
         case cached of
           None \<Rightarrow> cache_miss_or_handoff app t (0 < t) (handoff_from app t)
         | Some result \<Rightarrow> return_io result))
      (\<lambda>v _. if 0 < t \<and> at_or_past last_ledger (handoff_from app t)
        then Inl (RetentionHandoff (handoff_from app t))
        else case cache_by_cursor_in v c of Some page \<Rightarrow> Inr page
        | None \<Rightarrow> if 0 < t \<and> in_sync v then Inl (RetentionHandoff (handoff_from app t))
                 else Inl (cache_miss_for_tip t))" for t last_ledger
    by (rule answers_if [OF answers_fail answers_cached [OF assms(1) get_by_cursor]])
      (simp add: request_fails_def assms(1) c)
  have "get_events app params = bind_io load_tip (\<lambda>t.
      bind_io (map_err_io InternalError (on_store (lookup_last_event_ledger_for_cursor st c))) (\<lambda>last_ledger.
      if 0 < t \<and> at_or_past last_ledger (handoff_from app t)
       then fail_io (RetentionHandoff (handoff_from app t))
       else bind_io (map_err_io InternalError (on_store (get_cached_get_events_by_cursor st c))) (\<lambda>cached.
         case cached of
           None \<Rightarrow> cache_miss_or_handoff app t (0 < t) (handoff_from app t)
         | Some result \<Rightarrow> return_io result)))"
    using assms
    by (simp add: get_events_def get_events_handler_def supported_def parsed_def None c Let_def
        handoff_from_def [symmetric] cong: if_cong)
  moreover have "answer_of app params = (\<lambda>v t.
      if 0 < t \<and> at_or_past (ledger_by_cursor_out v c) (handoff_from app t)
        then Inl (RetentionHandoff (handoff_from app t))
        else case cache_by_cursor_in v c of Some page \<Rightarrow> Inr page
        | None \<Rightarrow> if 0 < t \<and> in_sync v then Inl (RetentionHandoff (handoff_from app t))
                 else Inl (cache_miss_for_tip t))"
    by (intro ext) (simp add: answer_of_def ledger_at_def page_at_def None c)
  ultimately show ?thesis
    using answers_load_tip [OF answers_read [OF lookup_cursor [of c] _ step]]
    by (simp add: request_fails_def assms(1) c)
qed

end

end
