(* ===== verification/BootnodeHistory.thy ===== *)
theory BootnodeHistory
  imports BootnodeFacts
begin

text \<open>
  Properties of the bootnode: what it may serve in any history, how it answers each request, and
  that its indexer reaches the tip of a quiet upstream.
\<close>

section \<open>Every step keeps the invariant\<close>

lemma keeps_read_any:
  assumes "reads view m f"
  shows "keeps (bootnode_inv v view app) P (map_err_io g (on_store m)) (\<lambda>_ _. True)"
  by (rule keeps_map_err, rule keeps_weaken [OF keeps_read [OF assms, where Q = "\<lambda>_. True"]]) simp_all

context event_storage
begin

lemma keeps_health:
  assumes "app_storage app = st"
  shows "keeps (bootnode_inv v view app) P (healthz app) (\<lambda>_ _. True)"
proof -
  have tip: "keeps (bootnode_inv v view app) (\<lambda>_. True) load_tip (\<lambda>_ _. True)"
    by (simp add: keeps_def load_tip_def)
  show ?thesis
    unfolding healthz_def assms
    by (rule keeps_bind [OF keeps_read_any [OF ping]], rule keeps_bind [OF tip])
      (auto intro!: keeps_fail keeps_return keeps_bind [OF keeps_read_any [OF load_kv]])
qed

lemma step_inv:
  assumes "app_storage app = st" and "bootnode_step c deployment app n n'"
    and "bootnode_inv v view app n"
  shows "bootnode_inv v view app n'"
  using assms(2)
proof cases
  case step_round
  with keeps_round [OF assms(1), of v "\<lambda>_. True"] assms(3) show ?thesis by (simp add: keeps_def)
next
  case (step_events params)
  show ?thesis
  proof (cases "supported app params")
    case True
    from answers_get_events [OF assms(1) this] assms(3) show ?thesis
      unfolding step_events answers_def by (metis bootnode_inv_cong order_refl)
  next
    case False
    with get_events_unsupported [OF False, of n] step_events assms(3) show ?thesis by auto
  qed
next
  case step_latest
  with keeps_map_err [OF keeps_ask_latest, of v view app "\<lambda>_. True" InternalError] assms(3) show ?thesis
    by (simp add: keeps_def get_latest_ledger_def)
next
  case step_health
  with keeps_health [OF assms(1), of v "\<lambda>_. True"] assms(3) show ?thesis by (simp add: keeps_def)
next
  case (step_restart t s)
  then have "snd (load_kv st (store n)) = s"
    by (auto simp: bootnode_setup_def assms(1) fail_io_def return_io_def bind_io_def
        split: sum.splits prod.splits)
  with readsD(1) [OF load_kv, of "store n"] have "view s = view (store n)" by simp
  with assms(3) step_restart show ?thesis by (auto intro: bootnode_inv_cong)
qed

lemma steps_inv:
  assumes "(bootnode_step c deployment app)\<^sup>*\<^sup>* n n'" and "app_storage app = st"
    and "bootnode_inv v view app n"
  shows "bootnode_inv v view app n'"
  using assms(1)
  by (induction rule: rtranclp_induct) (use assms(3) step_inv [OF assms(2)] in blast)+

lemma reach_inv:
  assumes "bootnode_reach c deployment view app n" and "app_storage app = st"
  shows "bootnode_inv fresh_memory view app n"
  using assms(1)
proof induction
  case (reach_setup s t s')
  then have "snd (load_kv st s) = s'"
    by (auto simp: bootnode_setup_def assms(2) fail_io_def return_io_def bind_io_def
        split: sum.splits prod.splits)
  with readsD(1) [OF load_kv, of s] reach_setup have "view s' = fresh_memory" by simp
  then show ?case by (simp add: bootnode_inv_def fresh_memory_def)
next
  case (reach_step n n')
  with step_inv [OF assms(2)] show ?case by blast
qed

text \<open>What is cached now is still there after any further steps.\<close>

lemma steps_keep_pages:
  assumes "bootnode_reach c deployment view app n" and "app_storage app = st"
    and "(bootnode_step c deployment app)\<^sup>*\<^sup>* n n'" and "page_at (view (store n)) params = Some page"
  shows "page_at (view (store n')) params = Some page"
proof -
  have "bootnode_inv (view (store n)) view app n"
    using reach_inv [OF assms(1,2)] by (simp add: bootnode_inv_def)
  from steps_inv [OF assms(3,2) this] assms(4) show ?thesis
    by (auto simp: bootnode_inv_def page_at_def map_le_def bind_eq_Some_conv dom_def
        split: option.splits)
qed

lemma served_page:
  assumes "app_storage app = st" and "get_events app params n = (Inr page, n')"
  shows "supported app params" and "page_at (view (store n)) params = Some page"
    and "view (store n') = view (store n)"
    and "0 < tip n \<Longrightarrow> \<not> at_or_past (ledger_at (view (store n)) params) (handoff_from app (tip n))"
proof -
  show sup: "supported app params"
    using get_events_unsupported [of app params n] assms(2) by (metis Pair_inject sum.distinct(1))
  from answers_get_events [OF assms(1) this] assms(2)
  have ans: "view (store n') = view (store n)"
    "answer_of app params (view (store n)) (tip n) = Inr page"
    unfolding answers_def by (metis fst_conv snd_conv sum.distinct(1))+
  show "view (store n') = view (store n)" by (rule ans)
  show "page_at (view (store n)) params = Some page"
    using ans(2) by (auto simp: answer_of_def split: if_splits option.splits)
  show "0 < tip n \<Longrightarrow> \<not> at_or_past (ledger_at (view (store n)) params) (handoff_from app (tip n))"
    using ans(2) by (auto simp: answer_of_def split: if_splits)
qed

end

section \<open>What may be served\<close>

text \<open>
  C31: The bootnode serves the upstream's pages. Whatever the upstream answers, however often its
  questions or the store fail and the node restarts: a page served for a request is a non-empty
  answer that the upstream gave, earlier, to the indexer's request for the same start ledger or
  cursor and the same contracts, and only the first deployment ledger is served as a start ledger.
  Once the tip is known, a start ledger that is served lies before the redirect window. So
  does the ledger kept for a cursor that is served, if one is kept; it is the ledger of the last event of
  an answer of the upstream that ended with this cursor. The events of the served page itself come after
  that ledger and may lie inside the window.
\<close>

theorem served_pages_are_upstream_answers:
  assumes "event_storage (app_storage app) view"
    and "bootnode_reach c deployment view app n"
    and "get_events app params n = (Inr page, n')"
  shows "supported app params \<and> events page \<noteq> []
    \<and> (\<exists>j<asked n. upstream_events (app_upstream app) j
         (for_contracts (app_contract_ids app) (start_ledger params) (page_cursor (pagination params))
            (page_size (cfg app))) = Inr page)
    \<and> (\<forall>l. start_ledger params = Some l \<longrightarrow> l = first_ledger app
         \<and> (tip n = 0 \<or> l < tip n - cutoff_ledgers (redirect_days (cfg app)) (ledger_seconds (cfg app))))
    \<and> (\<forall>k l. page_cursor (pagination params) = Some k \<longrightarrow> ledger_by_cursor_out (view (store n)) k = Some l \<longrightarrow>
         (tip n = 0 \<or> l < tip n - cutoff_ledgers (redirect_days (cfg app)) (ledger_seconds (cfg app)))
         \<and> (\<exists>j<asked n. \<exists>start cursor q. upstream_events (app_upstream app) j
               (for_contracts (app_contract_ids app) start cursor (page_size (cfg app))) = Inr q
             \<and> events q \<noteq> [] \<and> next_cursor q = k \<and> event_ledger (last (events q)) = l))"
proof -
  note served = event_storage.served_page [OF assms(1) refl assms(3)]
  have inv: "bootnode_inv fresh_memory view app n"
    by (rule event_storage.reach_inv [OF assms(1,2) refl])
  then have ended: "\<exists>j<asked n. \<exists>start cursor q. upstream_events (app_upstream app) j
      (for_contracts (app_contract_ids app) start cursor (page_size (cfg app))) = Inr q
      \<and> events q \<noteq> [] \<and> next_cursor q = k \<and> event_ledger (last (events q)) = l"
    if "ledger_by_cursor_out (view (store n)) k = Some l" for k l
    using that by (fastforce simp: bootnode_inv_def ended_before_def upstream_gave_def)
  show ?thesis
  proof (cases "start_ledger params")
    case None
    with served(2) obtain k where k: "page_cursor (pagination params) = Some k"
      "cache_by_cursor_in (view (store n)) k = Some page"
      by (auto simp: page_at_def bind_eq_Some_conv)
    with inv have "upstream_gave app (asked n) None (Some k) page" by (simp add: bootnode_inv_def)
    moreover have "tip n = 0 \<or> l < tip n - cutoff_ledgers (redirect_days (cfg app)) (ledger_seconds (cfg app))"
      if "ledger_by_cursor_out (view (store n)) k = Some l" for l
      using served(4) None k(1) that
      by (cases "tip n = 0") (simp_all add: ledger_at_def at_or_past_def handoff_from_def not_le)
    ultimately show ?thesis
      using served(1) None k(1) ended by (simp add: upstream_gave_def)
  next
    case (Some l)
    with served(1) have "page_cursor (pagination params) = None" by (simp add: supported_def)
    moreover from inv Some served(2) have "upstream_gave app (asked n) (Some l) None page \<and> l = first_ledger app"
      by (simp add: bootnode_inv_def page_at_def)
    ultimately show ?thesis
      using served Some by (cases "tip n = 0") (auto simp: upstream_gave_def ledger_at_def at_or_past_def handoff_from_def)
  qed
qed

text \<open>
  A served page never changes. When a request was answered with a page, and after any further
  rounds, requests, failures and restarts a request for the same start ledger or cursor is
  answered with a page, it is the same page.
\<close>

theorem served_pages_never_change:
  assumes "event_storage (app_storage app) view"
    and "bootnode_reach c deployment view app n"
    and "get_events app params n = (Inr page, n')"
    and "(bootnode_step c deployment app)\<^sup>*\<^sup>* n' m"
    and "get_events app params' m = (Inr page', m')"
    and "start_ledger params' = start_ledger params"
    and "page_cursor (pagination params') = page_cursor (pagination params)"
  shows "page' = page"
proof -
  have "bootnode_step c deployment app n n'"
    using step_events [of c deployment app n params] assms(3) by simp
  with assms(4) have steps: "(bootnode_step c deployment app)\<^sup>*\<^sup>* n m"
    by (rule converse_rtranclp_into_rtranclp [rotated])
  have "page_at (view (store m)) params = Some page"
    by (rule event_storage.steps_keep_pages [OF assms(1,2) refl steps])
      (rule event_storage.served_page(2) [OF assms(1) refl assms(3)])
  moreover have "page_at (view (store m)) params' = Some page'"
    by (rule event_storage.served_page(2) [OF assms(1) refl assms(5)])
  moreover have "page_at (view (store m)) params' = page_at (view (store m)) params"
    by (simp add: page_at_def assms(6,7) cong: option.case_cong)
  ultimately show ?thesis by simp
qed

text \<open>
  How every request is answered. A request with unsupported parameters is refused. Any other is
  answered as \<open>answer_of\<close> says, which depends on the stored view and the ledger tip alone: a handoff
  when the tip is known and the requested ledger, or the last ledger before the cursor, has reached
  the redirect window; else the cached page; without one a handoff when the indexer is in
  sync, and otherwise a cache miss. An internal error is answered only with the error of a read of the
  store that failed: that of the index state, of the page for the requested start ledger, or of the page or the
  ledger for the requested cursor. No request changes what is stored.
\<close>

theorem get_events_outcomes:
  assumes "event_storage (app_storage app) view"
    and "get_events app params n = (answer, n')"
  shows "view (store n') = view (store n)
    \<and> (if supported app params
       then answer = answer_of app params (view (store n)) (tip n)
          \<or> (\<exists>s e. answer = Inl (InternalError e) \<and> view s = view (store n) \<and>
               (fst (load_kv (app_storage app) s) = Inl e
              \<or> (\<exists>l. start_ledger params = Some l
                   \<and> fst (get_cached_get_events_by_start_ledger (app_storage app) l s) = Inl e)
              \<or> (\<exists>c. page_cursor (pagination params) = Some c
                   \<and> (fst (lookup_last_event_ledger_for_cursor (app_storage app) c s) = Inl e
                      \<or> fst (get_cached_get_events_by_cursor (app_storage app) c s) = Inl e))))
       else \<exists>msg. answer = Inl (InvalidParams msg))"
proof (cases "supported app params")
  case True
  from event_storage.answers_get_events [OF assms(1) refl True] assms(2) show ?thesis
    unfolding answers_def request_fails_def using True by (metis fst_conv snd_conv)
next
  case False
  with get_events_unsupported [OF False, of n] assms(2) show ?thesis by auto
qed

section \<open>Reaching the tip\<close>

text \<open>
  The pages of an upstream that answers the same request always alike: each non-empty page leads to
  the next by its cursor, the last one is empty.
\<close>

fun page_chain ::
  "(get_events_params \<Rightarrow> get_events_response) \<Rightarrow> 's app \<Rightarrow> string option \<Rightarrow> nat option
     \<Rightarrow> get_events_response list \<Rightarrow> bool" where
  "page_chain f app cursor start [] \<longleftrightarrow> False"
| "page_chain f app cursor start (r # rs) \<longleftrightarrow>
     f (for_contracts (app_contract_ids app) start cursor (page_size (cfg app))) = r \<and>
     (if rs = [] then events r = []
      else events r \<noteq> [] \<and> page_chain f app (Some (next_cursor r)) None rs)"

lemma page_chain_unique:
  "page_chain f app cursor start ps \<Longrightarrow> page_chain f app cursor start qs \<Longrightarrow> ps = qs"
proof (induction ps arbitrary: cursor start qs)
  case (Cons r rs)
  then obtain ws where "qs = r # ws" by (cases qs) auto
  with Cons show ?case by (auto split: if_splits)
qed simp

lemma page_chain_suffix:
  "page_chain f app cursor start (us @ q # ws) \<Longrightarrow> ws \<noteq> []
     \<Longrightarrow> events q \<noteq> [] \<and> page_chain f app (Some (next_cursor q)) None ws"
  by (induction us arbitrary: cursor start) (auto split: if_splits)

text \<open>So no cursor repeats: the pages after it would have to be the same.\<close>

lemma page_chain_distinct:
  "page_chain f app cursor start ps \<Longrightarrow> distinct (map next_cursor (butlast ps))"
proof (induction ps arbitrary: cursor start)
  case (Cons r rs)
  show ?case
  proof (cases "rs = []")
    case False
    with Cons.prems have rest: "page_chain f app (Some (next_cursor r)) None rs" by simp
    have "next_cursor r \<notin> set (map next_cursor (butlast rs))"
    proof
      assume "next_cursor r \<in> set (map next_cursor (butlast rs))"
      then obtain us q ws where "butlast rs = us @ q # ws" "next_cursor q = next_cursor r"
        by (metis in_set_conv_decomp list.set_map imageE)
      with False have rs: "rs = us @ q # (ws @ [last rs])"
        by (metis append.assoc append_Cons append_butlast_last_id)
      have "page_chain f app (Some (next_cursor r)) None (us @ q # (ws @ [last rs]))"
        by (rule subst [OF rs, where P = "page_chain f app (Some (next_cursor r)) None", OF rest])
      from page_chain_suffix [OF this] \<open>next_cursor q = next_cursor r\<close>
      have "page_chain f app (Some (next_cursor r)) None (ws @ [last rs])" by simp
      from page_chain_unique [OF rest this] have "length rs = length (ws @ [last rs])"
        by (rule arg_cong)
      moreover from rs have "length rs = length (us @ q # (ws @ [last rs]))" by (rule arg_cong)
      ultimately show False by simp
    qed
    with False Cons.IH [OF rest] show ?thesis by simp
  qed simp
qed simp

text \<open>What the indexer leaves in memory after a list of non-empty pages.\<close>

definition indexed_page :: "'s app \<Rightarrow> string option \<Rightarrow> nat option \<Rightarrow> get_events_response \<Rightarrow> insert_page" where
  "indexed_page app cursor start r =
     page_of cursor start (for_contracts (app_contract_ids app) start cursor (page_size (cfg app))) r"

fun crawl ::
  "'s app \<Rightarrow> string option \<Rightarrow> nat option \<Rightarrow> get_events_response list \<Rightarrow> mem_state \<Rightarrow> mem_state" where
  "crawl app cursor start [] v = v"
| "crawl app cursor start (r # rs) v =
     (let page = indexed_page app cursor start r in
      crawl app (Some (next_cursor r)) None rs
        ((put_cursor_ledger page (put_page page (v\<lparr>in_sync := False\<rparr>)))
           \<lparr>last_cursor := Some (next_cursor r)\<rparr>))"

lemma memory_ops [io_simps]:
  "update_cursor in_memory c v = (Inr (), v\<lparr>last_cursor := Some c\<rparr>)"
  "set_last_fully_indexed_ledger in_memory l v = (Inr (), v\<lparr>last_fully_indexed_ledger := l\<rparr>)"
  "set_ledger_tip in_memory l v = (Inr (), v\<lparr>ledger_tip := l\<rparr>)"
  "set_in_sync in_memory b v = (Inr (), v\<lparr>in_sync := b\<rparr>)"
  "load_kv in_memory v = (Inr (kv_of v), v)"
  by (simp_all add: in_memory_def with_state_def with_state_mut_def)

lemma memory_insert [io_simps]:
  assumes "slot_free page v" and "events (page_result page) \<noteq> []"
  shows "insert_get_events_page in_memory page v = (Inr (), put_cursor_ledger page (put_page page v))"
  using assms
  by (auto simp: insert_get_events_page_def slot_taken_def slot_free_def bind_io_def return_io_def
      in_memory_def with_state_def with_state_mut_def split: option.splits)

lemma memory_caught_up [io_simps]:
  "mark_caught_up in_memory c l v =
     (Inr (), v\<lparr>last_cursor := Some c, last_fully_indexed_ledger := l, in_sync := True\<rparr>)"
  by (simp add: mark_caught_up_def io_simps bind_io_def)

text \<open>One page of a round, on a reliable upstream and an in-memory store.\<close>

lemma index_page_more:
  assumes "app_storage app = in_memory"
    and "upstream_events (app_upstream app) (asked n)
           (for_contracts (app_contract_ids app) start cursor (page_size (cfg app))) = Inr r"
    and "events r \<noteq> []" and "slot_free (indexed_page app cursor start r) (store n)"
  shows "index_pages app (Suc k) cursor start n =
    index_pages app k (Some (next_cursor r)) None
      (n\<lparr>asked := Suc (asked n), store := crawl app cursor start [r] (store n)\<rparr>)"
proof -
  have "slot_free (indexed_page app cursor start r) ((store n)\<lparr>in_sync := False\<rparr>)"
    using assms(4) by (auto simp: slot_free_def split: option.splits)
  with assms(1-3) show ?thesis
    by (simp add: ask_events_def bind_io_def on_store_def io_simps indexed_page_def Let_def page_of_def)
qed

lemma index_page_last:
  assumes "app_storage app = in_memory"
    and "upstream_events (app_upstream app) (asked n)
           (for_contracts (app_contract_ids app) start cursor (page_size (cfg app))) = Inr r"
    and "events r = []"
  shows "index_pages app (Suc k) cursor start n =
    (Inr (), n\<lparr>asked := Suc (asked n), store := (store n)\<lparr>last_cursor := Some (next_cursor r),
       last_fully_indexed_ledger := latest_ledger r, in_sync := True\<rparr>\<rparr>)"
  using assms by (simp add: ask_events_def bind_io_def on_store_def io_simps Let_def)

text \<open>
  Slots as pairs of a cursor and a start ledger, exactly one of them given, and the slots that the
  pages of a chain go to.
\<close>

definition lookup :: "mem_state \<Rightarrow> string option \<Rightarrow> nat option \<Rightarrow> get_events_response option" where
  "lookup v cursor start =
     (case cursor of
        Some c \<Rightarrow> cache_by_cursor_in v c
      | None \<Rightarrow> Option.bind start (cache_by_start_ledger v))"

fun slots ::
  "string option \<Rightarrow> nat option \<Rightarrow> get_events_response list
     \<Rightarrow> ((string option \<times> nat option) \<times> get_events_response) list" where
  "slots cursor start [] = []"
| "slots cursor start (r # rs) = ((cursor, start), r) # slots (Some (next_cursor r)) None rs"

fun end_slot ::
  "string option \<Rightarrow> nat option \<Rightarrow> get_events_response list \<Rightarrow> string option \<times> nat option" where
  "end_slot cursor start [] = (cursor, start)"
| "end_slot cursor start (r # rs) = end_slot (Some (next_cursor r)) None rs"

lemma slot_free_lookup:
  "slot_free page v \<longleftrightarrow> lookup v (cursor_in page) (page_start_ledger page) = None"
  by (simp add: slot_free_def lookup_def split: option.split)

lemma slots_append:
  "slots c s (us @ ws) = slots c s us @ (case end_slot c s us of (c', s') \<Rightarrow> slots c' s' ws)"
  by (induction us arbitrary: c s) simp_all

lemma crawl_append:
  "crawl app c s (us @ ws) v = (case end_slot c s us of (c', s') \<Rightarrow> crawl app c' s' ws (crawl app c s us v))"
  by (induction us arbitrary: c s v) (simp_all add: Let_def)

lemma slots_valid:
  "((c, s), q) \<in> set (slots c0 s0 rs) \<Longrightarrow> (c0 = None) \<noteq> (s0 = None) \<Longrightarrow> (c = None) \<noteq> (s = None)"
proof (induction rs arbitrary: c0 s0)
  case (Cons r rs)
  then show ?case using Cons.IH [of "Some (next_cursor r)" None] by auto
qed simp

lemma put_cursor_ledger_keeps [simp]:
  "last_cursor (put_cursor_ledger page v) = last_cursor v"
  "last_cursor (put_page page v) = last_cursor v"
  "put_cursor_ledger page (v\<lparr>ledger_tip := t\<rparr>) = (put_cursor_ledger page v)\<lparr>ledger_tip := t\<rparr>"
  "put_page page (v\<lparr>ledger_tip := t\<rparr>) = (put_page page v)\<lparr>ledger_tip := t\<rparr>"
  "lookup (v\<lparr>ledger_tip := t\<rparr>) = lookup v" "lookup (v\<lparr>last_cursor := k\<rparr>) = lookup v"
  "lookup (v\<lparr>in_sync := b\<rparr>) = lookup v" "lookup (v\<lparr>last_fully_indexed_ledger := l\<rparr>) = lookup v"
  "lookup (put_cursor_ledger page v) = lookup v"
  by (auto simp: put_cursor_ledger_def put_page_def lookup_def fun_eq_iff split: option.splits)

lemma lookup_put_page:
  assumes "(c = None) \<noteq> (s = None)" and "(cursor_in page = None) \<noteq> (page_start_ledger page = None)"
  shows "lookup (put_page page v) c s =
    (if (c, s) = (cursor_in page, page_start_ledger page) then Some (page_result page) else lookup v c s)"
  using assms by (auto simp: put_page_def lookup_def split: option.splits if_splits)

lemma crawl_tip: "crawl app c s rs (v\<lparr>ledger_tip := t\<rparr>) = (crawl app c s rs v)\<lparr>ledger_tip := t\<rparr>"
proof (induction rs arbitrary: c s v)
  case (Cons r rs)
  have "put_page page (v\<lparr>ledger_tip := t, in_sync := False\<rparr>)
      = (put_page page (v\<lparr>in_sync := False\<rparr>))\<lparr>ledger_tip := t\<rparr>" for page
  proof -
    have swap: "v\<lparr>ledger_tip := t, in_sync := False\<rparr> = v\<lparr>in_sync := False, ledger_tip := t\<rparr>" by simp
    show ?thesis unfolding swap by (rule put_cursor_ledger_keeps(4))
  qed
  moreover have "crawl app (Some k) None rs (w\<lparr>ledger_tip := t, last_cursor := Some k\<rparr>)
      = (crawl app (Some k) None rs (w\<lparr>last_cursor := Some k\<rparr>))\<lparr>ledger_tip := t\<rparr>" for w k
  proof -
    have swap: "w\<lparr>ledger_tip := t, last_cursor := Some k\<rparr> = w\<lparr>last_cursor := Some k, ledger_tip := t\<rparr>" by simp
    show ?thesis unfolding swap by (rule Cons.IH)
  qed
  ultimately show ?case by (simp add: Let_def)
qed simp

lemma last_cursor_crawl:
  "last_cursor (crawl app c s rs v) = (if rs = [] then last_cursor v else fst (end_slot c s rs))"
  by (induction rs arbitrary: c s v) (simp_all add: Let_def)

lemma end_slot_snoc: "end_slot c s (rs @ [r]) = (Some (next_cursor r), None)"
  by (induction rs arbitrary: c s) simp_all

lemma lookup_crawl:
  assumes "distinct (map fst (slots c0 s0 rs))" and "(c0 = None) \<noteq> (s0 = None)"
    and "(c = None) \<noteq> (s = None)"
  shows "lookup (crawl app c0 s0 rs v) c s =
    (case map_of (slots c0 s0 rs) (c, s) of Some r \<Rightarrow> Some r | None \<Rightarrow> lookup v c s)"
  using assms(1,2)
proof (induction rs arbitrary: c0 s0 v)
  case (Cons r rs)
  from Cons.prems(1) have notin: "map_of (slots (Some (next_cursor r)) None rs) (c0, s0) = None"
    by (simp add: map_of_eq_None_iff)
  have "lookup (put_page (indexed_page app c0 s0 r) w) c s =
      (if (c, s) = (c0, s0) then Some r else lookup w c s)" for w
    using lookup_put_page [OF assms(3), of "indexed_page app c0 s0 r" w] Cons.prems(2)
    by (simp add: indexed_page_def page_of_def)
  with Cons.IH [of "Some (next_cursor r)" None] Cons.prems(1) notin show ?case
    by (auto simp: Let_def split: option.split)
qed simp

lemma keys_of_slots:
  "map fst (slots c s rs) = take (length rs) ((c, s) # map (\<lambda>r. (Some (next_cursor r), None)) rs)"
  by (induction rs arbitrary: c s) simp_all

lemma page_chain_slots:
  assumes "page_chain f app None (Some l) ps"
  shows "distinct (map fst (slots None (Some l) (butlast ps)))"
proof -
  have "inj_on (\<lambda>r. (Some (next_cursor r), None :: nat option)) (set (butlast ps))
      \<longleftrightarrow> inj_on next_cursor (set (butlast ps))"
    by (simp add: inj_on_def)
  with page_chain_distinct [OF assms]
  have "distinct ((None, Some l) # map (\<lambda>r. (Some (next_cursor r), None)) (butlast ps))"
    by (auto simp: distinct_map)
  then show ?thesis unfolding keys_of_slots by (rule distinct_take)
qed

text \<open>A round from the middle of a chain.\<close>

definition caught_up :: "get_events_response \<Rightarrow> mem_state \<Rightarrow> mem_state" where
  "caught_up r v = v\<lparr>last_cursor := Some (next_cursor r),
     last_fully_indexed_ledger := latest_ledger r, in_sync := True\<rparr>"

lemma index_pages_crawl:
  assumes "app_storage app = in_memory"
    and "\<And>j params. upstream_events (app_upstream app) j params = Inr (f params)"
    and "page_chain f app cursor start ps" and "(cursor = None) \<noteq> (start = None)"
    and "distinct (map fst (slots cursor start (butlast ps)))"
    and "\<And>c s r. ((c, s), r) \<in> set (slots cursor start (butlast ps)) \<Longrightarrow> lookup (store n) c s = None"
  shows "index_pages app k cursor start n =
    (Inr (), n\<lparr>asked := asked n + min k (length ps),
       store := if k < length ps then crawl app cursor start (take k ps) (store n)
                else caught_up (last ps) (crawl app cursor start (butlast ps) (store n))\<rparr>)"
  using assms(3-)
proof (induction ps arbitrary: cursor start n k)
  case (Cons r rs)
  from Cons.prems(1) assms(2) have ask: "upstream_events (app_upstream app) (asked n)
      (for_contracts (app_contract_ids app) start cursor (page_size (cfg app))) = Inr r" by simp
  show ?case
  proof (cases k)
    case 0
    then show ?thesis by (simp add: return_io_def)
  next
    case (Suc j)
    show ?thesis
    proof (cases "rs = []")
      case True
      with Cons.prems(1) have "events r = []" by simp
      from index_page_last [OF assms(1) ask this] Suc True show ?thesis by (simp add: caught_up_def)
    next
      case False
      with Cons.prems(1) have ne: "events r \<noteq> []"
        and chain: "page_chain f app (Some (next_cursor r)) None rs" by simp_all
      let ?n = "n\<lparr>asked := Suc (asked n), store := crawl app cursor start [r] (store n)\<rparr>"
      have "lookup (store n) cursor start = None"
        using Cons.prems(4) [of cursor start r] False by simp
      then have free: "slot_free (indexed_page app cursor start r) (store n)"
        by (simp add: slot_free_lookup indexed_page_def page_of_def)
      have "lookup (store ?n) c s = None"
        if "((c, s), q) \<in> set (slots (Some (next_cursor r)) None (butlast rs))" for c s q
      proof -
        have valid: "(c = None) \<noteq> (s = None)"
          using slots_valid [OF that] by simp
        have "(c, s) \<noteq> (cursor, start)" using that Cons.prems(3) False by force
        moreover have "lookup (store n) c s = None" using that Cons.prems(4) [of c s q] False by simp
        ultimately show ?thesis
          using lookup_crawl [of cursor start "[r]" c s app "store n"] valid Cons.prems(2) by auto
      qed
      with Cons.IH [OF chain, of ?n j] Cons.prems(3) False
      have "index_pages app j (Some (next_cursor r)) None ?n =
        (Inr (), ?n\<lparr>asked := asked ?n + min j (length rs),
           store := if j < length rs then crawl app (Some (next_cursor r)) None (take j rs) (store ?n)
             else caught_up (last rs) (crawl app (Some (next_cursor r)) None (butlast rs) (store ?n))\<rparr>)"
        by simp
      with index_page_more [OF assms(1) ask ne free, of j] Suc False show ?thesis
        by (simp add: Let_def)
    qed
  qed
qed simp

lemma page_chain_drop:
  assumes "page_chain f app c s ps" and "m < length ps" and "end_slot c s (take m ps) = (c', s')"
  shows "page_chain f app c' s' (drop m ps)"
  using assms
proof (induction m arbitrary: c s ps)
  case (Suc m)
  then obtain r rs where "ps = r # rs" by (cases ps) auto
  with Suc show ?case by (auto split: if_splits)
qed simp

text \<open>Where a round takes up the chain, and where it leaves it.\<close>

lemma end_slot_take:
  assumes "m < length ps"
  shows "end_slot None (Some l) (take m ps) =
    (if m = 0 then None else Some (next_cursor (ps ! (m - 1))), if m = 0 then Some l else None)"
  using assms by (cases m) (simp_all add: take_Suc_conv_app_nth end_slot_snoc)

definition indexed_upto :: "'s app \<Rightarrow> get_events_response list \<Rightarrow> nat \<Rightarrow> nat \<Rightarrow> mem_state" where
  "indexed_upto app ps m t =
     (if m < length ps then crawl app None (Some (first_ledger app)) (take m ps) fresh_memory
      else caught_up (last ps)
             (crawl app None (Some (first_ledger app)) (butlast ps) fresh_memory))\<lparr>ledger_tip := t\<rparr>"

lemma round_advances:
  assumes "app_storage app = in_memory"
    and "\<And>j params. upstream_events (app_upstream app) j params = Inr (f params)"
    and "\<And>j. upstream_latest (app_upstream app) j = Inr latest"
    and chain: "page_chain f app None (Some (first_ledger app)) ps"
    and m: "m < length ps" and n: "store n = indexed_upto app ps m t"
  shows "store (snd (run_round app n)) =
      indexed_upto app ps (m + max_pages_per_round (cfg app)) (sequence latest)"
    and "tip (snd (run_round app n)) = sequence latest"
proof -
  let ?k = "max_pages_per_round (cfg app)" and ?l = "first_ledger app"
  let ?v = "crawl app None (Some ?l) (take m ps) fresh_memory"
  obtain c s where cs: "end_slot None (Some ?l) (take m ps) = (c, s)" by (cases "end_slot None (Some ?l) (take m ps)")
  with end_slot_take [OF m, of ?l] have valid: "(c = None) \<noteq> (s = None)" by (auto split: if_splits)
  let ?n = "n\<lparr>asked := Suc (asked n), tip := sequence latest,
      store := ?v\<lparr>ledger_tip := sequence latest\<rparr>\<rparr>"
  have "last_cursor ?v = c" "s = (if c = None then Some ?l else None)"
    using cs end_slot_take [OF m, of ?l] m
    by (auto simp: last_cursor_crawl fresh_memory_def split: if_splits)
  then have round: "run_round app n = index_pages app ?k c s ?n"
    using assms(1,3) n m
    by (simp add: run_round_def ask_latest_ledger_def put_tip_def on_store_def bind_io_def io_simps
        indexed_upto_def kv_of_def)
  have all: "butlast ps = take m ps @ butlast (drop m ps)"
    using m by (metis append_take_drop_id butlast_append drop_eq_Nil not_less)
  then have keys: "slots None (Some ?l) (butlast ps) =
      slots None (Some ?l) (take m ps) @ slots c s (butlast (drop m ps))"
    by (metis (no_types, lifting) cs slots_append case_prod_conv)
  with page_chain_slots [OF chain] have dist: "distinct (map fst (slots None (Some ?l) (take m ps)))"
    "distinct (map fst (slots c s (butlast (drop m ps))))"
    "fst ` set (slots None (Some ?l) (take m ps)) \<inter> fst ` set (slots c s (butlast (drop m ps))) = {}"
    by simp_all
  have free: "lookup (store ?n) c' s' = None" if "((c', s'), r) \<in> set (slots c s (butlast (drop m ps)))" for c' s' r
  proof -
    from that dist(3) have "map_of (slots None (Some ?l) (take m ps)) (c', s') = None"
      by (force simp: map_of_eq_None_iff)
    with lookup_crawl [OF dist(1) _ slots_valid [OF that valid], of app fresh_memory] show ?thesis
      by (simp add: lookup_def fresh_memory_def split: option.split)
  qed
  from index_pages_crawl [OF assms(1,2) page_chain_drop [OF chain m cs] valid dist(2) free, where k = ?k]
  have pages: "run_round app n = (Inr (), ?n\<lparr>asked := asked ?n + min ?k (length (drop m ps)),
      store := if ?k < length (drop m ps) then crawl app c s (take ?k (drop m ps)) (store ?n)
        else caught_up (last (drop m ps)) (crawl app c s (butlast (drop m ps)) (store ?n))\<rparr>)"
    unfolding round by simp
  have "crawl app None (Some ?l) (take (m + ?k) ps) fresh_memory = crawl app c s (take ?k (drop m ps)) ?v"
    by (simp add: take_add crawl_append cs)
  moreover have "crawl app None (Some ?l) (butlast ps) fresh_memory = crawl app c s (butlast (drop m ps)) ?v"
    by (subst all) (simp add: crawl_append cs)
  moreover have "last (drop m ps) = last ps" using m by (rule last_drop)
  ultimately show "store (snd (run_round app n)) = indexed_upto app ps (m + ?k) (sequence latest)"
    "tip (snd (run_round app n)) = sequence latest"
    using m by (auto simp: pages indexed_upto_def crawl_tip caught_up_def)
qed

text \<open>The in-memory store never fails, so the answer is exact.\<close>

lemma memory_answers:
  assumes "app_storage app = in_memory" and "supported app params"
  shows "fst (get_events app params n) = answer_of app params (store n) (tip n)"
proof -
  have "fst (get_events app params n) \<noteq> Inl (InternalError e)" for e
    using assms
    by (auto simp: get_events_def get_events_handler_def supported_def parsed_def bind_io_def load_tip_def
        map_err_io_def on_store_def in_memory_def with_state_def cache_miss_or_handoff_def fail_io_def
        return_io_def cache_miss_for_tip_def Let_def split: option.splits)
  with memory.answers_get_events [OF assms] show ?thesis unfolding answers_def by metis
qed

lemma rounds_advance:
  assumes "app_storage app = in_memory"
    and "\<And>j params. upstream_events (app_upstream app) j params = Inr (f params)"
    and "\<And>j. upstream_latest (app_upstream app) j = Inr latest"
    and "page_chain f app None (Some (first_ledger app)) ps" and "store n = fresh_memory"
  shows "i * max_pages_per_round (cfg app) < length ps
    \<Longrightarrow> \<exists>t. store (((\<lambda>n. snd (run_round app n)) ^^ i) n)
          = indexed_upto app ps (i * max_pages_per_round (cfg app)) t"
proof (induction i)
  case 0
  have "fresh_memory\<lparr>ledger_tip := 0\<rparr> = fresh_memory" by (simp add: fresh_memory_def)
  then have "indexed_upto app ps 0 0 = fresh_memory" using 0 by (simp add: indexed_upto_def)
  then show ?case using assms(5) by (intro exI [of _ 0]) simp
next
  case (Suc i)
  then have "i * max_pages_per_round (cfg app) < length ps" by simp
  with Suc.IH obtain t where "store (((\<lambda>n. snd (run_round app n)) ^^ i) n)
      = indexed_upto app ps (i * max_pages_per_round (cfg app)) t" by blast
  from round_advances(1) [OF assms(1-4) \<open>i * _ < _\<close> this] show ?case
    by (auto simp: add.commute)
qed

lemma rounds_needed:
  fixes k len :: nat
  assumes "0 < k" and "0 < len"
  obtains i where "(len + k - 1) div k = Suc i" and "i * k < len" and "len \<le> i * k + k"
proof -
  define r where "r = (len + k - 1) div k"
  have split: "r * k + (len + k - 1) mod k = len + k - 1" "(len + k - 1) mod k < k"
    using assms by (simp_all add: r_def)
  with assms have "r \<noteq> 0" by (cases r) auto
  then obtain i where i: "r = Suc i" by (cases r) auto
  with split assms have "i * k + k + (len + k - 1) mod k = len + k - 1" by simp
  with split(2) assms have "i * k < len" "len \<le> i * k + k" by linarith+
  with i show ?thesis using that [of i] by (simp add: r_def)
qed

text \<open>A node at rest: nothing it does moves it, as long as the upstream repeats its last, empty page.\<close>

definition at_rest :: "get_events_response \<Rightarrow> mem_state \<Rightarrow> nat \<Rightarrow> mem_state node \<Rightarrow> bool" where
  "at_rest r v t n \<longleftrightarrow> store n = (caught_up r v)\<lparr>ledger_tip := t\<rparr> \<and> tip n = t"

lemma at_rest_step:
  assumes mem: "app_storage app = in_memory"
    and up: "\<And>j params. upstream_events (app_upstream app) j params = Inr (f params)"
    and lat: "\<And>j. upstream_latest (app_upstream app) j = Inr latest"
    and r: "f (for_contracts (app_contract_ids app) None (Some (next_cursor r)) (page_size (cfg app))) = r" "events r = []"
    and k: "0 < max_pages_per_round (cfg app)" and init: "initial_ledger_tip (cfg app) \<le> sequence latest"
    and rest: "at_rest r v (sequence latest) n" and step: "bootnode_step c deployment app n n'"
  shows "at_rest r v (sequence latest) n'"
  using step
proof cases
  case step_round
  obtain j where j: "max_pages_per_round (cfg app) = Suc j" using k by (cases "max_pages_per_round (cfg app)") auto
  let ?s = "(caught_up r v)\<lparr>ledger_tip := sequence latest\<rparr>"
  let ?n = "\<lparr>store = ?s, tip = sequence latest, asked = Suc (asked n)\<rparr>"
  have n: "n = \<lparr>store = ?s, tip = sequence latest, asked = asked n\<rparr>"
    using rest by (simp add: at_rest_def)
  have "run_round app n = index_pages app (Suc j) (Some (next_cursor r)) None ?n"
    by (subst n) (simp add: run_round_def bind_io_def ask_latest_ledger_def lat put_tip_def on_store_def mem io_simps
        kv_of_def caught_up_def j del: index_pages.simps)
  also have "\<dots> = (Inr (), ?n\<lparr>asked := Suc (asked ?n), store := (store ?n)\<lparr>last_cursor := Some (next_cursor r),
       last_fully_indexed_ledger := latest_ledger r, in_sync := True\<rparr>\<rparr>)"
    by (rule index_page_last [OF mem _ r(2)]) (simp add: up r(1))
  finally show ?thesis by (simp add: step_round at_rest_def caught_up_def)
next
  case (step_events params)
  show ?thesis
  proof (cases "supported app params")
    case True
    from memory.answers_get_events [OF mem this] rest step_events show ?thesis
      by (simp add: answers_def at_rest_def)
  next
    case False
    from get_events_unsupported [OF this, of n] rest step_events show ?thesis by auto
  qed
next
  case step_latest
  with rest show ?thesis
    by (simp add: get_latest_ledger_def map_err_io_def ask_latest_ledger_def lat at_rest_def)
next
  case step_health
  have "snd (healthz app n) = n"
    by (simp add: healthz_def bind_io_def map_err_io_def on_store_def mem in_memory_def return_io_def fail_io_def
        load_tip_def with_state_def split: if_splits)
  with rest step_health show ?thesis by simp
next
  case (step_restart t s)
  from step_restart(2) mem obtain l where "\<lparr>cfg = c, app_storage = in_memory, app_upstream = app_upstream app,
      app_contract_ids = all_contract_ids deployment, first_ledger = l\<rparr> = app"
    and "s = store n" "t = max (initial_ledger_tip c) (ledger_tip (store n))"
    by (auto simp: bootnode_setup_def bind_io_def return_io_def fail_io_def io_simps kv_of_def split: sum.splits)
  moreover from arg_cong [OF this(1), of cfg] have "cfg app = c" by simp
  ultimately have "cfg app = c" "s = store n" "t = max (initial_ledger_tip c) (ledger_tip (store n))" by blast+
  with rest init step_restart(1) show ?thesis by (simp add: at_rest_def)
qed

lemma at_rest_steps:
  assumes "app_storage app = in_memory"
    and "\<And>j params. upstream_events (app_upstream app) j params = Inr (f params)"
    and "\<And>j. upstream_latest (app_upstream app) j = Inr latest"
    and "f (for_contracts (app_contract_ids app) None (Some (next_cursor r)) (page_size (cfg app))) = r" "events r = []"
    and "0 < max_pages_per_round (cfg app)" and "initial_ledger_tip (cfg app) \<le> sequence latest"
    and "at_rest r v (sequence latest) n" and "(bootnode_step c deployment app)\<^sup>*\<^sup>* n n'"
  shows "at_rest r v (sequence latest) n'"
  using assms(9,8) by (induction rule: rtranclp_induct) (use at_rest_step [OF assms(1-7)] in blast)+

lemma page_chain_last: "page_chain f app c s ps \<Longrightarrow> ps \<noteq> [] \<and> events (last ps) = []"
  by (induction ps arbitrary: c s) (auto split: if_splits)

text \<open>
  C32: The indexer reaches the tip and stays there. On an upstream whose answers and latest ledger do
  not change, that ends in an empty page and goes on answering its cursor with the same empty
  page, and a store in memory: let as many rounds run as the number of pages takes, and after them any rounds,
  requests, health checks and restarts whatever (a restart begins with a configured tip no later than the upstream's).
  Then the bootnode is in sync and knows the ledger of the last page, and every supported request is
  answered with the page of the upstream's chain that belongs to it, or with a handoff, and none
  with a cache miss.
\<close>

theorem indexer_catches_up:
  assumes "app_storage app = in_memory"
    and "\<And>j params. upstream_events (app_upstream app) j params = Inr (f params)"
    and "\<And>j. upstream_latest (app_upstream app) j = Inr latest" and "0 < sequence latest"
    and "page_chain f app None (Some (first_ledger app)) ps"
    and "f (for_contracts (app_contract_ids app) None (Some (next_cursor (last ps))) (page_size (cfg app))) = last ps"
    and "0 < max_pages_per_round (cfg app)" and "initial_ledger_tip (cfg app) \<le> sequence latest"
    and "store n = fresh_memory"
    and "(bootnode_step c deployment app)\<^sup>*\<^sup>* (((\<lambda>n. snd (run_round app n)) ^^
            ((length ps + max_pages_per_round (cfg app) - 1) div max_pages_per_round (cfg app))) n) m"
  shows "in_sync (store m) \<and> last_fully_indexed_ledger (store m) = latest_ledger (last ps)
    \<and> (\<forall>params. supported app params \<longrightarrow>
         fst (get_events app params m) =
           (if at_or_past (ledger_at (store m) params) (handoff_from app (sequence latest))
            then Inl (RetentionHandoff (handoff_from app (sequence latest)))
            else case map_of (slots None (Some (first_ledger app)) (butlast ps))
                        (page_cursor (pagination params), start_ledger params) of
                Some page \<Rightarrow> Inr page
              | None \<Rightarrow> Inl (RetentionHandoff (handoff_from app (sequence latest)))))"
proof -
  let ?k = "max_pages_per_round (cfg app)" and ?slots = "slots None (Some (first_ledger app)) (butlast ps)"
  have "0 < length ps" using assms(5) by (cases ps) auto
  then obtain i where i: "(length ps + ?k - 1) div ?k = Suc i" "i * ?k < length ps" "length ps \<le> i * ?k + ?k"
    using rounds_needed [OF assms(7)] by blast
  define n' where "n' = ((\<lambda>n. snd (run_round app n)) ^^ i) n"
  from rounds_advance [OF assms(1-3,5,9) i(2)] obtain t where "store n' = indexed_upto app ps (i * ?k) t"
    by (auto simp: n'_def)
  note last_round = round_advances [OF assms(1-3,5) i(2) this]
  let ?v = "crawl app None (Some (first_ledger app)) (butlast ps) fresh_memory"
  let ?m = "snd (run_round app n')"
  have "at_rest (last ps) ?v (sequence latest) ?m"
    using last_round i(3) by (simp add: at_rest_def indexed_upto_def)
  moreover have "(bootnode_step c deployment app)\<^sup>*\<^sup>* ?m m"
    using assms(10) unfolding i(1) n'_def by simp
  moreover have "events (last ps) = []" using page_chain_last [OF assms(5)] by simp
  ultimately have "at_rest (last ps) ?v (sequence latest) m"
    using at_rest_steps [OF assms(1-3,6) _ assms(7,8), of ?v ?m c deployment m] by blast
  then have sm: "store m = (caught_up (last ps) ?v)\<lparr>ledger_tip := sequence latest\<rparr>" "tip m = sequence latest"
    by (simp_all add: at_rest_def)
  have page: "page_at (store m) params = map_of ?slots (page_cursor (pagination params), start_ledger params)"
    if "supported app params" for params
  proof -
    have valid: "(page_cursor (pagination params) = None) \<noteq> (start_ledger params = None)"
      using that by (auto simp: supported_def)
    have "page_at (store m) params = lookup (store m) (page_cursor (pagination params)) (start_ledger params)"
      using valid by (auto simp: page_at_def lookup_def split: option.splits)
    also have "\<dots> = lookup ?v (page_cursor (pagination params)) (start_ledger params)"
      by (simp add: sm caught_up_def)
    also have "\<dots> = map_of ?slots (page_cursor (pagination params), start_ledger params)"
      using lookup_crawl [OF page_chain_slots [OF assms(5)] _ valid, of app fresh_memory]
      by (simp add: lookup_def fresh_memory_def split: option.split)
    finally show ?thesis .
  qed
  have sync: "in_sync (store m)" "last_fully_indexed_ledger (store m) = latest_ledger (last ps)"
    by (simp_all add: sm caught_up_def)
  have "fst (get_events app params m) = answer_of app params (store m) (tip m)" if "supported app params" for params
    by (rule memory_answers [OF assms(1) that])
  with page sync show ?thesis by (simp add: answer_of_def sm assms(4))
qed

section \<open>A sample bootnode\<close>

text \<open>
  One enabled pool of ledger 10, a redirect window of a hundred ledgers, an upstream with two pages of
  one event each.
\<close>

definition sample_event :: "nat \<Rightarrow> event" where
  "sample_event l = \<lparr>event_type = ''contract'', event_ledger = l, ledger_closed_at = [],
     event_contract_id = ''POOL'', event_id = [], operation_index = None, transaction_index = None,
     tx_hash = None, is_successful_contract_call = None, topic = [], event_value = ''00''\<rparr>"

definition sample_page :: "string \<Rightarrow> event list \<Rightarrow> get_events_response" where
  "sample_page c es = \<lparr>events = es, latest_ledger = 1000, latest_ledger_close_time = [],
     oldest_ledger = 1, oldest_ledger_close_time = [], next_cursor = c\<rparr>"

definition sample_answer :: "get_events_params \<Rightarrow> get_events_response" where
  "sample_answer params =
     (if page_cursor (pagination params) = None then sample_page ''a'' [sample_event 10]
      else if page_cursor (pagination params) = Some ''a'' then sample_page ''b'' [sample_event 990]
      else sample_page ''b'' [])"

definition sample_latest :: get_latest_ledger_response where
  "sample_latest = \<lparr>latest_id = [], protocol_version = 22, sequence = 1000\<rparr>"

definition sample_deployment :: contract_config where
  "sample_deployment = \<lparr>asp_membership_id = ''ASP'', public_key_registry_id = ''KEYS'',
     pools = [\<lparr>pool_contract_id = ''POOL'', deployment_ledger = 10, enabled = True\<rparr>,
              \<lparr>pool_contract_id = ''OLD'', deployment_ledger = 3, enabled = False\<rparr>]\<rparr>"

definition sample_config :: config where
  "sample_config = \<lparr>redirect_days = 1, ledger_seconds = 864, max_pages_per_round = 2,
     page_size = 300, initial_ledger_tip = 0\<rparr>"

definition sample_app :: "mem_state app" where
  "sample_app = \<lparr>cfg = sample_config, app_storage = in_memory,
     app_upstream = \<lparr>upstream_latest = \<lambda>_. Inr sample_latest,
                     upstream_events = \<lambda>_ params. Inr (sample_answer params)\<rparr>,
     app_contract_ids = [''POOL'', ''ASP'', ''KEYS''], first_ledger = 10\<rparr>"

definition sample_node :: "mem_state node" where
  "sample_node = \<lparr>store = fresh_memory, tip = 0, asked = 0\<rparr>"

definition sample_request :: "nat \<Rightarrow> get_events_params" where
  "sample_request lim = for_contracts [''ASP'', ''KEYS'', ''POOL''] (Some 10) None lim"

lemma bootnode_sample_setup:
  "bootnode_setup sample_config sample_deployment (app_storage sample_app) (app_upstream sample_app)
     fresh_memory = (Inr (sample_app, 0), fresh_memory)"
  by (simp add: bootnode_setup_def sample_app_def sample_deployment_def sample_config_def
      min_deployment_ledger_def all_contract_ids_def enabled_pools_def bind_io_def return_io_def
      in_memory_def with_state_def kv_of_def fresh_memory_def)

lemma sample_chain:
  "page_chain sample_answer sample_app None (Some (first_ledger sample_app))
     [sample_page ''a'' [sample_event 10], sample_page ''b'' [sample_event 990], sample_page ''b'' []]"
  by (simp add: sample_answer_def sample_page_def for_contracts_def)

lemma sample_supported: "supported sample_app (sample_request lim)"
proof -
  have "mset [''ASP'', ''KEYS'', ''POOL''] = mset [''POOL'', ''ASP'', ''KEYS'']" by simp
  then show ?thesis
    by (simp add: supported_def sample_request_def sample_app_def for_contracts_def
        is_allowed_filters_iff)
qed

lemma sample_window: "handoff_from sample_app 1000 = 900"
  by (simp add: handoff_from_def sample_app_def sample_config_def cutoff_ledgers_def
      saturating_mul_u32_def U32_MAX_def)

text \<open>After one round, the request for the first page is served.\<close>

definition sample_synced :: "mem_state node" where
  "sample_synced = snd (run_round sample_app sample_node)"

lemma sample_reach:
  "bootnode_reach sample_config sample_deployment (\<lambda>s. s) sample_app sample_synced"
proof -
  have "bootnode_reach sample_config sample_deployment (\<lambda>s. s) sample_app sample_node"
    unfolding sample_node_def by (rule reach_setup [OF _ bootnode_sample_setup]) simp
  then show ?thesis unfolding sample_synced_def by (rule reach_step) (rule step_round)
qed

lemma sample_served:
  "get_events sample_app (sample_request lim) sample_synced
     = (Inr (sample_page ''a'' [sample_event 10]), snd (get_events sample_app (sample_request lim) sample_synced))"
proof -
  have mem: "app_storage sample_app = in_memory" by (simp add: sample_app_def)
  have "store sample_node = indexed_upto sample_app
      [sample_page ''a'' [sample_event 10], sample_page ''b'' [sample_event 990], sample_page ''b'' []] 0 0"
    by (simp add: sample_node_def indexed_upto_def fresh_memory_def)
  from round_advances [OF mem _ _ sample_chain _ this, of sample_latest]
  have "tip sample_synced = 1000" "cache_by_start_ledger (store sample_synced) 10
      = Some (sample_page ''a'' [sample_event 10])"
    by (simp_all add: sample_synced_def sample_app_def sample_latest_def sample_config_def
        indexed_upto_def Let_def indexed_page_def page_of_def put_page_def put_cursor_ledger_def
        sample_page_def)
  with memory_answers [OF mem sample_supported, of lim sample_synced] sample_window
  have "fst (get_events sample_app (sample_request lim) sample_synced)
      = Inr (sample_page ''a'' [sample_event 10])"
    by (simp add: answer_of_def ledger_at_def page_at_def at_or_past_def sample_request_def
        for_contracts_def)
  then show ?thesis by (metis prod.collapse)
qed

lemma sample_storage: "event_storage (app_storage sample_app) (\<lambda>s. s)"
  using memory.event_storage_axioms by (simp add: sample_app_def)

lemma sample_unchanged: "snd (get_events sample_app (sample_request lim) sample_synced) = sample_synced"
proof -
  have "app_storage sample_app = in_memory" by (simp add: sample_app_def)
  from memory.answers_get_events [OF this sample_supported] show ?thesis
    by (simp add: answers_def)
qed

lemma sample_answered:
  "get_events sample_app (sample_request lim) sample_synced = (Inr (sample_page ''a'' [sample_event 10]), sample_synced)"
  using sample_served [of lim] by (simp add: sample_unchanged)

theorem served_pages_are_upstream_answers_witness:
  "\<exists>j<asked sample_synced. upstream_events (app_upstream sample_app) j
     (for_contracts [''POOL'', ''ASP'', ''KEYS''] (Some 10) None 300)
       = Inr (sample_page ''a'' [sample_event 10])"
  using served_pages_are_upstream_answers [OF sample_storage sample_reach sample_answered [of 50]]
  by (simp add: sample_app_def sample_config_def sample_request_def for_contracts_def)

theorem served_pages_never_change_witness:
  "projr (fst (get_events sample_app (sample_request 7) sample_synced)) = sample_page ''a'' [sample_event 10]"
proof (rule served_pages_never_change [OF sample_storage sample_reach sample_answered [of 50]])
  show "get_events sample_app (sample_request 7) sample_synced
      = (Inr (projr (fst (get_events sample_app (sample_request 7) sample_synced))), sample_synced)"
    by (simp add: sample_answered)
qed (simp_all add: sample_request_def for_contracts_def)

theorem get_events_outcomes_witness:
  "Inr (sample_page ''a'' [sample_event 10])
     = answer_of sample_app (sample_request 50) (store sample_synced) (tip sample_synced)"
  using get_events_outcomes [OF sample_storage sample_answered [of 50]] sample_supported by simp

text \<open>\<open>sample_later\<close>: the sample node after the two rounds it takes, a request and one round more.\<close>

definition sample_later :: "mem_state node" where
  "sample_later = snd (run_round sample_app (snd (get_events sample_app (sample_request 7)
     (((\<lambda>n. snd (run_round sample_app n)) ^^ 2) sample_node))))"

lemma sample_later_steps:
  "(bootnode_step sample_config sample_deployment sample_app)\<^sup>*\<^sup>*
     (((\<lambda>n. snd (run_round sample_app n)) ^^ 2) sample_node) sample_later"
  unfolding sample_later_def
  by (rule rtranclp.rtrancl_into_rtrancl, rule r_into_rtranclp, rule step_events, rule step_round)

theorem indexer_catches_up_witness:
  "in_sync (store sample_later)
   \<and> fst (get_events sample_app (sample_request 50) sample_later) = Inr (sample_page ''a'' [sample_event 10])"
proof -
  have app: "app_storage sample_app = in_memory" "0 < max_pages_per_round (cfg sample_app)"
    "\<And>j params. upstream_events (app_upstream sample_app) j params = Inr (sample_answer params)"
    "\<And>j. upstream_latest (app_upstream sample_app) j = Inr sample_latest"
    "initial_ledger_tip (cfg sample_app) \<le> sequence sample_latest"
    by (simp_all add: sample_app_def sample_config_def)
  have lat: "0 < sequence sample_latest" by (simp add: sample_latest_def)
  have node: "store sample_node = fresh_memory" by (simp add: sample_node_def)
  let ?ps = "[sample_page ''a'' [sample_event 10], sample_page ''b'' [sample_event 990], sample_page ''b'' []]"
  have rounds: "(length ?ps + max_pages_per_round (cfg sample_app) - 1) div max_pages_per_round (cfg sample_app) = 2"
    by (simp add: sample_app_def sample_config_def)
  have quiet: "sample_answer (for_contracts (app_contract_ids sample_app) None (Some (next_cursor (last ?ps)))
      (page_size (cfg sample_app))) = last ?ps"
    by (simp add: sample_answer_def for_contracts_def sample_page_def)
  note up = indexer_catches_up [OF app(1,3,4) lat sample_chain quiet app(2,5) node, unfolded rounds, OF sample_later_steps]
  have window: "handoff_from sample_app (sequence sample_latest) = 900" "first_ledger sample_app = 10"
    using sample_window by (simp_all add: sample_latest_def) (simp add: sample_app_def)
  from up show ?thesis
    using sample_supported [of 50] window
    by (simp add: ledger_at_def at_or_past_def sample_request_def for_contracts_def)
qed

section \<open>Health\<close>

text \<open>
  The node is healthy exactly when the tip is known and the indexer is at most one redirect window
  behind it.
\<close>

lemma healthz_ok_iff:
  assumes "app_storage app = in_memory"
  shows "healthz app n = (Inr (), n) \<longleftrightarrow>
    0 < tip n \<and> tip n \<le> saturating_add_u32 (last_fully_indexed_ledger (store n))
      (cutoff_ledgers (redirect_days (cfg app)) (ledger_seconds (cfg app)))"
  using assms
  by (auto simp: healthz_def bind_io_def map_err_io_def on_store_def in_memory_def return_io_def fail_io_def
      load_tip_def with_state_def kv_of_def)

end
