(* ===== verification/PublicKeyRegistry.thy ===== *)
theory PublicKeyRegistry
  imports Host
begin

text \<open>
  The public key registry (\<open>contracts/public-key-registry/src/lib.rs\<close>): an owner publishes the
  encryption key and the note key that others need to send private transfers. The contract keeps
  the newest registration per owner, and emits an event for each change; the off-chain side only
  reads the events, so they are part of the state. A failed \<open>assert_eq!\<close> is a trap, and the
  contract has no errors of its own.
\<close>

record account =
  acc_owner :: address
  acc_encryption_key :: bytes
  acc_note_key :: bytes

record public_key_event =
  pke_owner :: address
  pke_encryption_key :: bytes
  pke_note_key :: bytes

record registration =
  reg_encryption_key :: bytes
  reg_note_key :: bytes

record registry_store =
  registrations :: "address \<rightharpoonup> registration"
  registry_events :: "public_key_event list"

definition register :: "auths \<Rightarrow> account \<Rightarrow> registry_store \<Rightarrow> (unit, registry_store) result" where
  "register auth acc s =
     and_then (require_auth auth (acc_owner acc)) (\<lambda>_.
     and_then (ensure_host (length (acc_encryption_key acc) = 32)) (\<lambda>_.
     and_then (ensure_host (length (acc_note_key acc) = 32)) (\<lambda>_.
     let next_reg = \<lparr>reg_encryption_key = acc_encryption_key acc, reg_note_key = acc_note_key acc\<rparr> in
     if registrations s (acc_owner acc) = Some next_reg then Inr s
     else Inr (s\<lparr>registrations := (registrations s)(acc_owner acc \<mapsto> next_reg),
                 registry_events := registry_events s
                   @ [\<lparr>pke_owner = acc_owner acc, pke_encryption_key = acc_encryption_key acc,
                       pke_note_key = acc_note_key acc\<rparr>]\<rparr>))))"

definition empty_registry :: registry_store where
  "empty_registry = \<lparr>registrations = Map.empty, registry_events = []\<rparr>"

inductive registry_reach :: "registry_store \<Rightarrow> bool" where
  registry_empty: "registry_reach empty_registry"
| registry_register: "registry_reach s \<Longrightarrow> register auth acc s = Inr s' \<Longrightarrow> registry_reach s'"

text \<open>A call succeeds exactly for the owner and keys of 32 bytes; no other owner is affected.\<close>

lemma register_ok_iff:
  "is_ok (register auth acc s) \<longleftrightarrow>
     auth (acc_owner acc) \<and> length (acc_encryption_key acc) = 32 \<and> length (acc_note_key acc) = 32"
  by (auto simp: register_def is_ok_iff result_simps Let_def)

lemma register_frame:
  assumes "register auth acc s = Inr s'"
  shows "registrations s' a = registrations s a \<or> a = acc_owner acc \<and> auth a"
  using assms by (auto simp: register_def result_simps Let_def split: if_splits)

text \<open>What a reader of the events knows: the keys of an owner's newest event.\<close>

definition reg_of :: "public_key_event \<Rightarrow> registration" where
  "reg_of e = \<lparr>reg_encryption_key = pke_encryption_key e, reg_note_key = pke_note_key e\<rparr>"

fun newest :: "address \<Rightarrow> public_key_event list \<Rightarrow> registration option" where
  "newest a [] = None"
| "newest a (e # es) =
     (case newest a es of
        Some r \<Rightarrow> Some r
      | None \<Rightarrow> if pke_owner e = a then Some (reg_of e) else None)"

lemma newest_append: "newest a (xs @ ys) = (case newest a ys of Some r \<Rightarrow> Some r | None \<Rightarrow> newest a xs)"
  by (induction xs) (auto split: option.split)

text \<open>
  The events of the registry determine the keys. In every reachable state the stored
  registration of an owner is the one of the owner's newest event, so a reader of the log knows
  exactly what the contract stores; every event carries two keys of 32 bytes; and every event is a
  change: it differs from what the events before it say of its owner.
\<close>

theorem registry_log_determines_keys:
  assumes "registry_reach s"
  shows "(\<forall>a. registrations s a = newest a (registry_events s))
    \<and> (\<forall>e\<in>set (registry_events s). length (pke_encryption_key e) = 32 \<and> length (pke_note_key e) = 32)
    \<and> (\<forall>i<length (registry_events s). newest (pke_owner (registry_events s ! i)) (take i (registry_events s))
          \<noteq> Some (reg_of (registry_events s ! i)))"
  using assms
proof induction
  case registry_empty
  show ?case by (simp add: empty_registry_def)
next
  case (registry_register s auth acc s')
  show ?case
  proof (cases "s' = s")
    case True
    with registry_register.IH show ?thesis by simp
  next
    case False
    let ?e = "\<lparr>pke_owner = acc_owner acc, pke_encryption_key = acc_encryption_key acc,
      pke_note_key = acc_note_key acc\<rparr>"
    from registry_register.hyps(2) False have s': "registrations s (acc_owner acc) \<noteq> Some (reg_of ?e)"
      "s' = s\<lparr>registrations := (registrations s)(acc_owner acc \<mapsto> reg_of ?e),
         registry_events := registry_events s @ [?e]\<rparr>"
      "length (acc_encryption_key acc) = 32" "length (acc_note_key acc) = 32"
      by (auto simp: register_def result_simps Let_def reg_of_def split: if_splits)
    from registry_register.IH s'(1) show ?thesis
      by (auto simp: s'(2-4) newest_append nth_append less_Suc_eq)
  qed
qed

definition sample_account :: account where
  "sample_account = \<lparr>acc_owner = ''A'', acc_encryption_key = replicate 32 1,
     acc_note_key = replicate 32 2\<rparr>"

definition sample_registry :: registry_store where
  "sample_registry = \<lparr>
     registrations = [''A'' \<mapsto> \<lparr>reg_encryption_key = replicate 32 1, reg_note_key = replicate 32 2\<rparr>],
     registry_events = [\<lparr>pke_owner = ''A'', pke_encryption_key = replicate 32 1,
       pke_note_key = replicate 32 2\<rparr>]\<rparr>"

lemma sample_registry_reach: "registry_reach sample_registry"
proof -
  have "register (\<lambda>_. True) sample_account empty_registry = Inr sample_registry"
    by (simp add: register_def sample_account_def sample_registry_def empty_registry_def Let_def)
  with registry_empty show ?thesis by (rule registry_register)
qed

theorem registry_log_determines_keys_witness:
  "registrations sample_registry ''A'' = newest ''A'' (registry_events sample_registry)"
  using registry_log_determines_keys [OF sample_registry_reach] by blast

end
