(* ===== verification/Disclosure.thy ===== *)
theory Disclosure
  imports TransactFlow
begin

text \<open>
  Selective disclosure receipts: their format and validation
  (\<open>app/crates/core/types/src/disclosure.rs\<close>), the context hash and the checks of a receipt
  (\<open>app/crates/core/disclosure/src/lib.rs\<close>), the verification interface of the prover
  (\<open>app/crates/core/prover/src/prover.rs\<close>), and how the application issues a receipt
  (\<open>app/crates/platforms/web/src/workers/prover.rs\<close>) and verifies one
  (\<open>app/crates/platforms/web/src/client/mod.rs\<close>).

  SHA-256, the \<open>hex\<close> crate, the witness calculator and the arkworks proof system are the fields of
  \<open>disclosure_env\<close>; a verifying key and a proof are abstract. An \<open>anyhow\<close> error is a constructor
  of \<open>receipt_error\<close>. A string is the list of its UTF-8 bytes as characters, as elsewhere.
\<close>

datatype receipt_error =
    UnsupportedVersion
  | MissingHexPrefix
  | EmptyHexPayload
  | OddHexPayload
  | UppercaseHex
  | InvalidHex
  | WrongByteCount nat nat
  | EmptyCircuitName
  | ZeroLevels
  | ZeroNotes
  | EmptyNetwork
  | EmptyPoolAddress
  | EmptyAuthorityLabel
  | EmptyPurpose
  | NotesOutOfRange
  | RootsMismatch
  | CommitmentsMismatch
  | EmptyIssuedAt
  | UnknownCircuit string
  | CircuitMetadataMismatch
  | VkHashMismatch
  | CapacityOverflow
  | UnknownPublicInput string
  | GeneratedProofInvalid
  | PublicInputsSize
  | PublicInputCount nat nat
  | PublicInputInvalid codec_error
  | VkInvalid
  | ProofInvalid
  | VerificationError
  | WitnessSizeInvalid
  | WitnessTooShort
  | PublicSizeOverflow
  | ProvingFailed
  | WitnessFailed
  | RootCheckFailed
  | DisclosureFlow flow_error

record ('vk, 'pf) disclosure_env =
  sha256_digest :: "nat list \<Rightarrow> nat list"
  hex_decode :: "string \<Rightarrow> nat list option"
  serialize_vk :: "'vk \<Rightarrow> nat list option"
  deserialize_vk :: "nat list \<Rightarrow> 'vk option"
  gamma_count :: "'vk \<Rightarrow> nat"
  deserialize_proof :: "nat list \<Rightarrow> 'pf option"
  groth16_verify :: "'vk \<Rightarrow> scalar list \<Rightarrow> 'pf \<Rightarrow> bool option"
  prove_bytes :: "nat list \<Rightarrow> nat list option"
  compute_witness :: "circuit_inputs \<Rightarrow> nat list option"

section \<open>Receipts\<close>

definition DISCLOSURE_RECEIPT_VERSION :: nat where
  "DISCLOSURE_RECEIPT_VERSION = 1"

definition SELECTIVE_DISCLOSURE_1_CIRCUIT :: string where
  "SELECTIVE_DISCLOSURE_1_CIRCUIT = ''selectiveDisclosure_1''"

definition SELECTIVE_DISCLOSURE_1_LEVELS :: nat where
  "SELECTIVE_DISCLOSURE_1_LEVELS = 10"

definition SELECTIVE_DISCLOSURE_1_N_NOTES :: nat where
  "SELECTIVE_DISCLOSURE_1_N_NOTES = 1"

definition COMPRESSED_GROTH16_PROOF_BYTES :: nat where
  "COMPRESSED_GROTH16_PROOF_BYTES = 128"

record circuit_metadata =
  cm_name :: string
  cm_levels :: nat
  cm_n_notes :: nat
  cm_vk_hash :: string

record disclosure_context =
  dc_network :: string
  dc_pool_address :: string
  dc_authority_label :: string
  dc_authority_identity_payload_hex :: string
  dc_purpose :: string
  dc_context_nonce :: field_element

record disclosure_public_inputs =
  di_roots :: "field_element list"
  di_note_commitments :: "field_element list"
  di_ext_context_hash :: field_element

record disclosure_receipt =
  dr_version :: nat
  dr_circuit :: circuit_metadata
  dr_context :: disclosure_context
  dr_public_inputs :: disclosure_public_inputs
  dr_proof_compressed_hex :: string
  dr_issued_at :: string

record verification_report =
  proof_verified :: bool
  context_verified :: bool
  known_root_status :: bool

definition is_fully_verified :: "verification_report \<Rightarrow> bool" where
  "is_fully_verified r \<longleftrightarrow> proof_verified r \<and> context_verified r \<and> known_root_status r"

definition is_ascii_uppercase :: "char \<Rightarrow> bool" where
  "is_ascii_uppercase c \<longleftrightarrow> 65 \<le> (of_char c :: nat) \<and> (of_char c :: nat) \<le> 90"

definition parse_0x_hex ::
  "('vk, 'pf) disclosure_env \<Rightarrow> string \<Rightarrow> (receipt_error, nat list) result" where
  "parse_0x_hex env v =
     (if take 2 v \<noteq> ''0x'' then Inl (Err MissingHexPrefix)
      else let hex_value = drop 2 v in
        if hex_value = [] then Inl (Err EmptyHexPayload)
        else if odd (length hex_value) then Inl (Err OddHexPayload)
        else if list_ex is_ascii_uppercase hex_value then Inl (Err UppercaseHex)
        else ok_or (hex_decode env hex_value) InvalidHex)"

definition parse_0x_hex_exact ::
  "('vk, 'pf) disclosure_env \<Rightarrow> string \<Rightarrow> nat \<Rightarrow> (receipt_error, nat list) result" where
  "parse_0x_hex_exact env v expected_bytes =
     and_then (parse_0x_hex env v) (\<lambda>bs.
     and_then (ensure (length bs = expected_bytes) (WrongByteCount expected_bytes (length bs))) (\<lambda>_.
       Inr bs))"

definition metadata_validate ::
  "('vk, 'pf) disclosure_env \<Rightarrow> circuit_metadata \<Rightarrow> (receipt_error, unit) result" where
  "metadata_validate env m =
     and_then (ensure (cm_name m \<noteq> []) EmptyCircuitName) (\<lambda>_.
     and_then (ensure (cm_levels m \<noteq> 0) ZeroLevels) (\<lambda>_.
     and_then (ensure (cm_n_notes m \<noteq> 0) ZeroNotes) (\<lambda>_.
     and_then (parse_0x_hex_exact env (cm_vk_hash m) 32) (\<lambda>_. Inr ()))))"

definition context_validate ::
  "('vk, 'pf) disclosure_env \<Rightarrow> disclosure_context \<Rightarrow> (receipt_error, unit) result" where
  "context_validate env c =
     and_then (ensure (dc_network c \<noteq> []) EmptyNetwork) (\<lambda>_.
     and_then (ensure (dc_pool_address c \<noteq> []) EmptyPoolAddress) (\<lambda>_.
     and_then (ensure (dc_authority_label c \<noteq> []) EmptyAuthorityLabel) (\<lambda>_.
     and_then (parse_0x_hex env (dc_authority_identity_payload_hex c)) (\<lambda>_.
     and_then (ensure (dc_purpose c \<noteq> []) EmptyPurpose) (\<lambda>_. Inr ())))))"

definition public_inputs_validate ::
  "disclosure_public_inputs \<Rightarrow> nat \<Rightarrow> (receipt_error, unit) result" where
  "public_inputs_validate d n_notes =
     and_then (ensure (fits USIZE_BITS n_notes) NotesOutOfRange) (\<lambda>_.
     and_then (ensure (length (di_roots d) = n_notes) RootsMismatch) (\<lambda>_.
     ensure (length (di_note_commitments d) = n_notes) CommitmentsMismatch))"

definition receipt_validate ::
  "('vk, 'pf) disclosure_env \<Rightarrow> disclosure_receipt \<Rightarrow> (receipt_error, unit) result" where
  "receipt_validate env r =
     and_then (ensure (dr_version r = DISCLOSURE_RECEIPT_VERSION) UnsupportedVersion) (\<lambda>_.
     and_then (metadata_validate env (dr_circuit r)) (\<lambda>_.
     and_then (context_validate env (dr_context r)) (\<lambda>_.
     and_then (public_inputs_validate (dr_public_inputs r) (cm_n_notes (dr_circuit r))) (\<lambda>_.
     and_then (parse_0x_hex_exact env (dr_proof_compressed_hex r) COMPRESSED_GROTH16_PROOF_BYTES) (\<lambda>_.
     ensure (dr_issued_at r \<noteq> []) EmptyIssuedAt)))))"

definition proof_compressed_bytes ::
  "('vk, 'pf) disclosure_env \<Rightarrow> disclosure_receipt \<Rightarrow> (receipt_error, nat list) result" where
  "proof_compressed_bytes env r =
     parse_0x_hex_exact env (dr_proof_compressed_hex r) COMPRESSED_GROTH16_PROOF_BYTES"

section \<open>The context hash\<close>

definition string_bytes :: "string \<Rightarrow> nat list" where
  "string_bytes s = map of_char s"

definition vk_hash_hex :: "('vk, 'pf) disclosure_env \<Rightarrow> nat list \<Rightarrow> string" where
  "vk_hash_hex env vk_bytes = ''0x'' @ hex_encode (sha256_digest env vk_bytes)"

definition CONTEXT_HASH_DOMAIN :: "nat list" where
  "CONTEXT_HASH_DOMAIN = string_bytes ''disclosure-context-v1''"

text \<open>The length as a \<open>u64\<close> in little-endian order, then the bytes.\<close>

definition feed_str :: "string \<Rightarrow> nat list" where
  "feed_str s = le_digits 8 (length s mod 2 ^ 64) @ string_bytes s"

definition context_preimage :: "disclosure_context \<Rightarrow> nat list" where
  "context_preimage c =
     CONTEXT_HASH_DOMAIN @ feed_str (dc_network c) @ feed_str (dc_pool_address c)
       @ feed_str (dc_authority_label c) @ feed_str (dc_authority_identity_payload_hex c)
       @ feed_str (dc_purpose c) @ field_to_le_bytes (dc_context_nonce c)"

definition derive_ext_context_hash ::
  "('vk, 'pf) disclosure_env \<Rightarrow> disclosure_context \<Rightarrow> (receipt_error, field_element) result" where
  "derive_ext_context_hash env c =
     and_then (context_validate env c) (\<lambda>_.
       Inr (from_le_bytes_mod_order (sha256_digest env (context_preimage c))))"

definition verify_receipt_context ::
  "('vk, 'pf) disclosure_env \<Rightarrow> disclosure_receipt \<Rightarrow> (receipt_error, bool) result" where
  "verify_receipt_context env r =
     and_then (derive_ext_context_hash env (dr_context r)) (\<lambda>expected.
       Inr (expected = di_ext_context_hash (dr_public_inputs r)))"

section \<open>Registered circuits\<close>

record registered_circuit =
  rc_name :: string
  rc_levels :: nat
  rc_n_notes :: nat
  rc_public_inputs_order :: "string list"

definition SELECTIVE_DISCLOSURE_1 :: registered_circuit where
  "SELECTIVE_DISCLOSURE_1 = \<lparr>rc_name = SELECTIVE_DISCLOSURE_1_CIRCUIT,
     rc_levels = SELECTIVE_DISCLOSURE_1_LEVELS, rc_n_notes = SELECTIVE_DISCLOSURE_1_N_NOTES,
     rc_public_inputs_order = [''roots'', ''noteCommitments'', ''extContextHash'']\<rparr>"

definition find_circuit :: "string \<Rightarrow> registered_circuit option" where
  "find_circuit name =
     (if name = SELECTIVE_DISCLOSURE_1_CIRCUIT then Some SELECTIVE_DISCLOSURE_1 else None)"

definition receipt_metadata :: "registered_circuit \<Rightarrow> string \<Rightarrow> circuit_metadata" where
  "receipt_metadata circuit vk_hash =
     \<lparr>cm_name = rc_name circuit, cm_levels = rc_levels circuit, cm_n_notes = rc_n_notes circuit,
      cm_vk_hash = vk_hash\<rparr>"

definition validate_receipt ::
  "('vk, 'pf) disclosure_env \<Rightarrow> registered_circuit \<Rightarrow> disclosure_receipt \<Rightarrow> string
     \<Rightarrow> (receipt_error, unit) result" where
  "validate_receipt env circuit r expected_vk_hash =
     and_then (receipt_validate env r) (\<lambda>_.
     let expected = receipt_metadata circuit expected_vk_hash in
     and_then (metadata_validate env expected) (\<lambda>_.
     ensure (dr_circuit r = expected) CircuitMetadataMismatch))"

definition checked_mul_usize :: "nat \<Rightarrow> nat \<Rightarrow> nat option" where
  "checked_mul_usize a b = (if fits USIZE_BITS (a * b) then Some (a * b) else None)"

definition public_input_step ::
  "disclosure_public_inputs \<Rightarrow> string \<Rightarrow> nat list \<Rightarrow> (receipt_error, nat list) result" where
  "public_input_step d name out =
     (if name = ''roots'' then Inr (out @ concat (map field_to_le_bytes (di_roots d)))
      else if name = ''noteCommitments''
      then Inr (out @ concat (map field_to_le_bytes (di_note_commitments d)))
      else if name = ''extContextHash'' then Inr (out @ field_to_le_bytes (di_ext_context_hash d))
      else Inl (Err (UnknownPublicInput name)))"

definition public_inputs_bytes ::
  "registered_circuit \<Rightarrow> disclosure_receipt \<Rightarrow> (receipt_error, nat list) result" where
  "public_inputs_bytes circuit r =
     and_then (ensure (fits USIZE_BITS (rc_n_notes circuit)) NotesOutOfRange) (\<lambda>_.
     and_then (ok_or (Option.bind (checked_mul_usize (rc_n_notes circuit) 2) (\<lambda>n.
                      Option.bind (checked_add USIZE_BITS n 1) (\<lambda>n. checked_mul_usize n 32)))
                CapacityOverflow) (\<lambda>_.
     fold_result (public_input_step (dr_public_inputs r)) (rc_public_inputs_order circuit) []))"

definition validate_registered_receipt ::
  "('vk, 'pf) disclosure_env \<Rightarrow> disclosure_receipt \<Rightarrow> string \<Rightarrow> (receipt_error, registered_circuit) result" where
  "validate_registered_receipt env r expected_vk_hash =
     and_then (ok_or (find_circuit (cm_name (dr_circuit r))) (UnknownCircuit (cm_name (dr_circuit r))))
       (\<lambda>circuit.
     and_then (validate_receipt env circuit r expected_vk_hash) (\<lambda>_. Inr circuit))"

definition validate_verifying_key_hash ::
  "('vk, 'pf) disclosure_env \<Rightarrow> nat list \<Rightarrow> string \<Rightarrow> (receipt_error, bool) result" where
  "validate_verifying_key_hash env vk_bytes expected_vk_hash =
     (if vk_hash_hex env vk_bytes \<noteq> expected_vk_hash then Inl (Err VkHashMismatch) else Inr True)"

section \<open>The prover's interface\<close>

fun chunks_exact :: "nat \<Rightarrow> 'a list \<Rightarrow> 'a list list" where
  "chunks_exact n xs =
     (if n = 0 \<or> length xs < n then [] else take n xs # chunks_exact n (drop n xs))"

declare chunks_exact.simps [simp del]

definition push_public_input :: "nat list \<Rightarrow> scalar list \<Rightarrow> (receipt_error, scalar list) result" where
  "push_public_input chunk out =
     and_then (map_err PublicInputInvalid (bytes_to_prime_field chunk)) (\<lambda>f. Inr (out @ [f]))"

definition verify_proof_with_processed_vk ::
  "('vk, 'pf) disclosure_env \<Rightarrow> 'vk \<Rightarrow> nat \<Rightarrow> 'pf \<Rightarrow> nat list \<Rightarrow> (receipt_error, bool) result" where
  "verify_proof_with_processed_vk env vk expected_inputs pf bs =
     and_then (ensure (length bs mod FIELD_SIZE = 0) PublicInputsSize) (\<lambda>_.
     let num_inputs = length bs div FIELD_SIZE in
     and_then (ensure (num_inputs = expected_inputs) (PublicInputCount num_inputs expected_inputs)) (\<lambda>_.
     and_then (fold_result push_public_input (chunks_exact FIELD_SIZE bs) []) (\<lambda>ins.
     ok_or (groth16_verify env vk ins pf) VerificationError)))"

definition verify_proof_bytes ::
  "('vk, 'pf) disclosure_env \<Rightarrow> nat list \<Rightarrow> nat list \<Rightarrow> nat list \<Rightarrow> (receipt_error, bool) result" where
  "verify_proof_bytes env vk_bytes proof_bytes bs =
     and_then (ok_or (deserialize_vk env vk_bytes) VkInvalid) (\<lambda>vk.
     and_then (ok_or (deserialize_proof env proof_bytes) ProofInvalid) (\<lambda>pf.
     and_then (ok_or (checked_sub (gamma_count env vk) 1) VkInvalid) (\<lambda>expected_inputs.
     verify_proof_with_processed_vk env vk expected_inputs pf bs)))"

record 'vk prover =
  pr_vk :: 'vk
  pr_num_public :: nat

definition get_verifying_key ::
  "('vk, 'pf) disclosure_env \<Rightarrow> 'vk prover \<Rightarrow> (receipt_error, nat list) result" where
  "get_verifying_key env p = ok_or (serialize_vk env (pr_vk p)) VkInvalid"

definition extract_public_inputs :: "'vk prover \<Rightarrow> nat list \<Rightarrow> (receipt_error, nat list) result" where
  "extract_public_inputs p witness =
     and_then (ensure (length witness mod FIELD_SIZE = 0) WitnessSizeInvalid) (\<lambda>_.
     let start = FIELD_SIZE in
     and_then (ok_or (checked_mul_usize (pr_num_public p) FIELD_SIZE) PublicSizeOverflow) (\<lambda>public_size.
     and_then (ok_or (checked_add USIZE_BITS start public_size) PublicSizeOverflow) (\<lambda>finish.
     and_then (ensure (\<not> length witness < finish) WitnessTooShort) (\<lambda>_.
       Inr (take (finish - start) (drop start witness))))))"

definition prover_verify ::
  "('vk, 'pf) disclosure_env \<Rightarrow> 'vk prover \<Rightarrow> nat list \<Rightarrow> nat list \<Rightarrow> (receipt_error, bool) result" where
  "prover_verify env p proof_bytes bs =
     and_then (ok_or (deserialize_proof env proof_bytes) ProofInvalid) (\<lambda>pf.
     and_then (ok_or (checked_sub (gamma_count env (pr_vk p)) 1) VkInvalid) (\<lambda>expected_inputs.
     verify_proof_with_processed_vk env (pr_vk p) expected_inputs pf bs))"

section \<open>Issuing and checking\<close>

record proved_receipt =
  pv_proof_compressed :: "nat list"
  pv_public_inputs :: "nat list"

definition prove_receipt_proof_with_prover ::
  "('vk, 'pf) disclosure_env \<Rightarrow> 'vk prover \<Rightarrow> nat list \<Rightarrow> (receipt_error, proved_receipt) result" where
  "prove_receipt_proof_with_prover env p witness =
     and_then (ok_or (prove_bytes env witness) ProvingFailed) (\<lambda>pf.
     and_then (extract_public_inputs p witness) (\<lambda>public_inputs.
     and_then (prover_verify env p pf public_inputs) (\<lambda>ok.
     and_then (ensure ok GeneratedProofInvalid) (\<lambda>_.
       Inr \<lparr>pv_proof_compressed = pf, pv_public_inputs = public_inputs\<rparr>))))"

definition verify_receipt_proof ::
  "('vk, 'pf) disclosure_env \<Rightarrow> disclosure_receipt \<Rightarrow> nat list \<Rightarrow> string \<Rightarrow> (receipt_error, bool) result" where
  "verify_receipt_proof env r vk_bytes expected_vk_hash =
     and_then (validate_verifying_key_hash env vk_bytes expected_vk_hash) (\<lambda>_.
     and_then (validate_registered_receipt env r expected_vk_hash) (\<lambda>circuit.
     and_then (proof_compressed_bytes env r) (\<lambda>proof_bytes.
     and_then (public_inputs_bytes circuit r) (\<lambda>public_inputs.
     verify_proof_bytes env vk_bytes proof_bytes public_inputs))))"

fun all_roots_known ::
  "(field_element \<Rightarrow> (receipt_error, bool) result) \<Rightarrow> field_element list \<Rightarrow> (receipt_error, bool) result" where
  "all_roots_known is_known [] = Inr True"
| "all_roots_known is_known (root # roots) =
     and_then (is_known root) (\<lambda>known. if \<not> known then Inr False else all_roots_known is_known roots)"

definition verify_receipt_known_roots_with ::
  "('vk, 'pf) disclosure_env \<Rightarrow> disclosure_receipt \<Rightarrow> string
     \<Rightarrow> (field_element \<Rightarrow> (receipt_error, bool) result) \<Rightarrow> (receipt_error, bool) result" where
  "verify_receipt_known_roots_with env r expected_vk_hash is_known =
     and_then (validate_registered_receipt env r expected_vk_hash) (\<lambda>_.
       all_roots_known is_known (di_roots (dr_public_inputs r)))"

definition verify_receipt_report_with ::
  "('vk, 'pf) disclosure_env \<Rightarrow> disclosure_receipt \<Rightarrow> string
     \<Rightarrow> (disclosure_receipt \<Rightarrow> string \<Rightarrow> (receipt_error, bool) result) \<Rightarrow> bool
     \<Rightarrow> (field_element \<Rightarrow> (receipt_error, bool) result) \<Rightarrow> (receipt_error, verification_report) result" where
  "verify_receipt_report_with env r expected_vk_hash verify context_passed is_known =
     and_then (validate_registered_receipt env r expected_vk_hash) (\<lambda>_.
     and_then (verify r expected_vk_hash) (\<lambda>proof_ok.
     and_then (verify_receipt_known_roots_with env r expected_vk_hash is_known) (\<lambda>roots_ok.
       Inr \<lparr>proof_verified = proof_ok, context_verified = context_passed, known_root_status = roots_ok\<rparr>)))"

text \<open>
  The worker's answer to a disclosure request, and the client's check of a receipt. The lookup of
  a root is a call of the pool named in the receipt.
\<close>

record disclosure_request =
  dq_context :: disclosure_context
  dq_inputs :: selective_disclosure_params

definition issue_receipt ::
  "('vk, 'pf) disclosure_env \<Rightarrow> 'vk prover \<Rightarrow> string \<Rightarrow> disclosure_request
     \<Rightarrow> (receipt_error, disclosure_receipt) result" where
  "issue_receipt env p issued_at req =
     and_then (derive_ext_context_hash env (dq_context req)) (\<lambda>ext_context_hash.
     and_then (map_err DisclosureFlow
        (selective_disclosure_1 ((dq_inputs req)\<lparr>sd_ext_context_hash := ext_context_hash\<rparr>))) (\<lambda>artifacts.
     and_then (ok_or (compute_witness env (da_circuit_inputs artifacts)) WitnessFailed) (\<lambda>witness.
     and_then (prove_receipt_proof_with_prover env p witness) (\<lambda>proved.
     and_then (get_verifying_key env p) (\<lambda>vk_bytes.
       Inr \<lparr>dr_version = DISCLOSURE_RECEIPT_VERSION,
            dr_circuit = \<lparr>cm_name = SELECTIVE_DISCLOSURE_1_CIRCUIT,
              cm_levels = SELECTIVE_DISCLOSURE_1_LEVELS, cm_n_notes = SELECTIVE_DISCLOSURE_1_N_NOTES,
              cm_vk_hash = vk_hash_hex env vk_bytes\<rparr>,
            dr_context = dq_context req,
            dr_public_inputs = \<lparr>di_roots = [sd_root (dq_inputs req)],
              di_note_commitments = [sd_note_commitment (dq_inputs req)],
              di_ext_context_hash = ext_context_hash\<rparr>,
            dr_proof_compressed_hex = ''0x'' @ hex_encode (pv_proof_compressed proved),
            dr_issued_at = issued_at\<rparr>)))))"

definition verify_selective_disclosure ::
  "('vk, 'pf) disclosure_env \<Rightarrow> 'vk prover \<Rightarrow> (string \<Rightarrow> field_element \<Rightarrow> (receipt_error, bool) result)
     \<Rightarrow> disclosure_receipt \<Rightarrow> string \<Rightarrow> (receipt_error, verification_report) result" where
  "verify_selective_disclosure env p is_pool_known_root r expected_vk_hash =
     and_then (validate_registered_receipt env r expected_vk_hash) (\<lambda>_.
     and_then (get_verifying_key env p) (\<lambda>vk_bytes.
     and_then (verify_receipt_proof env r vk_bytes expected_vk_hash) (\<lambda>proof_ok.
     and_then (all_roots_known (is_pool_known_root (dc_pool_address (dr_context r)))
                 (di_roots (dr_public_inputs r))) (\<lambda>roots_ok.
     and_then (verify_receipt_context env r) (\<lambda>context_passed.
       Inr \<lparr>proof_verified = proof_ok, context_verified = context_passed,
            known_root_status = roots_ok\<rparr>)))))"

end
