(* ===== verification/DisclosureFacts.thy ===== *)
theory DisclosureFacts
  imports Disclosure ProofInputs
begin

text \<open>
  Properties of disclosure receipts: what the context hash binds, exactly when the client reports a
  receipt as fully verified, and that a receipt the application issues is verified.
\<close>

section \<open>Hexadecimal text of receipts\<close>

lemma parse_0x_hex_Inr:
  "parse_0x_hex env v = Inr bs \<longleftrightarrow>
     (\<exists>h. v = ''0x'' @ h \<and> h \<noteq> [] \<and> even (length h) \<and> \<not> list_ex is_ascii_uppercase h
        \<and> hex_decode env h = Some bs)"
proof -
  have "take 2 v = ''0x'' \<longleftrightarrow> v = ''0x'' @ drop 2 v"
    by (metis append_eq_conv_conj append_take_drop_id length_Cons list.size(3) numeral_2_eq_2)
  then show ?thesis
    by (auto simp: parse_0x_hex_def Let_def result_simps split: if_splits)
qed

lemma parse_0x_hex_exact_Inr:
  "parse_0x_hex_exact env v n = Inr bs \<longleftrightarrow> parse_0x_hex env v = Inr bs \<and> length bs = n"
  by (auto simp: parse_0x_hex_exact_def result_simps)

lemma hex_digits_lower: "list_all (\<lambda>n. \<not> is_ascii_uppercase (hex_digit n)) [0..<16]"
  by code_simp

lemma hex_encode_lower: "is_bytes bs \<Longrightarrow> \<not> list_ex is_ascii_uppercase (hex_encode bs)"
proof (induction bs)
  case (Cons b bs)
  have "\<not> is_ascii_uppercase (hex_digit n)" if "n < 16" for n
    using hex_digits_lower that by (simp only: list_all_iff set_upt atLeastLessThan_iff) simp
  moreover have "b div 16 < 16" "b mod 16 < 16" using Cons.prems by auto
  ultimately show ?case using Cons by simp
qed simp

lemma parse_encoded:
  assumes "hex_decodes (hex_decode env)" and "is_bytes bs" and "bs \<noteq> []"
  shows "parse_0x_hex env (''0x'' @ hex_encode bs) = Inr bs"
proof -
  have "hex_encode bs \<noteq> []" using assms(3) by (cases bs) simp_all
  with assms hex_encode_lower [OF assms(2)] show ?thesis
    unfolding parse_0x_hex_Inr by (intro exI [of _ "hex_encode bs"]) (simp add: hex_decodes_def)
qed

section \<open>The context hash\<close>

definition representable :: "disclosure_context \<Rightarrow> bool" where
  "representable c \<longleftrightarrow>
     length (dc_network c) < 2 ^ 64 \<and> length (dc_pool_address c) < 2 ^ 64
   \<and> length (dc_authority_label c) < 2 ^ 64 \<and> length (dc_authority_identity_payload_hex c) < 2 ^ 64
   \<and> length (dc_purpose c) < 2 ^ 64"

lemma string_bytes_inject [simp]: "string_bytes s = string_bytes t \<longleftrightarrow> s = t"
proof -
  have "inj (of_char :: char \<Rightarrow> nat)" by (simp add: inj_on_def)
  then show ?thesis unfolding string_bytes_def by (rule inj_map_eq_map)
qed

lemma feed_str_inject:
  assumes "feed_str s @ x = feed_str t @ y" and "length s < 2 ^ 64" and "length t < 2 ^ 64"
  shows "s = t \<and> x = y"
proof -
  from assms(1) have "le_digits 8 (length s mod 2 ^ 64) = le_digits 8 (length t mod 2 ^ 64)"
    and rest: "string_bytes s @ x = string_bytes t @ y"
    by (simp_all add: feed_str_def)
  then have "le_value (le_digits 8 (length s)) = le_value (le_digits 8 (length t))"
    using assms(2,3) by simp
  moreover have "length s < 256 ^ 8" "length t < 256 ^ 8" using assms(2,3) by simp_all
  ultimately have "length s = length t" by (simp add: le_value_le_digits)
  then have "length (string_bytes s) = length (string_bytes t)" by (simp add: string_bytes_def)
  with rest show ?thesis by simp
qed

lemma field_to_le_bytes_inject [simp]: "field_to_le_bytes f = field_to_le_bytes g \<longleftrightarrow> f = g"
  by (metis field_element.exhaust_sel field_to_le_bytes_def from_to_le_bytes)

lemma context_preimage_inject:
  assumes "context_preimage c = context_preimage d" and "representable c" and "representable d"
  shows "c = d"
proof -
  note sizes = assms(2,3) [unfolded representable_def]
  from assms(1) have "feed_str (dc_network c) @ feed_str (dc_pool_address c)
       @ feed_str (dc_authority_label c) @ feed_str (dc_authority_identity_payload_hex c)
       @ feed_str (dc_purpose c) @ field_to_le_bytes (dc_context_nonce c)
    = feed_str (dc_network d) @ feed_str (dc_pool_address d)
       @ feed_str (dc_authority_label d) @ feed_str (dc_authority_identity_payload_hex d)
       @ feed_str (dc_purpose d) @ field_to_le_bytes (dc_context_nonce d)"
    by (simp add: context_preimage_def)
  from feed_str_inject [OF this] sizes have 1: "dc_network c = dc_network d"
    and "feed_str (dc_pool_address c)
       @ feed_str (dc_authority_label c) @ feed_str (dc_authority_identity_payload_hex c)
       @ feed_str (dc_purpose c) @ field_to_le_bytes (dc_context_nonce c)
    = feed_str (dc_pool_address d)
       @ feed_str (dc_authority_label d) @ feed_str (dc_authority_identity_payload_hex d)
       @ feed_str (dc_purpose d) @ field_to_le_bytes (dc_context_nonce d)"
    by simp_all
  from feed_str_inject [OF this(2)] sizes have 2: "dc_pool_address c = dc_pool_address d"
    and "feed_str (dc_authority_label c) @ feed_str (dc_authority_identity_payload_hex c)
       @ feed_str (dc_purpose c) @ field_to_le_bytes (dc_context_nonce c)
    = feed_str (dc_authority_label d) @ feed_str (dc_authority_identity_payload_hex d)
       @ feed_str (dc_purpose d) @ field_to_le_bytes (dc_context_nonce d)"
    by simp_all
  from feed_str_inject [OF this(2)] sizes have 3: "dc_authority_label c = dc_authority_label d"
    and "feed_str (dc_authority_identity_payload_hex c)
       @ feed_str (dc_purpose c) @ field_to_le_bytes (dc_context_nonce c)
    = feed_str (dc_authority_identity_payload_hex d)
       @ feed_str (dc_purpose d) @ field_to_le_bytes (dc_context_nonce d)"
    by simp_all
  from feed_str_inject [OF this(2)] sizes
  have 4: "dc_authority_identity_payload_hex c = dc_authority_identity_payload_hex d"
    and "feed_str (dc_purpose c) @ field_to_le_bytes (dc_context_nonce c)
    = feed_str (dc_purpose d) @ field_to_le_bytes (dc_context_nonce d)"
    by simp_all
  from feed_str_inject [OF this(2)] sizes have "dc_purpose c = dc_purpose d"
    "dc_context_nonce c = dc_context_nonce d" by simp_all
  with 1 2 3 4 show ?thesis by simp
qed

text \<open>
  C21: The context hash binds the whole context. Two contexts with one hash are equal, or their
  encodings are two different inputs on which the digest agrees modulo the field order: the encoding
  itself, with its length prefixes, never confuses two contexts whose strings fit in memory.
\<close>

theorem context_hash_binds:
  assumes "derive_ext_context_hash env c = Inr h" and "derive_ext_context_hash env d = Inr h"
    and "representable c" and "representable d"
  shows "c = d \<or> context_preimage c \<noteq> context_preimage d
    \<and> from_le_bytes (sha256_digest env (context_preimage c)) mod BN254_PRIME
      = from_le_bytes (sha256_digest env (context_preimage d)) mod BN254_PRIME"
  using assms context_preimage_inject [OF _ assms(3,4)]
  by (auto simp: derive_ext_context_hash_def result_simps from_le_bytes_mod_order_def)

section \<open>Public inputs\<close>

lemma chunks_exact_concat:
  "0 < n \<Longrightarrow> \<forall>x\<in>set xs. length x = n \<Longrightarrow> chunks_exact n (concat xs) = xs"
  by (induction xs) (simp_all add: chunks_exact.simps)

lemma push_public_inputs:
  "fold_result push_public_input (map field_to_le_bytes fs) out = Inr (out @ map field_to_scalar fs)"
proof (induction fs arbitrary: out)
  case (Cons f fs)
  have "bytes_to_prime_field (field_to_le_bytes f) = Inr (field_to_scalar f)"
    by (simp add: bytes_to_prime_field_def FIELD_SIZE_def field_to_scalar_def field_to_le_bytes_def)
  with Cons show ?case by (simp add: push_public_input_def)
qed simp

lemma length_field_bytes [simp]: "length (concat (map field_to_le_bytes fs)) = 32 * length fs"
  by (induction fs) (simp_all add: field_to_le_bytes_def)

lemma verify_field_inputs:
  "verify_proof_with_processed_vk env vk k pf (concat (map field_to_le_bytes fs)) =
     (if length fs = k then ok_or (groth16_verify env vk (map field_to_scalar fs) pf) VerificationError
      else Inl (Err (PublicInputCount (length fs) k)))"
proof -
  have "chunks_exact FIELD_SIZE (concat (map field_to_le_bytes fs)) = map field_to_le_bytes fs"
    by (rule chunks_exact_concat) (auto simp: FIELD_SIZE_def field_to_le_bytes_def)
  then show ?thesis
    by (simp add: verify_proof_with_processed_vk_def push_public_inputs Let_def)
      (simp add: FIELD_SIZE_def)
qed

lemma circuit_public_inputs:
  "public_inputs_bytes SELECTIVE_DISCLOSURE_1 r =
     Inr (concat (map field_to_le_bytes (di_roots (dr_public_inputs r)
       @ di_note_commitments (dr_public_inputs r) @ [di_ext_context_hash (dr_public_inputs r)])))"
  by (simp add: public_inputs_bytes_def SELECTIVE_DISCLOSURE_1_def public_input_step_def
      SELECTIVE_DISCLOSURE_1_N_NOTES_def fits_def USIZE_BITS_def checked_mul_usize_def checked_add_def)

section \<open>Validation\<close>

lemma context_validate_Inr:
  "context_validate env c = Inr u \<longleftrightarrow>
     dc_network c \<noteq> [] \<and> dc_pool_address c \<noteq> [] \<and> dc_authority_label c \<noteq> [] \<and> dc_purpose c \<noteq> []
   \<and> is_ok (parse_0x_hex env (dc_authority_identity_payload_hex c))"
  by (auto simp: context_validate_def result_simps is_ok_iff)

lemma validate_registered_Inr:
  "validate_registered_receipt env r vk_hash = Inr circuit \<longleftrightarrow>
     circuit = SELECTIVE_DISCLOSURE_1 \<and> dr_version r = 1
   \<and> dr_circuit r = receipt_metadata SELECTIVE_DISCLOSURE_1 vk_hash
   \<and> is_ok (parse_0x_hex_exact env vk_hash 32) \<and> context_validate env (dr_context r) = Inr ()
   \<and> length (di_roots (dr_public_inputs r)) = 1 \<and> length (di_note_commitments (dr_public_inputs r)) = 1
   \<and> is_ok (proof_compressed_bytes env r) \<and> dr_issued_at r \<noteq> []"
  by (auto simp: validate_registered_receipt_def find_circuit_def validate_receipt_def receipt_validate_def
      metadata_validate_def public_inputs_validate_def proof_compressed_bytes_def result_simps is_ok_iff
      receipt_metadata_def SELECTIVE_DISCLOSURE_1_def SELECTIVE_DISCLOSURE_1_CIRCUIT_def
      SELECTIVE_DISCLOSURE_1_LEVELS_def SELECTIVE_DISCLOSURE_1_N_NOTES_def DISCLOSURE_RECEIPT_VERSION_def
      fits_def USIZE_BITS_def Let_def)

lemma verify_proof_bytes_True:
  "verify_proof_bytes env vk_bytes proof_bytes (concat (map field_to_le_bytes fs)) = Inr True \<longleftrightarrow>
     (\<exists>vk pf. deserialize_vk env vk_bytes = Some vk \<and> deserialize_proof env proof_bytes = Some pf
        \<and> gamma_count env vk = Suc (length fs)
        \<and> groth16_verify env vk (map field_to_scalar fs) pf = Some True)"
  by (auto simp: verify_proof_bytes_def verify_field_inputs result_simps width_simps split: if_splits)

definition hash_outputs :: "('vk, 'pf) disclosure_env \<Rightarrow> bool" where
  "hash_outputs env \<longleftrightarrow> hex_decodes (hex_decode env)
     \<and> (\<forall>bs. is_bytes (sha256_digest env bs) \<and> length (sha256_digest env bs) = 32)"

lemma vk_hash_parses:
  assumes "hash_outputs env"
  shows "parse_0x_hex_exact env (vk_hash_hex env vk_bytes) 32 = Inr (sha256_digest env vk_bytes)"
proof -
  have "length (sha256_digest env vk_bytes) = 32" using assms by (simp add: hash_outputs_def)
  then have "sha256_digest env vk_bytes \<noteq> []" by auto
  with assms parse_encoded [of env "sha256_digest env vk_bytes"] show ?thesis
    by (simp add: parse_0x_hex_exact_Inr vk_hash_hex_def hash_outputs_def)
qed

lemma verify_receipt_proof_True:
  "verify_receipt_proof env r vk_bytes vk_hash = Inr True \<longleftrightarrow>
    vk_hash = vk_hash_hex env vk_bytes
    \<and> (\<exists>circuit. validate_registered_receipt env r vk_hash = Inr circuit)
    \<and> (\<exists>proof_bytes. proof_compressed_bytes env r = Inr proof_bytes
        \<and> verify_proof_bytes env vk_bytes proof_bytes
            (concat (map field_to_le_bytes (di_roots (dr_public_inputs r)
              @ di_note_commitments (dr_public_inputs r) @ [di_ext_context_hash (dr_public_inputs r)])))
          = Inr True)"
  by (auto simp: verify_receipt_proof_def validate_verifying_key_hash_def result_simps
      validate_registered_Inr circuit_public_inputs split: if_splits)

lemma all_roots_known_one:
  "all_roots_known is_known [root] = is_known root"
  by (cases "is_known root") simp_all

lemma full_verification_iff0:
  assumes "hash_outputs env"
  shows "(\<exists>report. verify_selective_disclosure env p is_known r vk_hash = Inr report
        \<and> is_fully_verified report) \<longleftrightarrow>
    dr_version r = 1 \<and> dr_issued_at r \<noteq> [] \<and> context_validate env (dr_context r) = Inr ()
    \<and> (\<exists>vk_bytes root commitment proof_bytes vk pf.
         serialize_vk env (pr_vk p) = Some vk_bytes \<and> vk_hash = vk_hash_hex env vk_bytes
       \<and> dr_circuit r = \<lparr>cm_name = ''selectiveDisclosure_1'', cm_levels = 10, cm_n_notes = 1,
           cm_vk_hash = vk_hash\<rparr>
       \<and> dr_public_inputs r = \<lparr>di_roots = [root], di_note_commitments = [commitment],
           di_ext_context_hash = from_le_bytes_mod_order (sha256_digest env (context_preimage (dr_context r)))\<rparr>
       \<and> is_known (dc_pool_address (dr_context r)) root = Inr True
       \<and> parse_0x_hex_exact env (dr_proof_compressed_hex r) 128 = Inr proof_bytes
       \<and> deserialize_vk env vk_bytes = Some vk \<and> deserialize_proof env proof_bytes = Some pf
       \<and> gamma_count env vk = 4
       \<and> groth16_verify env vk [field_to_scalar root, field_to_scalar commitment,
           field_to_scalar (di_ext_context_hash (dr_public_inputs r))] pf = Some True)"
    (is "?lhs \<longleftrightarrow> ?rhs")
proof
  assume ?lhs
  then obtain vk_bytes where vkb: "serialize_vk env (pr_vk p) = Some vk_bytes"
    and valid: "validate_registered_receipt env r vk_hash = Inr SELECTIVE_DISCLOSURE_1"
    and pv: "verify_receipt_proof env r vk_bytes vk_hash = Inr True"
    and roots: "all_roots_known (is_known (dc_pool_address (dr_context r))) (di_roots (dr_public_inputs r)) = Inr True"
    and ctx: "verify_receipt_context env r = Inr True"
    by (auto simp: verify_selective_disclosure_def result_simps is_fully_verified_def get_verifying_key_def
        validate_registered_Inr)
  from valid obtain root commitment where one: "di_roots (dr_public_inputs r) = [root]"
    "di_note_commitments (dr_public_inputs r) = [commitment]"
    by (auto simp: validate_registered_Inr length_Suc_conv)
  from ctx have ext: "di_ext_context_hash (dr_public_inputs r)
      = from_le_bytes_mod_order (sha256_digest env (context_preimage (dr_context r)))"
    by (auto simp: verify_receipt_context_def derive_ext_context_hash_def result_simps)
  from pv obtain proof_bytes vk pf where "vk_hash = vk_hash_hex env vk_bytes"
    "proof_compressed_bytes env r = Inr proof_bytes"
    "deserialize_vk env vk_bytes = Some vk" "deserialize_proof env proof_bytes = Some pf"
    "gamma_count env vk = 4"
    "groth16_verify env vk [field_to_scalar root, field_to_scalar commitment,
       field_to_scalar (di_ext_context_hash (dr_public_inputs r))] pf = Some True"
    unfolding verify_receipt_proof_True verify_proof_bytes_True one
    by (auto simp: eval_nat_numeral)
  moreover have "dr_public_inputs r = \<lparr>di_roots = [root], di_note_commitments = [commitment],
      di_ext_context_hash = from_le_bytes_mod_order (sha256_digest env (context_preimage (dr_context r)))\<rparr>"
    using one ext by simp
  moreover have "is_known (dc_pool_address (dr_context r)) root = Inr True"
    using roots unfolding one all_roots_known_one .
  moreover have "dr_circuit r = \<lparr>cm_name = ''selectiveDisclosure_1'', cm_levels = 10, cm_n_notes = 1,
           cm_vk_hash = vk_hash\<rparr>"
    using valid by (simp add: validate_registered_Inr receipt_metadata_def SELECTIVE_DISCLOSURE_1_def
        SELECTIVE_DISCLOSURE_1_CIRCUIT_def SELECTIVE_DISCLOSURE_1_LEVELS_def
        SELECTIVE_DISCLOSURE_1_N_NOTES_def)
  moreover have "parse_0x_hex_exact env (dr_proof_compressed_hex r) 128 = Inr proof_bytes"
    using calculation(2) by (simp add: proof_compressed_bytes_def COMPRESSED_GROTH16_PROOF_BYTES_def)
  ultimately show ?rhs
    using valid vkb unfolding validate_registered_Inr by blast
next
  assume ?rhs
  then obtain vk_bytes root commitment proof_bytes vk pf where
    vkb: "serialize_vk env (pr_vk p) = Some vk_bytes" "vk_hash = vk_hash_hex env vk_bytes"
    and circ: "dr_circuit r = receipt_metadata SELECTIVE_DISCLOSURE_1 vk_hash"
    and ins: "dr_public_inputs r = \<lparr>di_roots = [root], di_note_commitments = [commitment],
      di_ext_context_hash = from_le_bytes_mod_order (sha256_digest env (context_preimage (dr_context r)))\<rparr>"
    and known: "is_known (dc_pool_address (dr_context r)) root = Inr True"
    and pf: "proof_compressed_bytes env r = Inr proof_bytes"
    and ver: "deserialize_vk env vk_bytes = Some vk" "deserialize_proof env proof_bytes = Some pf"
      "gamma_count env vk = 4" "groth16_verify env vk [field_to_scalar root, field_to_scalar commitment,
        field_to_scalar (di_ext_context_hash (dr_public_inputs r))] pf = Some True"
    and rest: "dr_version r = 1" "dr_issued_at r \<noteq> []" "context_validate env (dr_context r) = Inr ()"
    by (auto simp: receipt_metadata_def SELECTIVE_DISCLOSURE_1_def
        SELECTIVE_DISCLOSURE_1_CIRCUIT_def SELECTIVE_DISCLOSURE_1_LEVELS_def
        SELECTIVE_DISCLOSURE_1_N_NOTES_def proof_compressed_bytes_def COMPRESSED_GROTH16_PROOF_BYTES_def)
  from rest circ ins pf vk_hash_parses [OF assms] vkb
  have valid: "validate_registered_receipt env r vk_hash = Inr SELECTIVE_DISCLOSURE_1"
    by (simp add: validate_registered_Inr)
  have "verify_proof_bytes env vk_bytes proof_bytes
      (concat (map field_to_le_bytes ([root] @ [commitment] @ [di_ext_context_hash (dr_public_inputs r)]))) = Inr True"
    unfolding verify_proof_bytes_True using ver by (auto simp: eval_nat_numeral)
  with valid vkb pf ins have "verify_receipt_proof env r vk_bytes vk_hash = Inr True"
    unfolding verify_receipt_proof_True by simp
  moreover have "verify_receipt_context env r = Inr True"
    using rest ins by (simp add: verify_receipt_context_def derive_ext_context_hash_def)
  moreover have "all_roots_known (is_known (dc_pool_address (dr_context r))) (di_roots (dr_public_inputs r)) = Inr True"
    using ins known by simp
  ultimately show ?lhs
    using valid vkb(1)
    by (simp add: verify_selective_disclosure_def get_verifying_key_def is_fully_verified_def)
qed

text \<open>
  C19: Fully verified means what it says. The client reports a receipt as fully verified exactly when
  it has the registered circuit's shape, names the hash of the verifying key in use, carries one
  root that its pool knows and one commitment, its context hash is the hash of the context it
  shows, and the proof verifies for exactly these three field elements.
\<close>

theorem full_verification_iff:
  assumes "hash_outputs env"
  shows "(\<exists>report. verify_selective_disclosure env p is_known r vk_hash = Inr report
        \<and> is_fully_verified report) \<longleftrightarrow>
    dr_version r = 1 \<and> dr_issued_at r \<noteq> [] \<and> context_validate env (dr_context r) = Inr ()
    \<and> (\<exists>vk_bytes root commitment proof_bytes vk pf.
         serialize_vk env (pr_vk p) = Some vk_bytes \<and> vk_hash = vk_hash_hex env vk_bytes
       \<and> dr_circuit r = \<lparr>cm_name = ''selectiveDisclosure_1'', cm_levels = 10, cm_n_notes = 1,
           cm_vk_hash = vk_hash\<rparr>
       \<and> dr_public_inputs r = \<lparr>di_roots = [root], di_note_commitments = [commitment],
           di_ext_context_hash = from_le_bytes_mod_order (sha256_digest env (context_preimage (dr_context r)))\<rparr>
       \<and> is_known (dc_pool_address (dr_context r)) root = Inr True
       \<and> parse_0x_hex_exact env (dr_proof_compressed_hex r) 128 = Inr proof_bytes
       \<and> deserialize_vk env vk_bytes = Some vk \<and> deserialize_proof env proof_bytes = Some pf
       \<and> gamma_count env vk = 4
       \<and> groth16_verify env vk [field_to_scalar root, field_to_scalar commitment,
           field_to_scalar (di_ext_context_hash (dr_public_inputs r))] pf = Some True)"
  by (rule full_verification_iff0 [OF assms])

section \<open>Issued receipts\<close>

text \<open>
  What issuing relies on: a proof is 128 bytes, a serialised key reads back, and the witness
  starts with the constant wire and the three public signals of the circuit, in their order.
\<close>

definition proof_system_sound_bytes :: "('vk, 'pf) disclosure_env \<Rightarrow> bool" where
  "proof_system_sound_bytes env \<longleftrightarrow>
     (\<forall>w pf. prove_bytes env w = Some pf \<longrightarrow> is_bytes pf \<and> length pf = 128)
   \<and> (\<forall>vk bs. serialize_vk env vk = Some bs \<longrightarrow> deserialize_vk env bs = Some vk)
   \<and> (\<forall>c w roots commitments h. compute_witness env c = Some w
        \<and> array_signal c ''roots'' = Some roots \<and> array_signal c ''noteCommitments'' = Some commitments
        \<and> single_signal c ''extContextHash'' = Some h
        \<longrightarrow> (\<exists>one rest. w = one @ concat (map (le_digits 32) (roots @ commitments @ [h])) @ rest
               \<and> length one = 32))"

lemma extract_three:
  assumes "extract_public_inputs p w = Inr bs" and "pr_num_public p = 3"
    and "w = one @ concat (map (le_digits 32) [a, b, c]) @ rest" and "length one = 32"
  shows "bs = concat (map (le_digits 32) [a, b, c])"
  using assms by (auto simp: extract_public_inputs_def result_simps checked_mul_usize_def checked_add_def
      FIELD_SIZE_def fits_def USIZE_BITS_def)

lemma prover_verify_scalars:
  assumes "prover_verify env p proof_bytes (concat (map (le_digits 32) ss)) = Inr True"
    and "\<forall>s \<in> set ss. s < prime"
  shows "\<exists>pf. deserialize_proof env proof_bytes = Some pf \<and> gamma_count env (pr_vk p) = Suc (length ss)
     \<and> groth16_verify env (pr_vk p) ss pf = Some True"
proof -
  have bytes: "map (le_digits 32) ss = map field_to_le_bytes (map scalar_field ss)"
    and vals: "map field_to_scalar (map scalar_field ss) = ss"
    using assms(2) scalar_field(2,4) by (simp_all add: map_idI)
  show ?thesis
    using assms(1) unfolding bytes prover_verify_def verify_field_inputs vals
    by (auto simp: result_simps width_simps verify_field_inputs vals simp del: map_map split: if_splits)
qed

text \<open>
  C20: A receipt the application issues verifies. If the prover and the verifier use one key, and the
  pool named in the context knows the note's root, the client reports a receipt made by the worker
  as fully verified against the hash the receipt itself carries.
\<close>

theorem issued_receipts_verify:
  assumes "issue_receipt env p issued_at req = Inr r"
    and "hash_outputs env" and "proof_system_sound_bytes env" and "pr_num_public p = 3"
    and "length (sd_note_private_key (dq_inputs req)) = 32" and "issued_at \<noteq> []"
    and "is_known (dc_pool_address (dq_context req)) (sd_root (dq_inputs req)) = Inr True"
  shows "verify_selective_disclosure env p is_known r (cm_vk_hash (dr_circuit r))
    = Inr \<lparr>proof_verified = True, context_verified = True, known_root_status = True\<rparr>"
proof -
  from assms(1) obtain h a w proved vk_bytes where
    h: "derive_ext_context_hash env (dq_context req) = Inr h"
    and a: "selective_disclosure_1 ((dq_inputs req)\<lparr>sd_ext_context_hash := h\<rparr>) = Inr a"
    and w: "compute_witness env (da_circuit_inputs a) = Some w"
    and proved: "prove_receipt_proof_with_prover env p w = Inr proved"
    and vk: "serialize_vk env (pr_vk p) = Some vk_bytes"
    and r: "r = \<lparr>dr_version = DISCLOSURE_RECEIPT_VERSION,
            dr_circuit = \<lparr>cm_name = SELECTIVE_DISCLOSURE_1_CIRCUIT,
              cm_levels = SELECTIVE_DISCLOSURE_1_LEVELS, cm_n_notes = SELECTIVE_DISCLOSURE_1_N_NOTES,
              cm_vk_hash = vk_hash_hex env vk_bytes\<rparr>,
            dr_context = dq_context req,
            dr_public_inputs = \<lparr>di_roots = [sd_root (dq_inputs req)],
              di_note_commitments = [sd_note_commitment (dq_inputs req)], di_ext_context_hash = h\<rparr>,
            dr_proof_compressed_hex = ''0x'' @ hex_encode (pv_proof_compressed proved),
            dr_issued_at = issued_at\<rparr>"
    by (auto simp: issue_receipt_def result_simps get_verifying_key_def)
  let ?s = "[field_to_scalar (sd_root (dq_inputs req)), field_to_scalar (sd_note_commitment (dq_inputs req)),
    field_to_scalar h]"
  have "length (sd_note_private_key ((dq_inputs req)\<lparr>sd_ext_context_hash := h\<rparr>)) = 32" using assms(5) by simp
  from selective_disclosure_signals [OF this] a
  have "array_signal (da_circuit_inputs a) ''roots'' = Some [field_to_scalar (sd_root (dq_inputs req))]"
    "array_signal (da_circuit_inputs a) ''noteCommitments'' = Some [field_to_scalar (sd_note_commitment (dq_inputs req))]"
    "single_signal (da_circuit_inputs a) ''extContextHash'' = Some (field_to_scalar h)"
    by simp_all
  with w assms(3) have "\<exists>one rest. w = one @ concat (map (le_digits 32)
      ([field_to_scalar (sd_root (dq_inputs req))] @ [field_to_scalar (sd_note_commitment (dq_inputs req))]
        @ [field_to_scalar h])) @ rest \<and> length one = 32"
    unfolding proof_system_sound_bytes_def by blast
  then obtain one rest where layout: "w = one @ concat (map (le_digits 32) ?s) @ rest" "length one = 32"
    by auto
  from proved obtain bs where pf: "prove_bytes env w = Some (pv_proof_compressed proved)"
    and bs: "extract_public_inputs p w = Inr bs" "prover_verify env p (pv_proof_compressed proved) bs = Inr True"
    by (auto simp: prove_receipt_proof_with_prover_def result_simps)
  from extract_three [OF bs(1) assms(4) layout] bs(2)
  have "prover_verify env p (pv_proof_compressed proved) (concat (map (le_digits 32) ?s)) = Inr True"
    by simp
  from prover_verify_scalars [OF this] obtain g where
    "deserialize_proof env (pv_proof_compressed proved) = Some g"
    "gamma_count env (pr_vk p) = 4" "groth16_verify env (pr_vk p) ?s g = Some True"
    by (auto simp: field_to_scalar_less)
  moreover have len: "is_bytes (pv_proof_compressed proved)" "length (pv_proof_compressed proved) = 128"
    using pf assms(3) by (simp_all add: proof_system_sound_bytes_def)
  moreover from len have "parse_0x_hex_exact env (dr_proof_compressed_hex r) 128 = Inr (pv_proof_compressed proved)"
    using assms(2) parse_encoded [of env "pv_proof_compressed proved"]
    by (cases "pv_proof_compressed proved = []") (auto simp: r parse_0x_hex_exact_Inr hash_outputs_def)
  moreover have "deserialize_vk env vk_bytes = Some (pr_vk p)"
    using vk assms(3) by (simp add: proof_system_sound_bytes_def)
  moreover have "context_validate env (dq_context req) = Inr ()"
    "h = from_le_bytes_mod_order (sha256_digest env (context_preimage (dq_context req)))"
    using h by (auto simp: derive_ext_context_hash_def result_simps)
  ultimately have "\<exists>report. verify_selective_disclosure env p is_known r (cm_vk_hash (dr_circuit r)) = Inr report
      \<and> is_fully_verified report"
    unfolding full_verification_iff0 [OF assms(2)]
    using vk assms(6,7)
    by (simp add: r DISCLOSURE_RECEIPT_VERSION_def SELECTIVE_DISCLOSURE_1_CIRCUIT_def
        SELECTIVE_DISCLOSURE_1_LEVELS_def SELECTIVE_DISCLOSURE_1_N_NOTES_def)
  then show ?thesis by (auto simp: is_fully_verified_def)
qed

section \<open>Concrete instances\<close>

text \<open>
  A proof system whose proofs are the public inputs themselves, and a digest that is the length of
  its input.
\<close>

definition sample_env :: "(unit, nat list) disclosure_env" where
  "sample_env = \<lparr>sha256_digest = (\<lambda>bs. le_digits 32 (length bs)), hex_decode = hex_read,
     serialize_vk = (\<lambda>_. Some [1]), deserialize_vk = (\<lambda>_. Some ()), gamma_count = (\<lambda>_. 4),
     deserialize_proof = Some,
     groth16_verify = (\<lambda>_ ss pf. Some (pf = concat (map (le_digits 32) ss) @ replicate 32 0)),
     prove_bytes = (\<lambda>w. if is_bytes w \<and> length w = 128 then Some (drop 32 w @ replicate 32 0) else None),
     compute_witness = (\<lambda>c. case (array_signal c ''roots'', array_signal c ''noteCommitments'',
         single_signal c ''extContextHash'') of
       (Some roots, Some commitments, Some h) \<Rightarrow>
         Some (le_digits 32 1 @ concat (map (le_digits 32) (roots @ commitments @ [h])))
     | _ \<Rightarrow> None)\<rparr>"

definition sample_prover :: "unit prover" where
  "sample_prover = \<lparr>pr_vk = (), pr_num_public = 3\<rparr>"

definition sample_context :: disclosure_context where
  "sample_context = \<lparr>dc_network = ''testnet'', dc_pool_address = ''CA'', dc_authority_label = ''tax'',
     dc_authority_identity_payload_hex = ''0x'' @ hex_encode [1, 2], dc_purpose = ''audit'',
     dc_context_nonce = Field 9\<rparr>"

definition sample_request :: disclosure_request where
  "sample_request = \<lparr>dq_context = sample_context,
     dq_inputs = \<lparr>sd_root = Field 5, sd_note_commitment = Field 6, sd_note_amount = NoteAmount 7,
       sd_note_private_key = replicate 32 0, sd_note_blinding = Field 8, sd_path_indices = Field 0,
       sd_path_elements = [], sd_ext_context_hash = Field 0\<rparr>\<rparr>"

lemma is_bytes_zeros [simp]: "is_bytes (replicate n 0)"
  by (simp add: is_bytes_def)

lemma sample_env_hash: "hash_outputs sample_env"
  by (simp add: hash_outputs_def sample_env_def hex_read_decodes)

lemma sample_env_bytes: "proof_system_sound_bytes sample_env"
  by (auto simp: proof_system_sound_bytes_def sample_env_def is_bytes_def dest: in_set_dropD
      split: option.splits if_splits)
    (intro exI [of _ "le_digits 32 (Suc 0)"] exI [of _ "[]"] conjI; simp)

lemma sample_context_valid: "context_validate sample_env sample_context = Inr ()"
  using parse_encoded [of sample_env "[1, 2]"] sample_env_hash
  by (simp add: context_validate_def sample_context_def hash_outputs_def)

lemma sample_issued:
  "\<exists>r. issue_receipt sample_env sample_prover ''now'' sample_request = Inr r"
proof -
  obtain h where h: "derive_ext_context_hash sample_env sample_context = Inr h"
    by (simp add: derive_ext_context_hash_def sample_context_valid)
  have "length (sd_note_private_key ((dq_inputs sample_request)\<lparr>sd_ext_context_hash := h\<rparr>)) = 32"
    by (simp add: sample_request_def)
  from selective_disclosure_signals [OF this] obtain a where
    a: "selective_disclosure_1 ((dq_inputs sample_request)\<lparr>sd_ext_context_hash := h\<rparr>) = Inr a"
    and signals: "array_signal (da_circuit_inputs a) ''roots'' = Some [field_to_scalar (Field 5)]"
      "array_signal (da_circuit_inputs a) ''noteCommitments'' = Some [field_to_scalar (Field 6)]"
      "single_signal (da_circuit_inputs a) ''extContextHash'' = Some (field_to_scalar h)"
    by (auto simp: sample_request_def)
  let ?ss = "[field_to_scalar (Field 5), field_to_scalar (Field 6), field_to_scalar h]"
  let ?w = "le_digits 32 1 @ concat (map (le_digits 32) ?ss)"
  have "compute_witness sample_env (da_circuit_inputs a) = Some ?w"
    using signals by (simp add: sample_env_def)
  moreover have "prove_bytes sample_env ?w = Some (concat (map (le_digits 32) ?ss) @ replicate 32 0)"
    by (simp add: sample_env_def)
  moreover have "extract_public_inputs sample_prover ?w = Inr (concat (map (le_digits 32) ?ss))"
    by (simp add: extract_public_inputs_def sample_prover_def checked_mul_usize_def checked_add_def
      FIELD_SIZE_def fits_def USIZE_BITS_def)
  moreover have "prover_verify sample_env sample_prover (concat (map (le_digits 32) ?ss) @ replicate 32 0)
      (concat (map (le_digits 32) ?ss)) = Inr True"
  proof -
    have bytes: "map (le_digits 32) ?ss = map field_to_le_bytes (map scalar_field ?ss)"
      and vals: "map field_to_scalar (map scalar_field ?ss) = ?ss"
      using scalar_field(2,4) by (simp_all add: field_to_scalar_less)
    have "verify_proof_with_processed_vk sample_env () 3 pf (concat (map (le_digits 32) ?ss))
        = ok_or (groth16_verify sample_env () ?ss pf) VerificationError" for pf
      unfolding bytes verify_field_inputs vals by simp
    then show ?thesis
      unfolding prover_verify_def by (simp add: checked_sub_def sample_prover_def) (simp add: sample_env_def checked_sub_def)
  qed
  ultimately show ?thesis
    using h a by (simp add: issue_receipt_def prove_receipt_proof_with_prover_def get_verifying_key_def)
      (simp add: sample_request_def sample_env_def)
qed

theorem context_hash_binds_witness:
  "sample_context\<lparr>dc_purpose := ''spend''\<rparr> = sample_context
   \<or> context_preimage (sample_context\<lparr>dc_purpose := ''spend''\<rparr>) \<noteq> context_preimage sample_context
     \<and> from_le_bytes (sha256_digest sample_env (context_preimage (sample_context\<lparr>dc_purpose := ''spend''\<rparr>))) mod BN254_PRIME
       = from_le_bytes (sha256_digest sample_env (context_preimage sample_context)) mod BN254_PRIME"
proof -
  let ?c = "sample_context\<lparr>dc_purpose := ''spend''\<rparr>"
  have len: "length (context_preimage ?c) = length (context_preimage sample_context)"
    by (simp add: context_preimage_def feed_str_def string_bytes_def sample_context_def)
  have "context_validate sample_env ?c = Inr ()"
    using sample_context_valid by (simp add: context_validate_def sample_context_def result_simps)
  then have "derive_ext_context_hash sample_env ?c
      = Inr (from_le_bytes_mod_order (le_digits 32 (length (context_preimage sample_context))))"
    "derive_ext_context_hash sample_env sample_context
      = Inr (from_le_bytes_mod_order (le_digits 32 (length (context_preimage sample_context))))"
    using sample_context_valid len by (simp_all add: derive_ext_context_hash_def sample_env_def)
  moreover have "representable ?c" "representable sample_context"
    by (simp_all add: representable_def sample_context_def)
  ultimately show ?thesis by (rule context_hash_binds)
qed

theorem full_verification_iff_witness:
  "\<exists>r. (\<exists>report. verify_selective_disclosure sample_env sample_prover (\<lambda>_ _. Inr True) r
          (vk_hash_hex sample_env [1]) = Inr report \<and> is_fully_verified report)
     \<and> \<not> (\<exists>report. verify_selective_disclosure sample_env sample_prover (\<lambda>_ _. Inr False) r
          (vk_hash_hex sample_env [1]) = Inr report \<and> is_fully_verified report)"
proof -
  let ?h = "from_le_bytes_mod_order (sha256_digest sample_env (context_preimage sample_context))"
  let ?pf = "concat (map (le_digits 32) [field_to_scalar (Field 5), field_to_scalar (Field 6), field_to_scalar ?h])
    @ replicate 32 0"
  let ?r = "\<lparr>dr_version = 1, dr_circuit = \<lparr>cm_name = ''selectiveDisclosure_1'', cm_levels = 10, cm_n_notes = 1,
      cm_vk_hash = vk_hash_hex sample_env [1]\<rparr>, dr_context = sample_context,
    dr_public_inputs = \<lparr>di_roots = [Field 5], di_note_commitments = [Field 6], di_ext_context_hash = ?h\<rparr>,
    dr_proof_compressed_hex = ''0x'' @ hex_encode ?pf, dr_issued_at = ''now''\<rparr>"
  have "is_bytes ?pf" "?pf \<noteq> []" and len: "length ?pf = 128" by simp_all
  moreover have "hex_decodes (hex_decode sample_env)" by (simp add: sample_env_def hex_read_decodes)
  ultimately have "parse_0x_hex sample_env (''0x'' @ hex_encode ?pf) = Inr ?pf" by (intro parse_encoded)
  then have "parse_0x_hex_exact sample_env (''0x'' @ hex_encode ?pf) 128 = Inr ?pf"
    using len unfolding parse_0x_hex_exact_Inr by blast
  moreover have "serialize_vk sample_env (pr_vk sample_prover) = Some [1]" "deserialize_vk sample_env [1] = Some ()"
    "deserialize_proof sample_env ?pf = Some ?pf" "gamma_count sample_env () = 4"
    "groth16_verify sample_env () [field_to_scalar (Field 5), field_to_scalar (Field 6), field_to_scalar ?h] ?pf = Some True"
    by (simp_all add: sample_env_def)
  ultimately show ?thesis
    unfolding full_verification_iff [OF sample_env_hash]
    by (intro exI [of _ ?r] conjI) (auto simp: sample_context_valid)
qed

theorem issued_receipts_verify_witness:
  "\<exists>r. issue_receipt sample_env sample_prover ''now'' sample_request = Inr r
     \<and> verify_selective_disclosure sample_env sample_prover (\<lambda>_ root. Inr (root = Field 5)) r (cm_vk_hash (dr_circuit r))
        = Inr \<lparr>proof_verified = True, context_verified = True, known_root_status = True\<rparr>"
proof -
  obtain r where r: "issue_receipt sample_env sample_prover ''now'' sample_request = Inr r"
    using sample_issued by blast
  have "verify_selective_disclosure sample_env sample_prover (\<lambda>_ root. Inr (root = Field 5)) r (cm_vk_hash (dr_circuit r))
        = Inr \<lparr>proof_verified = True, context_verified = True, known_root_status = True\<rparr>"
    by (rule issued_receipts_verify [OF r sample_env_hash sample_env_bytes])
      (simp_all add: sample_prover_def sample_request_def)
  with r show ?thesis by blast
qed

end
