(* ===== verification/R1CS.thy ===== *)
theory R1CS
  imports Disclosure
begin

text \<open>
  The reader of constraint files (\<open>app/crates/core/prover/src/r1cs.rs\<close>) and the prover that
  replays their constraints on a witness (\<open>app/crates/core/prover/src/prover.rs\<close>).

  The cursor is a record of the data and a position; every read returns the cursor behind it. A
  \<open>usize\<close> has the 32 bits of the target. \<open>Vec::with_capacity\<close> panics when the buffer would exceed
  \<open>isize::MAX\<close> bytes, which the file can cause with a large count: the sizes of the elements on
  that target are 40 bytes for a term (a \<open>u32\<close> before four \<open>u64\<close> limbs) and 36 for a constraint.
\<close>

datatype r1cs_error =
    CursorOverflow
  | EndOfData
  | BadMagic
  | BadVersion nat
  | SectionTooLarge
  | BadFieldSize nat
  | InvalidCursorPosition
  | InvalidRemaining
  | MissingHeader
  | PublicOverflow

section \<open>Constraint systems as data\<close>

record r1cs_term =
  wire_id :: nat
  coefficient :: scalar

type_synonym linear_combination = "r1cs_term list"

record r1cs_constraint =
  lc_a :: linear_combination
  lc_b :: linear_combination
  lc_c :: linear_combination

record r1cs =
  num_wires :: nat
  num_pub_out :: nat
  num_pub_in :: nat
  num_prv_in :: nat
  num_public :: nat
  r1cs_constraints :: "r1cs_constraint list"

record r1cs_header =
  h_field_size :: nat
  h_num_wires :: nat
  h_num_pub_out :: nat
  h_num_pub_in :: nat
  h_num_prv_in :: nat
  h_num_constraints :: nat

section \<open>The cursor\<close>

record cursor =
  cu_data :: "nat list"
  cu_position :: nat

definition cursor_new :: "nat list \<Rightarrow> cursor" where
  "cursor_new data = \<lparr>cu_data = data, cu_position = 0\<rparr>"

definition read_bytes :: "nat \<Rightarrow> cursor \<Rightarrow> (r1cs_error, nat list \<times> cursor) result" where
  "read_bytes n cu =
     and_then (ok_or (checked_add USIZE_BITS (cu_position cu) n) CursorOverflow) (\<lambda>finish.
     and_then (ensure (\<not> length (cu_data cu) < finish) EndOfData) (\<lambda>_.
       Inr (take (finish - cu_position cu) (drop (cu_position cu) (cu_data cu)),
            cu\<lparr>cu_position := finish\<rparr>)))"

definition read_u32_le :: "cursor \<Rightarrow> (r1cs_error, nat \<times> cursor) result" where
  "read_u32_le cu = and_then (read_bytes 4 cu) (\<lambda>(bs, cu'). Inr (le_value bs, cu'))"

definition read_u64_le :: "cursor \<Rightarrow> (r1cs_error, nat \<times> cursor) result" where
  "read_u64_le cu = and_then (read_bytes 8 cu) (\<lambda>(bs, cu'). Inr (le_value bs, cu'))"

definition skip_bytes :: "nat \<Rightarrow> cursor \<Rightarrow> (r1cs_error, cursor) result" where
  "skip_bytes n cu =
     and_then (ok_or (checked_add USIZE_BITS (cu_position cu) n) CursorOverflow) (\<lambda>finish.
     and_then (ensure (\<not> length (cu_data cu) < finish) EndOfData) (\<lambda>_.
       Inr (cu\<lparr>cu_position := finish\<rparr>)))"

section \<open>Parsing\<close>

definition TERM_BYTES :: nat where
  "TERM_BYTES = 40"

definition CONSTRAINT_BYTES :: nat where
  "CONSTRAINT_BYTES = 36"

definition with_capacity :: "nat \<Rightarrow> nat \<Rightarrow> ('e, unit) result" where
  "with_capacity element_bytes n = ensure_host (n * element_bytes < 2 ^ (USIZE_BITS - 1))"

definition parse_header :: "cursor \<Rightarrow> (r1cs_error, r1cs_header \<times> cursor) result" where
  "parse_header cu0 =
     and_then (read_u32_le cu0) (\<lambda>(field_size, cu1).
     and_then (ensure (field_size = 32) (BadFieldSize field_size)) (\<lambda>_.
     and_then (skip_bytes field_size cu1) (\<lambda>cu2.
     and_then (read_u32_le cu2) (\<lambda>(wires, cu3).
     and_then (read_u32_le cu3) (\<lambda>(pub_out, cu4).
     and_then (read_u32_le cu4) (\<lambda>(pub_in, cu5).
     and_then (read_u32_le cu5) (\<lambda>(prv_in, cu6).
     and_then (read_u64_le cu6) (\<lambda>(_, cu7).
     and_then (read_u32_le cu7) (\<lambda>(n_constraints, cu8).
       Inr (\<lparr>h_field_size = field_size, h_num_wires = wires, h_num_pub_out = pub_out,
             h_num_pub_in = pub_in, h_num_prv_in = prv_in, h_num_constraints = n_constraints\<rparr>, cu8))))))))))"

fun read_terms :: "nat \<Rightarrow> nat \<Rightarrow> linear_combination \<Rightarrow> cursor
    \<Rightarrow> (r1cs_error, linear_combination \<times> cursor) result" where
  "read_terms field_size 0 terms cu = Inr (terms, cu)"
| "read_terms field_size (Suc n) terms cu =
     and_then (read_u32_le cu) (\<lambda>(wire, cu1).
     and_then (read_bytes field_size cu1) (\<lambda>(coeff_bytes, cu2).
       read_terms field_size n
         (terms @ [\<lparr>wire_id = wire, coefficient = le_value coeff_bytes mod prime\<rparr>]) cu2))"

definition parse_linear_combination ::
  "cursor \<Rightarrow> nat \<Rightarrow> (r1cs_error, linear_combination \<times> cursor) result" where
  "parse_linear_combination cu field_size =
     and_then (read_u32_le cu) (\<lambda>(num_terms, cu1).
     and_then (with_capacity TERM_BYTES num_terms) (\<lambda>_.
       read_terms field_size num_terms [] cu1))"

fun read_constraints :: "nat \<Rightarrow> nat \<Rightarrow> r1cs_constraint list \<Rightarrow> cursor
    \<Rightarrow> (r1cs_error, r1cs_constraint list \<times> cursor) result" where
  "read_constraints field_size 0 cs cu = Inr (cs, cu)"
| "read_constraints field_size (Suc n) cs cu =
     and_then (parse_linear_combination cu field_size) (\<lambda>(a, cu1).
     and_then (parse_linear_combination cu1 field_size) (\<lambda>(b, cu2).
     and_then (parse_linear_combination cu2 field_size) (\<lambda>(c, cu3).
       read_constraints field_size n (cs @ [\<lparr>lc_a = a, lc_b = b, lc_c = c\<rparr>]) cu3)))"

definition parse_constraints ::
  "cursor \<Rightarrow> r1cs_header \<Rightarrow> (r1cs_error, r1cs_constraint list \<times> cursor) result" where
  "parse_constraints cu header =
     and_then (with_capacity CONSTRAINT_BYTES (h_num_constraints header)) (\<lambda>_.
       read_constraints (h_field_size header) (h_num_constraints header) [] cu)"

text \<open>The first pass: the header as parsed, and where the constraints are.\<close>

record section_scan =
  sc_cursor :: cursor
  sc_header :: "r1cs_header option"
  sc_constraints :: "(nat \<times> nat) option"

definition scan_body ::
  "nat \<Rightarrow> nat \<Rightarrow> nat \<Rightarrow> section_scan \<Rightarrow> (r1cs_error, section_scan) result" where
  "scan_body section_type section_start section_size sc =
     (if section_type = 1 then
        and_then (parse_header (sc_cursor sc)) (\<lambda>(h, cu). Inr (sc\<lparr>sc_cursor := cu, sc_header := Some h\<rparr>))
      else if section_type = 2 then
        and_then (skip_bytes section_size (sc_cursor sc)) (\<lambda>cu.
          Inr (sc\<lparr>sc_cursor := cu, sc_constraints := Some (section_start, section_size)\<rparr>))
      else and_then (skip_bytes section_size (sc_cursor sc)) (\<lambda>cu. Inr (sc\<lparr>sc_cursor := cu\<rparr>)))"

definition scan_section :: "section_scan \<Rightarrow> (r1cs_error, section_scan) result" where
  "scan_section sc =
     and_then (read_u32_le (sc_cursor sc)) (\<lambda>(section_type, cu1).
     and_then (read_u64_le cu1) (\<lambda>(section_size, cu2).
     let section_start = cu_position cu2 in
     and_then (ensure (fits USIZE_BITS section_size) SectionTooLarge) (\<lambda>_.
     and_then (scan_body section_type section_start section_size (sc\<lparr>sc_cursor := cu2\<rparr>)) (\<lambda>sc'.
     and_then (ok_or (checked_sub (cu_position (sc_cursor sc')) section_start) InvalidCursorPosition) (\<lambda>consumed.
       if consumed < section_size then
         and_then (ok_or (checked_sub section_size consumed) InvalidRemaining) (\<lambda>remaining.
         and_then (skip_bytes remaining (sc_cursor sc')) (\<lambda>cu. Inr (sc'\<lparr>sc_cursor := cu\<rparr>)))
       else Inr sc')))))"

fun scan_sections :: "nat \<Rightarrow> section_scan \<Rightarrow> (r1cs_error, section_scan) result" where
  "scan_sections 0 sc = Inr sc"
| "scan_sections (Suc n) sc = and_then (scan_section sc) (scan_sections n)"

definition r1cs_magic :: "nat list" where
  "r1cs_magic = string_bytes ''r1cs''"

definition r1cs_parse :: "nat list \<Rightarrow> (r1cs_error, r1cs) result" where
  "r1cs_parse data =
     and_then (read_bytes 4 (cursor_new data)) (\<lambda>(magic, cu1).
     and_then (ensure (magic = r1cs_magic) BadMagic) (\<lambda>_.
     and_then (read_u32_le cu1) (\<lambda>(version, cu2).
     and_then (ensure (version = 1) (BadVersion version)) (\<lambda>_.
     and_then (read_u32_le cu2) (\<lambda>(num_sections, cu3).
     and_then (scan_sections num_sections
        \<lparr>sc_cursor = cu3, sc_header = None, sc_constraints = None\<rparr>) (\<lambda>sc.
     and_then (ok_or (sc_header sc) MissingHeader) (\<lambda>header.
     and_then (case sc_constraints sc of
          Some (start, _) \<Rightarrow>
            and_then (parse_constraints ((sc_cursor sc)\<lparr>cu_position := start\<rparr>) header) (\<lambda>(cs, _). Inr cs)
        | None \<Rightarrow> Inr []) (\<lambda>constraints.
     and_then (ok_or (checked_add 32 (h_num_pub_out header) (h_num_pub_in header)) PublicOverflow) (\<lambda>public.
       Inr \<lparr>num_wires = h_num_wires header, num_pub_out = h_num_pub_out header,
            num_pub_in = h_num_pub_in header, num_prv_in = h_num_prv_in header,
            num_public = public, r1cs_constraints = constraints\<rparr>)))))))))"

definition num_constraints :: "r1cs \<Rightarrow> nat" where
  "num_constraints r = length (r1cs_constraints r)"

section \<open>Replaying the constraints\<close>

text \<open>
  arkworks' constraint system is a parameter: allocation of variables and the enforcement of one
  constraint on three linear combinations, each given as the terms added to an empty one.
\<close>

datatype synthesis_error = Unsatisfiable | SynthesisFailed

type_synonym 'v lincomb = "(scalar \<times> 'v) list"

record ('cs, 'v) constraint_host =
  one_variable :: 'v
  new_input_variable :: "scalar \<Rightarrow> 'cs \<Rightarrow> ('v \<times> 'cs) option"
  new_witness_variable :: "scalar \<Rightarrow> 'cs \<Rightarrow> ('v \<times> 'cs) option"
  enforce_r1cs_constraint :: "'v lincomb \<Rightarrow> 'v lincomb \<Rightarrow> 'v lincomb \<Rightarrow> 'cs \<Rightarrow> 'cs option"

definition allocate_input ::
  "('cs, 'v) constraint_host \<Rightarrow> scalar list \<Rightarrow> nat \<Rightarrow> 'v list \<times> 'cs \<Rightarrow> (synthesis_error, 'v list \<times> 'cs) result" where
  "allocate_input host w i vs_cs =
     (case vs_cs of (vs, cs) \<Rightarrow>
      and_then (ok_or (nth_opt w i) Unsatisfiable) (\<lambda>v.
      and_then (ok_or (new_input_variable host v cs) SynthesisFailed) (\<lambda>(x, cs').
        Inr (vs @ [x], cs'))))"

definition allocate_witness ::
  "('cs, 'v) constraint_host \<Rightarrow> scalar list \<Rightarrow> nat \<Rightarrow> 'v list \<times> 'cs \<Rightarrow> (synthesis_error, 'v list \<times> 'cs) result" where
  "allocate_witness host w i vs_cs =
     (case vs_cs of (vs, cs) \<Rightarrow>
      and_then (ok_or (new_witness_variable host (if i < length w then w ! i else 0) cs) SynthesisFailed)
        (\<lambda>(x, cs'). Inr (vs @ [x], cs')))"

definition constraint_terms :: "r1cs_constraint \<Rightarrow> r1cs_term list" where
  "constraint_terms c = lc_a c @ lc_b c @ lc_c c"

fun replay_lc :: "'v list \<Rightarrow> r1cs_term list \<Rightarrow> 'v lincomb \<Rightarrow> (synthesis_error, 'v lincomb) result" where
  "replay_lc vs [] lc = Inr lc"
| "replay_lc vs (t # ts) lc =
     and_then (unwrap (nth_opt vs (wire_id t))) (\<lambda>x. replay_lc vs ts (lc @ [(coefficient t, x)]))"

definition replay_constraint ::
  "('cs, 'v) constraint_host \<Rightarrow> 'v list \<Rightarrow> r1cs_constraint \<Rightarrow> 'cs \<Rightarrow> (synthesis_error, 'cs) result" where
  "replay_constraint host vs c cs =
     and_then (replay_lc vs (lc_a c) []) (\<lambda>a.
     and_then (replay_lc vs (lc_b c) []) (\<lambda>b.
     and_then (replay_lc vs (lc_c c) []) (\<lambda>d.
       ok_or (enforce_r1cs_constraint host a b d cs) SynthesisFailed)))"

definition generate_constraints ::
  "('cs, 'v) constraint_host \<Rightarrow> r1cs \<Rightarrow> scalar list \<Rightarrow> 'cs \<Rightarrow> (synthesis_error, 'cs) result" where
  "generate_constraints host r w cs0 =
     and_then (ensure (nth_opt w 0 = Some 1) Unsatisfiable) (\<lambda>_.
     and_then (unwrap (checked_add 32 (num_public r) 1)) (\<lambda>n.
     and_then (ensure (\<not> num_wires r < n) Unsatisfiable) (\<lambda>_.
     and_then (ensure (\<not> length w < num_wires r) Unsatisfiable) (\<lambda>_.
     and_then (fold_result (allocate_input host w) [1..<num_public r + 1] ([one_variable host], cs0)) (\<lambda>vs_cs.
     and_then (ok_or (checked_add USIZE_BITS (num_public r) 1) Unsatisfiable) (\<lambda>first.
     and_then (fold_result (allocate_witness host w) [first..<num_wires r] vs_cs) (\<lambda>(vs, cs).
     and_then (ensure (\<not> list_ex (\<lambda>c. list_ex (\<lambda>t. num_wires r \<le> wire_id t) (constraint_terms c))
         (r1cs_constraints r)) Unsatisfiable) (\<lambda>_.
       fold_result (replay_constraint host vs) (r1cs_constraints r) cs))))))))"

section \<open>The prover\<close>

text \<open>
  The Groth16 prover takes the key, the synthesis of the circuit and randomness; points are their
  coordinates, serialisation is the library's.
\<close>

datatype proving_error =
    InvalidWitnessSize nat
  | WitnessElements nat nat
  | WitnessElement codec_error
  | ProvingKeyInvalid
  | R1csInvalid r1cs_error
  | PublicCountMismatch
  | ProofGenerationFailed
  | PointNotSerialized

record g1_coords =
  g1_x :: nat
  g1_y :: nat

record g2_coords =
  g2_x0 :: nat
  g2_x1 :: nat
  g2_y0 :: nat
  g2_y1 :: nat

record groth_proof =
  gp_a :: g1_coords
  gp_b :: g2_coords
  gp_c :: g1_coords

record ('cs, 'v, 'pk, 'vk) groth_host =
  gh_constraints :: "('cs, 'v) constraint_host"
  gh_load_pk :: "nat list \<Rightarrow> 'pk option"
  gh_vk_of :: "'pk \<Rightarrow> 'vk"
  gh_gamma_count :: "'vk \<Rightarrow> nat"
  gh_prove :: "'pk \<Rightarrow> ('cs \<Rightarrow> (synthesis_error, 'cs) result) \<Rightarrow> groth_proof option"
  gh_g1_compressed :: "g1_coords \<Rightarrow> nat list option"
  gh_g2_compressed :: "g2_coords \<Rightarrow> nat list option"
  gh_proof_decompressed :: "nat list \<Rightarrow> groth_proof option"

record ('pk, 'vk) loaded_prover =
  lp_pk :: 'pk
  lp_vk :: 'vk
  lp_r1cs :: r1cs

definition prover_new ::
  "('cs, 'v, 'pk, 'vk) groth_host \<Rightarrow> nat list \<Rightarrow> nat list
     \<Rightarrow> (proving_error, ('pk, 'vk) loaded_prover) result" where
  "prover_new g pk_bytes r1cs_bytes =
     and_then (ok_or (gh_load_pk g pk_bytes) ProvingKeyInvalid) (\<lambda>pk.
     let vk = gh_vk_of g pk in
     and_then (map_err R1csInvalid (r1cs_parse r1cs_bytes)) (\<lambda>r.
     and_then (ensure (gh_gamma_count g vk - 1 = num_public r) PublicCountMismatch) (\<lambda>_.
       Inr \<lparr>lp_pk = pk, lp_vk = vk, lp_r1cs = r\<rparr>)))"

definition push_witness_element :: "nat list \<Rightarrow> scalar list \<Rightarrow> (proving_error, scalar list) result" where
  "push_witness_element chunk out =
     and_then (map_err WitnessElement (bytes_to_prime_field chunk)) (\<lambda>f. Inr (out @ [f]))"

definition generate_proof ::
  "('cs, 'v, 'pk, 'vk) groth_host \<Rightarrow> ('pk, 'vk) loaded_prover \<Rightarrow> nat list \<Rightarrow> (proving_error, groth_proof) result" where
  "generate_proof g p witness_bytes =
     and_then (ensure (length witness_bytes mod FIELD_SIZE = 0) (InvalidWitnessSize (length witness_bytes))) (\<lambda>_.
     let num_witness_elements = length witness_bytes div FIELD_SIZE in
     and_then (ensure (\<not> num_witness_elements < num_wires (lp_r1cs p))
        (WitnessElements num_witness_elements (num_wires (lp_r1cs p)))) (\<lambda>_.
     and_then (fold_result push_witness_element (chunks_exact FIELD_SIZE witness_bytes) []) (\<lambda>w.
       ok_or (gh_prove g (lp_pk p) (generate_constraints (gh_constraints g) (lp_r1cs p) w))
         ProofGenerationFailed)))"

record compressed_proof =
  cp_a :: "nat list"
  cp_b :: "nat list"
  cp_c :: "nat list"

definition compressed_to_bytes :: "compressed_proof \<Rightarrow> nat list" where
  "compressed_to_bytes p = cp_a p @ cp_b p @ cp_c p"

definition prove ::
  "('cs, 'v, 'pk, 'vk) groth_host \<Rightarrow> ('pk, 'vk) loaded_prover \<Rightarrow> nat list
     \<Rightarrow> (proving_error, compressed_proof) result" where
  "prove g p witness_bytes =
     and_then (generate_proof g p witness_bytes) (\<lambda>proof.
     and_then (ok_or (gh_g1_compressed g (gp_a proof)) PointNotSerialized) (\<lambda>a.
     and_then (ok_or (gh_g2_compressed g (gp_b proof)) PointNotSerialized) (\<lambda>b.
     and_then (ok_or (gh_g1_compressed g (gp_c proof)) PointNotSerialized) (\<lambda>c.
       Inr \<lparr>cp_a = a, cp_b = b, cp_c = c\<rparr>))))"

definition prover_prove_bytes ::
  "('cs, 'v, 'pk, 'vk) groth_host \<Rightarrow> ('pk, 'vk) loaded_prover \<Rightarrow> nat list \<Rightarrow> (proving_error, nat list) result" where
  "prover_prove_bytes g p witness_bytes =
     and_then (prove g p witness_bytes) (\<lambda>proof. Inr (compressed_to_bytes proof))"

text \<open>
  Points in the contracts' byte order: big-endian coordinates, the imaginary part of a coordinate
  of the second group first. A point at infinity has the coordinates that arkworks keeps for it.
\<close>

definition bigint_to_be_32 :: "nat \<Rightarrow> nat list" where
  "bigint_to_be_32 v =
     (let bytes = be_digits 32 v; start = 32 - length bytes in
      replicate start 0 @ take (min (length bytes) 32) bytes)"

definition g1_bytes_uncompressed :: "g1_coords \<Rightarrow> nat list" where
  "g1_bytes_uncompressed p = bigint_to_be_32 (g1_x p) @ bigint_to_be_32 (g1_y p)"

definition g2_bytes_uncompressed :: "g2_coords \<Rightarrow> nat list" where
  "g2_bytes_uncompressed p =
     bigint_to_be_32 (g2_x1 p) @ bigint_to_be_32 (g2_x0 p) @ bigint_to_be_32 (g2_y1 p) @ bigint_to_be_32 (g2_y0 p)"

definition proof_to_uncompressed_bytes :: "groth_proof \<Rightarrow> nat list" where
  "proof_to_uncompressed_bytes p =
     g1_bytes_uncompressed (gp_a p) @ g2_bytes_uncompressed (gp_b p) @ g1_bytes_uncompressed (gp_c p)"

definition prove_bytes_uncompressed ::
  "('cs, 'v, 'pk, 'vk) groth_host \<Rightarrow> ('pk, 'vk) loaded_prover \<Rightarrow> nat list \<Rightarrow> (proving_error, nat list) result" where
  "prove_bytes_uncompressed g p witness_bytes =
     and_then (generate_proof g p witness_bytes) (\<lambda>proof. Inr (proof_to_uncompressed_bytes proof))"

definition convert_proof_to_soroban ::
  "('cs, 'v, 'pk, 'vk) groth_host \<Rightarrow> nat list \<Rightarrow> (proving_error, nat list) result" where
  "convert_proof_to_soroban g proof_bytes =
     and_then (ok_or (gh_proof_decompressed g proof_bytes) PointNotSerialized) (\<lambda>proof.
       Inr (proof_to_uncompressed_bytes proof))"

end
