(* ===== verification/R1CSFacts.thy ===== *)
theory R1CSFacts
  imports R1CS DisclosureFacts ContractTypes
begin

text \<open>
  What the reader of constraint files returns on a well-formed file, in whatever order its sections
  come, and what the replayed constraint system says of a witness.
\<close>

section \<open>Parsers that consume a prefix\<close>

definition cu_at :: "cursor \<Rightarrow> nat list \<Rightarrow> bool" where
  "cu_at cu bs \<longleftrightarrow> drop (cu_position cu) (cu_data cu) = bs
     \<and> cu_position cu \<le> length (cu_data cu) \<and> length (cu_data cu) < 2 ^ 32"

definition advance :: "nat \<Rightarrow> cursor \<Rightarrow> cursor" where
  "advance n cu = cu\<lparr>cu_position := cu_position cu + n\<rparr>"

lemma advance_simps [simp]:
  "advance 0 cu = cu"
  "advance m (advance n cu) = advance (n + m) cu"
  "cu_data (advance n cu) = cu_data cu"
  "cu_position (advance n cu) = cu_position cu + n"
  "(advance n cu)\<lparr>cu_position := p\<rparr> = cu\<lparr>cu_position := p\<rparr>"
  by (simp_all add: advance_def)

lemma cu_at_length: "cu_at cu bs \<Longrightarrow> cu_position cu + length bs = length (cu_data cu)"
  by (auto simp: cu_at_def)

lemma cu_at_advance: "cu_at cu (bs @ rest) \<Longrightarrow> cu_at (advance (length bs) cu) rest"
proof -
  assume at: "cu_at cu (bs @ rest)"
  have "drop (length bs) (drop (cu_position cu) (cu_data cu)) = rest"
    using at by (simp add: cu_at_def)
  then show ?thesis
    using at cu_at_length [OF at] by (simp add: cu_at_def add.commute)
qed

definition parses :: "(cursor \<Rightarrow> (r1cs_error, 'a \<times> cursor) result) \<Rightarrow> nat list \<Rightarrow> 'a \<Rightarrow> bool" where
  "parses p bs v \<longleftrightarrow> (\<forall>cu rest. cu_at cu (bs @ rest) \<longrightarrow> p cu = Inr (v, advance (length bs) cu))"

lemma parsesD: "parses p bs v \<Longrightarrow> cu_at cu (bs @ rest) \<Longrightarrow> p cu = Inr (v, advance (length bs) cu)"
  by (auto simp: parses_def)

lemma parses_return: "parses (\<lambda>cu. Inr (v, cu)) [] v"
  by (simp add: parses_def)

lemma parses_bind:
  assumes "parses p bs v" and "parses (q v) cs w"
  shows "parses (\<lambda>cu. and_then (p cu) (\<lambda>(x, cu'). q x cu')) (bs @ cs) w"
  unfolding parses_def
proof (intro allI impI)
  fix cu rest
  assume at: "cu_at cu ((bs @ cs) @ rest)"
  then have "p cu = Inr (v, advance (length bs) cu)" using parsesD [OF assms(1)] by simp
  moreover have "cu_at (advance (length bs) cu) (cs @ rest)" using at cu_at_advance by simp
  then have "q v (advance (length bs) cu) = Inr (w, advance (length (bs @ cs)) cu)"
    using parsesD [OF assms(2)] by simp
  ultimately show "and_then (p cu) (\<lambda>(x, cu'). q x cu') = Inr (w, advance (length (bs @ cs)) cu)" by simp
qed

lemma parses_guard: "b = Inr u \<Longrightarrow> parses p bs v \<Longrightarrow> parses (\<lambda>cu. and_then b (\<lambda>_. p cu)) bs v"
  by (simp add: parses_def)

lemma position_fits: "cu_at cu (bs @ rest) \<Longrightarrow> checked_add USIZE_BITS (cu_position cu) (length bs)
    = Some (cu_position cu + length bs) \<and> \<not> length (cu_data cu) < cu_position cu + length bs"
  using cu_at_length [of cu "bs @ rest"] by (auto simp: cu_at_def width_simps USIZE_BITS_def)

lemma parses_skip:
  assumes "parses p cs w"
  shows "parses (\<lambda>cu. and_then (skip_bytes (length bs) cu) p) (bs @ cs) w"
  unfolding parses_def
proof (intro allI impI)
  fix cu rest
  assume at: "cu_at cu ((bs @ cs) @ rest)"
  then have "skip_bytes (length bs) cu = Inr (advance (length bs) cu)"
    using position_fits [of cu bs "cs @ rest"] by (simp add: skip_bytes_def advance_def)
  moreover have "cu_at (advance (length bs) cu) (cs @ rest)" using at cu_at_advance by simp
  ultimately show "and_then (skip_bytes (length bs) cu) p = Inr (w, advance (length (bs @ cs)) cu)"
    using parsesD [OF assms] by simp
qed

lemma parses_bytes: "parses (read_bytes (length bs)) bs bs"
  unfolding parses_def
proof (intro allI impI)
  fix cu rest
  assume at: "cu_at cu (bs @ rest)"
  then show "read_bytes (length bs) cu = Inr (bs, advance (length bs) cu)"
    using position_fits [of cu bs rest] by (simp add: read_bytes_def advance_def cu_at_def)
qed

lemma parses_u32: "n < 2 ^ 32 \<Longrightarrow> parses read_u32_le (le_digits 4 n) n"
  using parses_bind [OF parses_bytes [of "le_digits 4 n"], of "\<lambda>bs cu. Inr (le_value bs, cu)" "[]" n]
  by (simp add: parses_def read_u32_le_def le_value_le_digits)

lemma parses_u64: "n < 2 ^ 64 \<Longrightarrow> parses read_u64_le (le_digits 8 n) n"
  using parses_bind [OF parses_bytes [of "le_digits 8 n"], of "\<lambda>bs cu. Inr (le_value bs, cu)" "[]" n]
  by (simp add: parses_def read_u64_le_def le_value_le_digits)

section \<open>Files\<close>

text \<open>The format as a printer. The size of the field, the prime and the label count are kept as given.\<close>

definition encode_term :: "r1cs_term \<Rightarrow> nat list" where
  "encode_term t = le_digits 4 (wire_id t) @ le_digits 32 (coefficient t)"

definition encode_lc :: "linear_combination \<Rightarrow> nat list" where
  "encode_lc lc = le_digits 4 (length lc) @ concat (map encode_term lc)"

definition encode_constraint :: "r1cs_constraint \<Rightarrow> nat list" where
  "encode_constraint c = encode_lc (lc_a c) @ encode_lc (lc_b c) @ encode_lc (lc_c c)"

definition encode_header :: "r1cs_header \<Rightarrow> nat list \<Rightarrow> nat \<Rightarrow> nat list" where
  "encode_header h prime_bytes labels =
     le_digits 4 (h_field_size h) @ prime_bytes @ le_digits 4 (h_num_wires h)
       @ le_digits 4 (h_num_pub_out h) @ le_digits 4 (h_num_pub_in h) @ le_digits 4 (h_num_prv_in h)
       @ le_digits 8 labels @ le_digits 4 (h_num_constraints h)"

datatype section_data =
    HeaderSection r1cs_header "nat list" nat
  | ConstraintSection "r1cs_constraint list"
  | OtherSection nat "nat list"

fun section_type :: "section_data \<Rightarrow> nat" where
  "section_type (HeaderSection _ _ _) = 1"
| "section_type (ConstraintSection _) = 2"
| "section_type (OtherSection n _) = n"

fun section_payload :: "section_data \<Rightarrow> nat list" where
  "section_payload (HeaderSection h prime_bytes labels) = encode_header h prime_bytes labels"
| "section_payload (ConstraintSection cs) = concat (map encode_constraint cs)"
| "section_payload (OtherSection _ bs) = bs"

definition encode_section :: "section_data \<Rightarrow> nat list" where
  "encode_section s = le_digits 4 (section_type s) @ le_digits 8 (length (section_payload s)) @ section_payload s"

definition encode_r1cs :: "section_data list \<Rightarrow> nat list" where
  "encode_r1cs ss = r1cs_magic @ le_digits 4 1 @ le_digits 4 (length ss) @ concat (map encode_section ss)"

definition lc_ok :: "linear_combination \<Rightarrow> bool" where
  "lc_ok lc \<longleftrightarrow> length lc * 40 < 2 ^ 31 \<and> (\<forall>t \<in> set lc. wire_id t < 2 ^ 32 \<and> coefficient t < prime)"

definition constraint_ok :: "r1cs_constraint \<Rightarrow> bool" where
  "constraint_ok c \<longleftrightarrow> lc_ok (lc_a c) \<and> lc_ok (lc_b c) \<and> lc_ok (lc_c c)"

definition header_ok :: "r1cs_header \<Rightarrow> bool" where
  "header_ok h \<longleftrightarrow> h_field_size h = 32 \<and> h_num_wires h < 2 ^ 32 \<and> h_num_pub_out h < 2 ^ 32
     \<and> h_num_pub_in h < 2 ^ 32 \<and> h_num_prv_in h < 2 ^ 32 \<and> h_num_constraints h < 2 ^ 32"

fun section_ok :: "section_data \<Rightarrow> bool" where
  "section_ok (HeaderSection h prime_bytes labels) \<longleftrightarrow> header_ok h \<and> length prime_bytes = 32 \<and> labels < 2 ^ 64"
| "section_ok (ConstraintSection cs) \<longleftrightarrow> list_all constraint_ok cs"
| "section_ok (OtherSection n bs) \<longleftrightarrow> n \<noteq> 1 \<and> n \<noteq> 2 \<and> n < 2 ^ 32"

fun is_constraint_section :: "section_data \<Rightarrow> bool" where
  "is_constraint_section (ConstraintSection _) \<longleftrightarrow> True"
| "is_constraint_section _ \<longleftrightarrow> False"

text \<open>A later header replaces an earlier one.\<close>

fun declared_header :: "r1cs_header option \<Rightarrow> section_data list \<Rightarrow> r1cs_header option" where
  "declared_header h [] = h"
| "declared_header h (HeaderSection h' _ _ # ss) = declared_header (Some h') ss"
| "declared_header h (_ # ss) = declared_header h ss"

section \<open>Reading the parts\<close>

lemma parses_header:
  assumes "header_ok h" and "length prime_bytes = 32" and "labels < 2 ^ 64"
  shows "parses parse_header (encode_header h prime_bytes labels) h"
proof -
  have size: "h_field_size h = 32" and u32: "h_num_wires h < 2 ^ 32" "h_num_pub_out h < 2 ^ 32"
    "h_num_pub_in h < 2 ^ 32" "h_num_prv_in h < 2 ^ 32" "h_num_constraints h < 2 ^ 32"
    using assms(1) by (simp_all add: header_ok_def)
  let ?rest = "\<lambda>cu. and_then (read_u32_le cu) (\<lambda>(wires, cu3).
     and_then (read_u32_le cu3) (\<lambda>(pub_out, cu4).
     and_then (read_u32_le cu4) (\<lambda>(pub_in, cu5).
     and_then (read_u32_le cu5) (\<lambda>(prv_in, cu6).
     and_then (read_u64_le cu6) (\<lambda>(_, cu7).
     and_then (read_u32_le cu7) (\<lambda>(n_constraints, cu8).
       Inr (\<lparr>h_field_size = 32, h_num_wires = wires, h_num_pub_out = pub_out,
             h_num_pub_in = pub_in, h_num_prv_in = prv_in, h_num_constraints = n_constraints\<rparr>, cu8)))))))"
  have "parses ?rest (le_digits 4 (h_num_wires h) @ le_digits 4 (h_num_pub_out h) @ le_digits 4 (h_num_pub_in h)
      @ le_digits 4 (h_num_prv_in h) @ le_digits 8 labels @ le_digits 4 (h_num_constraints h) @ [])
    \<lparr>h_field_size = 32, h_num_wires = h_num_wires h, h_num_pub_out = h_num_pub_out h,
      h_num_pub_in = h_num_pub_in h, h_num_prv_in = h_num_prv_in h, h_num_constraints = h_num_constraints h\<rparr>"
    by (rule parses_bind parses_u32 parses_u64 parses_return u32 assms(3))+
  moreover have "\<lparr>h_field_size = 32, h_num_wires = h_num_wires h, h_num_pub_out = h_num_pub_out h,
      h_num_pub_in = h_num_pub_in h, h_num_prv_in = h_num_prv_in h, h_num_constraints = h_num_constraints h\<rparr> = h"
    using size by simp
  ultimately have "parses ?rest (le_digits 4 (h_num_wires h) @ le_digits 4 (h_num_pub_out h) @ le_digits 4 (h_num_pub_in h)
      @ le_digits 4 (h_num_prv_in h) @ le_digits 8 labels @ le_digits 4 (h_num_constraints h)) h"
    by simp
  from parses_skip [OF this, of prime_bytes]
  have "parses (\<lambda>cu. and_then (ensure (32 = (32::nat)) (BadFieldSize 32)) (\<lambda>_. and_then (skip_bytes 32 cu) ?rest))
    (prime_bytes @ le_digits 4 (h_num_wires h) @ le_digits 4 (h_num_pub_out h) @ le_digits 4 (h_num_pub_in h)
      @ le_digits 4 (h_num_prv_in h) @ le_digits 8 labels @ le_digits 4 (h_num_constraints h)) h"
    by (intro parses_guard [where u = "()"]) (simp_all add: assms(2))
  from parses_bind [OF parses_u32 [of "32::nat"], of "\<lambda>field_size cu1.
      and_then (ensure (field_size = 32) (BadFieldSize field_size)) (\<lambda>_.
      and_then (skip_bytes field_size cu1) (\<lambda>cu.
      and_then (read_u32_le cu) (\<lambda>(wires, cu3).
      and_then (read_u32_le cu3) (\<lambda>(pub_out, cu4).
      and_then (read_u32_le cu4) (\<lambda>(pub_in, cu5).
      and_then (read_u32_le cu5) (\<lambda>(prv_in, cu6).
      and_then (read_u64_le cu6) (\<lambda>(_, cu7).
      and_then (read_u32_le cu7) (\<lambda>(n_constraints, cu8).
       Inr (\<lparr>h_field_size = field_size, h_num_wires = wires, h_num_pub_out = pub_out,
             h_num_pub_in = pub_in, h_num_prv_in = prv_in, h_num_constraints = n_constraints\<rparr>, cu8)))))))))", OF _ this]
  show ?thesis by (simp add: parses_def parse_header_def encode_header_def size)
qed

lemma parses_terms:
  assumes "\<forall>t \<in> set ts. wire_id t < 2 ^ 32 \<and> coefficient t < prime"
  shows "parses (read_terms 32 (length ts) acc) (concat (map encode_term ts)) (acc @ ts)"
  using assms
proof (induction ts arbitrary: acc)
  case Nil
  then show ?case by (simp add: parses_def)
next
  case (Cons t ts)
  have coeff: "le_value (le_digits 32 (coefficient t)) mod prime = coefficient t"
    using Cons.prems scalar_bytes_value by simp
  have "parses (read_terms 32 (length ts) (acc @ [\<lparr>wire_id = wire_id t,
      coefficient = le_value (le_digits 32 (coefficient t)) mod prime\<rparr>])) (concat (map encode_term ts)) (acc @ t # ts)"
  proof -
    have same: "\<lparr>wire_id = wire_id t, coefficient = coefficient t\<rparr> = t" by simp
    show ?thesis unfolding coeff same using Cons.IH [of "acc @ [t]"] Cons.prems by simp
  qed
  from parses_bind [OF parses_bytes [of "le_digits 32 (coefficient t)"], of
    "\<lambda>coeff_bytes. read_terms 32 (length ts) (acc @ [\<lparr>wire_id = wire_id t,
      coefficient = le_value coeff_bytes mod prime\<rparr>])", OF this]
  have "parses (\<lambda>cu. and_then (read_bytes 32 cu) (\<lambda>(coeff_bytes, cu2). read_terms 32 (length ts)
      (acc @ [\<lparr>wire_id = wire_id t, coefficient = le_value coeff_bytes mod prime\<rparr>]) cu2))
      (le_digits 32 (coefficient t) @ concat (map encode_term ts)) (acc @ t # ts)"
    by simp
  note parses_bind [OF parses_u32 [of "wire_id t"], of "\<lambda>wire cu1.
      and_then (read_bytes 32 cu1) (\<lambda>(coeff_bytes, cu2). read_terms 32 (length ts)
      (acc @ [\<lparr>wire_id = wire, coefficient = le_value coeff_bytes mod prime\<rparr>]) cu2)", OF _ this]
  moreover have enc: "concat (map encode_term (t # ts))
      = le_digits 4 (wire_id t) @ le_digits 32 (coefficient t) @ concat (map encode_term ts)"
    by (simp add: encode_term_def)
  ultimately show ?case unfolding enc using Cons.prems by (simp add: parses_def)
qed

lemma parses_lc:
  assumes "lc_ok lc"
  shows "parses (\<lambda>cu. parse_linear_combination cu 32) (encode_lc lc) lc"
proof -
  have "parses (\<lambda>cu. and_then (with_capacity TERM_BYTES (length lc)) (\<lambda>_. read_terms 32 (length lc) [] cu))
      (concat (map encode_term lc)) lc"
    using parses_terms [of lc "[]"] assms
    by (intro parses_guard [where u = "()"]) (simp_all add: lc_ok_def with_capacity_def TERM_BYTES_def USIZE_BITS_def)
  from parses_bind [OF parses_u32 [of "length lc"], of "\<lambda>n cu1.
    and_then (with_capacity TERM_BYTES n) (\<lambda>_. read_terms 32 n [] cu1)", OF _ this]
  show ?thesis using assms by (simp add: parses_def parse_linear_combination_def encode_lc_def lc_ok_def)
qed

lemma parses_read_constraints:
  assumes "list_all constraint_ok cs"
  shows "parses (read_constraints 32 (length cs) acc) (concat (map encode_constraint cs)) (acc @ cs)"
  using assms
proof (induction cs arbitrary: acc)
  case Nil
  then show ?case by (simp add: parses_def)
next
  case (Cons c cs)
  have ok: "lc_ok (lc_a c)" "lc_ok (lc_b c)" "lc_ok (lc_c c)"
    using Cons.prems by (simp_all add: constraint_ok_def)
  have "parses (read_constraints 32 (length cs) (acc @ [\<lparr>lc_a = lc_a c, lc_b = lc_b c, lc_c = lc_c c\<rparr>]))
      (concat (map encode_constraint cs)) (acc @ c # cs)"
  proof -
    have same: "\<lparr>lc_a = lc_a c, lc_b = lc_b c, lc_c = lc_c c\<rparr> = c" by simp
    show ?thesis unfolding same using Cons.IH [of "acc @ [c]"] Cons.prems by simp
  qed
  note inner = this
  have "parses (\<lambda>cu. and_then (parse_linear_combination cu 32) (\<lambda>(a, cu1).
      and_then (parse_linear_combination cu1 32) (\<lambda>(b, cu2).
      and_then (parse_linear_combination cu2 32) (\<lambda>(d, cu3).
        read_constraints 32 (length cs) (acc @ [\<lparr>lc_a = a, lc_b = b, lc_c = d\<rparr>]) cu3))))
     (encode_lc (lc_a c) @ encode_lc (lc_b c) @ encode_lc (lc_c c) @ concat (map encode_constraint cs)) (acc @ c # cs)"
    by (rule parses_bind parses_lc ok inner)+
  moreover have enc: "concat (map encode_constraint (c # cs))
      = encode_lc (lc_a c) @ encode_lc (lc_b c) @ encode_lc (lc_c c) @ concat (map encode_constraint cs)"
    by (simp add: encode_constraint_def)
  ultimately show ?case unfolding enc by (simp add: parses_def)
qed

lemma parses_constraints:
  assumes "list_all constraint_ok cs" and "length cs * 36 < 2 ^ 31"
    and "h_num_constraints h = length cs" and "h_field_size h = 32"
  shows "parses (\<lambda>cu. parse_constraints cu h) (concat (map encode_constraint cs)) cs"
  unfolding parse_constraints_def
  using parses_read_constraints [OF assms(1), of "[]"] assms
  by (intro parses_guard [where u = "()"]) (simp_all add: with_capacity_def CONSTRAINT_BYTES_def USIZE_BITS_def)

section \<open>Sections\<close>

definition after_section :: "section_data \<Rightarrow> section_scan \<Rightarrow> section_scan" where
  "after_section s sc =
     \<lparr>sc_cursor = advance (length (encode_section s)) (sc_cursor sc),
      sc_header = declared_header (sc_header sc) [s],
      sc_constraints = (if is_constraint_section s
        then Some (cu_position (sc_cursor sc) + 12, length (section_payload s)) else sc_constraints sc)\<rparr>"

lemma length_encode_section [simp]: "length (encode_section s) = 12 + length (section_payload s)"
  by (simp add: encode_section_def)

lemma skip_at: "cu_at cu (bs @ rest) \<Longrightarrow> skip_bytes (length bs) cu = Inr (advance (length bs) cu)"
  using position_fits [of cu bs rest] by (simp add: skip_bytes_def advance_def)

lemma scan_body_run:
  assumes "section_ok s" and "cu_at cu (section_payload s @ rest)"
  shows "scan_body (section_type s) start (length (section_payload s)) (sc\<lparr>sc_cursor := cu\<rparr>)
    = Inr \<lparr>sc_cursor = advance (length (section_payload s)) cu, sc_header = declared_header (sc_header sc) [s],
        sc_constraints = (if is_constraint_section s then Some (start, length (section_payload s))
          else sc_constraints sc)\<rparr>"
proof (cases s)
  case (HeaderSection h prime_bytes labels)
  then have "parse_header cu = Inr (h, advance (length (section_payload s)) cu)"
    using parsesD [OF parses_header, of h prime_bytes labels cu rest] assms by simp
  then show ?thesis using HeaderSection by (simp add: scan_body_def)
next
  case (ConstraintSection cs)
  then show ?thesis using skip_at [OF assms(2)] by (simp add: scan_body_def)
next
  case (OtherSection n bs)
  then show ?thesis using skip_at [OF assms(2)] assms(1) by (simp add: scan_body_def)
qed

lemma section_type_less: "section_ok s \<Longrightarrow> section_type s < 2 ^ 32"
  by (cases s) simp_all

lemma scan_section_run:
  assumes "section_ok s" and "cu_at (sc_cursor sc) (encode_section s @ rest)"
  shows "scan_section sc = Inr (after_section s sc)"
proof -
  let ?n = "length (section_payload s)" and ?cu = "sc_cursor sc"
  have at: "cu_at ?cu (le_digits 4 (section_type s) @ le_digits 8 ?n @ section_payload s @ rest)"
    using assms(2) by (simp add: encode_section_def)
  have fits: "?n < 2 ^ 32" using cu_at_length [OF at] at by (simp add: cu_at_def)
  have 1: "read_u32_le ?cu = Inr (section_type s, advance 4 ?cu)"
    using parsesD [OF parses_u32 [OF section_type_less [OF assms(1)]] at] by simp
  from cu_at_advance [OF at] have at1: "cu_at (advance 4 ?cu) (le_digits 8 ?n @ section_payload s @ rest)" by simp
  have 2: "read_u64_le (advance 4 ?cu) = Inr (?n, advance 12 ?cu)"
    using parsesD [OF parses_u64 at1] fits by simp
  from cu_at_advance [OF at1] have at2: "cu_at (advance 12 ?cu) (section_payload s @ rest)" by simp
  show ?thesis
    using 1 2 scan_body_run [OF assms(1) at2, of "cu_position ?cu + 12" sc] fits
    by (simp add: scan_section_def after_section_def Let_def checked_sub_def fits_def USIZE_BITS_def)
qed

lemma scan_sections_run:
  assumes "list_all section_ok ss" and "cu_at (sc_cursor sc) (concat (map encode_section ss) @ rest)"
  shows "scan_sections (length ss) sc = Inr (fold after_section ss sc)"
  using assms
proof (induction ss arbitrary: sc)
  case (Cons s ss)
  have at: "cu_at (sc_cursor sc) (encode_section s @ concat (map encode_section ss) @ rest)"
    using Cons.prems(2) by simp
  from cu_at_advance [OF at] have "cu_at (sc_cursor (after_section s sc)) (concat (map encode_section ss) @ rest)"
    by (simp add: after_section_def)
  with scan_section_run [OF _ at] Cons show ?case by simp
qed simp

lemma fold_after_section:
  "sc_cursor (fold after_section ss sc) = advance (length (concat (map encode_section ss))) (sc_cursor sc)"
  "sc_header (fold after_section ss sc) = declared_header (sc_header sc) ss"
  "\<forall>s \<in> set ss. \<not> is_constraint_section s \<Longrightarrow> sc_constraints (fold after_section ss sc) = sc_constraints sc"
proof (induction ss arbitrary: sc)
  case (Cons s ss)
  { case 1 show ?case by (simp add: Cons.IH(1)) (simp add: after_section_def) }
  { case 2 show ?case using Cons.IH(2) by (cases s) (simp_all add: after_section_def) }
  { case 3 then show ?case using Cons.IH(3) by (simp add: after_section_def) }
qed simp_all

section \<open>Whole files\<close>

text \<open>
  C25: A constraint file is read back whatever the order of its sections. For a file written in the
  published format, with unknown sections in any place and the constraints before or after the
  header, the reader returns the header's counts, the number of public signals and the constraints
  term by term. The constraints taken are those of the last constraint section, the header the last
  one. The bounds are those of the 32-bit target: no vector may exceed half of the address space.
\<close>

theorem r1cs_reads_back:
  assumes "list_all section_ok (before @ ConstraintSection cs # after)"
    and "\<forall>s \<in> set after. \<not> is_constraint_section s"
    and "declared_header None (before @ ConstraintSection cs # after) = Some h"
    and "h_field_size h = 32" and "h_num_constraints h = length cs" and "length cs * 36 < 2 ^ 31"
    and "h_num_pub_out h + h_num_pub_in h < 2 ^ 32"
    and "length (encode_r1cs (before @ ConstraintSection cs # after)) < 2 ^ 32"
  shows "r1cs_parse (encode_r1cs (before @ ConstraintSection cs # after))
    = Inr \<lparr>num_wires = h_num_wires h, num_pub_out = h_num_pub_out h, num_pub_in = h_num_pub_in h,
        num_prv_in = h_num_prv_in h, num_public = h_num_pub_out h + h_num_pub_in h, r1cs_constraints = cs\<rparr>"
proof -
  let ?ss = "before @ ConstraintSection cs # after"
  let ?cu = "cursor_new (encode_r1cs ?ss)"
  let ?enc = "concat (map encode_section ?ss)"
  have magic: "length r1cs_magic = 4" by (simp add: r1cs_magic_def string_bytes_def)
  have at0: "cu_at ?cu (r1cs_magic @ le_digits 4 1 @ le_digits 4 (length ?ss) @ ?enc)"
    using assms(8) by (simp add: cu_at_def cursor_new_def encode_r1cs_def del: map_append concat_append)
  have many: "length ss \<le> length (concat (map encode_section ss))" for ss
    by (induction ss) simp_all
  have few: "length ?ss < 2 ^ 32"
    using many [of ?ss] assms(8) unfolding encode_r1cs_def by simp
  from cu_at_advance [OF at0] have at1: "cu_at (advance 4 ?cu) (le_digits 4 1 @ le_digits 4 (length ?ss) @ ?enc)"
    by (simp only: magic)
  from cu_at_advance [OF at1] have at2: "cu_at (advance 8 ?cu) (le_digits 4 (length ?ss) @ ?enc)" by simp
  from cu_at_advance [OF at2] have at3: "cu_at (advance 12 ?cu) (?enc @ [])" by simp
  have reads: "read_bytes 4 ?cu = Inr (r1cs_magic, advance 4 ?cu)"
    "read_u32_le (advance 4 ?cu) = Inr (1, advance 8 ?cu)"
    "read_u32_le (advance 8 ?cu) = Inr (length ?ss, advance 12 ?cu)"
    using parsesD [OF parses_bytes at0] parsesD [OF parses_u32 at1] parsesD [OF parses_u32 [OF few] at2]
    by (simp_all add: magic)
  let ?initial = "\<lparr>sc_cursor = advance 12 ?cu, sc_header = None, sc_constraints = None\<rparr>"
  let ?sc = "fold after_section ?ss ?initial"
  have scan: "scan_sections (length ?ss) ?initial = Inr ?sc"
    using scan_sections_run [OF assms(1), of ?initial "[]"] at3 by simp
  have header: "sc_header ?sc = Some h" using assms(3) by (simp only: fold_after_section(2)) simp
  let ?start = "12 + length (concat (map encode_section before)) + 12"
  have found: "sc_constraints ?sc = Some (?start, length (concat (map encode_constraint cs)))"
    using fold_after_section(3) [OF assms(2)]
    by (simp add: fold_after_section(1)) (simp add: after_section_def fold_after_section(1) cursor_new_def)
  have "cu_at (advance 12 ?cu) (concat (map encode_section before) @ encode_section (ConstraintSection cs)
      @ concat (map encode_section after))"
    using at3 by simp
  from cu_at_advance [OF this] have "cu_at (advance (12 + length (concat (map encode_section before))) ?cu)
      ((le_digits 4 2 @ le_digits 8 (length (concat (map encode_constraint cs))))
        @ concat (map encode_constraint cs) @ concat (map encode_section after))"
    by (simp add: encode_section_def)
  from cu_at_advance [OF this] have at: "cu_at (advance ?start ?cu)
      (concat (map encode_constraint cs) @ concat (map encode_section after))"
    by (simp add: add.assoc)
  have "(sc_cursor ?sc)\<lparr>cu_position := ?start\<rparr> = advance ?start ?cu"
    by (simp only: fold_after_section(1)) (simp add: advance_def cursor_new_def)
  moreover have "parse_constraints (advance ?start ?cu) h
      = Inr (cs, advance (length (concat (map encode_constraint cs))) (advance ?start ?cu))"
    by (rule parsesD [OF parses_constraints at]) (use assms in simp_all)
  ultimately have "parse_constraints ((sc_cursor ?sc)\<lparr>cu_position := ?start\<rparr>) h
      = Inr (cs, advance (length (concat (map encode_constraint cs))) (advance ?start ?cu))"
    by simp
  with reads scan header found assms(7) show ?thesis
    by (simp add: r1cs_parse_def checked_add_def fits_def)
qed

text \<open>A file with an unknown section, then the constraints, then the header.\<close>

definition sample_constraint :: r1cs_constraint where
  "sample_constraint = \<lparr>lc_a = [\<lparr>wire_id = 1, coefficient = 1\<rparr>], lc_b = [\<lparr>wire_id = 2, coefficient = 3\<rparr>],
     lc_c = [\<lparr>wire_id = 3, coefficient = 1\<rparr>, \<lparr>wire_id = 0, coefficient = 2\<rparr>]\<rparr>"

definition sample_header :: r1cs_header where
  "sample_header = \<lparr>h_field_size = 32, h_num_wires = 4, h_num_pub_out = 1, h_num_pub_in = 1,
     h_num_prv_in = 1, h_num_constraints = 1\<rparr>"

theorem r1cs_reads_back_witness:
  "r1cs_parse (encode_r1cs ([OtherSection 7 [1, 2, 3]] @ ConstraintSection [sample_constraint]
      # [HeaderSection sample_header (replicate 32 0) 4]))
    = Inr \<lparr>num_wires = 4, num_pub_out = 1, num_pub_in = 1, num_prv_in = 1, num_public = 2,
        r1cs_constraints = [sample_constraint]\<rparr>"
proof -
  have "3 < prime" by (simp add: prime_def)
  then have "constraint_ok sample_constraint"
    by (simp add: constraint_ok_def lc_ok_def sample_constraint_def)
  then have "list_all section_ok ([OtherSection 7 [1, 2, 3]] @ ConstraintSection [sample_constraint]
      # [HeaderSection sample_header (replicate 32 0) 4])"
    by (simp add: header_ok_def sample_header_def)
  from r1cs_reads_back [OF this, of sample_header] show ?thesis
    by (simp add: sample_header_def encode_r1cs_def encode_header_def encode_constraint_def encode_lc_def
        encode_term_def sample_constraint_def r1cs_magic_def string_bytes_def)
qed

section \<open>Replayed constraints\<close>

text \<open>
  What the replay relies on of a constraint system: \<open>known\<close> variables have a value, allocation
  gives a new one with the value asked for, an input also joins the instance, and enforcing a
  constraint on known variables adds exactly that product to what must be satisfied.
\<close>

record ('cs, 'v) system_view =
  known :: "'cs \<Rightarrow> 'v \<Rightarrow> bool"
  assigned :: "'cs \<Rightarrow> 'v \<Rightarrow> scalar"
  instance_of :: "'cs \<Rightarrow> scalar list"
  satisfied :: "'cs \<Rightarrow> bool"

definition lincomb_value :: "('v \<Rightarrow> scalar) \<Rightarrow> 'v lincomb \<Rightarrow> scalar" where
  "lincomb_value val lc = sum_list (map (\<lambda>(k, x). k * val x) lc) mod prime"

definition extends :: "('cs, 'v) system_view \<Rightarrow> 'cs \<Rightarrow> 'cs \<Rightarrow> bool" where
  "extends sv cs cs' \<longleftrightarrow> (\<forall>x. known sv cs x \<longrightarrow> known sv cs' x \<and> assigned sv cs' x = assigned sv cs x)"

definition faithful_host :: "('cs, 'v) constraint_host \<Rightarrow> ('cs, 'v) system_view \<Rightarrow> bool" where
  "faithful_host host sv \<longleftrightarrow>
     (\<forall>cs. known sv cs (one_variable host) \<and> assigned sv cs (one_variable host) = 1)
   \<and> (\<forall>v cs. \<exists>x cs'. new_input_variable host v cs = Some (x, cs') \<and> extends sv cs cs'
        \<and> known sv cs' x \<and> assigned sv cs' x = v
        \<and> instance_of sv cs' = instance_of sv cs @ [v] \<and> satisfied sv cs' = satisfied sv cs)
   \<and> (\<forall>v cs. \<exists>x cs'. new_witness_variable host v cs = Some (x, cs') \<and> extends sv cs cs'
        \<and> known sv cs' x \<and> assigned sv cs' x = v
        \<and> instance_of sv cs' = instance_of sv cs \<and> satisfied sv cs' = satisfied sv cs)
   \<and> (\<forall>a b c cs. (\<forall>(k, x) \<in> set (a @ b @ c). known sv cs x) \<longrightarrow>
        (\<exists>cs'. enforce_r1cs_constraint host a b c cs = Some cs' \<and> extends sv cs cs'
          \<and> instance_of sv cs' = instance_of sv cs
          \<and> (satisfied sv cs' \<longleftrightarrow> satisfied sv cs
              \<and> lincomb_value (assigned sv cs) a * lincomb_value (assigned sv cs) b mod prime
                = lincomb_value (assigned sv cs) c)))"

text \<open>The specification: a witness satisfies the constraints of the file.\<close>

definition lc_value :: "scalar list \<Rightarrow> linear_combination \<Rightarrow> scalar" where
  "lc_value w lc = sum_list (map (\<lambda>t. coefficient t * w ! wire_id t) lc) mod prime"

definition constraint_holds :: "scalar list \<Rightarrow> r1cs_constraint \<Rightarrow> bool" where
  "constraint_holds w c \<longleftrightarrow> lc_value w (lc_a c) * lc_value w (lc_b c) mod prime = lc_value w (lc_c c)"

definition replayable :: "r1cs \<Rightarrow> scalar list \<Rightarrow> bool" where
  "replayable r w \<longleftrightarrow> w \<noteq> [] \<and> hd w = 1 \<and> num_public r + 1 \<le> num_wires r \<and> num_wires r \<le> length w
     \<and> (\<forall>c \<in> set (r1cs_constraints r). \<forall>t \<in> set (constraint_terms c). wire_id t < num_wires r)"

definition allocated :: "('cs, 'v) system_view \<Rightarrow> scalar list \<Rightarrow> nat \<Rightarrow> 'v list \<Rightarrow> 'cs \<Rightarrow> bool" where
  "allocated sv w k vs cs \<longleftrightarrow> length vs = k \<and> (\<forall>i < k. known sv cs (vs ! i) \<and> assigned sv cs (vs ! i) = w ! i)"

lemma allocated_snoc:
  assumes "allocated sv w k vs cs" and "extends sv cs cs'" and "known sv cs' x" and "assigned sv cs' x = w ! k"
  shows "allocated sv w (Suc k) (vs @ [x]) cs'"
  using assms by (auto simp: allocated_def extends_def nth_append less_Suc_eq)

lemma allocate_inputs_run:
  assumes "faithful_host host sv" and "1 \<le> k" and "k \<le> length w" and "hd w = 1"
  shows "\<exists>vs cs. fold_result (allocate_input host w) [1..<k] ([one_variable host], cs0) = Inr (vs, cs)
    \<and> allocated sv w k vs cs \<and> instance_of sv cs = instance_of sv cs0 @ take (k - 1) (drop 1 w)
    \<and> satisfied sv cs = satisfied sv cs0"
  using assms(2,3)
proof (induction k rule: dec_induct)
  case base
  have "w ! 0 = 1" using assms(4) base by (cases w) auto
  then show ?case using assms(1) by (simp add: allocated_def faithful_host_def)
next
  case (step k)
  then obtain vs cs where run: "fold_result (allocate_input host w) [1..<k] ([one_variable host], cs0) = Inr (vs, cs)"
    and inv: "allocated sv w k vs cs" "instance_of sv cs = instance_of sv cs0 @ take (k - 1) (drop 1 w)"
      "satisfied sv cs = satisfied sv cs0"
    by auto
  obtain x cs' where new: "new_input_variable host (w ! k) cs = Some (x, cs')" "extends sv cs cs'"
      "known sv cs' x" "assigned sv cs' x = w ! k"
      "instance_of sv cs' = instance_of sv cs @ [w ! k]" "satisfied sv cs' = satisfied sv cs"
    using assms(1) unfolding faithful_host_def by blast
  have "take k (drop 1 w) = take (k - 1) (drop 1 w) @ [w ! k]"
    using step.hyps step.prems take_Suc_conv_app_nth [of "k - 1" "drop 1 w"] by simp
  moreover have "fold_result (allocate_input host w) [1..<Suc k] ([one_variable host], cs0) = Inr (vs @ [x], cs')"
    using run new(1) step by (simp add: fold_result_append allocate_input_def)
  ultimately show ?case using allocated_snoc [OF inv(1) new(2-4)] inv(2,3) new(5,6) by auto
qed

lemma allocate_witnesses_run:
  assumes "faithful_host host sv" and "k \<le> m" and "m \<le> length w" and "allocated sv w k vs cs"
  shows "\<exists>vs' cs'. fold_result (allocate_witness host w) [k..<m] (vs, cs) = Inr (vs', cs')
    \<and> allocated sv w m vs' cs' \<and> instance_of sv cs' = instance_of sv cs \<and> satisfied sv cs' = satisfied sv cs"
  using assms(2,3)
proof (induction m rule: dec_induct)
  case base
  then show ?case using assms(4) by simp
next
  case (step m)
  then obtain vs1 cs1 where run: "fold_result (allocate_witness host w) [k..<m] (vs, cs) = Inr (vs1, cs1)"
    and inv: "allocated sv w m vs1 cs1" "instance_of sv cs1 = instance_of sv cs" "satisfied sv cs1 = satisfied sv cs"
    by auto
  obtain x cs' where new: "new_witness_variable host (w ! m) cs1 = Some (x, cs')" "extends sv cs1 cs'"
      "known sv cs' x" "assigned sv cs' x = w ! m"
      "instance_of sv cs' = instance_of sv cs1" "satisfied sv cs' = satisfied sv cs1"
    using assms(1) unfolding faithful_host_def by blast
  have "fold_result (allocate_witness host w) [k..<Suc m] (vs, cs) = Inr (vs1 @ [x], cs')"
    using run new(1) step by (simp add: fold_result_append allocate_witness_def)
  then show ?case using allocated_snoc [OF inv(1) new(2-4)] inv(2,3) new(5,6) by auto
qed

lemma replay_lc_run:
  "\<forall>t \<in> set ts. wire_id t < length vs \<Longrightarrow>
    replay_lc vs ts lc = Inr (lc @ map (\<lambda>t. (coefficient t, vs ! wire_id t)) ts)"
  by (induction ts arbitrary: lc) simp_all

lemma lincomb_replayed:
  assumes "allocated sv w k vs cs" and "\<forall>t \<in> set ts. wire_id t < k"
  shows "lincomb_value (assigned sv cs) (map (\<lambda>t. (coefficient t, vs ! wire_id t)) ts) = lc_value w ts"
proof -
  have "map ((\<lambda>(c, x). c * assigned sv cs x) \<circ> (\<lambda>t. (coefficient t, vs ! wire_id t))) ts
      = map (\<lambda>t. coefficient t * w ! wire_id t) ts"
    using assms by (simp add: allocated_def)
  then show ?thesis unfolding lincomb_value_def lc_value_def map_map by (simp only:)
qed

lemma replay_constraint_run:
  assumes "faithful_host host sv" and "allocated sv w k vs cs"
    and "\<forall>t \<in> set (constraint_terms c). wire_id t < k"
  shows "\<exists>cs'. replay_constraint host vs c cs = Inr cs' \<and> allocated sv w k vs cs'
    \<and> instance_of sv cs' = instance_of sv cs
    \<and> (satisfied sv cs' \<longleftrightarrow> satisfied sv cs \<and> constraint_holds w c)"
proof -
  let ?m = "map (\<lambda>t. (coefficient t, vs ! wire_id t))"
  have wires: "\<forall>t \<in> set (lc_a c). wire_id t < k" "\<forall>t \<in> set (lc_b c). wire_id t < k" "\<forall>t \<in> set (lc_c c). wire_id t < k"
    using assms(3) by (auto simp: constraint_terms_def)
  have len: "length vs = k" using assms(2) by (simp add: allocated_def)
  have "\<forall>(q, x) \<in> set (?m (lc_a c) @ ?m (lc_b c) @ ?m (lc_c c)). known sv cs x"
    using assms(2) wires by (auto simp: allocated_def)
  then obtain cs' where new: "enforce_r1cs_constraint host (?m (lc_a c)) (?m (lc_b c)) (?m (lc_c c)) cs = Some cs'"
      "extends sv cs cs'" "instance_of sv cs' = instance_of sv cs"
      "satisfied sv cs' \<longleftrightarrow> satisfied sv cs \<and> lincomb_value (assigned sv cs) (?m (lc_a c))
         * lincomb_value (assigned sv cs) (?m (lc_b c)) mod prime = lincomb_value (assigned sv cs) (?m (lc_c c))"
    using assms(1) unfolding faithful_host_def by blast
  moreover have "allocated sv w k vs cs'"
    using assms(2) new(2) by (simp add: allocated_def extends_def)
  ultimately show ?thesis
    using wires len lincomb_replayed [OF assms(2)]
    by (simp add: replay_constraint_def replay_lc_run constraint_holds_def)
qed

lemma replay_constraints_run:
  assumes "faithful_host host sv" and "allocated sv w k vs cs"
    and "\<forall>c \<in> set cons. \<forall>t \<in> set (constraint_terms c). wire_id t < k"
  shows "\<exists>cs'. fold_result (replay_constraint host vs) cons cs = Inr cs'
    \<and> instance_of sv cs' = instance_of sv cs
    \<and> (satisfied sv cs' \<longleftrightarrow> satisfied sv cs \<and> list_all (constraint_holds w) cons)"
  using assms(2,3)
proof (induction cons arbitrary: cs)
  case (Cons c cons)
  obtain cs1 where 1: "replay_constraint host vs c cs = Inr cs1" "allocated sv w k vs cs1"
    "instance_of sv cs1 = instance_of sv cs" "satisfied sv cs1 \<longleftrightarrow> satisfied sv cs \<and> constraint_holds w c"
    using replay_constraint_run [OF assms(1) Cons.prems(1), of c] Cons.prems(2) by auto
  from Cons.IH [OF 1(2)] Cons.prems(2) 1 show ?case by auto
qed simp

lemma replay_is_the_constraint_system0:
  assumes "faithful_host host sv" and "satisfied sv cs0"
  shows "case generate_constraints host r w cs0 of
      Inr cs \<Rightarrow> replayable r w
        \<and> instance_of sv cs = instance_of sv cs0 @ take (num_public r) (drop 1 w)
        \<and> (satisfied sv cs \<longleftrightarrow> list_all (constraint_holds w) (r1cs_constraints r))
    | Inl (Err _) \<Rightarrow> \<not> replayable r w
    | Inl Trap \<Rightarrow> 2 ^ 32 \<le> num_public r + 1"
proof (cases "num_public r + 1 < 2 ^ 32 \<and> replayable r w")
  case True
  then have small: "num_public r + 1 < 2 ^ 32" and rep: "replayable r w" by auto
  then obtain vs cs where inputs: "fold_result (allocate_input host w) [1..<num_public r + 1] ([one_variable host], cs0)
        = Inr (vs, cs)" "allocated sv w (num_public r + 1) vs cs"
      "instance_of sv cs = instance_of sv cs0 @ take (num_public r) (drop 1 w)" "satisfied sv cs"
    using allocate_inputs_run [OF assms(1), of "num_public r + 1" w cs0] assms(2) by (auto simp: replayable_def)
  obtain vs' cs' where wits: "fold_result (allocate_witness host w) [num_public r + 1..<num_wires r] (vs, cs) = Inr (vs', cs')"
      "allocated sv w (num_wires r) vs' cs'" "instance_of sv cs' = instance_of sv cs" "satisfied sv cs'"
    using allocate_witnesses_run [OF assms(1) _ _ inputs(2), of "num_wires r"] rep inputs(4) by (auto simp: replayable_def)
  obtain cs'' where cons: "fold_result (replay_constraint host vs') (r1cs_constraints r) cs' = Inr cs''"
      "instance_of sv cs'' = instance_of sv cs'"
      "satisfied sv cs'' \<longleftrightarrow> list_all (constraint_holds w) (r1cs_constraints r)"
    using replay_constraints_run [OF assms(1) wits(2), of "r1cs_constraints r"] rep wits(4) by (auto simp: replayable_def)
  have "w ! 0 = 1" "w \<noteq> []" using rep by (auto simp: replayable_def hd_conv_nth)
  moreover have "\<not> list_ex (\<lambda>c. list_ex (\<lambda>t. num_wires r \<le> wire_id t) (constraint_terms c)) (r1cs_constraints r)"
    using rep by (simp add: replayable_def list_ex_iff not_le)
  ultimately have "generate_constraints host r w cs0 = Inr cs''"
    using inputs(1) wits(1) cons(1) small rep
    by (simp add: generate_constraints_def checked_add_def fits_def USIZE_BITS_def replayable_def)
  with rep inputs(3) wits(3) cons(2,3) show ?thesis by simp
next
  case False
  have start: "nth_opt w 0 = Some 1 \<longleftrightarrow> w \<noteq> [] \<and> hd w = 1" by (cases w) (auto simp: nth_opt_def)
  show ?thesis
  proof (cases "num_public r + 1 < 2 ^ 32")
    case large: False
    then show ?thesis
      using start by (cases "nth_opt w 0 = Some 1")
        (auto simp: generate_constraints_def checked_add_def fits_def replayable_def)
  next
    case small: True
    have "\<exists>e. generate_constraints host r w cs0 = Inl (Err e)"
    proof (cases "nth_opt w 0 = Some 1 \<and> num_public r + 1 \<le> num_wires r \<and> num_wires r \<le> length w")
      case True
      then obtain vs cs where 1: "fold_result (allocate_input host w) [1..<num_public r + 1] ([one_variable host], cs0)
          = Inr (vs, cs)" "allocated sv w (num_public r + 1) vs cs"
        using allocate_inputs_run [OF assms(1), of "num_public r + 1" w cs0] start by auto
      obtain vs' cs' where 2: "fold_result (allocate_witness host w) [num_public r + 1..<num_wires r] (vs, cs)
          = Inr (vs', cs')"
        using allocate_witnesses_run [OF assms(1) _ _ 1(2), of "num_wires r"] True by auto
      have "list_ex (\<lambda>c. list_ex (\<lambda>t. num_wires r \<le> wire_id t) (constraint_terms c)) (r1cs_constraints r)"
        using True start small False by (force simp: replayable_def list_ex_iff)
      then show ?thesis
        using True small 1(1) 2 by (simp add: generate_constraints_def checked_add_def fits_def USIZE_BITS_def)
    next
      case bad: False
      then show ?thesis
        using small by (auto simp: generate_constraints_def checked_add_def fits_def ensure_def)
    qed
    with small False show ?thesis by auto
  qed
qed

text \<open>
  C23: The replayed constraint system is the parsed one. Synthesis succeeds exactly on witnesses that
  start with one and cover every wire of constraints within range; the instance it allocates is the
  witness after the constant wire, as many elements as the file declares public; and the resulting
  system is satisfied exactly when the witness satisfies every constraint of the file. It fails with
  an error otherwise, and panics only when the number of public signals is the largest \<open>u32\<close>.
\<close>

theorem replay_is_the_constraint_system:
  assumes "faithful_host host sv" and "satisfied sv cs0"
  shows "case generate_constraints host r w cs0 of
      Inr cs \<Rightarrow> replayable r w
        \<and> instance_of sv cs = instance_of sv cs0 @ take (num_public r) (drop 1 w)
        \<and> (satisfied sv cs \<longleftrightarrow> list_all (constraint_holds w) (r1cs_constraints r))
    | Inl (Err _) \<Rightarrow> \<not> replayable r w
    | Inl Trap \<Rightarrow> 2 ^ 32 \<le> num_public r + 1"
  by (rule replay_is_the_constraint_system0 [OF assms])

section \<open>The instance and the extracted inputs\<close>

lemma chunks_exact_lengths: "0 < n \<Longrightarrow> c \<in> set (chunks_exact n xs) \<Longrightarrow> length c = n"
proof (induction n xs rule: chunks_exact.induct)
  case (1 n xs)
  then show ?case by (cases "length xs < n") (auto simp: chunks_exact.simps [of n xs])
qed

lemma chunks_exact_drop:
  "0 < n \<Longrightarrow> n \<le> length xs \<Longrightarrow> chunks_exact n (drop n xs) = drop 1 (chunks_exact n xs)"
  by (simp add: chunks_exact.simps [of n xs])

lemma chunks_exact_take:
  "0 < n \<Longrightarrow> k * n \<le> length xs \<Longrightarrow> chunks_exact n (take (k * n) xs) = take k (chunks_exact n xs)"
proof (induction k arbitrary: xs)
  case 0
  then show ?case by (simp add: chunks_exact.simps)
next
  case (Suc k)
  then have "k * n \<le> length (drop n xs)" by simp
  from Suc.IH [OF Suc.prems(1) this] Suc.prems show ?case
    by (simp add: chunks_exact.simps [of n xs] chunks_exact.simps [of n "take (n + k * n) xs"] drop_take min_def)
qed

lemma push_public_chunks:
  "\<forall>c \<in> set cs. length c = 32 \<Longrightarrow>
    fold_result push_public_input cs out = Inr (out @ map (\<lambda>c. le_value c mod prime) cs)"
  by (induction cs arbitrary: out) (simp_all add: push_public_input_def bytes_to_prime_field_def FIELD_SIZE_def)

lemma push_witness_chunks:
  "\<forall>c \<in> set cs. length c = 32 \<Longrightarrow>
    fold_result push_witness_element cs out = Inr (out @ map (\<lambda>c. le_value c mod prime) cs)"
  by (induction cs arbitrary: out) (simp_all add: push_witness_element_def bytes_to_prime_field_def FIELD_SIZE_def)

text \<open>
  C24: The inputs a proof is checked with are the instance it was made for. The prover extracts the
  public inputs from the witness bytes, and replays the constraints on the elements it reads from
  the same bytes; verification of the extracted bytes runs the pairing check on exactly the instance
  of the replayed constraint system, for any witness, canonical or not.
\<close>

theorem verified_inputs_are_the_instance:
  assumes "faithful_host host sv" and "satisfied sv cs0" and "instance_of sv cs0 = []"
    and "fold_result push_witness_element (chunks_exact FIELD_SIZE witness_bytes) [] = Inr w"
    and "generate_constraints host r w cs0 = Inr cs"
    and "pr_num_public p = num_public r" and "gamma_count env (pr_vk p) = num_public r + 1"
    and "extract_public_inputs p witness_bytes = Inr bs" and "deserialize_proof env proof_bytes = Some g"
  shows "prover_verify env p proof_bytes bs
    = ok_or (groth16_verify env (pr_vk p) (instance_of sv cs) g) VerificationError"
proof -
  let ?n = "num_public r"
  have bs: "bs = take (?n * 32) (drop 32 witness_bytes)" and len: "32 + ?n * 32 \<le> length witness_bytes"
    using assms(6,8) by (auto simp: extract_public_inputs_def result_simps width_simps checked_mul_usize_def FIELD_SIZE_def
        split: if_splits)
  have w: "w = map (\<lambda>c. le_value c mod prime) (chunks_exact 32 witness_bytes)"
    using assms(4) push_witness_chunks [of "chunks_exact 32 witness_bytes" "[]"] chunks_exact_lengths [of 32 _ witness_bytes]
    by (simp add: FIELD_SIZE_def)
  have chunks: "chunks_exact 32 bs = take ?n (drop 1 (chunks_exact 32 witness_bytes))"
    using chunks_exact_take [of 32 ?n "drop 32 witness_bytes"] chunks_exact_drop [of 32 witness_bytes] len
    by (simp add: bs)
  have "fold_result push_public_input (chunks_exact 32 bs) [] = Inr (map (\<lambda>c. le_value c mod prime) (chunks_exact 32 bs))"
    using push_public_chunks [of "chunks_exact 32 bs" "[]"] chunks_exact_lengths [of 32 _ bs] by simp
  also have "map (\<lambda>c. le_value c mod prime) (chunks_exact 32 bs) = take ?n (drop 1 w)"
    unfolding chunks w take_map drop_map ..
  also have "\<dots> = instance_of sv cs"
    using replay_is_the_constraint_system0 [OF assms(1,2), of r w] assms(3,5) by simp
  finally show ?thesis
    using len bs assms(7,9)
    by (simp add: prover_verify_def verify_proof_with_processed_vk_def FIELD_SIZE_def checked_sub_def)
qed

text \<open>A constraint system for the examples: all values, the instance, and whether all products held.\<close>

definition table_host :: "(scalar list \<times> scalar list \<times> bool, nat) constraint_host" where
  "table_host = \<lparr>one_variable = 0,
     new_input_variable = (\<lambda>v (vals, ins, ok). Some (Suc (length vals), (vals @ [v], ins @ [v], ok))),
     new_witness_variable = (\<lambda>v (vals, ins, ok). Some (Suc (length vals), (vals @ [v], ins, ok))),
     enforce_r1cs_constraint = (\<lambda>a b c (vals, ins, ok). let val = (\<lambda>x. (1 # vals) ! x) in
       Some (vals, ins, ok \<and> lincomb_value val a * lincomb_value val b mod prime = lincomb_value val c))\<rparr>"

definition table_view :: "(scalar list \<times> scalar list \<times> bool, nat) system_view" where
  "table_view = \<lparr>known = (\<lambda>(vals, _, _) x. x \<le> length vals), assigned = (\<lambda>(vals, _, _) x. (1 # vals) ! x),
     instance_of = (\<lambda>(_, ins, _). ins), satisfied = (\<lambda>(_, _, ok). ok)\<rparr>"

lemma table_host_faithful: "faithful_host table_host table_view"
  by (auto simp: faithful_host_def table_host_def table_view_def extends_def nth_append nth_Cons Let_def split: nat.splits)

definition sample_r1cs :: r1cs where
  "sample_r1cs = \<lparr>num_wires = 4, num_pub_out = 1, num_pub_in = 1, num_prv_in = 1, num_public = 2,
     r1cs_constraints = [sample_constraint]\<rparr>"

lemma sample_replay:
  "generate_constraints table_host sample_r1cs [1, 2, 3, 16] ([], [], True) = Inr ([2, 3, 16], [2, 3], True)"
proof -
  have big: "(18::nat) < prime" by (simp add: prime_def)
  then show ?thesis
    by (simp add: generate_constraints_def sample_r1cs_def sample_constraint_def table_host_def constraint_terms_def
        checked_add_def fits_def USIZE_BITS_def upt_rec allocate_input_def allocate_witness_def nth_opt_def
        replay_constraint_def lincomb_value_def nth_Cons')
qed

theorem replay_is_the_constraint_system_witness:
  "\<exists>cs. generate_constraints table_host sample_r1cs [1, 2, 3, 16] ([], [], True) = Inr cs
     \<and> instance_of table_view cs = [2, 3] \<and> satisfied table_view cs
     \<and> list_all (constraint_holds [1, 2, 3, 16]) (r1cs_constraints sample_r1cs)"
proof -
  have "satisfied table_view ([], [], True)" by (simp add: table_view_def)
  from replay_is_the_constraint_system [OF table_host_faithful this, of sample_r1cs "[1, 2, 3, 16]"]
  have "list_all (constraint_holds [1, 2, 3, 16]) (r1cs_constraints sample_r1cs)"
    unfolding sample_replay by (simp add: table_view_def)
  then show ?thesis unfolding sample_replay by (simp add: table_view_def)
qed

theorem verified_inputs_are_the_instance_witness:
  "prover_verify sample_env \<lparr>pr_vk = (), pr_num_public = 3\<rparr> [] (concat (map (le_digits 32) [5, 6, 7])) = Inr False"
proof -
  let ?r = "\<lparr>num_wires = 4, num_pub_out = 0, num_pub_in = 3, num_prv_in = 0, num_public = 3, r1cs_constraints = []\<rparr>"
  let ?wb = "concat (map (le_digits 32) [1, 5, 6, 7])"
  have chunks: "chunks_exact FIELD_SIZE ?wb = map (le_digits 32) [1, 5, 6, 7]"
    unfolding FIELD_SIZE_def by (rule chunks_exact_concat) simp_all
  have vals: "v < 8 \<Longrightarrow> le_value (le_digits 32 v) mod prime = v" for v
    by (simp add: le_value_le_digits prime_def)
  have "fold_result push_witness_element (chunks_exact FIELD_SIZE ?wb) [] = Inr [1, 5, 6, 7]"
    unfolding chunks by (subst push_witness_chunks) (simp_all add: vals del: le_digits.simps)
  moreover have "generate_constraints table_host ?r [1, 5, 6, 7] ([], [], True) = Inr ([5, 6, 7], [5, 6, 7], True)"
    by (simp add: generate_constraints_def table_host_def checked_add_def fits_def USIZE_BITS_def upt_rec
        allocate_input_def nth_opt_def nth_Cons')
  moreover have "extract_public_inputs \<lparr>pr_vk = (), pr_num_public = 3\<rparr> ?wb = Inr (concat (map (le_digits 32) [5, 6, 7]))"
    by (simp add: extract_public_inputs_def checked_mul_usize_def checked_add_def fits_def USIZE_BITS_def FIELD_SIZE_def)
  ultimately have "prover_verify sample_env \<lparr>pr_vk = (), pr_num_public = 3\<rparr> [] (concat (map (le_digits 32) [5, 6, 7]))
      = ok_or (groth16_verify sample_env () [5, 6, 7] []) VerificationError"
    using verified_inputs_are_the_instance [OF table_host_faithful, of "([], [], True)" ?wb "[1, 5, 6, 7]" ?r
        "([5, 6, 7], [5, 6, 7], True)" "\<lparr>pr_vk = (), pr_num_public = 3\<rparr>" sample_env _ "[]" "[]"]
    by (simp add: table_view_def) (simp add: sample_env_def)
  then show ?thesis by (simp add: sample_env_def)
qed

section \<open>Proofs for the contract\<close>

lemma length_be_32 [simp]: "length (bigint_to_be_32 v) = 32"
  by (simp add: bigint_to_be_32_def Let_def)

lemma length_points [simp]: "length (g1_bytes_uncompressed p) = 64" "length (g2_bytes_uncompressed q) = 128"
  by (simp_all add: g1_bytes_uncompressed_def g2_bytes_uncompressed_def)

text \<open>The bytes the prover makes of a proof are the contract's proof, point by point.\<close>

lemma uncompressed_proof_parses:
  "proof_try_from (map word_of_nat (proof_to_uncompressed_bytes p))
    = Inr \<lparr>proof_a = map word_of_nat (g1_bytes_uncompressed (gp_a p)),
        proof_b = map word_of_nat (g2_bytes_uncompressed (gp_b p)),
        proof_c = map word_of_nat (g1_bytes_uncompressed (gp_c p))\<rparr>"
  by (subst proof_try_from_run) (simp_all add: proof_to_uncompressed_bytes_def take_map drop_map)

end
