(* ===== verification/WitnessInputs.thy ===== *)
theory WitnessInputs
  imports R1CS NoteFlow
begin

text \<open>
  The witness calculator's input and output (\<open>app/crates/core/witness/src/lib.rs\<close>): the inputs
  arrive as JSON, are flattened to one list of numbers per signal, and the witness leaves as
  little-endian bytes.

  The JSON parser, \<open>num-bigint\<close>'s reader and the calculator are the fields of \<open>calculator\<close>. A JSON
  value is the parser's: an object is the list of its entries in the order of iteration. Both loops
  keep their explicit stack, with the top at the head of the list.
\<close>

datatype json_number = UnsignedNumber nat | SignedNumber int | FloatNumber

datatype json =
    JNull
  | JBool bool
  | JNumber json_number
  | JString string
  | JArray "json list"
  | JObject "(string \<times> json) list"

datatype witness_error =
    InvalidNumber string
  | InvalidBigint string string
  | UnexpectedObject string
  | InvalidJson
  | NotAnObject
  | CalculationFailed

type_synonym signal_map = "string \<rightharpoonup> int list"

record calculator =
  parse_json :: "string \<Rightarrow> json option"
  parse_bigint :: "nat \<Rightarrow> string \<Rightarrow> int option"
  calculate_witness :: "signal_map \<Rightarrow> int list option"

section \<open>Numbers\<close>

fun as_u64 :: "json_number \<Rightarrow> nat option" where
  "as_u64 (UnsignedNumber n) = Some n"
| "as_u64 _ = None"

fun as_i64 :: "json_number \<Rightarrow> int option" where
  "as_i64 (SignedNumber i) = Some i"
| "as_i64 (UnsignedNumber n) = (if n < 2 ^ 63 then Some (int n) else None)"
| "as_i64 FloatNumber = None"

definition BN254_FIELD_MODULUS :: string where
  "BN254_FIELD_MODULUS =
     ''21888242871839275222246405745257275088548364400416034343698204186575808495617''"

definition to_field_element :: "calculator \<Rightarrow> int \<Rightarrow> (witness_error, int) result" where
  "to_field_element env bi =
     and_then (unwrap (parse_bigint env 10 BN254_FIELD_MODULUS)) (\<lambda>modulus.
       if bi < 0 then
         let abs_value = bi * (- 1) in
         and_then (ensure_host (abs_value < modulus)) (\<lambda>_. Inr (modulus - abs_value))
       else and_then (ensure_host (bi < modulus)) (\<lambda>_. Inr bi))"

definition number_value :: "calculator \<Rightarrow> string \<Rightarrow> json_number \<Rightarrow> (witness_error, int) result" where
  "number_value env key n =
     (case as_u64 n of
        Some i \<Rightarrow> to_field_element env (int i)
      | None \<Rightarrow> (case as_i64 n of
            Some i \<Rightarrow> to_field_element env i
          | None \<Rightarrow> Inl (Err (InvalidNumber key))))"

definition string_value :: "calculator \<Rightarrow> string \<Rightarrow> string \<Rightarrow> (witness_error, int) result" where
  "string_value env key s =
     and_then (ok_or (if take 2 s = ''0x'' then parse_bigint env 16 (drop 2 s) else parse_bigint env 10 s)
        (InvalidBigint key s)) (to_field_element env)"

definition push_entry :: "string \<Rightarrow> int \<Rightarrow> signal_map \<Rightarrow> signal_map" where
  "push_entry key bi m = m(key \<mapsto> (case m key of None \<Rightarrow> [] | Some vs \<Rightarrow> vs) @ [bi])"

section \<open>Pure arrays\<close>

fun json_size :: "json \<Rightarrow> nat" where
  "json_size (JArray xs) = Suc (sum_list (map (\<lambda>x. Suc (json_size x)) xs))"
| "json_size (JObject es) = Suc (sum_list (map (\<lambda>(_, x). Suc (json_size x)) es))"
| "json_size _ = 1"

lemma json_size_pos: "0 < json_size v"
  by (cases v) simp_all

lemma sum_list_less_Suc: "sum_list (map f xs) < Suc (sum_list (map (\<lambda>x. Suc (f x)) xs))" for f :: "'a \<Rightarrow> nat"
  by (induction xs) auto

function pure_stack :: "json list \<Rightarrow> bool" where
  "pure_stack [] = True"
| "pure_stack (JArray arr # stack) = pure_stack (rev arr @ stack)"
| "pure_stack (JObject es # stack) = False"
| "pure_stack (JNull # stack) = pure_stack stack"
| "pure_stack (JBool b # stack) = pure_stack stack"
| "pure_stack (JNumber n # stack) = pure_stack stack"
| "pure_stack (JString s # stack) = pure_stack stack"
  by pat_completeness auto
termination
  by (relation "measure (\<lambda>stack. sum_list (map json_size stack))")
    (use sum_list_less_Suc [of json_size] in \<open>auto simp: rev_map [symmetric] sum_list_rev\<close>)

definition is_pure_array :: "json \<Rightarrow> bool" where
  "is_pure_array v = pure_stack [v]"

datatype work_item = WorkValue json | ArrayIter "json list" nat

definition iter_size :: "json list \<Rightarrow> nat \<Rightarrow> nat" where
  "iter_size arr idx = sum_list (map (\<lambda>x. Suc (2 * json_size x)) (drop idx arr))"

fun work_size :: "work_item \<Rightarrow> nat" where
  "work_size (WorkValue v) = 2 * json_size v"
| "work_size (ArrayIter arr idx) = iter_size arr idx"

lemma iter_size_array: "iter_size arr 0 < 2 * json_size (JArray arr)"
  by (induction arr) (simp_all add: iter_size_def)

lemma iter_size_step: "idx < length arr \<Longrightarrow> iter_size arr idx = Suc (2 * json_size (arr ! idx)) + iter_size arr (Suc idx)"
  by (simp add: iter_size_def Cons_nth_drop_Suc [symmetric])

text \<open>
  \<open>flatten_pure_array\<close>. An index is below the length of its vector, so the saturating increment is
  an increment.
\<close>

function pure_loop :: "calculator \<Rightarrow> string \<Rightarrow> work_item list \<Rightarrow> signal_map \<Rightarrow> (witness_error, signal_map) result" where
  "pure_loop env key [] m = Inr m"
| "pure_loop env key (WorkValue (JNumber n) # stack) m =
     and_then (number_value env key n) (\<lambda>bi. pure_loop env key stack (push_entry key bi m))"
| "pure_loop env key (WorkValue (JString s) # stack) m =
     and_then (string_value env key s) (\<lambda>bi. pure_loop env key stack (push_entry key bi m))"
| "pure_loop env key (WorkValue (JArray arr) # stack) m =
     pure_loop env key (if arr \<noteq> [] then ArrayIter arr 0 # stack else stack) m"
| "pure_loop env key (WorkValue (JBool b) # stack) m =
     pure_loop env key stack (push_entry key (if b then 1 else 0) m)"
| "pure_loop env key (WorkValue JNull # stack) m = pure_loop env key stack (push_entry key 0 m)"
| "pure_loop env key (WorkValue (JObject es) # stack) m = Inl (Err (UnexpectedObject key))"
| "pure_loop env key (ArrayIter arr idx # stack) m =
     (case nth_opt arr idx of
        None \<Rightarrow> Inl Trap
      | Some v \<Rightarrow> pure_loop env key
          (WorkValue v # (if idx + 1 < length arr then ArrayIter arr (idx + 1) # stack else stack)) m)"
  by pat_completeness auto
termination
  by (relation "measure (\<lambda>(_, _, stack, _). sum_list (map work_size stack))")
    (auto simp: iter_size_array json_size_pos nth_opt_Some simp del: json_size.simps(1) dest: iter_size_step)

definition flatten_pure_array ::
  "calculator \<Rightarrow> string \<Rightarrow> json \<Rightarrow> signal_map \<Rightarrow> (witness_error, signal_map) result" where
  "flatten_pure_array env key v m = pure_loop env key [WorkValue v] m"

section \<open>Any value\<close>

definition indexed_key :: "string \<Rightarrow> nat \<Rightarrow> string" where
  "indexed_key key idx = key @ ''['' @ show_decimal idx @ '']''"

definition nested_key :: "string \<Rightarrow> string \<Rightarrow> string" where
  "nested_key key name = key @ ''.'' @ name"

lemma enumerate_sizes:
  "sum_list (map (\<lambda>(_, x). json_size x) (map (\<lambda>(idx, item). (indexed_key key idx, item)) (List.enumerate n arr)))
    = sum_list (map json_size arr)"
  by (induction arr arbitrary: n) simp_all

lemma object_sizes:
  "sum_list (map (\<lambda>(_, x). json_size x) (rev (map (\<lambda>(name, val). (nested_key key name, val)) obj)))
    < json_size (JObject obj)"
  by (induction obj) (auto simp: sum_list_rev)

function flatten_loop ::
  "calculator \<Rightarrow> (string \<times> json) list \<Rightarrow> signal_map \<Rightarrow> (witness_error, signal_map) result" where
  "flatten_loop env [] m = Inr m"
| "flatten_loop env ((key, JNumber n) # stack) m =
     and_then (number_value env key n) (\<lambda>bi. flatten_loop env stack (push_entry key bi m))"
| "flatten_loop env ((key, JString s) # stack) m =
     and_then (string_value env key s) (\<lambda>bi. flatten_loop env stack (push_entry key bi m))"
| "flatten_loop env ((key, JArray arr) # stack) m =
     (if is_pure_array (JArray arr)
      then and_then (flatten_pure_array env key (JArray arr) m) (flatten_loop env stack)
      else flatten_loop env (map (\<lambda>(idx, item). (indexed_key key idx, item)) (List.enumerate 0 arr) @ stack) m)"
| "flatten_loop env ((key, JObject obj) # stack) m =
     flatten_loop env (rev (map (\<lambda>(name, val). (nested_key key name, val)) obj) @ stack) m"
| "flatten_loop env ((key, JBool b) # stack) m =
     flatten_loop env stack (push_entry key (if b then 1 else 0) m)"
| "flatten_loop env ((key, JNull) # stack) m = flatten_loop env stack (push_entry key 0 m)"
  by pat_completeness auto
termination
  by (relation "measure (\<lambda>(_, stack, _). sum_list (map (\<lambda>(_, x). json_size x) stack))")
    (use sum_list_less_Suc [of json_size] object_sizes in
      \<open>auto simp: enumerate_sizes simp del: json_size.simps(2) map_map rev_map\<close>)

definition flatten_input ::
  "calculator \<Rightarrow> string \<Rightarrow> json \<Rightarrow> signal_map \<Rightarrow> (witness_error, signal_map) result" where
  "flatten_input env key v m = flatten_loop env [(key, v)] m"

section \<open>The calculator\<close>

definition witness_element :: "int \<Rightarrow> nat list \<Rightarrow> (witness_error, nat list) result" where
  "witness_element bi bytes =
     and_then (ensure_host (\<bar>bi\<bar> < 256 ^ 32)) (\<lambda>_.
     and_then (ensure_host (0 \<le> bi)) (\<lambda>_.
       Inr (bytes @ le_digits 32 (nat bi))))"

definition witness_to_bytes :: "int list \<Rightarrow> (witness_error, nat list) result" where
  "witness_to_bytes w =
     and_then (unwrap (checked_mul_usize (length w) 32)) (\<lambda>capacity.
     and_then (with_capacity 1 capacity) (\<lambda>_.
       fold_result witness_element w []))"

definition calculator_compute_witness :: "calculator \<Rightarrow> string \<Rightarrow> (witness_error, nat list) result" where
  "calculator_compute_witness env inputs_json =
     and_then (ok_or (parse_json env inputs_json) InvalidJson) (\<lambda>inputs.
     and_then (case inputs of JObject entries \<Rightarrow> Inr entries | _ \<Rightarrow> Inl (Err NotAnObject)) (\<lambda>inputs_map.
     and_then (fold_result (\<lambda>(key, val). flatten_input env key val) inputs_map Map.empty) (\<lambda>inputs_hashmap.
     and_then (ok_or (calculate_witness env inputs_hashmap) CalculationFailed) (\<lambda>witness.
       witness_to_bytes witness))))"

end
