(* ===== verification/WitnessFacts.thy ===== *)
theory WitnessFacts
  imports WitnessInputs R1CSFacts
begin

text \<open>
  The two stack loops of the witness calculator's input against a recursive reading of JSON, and what
  the calculator receives for the inputs of a transaction.
\<close>

section \<open>The recursive reading\<close>

definition join_results :: "('e, 'a list) result \<Rightarrow> ('e, 'a list) result \<Rightarrow> ('e, 'a list) result" where
  "join_results a b = and_then a (\<lambda>x. and_then b (\<lambda>y. Inr (x @ y)))"

text \<open>A value without objects gives its leaves in row-major order.\<close>

fun pure_values :: "calculator \<Rightarrow> string \<Rightarrow> json \<Rightarrow> (witness_error, int list) result"
  and pure_list :: "calculator \<Rightarrow> string \<Rightarrow> json list \<Rightarrow> (witness_error, int list) result" where
  "pure_values env key (JNumber n) = and_then (number_value env key n) (\<lambda>b. Inr [b])"
| "pure_values env key (JString s) = and_then (string_value env key s) (\<lambda>b. Inr [b])"
| "pure_values env key (JBool b) = Inr [if b then 1 else 0]"
| "pure_values env key JNull = Inr [0]"
| "pure_values env key (JObject es) = Inl (Err (UnexpectedObject key))"
| "pure_values env key (JArray xs) = pure_list env key xs"
| "pure_list env key [] = Inr []"
| "pure_list env key (x # xs) = join_results (pure_values env key x) (pure_list env key xs)"

text \<open>
  Any value gives its named leaves: an array with objects under an index per item, an object under
  the name of each field, the last field first.
\<close>

fun emit :: "calculator \<Rightarrow> string \<Rightarrow> json \<Rightarrow> (witness_error, (string \<times> int) list) result"
  and emit_items :: "calculator \<Rightarrow> string \<Rightarrow> nat \<Rightarrow> json list \<Rightarrow> (witness_error, (string \<times> int) list) result"
  and emit_fields :: "calculator \<Rightarrow> string \<Rightarrow> (string \<times> json) list \<Rightarrow> (witness_error, (string \<times> int) list) result" where
  "emit env key (JNumber n) = and_then (number_value env key n) (\<lambda>b. Inr [(key, b)])"
| "emit env key (JString s) = and_then (string_value env key s) (\<lambda>b. Inr [(key, b)])"
| "emit env key (JBool b) = Inr [(key, if b then 1 else 0)]"
| "emit env key JNull = Inr [(key, 0)]"
| "emit env key (JArray xs) =
     (if is_pure_array (JArray xs) then and_then (pure_list env key xs) (\<lambda>vs. Inr (map (Pair key) vs))
      else emit_items env key 0 xs)"
| "emit env key (JObject es) = emit_fields env key es"
| "emit_items env key i [] = Inr []"
| "emit_items env key i (x # xs) = join_results (emit env (indexed_key key i) x) (emit_items env key (Suc i) xs)"
| "emit_fields env key [] = Inr []"
| "emit_fields env key ((name, x) # es) = join_results (emit_fields env key es) (emit env (nested_key key name) x)"

definition push_all :: "(string \<times> int) list \<Rightarrow> signal_map \<Rightarrow> signal_map" where
  "push_all es = fold (\<lambda>(key, b). push_entry key b) es"

lemma push_all_simps [simp]:
  "push_all [] m = m"
  "push_all ((key, b) # es) m = push_all es (push_entry key b m)"
  "push_all (es @ ds) m = push_all ds (push_all es m)"
  by (simp_all add: push_all_def)

lemma push_all_key: "push_all (map (Pair key) vs) m = fold (push_entry key) vs m"
  by (induction vs arbitrary: m) simp_all

lemma fold_push_entry:
  "fold (push_entry key) vs m
    = (if vs = [] then m else m(key \<mapsto> (case m key of None \<Rightarrow> [] | Some ws \<Rightarrow> ws) @ vs))"
  by (induction vs arbitrary: m) (auto simp: push_entry_def)

section \<open>The loops\<close>

lemma join_results_assoc:
  "join_results (join_results a b) c = join_results a (join_results b c)"
  by (cases a; cases b; cases c) (simp_all add: join_results_def)

lemma join_results_simps [simp]:
  "join_results (Inr []) b = b"
  "join_results a (Inr []) = a"
  "join_results (Inl e) b = Inl e"
  "join_results (and_then r f) b = and_then r (\<lambda>x. join_results (f x) b)"
  by (cases b; cases a; cases r; simp add: join_results_def)+

lemma run_join:
  "and_then (join_results a b) (\<lambda>es. Inr (push_all es m))
    = and_then a (\<lambda>xs. and_then b (\<lambda>ys. Inr (push_all ys (push_all xs m))))"
  by (cases a; cases b) (simp_all add: join_results_def)

fun stack_values :: "calculator \<Rightarrow> string \<Rightarrow> work_item list \<Rightarrow> (witness_error, int list) result" where
  "stack_values env key [] = Inr []"
| "stack_values env key (WorkValue v # stack) = join_results (pure_values env key v) (stack_values env key stack)"
| "stack_values env key (ArrayIter arr idx # stack) =
     join_results (pure_list env key (drop idx arr)) (stack_values env key stack)"

fun iter_ok :: "work_item \<Rightarrow> bool" where
  "iter_ok (WorkValue v) = True"
| "iter_ok (ArrayIter arr idx) \<longleftrightarrow> idx < length arr"

lemma run_cons:
  "and_then (join_results (and_then r (\<lambda>b. Inr [b])) s) (\<lambda>vs. Inr (fold f vs m))
    = and_then r (\<lambda>b. and_then s (\<lambda>vs. Inr (fold f vs (f b m))))"
  by (cases r; cases s) (simp_all add: join_results_def)

lemma run_one:
  "and_then (join_results (Inr [b]) s) (\<lambda>vs. Inr (fold f vs m)) = and_then s (\<lambda>vs. Inr (fold f vs (f b m)))"
  by (cases s) (simp_all add: join_results_def)

lemma pure_loop_values:
  "list_all iter_ok stack \<Longrightarrow> pure_loop env key stack m
    = and_then (stack_values env key stack) (\<lambda>vs. Inr (fold (push_entry key) vs m))"
proof (induction env key stack m rule: pure_loop.induct)
  case (1 env key m)
  then show ?case by simp
next
  case (2 env key n stack m)
  then show ?case by (simp add: run_cons del: join_results_simps(4))
next
  case (3 env key s stack m)
  then show ?case by (simp add: run_cons del: join_results_simps(4))
next
  case (4 env key arr stack m)
  then show ?case by (cases arr) auto
next
  case (5 env key b stack m)
  then show ?case by (cases b) (simp_all add: run_one)
next
  case (6 env key stack m)
  then show ?case by (simp add: run_one)
next
  case (7 env key es stack m)
  then show ?case by simp
next
  case (8 env key arr idx stack m)
  then have idx: "idx < length arr" by simp
  then have "drop idx arr = arr ! idx # drop (Suc idx) arr" by (simp add: Cons_nth_drop_Suc)
  moreover have "\<not> Suc idx < length arr \<Longrightarrow> drop (Suc idx) arr = []" by simp
  moreover have "nth_opt arr idx = Some (arr ! idx)" using idx by simp
  ultimately show ?case
    using 8 by (simp add: join_results_assoc)
qed

lemma flatten_pure_array_values:
  "flatten_pure_array env key v m = and_then (pure_values env key v) (\<lambda>vs. Inr (fold (push_entry key) vs m))"
  unfolding flatten_pure_array_def by (subst pure_loop_values) simp_all

fun emit_stack :: "calculator \<Rightarrow> (string \<times> json) list \<Rightarrow> (witness_error, (string \<times> int) list) result" where
  "emit_stack env [] = Inr []"
| "emit_stack env ((key, v) # stack) = join_results (emit env key v) (emit_stack env stack)"

lemma emit_stack_append: "emit_stack env (xs @ ys) = join_results (emit_stack env xs) (emit_stack env ys)"
  by (induction xs) (auto simp: join_results_assoc)

lemma emit_stack_items:
  "emit_stack env (map (\<lambda>(idx, item). (indexed_key key idx, item)) (List.enumerate i arr)) = emit_items env key i arr"
  by (induction arr arbitrary: i) simp_all

lemma emit_stack_fields:
  "emit_stack env (rev (map (\<lambda>(name, val). (nested_key key name, val)) obj)) = emit_fields env key obj"
  by (induction obj) (auto simp: emit_stack_append)

lemma run_emit_cons:
  "and_then (join_results (and_then r (\<lambda>b. Inr [(key, b)])) s) (\<lambda>es. Inr (push_all es m))
    = and_then r (\<lambda>b. and_then s (\<lambda>es. Inr (push_all es (push_entry key b m))))"
  by (cases r; cases s) (simp_all add: join_results_def)

lemma run_emit_one:
  "and_then (join_results (Inr [(key, b)]) s) (\<lambda>es. Inr (push_all es m))
    = and_then s (\<lambda>es. Inr (push_all es (push_entry key b m)))"
  by (cases s) (simp_all add: join_results_def)

lemma flatten_loop_emits:
  "flatten_loop env stack m = and_then (emit_stack env stack) (\<lambda>es. Inr (push_all es m))"
proof (induction env stack m rule: flatten_loop.induct)
  case (1 env m)
  then show ?case by simp
next
  case (2 env key n stack m)
  then show ?case by (simp add: run_emit_cons del: join_results_simps(4))
next
  case (3 env key s stack m)
  then show ?case by (simp add: run_emit_cons del: join_results_simps(4))
next
  case (4 env key arr stack m)
  show ?case
  proof (cases "is_pure_array (JArray arr)")
    case True
    have "and_then (join_results (and_then (pure_list env key arr) (\<lambda>vs. Inr (map (Pair key) vs))) (emit_stack env stack))
        (\<lambda>es. Inr (push_all es m))
      = and_then (pure_list env key arr) (\<lambda>vs. and_then (emit_stack env stack)
          (\<lambda>es. Inr (push_all es (fold (push_entry key) vs m))))"
      by (simp only: run_join and_then_assoc and_then_simps push_all_key)
    then show ?thesis
      using True 4(1) by (simp add: flatten_pure_array_values and_then_assoc del: join_results_simps(4))
  next
    case False
    then show ?thesis using 4(2) by (simp add: emit_stack_append emit_stack_items)
  qed
next
  case (5 env key obj stack m)
  then show ?case by (simp add: emit_stack_append emit_stack_fields)
next
  case (6 env key b stack m)
  then show ?case by (cases b) (simp_all add: run_emit_one)
next
  case (7 env key stack m)
  then show ?case by (simp add: run_emit_one)
qed

text \<open>
  The inputs of the calculator are the recursive reading of the JSON. The loops with their
  explicit stacks and indices add, for any value, exactly the named leaves of its recursive reading
  in that order, and fail with the same error at the same leaf: nested arrays become one list in
  row-major order, arrays that hold objects and objects become indexed and dotted names.
\<close>

theorem flattening_is_the_recursive_reading:
  "flatten_input env key v m = and_then (emit env key v) (\<lambda>es. Inr (push_all es m))"
  by (simp add: flatten_input_def flatten_loop_emits)

section \<open>The inputs of a transaction\<close>

text \<open>\<open>BigInt::parse_bytes\<close> reads a non-empty text of digits as their value.\<close>

definition reads_digits :: "calculator \<Rightarrow> bool" where
  "reads_digits env \<longleftrightarrow> (\<forall>radix s v. radix \<in> {10, 16} \<and> s \<noteq> [] \<and> digits_value radix s 0 = Some v
     \<longrightarrow> parse_bigint env radix s = Some (int v))"

lemma modulus_digits: "digits_value 10 BN254_FIELD_MODULUS 0 = Some prime"
  by (simp add: BN254_FIELD_MODULUS_def prime_def to_digit_def)

lemma hex_digits_value:
  "is_bytes bs \<Longrightarrow> digits_value 16 (hex_encode bs) acc = Some (acc * 256 ^ length bs + be_value bs)"
proof (induction bs arbitrary: acc)
  case (Cons b bs)
  then have "b < 16 * 16" by simp
  then have "b div 16 < 16" "b mod 16 < 16" by (simp_all add: less_mult_imp_div_less)
  note d = this [THEN hex_digit_facts]
  have "digits_value 16 (hex_encode (b # bs)) acc = digits_value 16 (hex_encode bs) (b + 256 * acc)"
    using d by simp
  also have "\<dots> = Some ((b + 256 * acc) * 256 ^ length bs + be_value bs)" using Cons by simp
  also have "(b + 256 * acc) * 256 ^ length bs + be_value bs = acc * 256 ^ length (b # bs) + be_value (b # bs)"
    by (simp add: algebra_simps)
  finally show ?case .
qed simp

lemma to_field_element_id:
  assumes "reads_digits env" and "s < prime"
  shows "to_field_element env (int s) = Inr (int s)"
proof -
  have "parse_bigint env 10 BN254_FIELD_MODULUS = Some (int prime)"
    using assms(1) modulus_digits by (simp add: reads_digits_def BN254_FIELD_MODULUS_def)
  then show ?thesis using assms(2) by (simp add: to_field_element_def)
qed

lemma string_value_hex:
  assumes "reads_digits env" and "s < prime"
  shows "string_value env key (circuit_hex s) = Inr (int s)"
proof -
  let ?h = "hex_encode (rev (le_digits 32 s))"
  have "be_value (rev (le_digits 32 s)) = s"
    using scalar_bytes_value [OF assms(2)] by (simp add: be_value_rev)
  then have "digits_value 16 ?h 0 = Some s" by (subst hex_digits_value) simp_all
  moreover have "length ?h = 64" by simp
  then have "?h \<noteq> []" by (metis length_0_conv zero_neq_numeral)
  ultimately have "parse_bigint env 16 ?h = Some (int s)" using assms(1) by (simp add: reads_digits_def)
  then show ?thesis using to_field_element_id [OF assms] by (simp add: string_value_def circuit_hex_def)
qed

text \<open>The JSON of the inputs: a string or an array of strings under each name.\<close>

fun json_value :: "input_value \<Rightarrow> json" where
  "json_value (Single v) = JString v"
| "json_value (Array vs) = JArray (map JString vs)"

definition inputs_json :: "(string \<times> input_value) list \<Rightarrow> json" where
  "inputs_json entries = JObject (map (\<lambda>(name, v). (name, json_value v)) entries)"

definition value_numbers :: "input_value \<Rightarrow> int list" where
  "value_numbers v = map (\<lambda>s. int (the (read_hex s))) (case v of Single s \<Rightarrow> [s] | Array vs \<Rightarrow> vs)"

text \<open>What is delivered: the signals under their names, except that an empty array leaves no trace.\<close>

definition delivered :: "circuit_inputs \<Rightarrow> signal_map" where
  "delivered c name = (case c name of
      Some v \<Rightarrow> if value_numbers v = [] then None else Some (value_numbers v) | None \<Rightarrow> None)"

lemma circuit_text_read: "circuit_text v \<Longrightarrow> \<exists>s < prime. v = circuit_hex s \<and> read_hex v = Some s"
  by (auto simp: circuit_text_def split: option.splits)

lemma string_value_text:
  assumes "reads_digits env" and "circuit_text v"
  shows "string_value env key v = Inr (int (the (read_hex v)))"
  using circuit_text_read [OF assms(2)] string_value_hex [OF assms(1)] by auto

lemma pure_strings: "pure_stack (map JString vs @ stack) = pure_stack stack"
  by (induction vs) simp_all

lemma pure_list_strings:
  assumes "reads_digits env"
  shows "list_all circuit_text vs \<Longrightarrow>
    pure_list env key (map JString vs) = Inr (map (\<lambda>s. int (the (read_hex s))) vs)"
proof (induction vs)
  case (Cons v vs)
  then show ?case by (simp add: string_value_text [OF assms] join_results_def)
qed simp

lemma flatten_value:
  assumes "reads_digits env" and "well_formed_value v"
  shows "flatten_input env name (json_value v) m = Inr (fold (push_entry name) (value_numbers v) m)"
proof (cases v)
  case (Single s)
  then show ?thesis
    using assms string_value_text [OF assms(1)]
    by (simp add: flatten_input_def flatten_loop_emits value_numbers_def well_formed_value_def)
next
  case (Array vs)
  have "is_pure_array (JArray (map JString vs))"
    using pure_strings [of "rev vs" "[]"] by (simp add: is_pure_array_def rev_map)
  then show ?thesis
    using assms Array pure_list_strings [OF assms(1), of vs]
    by (simp add: flatten_input_def flatten_loop_emits value_numbers_def well_formed_value_def push_all_key [symmetric]
        del: map_map)
qed

lemma flatten_entries:
  assumes "reads_digits env"
  shows "distinct (map fst entries) \<Longrightarrow> list_all (well_formed_value \<circ> snd) entries
    \<Longrightarrow> \<forall>name \<in> fst ` set entries. m name = None \<Longrightarrow>
    fold_result (\<lambda>(key, val). flatten_input env key val) (map (\<lambda>(name, v). (name, json_value v)) entries) m
      = Inr (\<lambda>name. if name \<in> fst ` set entries then delivered (map_of entries) name else m name)"
proof (induction entries arbitrary: m)
  case (Cons e entries)
  obtain name v where e: "e = (name, v)" by fastforce
  let ?m = "fold (push_entry name) (value_numbers v) m"
  have m: "?m = (if value_numbers v = [] then m else m(name \<mapsto> value_numbers v))"
    using Cons.prems(3) by (simp add: fold_push_entry e)
  have "\<forall>n \<in> fst ` set entries. ?m n = None"
    using Cons.prems(1,3) by (auto simp: m e)
  from Cons.IH [OF _ _ this] Cons.prems flatten_value [OF assms, of v name m]
  have "fold_result (\<lambda>(key, val). flatten_input env key val) (map (\<lambda>(name, v). (name, json_value v)) (e # entries)) m
      = Inr (\<lambda>n. if n \<in> fst ` set entries then delivered (map_of entries) n else ?m n)"
    by (simp add: e)
  moreover have "(\<lambda>n. if n \<in> fst ` set entries then delivered (map_of entries) n else ?m n)
      = (\<lambda>n. if n \<in> fst ` set (e # entries) then delivered (map_of (e # entries)) n else m n)"
    using Cons.prems(1,3) by (auto simp: m e delivered_def fun_eq_iff)
  ultimately show ?case by simp
qed simp

lemma calculator_receives:
  assumes "reads_digits env" and "distinct (map fst entries)" and "well_formed_inputs (map_of entries)"
    and "parse_json env text = Some (inputs_json entries)"
  shows "calculator_compute_witness env text
    = and_then (ok_or (calculate_witness env (delivered (map_of entries))) CalculationFailed) witness_to_bytes"
proof -
  have "list_all (well_formed_value \<circ> snd) entries"
    using assms(2,3) by (auto simp: list_all_iff well_formed_inputs_def)
  then have "fold_result (\<lambda>(key, val). flatten_input env key val) (map (\<lambda>(name, v). (name, json_value v)) entries) Map.empty
      = Inr (delivered (map_of entries))"
  proof -
    have "name \<in> fst ` set entries \<longleftrightarrow> map_of entries name \<noteq> None" for name
      by (simp add: map_of_eq_None_iff)
    then show ?thesis
      using flatten_entries [OF assms(1,2) \<open>list_all (well_formed_value \<circ> snd) entries\<close>, of Map.empty]
      by (simp add: fun_eq_iff delivered_def split: option.splits)
  qed
  then show ?thesis by (simp add: calculator_compute_witness_def assms(4) inputs_json_def)
qed

text \<open>
  C22: The witness calculator receives the signals of the transaction. The circuit inputs that
  \<open>transact\<close> produces, written as JSON in any order of their names and read by the calculator,
  arrive as exactly the numbers of their signals under their names, one per string, none rejected and
  none changed; a signal that is an empty array is not delivered at all. This needs the digest of the
  external data to be reduced, as both hash functions make it.
\<close>

theorem calculator_receives_transact_signals:
  assumes "panic_free 3 p3" "panic_free 4 p4" and "typed_params p" and "digests h"
    and "\<forall>e d. h e = Some d \<longrightarrow> be_value d < prime"
    and "transact env p3 p4 h p rng = Inr (art, rng')"
    and "reads_digits calc" and "distinct (map fst entries)" and "map_of entries = ta_circuit_inputs art"
    and "parse_json calc text = Some (inputs_json entries)"
  shows "calculator_compute_witness calc text
    = and_then (ok_or (calculate_witness calc (delivered (ta_circuit_inputs art))) CalculationFailed) witness_to_bytes"
proof -
  obtain slots outs enc0 enc1 digest where run: "transact_run env p3 p4 h p rng slots outs enc0 enc1 digest art rng'"
    using assms(6) unfolding transact_iff [OF assms(1-3)] by blast
  obtain c where c: "well_formed_inputs c" "ta_circuit_inputs art = set_single ''extDataHash'' (be32_to_0x_hex digest) c"
    using run_input_texts [OF run assms(2)] by blast
  have "length digest = 32" "is_bytes digest" "be_value digest < prime"
    using assms(4,5) run_prepared(6) [OF run assms(2)] unfolding digests_def by blast+
  moreover from this have "be32_to_0x_hex digest = circuit_hex (be_value digest)"
    using be_digits_be_value [of digest] by (simp add: be32_to_0x_hex_def circuit_hex_def be_digits_def)
  ultimately have "well_formed_inputs (map_of entries)"
    using well_formed_set(2) [OF c(1)] by (simp add: assms(9) c(2))
  from calculator_receives [OF assms(7,8) this assms(10)] show ?thesis by (simp add: assms(9))
qed

section \<open>A concrete calculator\<close>

lemma finite_set_steps:
  "finite (dom new_inputs)"
  "finite (dom c) \<Longrightarrow> finite (dom (set_single n v c))"
  "finite (dom c) \<Longrightarrow> finite (dom (set_array n vs c))"
  by (simp_all add: new_inputs_def set_single_def set_array_def)

lemma finite_asp_slot: "wire_asp_slot mp np slot c = Inr c' \<Longrightarrow> finite (dom c) \<Longrightarrow> finite (dom c')"
  by (auto simp: wire_asp_slot_def wire_membership_def wire_non_membership_def set_field_eqs Let_def
      finite_set_steps)

lemma run_inputs_finite:
  assumes "transact_run env p3 p4 h p rng slots outs enc0 enc1 digest art rng'"
  shows "finite (dom (ta_circuit_inputs art))"
proof -
  obtain c where c: "fold_result (wire_asp_slot (tp_membership_proof p) (tp_non_membership_proof p)) [0..<N_INPUTS]
      (base_wires p (pt_public_amount (ta_prepared art)) (input_wires p3 p4 p slots) (output_wires p3 p4 p outs [enc0, enc1]))
        = Inr c" and art: "ta_circuit_inputs art = set_single ''extDataHash'' (be32_to_0x_hex digest) c"
    using assms unfolding transact_run_def by auto
  have "finite (dom (base_wires p (pt_public_amount (ta_prepared art)) (input_wires p3 p4 p slots)
      (output_wires p3 p4 p outs [enc0, enc1])))"
    by (simp add: base_wires_def wire_notes_def Let_def finite_set_steps)
  from fold_result_invariant [where P = "\<lambda>c. finite (dom c)", OF c this] have "finite (dom c)"
    by (blast intro: finite_asp_slot)
  then show ?thesis by (simp add: art finite_set_steps)
qed

lemma finite_entries:
  assumes "finite (dom c)"
  shows "\<exists>entries. distinct (map fst entries) \<and> map_of entries = c"
proof -
  from finite_distinct_list [OF assms] obtain ks where ks: "set ks = dom c" "distinct ks" by auto
  let ?es = "map (\<lambda>k. (k, the (c k))) ks"
  have "map_of ?es k = c k" for k
    unfolding map_of_map_restrict ks(1) by (cases "c k") (simp_all add: restrict_map_def domIff)
  then have "map_of ?es = c" by (rule ext)
  moreover have "distinct (map fst ?es)" using ks(2) by (simp add: comp_def)
  ultimately show ?thesis by (intro exI [of _ ?es]) simp
qed

definition sample_calculator :: "(string \<times> input_value) list \<Rightarrow> calculator" where
  "sample_calculator entries = \<lparr>parse_json = (\<lambda>_. Some (inputs_json entries)),
     parse_bigint = (\<lambda>radix s. map_option int (digits_value radix s 0)),
     calculate_witness = (\<lambda>m. m ''root'')\<rparr>"

definition zero_digest :: "app_ext_data \<Rightarrow> nat list option" where
  "zero_digest e = Some (replicate 32 0)"

lemma zero_digests: "digests zero_digest"
  by (simp add: digests_def zero_digest_def is_bytes_def)

lemma zero_digest_reduced: "\<forall>e d. zero_digest e = Some d \<longrightarrow> be_value d < prime"
proof -
  have "be_value (replicate n 0) = 0" for n by (induction n) simp_all
  then show ?thesis using prime_pos by (simp add: zero_digest_def)
qed

theorem calculator_receives_transact_signals_witness:
  "\<exists>art rng' entries. transact sample_crypto (bare_params 3) (bare_params 4) zero_digest sample_params 0 = Inr (art, rng')
     \<and> map_of entries = ta_circuit_inputs art
     \<and> calculator_compute_witness (sample_calculator entries) ''inputs''
       = and_then (ok_or (delivered (ta_circuit_inputs art) ''root'') CalculationFailed) witness_to_bytes"
proof -
  have pf: "panic_free 3 (bare_params 3)" "panic_free 4 (bare_params 4)" by (simp_all add: panic_free_bare)
  have accepted: "transact sample_crypto (bare_params 3) (bare_params 4) zero_digest sample_params 0 = Inr (art, rng') \<longleftrightarrow>
      (\<exists>slots outs enc0 enc1 digest. transact_run sample_crypto (bare_params 3) (bare_params 4) zero_digest sample_params 0
        slots outs enc0 enc1 digest art rng')" for art rng'
    using transact_iff [OF pf sample_params_ok(1)] by blast
  obtain slots outs enc0 enc1 digest art rng' where
    run: "transact_run sample_crypto (bare_params 3) (bare_params 4) zero_digest sample_params 0 slots outs enc0 enc1 digest art rng'"
    using run_exists [where h = zero_digest and ?p3.0 = "bare_params 3" and ?p4.0 = "bare_params 4" and rng = 0,
        OF sample_crypto(2) _ sample_params_ok] by (auto simp: zero_digest_def)
  then have call: "transact sample_crypto (bare_params 3) (bare_params 4) zero_digest sample_params 0 = Inr (art, rng')"
    using accepted by blast
  obtain entries where entries: "distinct (map fst entries)" "map_of entries = ta_circuit_inputs art"
    using finite_entries [OF run_inputs_finite [OF run]] by blast
  have "reads_digits (sample_calculator entries)" by (simp add: reads_digits_def sample_calculator_def)
  moreover have "parse_json (sample_calculator entries) ''inputs'' = Some (inputs_json entries)"
    by (simp add: sample_calculator_def)
  ultimately have "calculator_compute_witness (sample_calculator entries) ''inputs''
      = and_then (ok_or (calculate_witness (sample_calculator entries) (delivered (ta_circuit_inputs art))) CalculationFailed)
          witness_to_bytes"
    by (rule calculator_receives_transact_signals [OF pf sample_params_ok(1) zero_digests zero_digest_reduced call _ entries])
  then have "calculator_compute_witness (sample_calculator entries) ''inputs''
      = and_then (ok_or (delivered (ta_circuit_inputs art) ''root'') CalculationFailed) witness_to_bytes"
    by (simp add: sample_calculator_def)
  with call entries(2) show ?thesis by blast
qed

end
