(* ===== verification/ChainCodec.thy ===== *)
theory ChainCodec
  imports TransactFlow
begin

text \<open>
  The application's side of the chain's data format: values (\<open>ScVal\<close>) of amounts, field elements,
  proofs and external data (\<open>app/crates/core/stellar/src/conversions.rs\<close> and
  \<open>soroban_encode.rs\<close>), the hash of the external data (\<open>ext_data_hash.rs\<close>), and the parsing of
  contract events (\<open>conversions.rs\<close> and \<open>app/crates/core/state/src/events_parsers.rs\<close>).

  The XDR library, the textual form of addresses and Keccak-256 are the fields of \<open>xdr_host\<close>. A
  value is the data the code matches on; \<open>SvOther\<close> stands for the variants it never uses. A
  256-bit value is its four limbs, the most significant first.
\<close>

datatype sc_address = AccountAddress "nat list" | ContractAddress "nat list" | OtherAddress

datatype scval =
    SvBool bool
  | SvVoid
  | SvU32 nat
  | SvU64 nat
  | SvU256 nat nat nat nat
  | SvI256 int nat nat nat
  | SvBytes "nat list"
  | SvSymbol string
  | SvVec "scval list option"
  | SvMap "(scval \<times> scval) list option"
  | SvAddress sc_address
  | SvOther

datatype chain_error =
    UnexpectedScVal
  | XdrError
  | AddressInvalid
  | KeyTooLong
  | TooManyEntries
  | MissingTopic
  | MissingField string
  | NotInFieldError
  | KeyLengthError
  | IndexOutOfRange
  | UnhandledEvent string
  | ProofSize nat

record xdr_host =
  from_xdr_base64 :: "string \<Rightarrow> scval option"
  scval_to_xdr :: "scval \<Rightarrow> nat list option"
  symbol_to_utf8 :: "string \<Rightarrow> string option"
  strkey_account :: "nat list \<Rightarrow> string"
  strkey_contract :: "nat list \<Rightarrow> string"
  parse_address :: "string \<Rightarrow> sc_address option"
  keccak_256 :: "nat list \<Rightarrow> nat list"

section \<open>Values\<close>

definition scval_to_address_string :: "xdr_host \<Rightarrow> scval \<Rightarrow> (chain_error, string) result" where
  "scval_to_address_string env val =
     (case val of
        SvAddress (AccountAddress bs) \<Rightarrow> Inr (strkey_account env bs)
      | SvAddress (ContractAddress bs) \<Rightarrow> Inr (strkey_contract env bs)
      | _ \<Rightarrow> Inl (Err UnexpectedScVal))"

definition scval_to_bytes :: "scval \<Rightarrow> (chain_error, nat list) result" where
  "scval_to_bytes val = (case val of SvBytes bs \<Rightarrow> Inr bs | _ \<Rightarrow> Inl (Err UnexpectedScVal))"

definition field_to_scval_u256 :: "field_element \<Rightarrow> scval" where
  "field_to_scval_u256 v =
     (let be = field_to_be_bytes v in
      SvU256 (be_value (take 8 be)) (be_value (take 8 (drop 8 be)))
        (be_value (take 8 (drop 16 be))) (be_value (take 8 (drop 24 be))))"

text \<open>The bytes of a signed integer are those of its two's complement.\<close>

definition i128_to_i256_scval :: "int \<Rightarrow> scval" where
  "i128_to_i256_scval n =
     (let hi = (if n < 0 then - 1 else 0);
          hi_lo = nat (hi mod 2 ^ 64);
          bytes = be_digits 16 (nat (n mod 2 ^ 128))
      in SvI256 hi hi_lo (be_value (take 8 bytes)) (be_value (take 8 (drop 8 bytes))))"

definition bytes_to_scval :: "nat list \<Rightarrow> (chain_error, scval) result" where
  "bytes_to_scval bs = (if fits 32 (length bs) then Inr (SvBytes bs) else Inl (Err UnexpectedScVal))"

definition u256_shl :: "u256 \<Rightarrow> nat \<Rightarrow> u256" where
  "u256_shl v n = push_bit n v"

definition scval_to_u256 :: "scval \<Rightarrow> (chain_error, u256) result" where
  "scval_to_u256 val =
     (case val of
        SvU256 hi_hi hi_lo lo_hi lo_lo \<Rightarrow>
          (let out0 = u256_shl (word_of_nat hi_hi) 192 in
           and_then (ok_or (u256_checked_add out0 (u256_shl (word_of_nat hi_lo) 128)) UnexpectedScVal) (\<lambda>out1.
           and_then (ok_or (u256_checked_add out1 (u256_shl (word_of_nat lo_hi) 64)) UnexpectedScVal) (\<lambda>out2.
             ok_or (u256_checked_add out2 (word_of_nat lo_lo)) UnexpectedScVal)))
      | _ \<Rightarrow> Inl (Err UnexpectedScVal))"

definition scval_to_u32 :: "scval \<Rightarrow> (chain_error, nat) result" where
  "scval_to_u32 val = (case val of SvU32 n \<Rightarrow> Inr n | _ \<Rightarrow> Inl (Err UnexpectedScVal))"

definition scval_to_u64 :: "scval \<Rightarrow> (chain_error, nat) result" where
  "scval_to_u64 val = (case val of SvU64 n \<Rightarrow> Inr n | _ \<Rightarrow> Inl (Err UnexpectedScVal))"

definition scval_to_bool :: "scval \<Rightarrow> (chain_error, bool) result" where
  "scval_to_bool val = (case val of SvBool b \<Rightarrow> Inr b | _ \<Rightarrow> Inl (Err UnexpectedScVal))"

section \<open>Maps with sorted keys\<close>

text \<open>\<open>str::cmp\<close> is bytewise; \<open>sort_by\<close> is stable. A symbol has at most 32 bytes.\<close>

fun string_le :: "string \<Rightarrow> string \<Rightarrow> bool" where
  "string_le [] t = True"
| "string_le (a # s) [] = False"
| "string_le (a # s) (b # t) \<longleftrightarrow>
     (of_char a :: nat) < of_char b \<or> a = b \<and> string_le s t"

fun insert_by :: "('a \<Rightarrow> 'a \<Rightarrow> bool) \<Rightarrow> 'a \<Rightarrow> 'a list \<Rightarrow> 'a list" where
  "insert_by le x [] = [x]"
| "insert_by le x (y # ys) = (if le x y then x # y # ys else y # insert_by le x ys)"

definition sort_by :: "('a \<Rightarrow> 'a \<Rightarrow> bool) \<Rightarrow> 'a list \<Rightarrow> 'a list" where
  "sort_by le xs = foldr (insert_by le) xs []"

definition map_entry :: "string \<Rightarrow> scval \<Rightarrow> (chain_error, scval \<times> scval) result" where
  "map_entry key val = (if length key \<le> 32 then Inr (SvSymbol key, val) else Inl (Err KeyTooLong))"

definition entry_le :: "scval \<times> scval \<Rightarrow> scval \<times> scval \<Rightarrow> bool" where
  "entry_le a b = (case (fst a, fst b) of (SvSymbol s, SvSymbol t) \<Rightarrow> string_le s t | _ \<Rightarrow> True)"

definition sorted_map :: "(scval \<times> scval) list \<Rightarrow> (chain_error, scval) result" where
  "sorted_map entries =
     (if fits 32 (length entries) then Inr (SvMap (Some (sort_by entry_le entries)))
      else Inl (Err TooManyEntries))"

section \<open>Arguments of contract calls\<close>

definition BASE_FEE :: nat where
  "BASE_FEE = 100"

definition groth16_proof_to_scval :: "nat list \<Rightarrow> (chain_error, scval) result" where
  "groth16_proof_to_scval proof_uncompressed =
     and_then (ensure (length proof_uncompressed = 256) (ProofSize (length proof_uncompressed))) (\<lambda>_.
     and_then (and_then (bytes_to_scval (take 64 proof_uncompressed)) (map_entry ''a'')) (\<lambda>a.
     and_then (and_then (bytes_to_scval (take 128 (drop 64 proof_uncompressed))) (map_entry ''b'')) (\<lambda>b.
     and_then (and_then (bytes_to_scval (take 64 (drop 192 proof_uncompressed))) (map_entry ''c'')) (\<lambda>c.
       sorted_map [a, b, c]))))"

definition pool_proof_to_scval ::
  "nat list \<Rightarrow> field_element \<Rightarrow> field_element list \<Rightarrow> field_element \<Rightarrow> field_element \<Rightarrow> field_element
     \<Rightarrow> nat list \<Rightarrow> field_element \<Rightarrow> field_element \<Rightarrow> (chain_error, scval) result" where
  "pool_proof_to_scval proof_uncompressed root input_nullifiers output_commitment0 output_commitment1
     public_amount ext_data_hash_be asp_membership_root asp_non_membership_root =
     and_then (ensure (fits 32 (length input_nullifiers)) TooManyEntries) (\<lambda>_.
     let nullifiers = map field_to_scval_u256 input_nullifiers in
     and_then (map_entry ''asp_membership_root'' (field_to_scval_u256 asp_membership_root)) (\<lambda>e1.
     and_then (map_entry ''asp_non_membership_root'' (field_to_scval_u256 asp_non_membership_root)) (\<lambda>e2.
     and_then (and_then (bytes_to_scval ext_data_hash_be) (map_entry ''ext_data_hash'')) (\<lambda>e3.
     and_then (map_entry ''input_nullifiers'' (SvVec (Some nullifiers))) (\<lambda>e4.
     and_then (map_entry ''output_commitment0'' (field_to_scval_u256 output_commitment0)) (\<lambda>e5.
     and_then (map_entry ''output_commitment1'' (field_to_scval_u256 output_commitment1)) (\<lambda>e6.
     and_then (and_then (groth16_proof_to_scval proof_uncompressed) (map_entry ''proof'')) (\<lambda>e7.
     and_then (map_entry ''public_amount'' (field_to_scval_u256 public_amount)) (\<lambda>e8.
     and_then (map_entry ''root'' (field_to_scval_u256 root)) (\<lambda>e9.
       sorted_map [e1, e2, e3, e4, e5, e6, e7, e8, e9]))))))))))"

definition address_scval :: "xdr_host \<Rightarrow> string \<Rightarrow> (chain_error, scval) result" where
  "address_scval env s = and_then (ok_or (parse_address env s) AddressInvalid) (\<lambda>a. Inr (SvAddress a))"

definition pool_ext_data_to_scval :: "xdr_host \<Rightarrow> app_ext_data \<Rightarrow> (chain_error, scval) result" where
  "pool_ext_data_to_scval env ext =
     and_then (and_then (bytes_to_scval (ed_encrypted_output0 ext)) (map_entry ''encrypted_output0'')) (\<lambda>e1.
     and_then (and_then (bytes_to_scval (ed_encrypted_output1 ext)) (map_entry ''encrypted_output1'')) (\<lambda>e2.
     and_then (map_entry ''ext_amount'' (i128_to_i256_scval (sint (ext_value (ed_ext_amount ext))))) (\<lambda>e3.
     and_then (and_then (address_scval env (ed_recipient ext)) (map_entry ''recipient'')) (\<lambda>e4.
       sorted_map [e1, e2, e3, e4]))))"

definition register_account_to_scval ::
  "xdr_host \<Rightarrow> string \<Rightarrow> nat list \<Rightarrow> nat list \<Rightarrow> (chain_error, scval) result" where
  "register_account_to_scval env owner encryption_key note_key =
     and_then (and_then (bytes_to_scval encryption_key) (map_entry ''encryption_key'')) (\<lambda>e1.
     and_then (and_then (bytes_to_scval note_key) (map_entry ''note_key'')) (\<lambda>e2.
     and_then (and_then (address_scval env owner) (map_entry ''owner'')) (\<lambda>e3.
       sorted_map [e1, e2, e3])))"

section \<open>The hash of the external data\<close>

definition named_le :: "string \<times> scval \<Rightarrow> string \<times> scval \<Rightarrow> bool" where
  "named_le a b = string_le (fst a) (fst b)"

definition bytes_m :: "nat list \<Rightarrow> (chain_error, scval) result" where
  "bytes_m bs = (if fits 32 (length bs) then Inr (SvBytes bs) else Inl (Err XdrError))"

definition push_map_entry ::
  "string \<times> scval \<Rightarrow> (scval \<times> scval) list \<Rightarrow> (chain_error, (scval \<times> scval) list) result" where
  "push_map_entry kv out =
     and_then (ensure (length (fst kv) \<le> 32) KeyTooLong) (\<lambda>_. Inr (out @ [(SvSymbol (fst kv), snd kv)]))"

definition hash_ext_data_offchain :: "xdr_host \<Rightarrow> app_ext_data \<Rightarrow> (chain_error, nat list) result" where
  "hash_ext_data_offchain env ext =
     and_then (bytes_m (ed_encrypted_output0 ext)) (\<lambda>out0.
     and_then (bytes_m (ed_encrypted_output1 ext)) (\<lambda>out1.
     and_then (address_scval env (ed_recipient ext)) (\<lambda>to.
     let entries = [(''encrypted_output0'', out0), (''encrypted_output1'', out1),
           (''ext_amount'', i128_to_i256_scval (sint (ext_value (ed_ext_amount ext)))), (''recipient'', to)] in
     and_then (fold_result push_map_entry (sort_by named_le entries) []) (\<lambda>map_entries.
     and_then (ensure (fits 32 (length map_entries)) TooManyEntries) (\<lambda>_.
     and_then (ok_or (scval_to_xdr env (SvMap (Some map_entries))) XdrError) (\<lambda>payload.
     let digest_u256 = from_be_bytes (keccak_256 env payload);
         reduced = digest_u256 mod from_be_bytes BN254_MODULUS_BE
     in Inr (to_be_bytes reduced)))))))"

section \<open>Event metadata\<close>

record contract_event =
  ce_id :: string
  ce_ledger :: nat
  ce_contract_id :: string
  ce_topics :: "string list"
  ce_value :: string

record parsed_contract_event =
  pe_id :: string
  pe_ledger :: nat
  pe_contract_id :: string
  pe_name :: string
  pe_topics :: "scval list"
  pe_values :: "string \<rightharpoonup> scval"

definition event_field ::
  "xdr_host \<Rightarrow> scval \<times> scval \<Rightarrow> (string \<rightharpoonup> scval) \<Rightarrow> (chain_error, string \<rightharpoonup> scval) result" where
  "event_field env kv seen =
     (case fst kv of
        SvSymbol s \<Rightarrow> and_then (ok_or (symbol_to_utf8 env s) XdrError) (\<lambda>name. Inr (seen(name \<mapsto> snd kv)))
      | _ \<Rightarrow> Inl (Err UnexpectedScVal))"

definition push_topic :: "xdr_host \<Rightarrow> string \<Rightarrow> scval list \<Rightarrow> (chain_error, scval list) result" where
  "push_topic env s out = and_then (ok_or (from_xdr_base64 env s) XdrError) (\<lambda>v. Inr (out @ [v]))"

definition parse_event_metadata ::
  "xdr_host \<Rightarrow> contract_event \<Rightarrow> (chain_error, parsed_contract_event) result" where
  "parse_event_metadata env event =
     and_then (ok_or (nth_opt (ce_topics event) 0) XdrError) (\<lambda>first.
     and_then (fold_result (push_topic env) (drop 1 (ce_topics event)) []) (\<lambda>topics.
     and_then (ok_or (from_xdr_base64 env first) XdrError) (\<lambda>head.
     and_then (case head of
          SvSymbol s \<Rightarrow> ok_or (symbol_to_utf8 env s) XdrError
        | _ \<Rightarrow> Inl (Err UnexpectedScVal)) (\<lambda>name.
     and_then (ok_or (from_xdr_base64 env (ce_value event)) XdrError) (\<lambda>data.
     and_then (case data of
          SvMap (Some entries) \<Rightarrow> fold_result (event_field env) entries Map.empty
        | SvVoid \<Rightarrow> Inr Map.empty
        | _ \<Rightarrow> Inl (Err UnexpectedScVal)) (\<lambda>named.
       Inr \<lparr>pe_id = ce_id event, pe_ledger = ce_ledger event, pe_contract_id = ce_contract_id event,
            pe_name = name, pe_topics = topics, pe_values = named\<rparr>))))))"

section \<open>Events\<close>

datatype processed_event =
    Nullifier string field_element
  | Commitment string field_element nat "nat list"
  | PublicKey string string "nat list" "nat list"
  | AspLeafAdded string field_element nat field_element
  | SmtLeafInserted string field_element field_element field_element
  | SmtLeafUpdated string field_element field_element field_element field_element
  | SmtLeafDeleted string field_element field_element

definition event_value :: "parsed_contract_event \<Rightarrow> string \<Rightarrow> (chain_error, scval) result" where
  "event_value parsed name = ok_or (pe_values parsed name) (MissingField name)"

definition first_topic :: "parsed_contract_event \<Rightarrow> (chain_error, scval) result" where
  "first_topic parsed = ok_or (nth_opt (pe_topics parsed) 0) MissingTopic"

definition scval_to_field :: "scval \<Rightarrow> (chain_error, field_element) result" where
  "scval_to_field v = and_then (scval_to_u256 v) (\<lambda>u. ok_or (try_from_u256 u) NotInFieldError)"

definition key_bytes :: "scval \<Rightarrow> (chain_error, nat list) result" where
  "key_bytes v = and_then (scval_to_bytes v) (\<lambda>bs. and_then (ensure (length bs = 32) KeyLengthError) (\<lambda>_. Inr bs))"

definition parse_new_nullifier_event :: "parsed_contract_event \<Rightarrow> (chain_error, processed_event) result" where
  "parse_new_nullifier_event parsed =
     and_then (first_topic parsed) (\<lambda>nullifier_scval.
     and_then (scval_to_field nullifier_scval) (\<lambda>nullifier. Inr (Nullifier (pe_id parsed) nullifier)))"

definition parse_new_commitment_event :: "parsed_contract_event \<Rightarrow> (chain_error, processed_event) result" where
  "parse_new_commitment_event parsed =
     and_then (first_topic parsed) (\<lambda>commitment_scval.
     and_then (scval_to_field commitment_scval) (\<lambda>commitment.
     and_then (event_value parsed ''index'') (\<lambda>index_scval.
     and_then (scval_to_u32 index_scval) (\<lambda>index.
     and_then (event_value parsed ''encrypted_output'') (\<lambda>encrypted_output_scval.
     and_then (scval_to_bytes encrypted_output_scval) (\<lambda>encrypted_output.
       Inr (Commitment (pe_id parsed) commitment index encrypted_output)))))))"

definition parse_public_key_event ::
  "xdr_host \<Rightarrow> parsed_contract_event \<Rightarrow> (chain_error, processed_event) result" where
  "parse_public_key_event env parsed =
     and_then (first_topic parsed) (\<lambda>owner_scval.
     and_then (scval_to_address_string env owner_scval) (\<lambda>owner.
     and_then (event_value parsed ''encryption_key'') (\<lambda>encryption_key_scval.
     and_then (key_bytes encryption_key_scval) (\<lambda>encryption_key.
     and_then (event_value parsed ''note_key'') (\<lambda>note_key_scval.
     and_then (key_bytes note_key_scval) (\<lambda>note_key.
       Inr (PublicKey (pe_id parsed) owner encryption_key note_key)))))))"

definition parse_leaf_added :: "parsed_contract_event \<Rightarrow> (chain_error, processed_event) result" where
  "parse_leaf_added parsed =
     and_then (event_value parsed ''leaf'') (\<lambda>leaf_scval.
     and_then (scval_to_field leaf_scval) (\<lambda>leaf.
     and_then (event_value parsed ''index'') (\<lambda>index_scval.
     and_then (and_then (scval_to_u64 index_scval) (\<lambda>n. and_then (ensure (fits 32 n) IndexOutOfRange) (\<lambda>_. Inr n)))
       (\<lambda>index.
     and_then (event_value parsed ''root'') (\<lambda>root_scval.
     and_then (scval_to_field root_scval) (\<lambda>root.
       Inr (AspLeafAdded (pe_id parsed) leaf index root)))))))"

definition parse_leaf_inserted :: "parsed_contract_event \<Rightarrow> (chain_error, processed_event) result" where
  "parse_leaf_inserted parsed =
     and_then (event_value parsed ''key'') (\<lambda>key_scval.
     and_then (scval_to_field key_scval) (\<lambda>key.
     and_then (event_value parsed ''value'') (\<lambda>value_scval.
     and_then (scval_to_field value_scval) (\<lambda>val.
     and_then (event_value parsed ''root'') (\<lambda>root_scval.
     and_then (scval_to_field root_scval) (\<lambda>root.
       Inr (SmtLeafInserted (pe_id parsed) key val root)))))))"

definition parse_leaf_updated :: "parsed_contract_event \<Rightarrow> (chain_error, processed_event) result" where
  "parse_leaf_updated parsed =
     and_then (event_value parsed ''key'') (\<lambda>key_scval.
     and_then (scval_to_field key_scval) (\<lambda>key.
     and_then (event_value parsed ''old_value'') (\<lambda>old_value_scval.
     and_then (scval_to_field old_value_scval) (\<lambda>old_value.
     and_then (event_value parsed ''new_value'') (\<lambda>new_value_scval.
     and_then (scval_to_field new_value_scval) (\<lambda>new_value.
     and_then (event_value parsed ''root'') (\<lambda>root_scval.
     and_then (scval_to_field root_scval) (\<lambda>root.
       Inr (SmtLeafUpdated (pe_id parsed) key old_value new_value root)))))))))"

definition parse_leaf_deleted :: "parsed_contract_event \<Rightarrow> (chain_error, processed_event) result" where
  "parse_leaf_deleted parsed =
     and_then (event_value parsed ''key'') (\<lambda>key_scval.
     and_then (scval_to_field key_scval) (\<lambda>key.
     and_then (event_value parsed ''root'') (\<lambda>root_scval.
     and_then (scval_to_field root_scval) (\<lambda>root.
       Inr (SmtLeafDeleted (pe_id parsed) key root)))))"

definition parse_event :: "xdr_host \<Rightarrow> contract_event \<Rightarrow> (chain_error, processed_event) result" where
  "parse_event env event =
     and_then (parse_event_metadata env event) (\<lambda>parsed.
       if pe_name parsed \<in> {''new_nullifier_event'', ''NewNullifierEvent''} then parse_new_nullifier_event parsed
       else if pe_name parsed \<in> {''new_commitment_event'', ''NewCommitmentEvent''} then parse_new_commitment_event parsed
       else if pe_name parsed \<in> {''public_key_event'', ''PublicKeyEvent''} then parse_public_key_event env parsed
       else if pe_name parsed \<in> {''leaf_added'', ''LeafAdded''} then parse_leaf_added parsed
       else if pe_name parsed \<in> {''leaf_inserted'', ''LeafInserted''} then parse_leaf_inserted parsed
       else if pe_name parsed \<in> {''leaf_updated'', ''LeafUpdated''} then parse_leaf_updated parsed
       else if pe_name parsed \<in> {''leaf_deleted'', ''LeafDeleted''} then parse_leaf_deleted parsed
       else Inl (Err (UnhandledEvent (pe_name parsed))))"

end
