(* ===== verification/ChainValues.thy ===== *)
theory ChainValues
  imports ChainCodec HostInt
begin

text \<open>
  Integers in the chain's data format. The application builds and reads the four 64-bit limbs of a
  256-bit value byte by byte and shift by shift; here this is shown to be the host's encoding, for
  field elements, for \<open>U256\<close> values read back, and for signed amounts.
\<close>

section \<open>Limbs\<close>

definition limb :: nat where
  "limb = 2 ^ 64"

definition limbs :: "nat \<Rightarrow> nat \<times> nat \<times> nat \<times> nat" where
  "limbs n = (n div limb div limb div limb, n div limb div limb mod limb, n div limb mod limb, n mod limb)"

lemma limb_powers: "256 ^ 8 = limb" "256 ^ 16 = limb * limb" "256 ^ 24 = limb * limb * limb"
  "limb * limb * limb * limb = 2 ^ 256"
  by (simp_all add: limb_def)

lemma limbs_value:
  "limbs n = (a, b, c, d) \<Longrightarrow> ((a * limb + b) * limb + c) * limb + d = n"
  by (auto simp: limbs_def)

lemma limbs_less:
  assumes "limbs n = (a, b, c, d)" and "n < 2 ^ 256"
  shows "a < limb \<and> b < limb \<and> c < limb \<and> d < limb"
proof -
  have "0 < limb" by (simp add: limb_def)
  moreover have "n div (limb * limb * limb) < limb"
    using assms(2) unfolding limb_powers(4) [symmetric]
    by (intro less_mult_imp_div_less) (simp only: ac_simps)
  ultimately show ?thesis using assms(1) by (auto simp: limbs_def div_mult2_eq)
qed

text \<open>The host's encoding of 256-bit integers: four limbs of 64 bits, the first of them signed for \<open>I256\<close>.\<close>

definition u256_scval :: "u256 \<Rightarrow> scval" where
  "u256_scval v = (case limbs (unat v) of (a, b, c, d) \<Rightarrow> SvU256 a b c d)"

definition i256_scval :: "i256 \<Rightarrow> scval" where
  "i256_scval v = (case limbs (unat v) of (a, b, c, d) \<Rightarrow> SvI256 (sint v div 2 ^ 192) b c d)"

lemma be_value_append: "be_value (xs @ ys) = be_value xs * 256 ^ length ys + be_value ys"
  by (induction xs) (simp_all add: algebra_simps power_add)

lemma be_value_take:
  assumes "is_bytes bs"
  shows "be_value (take k bs) = be_value bs div 256 ^ (length bs - k)"
proof -
  have "be_value bs = be_value (take k bs) * 256 ^ length (drop k bs) + be_value (drop k bs)"
    by (metis append_take_drop_id be_value_append)
  moreover have "be_value (drop k bs) < 256 ^ length (drop k bs)"
    using assms by (intro be_value_less) (auto simp: is_bytes_def dest: in_set_dropD)
  ultimately show ?thesis by simp
qed

lemma be_value_drop:
  assumes "is_bytes bs"
  shows "be_value (drop k bs) = be_value bs mod 256 ^ (length bs - k)"
proof -
  have "be_value bs = be_value (take k bs) * 256 ^ length (drop k bs) + be_value (drop k bs)"
    by (metis append_take_drop_id be_value_append)
  moreover have "be_value (drop k bs) < 256 ^ length (drop k bs)"
    using assms by (intro be_value_less) (auto simp: is_bytes_def dest: in_set_dropD)
  ultimately show ?thesis by simp
qed

lemma is_bytes_drop: "is_bytes bs \<Longrightarrow> is_bytes (drop k bs)"
  by (auto simp: is_bytes_def dest: in_set_dropD)

lemma mod_limb_div: "n mod (m * k) div k = n div k mod m" for n m k :: nat
    by (metis mult.commute mod_mult2_eq add.commute div_mult_self4 div_mod_decomp mod_less_divisor
        add_cancel_right_left bits_mod_div_trivial div_mult_self2 gr_zeroI mult_0 div_by_0 mod_0)

lemma be_chunk:
  assumes "is_bytes bs" and "length bs = 32"
  shows "be_value (take 8 bs) = be_value bs div limb div limb div limb"
    and "be_value (take 8 (drop 8 bs)) = be_value bs div limb div limb mod limb"
    and "be_value (take 8 (drop 16 bs)) = be_value bs div limb mod limb"
    and "be_value (take 8 (drop 24 bs)) = be_value bs mod limb"
proof -
  have "be_value (take 8 bs) = be_value bs div 256 ^ 24"
    using be_value_take [OF assms(1), of 8] assms by simp
  then show "be_value (take 8 bs) = be_value bs div limb div limb div limb"
    unfolding limb_powers by (simp only: div_mult2_eq)
  have "be_value (take 8 (drop 8 bs)) = be_value bs mod 256 ^ 24 div 256 ^ 16"
    using be_value_take [OF is_bytes_drop [OF assms(1)], of 8 8] be_value_drop [OF assms(1), of 8] assms by simp
  also have "(256::nat) ^ 24 = limb * 256 ^ 16" unfolding limb_powers by (simp only: ac_simps)
  finally show "be_value (take 8 (drop 8 bs)) = be_value bs div limb div limb mod limb"
    unfolding mod_limb_div limb_powers by (simp only: div_mult2_eq)
  have "be_value (take 8 (drop 16 bs)) = be_value bs mod 256 ^ 16 div 256 ^ 8"
    using be_value_take [OF is_bytes_drop [OF assms(1)], of 8 16] be_value_drop [OF assms(1), of 16] assms by simp
  also have "(256::nat) ^ 16 = limb * 256 ^ 8" unfolding limb_powers ..
  finally show "be_value (take 8 (drop 16 bs)) = be_value bs div limb mod limb"
    unfolding mod_limb_div limb_powers .
  have "be_value (take 8 (drop 24 bs)) = be_value bs mod 256 ^ 8"
    using be_value_drop [OF assms(1), of 24] assms by simp
  then show "be_value (take 8 (drop 24 bs)) = be_value bs mod limb" unfolding limb_powers .
qed

lemma field_to_scval: "field_to_scval_u256 f = u256_scval (field_value f)"
proof -
  let ?n = "unat (field_value f)" and ?bs = "field_to_be_bytes f"
  have bs: "is_bytes ?bs" "length ?bs = 32" "be_value ?bs = ?n"
    using be_value_be_digits [OF unat_less_256_32 [of "field_value f"]]
    by (simp_all add: field_to_be_bytes_def to_be_bytes_def)
  show ?thesis
    by (simp only: field_to_scval_u256_def u256_scval_def limbs_def Let_def prod.case be_chunk [OF bs(1,2)] bs(3))
qed

lemma shifted_limb:
  assumes "x < limb" and "limb * 2 ^ k \<le> 2 ^ 256"
  shows "unat (u256_shl (word_of_nat x) k) = x * 2 ^ k"
proof -
  have "x * 2 ^ k < limb * 2 ^ k" using assms by simp
  with assms have *: "x * 2 ^ k < 2 ^ 256" by linarith
  have "u256_shl (word_of_nat x) k = word_of_nat (x * 2 ^ k)"
    by (simp add: u256_shl_def push_bit_eq_mult)
  also have "unat \<dots> = x * 2 ^ k"
    using * by (simp only: unat_of_nat len_num0 len_bit0 len_bit1 len_num1) simp
  finally show ?thesis .
qed

lemma checked_sum:
  "unat v + unat w < 2 ^ 256 \<Longrightarrow> u256_checked_add v w = Some (v + w) \<and> unat (v + w) = unat v + unat w"
  by (simp add: u256_checked_add_def unat_word_ariths(1))

lemma scval_u256: "scval_to_u256 (u256_scval v) = Inr v"
proof -
  obtain a b c d where l: "limbs (unat v) = (a, b, c, d)" by (metis prod_cases4)
  note less = limbs_less [OF l unat_u256_less] and v = limbs_value [OF l]
  let ?w = "\<lambda>x k. u256_shl (word_of_nat x) k"
  have p: "limb * 2 ^ 192 \<le> 2 ^ 256" "limb * 2 ^ 128 \<le> 2 ^ 256" "limb * 2 ^ 64 \<le> 2 ^ 256" "limb * 2 ^ 0 \<le> 2 ^ 256"
    by (simp_all add: limb_def)
  have pw: "(2::nat) ^ 192 = limb * limb * limb" "(2::nat) ^ 128 = limb * limb" "(2::nat) ^ 64 = limb"
    by (simp_all add: limb_def)
  have ua: "unat (?w a 192) = a * (limb * limb * limb)" and ub: "unat (?w b 128) = b * (limb * limb)"
    and uc: "unat (?w c 64) = c * limb"
    using less shifted_limb [OF _ p(1), of a] shifted_limb [OF _ p(2), of b] shifted_limb [OF _ p(3), of c]
    unfolding pw by simp_all
  have ud: "unat (word_of_nat d :: u256) = d"
    using less shifted_limb [OF _ p(4), of d] by (simp add: u256_shl_def)
  have sum: "a * (limb * limb * limb) + b * (limb * limb) + c * limb + d = unat v"
    using v by (simp add: algebra_simps)
  then have bound: "a * (limb * limb * limb) + b * (limb * limb) + c * limb + d < 2 ^ 256"
    using unat_u256_less [of v] by simp
  have s1: "u256_checked_add (?w a 192) (?w b 128) = Some (?w a 192 + ?w b 128)"
    "unat (?w a 192 + ?w b 128) = a * (limb * limb * limb) + b * (limb * limb)"
    using checked_sum [of "?w a 192" "?w b 128"] bound by (simp_all only: ua ub)
  have s2: "u256_checked_add (?w a 192 + ?w b 128) (?w c 64) = Some (?w a 192 + ?w b 128 + ?w c 64)"
    "unat (?w a 192 + ?w b 128 + ?w c 64) = a * (limb * limb * limb) + b * (limb * limb) + c * limb"
    using checked_sum [of "?w a 192 + ?w b 128" "?w c 64"] bound by (simp_all only: s1 uc)
  have s3: "u256_checked_add (?w a 192 + ?w b 128 + ?w c 64) (word_of_nat d) = Some v"
    using checked_sum [of "?w a 192 + ?w b 128 + ?w c 64" "word_of_nat d"] bound sum
    by (metis s2(2) ud unsigned_word_eqI)
  show ?thesis
    by (simp only: u256_scval_def l prod.case scval_to_u256_def scval.case Let_def s1(1) s2(1) s3
        ok_or_simps and_then_simps)
qed

lemma scval_field: "canonical v \<Longrightarrow> scval_to_field (u256_scval v) = Inr (Field v)"
  by (simp add: scval_to_field_def scval_u256 try_from_u256_Some [THEN iffD2])

section \<open>Signed amounts\<close>

lemma be16:
  assumes "m < limb * limb"
  shows "be_value (take 8 (be_digits 16 m)) = m div limb"
    and "be_value (take 8 (drop 8 (be_digits 16 m))) = m mod limb"
proof -
  have v: "be_value (be_digits 16 m) = m"
    using assms unfolding limb_powers(2) [symmetric] by (rule be_value_be_digits)
  have "be_value (take 8 (be_digits 16 m)) = m div 256 ^ 8"
    using be_value_take [of "be_digits 16 m" 8] v by simp
  then show "be_value (take 8 (be_digits 16 m)) = m div limb" unfolding limb_powers .
  have "be_value (take 8 (drop 8 (be_digits 16 m))) = m mod 256 ^ 8"
    using be_value_drop [of "be_digits 16 m" 8] v by simp
  then show "be_value (take 8 (drop 8 (be_digits 16 m))) = m mod limb" unfolding limb_powers .
qed

lemma i128_scval:
  assumes "sint v = n" and "- (2 ^ 127) \<le> n" and "n < 2 ^ 127"
  shows "i128_to_i256_scval n = i256_scval v"
proof -
  have v: "unat v = nat (n mod 2 ^ 256)"
    using assms(1) uint_sint [of v] by (simp add: take_bit_eq_mod flip: nat_uint_eq)
  have m: "nat (n mod 2 ^ 128) = unat v mod (limb * limb)"
  proof -
    have "n mod 2 ^ 256 mod 2 ^ 128 = n mod 2 ^ 128" by (simp add: mod_mod_cancel)
    moreover have "nat (n mod 2 ^ 256) mod nat (2 ^ 128) = nat (n mod 2 ^ 256 mod 2 ^ 128)"
      by (rule nat_mod_distrib [symmetric]) simp_all
    ultimately show ?thesis unfolding v limb_def by simp
  qed
  have less: "unat v mod (limb * limb) < limb * limb" by (simp add: limb_def)
  have c: "unat v mod (limb * limb) div limb = unat v div limb mod limb" by (rule mod_limb_div)
  have d: "unat v mod (limb * limb) mod limb = unat v mod limb" by (simp add: mod_mod_cancel)
  have hi: "(if n < 0 then - 1 else 0) = n div 2 ^ 192"
    using assms int_div_pos_eq [of n "2 ^ 192" "- 1" "n + 2 ^ 192"] by auto
  have b: "nat ((if n < 0 then - 1 else 0) mod 2 ^ 64) = unat v div limb div limb mod limb"
  proof (cases "n < 0")
    case True
    have m: "n mod 2 ^ 256 = 2 ^ 256 + n"
      using assms True int_mod_pos_eq [of n "2 ^ 256" "- 1" "2 ^ 256 + n"] by simp
    have "(2 ^ 256 + n) div 2 ^ 128 = 2 ^ 128 - 1"
      using assms True int_div_pos_eq [of "2 ^ 256 + n" "2 ^ 128" "2 ^ 128 - 1" "2 ^ 128 + n"] by simp
    moreover have "nat ((2 ^ 256 + n) div 2 ^ 128) = nat (2 ^ 256 + n) div nat (2 ^ 128)"
      by (rule nat_div_distrib) (use assms in simp)
    ultimately have "unat v div (limb * limb) = 2 ^ 128 - 1" unfolding v m by (simp add: limb_def)
    then show ?thesis using True unfolding div_mult2_eq by (simp add: limb_def)
  next
    case False
    then show ?thesis using assms by (simp add: v limb_def)
  qed
  show ?thesis
    by (simp only: i128_to_i256_scval_def i256_scval_def limbs_def Let_def prod.case m be16 [OF less] c d b [unfolded hi] hi assms(1))
qed

lemma sort_by_sorted: "sorted_wrt le xs \<Longrightarrow> sort_by le xs = xs"
proof (induction xs)
  case (Cons x xs)
  then show ?case by (cases xs) (simp_all add: sort_by_def)
qed (simp add: sort_by_def)

end
