(* ===== verification/ChainFacts.thy ===== *)
theory ChainFacts
  imports ChainValues Pool AspMembership PublicKeyRegistry
begin

text \<open>
  The application and the contracts agree on the chain's data. \<open>ext_scval\<close> and \<open>proof_scval\<close> are
  the values the Soroban SDK derives for the contract's structs (a map sorted by field name), and
  the event forms are those of its \<open>#[contractevent]\<close> attribute: the name and the \<open>#[topic]\<close>
  fields are topics, the other fields a map.
\<close>

section \<open>Arguments of \<open>transact\<close>\<close>

definition ext_scval :: "sc_address \<Rightarrow> ext_data \<Rightarrow> scval" where
  "ext_scval a ext =
     SvMap (Some [(SvSymbol ''encrypted_output0'', SvBytes (map unat (encrypted_output0 ext))),
       (SvSymbol ''encrypted_output1'', SvBytes (map unat (encrypted_output1 ext))),
       (SvSymbol ''ext_amount'', i256_scval (ext_amount ext)),
       (SvSymbol ''recipient'', SvAddress a)])"

definition proof_scval :: "pool_proof \<Rightarrow> scval" where
  "proof_scval p =
     SvMap (Some [(SvSymbol ''asp_membership_root'', u256_scval (Pool.asp_membership_root p)),
       (SvSymbol ''asp_non_membership_root'', u256_scval (Pool.asp_non_membership_root p)),
       (SvSymbol ''ext_data_hash'', SvBytes (ext_data_hash p)),
       (SvSymbol ''input_nullifiers'', SvVec (Some (map u256_scval (input_nullifiers p)))),
       (SvSymbol ''output_commitment0'', u256_scval (output_commitment0 p)),
       (SvSymbol ''output_commitment1'', u256_scval (output_commitment1 p)),
       (SvSymbol ''proof'', SvMap (Some [(SvSymbol ''a'', SvBytes (map unat (proof_a (groth16 p)))),
          (SvSymbol ''b'', SvBytes (map unat (proof_b (groth16 p)))),
          (SvSymbol ''c'', SvBytes (map unat (proof_c (groth16 p))))])),
       (SvSymbol ''public_amount'', u256_scval (Pool.public_amount p)),
       (SvSymbol ''root'', u256_scval (pf_root p))])"

lemma ext_entries_sorted:
  "sorted_wrt named_le [(''encrypted_output0'', a), (''encrypted_output1'', b), (''ext_amount'', c), (''recipient'', d)]"
  "sorted_wrt entry_le [(SvSymbol ''encrypted_output0'', a), (SvSymbol ''encrypted_output1'', b),
     (SvSymbol ''ext_amount'', c), (SvSymbol ''recipient'', d)]"
  by (simp_all add: named_le_def entry_le_def)

lemma proof_entries_sorted:
  "sorted_wrt entry_le [(SvSymbol ''asp_membership_root'', e1), (SvSymbol ''asp_non_membership_root'', e2),
     (SvSymbol ''ext_data_hash'', e3), (SvSymbol ''input_nullifiers'', e4), (SvSymbol ''output_commitment0'', e5),
     (SvSymbol ''output_commitment1'', e6), (SvSymbol ''proof'', e7), (SvSymbol ''public_amount'', e8), (SvSymbol ''root'', e9)]"
  "sorted_wrt entry_le [(SvSymbol ''a'', e1), (SvSymbol ''b'', e2), (SvSymbol ''c'', e3)]"
  by (simp_all add: entry_le_def)

definition contract_ext :: "app_ext_data \<Rightarrow> ext_data" where
  "contract_ext app = \<lparr>recipient = ed_recipient app, ext_amount = scast (ext_value (ed_ext_amount app)),
     encrypted_output0 = map word_of_nat (ed_encrypted_output0 app),
     encrypted_output1 = map word_of_nat (ed_encrypted_output1 app)\<rparr>"

definition submitted_proof ::
  "nat list \<Rightarrow> field_element \<Rightarrow> field_element list \<Rightarrow> field_element \<Rightarrow> field_element \<Rightarrow> field_element
     \<Rightarrow> nat list \<Rightarrow> field_element \<Rightarrow> field_element \<Rightarrow> pool_proof" where
  "submitted_proof proof root nulls c0 c1 pa h am anm =
     \<lparr>groth16 = \<lparr>proof_a = map word_of_nat (take 64 proof), proof_b = map word_of_nat (take 128 (drop 64 proof)),
        proof_c = map word_of_nat (take 64 (drop 192 proof))\<rparr>,
      pf_root = field_value root, input_nullifiers = map field_value nulls,
      output_commitment0 = field_value c0, output_commitment1 = field_value c1,
      public_amount = field_value pa, ext_data_hash = h, asp_membership_root = field_value am,
      asp_non_membership_root = field_value anm\<rparr>"

lemma bytes_back: "is_bytes bs \<Longrightarrow> map (unat \<circ> (word_of_nat :: nat \<Rightarrow> byte)) bs = bs"
  by (rule map_idI) (auto simp: is_bytes_def unat_of_nat)

lemma entry_ok: "length k \<le> 32 \<Longrightarrow> map_entry k v = Inr (SvSymbol k, v)"
  by (simp add: map_entry_def)

lemma sorted_entries:
  "sorted_wrt entry_le es \<Longrightarrow> length es < 2 ^ 32 \<Longrightarrow> sorted_map es = Inr (SvMap (Some es))"
  by (simp add: sorted_map_def fits_def sort_by_sorted)

lemma scast_amount: "i128_to_i256_scval (sint (a :: i128)) = i256_scval (scast a)"
proof (rule i128_scval)
  show "- (2 ^ 127) \<le> sint a" "sint a < 2 ^ 127"
    using sint_ge [of a] sint_lt [of a] by simp_all
  show "sint (scast a :: i256) = sint a"
    by (simp add: sint_up_scast is_up)
qed

lemma ext_data_submitted:
  assumes "is_bytes (ed_encrypted_output0 app)" and "is_bytes (ed_encrypted_output1 app)"
    and "fits 32 (length (ed_encrypted_output0 app))" and "fits 32 (length (ed_encrypted_output1 app))"
    and "parse_address host (ed_recipient app) = Some a"
  shows "pool_ext_data_to_scval host app = Inr (ext_scval a (contract_ext app))"
  using assms
  by (simp add: pool_ext_data_to_scval_def bytes_to_scval_def entry_ok address_scval_def scast_amount
      sorted_entries [OF ext_entries_sorted(2)] ext_scval_def contract_ext_def bytes_back)

lemma hash_ext_data_agrees:
  assumes "is_bytes (ed_encrypted_output0 app)" and "is_bytes (ed_encrypted_output1 app)"
    and "fits 32 (length (ed_encrypted_output0 app))" and "fits 32 (length (ed_encrypted_output1 app))"
    and "parse_address host (ed_recipient app) = Some a"
    and "scval_to_xdr host (ext_scval a (contract_ext app)) = Some (to_xdr env (contract_ext app))"
    and "keccak_256 host = keccak256 env"
  shows "hash_ext_data_offchain host app = Inr (hash_ext_data env (contract_ext app))"
proof -
  have modulus: "from_be_bytes BN254_MODULUS_BE = bn256_modulus"
    using field_modulus_eq by (simp only: field_modulus_def)
  have payload: "scval_to_xdr host (SvMap (Some [(SvSymbol ''encrypted_output0'', SvBytes (ed_encrypted_output0 app)),
       (SvSymbol ''encrypted_output1'', SvBytes (ed_encrypted_output1 app)),
       (SvSymbol ''ext_amount'', i256_scval (scast (ext_value (ed_ext_amount app)))),
       (SvSymbol ''recipient'', SvAddress a)])) = Some (to_xdr env (contract_ext app))"
    using assms by (simp add: ext_scval_def contract_ext_def bytes_back)
  show ?thesis
    using assms(3-5,7)
    by (simp add: hash_ext_data_offchain_def bytes_m_def address_scval_def Let_def scast_amount
        sort_by_sorted [OF ext_entries_sorted(1)] push_map_entry_def payload hash_ext_data_def modulus fits_def)
qed

lemma proof_submitted:
  assumes "length proof = 256" and "is_bytes proof" and "fits 32 (length nulls)" and "fits 32 (length h)"
  shows "pool_proof_to_scval proof root nulls c0 c1 pa h am anm
    = Inr (proof_scval (submitted_proof proof root nulls c0 c1 pa h am anm))"
proof -
  have b: "is_bytes (take k proof)" "is_bytes (take k (drop j proof))" for k j
    using assms(2) by (auto simp: is_bytes_def dest: in_set_takeD in_set_dropD)
  have g: "groth16_proof_to_scval proof = Inr (SvMap (Some [(SvSymbol ''a'', SvBytes (take 64 proof)),
      (SvSymbol ''b'', SvBytes (take 128 (drop 64 proof))), (SvSymbol ''c'', SvBytes (take 64 (drop 192 proof)))]))"
    using assms(1)
    by (simp add: groth16_proof_to_scval_def bytes_to_scval_def fits_def entry_ok sorted_entries [OF proof_entries_sorted(2)])
  show ?thesis
    using assms(3,4)
    by (simp add: pool_proof_to_scval_def g bytes_to_scval_def entry_ok Let_def field_to_scval comp_def
        sorted_entries [OF proof_entries_sorted(1)] proof_scval_def submitted_proof_def
        bytes_back [unfolded comp_def] b)
qed

section \<open>Reading events\<close>

definition ascii_symbols :: "xdr_host \<Rightarrow> bool" where
  "ascii_symbols env \<longleftrightarrow> (\<forall>s. (\<forall>c\<in>set s. (of_char c :: nat) < 128) \<longrightarrow> symbol_to_utf8 env s = Some s)"

type_synonym event_form = "string \<times> scval list \<times> (string \<times> scval) list"

definition carries :: "xdr_host \<Rightarrow> contract_event \<Rightarrow> event_form \<Rightarrow> bool" where
  "carries env ce form \<longleftrightarrow>
     (case form of (name, topics, vals) \<Rightarrow>
       map (from_xdr_base64 env) (ce_topics ce) = map Some (SvSymbol name # topics)
       \<and> (from_xdr_base64 env (ce_value ce) = Some (SvMap (Some (map (\<lambda>kv. (SvSymbol (fst kv), snd kv)) vals)))
          \<or> vals = [] \<and> from_xdr_base64 env (ce_value ce) = Some SvVoid))"

fun plain_form :: "event_form \<Rightarrow> bool" where
  "plain_form (name, topics, vals) \<longleftrightarrow>
     distinct (map fst vals) \<and> (\<forall>s\<in>insert name (fst ` set vals). \<forall>c\<in>set s. (of_char c :: nat) < 128)"

lemma push_topics:
  "map (from_xdr_base64 env) ts = map Some vs \<Longrightarrow> fold_result (push_topic env) ts acc = Inr (acc @ vs)"
  by (induction ts arbitrary: vs acc) (auto simp: push_topic_def)

lemma event_fields:
  assumes "ascii_symbols env" and "\<forall>s\<in>fst ` set vals. \<forall>c\<in>set s. (of_char c :: nat) < 128"
  shows "fold_result (event_field env) (map (\<lambda>kv. (SvSymbol (fst kv), snd kv)) vals) m = Inr (m ++ map_of (rev vals))"
  using assms
  by (induction vals arbitrary: m) (auto simp: event_field_def ascii_symbols_def map_add_def fun_eq_iff split: option.split)

lemma parse_carried:
  assumes "ascii_symbols env" and "carries env ce (name, topics, vals)" and "plain_form (name, topics, vals)"
  shows "parse_event_metadata env ce = Inr \<lparr>pe_id = ce_id ce, pe_ledger = ce_ledger ce,
    pe_contract_id = ce_contract_id ce, pe_name = name, pe_topics = topics, pe_values = map_of vals\<rparr>"
proof -
  from assms(2) obtain t ts where ts: "ce_topics ce = t # ts" "from_xdr_base64 env t = Some (SvSymbol name)"
    "map (from_xdr_base64 env) ts = map Some topics"
    by (cases "ce_topics ce") (auto simp: carries_def)
  have name: "symbol_to_utf8 env name = Some name" using assms(1,3) by (auto simp: ascii_symbols_def)
  have "distinct (map fst vals)" using assms(3) by simp
  then have "map_of (rev vals) = map_of vals" by (simp add: map_of_inject_set rev_map [symmetric])
  with event_fields [OF assms(1), of vals Map.empty] assms(3)
  have vals: "fold_result (event_field env) (map (\<lambda>kv. (SvSymbol (fst kv), snd kv)) vals) Map.empty = Inr (map_of vals)"
    by simp
  from assms(2) show ?thesis
    by (auto simp: parse_event_metadata_def carries_def ts push_topics [OF ts(3)] name vals)
qed

section \<open>The contracts' events\<close>

fun pool_event_form :: "pool_event \<Rightarrow> event_form" where
  "pool_event_form (NewCommitmentEvent c i e) =
     (''new_commitment_event'', [u256_scval c], [(''encrypted_output'', SvBytes (map unat e)), (''index'', SvU32 i)])"
| "pool_event_form (NewNullifierEvent n) = (''new_nullifier_event'', [u256_scval n], [])"

fun read_pool_event :: "string \<Rightarrow> pool_event \<Rightarrow> processed_event" where
  "read_pool_event eid (NewCommitmentEvent c i e) = Commitment eid (Field c) i (map unat e)"
| "read_pool_event eid (NewNullifierEvent n) = Nullifier eid (Field n)"

fun event_canonical :: "pool_event \<Rightarrow> bool" where
  "event_canonical (NewCommitmentEvent c i e) \<longleftrightarrow> canonical c"
| "event_canonical (NewNullifierEvent n) \<longleftrightarrow> canonical n"

definition leaf_added_form :: "leaf_added_event \<Rightarrow> event_form" where
  "leaf_added_form e = (''LeafAdded'', [],
     [(''index'', SvU64 (lae_index e)), (''leaf'', u256_scval (lae_leaf e)), (''root'', u256_scval (lae_root e))])"

definition public_key_form :: "sc_address \<Rightarrow> public_key_event \<Rightarrow> event_form" where
  "public_key_form a e = (''public_key_event'', [SvAddress a],
     [(''encryption_key'', SvBytes (map unat (pke_encryption_key e))), (''note_key'', SvBytes (map unat (pke_note_key e)))])"

lemma pool_event_read:
  assumes "ascii_symbols env" and "carries env ce (pool_event_form e)" and "event_canonical e"
  shows "parse_event env ce = Inr (read_pool_event (ce_id ce) e)"
proof (cases e)
  case (NewCommitmentEvent c i b)
  with assms parse_carried [OF assms(1), of ce "''new_commitment_event''"] show ?thesis
    by (simp add: parse_event_def parse_new_commitment_event_def first_topic_def event_value_def
        scval_field scval_to_u32_def scval_to_bytes_def)
next
  case (NewNullifierEvent n)
  with assms parse_carried [OF assms(1), of ce "''new_nullifier_event''"] show ?thesis
    by (simp add: parse_event_def parse_new_nullifier_event_def first_topic_def scval_field)
qed

lemma leaf_added_read:
  assumes "ascii_symbols env" and "carries env ce (leaf_added_form e)"
    and "canonical (lae_leaf e)" "canonical (lae_root e)" "lae_index e < 2 ^ 32"
  shows "parse_event env ce = Inr (AspLeafAdded (ce_id ce) (Field (lae_leaf e)) (lae_index e) (Field (lae_root e)))"
  using assms parse_carried [OF assms(1), of ce "''LeafAdded''"]
  by (simp add: leaf_added_form_def parse_event_def parse_leaf_added_def event_value_def scval_field
      scval_to_u64_def fits_def)

lemma public_key_read:
  assumes "ascii_symbols env" and "carries env ce (public_key_form a e)"
    and "scval_to_address_string env (SvAddress a) = Inr (pke_owner e)"
    and "length (pke_encryption_key e) = 32" "length (pke_note_key e) = 32"
  shows "parse_event env ce = Inr (PublicKey (ce_id ce) (pke_owner e)
    (map unat (pke_encryption_key e)) (map unat (pke_note_key e)))"
  using assms parse_carried [OF assms(1), of ce "''public_key_event''"]
  by (simp add: public_key_form_def parse_event_def parse_public_key_event_def first_topic_def event_value_def
      key_bytes_def scval_to_bytes_def)

section \<open>Which values the contracts publish\<close>

lemma fold_ensure:
  "fold_result (\<lambda>n _. ensure (P n) e) ns () = Inr u \<Longrightarrow> list_all P ns"
  by (induction ns) (auto simp: result_simps)

lemma verified_nullifiers_canonical:
  assumes "verify_proof env p s = Inr b"
  shows "list_all canonical (input_nullifiers p)"
  using assms
  by (auto simp: verify_proof_def validate_bn256_public_inputs_def validate_field_element result_simps
      split: if_splits dest: fold_ensure)

lemma transact_events_canonical:
  assumes "nullifiers s = Some m" and "transact env p ext sender (s, t) = Some (Inr (s', t'))"
    and "list_all event_canonical (p_events s)"
  shows "list_all event_canonical (p_events s')"
proof -
  from assms obtain ix tree where adm: "transact_admissible env p ext sender s"
    and s': "s' = after_transact p ext ix tree s"
    by (auto simp: transact_Inr)
  then have v: "verify_proof env p s = Inr True" by (simp add: transact_admissible_def)
  from verified_nullifiers_canonical [OF v] have "list_all event_canonical (map NewNullifierEvent (input_nullifiers p))"
    by (auto simp: list_all_iff)
  with validate_canonical [OF v] assms(3) show ?thesis by (simp add: s' after_transact_def)
qed

lemma pool_events_canonical:
  assumes "good_host host" and "zeroes_consistent (compress_value host)"
  shows "pool_history host self pay st0 calls st \<Longrightarrow> pool_inv (compress_value host) d (fst st0) \<Longrightarrow>
    list_all event_canonical (p_events (fst st0)) \<Longrightarrow> list_all event_canonical (p_events (fst st))"
proof (induction rule: pool_history.induct)
  case (one_more calls st env call st')
  obtain s t s' t' where st: "st = (s, t)" "st' = (s', t')" by (cases st, cases st') auto
  from pool_history_inv [OF assms one_more.hyps(1) one_more.prems(1)] st
  obtain m where m: "nullifiers s = Some m" by (auto simp: pool_inv_def Let_def)
  have IH: "list_all event_canonical (p_events s)" using one_more.IH one_more.prems st by simp
  show ?case
  proof (cases "\<exists>p e a. call = Transact p e a")
    case True
    with transact_events_canonical [OF m _ IH] one_more.hyps st show ?thesis by auto
  next
    case False
    then have "p_events s' = p_events s" using setting_frame [of env call s t s' t'] one_more.hyps st by simp
    with IH show ?thesis by (simp add: st)
  qed
qed simp

lemma pool_events_read_back0:
  assumes "good_host host" and "zeroes_consistent (compress_value host)"
    and "pool_constructor admin token verifier asp_m asp_nm cap d empty_pool = Inr s0"
    and "pool_history host self pay (s0, t0) calls (s, t)"
    and "ascii_symbols env"
    and "list_all2 (\<lambda>ce e. carries env ce (pool_event_form e)) ces (p_events s)"
  shows "map (parse_event env) ces = map Inr (map2 (\<lambda>ce e. read_pool_event (ce_id ce) e) ces (p_events s))"
proof -
  from constructor_inv [OF assms(2,3)] have "pool_inv (compress_value host) d s0" "p_events s0 = []" by blast+
  with pool_events_canonical [OF assms(1,2,4)] have "list_all event_canonical (p_events s)" by simp
  with assms(6) show ?thesis
    by (induction rule: list_all2_induct) (simp_all add: pool_event_read [OF assms(5)])
qed

lemma asp_events_published:
  assumes "good_host host" and "zeroes_consistent (compress_value host)" and "asp_reachable host d s"
    and "e \<in> set (asp_events s)"
  shows "canonical (lae_leaf e) \<and> canonical (lae_root e) \<and> lae_index e < 2 ^ 32"
proof -
  from asp_reachable_inv [OF assms(1-3)] obtain leaves where
    inv: "asp_inv (compress_value host) d leaves s" by blast
  then obtain i where i: "i < length leaves" and e: "lae_leaf e = leaves ! i" "lae_index e = i"
      "lae_root e = tree_root (compress_value host) (get_zeroes ! 0) d (take (Suc i) leaves)"
    using assms(4) by (auto simp: asp_inv_def asp_log_def)
  from inv have d: "1 \<le> d" "d \<le> 32" "length leaves \<le> 2 ^ d" and can: "list_all canonical leaves"
    by (simp_all add: asp_inv_def)
  have "(2::nat) ^ d \<le> 2 ^ 32" using d by (intro power_increasing) simp_all
  with i d have "i < 2 ^ 32" by linarith
  moreover have "canonical (lae_root e)" using d by (cases d) (simp_all add: e canonical_compress_value)
  ultimately show ?thesis using can i by (simp add: e list_all_length)
qed

lemma registry_events_published:
  "registry_reach s \<Longrightarrow> \<forall>e\<in>set (registry_events s). length (pke_encryption_key e) = 32 \<and> length (pke_note_key e) = 32"
proof (induction rule: registry_reach.induct)
  case (registry_register s auth acc s')
  then show ?case by (auto simp: register_def result_simps Let_def split: if_splits)
qed (simp add: empty_registry_def)

section \<open>Properties\<close>

text \<open>An encoding of the events of the sample pool's first transaction.\<close>

definition sample_event_host :: xdr_host where
  "sample_event_host = \<lparr>from_xdr_base64 = map_of
       [(''null'', SvSymbol ''new_nullifier_event''), (''commit'', SvSymbol ''new_commitment_event''),
        (''6'', u256_scval 6), (''7'', u256_scval 7), (''8'', u256_scval 8), (''9'', u256_scval 9), (''-'', SvVoid),
        (''a'', SvMap (Some [(SvSymbol ''encrypted_output'', SvBytes [1]), (SvSymbol ''index'', SvU32 0)])),
        (''b'', SvMap (Some [(SvSymbol ''encrypted_output'', SvBytes [2]), (SvSymbol ''index'', SvU32 1)]))],
     scval_to_xdr = (\<lambda>_. Some []), symbol_to_utf8 = Some, strkey_account = (\<lambda>_. ''G''), strkey_contract = (\<lambda>_. ''C''),
     parse_address = (\<lambda>s. Some (AccountAddress [])), keccak_256 = (\<lambda>_. replicate 32 0)\<rparr>"

definition sample_contract_event :: "string \<Rightarrow> string list \<Rightarrow> string \<Rightarrow> contract_event" where
  "sample_contract_event eid ts v =
     \<lparr>ce_id = eid, ce_ledger = 5, ce_contract_id = ''pool'', ce_topics = ts, ce_value = v\<rparr>"

definition sample_contract_events :: "contract_event list" where
  "sample_contract_events =
     [sample_contract_event ''e0'' [''null'', ''6''] ''-'', sample_contract_event ''e1'' [''null'', ''7''] ''-'',
      sample_contract_event ''e2'' [''commit'', ''8''] ''a'', sample_contract_event ''e3'' [''commit'', ''9''] ''b'']"

lemma sample_log:
  obtains s0 s t where "pool_constructor ''admin'' ''xlm'' ''verifier'' ''m'' ''nm'' 1000 2 empty_pool = Inr s0"
    and "pool_history sample_host ''pool'' table_transfer (s0, sample_tokens)
      [Transact sample_pool_proof sample_ext ''alice''] (s, t)"
    and "p_events s = [NewNullifierEvent 6, NewNullifierEvent 7, NewCommitmentEvent 8 0 [1], NewCommitmentEvent 9 1 [2]]"
proof -
  obtain s0 s t where cons: "pool_constructor ''admin'' ''xlm'' ''verifier'' ''m'' ''nm'' 1000 2 empty_pool = Inr s0"
    and inv: "pool_inv (compress_value sample_host) 2 s0"
    and ok: "transact sample_pool_env sample_pool_proof sample_ext ''alice'' (s0, sample_tokens) = Some (Inr (s, t))"
    and m: "nullifiers s0 = Some Map.empty"
    by (rule sample_pool)
  have env: "poseidon2 sample_pool_env = sample_host" "self_address sample_pool_env = ''pool''"
    "transfer_call sample_pool_env = table_transfer" by (simp_all add: sample_pool_env_def)
  have "p_events s0 = []" using constructor_inv [OF zeroes_consistent_sample cons] by blast
  moreover obtain ix tree where "s = after_transact sample_pool_proof sample_ext ix tree s0"
    using ok by (auto simp: transact_Inr [OF m])
  moreover note transact_inv [of sample_pool_env 2, unfolded env, OF good_sample_host zeroes_consistent_sample inv ok]
  ultimately have "p_events s = [NewNullifierEvent 6, NewNullifierEvent 7, NewCommitmentEvent 8 0 [1], NewCommitmentEvent 9 1 [2]]"
    by (auto simp: after_transact_def sample_pool_proof_def sample_ext_def)
  moreover have "pool_history sample_host ''pool'' table_transfer (s0, sample_tokens)
      ([] @ [Transact sample_pool_proof sample_ext ''alice'']) (s, t)"
    using pool_history.one_more [OF pool_history.no_calls env(1) env(2) env(3)] ok by simp
  ultimately show thesis using that cons by simp
qed

lemma sample_carried:
  "ascii_symbols sample_event_host"
  "list_all2 (\<lambda>ce e. carries sample_event_host ce (pool_event_form e)) sample_contract_events
     [NewNullifierEvent 6, NewNullifierEvent 7, NewCommitmentEvent 8 0 [1], NewCommitmentEvent 9 1 [2]]"
  by (simp_all add: ascii_symbols_def sample_event_host_def sample_contract_events_def carries_def
      sample_contract_event_def)

text \<open>
  C26: What the application submits is what the contract checks. The external data and the proof it
  encodes are the SDK's encodings of the contract's own structs, and the external-data hash it
  computed off-chain, two's-complement amount included, is the one \<open>transact\<close> compares it with.
\<close>

theorem submission_agrees:
  assumes "is_bytes (ed_encrypted_output0 app)" and "is_bytes (ed_encrypted_output1 app)"
    and "fits 32 (length (ed_encrypted_output0 app))" and "fits 32 (length (ed_encrypted_output1 app))"
    and "parse_address host (ed_recipient app) = Some a"
    and "scval_to_xdr host (ext_scval a (contract_ext app)) = Some (to_xdr env (contract_ext app))"
    and "keccak_256 host = keccak256 env"
    and "length proof = 256" and "is_bytes proof" and "fits 32 (length nulls)"
  shows "\<exists>h. hash_ext_data_offchain host app = Inr h
    \<and> pool_ext_data_to_scval host app = Inr (ext_scval a (contract_ext app))
    \<and> pool_proof_to_scval proof root nulls c0 c1 pa h am anm
        = Inr (proof_scval (submitted_proof proof root nulls c0 c1 pa h am anm))
    \<and> hash_ext_data env (contract_ext app)
        = ext_data_hash (submitted_proof proof root nulls c0 c1 pa h am anm)"
proof (intro exI conjI)
  show "hash_ext_data_offchain host app = Inr (hash_ext_data env (contract_ext app))"
    by (rule hash_ext_data_agrees [OF assms(1-7)])
  show "pool_ext_data_to_scval host app = Inr (ext_scval a (contract_ext app))"
    by (rule ext_data_submitted [OF assms(1-5)])
  show "pool_proof_to_scval proof root nulls c0 c1 pa (hash_ext_data env (contract_ext app)) am anm
      = Inr (proof_scval (submitted_proof proof root nulls c0 c1 pa (hash_ext_data env (contract_ext app)) am anm))"
    by (rule proof_submitted [OF assms(8-10)]) (simp add: hash_ext_data_def to_be_bytes_def fits_def Let_def)
qed (simp add: submitted_proof_def)

definition sample_app_ext :: app_ext_data where
  "sample_app_ext = \<lparr>ed_recipient = ''G'', ed_ext_amount = ExtAmount (- 42), ed_encrypted_output0 = [1, 2, 3],
     ed_encrypted_output1 = [4, 5]\<rparr>"

theorem submission_agrees_witness:
  "\<exists>h. hash_ext_data_offchain sample_event_host sample_app_ext = Inr h
    \<and> pool_ext_data_to_scval sample_event_host sample_app_ext
        = Inr (ext_scval (AccountAddress []) (contract_ext sample_app_ext))"
proof -
  note agree = submission_agrees [of sample_app_ext sample_event_host "AccountAddress []" sample_pool_env
      "replicate 256 0" "[]"]
  have "is_bytes (ed_encrypted_output0 sample_app_ext)" "is_bytes (ed_encrypted_output1 sample_app_ext)"
    "fits 32 (length (ed_encrypted_output0 sample_app_ext))" "fits 32 (length (ed_encrypted_output1 sample_app_ext))"
    by (simp_all add: sample_app_ext_def fits_def)
  moreover have "parse_address sample_event_host (ed_recipient sample_app_ext) = Some (AccountAddress [])"
    "scval_to_xdr sample_event_host (ext_scval (AccountAddress []) (contract_ext sample_app_ext))
      = Some (to_xdr sample_pool_env (contract_ext sample_app_ext))"
    "keccak_256 sample_event_host = keccak256 sample_pool_env"
    by (simp_all add: sample_event_host_def sample_pool_env_def)
  moreover have "length (replicate 256 (0::nat)) = 256" "is_bytes (replicate 256 0)" "fits 32 (length ([] :: field_element list))"
    by (simp_all add: is_bytes_def fits_def)
  ultimately show ?thesis using agree by blast
qed

text \<open>
  C27: Every event of the pool is read back. Whatever calls a deployed pool has executed, the
  application's parser turns the chain's encoding of each event of its log into the same
  commitment, leaf index and encrypted output, or the same nullifier: the parser's canonicity
  checks never reject an event, because \<open>transact\<close> validated the values before publishing them.
\<close>

theorem pool_events_read_back:
  assumes "good_host host" and "zeroes_consistent (compress_value host)"
    and "pool_constructor admin token verifier asp_m asp_nm cap d empty_pool = Inr s0"
    and "pool_history host self pay (s0, t0) calls (s, t)"
    and "ascii_symbols env"
    and "list_all2 (\<lambda>ce e. carries env ce (pool_event_form e)) ces (p_events s)"
  shows "map (parse_event env) ces = map Inr (map2 (\<lambda>ce e. read_pool_event (ce_id ce) e) ces (p_events s))"
  by (rule pool_events_read_back0 [OF assms])

theorem pool_events_read_back_witness:
  "map (parse_event sample_event_host) sample_contract_events =
     [Inr (Nullifier ''e0'' (Field 6)), Inr (Nullifier ''e1'' (Field 7)),
      Inr (Commitment ''e2'' (Field 8) 0 [1]), Inr (Commitment ''e3'' (Field 9) 1 [2])]"
proof -
  obtain s0 s t where "pool_constructor ''admin'' ''xlm'' ''verifier'' ''m'' ''nm'' 1000 2 empty_pool = Inr s0"
    and "pool_history sample_host ''pool'' table_transfer (s0, sample_tokens)
      [Transact sample_pool_proof sample_ext ''alice''] (s, t)"
    and log: "p_events s = [NewNullifierEvent 6, NewNullifierEvent 7, NewCommitmentEvent 8 0 [1], NewCommitmentEvent 9 1 [2]]"
    by (rule sample_log)
  from pool_events_read_back [OF good_sample_host zeroes_consistent_sample this(1,2) sample_carried(1)
      sample_carried(2) [folded log]]
  show ?thesis by (simp add: log sample_contract_events_def sample_contract_event_def)
qed

end
