(* ===== verification/ChainStore.thy ===== *)
theory ChainStore
  imports ChainCodec
begin

text \<open>
  The local state store, its chain side: the schema, the ingestion of raw events, their processing
  into tables, and the queries the transaction builder runs on them
  (\<open>app/crates/core/state/src/schema.sql\<close>, \<open>storage.rs\<close> and \<open>processor.rs\<close>).

  A table is the list of its rows in insertion order. An \<open>INTEGER PRIMARY KEY\<close> that the statement
  leaves out is the largest key so far plus one. Field elements are stored as their 32 bytes, so a
  row holds the field element and a query decodes it again (\<open>column_field\<close>). Where a query leaves
  the order of rows open, the model keeps the order of the table. A statement that violates a
  constraint not named in its \<open>ON CONFLICT\<close> clause is \<open>ConstraintFailed\<close>, and the transaction
  around it leaves no trace.
\<close>

section \<open>Schema\<close>

datatype store_error =
    ConstraintFailed
  | ColumnOutOfRange
  | ColumnInvalid
  | LeafGap nat nat
  | LeafIndexOverflow
  | AheadOfChain nat nat
  | RootMismatch nat
  | NoSuchRow
  | DisclaimerMismatch
  | DeriveFailed
  | CountOverflow

record raw_event =
  re_id :: string
  re_ledger :: nat
  re_contract :: nat
  re_topics :: string
  re_value :: string

record commitment_row =
  cr_id :: nat
  cr_commitment :: field_element
  cr_leaf_index :: nat
  cr_output :: "nat list"
  cr_event :: string

record nullifier_row =
  nr_id :: nat
  nr_nullifier :: field_element
  nr_event :: string

record public_key_row =
  pk_owner :: string
  pk_encryption_key :: "nat list"
  pk_note_key :: "nat list"
  pk_event :: string

record asp_leaf_row =
  al_index :: nat
  al_leaf :: field_element
  al_root :: field_element
  al_event :: string

record sync_row =
  sy_contract :: nat
  sy_cursor :: "string option"
  sy_indexed :: nat
  sy_fully :: nat

record keypair_row =
  kp_id :: nat
  kp_enc_private :: "nat list"
  kp_enc_public :: "nat list"
  kp_note_private :: "nat list"
  kp_note_public :: "nat list"
  kp_blinding :: field_element
  kp_account :: nat

record user_note_row =
  un_id :: field_element
  un_account :: nat
  un_commitment :: nat
  un_nullifier :: "nat option"
  un_expected :: field_element
  un_blinding :: field_element
  un_amount :: note_amount

record storage =
  st_contracts :: "(nat \<times> string) list"
  st_indexing :: "sync_row list"
  st_raw :: "raw_event list"
  st_commitments :: "commitment_row list"
  st_nullifiers :: "nullifier_row list"
  st_public_keys :: "public_key_row list"
  st_asp_leaves :: "asp_leaf_row list"
  st_accounts :: "(nat \<times> string) list"
  st_keypairs :: "keypair_row list"
  st_user_notes :: "user_note_row list"
  st_commitment_scan :: "nat \<times> nat \<rightharpoonup> nat"
  st_nullifier_scan :: "nat \<rightharpoonup> nat"
  st_disclaimers :: "(nat \<times> string) list"
  st_bootnode :: "bool \<times> string"

definition empty_storage :: storage where
  "empty_storage = \<lparr>st_contracts = [], st_indexing = [], st_raw = [], st_commitments = [],
     st_nullifiers = [], st_public_keys = [], st_asp_leaves = [], st_accounts = [], st_keypairs = [],
     st_user_notes = [], st_commitment_scan = Map.empty, st_nullifier_scan = Map.empty,
     st_disclaimers = [], st_bootnode = (False, '''')\<rparr>"

section \<open>SQL\<close>

definition fresh_id :: "nat list \<Rightarrow> nat" where
  "fresh_id ids = Suc (fold max ids 0)"

definition col_u32 :: "nat \<Rightarrow> (store_error, nat) result" where
  "col_u32 v = (if fits 32 v then Inr v else Inl (Err ColumnOutOfRange))"

definition column_field :: "field_element \<Rightarrow> (store_error, field_element) result" where
  "column_field f = ok_or (try_from_le_bytes (field_to_le_bytes f)) ColumnInvalid"

definition address_of :: "(nat \<times> string) list \<Rightarrow> nat \<Rightarrow> string option" where
  "address_of rows i = map_option snd (find (\<lambda>r. fst r = i) rows)"

text \<open>The join of a derived row with its raw event, and further with the event's contract.\<close>

definition raw_of :: "storage \<Rightarrow> string \<Rightarrow> raw_event option" where
  "raw_of s ev = find (\<lambda>r. re_id r = ev) (st_raw s)"

definition contract_of :: "storage \<Rightarrow> string \<Rightarrow> string option" where
  "contract_of s ev = Option.bind (raw_of s ev) (\<lambda>r. address_of (st_contracts s) (re_contract r))"

fun join_topics :: "string list \<Rightarrow> string" where
  "join_topics [] = []"
| "join_topics [t] = t"
| "join_topics (t # ts) = t @ CHR '','' # join_topics ts"

fun split_topics :: "string \<Rightarrow> string list" where
  "split_topics [] = [[]]"
| "split_topics (c # cs) =
     (if c = CHR '','' then [] # split_topics cs
      else case split_topics cs of [] \<Rightarrow> [[c]] | t # ts \<Rightarrow> (c # t) # ts)"

section \<open>Ingestion\<close>

record contracts_event_data =
  cd_events :: "contract_event list"
  cd_cursor :: string
  cd_latest_ledger :: nat

record sync_metadata =
  sm_contract_id :: string
  sm_cursor :: string
  sm_last_indexed_ledger :: nat
  sm_last_fully_indexed_ledger :: nat

definition get_or_create_contract_id :: "string \<Rightarrow> storage \<Rightarrow> nat \<times> storage" where
  "get_or_create_contract_id a s =
     (case find (\<lambda>c. snd c = a) (st_contracts s) of
        Some c \<Rightarrow> (fst c, s)
      | None \<Rightarrow> (let i = fresh_id (map fst (st_contracts s)) in
          (i, s\<lparr>st_contracts := st_contracts s @ [(i, a)]\<rparr>)))"

definition save_event :: "contract_event \<Rightarrow> storage \<Rightarrow> storage" where
  "save_event event s =
     (case get_or_create_contract_id (ce_contract_id event) s of (event_contract_id, s1) \<Rightarrow>
        if ce_id event \<in> re_id ` set (st_raw s1) then s1
        else s1\<lparr>st_raw := st_raw s1 @ [\<lparr>re_id = ce_id event, re_ledger = ce_ledger event,
               re_contract = event_contract_id, re_topics = join_topics (ce_topics event),
               re_value = ce_value event\<rparr>]\<rparr>)"

definition save_events_batch :: "contracts_event_data \<Rightarrow> storage \<Rightarrow> storage" where
  "save_events_batch data s = fold save_event (cd_events data) s"

definition save_progress_entry :: "bool \<Rightarrow> sync_metadata \<Rightarrow> storage \<Rightarrow> storage" where
  "save_progress_entry fully_indexed entry s =
     (case get_or_create_contract_id (sm_contract_id entry) s of (contract_id, s1) \<Rightarrow>
        let rows = (if contract_id \<in> sy_contract ` set (st_indexing s1) then st_indexing s1
              else st_indexing s1 @ [\<lparr>sy_contract = contract_id, sy_cursor = Some (sm_cursor entry),
                     sy_indexed = sm_last_indexed_ledger entry, sy_fully = 0\<rparr>]) in
        s1\<lparr>st_indexing := map (\<lambda>r.
             if sy_contract r \<noteq> contract_id then r
             else if fully_indexed then r\<lparr>sy_cursor := Some (sm_cursor entry),
                    sy_indexed := sm_last_indexed_ledger entry, sy_fully := sm_last_indexed_ledger entry\<rparr>
             else r\<lparr>sy_cursor := Some (sm_cursor entry), sy_indexed := sm_last_indexed_ledger entry\<rparr>) rows\<rparr>)"

definition save_sync_progress :: "sync_metadata list \<Rightarrow> bool \<Rightarrow> storage \<Rightarrow> storage" where
  "save_sync_progress metadata fully_indexed s = fold (save_progress_entry fully_indexed) metadata s"

definition clear_indexing_cursors :: "storage \<Rightarrow> storage" where
  "clear_indexing_cursors s = s\<lparr>st_indexing := map (\<lambda>r. r\<lparr>sy_cursor := None\<rparr>) (st_indexing s)\<rparr>"

definition sync_metadata_row :: "storage \<Rightarrow> sync_row \<Rightarrow> (store_error, sync_metadata) result list" where
  "sync_metadata_row s m =
     (case address_of (st_contracts s) (sy_contract m) of
        None \<Rightarrow> []
      | Some a \<Rightarrow> [and_then (col_u32 (sy_indexed m)) (\<lambda>indexed. and_then (col_u32 (sy_fully m)) (\<lambda>fully.
          Inr \<lparr>sm_contract_id = a, sm_cursor = unwrap_or (sy_cursor m) [],
               sm_last_indexed_ledger = indexed, sm_last_fully_indexed_ledger = fully\<rparr>))])"

definition get_sync_metadata :: "storage \<Rightarrow> (store_error, sync_metadata list) result" where
  "get_sync_metadata s =
     map_result id (concat (map (sync_metadata_row s) (sort_key sy_contract (st_indexing s))))"

section \<open>Unprocessed events\<close>

definition event_before :: "raw_event \<Rightarrow> raw_event \<Rightarrow> bool" where
  "event_before a b \<longleftrightarrow>
     re_ledger a < re_ledger b \<or> re_ledger a = re_ledger b \<and> string_le (re_id a) (re_id b)"

definition processed :: "storage \<Rightarrow> string \<Rightarrow> bool" where
  "processed s ev \<longleftrightarrow>
     ev \<in> cr_event ` set (st_commitments s) \<or> ev \<in> pk_event ` set (st_public_keys s)
   \<or> ev \<in> nr_event ` set (st_nullifiers s) \<or> ev \<in> al_event ` set (st_asp_leaves s)"

definition stored_event :: "storage \<Rightarrow> raw_event \<Rightarrow> contract_event list" where
  "stored_event s r =
     (case address_of (st_contracts s) (re_contract r) of
        None \<Rightarrow> []
      | Some a \<Rightarrow> [\<lparr>ce_id = re_id r, ce_ledger = re_ledger r, ce_contract_id = a,
                   ce_topics = split_topics (re_topics r), ce_value = re_value r\<rparr>])"

definition get_unprocessed_events :: "nat \<Rightarrow> storage \<Rightarrow> contract_event list" where
  "get_unprocessed_events limit s =
     take limit (concat (map (stored_event s)
       (sort_by event_before (filter (\<lambda>r. \<not> processed s (re_id r)) (st_raw s)))))"

section \<open>Saving parsed events\<close>

text \<open>Each clause ends in the foreign key to the raw event.\<close>

definition save_nullifier :: "string \<times> field_element \<Rightarrow> storage \<Rightarrow> (store_error, storage) result" where
  "save_nullifier ev s =
     (case ev of (eid, nullifier) \<Rightarrow>
        if nullifier \<in> nr_nullifier ` set (st_nullifiers s) then Inr s
        else and_then (ensure (eid \<notin> nr_event ` set (st_nullifiers s) \<and> raw_of s eid \<noteq> None) ConstraintFailed) (\<lambda>_.
          Inr (s\<lparr>st_nullifiers := st_nullifiers s @
            [\<lparr>nr_id = fresh_id (map nr_id (st_nullifiers s)), nr_nullifier = nullifier, nr_event = eid\<rparr>]\<rparr>)))"

definition save_commitment ::
  "string \<times> field_element \<times> nat \<times> nat list \<Rightarrow> storage \<Rightarrow> (store_error, storage) result" where
  "save_commitment ev s =
     (case ev of (eid, commitment, index, encrypted_output) \<Rightarrow>
        if commitment \<in> cr_commitment ` set (st_commitments s) then Inr s
        else and_then (ensure (eid \<notin> cr_event ` set (st_commitments s) \<and> raw_of s eid \<noteq> None) ConstraintFailed) (\<lambda>_.
          Inr (s\<lparr>st_commitments := st_commitments s @
            [\<lparr>cr_id = fresh_id (map cr_id (st_commitments s)), cr_commitment = commitment,
              cr_leaf_index = index, cr_output = encrypted_output, cr_event = eid\<rparr>]\<rparr>)))"

definition save_public_key ::
  "string \<times> string \<times> nat list \<times> nat list \<Rightarrow> storage \<Rightarrow> (store_error, storage) result" where
  "save_public_key ev s =
     (case ev of (eid, owner, encryption_key, note_key) \<Rightarrow>
        if eid \<in> pk_event ` set (st_public_keys s) then Inr s
        else and_then (ensure (raw_of s eid \<noteq> None) ConstraintFailed) (\<lambda>_.
          Inr (s\<lparr>st_public_keys := st_public_keys s @
            [\<lparr>pk_owner = owner, pk_encryption_key = encryption_key, pk_note_key = note_key, pk_event = eid\<rparr>]\<rparr>)))"

definition save_leaf_added ::
  "string \<times> field_element \<times> nat \<times> field_element \<Rightarrow> storage \<Rightarrow> (store_error, storage) result" where
  "save_leaf_added ev s =
     (case ev of (eid, leaf, index, root) \<Rightarrow>
        if index \<in> al_index ` set (st_asp_leaves s) then Inr s
        else and_then (ensure (eid \<notin> al_event ` set (st_asp_leaves s) \<and> raw_of s eid \<noteq> None) ConstraintFailed) (\<lambda>_.
          Inr (s\<lparr>st_asp_leaves := st_asp_leaves s @
            [\<lparr>al_index = index, al_leaf = leaf, al_root = root, al_event = eid\<rparr>]\<rparr>)))"

definition save_nullifier_events_batch ::
  "(string \<times> field_element) list \<Rightarrow> storage \<Rightarrow> (store_error, storage) result" where
  "save_nullifier_events_batch events = fold_result save_nullifier events"

definition save_commitment_events_batch ::
  "(string \<times> field_element \<times> nat \<times> nat list) list \<Rightarrow> storage \<Rightarrow> (store_error, storage) result" where
  "save_commitment_events_batch events = fold_result save_commitment events"

definition save_public_key_events_batch ::
  "(string \<times> string \<times> nat list \<times> nat list) list \<Rightarrow> storage \<Rightarrow> (store_error, storage) result" where
  "save_public_key_events_batch events = fold_result save_public_key events"

definition save_leaf_added_events_batch ::
  "(string \<times> field_element \<times> nat \<times> field_element) list \<Rightarrow> storage \<Rightarrow> (store_error, storage) result" where
  "save_leaf_added_events_batch events = fold_result save_leaf_added events"

section \<open>Processing\<close>

record parsed_batch =
  pb_nullifiers :: "(string \<times> field_element) list"
  pb_commitments :: "(string \<times> field_element \<times> nat \<times> nat list) list"
  pb_pubkeys :: "(string \<times> string \<times> nat list \<times> nat list) list"
  pb_leaves :: "(string \<times> field_element \<times> nat \<times> field_element) list"

definition empty_batch :: parsed_batch where
  "empty_batch = \<lparr>pb_nullifiers = [], pb_commitments = [], pb_pubkeys = [], pb_leaves = []\<rparr>"

fun push_parsed :: "processed_event \<Rightarrow> parsed_batch \<Rightarrow> parsed_batch" where
  "push_parsed (Nullifier eid n) b = b\<lparr>pb_nullifiers := pb_nullifiers b @ [(eid, n)]\<rparr>"
| "push_parsed (Commitment eid c i e) b = b\<lparr>pb_commitments := pb_commitments b @ [(eid, c, i, e)]\<rparr>"
| "push_parsed (PublicKey eid ow ek nk) b = b\<lparr>pb_pubkeys := pb_pubkeys b @ [(eid, ow, ek, nk)]\<rparr>"
| "push_parsed (AspLeafAdded eid l i r) b = b\<lparr>pb_leaves := pb_leaves b @ [(eid, l, i, r)]\<rparr>"
| "push_parsed (SmtLeafInserted eid k v r) b = b"
| "push_parsed (SmtLeafUpdated eid k ov nv r) b = b"
| "push_parsed (SmtLeafDeleted eid k r) b = b"

definition collect_event :: "xdr_host \<Rightarrow> contract_event \<Rightarrow> parsed_batch \<Rightarrow> parsed_batch" where
  "collect_event env event b =
     (case parse_event env event of Inl _ \<Rightarrow> b | Inr parsed \<Rightarrow> push_parsed parsed b)"

text \<open>Each batch is a transaction of its own; the first that fails ends the run.\<close>

fun commit_all :: "(storage \<Rightarrow> (store_error, storage) result) list \<Rightarrow> storage \<Rightarrow> (store_error, unit) result \<times> storage" where
  "commit_all [] s = (Inr (), s)"
| "commit_all (f # fs) s = (case f s of Inl e \<Rightarrow> (Inl e, s) | Inr s' \<Rightarrow> commit_all fs s')"

definition process_events :: "xdr_host \<Rightarrow> nat \<Rightarrow> storage \<Rightarrow> (store_error, bool) result \<times> storage" where
  "process_events env limit s =
     (let unprocessed = get_unprocessed_events limit s in
      if unprocessed = [] then (Inr False, s)
      else
        let b = fold (collect_event env) (rev unprocessed) empty_batch in
        case commit_all [save_nullifier_events_batch (pb_nullifiers b), save_commitment_events_batch (pb_commitments b),
            save_public_key_events_batch (pb_pubkeys b), save_leaf_added_events_batch (pb_leaves b)] s of
          (r, s') \<Rightarrow> (and_then r (\<lambda>_. Inr True), s'))"

section \<open>Queries on the chain tables\<close>

definition push_leaf ::
  "nat \<times> field_element \<Rightarrow> nat \<times> field_element list \<Rightarrow> (store_error, nat \<times> field_element list) result" where
  "push_leaf row st =
     (case st of (expected_index, leaves) \<Rightarrow>
       and_then (col_u32 (fst row)) (\<lambda>idx.
       and_then (column_field (snd row)) (\<lambda>leaf.
       and_then (ensure (\<not> idx \<noteq> expected_index) (LeafGap expected_index idx)) (\<lambda>_.
       and_then (ok_or (checked_add 32 expected_index 1) LeafIndexOverflow) (\<lambda>expected.
         Inr (expected, leaves @ [leaf]))))))"

definition get_pool_commitment_leaves_ordered :: "string \<Rightarrow> storage \<Rightarrow> (store_error, field_element list) result" where
  "get_pool_commitment_leaves_ordered pool_contract_id s =
     and_then (fold_result push_leaf
       (map (\<lambda>pc. (cr_leaf_index pc, cr_commitment pc))
         (sort_key cr_leaf_index (filter (\<lambda>pc. contract_of s (cr_event pc) = Some pool_contract_id) (st_commitments s))))
       (0, [])) (\<lambda>(_, leaves). Inr leaves)"

definition get_all_asp_membership_leaves_ordered :: "string \<Rightarrow> storage \<Rightarrow> (store_error, field_element list) result" where
  "get_all_asp_membership_leaves_ordered asp_membership_contract_id s =
     and_then (fold_result push_leaf
       (map (\<lambda>l. (al_index l, al_leaf l))
         (sort_key al_index (filter (\<lambda>l. contract_of s (al_event l) = Some asp_membership_contract_id) (st_asp_leaves s))))
       (0, [])) (\<lambda>(_, leaves). Inr leaves)"

datatype asp_membership_sync = SyncRequired "nat option" | RegisterAtASP | UserIndex nat

definition check_asp_membership_precondition ::
  "string \<Rightarrow> field_element \<Rightarrow> field_element \<Rightarrow> nat \<Rightarrow> storage \<Rightarrow> (store_error, asp_membership_sync) result" where
  "check_asp_membership_precondition asp_membership_contract_id user_leaf current_root current_ledger s =
     and_then (get_sync_metadata s) (\<lambda>metadata.
     case find (\<lambda>meta. sm_contract_id meta = asp_membership_contract_id) metadata of
       None \<Rightarrow> Inr (SyncRequired (Some current_ledger))
     | Some sync_meta \<Rightarrow>
        let fully = sm_last_fully_indexed_ledger sync_meta;
            rows = filter (\<lambda>l. contract_of s (al_event l) = Some asp_membership_contract_id) (st_asp_leaves s) in
        if fully < current_ledger then Inr (SyncRequired (Some (current_ledger - fully)))
        else if current_ledger < fully then Inl (Err (AheadOfChain fully current_ledger))
        else if rows = [] then Inr RegisterAtASP
        else
          let l = last (sort_key al_index rows) in
          and_then (column_field (al_root l)) (\<lambda>last_root.
          and_then (and_then (ok_or (raw_of s (al_event l)) NoSuchRow) (\<lambda>r. col_u32 (re_ledger r))) (\<lambda>last_leaf_ledger.
            if current_root \<noteq> last_root then
              (if last_leaf_ledger < current_ledger then Inr (SyncRequired (Some (current_ledger - last_leaf_ledger)))
               else Inl (Err (RootMismatch current_ledger)))
            else case find (\<lambda>l. al_leaf l = user_leaf) rows of
                Some l \<Rightarrow> and_then (col_u32 (al_index l)) (\<lambda>i. Inr (UserIndex i))
              | None \<Rightarrow> Inr RegisterAtASP)))"

record public_key_entry =
  pe_address :: string
  pe_encryption_key :: "nat list"
  pe_note_key :: "nat list"
  pe_key_ledger :: nat

text \<open>
  \<open>GROUP BY owner\<close> with \<open>MAX(ledger)\<close>: the other columns are those of a row with the largest
  ledger, here the first such row.
\<close>

definition key_ledger :: "storage \<Rightarrow> public_key_row \<Rightarrow> nat" where
  "key_ledger s p = (case raw_of s (pk_event p) of None \<Rightarrow> 0 | Some r \<Rightarrow> re_ledger r)"

definition newest_key :: "storage \<Rightarrow> public_key_row list \<Rightarrow> string \<Rightarrow> public_key_row list" where
  "newest_key s rows owner =
     (let own = filter (\<lambda>p. pk_owner p = owner) rows in
      case find (\<lambda>p. \<forall>q\<in>set own. key_ledger s q \<le> key_ledger s p) own of None \<Rightarrow> [] | Some p \<Rightarrow> [p])"

definition map_public_key_entry :: "storage \<Rightarrow> public_key_row \<Rightarrow> (store_error, public_key_entry) result" where
  "map_public_key_entry s p =
     and_then (col_u32 (key_ledger s p)) (\<lambda>ledger.
       Inr \<lparr>pe_address = pk_owner p, pe_encryption_key = pk_encryption_key p, pe_note_key = pk_note_key p,
            pe_key_ledger = ledger\<rparr>)"

definition get_recent_public_keys :: "nat \<Rightarrow> storage \<Rightarrow> (store_error, public_key_entry list) result" where
  "get_recent_public_keys limit s =
     (let rows = filter (\<lambda>p. raw_of s (pk_event p) \<noteq> None) (st_public_keys s);
          grouped = concat (map (newest_key s rows) (remdups (map pk_owner rows)))
      in map_result (map_public_key_entry s)
           (take limit (sort_by (\<lambda>p q. key_ledger s q \<le> key_ledger s p) grouped)))"

record pool_ledger_activity =
  pa_ledger :: nat
  pa_commitments :: nat
  pa_nullifiers :: nat

definition ledger_of :: "storage \<Rightarrow> string \<Rightarrow> nat list" where
  "ledger_of s ev = (case raw_of s ev of None \<Rightarrow> [] | Some r \<Rightarrow> [re_ledger r])"

definition get_recent_pool_activity :: "nat \<Rightarrow> storage \<Rightarrow> (store_error, pool_ledger_activity list) result" where
  "get_recent_pool_activity limit_ledgers s =
     (let cs = concat (map (\<lambda>c. ledger_of s (cr_event c)) (st_commitments s));
          ns = concat (map (\<lambda>n. ledger_of s (nr_event n)) (st_nullifiers s))
      in map_result (\<lambda>l. and_then (col_u32 l) (\<lambda>ledger.
             and_then (col_u32 (count_list cs l)) (\<lambda>commitments.
             and_then (col_u32 (count_list ns l)) (\<lambda>nullifiers.
               Inr \<lparr>pa_ledger = ledger, pa_commitments = commitments, pa_nullifiers = nullifiers\<rparr>))))
           (take limit_ledgers (rev (sort (remdups (cs @ ns))))))"

end
