(* ===== verification/UserStore.thy ===== *)
theory UserStore
  imports ChainStore
begin

text \<open>
  The local state store, its user side (\<open>app/crates/core/state/src/storage.rs\<close>, \<open>process_notes\<close> of
  \<open>processor.rs\<close>): accounts and their keys, the accepted disclaimer, the bootnode setting, the notes
  derived by scanning the pools' commitments, and their reconciliation with the pools' nullifiers.

  The closure that decrypts a commitment for an account is the parameter \<open>derive\<close>.
\<close>

section \<open>Accounts and keys\<close>

definition get_or_create_account :: "string \<Rightarrow> storage \<Rightarrow> nat \<times> storage" where
  "get_or_create_account a s =
     (case find (\<lambda>r. snd r = a) (st_accounts s) of
        Some r \<Rightarrow> (fst r, s)
      | None \<Rightarrow> (let i = fresh_id (map fst (st_accounts s)) in
          (i, s\<lparr>st_accounts := st_accounts s @ [(i, a)]\<rparr>)))"

record stored_user_keys =
  su_note_keypair :: note_key_pair
  su_encryption_keypair :: encryption_key_pair
  su_membership_blinding :: field_element

record account_keys =
  ak_account_id :: nat
  ak_note_keypair :: note_key_pair
  ak_encryption_keypair :: encryption_key_pair
  ak_membership_blinding :: field_element

definition row_note_keypair :: "keypair_row \<Rightarrow> note_key_pair" where
  "row_note_keypair k = \<lparr>nk_private = kp_note_private k, nk_public = kp_note_public k\<rparr>"

definition row_encryption_keypair :: "keypair_row \<Rightarrow> encryption_key_pair" where
  "row_encryption_keypair k = \<lparr>ek_private = kp_enc_private k, ek_public = kp_enc_public k\<rparr>"

definition newest_keypair :: "keypair_row list \<Rightarrow> keypair_row option" where
  "newest_keypair rows = (if rows = [] then None else Some (last (sort_key kp_id rows)))"

definition get_user_keys :: "string \<Rightarrow> storage \<Rightarrow> (store_error, stored_user_keys option) result" where
  "get_user_keys address s =
     (case newest_keypair (filter (\<lambda>k. address_of (st_accounts s) (kp_account k) = Some address) (st_keypairs s)) of
        None \<Rightarrow> Inr None
      | Some k \<Rightarrow> and_then (column_field (kp_blinding k)) (\<lambda>blinding.
          Inr (Some \<lparr>su_note_keypair = row_note_keypair k, su_encryption_keypair = row_encryption_keypair k,
                    su_membership_blinding = blinding\<rparr>)))"

definition save_encryption_and_note_keypairs ::
  "string \<Rightarrow> note_key_pair \<Rightarrow> encryption_key_pair \<Rightarrow> field_element \<Rightarrow> storage \<Rightarrow> storage" where
  "save_encryption_and_note_keypairs account_address note_keypair encryption_keypair membership_blinding s =
     (case get_or_create_account account_address s of (account_id, s1) \<Rightarrow>
        s1\<lparr>st_keypairs := st_keypairs s1 @ [\<lparr>kp_id = fresh_id (map kp_id (st_keypairs s1)),
          kp_enc_private = ek_private encryption_keypair, kp_enc_public = ek_public encryption_keypair,
          kp_note_private = nk_private note_keypair, kp_note_public = nk_public note_keypair,
          kp_blinding = membership_blinding, kp_account = account_id\<rparr>]\<rparr>)"

definition get_accounts_with_latest_keypairs :: "storage \<Rightarrow> (store_error, account_keys list) result" where
  "get_accounts_with_latest_keypairs s =
     map_result (\<lambda>ik. case ik of (i, k) \<Rightarrow> and_then (column_field (kp_blinding k)) (\<lambda>blinding.
         Inr \<lparr>ak_account_id = i, ak_note_keypair = row_note_keypair k,
              ak_encryption_keypair = row_encryption_keypair k, ak_membership_blinding = blinding\<rparr>))
       (concat (map (\<lambda>a. case newest_keypair (filter (\<lambda>k. kp_account k = fst a) (st_keypairs s)) of
                            None \<Rightarrow> [] | Some k \<Rightarrow> [(fst a, k)])
                    (sort_key fst (st_accounts s))))"

section \<open>Settings\<close>

text \<open>\<open>current_hash\<close> and \<open>current_text\<close> are the constants the build script generates.\<close>

record disclaimer_state =
  ds_text_md :: string
  ds_hash_hex :: string
  ds_accepted :: bool

definition get_disclaimer_state :: "string \<Rightarrow> string \<Rightarrow> string \<Rightarrow> storage \<Rightarrow> disclaimer_state \<times> storage" where
  "get_disclaimer_state current_text current_hash address s =
     (case get_or_create_account address s of (account_id, s1) \<Rightarrow>
        (\<lparr>ds_text_md = current_text, ds_hash_hex = current_hash,
          ds_accepted = (account_id, current_hash) \<in> set (st_disclaimers s1)\<rparr>, s1))"

definition accept_current_disclaimer :: "string \<Rightarrow> string \<Rightarrow> string \<Rightarrow> storage \<Rightarrow> (store_error, storage) result" where
  "accept_current_disclaimer current_hash address disclaimer_hash_hex s =
     (if disclaimer_hash_hex \<noteq> current_hash then Inl (Err DisclaimerMismatch)
      else case get_or_create_account address s of (account_id, s1) \<Rightarrow>
        if (account_id, disclaimer_hash_hex) \<in> set (st_disclaimers s1) then Inr s1
        else Inr (s1\<lparr>st_disclaimers := st_disclaimers s1 @ [(account_id, disclaimer_hash_hex)]\<rparr>))"

definition get_bootnode_config :: "storage \<Rightarrow> bool \<times> string" where
  "get_bootnode_config s = st_bootnode s"

definition set_bootnode_config :: "bool \<Rightarrow> string \<Rightarrow> storage \<Rightarrow> storage" where
  "set_bootnode_config enabled url s = s\<lparr>st_bootnode := (enabled, url)\<rparr>"

section \<open>Listing notes\<close>

record user_note_summary =
  us_id :: field_element
  us_amount :: note_amount
  us_leaf_index :: nat
  us_created_at_ledger :: nat
  us_spent :: bool

text \<open>A note joined with its commitment and the commitment's raw event.\<close>

definition note_joined :: "storage \<Rightarrow> user_note_row \<Rightarrow> (user_note_row \<times> commitment_row \<times> raw_event) list" where
  "note_joined s n =
     (case find (\<lambda>c. cr_id c = un_commitment n) (st_commitments s) of
        None \<Rightarrow> []
      | Some c \<Rightarrow> (case raw_of s (cr_event c) of None \<Rightarrow> [] | Some r \<Rightarrow> [(n, c, r)]))"

definition newest_first :: "(user_note_row \<times> commitment_row \<times> raw_event) \<Rightarrow> (user_note_row \<times> commitment_row \<times> raw_event) \<Rightarrow> bool" where
  "newest_first x y \<longleftrightarrow> re_ledger (snd (snd y)) \<le> re_ledger (snd (snd x))"

definition note_summary ::
  "user_note_row \<times> commitment_row \<times> raw_event \<Rightarrow> (store_error, user_note_summary) result" where
  "note_summary j =
     (case j of (n, c, r) \<Rightarrow>
       and_then (column_field (un_id n)) (\<lambda>i.
       and_then (col_u32 (cr_leaf_index c)) (\<lambda>leaf_index.
       and_then (col_u32 (re_ledger r)) (\<lambda>ledger.
         Inr \<lparr>us_id = i, us_amount = un_amount n, us_leaf_index = leaf_index, us_created_at_ledger = ledger,
              us_spent = (un_nullifier n \<noteq> None)\<rparr>))))"

definition list_user_notes :: "string \<Rightarrow> nat \<Rightarrow> storage \<Rightarrow> (store_error, user_note_summary list) result" where
  "list_user_notes address limit s =
     map_result note_summary (take limit (sort_by newest_first (concat (map (note_joined s)
       (filter (\<lambda>n. address_of (st_accounts s) (un_account n) = Some address) (st_user_notes s))))))"

definition list_unspent_user_notes :: "string \<Rightarrow> string \<Rightarrow> storage \<Rightarrow> (store_error, user_note_summary list) result" where
  "list_unspent_user_notes pool_contract_id address s =
     map_result note_summary (sort_by newest_first
       (filter (\<lambda>j. address_of (st_contracts s) (re_contract (snd (snd j))) = Some pool_contract_id)
         (concat (map (note_joined s)
           (filter (\<lambda>n. address_of (st_accounts s) (un_account n) = Some address \<and> un_nullifier n = None)
             (st_user_notes s))))))"

definition get_unspent_user_note_by_commitment ::
  "string \<Rightarrow> string \<Rightarrow> field_element \<Rightarrow> storage \<Rightarrow> (store_error, (note_amount \<times> field_element \<times> nat) option) result" where
  "get_unspent_user_note_by_commitment pool_contract_id account_address commitment s =
     (case filter (\<lambda>j. address_of (st_contracts s) (re_contract (snd (snd j))) = Some pool_contract_id
                      \<and> cr_commitment (fst (snd j)) = commitment)
         (concat (map (note_joined s)
           (filter (\<lambda>n. address_of (st_accounts s) (un_account n) = Some account_address \<and> un_nullifier n = None)
             (st_user_notes s)))) of
        [] \<Rightarrow> Inr None
      | (n, c, r) # _ \<Rightarrow>
          and_then (column_field (un_blinding n)) (\<lambda>blinding.
          and_then (col_u32 (cr_leaf_index c)) (\<lambda>leaf_index.
            Inr (Some (un_amount n, blinding, leaf_index)))))"

section \<open>Scanning commitments\<close>

record pool_commitment_row =
  pc_commitment_id :: nat
  pc_commitment :: field_element
  pc_leaf_index :: nat
  pc_encrypted_output :: "nat list"

record derived_note_row =
  dr_amount :: note_amount
  dr_blinding :: field_element
  dr_expected_nullifier :: field_element

type_synonym derive_note = "account_keys \<Rightarrow> pool_commitment_row \<Rightarrow> derived_note_row option option"

text \<open>The contract id of the raw event behind a derived row.\<close>

definition contract_id_of :: "storage \<Rightarrow> string \<Rightarrow> nat option" where
  "contract_id_of s ev = map_option re_contract (raw_of s ev)"

definition ACCOUNT_CHUNK :: nat where
  "ACCOUNT_CHUNK = 4"

definition saturating_add :: "nat \<Rightarrow> nat \<Rightarrow> nat" where
  "saturating_add a b = min (a + b) (2 ^ 32 - 1)"

definition saturating_mul :: "nat \<Rightarrow> nat \<Rightarrow> nat" where
  "saturating_mul a b = min (a * b) (2 ^ 32 - 1)"

fun spread_remainder :: "nat \<Rightarrow> nat \<Rightarrow> nat list \<Rightarrow> nat list" where
  "spread_remainder 0 next_pool quotas = quotas"
| "spread_remainder (Suc remainder) next_pool quotas =
     spread_remainder remainder ((next_pool + 1) mod length quotas)
       (quotas[next_pool := saturating_add (quotas ! next_pool) 1])"

definition pool_quotas :: "nat \<Rightarrow> nat \<Rightarrow> nat list" where
  "pool_quotas total_limit pool_count =
     (let base_quota = (if pool_count = 0 then 0 else if pool_count \<le> total_limit then total_limit div pool_count else 1);
          remainder = total_limit - saturating_mul base_quota pool_count
      in spread_remainder remainder 0 (replicate pool_count base_quota))"

definition read_commitment_row :: "commitment_row \<Rightarrow> (store_error, pool_commitment_row) result" where
  "read_commitment_row c =
     and_then (column_field (cr_commitment c)) (\<lambda>commitment.
     and_then (col_u32 (cr_leaf_index c)) (\<lambda>leaf_index.
       Inr \<lparr>pc_commitment_id = cr_id c, pc_commitment = commitment, pc_leaf_index = leaf_index,
            pc_encrypted_output = cr_output c\<rparr>))"

text \<open>\<open>INSERT OR IGNORE INTO user_notes\<close>: a conflict on any of the three unique columns drops the row.\<close>

definition insert_user_note :: "user_note_row \<Rightarrow> storage \<Rightarrow> storage" where
  "insert_user_note n s =
     (if un_id n \<in> un_id ` set (st_user_notes s) \<or> un_commitment n \<in> un_commitment ` set (st_user_notes s)
        \<or> (un_nullifier n \<noteq> None \<and> un_nullifier n \<in> un_nullifier ` set (st_user_notes s))
      then s else s\<lparr>st_user_notes := st_user_notes s @ [n]\<rparr>)"

definition scan_row ::
  "derive_note \<Rightarrow> nat \<Rightarrow> account_keys \<Rightarrow> pool_commitment_row \<Rightarrow> nat \<times> storage \<Rightarrow> (store_error, nat \<times> storage) result" where
  "scan_row derive pool account row st =
     (case st of (max_scanned_id, s) \<Rightarrow>
        let max_id = max max_scanned_id (pc_commitment_id row) in
        and_then (ok_or (derive account row) DeriveFailed) (\<lambda>derived.
        case derived of
          None \<Rightarrow> Inr (max_id, s)
        | Some d \<Rightarrow>
            let nullifier_id = map_option nr_id (find (\<lambda>n. contract_id_of s (nr_event n) = Some pool
                  \<and> nr_nullifier n = dr_expected_nullifier d) (st_nullifiers s)) in
            Inr (max_id, insert_user_note \<lparr>un_id = pc_commitment row, un_account = ak_account_id account,
                un_commitment = pc_commitment_id row, un_nullifier = nullifier_id,
                un_expected = dr_expected_nullifier d, un_blinding = dr_blinding d, un_amount = dr_amount d\<rparr> s)))"

definition scan_account ::
  "derive_note \<Rightarrow> nat \<Rightarrow> account_keys \<Rightarrow> nat \<times> bool \<times> storage \<Rightarrow> (store_error, nat \<times> bool \<times> storage) result" where
  "scan_account derive pool account st =
     (case st of (pool_quota, progressed, s) \<Rightarrow>
       if pool_quota = 0 then Inr st
       else
         and_then (ok_or (st_commitment_scan s (pool, ak_account_id account)) NoSuchRow) (\<lambda>last_commitment_id.
         let quota = min pool_quota ACCOUNT_CHUNK in
         and_then (map_result read_commitment_row (take quota (sort_key cr_id
             (filter (\<lambda>c. contract_id_of s (cr_event c) = Some pool \<and> last_commitment_id < cr_id c) (st_commitments s)))))
           (\<lambda>commitments.
         if commitments = [] then Inr st
         else
           and_then (fold_result (scan_row derive pool account) commitments (last_commitment_id, s)) (\<lambda>(max_scanned_id, s1).
             Inr (pool_quota - length commitments, True,
               s1\<lparr>st_commitment_scan := (st_commitment_scan s1)((pool, ak_account_id account) \<mapsto> max_scanned_id)\<rparr>)))))"

definition scan_cycle ::
  "derive_note \<Rightarrow> nat \<Rightarrow> account_keys list \<Rightarrow> nat \<Rightarrow> storage \<Rightarrow> (store_error, nat \<times> bool \<times> storage) result" where
  "scan_cycle derive pool accounts pool_quota s = fold_result (scan_account derive pool) accounts (pool_quota, False, s)"

lemma map_result_length: "map_result f xs = Inr ys \<Longrightarrow> length ys = length xs"
  by (induction xs arbitrary: ys) (auto simp: result_simps)

lemma scan_account_quota:
  assumes "scan_account derive pool account (q, p, s) = Inr (q', p', s')"
  shows "q' \<le> q \<and> (p' \<and> \<not> p \<longrightarrow> q' < q)"
proof (cases "q = 0")
  case True
  with assms show ?thesis by (simp add: scan_account_def)
next
  case False
  note run = assms [unfolded scan_account_def prod.case Let_def if_not_P [OF False]]
  from run obtain last cs where "(if cs = [] then Inr (q, p, s)
      else and_then (fold_result (scan_row derive pool account) cs (last, s)) (\<lambda>(m, s1). Inr (q - length cs, True,
        s1\<lparr>st_commitment_scan := (st_commitment_scan s1)((pool, ak_account_id account) \<mapsto> m)\<rparr>))) = Inr (q', p', s')"
    by (elim and_then_Inr [THEN iffD1, elim_format] exE conjE) blast
  then show ?thesis using False by (auto simp: and_then_Inr split: if_splits prod.splits)
qed

lemma scan_cycle_quota:
  assumes "scan_cycle derive pool accounts q s = Inr (q', True, s')"
  shows "q' < q"
proof -
  let ?P = "\<lambda>st. fst st \<le> q \<and> (fst (snd st) \<longrightarrow> fst st < q)"
  have "?P (q', True, s')"
    using assms unfolding scan_cycle_def
    by (rule fold_result_invariant [where P = ?P]) (use scan_account_quota in fastforce)+
  then show ?thesis by simp
qed

function scan_pool_loop ::
  "derive_note \<Rightarrow> nat \<Rightarrow> account_keys list \<Rightarrow> nat \<Rightarrow> bool \<Rightarrow> storage \<Rightarrow> (store_error, bool \<times> storage) result" where
  "scan_pool_loop derive pool accounts pool_quota did_progress s =
     (if pool_quota = 0 then Inr (did_progress, s)
      else case scan_cycle derive pool accounts pool_quota s of
             Inl e \<Rightarrow> Inl e
           | Inr (quota, progressed, s') \<Rightarrow>
               if progressed then scan_pool_loop derive pool accounts quota True s' else Inr (did_progress, s'))"
  by pat_completeness auto
termination by (relation "measure (\<lambda>(derive, pool, accounts, quota, did, s). quota)")
  (auto dest: scan_cycle_quota)

declare scan_pool_loop.simps [simp del]

definition open_scans :: "nat \<Rightarrow> account_keys list \<Rightarrow> storage \<Rightarrow> storage" where
  "open_scans pool accounts s =
     s\<lparr>st_commitment_scan := fold (\<lambda>a m. if m (pool, ak_account_id a) = None then m((pool, ak_account_id a) \<mapsto> 0) else m)
        accounts (st_commitment_scan s)\<rparr>"

definition scan_pool ::
  "derive_note \<Rightarrow> account_keys list \<Rightarrow> nat \<Rightarrow> nat \<Rightarrow> storage \<Rightarrow> (store_error, bool \<times> storage) result" where
  "scan_pool derive accounts pool pool_quota s =
     scan_pool_loop derive pool accounts pool_quota False (open_scans pool accounts s)"

text \<open>One transaction per pool: an error keeps what the pools before it committed.\<close>

fun scan_pools ::
  "derive_note \<Rightarrow> account_keys list \<Rightarrow> (nat \<times> nat) list \<Rightarrow> bool \<Rightarrow> storage \<Rightarrow> (store_error, bool) result \<times> storage" where
  "scan_pools derive accounts [] did_any s = (Inr did_any, s)"
| "scan_pools derive accounts ((pool, quota) # pools) did_any s =
     (if quota = 0 then scan_pools derive accounts pools did_any s
      else case scan_pool derive accounts pool quota s of
             Inl e \<Rightarrow> (Inl e, s)
           | Inr (did, s') \<Rightarrow> scan_pools derive accounts pools (did_any \<or> did) s')"

definition pool_ids_of :: "storage \<Rightarrow> string list \<Rightarrow> nat list" where
  "pool_ids_of s evs = sort (remdups (concat (map (\<lambda>ev. case contract_id_of s ev of None \<Rightarrow> [] | Some i \<Rightarrow> [i]) evs)))"

definition scan_commitments_for_user_notes ::
  "derive_note \<Rightarrow> nat \<Rightarrow> storage \<Rightarrow> (store_error, bool) result \<times> storage" where
  "scan_commitments_for_user_notes derive total_limit s =
     (case get_accounts_with_latest_keypairs s of
        Inl e \<Rightarrow> (Inl e, s)
      | Inr accounts \<Rightarrow>
          let pool_ids = pool_ids_of s (map cr_event (st_commitments s)) in
          if accounts = [] \<or> total_limit = 0 \<or> pool_ids = [] then (Inr False, s)
          else if \<not> fits 32 (length pool_ids) then (Inl (Err CountOverflow), s)
          else scan_pools derive accounts (zip pool_ids (pool_quotas total_limit (length pool_ids))) False s)"

section \<open>Reconciling nullifiers\<close>

text \<open>The \<open>UPDATE\<close> fails when it would give two notes the same \<open>nullifier_id\<close>.\<close>

definition spends :: "nat \<Rightarrow> field_element \<Rightarrow> storage \<Rightarrow> user_note_row \<Rightarrow> bool" where
  "spends pool nullifier s n \<longleftrightarrow> un_nullifier n = None \<and> un_expected n = nullifier
     \<and> (\<exists>c\<in>set (st_commitments s). cr_id c = un_commitment n \<and> contract_id_of s (cr_event c) = Some pool)"

definition mark_notes_spent :: "nat \<Rightarrow> nullifier_row \<Rightarrow> storage \<Rightarrow> (store_error, storage) result" where
  "mark_notes_spent pool r s =
     (let hits = filter (spends pool (nr_nullifier r) s) (st_user_notes s) in
      if hits \<noteq> [] \<and> (Suc 0 < length hits \<or> Some (nr_id r) \<in> un_nullifier ` set (st_user_notes s))
      then Inl (Err ConstraintFailed)
      else Inr (s\<lparr>st_user_notes := map (\<lambda>n. if spends pool (nr_nullifier r) s n
                   then n\<lparr>un_nullifier := Some (nr_id r)\<rparr> else n) (st_user_notes s)\<rparr>))"

definition read_nullifier_row :: "nullifier_row \<Rightarrow> (store_error, nullifier_row) result" where
  "read_nullifier_row r = and_then (column_field (nr_nullifier r)) (\<lambda>_. Inr r)"

definition reconcile_pool :: "nat \<Rightarrow> nat \<Rightarrow> storage \<Rightarrow> (store_error, bool \<times> storage) result" where
  "reconcile_pool limit pool s =
     (let last_nullifier_id = unwrap_or (st_nullifier_scan s pool) 0;
          s1 = s\<lparr>st_nullifier_scan := (st_nullifier_scan s)(pool \<mapsto> last_nullifier_id)\<rparr> in
      and_then (map_result read_nullifier_row (take limit (sort_key nr_id
          (filter (\<lambda>n. contract_id_of s1 (nr_event n) = Some pool \<and> last_nullifier_id < nr_id n) (st_nullifiers s1)))))
        (\<lambda>nullifiers.
      and_then (fold_result (mark_notes_spent pool) nullifiers s1) (\<lambda>s2.
        let max_id = fold (\<lambda>r m. max m (nr_id r)) nullifiers last_nullifier_id in
        Inr (nullifiers \<noteq> [],
          if last_nullifier_id < max_id then s2\<lparr>st_nullifier_scan := (st_nullifier_scan s2)(pool \<mapsto> max_id)\<rparr> else s2))))"

fun reconcile_pools :: "nat \<Rightarrow> nat list \<Rightarrow> bool \<Rightarrow> storage \<Rightarrow> (store_error, bool) result \<times> storage" where
  "reconcile_pools limit [] did_any s = (Inr did_any, s)"
| "reconcile_pools limit (pool # pools) did_any s =
     (case reconcile_pool limit pool s of
        Inl e \<Rightarrow> (Inl e, s)
      | Inr (did, s') \<Rightarrow> reconcile_pools limit pools (did_any \<or> did) s')"

definition reconcile_nullifiers :: "nat \<Rightarrow> storage \<Rightarrow> (store_error, bool) result \<times> storage" where
  "reconcile_nullifiers limit s =
     (let pool_ids = pool_ids_of s (map nr_event (st_nullifiers s)) in
      if limit = 0 \<or> pool_ids = [] then (Inr False, s)
      else reconcile_pools limit pool_ids False s)"

definition process_notes :: "derive_note \<Rightarrow> nat \<Rightarrow> storage \<Rightarrow> (store_error, bool) result \<times> storage" where
  "process_notes derive limit s =
     (case scan_commitments_for_user_notes derive limit s of
        (Inl e, s1) \<Rightarrow> (Inl e, s1)
      | (Inr did, s1) \<Rightarrow> (case reconcile_nullifiers limit s1 of
            (Inl e, s2) \<Rightarrow> (Inl e, s2)
          | (Inr did', s2) \<Rightarrow> (Inr (did \<or> did'), s2)))"

end
