(* ===== verification/StoreTables.thy ===== *)
theory StoreTables
  imports ChainStore
begin

text \<open>
  The derived tables of the local store. Each is fed from the raw events by one key that its
  \<open>ON CONFLICT\<close> clause names; the locales \<open>derived_table\<close> and \<open>fed_table\<close> state what the four of
  them share, and their facts give the invariant of the store (\<open>store_inv\<close>) and what one run of the
  event processor does (\<open>process_run\<close>).
\<close>

section \<open>Topics\<close>

lemma split_plain: "CHR '','' \<notin> set t \<Longrightarrow> split_topics t = [t]"
  by (induction t) auto

lemma split_append: "CHR '','' \<notin> set t \<Longrightarrow> split_topics (t @ CHR '','' # r) = t # split_topics r"
  by (induction t) auto

lemma split_join:
  "ts \<noteq> [] \<Longrightarrow> \<forall>t\<in>set ts. CHR '','' \<notin> set t \<Longrightarrow> split_topics (join_topics ts) = ts"
  by (induction ts rule: join_topics.induct) (auto simp: split_plain split_append)

section \<open>Fields and leaf lists\<close>

lemma column_field_Inr: "column_field f = Inr g \<longleftrightarrow> canonical (field_value f) \<and> g = f"
  by (cases f) (auto simp: column_field_def try_from_le_bytes_def field_to_le_bytes_def result_simps
      try_from_u256_def canonical_def not_le)

lemma push_leaf_Inr:
  "push_leaf row (n, acc) = Inr r \<Longrightarrow> fst row = n \<and> r = (Suc n, acc @ [snd row])"
  by (auto simp: push_leaf_def result_simps col_u32_def column_field_Inr checked_add_Some split: if_splits)

lemma push_leaves_Inr:
  "fold_result push_leaf rows (n, acc) = Inr (m, ls) \<Longrightarrow>
    map fst rows = [n..<n + length rows] \<and> ls = acc @ map snd rows \<and> m = n + length rows"
proof (induction rows arbitrary: n acc)
  case (Cons row rows)
  then have "fst row = n" "fold_result push_leaf rows (Suc n, acc @ [snd row]) = Inr (m, ls)"
    by (auto simp: result_simps dest: push_leaf_Inr)
  with Cons.IH [OF this(2)] show ?case by (simp add: upt_rec)
qed simp

lemma push_leaves_run:
  "map fst rows = [n..<n + length rows] \<Longrightarrow> n + length rows < 2 ^ 32 \<Longrightarrow>
    \<forall>row\<in>set rows. canonical (field_value (snd row)) \<Longrightarrow>
    fold_result push_leaf rows (n, acc) = Inr (n + length rows, acc @ map snd rows)"
proof (induction rows arbitrary: n acc)
  case (Cons row rows)
  then have row: "fst row = n" "map fst rows = [Suc n..<Suc n + length rows]"
    by (simp_all add: upt_rec)
  have "column_field (snd row) = Inr (snd row)" using Cons.prems by (simp add: column_field_Inr)
  moreover have "checked_add 32 n 1 = Some (Suc n)" using Cons.prems by (simp add: checked_add_Some)
  ultimately have "push_leaf row (n, acc) = Inr (Suc n, acc @ [snd row])"
    using row Cons.prems by (simp add: push_leaf_def col_u32_def fits_def)
  with Cons.IH [of "Suc n"] row Cons.prems show ?case by simp
qed simp

section \<open>Derived tables\<close>

locale derived_table =
  fixes rows :: "storage \<Rightarrow> 'r list"
    and put :: "'r list \<Rightarrow> storage \<Rightarrow> storage"
    and key :: "'r \<Rightarrow> 'k" and event :: "'r \<Rightarrow> string"
    and make :: "'r list \<Rightarrow> 'e \<Rightarrow> 'r"
    and evkey :: "'e \<Rightarrow> 'k" and evid :: "'e \<Rightarrow> string"
    and save :: "'e \<Rightarrow> storage \<Rightarrow> (store_error, storage) result"
  assumes save_run: "save e s =
      (if evkey e \<in> key ` set (rows s) then Inr s
       else and_then (ensure (evid e \<notin> event ` set (rows s) \<and> raw_of s (evid e) \<noteq> None) ConstraintFailed)
         (\<lambda>_. Inr (put (rows s @ [make (rows s) e]) s)))"
    and made: "key (make rs e) = evkey e" "event (make rs e) = evid e"
    and rows_put: "rows (put rs s) = rs" and put_rows: "put (rows s) s = s"
    and put_put: "put rs (put rs' s) = put rs s" and put_raw: "st_raw (put rs s) = st_raw s"
begin

lemma raw_of_put: "raw_of (put rs s) ev = raw_of s ev"
  by (simp add: raw_of_def put_raw)

lemma batch_run:
  assumes "distinct (map evid evs)" and "\<forall>e\<in>set evs. raw_of s (evid e) \<noteq> None \<and> evid e \<notin> event ` set (rows s)"
  shows "\<exists>new. fold_result save evs s = Inr (put (rows s @ new) s)
    \<and> (\<forall>r\<in>set new. \<exists>e\<in>set evs. \<exists>rs. r = make rs e)
    \<and> key ` set (rows s @ new) = key ` set (rows s) \<union> evkey ` set evs
    \<and> (distinct (map key (rows s)) \<longrightarrow> distinct (map key (rows s @ new)))
    \<and> (distinct (map event (rows s)) \<longrightarrow> distinct (map event (rows s @ new)))
    \<and> (distinct (map evkey evs) \<and> evkey ` set evs \<inter> key ` set (rows s) = {} \<longrightarrow> map event new = map evid evs)"
  using assms
proof (induction evs arbitrary: s)
  case Nil
  show ?case by (intro exI [of _ "[]"]) (simp add: put_rows)
next
  case (Cons e evs)
  show ?case
  proof (cases "evkey e \<in> key ` set (rows s)")
    case True
    then have "save e s = Inr s" by (simp add: save_run)
    with Cons.IH [of s] Cons.prems True show ?thesis by (auto simp: insert_absorb)
  next
    case False
    let ?r = "make (rows s) e" and ?s = "put (rows s @ [make (rows s) e]) s"
    have run: "save e s = Inr ?s" using False Cons.prems by (simp add: save_run)
    have "evid e' \<noteq> evid e" if "e' \<in> set evs" for e'
      using Cons.prems(1) that by (auto simp: image_iff)
    then have "\<forall>e'\<in>set evs. raw_of ?s (evid e') \<noteq> None \<and> evid e' \<notin> event ` set (rows ?s)"
      using Cons.prems(2) by (auto simp: raw_of_put rows_put made)
    with Cons.IH [of ?s] Cons.prems obtain new where
      new: "fold_result save evs ?s = Inr (put (rows ?s @ new) ?s)"
        "\<forall>r\<in>set new. \<exists>e\<in>set evs. \<exists>rs. r = make rs e"
        "key ` set (rows ?s @ new) = key ` set (rows ?s) \<union> evkey ` set evs"
        "distinct (map key (rows ?s)) \<longrightarrow> distinct (map key (rows ?s @ new))"
        "distinct (map event (rows ?s)) \<longrightarrow> distinct (map event (rows ?s @ new))"
        "distinct (map evkey evs) \<and> evkey ` set evs \<inter> key ` set (rows ?s) = {} \<longrightarrow> map event new = map evid evs"
      by auto
    have "fold_result save (e # evs) s = Inr (put (rows s @ (?r # new)) s)"
      using new(1) by (simp add: run rows_put put_put)
    moreover have "\<forall>r\<in>set (?r # new). \<exists>e\<in>set (e # evs). \<exists>rs. r = make rs e"
      using new(2) by auto
    moreover have "key ` set (rows s @ (?r # new)) = key ` set (rows s) \<union> evkey ` set (e # evs)"
      using new(3) by (auto simp: rows_put made)
    moreover have "distinct (map key (rows s)) \<longrightarrow> distinct (map key (rows s @ (?r # new)))"
      using new(4) False by (simp add: rows_put made)
    moreover have "distinct (map event (rows s)) \<longrightarrow> distinct (map event (rows s @ (?r # new)))"
      using new(5) Cons.prems by (simp add: rows_put made)
    moreover have "distinct (map evkey (e # evs)) \<and> evkey ` set (e # evs) \<inter> key ` set (rows s) = {} \<longrightarrow>
        map event (?r # new) = map evid (e # evs)"
      using new(6) by (auto simp: rows_put made)
    ultimately show ?thesis by blast
  qed
qed

lemma batch_skip: "\<forall>e\<in>set evs. evkey e \<in> key ` set (rows s) \<Longrightarrow> fold_result save evs s = Inr s"
  by (induction evs) (simp_all add: save_run)

end

definition put_nullifiers :: "nullifier_row list \<Rightarrow> storage \<Rightarrow> storage" where
  "put_nullifiers rs s = s\<lparr>st_nullifiers := rs\<rparr>"

definition put_commitments :: "commitment_row list \<Rightarrow> storage \<Rightarrow> storage" where
  "put_commitments rs s = s\<lparr>st_commitments := rs\<rparr>"

definition put_public_keys :: "public_key_row list \<Rightarrow> storage \<Rightarrow> storage" where
  "put_public_keys rs s = s\<lparr>st_public_keys := rs\<rparr>"

definition put_asp_leaves :: "asp_leaf_row list \<Rightarrow> storage \<Rightarrow> storage" where
  "put_asp_leaves rs s = s\<lparr>st_asp_leaves := rs\<rparr>"

definition nullifier_made :: "nullifier_row list \<Rightarrow> string \<times> field_element \<Rightarrow> nullifier_row" where
  "nullifier_made rs e = \<lparr>nr_id = fresh_id (map nr_id rs), nr_nullifier = snd e, nr_event = fst e\<rparr>"

definition commitment_made :: "commitment_row list \<Rightarrow> string \<times> field_element \<times> nat \<times> nat list \<Rightarrow> commitment_row" where
  "commitment_made rs e = (case e of (eid, c, i, out) \<Rightarrow>
     \<lparr>cr_id = fresh_id (map cr_id rs), cr_commitment = c, cr_leaf_index = i, cr_output = out, cr_event = eid\<rparr>)"

definition public_key_made :: "public_key_row list \<Rightarrow> string \<times> string \<times> nat list \<times> nat list \<Rightarrow> public_key_row" where
  "public_key_made rs e = (case e of (eid, owner, ek, nk) \<Rightarrow>
     \<lparr>pk_owner = owner, pk_encryption_key = ek, pk_note_key = nk, pk_event = eid\<rparr>)"

definition asp_leaf_made :: "asp_leaf_row list \<Rightarrow> string \<times> field_element \<times> nat \<times> field_element \<Rightarrow> asp_leaf_row" where
  "asp_leaf_made rs e = (case e of (eid, leaf, index, root) \<Rightarrow>
     \<lparr>al_index = index, al_leaf = leaf, al_root = root, al_event = eid\<rparr>)"

interpretation nullifier_table: derived_table st_nullifiers put_nullifiers nr_nullifier nr_event nullifier_made snd fst
    save_nullifier
  by unfold_locales (auto simp: put_nullifiers_def nullifier_made_def save_nullifier_def split: prod.splits)

interpretation commitment_table: derived_table st_commitments put_commitments cr_commitment cr_event commitment_made
    "\<lambda>e. fst (snd e)" fst save_commitment
  by unfold_locales (auto simp: put_commitments_def commitment_made_def save_commitment_def split: prod.splits)

interpretation public_key_table: derived_table st_public_keys put_public_keys pk_event pk_event public_key_made
    fst fst save_public_key
  by unfold_locales (auto simp: put_public_keys_def public_key_made_def save_public_key_def split: prod.splits)

interpretation asp_leaf_table: derived_table st_asp_leaves put_asp_leaves al_index al_event asp_leaf_made
    "\<lambda>e. fst (snd (snd e))" fst save_leaf_added
  by unfold_locales (auto simp: put_asp_leaves_def asp_leaf_made_def save_leaf_added_def split: prod.splits)

section \<open>What an event claims\<close>

text \<open>
  Each table has one key that its \<open>ON CONFLICT\<close> clause names. An event that parses into a saved
  kind claims its key.
\<close>

datatype claim = OfNullifier field_element | OfCommitment field_element | OfRegistration string | OfLeaf nat

fun claim_of :: "processed_event \<Rightarrow> claim option" where
  "claim_of (Nullifier eid n) = Some (OfNullifier n)"
| "claim_of (Commitment eid c i e) = Some (OfCommitment c)"
| "claim_of (PublicKey eid ow ek nk) = Some (OfRegistration eid)"
| "claim_of (AspLeafAdded eid l i r) = Some (OfLeaf i)"
| "claim_of (SmtLeafInserted eid k v r) = None"
| "claim_of (SmtLeafUpdated eid k ov nv r) = None"
| "claim_of (SmtLeafDeleted eid k r) = None"

definition claim :: "xdr_host \<Rightarrow> contract_event \<Rightarrow> claim option" where
  "claim env ce = (case parse_event env ce of Inl _ \<Rightarrow> None | Inr p \<Rightarrow> claim_of p)"

fun event_id :: "processed_event \<Rightarrow> string" where
  "event_id (Nullifier eid n) = eid"
| "event_id (Commitment eid c i e) = eid"
| "event_id (PublicKey eid ow ek nk) = eid"
| "event_id (AspLeafAdded eid l i r) = eid"
| "event_id (SmtLeafInserted eid k v r) = eid"
| "event_id (SmtLeafUpdated eid k ov nv r) = eid"
| "event_id (SmtLeafDeleted eid k r) = eid"

lemma parse_event_metadata_id: "parse_event_metadata env ce = Inr parsed \<Longrightarrow> pe_id parsed = ce_id ce"
  by (auto simp: parse_event_metadata_def result_simps)

lemma parse_event_id:
  assumes "parse_event env ce = Inr p"
  shows "event_id p = ce_id ce"
proof -
  from assms obtain parsed where parsed: "parse_event_metadata env ce = Inr parsed"
    by (auto simp: parse_event_def result_simps)
  note parsers = parse_new_nullifier_event_def parse_new_commitment_event_def parse_public_key_event_def
    parse_leaf_added_def parse_leaf_inserted_def parse_leaf_updated_def parse_leaf_deleted_def
  from assms parsed have "event_id p = pe_id parsed"
    by (auto simp: parse_event_def result_simps parsers split: if_splits)
  with parse_event_metadata_id [OF parsed] show ?thesis by simp
qed

section \<open>The parsed batch\<close>

definition nullifiers_in :: "xdr_host \<Rightarrow> contract_event \<Rightarrow> (string \<times> field_element) list" where
  "nullifiers_in env ce = (case parse_event env ce of Inr (Nullifier eid n) \<Rightarrow> [(eid, n)] | _ \<Rightarrow> [])"

definition commitments_in :: "xdr_host \<Rightarrow> contract_event \<Rightarrow> (string \<times> field_element \<times> nat \<times> nat list) list" where
  "commitments_in env ce = (case parse_event env ce of Inr (Commitment eid c i e) \<Rightarrow> [(eid, c, i, e)] | _ \<Rightarrow> [])"

definition pubkeys_in :: "xdr_host \<Rightarrow> contract_event \<Rightarrow> (string \<times> string \<times> nat list \<times> nat list) list" where
  "pubkeys_in env ce = (case parse_event env ce of Inr (PublicKey eid ow ek nk) \<Rightarrow> [(eid, ow, ek, nk)] | _ \<Rightarrow> [])"

definition leaves_in :: "xdr_host \<Rightarrow> contract_event \<Rightarrow> (string \<times> field_element \<times> nat \<times> field_element) list" where
  "leaves_in env ce = (case parse_event env ce of Inr (AspLeafAdded eid l i r) \<Rightarrow> [(eid, l, i, r)] | _ \<Rightarrow> [])"

lemmas parts_in = nullifiers_in_def commitments_in_def pubkeys_in_def leaves_in_def

lemma collect_events:
  "fold (collect_event env) ces b = \<lparr>
     pb_nullifiers = pb_nullifiers b @ concat (map (nullifiers_in env) ces),
     pb_commitments = pb_commitments b @ concat (map (commitments_in env) ces),
     pb_pubkeys = pb_pubkeys b @ concat (map (pubkeys_in env) ces),
     pb_leaves = pb_leaves b @ concat (map (leaves_in env) ces)\<rparr>"
proof (induction ces arbitrary: b)
  case (Cons ce ces)
  show ?case
  proof (cases "parse_event env ce")
    case (Inl e)
    with Cons show ?thesis by (simp add: collect_event_def parts_in)
  next
    case (Inr p)
    with Cons show ?thesis by (cases p) (simp_all add: collect_event_def parts_in)
  qed
qed simp

lemma part_ids:
  "map fst (nullifiers_in env ce) = (if nullifiers_in env ce = [] then [] else [ce_id ce])"
  "map fst (commitments_in env ce) = (if commitments_in env ce = [] then [] else [ce_id ce])"
  "map fst (pubkeys_in env ce) = (if pubkeys_in env ce = [] then [] else [ce_id ce])"
  "map fst (leaves_in env ce) = (if leaves_in env ce = [] then [] else [ce_id ce])"
  using parse_event_id [of env ce] by (auto simp: parts_in split: sum.splits processed_event.splits)

lemma parts_distinct:
  assumes "\<And>ce. map fst (f ce) = (if f ce = [] then [] else [ce_id ce])" and "distinct (map ce_id ces)"
  shows "distinct (map fst (concat (map f ces))) \<and> fst ` set (concat (map f ces)) \<subseteq> ce_id ` set ces"
  using assms(2)
proof (induction ces)
  case (Cons ce ces)
  have one: "set (map fst (f ce)) \<subseteq> {ce_id ce}" by (simp only: assms(1)) simp
  moreover have "distinct (map fst (f ce))" by (simp only: assms(1)) simp
  moreover have IH: "distinct (map fst (concat (map f ces)))" "fst ` set (concat (map f ces)) \<subseteq> ce_id ` set ces"
    using Cons by simp_all
  moreover have "set (map fst (f ce)) \<inter> set (map fst (concat (map f ces))) = {}"
  proof -
    have "set (map fst (concat (map f ces))) \<subseteq> ce_id ` set ces" using IH(2) by (simp only: set_map)
    moreover have "ce_id ce \<notin> ce_id ` set ces" using Cons.prems by simp
    ultimately show ?thesis using one by blast
  qed
  ultimately have "distinct (map fst (f ce) @ map fst (concat (map f ces)))"
    unfolding distinct_append by blast
  moreover have "fst ` set (f ce) \<subseteq> {ce_id ce}" using one by simp
  ultimately show ?case using IH(2) by (simp add: image_Un) blast
qed simp

section \<open>The store and the chain\<close>

text \<open>
  \<open>chain\<close> stands for the events of the network: their identifiers are unique, and a topic is base64
  text, which has no comma.
\<close>

definition chain_ok :: "contract_event set \<Rightarrow> bool" where
  "chain_ok chain \<longleftrightarrow> inj_on ce_id chain
     \<and> (\<forall>ce\<in>chain. ce_topics ce \<noteq> [] \<and> (\<forall>t\<in>set (ce_topics ce). CHR '','' \<notin> set t))"

definition stored_as :: "storage \<Rightarrow> raw_event \<Rightarrow> contract_event \<Rightarrow> bool" where
  "stored_as s r ce \<longleftrightarrow> re_id r = ce_id ce \<and> re_ledger r = ce_ledger ce
     \<and> address_of (st_contracts s) (re_contract r) = Some (ce_contract_id ce)
     \<and> re_topics r = join_topics (ce_topics ce) \<and> re_value r = ce_value ce"

definition raw_inv :: "contract_event set \<Rightarrow> storage \<Rightarrow> bool" where
  "raw_inv chain s \<longleftrightarrow> distinct (map fst (st_contracts s)) \<and> distinct (map snd (st_contracts s))
     \<and> distinct (map re_id (st_raw s)) \<and> (\<forall>r\<in>set (st_raw s). \<exists>ce\<in>chain. stored_as s r ce)"

definition ingested :: "contract_event set \<Rightarrow> storage \<Rightarrow> contract_event set" where
  "ingested chain s = {ce \<in> chain. ce_id ce \<in> re_id ` set (st_raw s)}"

lemma raw_of_ingested:
  assumes "raw_inv chain s" and "chain_ok chain" and "ce \<in> ingested chain s"
  shows "\<exists>r. raw_of s (ce_id ce) = Some r \<and> r \<in> set (st_raw s) \<and> stored_as s r ce"
proof -
  from assms(3) obtain r0 where "r0 \<in> set (st_raw s)" "re_id r0 = ce_id ce" "ce \<in> chain"
    by (auto simp: ingested_def)
  then have "raw_of s (ce_id ce) \<noteq> None" by (auto simp: raw_of_def find_None_iff)
  then obtain r where r: "raw_of s (ce_id ce) = Some r" by blast
  then have m: "r \<in> set (st_raw s)" "re_id r = ce_id ce" by (auto simp: raw_of_def find_Some_iff)
  with assms(1) obtain ce' where "ce' \<in> chain" "stored_as s r ce'" by (auto simp: raw_inv_def)
  moreover from this m(2) assms(2) \<open>ce \<in> chain\<close> have "ce' = ce"
    by (auto simp: stored_as_def chain_ok_def inj_on_def)
  ultimately show ?thesis using r m by blast
qed

lemma contract_of_ingested:
  assumes "raw_inv chain s" and "chain_ok chain" and "ce \<in> ingested chain s"
  shows "contract_of s (ce_id ce) = Some (ce_contract_id ce)"
  using raw_of_ingested [OF assms] by (auto simp: contract_of_def stored_as_def)

lemma ingested_of_raw:
  assumes "raw_inv chain s" and "r \<in> set (st_raw s)"
  obtains ce where "ce \<in> ingested chain s" and "stored_as s r ce"
proof -
  from assms obtain ce where "ce \<in> chain" "stored_as s r ce" by (auto simp: raw_inv_def)
  moreover from this assms(2) have "ce_id ce \<in> re_id ` set (st_raw s)"
    unfolding stored_as_def by (metis imageI)
  ultimately have "ce \<in> ingested chain s" by (simp add: ingested_def)
  with that \<open>stored_as s r ce\<close> show thesis by blast
qed

section \<open>Ingestion\<close>

lemma fresh_id_greater: "i \<in> set ids \<Longrightarrow> i < fresh_id ids"
proof -
  have "m \<le> fold max ids (m::nat) \<and> (\<forall>i\<in>set ids. i \<le> fold max ids m)" for m
  proof (induction ids arbitrary: m)
    case (Cons a ids)
    from Cons [of "max a m"] show ?case by auto
  qed simp
  then show "i \<in> set ids \<Longrightarrow> i < fresh_id ids" by (auto simp: fresh_id_def less_Suc_eq_le)
qed

lemma address_of_member:
  "distinct (map fst cs) \<Longrightarrow> address_of cs i = Some a \<longleftrightarrow> (i, a) \<in> set cs"
proof (induction cs)
  case (Cons c cs)
  then show ?case by (cases c) (auto simp: address_of_def image_iff)
qed (simp add: address_of_def)

lemma contract_id_run:
  assumes "distinct (map fst (st_contracts s))" and "distinct (map snd (st_contracts s))"
    and "get_or_create_contract_id a s = (i, s')"
  shows "distinct (map fst (st_contracts s')) \<and> distinct (map snd (st_contracts s'))
    \<and> (\<exists>cs. s' = s\<lparr>st_contracts := cs\<rparr>) \<and> address_of (st_contracts s') i = Some a
    \<and> (\<forall>j b. address_of (st_contracts s) j = Some b \<longrightarrow> address_of (st_contracts s') j = Some b)"
proof (cases "find (\<lambda>c. snd c = a) (st_contracts s)")
  case None
  let ?i = "fresh_id (map fst (st_contracts s))"
  have s': "i = ?i" "s' = s\<lparr>st_contracts := st_contracts s @ [(?i, a)]\<rparr>"
    using assms(3) None by (auto simp: get_or_create_contract_id_def Let_def)
  have fresh: "?i \<notin> fst ` set (st_contracts s)"
    using fresh_id_greater [of ?i "map fst (st_contracts s)"] by auto
  moreover have "a \<notin> snd ` set (st_contracts s)" using None by (auto simp: find_None_iff)
  ultimately have d: "distinct (map fst (st_contracts s'))" "distinct (map snd (st_contracts s'))"
    using assms by (auto simp: s')
  show ?thesis using d assms(1) by (auto simp: s'(1) address_of_member) (auto simp: s')
next
  case (Some c)
  then have s': "i = fst c" "s' = s" using assms(3) by (auto simp: get_or_create_contract_id_def)
  from Some have "c \<in> set (st_contracts s)" "snd c = a" by (auto simp: find_Some_iff)
  then show ?thesis using assms(1,2) by (cases c) (auto simp: s' address_of_member intro: exI [of _ "st_contracts s"])
qed

lemma stored_as_mono:
  "stored_as s r ce \<Longrightarrow> (\<And>j b. address_of (st_contracts s) j = Some b \<Longrightarrow> address_of (st_contracts s') j = Some b) \<Longrightarrow>
    stored_as s' r ce"
  by (auto simp: stored_as_def)

lemma self_update: "s = s\<lparr>st_contracts := st_contracts s, st_raw := st_raw s\<rparr>" for s :: storage
  by (cases s) simp

lemma save_event_run:
  assumes "raw_inv chain s" and "chain_ok chain" and "ce \<in> chain"
  shows "raw_inv chain (save_event ce s) \<and> ingested chain (save_event ce s) = insert ce (ingested chain s)
    \<and> (\<exists>cs rs. save_event ce s = s\<lparr>st_contracts := cs, st_raw := rs\<rparr>)"
proof -
  obtain i s1 where i: "get_or_create_contract_id (ce_contract_id ce) s = (i, s1)" by fastforce
  from assms(1) have d: "distinct (map fst (st_contracts s))" "distinct (map snd (st_contracts s))"
    "distinct (map re_id (st_raw s))" "\<forall>r\<in>set (st_raw s). \<exists>ce\<in>chain. stored_as s r ce"
    by (simp_all add: raw_inv_def)
  from contract_id_run [OF d(1,2) i] obtain cs where s1: "s1 = s\<lparr>st_contracts := cs\<rparr>"
    and cs: "distinct (map fst cs)" "distinct (map snd cs)" "address_of cs i = Some (ce_contract_id ce)"
    and keep: "\<And>j b. address_of (st_contracts s) j = Some b \<Longrightarrow> address_of cs j = Some b"
    by auto
  have old: "\<forall>r\<in>set (st_raw s). \<exists>ce\<in>chain. stored_as s1 r ce"
    using d(4) stored_as_mono [of s _ _ s1] keep s1 by (metis select_convs(1) simps(1) storage.select_convs(1) storage.surjective storage.update_convs(1))
  show ?thesis
  proof (cases "ce_id ce \<in> re_id ` set (st_raw s)")
    case True
    then have run: "save_event ce s = s1" by (simp add: save_event_def i s1)
    have "raw_inv chain s1" using cs d old by (simp add: raw_inv_def s1)
    moreover have "ingested chain s1 = insert ce (ingested chain s)"
      using True assms(3) by (auto simp: ingested_def s1)
    moreover have "s1 = s\<lparr>st_contracts := cs, st_raw := st_raw s\<rparr>" unfolding s1 by (cases s) simp
    ultimately show ?thesis unfolding run by blast
  next
    case False
    let ?r = "\<lparr>re_id = ce_id ce, re_ledger = ce_ledger ce, re_contract = i,
      re_topics = join_topics (ce_topics ce), re_value = ce_value ce\<rparr>"
    have run: "save_event ce s = s\<lparr>st_contracts := cs, st_raw := st_raw s @ [?r]\<rparr>"
      using False by (simp add: save_event_def i s1)
    have "stored_as (save_event ce s) ?r ce" by (simp add: stored_as_def run cs)
    moreover have "\<forall>r\<in>set (st_raw s). \<exists>ce'\<in>chain. stored_as (save_event ce s) r ce'"
      using old by (simp add: stored_as_def run s1)
    ultimately have "raw_inv chain (save_event ce s)"
      using cs d False assms(3) by (auto simp: raw_inv_def run)
    moreover have "ingested chain (save_event ce s) = insert ce (ingested chain s)"
      using assms(2,3) by (auto simp: ingested_def run chain_ok_def inj_on_def)
    ultimately show ?thesis by (auto simp: run)
  qed
qed

section \<open>The events still to be processed\<close>

definition pending :: "storage \<Rightarrow> contract_event list" where
  "pending s = concat (map (stored_event s)
     (sort_by event_before (filter (\<lambda>r. \<not> processed s (re_id r)) (st_raw s))))"

lemma get_unprocessed_pending: "get_unprocessed_events limit s = take limit (pending s)"
  by (simp add: get_unprocessed_events_def pending_def)

lemma mset_insert_by [simp]: "mset (insert_by le x ys) = add_mset x (mset ys)"
  by (induction ys) simp_all

lemma mset_sort_by [simp]: "mset (sort_by le xs) = mset xs"
  by (induction xs) (simp_all add: sort_by_def)

lemma set_sort_by [simp]: "set (sort_by le xs) = set xs"
  by (rule mset_eq_setD) simp

lemma stored_event_stored:
  assumes "chain_ok chain" and "ce \<in> chain" and "stored_as s r ce"
  shows "stored_event s r = [ce]"
proof -
  from assms have "split_topics (re_topics r) = ce_topics ce"
    by (simp add: stored_as_def chain_ok_def split_join)
  with assms(3) show ?thesis by (simp add: stored_event_def stored_as_def)
qed

lemma pending_events:
  assumes "chain_ok chain" and "raw_inv chain s"
  shows "set (pending s) = {ce \<in> ingested chain s. \<not> processed s (ce_id ce)} \<and> distinct (map ce_id (pending s))"
proof -
  let ?rows = "sort_by event_before (filter (\<lambda>r. \<not> processed s (re_id r)) (st_raw s))"
  have one: "\<exists>ce\<in>ingested chain s. stored_as s r ce \<and> stored_event s r = [ce]" if "r \<in> set ?rows" for r
  proof -
    from that have "r \<in> set (st_raw s)" by simp
    from ingested_of_raw [OF assms(2) this] obtain ce where ce: "ce \<in> ingested chain s" "stored_as s r ce" .
    moreover have "stored_event s r = [ce]"
      using stored_event_stored [OF assms(1) _ ce(2)] ce(1) by (simp add: ingested_def)
    ultimately show ?thesis by blast
  qed
  have ids: "map ce_id (concat (map (stored_event s) rs)) = map re_id rs" if "set rs \<subseteq> set ?rows" for rs
    using that
  proof (induction rs)
    case (Cons r rs)
    from one [of r] Cons.prems obtain ce where "stored_as s r ce" "stored_event s r = [ce]" by auto
    with Cons show ?case by (simp add: stored_as_def)
  qed simp
  have "distinct (map re_id (filter (\<lambda>r. \<not> processed s (re_id r)) (st_raw s)))"
    using assms(2) by (simp add: raw_inv_def distinct_map_filter)
  moreover have "mset (map re_id ?rows) = mset (map re_id (filter (\<lambda>r. \<not> processed s (re_id r)) (st_raw s)))"
    by simp
  ultimately have "distinct (map re_id ?rows)" using mset_eq_imp_distinct_iff by blast
  then have d: "distinct (map ce_id (pending s))" by (simp add: pending_def ids)
  have "ce \<in> set (pending s) \<longleftrightarrow> ce \<in> ingested chain s \<and> \<not> processed s (ce_id ce)" for ce
  proof
    assume "ce \<in> set (pending s)"
    then obtain r where r: "r \<in> set ?rows" "ce \<in> set (stored_event s r)" by (auto simp: pending_def)
    from one [OF r(1)] r show "ce \<in> ingested chain s \<and> \<not> processed s (ce_id ce)"
      by (auto simp: stored_as_def)
  next
    assume *: "ce \<in> ingested chain s \<and> \<not> processed s (ce_id ce)"
    from raw_of_ingested [OF assms(2,1)] * obtain r where "r \<in> set (st_raw s)" "stored_as s r ce" by blast
    then have "r \<in> set ?rows" "stored_event s r = [ce]"
      using * stored_event_stored [OF assms(1)] by (auto simp: stored_as_def ingested_def)
    then show "ce \<in> set (pending s)" by (auto simp: pending_def intro!: bexI [of _ r])
  qed
  with d show ?thesis by auto
qed

section \<open>Feeding a table\<close>

definition distinct_claims :: "xdr_host \<Rightarrow> contract_event set \<Rightarrow> bool" where
  "distinct_claims env chain \<longleftrightarrow> (\<forall>ce\<in>chain. claim env ce \<noteq> None) \<and> inj_on (claim env) chain"

locale fed_table = derived_table rows put key event make evkey evid save
  for rows :: "storage \<Rightarrow> 'r list"
    and put :: "'r list \<Rightarrow> storage \<Rightarrow> storage"
    and key :: "'r \<Rightarrow> 'k" and event :: "'r \<Rightarrow> string"
    and make :: "'r list \<Rightarrow> 'e \<Rightarrow> 'r"
    and evkey :: "'e \<Rightarrow> 'k" and evid :: "'e \<Rightarrow> string"
    and save :: "'e \<Rightarrow> storage \<Rightarrow> (store_error, storage) result" +
  fixes part :: "xdr_host \<Rightarrow> contract_event \<Rightarrow> 'e list" and wrap :: "'k \<Rightarrow> claim"
  assumes part_id: "map evid (part env ce) = (if part env ce = [] then [] else [ce_id ce])"
    and part_claim: "e \<in> set (part env ce) \<Longrightarrow> claim env ce = Some (wrap (evkey e))"
    and claim_part: "claim env ce = Some (wrap k) \<Longrightarrow> \<exists>e. part env ce = [e] \<and> evkey e = k"
    and inj_wrap: "wrap k = wrap k' \<Longrightarrow> k = k'"
begin

definition sourced :: "xdr_host \<Rightarrow> contract_event set \<Rightarrow> 'r \<Rightarrow> bool" where
  "sourced env evs r \<longleftrightarrow> (\<exists>ce\<in>evs. \<exists>e rs. part env ce = [e] \<and> r = make rs e)"

lemma sourced_mono: "sourced env evs r \<Longrightarrow> evs \<subseteq> evs' \<Longrightarrow> sourced env evs' r"
  by (auto simp: sourced_def)

lemma part_cases: "part env ce = [] \<or> (\<exists>e. part env ce = [e] \<and> evid e = ce_id ce)"
proof (cases "part env ce")
  case (Cons e es)
  with part_id [of env ce] show ?thesis by simp
qed simp

lemma feed:
  assumes d: "distinct (map key (rows s))" "distinct (map event (rows s))"
    and src: "\<forall>r\<in>set (rows s). sourced env (ingested chain s) r"
    and U: "set us \<subseteq> ingested chain s" "distinct (map ce_id us)"
    and fresh: "\<forall>ce\<in>set us. raw_of s (ce_id ce) \<noteq> None \<and> ce_id ce \<notin> event ` set (rows s)"
  shows "\<exists>new. fold_result save (concat (map (part env) us)) s = Inr (put (rows s @ new) s)
    \<and> distinct (map key (rows s @ new)) \<and> distinct (map event (rows s @ new))
    \<and> (\<forall>r\<in>set (rows s @ new). sourced env (ingested chain s) r)
    \<and> (\<forall>r\<in>set new. event r \<in> ce_id ` set us)
    \<and> (\<forall>ce\<in>set us. \<forall>k. claim env ce = Some (wrap k) \<longrightarrow> k \<in> key ` set (rows s @ new))
    \<and> (distinct_claims env chain \<longrightarrow> (\<forall>ce\<in>set us. part env ce \<noteq> [] \<longrightarrow> ce_id ce \<in> event ` set new))"
proof -
  let ?evs = "concat (map (part env) us)"
  have e: "\<exists>ce\<in>set us. part env ce = [e] \<and> evid e = ce_id ce" if "e \<in> set ?evs" for e
    using that part_cases by (auto, metis empty_iff insert_iff list.set(1) list.simps(15))
  have dist: "distinct (map evid ?evs)"
    using U(2)
  proof (induction us)
    case (Cons ce ces)
    have "set (map evid (concat (map (part env) ces))) \<subseteq> ce_id ` set ces"
      using part_cases by (auto, metis empty_iff imageI insert_iff list.set(1) list.simps(15))
    moreover have "ce_id ce \<notin> ce_id ` set ces" using Cons.prems by simp
    ultimately have "ce_id ce \<notin> set (map evid (concat (map (part env) ces)))" by blast
    with Cons part_cases [of env ce] show ?case by auto
  qed simp
  have ok: "\<forall>e\<in>set ?evs. raw_of s (evid e) \<noteq> None \<and> evid e \<notin> event ` set (rows s)"
    using e fresh by metis
  from batch_run [OF dist ok] obtain new where
    new: "fold_result save ?evs s = Inr (put (rows s @ new) s)" "\<forall>r\<in>set new. \<exists>e\<in>set ?evs. \<exists>rs. r = make rs e"
      "key ` set (rows s @ new) = key ` set (rows s) \<union> evkey ` set ?evs"
      "distinct (map key (rows s @ new))" "distinct (map event (rows s @ new))"
      "distinct (map evkey ?evs) \<and> evkey ` set ?evs \<inter> key ` set (rows s) = {} \<Longrightarrow> map event new = map evid ?evs"
    using d by blast
  have src': "\<forall>r\<in>set new. sourced env (set us) r" using new(2) e by (auto simp: sourced_def) metis
  have src_all: "\<forall>r\<in>set (rows s @ new). sourced env (ingested chain s) r"
    using src src' sourced_mono U(1) by auto
  have ev_new: "\<forall>r\<in>set new. event r \<in> ce_id ` set us" using new(2) e by (metis imageI made(2))
  have claims: "\<forall>ce\<in>set us. \<forall>k. claim env ce = Some (wrap k) \<longrightarrow> k \<in> key ` set (rows s @ new)"
  proof (intro ballI allI impI)
    fix ce k assume ce: "ce \<in> set us" and c: "claim env ce = Some (wrap k)"
    from claim_part [OF c] obtain e where e1: "part env ce = [e]" "evkey e = k" by blast
    with ce have "e \<in> set ?evs" by (auto intro!: bexI [of _ ce])
    with e1(2) have "k \<in> evkey ` set ?evs" by blast
    then show "k \<in> key ` set (rows s @ new)" using new(3) by blast
  qed
  have full: "ce_id ce \<in> event ` set new" if free: "distinct_claims env chain" and ce: "ce \<in> set us" "part env ce \<noteq> []" for ce
  proof -
    have ch: "ingested chain s \<subseteq> chain" by (auto simp: ingested_def)
    have inj: "inj_on (claim env) chain" using free by (simp add: distinct_claims_def)
    have "evkey e \<notin> key ` set (rows s)" if "e \<in> set ?evs" for e
    proof
      assume "evkey e \<in> key ` set (rows s)"
      then obtain r where r: "r \<in> set (rows s)" "key r = evkey e" by auto
      from e [OF that] obtain ce1 where ce1: "ce1 \<in> set us" "part env ce1 = [e]" by blast
      from src r(1) obtain ce2 e2 rs where ce2: "ce2 \<in> ingested chain s" "part env ce2 = [e2]" "r = make rs e2"
        by (auto simp: sourced_def)
      have "claim env ce1 = claim env ce2"
        using part_claim [of e env ce1] part_claim [of e2 env ce2] ce1 ce2 r by (simp add: made)
      then have "ce1 = ce2" using inj ce1 ce2 U(1) ch by (meson inj_onD subsetD)
      moreover have "event r = ce_id ce2" using ce2 part_cases [of env ce2] by (auto simp: made)
      ultimately show False using fresh ce1 r(1) by (metis imageI)
    qed
    then have disj: "evkey ` set ?evs \<inter> key ` set (rows s) = {}" by blast
    have "distinct us" using U(2) distinct_map by blast
    then have "distinct (map evkey ?evs)"
      using U(1)
    proof (induction us)
      case (Cons c cs)
      have "evkey e1 \<noteq> evkey e2" if "part env c = [e1]" "e2 \<in> set (concat (map (part env) cs))" for e1 e2
      proof
        assume same: "evkey e1 = evkey e2"
        from that(2) obtain c2 where c2: "c2 \<in> set cs" "e2 \<in> set (part env c2)" by auto
        have "claim env c = claim env c2" using part_claim [of e1 env c] part_claim [OF c2(2)] that(1) same by simp
        then have "c = c2" using inj Cons.prems c2(1) ch by (meson inj_onD list.set_intros(1) set_subset_Cons subsetD)
        with Cons.prems c2(1) show False by simp
      qed
      then have new: "evkey e1 \<notin> set (map evkey (concat (map (part env) cs)))" if "part env c = [e1]" for e1
        using that by (metis (no_types, lifting) imageE set_map)
      have IH: "distinct (map evkey (concat (map (part env) cs)))" using Cons by simp
      from part_cases [of env c] show ?case
      proof
        assume "\<exists>e. part env c = [e] \<and> evid e = ce_id c"
        then obtain e1 where e1: "part env c = [e1]" by blast
        then have "map evkey (concat (map (part env) (c # cs))) = evkey e1 # map evkey (concat (map (part env) cs))" by simp
        with new [OF e1] IH show ?case by (simp only: distinct.simps simp_thms)
      qed (use IH in simp)
    qed simp
    with disj new(6) have "map event new = map evid ?evs" by blast
    moreover from ce part_cases [of env ce] obtain e1 where "part env ce = [e1]" "evid e1 = ce_id ce" by blast
    then have "ce_id ce \<in> set (map evid ?evs)" using ce(1) by force
    ultimately show ?thesis by (metis set_map)
  qed
  show ?thesis using new(1,4,5) src_all ev_new claims full by blast
qed

end

interpretation nullifier_feed: fed_table st_nullifiers put_nullifiers nr_nullifier nr_event nullifier_made snd fst
    save_nullifier nullifiers_in OfNullifier
  by unfold_locales (rule part_ids, auto simp: parts_in claim_def split: sum.splits processed_event.splits)

interpretation commitment_feed: fed_table st_commitments put_commitments cr_commitment cr_event commitment_made
    "\<lambda>e. fst (snd e)" fst save_commitment commitments_in OfCommitment
  by unfold_locales (rule part_ids, auto simp: parts_in claim_def split: sum.splits processed_event.splits)

interpretation public_key_feed: fed_table st_public_keys put_public_keys pk_event pk_event public_key_made
    fst fst save_public_key pubkeys_in OfRegistration
  by unfold_locales (rule part_ids, auto simp: parts_in claim_def split: sum.splits processed_event.splits)

interpretation asp_leaf_feed: fed_table st_asp_leaves put_asp_leaves al_index al_event asp_leaf_made
    "\<lambda>e. fst (snd (snd e))" fst save_leaf_added leaves_in OfLeaf
  by unfold_locales (rule part_ids, auto simp: parts_in claim_def split: sum.splits processed_event.splits)

section \<open>The invariant\<close>

definition tables_inv :: "xdr_host \<Rightarrow> contract_event set \<Rightarrow> storage \<Rightarrow> bool" where
  "tables_inv env chain s \<longleftrightarrow>
     distinct (map nr_nullifier (st_nullifiers s)) \<and> distinct (map nr_event (st_nullifiers s))
   \<and> (\<forall>r\<in>set (st_nullifiers s). nullifier_feed.sourced env (ingested chain s) r)
   \<and> distinct (map cr_commitment (st_commitments s)) \<and> distinct (map cr_event (st_commitments s))
   \<and> (\<forall>r\<in>set (st_commitments s). commitment_feed.sourced env (ingested chain s) r)
   \<and> distinct (map pk_event (st_public_keys s))
   \<and> (\<forall>r\<in>set (st_public_keys s). public_key_feed.sourced env (ingested chain s) r)
   \<and> distinct (map al_index (st_asp_leaves s)) \<and> distinct (map al_event (st_asp_leaves s))
   \<and> (\<forall>r\<in>set (st_asp_leaves s). asp_leaf_feed.sourced env (ingested chain s) r)"

definition store_inv :: "xdr_host \<Rightarrow> contract_event set \<Rightarrow> storage \<Rightarrow> bool" where
  "store_inv env chain s \<longleftrightarrow> raw_inv chain s \<and> tables_inv env chain s"

lemma empty_store_inv: "store_inv env chain empty_storage"
  by (simp add: store_inv_def raw_inv_def tables_inv_def empty_storage_def)

text \<open>What a row says of the event it came from.\<close>

lemma part_parses:
  "nullifiers_in env ce = [n] \<Longrightarrow> parse_event env ce = Inr (Nullifier (fst n) (snd n))"
  "commitments_in env ce = [c] \<Longrightarrow>
     parse_event env ce = Inr (Commitment (fst c) (fst (snd c)) (fst (snd (snd c))) (snd (snd (snd c))))"
  "pubkeys_in env ce = [p] \<Longrightarrow>
     parse_event env ce = Inr (PublicKey (fst p) (fst (snd p)) (fst (snd (snd p))) (snd (snd (snd p))))"
  "leaves_in env ce = [l] \<Longrightarrow>
     parse_event env ce = Inr (AspLeafAdded (fst l) (fst (snd l)) (fst (snd (snd l))) (snd (snd (snd l))))"
  by (auto simp: parts_in split: sum.splits processed_event.splits)

lemma row_sources:
  "nullifier_feed.sourced env evs n \<Longrightarrow>
     \<exists>ce\<in>evs. parse_event env ce = Inr (Nullifier (nr_event n) (nr_nullifier n)) \<and> nr_event n = ce_id ce"
  "commitment_feed.sourced env evs c \<Longrightarrow>
     \<exists>ce\<in>evs. parse_event env ce = Inr (Commitment (cr_event c) (cr_commitment c) (cr_leaf_index c) (cr_output c))
       \<and> cr_event c = ce_id ce"
  "public_key_feed.sourced env evs p \<Longrightarrow>
     \<exists>ce\<in>evs. parse_event env ce = Inr (PublicKey (pk_event p) (pk_owner p) (pk_encryption_key p) (pk_note_key p))
       \<and> pk_event p = ce_id ce"
  "asp_leaf_feed.sourced env evs l \<Longrightarrow>
     \<exists>ce\<in>evs. parse_event env ce = Inr (AspLeafAdded (al_event l) (al_leaf l) (al_index l) (al_root l))
       \<and> al_event l = ce_id ce"
  by (auto simp: nullifier_feed.sourced_def commitment_feed.sourced_def public_key_feed.sourced_def
      asp_leaf_feed.sourced_def nullifier_made_def commitment_made_def public_key_made_def asp_leaf_made_def
      split: prod.splits dest!: part_parses intro!: bexI dest: parse_event_id)

lemma sourced_monos:
  "evs \<subseteq> evs' \<Longrightarrow> nullifier_feed.sourced env evs n \<Longrightarrow> nullifier_feed.sourced env evs' n"
  "evs \<subseteq> evs' \<Longrightarrow> commitment_feed.sourced env evs c \<Longrightarrow> commitment_feed.sourced env evs' c"
  "evs \<subseteq> evs' \<Longrightarrow> public_key_feed.sourced env evs p \<Longrightarrow> public_key_feed.sourced env evs' p"
  "evs \<subseteq> evs' \<Longrightarrow> asp_leaf_feed.sourced env evs l \<Longrightarrow> asp_leaf_feed.sourced env evs' l"
  by (auto intro: nullifier_feed.sourced_mono commitment_feed.sourced_mono public_key_feed.sourced_mono
      asp_leaf_feed.sourced_mono)

lemma tables_inv_mono:
  assumes "tables_inv env chain s" and "ingested chain s \<subseteq> ingested chain s'"
    and "st_nullifiers s' = st_nullifiers s" "st_commitments s' = st_commitments s"
    "st_public_keys s' = st_public_keys s" "st_asp_leaves s' = st_asp_leaves s"
  shows "tables_inv env chain s'"
  using assms by (simp add: tables_inv_def) (blast intro: sourced_monos)

lemma save_events_batch_run:
  "store_inv env chain s \<Longrightarrow> chain_ok chain \<Longrightarrow> set ces \<subseteq> chain \<Longrightarrow>
    store_inv env chain (fold save_event ces s)
    \<and> ingested chain (fold save_event ces s) = set ces \<union> ingested chain s
    \<and> (\<exists>cs rs. fold save_event ces s = s\<lparr>st_contracts := cs, st_raw := rs\<rparr>)"
proof (induction ces arbitrary: s)
  case Nil
  have "\<exists>cs rs. s = s\<lparr>st_contracts := cs, st_raw := rs\<rparr>" using self_update by blast
  with Nil show ?case by simp
next
  case (Cons ce ces)
  then have raw: "raw_inv chain s" and tab: "tables_inv env chain s" and ce: "ce \<in> chain"
    by (simp_all add: store_inv_def)
  note run = save_event_run [OF raw Cons.prems(2) ce]
  from run obtain cs rs where s': "save_event ce s = s\<lparr>st_contracts := cs, st_raw := rs\<rparr>" by blast
  have "tables_inv env chain (save_event ce s)"
    by (rule tables_inv_mono [OF tab]) (use run in \<open>auto simp: s'\<close>)
  with run have "store_inv env chain (save_event ce s)" by (simp add: store_inv_def)
  from Cons.IH [OF this Cons.prems(2)] Cons.prems(3) run show ?case by (auto simp: s')
qed


section \<open>Processing\<close>

fun claimed :: "storage \<Rightarrow> claim \<Rightarrow> bool" where
  "claimed s (OfNullifier n) \<longleftrightarrow> n \<in> nr_nullifier ` set (st_nullifiers s)"
| "claimed s (OfCommitment c) \<longleftrightarrow> c \<in> cr_commitment ` set (st_commitments s)"
| "claimed s (OfRegistration e) \<longleftrightarrow> e \<in> pk_event ` set (st_public_keys s)"
| "claimed s (OfLeaf i) \<longleftrightarrow> i \<in> al_index ` set (st_asp_leaves s)"

definition grown :: "storage \<Rightarrow> storage \<Rightarrow> bool" where
  "grown s s' \<longleftrightarrow> (\<exists>ns cs ps ls. s' = s\<lparr>st_nullifiers := st_nullifiers s @ ns, st_commitments := st_commitments s @ cs,
     st_public_keys := st_public_keys s @ ps, st_asp_leaves := st_asp_leaves s @ ls\<rparr>)"

lemma claimed_part:
  "claim env ce \<noteq> None \<Longrightarrow> nullifiers_in env ce \<noteq> [] \<or> commitments_in env ce \<noteq> [] \<or> pubkeys_in env ce \<noteq> []
    \<or> leaves_in env ce \<noteq> []"
  by (auto simp: claim_def parts_in split: sum.splits processed_event.splits)

lemma process_run:
  assumes ok: "chain_ok chain" and inv: "store_inv env chain s"
    and us_def: "us = get_unprocessed_events limit s"
  shows "\<exists>s'. process_events env limit s = (Inr (us \<noteq> []), s') \<and> store_inv env chain s' \<and> grown s s'
    \<and> (\<forall>ce\<in>set us. \<forall>k. claim env ce = Some k \<longrightarrow> claimed s' k)
    \<and> (\<forall>ev. processed s' ev \<longrightarrow> processed s ev \<or> ev \<in> ce_id ` set us)
    \<and> (distinct_claims env chain \<longrightarrow> (\<forall>ce\<in>set us. processed s' (ce_id ce)))"
proof (cases "us = []")
  case True
  have "grown s s" unfolding grown_def by (rule exI [of _ "[]"])+ simp
  with True inv show ?thesis by (auto simp: process_events_def us_def)
next
  case False
  from inv have raw: "raw_inv chain s" and tab: "tables_inv env chain s" by (simp_all add: store_inv_def)
  have U: "set us \<subseteq> {ce \<in> ingested chain s. \<not> processed s (ce_id ce)}" "distinct (map ce_id us)"
    using pending_events [OF ok raw] set_take_subset [of limit "pending s"]
    by (auto simp: us_def get_unprocessed_pending take_map [symmetric])
  then have rev: "set (rev us) \<subseteq> ingested chain s" "distinct (map ce_id (rev us))"
    by (auto simp: rev_map [symmetric])
  have fresh: "raw_of s (ce_id ce) \<noteq> None" "\<not> processed s (ce_id ce)" if "ce \<in> set us" for ce
    using U(1) that raw_of_ingested [OF raw ok, of ce] by auto
  let ?b = "fold (collect_event env) (rev us) empty_batch"
  have b: "pb_nullifiers ?b = concat (map (nullifiers_in env) (rev us))"
    "pb_commitments ?b = concat (map (commitments_in env) (rev us))"
    "pb_pubkeys ?b = concat (map (pubkeys_in env) (rev us))"
    "pb_leaves ?b = concat (map (leaves_in env) (rev us))"
    by (simp_all add: collect_events empty_batch_def)
  note T = tab [unfolded tables_inv_def]
  obtain ns where ns: "save_nullifier_events_batch (pb_nullifiers ?b) s = Inr (put_nullifiers (st_nullifiers s @ ns) s)"
    "distinct (map nr_nullifier (st_nullifiers s @ ns))" "distinct (map nr_event (st_nullifiers s @ ns))"
    "\<forall>r\<in>set (st_nullifiers s @ ns). nullifier_feed.sourced env (ingested chain s) r"
    "\<forall>r\<in>set ns. nr_event r \<in> ce_id ` set us"
    "\<forall>ce\<in>set us. \<forall>k. claim env ce = Some (OfNullifier k) \<longrightarrow> k \<in> nr_nullifier ` set (st_nullifiers s @ ns)"
    "distinct_claims env chain \<Longrightarrow> \<forall>ce\<in>set us. nullifiers_in env ce \<noteq> [] \<longrightarrow> ce_id ce \<in> nr_event ` set ns"
    using nullifier_feed.feed [of s env chain "rev us"] T rev fresh
    unfolding save_nullifier_events_batch_def b set_rev processed_def by blast
  let ?s1 = "put_nullifiers (st_nullifiers s @ ns) s"
  have s1: "st_commitments ?s1 = st_commitments s" "raw_of ?s1 = raw_of s" "ingested chain ?s1 = ingested chain s"
    by (simp_all add: put_nullifiers_def raw_of_def ingested_def fun_eq_iff)
  obtain cs where cs: "save_commitment_events_batch (pb_commitments ?b) ?s1 = Inr (put_commitments (st_commitments s @ cs) ?s1)"
    "distinct (map cr_commitment (st_commitments s @ cs))" "distinct (map cr_event (st_commitments s @ cs))"
    "\<forall>r\<in>set (st_commitments s @ cs). commitment_feed.sourced env (ingested chain s) r"
    "\<forall>r\<in>set cs. cr_event r \<in> ce_id ` set us"
    "\<forall>ce\<in>set us. \<forall>k. claim env ce = Some (OfCommitment k) \<longrightarrow> k \<in> cr_commitment ` set (st_commitments s @ cs)"
    "distinct_claims env chain \<Longrightarrow> \<forall>ce\<in>set us. commitments_in env ce \<noteq> [] \<longrightarrow> ce_id ce \<in> cr_event ` set cs"
    using commitment_feed.feed [of ?s1 env chain "rev us", unfolded s1] T rev fresh
    unfolding save_commitment_events_batch_def b set_rev processed_def by blast
  let ?s2 = "put_commitments (st_commitments s @ cs) ?s1"
  have s2: "st_public_keys ?s2 = st_public_keys s" "raw_of ?s2 = raw_of s" "ingested chain ?s2 = ingested chain s"
    by (simp_all add: put_nullifiers_def put_commitments_def raw_of_def ingested_def fun_eq_iff)
  obtain ps where ps: "save_public_key_events_batch (pb_pubkeys ?b) ?s2 = Inr (put_public_keys (st_public_keys s @ ps) ?s2)"
    "distinct (map pk_event (st_public_keys s @ ps))"
    "\<forall>r\<in>set (st_public_keys s @ ps). public_key_feed.sourced env (ingested chain s) r"
    "\<forall>r\<in>set ps. pk_event r \<in> ce_id ` set us"
    "\<forall>ce\<in>set us. \<forall>k. claim env ce = Some (OfRegistration k) \<longrightarrow> k \<in> pk_event ` set (st_public_keys s @ ps)"
    "distinct_claims env chain \<Longrightarrow> \<forall>ce\<in>set us. pubkeys_in env ce \<noteq> [] \<longrightarrow> ce_id ce \<in> pk_event ` set ps"
    using public_key_feed.feed [of ?s2 env chain "rev us", unfolded s2] T rev fresh
    unfolding save_public_key_events_batch_def b set_rev processed_def by blast
  let ?s3 = "put_public_keys (st_public_keys s @ ps) ?s2"
  have s3: "st_asp_leaves ?s3 = st_asp_leaves s" "raw_of ?s3 = raw_of s" "ingested chain ?s3 = ingested chain s"
    by (simp_all add: put_nullifiers_def put_commitments_def put_public_keys_def raw_of_def ingested_def fun_eq_iff)
  obtain ls where ls: "save_leaf_added_events_batch (pb_leaves ?b) ?s3 = Inr (put_asp_leaves (st_asp_leaves s @ ls) ?s3)"
    "distinct (map al_index (st_asp_leaves s @ ls))" "distinct (map al_event (st_asp_leaves s @ ls))"
    "\<forall>r\<in>set (st_asp_leaves s @ ls). asp_leaf_feed.sourced env (ingested chain s) r"
    "\<forall>r\<in>set ls. al_event r \<in> ce_id ` set us"
    "\<forall>ce\<in>set us. \<forall>k. claim env ce = Some (OfLeaf k) \<longrightarrow> k \<in> al_index ` set (st_asp_leaves s @ ls)"
    "distinct_claims env chain \<Longrightarrow> \<forall>ce\<in>set us. leaves_in env ce \<noteq> [] \<longrightarrow> ce_id ce \<in> al_event ` set ls"
    using asp_leaf_feed.feed [of ?s3 env chain "rev us", unfolded s3] T rev fresh
    unfolding save_leaf_added_events_batch_def b set_rev processed_def by blast
  let ?s4 = "put_asp_leaves (st_asp_leaves s @ ls) ?s3"
  have s4: "?s4 = s\<lparr>st_nullifiers := st_nullifiers s @ ns, st_commitments := st_commitments s @ cs,
      st_public_keys := st_public_keys s @ ps, st_asp_leaves := st_asp_leaves s @ ls\<rparr>"
    by (simp add: put_nullifiers_def put_commitments_def put_public_keys_def put_asp_leaves_def)
  have run: "process_events env limit s = (Inr (us \<noteq> []), ?s4)"
    using False ns(1) cs(1) ps(1) ls(1) by (simp add: process_events_def us_def [symmetric] Let_def)
  have ing: "ingested chain ?s4 = ingested chain s" by (simp add: s4 ingested_def)
  have "raw_inv chain ?s4" using raw by (simp add: s4 raw_inv_def stored_as_def)
  moreover have "tables_inv env chain ?s4"
    unfolding tables_inv_def ing using ns cs ps ls by (simp add: s4)
  ultimately have inv': "store_inv env chain ?s4" by (simp add: store_inv_def)
  have "claimed ?s4 k" if "ce \<in> set us" "claim env ce = Some k" for ce k
    using that ns(6) cs(6) ps(5) ls(6) by (cases k) (simp_all add: s4)
  moreover have "processed s ev \<or> ev \<in> ce_id ` set us" if "processed ?s4 ev" for ev
    using that ns(5) cs(5) ps(4) ls(5) by (auto simp: processed_def s4)
  moreover have "processed ?s4 (ce_id ce)" if free: "distinct_claims env chain" and ce: "ce \<in> set us" for ce
  proof -
    from ce U(1) have "ce \<in> chain" by (auto simp: ingested_def)
    with free have "claim env ce \<noteq> None" by (simp add: distinct_claims_def)
    from claimed_part [OF this] ns(7) [OF free] cs(7) [OF free] ps(6) [OF free] ls(7) [OF free] ce
    show ?thesis by (auto simp: processed_def s4)
  qed
  moreover have "grown s ?s4" unfolding grown_def s4 by blast
  ultimately show ?thesis using run inv' by blast
qed

end
