(* ===== verification/StoreFacts.thy ===== *)
theory StoreFacts
  imports StoreTables
begin

text \<open>
  What the client can rely on when it reads the chain tables, whatever batches were ingested in
  whatever order and however the event processor ran in between; and which events stop it.
\<close>

section \<open>Every state of the store\<close>

text \<open>
  \<open>user_side\<close> stands for the operations of the store's other half, which leave the chain tables as
  they are.
\<close>

definition chain_tables where
  "chain_tables s = (st_contracts s, st_raw s, st_commitments s, st_nullifiers s, st_public_keys s, st_asp_leaves s)"

inductive store_reach :: "xdr_host \<Rightarrow> contract_event set \<Rightarrow> storage \<Rightarrow> bool" for env chain where
  opened: "store_reach env chain empty_storage"
| ingest: "store_reach env chain s \<Longrightarrow> set (cd_events data) \<subseteq> chain \<Longrightarrow> store_reach env chain (save_events_batch data s)"
| process: "store_reach env chain s \<Longrightarrow> process_events env limit s = (r, s') \<Longrightarrow> store_reach env chain s'"
| progress: "store_reach env chain s \<Longrightarrow> store_reach env chain (save_sync_progress metadata fully s)"
| clear: "store_reach env chain s \<Longrightarrow> store_reach env chain (clear_indexing_cursors s)"
| user_side: "store_reach env chain s \<Longrightarrow> chain_tables s' = chain_tables s \<Longrightarrow> store_reach env chain s'"

lemma store_inv_frame:
  assumes "store_inv env chain s" and "chain_tables s' = chain_tables s"
  shows "store_inv env chain s'"
proof -
  have "ingested chain s' = ingested chain s" using assms(2) by (auto simp: ingested_def chain_tables_def)
  moreover have "stored_as s' = stored_as s" using assms(2) by (auto simp: stored_as_def chain_tables_def fun_eq_iff)
  ultimately show ?thesis
    using assms by (simp add: store_inv_def raw_inv_def tables_inv_def chain_tables_def)
qed

lemma store_inv_contracts:
  assumes "store_inv env chain s" and "distinct (map fst cs)" and "distinct (map snd cs)"
    and "\<And>j b. address_of (st_contracts s) j = Some b \<Longrightarrow> address_of cs j = Some b"
  shows "store_inv env chain (s\<lparr>st_contracts := cs, st_indexing := ix\<rparr>)"
proof -
  let ?s = "s\<lparr>st_contracts := cs, st_indexing := ix\<rparr>"
  have "stored_as ?s r ce" if "stored_as s r ce" for r ce
    using stored_as_mono [OF that, of ?s] assms(4) by simp
  moreover have "\<forall>r\<in>set (st_raw s). \<exists>ce\<in>chain. stored_as s r ce"
    using assms(1) by (simp add: store_inv_def raw_inv_def)
  ultimately have "\<forall>r\<in>set (st_raw s). \<exists>ce\<in>chain. stored_as ?s r ce" by blast
  then have "raw_inv chain ?s" using assms(1-3) by (simp add: store_inv_def raw_inv_def)
  moreover have "ingested chain ?s = ingested chain s" by (simp add: ingested_def)
  ultimately show ?thesis using assms(1) by (simp add: store_inv_def tables_inv_def)
qed

lemma save_progress_inv:
  assumes "store_inv env chain s"
  shows "store_inv env chain (save_progress_entry fully entry s)"
proof -
  obtain i s1 where i: "get_or_create_contract_id (sm_contract_id entry) s = (i, s1)" by fastforce
  from assms have d: "distinct (map fst (st_contracts s))" "distinct (map snd (st_contracts s))"
    by (simp_all add: store_inv_def raw_inv_def)
  from contract_id_run [OF d i] obtain cs where s1: "s1 = s\<lparr>st_contracts := cs\<rparr>"
    and cs: "distinct (map fst cs)" "distinct (map snd cs)"
      "\<And>j b. address_of (st_contracts s) j = Some b \<Longrightarrow> address_of cs j = Some b"
    by auto
  from store_inv_contracts [OF assms cs] show ?thesis
    by (simp add: save_progress_entry_def i s1 Let_def)
qed

lemma save_sync_progress_inv: "store_inv env chain s \<Longrightarrow> store_inv env chain (save_sync_progress metadata fully s)"
  unfolding save_sync_progress_def
  by (induction metadata arbitrary: s) (simp_all add: save_progress_inv)

lemma store_reach_inv: "store_reach env chain s \<Longrightarrow> chain_ok chain \<Longrightarrow> store_inv env chain s"
proof (induction rule: store_reach.induct)
  case opened
  show ?case by (rule empty_store_inv)
next
  case (ingest s data)
  then show ?case using save_events_batch_run [of env chain s "cd_events data"] by (simp add: save_events_batch_def)
next
  case (process s limit r s')
  then have "store_inv env chain s" by simp
  from process_run [OF process.prems this refl, of limit] process.hyps(2) show ?case by auto
next
  case (progress s metadata fully)
  then show ?case by (simp add: save_sync_progress_inv)
next
  case (clear s)
  have "chain_tables (clear_indexing_cursors s) = chain_tables s"
    by (simp add: clear_indexing_cursors_def chain_tables_def)
  with clear show ?case using store_inv_frame by blast
next
  case (user_side s s')
  then show ?case by (blast intro: store_inv_frame)
qed

section \<open>The leaves of a pool\<close>

text \<open>\<open>leaves_published\<close>: what the pool's commitment events on the chain say, and that they say it all.\<close>

definition leaves_published :: "xdr_host \<Rightarrow> contract_event set \<Rightarrow> string \<Rightarrow> field_element list \<Rightarrow> bool" where
  "leaves_published env chain pool cs \<longleftrightarrow>
     (\<forall>ce\<in>chain. \<forall>eid c i e. ce_contract_id ce = pool \<and> parse_event env ce = Inr (Commitment eid c i e) \<longrightarrow>
        i < length cs \<and> c = cs ! i)
   \<and> (\<forall>i<length cs. \<exists>ce\<in>chain. \<exists>eid e. ce_contract_id ce = pool \<and> parse_event env ce = Inr (Commitment eid (cs ! i) i e))"

definition pool_rows :: "string \<Rightarrow> storage \<Rightarrow> commitment_row list" where
  "pool_rows pool s = sort_key cr_leaf_index (filter (\<lambda>pc. contract_of s (cr_event pc) = Some pool) (st_commitments s))"

lemma pool_row_leaf:
  assumes "chain_ok chain" and "store_inv env chain s" and "leaves_published env chain pool cs"
    and "pc \<in> set (pool_rows pool s)"
  shows "cr_leaf_index pc < length cs \<and> cr_commitment pc = cs ! cr_leaf_index pc"
proof -
  from assms(2,4) have "commitment_feed.sourced env (ingested chain s) pc" "contract_of s (cr_event pc) = Some pool"
    by (auto simp: store_inv_def tables_inv_def pool_rows_def)
  with row_sources(2) obtain ce where ce: "ce \<in> ingested chain s" "cr_event pc = ce_id ce"
      "parse_event env ce = Inr (Commitment (cr_event pc) (cr_commitment pc) (cr_leaf_index pc) (cr_output pc))"
      "contract_of s (ce_id ce) = Some pool" by metis
  with contract_of_ingested [OF _ assms(1) ce(1)] assms(2) have "ce_contract_id ce = pool" "ce \<in> chain"
    by (auto simp: store_inv_def ingested_def)
  with assms(3) ce(3) show ?thesis by (auto simp: leaves_published_def)
qed

lemma leaves_query_Inr:
  assumes "get_pool_commitment_leaves_ordered pool s = Inr leaves"
  shows "map cr_leaf_index (pool_rows pool s) = [0..<length (pool_rows pool s)]
    \<and> leaves = map cr_commitment (pool_rows pool s)"
  using assms push_leaves_Inr
  by (fastforce simp: get_pool_commitment_leaves_ordered_def result_simps pool_rows_def [symmetric] comp_def)

lemma leaves_prefix:
  assumes "chain_ok chain" and "store_inv env chain s" and "leaves_published env chain pool cs"
    and "get_pool_commitment_leaves_ordered pool s = Inr leaves"
  shows "leaves = take (length leaves) cs"
proof (rule nth_equalityI)
  note q = leaves_query_Inr [OF assms(4)]
  have row: "cr_leaf_index (pool_rows pool s ! i) = i" if "i < length (pool_rows pool s)" for i
  proof -
    have "cr_leaf_index (pool_rows pool s ! i) = map cr_leaf_index (pool_rows pool s) ! i" using that by simp
    also have "\<dots> = i" unfolding conjunct1 [OF q] using that by simp
    finally show ?thesis .
  qed
  have ok: "i < length cs \<and> leaves ! i = cs ! i" if "i < length leaves" for i
    using pool_row_leaf [OF assms(1-3), of "pool_rows pool s ! i"] row [of i] that q by simp
  show len: "length leaves = length (take (length leaves) cs)"
  proof (cases "length leaves")
    case (Suc n)
    with ok [of n] show ?thesis by simp
  qed simp
  show "leaves ! i = take (length leaves) cs ! i" if "i < length leaves" for i
    using ok [OF that] that by simp
qed

lemma sorted_index_rows:
  assumes "distinct (map f xs)" and "f ` set xs = {0..<n}"
  shows "map f (sort_key f xs) = [0..<n]"
proof -
  have "sorted (map f (sort_key f xs))" by simp
  moreover have "distinct (map f (sort_key f xs))" using assms(1) by (simp add: distinct_map)
  moreover have "set (map f (sort_key f xs)) = set [0..<n]" using assms(2) by simp
  ultimately show ?thesis by (intro sorted_distinct_set_unique) simp_all
qed

lemma processed_commitment:
  assumes "chain_ok chain" and "store_inv env chain s" and "ce \<in> ingested chain s"
    and parse: "parse_event env ce = Inr (Commitment eid c i e)" and "processed s (ce_id ce)"
  shows "\<exists>pc\<in>set (st_commitments s). cr_event pc = ce_id ce \<and> cr_leaf_index pc = i \<and> cr_commitment pc = c"
proof -
  have T: "tables_inv env chain s" using assms(2) by (simp add: store_inv_def)
  have same: "ce' = ce" if "ce' \<in> ingested chain s" "ce_id ce' = ce_id ce" for ce'
    using that assms(1,3) by (auto simp: ingested_def chain_ok_def inj_on_def)
  consider (c) "ce_id ce \<in> cr_event ` set (st_commitments s)" | (p) "ce_id ce \<in> pk_event ` set (st_public_keys s)"
    | (n) "ce_id ce \<in> nr_event ` set (st_nullifiers s)" | (l) "ce_id ce \<in> al_event ` set (st_asp_leaves s)"
    using assms(5) by (auto simp: processed_def)
  then show ?thesis
  proof cases
    case c
    then obtain pc where pc: "pc \<in> set (st_commitments s)" "cr_event pc = ce_id ce" by auto
    with T have "commitment_feed.sourced env (ingested chain s) pc" by (simp add: tables_inv_def)
    from row_sources(2) [OF this] pc(2) same parse pc(1) show ?thesis by (metis Inr_inject processed_event.inject(2))
  next
    case p
    then obtain r where r: "r \<in> set (st_public_keys s)" "pk_event r = ce_id ce" by auto
    with T have "public_key_feed.sourced env (ingested chain s) r" by (simp add: tables_inv_def)
    from row_sources(3) [OF this] r(2) same parse show ?thesis by (metis Inr_inject processed_event.distinct(13))
  next
    case n
    then obtain r where r: "r \<in> set (st_nullifiers s)" "nr_event r = ce_id ce" by auto
    with T have "nullifier_feed.sourced env (ingested chain s) r" by (simp add: tables_inv_def)
    from row_sources(1) [OF this] r(2) same parse show ?thesis by (metis Inr_inject processed_event.distinct(1))
  next
    case l
    then obtain r where r: "r \<in> set (st_asp_leaves s)" "al_event r = ce_id ce" by auto
    with T have "asp_leaf_feed.sourced env (ingested chain s) r" by (simp add: tables_inv_def)
    from row_sources(4) [OF this] r(2) same parse show ?thesis by (metis Inr_inject processed_event.distinct(15))
  qed
qed

lemma leaves_complete:
  assumes ok: "chain_ok chain" and inv: "store_inv env chain s" and pub: "leaves_published env chain pool cs"
    and all: "\<And>ce eid c i e. ce \<in> chain \<Longrightarrow> ce_contract_id ce = pool \<Longrightarrow>
        parse_event env ce = Inr (Commitment eid c i e) \<Longrightarrow> ce \<in> ingested chain s \<and> processed s (ce_id ce)"
    and can: "\<forall>c\<in>set cs. canonical (field_value c)" and len: "length cs < 2 ^ 32"
  shows "get_pool_commitment_leaves_ordered pool s = Inr cs"
proof -
  let ?rows = "filter (\<lambda>pc. contract_of s (cr_event pc) = Some pool) (st_commitments s)"
  have pr: "set (pool_rows pool s) = set ?rows" by (simp add: pool_rows_def)
  note leaf = pool_row_leaf [OF ok inv pub]
  from inv have raw: "raw_inv chain s" and tab: "tables_inv env chain s" by (simp_all add: store_inv_def)
  have "inj_on cr_leaf_index (set ?rows)"
  proof (rule inj_onI)
    fix p q assume "p \<in> set ?rows" "q \<in> set ?rows" "cr_leaf_index p = cr_leaf_index q"
    with leaf pr have "cr_commitment p = cr_commitment q" by auto
    moreover have "inj_on cr_commitment (set (st_commitments s))" using tab by (simp add: tables_inv_def distinct_map)
    ultimately show "p = q" using \<open>p \<in> set ?rows\<close> \<open>q \<in> set ?rows\<close> by (auto dest: inj_onD)
  qed
  moreover have "distinct ?rows" using tab by (simp add: tables_inv_def distinct_map)
  ultimately have dist: "distinct (map cr_leaf_index ?rows)" by (simp add: distinct_map)
  have "cr_leaf_index ` set ?rows = {0..<length cs}"
  proof (intro equalityI subsetI)
    fix i assume "i \<in> cr_leaf_index ` set ?rows"
    with leaf pr show "i \<in> {0..<length cs}" by auto
  next
    fix i assume "i \<in> {0..<length cs}"
    then have "i < length cs" by simp
    moreover have "\<forall>i<length cs. \<exists>ce\<in>chain. \<exists>eid e. ce_contract_id ce = pool
        \<and> parse_event env ce = Inr (Commitment eid (cs ! i) i e)"
      by (rule conjunct2 [OF pub [unfolded leaves_published_def]])
    ultimately obtain ce eid e where ce: "ce \<in> chain" "ce_contract_id ce = pool"
        "parse_event env ce = Inr (Commitment eid (cs ! i) i e)" by blast
    from all [OF this] have ing: "ce \<in> ingested chain s" and pro: "processed s (ce_id ce)" by simp_all
    from processed_commitment [OF ok inv ing ce(3) pro] obtain pc where
      pc: "pc \<in> set (st_commitments s)" "cr_event pc = ce_id ce" "cr_leaf_index pc = i" by blast
    note pc(3)
    moreover have "contract_of s (cr_event pc) = Some pool"
      using contract_of_ingested [OF raw ok ing] pc(2) ce(2) by simp
    ultimately show "i \<in> cr_leaf_index ` set ?rows" using pc(1) by force
  qed
  from sorted_index_rows [OF dist this] have ix: "map cr_leaf_index (pool_rows pool s) = [0..<length cs]"
    by (simp add: pool_rows_def)
  then have l: "length (pool_rows pool s) = length cs" by (metis length_map length_upt diff_zero)
  have "map cr_commitment (pool_rows pool s) = cs"
  proof (rule nth_equalityI)
    show "length (map cr_commitment (pool_rows pool s)) = length cs" using l by simp
    fix i assume i: "i < length (map cr_commitment (pool_rows pool s))"
    then have "cr_leaf_index (pool_rows pool s ! i) = map cr_leaf_index (pool_rows pool s) ! i" by simp
    also have "\<dots> = i" unfolding ix using i l by simp
    finally show "map cr_commitment (pool_rows pool s) ! i = cs ! i"
      using leaf [of "pool_rows pool s ! i"] i by simp
  qed
  moreover have "fold_result push_leaf (map (\<lambda>pc. (cr_leaf_index pc, cr_commitment pc)) (pool_rows pool s)) (0, [])
      = Inr (0 + length cs, [] @ map cr_commitment (pool_rows pool s))"
  proof -
    have "\<forall>row\<in>set (pool_rows pool s). canonical (field_value (cr_commitment row))"
      using leaf can by (metis nth_mem)
    then show ?thesis
      using push_leaves_run [of "map (\<lambda>pc. (cr_leaf_index pc, cr_commitment pc)) (pool_rows pool s)" 0 "[]"] ix l len
      by (simp add: comp_def)
  qed
  ultimately show ?thesis
    by (simp add: get_pool_commitment_leaves_ordered_def pool_rows_def [symmetric])
qed

lemma leaves_distinct:
  assumes "store_inv env chain s" and "get_pool_commitment_leaves_ordered pool s = Inr leaves"
  shows "distinct leaves"
proof -
  have "distinct (map cr_commitment (filter (\<lambda>pc. contract_of s (cr_event pc) = Some pool) (st_commitments s)))"
    using assms(1) by (simp add: store_inv_def tables_inv_def distinct_map_filter)
  moreover have "mset (map cr_commitment (pool_rows pool s))
      = mset (map cr_commitment (filter (\<lambda>pc. contract_of s (cr_event pc) = Some pool) (st_commitments s)))"
    by (simp add: pool_rows_def)
  ultimately have "distinct (map cr_commitment (pool_rows pool s))" using mset_eq_imp_distinct_iff by blast
  with leaves_query_Inr [OF assms(2)] show ?thesis by simp
qed

section \<open>Draining the unprocessed events\<close>

definition process_step :: "xdr_host \<Rightarrow> nat \<Rightarrow> storage \<Rightarrow> storage" where
  "process_step env limit s = snd (process_events env limit s)"

lemma process_step_frame: "grown s s' \<Longrightarrow> st_raw s' = st_raw s \<and> st_contracts s' = st_contracts s"
  by (auto simp: grown_def)

lemma process_step_reach: "store_reach env chain s \<Longrightarrow> store_reach env chain ((process_step env limit ^^ n) s)"
  by (induction n) (simp_all add: process_step_def, metis process prod.collapse)

lemma process_step_run:
  assumes "chain_ok chain" and "store_inv env chain s"
  shows "process_events env limit s = (Inr (take limit (pending s) \<noteq> []), process_step env limit s)
    \<and> store_inv env chain (process_step env limit s) \<and> grown s (process_step env limit s)
    \<and> ingested chain (process_step env limit s) = ingested chain s"
  using process_run [OF assms refl, of limit] process_step_frame
  by (auto simp: process_step_def get_unprocessed_pending ingested_def)

lemma process_step_pending:
  assumes ok: "chain_ok chain" and inv: "store_inv env chain s" and free: "distinct_claims env chain"
  shows "length (pending (process_step env limit s)) = length (pending s) - limit"
proof -
  let ?us = "take limit (pending s)" and ?s = "process_step env limit s"
  note run = process_step_run [OF ok inv, of limit]
  have raw: "raw_inv chain s" "raw_inv chain ?s" using inv run by (simp_all add: store_inv_def)
  note p = pending_events [OF ok raw(1)] and p' = pending_events [OF ok raw(2)]
  have into: "processed ?s ev \<Longrightarrow> processed s ev \<or> ev \<in> ce_id ` set ?us" for ev
    using process_run [OF ok inv refl, of limit] by (auto simp: process_step_def get_unprocessed_pending)
  have marked: "processed ?s (ce_id ce)" if "ce \<in> set ?us" for ce
    using process_run [OF ok inv refl, of limit] free that by (auto simp: process_step_def get_unprocessed_pending)
  have keep: "processed s ev \<Longrightarrow> processed ?s ev" for ev
    using run by (auto simp: grown_def processed_def)
  have ids: "ce_id ce \<in> ce_id ` set ?us \<longleftrightarrow> ce \<in> set ?us" if "ce \<in> ingested chain s" for ce
  proof -
    have "set ?us \<subseteq> chain" using p set_take_subset [of limit "pending s"] by (auto simp: ingested_def)
    moreover have "inj_on ce_id chain" "ce \<in> chain" using ok that by (simp_all add: chain_ok_def ingested_def)
    ultimately show ?thesis by (auto dest: inj_onD)
  qed
  have "processed ?s (ce_id ce) \<longleftrightarrow> processed s (ce_id ce) \<or> ce \<in> set ?us" if "ce \<in> ingested chain s" for ce
    using into [of "ce_id ce"] marked keep ids [OF that] by blast
  then have "set (pending ?s) = set (pending s) - set ?us"
    using p p' run by auto
  moreover have "set (pending s) - set ?us = set (drop limit (pending s))"
  proof -
    have "distinct (take limit (pending s) @ drop limit (pending s))"
      using p distinct_map by (metis append_take_drop_id)
    moreover have "set (pending s) = set (take limit (pending s)) \<union> set (drop limit (pending s))"
      by (metis append_take_drop_id set_append)
    ultimately show ?thesis unfolding distinct_append by blast
  qed
  moreover have "distinct (pending ?s)" "distinct (drop limit (pending s))"
    using p p' distinct_map by (metis distinct_drop)+
  ultimately have "length (pending ?s) = length (drop limit (pending s))"
    by (metis distinct_card)
  then show ?thesis by simp
qed

lemma drained:
  assumes "chain_ok chain" and "distinct_claims env chain"
  shows "store_inv env chain s \<Longrightarrow> length (pending s) \<le> n * limit \<Longrightarrow>
    store_inv env chain ((process_step env limit ^^ n) s)
    \<and> ingested chain ((process_step env limit ^^ n) s) = ingested chain s
    \<and> pending ((process_step env limit ^^ n) s) = []"
proof (induction n arbitrary: s)
  case (Suc n)
  let ?s = "process_step env limit s"
  note run = process_step_run [OF assms(1) Suc.prems(1), of limit]
  have "length (pending ?s) \<le> n * limit"
    using Suc.prems(2) process_step_pending [OF assms(1) Suc.prems(1) assms(2)] by simp
  with Suc.IH [of ?s] run show ?case by (simp add: funpow_swap1)
qed simp

lemma nothing_pending:
  assumes "chain_ok chain" and "store_inv env chain s" and "pending s = []"
  shows "\<forall>ce\<in>ingested chain s. processed s (ce_id ce)"
proof -
  have "raw_inv chain s" using assms(2) by (simp add: store_inv_def)
  from pending_events [OF assms(1) this] assms(3) show ?thesis by auto
qed

section \<open>Events that cannot be saved\<close>

definition unsaveable :: "xdr_host \<Rightarrow> storage \<Rightarrow> contract_event \<Rightarrow> bool" where
  "unsaveable env s ce \<longleftrightarrow> (\<forall>k. claim env ce = Some k \<longrightarrow> claimed s k)"

lemma skipped_parts:
  assumes "\<forall>ce\<in>set ces. unsaveable env s ce"
  shows "save_nullifier_events_batch (concat (map (nullifiers_in env) ces)) s = Inr s"
    "save_commitment_events_batch (concat (map (commitments_in env) ces)) s = Inr s"
    "save_public_key_events_batch (concat (map (pubkeys_in env) ces)) s = Inr s"
    "save_leaf_added_events_batch (concat (map (leaves_in env) ces)) s = Inr s"
proof -
  have c: "claimed s k" if "ce \<in> set ces" "claim env ce = Some k" for ce k
    using assms that by (simp add: unsaveable_def)
  show "save_nullifier_events_batch (concat (map (nullifiers_in env) ces)) s = Inr s"
    unfolding save_nullifier_events_batch_def
    by (rule nullifier_table.batch_skip) (auto dest!: nullifier_feed.part_claim dest: c)
  show "save_commitment_events_batch (concat (map (commitments_in env) ces)) s = Inr s"
    unfolding save_commitment_events_batch_def
    by (rule commitment_table.batch_skip) (auto dest!: commitment_feed.part_claim dest: c)
  show "save_public_key_events_batch (concat (map (pubkeys_in env) ces)) s = Inr s"
    unfolding save_public_key_events_batch_def
    by (rule public_key_table.batch_skip) (auto dest!: public_key_feed.part_claim dest: c)
  show "save_leaf_added_events_batch (concat (map (leaves_in env) ces)) s = Inr s"
    unfolding save_leaf_added_events_batch_def
    by (rule asp_leaf_table.batch_skip) (auto dest!: asp_leaf_feed.part_claim dest: c)
qed

lemma process_skips:
  assumes "get_unprocessed_events limit s \<noteq> []"
    and "\<forall>ce\<in>set (get_unprocessed_events limit s). unsaveable env s ce"
  shows "process_events env limit s = (Inr True, s)"
proof -
  have "\<forall>ce\<in>set (rev (get_unprocessed_events limit s)). unsaveable env s ce" using assms(2) by simp
  from skipped_parts [OF this] assms(1) show ?thesis
    by (simp add: process_events_def Let_def collect_events empty_batch_def)
qed

lemma never_processed:
  assumes ok: "chain_ok chain" and inv: "store_inv env chain s" and ce: "ce \<in> ingested chain s" "claim env ce = None"
  shows "\<not> processed s (ce_id ce)"
proof
  assume pro: "processed s (ce_id ce)"
  have same: "ce' = ce" if "ce' \<in> ingested chain s" "ce_id ce = ce_id ce'" for ce'
    using that ok ce(1) by (auto simp: ingested_def chain_ok_def inj_on_def)
  note T = inv [unfolded store_inv_def tables_inv_def]
  from pro T have "\<exists>ce'\<in>ingested chain s. ce_id ce = ce_id ce' \<and> claim env ce' \<noteq> None"
    using row_sources [of env "ingested chain s"] by (auto simp: processed_def claim_def; fastforce)
  with same ce(2) show False by auto
qed


end
