(* ===== verification/StorageWorker.thy ===== *)
theory StorageWorker
  imports UserStore ProverMerkle
begin

text \<open>
  The storage worker of the web client (\<open>app/crates/platforms/web/src/workers/storage.rs\<close>): the
  router that answers the client's requests from the local store, the assembly of the inputs of a
  transaction or a disclosure, and the loop that processes stored events.

  The worker's thread-local state is the record \<open>worker_state\<close>; the random generator of the prover is
  counted as in \<^const>\<open>generate_random_blinding\<close>. Requests and responses that only carry a
  store's result are passed on as they are. The ping request, which waits for the store to open,
  is left out.
\<close>

section \<open>Requests and responses\<close>

record disclosure_inputs_request =
  dq_user_address :: string
  dq_pool_address :: string
  dq_selected_commitment :: field_element
  dq_pool_root :: "field_element option"
  dq_pool_next_index :: nat
  dq_tree_depth :: nat

record disclosure_inputs =
  dz_root :: field_element
  dz_note_commitment :: field_element
  dz_note_amount :: note_amount
  dz_note_private_key :: "nat list"
  dz_note_blinding :: field_element
  dz_merkle_path_indices :: field_element
  dz_merkle_path_elements :: "field_element list"

record transact_request =
  tq_user_address :: string
  tq_pool_root :: "field_element option"
  tq_pool_next_index :: nat
  tq_pool_address :: string
  tq_ext_recipient :: string
  tq_ext_amount :: ext_amount
  tq_aspmem_root :: field_element
  tq_aspmem_contract_id :: string
  tq_aspmem_ledger :: nat
  tq_input_commitments :: "field_element list"
  tq_output_amounts :: "note_amount list"
  tq_out_recipient_note_pubkeys :: "nat list option list"
  tq_out_recipient_encryption_pubkeys :: "nat list option list"
  tq_smt_depth :: nat
  tq_tree_depth :: nat
  tq_non_membership_proof :: asp_non_membership_proof

datatype storage_worker_request =
    SyncStateRequest
  | SaveEvents contracts_event_data
  | SaveSyncProgress "sync_metadata list" bool
  | ClearIndexingCursors
  | DeriveSaveUserKeys string "nat list" string
  | DisclaimerStateRequest string
  | AcceptDisclaimer string string
  | BootnodeConfigRequest
  | SetBootnodeConfig bool string
  | UserKeysRequest string
  | AspSecretRequest string
  | UserNotesRequest string nat
  | UnspentUserNotes string string
  | RecentPoolActivityRequest nat
  | RecentPubKeysRequest nat
  | DisclosureInputsOf disclosure_inputs_request
  | TransactOf transact_request
  | DeriveASPleafOf field_element "nat list"

datatype storage_worker_response =
    SyncStateResponse "sync_metadata list"
  | Saved
  | ErrorResponse string
  | DisclaimerStateResponse disclaimer_state
  | BootnodeConfigResponse "bool \<times> string"
  | UserKeysResponse "(nat list \<times> nat list) option"
  | AspSecretResponse "field_element option"
  | UserNotesResponse "user_note_summary list"
  | RecentPoolActivityResponse "pool_ledger_activity list"
  | PubKeysResponse "public_key_entry list"
  | AspMembershipSyncResponse asp_membership_sync
  | DisclosureInputsResponse disclosure_inputs
  | TransactParamsResponse transact_params
  | DeriveASPleafResponse field_element

datatype worker_error =
    StorageNotInitialized
  | StoreFailed store_error
  | TreeFailed merkle_error
  | CryptoFailed prover_error
  | LeafFailed codec_error
  | KeysNotGenerated string
  | PoolRootMismatch
  | MissingPoolRoot
  | UnspentNoteNotFound field_element

record worker_state =
  ws_storage :: "storage option"
  ws_kicked :: bool
  ws_rng :: nat

text \<open>
  What the worker uses besides its state: the prover's cryptography and its three Poseidon2
  instances, and the disclaimer the build embeds.
\<close>

record worker_env =
  we_crypto :: crypto_env
  we_p2 :: poseidon2_params
  we_p3 :: poseidon2_params
  we_p4 :: poseidon2_params
  we_disclaimer_text :: string
  we_disclaimer_hash :: string

section \<open>Reading the store\<close>

definition with_storage :: "(storage \<Rightarrow> (store_error, 'a) result) \<Rightarrow> worker_state \<Rightarrow> (worker_error, 'a) result" where
  "with_storage body w =
     and_then (ok_or (ws_storage w) StorageNotInitialized) (\<lambda>s. map_err StoreFailed (body s))"

definition load_user_key_material ::
  "string \<Rightarrow> worker_state \<Rightarrow> (worker_error, nat list \<times> nat list \<times> nat list \<times> field_element) result" where
  "load_user_key_material user_address w =
     and_then (with_storage (get_user_keys user_address) w) (\<lambda>keys.
     case keys of
       None \<Rightarrow> Inl (Err (KeysNotGenerated user_address))
     | Some k \<Rightarrow> Inr (nk_private (su_note_keypair k), nk_public (su_note_keypair k),
                     ek_public (su_encryption_keypair k), su_membership_blinding k))"

text \<open>\<open>Ok(Err(status))\<close> is \<open>Inr (Inl status)\<close>.\<close>

definition build_validated_pool_tree ::
  "poseidon2_params \<Rightarrow> string \<Rightarrow> nat \<Rightarrow> nat \<Rightarrow> field_element \<Rightarrow> worker_state
     \<Rightarrow> (worker_error, asp_membership_sync + merkle_prefix_built) result" where
  "build_validated_pool_tree p2 pool_address pool_next_index tree_depth expected_pool_root w =
     and_then (with_storage (get_pool_commitment_leaves_ordered pool_address) w) (\<lambda>leaves.
     if length leaves \<noteq> pool_next_index then Inr (Inl (SyncRequired None))
     else
       and_then (map_err TreeFailed (prefix_new p2 tree_depth leaves)) (\<lambda>t.
       and_then (map_err TreeFailed (prefix_build p2 t)) (\<lambda>tree.
       and_then (map_err TreeFailed (built_root tree)) (\<lambda>computed_root.
       and_then (ensure (\<not> computed_root \<noteq> expected_pool_root) PoolRootMismatch) (\<lambda>_.
         Inr (Inr tree))))))"

definition build_pool_input_note ::
  "note_amount \<Rightarrow> field_element \<Rightarrow> nat \<Rightarrow> merkle_prefix_built \<Rightarrow> (worker_error, transact_input_note) result" where
  "build_pool_input_note amount blinding leaf_index tree =
     and_then (map_err TreeFailed (built_proof tree leaf_index)) (\<lambda>p.
       Inr \<lparr>ti_amount = amount, ti_blinding = blinding, ti_path_elements = pa_elements p, ti_path_indices = pa_indices p\<rparr>)"

fun collect_pool_inputs ::
  "string \<Rightarrow> string \<Rightarrow> merkle_prefix_built \<Rightarrow> field_element list \<Rightarrow> transact_input_note list \<Rightarrow> worker_state
     \<Rightarrow> (worker_error, asp_membership_sync + transact_input_note list) result" where
  "collect_pool_inputs user_address pool_address tree [] out w = Inr (Inr out)"
| "collect_pool_inputs user_address pool_address tree (commitment # commitments) out w =
     and_then (with_storage (get_unspent_user_note_by_commitment pool_address user_address commitment) w) (\<lambda>note.
     case note of
       None \<Rightarrow> Inr (Inl (SyncRequired None))
     | Some (amount, blinding, leaf_index) \<Rightarrow>
         and_then (build_pool_input_note amount blinding leaf_index tree) (\<lambda>i.
           collect_pool_inputs user_address pool_address tree commitments (out @ [i]) w))"

definition build_pool_inputs ::
  "poseidon2_params \<Rightarrow> string \<Rightarrow> string \<Rightarrow> nat \<Rightarrow> nat \<Rightarrow> field_element \<Rightarrow> field_element list \<Rightarrow> worker_state
     \<Rightarrow> (worker_error, asp_membership_sync + transact_input_note list) result" where
  "build_pool_inputs p2 user_address pool_address pool_next_index tree_depth expected_pool_root input_commitments w =
     (if input_commitments = [] then Inr (Inr [])
      else
        and_then (build_validated_pool_tree p2 pool_address pool_next_index tree_depth expected_pool_root w) (\<lambda>r.
        case r of
          Inl status \<Rightarrow> Inr (Inl status)
        | Inr tree \<Rightarrow> collect_pool_inputs user_address pool_address tree input_commitments [] w))"

definition build_membership_proof ::
  "poseidon2_params \<Rightarrow> poseidon2_params \<Rightarrow> string \<Rightarrow> nat list \<Rightarrow> field_element \<Rightarrow> field_element \<Rightarrow> nat \<Rightarrow> nat \<Rightarrow> worker_state
     \<Rightarrow> (worker_error, asp_membership_sync + asp_membership_proof) result" where
  "build_membership_proof p2 p3 aspmem_contract_id note_pubkey membership_blinding aspmem_root aspmem_ledger tree_depth w =
     and_then (map_err LeafFailed (asp_membership_leaf p3 note_pubkey membership_blinding)) (\<lambda>user_leaf.
     and_then (with_storage (check_asp_membership_precondition aspmem_contract_id user_leaf aspmem_root aspmem_ledger) w)
       (\<lambda>status.
     case status of
       UserIndex user_leaf_index \<Rightarrow>
         and_then (with_storage (get_all_asp_membership_leaves_ordered aspmem_contract_id) w) (\<lambda>leaves.
         and_then (map_err TreeFailed (prefix_new p2 tree_depth leaves)) (\<lambda>t.
         and_then (map_err TreeFailed (prefix_build p2 t)) (\<lambda>tree.
         and_then (map_err TreeFailed (built_proof tree user_leaf_index)) (\<lambda>p.
           Inr (Inr \<lparr>mp_leaf = user_leaf, mp_blinding = membership_blinding, mp_path_elements = pa_elements p,
                     mp_path_indices = pa_indices p, mp_root = pa_root p\<rparr>)))))
     | _ \<Rightarrow> Inr (Inl status)))"

section \<open>The larger requests\<close>

definition disclosure_inputs_arm ::
  "worker_env \<Rightarrow> disclosure_inputs_request \<Rightarrow> worker_state \<Rightarrow> (worker_error, storage_worker_response) result" where
  "disclosure_inputs_arm env req w =
     and_then (ok_or (dq_pool_root req) MissingPoolRoot) (\<lambda>pool_root.
     and_then (load_user_key_material (dq_user_address req) w) (\<lambda>(note_privkey, _, _, _).
     and_then (build_validated_pool_tree (we_p2 env) (dq_pool_address req) (dq_pool_next_index req)
         (dq_tree_depth req) pool_root w) (\<lambda>r.
     case r of
       Inl status \<Rightarrow> Inr (AspMembershipSyncResponse status)
     | Inr tree \<Rightarrow>
         and_then (with_storage (get_unspent_user_note_by_commitment (dq_pool_address req) (dq_user_address req)
             (dq_selected_commitment req)) w) (\<lambda>note.
         and_then (ok_or note (UnspentNoteNotFound (dq_selected_commitment req))) (\<lambda>(amount, blinding, leaf_index).
         and_then (map_err TreeFailed (built_proof tree leaf_index)) (\<lambda>p.
           Inr (DisclosureInputsResponse \<lparr>dz_root = pa_root p, dz_note_commitment = dq_selected_commitment req,
             dz_note_amount = amount, dz_note_private_key = note_privkey, dz_note_blinding = blinding,
             dz_merkle_path_indices = pa_indices p, dz_merkle_path_elements = pa_elements p\<rparr>)))))))"

text \<open>The loop over the two outputs; a half-set recipient ends it with an error response.\<close>

fun request_outputs ::
  "crypto_env \<Rightarrow> (note_amount \<times> nat list option \<times> nat list option) list \<Rightarrow> transact_output list \<Rightarrow> nat
     \<Rightarrow> (worker_error, (string + transact_output list) \<times> nat) result" where
  "request_outputs crypto [] outputs rng = Inr (Inr outputs, rng)"
| "request_outputs crypto ((amount, note_pk, enc_pk) # slots) outputs rng =
     (if (note_pk \<noteq> None) \<noteq> (enc_pk \<noteq> None)
      then Inr (Inl ''recipient_note_pubkey and recipient_encryption_pubkey must both be set or both be null'', rng)
      else
        and_then (map_err CryptoFailed (generate_random_blinding crypto rng)) (\<lambda>(blinding, rng').
          request_outputs crypto slots
            (outputs @ [\<lparr>to_amount = amount, to_blinding = blinding, to_note_pubkey = note_pk, to_enc_pubkey = enc_pk\<rparr>]) rng'))"

definition output_requests :: "transact_request \<Rightarrow> (note_amount \<times> nat list option \<times> nat list option) list" where
  "output_requests req = map (\<lambda>i. (tq_output_amounts req ! i, tq_out_recipient_note_pubkeys req ! i,
     tq_out_recipient_encryption_pubkeys req ! i)) [0..<N_OUTPUTS]"

definition transact_arm ::
  "worker_env \<Rightarrow> transact_request \<Rightarrow> worker_state \<Rightarrow> (worker_error, storage_worker_response \<times> nat) result" where
  "transact_arm env req w =
     (if 2 < length (tq_input_commitments req)
      then Inr (ErrorResponse ''transact input_commitments must have length 0..=2'', ws_rng w)
      else
        and_then (load_user_key_material (tq_user_address req) w)
          (\<lambda>(note_privkey, note_pubkey, encryption_pubkey, membership_blinding).
        and_then (build_membership_proof (we_p2 env) (we_p3 env) (tq_aspmem_contract_id req) note_pubkey membership_blinding
            (tq_aspmem_root req) (tq_aspmem_ledger req) (tq_tree_depth req) w) (\<lambda>m.
        case m of
          Inl status \<Rightarrow> Inr (AspMembershipSyncResponse status, ws_rng w)
        | Inr membership_proof \<Rightarrow>
            and_then (ok_or (tq_pool_root req) MissingPoolRoot) (\<lambda>pool_root.
            and_then (build_pool_inputs (we_p2 env) (tq_user_address req) (tq_pool_address req) (tq_pool_next_index req)
                (tq_tree_depth req) pool_root (tq_input_commitments req) w) (\<lambda>r.
            case r of
              Inl status \<Rightarrow> Inr (AspMembershipSyncResponse status, ws_rng w)
            | Inr inputs \<Rightarrow>
                and_then (request_outputs (we_crypto env) (output_requests req) [] (ws_rng w)) (\<lambda>(o_r, rng).
                case o_r of
                  Inl msg \<Rightarrow> Inr (ErrorResponse msg, rng)
                | Inr outputs \<Rightarrow>
                    Inr (TransactParamsResponse \<lparr>tp_priv_key = note_privkey, tp_encryption_pubkey = encryption_pubkey,
                      tp_pool_root = pool_root, tp_ext_recipient = tq_ext_recipient req, tp_ext_amount = tq_ext_amount req,
                      tp_inputs = inputs, tp_outputs = outputs, tp_membership_proof = membership_proof,
                      tp_non_membership_proof = tq_non_membership_proof req, tp_tree_depth = tq_tree_depth req,
                      tp_smt_depth = tq_smt_depth req\<rparr>, rng)))))))"

section \<open>The router\<close>

definition put_storage :: "storage \<Rightarrow> worker_state \<Rightarrow> worker_state" where
  "put_storage s w = w\<lparr>ws_storage := Some s\<rparr>"

definition kick_processor :: "worker_state \<Rightarrow> worker_state" where
  "kick_processor w = w\<lparr>ws_kicked := True\<rparr>"

definition writes ::
  "(storage \<Rightarrow> (store_error, storage) result) \<Rightarrow> worker_state \<Rightarrow> (worker_error, storage_worker_response \<times> worker_state) result" where
  "writes f w = and_then (with_storage f w) (\<lambda>s. Inr (Saved, put_storage s w))"

definition reads ::
  "(storage \<Rightarrow> (store_error, 'a) result) \<Rightarrow> ('a \<Rightarrow> storage_worker_response) \<Rightarrow> worker_state
     \<Rightarrow> (worker_error, storage_worker_response \<times> worker_state) result" where
  "reads f g w = and_then (with_storage f w) (\<lambda>x. Inr (g x, w))"

fun router ::
  "worker_env \<Rightarrow> storage_worker_request \<Rightarrow> worker_state \<Rightarrow> (worker_error, storage_worker_response \<times> worker_state) result" where
  "router env SyncStateRequest w = reads get_sync_metadata SyncStateResponse w"
| "router env (SaveEvents events_data) w =
     and_then (writes (\<lambda>s. Inr (save_events_batch events_data s)) w) (\<lambda>(r, w'). Inr (r, kick_processor w'))"
| "router env (SaveSyncProgress metadata fully_indexed) w = writes (\<lambda>s. Inr (save_sync_progress metadata fully_indexed s)) w"
| "router env ClearIndexingCursors w = writes (\<lambda>s. Inr (clear_indexing_cursors s)) w"
| "router env (DeriveSaveUserKeys address signature network_context) w =
     and_then (map_err CryptoFailed (derive_encryption_and_note_keypairs (we_crypto env) (we_p3 env) signature))
       (\<lambda>(note_keypair, encryption_keypair).
     and_then (map_err CryptoFailed (derive_membership_blinding (we_crypto env) signature network_context))
       (\<lambda>membership_blinding.
     and_then (writes (\<lambda>s. Inr (save_encryption_and_note_keypairs address note_keypair encryption_keypair membership_blinding s)) w)
       (\<lambda>(r, w'). Inr (r, kick_processor w'))))"
| "router env (DisclaimerStateRequest address) w =
     and_then (with_storage (\<lambda>s. Inr (get_disclaimer_state (we_disclaimer_text env) (we_disclaimer_hash env) address s)) w)
       (\<lambda>(state, s). Inr (DisclaimerStateResponse state, put_storage s w))"
| "router env (AcceptDisclaimer address disclaimer_hash_hex) w =
     writes (accept_current_disclaimer (we_disclaimer_hash env) address disclaimer_hash_hex) w"
| "router env BootnodeConfigRequest w = reads (\<lambda>s. Inr (get_bootnode_config s)) BootnodeConfigResponse w"
| "router env (SetBootnodeConfig enabled url) w = writes (\<lambda>s. Inr (set_bootnode_config enabled url s)) w"
| "router env (UserKeysRequest address) w =
     reads (get_user_keys address) (\<lambda>keys. UserKeysResponse (map_option (\<lambda>k. (nk_public (su_note_keypair k),
       ek_public (su_encryption_keypair k))) keys)) w"
| "router env (AspSecretRequest address) w =
     reads (get_user_keys address) (\<lambda>keys. AspSecretResponse (map_option su_membership_blinding keys)) w"
| "router env (UserNotesRequest address limit) w = reads (list_user_notes address limit) UserNotesResponse w"
| "router env (UnspentUserNotes user_address pool_contract_id) w =
     reads (list_unspent_user_notes pool_contract_id user_address) UserNotesResponse w"
| "router env (RecentPoolActivityRequest limit) w = reads (get_recent_pool_activity limit) RecentPoolActivityResponse w"
| "router env (RecentPubKeysRequest limit) w = reads (get_recent_public_keys limit) PubKeysResponse w"
| "router env (DisclosureInputsOf req) w = and_then (disclosure_inputs_arm env req w) (\<lambda>r. Inr (r, w))"
| "router env (TransactOf req) w = and_then (transact_arm env req w) (\<lambda>(r, rng). Inr (r, w\<lparr>ws_rng := rng\<rparr>))"
| "router env (DeriveASPleafOf membership_blinding pubkey) w =
     and_then (map_err LeafFailed (asp_membership_leaf (we_p3 env) pubkey membership_blinding)) (\<lambda>user_leaf.
       Inr (DeriveASPleafResponse user_leaf, w))"

section \<open>The processing loop\<close>

definition FETCH_LIMIT :: nat where
  "FETCH_LIMIT = 50"

definition worker_derive :: "crypto_env \<Rightarrow> poseidon2_params \<Rightarrow> derive_note" where
  "worker_derive crypto p4 account row =
     (case try_decrypt_and_derive_user_note crypto p4 (ak_note_keypair account)
             (ek_private (ak_encryption_keypair account)) (pc_commitment row) (pc_leaf_index row) (pc_encrypted_output row) of
        Inl _ \<Rightarrow> None
      | Inr opt \<Rightarrow> Some (map_option (\<lambda>d. \<lparr>dr_amount = dn_amount d, dr_blinding = dn_blinding d,
                              dr_expected_nullifier = dn_expected_nullifier d\<rparr>) opt))"

text \<open>\<open>None\<close> is a loop that never ends.\<close>

partial_function (option) process_until_empty ::
  "xdr_host \<Rightarrow> derive_note \<Rightarrow> storage \<Rightarrow> ((store_error, unit) result \<times> storage) option" where
  "process_until_empty env derive s =
     (case process_events env FETCH_LIMIT s of
        (Inl e, s1) \<Rightarrow> Some (Inl e, s1)
      | (Inr did_raw, s1) \<Rightarrow>
          (case process_notes derive FETCH_LIMIT s1 of
             (Inl e, s2) \<Rightarrow> Some (Inl e, s2)
           | (Inr did_notes, s2) \<Rightarrow>
               if \<not> did_raw \<and> \<not> did_notes then Some (Inr (), s2) else process_until_empty env derive s2))"

end
