(* ===== verification/UserSteps.thy ===== *)
theory UserSteps
  imports StoreFacts StorageWorker
begin

text \<open>
  The rounds of the storage worker (\<open>web/src/workers/storage.rs\<close>, \<open>state/src/storage.rs\<close>) as sequences of
  turns. The locale \<open>note_steps\<close> says what a relation between stores must satisfy on one turn of the
  scan, on one pool's reconciliation and on the opening of scan marks, so that it holds of a whole round of
  \<^const>\<open>process_notes\<close>; its interpretations are the frame of a round (\<open>chain_kept\<close>: it leaves the tables of
  chain events alone) and its progress (\<open>work\<close>: a round that reports progress lowers a measure), from which
  the termination of the worker's loop follows. The last section says what a round without progress shows.
\<close>

section \<open>Turns\<close>

text \<open>
  A scan is a sequence of turns, one account reading its next commitments of one pool; \<open>eligible\<close> are
  the commitments an account has not read yet.
\<close>

definition eligible :: "storage \<Rightarrow> nat \<Rightarrow> nat \<Rightarrow> commitment_row list" where
  "eligible s pool mark = sort_key cr_id
     (filter (\<lambda>c. contract_id_of s (cr_event c) = Some pool \<and> mark < cr_id c) (st_commitments s))"

definition set_mark :: "nat \<Rightarrow> nat \<Rightarrow> nat \<Rightarrow> storage \<Rightarrow> storage" where
  "set_mark pool account m s = s\<lparr>st_commitment_scan := (st_commitment_scan s)((pool, account) \<mapsto> m)\<rparr>"

definition account_turn :: "derive_note \<Rightarrow> nat \<Rightarrow> account_keys \<Rightarrow> storage \<Rightarrow> storage \<Rightarrow> bool" where
  "account_turn derive pool acc s s' \<longleftrightarrow>
     (\<exists>mark k rows m s1. st_commitment_scan s (pool, ak_account_id acc) = Some mark
        \<and> map_result read_commitment_row (take k (eligible s pool mark)) = Inr rows \<and> rows \<noteq> []
        \<and> fold_result (scan_row derive pool acc) rows (mark, s) = Inr (m, s1)
        \<and> s' = set_mark pool (ak_account_id acc) m s1)"

lemma scan_account_turn:
  assumes "scan_account derive pool acc (q, p, s) = Inr (q', p', s')"
  shows "p' = p \<and> s' = s \<and> q' = q
      \<and> (q = 0 \<or> (\<exists>mark. st_commitment_scan s (pool, ak_account_id acc) = Some mark \<and> eligible s pool mark = []))
    \<or> p' \<and> account_turn derive pool acc s s'"
proof (cases "q = 0")
  case True
  with assms show ?thesis by (simp add: scan_account_def)
next
  case False
  note run = assms [unfolded scan_account_def prod.case Let_def if_not_P [OF False]]
  from run obtain mark rows where *: "ok_or (st_commitment_scan s (pool, ak_account_id acc)) NoSuchRow = Inr mark"
      "map_result read_commitment_row (take (min q ACCOUNT_CHUNK) (eligible s pool mark)) = Inr rows"
      "(if rows = [] then Inr (q, p, s)
      else and_then (fold_result (scan_row derive pool acc) rows (mark, s)) (\<lambda>(m, s1). Inr (q - length rows, True,
        s1\<lparr>st_commitment_scan := (st_commitment_scan s1)((pool, ak_account_id acc) \<mapsto> m)\<rparr>))) = Inr (q', p', s')"
    unfolding eligible_def by (elim and_then_Inr [THEN iffD1, elim_format] exE conjE) blast
  have mark: "st_commitment_scan s (pool, ak_account_id acc) = Some mark"
    using *(1) by (auto simp: result_simps)
  show ?thesis
  proof (cases "rows = []")
    case True
    with map_result_length [OF *(2)] False have "eligible s pool mark = []"
      by (auto simp: ACCOUNT_CHUNK_def min_def split: if_splits)
    with *(3) True mark show ?thesis by simp
  next
    case no: False
    with *(3) obtain m s1 where "fold_result (scan_row derive pool acc) rows (mark, s) = Inr (m, s1)"
        "s' = set_mark pool (ak_account_id acc) m s1" "p'"
      by (auto simp: and_then_Inr set_mark_def split: prod.splits)
    with *(2) mark no show ?thesis unfolding account_turn_def by blast
  qed
qed

section \<open>What every turn keeps, a round of processing keeps\<close>

text \<open>
  \<open>G s b s'\<close> relates the stores before and after, \<open>b\<close> telling whether work was done.
\<close>

locale note_steps =
  fixes derive :: derive_note and accounts :: "account_keys list"
    and G :: "storage \<Rightarrow> bool \<Rightarrow> storage \<Rightarrow> bool"
  assumes stay: "G s False s"
    and join: "G s b s1 \<Longrightarrow> G s1 b' s2 \<Longrightarrow> G s (b \<or> b') s2"
    and opens: "G s False (open_scans pool accounts s)"
    and turn: "acc \<in> set accounts \<Longrightarrow> account_turn derive pool acc s s' \<Longrightarrow> G s True s'"
    and settle: "0 < limit \<Longrightarrow> reconcile_pool limit pool s = Inr (b, s') \<Longrightarrow> G s b s'"
begin

lemma cycle:
  "set accs \<subseteq> set accounts \<Longrightarrow> fold_result (scan_account derive pool) accs (q, p, s) = Inr (q', p', s') \<Longrightarrow>
    \<exists>b. p' = (p \<or> b) \<and> G s b s'"
proof (induction accs arbitrary: q p s)
  case (Cons acc accs)
  then obtain q1 p1 s1 where one: "scan_account derive pool acc (q, p, s) = Inr (q1, p1, s1)"
    and rest: "fold_result (scan_account derive pool) accs (q1, p1, s1) = Inr (q', p', s')"
    by (auto simp: result_simps)
  have "\<exists>b. p1 = (p \<or> b) \<and> G s b s1"
    using scan_account_turn [OF one] stay turn Cons.prems(1) by (metis list.set_intros(1) subsetD)
  then obtain b where b: "p1 = (p \<or> b)" "G s b s1" by blast
  from Cons.IH [OF _ rest] Cons.prems(1) obtain b' where b': "p' = (p1 \<or> b')" "G s1 b' s'" by auto
  have "p' = (p \<or> (b \<or> b'))" using b(1) b'(1) by simp
  with join [OF b(2) b'(2)] show ?case by blast
qed (use stay in auto)

lemma pool_loop:
  "scan_pool_loop derive pool accounts q p s = Inr (p', s') \<Longrightarrow> \<exists>b. p' = (p \<or> b) \<and> G s b s'"
proof (induction q arbitrary: p s rule: less_induct)
  case (less q)
  show ?case
  proof (cases "q = 0")
    case True
    with less.prems stay show ?thesis by (auto simp: scan_pool_loop.simps)
  next
    case False
    with less.prems obtain q1 p1 s1 where c: "scan_cycle derive pool accounts q s = Inr (q1, p1, s1)"
      by (subst (asm) scan_pool_loop.simps) (auto split: sum.splits)
    from cycle [OF subset_refl c [unfolded scan_cycle_def]] have g: "G s p1 s1" by auto
    show ?thesis
    proof (cases p1)
      case True
      with c less.prems False have next_run: "scan_pool_loop derive pool accounts q1 True s1 = Inr (p', s')"
        by (subst (asm) scan_pool_loop.simps) simp
      have "q1 < q" using scan_cycle_quota [of derive pool accounts q s q1 s1] c True by simp
      from less.IH [OF this next_run] obtain b where "p'" "G s1 b s'" by auto
      with join [OF g] True show ?thesis by (intro exI [of _ True]) auto
    next
      case no: False
      have "scan_pool_loop derive pool accounts q p s = Inr (p, s1)"
        unfolding scan_pool_loop.simps [of derive pool accounts q p s] using c no False by simp
      from trans [OF this [symmetric] less.prems] have "s' = s1" "p' = p" by simp_all
      moreover from g no have "G s False s1" by simp
      ultimately show ?thesis by (intro exI [of _ False]) simp
    qed
  qed
qed

lemma pools:
  "scan_pools derive accounts ps p s = (r, s') \<Longrightarrow> \<exists>b. G s b s' \<and> (\<forall>d. r = Inr d \<longrightarrow> d = (p \<or> b))"
proof (induction ps arbitrary: p s)
  case Nil
  with stay show ?case by auto
next
  case (Cons pq ps)
  obtain pool q where pq: "pq = (pool, q)" by fastforce
  show ?case
  proof (cases "q = 0")
    case True
    with Cons pq show ?thesis by simp
  next
    case False
    show ?thesis
    proof (cases "scan_pool derive accounts pool q s")
      case (Inl e)
      with Cons.prems pq False stay show ?thesis by auto
    next
      case (Inr x)
      then obtain d s1 where x: "scan_pool derive accounts pool q s = Inr (d, s1)" by (cases x) simp
      from pool_loop [OF x [unfolded scan_pool_def]] join [OF opens] obtain b where b: "G s d s1" by auto
      from Cons.IH [of "p \<or> d" s1] Cons.prems pq False x
      obtain b' where "G s1 b' s'" "\<forall>e. r = Inr e \<longrightarrow> e = ((p \<or> d) \<or> b')" by auto
      with join [OF b] show ?thesis by (intro exI [of _ "d \<or> b'"]) auto
    qed
  qed
qed

lemma scan:
  assumes "scan_commitments_for_user_notes derive limit s = (r, s')"
    and "get_accounts_with_latest_keypairs s = Inr accounts"
  shows "\<exists>b. G s b s' \<and> (\<forall>d. r = Inr d \<longrightarrow> d = b)"
  using assms pools [of _ False s r s'] stay
  by (auto simp: scan_commitments_for_user_notes_def Let_def split: if_splits)

lemma reconcile:
  assumes "reconcile_nullifiers limit s = (r, s')"
  shows "\<exists>b. G s b s' \<and> (\<forall>d. r = Inr d \<longrightarrow> d = b)"
proof -
  have "\<exists>b. G s b s' \<and> (\<forall>d. r = Inr d \<longrightarrow> d = (p \<or> b))"
    if "reconcile_pools limit ps p s = (r, s')" "0 < limit" for ps p
    using that
  proof (induction ps arbitrary: p s)
    case Nil
    with stay show ?case by auto
  next
    case (Cons pool ps)
    show ?case
    proof (cases "reconcile_pool limit pool s")
      case (Inl e)
      with Cons.prems stay show ?thesis by auto
    next
      case (Inr x)
      then obtain d s1 where x: "reconcile_pool limit pool s = Inr (d, s1)" by (cases x) simp
      from Cons.IH [of "p \<or> d" s1] Cons.prems x
      obtain b' where "G s1 b' s'" "\<forall>e. r = Inr e \<longrightarrow> e = ((p \<or> d) \<or> b')" by auto
      with join [OF settle [OF Cons.prems(2) x]] show ?thesis by (intro exI [of _ "d \<or> b'"]) auto
    qed
  qed
  from this [of _ False] assms stay show ?thesis
    by (auto simp: reconcile_nullifiers_def Let_def split: if_splits)
qed

lemma round_of_notes:
  assumes "process_notes derive limit s = (r, s')" and "get_accounts_with_latest_keypairs s = Inr accounts"
  shows "\<exists>b. G s b s' \<and> (\<forall>d. r = Inr d \<longrightarrow> d = b)"
proof -
  obtain r1 s1 where one: "scan_commitments_for_user_notes derive limit s = (r1, s1)" by fastforce
  from scan [OF one assms(2)] obtain b where b: "G s b s1" "\<forall>d. r1 = Inr d \<longrightarrow> d = b" by blast
  show ?thesis
  proof (cases r1)
    case (Inl e)
    with b one assms(1) show ?thesis by (auto simp: process_notes_def)
  next
    case (Inr d)
    obtain r2 s2 where two: "reconcile_nullifiers limit s1 = (r2, s2)" by fastforce
    from reconcile [OF two] obtain b' where "G s1 b' s2" "\<forall>d. r2 = Inr d \<longrightarrow> d = b'" by blast
    with b join [OF b(1)] one two Inr assms(1) show ?thesis
      by (cases r2) (auto simp: process_notes_def intro!: exI [of _ "b \<or> b'"])
  qed
qed

end

section \<open>The chain tables and the accounts are left alone\<close>

definition same_chain :: "storage \<Rightarrow> storage \<Rightarrow> bool" where
  "same_chain s s' \<longleftrightarrow> st_contracts s' = st_contracts s \<and> st_raw s' = st_raw s \<and> st_commitments s' = st_commitments s
     \<and> st_nullifiers s' = st_nullifiers s \<and> st_public_keys s' = st_public_keys s \<and> st_asp_leaves s' = st_asp_leaves s
     \<and> st_accounts s' = st_accounts s \<and> st_keypairs s' = st_keypairs s"

lemma same_chain_refl [simp]: "same_chain s s"
  by (simp add: same_chain_def)

lemma same_chain_trans: "same_chain s s1 \<Longrightarrow> same_chain s1 s2 \<Longrightarrow> same_chain s s2"
  by (simp add: same_chain_def)

lemma same_chain_contract: "same_chain s s' \<Longrightarrow> contract_id_of s' = contract_id_of s"
  by (simp add: same_chain_def contract_id_of_def raw_of_def fun_eq_iff)

lemma same_chain_accounts:
  "same_chain s s' \<Longrightarrow> get_accounts_with_latest_keypairs s' = get_accounts_with_latest_keypairs s"
  by (simp add: same_chain_def get_accounts_with_latest_keypairs_def)

lemma insert_user_note_frame:
  "same_chain s (insert_user_note n s) \<and> st_commitment_scan (insert_user_note n s) = st_commitment_scan s
    \<and> st_nullifier_scan (insert_user_note n s) = st_nullifier_scan s"
  by (simp add: insert_user_note_def same_chain_def)

lemma scan_row_frame:
  assumes "scan_row derive pool acc row (m, s) = Inr (m', s')"
  shows "m' = max m (pc_commitment_id row) \<and> same_chain s s'
    \<and> st_commitment_scan s' = st_commitment_scan s \<and> st_nullifier_scan s' = st_nullifier_scan s"
  using assms insert_user_note_frame by (auto simp: scan_row_def result_simps Let_def split: option.splits)

lemma scan_rows_frame:
  "fold_result (scan_row derive pool acc) rows (m, s) = Inr (m', s') \<Longrightarrow>
    m' = fold (\<lambda>r m. max m (pc_commitment_id r)) rows m \<and> same_chain s s'
    \<and> st_commitment_scan s' = st_commitment_scan s \<and> st_nullifier_scan s' = st_nullifier_scan s"
proof (induction rows arbitrary: m s)
  case (Cons row rows)
  then obtain m1 s1 where one: "scan_row derive pool acc row (m, s) = Inr (m1, s1)"
    and rest: "fold_result (scan_row derive pool acc) rows (m1, s1) = Inr (m', s')"
    by (auto simp: result_simps)
  from Cons.IH [OF rest] scan_row_frame [OF one] show ?case by (auto intro: same_chain_trans)
qed simp

lemma mark_rows_frame:
  "fold_result (mark_notes_spent pool) rs s = Inr s' \<Longrightarrow> \<exists>ns. s' = s\<lparr>st_user_notes := ns\<rparr>"
proof (induction rs arbitrary: s)
  case (Cons r rs)
  then obtain s1 where one: "mark_notes_spent pool r s = Inr s1" and rest: "fold_result (mark_notes_spent pool) rs s1 = Inr s'"
    by (auto simp: result_simps)
  from one obtain ns where "s1 = s\<lparr>st_user_notes := ns\<rparr>"
    by (auto simp: mark_notes_spent_def Let_def split: if_splits)
  with Cons.IH [OF rest] show ?case by auto
next
  case Nil
  then have "s' = s\<lparr>st_user_notes := st_user_notes s\<rparr>" by simp
  then show ?case by blast
qed

text \<open>One pool's reconciliation: the rows beyond its mark, in the order of their ids, and the new mark.\<close>

definition unreconciled :: "storage \<Rightarrow> nat \<Rightarrow> nat \<Rightarrow> nullifier_row list" where
  "unreconciled s pool mark = sort_key nr_id
     (filter (\<lambda>n. contract_id_of s (nr_event n) = Some pool \<and> mark < nr_id n) (st_nullifiers s))"

definition nullifier_mark :: "storage \<Rightarrow> nat \<Rightarrow> nat" where
  "nullifier_mark s pool = unwrap_or (st_nullifier_scan s pool) 0"

lemma map_result_read: "map_result read_nullifier_row rs = Inr ns \<Longrightarrow> ns = rs"
  by (induction rs arbitrary: ns) (auto simp: read_nullifier_row_def result_simps)

lemma fold_max_ge: "(m :: nat) \<le> fold (\<lambda>r m. max m (f r)) rs m \<and> (\<forall>r\<in>set rs. f r \<le> fold (\<lambda>r m. max m (f r)) rs m)"
proof (induction rs arbitrary: m)
  case (Cons r rs)
  from Cons [of "max m (f r)"] show ?case by simp
qed simp

lemma fold_max_in: "fold (\<lambda>r m. max m (f r)) rs (m :: nat) \<in> insert m (f ` set rs)"
proof (induction rs arbitrary: m)
  case (Cons r rs)
  from Cons [of "max m (f r)"] show ?case by (auto simp: max_def split: if_splits)
qed simp

lemma reconcile_pool_turn:
  assumes "reconcile_pool limit pool s = Inr (b, s')"
  defines "rs \<equiv> take limit (unreconciled s pool (nullifier_mark s pool))"
  defines "s1 \<equiv> s\<lparr>st_nullifier_scan := (st_nullifier_scan s)(pool \<mapsto> nullifier_mark s pool)\<rparr>"
  shows "b = (rs \<noteq> []) \<and> (\<exists>s2. fold_result (mark_notes_spent pool) rs s1 = Inr s2
    \<and> s' = s2\<lparr>st_nullifier_scan := (st_nullifier_scan s)(pool \<mapsto>
        fold (\<lambda>r m. max m (nr_id r)) rs (nullifier_mark s pool))\<rparr>)"
proof -
  let ?mark = "nullifier_mark s pool" and ?top = "\<lambda>rs. fold (\<lambda>r m. max m (nr_id r)) rs (nullifier_mark s pool)"
  have c: "contract_id_of s1 = contract_id_of s" "st_nullifiers s1 = st_nullifiers s"
    by (simp_all add: s1_def contract_id_of_def raw_of_def fun_eq_iff)
  let ?m = "unwrap_or (st_nullifier_scan s pool) 0"
  let ?t = "s\<lparr>st_nullifier_scan := (st_nullifier_scan s)(pool \<mapsto> ?m)\<rparr>"
  from assms(1) obtain ns s2 where read: "map_result read_nullifier_row (take limit (sort_key nr_id
        (filter (\<lambda>n. contract_id_of ?t (nr_event n) = Some pool \<and> ?m < nr_id n) (st_nullifiers ?t)))) = Inr ns"
    and run: "fold_result (mark_notes_spent pool) ns ?t = Inr s2"
    and fin: "Inr (ns \<noteq> [], if ?m < fold (\<lambda>r m. max m (nr_id r)) ns ?m
      then s2\<lparr>st_nullifier_scan := (st_nullifier_scan s2)(pool \<mapsto> fold (\<lambda>r m. max m (nr_id r)) ns ?m)\<rparr> else s2) = Inr (b, s')"
    unfolding reconcile_pool_def Let_def
    by (elim and_then_Inr [THEN iffD1, elim_format] exE conjE) blast
  note defs = nullifier_mark_def [symmetric] s1_def [symmetric]
  note read = read [unfolded defs] and run = run [unfolded defs] and fin = fin [unfolded defs]
  from read have ns: "map_result read_nullifier_row rs = Inr ns" by (simp add: rs_def unreconciled_def c)
  have rs: "ns = rs" by (rule map_result_read [OF ns])
  from mark_rows_frame [OF run] obtain us where s2: "s2 = s1\<lparr>st_user_notes := us\<rparr>" by blast
  have "\<not> ?mark < ?top rs \<Longrightarrow> ?top rs = ?mark" using fold_max_ge [of ?mark nr_id rs] by simp
  with fin rs have "s' = s2\<lparr>st_nullifier_scan := (st_nullifier_scan s)(pool \<mapsto> ?top rs)\<rparr>"
    by (auto simp: s2 s1_def)
  with run fin rs show ?thesis by auto
qed

interpretation chain_kept: note_steps derive accounts "\<lambda>s b s'. same_chain s s'" for derive accounts
proof
  show "same_chain s s'" if "account_turn derive pool acc s s'" for pool acc s s'
    using that scan_rows_frame
    by (fastforce simp: account_turn_def set_mark_def same_chain_def)
  show "same_chain s s'" if "reconcile_pool limit pool s = Inr (b, s')" for limit pool s b s'
  proof -
    from reconcile_pool_turn [OF that] obtain rs t s2 m where
      run: "fold_result (mark_notes_spent pool) rs (s\<lparr>st_nullifier_scan := t\<rparr>) = Inr s2"
      and s': "s' = s2\<lparr>st_nullifier_scan := m\<rparr>" by blast
    from mark_rows_frame [OF run] s' show ?thesis by (auto simp: same_chain_def)
  qed
qed (auto simp: open_scans_def same_chain_def)

lemma process_notes_chain:
  assumes "process_notes derive limit s = (r, s')"
  shows "same_chain s s'"
proof (cases "get_accounts_with_latest_keypairs s")
  case (Inl e)
  with assms show ?thesis by (auto simp: process_notes_def scan_commitments_for_user_notes_def)
next
  case (Inr accounts)
  from chain_kept.round_of_notes [OF assms this] show ?thesis by blast
qed

section \<open>The work that is left\<close>

definition commitment_mark :: "storage \<Rightarrow> nat \<Rightarrow> nat \<Rightarrow> nat" where
  "commitment_mark s pool account = unwrap_or (st_commitment_scan s (pool, account)) 0"

definition unread :: "storage \<Rightarrow> account_keys \<Rightarrow> commitment_row \<Rightarrow> bool" where
  "unread s acc c \<longleftrightarrow> (\<exists>pool. contract_id_of s (cr_event c) = Some pool \<and> commitment_mark s pool (ak_account_id acc) < cr_id c)"

definition unmatched :: "storage \<Rightarrow> nullifier_row \<Rightarrow> bool" where
  "unmatched s n \<longleftrightarrow> (\<exists>pool. contract_id_of s (nr_event n) = Some pool \<and> nullifier_mark s pool < nr_id n)"

definition work_left :: "account_keys list \<Rightarrow> storage \<Rightarrow> nat" where
  "work_left accounts s = sum_list (map (\<lambda>acc. length (filter (unread s acc) (st_commitments s))) accounts)
     + length (filter (unmatched s) (st_nullifiers s))"

lemma filter_le: "(\<And>x. x \<in> set xs \<Longrightarrow> P x \<Longrightarrow> Q x) \<Longrightarrow> length (filter P xs) \<le> length (filter Q xs)"
  by (induction xs) auto

lemma filter_less:
  "(\<And>x. x \<in> set xs \<Longrightarrow> P x \<Longrightarrow> Q x) \<Longrightarrow> y \<in> set xs \<Longrightarrow> Q y \<Longrightarrow> \<not> P y \<Longrightarrow> length (filter P xs) < length (filter Q xs)"
proof (induction xs)
  case (Cons x xs)
  have le: "length (filter P xs) \<le> length (filter Q xs)" using Cons.prems(1) by (intro filter_le) auto
  show ?case
  proof (cases "x = y")
    case True
    with Cons.prems le show ?thesis by simp
  next
    case False
    with Cons have "length (filter P xs) < length (filter Q xs)" by auto
    with Cons.prems(1) show ?thesis by simp
  qed
qed simp

lemma read_commitment_ids: "map_result read_commitment_row cs = Inr rows \<Longrightarrow> map pc_commitment_id rows = map cr_id cs"
  by (induction cs arbitrary: rows) (auto simp: read_commitment_row_def result_simps)

lemma account_turn_marks:
  assumes "account_turn derive pool acc s s'"
  obtains mark m c where "st_commitment_scan s (pool, ak_account_id acc) = Some mark" and "mark < cr_id c" "cr_id c \<le> m"
    and "c \<in> set (st_commitments s)" "contract_id_of s (cr_event c) = Some pool"
    and "st_commitment_scan s' = (st_commitment_scan s)((pool, ak_account_id acc) \<mapsto> m)"
    and "st_nullifier_scan s' = st_nullifier_scan s" and "same_chain s s'"
proof -
  from assms obtain mark k rows m s1 where t: "st_commitment_scan s (pool, ak_account_id acc) = Some mark"
      "map_result read_commitment_row (take k (eligible s pool mark)) = Inr rows" "rows \<noteq> []"
      "fold_result (scan_row derive pool acc) rows (mark, s) = Inr (m, s1)"
      "s' = set_mark pool (ak_account_id acc) m s1"
    unfolding account_turn_def by blast
  from map_result_length [OF t(2)] t(3) obtain c where c: "c \<in> set (take k (eligible s pool mark))"
    by (metis length_0_conv list.set_intros(1) neq_Nil_conv)
  with read_commitment_ids [OF t(2)] have "cr_id c \<in> pc_commitment_id ` set rows" by (metis image_eqI set_map)
  with scan_rows_frame [OF t(4)] have le: "cr_id c \<le> m"
    using fold_max_ge [of mark pc_commitment_id rows] by auto
  from c have "c \<in> set (eligible s pool mark)" by (rule in_set_takeD)
  then have "mark < cr_id c" "c \<in> set (st_commitments s)" "contract_id_of s (cr_event c) = Some pool"
    by (simp_all add: eligible_def)
  with le t scan_rows_frame [OF t(4)] show thesis
    by (intro that [of mark c m]) (simp_all add: set_mark_def same_chain_def)
qed

lemma unread_turn:
  assumes "account_turn derive pool acc s s'"
  shows "(unread s' a c \<longrightarrow> unread s a c) \<and> (unmatched s' = unmatched s)
    \<and> (\<exists>c\<in>set (st_commitments s). unread s acc c \<and> \<not> unread s' acc c)"
proof -
  obtain mark m c0 where t: "st_commitment_scan s (pool, ak_account_id acc) = Some mark" "mark < cr_id c0" "cr_id c0 \<le> m"
      "c0 \<in> set (st_commitments s)" "contract_id_of s (cr_event c0) = Some pool"
      "st_commitment_scan s' = (st_commitment_scan s)((pool, ak_account_id acc) \<mapsto> m)"
      "st_nullifier_scan s' = st_nullifier_scan s" "same_chain s s'"
    using account_turn_marks [OF assms] by blast
  note c = same_chain_contract [OF t(8)]
  have "unread s a c" if "unread s' a c"
    using that t(1-3,6) c by (auto simp: unread_def commitment_mark_def split: if_splits)
  moreover have "unmatched s' = unmatched s" using t(7) c by (simp add: unmatched_def nullifier_mark_def fun_eq_iff)
  moreover have "unread s acc c0" "\<not> unread s' acc c0"
    using t c by (auto simp: unread_def commitment_mark_def)
  ultimately show ?thesis using t(4) by blast
qed

lemma sum_list_less:
  "(\<And>x. x \<in> set xs \<Longrightarrow> f x \<le> g x) \<Longrightarrow> y \<in> set xs \<Longrightarrow> f y < g y \<Longrightarrow> sum_list (map f xs) < sum_list (map g xs)"
  for f g :: "'a \<Rightarrow> nat"
proof (induction xs)
  case (Cons x xs)
  have le: "sum_list (map f xs) \<le> sum_list (map g xs)" using Cons.prems(1) by (intro sum_list_mono) auto
  show ?case
  proof (cases "x = y")
    case True
    with Cons.prems le show ?thesis by simp
  next
    case False
    with Cons have "sum_list (map f xs) < sum_list (map g xs)" by auto
    with Cons.prems(1) [of x] show ?thesis by simp
  qed
qed simp

lemma reconcile_marks:
  assumes "0 < limit" and "reconcile_pool limit pool s = Inr (b, s')"
  shows "same_chain s s' \<and> st_commitment_scan s' = st_commitment_scan s
    \<and> (\<forall>p. nullifier_mark s p \<le> nullifier_mark s' p)
    \<and> (if b then \<exists>n\<in>set (st_nullifiers s). contract_id_of s (nr_event n) = Some pool
          \<and> nullifier_mark s pool < nr_id n \<and> nr_id n \<le> nullifier_mark s' pool
       else unreconciled s pool (nullifier_mark s pool) = [])"
proof -
  let ?m = "nullifier_mark s pool" and ?rs = "take limit (unreconciled s pool (nullifier_mark s pool))"
  let ?top = "fold (\<lambda>r m. max m (nr_id r)) ?rs ?m"
  from reconcile_pool_turn [OF assms(2)] obtain s2 where b: "b = (?rs \<noteq> [])"
    and run: "fold_result (mark_notes_spent pool) ?rs (s\<lparr>st_nullifier_scan := (st_nullifier_scan s)(pool \<mapsto> ?m)\<rparr>) = Inr s2"
    and s': "s' = s2\<lparr>st_nullifier_scan := (st_nullifier_scan s)(pool \<mapsto> ?top)\<rparr>" by blast
  from mark_rows_frame [OF run] obtain us where
    f: "s' = s\<lparr>st_user_notes := us, st_nullifier_scan := (st_nullifier_scan s)(pool \<mapsto> ?top)\<rparr>"
    using s' by auto
  have mark: "nullifier_mark s' p = (if p = pool then ?top else nullifier_mark s p)" for p
    by (simp add: f nullifier_mark_def)
  show ?thesis
  proof (intro conjI allI)
    show "same_chain s s'" "st_commitment_scan s' = st_commitment_scan s" by (simp_all add: f same_chain_def)
    show "nullifier_mark s p \<le> nullifier_mark s' p" for p using fold_max_ge [of ?m nr_id ?rs] by (simp add: mark)
    show "if b then \<exists>n\<in>set (st_nullifiers s). contract_id_of s (nr_event n) = Some pool
          \<and> nullifier_mark s pool < nr_id n \<and> nr_id n \<le> nullifier_mark s' pool
       else unreconciled s pool (nullifier_mark s pool) = []"
    proof (cases "?rs = []")
      case True
      with b assms(1) show ?thesis by simp
    next
      case False
      then obtain n where n: "n \<in> set ?rs" by (meson list.set_sel(1))
      then have "n \<in> set (unreconciled s pool ?m)" by (rule in_set_takeD)
      with n b False fold_max_ge [of ?m nr_id ?rs] show ?thesis
        by (auto simp: unreconciled_def mark)
    qed
  qed
qed

interpretation work: note_steps derive accounts
  "\<lambda>s b s'. work_left accounts s' \<le> work_left accounts s \<and> (b \<longrightarrow> work_left accounts s' < work_left accounts s)"
  for derive accounts
proof
  show "work_left accounts s' \<le> work_left accounts s \<and> (True \<longrightarrow> work_left accounts s' < work_left accounts s)"
    if acc: "acc \<in> set accounts" and t: "account_turn derive pool acc s s'" for acc pool s s'
  proof -
    have sc: "st_commitments s' = st_commitments s" "st_nullifiers s' = st_nullifiers s"
      using account_turn_marks [OF t] by (auto simp: same_chain_def)
    from unread_turn [OF t] obtain c where c: "c \<in> set (st_commitments s)" "unread s acc c" "\<not> unread s' acc c" by blast
    have "sum_list (map (\<lambda>a. length (filter (unread s' a) (st_commitments s))) accounts)
        < sum_list (map (\<lambda>a. length (filter (unread s a) (st_commitments s))) accounts)"
      using unread_turn [OF t] acc c by (intro sum_list_less [of _ _ _ acc] filter_le filter_less [of _ _ _ c]) auto
    then show ?thesis using unread_turn [OF t] by (simp add: work_left_def sc)
  qed
  show "work_left accounts s' \<le> work_left accounts s \<and> (b \<longrightarrow> work_left accounts s' < work_left accounts s)"
    if l: "0 < limit" and t: "reconcile_pool limit pool s = Inr (b, s')" for limit pool s b s'
  proof -
    note m = reconcile_marks [OF l t]
    then have c: "contract_id_of s' = contract_id_of s" using same_chain_contract by blast
    from m have sc: "st_commitments s' = st_commitments s" "st_nullifiers s' = st_nullifiers s"
      by (auto simp: same_chain_def)
    have read: "unread s' = unread s" using m c by (simp add: unread_def commitment_mark_def fun_eq_iff)
    have imp: "unmatched s' n \<Longrightarrow> unmatched s n" for n
      using m c by (auto simp: unmatched_def) (meson le_less_trans)
    then have "length (filter (unmatched s') (st_nullifiers s)) \<le> length (filter (unmatched s) (st_nullifiers s))"
      by (rule filter_le)
    moreover have "length (filter (unmatched s') (st_nullifiers s)) < length (filter (unmatched s) (st_nullifiers s))" if b
    proof -
      from m that obtain n where n: "n \<in> set (st_nullifiers s)" "contract_id_of s (nr_event n) = Some pool"
          "nullifier_mark s pool < nr_id n" "nr_id n \<le> nullifier_mark s' pool" by auto
      then have "unmatched s n" "\<not> unmatched s' n" using c by (auto simp: unmatched_def)
      with imp n(1) show ?thesis by (intro filter_less [of _ _ _ n]) auto
    qed
    ultimately show ?thesis by (simp add: work_left_def read sc)
  qed
  have "unread (open_scans pool accounts s) = unread s" "unmatched (open_scans pool accounts s) = unmatched s" for pool s
  proof -
    let ?s = "open_scans pool accounts s"
    have "unwrap_or (fold (\<lambda>a m. if m (pool, ak_account_id a) = None then m((pool, ak_account_id a) \<mapsto> 0) else m)
        accs f (p, i)) 0 = unwrap_or (f (p, i)) 0" for accs :: "account_keys list" and f :: "nat \<times> nat \<rightharpoonup> nat" and p i
      by (induction accs arbitrary: f) auto
    then have "commitment_mark ?s = commitment_mark s" by (simp add: commitment_mark_def open_scans_def fun_eq_iff)
    moreover have "contract_id_of ?s = contract_id_of s" by (simp add: open_scans_def contract_id_of_def raw_of_def fun_eq_iff)
    moreover have "nullifier_mark ?s = nullifier_mark s" by (simp add: open_scans_def nullifier_mark_def fun_eq_iff)
    ultimately show "unread ?s = unread s" "unmatched ?s = unmatched s" by (simp_all add: unread_def unmatched_def fun_eq_iff)
  qed
  then show "work_left accounts (open_scans pool accounts s) \<le> work_left accounts s
      \<and> (False \<longrightarrow> work_left accounts (open_scans pool accounts s) < work_left accounts s)" for pool s
    by (simp add: work_left_def) (simp add: open_scans_def)
qed auto

section \<open>The loop ends\<close>

lemma same_chain_pending: "same_chain s s' \<Longrightarrow> pending s' = pending s"
  by (simp add: pending_def same_chain_def processed_def stored_event_def [abs_def])

lemma same_chain_reach: "store_reach env chain s \<Longrightarrow> same_chain s s' \<Longrightarrow> store_reach env chain s'"
  by (rule user_side) (auto simp: same_chain_def chain_tables_def)

lemma loop_ends:
  assumes ok: "chain_ok chain" and free: "distinct_claims env chain"
  shows "store_reach env chain s \<Longrightarrow> \<exists>y. process_until_empty env derive s = Some y"
proof (induction s rule: wf_induct_rule [OF wf_measures [of "[\<lambda>s. length (pending s),
      \<lambda>s. case get_accounts_with_latest_keypairs s of Inl e \<Rightarrow> 0 | Inr accounts \<Rightarrow> work_left accounts s]"]])
  case (1 s)
  let ?s1 = "process_step env FETCH_LIMIT s"
  have inv: "store_inv env chain s" by (rule store_reach_inv [OF 1(2) ok])
  note run = process_step_run [OF ok inv, of FETCH_LIMIT]
  have less: "length (pending ?s1) = length (pending s) - FETCH_LIMIT"
    by (rule process_step_pending [OF ok inv free])
  have same: "pending s = [] \<Longrightarrow> ?s1 = s"
    by (simp add: process_step_def process_events_def get_unprocessed_pending)
  have reach: "store_reach env chain ?s1" using process [OF 1(2)] run by blast
  obtain r2 s2 where pn: "process_notes derive FETCH_LIMIT ?s1 = (r2, s2)" by fastforce
  note chain = process_notes_chain [OF pn]
  note p2 = same_chain_pending [OF chain] and reach2 = same_chain_reach [OF reach chain]
  show ?case
  proof (cases r2)
    case (Inl e)
    with run pn show ?thesis by (subst process_until_empty.simps) simp
  next
    case (Inr did)
    then obtain accounts where acc: "get_accounts_with_latest_keypairs ?s1 = Inr accounts"
      using pn by (cases "get_accounts_with_latest_keypairs ?s1")
        (auto simp: process_notes_def scan_commitments_for_user_notes_def)
    from work.round_of_notes [OF pn acc] Inr
    have w: "did \<longrightarrow> work_left accounts s2 < work_left accounts ?s1" by auto
    show ?thesis
    proof (cases "pending s = [] \<and> \<not> did")
      case True
      with run pn Inr show ?thesis by (subst process_until_empty.simps) simp
    next
      case False
      have "\<exists>y. process_until_empty env derive s2 = Some y"
      proof (rule 1(1) [OF _ reach2])
        show "(s2, s) \<in> measures [\<lambda>s. length (pending s),
            \<lambda>s. case get_accounts_with_latest_keypairs s of Inl e \<Rightarrow> 0 | Inr accounts \<Rightarrow> work_left accounts s]"
        proof (cases "pending s = []")
          case True
          with False same w acc same_chain_accounts [OF chain] p2 show ?thesis by simp
        next
          case no: False
          with less p2 show ?thesis by (auto simp: FETCH_LIMIT_def)
        qed
      qed
      with False run pn Inr show ?thesis by (subst process_until_empty.simps) auto
    qed
  qed
qed

section \<open>A scan that found nothing to do\<close>

lemma spread_remainder_grows:
  "length (spread_remainder n i qs) = length qs
    \<and> ((\<forall>q\<in>set qs. 0 < q) \<longrightarrow> (\<forall>q\<in>set (spread_remainder n i qs). 0 < q))"
proof (induction n i qs rule: spread_remainder.induct)
  case (2 n i qs)
  have "0 < saturating_add x 1" for x by (simp add: saturating_add_def)
  then have *: "(\<forall>q\<in>set qs. 0 < q) \<longrightarrow> (\<forall>q\<in>set (qs[i := saturating_add (qs ! i) 1]). 0 < q)"
    by (metis insertE set_update_subset_insert subsetD)
  show ?case
    unfolding spread_remainder.simps
  proof (intro conjI impI)
    show "length (spread_remainder n ((i + 1) mod length qs) (qs[i := saturating_add (qs ! i) 1])) = length qs"
      by (rule trans [OF conjunct1 [OF 2] length_list_update])
    assume "\<forall>q\<in>set qs. 0 < q"
    then have "\<forall>q\<in>set (qs[i := saturating_add (qs ! i) 1]). 0 < q" by (rule mp [OF *])
    then show "\<forall>q\<in>set (spread_remainder n ((i + 1) mod length qs) (qs[i := saturating_add (qs ! i) 1])). 0 < q"
      by (rule mp [OF conjunct2 [OF 2]])
  qed
qed simp

lemma pool_quotas_positive:
  assumes "0 < limit" and "0 < n"
  shows "length (pool_quotas limit n) = n \<and> (\<forall>q\<in>set (pool_quotas limit n). 0 < q)"
proof -
  define base where "base = (if n = 0 then 0 else if n \<le> limit then limit div n else 1)"
  have "0 < base" using assms by (auto simp: base_def div_greater_zero_iff)
  then have "\<forall>q\<in>set (replicate n base). 0 < q" by simp
  moreover have "pool_quotas limit n = spread_remainder (limit - saturating_mul base n) 0 (replicate n base)"
    by (simp only: pool_quotas_def Let_def base_def)
  ultimately show ?thesis
    using spread_remainder_grows [of "limit - saturating_mul base n" 0 "replicate n base"]
    by (simp only: length_replicate) blast
qed

definition all_read :: "nat \<Rightarrow> account_keys \<Rightarrow> storage \<Rightarrow> bool" where
  "all_read pool acc s \<longleftrightarrow>
     (\<exists>mark. st_commitment_scan s (pool, ak_account_id acc) = Some mark \<and> eligible s pool mark = [])"

lemma cycle_idle:
  "fold_result (scan_account derive pool) accs (q, False, s) = Inr (q', False, s') \<Longrightarrow> 0 < q \<Longrightarrow>
    s' = s \<and> (\<forall>acc\<in>set accs. all_read pool acc s)"
proof (induction accs arbitrary: q)
  case (Cons acc accs)
  then obtain q1 p1 s1 where one: "scan_account derive pool acc (q, False, s) = Inr (q1, p1, s1)"
    and rest: "fold_result (scan_account derive pool) accs (q1, p1, s1) = Inr (q', False, s')"
    by (auto simp: result_simps)
  from chain_kept.cycle [OF subset_refl rest] have "\<not> p1" by auto
  with scan_account_turn [OF one] Cons.prems(2) have "s1 = s" "q1 = q" "all_read pool acc s"
    by (auto simp: all_read_def)
  with Cons.IH [of q] rest \<open>\<not> p1\<close> Cons.prems(2) show ?case by simp
qed simp

lemma pool_idle:
  assumes "scan_pool derive accounts pool q s = Inr (False, s')" and "0 < q"
  shows "s' = open_scans pool accounts s \<and> (\<forall>acc\<in>set accounts. all_read pool acc s')"
proof -
  let ?s = "open_scans pool accounts s"
  have q: "q \<noteq> 0" using assms(2) by simp
  note run = assms(1) [unfolded scan_pool_def scan_pool_loop.simps [of derive pool accounts q False ?s] if_not_P [OF q]]
  from run obtain q1 p1 s1 where c: "scan_cycle derive pool accounts q ?s = Inr (q1, p1, s1)"
    by (auto split: sum.splits)
  show ?thesis
  proof (cases p1)
    case True
    with run c have "scan_pool_loop derive pool accounts q1 True s1 = Inr (False, s')" by simp
    from chain_kept.pool_loop [OF this] show ?thesis by simp
  next
    case False
    with run c have "s' = s1" by simp
    moreover have "s1 = ?s \<and> (\<forall>acc\<in>set accounts. all_read pool acc ?s)"
      using cycle_idle [OF _ assms(2)] c False by (simp add: scan_cycle_def)
    ultimately show ?thesis by simp
  qed
qed

lemma open_scans_fold:
  "fold (\<lambda>a m. if m (pool, ak_account_id a) = None then m((pool, ak_account_id a) \<mapsto> 0) else m) accs f k
    = (case f k of Some m \<Rightarrow> Some m
       | None \<Rightarrow> if \<exists>a\<in>set accs. k = (pool, ak_account_id a) then Some 0 else None)"
  for accs :: "account_keys list" and f :: "nat \<times> nat \<rightharpoonup> nat"
  by (induction accs arbitrary: f) (auto split: option.splits)

lemma open_scans_marks:
  "st_commitment_scan (open_scans pool accounts s) k
    = (case st_commitment_scan s k of Some m \<Rightarrow> Some m
       | None \<Rightarrow> if \<exists>a\<in>set accounts. k = (pool, ak_account_id a) then Some 0 else None)"
  by (simp add: open_scans_def open_scans_fold)

lemma all_read_open: "all_read pool acc s \<Longrightarrow> all_read pool acc (open_scans pool' accounts s)"
proof -
  have "contract_id_of (open_scans pool' accounts s) = contract_id_of s"
    by (simp add: open_scans_def contract_id_of_def raw_of_def fun_eq_iff)
  then have "eligible (open_scans pool' accounts s) = eligible s"
    by (simp add: eligible_def fun_eq_iff) (simp add: open_scans_def)
  then show "all_read pool acc s \<Longrightarrow> all_read pool acc (open_scans pool' accounts s)"
    by (auto simp: all_read_def open_scans_marks)
qed

lemma pools_idle:
  "scan_pools derive accounts ps False s = (Inr False, s') \<Longrightarrow> \<forall>pq\<in>set ps. 0 < snd pq \<Longrightarrow>
    (\<forall>pool\<in>fst ` set ps. \<forall>acc\<in>set accounts. all_read pool acc s')
    \<and> (\<forall>pool acc. all_read pool acc s \<longrightarrow> all_read pool acc s')"
proof (induction ps arbitrary: s)
  case (Cons pq ps)
  obtain pool q where pq: "pq = (pool, q)" by fastforce
  with Cons.prems obtain d s1 where x: "scan_pool derive accounts pool q s = Inr (d, s1)"
    and rest: "scan_pools derive accounts ps d s1 = (Inr False, s')" by (auto split: sum.splits)
  from chain_kept.pools [OF rest] have d: "\<not> d" by auto
  with pool_idle x Cons.prems(2) pq have one: "s1 = open_scans pool accounts s"
      "\<forall>acc\<in>set accounts. all_read pool acc s1" by auto
  from Cons.IH [of s1] rest d Cons.prems(2)
  have "(\<forall>pool\<in>fst ` set ps. \<forall>acc\<in>set accounts. all_read pool acc s')
      \<and> (\<forall>pool acc. all_read pool acc s1 \<longrightarrow> all_read pool acc s')" by simp
  with one pq all_read_open show ?case by simp
qed simp

lemma in_pool_ids: "ev \<in> set evs \<Longrightarrow> contract_id_of s ev = Some pool \<Longrightarrow> pool \<in> set (pool_ids_of s evs)"
  unfolding pool_ids_of_def by (auto intro!: bexI [of _ ev])

lemma scan_idle:
  assumes "scan_commitments_for_user_notes derive limit s = (Inr False, s')" and "0 < limit"
    and "get_accounts_with_latest_keypairs s = Inr accounts" and "acc \<in> set accounts"
    and "c \<in> set (st_commitments s)" and "contract_id_of s (cr_event c) = Some pool"
  shows "all_read pool acc s'"
proof -
  let ?ps = "pool_ids_of s (map cr_event (st_commitments s))"
  have pool: "pool \<in> set ?ps" using assms(5,6) by (intro in_pool_ids [of "cr_event c"]) auto
  then have ne: "0 < length ?ps" by (metis length_pos_if_in_set)
  then have run: "scan_pools derive accounts (zip ?ps (pool_quotas limit (length ?ps))) False s = (Inr False, s')"
    using assms(1-4) by (auto simp: scan_commitments_for_user_notes_def Let_def split: if_splits)
  note quotas = pool_quotas_positive [OF assms(2) ne]
  have "\<forall>pq\<in>set (zip ?ps (pool_quotas limit (length ?ps))). 0 < snd pq"
    using quotas by (auto dest: set_zip_rightD)
  moreover have "pool \<in> fst ` set (zip ?ps (pool_quotas limit (length ?ps)))"
    using pool quotas by (metis list.set_map map_fst_zip)
  ultimately show ?thesis using pools_idle [OF run] assms(4) by blast
qed

lemma reconcile_idle:
  assumes "reconcile_nullifiers limit s = (Inr False, s')" and "0 < limit"
    and "n \<in> set (st_nullifiers s)" and "contract_id_of s (nr_event n) = Some pool"
  shows "nr_id n \<le> nullifier_mark s' pool"
proof -
  have idle: "(\<forall>p\<in>set ps. \<forall>n\<in>set (st_nullifiers s). contract_id_of s (nr_event n) = Some p \<longrightarrow> nr_id n \<le> nullifier_mark s' p)
      \<and> (\<forall>p. nullifier_mark s p \<le> nullifier_mark s' p)"
    if "reconcile_pools limit ps False s = (Inr False, s')" for ps s
    using that
  proof (induction ps arbitrary: s)
    case (Cons p ps)
    then obtain d s1 where x: "reconcile_pool limit p s = Inr (d, s1)"
      and rest: "reconcile_pools limit ps d s1 = (Inr False, s')" by (auto split: sum.splits)
    have "\<not> d"
    proof
      assume d
      have "reconcile_pools limit ps True s = (Inr e, t) \<Longrightarrow> e" for e s t ps
        by (induction ps arbitrary: s) (auto split: sum.splits)
      from this [of ps s1 False s'] rest \<open>d\<close> show False by simp
    qed
    note m = reconcile_marks [OF assms(2) x]
    have here: "nr_id n \<le> nullifier_mark s p" if "n \<in> set (st_nullifiers s)" "contract_id_of s (nr_event n) = Some p" for n
    proof (rule ccontr)
      assume "\<not> nr_id n \<le> nullifier_mark s p"
      with that have "n \<in> set (unreconciled s p (nullifier_mark s p))" by (simp add: unreconciled_def)
      with m \<open>\<not> d\<close> show False by simp
    qed
    have kept: "same_chain s s1" and grow: "\<And>p. nullifier_mark s p \<le> nullifier_mark s1 p" using m by blast+
    have c: "contract_id_of s1 = contract_id_of s" "st_nullifiers s1 = st_nullifiers s"
      using same_chain_contract [OF kept] kept by (simp_all add: same_chain_def)
    from Cons.IH [of s1] rest \<open>\<not> d\<close>
    have "(\<forall>p\<in>set ps. \<forall>n\<in>set (st_nullifiers s). contract_id_of s (nr_event n) = Some p \<longrightarrow> nr_id n \<le> nullifier_mark s' p)
        \<and> (\<forall>p. nullifier_mark s1 p \<le> nullifier_mark s' p)" by (simp add: c)
    then have rest_ok: "\<And>q n. q \<in> set ps \<Longrightarrow> n \<in> set (st_nullifiers s) \<Longrightarrow> contract_id_of s (nr_event n) = Some q \<Longrightarrow>
        nr_id n \<le> nullifier_mark s' q" and s1: "\<And>q. nullifier_mark s1 q \<le> nullifier_mark s' q" by blast+
    have up: "nullifier_mark s q \<le> nullifier_mark s' q" for q
      by (rule order_trans [OF grow s1])
    have first: "nr_id n \<le> nullifier_mark s' p" if "n \<in> set (st_nullifiers s)" "contract_id_of s (nr_event n) = Some p" for n
      using here [OF that] up [of p] by (rule order_trans)
    show ?case
    proof (intro conjI ballI impI allI)
      fix q n assume "q \<in> set (p # ps)" "n \<in> set (st_nullifiers s)" "contract_id_of s (nr_event n) = Some q"
      with rest_ok [of q n] first [of n] show "nr_id n \<le> nullifier_mark s' q" by (cases "q = p") simp_all
    qed (rule up)
  qed simp
  let ?ps = "pool_ids_of s (map nr_event (st_nullifiers s))"
  have pool: "pool \<in> set ?ps" using assms(3,4) by (intro in_pool_ids [of "nr_event n"]) auto
  then have "?ps \<noteq> []" by auto
  then have "reconcile_pools limit ?ps False s = (Inr False, s')"
    using assms(1,2) by (auto simp: reconcile_nullifiers_def Let_def)
  from idle [OF this] pool assms(3,4) show ?thesis by blast
qed

end
