(* ===== verification/ClientFacts.thy ===== *)
theory ClientFacts
  imports ChainFacts UserSteps
begin

text \<open>
  The client against the pool: the contract's events of \<^const>\<open>pool_history\<close>, carried to the client by
  the indexer, parsed and stored (\<open>stellar/src/\<close>, \<open>state/src/\<close>), give back the pool's tree. What the store
  has of a pool is a prefix of the pool's leaves; when all events are there and no two claim the same row, the worker's
  validated tree has the contract's root. Events that cannot be saved, on the other hand, keep the worker's loop
  busy for ever. The samples are a pool of depth one and a client of it.
\<close>

section \<open>The pool's events as its clients see them\<close>

definition published_leaves :: "pool_store \<Rightarrow> field_element list" where
  "published_leaves s = map (\<lambda>p. Field (fst p)) (commitments_of (p_events s))"

lemma commitments_of_member:
  "(\<exists>e. NewCommitmentEvent c i e \<in> set es) \<longleftrightarrow> (c, i) \<in> set (commitments_of es)"
  by (induction es rule: commitments_of.induct) auto

lemma read_commitment_event:
  "read_pool_event eid e = Commitment eid' c i out \<longleftrightarrow>
     eid' = eid \<and> (\<exists>w bs. c = Field w \<and> e = NewCommitmentEvent w i bs \<and> out = map unat bs)"
  by (cases e) auto

lemma log_published:
  assumes read: "map (parse_event env) ces = map Inr (map2 (\<lambda>ce e. read_pool_event (ce_id ce) e) ces (p_events s))"
    and len: "length ces = length (p_events s)"
    and mine: "\<forall>ce\<in>chain. ce_contract_id ce = pool \<longleftrightarrow> ce \<in> set ces" and sub: "set ces \<subseteq> chain"
    and ix: "commitments_of (p_events s) = indexed (map fst (commitments_of (p_events s)))"
  shows "leaves_published env chain pool (published_leaves s)"
proof -
  let ?cs = "published_leaves s"
  have nth: "parse_event env (ces ! k) = Inr (read_pool_event (ce_id (ces ! k)) (p_events s ! k))" if "k < length ces" for k
    using arg_cong [OF read, of "\<lambda>xs. xs ! k"] that len by simp
  have at: "(c, i) \<in> set (commitments_of (p_events s)) \<longleftrightarrow> i < length ?cs \<and> Field c = ?cs ! i" for c i
    by (subst ix) (auto simp: indexed_def published_leaves_def set_zip intro!: exI [of _ i])
  have fwd: "i < length ?cs \<and> c = ?cs ! i"
    if "ce \<in> chain" "ce_contract_id ce = pool" "parse_event env ce = Inr (Commitment eid c i e)" for ce eid c i e
  proof -
    from that mine obtain k where k: "k < length ces" "ce = ces ! k" by (metis in_set_conv_nth)
    with nth that(3) obtain w bs where w: "c = Field w" "p_events s ! k = NewCommitmentEvent w i bs"
      by (auto simp: read_commitment_event)
    then have "NewCommitmentEvent w i bs \<in> set (p_events s)" using k len by (metis nth_mem)
    then have "(w, i) \<in> set (commitments_of (p_events s))" using commitments_of_member by blast
    with at w(1) show ?thesis by simp
  qed
  have bwd: "\<exists>ce\<in>chain. \<exists>eid e. ce_contract_id ce = pool \<and> parse_event env ce = Inr (Commitment eid (?cs ! i) i e)"
    if "i < length ?cs" for i
  proof -
    obtain w where w: "?cs ! i = Field w" by (cases "?cs ! i")
    with that at have "(w, i) \<in> set (commitments_of (p_events s))" by simp
    then obtain e where "NewCommitmentEvent w i e \<in> set (p_events s)" using commitments_of_member by blast
    then obtain k where k: "k < length ces" "p_events s ! k = NewCommitmentEvent w i e"
      using len by (metis in_set_conv_nth)
    with nth w have "parse_event env (ces ! k) = Inr (Commitment (ce_id (ces ! k)) (?cs ! i) i (map unat e))" by simp
    moreover have "ces ! k \<in> chain" "ce_contract_id (ces ! k) = pool" using k sub mine by (auto dest: nth_mem)
    ultimately show ?thesis by blast
  qed
  show ?thesis unfolding leaves_published_def using fwd bwd by blast
qed

text \<open>What a deployed pool's store and log say, in one place.\<close>

lemma deployed_pool:
  assumes "good_host host" and "zeroes_consistent (compress_value host)"
    and "pool_constructor admin token verifier asp_m asp_nm cap d empty_pool = Inr s0"
    and "pool_history host self pay (s0, t0) calls (s, t)"
  shows "1 \<le> d \<and> d \<le> 32
    \<and> commitments_of (p_events s) = indexed (map fst (commitments_of (p_events s)))
    \<and> length (commitments_of (p_events s)) \<le> 2 ^ d
    \<and> (\<forall>c\<in>set (published_leaves s). canonical (field_value c))
    \<and> pool_get_root s = Inr (tree_root (compress_value host) (get_zeroes ! 0) d (map fst (commitments_of (p_events s))))"
proof -
  from constructor_inv [OF assms(2,3)] have "pool_inv (compress_value host) d s0" by blast
  with pool_history_inv [OF assms(1,2,4)] have inv: "pool_inv (compress_value host) d s" by simp
  then have tree: "merkle_inv (compress_value host) d (map fst (commitments_of (p_events s))) (p_tree s)"
    and ix: "commitments_of (p_events s) = indexed (map fst (commitments_of (p_events s)))"
    by (simp_all add: pool_inv_def Let_def)
  from tree have "list_all canonical (map fst (commitments_of (p_events s)))" by (simp add: merkle_inv_def)
  then have "\<forall>c\<in>set (published_leaves s). canonical (field_value c)"
    by (auto simp: published_leaves_def list_all_iff)
  moreover have "1 \<le> d" "d \<le> 32" "length (commitments_of (p_events s)) \<le> 2 ^ d"
    using tree by (simp_all add: merkle_inv_def)
  ultimately show ?thesis using ix get_last_root_spec [OF tree] by (simp add: pool_get_root_def)
qed

section \<open>The tree a client builds\<close>

lemma validated_tree:
  assumes "compresses p2 hc" and "1 \<le> d" "d \<le> 32" and "length xs \<le> 2 ^ d" "length xs < 2 ^ 32"
    and "\<forall>x\<in>set xs. canonical x"
    and "ws_storage w = Some s" and "get_pool_commitment_leaves_ordered pool s = Inr (map Field xs)"
  shows "build_validated_pool_tree p2 pool (length xs) d r w =
    (if r = Field (tree_root hc (get_zeroes ! 0) d xs)
     then Inr (Inr \<lparr>mb_depth = d, mb_empty = empty_chain hc d, mb_levels = built_levels hc xs d\<rparr>)
     else Inl (Err PoolRootMismatch))"
proof -
  have can: "\<And>x. x \<in> set xs \<Longrightarrow> canonical x" using assms(6) by blast
  show ?thesis
    using prefix_new_run [OF assms(1-3)] prefix_build_run [OF assms(1) can assms(5,3)]
      built_facts(2) [OF assms(2,4), of hc] assms(7,8)
    by (auto simp: build_validated_pool_tree_def with_storage_def)
qed

lemma unsynced_tree:
  assumes "ws_storage w = Some s" and "get_pool_commitment_leaves_ordered pool s = Inr leaves" and "length leaves \<noteq> n"
  shows "build_validated_pool_tree p2 pool n d r w = Inr (Inl (SyncRequired None))"
  using assms by (simp add: build_validated_pool_tree_def with_storage_def)

section \<open>Events that keep the loop busy\<close>

lemma same_chain_unprocessed:
  "same_chain s s' \<Longrightarrow> get_unprocessed_events limit s' = get_unprocessed_events limit s"
  by (simp add: get_unprocessed_events_def same_chain_def processed_def stored_event_def [abs_def])

lemma same_chain_unsaveable: "same_chain s s' \<Longrightarrow> unsaveable env s' ce = unsaveable env s ce"
proof -
  assume "same_chain s s'"
  then have "claimed s' k = claimed s k" for k by (cases k) (simp_all add: same_chain_def)
  then show ?thesis by (simp add: unsaveable_def)
qed

definition stuck :: "xdr_host \<Rightarrow> nat \<Rightarrow> storage \<Rightarrow> bool" where
  "stuck env limit s \<longleftrightarrow> get_unprocessed_events limit s \<noteq> []
     \<and> (\<forall>ce\<in>set (get_unprocessed_events limit s). unsaveable env s ce)"

lemma same_chain_stuck: "same_chain s s' \<Longrightarrow> stuck env limit s' = stuck env limit s"
  by (simp add: stuck_def same_chain_unprocessed same_chain_unsaveable)

lemma stuck_loop:
  assumes "process_until_empty env derive s = Some y" and "stuck env FETCH_LIMIT s"
  shows "\<exists>e. fst y = Inl e"
proof -
  let ?P = "\<lambda>env derive s y. stuck env FETCH_LIMIT s \<longrightarrow> (\<exists>e. fst y = Inl e)"
  have "?P env derive s y"
  proof (rule process_until_empty.raw_induct [where P = ?P, OF _ assms(1)], intro impI)
    fix again env derive s y
    assume IH: "\<And>env derive s y. again env derive s = Some y \<Longrightarrow> ?P env derive s y"
      and step: "(case process_events env FETCH_LIMIT s of (Inl e, s1) \<Rightarrow> Some (Inl e, s1)
        | (Inr did_raw, s1) \<Rightarrow> (case process_notes derive FETCH_LIMIT s1 of (Inl e, s2) \<Rightarrow> Some (Inl e, s2)
            | (Inr did_notes, s2) \<Rightarrow>
                if \<not> did_raw \<and> \<not> did_notes then Some (Inr (), s2) else again env derive s2)) = Some y"
      and st: "stuck env FETCH_LIMIT s"
    then have run: "process_events env FETCH_LIMIT s = (Inr True, s)"
      using process_skips by (simp add: stuck_def)
    obtain r2 s2 where n: "process_notes derive FETCH_LIMIT s = (r2, s2)" by fastforce
    show "\<exists>e. fst y = Inl e"
    proof (cases r2)
      case (Inl e)
      with step run n show ?thesis by auto
    next
      case (Inr did)
      with step run n have "again env derive s2 = Some y" by simp
      from IH [OF this] st same_chain_stuck [OF process_notes_chain [OF n]] show ?thesis by simp
    qed
  qed
  with assms(2) show ?thesis by simp
qed

lemma client_tree:
  assumes "good_host host" and "zeroes_consistent (compress_value host)"
    and "pool_constructor admin token verifier asp_m asp_nm cap d empty_pool = Inr s0"
    and "pool_history host self pay (s0, t0) calls (s, t)"
    and "ascii_symbols env" and carried: "list_all2 (\<lambda>ce e. carries env ce (pool_event_form e)) ces (p_events s)"
    and "set ces \<subseteq> chain" and "\<forall>ce\<in>chain. ce_contract_id ce = pool \<longleftrightarrow> ce \<in> set ces"
  shows "leaves_published env chain pool (published_leaves s)"
  by (rule log_published [OF pool_events_read_back0 [OF assms(1-6)] list_all2_lengthD [OF carried] assms(8,7)])
    (use deployed_pool [OF assms(1-4)] in blast)

text \<open>
  C28: A client rebuilds the pool's tree. Let a chain carry all events of a deployed pool with fewer than \<open>2 ^ 32\<close>
  leaves, each event with an id of its own and comma-free, non-empty topics, and let every event of the chain parse as one
  that is stored, no two of them claiming the same row. A client that was given the whole chain, in whatever order and
  batches, then runs \<open>n\<close> rounds of \<open>process_events\<close> of \<open>limit\<close> events each, with \<open>n * limit\<close> at
  least the number of unprocessed ones. From the store this leaves, the storage worker builds, for the number of the pool's
  leaves, a tree whose root is the root the pool contract holds; it does so when it is asked for that root, and any other
  root it is asked for is refused as \<open>PoolRootMismatch\<close>. The prover's and the host's hash are assumed to give the
  same root for these leaves.
\<close>

theorem client_rebuilds_pool_tree:
  assumes "good_host host" and "zeroes_consistent (compress_value host)"
    and "pool_constructor admin token verifier asp_m asp_nm cap d empty_pool = Inr s0"
    and "pool_history host self pay (s0, t0) calls (s, t)"
    and "ascii_symbols env" and "list_all2 (\<lambda>ce e. carries env ce (pool_event_form e)) ces (p_events s)"
    and "set ces \<subseteq> chain" and "\<forall>ce\<in>chain. ce_contract_id ce = pool \<longleftrightarrow> ce \<in> set ces"
    and "chain_ok chain" and "distinct_claims env chain"
    and "store_reach env chain st" and "ingested chain st = chain" and "length (pending st) \<le> n * limit"
    and "compresses p2 hc" and "length (published_leaves s) < 2 ^ 32"
    and "tree_root hc (get_zeroes ! 0) d (map field_value (published_leaves s))
      = tree_root (compress_value host) (get_zeroes ! 0) d (map field_value (published_leaves s))"
    and "ws_storage w = Some ((process_step env limit ^^ n) st)"
  shows "\<exists>root tree. pool_get_root s = Inr root \<and> built_root tree = Inr (Field root)
    \<and> (\<forall>r. build_validated_pool_tree p2 pool (length (published_leaves s)) d r w
          = (if r = Field root then Inr (Inr tree) else Inl (Err PoolRootMismatch)))"
proof -
  let ?xs = "map fst (commitments_of (p_events s))" and ?st = "(process_step env limit ^^ n) st"
  have val: "map field_value (published_leaves s) = ?xs" "published_leaves s = map Field ?xs"
    "length (published_leaves s) = length ?xs" by (simp_all add: published_leaves_def)
  note dep = deployed_pool [OF assms(1-4)]
  note inv = store_reach_inv [OF assms(11,9)]
  note dr = drained [OF assms(9,10) inv assms(13)]
  then have inv': "store_inv env chain ?st" and ing: "ingested chain ?st = chain" and no: "pending ?st = []"
    using assms(12) by simp_all
  have "get_pool_commitment_leaves_ordered pool ?st = Inr (published_leaves s)"
  proof (rule leaves_complete [OF assms(9) inv' client_tree [OF assms(1-8)]])
    show "ce \<in> ingested chain ?st \<and> processed ?st (ce_id ce)" if "ce \<in> chain" for ce
      using nothing_pending [OF assms(9) inv' no] that ing by simp
  qed (use dep assms(15) in blast)+
  with dep assms(15) have tree: "build_validated_pool_tree p2 pool (length ?xs) d r w =
      (if r = Field (tree_root hc (get_zeroes ! 0) d ?xs)
       then Inr (Inr \<lparr>mb_depth = d, mb_empty = empty_chain hc d, mb_levels = built_levels hc ?xs d\<rparr>)
       else Inl (Err PoolRootMismatch))" for r
    unfolding val by (intro validated_tree [OF assms(14) _ _ _ _ _ assms(17)]) (auto simp: published_leaves_def)
  have "built_root \<lparr>mb_depth = d, mb_empty = empty_chain hc d, mb_levels = built_levels hc ?xs d\<rparr>
      = Inr (Field (tree_root hc (get_zeroes ! 0) d ?xs))"
    using built_facts(2) [of d ?xs hc] dep by simp
  with tree dep assms(16) [unfolded val(1)] show ?thesis unfolding val by (intro exI conjI allI) simp_all
qed

text \<open>
  What a client has of the pool's tree is never wrong. Whatever part of the chain it was given, in
  whatever order, the leaves its store returns are the first of the pool's leaves, all different. So
  once the pool holds the same commitment twice, which the contract does not refuse, no client ever
  reads past the second of them.
\<close>

theorem client_leaves_are_a_prefix:
  assumes "good_host host" and "zeroes_consistent (compress_value host)"
    and "pool_constructor admin token verifier asp_m asp_nm cap d empty_pool = Inr s0"
    and "pool_history host self pay (s0, t0) calls (s, t)"
    and "ascii_symbols env" and "list_all2 (\<lambda>ce e. carries env ce (pool_event_form e)) ces (p_events s)"
    and "set ces \<subseteq> chain" and "\<forall>ce\<in>chain. ce_contract_id ce = pool \<longleftrightarrow> ce \<in> set ces"
    and "chain_ok chain" and "store_reach env chain st"
    and "get_pool_commitment_leaves_ordered pool st = Inr leaves"
  shows "leaves = take (length leaves) (published_leaves s) \<and> distinct leaves
    \<and> (\<forall>i j. i < j \<and> j < length (published_leaves s) \<and> published_leaves s ! i = published_leaves s ! j
        \<longrightarrow> length leaves \<le> j)"
proof -
  note inv = store_reach_inv [OF assms(10,9)]
  have pre: "leaves = take (length leaves) (published_leaves s)"
    by (rule leaves_prefix [OF assms(9) inv client_tree [OF assms(1-8)] assms(11)])
  have dist: "distinct leaves" by (rule leaves_distinct [OF inv assms(11)])
  have "length leaves \<le> j"
    if "i < j" "j < length (published_leaves s)" "published_leaves s ! i = published_leaves s ! j" for i j
  proof (rule ccontr)
    assume "\<not> length leaves \<le> j"
    then have "i < length leaves" "j < length leaves" using that(1) by simp_all
    with pre that(3) have "leaves ! i = leaves ! j" by (metis nth_take)
    with dist \<open>i < length leaves\<close> \<open>j < length leaves\<close> that(1) show False by (simp add: nth_eq_iff_index_eq)
  qed
  with pre dist show ?thesis by blast
qed

section \<open>A small pool and a client of it\<close>

text \<open>
  A pool of depth one whose two leaves both hashes send to the same root: the host of the samples computes
  \<open>l + 2 r + 1\<close>, the parameters without rounds \<open>3 l + r\<close>.
\<close>

definition client_proof :: pool_proof where
  "client_proof = sample_pool_proof\<lparr>pf_root := get_zeroes ! 1, output_commitment0 := 5\<rparr>"

lemma get_zeroes_1_nonzero: "get_zeroes ! Suc 0 \<noteq> 0"
proof -
  have "unat (get_zeroes ! Suc 0) = be_value (zeroes_1 ! 1)"
    using zeroes_bytes by (simp add: get_zeroes_def zeroes_1_def unat_from_be_bytes)
  moreover have "be_value (zeroes_1 ! 1) \<noteq> 0" by (simp add: zeroes_1_def)
  ultimately show ?thesis by auto
qed

lemma client_pool:
  obtains s0 s t where "pool_constructor ''admin'' ''xlm'' ''verifier'' ''m'' ''nm'' 1000 1 empty_pool = Inr s0"
    and "pool_history sample_host ''pool'' table_transfer (s0, sample_tokens)
      [Transact client_proof sample_ext ''alice''] (s, t)"
    and "p_events s = [NewNullifierEvent 6, NewNullifierEvent 7, NewCommitmentEvent 5 0 [1], NewCommitmentEvent 9 1 [2]]"
proof -
  obtain tree where tree: "init 1 empty_merkle_store = Inr tree"
      "merkle_inv (compress_value sample_host) 1 [] tree"
    using init_establishes [OF zeroes_consistent_sample, of 1] by auto
  let ?s = "empty_pool\<lparr>p_admin := Some ''admin'', p_token := Some ''xlm'', p_verifier := Some ''verifier'',
      asp_membership := Some ''m'', asp_non_membership := Some ''nm'',
      maximum_deposit_amount := Some 1000, nullifiers := Some Map.empty, p_tree := tree\<rparr>"
  have cons: "pool_constructor ''admin'' ''xlm'' ''verifier'' ''m'' ''nm'' 1000 1 empty_pool = Inr ?s"
    using tree(1) by (simp add: pool_constructor_def empty_pool_def)
  have "pool_root (compress_value sample_host) 1 [] 0 = get_zeroes ! 1"
    using zeroes_consistent_sample
    by (simp add: pool_root_def node_empty zeroes_consistent_def list_all_iff)
  with is_known_root_spec [OF tree(2), of "get_zeroes ! 1"]
  have known: "is_known_root (get_zeroes ! 1) tree = Some (Inr True)"
    by (simp add: get_zeroes_1_nonzero ROOT_HISTORY_SIZE_def)
  have can: "canonical (get_zeroes ! 1)" by (rule canonical_get_zeroes) simp
  have "calculate_public_amount 100 = Inr 100"
    by (simp add: calculate_public_amount_def i256_abs_to_u256_def max_ext_amount_le)
  moreover have "verify_proof sample_pool_env client_proof ?s = Inr True"
    using can by (simp add: verify_proof_def proof_is_empty_def client_proof_def sample_pool_proof_def
        sample_pool_env_def validate_bn256_public_inputs_def validate_field_element)
  ultimately have adm: "transact_admissible sample_pool_env client_proof sample_ext ''alice'' ?s"
    using known
    by (simp add: transact_admissible_def sample_pool_env_def client_proof_def sample_pool_proof_def sample_ext_def
        spent_in_def hash_ext_data_def get_asp_membership_root_def get_asp_non_membership_root_def)
  obtain i tree' where ins: "insert_two_leaves sample_host 5 9 tree = Inr (i, tree')" "i = (0, 1)"
    using insert_two_leaves_run [OF good_sample_host zeroes_consistent_sample tree(2), of 5 9] by auto
  have "table_transfer ''xlm'' ''alice'' ''pool'' 100 sample_tokens \<noteq> None"
    by (simp add: table_transfer_def sample_tokens_def)
  then obtain t' where tr: "table_transfer ''xlm'' ''alice'' ''pool'' 100 sample_tokens = Some t'" by blast
  let ?s' = "after_transact client_proof sample_ext i tree' ?s"
  have env: "poseidon2 sample_pool_env = sample_host" "self_address sample_pool_env = ''pool''"
    "transfer_call sample_pool_env = table_transfer" by (simp_all add: sample_pool_env_def)
  have "transact sample_pool_env client_proof sample_ext ''alice'' (?s, sample_tokens) = Some (Inr (?s', t'))"
    using adm ins tr
    by (simp add: transact_Inr [of ?s Map.empty])
      (auto simp: deposit_def payout_def sample_pool_env_def client_proof_def sample_pool_proof_def sample_ext_def)
  then have "pool_history sample_host ''pool'' table_transfer (?s, sample_tokens)
      ([] @ [Transact client_proof sample_ext ''alice'']) (?s', t')"
    using pool_history.one_more [OF pool_history.no_calls env(1) env(2) env(3)] by simp
  moreover have "p_events ?s' = [NewNullifierEvent 6, NewNullifierEvent 7, NewCommitmentEvent 5 0 [1], NewCommitmentEvent 9 1 [2]]"
    by (simp add: after_transact_def client_proof_def sample_pool_proof_def sample_ext_def ins(2) empty_pool_def)
  ultimately show thesis using cons that by simp
qed

definition client_host :: xdr_host where
  "client_host = sample_event_host\<lparr>from_xdr_base64 := (from_xdr_base64 sample_event_host)(''5'' \<mapsto> u256_scval 5)\<rparr>"

definition client_events :: "contract_event list" where
  "client_events =
     [sample_contract_event ''e0'' [''null'', ''6''] ''-'', sample_contract_event ''e1'' [''null'', ''7''] ''-'',
      sample_contract_event ''e2'' [''commit'', ''5''] ''a'', sample_contract_event ''e3'' [''commit'', ''9''] ''b'']"

definition client_store :: storage where
  "client_store = save_events_batch \<lparr>cd_events = client_events, cd_cursor = ''c'', cd_latest_ledger = 9\<rparr> empty_storage"

lemma client_carried:
  "ascii_symbols client_host"
  "list_all2 (\<lambda>ce e. carries client_host ce (pool_event_form e)) client_events
     [NewNullifierEvent 6, NewNullifierEvent 7, NewCommitmentEvent 5 0 [1], NewCommitmentEvent 9 1 [2]]"
  by (simp_all add: ascii_symbols_def client_host_def sample_event_host_def client_events_def carries_def
      sample_contract_event_def)

lemma client_chain: "chain_ok (set client_events)"
  by (simp add: chain_ok_def client_events_def sample_contract_event_def)

lemma client_store_reach: "store_reach env (set client_events) client_store"
  unfolding client_store_def by (rule ingest [OF opened]) simp

lemma client_ingested: "ingested (set client_events) client_store = set client_events"
  using save_events_batch_run [OF empty_store_inv client_chain, of client_events]
  by (auto simp: client_store_def save_events_batch_def ingested_def)

lemma client_pending: "length (pending client_store) \<le> 4"
proof -
  have raw: "raw_inv (set client_events) client_store"
    using store_reach_inv [OF client_store_reach client_chain] by (simp add: store_inv_def)
  have "length (pending client_store) = card (set (pending client_store))"
    using pending_events [OF client_chain raw] by (metis distinct_card distinct_map)
  also have "\<dots> \<le> card (set client_events)"
    using pending_events [OF client_chain raw] by (intro card_mono) (auto simp: ingested_def)
  also have "\<dots> \<le> 4" using card_length [of client_events] by (simp add: client_events_def)
  finally show ?thesis .
qed

lemma client_parses:
  "map (parse_event client_host) client_events =
     [Inr (Nullifier ''e0'' (Field 6)), Inr (Nullifier ''e1'' (Field 7)),
      Inr (Commitment ''e2'' (Field 5) 0 [1]), Inr (Commitment ''e3'' (Field 9) 1 [2])]"
proof -
  obtain s0 s t where "pool_constructor ''admin'' ''xlm'' ''verifier'' ''m'' ''nm'' 1000 1 empty_pool = Inr s0"
    and "pool_history sample_host ''pool'' table_transfer (s0, sample_tokens)
      [Transact client_proof sample_ext ''alice''] (s, t)"
    and log: "p_events s = [NewNullifierEvent 6, NewNullifierEvent 7, NewCommitmentEvent 5 0 [1], NewCommitmentEvent 9 1 [2]]"
    by (rule client_pool)
  from pool_events_read_back0 [OF good_sample_host zeroes_consistent_sample this(1,2) client_carried(1)
      client_carried(2) [folded log]]
  show ?thesis by (simp add: log client_events_def sample_contract_event_def)
qed

lemma client_collisions: "distinct_claims client_host (set client_events)"
proof -
  have "map (claim client_host) client_events = [Some (OfNullifier (Field 6)), Some (OfNullifier (Field 7)),
      Some (OfCommitment (Field 5)), Some (OfCommitment (Field 9))]"
    using client_parses by (simp add: claim_def client_events_def)
  moreover from this have "distinct (map (claim client_host) client_events)" by simp
  ultimately show ?thesis
    by (auto simp: distinct_claims_def distinct_map) (auto simp: client_events_def)
qed

theorem client_rebuilds_pool_tree_witness:
  "\<exists>s root tree. p_events s = [NewNullifierEvent 6, NewNullifierEvent 7, NewCommitmentEvent 5 0 [1], NewCommitmentEvent 9 1 [2]]
    \<and> pool_get_root s = Inr root
    \<and> build_validated_pool_tree (bare_params 2) ''pool'' 2 1 (Field root)
        \<lparr>ws_storage = Some (process_step client_host 4 client_store), ws_kicked = False, ws_rng = 0\<rparr> = Inr (Inr tree)"
proof -
  obtain s0 s t where cons: "pool_constructor ''admin'' ''xlm'' ''verifier'' ''m'' ''nm'' 1000 1 empty_pool = Inr s0"
    and hist: "pool_history sample_host ''pool'' table_transfer (s0, sample_tokens)
      [Transact client_proof sample_ext ''alice''] (s, t)"
    and log: "p_events s = [NewNullifierEvent 6, NewNullifierEvent 7, NewCommitmentEvent 5 0 [1], NewCommitmentEvent 9 1 [2]]"
    by (rule client_pool)
  let ?w = "\<lparr>ws_storage = Some (process_step client_host 4 client_store), ws_kicked = False, ws_rng = 0\<rparr>"
  have leaves: "published_leaves s = [Field 5, Field 9]" by (simp add: published_leaves_def log)
  have mine: "\<forall>ce\<in>set client_events. ce_contract_id ce = ''pool'' \<longleftrightarrow> ce \<in> set client_events"
    by (simp add: client_events_def sample_contract_event_def)
  have "sample_target 5 9 = 24"
    by (simp add: sample_target_def prime_def split: option.splits)
  then have "compress_value sample_host 5 9 = bare_compress 5 9"
    by (simp add: compress_value_sample bare_compress_def prime_def)
  then have agree: "tree_root bare_compress (get_zeroes ! 0) 1 (map field_value (published_leaves s))
      = tree_root (compress_value sample_host) (get_zeroes ! 0) 1 (map field_value (published_leaves s))"
    by (simp add: leaves)
  have small: "length (pending client_store) \<le> 1 * 4" "length (published_leaves s) < 2 ^ 32"
    "ws_storage ?w = Some ((process_step client_host 4 ^^ 1) client_store)"
    using client_pending by (simp_all add: leaves)
  have two: "length (published_leaves s) = 2" by (simp add: leaves)
  from client_rebuilds_pool_tree [OF good_sample_host zeroes_consistent_sample cons hist client_carried(1)
      client_carried(2) [folded log] subset_refl mine client_chain client_collisions client_store_reach
      client_ingested small(1) bare_compresses small(2) agree small(3)] log
  show ?thesis unfolding two by metis
qed

text \<open>A client that was given the pool's first commitment only, and later a second event with the same one.\<close>

definition early_store :: storage where
  "early_store = process_step client_host 50
     (save_events_batch \<lparr>cd_events = [client_events ! 2], cd_cursor = ''c'', cd_latest_ledger = 5\<rparr> empty_storage)"

definition repeated_event :: contract_event where
  "repeated_event = sample_contract_event ''e4'' [''commit'', ''5''] ''b''"

definition stuck_store :: storage where
  "stuck_store = save_events_batch \<lparr>cd_events = [repeated_event], cd_cursor = ''c'', cd_latest_ledger = 5\<rparr> early_store"

lemma early_parse: "parse_event client_host (client_events ! 2) = Inr (Commitment ''e2'' (Field 5) 0 [1])"
  using client_parses by (simp add: client_events_def)

lemmas store_eval = save_events_batch_def save_event_def get_or_create_contract_id_def fresh_id_def empty_storage_def
  get_unprocessed_events_def sort_by_def processed_def stored_event_def address_of_def

lemma early_store_eval:
  "early_store = empty_storage\<lparr>st_contracts := [(1, ''pool'')],
     st_raw := [\<lparr>re_id = ''e2'', re_ledger = 5, re_contract = 1, re_topics = ''commit,5'', re_value = ''a''\<rparr>],
     st_commitments := [\<lparr>cr_id = 1, cr_commitment = Field 5, cr_leaf_index = 0, cr_output = [1], cr_event = ''e2''\<rparr>]\<rparr>"
proof -
  let ?t = "empty_storage\<lparr>st_contracts := [(1, ''pool'')],
      st_raw := [\<lparr>re_id = ''e2'', re_ledger = 5, re_contract = 1, re_topics = ''commit,5'', re_value = ''a''\<rparr>]\<rparr>"
  have s: "save_events_batch \<lparr>cd_events = [client_events ! 2], cd_cursor = ''c'', cd_latest_ledger = 5\<rparr> empty_storage = ?t"
    by (simp add: store_eval client_events_def sample_contract_event_def)
  have u: "get_unprocessed_events 50 ?t = [client_events ! 2]"
    by (simp add: store_eval client_events_def sample_contract_event_def)
  have b: "fold (collect_event client_host) (rev [client_events ! 2]) empty_batch
      = empty_batch\<lparr>pb_commitments := [(''e2'', Field 5, 0, [1])]\<rparr>"
    by (simp add: collect_event_def early_parse empty_batch_def)
  show ?thesis
    unfolding early_store_def s process_step_def process_events_def u b Let_def
    by (simp add: empty_batch_def save_nullifier_events_batch_def save_commitment_events_batch_def save_commitment_def
        save_public_key_events_batch_def save_leaf_added_events_batch_def raw_of_def empty_storage_def fresh_id_def)
qed

lemma early_leaves: "get_pool_commitment_leaves_ordered ''pool'' early_store = Inr [Field 5]"
  by (simp add: early_store_eval get_pool_commitment_leaves_ordered_def contract_of_def raw_of_def address_of_def
      empty_storage_def push_leaf_def col_u32_def column_field_Inr checked_add_def fits_def result_simps)

lemma repeated_parse: "claim client_host repeated_event = Some (OfCommitment (Field 5))"
proof -
  have "carries client_host repeated_event (pool_event_form (NewCommitmentEvent 5 1 [2]))"
    by (simp add: client_host_def sample_event_host_def repeated_event_def carries_def sample_contract_event_def)
  from pool_event_read [OF client_carried(1) this] show ?thesis by (simp add: claim_def)
qed

lemma stuck_store_run: "get_unprocessed_events FETCH_LIMIT stuck_store = [repeated_event]"
  "claimed stuck_store (OfCommitment (Field 5))"
  by (simp_all add: stuck_store_def early_store_eval store_eval repeated_event_def sample_contract_event_def
      FETCH_LIMIT_def)

text \<open>
  Events that cannot be saved stop the store. When the oldest unprocessed events, as many as a round
  fetches, all fail to parse, are of a kind no table keeps, or repeat a commitment, nullifier or leaf index that is stored, a
  round saves nothing and still reports progress, so no later event is ever processed and the
  worker's loop never ends normally: it runs for ever unless a store error ends it.
\<close>

theorem unsaveable_events_stop_the_store:
  assumes "get_unprocessed_events FETCH_LIMIT s \<noteq> []"
    and "\<forall>ce\<in>set (get_unprocessed_events FETCH_LIMIT s). unsaveable env s ce"
  shows "process_events env FETCH_LIMIT s = (Inr True, s) \<and> process_until_empty env derive s \<noteq> Some (Inr (), s')"
proof -
  have "stuck env FETCH_LIMIT s" using assms by (simp add: stuck_def)
  with stuck_loop [of env derive s "(Inr (), s')"] process_skips [OF assms] show ?thesis by auto
qed

theorem unsaveable_events_stop_the_store_witness:
  "process_events client_host FETCH_LIMIT stuck_store = (Inr True, stuck_store)
    \<and> (\<forall>s'. process_until_empty client_host (\<lambda>_ _. Some None) stuck_store \<noteq> Some (Inr (), s'))"
proof -
  have "get_unprocessed_events FETCH_LIMIT stuck_store \<noteq> []"
    "\<forall>ce\<in>set (get_unprocessed_events FETCH_LIMIT stuck_store). unsaveable client_host stuck_store ce"
    using stuck_store_run by (simp_all add: unsaveable_def repeated_parse)
  from unsaveable_events_stop_the_store [OF this] show ?thesis by blast
qed

theorem client_leaves_are_a_prefix_witness:
  "\<exists>s. p_events s = [NewNullifierEvent 6, NewNullifierEvent 7, NewCommitmentEvent 5 0 [1], NewCommitmentEvent 9 1 [2]]
    \<and> get_pool_commitment_leaves_ordered ''pool'' early_store = Inr (take 1 (published_leaves s))"
proof -
  obtain s0 s t where cons: "pool_constructor ''admin'' ''xlm'' ''verifier'' ''m'' ''nm'' 1000 1 empty_pool = Inr s0"
    and hist: "pool_history sample_host ''pool'' table_transfer (s0, sample_tokens)
      [Transact client_proof sample_ext ''alice''] (s, t)"
    and log: "p_events s = [NewNullifierEvent 6, NewNullifierEvent 7, NewCommitmentEvent 5 0 [1], NewCommitmentEvent 9 1 [2]]"
    by (rule client_pool)
  have mine: "\<forall>ce\<in>set client_events. ce_contract_id ce = ''pool'' \<longleftrightarrow> ce \<in> set client_events"
    by (simp add: client_events_def sample_contract_event_def)
  have "store_reach client_host (set client_events)
      (save_events_batch \<lparr>cd_events = [client_events ! 2], cd_cursor = ''c'', cd_latest_ledger = 5\<rparr> empty_storage)"
    by (rule ingest [OF opened]) (simp add: client_events_def)
  from process_step_reach [OF this, of 1 50] have "store_reach client_host (set client_events) early_store"
    by (simp add: early_store_def)
  from client_leaves_are_a_prefix [OF good_sample_host zeroes_consistent_sample cons hist client_carried(1)
      client_carried(2) [folded log] subset_refl mine client_chain this early_leaves] log
  show ?thesis by (auto simp: early_leaves)
qed

end
