(* ===== verification/UserFacts.thy ===== *)
theory UserFacts
  imports NoteFlow ClientFacts
begin

text \<open>
  The notes of the client's accounts (\<open>state/src/storage.rs\<close>, \<open>web/src/workers/storage.rs\<close>): row ids grow, an
  invariant of the user tables says that everything below the scan marks is found and settled (\<open>user_inv\<close>, kept by
  every turn: the interpretation \<open>note_inv\<close>), and \<open>client_reach\<close> are the stores of a client at
  work. At the end: the worker's loop ends, it leaves all notes settled, and one short
  ciphertext prevents this.
\<close>

section \<open>Ids grow\<close>

definition ids_ok :: "storage \<Rightarrow> bool" where
  "ids_ok s \<longleftrightarrow> sorted_wrt (<) (0 # map nr_id (st_nullifiers s)) \<and> sorted_wrt (<) (0 # map cr_id (st_commitments s))"

lemma fresh_id_sorted: "sorted_wrt (<) (0 # ids) \<Longrightarrow> sorted_wrt (<) (0 # ids @ [fresh_id ids])"
  using fresh_id_greater [of _ ids] by (auto simp: sorted_wrt_append fresh_id_def)

lemma save_ids:
  "save_nullifier n s = Inr s' \<Longrightarrow> ids_ok s \<Longrightarrow> ids_ok s'"
  "save_commitment c s = Inr s' \<Longrightarrow> ids_ok s \<Longrightarrow> ids_ok s'"
  "save_public_key p s = Inr s' \<Longrightarrow> ids_ok s \<Longrightarrow> ids_ok s'"
  "save_leaf_added l s = Inr s' \<Longrightarrow> ids_ok s \<Longrightarrow> ids_ok s'"
  using fresh_id_sorted [of "map nr_id (st_nullifiers s)"] fresh_id_sorted [of "map cr_id (st_commitments s)"]
  by (auto simp: save_nullifier_def save_commitment_def save_public_key_def save_leaf_added_def ids_ok_def result_simps
      split: prod.splits if_splits)

lemma batch_ids:
  "fold_result save es s = Inr s' \<Longrightarrow> ids_ok s \<Longrightarrow> (\<And>e u v. save e u = Inr v \<Longrightarrow> ids_ok u \<Longrightarrow> ids_ok v) \<Longrightarrow> ids_ok s'"
  by (erule fold_result_invariant [where P = ids_ok]) auto

lemmas save_batches = save_nullifier_events_batch_def save_commitment_events_batch_def
  save_public_key_events_batch_def save_leaf_added_events_batch_def

lemma commit_all_ids:
  "commit_all fs s = (r, s') \<Longrightarrow> (\<And>f s s'. f \<in> set fs \<Longrightarrow> f s = Inr s' \<Longrightarrow> ids_ok s \<Longrightarrow> ids_ok s') \<Longrightarrow> ids_ok s \<Longrightarrow> ids_ok s'"
  by (induction fs s rule: commit_all.induct) (auto split: sum.splits)

lemma process_events_ids:
  assumes "process_events env limit s = (r, s')" and "ids_ok s"
  shows "ids_ok s'"
proof -
  show ?thesis
  proof (cases "get_unprocessed_events limit s = []")
    case True
    with assms show ?thesis by (simp add: process_events_def)
  next
    case False
    let ?b = "fold (collect_event env) (rev (get_unprocessed_events limit s)) empty_batch"
    let ?fs = "[save_nullifier_events_batch (pb_nullifiers ?b), save_commitment_events_batch (pb_commitments ?b),
      save_public_key_events_batch (pb_pubkeys ?b), save_leaf_added_events_batch (pb_leaves ?b)]"
    from assms(1) False obtain r' where run: "commit_all ?fs s = (r', s')"
      by (auto simp: process_events_def Let_def split: prod.splits)
    have keep: "ids_ok v" if "f \<in> set ?fs" "f u = Inr v" "ids_ok u" for f u v
      using that unfolding save_batches by (auto elim!: batch_ids intro: save_ids)
    show ?thesis by (rule commit_all_ids [OF run _ assms(2)]) (rule keep)
  qed
qed

lemma store_reach_ids:
  assumes "chain_ok chain"
  shows "store_reach env chain s \<Longrightarrow> ids_ok s"
proof (induction rule: store_reach.induct)
  case (ingest s data)
  with save_events_batch_run [OF store_reach_inv [OF ingest(1) assms] assms ingest(2)] show ?case
    by (auto simp: save_events_batch_def ids_ok_def)
next
  case (progress s metadata fully)
  have keep: "ids_ok t \<Longrightarrow> ids_ok (save_progress_entry fully e t)" for e t
    by (auto simp: save_progress_entry_def get_or_create_contract_id_def ids_ok_def Let_def split: option.splits)
  have "ids_ok s \<Longrightarrow> ids_ok (fold (save_progress_entry fully) metadata s)"
    by (induction metadata arbitrary: s) (auto intro: keep)
  with progress show ?case by (simp add: save_sync_progress_def)
next
  case (user_side s s')
  then show ?case by (auto simp: ids_ok_def chain_tables_def)
next
  case (process s limit r s')
  then show ?case using process_events_ids by blast
qed (simp_all add: ids_ok_def empty_storage_def clear_indexing_cursors_def)

section \<open>The notes of an account\<close>

definition row_of :: "commitment_row \<Rightarrow> pool_commitment_row" where
  "row_of c = \<lparr>pc_commitment_id = cr_id c, pc_commitment = cr_commitment c, pc_leaf_index = cr_leaf_index c,
     pc_encrypted_output = cr_output c\<rparr>"

text \<open>\<open>note_from\<close>: the note is what \<open>derive\<close> makes of a stored commitment for one of the accounts.\<close>

definition note_from :: "derive_note \<Rightarrow> account_keys list \<Rightarrow> storage \<Rightarrow> user_note_row \<Rightarrow> bool" where
  "note_from derive accounts s n \<longleftrightarrow>
     (\<exists>acc\<in>set accounts. \<exists>c\<in>set (st_commitments s). \<exists>d. derive acc (row_of c) = Some (Some d)
        \<and> un_account n = ak_account_id acc \<and> un_id n = cr_commitment c \<and> un_commitment n = cr_id c
        \<and> un_expected n = dr_expected_nullifier d \<and> un_blinding n = dr_blinding d \<and> un_amount n = dr_amount d)"

text \<open>\<open>spent_by\<close>: the nullifier is the one expected for the note, published by the pool of its commitment.\<close>

definition spent_by :: "storage \<Rightarrow> user_note_row \<Rightarrow> nullifier_row \<Rightarrow> bool" where
  "spent_by s n r \<longleftrightarrow> r \<in> set (st_nullifiers s) \<and> nr_nullifier r = un_expected n
     \<and> (\<exists>c\<in>set (st_commitments s). \<exists>pool. cr_id c = un_commitment n
          \<and> contract_id_of s (cr_event c) = Some pool \<and> contract_id_of s (nr_event r) = Some pool)"

text \<open>
  \<open>discovered\<close>: the commitment is not the account's, or there is a note of it, or a spent note of the
  same nullifier (the \<open>UNIQUE\<close> columns of \<open>user_notes\<close> admit no second one).
\<close>

definition discovered :: "derive_note \<Rightarrow> storage \<Rightarrow> account_keys \<Rightarrow> commitment_row \<Rightarrow> bool" where
  "discovered derive s acc c \<longleftrightarrow> derive acc (row_of c) = Some None
     \<or> (\<exists>d. derive acc (row_of c) = Some (Some d)
          \<and> (\<exists>n\<in>set (st_user_notes s). un_commitment n = cr_id c
               \<or> un_expected n = dr_expected_nullifier d \<and> un_nullifier n \<noteq> None))"

definition notes_ok :: "derive_note \<Rightarrow> account_keys list \<Rightarrow> storage \<Rightarrow> bool" where
  "notes_ok derive accounts s \<longleftrightarrow>
     (\<forall>n\<in>set (st_user_notes s). note_from derive accounts s n
        \<and> (\<forall>i. un_nullifier n = Some i \<longrightarrow> (\<exists>r. spent_by s n r \<and> nr_id r = i)))"

text \<open>Below the marks nothing is missed.\<close>

definition unmarked :: "storage \<Rightarrow> nullifier_row \<Rightarrow> bool" where
  "unmarked s r \<longleftrightarrow> (\<exists>n\<in>set (st_user_notes s). un_nullifier n = None \<and> spent_by s n r)"

definition user_inv :: "derive_note \<Rightarrow> account_keys list \<Rightarrow> storage \<Rightarrow> bool" where
  "user_inv derive accounts s \<longleftrightarrow> notes_ok derive accounts s
     \<and> (\<forall>r pool. unmarked s r \<and> contract_id_of s (nr_event r) = Some pool \<longrightarrow> nullifier_mark s pool < nr_id r)
     \<and> (\<forall>pool. nullifier_mark s pool \<in> insert 0 (nr_id ` set (st_nullifiers s)))
     \<and> (\<forall>k m. st_commitment_scan s k = Some m \<longrightarrow> m \<in> insert 0 (cr_id ` set (st_commitments s)))
     \<and> (\<forall>acc\<in>set accounts. \<forall>c\<in>set (st_commitments s). \<forall>pool m. contract_id_of s (cr_event c) = Some pool
          \<and> st_commitment_scan s (pool, ak_account_id acc) = Some m \<and> cr_id c \<le> m \<longrightarrow> discovered derive s acc c)"

lemma same_chain_spent: "same_chain s s' \<Longrightarrow> spent_by s' = spent_by s"
  using same_chain_contract [of s s'] by (simp add: spent_by_def same_chain_def fun_eq_iff)

lemma same_chain_note_from: "same_chain s s' \<Longrightarrow> note_from derive accounts s' = note_from derive accounts s"
  by (simp add: note_from_def same_chain_def fun_eq_iff)

text \<open>New rows and new raw events change nothing for the rows that are there.\<close>

lemma user_inv_grows:
  assumes inv: "user_inv derive accounts s"
    and kept: "st_user_notes s' = st_user_notes s" "st_commitment_scan s' = st_commitment_scan s"
      "st_nullifier_scan s' = st_nullifier_scan s"
    and coms: "st_commitments s' = st_commitments s @ cs" and nulls: "st_nullifiers s' = st_nullifiers s @ ns"
    and old: "\<And>c. c \<in> set (st_commitments s) \<Longrightarrow> contract_id_of s' (cr_event c) = contract_id_of s (cr_event c)"
      "\<And>r. r \<in> set (st_nullifiers s) \<Longrightarrow> contract_id_of s' (nr_event r) = contract_id_of s (nr_event r)"
    and ids: "ids_ok s'"
  shows "user_inv derive accounts s'"
proof -
  have srt: "sorted_wrt (<) (map nr_id (st_nullifiers s) @ map nr_id ns)" "\<forall>r\<in>set ns. 0 < nr_id r"
    "sorted_wrt (<) (map cr_id (st_commitments s) @ map cr_id cs)" "\<forall>c\<in>set cs. 0 < cr_id c"
    using ids by (simp_all add: ids_ok_def coms nulls)
  have newn: "nr_id r0 < nr_id r" if "r \<in> set ns" "r0 \<in> set (st_nullifiers s)" for r r0
    using srt(1) that by (simp add: sorted_wrt_append)
  have newc: "cr_id c0 < cr_id c" if "c \<in> set cs" "c0 \<in> set (st_commitments s)" for c c0
    using srt(3) that by (simp add: sorted_wrt_append)
  have from_mono: "note_from derive accounts s n \<Longrightarrow> note_from derive accounts s' n" for n
    by (auto simp: note_from_def coms)
  have spent_mono: "spent_by s n r \<Longrightarrow> spent_by s' n r" for n r
    using old by (auto simp: spent_by_def coms nulls)
  have mark: "nullifier_mark s' = nullifier_mark s" by (simp add: nullifier_mark_def kept fun_eq_iff)
  note I = inv [unfolded user_inv_def]
  have "notes_ok derive accounts s'" using I from_mono spent_mono unfolding notes_ok_def kept by blast
  moreover have "nullifier_mark s' pool < nr_id r"
    if u: "unmarked s' r" and p: "contract_id_of s' (nr_event r) = Some pool" for r pool
  proof -
    from u obtain n where n: "n \<in> set (st_user_notes s)" "un_nullifier n = None" "spent_by s' n r"
      by (auto simp: unmarked_def kept)
    from I n(1) obtain c0 where c0: "c0 \<in> set (st_commitments s)" "un_commitment n = cr_id c0"
      by (auto simp: notes_ok_def note_from_def)
    from n(3) obtain c where c: "c \<in> set (st_commitments s')" "cr_id c = un_commitment n"
        "contract_id_of s' (cr_event c) = Some pool" "r \<in> set (st_nullifiers s')" "nr_nullifier r = un_expected n"
      using p by (auto simp: spent_by_def)
    have cold: "c \<in> set (st_commitments s)"
    proof (cases "c \<in> set cs")
      case True
      from newc [OF this c0(1)] c(2) c0(2) show ?thesis by simp
    qed (use c(1) in \<open>simp add: coms\<close>)
    show ?thesis
    proof (cases "r \<in> set (st_nullifiers s)")
      case True
      with c cold p old n(1,2) have "unmarked s r" "contract_id_of s (nr_event r) = Some pool"
        by (auto simp: unmarked_def spent_by_def)
      with I mark show ?thesis by simp
    next
      case False
      with c(4) have r: "r \<in> set ns" by (simp add: nulls)
      have "nullifier_mark s pool \<in> insert 0 (nr_id ` set (st_nullifiers s))" using I by blast
      with newn [OF r] srt(2) r mark show ?thesis by auto
    qed
  qed
  moreover have "discovered derive s' acc c"
    if a: "acc \<in> set accounts" "c \<in> set (st_commitments s')" "contract_id_of s' (cr_event c) = Some pool"
      "st_commitment_scan s' (pool, ak_account_id acc) = Some m" "cr_id c \<le> m" for acc c pool m
  proof -
    have "m \<in> insert 0 (cr_id ` set (st_commitments s))" using I a(4) by (simp add: kept)
    with newc srt(4) a(2,5) have "c \<in> set (st_commitments s)" by (fastforce simp: coms)
    with I a old have "discovered derive s acc c" by (simp add: kept)
    then show ?thesis by (simp add: discovered_def kept)
  qed
  moreover have "nullifier_mark s' pool \<in> insert 0 (nr_id ` set (st_nullifiers s'))" for pool
    using I mark by (auto simp: nulls)
  moreover have "m \<in> insert 0 (cr_id ` set (st_commitments s'))" if "st_commitment_scan s' k = Some m" for k m
  proof -
    have "m \<in> insert 0 (cr_id ` set (st_commitments s))" using I that unfolding kept by blast
    then show ?thesis by (auto simp: coms)
  qed
  ultimately show ?thesis unfolding user_inv_def by blast
qed

section \<open>One row of a scan\<close>

lemma insert_user_note_cases:
  "insert_user_note n s = s\<lparr>st_user_notes := st_user_notes s @ [n]\<rparr>
   \<or> insert_user_note n s = s
     \<and> (\<exists>k\<in>set (st_user_notes s). un_id k = un_id n \<or> un_commitment k = un_commitment n
          \<or> un_nullifier n \<noteq> None \<and> un_nullifier k = un_nullifier n)"
  by (auto simp: insert_user_note_def)

text \<open>Notes are only added, with their links; this keeps what was discovered.\<close>

definition extends :: "storage \<Rightarrow> storage \<Rightarrow> bool" where
  "extends s s' \<longleftrightarrow> same_chain s s'
     \<and> (\<forall>n\<in>set (st_user_notes s). \<exists>n'\<in>set (st_user_notes s'). un_commitment n' = un_commitment n
          \<and> un_expected n' = un_expected n \<and> (un_nullifier n \<noteq> None \<longrightarrow> un_nullifier n' \<noteq> None))"

lemma extends_discovered: "extends s s' \<Longrightarrow> discovered derive s acc c \<Longrightarrow> discovered derive s' acc c"
  unfolding extends_def discovered_def by metis

lemma extends_refl: "same_chain s s' \<Longrightarrow> st_user_notes s' = st_user_notes s \<Longrightarrow> extends s s'"
  by (auto simp: extends_def)

lemma extends_trans:
  assumes "extends s s1" and "extends s1 s2"
  shows "extends s s2"
  unfolding extends_def
proof (intro conjI ballI)
  show "same_chain s s2" using assms same_chain_trans unfolding extends_def by blast
  fix n assume "n \<in> set (st_user_notes s)"
  with assms(1) obtain n1 where n1: "n1 \<in> set (st_user_notes s1)" "un_commitment n1 = un_commitment n"
      "un_expected n1 = un_expected n" "un_nullifier n \<noteq> None \<longrightarrow> un_nullifier n1 \<noteq> None"
    unfolding extends_def by blast
  from assms(2) n1(1) obtain n2 where "n2 \<in> set (st_user_notes s2)" "un_commitment n2 = un_commitment n1"
      "un_expected n2 = un_expected n1" "un_nullifier n1 \<noteq> None \<longrightarrow> un_nullifier n2 \<noteq> None"
    unfolding extends_def by blast
  with n1 show "\<exists>n'\<in>set (st_user_notes s2). un_commitment n' = un_commitment n
      \<and> un_expected n' = un_expected n \<and> (un_nullifier n \<noteq> None \<longrightarrow> un_nullifier n' \<noteq> None)"
    by (intro bexI [of _ n2]) auto
qed

definition unique_ids :: "storage \<Rightarrow> bool" where
  "unique_ids s \<longleftrightarrow> ids_ok s \<and> distinct (map cr_commitment (st_commitments s))
     \<and> distinct (map nr_nullifier (st_nullifiers s))"

lemma ids_distinct:
  assumes "ids_ok s"
  shows "inj_on nr_id (set (st_nullifiers s))" and "inj_on cr_id (set (st_commitments s))"
  using assms strict_sorted_iff [of "map nr_id (st_nullifiers s)"] strict_sorted_iff [of "map cr_id (st_commitments s)"]
  by (auto simp: ids_ok_def distinct_map)

lemma same_chain_unique: "same_chain s s' \<Longrightarrow> unique_ids s' = unique_ids s"
  by (simp add: unique_ids_def ids_ok_def same_chain_def)

lemma scan_row_step:
  assumes ok: "notes_ok derive accounts s" and uniq: "unique_ids s"
    and acc: "acc \<in> set accounts" and c: "c \<in> set (st_commitments s)" "contract_id_of s (cr_event c) = Some pool"
    and run: "scan_row derive pool acc (row_of c) (m, s) = Inr (m', s')"
  shows "notes_ok derive accounts s' \<and> extends s s' \<and> discovered derive s' acc c
    \<and> (\<forall>r. unmarked s' r \<longrightarrow> unmarked s r)"
proof (cases "derive acc (row_of c) = Some None")
  case True
  with run have "s' = s" by (simp add: scan_row_def result_simps Let_def)
  with ok True show ?thesis by (simp add: discovered_def extends_refl)
next
  case False
  with run obtain d where d: "derive acc (row_of c) = Some (Some d)"
    by (auto simp: scan_row_def result_simps Let_def split: option.splits)
  let ?hit = "\<lambda>n. contract_id_of s (nr_event n) = Some pool \<and> nr_nullifier n = dr_expected_nullifier d"
  let ?new = "\<lparr>un_id = cr_commitment c, un_account = ak_account_id acc, un_commitment = cr_id c,
      un_nullifier = map_option nr_id (find ?hit (st_nullifiers s)), un_expected = dr_expected_nullifier d,
      un_blinding = dr_blinding d, un_amount = dr_amount d\<rparr>"
  from run d have s': "s' = insert_user_note ?new s"
    by (simp add: scan_row_def result_simps Let_def) (simp add: row_of_def)
  have chain: "same_chain s s'" using insert_user_note_frame [of s ?new] s' by blast
  have from_new: "note_from derive accounts s ?new" unfolding note_from_def using acc c(1) d by auto
  have hit_spent: "spent_by s ?new r" if "r \<in> set (st_nullifiers s)" "?hit r" for r
    using that c by (auto simp: spent_by_def)
  have linked: "\<exists>r. spent_by s ?new r \<and> nr_id r = i" if "un_nullifier ?new = Some i" for i
  proof -
    from that obtain r where r: "find ?hit (st_nullifiers s) = Some r" "nr_id r = i" by auto
    then have "r \<in> set (st_nullifiers s)" "?hit r" by (auto simp: find_Some_iff)
    with hit_spent r(2) show ?thesis by blast
  qed
  consider (add) "s' = s\<lparr>st_user_notes := st_user_notes s @ [?new]\<rparr>"
    | (skip) k where "s' = s" "k \<in> set (st_user_notes s)"
        "un_id k = un_id ?new \<or> un_commitment k = un_commitment ?new
          \<or> un_nullifier ?new \<noteq> None \<and> un_nullifier k = un_nullifier ?new"
    using insert_user_note_cases [of ?new s] s' by blast
  then show ?thesis
  proof cases
    case add
    then have us: "st_user_notes s' = st_user_notes s @ [?new]" by simp
    have "notes_ok derive accounts s'"
      using ok from_new linked same_chain_note_from [OF chain] same_chain_spent [OF chain]
      unfolding notes_ok_def us by (simp del: find_Some_iff)
    moreover have "extends s s'" using chain by (auto simp: extends_def us)
    moreover have "discovered derive s' acc c" using d by (simp add: discovered_def us)
    moreover have "unmarked s r" if "unmarked s' r" for r
    proof -
      from that obtain n where n: "n \<in> set (st_user_notes s @ [?new])" "un_nullifier n = None" "spent_by s n r"
        unfolding unmarked_def us same_chain_spent [OF chain] by blast
      show ?thesis
      proof (cases "n \<in> set (st_user_notes s)")
        case True
        with n show ?thesis unfolding unmarked_def by blast
      next
        case False
        with n have new: "un_nullifier ?new = None" "spent_by s ?new r" by auto
        then obtain c0 where c0: "c0 \<in> set (st_commitments s)" "cr_id c0 = cr_id c"
            "contract_id_of s (cr_event c0) = contract_id_of s (nr_event r)" "r \<in> set (st_nullifiers s)"
            "nr_nullifier r = dr_expected_nullifier d"
          unfolding spent_by_def by auto
        with ids_distinct(2) uniq c(1) have "c0 = c" by (meson inj_onD unique_ids_def)
        with c0 c(2) have "?hit r" by simp
        with new(1) c0(4) show ?thesis by (auto simp: find_None_iff)
      qed
    qed
    ultimately show ?thesis by blast
  next
    case skip
    have "un_commitment k = cr_id c \<or> un_expected k = dr_expected_nullifier d \<and> un_nullifier k \<noteq> None"
    proof -
      from ok skip(2) have kf: "note_from derive accounts s k"
        and kl: "\<And>i. un_nullifier k = Some i \<Longrightarrow> \<exists>r. spent_by s k r \<and> nr_id r = i" by (auto simp: notes_ok_def)
      from skip(3) show ?thesis
      proof (elim disjE conjE)
        assume "un_id k = un_id ?new"
        with kf obtain c0 where c0: "c0 \<in> set (st_commitments s)" "cr_commitment c0 = cr_commitment c" "un_commitment k = cr_id c0"
          unfolding note_from_def by auto
        with uniq c(1) have "c0 = c" by (auto simp: unique_ids_def distinct_map dest: inj_onD)
        with c0 show ?thesis by simp
      next
        assume "un_commitment k = un_commitment ?new"
        then show ?thesis by simp
      next
        assume "un_nullifier ?new \<noteq> None" "un_nullifier k = un_nullifier ?new"
        then obtain i where i: "un_nullifier ?new = Some i" "un_nullifier k = Some i" by (cases "un_nullifier ?new") auto
        from linked [OF i(1)] kl [OF i(2)] obtain r q where r: "spent_by s ?new r" "nr_id r = i" "spent_by s k q" "nr_id q = i"
          by blast
        then have "r \<in> set (st_nullifiers s)" "q \<in> set (st_nullifiers s)" by (auto simp: spent_by_def)
        with r(2,4) ids_distinct(1) uniq have "q = r" by (metis inj_onD unique_ids_def)
        with r have "un_expected k = dr_expected_nullifier d" by (simp add: spent_by_def)
        with i show ?thesis by simp
      qed
    qed
    with skip(2) d have "discovered derive s acc c" unfolding discovered_def by blast
    with skip(1) ok show ?thesis by (simp add: extends_refl)
  qed
qed

section \<open>Turns keep the invariant\<close>

lemma read_rows: "map_result read_commitment_row cs = Inr rows \<Longrightarrow> rows = map row_of cs"
  by (induction cs arbitrary: rows) (auto simp: read_commitment_row_def result_simps column_field_Inr row_of_def col_u32_def
      split: if_splits)

lemma scan_rows_step:
  "fold_result (scan_row derive pool acc) (map row_of cs) (m, s) = Inr (m', s') \<Longrightarrow>
    notes_ok derive accounts s \<Longrightarrow> unique_ids s \<Longrightarrow> acc \<in> set accounts \<Longrightarrow>
    \<forall>c\<in>set cs. c \<in> set (st_commitments s) \<and> contract_id_of s (cr_event c) = Some pool \<Longrightarrow>
    notes_ok derive accounts s' \<and> extends s s' \<and> (\<forall>c\<in>set cs. discovered derive s' acc c)
    \<and> (\<forall>r. unmarked s' r \<longrightarrow> unmarked s r)"
proof (induction cs arbitrary: m s)
  case Nil
  then show ?case by (simp add: extends_refl)
next
  case (Cons c cs)
  then obtain m1 s1 where one: "scan_row derive pool acc (row_of c) (m, s) = Inr (m1, s1)"
    and rest: "fold_result (scan_row derive pool acc) (map row_of cs) (m1, s1) = Inr (m', s')"
    by (auto simp: result_simps)
  have c: "c \<in> set (st_commitments s)" "contract_id_of s (cr_event c) = Some pool" using Cons.prems(5) by simp_all
  note step = scan_row_step [OF Cons.prems(2-4) c one]
  then have ch: "same_chain s s1" by (simp add: extends_def)
  note keep = same_chain_contract [OF ch] same_chain_unique [OF ch]
  have sc: "st_commitments s1 = st_commitments s" using ch by (simp add: same_chain_def)
  have "notes_ok derive accounts s' \<and> extends s1 s' \<and> (\<forall>c\<in>set cs. discovered derive s' acc c)
    \<and> (\<forall>r. unmarked s' r \<longrightarrow> unmarked s1 r)"
    using Cons.IH [OF rest] step Cons.prems(3-5) keep sc by simp
  with step show ?case by (auto intro: extends_trans extends_discovered)
qed

lemma take_closed:
  fixes f :: "'a \<Rightarrow> nat"
  assumes "sorted (map f xs)" and "inj_on f (set xs)" and "x \<in> set (take k xs)" and "y \<in> set xs" and "f y \<le> f x"
  shows "y \<in> set (take k xs)"
proof (rule ccontr)
  assume no: "y \<notin> set (take k xs)"
  have "set xs = set (take k xs) \<union> set (drop k xs)" by (metis append_take_drop_id set_append)
  with no assms(4) have y: "y \<in> set (drop k xs)" by blast
  have "sorted (map f (take k xs) @ map f (drop k xs))"
    using assms(1) by (metis append_take_drop_id map_append)
  with assms(3) y have "f x \<le> f y" by (auto simp: sorted_append)
  with assms(5) have "f x = f y" by simp
  with assms(2,4) in_set_takeD [OF assms(3)] have "x = y" by (auto dest: inj_onD)
  with no assms(3) show False by simp
qed

lemma fold_max_reached:
  fixes f :: "'a \<Rightarrow> nat"
  assumes "sorted (map f xs)" and "inj_on f (set xs)" and "y \<in> set xs" and "m < f y"
    and "f y \<le> fold (\<lambda>r m. max m (f r)) (take k xs) m"
  shows "y \<in> set (take k xs)"
proof -
  from fold_max_in [of f "take k xs" m] assms(4,5) obtain x where "x \<in> set (take k xs)" "f y \<le> f x" by auto
  from take_closed [OF assms(1,2) this(1) assms(3) this(2)] show ?thesis .
qed

lemma turn_keeps:
  assumes inv: "user_inv derive accounts s" and uniq: "unique_ids s" and dist: "distinct (map ak_account_id accounts)"
    and acc: "acc \<in> set accounts" and t: "account_turn derive pool acc s s'"
  shows "user_inv derive accounts s'"
proof -
  let ?a = "ak_account_id acc"
  from t obtain mark k rows m s1 where mark: "st_commitment_scan s (pool, ?a) = Some mark"
    and read: "map_result read_commitment_row (take k (eligible s pool mark)) = Inr rows"
    and run: "fold_result (scan_row derive pool acc) rows (mark, s) = Inr (m, s1)" and s': "s' = set_mark pool ?a m s1"
    unfolding account_turn_def by blast
  let ?cs = "take k (eligible s pool mark)"
  note rows = read_rows [OF read]
  note I = inv [unfolded user_inv_def]
  have cs: "\<forall>c\<in>set ?cs. c \<in> set (st_commitments s) \<and> contract_id_of s (cr_event c) = Some pool"
    by (auto simp: eligible_def dest: in_set_takeD)
  have step: "notes_ok derive accounts s1" "extends s s1" "\<forall>c\<in>set ?cs. discovered derive s1 acc c"
    "\<forall>r. unmarked s1 r \<longrightarrow> unmarked s r"
    using scan_rows_step [OF run [unfolded rows] _ uniq acc cs] I by blast+
  note f = scan_rows_frame [OF run]
  have m: "m = fold (\<lambda>c m. max m (cr_id c)) ?cs mark"
    using f by (simp add: rows fold_map comp_def row_of_def)
  have c1: "same_chain s s1" and c2: "same_chain s1 s'" using f by (simp_all add: s' set_mark_def same_chain_def)
  have chain: "same_chain s s'" by (rule same_chain_trans [OF c1 c2])
  have ext: "extends s1 s'" by (rule extends_refl [OF c2]) (simp add: s' set_mark_def)
  have kept: "st_user_notes s' = st_user_notes s1" "st_nullifier_scan s' = st_nullifier_scan s"
    using f by (simp_all add: s' set_mark_def)
  have com: "st_commitments s' = st_commitments s" "st_nullifiers s' = st_nullifiers s" using chain by (simp_all add: same_chain_def)
  have nm: "nullifier_mark s' = nullifier_mark s" by (simp add: nullifier_mark_def kept fun_eq_iff)
  have un: "unmarked s' = unmarked s1"
    by (simp add: unmarked_def kept same_chain_spent [OF c2] fun_eq_iff)
  have scan': "st_commitment_scan s' = (st_commitment_scan s)((pool, ?a) \<mapsto> m)"
    using f by (simp add: s' set_mark_def)
  have "notes_ok derive accounts s'"
    using step(1) same_chain_note_from [OF c2] same_chain_spent [OF c2] by (simp add: notes_ok_def kept)
  moreover have "nullifier_mark s' p < nr_id r" if "unmarked s' r" "contract_id_of s' (nr_event r) = Some p" for r p
    using that I step(4) un nm same_chain_contract [OF chain] by simp
  moreover have "nullifier_mark s' p \<in> insert 0 (nr_id ` set (st_nullifiers s'))" for p
    using I by (simp add: nm com)
  moreover have "x \<in> insert 0 (cr_id ` set (st_commitments s'))" if x: "st_commitment_scan s' key = Some x" for key x
  proof (cases "key = (pool, ?a)")
    case True
    with x scan' have "x = m" by simp
    moreover have "mark \<in> insert 0 (cr_id ` set (st_commitments s))" using I mark by blast
    moreover have "cr_id ` set ?cs \<subseteq> cr_id ` set (st_commitments s)" using cs by blast
    ultimately show ?thesis using fold_max_in [of cr_id ?cs mark] by (auto simp: m com)
  next
    case False
    with x scan' have "st_commitment_scan s key = Some x" by simp
    with I show ?thesis unfolding com by blast
  qed
  moreover have "discovered derive s' b c"
    if b: "b \<in> set accounts" and c: "c \<in> set (st_commitments s')" "contract_id_of s' (cr_event c) = Some p"
      and x: "st_commitment_scan s' (p, ak_account_id b) = Some x" "cr_id c \<le> x" for b c p x
  proof (cases "(p, ak_account_id b) = (pool, ?a)")
    case True
    with b acc dist have ba: "b = acc" by (auto simp: distinct_map dest: inj_onD)
    have xm: "x = m" using x(1) scan' True by simp
    have c0: "c \<in> set (st_commitments s)" "contract_id_of s (cr_event c) = Some pool"
      using c True com same_chain_contract [OF chain] by simp_all
    show ?thesis
    proof (cases "cr_id c \<le> mark")
      case True
      have "discovered derive s acc c" using I acc c0 mark True by blast
      with step(2) ext ba show ?thesis by (blast intro: extends_discovered)
    next
      case False
      then have e: "c \<in> set (eligible s pool mark)" using c0 by (simp add: eligible_def)
      have "inj_on cr_id (set (eligible s pool mark))"
        using ids_distinct(2) uniq by (auto simp: unique_ids_def eligible_def intro: inj_on_subset)
      from fold_max_reached [OF _ this e, of mark k] False x(2) have "c \<in> set ?cs"
        by (simp add: xm m eligible_def)
      with step(3) ext ba show ?thesis by (blast intro: extends_discovered)
    qed
  next
    case False
    with x(1) scan' have "st_commitment_scan s (p, ak_account_id b) = Some x" by (metis fun_upd_other)
    with I b c x(2) com same_chain_contract [OF chain] have "discovered derive s b c" by metis
    with step(2) ext show ?thesis by (blast intro: extends_discovered)
  qed
  ultimately show ?thesis unfolding user_inv_def by blast
qed

section \<open>Reconciliation keeps the invariant\<close>

lemma mark_step:
  assumes ok: "notes_ok derive accounts s" and r: "r \<in> set (st_nullifiers s)" "contract_id_of s (nr_event r) = Some pool"
    and run: "mark_notes_spent pool r s = Inr s'"
  shows "notes_ok derive accounts s' \<and> extends s s' \<and> \<not> unmarked s' r \<and> (\<forall>q. unmarked s' q \<longrightarrow> unmarked s q)"
proof -
  let ?f = "\<lambda>n. if spends pool (nr_nullifier r) s n then n\<lparr>un_nullifier := Some (nr_id r)\<rparr> else n"
  from run have s': "s' = s\<lparr>st_user_notes := map ?f (st_user_notes s)\<rparr>"
    by (auto simp: mark_notes_spent_def Let_def split: if_splits)
  have chain: "same_chain s s'" by (simp add: s' same_chain_def)
  have us: "st_user_notes s' = map ?f (st_user_notes s)" by (simp add: s')
  have from_f: "note_from derive accounts s (?f n) = note_from derive accounts s n" for n by (simp add: note_from_def)
  have by_f: "spent_by s (?f n) q = spent_by s n q" for n q by (simp add: spent_by_def)
  have hit: "spent_by s n r" if "spends pool (nr_nullifier r) s n" for n
    using that r by (auto simp: spends_def spent_by_def)
  have "notes_ok derive accounts s'"
    unfolding notes_ok_def us same_chain_note_from [OF chain] same_chain_spent [OF chain]
  proof (intro ballI conjI allI impI)
    fix n' assume "n' \<in> set (map ?f (st_user_notes s))"
    then obtain n where n: "n \<in> set (st_user_notes s)" "n' = ?f n" by auto
    with ok show "note_from derive accounts s n'" by (simp only: from_f) (simp add: notes_ok_def)
    fix i assume i: "un_nullifier n' = Some i"
    show "\<exists>q. spent_by s n' q \<and> nr_id q = i"
    proof (cases "spends pool (nr_nullifier r) s n")
      case True
      with i n(2) hit have "spent_by s n' r" "nr_id r = i" by (simp_all add: by_f) (simp add: spent_by_def)
      then show ?thesis by blast
    next
      case False
      with ok i n show ?thesis by (simp add: notes_ok_def)
    qed
  qed
  moreover have "extends s s'" unfolding extends_def
  proof (intro conjI ballI chain)
    fix n assume "n \<in> set (st_user_notes s)"
    then show "\<exists>n'\<in>set (st_user_notes s'). un_commitment n' = un_commitment n \<and> un_expected n' = un_expected n
        \<and> (un_nullifier n \<noteq> None \<longrightarrow> un_nullifier n' \<noteq> None)"
      by (intro bexI [of _ "?f n"]) (simp_all add: us)
  qed
  moreover have "unmarked s q" if q: "unmarked s' q" for q
  proof -
    from q obtain n where "n \<in> set (st_user_notes s)" "un_nullifier (?f n) = None" "spent_by s (?f n) q"
      unfolding unmarked_def us same_chain_spent [OF chain] by auto
    then have "un_nullifier n = None" "spent_by s n q" by (simp_all only: by_f) (auto split: if_splits)
    with \<open>n \<in> set (st_user_notes s)\<close> show ?thesis unfolding unmarked_def by blast
  qed
  moreover have "\<not> unmarked s' r"
  proof
    assume "unmarked s' r"
    then obtain n where n: "n \<in> set (st_user_notes s)" "un_nullifier (?f n) = None" "spent_by s (?f n) r"
      unfolding unmarked_def us same_chain_spent [OF chain] by auto
    then have "spent_by s n r" by (simp only: by_f)
    with n(2) r(2) have "spends pool (nr_nullifier r) s n"
      by (auto simp: spends_def spent_by_def split: if_splits)
    with n(2) show False by simp
  qed
  ultimately show ?thesis by blast
qed

lemma mark_steps:
  "fold_result (mark_notes_spent pool) rs s = Inr s' \<Longrightarrow> notes_ok derive accounts s \<Longrightarrow>
    \<forall>r\<in>set rs. r \<in> set (st_nullifiers s) \<and> contract_id_of s (nr_event r) = Some pool \<Longrightarrow>
    notes_ok derive accounts s' \<and> extends s s' \<and> (\<forall>r\<in>set rs. \<not> unmarked s' r)
    \<and> (\<forall>q. unmarked s' q \<longrightarrow> unmarked s q)"
proof (induction rs arbitrary: s)
  case Nil
  then show ?case by (simp add: extends_refl)
next
  case (Cons r rs)
  then obtain s1 where one: "mark_notes_spent pool r s = Inr s1"
    and rest: "fold_result (mark_notes_spent pool) rs s1 = Inr s'" by (auto simp: result_simps)
  have r: "r \<in> set (st_nullifiers s)" "contract_id_of s (nr_event r) = Some pool" using Cons.prems(3) by simp_all
  note step = mark_step [OF Cons.prems(2) r one]
  then have ch: "same_chain s s1" by (simp add: extends_def)
  then have "notes_ok derive accounts s' \<and> extends s1 s' \<and> (\<forall>r\<in>set rs. \<not> unmarked s' r)
    \<and> (\<forall>q. unmarked s' q \<longrightarrow> unmarked s1 q)"
    using Cons.IH [OF rest] step Cons.prems(3) same_chain_contract [OF ch] by (simp add: same_chain_def)
  with step show ?case by (auto intro: extends_trans)
qed

lemma settle_keeps:
  assumes inv: "user_inv derive accounts s" and uniq: "unique_ids s" and t: "reconcile_pool limit pool s = Inr (b, s')"
  shows "user_inv derive accounts s'"
proof -
  let ?m = "nullifier_mark s pool" and ?rs = "take limit (unreconciled s pool (nullifier_mark s pool))"
  let ?s = "s\<lparr>st_nullifier_scan := (st_nullifier_scan s)(pool \<mapsto> nullifier_mark s pool)\<rparr>"
  let ?top = "fold (\<lambda>r m. max m (nr_id r)) ?rs ?m"
  note I = inv [unfolded user_inv_def]
  from reconcile_pool_turn [OF t] obtain s2 where run: "fold_result (mark_notes_spent pool) ?rs ?s = Inr s2"
    and s': "s' = s2\<lparr>st_nullifier_scan := (st_nullifier_scan s)(pool \<mapsto> ?top)\<rparr>" by blast
  have c0: "same_chain s ?s" by (simp add: same_chain_def)
  have ok0: "notes_ok derive accounts ?s"
    using I same_chain_note_from [OF c0] same_chain_spent [OF c0] by (simp add: notes_ok_def)
  have rs: "\<forall>r\<in>set ?rs. r \<in> set (st_nullifiers s) \<and> contract_id_of s (nr_event r) = Some pool"
    by (auto simp: unreconciled_def dest: in_set_takeD)
  then have rs0: "\<forall>r\<in>set ?rs. r \<in> set (st_nullifiers ?s) \<and> contract_id_of ?s (nr_event r) = Some pool"
    using same_chain_contract [OF c0] by simp
  from mark_steps [OF run ok0 rs0] have step: "notes_ok derive accounts s2" "extends ?s s2"
    "\<forall>r\<in>set ?rs. \<not> unmarked s2 r" "\<forall>q. unmarked s2 q \<longrightarrow> unmarked ?s q" by blast+
  have u0: "unmarked ?s = unmarked s" by (simp add: unmarked_def same_chain_spent [OF c0] fun_eq_iff)
  have c2: "same_chain s2 s'" by (simp add: s' same_chain_def)
  have c1: "same_chain ?s s2" using step(2) by (simp add: extends_def)
  have chain: "same_chain s s'" by (rule same_chain_trans [OF c0 same_chain_trans [OF c1 c2]])
  have ext: "extends s s'"
    by (rule extends_trans [OF extends_refl [OF c0] extends_trans [OF step(2) extends_refl [OF c2]]]) (simp_all add: s')
  have us2: "st_user_notes s' = st_user_notes s2" by (simp add: s')
  have u2: "unmarked s' = unmarked s2" unfolding unmarked_def same_chain_spent [OF c2] us2 ..
  have com: "st_commitments s' = st_commitments s" "st_nullifiers s' = st_nullifiers s" using chain by (simp_all add: same_chain_def)
  have mark': "nullifier_mark s' p = (if p = pool then ?top else nullifier_mark s p)" for p
    by (simp add: s' nullifier_mark_def)
  from mark_rows_frame [OF run] s' have sc: "st_commitment_scan s' = st_commitment_scan s" by auto
  have "notes_ok derive accounts s'"
    using step(1) same_chain_note_from [OF c2] same_chain_spent [OF c2] by (simp add: notes_ok_def s')
  moreover have "nullifier_mark s' p < nr_id r"
    if u: "unmarked s' r" and p: "contract_id_of s' (nr_event r) = Some p" for r p
  proof -
    have ur: "unmarked s r" and p0: "contract_id_of s (nr_event r) = Some p"
      using u step(4) u0 u2 p same_chain_contract [OF chain] by auto
    then have old: "nullifier_mark s p < nr_id r" using I by blast
    show ?thesis
    proof (cases "p = pool \<and> \<not> ?top < nr_id r")
      case True
      have rin: "r \<in> set (st_nullifiers s)" using ur by (auto simp: unmarked_def spent_by_def)
      then have e: "r \<in> set (unreconciled s pool ?m)" using p0 old True by (simp add: unreconciled_def)
      have "inj_on nr_id (set (unreconciled s pool ?m))"
        using ids_distinct(1) uniq by (auto simp: unique_ids_def unreconciled_def intro: inj_on_subset)
      from fold_max_reached [OF _ this e, of ?m limit] old True have "r \<in> set ?rs" by (simp add: unreconciled_def)
      with step(3) u u2 show ?thesis by simp
    next
      case False
      with old mark' [of p] show ?thesis by auto
    qed
  qed
  moreover have "nullifier_mark s' p \<in> insert 0 (nr_id ` set (st_nullifiers s'))" for p
  proof (cases "p = pool")
    case True
    have "?m \<in> insert 0 (nr_id ` set (st_nullifiers s))" using I by blast
    moreover have "nr_id ` set ?rs \<subseteq> nr_id ` set (st_nullifiers s)" using rs by blast
    ultimately show ?thesis using fold_max_in [of nr_id ?rs ?m] mark' [of p] True by (auto simp: com)
  next
    case False
    have "nullifier_mark s p \<in> insert 0 (nr_id ` set (st_nullifiers s))" using I by blast
    with False mark' [of p] show ?thesis by (simp add: com)
  qed
  moreover have "m \<in> insert 0 (cr_id ` set (st_commitments s'))" if "st_commitment_scan s' k = Some m" for k m
    using I that unfolding sc com by blast
  moreover have "discovered derive s' acc c"
    if "acc \<in> set accounts" "c \<in> set (st_commitments s')" "contract_id_of s' (cr_event c) = Some p"
      "st_commitment_scan s' (p, ak_account_id acc) = Some m" "cr_id c \<le> m" for acc c p m
  proof -
    have "discovered derive s acc c" using I that unfolding sc com same_chain_contract [OF chain] by blast
    then show ?thesis by (rule extends_discovered [OF ext])
  qed
  ultimately show ?thesis unfolding user_inv_def by blast
qed

lemma open_keeps:
  assumes inv: "user_inv derive accounts s" and ids: "ids_ok s"
  shows "user_inv derive accounts (open_scans pool accs s)"
proof -
  let ?s = "open_scans pool accs s"
  have c: "same_chain s ?s" and us: "st_user_notes ?s = st_user_notes s" "st_nullifier_scan ?s = st_nullifier_scan s"
    by (simp_all add: open_scans_def same_chain_def)
  have com: "st_commitments ?s = st_commitments s" "st_nullifiers ?s = st_nullifiers s" using c by (simp_all add: same_chain_def)
  note I = inv [unfolded user_inv_def]
  have nm: "nullifier_mark ?s = nullifier_mark s" by (simp add: nullifier_mark_def us fun_eq_iff)
  have un: "unmarked ?s = unmarked s" by (simp add: unmarked_def us same_chain_spent [OF c] fun_eq_iff)
  have di: "discovered derive ?s = discovered derive s" by (simp add: discovered_def us fun_eq_iff)
  have scan: "st_commitment_scan s k = Some m \<or> m = 0" if "st_commitment_scan ?s k = Some m" for k m
    using that by (auto simp: open_scans_marks split: option.splits if_splits)
  have pos: "0 < cr_id x" if "x \<in> set (st_commitments s)" for x using ids that by (auto simp: ids_ok_def)
  have "notes_ok derive accounts ?s"
    using I same_chain_note_from [OF c] same_chain_spent [OF c] by (simp add: notes_ok_def us)
  moreover have "m \<in> insert 0 (cr_id ` set (st_commitments ?s))" if "st_commitment_scan ?s k = Some m" for k m
    using scan [OF that] I unfolding com by blast
  moreover have "discovered derive ?s acc x"
    if "acc \<in> set accounts" "x \<in> set (st_commitments ?s)" "contract_id_of ?s (cr_event x) = Some p"
      "st_commitment_scan ?s (p, ak_account_id acc) = Some m" "cr_id x \<le> m" for acc x p m
    using scan [OF that(4)] pos [of x] I that unfolding com di same_chain_contract [OF c] by fastforce
  ultimately show ?thesis
    unfolding user_inv_def using I by (simp only: nm un com same_chain_contract [OF c]) blast
qed

interpretation note_inv: note_steps derive accounts
  "\<lambda>s b s'. user_inv derive accounts s \<and> unique_ids s \<and> distinct (map ak_account_id accounts) \<longrightarrow>
     user_inv derive accounts s' \<and> unique_ids s'"
  for derive accounts
proof
  show "user_inv derive accounts s \<and> unique_ids s \<and> distinct (map ak_account_id accounts) \<longrightarrow>
     user_inv derive accounts s' \<and> unique_ids s'"
    if "acc \<in> set accounts" "account_turn derive pool acc s s'" for acc pool s s'
    using turn_keeps [OF _ _ _ that] chain_kept.turn [OF that] same_chain_unique by blast
  show "user_inv derive accounts s \<and> unique_ids s \<and> distinct (map ak_account_id accounts) \<longrightarrow>
     user_inv derive accounts s' \<and> unique_ids s'"
    if "0 < limit" "reconcile_pool limit pool s = Inr (b, s')" for limit pool s b s'
    using settle_keeps [OF _ _ that(2)] chain_kept.settle [OF that] same_chain_unique by blast
  show "user_inv derive accounts s \<and> unique_ids s \<and> distinct (map ak_account_id accounts) \<longrightarrow>
     user_inv derive accounts (open_scans pool accounts s) \<and> unique_ids (open_scans pool accounts s)" for pool s
    using open_keeps [of derive accounts s pool accounts] same_chain_unique [OF chain_kept.opens]
    by (auto simp: unique_ids_def)
qed auto

section \<open>A client at work\<close>

text \<open>
  From a store that holds the accounts' keys and has scanned nothing yet, the steps of a client: raw
  events of the chain arrive, a batch is processed, the notes are processed, the indexer's progress is saved.
\<close>

inductive client_reach :: "xdr_host \<Rightarrow> contract_event set \<Rightarrow> derive_note \<Rightarrow> account_keys list \<Rightarrow> storage \<Rightarrow> bool"
  for env chain derive accounts where
  keys_saved: "store_reach env chain s \<Longrightarrow> get_accounts_with_latest_keypairs s = Inr accounts \<Longrightarrow>
    distinct (map fst (st_accounts s)) \<Longrightarrow> st_user_notes s = [] \<Longrightarrow> st_commitment_scan s = Map.empty \<Longrightarrow>
    st_nullifier_scan s = Map.empty \<Longrightarrow> client_reach env chain derive accounts s"
| fetched: "client_reach env chain derive accounts s \<Longrightarrow> set (cd_events data) \<subseteq> chain \<Longrightarrow>
    client_reach env chain derive accounts (save_events_batch data s)"
| events_done: "client_reach env chain derive accounts s \<Longrightarrow> process_events env limit s = (r, s') \<Longrightarrow>
    client_reach env chain derive accounts s'"
| notes_done: "client_reach env chain derive accounts s \<Longrightarrow> process_notes derive limit s = (r, s') \<Longrightarrow>
    client_reach env chain derive accounts s'"
| progress_saved: "client_reach env chain derive accounts s \<Longrightarrow>
    client_reach env chain derive accounts (save_sync_progress metadata fully s)"
| cursors_cleared: "client_reach env chain derive accounts s \<Longrightarrow>
    client_reach env chain derive accounts (clear_indexing_cursors s)"

lemma client_reach_store: "client_reach env chain derive accounts s \<Longrightarrow> store_reach env chain s"
proof (induction rule: client_reach.induct)
  case (notes_done s limit r s')
  then show ?case using same_chain_reach process_notes_chain by blast
qed (auto intro: ingest process progress clear)

text \<open>The account rows are not touched; their ids are the ids of the keys.\<close>

definition same_accounts :: "storage \<Rightarrow> storage \<Rightarrow> bool" where
  "same_accounts s s' \<longleftrightarrow> st_accounts s' = st_accounts s \<and> st_keypairs s' = st_keypairs s"

lemma same_accounts_keys:
  "same_accounts s s' \<Longrightarrow> get_accounts_with_latest_keypairs s' = get_accounts_with_latest_keypairs s"
  by (simp add: same_accounts_def get_accounts_with_latest_keypairs_def)

lemma map_result_ids:
  "map_result f xs = Inr ys \<Longrightarrow> (\<And>x y. x \<in> set xs \<Longrightarrow> f x = Inr y \<Longrightarrow> g y = h x) \<Longrightarrow> map g ys = map h xs"
  by (induction xs arbitrary: ys) (auto simp: result_simps)

lemma distinct_keys:
  assumes "get_accounts_with_latest_keypairs s = Inr accounts" and "distinct (map fst (st_accounts s))"
  shows "distinct (map ak_account_id accounts)"
proof -
  let ?pick = "\<lambda>a. case newest_keypair (filter (\<lambda>k. kp_account k = fst a) (st_keypairs s)) of None \<Rightarrow> [] | Some k \<Rightarrow> [(fst a, k)]"
  let ?rows = "sort_key fst (st_accounts s)"
  have "map ak_account_id accounts = map fst (concat (map ?pick ?rows))"
    by (rule map_result_ids [OF assms(1) [unfolded get_accounts_with_latest_keypairs_def]])
      (auto simp: result_simps split: prod.splits)
  moreover have "distinct (map fst (concat (map ?pick as)))" if "distinct (map fst as)" for as
    using that
  proof (induction as)
    case (Cons a as)
    have "fst ` set (concat (map ?pick as)) \<subseteq> fst ` set as" by (auto split: option.splits) force
    with Cons show ?case by (auto split: option.splits)
  qed simp
  moreover have "distinct (map fst ?rows)"
    using assms(2) by (simp add: distinct_map)
  ultimately show ?thesis by simp
qed

lemma rows_known:
  assumes "chain_ok chain" and "store_inv env chain s"
  shows "\<forall>c\<in>set (st_commitments s). raw_of s (cr_event c) \<noteq> None" "\<forall>r\<in>set (st_nullifiers s). raw_of s (nr_event r) \<noteq> None"
proof -
  have raw: "raw_of s (ce_id ce) \<noteq> None" if "ce \<in> ingested chain s" for ce
    using raw_of_ingested [OF _ assms(1) that] assms(2) by (auto simp: store_inv_def)
  note T = assms(2) [unfolded store_inv_def tables_inv_def]
  from T row_sources(2) [of env "ingested chain s"] raw
  show "\<forall>c\<in>set (st_commitments s). raw_of s (cr_event c) \<noteq> None" by (metis (no_types, lifting))
  from T row_sources(1) [of env "ingested chain s"] raw
  show "\<forall>r\<in>set (st_nullifiers s). raw_of s (nr_event r) \<noteq> None" by (metis (no_types, lifting))
qed

lemma find_keeps: "find P xs = Some r \<Longrightarrow> find P (xs @ ys) = Some r"
  by (induction xs) (auto split: if_splits)

lemma save_event_keeps_raw:
  "raw_of s ev = Some r \<Longrightarrow> raw_of (save_event e s) ev = Some r"
  by (auto simp: save_event_def get_or_create_contract_id_def raw_of_def Let_def
      intro: find_keeps split: option.splits)

lemma save_events_keep:
  "raw_of s ev = Some r \<Longrightarrow> raw_of (fold save_event es s) ev = Some r"
  by (induction es arbitrary: s) (auto intro: save_event_keeps_raw)

lemma store_unique:
  assumes "chain_ok chain" and "store_reach env chain s"
  shows "unique_ids s"
  using store_reach_inv [OF assms(2,1)] store_reach_ids [OF assms]
  by (simp add: unique_ids_def store_inv_def tables_inv_def)

text \<open>What the saving of progress leaves alone.\<close>

definition same_user :: "storage \<Rightarrow> storage \<Rightarrow> bool" where
  "same_user s s' \<longleftrightarrow> st_raw s' = st_raw s \<and> st_commitments s' = st_commitments s \<and> st_nullifiers s' = st_nullifiers s
     \<and> st_user_notes s' = st_user_notes s \<and> st_commitment_scan s' = st_commitment_scan s
     \<and> st_nullifier_scan s' = st_nullifier_scan s \<and> st_accounts s' = st_accounts s \<and> st_keypairs s' = st_keypairs s"

lemma progress_same_user: "same_user s (save_sync_progress metadata fully s)"
proof -
  have one: "same_user t (save_progress_entry fully e t)" for e t
    by (simp add: same_user_def save_progress_entry_def get_or_create_contract_id_def Let_def split: option.splits)
  have "same_user s t \<Longrightarrow> same_user s (fold (save_progress_entry fully) metadata t)" for t
  proof (induction metadata arbitrary: t)
    case (Cons e es)
    have "same_user s (save_progress_entry fully e t)" using Cons.prems one [of t e] by (simp add: same_user_def)
    with Cons.IH show ?case by simp
  qed simp
  then show ?thesis by (simp add: save_sync_progress_def same_user_def)
qed

lemma same_user_inv:
  assumes "same_user s s'" and "user_inv derive accounts s" and "ids_ok s'"
  shows "user_inv derive accounts s' \<and> get_accounts_with_latest_keypairs s' = get_accounts_with_latest_keypairs s"
proof
  show "user_inv derive accounts s'"
    by (rule user_inv_grows [where s = s and cs = "[]" and ns = "[]"])
      (use assms in \<open>simp_all add: same_user_def contract_id_of_def raw_of_def\<close>)
  show "get_accounts_with_latest_keypairs s' = get_accounts_with_latest_keypairs s"
    using assms(1) by (simp add: same_user_def get_accounts_with_latest_keypairs_def)
qed

lemma client_inv:
  assumes ok: "chain_ok chain"
  shows "client_reach env chain derive accounts s \<Longrightarrow>
    user_inv derive accounts s \<and> get_accounts_with_latest_keypairs s = Inr accounts \<and> distinct (map ak_account_id accounts)"
proof (induction rule: client_reach.induct)
  case (keys_saved s)
  then show ?case using distinct_keys [OF keys_saved(2,3)]
    by (simp add: user_inv_def notes_ok_def unmarked_def nullifier_mark_def)
next
  case (fetched s data)
  note inv = store_reach_inv [OF client_reach_store [OF fetched(1)] ok]
  let ?s = "save_events_batch data s"
  from save_events_batch_run [OF inv ok fetched(2)] obtain cs rs where
    f: "?s = s\<lparr>st_contracts := cs, st_raw := rs\<rparr>" by (auto simp: save_events_batch_def)
  have keep: "contract_id_of ?s ev = contract_id_of s ev" if "raw_of s ev \<noteq> None" for ev
    using that save_events_keep [of s ev _ "cd_events data"] by (auto simp: save_events_batch_def contract_id_of_def)
  have "user_inv derive accounts ?s"
    by (rule user_inv_grows [where s = s and cs = "[]" and ns = "[]"])
      (use fetched keep rows_known [OF ok inv] store_reach_ids [OF ok client_reach_store [OF client_reach.fetched [OF fetched(1,2)]]]
        in \<open>auto simp: f\<close>)
  with fetched show ?case by (simp add: f get_accounts_with_latest_keypairs_def)
next
  case (events_done s limit r s')
  note inv = store_reach_inv [OF client_reach_store [OF events_done(1)] ok]
  from process_step_run [OF ok inv, of limit] events_done(2) have "grown s s'" by (simp add: process_step_def)
  then obtain ns cs ps ls where g: "s' = s\<lparr>st_nullifiers := st_nullifiers s @ ns, st_commitments := st_commitments s @ cs,
     st_public_keys := st_public_keys s @ ps, st_asp_leaves := st_asp_leaves s @ ls\<rparr>" unfolding grown_def by blast
  have ids: "ids_ok s'" by (rule store_reach_ids [OF ok client_reach_store [OF client_reach.events_done [OF events_done(1,2)]]])
  have "contract_id_of s' = contract_id_of s" by (simp add: g contract_id_of_def raw_of_def fun_eq_iff)
  then have "user_inv derive accounts s'"
    by (intro user_inv_grows [OF _ _ _ _ _ _ _ _ ids, where s = s and cs = cs and ns = ns])
      (use events_done in \<open>simp_all add: g\<close>)
  with events_done show ?case by (simp add: g get_accounts_with_latest_keypairs_def)
next
  case (notes_done s limit r s')
  have "unique_ids s" by (rule store_unique [OF ok client_reach_store [OF notes_done(1)]])
  with notes_done note_inv.round_of_notes [OF notes_done(2), of accounts] have "user_inv derive accounts s'" by blast
  with notes_done same_chain_accounts [OF process_notes_chain [OF notes_done(2)]] show ?case by simp
next
  case (progress_saved s metadata fully)
  have "ids_ok (save_sync_progress metadata fully s)"
    by (rule store_reach_ids [OF ok client_reach_store [OF client_reach.progress_saved [OF progress_saved(1)]]])
  from progress_saved(2) same_user_inv [OF progress_same_user _ this, of derive accounts] show ?case by simp
next
  case (cursors_cleared s)
  have "same_user s (clear_indexing_cursors s)" by (simp add: same_user_def clear_indexing_cursors_def)
  moreover have "ids_ok (clear_indexing_cursors s)"
    by (rule store_reach_ids [OF ok client_reach_store [OF client_reach.cursors_cleared [OF cursors_cleared(1)]]])
  ultimately show ?case using cursors_cleared same_user_inv [of s "clear_indexing_cursors s" derive accounts] by simp
qed

section \<open>When the worker's loop has ended\<close>

lemma reconcile_frame:
  assumes "reconcile_nullifiers limit s = (r, s')"
  shows "same_chain s s' \<and> st_commitment_scan s' = st_commitment_scan s"
proof (cases "limit = 0")
  case True
  with assms show ?thesis by (simp add: reconcile_nullifiers_def same_chain_refl)
next
  case False
  have "reconcile_pools limit ps b s = (r, s') \<Longrightarrow> same_chain s s' \<and> st_commitment_scan s' = st_commitment_scan s" for ps b s
  proof (induction ps arbitrary: b s)
    case (Cons p ps)
    show ?case
    proof (cases "reconcile_pool limit p s")
      case (Inl e)
      with Cons.prems show ?thesis by (simp add: same_chain_refl)
    next
      case (Inr x)
      obtain d s1 where x: "x = (d, s1)" by fastforce
      with Cons.prems Inr have "reconcile_pools limit ps (b \<or> d) s1 = (r, s')" by simp
      from Cons.IH [OF this] reconcile_marks [of limit p s d s1] False Inr x show ?thesis
        using same_chain_trans by auto
    qed
  qed (simp add: same_chain_refl)
  with assms False show ?thesis by (auto simp: reconcile_nullifiers_def Let_def same_chain_refl split: if_splits)
qed

lemma process_events_idle:
  "process_events env limit s = (Inr False, s') \<Longrightarrow> s' = s \<and> get_unprocessed_events limit s = []"
  by (auto simp: process_events_def Let_def split: if_splits prod.splits sum.splits)

lemma loop_rests:
  assumes "process_until_empty env derive s = Some y" and "client_reach env chain derive accounts s" and "fst y = Inr ()"
    and ok: "chain_ok chain"
  shows "\<exists>s1. client_reach env chain derive accounts s1 \<and> get_unprocessed_events FETCH_LIMIT s1 = []
    \<and> process_notes derive FETCH_LIMIT s1 = (Inr False, snd y) \<and> set (st_commitments s) \<subseteq> set (st_commitments s1)"
proof -
  let ?P = "\<lambda>env derive s y. client_reach env chain derive accounts s \<longrightarrow> fst y = Inr () \<longrightarrow>
      (\<exists>s1. client_reach env chain derive accounts s1 \<and> get_unprocessed_events FETCH_LIMIT s1 = []
        \<and> process_notes derive FETCH_LIMIT s1 = (Inr False, snd y) \<and> set (st_commitments s) \<subseteq> set (st_commitments s1))"
  have "?P env derive s y"
  proof (rule process_until_empty.raw_induct [where P = ?P, OF _ assms(1)], intro impI)
    fix again env derive s y
    assume IH: "\<And>env derive s y. again env derive s = Some y \<Longrightarrow> ?P env derive s y"
      and step: "(case process_events env FETCH_LIMIT s of (Inl e, s1) \<Rightarrow> Some (Inl e, s1)
        | (Inr did_raw, s1) \<Rightarrow> (case process_notes derive FETCH_LIMIT s1 of (Inl e, s2) \<Rightarrow> Some (Inl e, s2)
            | (Inr did_notes, s2) \<Rightarrow>
                if \<not> did_raw \<and> \<not> did_notes then Some (Inr (), s2) else again env derive s2)) = Some y"
      and reach: "client_reach env chain derive accounts s" and fine: "fst y = Inr ()"
    from step fine obtain d1 s1 d2 s2 where e: "process_events env FETCH_LIMIT s = (Inr d1, s1)"
      and n: "process_notes derive FETCH_LIMIT s1 = (Inr d2, s2)"
      and rest: "(if \<not> d1 \<and> \<not> d2 then Some (Inr (), s2) else again env derive s2) = Some y"
      by (auto split: prod.splits sum.splits)
    have reach2: "client_reach env chain derive accounts s2"
      by (rule client_reach.notes_done [OF client_reach.events_done [OF reach e] n])
    have grow: "set (st_commitments s) \<subseteq> set (st_commitments s2)"
      using process_step_run [OF ok store_reach_inv [OF client_reach_store [OF reach] ok], of FETCH_LIMIT] e
        process_notes_chain [OF n] by (auto simp: process_step_def grown_def same_chain_def)
    show "\<exists>s1. client_reach env chain derive accounts s1 \<and> get_unprocessed_events FETCH_LIMIT s1 = []
        \<and> process_notes derive FETCH_LIMIT s1 = (Inr False, snd y) \<and> set (st_commitments s) \<subseteq> set (st_commitments s1)"
    proof (cases "\<not> d1 \<and> \<not> d2")
      case True
      with process_events_idle [of env FETCH_LIMIT s s1] e have "s1 = s" "get_unprocessed_events FETCH_LIMIT s = []" by auto
      with True n rest reach show ?thesis by (intro exI [of _ s]) auto
    next
      case False
      with rest have "again env derive s2 = Some y" by (simp split: if_splits)
      from IH [OF this] reach2 fine grow show ?thesis by blast
    qed
  qed
  with assms(2,3) show ?thesis by blast
qed

lemma rows_in_contracts:
  assumes "chain_ok chain" and "client_reach env chain derive accounts s"
  shows "\<forall>c\<in>set (st_commitments s). \<exists>pool. contract_id_of s (cr_event c) = Some pool"
    and "\<forall>r\<in>set (st_nullifiers s). \<exists>pool. contract_id_of s (nr_event r) = Some pool"
  using rows_known [OF assms(1) store_reach_inv [OF client_reach_store [OF assms(2)] assms(1)]]
  by (auto simp: contract_id_of_def)

text \<open>A round of notes that found nothing to do leaves every commitment discovered and every spent note marked.\<close>

lemma idle_round:
  assumes ok: "chain_ok chain" and reach: "client_reach env chain derive accounts s"
    and idle: "process_notes derive FETCH_LIMIT s = (Inr False, s')"
  shows "(\<forall>acc\<in>set accounts. \<forall>c\<in>set (st_commitments s'). discovered derive s' acc c)
    \<and> (\<forall>n\<in>set (st_user_notes s'). note_from derive accounts s' n
         \<and> (un_nullifier n \<noteq> None \<longleftrightarrow> (\<exists>r. spent_by s' n r)))"
proof -
  from idle obtain s1 where scan: "scan_commitments_for_user_notes derive FETCH_LIMIT s = (Inr False, s1)"
    and rec: "reconcile_nullifiers FETCH_LIMIT s1 = (Inr False, s')"
    by (auto simp: process_notes_def split: prod.splits sum.splits)
  have pos: "0 < FETCH_LIMIT" by (simp add: FETCH_LIMIT_def)
  note chain = process_notes_chain [OF idle] and frame = reconcile_frame [OF rec]
  have cid: "contract_id_of s' = contract_id_of s" "contract_id_of s' = contract_id_of s1"
    and rows: "st_commitments s' = st_commitments s" "st_commitments s' = st_commitments s1"
      "st_nullifiers s' = st_nullifiers s" "st_nullifiers s' = st_nullifiers s1"
    using chain frame same_chain_contract [of s s'] same_chain_contract [of s1 s'] by (auto simp: same_chain_def)
  note reach' = client_reach.notes_done [OF reach idle]
  note inv = conjunct1 [OF client_inv [OF ok reach'], unfolded user_inv_def]
  have accs: "get_accounts_with_latest_keypairs s = Inr accounts" using client_inv [OF ok reach] by blast
  have "discovered derive s' acc c" if a: "acc \<in> set accounts" and c: "c \<in> set (st_commitments s')" for acc c
  proof -
    obtain pool where p: "contract_id_of s' (cr_event c) = Some pool"
      using rows_in_contracts(1) [OF ok reach'] c by blast
    with scan_idle [OF scan pos accs a, of c pool] c rows(1) cid(1) have "all_read pool acc s1" by simp
    then obtain m where m: "st_commitment_scan s1 (pool, ak_account_id acc) = Some m" "eligible s1 pool m = []"
      by (auto simp: all_read_def)
    have "cr_id c \<le> m"
    proof (rule ccontr)
      assume "\<not> cr_id c \<le> m"
      with c p rows cid have "c \<in> set (eligible s1 pool m)" by (simp add: eligible_def)
      with m(2) show False by simp
    qed
    with inv a c p m(1) frame show ?thesis by auto
  qed
  moreover have "un_nullifier n \<noteq> None" if n: "n \<in> set (st_user_notes s')" and r: "spent_by s' n r" for n r
  proof
    assume "un_nullifier n = None"
    with n r have "unmarked s' r" by (auto simp: unmarked_def)
    obtain pool where p: "contract_id_of s' (nr_event r) = Some pool"
      using rows_in_contracts(2) [OF ok reach'] r by (auto simp: spent_by_def)
    with inv \<open>unmarked s' r\<close> have "nullifier_mark s' pool < nr_id r" by blast
    moreover have "nr_id r \<le> nullifier_mark s' pool"
      using reconcile_idle [OF rec pos, of r pool] r p rows cid by (simp add: spent_by_def)
    ultimately show False by simp
  qed
  ultimately show ?thesis using inv unfolding notes_ok_def by blast
qed

section \<open>What the worker's loop achieves\<close>

text \<open>
  C30: The worker's loop ends. From any store that the client reaches on a chain whose ids name one event each, whose
  topics are non-empty and free of commas (they are base 64), whose events all parse as kinds that are stored, and of which
  no two claim the same row (the same commitment, nullifier or leaf index), the loop over the events and the notes comes
  to an end, with an error of the store or without, whatever the accounts and the derivation of their notes.
\<close>

theorem processing_ends:
  assumes "chain_ok chain" and "distinct_claims env chain" and "store_reach env chain s"
  shows "\<exists>y. process_until_empty env derive s = Some y"
  by (rule loop_ends [OF assms])

text \<open>
  C29: When the worker's loop has ended, the notes are settled. Start from a store that holds the
  accounts' keys, no notes or scan marks yet, and any events of a chain whose ids name one event each and whose topics are
  non-empty and free of commas, and let the client fetch
  events, process them and save its progress in any order. When the loop then ends normally, no unprocessed event is
  left, every stored commitment was tried for every account (the account's derivation refused it, or there is a note of
  it, or a spent note with the same nullifier), every note is what the derivation makes of a stored
  commitment for one of the accounts, and a note is marked spent exactly when a
  nullifier of the note's pool is its expected one.
\<close>

theorem notes_settled_at_rest:
  assumes "chain_ok chain" and "client_reach env chain derive accounts s"
    and "process_until_empty env derive s = Some (Inr (), s')"
  shows "get_unprocessed_events FETCH_LIMIT s' = []
    \<and> (\<forall>acc\<in>set accounts. \<forall>c\<in>set (st_commitments s'). discovered derive s' acc c)
    \<and> (\<forall>n\<in>set (st_user_notes s'). note_from derive accounts s' n
         \<and> (un_nullifier n \<noteq> None \<longleftrightarrow> (\<exists>r. spent_by s' n r)))"
proof -
  from loop_rests [OF assms(3,2) _ assms(1)] obtain s1 where reach: "client_reach env chain derive accounts s1"
    and none: "get_unprocessed_events FETCH_LIMIT s1 = []" and idle: "process_notes derive FETCH_LIMIT s1 = (Inr False, s')"
    by auto
  have "get_unprocessed_events FETCH_LIMIT s' = []"
    using process_notes_chain [OF idle] none
    by (simp add: get_unprocessed_events_def same_chain_def processed_def stored_event_def [abs_def])
  with idle_round [OF assms(1) reach idle] show ?thesis by simp
qed


lemma short_output_fails:
  assumes "length (pc_encrypted_output row) < 120"
  shows "worker_derive crypto p4 acc row = None"
  using assms by (simp add: worker_derive_def try_decrypt_and_derive_user_note_def decrypt_output_note_def decrypt_note_data_def)

text \<open>
  One short ciphertext stops the discovery of notes. The pool publishes any bytes as the encrypted output of a
  commitment, but the derivation of a note from one of fewer than 120 bytes is an error. Once the client has stored such a
  commitment, no account's scan mark in its pool ever passes it, so no later note of the pool is found, and the worker's
  loop never ends normally.
\<close>

theorem short_ciphertext_stops_discovery:
  assumes "chain_ok chain" and "client_reach env chain (worker_derive crypto p4) accounts s"
    and "c \<in> set (st_commitments s)" and "length (cr_output c) < 120" and "acc \<in> set accounts"
  shows "(\<forall>pool mark. contract_id_of s (cr_event c) = Some pool
        \<longrightarrow> st_commitment_scan s (pool, ak_account_id acc) = Some mark \<longrightarrow> mark < cr_id c)
    \<and> process_until_empty env (worker_derive crypto p4) s \<noteq> Some (Inr (), s')"
proof (intro conjI allI impI notI)
  have fails: "\<not> discovered (worker_derive crypto p4) t acc c" for t
    using short_output_fails [of "row_of c" crypto p4 acc] assms(4) by (simp add: discovered_def row_of_def)
  fix pool mark
  assume "contract_id_of s (cr_event c) = Some pool" "st_commitment_scan s (pool, ak_account_id acc) = Some mark"
  with client_inv [OF assms(1,2)] assms(3,5) fails show "mark < cr_id c"
    unfolding user_inv_def by (meson not_less)
next
  have fails: "\<not> discovered (worker_derive crypto p4) t acc c" for t
    using short_output_fails [of "row_of c" crypto p4 acc] assms(4) by (simp add: discovered_def row_of_def)
  assume "process_until_empty env (worker_derive crypto p4) s = Some (Inr (), s')"
  from loop_rests [OF this assms(2) _ assms(1)] obtain s1
    where reach: "client_reach env chain (worker_derive crypto p4) accounts s1"
      and idle: "process_notes (worker_derive crypto p4) FETCH_LIMIT s1 = (Inr False, s')"
      and "set (st_commitments s) \<subseteq> set (st_commitments s1)" by auto
  with process_notes_chain [OF idle] assms(3) have "c \<in> set (st_commitments s')" by (auto simp: same_chain_def)
  with idle_round [OF assms(1) reach idle] assms(5) fails show False by blast
qed

section \<open>A client with one account\<close>

definition account_store :: storage where
  "account_store = save_encryption_and_note_keypairs ''user'' \<lparr>nk_private = replicate 32 1, nk_public = replicate 32 2\<rparr>
     \<lparr>ek_private = replicate 32 3, ek_public = replicate 32 3\<rparr> (Field 7) early_store"

definition user_account :: account_keys where
  "user_account = \<lparr>ak_account_id = 1, ak_note_keypair = \<lparr>nk_private = replicate 32 1, nk_public = replicate 32 2\<rparr>,
     ak_encryption_keypair = \<lparr>ek_private = replicate 32 3, ek_public = replicate 32 3\<rparr>, ak_membership_blinding = Field 7\<rparr>"

lemma account_store_eval:
  "account_store = early_store\<lparr>st_accounts := [(1, ''user'')], st_keypairs := [\<lparr>kp_id = 1, kp_enc_private = replicate 32 3,
     kp_enc_public = replicate 32 3, kp_note_private = replicate 32 1, kp_note_public = replicate 32 2, kp_blinding = Field 7,
     kp_account = 1\<rparr>]\<rparr>"
  by (simp add: account_store_def save_encryption_and_note_keypairs_def get_or_create_account_def early_store_eval
      empty_storage_def fresh_id_def)

lemma account_keys_eval: "get_accounts_with_latest_keypairs account_store = Inr [user_account]"
  by (simp add: account_store_eval get_accounts_with_latest_keypairs_def newest_keypair_def user_account_def
      row_note_keypair_def row_encryption_keypair_def column_field_Inr result_simps)

lemma account_reach: "client_reach client_host (set client_events) derive [user_account] account_store"
proof (rule keys_saved [OF _ account_keys_eval])
  have "store_reach client_host (set client_events)
      (save_events_batch \<lparr>cd_events = [client_events ! 2], cd_cursor = ''c'', cd_latest_ledger = 5\<rparr> empty_storage)"
    by (rule ingest [OF opened]) (simp add: client_events_def)
  from process_step_reach [OF this, of 1 50] have "store_reach client_host (set client_events) early_store"
    by (simp add: early_store_def)
  then show "store_reach client_host (set client_events) account_store"
    by (rule user_side) (simp add: account_store_eval chain_tables_def)
qed (simp_all add: account_store_eval early_store_eval empty_storage_def)

theorem short_ciphertext_stops_discovery_witness:
  "\<exists>c\<in>set (st_commitments account_store). cr_output c = [1]
    \<and> (\<forall>s'. process_until_empty client_host (worker_derive sample_crypto (bare_params 4)) account_store \<noteq> Some (Inr (), s'))"
proof -
  let ?c = "\<lparr>cr_id = 1, cr_commitment = Field 5, cr_leaf_index = 0, cr_output = [1], cr_event = ''e2''\<rparr>"
  have "?c \<in> set (st_commitments account_store)" "length (cr_output ?c) < 120" "user_account \<in> set [user_account]"
    by (simp_all add: account_store_eval early_store_eval)
  from this(1) short_ciphertext_stops_discovery [OF client_chain account_reach this] show ?thesis
    by (intro bexI [of _ ?c]) simp_all
qed

theorem processing_ends_witness:
  "\<exists>y. process_until_empty client_host (worker_derive sample_crypto (bare_params 4)) client_store = Some y"
  by (rule processing_ends [OF client_chain client_collisions client_store_reach])

definition sample_note :: derive_note where
  "sample_note acc row = Some (Some \<lparr>dr_amount = NoteAmount 3, dr_blinding = Field 9, dr_expected_nullifier = Field 6\<rparr>)"


definition settled_store :: storage where
  "settled_store = account_store\<lparr>st_commitment_scan := [(1, 1) \<mapsto> 1],
     st_user_notes := [\<lparr>un_id = Field 5, un_account = 1, un_commitment = 1, un_nullifier = None,
       un_expected = Field 6, un_blinding = Field 9, un_amount = NoteAmount 3\<rparr>]\<rparr>"

lemma column_five: "column_field (Field 5) = Inr (Field 5)"
  by (simp add: column_field_Inr)

lemmas round_eval = process_notes_def scan_commitments_for_user_notes_def pool_ids_of_def contract_id_of_def raw_of_def
  pool_quotas_def saturating_mul_def FETCH_LIMIT_def scan_pool_def scan_pool_loop.simps [of sample_note]
  scan_cycle_def scan_account_def ACCOUNT_CHUNK_def read_commitment_row_def column_five col_u32_def Let_def
  checked_add_def fits_def scan_row_def insert_user_note_def sample_note_def open_scans_def reconcile_nullifiers_def
  result_simps

lemma account_accounts:
  "get_accounts_with_latest_keypairs (account_store\<lparr>st_commitment_scan := f, st_user_notes := ns\<rparr>) = Inr [user_account]"
  "get_accounts_with_latest_keypairs settled_store = Inr [user_account]"
  using account_keys_eval by (simp_all add: get_accounts_with_latest_keypairs_def settled_store_def)

lemma first_round: "process_notes sample_note FETCH_LIMIT account_store = (Inr True, settled_store)"
  unfolding process_notes_def scan_commitments_for_user_notes_def account_keys_eval
  by (simp add: round_eval account_store_eval early_store_eval empty_storage_def user_account_def settled_store_def)

lemma second_round: "process_notes sample_note FETCH_LIMIT settled_store = (Inr False, settled_store)"
  unfolding process_notes_def scan_commitments_for_user_notes_def account_accounts
  by (simp add: round_eval account_store_eval early_store_eval empty_storage_def user_account_def settled_store_def)

lemma no_events:
  "process_events client_host FETCH_LIMIT account_store = (Inr False, account_store)"
  "process_events client_host FETCH_LIMIT settled_store = (Inr False, settled_store)"
  by (simp_all add: process_events_def settled_store_def account_store_eval early_store_eval store_eval)

lemma settled: "process_until_empty client_host sample_note account_store = Some (Inr (), settled_store)"
  by (subst process_until_empty.simps, simp add: no_events first_round)
    (subst process_until_empty.simps, simp add: no_events second_round)

theorem notes_settled_at_rest_witness:
  "process_until_empty client_host sample_note account_store = Some (Inr (), settled_store)
   \<and> get_unprocessed_events FETCH_LIMIT settled_store = []
   \<and> (\<exists>n\<in>set (st_user_notes settled_store). note_from sample_note [user_account] settled_store n
        \<and> \<not> (\<exists>r. spent_by settled_store n r))"
proof -
  obtain n where n: "n \<in> set (st_user_notes settled_store)" "un_nullifier n = None"
    by (auto simp: settled_store_def)
  from notes_settled_at_rest [OF client_chain account_reach settled] n settled show ?thesis by blast
qed

end
