(* ===== verification/Spec2Isabelle.thy ===== *)
theory Spec2Isabelle
  imports Prelude Bn254 HostInt RoundConstants Poseidon2 SorobanHash ConstantCheck
    MerkleFrontier PoolMerkle Host AspMembership ContractTypes Groth16Verifier Payroll Pool Amounts
    CoinSelection TxPlan SpendSession SparseTree AspNonMembership NonMembershipHistory
    ProverCodec ProverSparse ProverMerkle WideHash NoteEncryption TransactFlow FlowFacts NoteFlow
    ProofInputs PlannedProofs BootnodeStore Bootnode BootnodeFacts BootnodeHistory
    PublicKeyRegistry Disclosure DisclosureFacts R1CS R1CSFacts WitnessInputs WitnessFacts
    ChainCodec ChainValues ChainFacts ChainStore UserStore StoreTables StoreFacts StorageWorker
    UserSteps ClientFacts UserFacts
begin

text \<open>
  A verification development for the privacy-pool and private-payroll system: Soroban contracts in
  Rust (\<open>contracts/\<close>), the off-chain application in Rust (\<open>app/crates/core/\<close>), the Poseidon2
  hasher (\<open>poseidon2/\<close>) and the bootnode (\<open>tools/bootnode/\<close>). Paths are relative to the root of
  the repository.

  The program. A pool holds tokens for notes; a note is an amount, an owner key and a blinding,
  its commitment is a leaf of the pool's Merkle tree. Spending publishes a nullifier and a Groth16
  proof over the Circom circuits, checked on chain by the verifier contract. Two provider
  contracts keep a tree of admitted members and a sparse tree of blocked keys, whose roots enter the
  proof. The payroll contract escrows salaries, registers one commitment per employee and period, and
  pays against a proof. Off chain, the planner chooses notes and splits a payment into two-input
  steps, the prover derives commitments, nullifiers, Merkle paths and the signals of the circuits and
  encrypts the new notes; a Groth16 prover replays the compiled circuit on the witness. The client
  stores the events it fetches from the chain, rebuilds the trees from them, and finds the notes of its
  accounts by trying to decrypt each published output. A note can be disclosed to a third party by a receipt.

  Effects. A contract call is a function of the contract's state that returns a \<open>result\<close> of
  \<open>Prelude\<close>: \<open>Inr\<close> with the value and the new state, \<open>Inl (Err e)\<close> with one of the
  contract's error codes, or \<open>Inl Trap\<close> for what aborts the call in the host (a missing
  authorisation, a failed call of another contract, an integer operation out of the host's range, a
  panic). A call that does not succeed leaves the stored state as it was, so a fault carries none;
  histories of a contract are inductive relations over the successful calls.
  Off-chain code uses its own error datatypes in the same type, a panic is \<open>Trap\<close>. The bootnode
  alone keeps what a failed operation did before it failed: its operations are state transformers
  that return an error or a value beside the state. Hash values, field elements and amounts keep
  their width as machine words (\<open>256 word\<close>, \<open>128 word\<close>); counters, indexes and ledger numbers
  are naturals, whose checked, saturating and trapping operations write the width out.

  Where everything is.
  \<^item> \<open>Prelude\<close>: outcomes and their monad, the simplification rules the components share.
  \<^item> \<open>Bn254\<close>, \<open>HostInt\<close>, \<open>Host\<close>: the modulus and byte encodings
    (\<open>contracts/soroban-utils/src/constants.rs\<close>), the host's 256-bit integers, authorisation and
    the administrator entry (\<open>contracts/soroban-utils/src/utils.rs\<close>).
  \<^item> \<open>Poseidon2\<close>, \<open>RoundConstants\<close>, \<open>ConstantCheck\<close>, \<open>WideHash\<close>, \<open>SorobanHash\<close>: the
    permutation (\<open>poseidon2/src/poseidon2/poseidon2.rs\<close>) with its parameter tables of the widths
    two to four, the contracts' tables and hash functions
    (\<open>contracts/soroban-utils/src/poseidon2.rs\<close>), and that the two sides agree, constant by
    constant and hash by hash; the optimised linear layers are the matrices the tables declare.
  \<^item> \<open>MerkleFrontier\<close>, \<open>PoolMerkle\<close>, \<open>AspMembership\<close>: append-only trees. The value of a node
    of the full binary tree is the specification, the locale \<open>frontier_store\<close> states what the
    insertion loop needs of the storage; \<open>contracts/pool/src/merkle_with_history.rs\<close> and
    \<open>contracts/asp-membership/src/lib.rs\<close> refine it, root history and events included.
  \<^item> \<open>SparseTree\<close>, \<open>AspNonMembership\<close>, \<open>NonMembershipHistory\<close>: sparse trees. Walks, splits and
    deletions on a tree along key bits are the specification of
    \<open>contracts/asp-non-membership/src/lib.rs\<close>, whose nodes live in storage under their hash.
  \<^item> \<open>ContractTypes\<close>, \<open>Groth16Verifier\<close>, \<open>Pool\<close>, \<open>Payroll\<close>, \<open>PublicKeyRegistry\<close>: the
    proof type, the verifier, the pool, the payroll contract and the registry of keys, with their
    events, lifetimes and cross-contract calls.
  \<^item> \<open>Amounts\<close>: note and external amounts and field elements of the application
    (\<open>app/crates/core/types/src/amounts.rs\<close>).
  \<^item> \<open>CoinSelection\<close>, \<open>TxPlan\<close>, \<open>SpendSession\<close>: the transaction planner
    (\<open>app/crates/core/tx-planner/src/plan/\<close> and \<open>execute/\<close>).
  \<^item> \<open>ProverCodec\<close>, \<open>ProverMerkle\<close>, \<open>ProverSparse\<close>: encodings, hashes and trees of the prover
    (\<open>app/crates/core/prover/src/serialization.rs\<close>, \<open>crypto.rs\<close>, \<open>merkle.rs\<close>,
    \<open>sparse_merkle.rs\<close> and \<open>circuits/src/core/merkle.rs\<close>).
  \<^item> \<open>NoteEncryption\<close>, \<open>TransactFlow\<close>, \<open>FlowFacts\<close>, \<open>NoteFlow\<close>, \<open>ProofInputs\<close>,
    \<open>PlannedProofs\<close>: note encryption and discovery (\<open>encryption.rs\<close>, \<open>notes.rs\<close>), the flows
    that fill in the signals of the circuits (\<open>flows.rs\<close>), and the flows on the planner's calls.
  \<^item> \<open>BootnodeStore\<close>, \<open>Bootnode\<close>, \<open>BootnodeFacts\<close>, \<open>BootnodeHistory\<close>: the cache of
    events in front of an RPC (\<open>tools/bootnode/src/\<close>): messages and store, the indexer, the
    requests and the health check, and what holds over any history of rounds, requests, failures
    and restarts.
  \<^item> \<open>R1CS\<close>, \<open>R1CSFacts\<close>, \<open>WitnessInputs\<close>, \<open>WitnessFacts\<close>: the reader of compiled constraint files
    and the replay of their constraints, proving and verification (\<open>r1cs.rs\<close> and \<open>prover.rs\<close> of
    \<open>app/crates/core/prover/src/\<close>), and how the signals reach the witness calculator
    (\<open>app/crates/core/witness/src/lib.rs\<close>).
  \<^item> \<open>Disclosure\<close>, \<open>DisclosureFacts\<close>: receipts, their context hash, issue and verification
    (\<open>app/crates/core/disclosure/src/\<close>).
  \<^item> \<open>ChainCodec\<close>, \<open>ChainValues\<close>, \<open>ChainFacts\<close>: the values a client sends to a contract and reads from its
    events (\<open>app/crates/core/stellar/src/\<close>, \<open>app/crates/core/state/src/events_parsers.rs\<close>), against the
    contract's own structures.
  \<^item> \<open>ChainStore\<close>, \<open>UserStore\<close>, \<open>StorageWorker\<close>: the client's local store
    (\<open>app/crates/core/state/src/storage.rs\<close>, \<open>schema.sql\<close>, \<open>processor.rs\<close>), each SQL statement as a function on
    lists of rows, and the worker that owns it (\<open>app/crates/platforms/web/src/workers/storage.rs\<close>).
    \<open>StoreTables\<close> and \<open>StoreFacts\<close> hold the invariant of the tables fed from events, \<open>UserSteps\<close>,
    \<open>ClientFacts\<close> and \<open>UserFacts\<close> what the worker's rounds achieve for the tree and for the notes.

  What the lemmas show. Each contract has an invariant that its constructor establishes and every
  entry point keeps, exact conditions for the success of its main calls, and what a whole history
  implies: no note and no salary is spent twice, funds follow the amounts, the event log determines
  the trees and the registered keys. The trees of the prover and of the contracts are related to
  one specification, so the prover's paths and roots are the contract's. The planner always
  returns and its sessions run to the end; the flows accept each call of a session unless the hash of the external data
  refuses its recipient, and what they hand to the witness calculator satisfies the circuit's equations, which
  \<open>FlowFacts\<close> restates on the decoded signals. The replay of a constraint file is the system the file states, and
  verification sees the inputs the prover committed to. A receipt is accepted exactly when each of its checks holds. A
  client that has all events rebuilds the pool's tree; what it reads before is a prefix of it. Its worker's
  loop ends, and then every stored commitment was tried for every account and every note is marked spent or not as the
  stored nullifiers say. The bootnode serves only pages that the upstream gave for the same request, never two
  different ones, reaches the tip of a quiet upstream and stays there.

  Interfaces. The locales state what one part promises another and are interpreted on the model's
  own definitions in the theory that provides them: \<open>frontier_store\<close> (the storage of the
  append-only trees), \<open>node_store\<close> and \<open>erasing_store\<close> (nodes under their hash), \<open>admin_entry\<close>,
  \<open>spent_set\<close> (nullifiers), \<open>event_storage\<close> (the bootnode's trait for stores), \<open>derived_table\<close> and its
  extension \<open>fed_table\<close> (a table fed from events by one key; four instances each), \<open>note_steps\<close> (a relation
  between stores that every turn of the note scan satisfies; its instances are the frame, the progress and the
  invariant of the worker's rounds). A property is
  stated over the definitions themselves; those of the bootnode hold for every store that meets
  \<open>event_storage\<close>, which the in-memory store does.

  Parameters. What is not in the repository is an argument: the host's permutation and curve
  operations, other contracts, SHA-256, X25519, XSalsa20-Poly1305, the random source, XDR, Keccak-256 and the text of
  addresses (\<open>xdr_host\<close>), the JSON parser, the witness calculator, the proof system and its constraint
  system, the reader of hexadecimal literals, and the unstable sort. The hash of the external data is an argument of the
  flows in the code itself; it may refuse its input. The hypotheses
  about them state documented behaviour: \<open>host_computes\<close> (the host evaluates the permutation it is
  given the constants of), \<open>good_host\<close> (its result is a list of field elements of the same length),
  \<open>hex_decodes\<close> (a literal is read as the number it denotes), \<open>sound_crypto\<close> and
  \<open>responsive\<close> (decryption inverts encryption, digests and keys have their lengths, the random
  source answers), \<open>digests\<close> (the hash of the external data has 32 bytes whenever it answers), \<open>panic_free\<close>
  (parameters of the right shape, which the deployed tables have), \<open>chain_ok\<close> (the ids of events are unique
  and topics, being base 64, contain no comma), \<open>ascii_symbols\<close> (symbols are read as the text they hold).
  \<open>distinct_claims\<close> is not a law but the condition that every event can be stored and no two events claim the same row.
  Where a statement rests on hashes being distinct, the hypothesis names the finitely many nodes
  concerned (\<open>no_collisions\<close>, \<open>collision_free\<close>), because no function from long inputs to field
  elements is injective. Each property with hypotheses is applied to concrete inputs by its witness.

  Bounds and fuel. \<open>usize\<close> has 32 bits in the off-chain code, as in its WASM target. The depth-first
  search of coin selection carries the code's own iteration limit, 5000, in its context. Its loop
  over pairs of notes moves one of two indexes in each round, but nothing in its form says so: it is a
  \<open>partial_function\<close> whose result is proved to be \<open>Some\<close>. Two more loops have this form: the walk over the pool's root
  history (\<open>scan_roots\<close>), which returns in every state the pool reaches, and the storage worker's loop over batches of
  fifty events (\<open>process_until_empty\<close>), which returns when every event can be stored. No fuel is added anywhere. Loops over
  tree levels recurse on the level, bounded by 32 as in the code, a round of the bootnode on its page
  budget, and loops over lists on the list.

  Not modelled, and why.
  \<^item> The bootnode's PostgreSQL store: its behaviour is that of the SQL statements it sends. The laws of
    \<open>event_storage\<close> are what it has to meet. Its HTTP server, rate limits and metrics.
  \<^item> Opening and migrating the client's database; its statements are modelled, SQLite's locking is not.
  \<^item> The RPC client, the indexer's fetching, the reading of contract state and the assembly of transactions
    (\<open>rpc.rs\<close>, \<open>indexer.rs\<close> and \<open>lib.rs\<close> of \<open>app/crates/core/stellar/src/\<close>): network input and
    output around third-party clients.
  \<^item> The web platform apart from the storage worker and the disclosure check, and the wasm bindings: message
    plumbing and browser interfaces.
  \<^item> The Groth16 arithmetic and the Circom runtime: third-party code, parameters here. The circuits themselves are
    Circom; their equations are restated where a property speaks of them.
  \<^item> The Poseidon2 tables of other fields: the system does not use them.
  \<^item> Decimal parsing, serde and database adapters of amounts, ceremony and
    key tooling, tests, vendored crates and the dashboard.
\<close>

section \<open>Properties that span components\<close>

text \<open>
  C35: Application and contract agree on public amounts. For every \<open>i128\<close> the application's
  conversion \<open>Field::try_from(ExtAmount)\<close> succeeds, its result is canonical and the residue of
  the amount modulo the field order, and it is the value that the pool computes on chain from the
  same amount sign-extended to the host's 256-bit integer; none of the range errors of either
  side can occur.
\<close>

theorem app_and_contract_agree_on_amounts:
  "\<exists>f. field_try_from_ext a = Some f \<and> canonical (field_value f)
     \<and> int (unat (field_value f)) = signed_value a mod int prime
     \<and> calculate_public_amount (scast (ext_value a)) = Inr (field_value f)"
proof -
  obtain f where f: "field_try_from_ext a = Some (Field f)" "canonical f"
    "int (unat f) = signed_value a mod int prime"
    using field_try_from_ext_value by blast
  have "\<bar>sint (ext_value a)\<bar> < 2 ^ 248" "sint (ext_value a) \<noteq> - (2 ^ 255)"
    using sint_128_bounds [of "ext_value a"] unfolding abs_less_iff by auto
  then have "calculate_public_amount (scast (ext_value a))
      = Inr (word_of_int (signed_value a mod int prime))"
    by (simp add: calculate_public_amount_cases sint_scast_256 signed_value_def)
  also have "word_of_int (signed_value a mod int prime) = f"
    unfolding f(3) [symmetric] by simp
  finally show ?thesis using f by auto
qed

text \<open>
  The hypotheses about the prover's hash functions, of the properties of its trees, are met by the
  parameters its statics hold, on a host that computes the permutation with the contracts' constants.
\<close>

lemma deployed_hashes_agree:
  assumes "hex_decodes decode" and "host_computes host"
    and "POSEIDON2_BN256_PARAMS_2 decode = Some p2" and "POSEIDON2_BN256_PARAMS_3 decode = Some p3"
  shows "prover_hashes p2 p3 (leaf_value host) (compress_value host)" "compresses p2 (compress_value host)"
proof -
  have good: "good_host host" by (rule host_computes_good [OF assms(2)])
  have "canonical (leaf_value host a b)" "canonical (compress_value host a b)"
    if "canonical a" "canonical b" for a b
    using that good by (simp_all add: hash_leaf_ok canonical_compress_value)
  then show "prover_hashes p2 p3 (leaf_value host) (compress_value host)"
    using contract_hash_values [OF assms(1,2) _ _ _ assms(3,4), where s = "Some 1"]
    by (simp add: prover_hashes_def leaf_value_def)
  then show "compresses p2 (compress_value host)"
    by (simp add: prover_hashes_def compresses_def)
qed

lemma deployed_hashes_return:
  assumes "hex_decodes decode"
    and "POSEIDON2_BN256_PARAMS_3 decode = Some p3" and "POSEIDON2_BN256_PARAMS_4 decode = Some p4"
  shows "panic_free 3 p3" "panic_free 4 p4"
  using params_total [OF assms(1)] assms(2,3) by (simp_all add: panic_free_def)

end
